(* ===== verification/Gemmini_Prelude.thy ===== *)
theory Gemmini_Prelude
  imports Main "HOL-Library.Word"
begin

text \<open>
  Shared vocabulary of the development: the ways in which the simulated code can stop
  (\<open>error\<close>), a result type with its sequencing \<open>bindE\<close> and its counted loop \<open>foldE\<close>,
  checked access to vectors of vectors (\<open>std::vector::at\<close>), the extraction of bit fields
  from a register, and the generic lemmas about them that all components use.
\<close>

unbundle bit_operations_syntax

section \<open>Types of the simulated program\<close>

type_synonym elem_t = "8 word"    \<comment> \<open>\<open>int8_t\<close>, read with \<open>sint\<close>\<close>
type_synonym acc_t = "32 word"    \<comment> \<open>\<open>int32_t\<close>, read with \<open>sint\<close>\<close>
type_synonym reg_t = "64 word"    \<comment> \<open>Spike's \<open>reg_t\<close>, \<open>uint64_t\<close>\<close>
type_synonym u8 = "8 word"
type_synonym u16 = "16 word"
type_synonym u32 = "32 word"
type_synonym u64 = "64 word"
type_synonym f32 = "32 word"      \<comment> \<open>an IEEE binary32 \<open>float\<close>, by its bits\<close>

section \<open>Results and errors\<close>

text \<open>
  Every way the source leaves a function other than by returning: \<open>std::out_of_range\<close>
  thrown by \<open>vector::at\<close>, a failed \<open>assert\<close>, \<open>exit(1)\<close>, a trap raised by Spike's MMU,
  Spike's illegal-instruction trap, behaviour that C++ leaves undefined (an access past a
  built-in array, the read of an uninitialised local, a conversion of a float that does
  not fit the integer type, a shift by more than the width), and the exhaustion of the fuel
  that bounds the loops whose counter can wrap around.
\<close>

datatype error =
    OutOfRange
  | AssertFail
  | ExitFailure
  | MemTrap
  | IllegalInstruction
  | Undefined
  | OutOfFuel

type_synonym 'a res = "error + 'a"

fun bindE :: "'a res \<Rightarrow> ('a \<Rightarrow> 'b res) \<Rightarrow> 'b res" where
  "bindE (Inl e) f = Inl e"
| "bindE (Inr x) f = f x"

definition guardE :: "error \<Rightarrow> bool \<Rightarrow> unit res" where
  "guardE e b = (if b then Inr () else Inl e)"

primrec foldE :: "('i \<Rightarrow> 's \<Rightarrow> 's res) \<Rightarrow> 'i list \<Rightarrow> 's \<Rightarrow> 's res" where
  "foldE f [] s = Inr s"
| "foldE f (i # is) s = bindE (f i s) (\<lambda>t. foldE f is t)"

text \<open>A loop \<open>for (i = 0; i < n; i++)\<close> whose counter cannot wrap.\<close>

definition forE :: "nat \<Rightarrow> (nat \<Rightarrow> 's \<Rightarrow> 's res) \<Rightarrow> 's \<Rightarrow> 's res" where
  "forE n f = foldE f [0..<n]"

primrec mapE :: "('i \<Rightarrow> 'a res) \<Rightarrow> 'i list \<Rightarrow> 'a list res" where
  "mapE f [] = Inr []"
| "mapE f (x # xs) = bindE (f x) (\<lambda>y. bindE (mapE f xs) (\<lambda>ys. Inr (y # ys)))"

text \<open>A loop whose counter may wrap around: it may not end, and runs with fuel.\<close>

primrec whileE :: "nat \<Rightarrow> ('c \<Rightarrow> bool) \<Rightarrow> ('c \<Rightarrow> 'c) \<Rightarrow> ('c \<Rightarrow> 's \<Rightarrow> 's res) \<Rightarrow> 'c \<Rightarrow> 's \<Rightarrow> 's res" where
  "whileE 0 cond nxt body x s = (if cond x then Inl OutOfFuel else Inr s)"
| "whileE (Suc n) cond nxt body x s =
     (if cond x then bindE (body x s) (\<lambda>t. whileE n cond nxt body (nxt x) t) else Inr s)"

named_theorems spec_simps \<open>unfoldings that turn a model definition into its branches\<close>

subsection \<open>Partial and total postconditions\<close>

definition whenOk :: "'a res \<Rightarrow> ('a \<Rightarrow> bool) \<Rightarrow> bool" where
  "whenOk r Q \<longleftrightarrow> (case r of Inl _ \<Rightarrow> True | Inr x \<Rightarrow> Q x)"

definition succeeds :: "'a res \<Rightarrow> ('a \<Rightarrow> bool) \<Rightarrow> bool" where
  "succeeds r Q \<longleftrightarrow> (case r of Inl _ \<Rightarrow> False | Inr x \<Rightarrow> Q x)"

lemma whenOk_simps [simp]:
  "whenOk (Inl e) Q" "whenOk (Inr x) Q = Q x"
  by (auto simp: whenOk_def)

lemma succeeds_simps [simp]:
  "\<not> succeeds (Inl e) Q" "succeeds (Inr x) Q = Q x"
  by (auto simp: succeeds_def)

lemma whenOkI: "(\<And>x. r = Inr x \<Longrightarrow> Q x) \<Longrightarrow> whenOk r Q"
  by (cases r) auto

lemma whenOkD: "whenOk r Q \<Longrightarrow> r = Inr x \<Longrightarrow> Q x"
  by simp

lemma succeeds_iff: "succeeds r Q \<longleftrightarrow> (\<exists>x. r = Inr x \<and> Q x)"
  by (cases r) auto

lemma whenOk_iff: "whenOk r Q \<longleftrightarrow> (\<forall>x. r = Inr x \<longrightarrow> Q x)"
  by (cases r) auto

lemma succeeds_mono: "succeeds r P \<Longrightarrow> (\<And>x. P x \<Longrightarrow> Q x) \<Longrightarrow> succeeds r Q"
  by (cases r) auto

lemma whenOk_mono: "whenOk r P \<Longrightarrow> (\<And>x. P x \<Longrightarrow> Q x) \<Longrightarrow> whenOk r Q"
  by (cases r) auto

lemma whenOk_bindE: "whenOk r (\<lambda>x. whenOk (f x) Q) \<Longrightarrow> whenOk (bindE r f) Q"
  by (cases r) auto

lemma succeeds_bindE: "succeeds (bindE r f) Q \<longleftrightarrow> succeeds r (\<lambda>x. succeeds (f x) Q)"
  by (cases r) auto

lemma bindE_Inr_iff: "bindE r f = Inr y \<longleftrightarrow> (\<exists>x. r = Inr x \<and> f x = Inr y)"
  by (cases r) auto

lemma bindE_InrE: "bindE r f = Inr y \<Longrightarrow> (\<And>x. r = Inr x \<Longrightarrow> f x = Inr y \<Longrightarrow> P) \<Longrightarrow> P"
  by (auto simp: bindE_Inr_iff)

lemma bindE_assoc: "bindE (bindE r f) g = bindE r (\<lambda>x. bindE (f x) g)"
  by (cases r) auto

lemma bindE_Inr_right [simp]: "bindE r Inr = r"
  by (cases r) auto

lemma guardE_simps [simp]:
  "guardE e True = Inr ()" "guardE e False = Inl e"
  by (auto simp: guardE_def)

lemma guardE_Inr_iff [simp]: "guardE e b = Inr u \<longleftrightarrow> b"
  by (auto simp: guardE_def)

lemma foldE_append: "foldE f (xs @ ys) s = bindE (foldE f xs s) (foldE f ys)"
proof (induction xs arbitrary: s)
  case (Cons x xs)
  then show ?case by (cases "f x s") auto
qed simp

lemma foldE_single [simp]: "foldE f [i] s = f i s"
  by simp

lemma foldE_single_fun [simp]: "foldE f [i] = f i"
  by (rule ext) simp

lemma forE_0 [simp]: "forE 0 f s = Inr s"
  by (simp add: forE_def)

lemma forE_Suc: "forE (Suc n) f s = bindE (forE n f s) (f n)"
  by (cases "foldE f [0..<n] s") (auto simp: forE_def foldE_append)

text \<open>The invariant rule of loops: what every iteration keeps, the loop keeps.\<close>

lemma foldE_invariant:
  assumes "I s" and "\<And>i t. i \<in> set is \<Longrightarrow> I t \<Longrightarrow> whenOk (f i t) I"
  shows "whenOk (foldE f is s) I"
  using assms
proof (induction "is" arbitrary: s)
  case Nil
  then show ?case by simp
next
  case (Cons i "is")
  have "whenOk (f i s) I" using Cons.prems by simp
  then have "whenOk (f i s) (\<lambda>t. whenOk (foldE f is t) I)"
    by (rule whenOk_mono) (use Cons in simp)
  then show ?case by (auto intro: whenOk_bindE)
qed

lemma forE_invariant:
  assumes "I s" and "\<And>i t. i < n \<Longrightarrow> I t \<Longrightarrow> whenOk (f i t) I"
  shows "whenOk (forE n f s) I"
  unfolding forE_def by (rule foldE_invariant) (use assms in auto)

text \<open>The total rule: an invariant indexed by the number of finished iterations.\<close>

lemma forE_succeeds:
  assumes "P 0 s" and "\<And>i t. i < n \<Longrightarrow> P i t \<Longrightarrow> succeeds (f i t) (P (Suc i))"
  shows "succeeds (forE n f s) (P n)"
  using assms
proof (induction n)
  case 0
  then show ?case by simp
next
  case (Suc n)
  have "succeeds (forE n f s) (P n)" using Suc by simp
  then show ?case
    by (auto simp: forE_Suc succeeds_bindE intro: succeeds_mono Suc.prems(2))
qed

text \<open>A loop that gathers: each iteration adds its part to a set.\<close>

lemma foldE_gather:
  assumes "P S s" and "\<And>x S t. x \<in> set xs \<Longrightarrow> P S t \<Longrightarrow> succeeds (f x t) (P (S \<union> T x))"
  shows "succeeds (foldE f xs s) (P (S \<union> (\<Union>x \<in> set xs. T x)))"
  using assms
proof (induction xs arbitrary: S s)
  case (Cons x xs)
  have "succeeds (f x s) (P (S \<union> T x))" using Cons.prems by simp
  then have "succeeds (f x s) (\<lambda>t. succeeds (foldE f xs t) (P ((S \<union> T x) \<union> (\<Union>x \<in> set xs. T x))))"
    by (rule succeeds_mono) (use Cons in simp)
  then show ?case by (simp add: succeeds_bindE Un_assoc)
qed simp

text \<open>The same for partial correctness.\<close>

lemma forE_indexed:
  assumes "P 0 s" and "\<And>i t. i < n \<Longrightarrow> P i t \<Longrightarrow> whenOk (f i t) (P (Suc i))"
  shows "whenOk (forE n f s) (P n)"
  using assms
proof (induction n)
  case 0
  then show ?case by simp
next
  case (Suc n)
  have "whenOk (forE n f s) (P n)" using Suc by simp
  then show ?case using Suc.prems(2) [of n] by (auto simp: forE_Suc whenOk_iff bindE_Inr_iff)
qed

lemma foldE_cong:
  assumes "is = js" and "\<And>i t. i \<in> set js \<Longrightarrow> f i t = g i t"
  shows "foldE f is s = foldE g js s"
proof -
  have "foldE f js s = foldE g js s" if "\<And>i t. i \<in> set js \<Longrightarrow> f i t = g i t" for js s
    using that
  proof (induction js arbitrary: s)
    case (Cons j js)
    have "foldE f js = foldE g js" using Cons by (intro ext) simp
    with Cons.prems show ?case by simp
  qed simp
  with assms show ?thesis by simp
qed

lemma forE_cong:
  assumes "\<And>i t. i < n \<Longrightarrow> f i t = g i t"
  shows "forE n f s = forE n g s"
  unfolding forE_def by (rule foldE_cong) (use assms in auto)

subsection \<open>Nested loops\<close>

definition pairs :: "'i list \<Rightarrow> ('i \<Rightarrow> 'j list) \<Rightarrow> ('i \<times> 'j) list" where
  "pairs is js = concat (map (\<lambda>i. map (Pair i) (js i)) is)"

lemma set_pairs: "set (pairs is js) = (SIGMA i : set is. set (js i))"
  by (auto simp: pairs_def)

lemma distinct_pairs:
  assumes "distinct is" and "\<And>i. i \<in> set is \<Longrightarrow> distinct (js i)"
  shows "distinct (pairs is js)"
  using assms
proof (induction "is")
  case (Cons i "is")
  then have "distinct (pairs is js)" by simp
  with Cons.prems show ?case by (auto simp: pairs_def distinct_map inj_on_def)
qed (simp add: pairs_def)

lemma foldE_map: "foldE f (map g xs) s = foldE (\<lambda>x. f (g x)) xs s"
  by (induction xs arbitrary: s) simp_all

lemma foldE_nested: "foldE (\<lambda>i. foldE (f i) (js i)) is s = foldE (\<lambda>(i, j). f i j) (pairs is js) s"
proof (induction "is" arbitrary: s)
  case Nil
  then show ?case by (simp add: pairs_def)
next
  case (Cons i "is")
  have "pairs (i # is) js = map (Pair i) (js i) @ pairs is js" by (simp add: pairs_def)
  moreover have "foldE (\<lambda>i. foldE (f i) (js i)) is = foldE (\<lambda>(i, j). f i j) (pairs is js)"
    using Cons.IH by blast
  ultimately show ?case by (simp add: foldE_append foldE_map)
qed

lemma forE_nested:
  "forE n (\<lambda>i. forE (m i) (f i)) s = foldE (\<lambda>(i, j). f i j) (pairs [0..<n] (\<lambda>i. [0..<m i])) s"
  by (simp add: forE_def foldE_nested)

section \<open>Stores of cells\<close>

text \<open>
  The interface of everything the simulator writes cell by cell: the scratchpad, the
  accumulator and the processing elements (vectors of vectors), and the memory behind the MMU.
  A write into a valid cell succeeds, is seen by a later read of that cell and of no other,
  and leaves the set of valid cells alone. What the moves need of it, the effect of a whole
  sweep of updates over distinct cells, is proved here once.
\<close>

locale cell_store =
  fixes get :: "'s \<Rightarrow> 'k \<Rightarrow> 'v res"
    and put :: "'s \<Rightarrow> 'k \<Rightarrow> 'v \<Rightarrow> 's res"
    and valid :: "'s \<Rightarrow> 'k \<Rightarrow> bool"
  assumes put_total: "valid s k \<Longrightarrow> \<exists>t. put s k v = Inr t"
    and get_valid: "valid s k \<Longrightarrow> \<exists>v. get s k = Inr v"
    and get_put: "put s k v = Inr t \<Longrightarrow> get t k' = (if k' = k then Inr v else get s k')"
    and valid_put: "put s k v = Inr t \<Longrightarrow> valid t k' = valid s k'"
begin

lemma sweep:
  assumes dist: "distinct (map key xs)"
    and ok: "\<And>x. x \<in> set xs \<Longrightarrow> valid s (key x)"
    and J: "J s" "\<And>t k v u. J t \<Longrightarrow> put t k v = Inr u \<Longrightarrow> J u"
    and step: "\<And>x t v. x \<in> set xs \<Longrightarrow> J t \<Longrightarrow> get t (key x) = Inr v \<Longrightarrow> f x t = put t (key x) (upd x v)"
  shows "succeeds (foldE f xs s) (\<lambda>t. J t \<and> (\<forall>k. valid t k = valid s k) \<and>
    (\<forall>x \<in> set xs. \<forall>v. get s (key x) = Inr v \<longrightarrow> get t (key x) = Inr (upd x v)) \<and>
    (\<forall>k. k \<notin> key ` set xs \<longrightarrow> get t k = get s k))"
  using dist ok J(1) step
proof (induction xs arbitrary: s)
  case Nil
  then show ?case by simp
next
  case (Cons x xs)
  obtain v where v: "get s (key x) = Inr v" using get_valid Cons.prems(2) by fastforce
  obtain t where t: "put s (key x) (upd x v) = Inr t" using put_total Cons.prems(2) by fastforce
  have f: "f x s = Inr t" using Cons.prems(4) [of x s v] Cons.prems(3) v t by simp
  have val: "valid t k = valid s k" for k using valid_put t by blast
  have "succeeds (foldE f xs t) (\<lambda>u. J u \<and> (\<forall>k. valid u k = valid t k) \<and>
    (\<forall>y \<in> set xs. \<forall>w. get t (key y) = Inr w \<longrightarrow> get u (key y) = Inr (upd y w)) \<and>
    (\<forall>k. k \<notin> key ` set xs \<longrightarrow> get u k = get t k))"
    by (rule Cons.IH) (use Cons.prems val J(2) [OF Cons.prems(3) t] in auto)
  then obtain u where u: "foldE f xs t = Inr u" "J u" "\<And>k. valid u k = valid t k"
    "\<And>y w. y \<in> set xs \<Longrightarrow> get t (key y) = Inr w \<Longrightarrow> get u (key y) = Inr (upd y w)"
    "\<And>k. k \<notin> key ` set xs \<Longrightarrow> get u k = get t k"
    by (auto simp: succeeds_iff)
  have ne: "key y \<noteq> key x" if "y \<in> set xs" for y using Cons.prems(1) that by (force simp: image_iff)
  have "get u (key x) = Inr (upd x v)" using u(5) [of "key x"] get_put [OF t] Cons.prems(1) by simp
  moreover have "get u (key y) = Inr (upd y w)" if "y \<in> set xs" "get s (key y) = Inr w" for y w
    using u(4) that ne get_put [OF t] by simp
  ultimately show ?case using f u(1,2,3) val v u(5) get_put [OF t] by auto
qed

text \<open>The same for two nested counted loops.\<close>

lemma sweep_grid:
  assumes inj: "inj_on key ({..<n} \<times> {..<m})"
    and ok: "\<And>i j. i < n \<Longrightarrow> j < m \<Longrightarrow> valid s (key (i, j))"
    and J: "J s" "\<And>t k v u. J t \<Longrightarrow> put t k v = Inr u \<Longrightarrow> J u"
    and step: "\<And>i j t v. i < n \<Longrightarrow> j < m \<Longrightarrow> J t \<Longrightarrow> get t (key (i, j)) = Inr v \<Longrightarrow>
      f i j t = put t (key (i, j)) (upd i j v)"
  shows "succeeds (forE n (\<lambda>i. forE m (f i)) s) (\<lambda>t. J t \<and> (\<forall>k. valid t k = valid s k) \<and>
    (\<forall>i < n. \<forall>j < m. \<forall>v. get s (key (i, j)) = Inr v \<longrightarrow> get t (key (i, j)) = Inr (upd i j v)) \<and>
    (\<forall>k. k \<notin> key ` ({..<n} \<times> {..<m}) \<longrightarrow> get t k = get s k))"
proof -
  let ?xs = "pairs [0..<n] (\<lambda>_. [0..<m])"
  have set: "set ?xs = {..<n} \<times> {..<m}" by (auto simp: set_pairs)
  have "succeeds (foldE (\<lambda>x. f (fst x) (snd x)) ?xs s) (\<lambda>t. J t \<and> (\<forall>k. valid t k = valid s k) \<and>
    (\<forall>x \<in> set ?xs. \<forall>v. get s (key x) = Inr v \<longrightarrow> get t (key x) = Inr (upd (fst x) (snd x) v)) \<and>
    (\<forall>k. k \<notin> key ` set ?xs \<longrightarrow> get t k = get s k))"
  proof (rule sweep)
    show "distinct (map key ?xs)" using inj by (simp add: distinct_map set distinct_pairs)
    show "J s" by (rule J)
    show "\<And>t k v u. J t \<Longrightarrow> put t k v = Inr u \<Longrightarrow> J u" by (rule J)
    show "\<And>x. x \<in> set ?xs \<Longrightarrow> valid s (key x)" using ok by (auto simp: set)
    show "f (fst x) (snd x) t = put t (key x) (upd (fst x) (snd x) v)"
      if "x \<in> set ?xs" "J t" "get t (key x) = Inr v" for x t v
      using step [of "fst x" "snd x" t v] that by (auto simp: set)
  qed
  then show ?thesis by (auto simp: forE_nested split_def set elim!: succeeds_mono)
qed

end

section \<open>Frames\<close>

text \<open>
  A relation between the states before and after that holds of nothing done and of two steps if
  it holds of each: what a step keeps, a program built from such steps keeps. The operations of
  the simulator are composed by sequencing, choice and loops; the lemmas follow that structure,
  so that only the elementary steps of a component have to be looked at.
\<close>

definition keeps :: "('s \<Rightarrow> 's \<Rightarrow> bool) \<Rightarrow> ('s \<Rightarrow> 's res) \<Rightarrow> bool" where
  "keeps R f \<longleftrightarrow> (\<forall>s s'. f s = Inr s' \<longrightarrow> R s s')"

lemma keepsI: "(\<And>s s'. f s = Inr s' \<Longrightarrow> R s s') \<Longrightarrow> keeps R f"
  by (simp add: keeps_def)

lemma keepsD: "keeps R f \<Longrightarrow> f s = Inr s' \<Longrightarrow> R s s'"
  by (simp add: keeps_def)

lemma keeps_weaken: "keeps R f \<Longrightarrow> (\<And>s s'. R s s' \<Longrightarrow> Q s s') \<Longrightarrow> keeps Q f"
  by (auto simp: keeps_def)

lemma keeps_update: "(\<And>s. R s (f s)) \<Longrightarrow> keeps R (\<lambda>s. Inr (f s))"
  by (auto simp: keeps_def)

locale frame =
  fixes R :: "'s \<Rightarrow> 's \<Rightarrow> bool"
  assumes frame_refl: "R s s"
    and frame_trans: "R s t \<Longrightarrow> R t u \<Longrightarrow> R s u"
begin

lemma keeps_Inr: "keeps R Inr"
  by (auto simp: keeps_def frame_refl)

lemma keeps_Inl: "keeps R (\<lambda>s. Inl (e s))"
  by (auto simp: keeps_def)

lemma keeps_bind: "keeps R f \<Longrightarrow> keeps R g \<Longrightarrow> keeps R (\<lambda>s. bindE (f s) g)"
  unfolding keeps_def bindE_Inr_iff using frame_trans by blast

lemma keeps_bind_value: "(\<And>x. keeps R (g x)) \<Longrightarrow> keeps R (\<lambda>s. bindE (v s) (\<lambda>x. g x s))"
  by (auto simp: keeps_def bindE_Inr_iff)

lemma keeps_bind_pair:
  assumes "\<And>s x s'. f s = Inr (x, s') \<Longrightarrow> R s s'" and "\<And>x t. keeps R (g t x)"
  shows "keeps R (\<lambda>s. bindE (f s) (\<lambda>(x, t). g s x t))"
  unfolding keeps_def bindE_Inr_iff using assms(2) frame_trans [OF assms(1)] by (auto simp: keeps_def)

lemma keeps_if: "keeps R f \<Longrightarrow> keeps R g \<Longrightarrow> keeps R (\<lambda>s. if c s then f s else g s)"
  by (auto simp: keeps_def)

lemma keeps_foldE: "(\<And>i. keeps R (f i)) \<Longrightarrow> keeps R (foldE f is)"
proof (induction "is")
  case Nil
  then show ?case using keeps_Inr by simp
next
  case (Cons i "is")
  then show ?case using keeps_bind [of "f i" "foldE f is"] by (simp add: keeps_def)
qed

lemma keeps_forE: "(\<And>i. keeps R (f i)) \<Longrightarrow> keeps R (\<lambda>s. forE (n s) f s)"
  unfolding forE_def by (rule keepsI) (rule keepsD [OF keeps_foldE])

lemma keeps_forE_dep: "(\<And>i t. keeps R (f t i)) \<Longrightarrow> keeps R (\<lambda>s. forE (n s) (f s) s)"
  unfolding forE_def by (rule keepsI) (rule keepsD [OF keeps_foldE])

lemma keeps_whileE: "(\<And>x. keeps R (body x)) \<Longrightarrow> keeps R (\<lambda>s. whileE n cond nxt body x s)"
proof (induction n arbitrary: x)
  case 0
  show ?case by (auto simp: keeps_def frame_refl)
next
  case (Suc n)
  then show ?case
    using keeps_if [OF keeps_bind [OF Suc.prems Suc.IH [OF Suc.prems]] keeps_Inr] by simp
qed

lemma keeps_after: "(\<And>s. R s (h s)) \<Longrightarrow> keeps R f \<Longrightarrow> keeps R (\<lambda>s. f (h s))"
  using frame_trans by (fastforce simp: keeps_def)

lemmas keeps_intros = keeps_Inr keeps_Inl keeps_if keeps_bind keeps_bind_value keeps_forE keeps_foldE keeps_whileE

end

section \<open>Loops with fuel\<close>

lemma funpow_shift: "(f ^^ i) (f x) = (f ^^ Suc i) x"
  by (simp add: funpow_swap1)

lemma whileE_exit:
  assumes "\<not> cond ((nxt ^^ k) x)" "\<And>i. i < k \<Longrightarrow> cond ((nxt ^^ i) x)" "k \<le> m"
  shows "whileE m cond nxt body x s = whileE k cond nxt body x s"
  using assms
proof (induction k arbitrary: m x s)
  case 0
  then show ?case by (cases m) simp_all
next
  case (Suc k)
  obtain m' where m: "m = Suc m'" "k \<le> m'" using Suc.prems(3) by (cases m) auto
  have "cond x" using Suc.prems(2) [of 0] by simp
  moreover have "whileE m' cond nxt body (nxt x) = whileE k cond nxt body (nxt x)"
    by (rule ext, rule Suc.IH) (use Suc.prems(1,2) m(2) in \<open>simp_all only: funpow_shift Suc_less_eq simp_thms\<close>)
  ultimately show ?case by (simp add: m(1))
qed

lemma whileE_ends:
  assumes "whileE n cond nxt body x s = Inr t"
  obtains k where "k \<le> n" "\<not> cond ((nxt ^^ k) x)" "\<And>i. i < k \<Longrightarrow> cond ((nxt ^^ i) x)"
proof -
  have "\<exists>k \<le> n. \<not> cond ((nxt ^^ k) x)"
    using assms
  proof (induction n arbitrary: x s)
    case 0
    then show ?case by (auto split: if_splits)
  next
    case (Suc n)
    show ?case
    proof (cases "cond x")
      case True
      then obtain u where "whileE n cond nxt body (nxt x) u = Inr t" using Suc.prems by (auto simp: bindE_Inr_iff)
      then obtain k where "k \<le> n" "\<not> cond ((nxt ^^ k) (nxt x))" using Suc.IH by blast
      then show ?thesis by (intro exI [of _ "Suc k"]) (simp add: funpow_swap1)
    qed (auto intro: exI [of _ 0])
  qed
  then obtain k where "k \<le> n" "\<not> cond ((nxt ^^ k) x)" by blast
  then have "(LEAST k. \<not> cond ((nxt ^^ k) x)) \<le> n" using Least_le [of "\<lambda>k. \<not> cond ((nxt ^^ k) x)" k] by linarith
  then show ?thesis
    using that LeastI [of "\<lambda>k. \<not> cond ((nxt ^^ k) x)", OF \<open>\<not> cond ((nxt ^^ k) x)\<close>] not_less_Least by blast
qed

text \<open>
  The first counter at which the loop ends is reached before any counter repeats, so a loop
  over a finite set of counters needs no more fuel than the set has elements.
\<close>

lemma first_exit_distinct:
  fixes nxt :: "'c \<Rightarrow> 'c"
  assumes "\<not> cond ((nxt ^^ k) x)" "\<And>i. i < k \<Longrightarrow> cond ((nxt ^^ i) x)"
  shows "inj_on (\<lambda>i. (nxt ^^ i) x) {..k}"
proof (rule linorder_inj_onI)
  fix i j assume ij: "i < j" "i \<in> {..k}" "j \<in> {..k}"
  show "(nxt ^^ i) x \<noteq> (nxt ^^ j) x"
  proof
    assume eq: "(nxt ^^ i) x = (nxt ^^ j) x"
    have "k = (k - j) + j" "k - (j - i) = (k - j) + i" using ij by simp_all
    then have "(nxt ^^ k) x = (nxt ^^ (k - j)) ((nxt ^^ j) x)" "(nxt ^^ (k - (j - i))) x = (nxt ^^ (k - j)) ((nxt ^^ i) x)"
      by (metis comp_apply funpow_add)+
    then have "(nxt ^^ k) x = (nxt ^^ (k - (j - i))) x" by (simp only: eq)
    moreover have "k - (j - i) < k" using ij by auto
    ultimately show False using assms(1) assms(2) by metis
  qed
qed auto

lemma whileE_fuel:
  assumes "finite S" "card S \<le> N" "x \<in> S" "\<And>y. y \<in> S \<Longrightarrow> nxt y \<in> S"
    and "whileE n cond nxt body x s = Inr t"
  shows "whileE N cond nxt body x s = Inr t"
proof -
  obtain k where k: "k \<le> n" "\<not> cond ((nxt ^^ k) x)" "\<And>i. i < k \<Longrightarrow> cond ((nxt ^^ i) x)"
    using whileE_ends [OF assms(5)] by metis
  have "(nxt ^^ i) x \<in> S" for i using assms(3,4) by (induction i) simp_all
  then have "card ((\<lambda>i. (nxt ^^ i) x) ` {..k}) \<le> card S" using assms(1) by (intro card_mono) auto
  then have "Suc k \<le> card S" using card_image [OF first_exit_distinct [of cond k nxt x]] k(2,3) by simp
  then have "k \<le> N" using assms(2) by linarith
  then have "whileE N cond nxt body x s = whileE k cond nxt body x s"
    by (intro whileE_exit) (use k in blast)+
  moreover have "whileE n cond nxt body x s = whileE k cond nxt body x s"
    by (intro whileE_exit) (use k in blast)+
  ultimately show ?thesis using assms(5) by simp
qed

text \<open>A loop whose condition never fails returns with no fuel whatever.\<close>

lemma whileE_diverges:
  assumes "\<And>k. cond ((nxt ^^ k) x)"
  shows "whileE n cond nxt body x s \<noteq> Inr t"
  using assms whileE_ends by metis

text \<open>A loop that ends runs its body on the counters it passes.\<close>

lemma whileE_foldE:
  assumes "\<not> cond ((nxt ^^ k) x)" "\<And>i. i < k \<Longrightarrow> cond ((nxt ^^ i) x)" "k \<le> n"
  shows "whileE n cond nxt body x s = foldE body (map (\<lambda>i. (nxt ^^ i) x) [0..<k]) s"
proof -
  have "whileE k cond nxt body x s = foldE body (map (\<lambda>i. (nxt ^^ i) x) [0..<k]) s"
    using assms(1,2)
  proof (induction k arbitrary: x s)
    case (Suc k)
    have "cond x" using Suc.prems(2) [of 0] by simp
    moreover have "whileE k cond nxt body (nxt x) = foldE body (map (\<lambda>i. (nxt ^^ i) (nxt x)) [0..<k])"
      by (rule ext, rule Suc.IH) (use Suc.prems in \<open>simp_all only: funpow_shift Suc_less_eq simp_thms\<close>)
    moreover have "map (\<lambda>i. (nxt ^^ i) x) [0..<Suc k] = x # map (\<lambda>i. (nxt ^^ i) (nxt x)) [0..<k]"
      by (simp add: upt_conv_Cons map_Suc_upt [symmetric] funpow_swap1 o_def del: upt_Suc)
    ultimately show ?case by (simp del: upt_Suc)
  qed simp
  moreover have "whileE n cond nxt body x s = whileE k cond nxt body x s"
    by (intro whileE_exit) (use assms in blast)+
  ultimately show ?thesis by simp
qed

section \<open>Machines\<close>

text \<open>
  A machine executes instructions one after the other and stops at the first error. What
  every instruction keeps holds in every state a program can reach.
\<close>

locale machine =
  fixes exec :: "'i \<Rightarrow> 's \<Rightarrow> ('o \<times> 's) res"
    and inv :: "'s \<Rightarrow> bool"
  assumes exec_inv: "inv s \<Longrightarrow> exec i s = Inr (out, s') \<Longrightarrow> inv s'"
begin

primrec run :: "'i list \<Rightarrow> 's \<Rightarrow> 's res" where
  "run [] s = Inr s"
| "run (i # is) s = bindE (exec i s) (\<lambda>(_, t). run is t)"

lemma run_append: "run (is @ js) s = bindE (run is s) (run js)"
proof (induction "is" arbitrary: s)
  case (Cons i "is")
  then show ?case by (cases "exec i s") auto
qed simp

lemma run_inv: "inv s \<Longrightarrow> run is s = Inr s' \<Longrightarrow> inv s'"
  by (induction "is" arbitrary: s) (auto simp: bindE_Inr_iff dest: exec_inv)

end

end
