(* ===== verification/Gemmini_Float.thy ===== *)
theory Gemmini_Float
  imports Complex_Main Gemmini_Prelude
begin

text \<open>
  The C++ type \<open>float\<close> as the code uses it: IEEE binary32 with round-to-nearest-even, by bit
  patterns (the unions of the source reinterpret the bits, so the bits are the value).
  The operations are executable on integers; their meaning is stated over the rationals
  (\<open>f32_rat\<close>) with the rounding \<open>rhe\<close> (round half to even), which is also the reference
  for the rounding macros of the parameter header.
\<close>

section \<open>Round half to even\<close>

definition rhe :: "rat \<Rightarrow> int" where
  "rhe x = (let f = \<lfloor>x\<rfloor>; r = x - of_int f in
     if r < 1/2 then f else if 1/2 < r then f + 1 else if even f then f else f + 1)"

definition rne_div :: "int \<Rightarrow> int \<Rightarrow> int" where
  "rne_div n d = (let k = n div d; r = n mod d in
     if d < 2 * r \<or> (2 * r = d \<and> odd k) then k + 1 else k)"

lemma rhe_of_int [simp]: "rhe (of_int n) = n"
  by (simp add: rhe_def)

lemma rhe_unique:
  assumes "\<bar>x - of_int k\<bar> < 1/2"
  shows "rhe x = k"
proof (cases "of_int k \<le> x")
  case True
  with assms have "\<lfloor>x\<rfloor> = k" by (intro floor_unique) auto
  with assms True show ?thesis by (simp add: rhe_def)
next
  case False
  with assms have "\<lfloor>x\<rfloor> = k - 1" by (intro floor_unique) (auto simp: field_simps)
  with assms False show ?thesis by (auto simp: rhe_def Let_def field_simps)
qed

lemma rhe_error: "\<bar>x - of_int (rhe x)\<bar> \<le> 1/2"
proof -
  have "of_int \<lfloor>x\<rfloor> \<le> x" "x < of_int \<lfloor>x\<rfloor> + 1" by linarith+
  then show ?thesis by (auto simp: rhe_def Let_def abs_le_iff)
qed

lemma rhe_mono_int_le: "of_int k \<le> x \<Longrightarrow> k \<le> rhe x"
proof -
  assume "of_int k \<le> x"
  then have "k \<le> \<lfloor>x\<rfloor>" by (simp add: le_floor_iff)
  then show ?thesis by (auto simp: rhe_def Let_def)
qed

lemma rhe_mono_int_ge: "x \<le> of_int k \<Longrightarrow> rhe x \<le> k"
proof (cases "x = of_int k")
  case False
  assume "x \<le> of_int k"
  with False have "\<lfloor>x\<rfloor> < k" by (simp add: floor_less_iff)
  then show ?thesis by (auto simp: rhe_def Let_def)
qed simp

lemma rne_div_rhe:
  assumes "0 < d"
  shows "rne_div n d = rhe (of_int n / of_int d)"
proof -
  have f: "\<lfloor>(of_int n :: rat) / of_int d\<rfloor> = n div d"
    by (rule floor_divide_of_int_eq)
  have nd: "(of_int n :: rat) = of_int (n div d) * of_int d + of_int (n mod d)"
    by (metis div_mult_mod_eq of_int_add of_int_mult)
  have r: "(of_int n :: rat) / of_int d - of_int (n div d) = of_int (n mod d) / of_int d"
    using assms by (simp add: nd add_divide_distrib)
  have t: "(of_int (n mod d) :: rat) * 2 = of_int (2 * (n mod d))"
    "2 * (of_int (n mod d) :: rat) = of_int (2 * (n mod d))" by simp_all
  have lt: "(of_int (n mod d) :: rat) / of_int d < 1/2 \<longleftrightarrow> 2 * (n mod d) < d"
    using assms by (simp add: divide_less_eq t del: of_int_mult)
  have gt: "1/2 < (of_int (n mod d) :: rat) / of_int d \<longleftrightarrow> d < 2 * (n mod d)"
    using assms by (simp add: less_divide_eq t del: of_int_mult)
  show ?thesis
    unfolding rhe_def rne_div_def Let_def f
    using lt gt r by auto
qed

section \<open>Bit patterns and their values\<close>

datatype fval = FNaN | FInf bool | FFin bool int int  \<comment> \<open>sign, significand, exponent\<close>

definition f32_decode :: "f32 \<Rightarrow> fval" where
  "f32_decode w = (let s = bit w 31; b = uint w mod 2 ^ 31; e = b div 2 ^ 23; m = b mod 2 ^ 23 in
     if e = 255 then (if m = 0 then FInf s else FNaN)
     else if e = 0 then FFin s m (-149)
     else FFin s (m + 2 ^ 23) (e - 150))"

definition f32_sign :: "bool \<Rightarrow> int \<Rightarrow> f32" where
  "f32_sign s b = of_int (if s then 2 ^ 31 + b else b)"

definition f32_nan :: f32 where "f32_nan = 0x7FC00000"

definition f32_inf :: "bool \<Rightarrow> f32" where "f32_inf s = f32_sign s (255 * 2 ^ 23)"

text \<open>
  The number of binary digits, and with it the integer part of the binary logarithm of a
  positive quotient \<open>p / q\<close>.
\<close>

fun ibits :: "int \<Rightarrow> nat" where
  "ibits n = (if n \<le> 0 then 0 else Suc (ibits (n div 2)))"

declare ibits.simps [simp del]

definition ilog2 :: "int \<Rightarrow> int \<Rightarrow> int" where
  "ilog2 p q = (let d = int (ibits p) - int (ibits q) in
     if q * 2 ^ nat d \<le> p * 2 ^ nat (- d) then d else d - 1)"

definition f32_ulp :: "int \<Rightarrow> int \<Rightarrow> int" where
  "f32_ulp p q = max (ilog2 p q - 23) (-149)"

text \<open>The float nearest to \<open>p / q\<close> with the given sign; overflow gives the infinity.\<close>

definition f32_round :: "bool \<Rightarrow> int \<Rightarrow> int \<Rightarrow> f32" where
  "f32_round s p q = (if p = 0 then f32_sign s 0
     else let u = f32_ulp p q; k = rne_div (p * 2 ^ nat (- u)) (q * 2 ^ nat u)
          in f32_sign s (min ((u + 149) * 2 ^ 23 + k) (255 * 2 ^ 23)))"

definition f32_round_scaled :: "bool \<Rightarrow> int \<Rightarrow> int \<Rightarrow> f32" where
  "f32_round_scaled s m e = f32_round s (m * 2 ^ nat e) (2 ^ nat (- e))"

section \<open>Arithmetic, comparison and conversion\<close>

definition f32_of_int :: "int \<Rightarrow> f32" where
  "f32_of_int n = f32_round (n < 0) \<bar>n\<bar> 1"

definition f32_neg :: "f32 \<Rightarrow> f32" where
  "f32_neg w = w XOR 0x80000000"

fun fval_mul :: "fval \<Rightarrow> fval \<Rightarrow> f32" where
  "fval_mul (FFin s m e) (FFin t n f) = f32_round_scaled (s \<noteq> t) (m * n) (e + f)"
| "fval_mul (FInf s) (FInf t) = f32_inf (s \<noteq> t)"
| "fval_mul (FInf s) (FFin t n f) = (if n = 0 then f32_nan else f32_inf (s \<noteq> t))"
| "fval_mul (FFin s m e) (FInf t) = (if m = 0 then f32_nan else f32_inf (s \<noteq> t))"
| "fval_mul _ _ = f32_nan"

definition f32_mul :: "f32 \<Rightarrow> f32 \<Rightarrow> f32" where
  "f32_mul a b = fval_mul (f32_decode a) (f32_decode b)"

text \<open>The integer \<open>\<plusminus> m * 2 ^ (e - z)\<close>, for \<open>z \<le> e\<close>.\<close>

definition fin_at :: "bool \<Rightarrow> int \<Rightarrow> int \<Rightarrow> int \<Rightarrow> int" where
  "fin_at s m e z = (if s then - 1 else 1) * m * 2 ^ nat (e - z)"

fun fval_add :: "fval \<Rightarrow> fval \<Rightarrow> f32" where
  "fval_add (FFin s m e) (FFin t n f) =
     (let z = min e f; v = fin_at s m e z + fin_at t n f z in
      if v = 0 then f32_sign (s \<and> t) 0 else f32_round_scaled (v < 0) \<bar>v\<bar> z)"
| "fval_add (FInf s) (FInf t) = (if s = t then f32_inf s else f32_nan)"
| "fval_add (FInf s) (FFin t n f) = f32_inf s"
| "fval_add (FFin s m e) (FInf t) = f32_inf t"
| "fval_add _ _ = f32_nan"

definition f32_add :: "f32 \<Rightarrow> f32 \<Rightarrow> f32" where
  "f32_add a b = fval_add (f32_decode a) (f32_decode b)"

definition f32_sub :: "f32 \<Rightarrow> f32 \<Rightarrow> f32" where
  "f32_sub a b = f32_add a (f32_neg b)"

fun fval_div :: "fval \<Rightarrow> fval \<Rightarrow> f32" where
  "fval_div (FFin s m e) (FFin t n f) =
     (if n = 0 then (if m = 0 then f32_nan else f32_inf (s \<noteq> t))
      else f32_round (s \<noteq> t) (m * 2 ^ nat (e - f)) (n * 2 ^ nat (f - e)))"
| "fval_div (FInf s) (FFin t n f) = f32_inf (s \<noteq> t)"
| "fval_div (FFin s m e) (FInf t) = f32_sign (s \<noteq> t) 0"
| "fval_div _ _ = f32_nan"

definition f32_div :: "f32 \<Rightarrow> f32 \<Rightarrow> f32" where
  "f32_div a b = fval_div (f32_decode a) (f32_decode b)"

fun fval_lt :: "fval \<Rightarrow> fval \<Rightarrow> bool" where
  "fval_lt (FFin s m e) (FFin t n f) =
     (fin_at s m e (min e f) < fin_at t n f (min e f))"
| "fval_lt (FInf s) (FInf t) = (s \<and> \<not> t)"
| "fval_lt (FInf s) (FFin t n f) = s"
| "fval_lt (FFin s m e) (FInf t) = (\<not> t)"
| "fval_lt _ _ = False"

definition f32_lt :: "f32 \<Rightarrow> f32 \<Rightarrow> bool" where
  "f32_lt a b = fval_lt (f32_decode a) (f32_decode b)"

text \<open>
  Conversion to a signed integer type of \<open>w\<close> bits: truncation towards zero, undefined for
  NaN, the infinities and results that do not fit.
\<close>

fun fval_trunc :: "fval \<Rightarrow> int res" where
  "fval_trunc (FFin s m e) =
     Inr ((if s then - 1 else 1) *
          (m * 2 ^ nat e div 2 ^ nat (- e)))"
| "fval_trunc _ = Inl Undefined"

definition f32_to_sint :: "nat \<Rightarrow> f32 \<Rightarrow> int res" where
  "f32_to_sint w x = bindE (fval_trunc (f32_decode x)) (\<lambda>n.
     if - (2 ^ (w - 1)) \<le> n \<and> n < 2 ^ (w - 1) then Inr n else Inl Undefined)"

section \<open>The value of a float\<close>

fun fval_rat :: "fval \<Rightarrow> rat" where
  "fval_rat (FFin s m e) = (if s then - 1 else 1) * of_int m * 2 powi e"
| "fval_rat _ = 0"

fun fval_finite :: "fval \<Rightarrow> bool" where
  "fval_finite (FFin s m e) = True"
| "fval_finite _ = False"

definition f32_rat :: "f32 \<Rightarrow> rat" where "f32_rat w = fval_rat (f32_decode w)"

definition f32_finite :: "f32 \<Rightarrow> bool" where "f32_finite w = fval_finite (f32_decode w)"

lemma powi_nat_split: "(2 :: rat) powi e = 2 ^ nat e / 2 ^ nat (- e)"
  by (simp add: power_int_def field_simps)

lemma powi_not_neg [simp]: "\<not> 2 powi i < (0 :: rat)"
  by (simp add: not_less)

lemma ibits_bounds:
  assumes "0 < n"
  shows "2 ^ ibits n \<le> 2 * n \<and> n < 2 ^ ibits n"
  using assms
proof (induction n rule: ibits.induct)
  case (1 n)
  show ?case
  proof (cases "n = 1")
    case True
    then show ?thesis by (simp add: ibits.simps)
  next
    case False
    with "1.prems" have pos: "0 < n div 2" by presburger
    with "1" have "2 ^ ibits (n div 2) \<le> 2 * (n div 2)" "n div 2 < 2 ^ ibits (n div 2)" by auto
    with "1.prems" show ?thesis by (subst ibits.simps, subst ibits.simps) auto
  qed
qed

lemma ibits_pos: "0 < n \<Longrightarrow> 0 < ibits n"
  by (subst ibits.simps) simp

lemma ilog2_bounds:
  assumes "0 < p" "0 < q"
  shows "2 powi ilog2 p q \<le> (of_int p / of_int q :: rat)"
    and "(of_int p / of_int q :: rat) < 2 powi (ilog2 p q + 1)"
proof -
  define a where "a = ibits p"
  define b where "b = ibits q"
  define d where "d = int a - int b"
  have P: "(2 :: rat) ^ a \<le> 2 * of_int p" "of_int p < (2 :: rat) ^ a"
    using ibits_bounds [OF assms(1)] unfolding a_def
    by (metis of_int_le_iff of_int_mult of_int_numeral of_int_power,
        metis of_int_less_iff of_int_numeral of_int_power)
  have Q: "(2 :: rat) ^ b \<le> 2 * of_int q" "of_int q < (2 :: rat) ^ b"
    using ibits_bounds [OF assms(2)] unfolding b_def
    by (metis of_int_le_iff of_int_mult of_int_numeral of_int_power,
        metis of_int_less_iff of_int_numeral of_int_power)
  have q0: "(0 :: rat) < of_int q" using assms by simp
  have pd: "(2 :: rat) powi d = 2 ^ a / 2 ^ b"
    by (simp add: d_def power_int_diff)
  have up: "(of_int p / of_int q :: rat) < 2 powi (d + 1)"
  proof -
    have "(of_int p :: rat) * 2 ^ b < 2 ^ a * (2 * of_int q)"
      by (rule mult_less_le_imp_less) (use P Q q0 assms in auto)
    then have "(of_int p :: rat) * 2 ^ b < 2 ^ a * 2 * of_int q" by (simp add: mult_ac)
    then show ?thesis using q0 by (simp add: power_int_add pd field_simps)
  qed
  have lo: "2 powi (d - 1) \<le> (of_int p / of_int q :: rat)"
  proof -
    have "(2 :: rat) ^ a * of_int q \<le> (2 * of_int p) * 2 ^ b"
      by (rule mult_mono) (use P Q q0 assms in auto)
    then show ?thesis using q0 by (simp add: power_int_diff pd field_simps)
  qed
  have test: "q * 2 ^ nat d \<le> p * 2 ^ nat (- d) \<longleftrightarrow> 2 powi d \<le> (of_int p / of_int q :: rat)"
  proof -
    have "(of_int (q * 2 ^ nat d) :: rat) \<le> of_int (p * 2 ^ nat (- d)) \<longleftrightarrow>
      q * 2 ^ nat d \<le> p * 2 ^ nat (- d)"
      by (rule of_int_le_iff)
    then show ?thesis using q0 by (simp add: powi_nat_split field_simps)
  qed
  have e: "ilog2 p q = (if 2 powi d \<le> (of_int p / of_int q :: rat) then d else d - 1)"
    using test by (simp add: ilog2_def Let_def a_def [symmetric] b_def [symmetric] d_def [symmetric])
  show "2 powi ilog2 p q \<le> (of_int p / of_int q :: rat)"
    using lo by (simp add: e)
  show "(of_int p / of_int q :: rat) < 2 powi (ilog2 p q + 1)"
    using up by (simp add: e)
qed

lemma f32_decode_sign:
  assumes "0 \<le> b" "b < 255 * 2 ^ 23"
  shows "f32_decode (f32_sign s b) =
    (if b < 2 ^ 23 then FFin s b (-149) else FFin s (b mod 2 ^ 23 + 2 ^ 23) (b div 2 ^ 23 - 150))"
proof -
  define w where "w = (if s then 2 ^ 31 + b else b)"
  have w: "0 \<le> w" "w < 2 ^ 32" "w mod 2 ^ 31 = b" and odd: "odd (w div 2 ^ 31) = s"
    using assms by (auto simp: w_def)
  have u: "uint (of_int w :: f32) = w"
    using w by (simp add: uint_word_of_int take_bit_int_eq_self)
  have bitw: "bit (of_int w :: f32) 31 = s"
    using odd by (simp only: bit_word_of_int_iff) (simp add: bit_iff_odd)
  have "b div 2 ^ 23 \<noteq> 255" using assms by simp
  moreover have "b div 2 ^ 23 = 0 \<longleftrightarrow> b < 2 ^ 23" using assms by (auto simp: zdiv_eq_0_iff)
  ultimately show ?thesis
    unfolding f32_decode_def f32_sign_def w_def [symmetric] Let_def u bitw w(3)
    using assms by auto
qed

lemma f32_rat_sign:
  assumes "0 \<le> K" "K \<le> 2 ^ 24" "-149 \<le> u" "u = -149 \<or> 2 ^ 23 \<le> K"
    and "(u + 149) * 2 ^ 23 + K < 255 * 2 ^ 23"
  shows "f32_finite (f32_sign s ((u + 149) * 2 ^ 23 + K)) \<and>
    f32_rat (f32_sign s ((u + 149) * 2 ^ 23 + K)) = (if s then - 1 else 1) * of_int K * 2 powi u"
proof -
  define b where "b = (u + 149) * 2 ^ 23 + K"
  have b: "0 \<le> b" "b < 255 * 2 ^ 23" using assms by (auto simp: b_def)
  note dec = f32_decode_sign [OF b, of s]
  consider "b < 2 ^ 23" | "2 ^ 23 \<le> b" "K < 2 ^ 24" | "K = 2 ^ 24" using assms(2) by linarith
  then show ?thesis
  proof cases
    case 1
    with assms(1) have "(u + 149) * 2 ^ 23 < 2 ^ 23" by (simp add: b_def)
    then have "u + 149 < 1" by simp
    with assms(3) have "u = -149" "b = K" by (auto simp: b_def)
    with 1 dec show ?thesis
      unfolding b_def [symmetric] f32_finite_def f32_rat_def by simp
  next
    case 2
    then have "2 ^ 23 \<le> K" using assms by (auto simp: b_def)
    then have d: "b div 2 ^ 23 = u + 150"
      using 2 assms by (auto simp: b_def)
    moreover have "b mod 2 ^ 23 = b - b div 2 ^ 23 * 2 ^ 23" by (simp add: minus_div_mult_eq_mod)
    ultimately have "b mod 2 ^ 23 = K - 2 ^ 23" by (simp add: b_def)
    with d 2 dec show ?thesis
      unfolding b_def [symmetric] f32_finite_def f32_rat_def by simp
  next
    case 3
    then have "b div 2 ^ 23 = u + 151" "b mod 2 ^ 23 = 0" "\<not> b < 2 ^ 23"
      using assms by (auto simp: b_def)
    with 3 dec show ?thesis
      unfolding b_def [symmetric] f32_finite_def f32_rat_def by (simp add: power_int_add)
  qed
qed


lemma f32_round_value:
  assumes "0 < p" "0 < q"
  defines "x \<equiv> (of_int p / of_int q :: rat)"
  defines "u \<equiv> f32_ulp p q"
  defines "K \<equiv> rhe (x / 2 powi u)"
  assumes fits: "(u + 149) * 2 ^ 23 + K < 255 * 2 ^ 23"
  shows "f32_finite (f32_round s p q) \<and>
    f32_rat (f32_round s p q) = (if s then - 1 else 1) * of_int K * 2 powi u"
proof -
  have K: "rne_div (p * 2 ^ nat (- u)) (q * 2 ^ nat u) = K"
    using assms(2) by (simp add: rne_div_rhe K_def x_def powi_nat_split)
  have r: "f32_round s p q = f32_sign s ((u + 149) * 2 ^ 23 + K)"
    using assms(1) fits by (simp add: f32_round_def Let_def u_def [symmetric] K)
  have lo: "2 powi ilog2 p q \<le> x" and hi: "x < 2 powi (ilog2 p q + 1)"
    using ilog2_bounds [OF assms(1,2)] by (auto simp: x_def)
  have xpos: "0 \<le> x" using assms(1,2) by (simp add: x_def)
  have u: "-149 \<le> u" "ilog2 p q - 23 \<le> u" by (auto simp: u_def f32_ulp_def)
  have K0: "0 \<le> K"
    unfolding K_def by (rule rhe_mono_int_le) (simp add: xpos)
  have "x / 2 powi u \<le> 2 powi (ilog2 p q + 1) / 2 powi u"
    by (rule divide_right_mono) (use hi in auto)
  also have "\<dots> = 2 powi (ilog2 p q + 1 - u)" by (simp add: power_int_diff)
  also have "\<dots> \<le> 2 powi (int 24)" by (rule power_int_increasing) (use u in auto)
  finally have K24: "K \<le> 2 ^ 24"
    unfolding K_def by (intro rhe_mono_int_ge) simp
  have norm: "2 ^ 23 \<le> K" if "u \<noteq> -149"
  proof -
    from that have ue: "u = ilog2 p q - 23" by (auto simp: u_def f32_ulp_def max_def split: if_splits)
    have "(2 :: rat) powi (int 23) = 2 powi (ilog2 p q - u)" by (simp add: ue)
    also have "\<dots> = 2 powi ilog2 p q / 2 powi u" by (simp add: power_int_diff)
    also have "\<dots> \<le> x / 2 powi u" by (rule divide_right_mono) (use lo in auto)
    finally show ?thesis unfolding K_def by (intro rhe_mono_int_le) simp
  qed
  from f32_rat_sign [OF K0 K24 u(1) _ fits] norm show ?thesis
    unfolding r by blast
qed

lemma f32_round_zero: "f32_finite (f32_round s 0 q) \<and> f32_rat (f32_round s 0 q) = 0"
  using f32_decode_sign [of 0 s] by (simp add: f32_round_def f32_finite_def f32_rat_def)

text \<open>A value with at most 24 significant bits inside the exponent range is rounded to itself.\<close>

lemma f32_round_exact:
  assumes "0 < q" "0 \<le> k" "k < 2 ^ 24" "-149 \<le> z" "z \<le> 104"
    and x: "(of_int p / of_int q :: rat) = of_int k * 2 powi z"
  shows "f32_finite (f32_round s p q) \<and>
    f32_rat (f32_round s p q) = (if s then - 1 else 1) * of_int k * 2 powi z"
proof (cases "k = 0")
  case True
  then have "p = 0" using x assms(1) by simp
  with True show ?thesis using f32_round_zero by simp
next
  case False
  with assms have k: "0 < k" by simp
  have "0 < (of_int p / of_int q :: rat)" using k by (simp add: x)
  then have p: "0 < p" using assms(1) by (simp add: zero_less_divide_iff)
  define u where "u = f32_ulp p q"
  define E where "E = ilog2 p q"
  have lo: "2 powi E \<le> (of_int p / of_int q :: rat)" and hi: "(of_int p / of_int q :: rat) < 2 powi (E + 1)"
    using ilog2_bounds [OF p assms(1)] by (auto simp: E_def)
  have "(2 :: rat) powi E < 2 ^ 24 * 2 powi z"
  proof -
    have "(of_int k :: rat) < 2 ^ 24" using assms(3) by (metis of_int_less_iff of_int_numeral of_int_power)
    then have "of_int k * (2 :: rat) powi z < 2 ^ 24 * 2 powi z" by simp
    with lo x show ?thesis by linarith
  qed
  also have "\<dots> = 2 powi (24 + z)" by (simp add: power_int_add)
  finally have "\<not> (2 :: rat) powi (24 + z) \<le> 2 powi E" by simp
  then have "E < 24 + z" using power_int_increasing [of "24 + z" E "2 :: rat"] by force
  then have uz: "u \<le> z" using assms(4) by (simp add: u_def f32_ulp_def E_def)
  define K where "K = k * 2 ^ nat (z - u)"
  have xu: "(of_int p / of_int q :: rat) / 2 powi u = of_int K"
    using uz by (simp add: x K_def power_int_diff flip: power_int_of_nat)
  have rK: "rhe ((of_int p / of_int q :: rat) / 2 powi u) = K"
    unfolding xu by simp
  have Ku: "of_int K * (2 :: rat) powi u = of_int k * 2 powi z"
    using xu x by (simp add: field_simps)
  have fits: "(u + 149) * 2 ^ 23 + K < 255 * 2 ^ 23"
  proof -
    have "(of_int K :: rat) < 2 powi (E + 1) / 2 powi u"
      unfolding xu [symmetric] by (rule divide_strict_right_mono) (use hi in auto)
    also have "\<dots> = 2 powi (E + 1 - u)" by (simp add: power_int_diff)
    also have "\<dots> \<le> 2 powi (int 24)"
      by (rule power_int_increasing) (auto simp: u_def f32_ulp_def E_def)
    finally have "K < 2 ^ 24" by (metis of_int_less_iff of_int_numeral of_int_power power_int_of_nat)
    with uz assms(5) show ?thesis by simp
  qed
  from f32_round_value [OF p assms(1), of s] fits rK show ?thesis
    by (simp add: u_def [symmetric] mult.assoc Ku)
qed


subsection \<open>Operations through their rational values\<close>

lemma f32_decode_finite:
  assumes "f32_finite w"
  obtains s m e where "f32_decode w = FFin s m e" "0 \<le> m" "m < 2 ^ 24" "-149 \<le> e" "e \<le> 104"
proof -
  define b where "b = uint w mod 2 ^ 31"
  have b: "0 \<le> b" "b < 2 ^ 31" by (auto simp: b_def)
  then have d: "0 \<le> b div 2 ^ 23" "b div 2 ^ 23 < 256" by auto
  have m: "0 \<le> b mod 2 ^ 23" "b mod 2 ^ 23 < 2 ^ 23" by auto
  show ?thesis
    using assms that d m unfolding f32_finite_def f32_decode_def Let_def b_def [symmetric]
    by (auto split: if_splits)
qed

lemma f32_round_scaled_quot:
  "(of_int (m * 2 ^ nat e) / of_int (2 ^ nat (- e)) :: rat) = of_int m * 2 powi e"
  by (simp add: powi_nat_split)

lemma f32_round_scaled_exact:
  assumes "0 \<le> k" "k < 2 ^ 24" "-149 \<le> z" "z \<le> 104"
    and "(of_int m * 2 powi e :: rat) = of_int k * 2 powi z"
  shows "f32_finite (f32_round_scaled s m e) \<and>
    f32_rat (f32_round_scaled s m e) = (if s then - 1 else 1) * of_int k * 2 powi z"
  unfolding f32_round_scaled_def
  by (rule f32_round_exact) (use assms f32_round_scaled_quot [of m e] in auto)

lemma f32_of_int_exact:
  assumes "\<bar>n\<bar> < 2 ^ 24"
  shows "f32_finite (f32_of_int n)" "f32_rat (f32_of_int n) = of_int n"
  using f32_round_exact [of 1 "\<bar>n\<bar>" 0 "\<bar>n\<bar>" "n < 0"] assms by (auto simp: f32_of_int_def)

lemma f32_lt_rat:
  assumes "f32_finite a" "f32_finite b"
  shows "f32_lt a b \<longleftrightarrow> f32_rat a < f32_rat b"
proof -
  obtain s m e where A: "f32_decode a = FFin s m e" by (rule f32_decode_finite [OF assms(1)])
  obtain t n f where B: "f32_decode b = FFin t n f" by (rule f32_decode_finite [OF assms(2)])
  have at: "(of_int (fin_at r l g z) :: rat) * 2 powi z = (if r then - 1 else 1) * of_int l * 2 powi g"
    if "z \<le> g" for r l g z
    using that by (simp add: fin_at_def power_int_diff flip: power_int_of_nat)
  let ?z = "min e f"
  have "fin_at s m e ?z < fin_at t n f ?z \<longleftrightarrow>
    (of_int (fin_at s m e ?z) :: rat) * 2 powi ?z < of_int (fin_at t n f ?z) * 2 powi ?z"
    by simp
  then show ?thesis
    by (simp add: f32_lt_def f32_rat_def A B at)
qed

definition rat_trunc :: "rat \<Rightarrow> int" where
  "rat_trunc x = (if x < 0 then \<lceil>x\<rceil> else \<lfloor>x\<rfloor>)"

lemma f32_trunc_rat:
  assumes "f32_finite a"
  shows "fval_trunc (f32_decode a) = Inr (rat_trunc (f32_rat a))"
proof -
  obtain s m e where A: "f32_decode a = FFin s m e" and m: "0 \<le> m"
    by (rule f32_decode_finite [OF assms])
  define k where "k = m * 2 ^ nat e div 2 ^ nat (- e)"
  have q: "(of_int m * 2 powi e :: rat) = of_int (m * 2 ^ nat e) / of_int (2 ^ nat (- e))"
    by (simp add: f32_round_scaled_quot [symmetric])
  have k: "k = \<lfloor>of_int m * 2 powi e :: rat\<rfloor>"
    unfolding q k_def by (rule floor_divide_of_int_eq [symmetric])
  have c: "\<lceil>- (of_int m * 2 powi e :: rat)\<rceil> = - k"
    by (simp add: k ceiling_def)
  have nn: "\<not> (of_int m * 2 powi e :: rat) < 0" using m by (simp add: not_less)
  show ?thesis
    using k c nn m by (auto simp: A f32_rat_def rat_trunc_def k_def [symmetric] mult_less_0_iff)
qed

lemma f32_to_sint_rat:
  assumes "f32_finite a"
  shows "f32_to_sint w a = (let n = rat_trunc (f32_rat a) in
    if - (2 ^ (w - 1)) \<le> n \<and> n < 2 ^ (w - 1) then Inr n else Inl Undefined)"
  by (simp add: f32_to_sint_def f32_trunc_rat [OF assms] Let_def)

lemma f32_neg_decode:
  assumes "f32_decode w = FFin s m e"
  shows "f32_decode (f32_neg w) = FFin (\<not> s) m e"
proof -
  have "bit (f32_neg w) 31 = (\<not> bit w 31)"
    by (simp add: f32_neg_def bit_simps)
  moreover have "uint (f32_neg w) mod 2 ^ 31 = uint w mod 2 ^ 31"
  proof -
    have "take_bit 31 (f32_neg w) = take_bit 31 w"
      by (rule bit_word_eqI) (auto simp: f32_neg_def bit_simps)
    then have "uint (take_bit 31 (f32_neg w)) = uint (take_bit 31 w)" by simp
    then have "take_bit 31 (uint (f32_neg w)) = take_bit 31 (uint w)"
      by (simp only: unsigned_take_bit_eq)
    then show ?thesis by (simp only: take_bit_eq_mod)
  qed
  ultimately show ?thesis
    using assms unfolding f32_decode_def Let_def by (auto split: if_splits)
qed

lemma f32_neg_rat:
  assumes "f32_finite a"
  shows "f32_finite (f32_neg a)" "f32_rat (f32_neg a) = - f32_rat a"
proof -
  obtain s m e where A: "f32_decode a = FFin s m e" by (rule f32_decode_finite [OF assms])
  from f32_neg_decode [OF A] A
  show "f32_finite (f32_neg a)" "f32_rat (f32_neg a) = - f32_rat a"
    by (auto simp: f32_finite_def f32_rat_def)
qed


lemma f32_one_decode: "f32_decode 0x3F800000 = FFin False (2 ^ 23) (-23)"
  by code_simp

lemma f32_mul_one:
  assumes "f32_finite a"
  shows "f32_finite (f32_mul a 0x3F800000)" "f32_rat (f32_mul a 0x3F800000) = f32_rat a"
proof -
  obtain s m e where A: "f32_decode a = FFin s m e" and B: "0 \<le> m" "m < 2 ^ 24" "-149 \<le> e" "e \<le> 104"
    by (rule f32_decode_finite [OF assms])
  have "(of_int (m * 2 ^ 23) * 2 powi (e + - 23) :: rat) = of_int m * 2 powi e"
    by (simp add: power_int_diff)
  from f32_round_scaled_exact [OF B this, of s]
  show "f32_finite (f32_mul a 0x3F800000)" "f32_rat (f32_mul a 0x3F800000) = f32_rat a"
    by (auto simp: f32_mul_def A f32_one_decode f32_rat_def)
qed

lemma fin_at_rat:
  "z \<le> g \<Longrightarrow> (of_int (fin_at r l g z) :: rat) * 2 powi z = (if r then - 1 else 1) * of_int l * 2 powi g"
  by (simp add: fin_at_def power_int_diff flip: power_int_of_nat)

lemma f32_add_exact:
  assumes "f32_finite a" "f32_finite b" "\<bar>k\<bar> < 2 ^ 24" "-149 \<le> z" "z \<le> 104"
    and sum: "f32_rat a + f32_rat b = of_int k * 2 powi z"
  shows "f32_finite (f32_add a b)" "f32_rat (f32_add a b) = f32_rat a + f32_rat b"
proof -
  obtain s m e where A: "f32_decode a = FFin s m e" by (rule f32_decode_finite [OF assms(1)])
  obtain t n f where B: "f32_decode b = FFin t n f" by (rule f32_decode_finite [OF assms(2)])
  define y where "y = min e f"
  define v where "v = fin_at s m e y + fin_at t n f y"
  have v: "of_int v * 2 powi y = f32_rat a + f32_rat b"
    by (simp add: v_def y_def distrib_right fin_at_rat f32_rat_def A B)
  have add: "f32_add a b = (if v = 0 then f32_sign (s \<and> t) 0 else f32_round_scaled (v < 0) \<bar>v\<bar> y)"
    by (simp add: f32_add_def A B y_def [symmetric] v_def [symmetric])
  have sgn: "v < 0 \<longleftrightarrow> k < 0"
  proof -
    have "v < 0 \<longleftrightarrow> (of_int v * 2 powi y :: rat) < 0" by (simp add: mult_less_0_iff)
    also have "\<dots> \<longleftrightarrow> k < 0" by (simp add: v sum mult_less_0_iff)
    finally show ?thesis .
  qed
  have absv: "(of_int \<bar>v\<bar> * 2 powi y :: rat) = of_int \<bar>k\<bar> * 2 powi z"
    using v sum sgn by (auto simp: abs_if)
  have "f32_finite (f32_add a b) \<and> f32_rat (f32_add a b) = of_int k * 2 powi z"
  proof (cases "v = 0")
    case True
    then show ?thesis
      using f32_decode_sign [of 0 "s \<and> t"] v sum by (simp add: add f32_finite_def f32_rat_def)
  next
    case False
    from f32_round_scaled_exact [OF _ assms(3-5) absv, of "v < 0"] False sgn show ?thesis
      by (auto simp: add abs_if)
  qed
  then show "f32_finite (f32_add a b)" "f32_rat (f32_add a b) = f32_rat a + f32_rat b"
    by (auto simp: sum)
qed

lemma f32_sub_exact:
  assumes "f32_finite a" "f32_finite b" "\<bar>k\<bar> < 2 ^ 24" "-149 \<le> z" "z \<le> 104"
    and "f32_rat a - f32_rat b = of_int k * 2 powi z"
  shows "f32_finite (f32_sub a b)" "f32_rat (f32_sub a b) = f32_rat a - f32_rat b"
  using f32_add_exact [of a "f32_neg b" k z] f32_neg_rat [OF assms(2)] assms
  by (auto simp: f32_sub_def)

lemma f32_mul_exact:
  assumes "f32_finite a" "f32_finite b" "\<bar>k\<bar> < 2 ^ 24" "-149 \<le> z" "z \<le> 104"
    and prod: "f32_rat a * f32_rat b = of_int k * 2 powi z"
  shows "f32_finite (f32_mul a b)" "f32_rat (f32_mul a b) = f32_rat a * f32_rat b"
proof -
  obtain s m e where A: "f32_decode a = FFin s m e" "0 \<le> m" by (rule f32_decode_finite [OF assms(1)])
  obtain t n f where B: "f32_decode b = FFin t n f" "0 \<le> n" by (rule f32_decode_finite [OF assms(2)])
  have v: "(if s \<noteq> t then - 1 else 1) * (of_int (m * n) * 2 powi (e + f)) = f32_rat a * f32_rat b"
    by (simp add: f32_rat_def A B power_int_add)
  have "\<bar>(of_int (m * n) * 2 powi (e + f) :: rat)\<bar> = \<bar>of_int k * 2 powi z\<bar>"
    using arg_cong [OF v, of abs] by (simp add: prod abs_mult split: if_splits)
  then have absv: "(of_int (m * n) * 2 powi (e + f) :: rat) = of_int \<bar>k\<bar> * 2 powi z"
    using A B by (simp add: abs_mult)
  from f32_round_scaled_exact [OF _ assms(3-5) absv, of "s \<noteq> t"]
  have r: "f32_finite (f32_mul a b)" "f32_rat (f32_mul a b) = (if s \<noteq> t then - 1 else 1) * of_int \<bar>k\<bar> * 2 powi z"
    by (auto simp: f32_mul_def A B)
  show "f32_finite (f32_mul a b)" by (rule r)
  have "f32_rat (f32_mul a b) = (if s \<noteq> t then - 1 else 1) * (of_int (m * n) * 2 powi (e + f))"
    by (simp only: r absv mult.assoc)
  also have "\<dots> = f32_rat a * f32_rat b" by (rule v)
  finally show "f32_rat (f32_mul a b) = f32_rat a * f32_rat b" .
qed

text \<open>Integers that need more than 24 bits are rounded, but stay on their side of \<open>2 ^ 24\<close>.\<close>

lemma f32_of_int_large:
  assumes "2 ^ 24 \<le> \<bar>n\<bar>" "\<bar>n\<bar> \<le> 2 ^ B" "24 \<le> B" "B \<le> 60"
  shows "f32_finite (f32_of_int n)"
    and "\<exists>k. f32_rat (f32_of_int n) = of_int k \<and> 2 ^ 23 \<le> \<bar>k\<bar> \<and> \<bar>k\<bar> \<le> 2 ^ (B + 1) \<and> (k < 0 \<longleftrightarrow> n < 0)"
proof -
  define p where "p = \<bar>n\<bar>"
  define u where "u = f32_ulp p 1"
  define K where "K = rhe ((of_int p :: rat) / 2 powi u)"
  have p: "0 < p" using assms by (auto simp: p_def)
  have lo: "(2 :: rat) powi ilog2 p 1 \<le> of_int p" and hi: "(of_int p :: rat) < 2 powi (ilog2 p 1 + 1)"
    using ilog2_bounds [OF p, of 1] by auto
  have "(2 :: rat) powi (int 24) \<le> of_int p"
    using assms by (simp add: p_def)
  with hi have "\<not> (2 :: rat) powi (ilog2 p 1 + 1) \<le> 2 powi (int 24)" by linarith
  then have E: "24 \<le> ilog2 p 1" using power_int_increasing [of "ilog2 p 1 + 1" "int 24" "2 :: rat"] by force
  have "(of_int p :: rat) \<le> of_int (2 ^ B)"
    using assms(2) by (simp only: of_int_le_iff p_def)
  then have "(of_int p :: rat) \<le> 2 powi (int B)" by simp
  with lo have "\<not> (2 :: rat) powi (int (B + 1)) \<le> 2 powi (ilog2 p 1)"
    using power_int_strict_increasing [of "int B" "int (B + 1)" "2 :: rat"] by linarith
  then have E2: "ilog2 p 1 < int B + 1" using power_int_increasing [of "int (B + 1)" "ilog2 p 1" "2 :: rat"] by force
  have u: "u = ilog2 p 1 - 23" "1 \<le> u" "u \<le> int B - 23" using E E2 by (auto simp: u_def f32_ulp_def)
  have K24: "K \<le> 2 ^ 24"
    unfolding K_def
  proof (rule rhe_mono_int_ge)
    have "(2 :: rat) powi (ilog2 p 1 + 1) = of_int (2 ^ 24) * 2 powi u"
      by (simp add: u power_int_add power_int_diff)
    with hi show "(of_int p :: rat) / 2 powi u \<le> of_int (2 ^ 24)"
      by (simp add: field_simps)
  qed
  have K23: "2 ^ 23 \<le> K"
    unfolding K_def
  proof (rule rhe_mono_int_le)
    have "(2 :: rat) powi (ilog2 p 1) = of_int (2 ^ 23) * 2 powi u"
      by (simp add: u power_int_diff)
    with lo show "of_int (2 ^ 23) \<le> (of_int p :: rat) / 2 powi u"
      by (simp add: field_simps)
  qed
  have "(u + 149) * 2 ^ 23 + K < 255 * 2 ^ 23" using K24 u assms(4) by simp
  with f32_round_value [OF p, of 1 "n < 0"]
  have v: "f32_finite (f32_of_int n)" "f32_rat (f32_of_int n) = (if n < 0 then - 1 else 1) * of_int K * 2 powi u"
    by (auto simp: f32_of_int_def p_def [symmetric] u_def [symmetric] K_def [symmetric])
  show "f32_finite (f32_of_int n)" by (rule v)
  define Z where "Z = K * 2 ^ nat u"
  have "K \<le> Z" unfolding Z_def using K23 mult_left_mono [of 1 "2 ^ nat u" K] by simp
  then have Z23: "2 ^ 23 \<le> Z" using K23 by linarith
  have "Z \<le> 2 ^ 24 * 2 ^ (B - 23)" unfolding Z_def
    by (rule mult_mono) (use K24 K23 u in \<open>auto intro!: power_increasing simp del: power_numeral\<close>)
  also have "\<dots> = 2 ^ (24 + (B - 23))" by (simp only: power_add)
  also have "24 + (B - 23) = B + 1" using assms(3) by simp
  finally have ZB: "Z \<le> 2 ^ (B + 1)" .
  have "f32_rat (f32_of_int n) = of_int (if n < 0 then - Z else Z)"
    using u by (simp add: v Z_def power_int_def)
  with Z23 ZB show "\<exists>k. f32_rat (f32_of_int n) = of_int k \<and> 2 ^ 23 \<le> \<bar>k\<bar> \<and> \<bar>k\<bar> \<le> 2 ^ (B + 1) \<and>
      (k < 0 \<longleftrightarrow> n < 0)"
    by (intro exI [of _ "if n < 0 then - Z else Z"]) auto
qed

end
