(* ===== verification/Gemmini_Params.thy ===== *)
theory Gemmini_Params
  imports Gemmini_Float
begin

text \<open>
  The parameter header \<open>gemmini_params.h\<close>: the sizes of the array and of its memories, and
  the rounding and scaling macros. The macros are proved against \<open>rhe\<close> (round half to even).
\<close>

section \<open>Sizes\<close>

definition DIM :: nat where "DIM = 16"
definition ADDR_LEN :: nat where "ADDR_LEN = 32"
definition BANK_NUM :: nat where "BANK_NUM = 4"
definition BANK_ROWS :: nat where "BANK_ROWS = 4096"
definition ACC_ROWS :: nat where "ACC_ROWS = 1024"
definition MAX_BYTES :: nat where "MAX_BYTES = 64"
definition MAX_BLOCK_LEN :: nat where "MAX_BLOCK_LEN = MAX_BYTES div (DIM * 1)"
definition MAX_BLOCK_LEN_ACC :: nat where "MAX_BLOCK_LEN_ACC = MAX_BYTES div (DIM * 4)"

definition elem_t_max :: int where "elem_t_max = 127"
definition elem_t_min :: int where "elem_t_min = -128"

definition MVIN_SCALE_IDENTITY :: f32 where "MVIN_SCALE_IDENTITY = 0x3F800000"
definition ACC_SCALE_IDENTITY :: f32 where "ACC_SCALE_IDENTITY = 0x3F800000"

lemmas size_defs = DIM_def ADDR_LEN_def BANK_NUM_def BANK_ROWS_def ACC_ROWS_def MAX_BYTES_def
  MAX_BLOCK_LEN_def MAX_BLOCK_LEN_ACC_def

section \<open>Rounding macros\<close>

text \<open>
  \<open>ROUNDING_RIGHT_SHIFT\<close> on a signed integer: \<open>>>\<close> is the arithmetic shift, and the bit
  operations on \<open>int\<close> are those of the sign-extended operand.
\<close>

definition ROUNDING_RIGHT_SHIFT :: "int \<Rightarrow> nat \<Rightarrow> int" where
  "ROUNDING_RIGHT_SHIFT x shift =
     (if 0 < shift
      then drop_bit shift x +
        ((if shift = 0 then 0 else drop_bit (shift - 1) x AND 1) AND
          (of_bool ((if shift \<le> 1 then 0 else x AND (push_bit (shift - 1) 1 - 1)) \<noteq> 0)
            OR (drop_bit shift x AND 1)))
      else push_bit 0 x)"

text \<open>
  \<open>ROUND_NEAR_EVEN\<close> on a \<open>float\<close>. The conversions to \<open>long long\<close> truncate; \<open>x_ - 1\<close>,
  \<open>x_ + 1\<close> and \<open>x_ - i\<close> are computed in \<open>float\<close>.
\<close>

definition ROUND_NEAR_EVEN :: "f32 \<Rightarrow> f32 res" where
  "ROUND_NEAR_EVEN x =
     bindE (f32_to_sint 64 x) (\<lambda>i.
     bindE (f32_to_sint 64 (if f32_lt x 0 then f32_sub x (f32_of_int 1)
                            else f32_add x (f32_of_int 1))) (\<lambda>next.
     let rem = f32_sub x (f32_of_int i);
         rem = (if f32_lt rem 0 then f32_neg rem else rem)
     in Inr (f32_of_int (if f32_lt rem 0x3F000000 then i
                         else if f32_lt 0x3F000000 rem then next
                         else if i mod 2 = 0 then i else next))))"

definition ACC_SCALE :: "int \<Rightarrow> f32 \<Rightarrow> int res" where
  "ACC_SCALE x scale =
     bindE (ROUND_NEAR_EVEN (f32_mul (f32_of_int x) scale)) (\<lambda>y.
     if f32_lt (f32_of_int 127) y then Inr 127
     else if f32_lt y (f32_of_int (-128)) then Inr (-128)
     else f32_to_sint 32 y)"

definition MVIN_SCALE :: "int \<Rightarrow> f32 \<Rightarrow> int res" where
  "MVIN_SCALE x scale =
     bindE (ROUND_NEAR_EVEN (f32_mul (f32_of_int x) scale)) (\<lambda>y.
     if f32_lt (f32_of_int 127) y then Inr 127
     else if f32_lt y (f32_of_int (-128)) then Inr (-128)
     else f32_to_sint 8 y)"

section \<open>The shift macro rounds half to even\<close>

lemma rounding_right_shift_rhe: "ROUNDING_RIGHT_SHIFT x s = rhe (of_int x / 2 ^ s)"
proof (cases s)
  case 0
  then show ?thesis by (simp add: ROUNDING_RIGHT_SHIFT_def)
next
  case (Suc n)
  define k where "k = x div 2 ^ s"
  define r where "r = x mod 2 ^ s"
  have dk: "drop_bit s x = k" by (simp add: k_def drop_bit_eq_div)
  have x: "x = (2 * k) * 2 ^ n + r"
    using div_mult_mod_eq [of x "2 ^ s"] by (simp add: k_def r_def Suc mult_ac)
  have r: "0 \<le> r" "r < 2 * 2 ^ n" by (auto simp: r_def Suc)
  have dn: "drop_bit n x = 2 * k + r div 2 ^ n"
    by (simp add: x drop_bit_eq_div)
  have b: "drop_bit n x AND 1 = of_bool (2 ^ n \<le> r)"
  proof (cases "2 ^ n \<le> r")
    case True
    then have "r div 2 ^ n = 1" using r by (intro int_div_pos_eq [of _ _ _ "r - 2 ^ n"]) auto
    with True show ?thesis by (simp add: dn and_one_eq)
  next
    case False
    then have "r div 2 ^ n = 0" using r by simp
    with False show ?thesis by (simp add: dn and_one_eq)
  qed
  have sticky: "((if s \<le> 1 then 0 else x AND (push_bit (s - 1) 1 - 1)) \<noteq> 0) \<longleftrightarrow> r mod 2 ^ n \<noteq> 0"
  proof (cases n)
    case (Suc l)
    have "x AND (push_bit n 1 - 1) = x mod 2 ^ n"
      by (simp add: push_bit_eq_mult flip: take_bit_eq_mask take_bit_eq_mod mask_eq_exp_minus_1)
    also have "\<dots> = r mod 2 ^ n" by (simp add: x)
    finally show ?thesis by (simp add: \<open>s = Suc n\<close> Suc)
  qed (simp add: Suc)
  have lhs: "ROUNDING_RIGHT_SHIFT x s =
      k + of_bool (2 ^ n \<le> r \<and> (r mod 2 ^ n \<noteq> 0 \<or> odd k))"
    unfolding ROUNDING_RIGHT_SHIFT_def sticky
    using b by (cases "even k") (auto simp: Suc dk [unfolded Suc] and_one_eq odd_iff_mod_2_eq_one)
  have "rhe (of_int x / 2 ^ s) = rne_div x (2 ^ s)"
    by (simp add: rne_div_rhe)
  also have "\<dots> = (if 2 ^ n < r \<or> (r = 2 ^ n \<and> odd k) then k + 1 else k)"
    unfolding rne_div_def Let_def k_def [symmetric] r_def [symmetric] by (simp add: Suc)
  also have "\<dots> = k + of_bool (2 ^ n \<le> r \<and> (r mod 2 ^ n \<noteq> 0 \<or> odd k))"
  proof -
    have "r mod 2 ^ n = r - 2 ^ n" if "2 ^ n \<le> r"
      using that r int_mod_pos_eq [of r "2 ^ n" 1 "r - 2 ^ n"] by simp
    then show ?thesis by auto
  qed
  finally show ?thesis by (simp add: lhs)
qed


section \<open>The float macro rounds half to even where its additions are exact\<close>

lemma rat_trunc_nonneg: "0 \<le> x \<Longrightarrow> rat_trunc x = \<lfloor>x\<rfloor>"
  by (simp add: rat_trunc_def)

lemma rat_trunc_neg: "x < 0 \<Longrightarrow> rat_trunc x = \<lceil>x\<rceil>"
  by (simp add: rat_trunc_def)

lemma rat_trunc_of_int [simp]: "rat_trunc (of_int n) = n"
  by (simp add: rat_trunc_def)

lemma f32_zero: "f32_finite 0" "f32_rat 0 = 0"
  using f32_round_zero [of False 1] by (simp_all add: f32_round_def f32_sign_def)

lemma f32_half: "f32_finite 0x3F000000" "f32_rat 0x3F000000 = 1/2"
proof -
  have d: "f32_decode 0x3F000000 = FFin False (2 ^ 23) (-24)" by code_simp
  then show "f32_finite 0x3F000000" by (simp add: f32_finite_def)
  have "f32_rat 0x3F000000 = 2 ^ 23 * 2 powi (- 24)" by (simp add: f32_rat_def d)
  then show "f32_rat 0x3F000000 = 1/2" by (simp add: power_int_minus)
qed

text \<open>
  The choice the macro makes between the truncated value and its neighbour is the choice of
  round half to even.
\<close>

lemma rhe_trunc_choice:
  fixes x :: rat
  defines "i \<equiv> rat_trunc x" and "nx \<equiv> rat_trunc x + (if x < 0 then - 1 else 1)"
  defines "r \<equiv> \<bar>x - of_int (rat_trunc x)\<bar>"
  shows "(if r < 1/2 then i else if 1/2 < r then nx else if i mod 2 = 0 then i else nx) = rhe x"
proof (cases "x < 0")
  case False
  then have "r = x - of_int \<lfloor>x\<rfloor>" by (simp add: r_def rat_trunc_def)
  with False show ?thesis
    by (auto simp: i_def nx_def rhe_def Let_def rat_trunc_def)
next
  case True
  then have i: "i = \<lceil>x\<rceil>" "nx = \<lceil>x\<rceil> - 1" "r = of_int \<lceil>x\<rceil> - x"
    by (auto simp: i_def nx_def r_def rat_trunc_def)
  show ?thesis
  proof (cases "x = of_int \<lfloor>x\<rfloor>")
    case True
    then have "x = of_int \<lceil>x\<rceil>" by (metis ceiling_of_int)
    then show ?thesis using i by (metis cancel_comm_monoid_add_class.diff_cancel rhe_of_int zero_less_divide_1_iff zero_less_numeral)
  next
    case False
    then have "\<lfloor>x\<rfloor> = \<lceil>x\<rceil> - 1" by (simp add: ceiling_altdef)
    then show ?thesis by (auto simp: i rhe_def Let_def)
  qed
qed

lemma rat_trunc_shift: "rat_trunc (x + (if x < 0 then - 1 else 1)) = rat_trunc x + (if x < 0 then - 1 else 1)"
  by (auto simp: rat_trunc_def)

lemma dyadic_trunc:
  assumes x: "x = of_int k * 2 powi z" and z: "z \<le> 0"
  shows "x - of_int (rat_trunc x) = of_int (k - rat_trunc x * 2 ^ nat (- z)) * 2 powi z"
    and "\<bar>k - rat_trunc x * 2 ^ nat (- z)\<bar> \<le> \<bar>k\<bar>" and "\<bar>rat_trunc x\<bar> \<le> \<bar>k\<bar>"
proof -
  define N where "N = (2 :: int) ^ nat (- z)"
  have N: "0 < N" "2 powi z = 1 / (of_int N :: rat)"
    using z by (auto simp: N_def power_int_def power_inverse field_simps)
  have xN: "x * of_int N = of_int k" using N by (simp add: x)
  have t: "rat_trunc x * N = (if k < 0 then - (\<bar>k\<bar> div N) * N else k div N * N)"
  proof -
    have xq: "x = of_int k / of_int N" by (simp add: x N)
    have neg: "x < 0 \<longleftrightarrow> k < 0" using N by (simp add: xq divide_less_0_iff)
    have fl: "\<lfloor>of_int a / of_int N :: rat\<rfloor> = a div N" for a by (rule floor_divide_of_int_eq)
    have "\<lceil>x\<rceil> = - (\<bar>k\<bar> div N)" if "k < 0"
      using that fl [of "- k"] by (simp add: xq ceiling_def)
    then show ?thesis using neg fl [of k] by (simp add: rat_trunc_def xq [symmetric])
  qed
  have ad: "\<bar>k\<bar> div N * N \<le> \<bar>k\<bar>" "0 \<le> \<bar>k\<bar> div N * N"
    using N by (auto simp: pos_imp_zdiv_nonneg_iff) (metis mod_int_pos_iff div_mult_mod_eq le_add_same_cancel1)
  show "x - of_int (rat_trunc x) = of_int (k - rat_trunc x * 2 ^ nat (- z)) * 2 powi z"
    using N by (simp add: N_def [symmetric] x field_simps)
  show "\<bar>k - rat_trunc x * 2 ^ nat (- z)\<bar> \<le> \<bar>k\<bar>"
    using t ad by (auto simp: N_def [symmetric] abs_if split: if_splits)
  have "\<bar>rat_trunc x\<bar> * 1 \<le> \<bar>rat_trunc x\<bar> * N" using N by (intro mult_left_mono) auto
  also have "\<dots> = \<bar>rat_trunc x * N\<bar>" using N by (simp add: abs_mult)
  also have "\<dots> \<le> \<bar>k\<bar>" using t ad by (auto simp: abs_if split: if_splits)
  finally show "\<bar>rat_trunc x\<bar> \<le> \<bar>k\<bar>" by simp
qed

lemma round_near_even_dyadic:
  assumes fin: "f32_finite x" and x: "f32_rat x = of_int k * 2 powi z"
    and z: "-149 \<le> z" "z \<le> 0" and k: "\<bar>k\<bar> + 2 ^ nat (- z) < 2 ^ 24"
  shows "\<exists>y. ROUND_NEAR_EVEN x = Inr y \<and> f32_finite y \<and> f32_rat y = of_int (rhe (f32_rat x))"
proof -
  define X where "X = f32_rat x"
  define i where "i = rat_trunc X"
  define d where "d = (if X < 0 then - 1 else (1 :: int))"
  define D where "D = (if f32_lt x 0 then f32_sub x (f32_of_int 1) else f32_add x (f32_of_int 1))"
  note X = x [folded X_def]
  note dy = dyadic_trunc [OF X z(2), folded i_def]
  have one: "f32_finite (f32_of_int 1)" "f32_rat (f32_of_int 1) = 1"
    using f32_of_int_exact [of 1] by auto
  have lt0: "f32_lt x 0 \<longleftrightarrow> X < 0" by (simp add: f32_lt_rat fin f32_zero X_def)
  have i24: "\<bar>i\<bar> < 2 ^ 24" using dy(3) k by (smt (verit) zero_less_power)
  have N1: "of_int (2 ^ nat (- z)) * 2 powi z = (1 :: rat)"
    using z by (simp add: powi_nat_split)
  have sumk: "X + of_int d = of_int (k + d * 2 ^ nat (- z)) * 2 powi z"
    using N1 by (simp add: X distrib_right mult.assoc)
  have bk: "\<bar>k + d * 2 ^ nat (- z)\<bar> < 2 ^ 24"
  proof -
    have "\<bar>d * 2 ^ nat (- z)\<bar> = 2 ^ nat (- z)" by (simp add: d_def)
    then show ?thesis using k by linarith
  qed
  have z104: "z \<le> 104" using z by simp
  have D: "f32_finite D" "f32_rat D = X + of_int d"
    unfolding D_def lt0
    using f32_add_exact [OF fin one(1) bk z(1) z104] f32_sub_exact [OF fin one(1) bk z(1) z104] sumk
    by (auto simp: d_def one X_def split: if_splits)
  have nx: "rat_trunc (f32_rat D) = i + d"
    using rat_trunc_shift [of X] by (auto simp: D i_def d_def split: if_splits)
  have c1: "f32_to_sint 64 x = Inr i"
    using i24 by (auto simp: f32_to_sint_rat fin Let_def X_def [symmetric] i_def [symmetric] abs_less_iff)
  have c2: "f32_to_sint 64 D = Inr (i + d)"
    using i24 by (auto simp: f32_to_sint_rat D(1) Let_def nx d_def abs_less_iff)
  have oi: "f32_finite (f32_of_int i)" "f32_rat (f32_of_int i) = of_int i"
    using f32_of_int_exact [OF i24] by auto
  have bm: "\<bar>k - i * 2 ^ nat (- z)\<bar> < 2 ^ 24"
    using dy(2) k by (smt (verit) zero_less_power)
  have rem: "f32_finite (f32_sub x (f32_of_int i))" "f32_rat (f32_sub x (f32_of_int i)) = X - of_int i"
    using f32_sub_exact [OF fin oi(1) bm z(1) z104] dy(1) by (auto simp: oi X_def)
  define R where "R = (if f32_lt (f32_sub x (f32_of_int i)) 0 then f32_neg (f32_sub x (f32_of_int i))
    else f32_sub x (f32_of_int i))"
  have R: "f32_finite R" "f32_rat R = \<bar>X - of_int i\<bar>"
    using rem f32_neg_rat [OF rem(1)] by (auto simp: R_def f32_lt_rat rem(1) f32_zero)
  have ch: "(if f32_lt R 0x3F000000 then i else if f32_lt 0x3F000000 R then i + d
      else if i mod 2 = 0 then i else i + d) = rhe X"
    unfolding f32_lt_rat [OF R(1) f32_half(1)] f32_lt_rat [OF f32_half(1) R(1)] R(2) f32_half(2)
      d_def i_def by (rule rhe_trunc_choice)
  have "ROUND_NEAR_EVEN x = Inr (f32_of_int (rhe X))"
    unfolding ROUND_NEAR_EVEN_def D_def [symmetric] c1 bindE.simps c2 Let_def R_def [symmetric] ch ..
  moreover have "\<bar>rhe X\<bar> < 2 ^ 24"
  proof -
    have "rhe X = i \<or> rhe X = i + d" using ch by (auto split: if_splits)
    moreover have "\<bar>i\<bar> + 1 < 2 ^ 24" using dy(3) k by (smt (verit) one_le_power)
    ultimately show ?thesis by (auto simp: d_def)
  qed
  ultimately show ?thesis using f32_of_int_exact by (auto simp: X_def)
qed


section \<open>Integral floats, and scaling by one\<close>

lemma powi_less_cancel: "(2 :: rat) powi a < 2 powi b \<Longrightarrow> a < b"
  using power_int_increasing [of b a "2 :: rat"] by force

lemma ilog2_cong:
  assumes "0 < p" "0 < q" "0 < p'" "0 < q'"
    and "(of_int p / of_int q :: rat) = of_int p' / of_int q'"
  shows "ilog2 p q = ilog2 p' q'"
proof -
  have "(2 :: rat) powi ilog2 p q < 2 powi (ilog2 p' q' + 1)"
    "(2 :: rat) powi ilog2 p' q' < 2 powi (ilog2 p q + 1)"
    using ilog2_bounds [OF assms(1,2)] ilog2_bounds [OF assms(3,4)] assms(5) by linarith+
  then show ?thesis by (auto dest!: powi_less_cancel)
qed

text \<open>Rounding depends on the quotient only.\<close>

lemma f32_round_cong:
  assumes "0 < p" "0 < q" "0 < p'" "0 < q'"
    and "(of_int p / of_int q :: rat) = of_int p' / of_int q'"
  shows "f32_round s p q = f32_round s p' q'"
proof -
  have u: "f32_ulp p q = f32_ulp p' q'" using ilog2_cong [OF assms] by (simp add: f32_ulp_def)
  have q: "(of_int (a * 2 ^ nat (- v)) / of_int (b * 2 ^ nat v) :: rat) = of_int a / of_int b / 2 powi v"
    for a b v by (simp add: powi_nat_split)
  have "rne_div (p * 2 ^ nat (- v)) (q * 2 ^ nat v) = rne_div (p' * 2 ^ nat (- v)) (q' * 2 ^ nat v)" for v
    using assms(2,4) by (simp add: rne_div_rhe q assms(5) del: of_int_mult)
  with u assms(1,3) show ?thesis by (simp add: f32_round_def)
qed

lemma f32_add_of_int:
  assumes "f32_finite a" "f32_finite b" "f32_rat a + f32_rat b = of_int n" "n \<noteq> 0"
  shows "f32_add a b = f32_of_int n"
proof -
  obtain s m e where A: "f32_decode a = FFin s m e" by (rule f32_decode_finite [OF assms(1)])
  obtain t n' f where B: "f32_decode b = FFin t n' f" by (rule f32_decode_finite [OF assms(2)])
  define y where "y = min e f"
  define v where "v = fin_at s m e y + fin_at t n' f y"
  have v: "of_int v * 2 powi y = (of_int n :: rat)"
    using assms(3) by (simp add: v_def y_def distrib_right fin_at_rat f32_rat_def A B)
  have v0: "v \<noteq> 0" using v assms(4) by auto
  have sg: "v < 0 \<longleftrightarrow> n < 0"
  proof -
    have "v < 0 \<longleftrightarrow> (of_int v * 2 powi y :: rat) < 0" by (simp add: mult_less_0_iff)
    then show ?thesis by (simp add: v)
  qed
  have av: "(of_int \<bar>v\<bar> * 2 powi y :: rat) = of_int \<bar>n\<bar>" using v sg by (auto simp: abs_if)
  have "f32_add a b = f32_round (v < 0) (\<bar>v\<bar> * 2 ^ nat y) (2 ^ nat (- y))"
    using v0 by (simp add: f32_add_def A B y_def [symmetric] v_def [symmetric] f32_round_scaled_def)
  also have "\<dots> = f32_round (v < 0) \<bar>n\<bar> 1"
    using v0 assms(4) av by (intro f32_round_cong) (auto simp: powi_nat_split)
  finally show ?thesis by (simp add: f32_of_int_def sg)
qed

lemma f32_of_int_of_integral:
  assumes "f32_finite x" "f32_rat x = of_int n"
  shows "f32_finite (f32_of_int n)" "f32_rat (f32_of_int n) = of_int n"
proof -
  obtain s m e where A: "f32_decode x = FFin s m e" and B: "0 \<le> m" "m < 2 ^ 24" "-149 \<le> e" "e \<le> 104"
    by (rule f32_decode_finite [OF assms(1)])
  have "(if s then - 1 else 1) * (of_int m * 2 powi e) = (of_int n :: rat)"
    using assms(2) by (simp add: f32_rat_def A)
  moreover have "(0 :: rat) \<le> of_int m * 2 powi e" using B by simp
  ultimately have "(of_int \<bar>n\<bar> / of_int 1 :: rat) = of_int m * 2 powi e"
    by (auto split: if_splits simp flip: of_int_minus)
  from f32_round_exact [OF _ B this, of "n < 0"]
  show "f32_finite (f32_of_int n)" "f32_rat (f32_of_int n) = of_int n"
    unfolding f32_of_int_def using \<open>(of_int \<bar>n\<bar> / of_int 1 :: rat) = _\<close> [symmetric]
    by (auto simp: mult.assoc)
qed

lemma f32_of_int_bounded:
  assumes "\<bar>n\<bar> \<le> 2 ^ B" "24 \<le> B" "B \<le> 60"
  shows "f32_finite (f32_of_int n)"
    and "\<exists>k. f32_rat (f32_of_int n) = of_int k \<and> \<bar>k\<bar> \<le> 2 ^ (B + 1) \<and>
      (n = k \<or> 2 ^ 23 \<le> \<bar>k\<bar> \<and> 2 ^ 24 \<le> \<bar>n\<bar>) \<and> (k < 0 \<longleftrightarrow> n < 0)"
proof -
  show "f32_finite (f32_of_int n)"
    using f32_of_int_large(1) [of n] f32_of_int_exact(1) [of n] assms by (metis linorder_not_less)
  show "\<exists>k. f32_rat (f32_of_int n) = of_int k \<and> \<bar>k\<bar> \<le> 2 ^ (B + 1) \<and>
      (n = k \<or> 2 ^ 23 \<le> \<bar>k\<bar> \<and> 2 ^ 24 \<le> \<bar>n\<bar>) \<and> (k < 0 \<longleftrightarrow> n < 0)"
  proof (cases "\<bar>n\<bar> < 2 ^ 24")
    case True
    have "\<bar>n\<bar> \<le> 2 ^ (B + 1)" using assms(1) by simp
    with f32_of_int_exact [OF True] show ?thesis by (intro exI [of _ n]) auto
  next
    case False
    with f32_of_int_large(2) [of n] assms show ?thesis by auto
  qed
qed

lemma round_near_even_integral:
  assumes "f32_finite x" "f32_rat x = of_int n" "\<bar>n\<bar> < 2 ^ 40"
  shows "\<exists>y. ROUND_NEAR_EVEN x = Inr y \<and> f32_finite y \<and> f32_rat y = of_int n"
proof -
  define d where "d = (if n < 0 then - 1 else (1 :: int))"
  define D where "D = (if f32_lt x 0 then f32_sub x (f32_of_int 1) else f32_add x (f32_of_int 1))"
  have one: "f32_finite (f32_of_int 1)" "f32_rat (f32_of_int 1) = 1"
    using f32_of_int_exact [of 1] by auto
  have lt0: "f32_lt x 0 \<longleftrightarrow> n < 0" using assms by (simp add: f32_lt_rat f32_zero)
  have nd: "n + d \<noteq> 0" "\<bar>n + d\<bar> \<le> 2 ^ 40" using assms(3) by (auto simp: d_def)
  have "D = f32_of_int (n + d)"
  proof (cases "n < 0")
    case True
    with nd f32_add_of_int [OF assms(1) f32_neg_rat(1) [OF one(1)], of "n + d"] show ?thesis
      by (simp add: D_def lt0 f32_sub_def f32_neg_rat one assms d_def)
  next
    case False
    with nd f32_add_of_int [OF assms(1) one(1), of "n + d"] show ?thesis
      by (simp add: D_def lt0 one assms d_def)
  qed
  with f32_of_int_bounded [OF nd(2)] obtain k where
    D: "f32_finite D" "f32_rat D = of_int k" "\<bar>k\<bar> \<le> 2 ^ 41" by auto
  have c1: "f32_to_sint 64 x = Inr n"
    using assms by (auto simp: f32_to_sint_rat Let_def abs_less_iff)
  have c2: "f32_to_sint 64 D = Inr k"
    using D by (auto simp: f32_to_sint_rat Let_def abs_le_iff)
  note fi = f32_of_int_of_integral [OF assms(1,2)]
  have rem: "f32_finite (f32_sub x (f32_of_int n))" "f32_rat (f32_sub x (f32_of_int n)) = 0"
    using f32_sub_exact [of x "f32_of_int n" 0 0] assms fi by auto
  have "ROUND_NEAR_EVEN x = Inr (f32_of_int n)"
    unfolding ROUND_NEAR_EVEN_def D_def [symmetric] c1 c2 bindE.simps Let_def
    by (simp add: f32_lt_rat rem f32_zero f32_half)
  then show ?thesis using fi by blast
qed

lemma saturate_float:
  assumes "f32_finite y" "f32_rat y = of_int n"
  shows "f32_lt (f32_of_int 127) y \<longleftrightarrow> 127 < n" "f32_lt y (f32_of_int (-128)) \<longleftrightarrow> n < -128"
proof -
  have "f32_finite (f32_of_int 127)" "f32_rat (f32_of_int 127) = 127"
    "f32_finite (f32_of_int (-128))" "f32_rat (f32_of_int (-128)) = -128"
    using f32_of_int_exact [of 127] f32_of_int_exact [of "-128"] by auto
  then show "f32_lt (f32_of_int 127) y \<longleftrightarrow> 127 < n" "f32_lt y (f32_of_int (-128)) \<longleftrightarrow> n < -128"
    using assms of_int_less_iff [of n "-128", where 'a = rat] by (simp_all add: f32_lt_rat)
qed

text \<open>
  Both scaling macros, whenever the rounded product has an integral value \<open>n\<close>, deliver \<open>n\<close>
  saturated to the element range.
\<close>

definition clamp8 :: "int \<Rightarrow> int" where
  "clamp8 n = (if 127 < n then 127 else if n < -128 then -128 else n)"

lemma clamp8_bounds: "-128 \<le> clamp8 n" "clamp8 n \<le> 127"
  by (auto simp: clamp8_def)

lemma clamp8_id: "-128 \<le> n \<Longrightarrow> n \<le> 127 \<Longrightarrow> clamp8 n = n"
  by (simp add: clamp8_def)

lemma scale_macros_round:
  assumes "ROUND_NEAR_EVEN (f32_mul (f32_of_int x) scale) = Inr y"
    and "f32_finite y" "f32_rat y = of_int n"
  shows "ACC_SCALE x scale = Inr (clamp8 n)" "MVIN_SCALE x scale = Inr (clamp8 n)"
  using assms saturate_float [OF assms(2,3)]
  by (auto simp: ACC_SCALE_def MVIN_SCALE_def clamp8_def f32_to_sint_rat Let_def)

lemma scale_macros_one:
  assumes "-(2 ^ 31) \<le> x" "x < 2 ^ 31"
  shows "ACC_SCALE x 0x3F800000 = Inr (clamp8 x)" "MVIN_SCALE x 0x3F800000 = Inr (clamp8 x)"
proof -
  have ax: "\<bar>x\<bar> \<le> 2 ^ 31" using assms by auto
  from f32_of_int_bounded [OF ax] obtain k where
    k: "f32_rat (f32_of_int x) = of_int k" "\<bar>k\<bar> \<le> 2 ^ 32" "k < 0 \<longleftrightarrow> x < 0"
    and kx: "x = k \<or> 2 ^ 23 \<le> \<bar>k\<bar> \<and> 2 ^ 24 \<le> \<bar>x\<bar>" by auto
  note m = f32_mul_one [OF f32_of_int_bounded(1) [OF ax]]
  have "\<exists>y. ROUND_NEAR_EVEN (f32_mul (f32_of_int x) 0x3F800000) = Inr y \<and> f32_finite y \<and> f32_rat y = of_int k"
    by (rule round_near_even_integral) (use m k in auto)
  moreover have "clamp8 k = clamp8 x"
    using kx k(3) by (auto simp: clamp8_def)
  ultimately show "ACC_SCALE x 0x3F800000 = Inr (clamp8 x)" "MVIN_SCALE x 0x3F800000 = Inr (clamp8 x)"
    using scale_macros_round by (metis, metis)
qed

end
