(* ===== verification/Gemmini_State.thy ===== *)
theory Gemmini_State
  imports Gemmini_Params
begin

text \<open>
  The state \<open>gemmini_state_t\<close> of the functional simulator (\<open>libgemmini/gemmini.h\<close>) and its
  reset. The C++ struct is flat; the registers of the two hardware loops, the normalisation
  statistics, the counters and the CISC registers are grouped in records of their own. The
  memory of the simulated processor is a further field \<open>mem\<close> of \<open>sim\<close>, of a type the model
  does not fix.
\<close>

section \<open>Data\<close>

definition LOAD_STATES :: nat where "LOAD_STATES = 3"
definition NORM_STAT_IDS :: nat where "NORM_STAT_IDS = 4"
definition NUM_COUNTERS :: nat where "NUM_COUNTERS = 8"
definition NUM_EXTERNAL_COUNTERS :: nat where "NUM_EXTERNAL_COUNTERS = 6"
definition sp_matrices :: nat where "sp_matrices = (BANK_NUM * BANK_ROWS) div DIM"
definition accum_rows :: nat where "accum_rows = ACC_ROWS"

lemmas count_defs = LOAD_STATES_def NORM_STAT_IDS_def NUM_COUNTERS_def NUM_EXTERNAL_COUNTERS_def

datatype Dataflow = OS | WS

datatype Activation = NONE | RELU | LAYERNORM | IGELU | SOFTMAX

datatype NormCmd = RESET | NSUM | MEAN | VARIANCE | INV_STDDEV | NMAX | SUM_EXP | INV_SUM_EXP

record loop_ws_regs =
  loop_ws_I :: u16
  loop_ws_J :: u16
  loop_ws_K :: u16
  loop_ws_pad_I :: u16
  loop_ws_pad_J :: u16
  loop_ws_pad_K :: u16
  loop_ws_A :: u64
  loop_ws_B :: u64
  loop_ws_D :: u64
  loop_ws_C :: u64
  loop_ws_A_stride :: u64
  loop_ws_B_stride :: u64
  loop_ws_D_stride :: u64
  loop_ws_C_stride :: u64

text \<open>
  The last two fields are the function-local static variables of \<open>loop_conv_ws\<close>.
\<close>

record loop_conv_ws_regs =
  lc_batch_size :: u16
  lc_in_row_dim :: u16
  lc_in_col_dim :: u16
  lc_in_channels :: u16
  lc_out_channels :: u16
  lc_in_stride :: u16
  lc_weight_stride :: u16
  lc_out_stride :: u16
  lc_out_row_dim :: u16
  lc_pool_out_row_dim :: u16
  lc_out_col_dim :: u16
  lc_pool_out_col_dim :: u16
  lc_stride :: u16
  lc_padding :: u16
  lc_kernel_dim :: u16
  lc_pool_size :: u16
  lc_pool_stride :: u16
  lc_pool_padding :: u16
  lc_batches :: u16
  lc_porows :: u16
  lc_pocols :: u16
  lc_pochs :: u16
  lc_krows :: u16
  lc_kcols :: u16
  lc_kchs :: u16
  lc_lpad :: u16
  lc_rpad :: u16
  lc_upad :: u16
  lc_dpad :: u16
  lc_plpad :: u16
  lc_prad :: u16
  lc_pupad :: u16
  lc_pdpad :: u16
  lc_orows :: u16
  lc_ocols :: u16
  lc_kernel_dilation :: u16
  lc_input :: u64
  lc_weights :: u64
  lc_output :: u64
  lc_bias :: u64
  lc_D_sp_addr_row :: u32
  lc_C_sp_addr_row :: u32

record norm_stats =
  norm_stat_id :: u8
  norm_sum :: "acc_t list"
  norm_running_max :: "acc_t list"
  norm_max :: "acc_t list"
  norm_count :: "acc_t list"
  norm_mean :: "acc_t list"
  norm_inv_stddev :: "f32 list"
  norm_inv_sum_exp :: "f32 list"
  norm_reset :: "bool list"

record counter_file =
  counter_val :: "u32 list"
  counter_snapshot_val :: "u32 list"
  counter_config :: "u16 list"
  counter_external :: "u32 list"
  counter_external_flag :: "bool list"
  snapshot_enable :: bool

record cisc_regs =
  cisc_a_addr :: reg_t
  cisc_b_addr :: reg_t
  cisc_c_addr :: reg_t
  cisc_d_addr :: reg_t
  cisc_m :: reg_t
  cisc_n :: reg_t
  cisc_k :: reg_t
  cisc_repeating_bias :: bool

record gemmini_state =
  output_sp_addr :: u32
  preload_sp_addr :: u32
  preload_cols :: u16
  preload_rows :: u16
  output_cols :: u16
  output_rows :: u16
  mode :: Dataflow
  sys_act :: Activation
  acc_act :: Activation
  sys_shift :: reg_t
  igelu_qb :: acc_t
  igelu_qc :: acc_t
  qln2 :: acc_t
  qln2_inv :: acc_t
  load_strides :: "reg_t list"
  store_stride :: reg_t
  load_block_strides :: "u16 list"
  load_shrunks :: "bool list"
  load_scales :: "f32 list"
  pixels_per_rows :: "u8 list"
  acc_shift :: f32
  sys_acc_shift :: f32
  c_stride :: u16
  a_stride :: u16
  pool_stride :: u8
  pool_size :: u8
  pool_out_dim :: u8
  pool_porows :: u8
  pool_pocols :: u8
  pool_orows :: u8
  pool_ocols :: u8
  pool_lpad :: u8
  pool_upad :: u8
  a_transpose :: bool
  b_transpose :: bool
  loop_ws_st :: loop_ws_regs
  loop_conv_st :: loop_conv_ws_regs
  norm_st :: norm_stats
  counter_st :: counter_file
  op_in_progress :: bool
  enable :: bool
  resetted :: bool
  spad :: "elem_t list list"
  pe_state :: "acc_t list list"
  accumulator :: "acc_t list list"
  cisc_st :: cisc_regs

record 'm sim = gemmini_state +
  mem :: 'm

section \<open>Vectors and arrays\<close>

text \<open>
  \<open>std::vector::at\<close> throws outside the vector; an index past the end of a built-in array is
  undefined behaviour.
\<close>

definition vec_at :: "'a list \<Rightarrow> nat \<Rightarrow> 'a res" where
  "vec_at xs i = (if i < length xs then Inr (xs ! i) else Inl OutOfRange)"

definition mat_at :: "'a list list \<Rightarrow> nat \<Rightarrow> nat \<Rightarrow> 'a res" where
  "mat_at m r c = bindE (vec_at m r) (\<lambda>row. vec_at row c)"

definition mat_set :: "'a list list \<Rightarrow> nat \<Rightarrow> nat \<Rightarrow> 'a \<Rightarrow> 'a list list res" where
  "mat_set m r c v = bindE (vec_at m r) (\<lambda>row. bindE (vec_at row c) (\<lambda>_. Inr (m[r := row[c := v]])))"

definition arr :: "'a list \<Rightarrow> nat \<Rightarrow> 'a res" where
  "arr xs i = (if i < length xs then Inr (xs ! i) else Inl Undefined)"

definition arr_set :: "'a list \<Rightarrow> nat \<Rightarrow> 'a \<Rightarrow> 'a list res" where
  "arr_set xs i v = (if i < length xs then Inr (xs[i := v]) else Inl Undefined)"

definition mat_dims :: "nat \<Rightarrow> nat \<Rightarrow> 'a list list \<Rightarrow> bool" where
  "mat_dims R C m \<longleftrightarrow> length m = R \<and> (\<forall>row \<in> set m. length row = C)"

section \<open>Reset\<close>

definition state_reset :: "'z gemmini_state_scheme \<Rightarrow> 'z gemmini_state_scheme" where
  "state_reset s = s\<lparr>
     enable := True,
     spad := replicate (sp_matrices * DIM) (replicate DIM 0),
     pe_state := replicate DIM (replicate DIM 0),
     accumulator := replicate accum_rows (replicate DIM 0),
     cisc_st := \<lparr>cisc_a_addr = 0, cisc_b_addr = 0, cisc_c_addr = 0, cisc_d_addr = 0,
       cisc_m = 0, cisc_n = 0, cisc_k = 0, cisc_repeating_bias = False\<rparr>,
     norm_st := (norm_st s)\<lparr>norm_reset := replicate NORM_STAT_IDS True\<rparr>,
     counter_st := (counter_st s)\<lparr>snapshot_enable := False\<rparr>,
     op_in_progress := False,
     resetted := True\<rparr>"

section \<open>Well-formed states\<close>

text \<open>
  The arrays of the struct have their declared lengths (this holds of the C++ object from its
  construction on), and the three memories have the dimensions the reset gives them.
\<close>

definition wf_norm :: "norm_stats \<Rightarrow> bool" where
  "wf_norm n \<longleftrightarrow> length (norm_sum n) = NORM_STAT_IDS \<and> length (norm_running_max n) = NORM_STAT_IDS \<and>
     length (norm_max n) = NORM_STAT_IDS \<and> length (norm_count n) = NORM_STAT_IDS \<and>
     length (norm_mean n) = NORM_STAT_IDS \<and> length (norm_inv_stddev n) = NORM_STAT_IDS \<and>
     length (norm_inv_sum_exp n) = NORM_STAT_IDS \<and> length (norm_reset n) = NORM_STAT_IDS"

definition wf_counters :: "counter_file \<Rightarrow> bool" where
  "wf_counters c \<longleftrightarrow> length (counter_val c) = NUM_COUNTERS \<and>
     length (counter_snapshot_val c) = NUM_COUNTERS \<and> length (counter_config c) = NUM_COUNTERS \<and>
     length (counter_external c) = NUM_EXTERNAL_COUNTERS \<and>
     length (counter_external_flag c) = NUM_COUNTERS"

definition wf_arrays :: "'z gemmini_state_scheme \<Rightarrow> bool" where
  "wf_arrays s \<longleftrightarrow> length (load_strides s) = LOAD_STATES \<and>
     length (load_block_strides s) = LOAD_STATES \<and> length (load_shrunks s) = LOAD_STATES \<and>
     length (load_scales s) = LOAD_STATES \<and> length (pixels_per_rows s) = LOAD_STATES \<and>
     wf_norm (norm_st s) \<and> wf_counters (counter_st s)"

definition wf_memories :: "'z gemmini_state_scheme \<Rightarrow> bool" where
  "wf_memories s \<longleftrightarrow> mat_dims (sp_matrices * DIM) DIM (spad s) \<and> mat_dims DIM DIM (pe_state s) \<and>
     mat_dims accum_rows DIM (accumulator s)"

definition wf_state :: "'z gemmini_state_scheme \<Rightarrow> bool" where
  "wf_state s \<longleftrightarrow> wf_arrays s \<and> wf_memories s"

section \<open>The memories as cell stores\<close>

lemma vec_at_simps:
  "i < length xs \<Longrightarrow> vec_at xs i = Inr (xs ! i)" "\<not> i < length xs \<Longrightarrow> vec_at xs i = Inl OutOfRange"
  by (simp_all add: vec_at_def)

lemma vec_at_Inr_iff: "vec_at xs i = Inr x \<longleftrightarrow> i < length xs \<and> x = xs ! i"
  by (auto simp: vec_at_def)

definition in_mat :: "'a list list \<Rightarrow> nat \<times> nat \<Rightarrow> bool" where
  "in_mat m rc \<longleftrightarrow> fst rc < length m \<and> snd rc < length (m ! fst rc)"

lemma mat_at_Inr_iff: "mat_at m r c = Inr v \<longleftrightarrow> in_mat m (r, c) \<and> v = m ! r ! c"
  by (auto simp: mat_at_def in_mat_def vec_at_def)

lemma mat_set_Inr_iff: "mat_set m r c v = Inr m' \<longleftrightarrow> in_mat m (r, c) \<and> m' = m[r := (m ! r)[c := v]]"
  by (auto simp: mat_set_def in_mat_def vec_at_def)

lemma mat_at_ok: "in_mat m (r, c) \<Longrightarrow> mat_at m r c = Inr (m ! r ! c)"
  by (simp add: mat_at_Inr_iff)

lemma mat_set_ok: "in_mat m (r, c) \<Longrightarrow> mat_set m r c v = Inr (m[r := (m ! r)[c := v]])"
  by (simp add: mat_set_Inr_iff)

lemma mat_err: "\<not> in_mat m (r, c) \<Longrightarrow> mat_at m r c = Inl OutOfRange \<and> mat_set m r c v = Inl OutOfRange"
  by (auto simp: mat_at_def mat_set_def in_mat_def vec_at_def)

lemma length_row_update [simp]: "length (m[r := (m ! r)[c := v]] ! i) = length (m ! i)"
  by (cases "r < length m") (auto simp: nth_list_update list_update_beyond)

lemma in_mat_update [simp]: "in_mat (m[r := (m ! r)[c := v]]) k = in_mat m k"
  by (simp add: in_mat_def)

lemma in_mat_dims: "mat_dims R C m \<Longrightarrow> in_mat m (r, c) \<longleftrightarrow> r < R \<and> c < C"
  by (auto simp: mat_dims_def in_mat_def)

lemma mat_dims_nth: "mat_dims R C m \<longleftrightarrow> length m = R \<and> (\<forall>i < R. length (m ! i) = C)"
  by (auto simp: mat_dims_def all_set_conv_all_nth)

lemma mat_dims_update [simp]: "mat_dims R C (m[r := (m ! r)[c := v]]) = mat_dims R C m"
  by (simp add: mat_dims_nth)

lemma mat_set_dims: "mat_set m r c v = Inr m' \<Longrightarrow> mat_dims R C m' = mat_dims R C m"
  by (auto simp: mat_set_Inr_iff)

text \<open>A vector of vectors, by row and column.\<close>

interpretation mat: cell_store "\<lambda>m k. mat_at m (fst k) (snd k)" "\<lambda>m k v. mat_set m (fst k) (snd k) v" in_mat
proof unfold_locales
  fix m m' :: "'a list list" and k k' :: "nat \<times> nat" and v
  assume "mat_set m (fst k) (snd k) v = Inr m'"
  then have k: "in_mat m k" and m': "m' = m[fst k := (m ! fst k)[snd k := v]]"
    by (auto simp: mat_set_Inr_iff)
  show "mat_at m' (fst k') (snd k') = (if k' = k then Inr v else mat_at m (fst k') (snd k'))"
    using k by (cases k; cases k') (auto simp: m' mat_at_def vec_at_def in_mat_def nth_list_update)
  show "in_mat m' k' = in_mat m k'" by (simp add: m')
qed (auto simp: mat_at_ok mat_set_ok)

lemma mat_set_get:
  assumes "mat_set m r c v = Inr m'"
  shows "mat_at m' r' c' = (if r' = r \<and> c' = c then Inr v else mat_at m r' c')" "in_mat m' k = in_mat m k"
  using mat.get_put [of m "(r, c)" v m' "(r', c')"] mat.valid_put [of m "(r, c)" v m' k] assms by auto

text \<open>The three memories inside the state.\<close>

definition set_spad :: "'z gemmini_state_scheme \<Rightarrow> nat \<times> nat \<Rightarrow> elem_t \<Rightarrow> 'z gemmini_state_scheme res" where
  "set_spad s k v = bindE (mat_set (spad s) (fst k) (snd k) v) (\<lambda>m. Inr (s\<lparr>spad := m\<rparr>))"

definition set_accumulator :: "'z gemmini_state_scheme \<Rightarrow> nat \<times> nat \<Rightarrow> acc_t \<Rightarrow> 'z gemmini_state_scheme res" where
  "set_accumulator s k v = bindE (mat_set (accumulator s) (fst k) (snd k) v) (\<lambda>m. Inr (s\<lparr>accumulator := m\<rparr>))"

definition set_pe :: "'z gemmini_state_scheme \<Rightarrow> nat \<times> nat \<Rightarrow> acc_t \<Rightarrow> 'z gemmini_state_scheme res" where
  "set_pe s k v = bindE (mat_set (pe_state s) (fst k) (snd k) v) (\<lambda>m. Inr (s\<lparr>pe_state := m\<rparr>))"

interpretation sp: cell_store "\<lambda>s k. mat_at (spad s) (fst k) (snd k)" set_spad "\<lambda>s. in_mat (spad s)"
  by unfold_locales (auto simp: set_spad_def bindE_Inr_iff mat_set_get mat_at_ok mat_set_ok split: if_splits)

interpretation ac: cell_store "\<lambda>s k. mat_at (accumulator s) (fst k) (snd k)" set_accumulator
  "\<lambda>s. in_mat (accumulator s)"
  by unfold_locales (auto simp: set_accumulator_def bindE_Inr_iff mat_set_get mat_at_ok mat_set_ok split: if_splits)

interpretation pe: cell_store "\<lambda>s k. mat_at (pe_state s) (fst k) (snd k)" set_pe "\<lambda>s. in_mat (pe_state s)"
  by unfold_locales (auto simp: set_pe_def bindE_Inr_iff mat_set_get mat_at_ok mat_set_ok split: if_splits)

text \<open>A built-in array.\<close>

lemma arr_Inr_iff: "arr xs i = Inr x \<longleftrightarrow> i < length xs \<and> x = xs ! i"
  by (auto simp: arr_def)

lemma arr_set_Inr_iff: "arr_set xs i v = Inr ys \<longleftrightarrow> i < length xs \<and> ys = xs[i := v]"
  by (auto simp: arr_set_def)

interpretation arr: cell_store arr arr_set "\<lambda>xs i. i < length xs"
  by unfold_locales (auto simp: arr_def arr_set_def split: if_splits)

lemmas res_iffs = bindE_Inr_iff mat_set_Inr_iff mat_at_Inr_iff vec_at_Inr_iff arr_Inr_iff arr_set_Inr_iff

section \<open>Keeping states well-formed\<close>

lemma wf_state_reset: "wf_arrays s \<Longrightarrow> wf_state (state_reset s)"
  by (simp add: wf_state_def wf_arrays_def wf_memories_def wf_norm_def wf_counters_def state_reset_def mat_dims_def)

lemma wf_state_updates:
  "wf_state s \<Longrightarrow> mat_dims (sp_matrices * DIM) DIM m \<Longrightarrow> wf_state (s\<lparr>spad := m\<rparr>)"
  "wf_state s \<Longrightarrow> mat_dims accum_rows DIM a \<Longrightarrow> wf_state (s\<lparr>accumulator := a\<rparr>)"
  "wf_state s \<Longrightarrow> mat_dims DIM DIM a \<Longrightarrow> wf_state (s\<lparr>pe_state := a\<rparr>)"
  "wf_state s \<Longrightarrow> wf_norm n \<Longrightarrow> wf_state (s\<lparr>norm_st := n\<rparr>)"
  "wf_state s \<Longrightarrow> wf_counters c \<Longrightarrow> wf_state (s\<lparr>counter_st := c\<rparr>)"
  by (simp_all add: wf_state_def wf_arrays_def wf_memories_def)

lemma wf_state_mem [simp]: "wf_state (s\<lparr>mem := m\<rparr>) = wf_state s"
  by (simp add: wf_state_def wf_arrays_def wf_memories_def)

lemma wf_state_dims:
  "wf_state s \<Longrightarrow> mat_dims (sp_matrices * DIM) DIM (spad s)"
  "wf_state s \<Longrightarrow> mat_dims accum_rows DIM (accumulator s)"
  "wf_state s \<Longrightarrow> mat_dims DIM DIM (pe_state s)"
  "wf_state s \<Longrightarrow> wf_norm (norm_st s)" "wf_state s \<Longrightarrow> wf_counters (counter_st s)"
  by (simp_all add: wf_state_def wf_arrays_def wf_memories_def)

lemma wf_state_in_mat:
  "wf_state s \<Longrightarrow> in_mat (spad s) (r, c) \<longleftrightarrow> r < 16384 \<and> c < 16"
  "wf_state s \<Longrightarrow> in_mat (accumulator s) (r, c) \<longleftrightarrow> r < 1024 \<and> c < 16"
  "wf_state s \<Longrightarrow> in_mat (pe_state s) (r, c) \<longleftrightarrow> r < 16 \<and> c < 16"
  by (simp_all add: in_mat_dims [OF wf_state_dims(1)] in_mat_dims [OF wf_state_dims(2)]
      in_mat_dims [OF wf_state_dims(3)] size_defs sp_matrices_def accum_rows_def)

text \<open>
  What an operation leaves alone: \<open>only_local\<close> allows changes of the three local memories,
  \<open>only_store\<close> of main memory and the normalisation statistics. Both keep the state
  well-formed.
\<close>

definition only_local :: "'z gemmini_state_scheme \<Rightarrow> 'z gemmini_state_scheme \<Rightarrow> bool" where
  "only_local s s' \<longleftrightarrow> (\<exists>m p a. s' = s\<lparr>spad := m, pe_state := p, accumulator := a\<rparr>)"

definition only_store :: "'m sim \<Rightarrow> 'm sim \<Rightarrow> bool" where
  "only_store s s' \<longleftrightarrow> (\<exists>m n. s' = s\<lparr>norm_st := n, mem := m\<rparr>)"

definition keeps_wf :: "('z gemmini_state_scheme \<Rightarrow> 'z gemmini_state_scheme \<Rightarrow> bool) \<Rightarrow>
  'z gemmini_state_scheme \<Rightarrow> 'z gemmini_state_scheme \<Rightarrow> bool" where
  "keeps_wf R s s' \<longleftrightarrow> wf_state s \<longrightarrow> wf_state s' \<and> R s s'"

text \<open>What all operations but the one on the counters leave alone: the counters, and that the state was reset.\<close>

definition same_counters :: "'z gemmini_state_scheme \<Rightarrow> 'z gemmini_state_scheme \<Rightarrow> bool" where
  "same_counters s s' \<longleftrightarrow> counter_st s' = counter_st s \<and> resetted s' = resetted s"

abbreviation wf_kept :: "'z gemmini_state_scheme \<Rightarrow> 'z gemmini_state_scheme \<Rightarrow> bool" where
  "wf_kept \<equiv> keeps_wf same_counters"

lemma same_counters_refl [simp]: "same_counters s s"
  by (simp add: same_counters_def)

lemma only_local_refl [simp]: "only_local s s"
  unfolding only_local_def
  by (rule exI [of _ "spad s"], rule exI [of _ "pe_state s"], rule exI [of _ "accumulator s"]) simp

lemma only_store_refl [simp]: "only_store s s"
  unfolding only_store_def by (rule exI [of _ "mem s"], rule exI [of _ "norm_st s"]) simp

lemma only_local_trans: "only_local s t \<Longrightarrow> only_local t u \<Longrightarrow> only_local s u"
  unfolding only_local_def by (elim exE) (simp, blast)

lemma only_store_trans: "only_store s t \<Longrightarrow> only_store t u \<Longrightarrow> only_store s u"
  unfolding only_store_def by (elim exE) (simp, blast)

lemma only_local_update [simp]:
  "only_local s (s\<lparr>spad := m\<rparr>)" "only_local s (s\<lparr>pe_state := p\<rparr>)" "only_local s (s\<lparr>accumulator := a\<rparr>)"
proof -
  have "s\<lparr>spad := m\<rparr> = s\<lparr>spad := m, pe_state := pe_state s, accumulator := accumulator s\<rparr>" by simp
  then show "only_local s (s\<lparr>spad := m\<rparr>)" unfolding only_local_def by blast
  have "s\<lparr>pe_state := p\<rparr> = s\<lparr>spad := spad s, pe_state := p, accumulator := accumulator s\<rparr>" by simp
  then show "only_local s (s\<lparr>pe_state := p\<rparr>)" unfolding only_local_def by blast
  have "s\<lparr>accumulator := a\<rparr> = s\<lparr>spad := spad s, pe_state := pe_state s, accumulator := a\<rparr>" by simp
  then show "only_local s (s\<lparr>accumulator := a\<rparr>)" unfolding only_local_def by blast
qed

lemma only_store_update [simp]: "only_store s (s\<lparr>mem := m\<rparr>)" "only_store s (s\<lparr>norm_st := n\<rparr>)"
proof -
  have "s\<lparr>mem := m\<rparr> = s\<lparr>norm_st := norm_st s, mem := m\<rparr>" by simp
  then show "only_store s (s\<lparr>mem := m\<rparr>)" unfolding only_store_def by blast
  have "s\<lparr>norm_st := n\<rparr> = s\<lparr>norm_st := n, mem := mem s\<rparr>" by simp
  then show "only_store s (s\<lparr>norm_st := n\<rparr>)" unfolding only_store_def by blast
qed

interpretation loc: frame "keeps_wf only_local"
  by unfold_locales (auto simp: keeps_wf_def intro: only_local_trans)

interpretation sto: frame "keeps_wf only_store"
  by unfold_locales (auto simp: keeps_wf_def intro: only_store_trans)

interpretation wf: frame wf_kept
  by unfold_locales (auto simp: keeps_wf_def same_counters_def)

lemma only_local_counters: "only_local s s' \<Longrightarrow> same_counters s s'"
  by (auto simp: only_local_def same_counters_def)

lemma only_store_counters: "only_store s s' \<Longrightarrow> same_counters s s'"
  by (auto simp: only_store_def same_counters_def)

lemma keeps_wf_weaken:
  "keeps (keeps_wf only_local) f \<Longrightarrow> keeps wf_kept f" "keeps (keeps_wf only_store) g \<Longrightarrow> keeps wf_kept g"
  by (erule keeps_weaken, simp add: keeps_wf_def only_local_counters only_store_counters)+

text \<open>The elementary writes.\<close>

lemma local_sets:
  "keeps (keeps_wf only_local) (\<lambda>s. bindE (mat_set (accumulator s) (r s) (c s) (v s)) (\<lambda>a. Inr (s\<lparr>accumulator := a\<rparr>)))"
  "keeps (keeps_wf only_local) (\<lambda>s. bindE (mat_set (spad s) (r s) (c s) (w s)) (\<lambda>a. Inr (s\<lparr>spad := a\<rparr>)))"
  "keeps (keeps_wf only_local) (\<lambda>s. bindE (mat_set (pe_state s) (r s) (c s) (v s)) (\<lambda>a. Inr (s\<lparr>pe_state := a\<rparr>)))"
  by (auto simp: keeps_def res_iffs keeps_wf_def wf_state_updates wf_state_dims)

lemma store_sets: "keeps (keeps_wf only_store) (\<lambda>s. bindE (f s) (\<lambda>m. Inr (s\<lparr>mem := m\<rparr>)))"
  by (auto simp: keeps_def bindE_Inr_iff keeps_wf_def)

lemma set_wf:
  "set_spad t k v = Inr u \<Longrightarrow> wf_state t \<Longrightarrow> wf_state u"
  "set_accumulator t k w = Inr u \<Longrightarrow> wf_state t \<Longrightarrow> wf_state u"
  "set_pe t k w = Inr u \<Longrightarrow> wf_state t \<Longrightarrow> wf_state u"
  by (auto simp: set_spad_def set_accumulator_def set_pe_def res_iffs wf_state_updates wf_state_dims)

lemma set_frame:
  "set_spad t k v = Inr u \<Longrightarrow> t = s\<lparr>spad := m\<rparr> \<Longrightarrow> \<exists>m. u = s\<lparr>spad := m\<rparr>"
  "set_accumulator t k w = Inr u \<Longrightarrow> t = s\<lparr>accumulator := a\<rparr> \<Longrightarrow> \<exists>m. u = s\<lparr>accumulator := m\<rparr>"
  "set_pe t k w = Inr u \<Longrightarrow> t = s\<lparr>pe_state := a\<rparr> \<Longrightarrow> \<exists>m. u = s\<lparr>pe_state := m\<rparr>"
  by (auto simp: set_spad_def set_accumulator_def set_pe_def bindE_Inr_iff)

end
