(* ===== verification/Gemmini_Dram.thy ===== *)
theory Gemmini_Dram
  imports Gemmini_State
begin

text \<open>
  Access to main memory (\<open>read_from_dram\<close>, \<open>read_matrix_from_dram\<close>, \<open>write_to_dram\<close>). The
  simulator reaches memory through Spike's MMU, byte by byte; the MMU is not part of the
  repository and is a parameter of the model, a pair of functions on a memory of any type that
  return \<open>None\<close> where Spike raises a trap. \<open>mmu_ok\<close> states what the code relies on. The last
  section shows that a \<open>read_from_dram\<close> returns what a \<open>write_to_dram\<close> left.
\<close>

section \<open>The MMU\<close>

record 'm mmu =
  mmu_load :: "'m \<Rightarrow> u64 \<Rightarrow> u8 option"
  mmu_store :: "'m \<Rightarrow> u64 \<Rightarrow> u8 \<Rightarrow> 'm option"

definition load_byte :: "'m mmu \<Rightarrow> 'm \<Rightarrow> u64 \<Rightarrow> u8 res" where
  "load_byte M m a = (case mmu_load M m a of None \<Rightarrow> Inl MemTrap | Some v \<Rightarrow> Inr v)"

definition store_byte :: "'m mmu \<Rightarrow> 'm \<Rightarrow> u64 \<Rightarrow> u8 \<Rightarrow> 'm res" where
  "store_byte M m a v = (case mmu_store M m a v of None \<Rightarrow> Inl MemTrap | Some m' \<Rightarrow> Inr m')"

definition writable :: "'m mmu \<Rightarrow> 'm \<Rightarrow> u64 \<Rightarrow> bool" where
  "writable M m a \<longleftrightarrow> mmu_store M m a 0 \<noteq> None"

text \<open>
  Plain memory: whether a store traps depends on the address alone and does not change, a
  page that can be written can be read (RISC-V reserves the other combination), and a store
  changes the byte at its address only (no two virtual addresses of the program share a
  physical one, and none is a device register).
\<close>

definition mmu_ok :: "'m mmu \<Rightarrow> bool" where
  "mmu_ok M \<longleftrightarrow>
     (\<forall>m a v. mmu_store M m a v = None \<longleftrightarrow> \<not> writable M m a) \<and>
     (\<forall>m a. writable M m a \<longrightarrow> mmu_load M m a \<noteq> None) \<and>
     (\<forall>m a v m' b. mmu_store M m a v = Some m' \<longrightarrow>
        mmu_load M m' b = (if b = a then Some v else mmu_load M m b) \<and>
        writable M m' b = writable M m b)"

section \<open>Operations\<close>

definition bytes_of :: "'a::len itself \<Rightarrow> nat" where
  "bytes_of _ = LENGTH('a) div 8"

definition read_from_dram :: "'m mmu \<Rightarrow> 'm \<Rightarrow> u64 \<Rightarrow> 'a::len word res" where
  "read_from_dram M m addr =
     forE (bytes_of TYPE('a)) (\<lambda>byte_idx value.
       bindE (load_byte M m (addr + of_nat byte_idx)) (\<lambda>b.
       Inr (value OR push_bit (byte_idx * 8) (ucast b)))) 0"

definition matrix_zeroes :: "nat \<Rightarrow> nat \<Rightarrow> 'a::zero list list" where
  "matrix_zeroes rows cols = replicate rows (replicate cols 0)"

text \<open>The element read is an \<open>elem_t\<close> whatever the template argument is; only the address
  computation uses the size of the argument.\<close>

definition read_matrix_from_dram ::
  "'m mmu \<Rightarrow> 'm \<Rightarrow> u64 \<Rightarrow> u64 \<Rightarrow> u64 \<Rightarrow> bool \<Rightarrow> bool \<Rightarrow> 'a::len word list list res" where
  "read_matrix_from_dram M m addr rows cols zeroable repeating_bias =
     (if addr = 0 then
        (if zeroable then Inr (matrix_zeroes (unat rows) (unat cols)) else Inl ExitFailure)
      else
        forE (unat rows) (\<lambda>i result.
          let ii = (if repeating_bias then 0 else of_nat i);
              dram_row_addr = addr + ii * of_nat (bytes_of TYPE('a)) * cols in
          forE (unat cols) (\<lambda>j result.
            let dram_byte_addr = dram_row_addr + of_nat j * of_nat (bytes_of TYPE('a)) in
            bindE (read_from_dram M m dram_byte_addr) (\<lambda>v :: elem_t.
            mat_set result i j (scast v))) result)
        (matrix_zeroes (unat rows) (unat cols)))"

definition write_to_dram :: "'m mmu \<Rightarrow> u64 \<Rightarrow> 'a::len word \<Rightarrow> 'm \<Rightarrow> 'm res" where
  "write_to_dram M addr data m =
     forE (bytes_of TYPE('a)) (\<lambda>byte_idx m.
       store_byte M m (addr + of_nat byte_idx) (ucast (drop_bit (byte_idx * 8) data AND 0xFF))) m"

section \<open>Memory as a cell store\<close>

lemma store_byte_Inr_iff: "store_byte M m a v = Inr m' \<longleftrightarrow> mmu_store M m a v = Some m'"
  by (auto simp: store_byte_def split: option.splits)

lemma load_byte_Inr_iff: "load_byte M m a = Inr v \<longleftrightarrow> mmu_load M m a = Some v"
  by (auto simp: load_byte_def split: option.splits)

lemma load_byte_cong: "mmu_load M m a = mmu_load M m' a \<Longrightarrow> load_byte M m a = load_byte M m' a"
  by (simp add: load_byte_def)

lemma load_byte_eq_iff: "load_byte M m a = load_byte M' m' a' \<longleftrightarrow> mmu_load M m a = mmu_load M' m' a'"
  by (auto simp: load_byte_def split: option.splits)

lemma mmu_cell_store: "mmu_ok M \<Longrightarrow> cell_store (load_byte M) (store_byte M) (writable M)"
proof unfold_locales
  assume M: "mmu_ok M"
  fix m a v m' b
  show "writable M m a \<Longrightarrow> \<exists>m'. store_byte M m a v = Inr m'"
    using M unfolding mmu_ok_def store_byte_Inr_iff by (metis not_None_eq)
  show "writable M m a \<Longrightarrow> \<exists>v. load_byte M m a = Inr v"
    using M unfolding mmu_ok_def load_byte_Inr_iff by blast
  assume "store_byte M m a v = Inr m'"
  then have "mmu_load M m' b = (if b = a then Some v else mmu_load M m b)" "writable M m' b = writable M m b"
    using M unfolding mmu_ok_def store_byte_Inr_iff by blast+
  then show "load_byte M m' b = (if b = a then Inr v else load_byte M m b)" "writable M m' b = writable M m b"
    by (auto simp: load_byte_def)
qed

text \<open>A memory with a byte at every address meets the assumptions on the MMU.\<close>

definition ram :: "(u64 \<Rightarrow> u8) mmu" where
  "ram = \<lparr>mmu_load = (\<lambda>m a. Some (m a)), mmu_store = (\<lambda>m a v. Some (m(a := v)))\<rparr>"

lemma ram_ok: "mmu_ok ram"
  by (simp add: mmu_ok_def ram_def writable_def)

lemma ram_writable [simp]: "writable ram m a"
  by (simp add: writable_def ram_def)

section \<open>Words in memory\<close>

definition byte_of :: "'a::len word \<Rightarrow> nat \<Rightarrow> u8" where
  "byte_of w i = ucast (drop_bit (i * 8) w AND 0xFF)"

lemma byte_of_bit: "bit (byte_of w i) n \<longleftrightarrow> n < 8 \<and> bit w (i * 8 + n)"
proof -
  have "(0xFF :: 'a word) = mask 8" by (simp add: mask_eq_exp_minus_1)
  then have "byte_of w i = ucast (drop_bit (i * 8) w AND mask 8)" by (simp only: byte_of_def)
  then show ?thesis
    by (auto simp: bit_ucast_iff bit_and_iff bit_drop_bit_eq bit_mask_iff simp del: mask_numeral
        dest: bit_imp_le_length)
qed

text \<open>What a word is when its bytes are known: the disjunction of the shifted bytes.\<close>

definition word_of_bytes :: "(nat \<Rightarrow> u8) \<Rightarrow> nat \<Rightarrow> 'a::len word" where
  "word_of_bytes f n = foldl (\<lambda>v i. v OR push_bit (i * 8) (ucast (f i))) 0 [0..<n]"

lemma word_of_bytes_Suc:
  "word_of_bytes f (Suc n) = word_of_bytes f n OR push_bit (n * 8) (ucast (f n))"
  by (simp add: word_of_bytes_def)

lemma bit_word_of_bytes:
  "bit (word_of_bytes f n :: 'a::len word) k \<longleftrightarrow> k < LENGTH('a) \<and> k < n * 8 \<and> bit (f (k div 8)) (k mod 8)"
proof (induction n)
  case 0
  then show ?case by (simp add: word_of_bytes_def)
next
  case (Suc n)
  have push: "bit (push_bit (n * 8) (ucast (f n)) :: 'a word) k \<longleftrightarrow>
    n * 8 \<le> k \<and> k < LENGTH('a) \<and> bit (f n) (k - n * 8)"
    by (auto simp: bit_push_bit_iff bit_ucast_iff)
  show ?case
  proof (cases "n * 8 \<le> k \<and> k < Suc n * 8")
    case True
    then have div: "k div 8 = n" by (auto intro: div_nat_eqI)
    have "k mod 8 = k - n * 8" using div by (simp add: modulo_nat_def)
    with div show ?thesis using True by (auto simp: word_of_bytes_Suc bit_or_iff Suc push)
  next
    case False
    then have "\<not> bit (f n) (k - n * 8) \<or> k < n * 8"
      using bit_imp_le_length [of "f n" "k - n * 8"] by force
    then show ?thesis using False by (auto simp: word_of_bytes_Suc bit_or_iff Suc push)
  qed
qed

lemma word_of_bytes_byte_of:
  assumes "LENGTH('a) = 8 * n"
  shows "word_of_bytes (byte_of (w :: 'a::len word)) n = w"
  by (rule bit_word_eqI) (auto simp: bit_word_of_bytes byte_of_bit assms)

lemma read_from_dram_bytes:
  assumes "\<And>i. i < bytes_of TYPE('a) \<Longrightarrow> mmu_load M m (addr + of_nat i) = Some (f i)"
  shows "read_from_dram M m addr = Inr (word_of_bytes f (bytes_of TYPE('a)) :: 'a::len word)"
proof -
  have "succeeds (read_from_dram M m addr) (\<lambda>v :: 'a word. v = word_of_bytes f (bytes_of TYPE('a)))"
    unfolding read_from_dram_def
    by (rule forE_succeeds)
      (use assms in \<open>simp_all add: load_byte_def word_of_bytes_def\<close>)
  then show ?thesis by (auto simp: succeeds_iff)
qed

lemma read_from_dram_cong:
  assumes "\<And>i. i < bytes_of TYPE('a::len) \<Longrightarrow> mmu_load M m (addr + of_nat i) = mmu_load M m' (addr + of_nat i)"
  shows "(read_from_dram M m addr :: 'a word res) = read_from_dram M m' addr"
  unfolding read_from_dram_def
  by (rule forE_cong) (use assms in \<open>simp add: load_byte_def\<close>)

lemma of_nat_u64_inj: "i < 2 ^ 64 \<Longrightarrow> j < 2 ^ 64 \<Longrightarrow> of_nat i = (of_nat j :: u64) \<longleftrightarrow> i = j"
  by (auto simp: word_of_nat_eq_iff take_bit_nat_eq_self)

lemma write_to_dram_spec:
  fixes data :: "'a::len word"
  assumes M: "mmu_ok M" and w: "\<And>i. i < bytes_of TYPE('a) \<Longrightarrow> writable M m (addr + of_nat i)"
    and small: "bytes_of TYPE('a) \<le> 2 ^ 64"
  shows "succeeds (write_to_dram M addr data m) (\<lambda>m'. writable M m' = writable M m \<and>
    (\<forall>i < bytes_of TYPE('a). mmu_load M m' (addr + of_nat i) = Some (byte_of data i)) \<and>
    (\<forall>a. (\<forall>i < bytes_of TYPE('a). a \<noteq> addr + of_nat i) \<longrightarrow> mmu_load M m' a = mmu_load M m a))"
proof -
  let ?n = "bytes_of TYPE('a)" and ?key = "\<lambda>i. addr + of_nat i"
  have "distinct (map ?key [0..<?n])"
    using small of_nat_u64_inj by (auto simp: distinct_map inj_on_def dest!: less_le_trans)
  then have "succeeds (foldE (\<lambda>i m. store_byte M m (?key i) (byte_of data i)) [0..<?n] m)
    (\<lambda>t. True \<and> (\<forall>k. writable M t k = writable M m k) \<and>
      (\<forall>i \<in> set [0..<?n]. \<forall>v. load_byte M m (?key i) = Inr v \<longrightarrow> load_byte M t (?key i) = Inr (byte_of data i)) \<and>
      (\<forall>k. k \<notin> ?key ` set [0..<?n] \<longrightarrow> load_byte M t k = load_byte M m k))"
    by (rule cell_store.sweep [OF mmu_cell_store [OF M], where J = "\<lambda>_. True"]) (use w in auto)
  moreover have "\<exists>v. load_byte M m (?key i) = Inr v" if "i < ?n" for i
    using cell_store.get_valid [OF mmu_cell_store [OF M]] w [OF that] by blast
  ultimately show ?thesis
    by (auto simp: write_to_dram_def forE_def succeeds_iff byte_of_def [symmetric] load_byte_Inr_iff
        load_byte_eq_iff fun_eq_iff image_iff)
qed

text \<open>
  A word survives the way through memory, and the rest of memory is as before.
\<close>

lemma write_read_word:
  fixes data :: "'a::len word"
  assumes "mmu_ok M" "LENGTH('a) = 8 * n" "n \<le> 8"
    and "\<And>i. i < n \<Longrightarrow> writable M m (addr + of_nat i)"
  shows "succeeds (write_to_dram M addr data m) (\<lambda>m'. read_from_dram M m' addr = Inr data \<and>
    writable M m' = writable M m \<and>
    (\<forall>a. (\<forall>i < n. a \<noteq> addr + of_nat i) \<longrightarrow> mmu_load M m' a = mmu_load M m a))"
proof -
  have n: "bytes_of TYPE('a) = n" using assms(2) by (simp add: bytes_of_def)
  then have "n \<le> 2 ^ 64" using assms(3) by simp
  then show ?thesis
    using write_to_dram_spec [of M m addr data] assms n
      read_from_dram_bytes [where f = "byte_of data" and addr = addr and M = M and 'a = 'a]
    by (auto simp: word_of_bytes_byte_of elim!: succeeds_mono)
qed

end
