(* ===== verification/Gemmini_Scale.thy ===== *)
theory Gemmini_Scale
  imports Gemmini_Dram
begin

text \<open>
  The element-wise arithmetic of the simulator: bit casts of the scale types, saturating
  scaling on the way in and out (\<open>mvin_scale\<close>, \<open>acc_scale\<close>), the rounding shift of the
  systolic array (\<open>sys_shift\<close>), activations (\<open>apply_activation\<close>, \<open>apply_igelu\<close>,
  \<open>apply_iexp\<close>). Signed \<open>int32_t\<close> arithmetic is \<open>32 word\<close> arithmetic, that is, it
  wraps around. The lemmas show that shift and scale round to the nearest even integer and
  saturate, and that scaling by a power of two and shifting agree.
\<close>

section \<open>Definitions\<close>

text \<open>A float is represented by its bits, so the unions of the source are the identity.\<close>

definition scale_t_to_scale_t_bits :: "f32 \<Rightarrow> u32" where "scale_t_to_scale_t_bits scale = scale"
definition scale_t_bits_to_scale_t :: "u32 \<Rightarrow> f32" where "scale_t_bits_to_scale_t bits = bits"
definition acc_scale_t_to_acc_scale_t_bits :: "f32 \<Rightarrow> u32" where
  "acc_scale_t_to_acc_scale_t_bits scale = scale"
definition acc_scale_t_bits_to_acc_scale_t :: "u32 \<Rightarrow> f32" where
  "acc_scale_t_bits_to_acc_scale_t bits = bits"

lemmas bit_cast_defs = scale_t_to_scale_t_bits_def scale_t_bits_to_scale_t_def
  acc_scale_t_to_acc_scale_t_bits_def acc_scale_t_bits_to_acc_scale_t_def

definition apply_activation :: "elem_t \<Rightarrow> Activation \<Rightarrow> elem_t" where
  "apply_activation value act = (if act = RELU then (if 0 < sint value then value else 0) else value)"

definition apply_activation_sys :: "'z gemmini_state_scheme \<Rightarrow> elem_t \<Rightarrow> elem_t" where
  "apply_activation_sys s value = apply_activation value (sys_act s)"

definition apply_activation_acc :: "'z gemmini_state_scheme \<Rightarrow> elem_t \<Rightarrow> elem_t" where
  "apply_activation_acc s value = apply_activation value (acc_act s)"

definition abs32 :: "acc_t \<Rightarrow> acc_t" where
  "abs32 q = (if sint q < 0 then - q else q)"

definition asr32 :: "acc_t \<Rightarrow> nat \<Rightarrow> acc_t" where
  "asr32 q n = word_of_int (drop_bit n (sint q))"

definition apply_igelu :: "acc_t \<Rightarrow> acc_t \<Rightarrow> acc_t \<Rightarrow> acc_t" where
  "apply_igelu q qb qc =
     (let q_sign = (if sint q < 0 then - 1 else 1);
          q_clipped = (if sint (- qb) < sint (abs32 q) then - qb else abs32 q);
          q_poly = (q_clipped + qb) * (q_clipped + qb) + qc;
          q_erf = q_sign * q_poly in
      q * (q_erf + qc))"

text \<open>The final shift is undefined when the shift amount is negative or at least 32.\<close>

definition apply_iexp :: "acc_t \<Rightarrow> acc_t \<Rightarrow> acc_t \<Rightarrow> acc_t \<Rightarrow> acc_t \<Rightarrow> acc_t res" where
  "apply_iexp q qb qc ln2 ln2_inv =
     (let z = asr32 (- q * ln2_inv) 16;
          qp = q + z * ln2;
          q_exp = (qp + qb) * (qp + qb) + qc in
      if 0 \<le> sint z \<and> sint z < 32 then Inr (asr32 q_exp (nat (sint z))) else Inl Undefined)"

definition saturate_elem :: "int \<Rightarrow> elem_t" where
  "saturate_elem x =
     word_of_int (if elem_t_max < x then elem_t_max else if x < elem_t_min then elem_t_min else x)"

definition mvin_scale :: "elem_t \<Rightarrow> f32 \<Rightarrow> elem_t res" where
  "mvin_scale value scale = bindE (MVIN_SCALE (sint value) scale) (\<lambda>scaled. Inr (saturate_elem scaled))"

definition acc_scale :: "acc_t \<Rightarrow> f32 \<Rightarrow> elem_t res" where
  "acc_scale value scale = bindE (ACC_SCALE (sint value) scale) (\<lambda>scaled. Inr (saturate_elem scaled))"

definition sys_shift_op :: "acc_t \<Rightarrow> u32 \<Rightarrow> elem_t res" where
  "sys_shift_op value shift =
     (if unat shift < 32 then Inr (saturate_elem (ROUNDING_RIGHT_SHIFT (sint value) (unat shift)))
      else Inl Undefined)"

section \<open>Saturation and rounding\<close>

lemma saturate_elem_clamp: "saturate_elem x = word_of_int (clamp8 x)"
  by (simp add: saturate_elem_def clamp8_def elem_t_max_def elem_t_min_def)

lemma clamp8_idem [simp]: "clamp8 (clamp8 x) = clamp8 x"
  by (simp add: clamp8_def)

lemma saturate_clamp [simp]: "saturate_elem (clamp8 x) = word_of_int (clamp8 x)"
  by (simp add: saturate_elem_clamp)

lemma sint_saturate [simp]: "sint (saturate_elem x) = clamp8 x"
  using clamp8_bounds [of x]
  by (simp add: saturate_elem_clamp signed_of_int signed_take_bit_int_eq_self)

lemma saturate_sint [simp]: "saturate_elem (sint (v :: elem_t)) = v"
proof -
  have "-128 \<le> sint v" "sint v < 128" using sint_range_size [of v] by (auto simp: word_size)
  then show ?thesis by (simp add: saturate_elem_clamp clamp8_id)
qed

lemma sys_shift_op_rhe:
  "unat shift < 32 \<Longrightarrow> sys_shift_op v shift = Inr (word_of_int (clamp8 (rhe (of_int (sint v) / 2 ^ unat shift))))"
  by (simp add: sys_shift_op_def rounding_right_shift_rhe saturate_elem_clamp)

lemma sint32_range: "- (2 ^ 31) \<le> sint (v :: 32 word)" "sint (v :: 32 word) < 2 ^ 31"
  using sint_range_size [of v] by (auto simp: word_size)

lemma sint8_range: "- 128 \<le> sint (v :: 8 word)" "sint (v :: 8 word) < 128"
  using sint_range_size [of v] by (auto simp: word_size)

lemma acc_scale_one: "acc_scale v ACC_SCALE_IDENTITY = Inr (saturate_elem (sint v))"
  using scale_macros_one [OF sint32_range [of v]]
  by (simp add: acc_scale_def ACC_SCALE_IDENTITY_def saturate_elem_clamp)

lemma mvin_scale_one: "mvin_scale v MVIN_SCALE_IDENTITY = Inr v"
proof -
  have "MVIN_SCALE (sint v) 0x3F800000 = Inr (clamp8 (sint v))"
    by (rule scale_macros_one) (use sint8_range [of v] in auto)
  then show ?thesis
    using sint8_range [of v]
    by (simp add: mvin_scale_def MVIN_SCALE_IDENTITY_def clamp8_id)
qed

text \<open>
  Scaling rounds the exact product to the nearest even integer and saturates it, as long as
  the product is a multiple of a power of two for which \<open>ROUND_NEAR_EVEN\<close> does not round
  itself.
\<close>

lemma round_product:
  assumes "\<bar>v\<bar> < 2 ^ 24" "f32_finite scale"
    and prod: "of_int v * f32_rat scale = of_int k * 2 powi z"
    and z: "-149 \<le> z" "z \<le> 0" "\<bar>k\<bar> + 2 ^ nat (- z) < 2 ^ 24"
  shows "\<exists>y. ROUND_NEAR_EVEN (f32_mul (f32_of_int v) scale) = Inr y \<and> f32_finite y \<and>
    f32_rat y = of_int (rhe (of_int v * f32_rat scale))"
proof -
  note v = f32_of_int_exact [OF assms(1)]
  have "(0 :: int) \<le> 2 ^ nat (- z)" by simp
  then have "\<bar>k\<bar> < 2 ^ 24" using z(3) by linarith
  note m = f32_mul_exact [OF v(1) assms(2) this z(1)]
  show ?thesis
    using round_near_even_dyadic [of "f32_mul (f32_of_int v) scale" k z] m z v(2) prod by simp
qed

lemma acc_scale_dyadic:
  assumes "\<bar>sint v\<bar> < 2 ^ 24" "f32_finite scale"
    and "of_int (sint v) * f32_rat scale = of_int k * 2 powi z"
    and "-149 \<le> z" "z \<le> 0" "\<bar>k\<bar> + 2 ^ nat (- z) < 2 ^ 24"
  shows "acc_scale v scale = Inr (saturate_elem (rhe (of_int (sint v) * f32_rat scale)))"
  using round_product [OF assms] scale_macros_round(1)
  by (auto simp: acc_scale_def saturate_elem_clamp)

lemma mvin_scale_dyadic:
  assumes "f32_finite scale"
    and "of_int (sint v) * f32_rat scale = of_int k * 2 powi z"
    and "-149 \<le> z" "z \<le> 0" "\<bar>k\<bar> + 2 ^ nat (- z) < 2 ^ 24"
  shows "mvin_scale v scale = Inr (saturate_elem (rhe (of_int (sint v) * f32_rat scale)))"
proof -
  have "\<bar>sint v\<bar> < 2 ^ 24" using sint8_range [of v] by auto
  from round_product [OF this assms] scale_macros_round(2) show ?thesis
    by (auto simp: mvin_scale_def saturate_elem_clamp)
qed

text \<open>The float \<open>2 powi - n\<close>.\<close>

definition pow2_scale :: "nat \<Rightarrow> f32" where
  "pow2_scale n = word_of_int ((127 - int n) * 2 ^ 23)"

lemma pow2_scale_rat:
  assumes "n < 127"
  shows "f32_finite (pow2_scale n)" "f32_rat (pow2_scale n) = 1 / 2 ^ n"
proof -
  let ?b = "(127 - int n) * 2 ^ 23"
  have b: "0 < ?b" "?b < 2 ^ 31" using assms by auto
  have u: "uint (pow2_scale n) = ?b"
    unfolding pow2_scale_def uint_word_of_int_eq by (rule take_bit_int_eq_self) (use b in auto)
  have "\<not> bit (pow2_scale n) 31"
  proof -
    have "?b div 2 ^ 31 = 0" using b by simp
    then have "\<not> bit ?b 31" by (simp only: bit_iff_odd) simp
    then show ?thesis using bit_uint_iff [of "pow2_scale n" 31] unfolding u by simp
  qed
  moreover have "?b mod 2 ^ 31 = ?b" using b by simp
  ultimately have d: "f32_decode (pow2_scale n) = FFin False (2 ^ 23) (- 23 - int n)"
    using assms by (simp add: f32_decode_def u Let_def)
  then show "f32_finite (pow2_scale n)" by (simp add: f32_finite_def)
  show "f32_rat (pow2_scale n) = 1 / 2 ^ n"
    by (simp add: f32_rat_def d power_int_diff power_int_minus field_simps)
qed

lemma acc_scale_pow2:
  assumes "n < 24" "\<bar>sint v\<bar> + 2 ^ n < 2 ^ 24"
  shows "acc_scale v (pow2_scale n) = sys_shift_op v (of_nat n)"
proof -
  have n: "n < 127" using assms(1) by simp
  have "(0 :: int) \<le> 2 ^ n" by simp
  then have "\<bar>sint v\<bar> < 2 ^ 24" using assms(2) by linarith
  then have "acc_scale v (pow2_scale n) = Inr (saturate_elem (rhe (of_int (sint v) * f32_rat (pow2_scale n))))"
    by (rule acc_scale_dyadic [where k = "sint v" and z = "- int n"])
      (use assms pow2_scale_rat [OF n] in \<open>auto simp: power_int_minus field_simps\<close>)
  moreover have "unat (of_nat n :: u32) = n" using assms(1) by (simp add: unat_of_nat take_bit_nat_eq_self)
  ultimately show ?thesis
    using assms(1) by (simp add: sys_shift_op_rhe pow2_scale_rat [OF n] saturate_elem_clamp)
qed

section \<open>Activations\<close>

lemma apply_activation_relu: "sint (apply_activation v RELU) = max 0 (sint v)"
  by (auto simp: apply_activation_def)

lemma apply_activation_other: "act \<noteq> RELU \<Longrightarrow> apply_activation v act = v"
  by (simp add: apply_activation_def)

end
