(* ===== verification/Gemmini_Norm.thy ===== *)
theory Gemmini_Norm
  imports Gemmini_Scale
begin

text \<open>
  The normalisation unit: \<open>apply_norm\<close> gathers statistics of accumulator rows (sum, mean,
  variance, running maximum, sum of exponentials) into the slot chosen by \<open>norm_stat_id\<close>,
  \<open>apply_pre_activation_acc\<close> uses them on the way out, and \<open>non_terminating_norm_cmd\<close> is the
  command of all blocks of a row but the last.
\<close>

section \<open>Integer helpers of the source language\<close>

text \<open>Division of \<open>int32_t\<close>: towards zero; by zero, and of the least value by -1, undefined.\<close>

definition trunc_div :: "int \<Rightarrow> int \<Rightarrow> int" where
  "trunc_div a b = (if (a < 0) = (b < 0) then \<bar>a\<bar> div \<bar>b\<bar> else - (\<bar>a\<bar> div \<bar>b\<bar>))"

definition acc_div :: "acc_t \<Rightarrow> acc_t \<Rightarrow> acc_t res" where
  "acc_div a b = (let q = trunc_div (sint a) (sint b) in
     if sint b = 0 \<or> q = 2 ^ 31 then Inl Undefined else Inr (word_of_int q))"

text \<open>
  \<open>(acc_t) sqrt((double) n)\<close> for \<open>0 \<le> n < 2 ^ 31\<close>. The square root of a double is correctly
  rounded, and the root of such an \<open>n\<close> that is no square differs from the next integer by more
  than a rounding, so the truncated result is the integer square root, computed here bit by
  bit from bit 15 on.
\<close>

primrec isqrt_bits :: "nat \<Rightarrow> nat \<Rightarrow> nat \<Rightarrow> nat" where
  "isqrt_bits 0 n r = r"
| "isqrt_bits (Suc b) n r = isqrt_bits b n (if (r + 2 ^ b) * (r + 2 ^ b) \<le> n then r + 2 ^ b else r)"

definition isqrt :: "nat \<Rightarrow> nat" where
  "isqrt n = isqrt_bits 16 n 0"

definition sqrt_acc :: "acc_t \<Rightarrow> acc_t res" where
  "sqrt_acc v = (if sint v < 0 then Inl Undefined else Inr (of_nat (isqrt (nat (sint v)))))"

section \<open>Operations\<close>

definition apply_pre_activation_acc :: "'z gemmini_state_scheme \<Rightarrow> acc_t \<Rightarrow> acc_t res" where
  "apply_pre_activation_acc s value =
     (if acc_act s = IGELU then Inr (apply_igelu value (igelu_qb s) (igelu_qc s))
      else if acc_act s = LAYERNORM then
        (let stat_id = unat (norm_stat_id (norm_st s)) in
         bindE (arr (norm_mean (norm_st s)) stat_id) (\<lambda>mean.
         bindE (arr (norm_inv_stddev (norm_st s)) stat_id) (\<lambda>inv_stddev.
         bindE (f32_to_sint 32 (f32_mul (f32_of_int (sint (value - mean))) inv_stddev)) (\<lambda>r.
         Inr (word_of_int r)))))
      else if acc_act s = SOFTMAX then
        (let stat_id = unat (norm_stat_id (norm_st s)) in
         bindE (arr (norm_max (norm_st s)) stat_id) (\<lambda>mx.
         bindE (arr (norm_inv_sum_exp (norm_st s)) stat_id) (\<lambda>inv_sum_exp.
         bindE (apply_iexp (value - mx) (igelu_qb s) (igelu_qc s) (qln2 s) (qln2_inv s)) (\<lambda>e.
         bindE (acc_scale e inv_sum_exp) (\<lambda>r. Inr (scast r))))))
      else Inr value)"

text \<open>The statistics of one slot; the source binds references to the eight array cells.\<close>

record slot =
  sl_sum :: acc_t
  sl_count :: acc_t
  sl_mean :: acc_t
  sl_inv_stddev :: f32
  sl_max :: acc_t
  sl_running_max :: acc_t
  sl_inv_sum_exp :: f32
  sl_reset :: bool

definition get_slot :: "norm_stats \<Rightarrow> nat \<Rightarrow> slot res" where
  "get_slot n i =
     bindE (arr (norm_sum n) i) (\<lambda>sm. bindE (arr (norm_count n) i) (\<lambda>ct.
     bindE (arr (norm_mean n) i) (\<lambda>mn. bindE (arr (norm_inv_stddev n) i) (\<lambda>sd.
     bindE (arr (norm_max n) i) (\<lambda>mx. bindE (arr (norm_running_max n) i) (\<lambda>rm.
     bindE (arr (norm_inv_sum_exp n) i) (\<lambda>se. bindE (arr (norm_reset n) i) (\<lambda>rs.
     Inr \<lparr>sl_sum = sm, sl_count = ct, sl_mean = mn, sl_inv_stddev = sd, sl_max = mx,
       sl_running_max = rm, sl_inv_sum_exp = se, sl_reset = rs\<rparr>))))))))"

definition put_slot :: "norm_stats \<Rightarrow> nat \<Rightarrow> slot \<Rightarrow> norm_stats" where
  "put_slot n i c = n\<lparr>
     norm_sum := (norm_sum n)[i := sl_sum c], norm_count := (norm_count n)[i := sl_count c],
     norm_mean := (norm_mean n)[i := sl_mean c],
     norm_inv_stddev := (norm_inv_stddev n)[i := sl_inv_stddev c],
     norm_max := (norm_max n)[i := sl_max c],
     norm_running_max := (norm_running_max n)[i := sl_running_max c],
     norm_inv_sum_exp := (norm_inv_sum_exp n)[i := sl_inv_sum_exp c],
     norm_reset := (norm_reset n)[i := sl_reset c]\<rparr>"

definition ACC_MIN :: acc_t where "ACC_MIN = 0x80000000"

definition norm_start :: "NormCmd \<Rightarrow> slot \<Rightarrow> slot" where
  "norm_start cmd c =
     (let c = (if sl_reset c then c\<lparr>sl_sum := 0, sl_count := 0, sl_running_max := ACC_MIN\<rparr> else c) in
      c\<lparr>sl_reset := cmd = RESET \<or> cmd = MEAN \<or> cmd = INV_STDDEV\<rparr>)"

definition norm_accumulate ::
  "'z gemmini_state_scheme \<Rightarrow> acc_t list \<Rightarrow> nat \<Rightarrow> NormCmd \<Rightarrow> slot \<Rightarrow> slot res" where
  "norm_accumulate s x len cmd c =
     (if cmd = NSUM \<or> cmd = MEAN then
        bindE (forE len (\<lambda>i c. bindE (arr x i) (\<lambda>xi. Inr (c\<lparr>sl_sum := sl_sum c + xi\<rparr>))) c) (\<lambda>c.
        Inr (c\<lparr>sl_count := sl_count c + of_nat len\<rparr>))
      else if cmd = VARIANCE \<or> cmd = INV_STDDEV then
        bindE (forE len (\<lambda>i c. bindE (arr x i) (\<lambda>xi.
          Inr (c\<lparr>sl_sum := sl_sum c + (xi - sl_mean c) * (xi - sl_mean c)\<rparr>))) c) (\<lambda>c.
        Inr (c\<lparr>sl_count := sl_count c + of_nat len\<rparr>))
      else if cmd = NMAX then
        forE len (\<lambda>i c. bindE (arr x i) (\<lambda>xi.
          Inr (c\<lparr>sl_running_max := (if sint (sl_running_max c) < sint xi then xi else sl_running_max c)\<rparr>))) c
      else if cmd = SUM_EXP \<or> cmd = INV_SUM_EXP then
        forE len (\<lambda>i c. bindE (arr x i) (\<lambda>xi.
          bindE (apply_iexp (xi - sl_max c) (igelu_qb s) (igelu_qc s) (qln2 s) (qln2_inv s)) (\<lambda>e.
          Inr (c\<lparr>sl_sum := sl_sum c + e\<rparr>)))) (c\<lparr>sl_max := sl_running_max c\<rparr>)
      else Inr c)"

definition norm_finish :: "NormCmd \<Rightarrow> slot \<Rightarrow> slot res" where
  "norm_finish cmd c =
     (if cmd = MEAN then
        bindE (acc_div (sl_sum c) (sl_count c)) (\<lambda>q. Inr (c\<lparr>sl_mean := q\<rparr>))
      else if cmd = INV_STDDEV then
        bindE (acc_div (sl_sum c) (sl_count c)) (\<lambda>variance.
        bindE (sqrt_acc variance) (\<lambda>root.
        let norm_stddev = (if variance = 0 then 1 else root) in
        Inr (c\<lparr>sl_inv_stddev := f32_div 0x3F800000 (f32_of_int (sint norm_stddev))\<rparr>)))
      else if cmd = INV_SUM_EXP then
        Inr (c\<lparr>sl_running_max := ACC_MIN,
               sl_inv_sum_exp := f32_div 0x42FE0000 (f32_of_int (sint (sl_sum c)))\<rparr>)
      else Inr c)"

definition apply_norm ::
  "acc_t list \<Rightarrow> nat \<Rightarrow> NormCmd \<Rightarrow> 'z gemmini_state_scheme \<Rightarrow> (bool \<times> 'z gemmini_state_scheme) res" where
  "apply_norm x len cmd s =
     (let stat_id = unat (norm_stat_id (norm_st s)) in
      bindE (get_slot (norm_st s) stat_id) (\<lambda>c.
      bindE (norm_accumulate s x len cmd (norm_start cmd c)) (\<lambda>c.
      bindE (norm_finish cmd c) (\<lambda>c.
      Inr (cmd = RESET, s\<lparr>norm_st := put_slot (norm_st s) stat_id c\<rparr>)))))"

fun non_terminating_norm_cmd :: "NormCmd \<Rightarrow> NormCmd" where
  "non_terminating_norm_cmd RESET = RESET"
| "non_terminating_norm_cmd MEAN = NSUM"
| "non_terminating_norm_cmd INV_STDDEV = VARIANCE"
| "non_terminating_norm_cmd INV_SUM_EXP = SUM_EXP"
| "non_terminating_norm_cmd cmd = cmd"

section \<open>Frame\<close>

lemma wf_put_slot [simp]: "wf_norm (put_slot n i c) = wf_norm n"
  by (simp add: wf_norm_def put_slot_def)

lemma apply_norm_store:
  assumes "apply_norm x len cmd s = Inr (w, s')"
  shows "keeps_wf only_store s s'"
  using assms by (auto simp: apply_norm_def Let_def res_iffs keeps_wf_def wf_state_updates wf_state_dims)

end
