(* ===== verification/Gemmini_Move.thy ===== *)
theory Gemmini_Move
  imports Gemmini_Norm
begin

text \<open>
  The DMA operations \<open>mvin\<close> and \<open>mvout\<close>: a block of rows moves between main memory and the
  scratchpad or the accumulator, with scaling, activation, normalisation and pooling on the
  way. The operand \<open>sp_addr\<close> packs the shape of the block over the row address and its flags.
\<close>

section \<open>Bit fields of an operand\<close>

definition fld :: "nat \<Rightarrow> u64 \<Rightarrow> u64 \<Rightarrow> u64" where
  "fld sh msk w = drop_bit sh w AND msk"

definition flag :: "nat \<Rightarrow> u64 \<Rightarrow> bool" where
  "flag sh w \<longleftrightarrow> fld sh 1 w \<noteq> 0"

text \<open>\<open>(rows << 48) | (cols << 32) | addr\<close>, the operand of all block operations.\<close>

definition block_operand :: "u64 \<Rightarrow> u64 \<Rightarrow> u32 \<Rightarrow> u64" where
  "block_operand rows cols addr = push_bit 48 rows OR push_bit 32 cols OR ucast addr"

section \<open>mvin\<close>

definition mvin_acc_value :: "'m mmu \<Rightarrow> 'm \<Rightarrow> bool \<Rightarrow> bool \<Rightarrow> f32 \<Rightarrow> u64 \<Rightarrow> acc_t res" where
  "mvin_acc_value M m is_zeros load_shrunk load_scale dram_byte_addr =
     (if is_zeros then Inr 0
      else if \<not> load_shrunk then read_from_dram M m dram_byte_addr
      else bindE (read_from_dram M m dram_byte_addr) (\<lambda>v :: elem_t.
           bindE (mvin_scale v load_scale) (\<lambda>e. Inr (scast e))))"

definition mvin_spad_value :: "'m mmu \<Rightarrow> 'm \<Rightarrow> bool \<Rightarrow> f32 \<Rightarrow> u64 \<Rightarrow> elem_t res" where
  "mvin_spad_value M m is_zeros load_scale dram_byte_addr =
     (if is_zeros then Inr 0
      else bindE (read_from_dram M m dram_byte_addr) (\<lambda>v :: elem_t. mvin_scale v load_scale))"

text \<open>The body of the innermost loop: the element goes to row \<open>r\<close>, column \<open>c\<close>.\<close>

definition mvin_elem ::
  "'m mmu \<Rightarrow> bool \<Rightarrow> bool \<Rightarrow> bool \<Rightarrow> bool \<Rightarrow> f32 \<Rightarrow> u64 \<Rightarrow> nat \<Rightarrow> nat \<Rightarrow> nat \<Rightarrow> 'm sim \<Rightarrow> 'm sim res" where
  "mvin_elem M is_acc accumulate is_zeros load_shrunk load_scale dram_row_addr col r c s =
     (if is_acc then
        let dram_byte_addr = dram_row_addr + of_nat col * (if load_shrunk then 1 else 4) in
        bindE (mvin_acc_value M (mem s) is_zeros load_shrunk load_scale dram_byte_addr) (\<lambda>v.
        if accumulate then
          bindE (mat_at (accumulator s) r c) (\<lambda>old.
          bindE (mat_set (accumulator s) r c (old + v)) (\<lambda>a.
          Inr (s\<lparr>accumulator := a\<rparr>)))
        else
          bindE (mat_set (accumulator s) r c v) (\<lambda>a.
          Inr (s\<lparr>accumulator := a\<rparr>)))
      else
        let dram_byte_addr = dram_row_addr + of_nat col in
        bindE (mvin_spad_value M (mem s) is_zeros load_scale dram_byte_addr) (\<lambda>v.
        bindE (mat_set (spad s) r c v) (\<lambda>a.
        Inr (s\<lparr>spad := a\<rparr>))))"

definition mvin :: "'m mmu \<Rightarrow> u64 \<Rightarrow> u64 \<Rightarrow> nat \<Rightarrow> 'm sim \<Rightarrow> 'm sim res" where
  "mvin M dram_addr sp_addr state_id s =
     (let is_acc = flag 31 sp_addr;
          accumulate = flag 30 sp_addr;
          base_row_addr = unat (sp_addr AND 0x1FFFFFFF);
          cols = unat (fld ADDR_LEN 0xFFFF sp_addr);
          rows = unat (fld (ADDR_LEN + 16) 0xFFFF sp_addr);
          is_zeros = (dram_addr = 0) in
      bindE (arr (load_strides s) state_id) (\<lambda>load_stride.
      bindE (arr (load_block_strides s) state_id) (\<lambda>load_block_stride.
      bindE (arr (load_shrunks s) state_id) (\<lambda>load_shrunk.
      bindE (arr (load_scales s) state_id) (\<lambda>load_scale.
      bindE (arr (pixels_per_rows s) state_id) (\<lambda>pixels_per_row.
      forE rows (\<lambda>row s.
        let dram_row_addr = dram_addr + of_nat row * load_stride in
        forE cols (\<lambda>col s.
          let block = col div DIM;
              spad_col = col mod DIM;
              spad_row = base_row_addr + row + block * unat load_block_stride in
          forE (min (unat pixels_per_row) (Suc spad_row)) (\<lambda>pixel s.
            mvin_elem M is_acc accumulate is_zeros load_shrunk load_scale dram_row_addr col
              (spad_row - pixel) (spad_col + pixel * cols) s) s) s) s))))))"

section \<open>mvout\<close>

definition norm_cmd_of :: "u64 \<Rightarrow> NormCmd" where
  "norm_cmd_of c = [RESET, NSUM, MEAN, VARIANCE, INV_STDDEV, NMAX, SUM_EXP, INV_SUM_EXP] ! unat (c AND 7)"

text \<open>The first inner loop of \<open>mvout\<close>: the blocks of one row pass the normalisation unit. It
  reads the accumulator whichever memory the move is from.\<close>

definition mvout_norm :: "nat \<Rightarrow> nat \<Rightarrow> NormCmd \<Rightarrow> nat \<Rightarrow> 'm sim \<Rightarrow> (bool \<times> 'm sim) res" where
  "mvout_norm base_row_addr cols norm_cmd i s =
     forE ((cols + DIM - 1) div DIM) (\<lambda>block (_, s).
       let j = block * DIM;
           spad_row = base_row_addr + block * DIM + i;
           len = (if DIM < cols - j then DIM else cols - j);
           is_last = (cols \<le> j + DIM);
           n_cmd = (if is_last then norm_cmd else non_terminating_norm_cmd norm_cmd) in
       bindE (vec_at (accumulator s) spad_row) (\<lambda>row.
       bindE (vec_at row 0) (\<lambda>_.
       apply_norm row len n_cmd s))) (True, s)"

definition mvout_acc_elem :: "'m mmu \<Rightarrow> bool \<Rightarrow> u64 \<Rightarrow> nat \<Rightarrow> acc_t \<Rightarrow> 'm sim \<Rightarrow> 'm sim res" where
  "mvout_acc_elem M full dram_row_addr j acc_value s =
     bindE (apply_pre_activation_acc s acc_value) (\<lambda>acc_value.
     bindE (acc_scale acc_value (acc_shift s)) (\<lambda>shifted.
     let activated = apply_activation_acc s shifted;
         sizeof_output = (if full then 4 else 1);
         dram_byte_addr = dram_row_addr + of_nat j * sizeof_output in
     bindE (if full then write_to_dram M dram_byte_addr acc_value (mem s)
            else write_to_dram M dram_byte_addr activated (mem s)) (\<lambda>m.
     Inr (s\<lparr>mem := m\<rparr>))))"

definition mvout_elem :: "'m mmu \<Rightarrow> bool \<Rightarrow> bool \<Rightarrow> nat \<Rightarrow> u64 \<Rightarrow> nat \<Rightarrow> nat \<Rightarrow> 'm sim \<Rightarrow> 'm sim res" where
  "mvout_elem M is_acc full base_row_addr dram_row_addr i j s =
     (let block = j div DIM;
          spad_col = j mod DIM;
          spad_row = base_row_addr + block * DIM + i in
      if is_acc then
        bindE (mat_at (accumulator s) spad_row spad_col) (\<lambda>acc_value.
        mvout_acc_elem M full dram_row_addr j acc_value s)
      else
        let dram_byte_addr = dram_row_addr + of_nat j in
        bindE (mat_at (spad s) spad_row spad_col) (\<lambda>v.
        bindE (write_to_dram M dram_byte_addr v (mem s)) (\<lambda>m.
        Inr (s\<lparr>mem := m\<rparr>))))"

definition mvout_rows :: "'m mmu \<Rightarrow> u64 \<Rightarrow> u64 \<Rightarrow> 'm sim \<Rightarrow> 'm sim res" where
  "mvout_rows M dram_addr sp_addr s =
     (let is_acc = flag 31 sp_addr;
          full = flag 29 sp_addr;
          norm_cmd = norm_cmd_of (fld 26 7 sp_addr);
          base_row_addr = unat (sp_addr AND 0x3FFFFFF);
          cols = unat (fld ADDR_LEN 0xFFFF sp_addr);
          rows = unat (fld (ADDR_LEN + 16) 0xFFFF sp_addr) in
      forE rows (\<lambda>i s.
        let dram_row_addr = dram_addr + of_nat i * store_stride s in
        bindE (mvout_norm base_row_addr cols norm_cmd i s) (\<lambda>(should_write, s).
        if \<not> should_write then Inr s
        else forE cols (\<lambda>j s. mvout_elem M is_acc full base_row_addr dram_row_addr i j s) s)) s)"

definition pool_elem :: "nat \<Rightarrow> bool \<Rightarrow> nat \<Rightarrow> int \<Rightarrow> int \<Rightarrow> 'm sim \<Rightarrow> elem_t res" where
  "pool_elem base_row_addr is_acc poch orow ocol s =
     (if orow < 0 \<or> ocol < 0 \<or> uint (pool_orows s) \<le> orow \<or> uint (pool_ocols s) \<le> ocol then Inr 0
      else
        let row_addr = nat (int base_row_addr + orow * uint (pool_ocols s) + ocol) in
        if is_acc then
          bindE (mat_at (accumulator s) row_addr poch) (\<lambda>acc_value.
          bindE (acc_scale acc_value (acc_shift s)) (\<lambda>shifted.
          Inr (apply_activation_acc s shifted)))
        else mat_at (spad s) row_addr poch)"

definition pool_value :: "nat \<Rightarrow> bool \<Rightarrow> nat \<Rightarrow> nat \<Rightarrow> nat \<Rightarrow> 'm sim \<Rightarrow> elem_t res" where
  "pool_value base_row_addr is_acc porow pocol poch s =
     forE (unat (pool_size s)) (\<lambda>wrow v.
       forE (unat (pool_size s)) (\<lambda>wcol v.
         let orow = int porow * uint (pool_stride s) + int wrow - uint (pool_upad s);
             ocol = int pocol * uint (pool_stride s) + int wcol - uint (pool_lpad s) in
         bindE (pool_elem base_row_addr is_acc poch orow ocol s) (\<lambda>elem.
         Inr (if sint v < sint elem then elem else v))) v) (word_of_int elem_t_min)"

definition mvout_pool_elem :: "'m mmu \<Rightarrow> u64 \<Rightarrow> nat \<Rightarrow> bool \<Rightarrow> nat \<Rightarrow> nat \<Rightarrow> nat \<Rightarrow> 'm sim \<Rightarrow> 'm sim res" where
  "mvout_pool_elem M dram_addr base_row_addr is_acc porow pocol poch s =
     bindE (pool_value base_row_addr is_acc porow pocol poch s) (\<lambda>v.
     let dram_byte_addr = dram_addr +
           of_nat (porow * unat (pool_out_dim s) + pocol) * store_stride s + of_nat poch in
     bindE (write_to_dram M dram_byte_addr v (mem s)) (\<lambda>m.
     Inr (s\<lparr>mem := m\<rparr>)))"

definition mvout_pool :: "'m mmu \<Rightarrow> u64 \<Rightarrow> u64 \<Rightarrow> 'm sim \<Rightarrow> 'm sim res" where
  "mvout_pool M dram_addr sp_addr s =
     (let is_acc = flag 31 sp_addr;
          base_row_addr = unat (sp_addr AND 0x3FFFFFF);
          channels = unat (fld ADDR_LEN 0xFFFF sp_addr) in
      forE (unat (pool_porows s)) (\<lambda>porow s.
        forE (unat (pool_pocols s)) (\<lambda>pocol s.
          forE channels (\<lambda>poch s.
            mvout_pool_elem M dram_addr base_row_addr is_acc porow pocol poch s) s) s) s)"

definition mvout :: "'m mmu \<Rightarrow> u64 \<Rightarrow> u64 \<Rightarrow> 'm sim \<Rightarrow> 'm sim res" where
  "mvout M dram_addr sp_addr s =
     (if pool_stride s = 0 then mvout_rows M dram_addr sp_addr s
      else mvout_pool M dram_addr sp_addr s)"

section \<open>Frames\<close>

lemma mvin_elem_local: "keeps (keeps_wf only_local) (mvin_elem M ac accu z sh sc a col r c)"
  unfolding mvin_elem_def Let_def by (rule local_sets loc.keeps_intros)+

lemma mvin_local: "keeps (keeps_wf only_local) (mvin M dram_addr sp_addr state_id)"
  unfolding mvin_def Let_def
  by (rule mvin_elem_local loc.keeps_bind_value loc.keeps_forE)+

lemma mvout_norm_store:
  assumes "mvout_norm base cols cmd i s = Inr (w, s')"
  shows "keeps_wf only_store s s'"
proof -
  have "whenOk (mvout_norm base cols cmd i s) (\<lambda>p. keeps_wf only_store s (snd p))"
    unfolding mvout_norm_def Let_def
    by (rule forE_invariant)
     (auto simp: whenOk_iff res_iffs sto.frame_refl intro: sto.frame_trans dest!: apply_norm_store)
  then show ?thesis using assms by simp
qed

lemma mvout_elem_store: "keeps (keeps_wf only_store) (mvout_elem M ac full base a i j)"
  unfolding mvout_elem_def mvout_acc_elem_def Let_def by (rule store_sets sto.keeps_intros)+

lemma mvout_pool_elem_store: "keeps (keeps_wf only_store) (mvout_pool_elem M a base ac porow pocol poch)"
  unfolding mvout_pool_elem_def Let_def by (rule store_sets sto.keeps_intros)+

lemma mvout_store: "keeps (keeps_wf only_store) (mvout M dram_addr sp_addr)"
proof -
  have "keeps (keeps_wf only_store) (mvout_rows M dram_addr sp_addr)"
    unfolding mvout_rows_def Let_def
    by (rule sto.keeps_bind_pair mvout_norm_store mvout_elem_store sto.keeps_intros | assumption)+
  moreover have "keeps (keeps_wf only_store) (mvout_pool M dram_addr sp_addr)"
    unfolding mvout_pool_def Let_def by (rule mvout_pool_elem_store sto.keeps_forE)+
  ultimately show ?thesis
    unfolding mvout_def by (rule sto.keeps_if)
qed

end
