(* ===== verification/Gemmini_Compute.thy ===== *)
theory Gemmini_Compute
  imports Gemmini_Move
begin

text \<open>
  The execute pipeline: \<open>preload\<close> records where the next product goes, \<open>compute\<close> runs the
  systolic array once, and \<open>compute_cisc\<close> is the size-independent reference operation.
\<close>

section \<open>preload\<close>

definition preload :: "u64 \<Rightarrow> u64 \<Rightarrow> 'z gemmini_state_scheme \<Rightarrow> 'z gemmini_state_scheme" where
  "preload bd_addr c_addr s = s\<lparr>
     preload_sp_addr := ucast (bd_addr AND 0xFFFFFFFF),
     output_sp_addr := ucast (c_addr AND 0xFFFFFFFF),
     preload_cols := ucast (fld ADDR_LEN 0xFFFF bd_addr),
     preload_rows := ucast (fld (ADDR_LEN + 16) 0xFFFF bd_addr),
     output_cols := ucast (fld ADDR_LEN 0xFFFF c_addr),
     output_rows := ucast (fld (ADDR_LEN + 16) 0xFFFF c_addr)\<rparr>"

section \<open>compute\<close>

definition preload_pe :: "nat \<Rightarrow> nat \<Rightarrow> 'z gemmini_state_scheme \<Rightarrow> 'z gemmini_state_scheme res" where
  "preload_pe i j s =
     bindE (guardE AssertFail (NOT (preload_sp_addr s) \<noteq> 0 \<longrightarrow>
       drop_bit 30 (preload_sp_addr s) AND 3 = 0)) (\<lambda>_.
     let preload_transpose = (mode s = WS \<and> b_transpose s);
         r = (if preload_transpose then j else i);
         c = (if preload_transpose then i else j) in
     bindE (if i < unat (preload_rows s) \<and> j < unat (preload_cols s) then
              (if NOT (preload_sp_addr s) = 0 then Inr 0
               else bindE (mat_at (spad s) (unat (preload_sp_addr s) + r) c) (\<lambda>v. Inr (scast v)))
            else Inr 0) (\<lambda>preload_value.
     bindE (mat_set (pe_state s) i j preload_value) (\<lambda>pe.
     Inr (s\<lparr>pe_state := pe\<rparr>))))"

definition compute_preload :: "'z gemmini_state_scheme \<Rightarrow> 'z gemmini_state_scheme res" where
  "compute_preload s = forE DIM (\<lambda>i s. forE DIM (\<lambda>j s. preload_pe i j s) s) s"

definition compute_results ::
  "u32 \<Rightarrow> u16 \<Rightarrow> u16 \<Rightarrow> 'z gemmini_state_scheme \<Rightarrow> acc_t list list res" where
  "compute_results bd_addr_real bd_rows bd_cols s =
     forE DIM (\<lambda>i results. forE DIM (\<lambda>j results.
       bindE (if i < unat bd_rows \<and> j < unat bd_cols then
                (if NOT bd_addr_real = 0 then Inr 0
                 else bindE (mat_at (spad s) (unat bd_addr_real + i) j) (\<lambda>v. Inr (scast v)))
              else Inr 0) (\<lambda>v.
       mat_set results i j v)) results) (matrix_zeroes DIM DIM)"

text \<open>The element of A; with the garbage address \<open>a\<close> stays uninitialised.\<close>

definition compute_a :: "u32 \<Rightarrow> u16 \<Rightarrow> u16 \<Rightarrow> nat \<Rightarrow> nat \<Rightarrow> 'z gemmini_state_scheme \<Rightarrow> elem_t res" where
  "compute_a a_addr_real a_rows a_cols i k s =
     (if NOT a_addr_real \<noteq> 0 then
        let r = unat (a_stride s) * (if a_transpose s then k else i);
            c = (if a_transpose s then i else k) in
        if i < unat a_rows \<and> k < unat a_cols then mat_at (spad s) (unat a_addr_real + r) c else Inr 0
      else Inl Undefined)"

definition compute_b :: "u32 \<Rightarrow> u16 \<Rightarrow> u16 \<Rightarrow> nat \<Rightarrow> nat \<Rightarrow> 'z gemmini_state_scheme \<Rightarrow> elem_t res" where
  "compute_b bd_addr_real bd_rows bd_cols k j s =
     (if NOT bd_addr_real \<noteq> 0 then
        let r = (if b_transpose s then j else k);
            c = (if b_transpose s then k else j) in
        if k < unat bd_rows \<and> j < unat bd_cols then mat_at (spad s) (unat bd_addr_real + r) c else Inr 0
      else Inr 0)"

definition mac_step ::
  "u64 \<Rightarrow> u64 \<Rightarrow> nat \<Rightarrow> nat \<Rightarrow> nat \<Rightarrow> acc_t list list \<times> 'z gemmini_state_scheme \<Rightarrow>
   (acc_t list list \<times> 'z gemmini_state_scheme) res" where
  "mac_step a_addr bd_addr i j k rs =
     (let (results, s) = rs;
          a_addr_real = ucast (a_addr AND 0xFFFFFFFF);
          bd_addr_real = ucast (bd_addr AND 0xFFFFFFFF);
          a_cols = ucast (fld ADDR_LEN 0xFFFF a_addr);
          a_rows = ucast (fld (ADDR_LEN + 16) 0xFFFF a_addr);
          bd_cols = ucast (fld ADDR_LEN 0xFFFF bd_addr);
          bd_rows = ucast (fld (ADDR_LEN + 16) 0xFFFF bd_addr) in
      bindE (compute_a a_addr_real a_rows a_cols i k s) (\<lambda>a.
      if mode s = WS then
        bindE (mat_at (pe_state s) k j) (\<lambda>pe.
        bindE (mat_at results i j) (\<lambda>old.
        bindE (mat_set results i j (old + scast a * pe)) (\<lambda>results.
        Inr (results, s))))
      else
        bindE (compute_b bd_addr_real bd_rows bd_cols k j s) (\<lambda>b.
        bindE (mat_at (pe_state s) i j) (\<lambda>old.
        bindE (mat_set (pe_state s) i j (old + scast a * scast b)) (\<lambda>pe.
        Inr (results, s\<lparr>pe_state := pe\<rparr>))))))"

definition compute_mac ::
  "u64 \<Rightarrow> u64 \<Rightarrow> acc_t list list \<Rightarrow> 'z gemmini_state_scheme \<Rightarrow> (acc_t list list \<times> 'z gemmini_state_scheme) res" where
  "compute_mac a_addr bd_addr results s =
     forE DIM (\<lambda>i rs. forE DIM (\<lambda>j rs. forE DIM (\<lambda>k rs.
       mac_step a_addr bd_addr i j k rs) rs) rs) (results, s)"

definition write_result :: "acc_t list list \<Rightarrow> nat \<Rightarrow> nat \<Rightarrow> 'z gemmini_state_scheme \<Rightarrow> 'z gemmini_state_scheme res" where
  "write_result results i j s =
     (let acc = (drop_bit 31 (output_sp_addr s) AND 1 \<noteq> 0);
          acc_accum = (drop_bit 30 (output_sp_addr s) AND 1 \<noteq> 0);
          base_sp_addr = unat (output_sp_addr s AND 0x1FFFFFFF) in
      bindE (if mode s = OS then mat_at (pe_state s) i j else mat_at results i j) (\<lambda>v.
      bindE (sys_shift_op v (if mode s = OS then ucast (sys_shift s) else 0)) (\<lambda>shifted.
      let row = base_sp_addr + unat (c_stride s) * i in
      if acc then
        if acc_accum then
          bindE (mat_at (accumulator s) row j) (\<lambda>old.
          bindE (mat_set (accumulator s) row j (old + v)) (\<lambda>a.
          Inr (s\<lparr>accumulator := a\<rparr>)))
        else
          bindE (mat_set (accumulator s) row j v) (\<lambda>a.
          Inr (s\<lparr>accumulator := a\<rparr>))
      else
        let activated = apply_activation_sys s shifted in
        bindE (mat_set (spad s) row j activated) (\<lambda>a.
        Inr (s\<lparr>spad := a\<rparr>)))))"

definition compute_write :: "acc_t list list \<Rightarrow> 'z gemmini_state_scheme \<Rightarrow> 'z gemmini_state_scheme res" where
  "compute_write results s =
     (if NOT (output_sp_addr s) \<noteq> 0 then
        let rows = unat (output_rows s); cols = unat (output_cols s) in
        forE rows (\<lambda>i s. forE cols (\<lambda>j s. write_result results i j s) s) s
      else Inr s)"

definition compute :: "u64 \<Rightarrow> u64 \<Rightarrow> bool \<Rightarrow> 'z gemmini_state_scheme \<Rightarrow> 'z gemmini_state_scheme res" where
  "compute a_addr bd_addr do_preload s =
     bindE (if do_preload then compute_preload s else Inr s) (\<lambda>s.
     bindE (compute_results (ucast (bd_addr AND 0xFFFFFFFF)) (ucast (fld (ADDR_LEN + 16) 0xFFFF bd_addr))
       (ucast (fld ADDR_LEN 0xFFFF bd_addr)) s) (\<lambda>results.
     bindE (compute_mac a_addr bd_addr results s) (\<lambda>(results, s).
     compute_write results s)))"

section \<open>compute_cisc\<close>

definition cisc_elem :: "elem_t list list \<Rightarrow> elem_t list list \<Rightarrow> acc_t list list \<Rightarrow> nat \<Rightarrow> nat \<Rightarrow> 'm sim \<Rightarrow> elem_t res" where
  "cisc_elem A B D i j s =
     bindE (mat_at D i j) (\<lambda>d.
     bindE (forE (unat (cisc_k (cisc_st s))) (\<lambda>k v.
       bindE (mat_at A i k) (\<lambda>a. bindE (mat_at B k j) (\<lambda>b. Inr (v + scast a * scast b)))) d) (\<lambda>v.
     bindE (acc_scale v (acc_shift s)) (\<lambda>shifted.
     Inr (apply_activation_acc s shifted))))"

definition compute_cisc :: "'m mmu \<Rightarrow> 'm sim \<Rightarrow> 'm sim res" where
  "compute_cisc M s =
     (let r = cisc_st s; m = unat (cisc_m r); n = unat (cisc_n r) in
      bindE (read_matrix_from_dram M (mem s) (cisc_a_addr r) (cisc_m r) (cisc_k r) False False) (\<lambda>A :: elem_t list list.
      bindE (read_matrix_from_dram M (mem s) (cisc_b_addr r) (cisc_k r) (cisc_n r) False False) (\<lambda>B :: elem_t list list.
      bindE (read_matrix_from_dram M (mem s) (cisc_d_addr r) (cisc_m r) (cisc_n r) True (cisc_repeating_bias r)) (\<lambda>D :: acc_t list list.
      bindE (forE m (\<lambda>i C. forE n (\<lambda>j C.
        bindE (cisc_elem A B D i j s) (\<lambda>activated. mat_set C i j activated)) C) (matrix_zeroes m n)) (\<lambda>C.
      forE m (\<lambda>i s.
        let dram_row_addr = cisc_c_addr r + of_nat i * cisc_n r in
        forE n (\<lambda>j s.
          let dram_byte_addr = dram_row_addr + of_nat j in
          bindE (mat_at C i j) (\<lambda>c.
          bindE (write_to_dram M dram_byte_addr c (mem s)) (\<lambda>m'.
          Inr (s\<lparr>mem := m'\<rparr>)))) s) s)))))"

section \<open>Frames\<close>

lemma preload_wf: "wf_kept s (preload bd c s)"
  by (simp add: keeps_wf_def same_counters_def preload_def wf_state_def wf_arrays_def wf_memories_def)

lemma preload_pe_local: "keeps (keeps_wf only_local) (preload_pe i j)"
  unfolding preload_pe_def Let_def by (rule local_sets loc.keeps_intros)+

interpretation locp: frame "\<lambda>p q. keeps_wf only_local (snd p) (snd q)"
  by unfold_locales (auto intro: loc.frame_refl loc.frame_trans)

lemma mac_step_local: "keeps (\<lambda>p q. keeps_wf only_local (snd p) (snd q)) (mac_step a bd i j k)"
proof (rule keepsI)
  fix p q :: "acc_t list list \<times> 'a gemmini_state_scheme"
  assume "mac_step a bd i j k p = Inr q"
  then show "keeps_wf only_local (snd p) (snd q)"
    unfolding mac_step_def Let_def split_def
    by (elim bindE_InrE, split if_split_asm; elim bindE_InrE)
      (auto simp: mat_set_Inr_iff keeps_wf_def wf_state_updates wf_state_dims simp del: split_paired_All)
qed

lemma compute_mac_local:
  assumes "compute_mac a bd results s = Inr (results', s')"
  shows "keeps_wf only_local s s'"
proof -
  have "keeps (\<lambda>p q. keeps_wf only_local (snd p) (snd q)) (\<lambda>rs. forE DIM (\<lambda>i rs. forE DIM (\<lambda>j rs. forE DIM (\<lambda>k rs.
       mac_step a bd i j k rs) rs) rs) rs)"
    by (rule mac_step_local locp.keeps_forE)+
  then show ?thesis using assms by (auto simp: keeps_def compute_mac_def)
qed

lemma write_result_local: "keeps (keeps_wf only_local) (write_result results i j)"
  unfolding write_result_def Let_def by (rule local_sets loc.keeps_intros)+

lemma compute_local: "keeps (keeps_wf only_local) (compute a bd pre)"
proof -
  have pre: "keeps (keeps_wf only_local) compute_preload"
    unfolding compute_preload_def by (rule preload_pe_local loc.keeps_forE)+
  have wr: "keeps (keeps_wf only_local) (compute_write results)" for results
    unfolding compute_write_def Let_def
    by (rule write_result_local loc.keeps_if loc.keeps_forE_dep loc.keeps_intros)+
  show ?thesis
    unfolding compute_def
    by (rule pre wr loc.keeps_bind_pair compute_mac_local loc.keeps_intros | assumption)+
qed

end
