(* ===== verification/Gemmini_Config.thy ===== *)
theory Gemmini_Config
  imports Gemmini_Compute
begin

text \<open>
  The configuration instructions: \<open>config\<close> with its four targets (execute, load, store and
  normalisation pipeline) and the setters of the registers of the two hardware loops.
\<close>

section \<open>config\<close>

fun act_code :: "Activation \<Rightarrow> nat" where
  "act_code NONE = 0" | "act_code RELU = 1" | "act_code LAYERNORM = 2" | "act_code IGELU = 3" | "act_code SOFTMAX = 4"

definition act_of_bits :: "Activation \<Rightarrow> u64 \<Rightarrow> Activation res" where
  "act_of_bits old b =
     (if b = 0 then (if act_code old \<noteq> 4 then Inr NONE else Inr SOFTMAX)
      else if b = 1 then Inr RELU
      else if b = 2 then Inr LAYERNORM
      else if b = 3 then Inr IGELU
      else Inl AssertFail)"

definition config_ex :: "u64 \<Rightarrow> u64 \<Rightarrow> 'z gemmini_state_scheme \<Rightarrow> 'z gemmini_state_scheme res" where
  "config_ex rs1 rs2 s =
     (let new_mode = (if fld 2 1 rs1 = 0 then OS else WS) in
      bindE (act_of_bits (acc_act s) (fld 3 3 rs1)) (\<lambda>new_act.
      let new_sys_shift = rs2 AND 0xFFFFFFFF;
          new_sys_acc_shift = fld 32 0xFFFFFFFF rs1;
          new_c_stride = fld 48 0xFFFF rs2;
          new_a_stride = fld 16 0xFFFF rs1;
          new_a_transpose = flag 8 rs1;
          new_b_transpose = flag 9 rs1;
          set_only_strides = flag 7 rs1 in
      bindE (guardE AssertFail (unat new_sys_shift < 32)) (\<lambda>_.
      let s = (if \<not> set_only_strides then
                 s\<lparr>mode := new_mode, sys_act := new_act, sys_shift := new_sys_shift,
                   sys_acc_shift := f32_of_int (uint new_sys_acc_shift),
                   a_transpose := new_a_transpose, b_transpose := new_b_transpose\<rparr>
               else s);
          s = s\<lparr>c_stride := ucast new_c_stride, a_stride := ucast new_a_stride\<rparr> in
      bindE (guardE AssertFail (\<not> (new_mode = OS \<and> \<not> new_a_transpose \<and> new_b_transpose) \<and>
        \<not> (new_mode = WS \<and> new_a_transpose \<and> new_b_transpose))) (\<lambda>_.
      Inr s))))"

definition config_mvin :: "u64 \<Rightarrow> u64 \<Rightarrow> 'z gemmini_state_scheme \<Rightarrow> 'z gemmini_state_scheme res" where
  "config_mvin rs1 rs2 s =
     (let state_id = unat (fld 3 3 rs1);
          ppr = ucast (fld 8 0xFF rs1) in
      bindE (arr_set (load_strides s) state_id rs2) (\<lambda>strides.
      bindE (arr_set (load_block_strides s) state_id (ucast (fld 16 0xFFFF rs1))) (\<lambda>block_strides.
      bindE (arr_set (load_scales s) state_id (scale_t_bits_to_scale_t (ucast (drop_bit 32 rs1)))) (\<lambda>scales.
      bindE (arr_set (load_shrunks s) state_id (flag 2 rs1)) (\<lambda>shrunks.
      bindE (arr_set (pixels_per_rows s) state_id (if ppr = 0 then 1 else ppr)) (\<lambda>pixels.
      Inr (s\<lparr>load_strides := strides, load_block_strides := block_strides, load_scales := scales,
        load_shrunks := shrunks, pixels_per_rows := pixels\<rparr>)))))))"

definition config_mvout :: "u64 \<Rightarrow> u64 \<Rightarrow> 'z gemmini_state_scheme \<Rightarrow> 'z gemmini_state_scheme res" where
  "config_mvout rs1 rs2 s =
     bindE (act_of_bits (acc_act s) (fld 2 3 rs1)) (\<lambda>new_act.
     Inr (s\<lparr>store_stride := rs2 AND 0xFFFFFFFF,
       acc_act := new_act,
       acc_shift := acc_scale_t_bits_to_acc_scale_t (ucast (fld 32 0xFFFFFFFF rs2)),
       pool_stride := ucast (fld 4 3 rs1),
       pool_size := ucast (fld 6 3 rs1),
       pool_upad := ucast (fld 8 3 rs1),
       pool_lpad := ucast (fld 10 3 rs1),
       pool_out_dim := ucast (fld 24 0xFF rs1),
       pool_porows := ucast (fld 32 0xFF rs1),
       pool_pocols := ucast (fld 40 0xFF rs1),
       pool_orows := ucast (fld 48 0xFF rs1),
       pool_ocols := ucast (fld 56 0xFF rs1)\<rparr>))"

text \<open>\<open>static_cast<Activation>\<close> of \<open>act_msb << 2 | acc_act\<close>, with the assertion that follows.\<close>

definition or_act_msb :: "bool \<Rightarrow> Activation \<Rightarrow> Activation res" where
  "or_act_msb msb act =
     (if \<not> msb then Inr act
      else if act = NONE \<or> act = SOFTMAX then Inr SOFTMAX
      else Inl AssertFail)"

definition config_norm :: "u64 \<Rightarrow> u64 \<Rightarrow> 'z gemmini_state_scheme \<Rightarrow> 'z gemmini_state_scheme res" where
  "config_norm rs1 rs2 s =
     (let s = s\<lparr>norm_st := (norm_st s)\<lparr>norm_stat_id := ucast (fld 8 0xFF rs1)\<rparr>\<rparr> in
      if \<not> flag 17 rs1 then
        let s = s\<lparr>igelu_qb := ucast (rs2 AND 0xFFFFFFFF), igelu_qc := ucast (fld 32 0xFFFFFFFF rs2)\<rparr> in
        bindE (or_act_msb (flag 16 rs1) (acc_act s)) (\<lambda>act.
        let s = s\<lparr>acc_act := act\<rparr> in
        if flag 18 rs1 then Inr (s\<lparr>qln2_inv := ucast (fld 32 0xFFFFFFFF rs1)\<rparr>)
        else Inr (s\<lparr>qln2 := ucast (fld 32 0xFFFFFFFF rs1)\<rparr>))
      else Inr s)"

definition config :: "u64 \<Rightarrow> u64 \<Rightarrow> 'z gemmini_state_scheme \<Rightarrow> 'z gemmini_state_scheme res" where
  "config rs1 rs2 s =
     (if rs1 AND 3 = 0 then config_ex rs1 rs2 s
      else if rs1 AND 3 = 1 then config_mvin rs1 rs2 s
      else if rs1 AND 3 = 2 then config_mvout rs1 rs2 s
      else if rs1 AND 3 = 3 then config_norm rs1 rs2 s
      else Inr s)"

section \<open>Registers of the matrix-multiplication loop\<close>

definition upd_loop_ws :: "(loop_ws_regs \<Rightarrow> loop_ws_regs) \<Rightarrow> 'z gemmini_state_scheme \<Rightarrow> 'z gemmini_state_scheme" where
  "upd_loop_ws f s = s\<lparr>loop_ws_st := f (loop_ws_st s)\<rparr>"

definition loop_ws_config_bounds :: "u64 \<Rightarrow> u64 \<Rightarrow> 'z gemmini_state_scheme \<Rightarrow> 'z gemmini_state_scheme" where
  "loop_ws_config_bounds rs1 rs2 = upd_loop_ws (\<lambda>r. r\<lparr>
     loop_ws_I := ucast (rs2 AND 0xFFFF),
     loop_ws_J := ucast (fld 16 0xFFFF rs2),
     loop_ws_K := ucast (fld 32 0xFFFF rs2),
     loop_ws_pad_I := ucast (rs1 AND 0xFFFF),
     loop_ws_pad_J := ucast (fld 16 0xFFFF rs1),
     loop_ws_pad_K := ucast (fld 32 0xFFFF rs1)\<rparr>)"

definition loop_ws_config_addrs_AB :: "u64 \<Rightarrow> u64 \<Rightarrow> 'z gemmini_state_scheme \<Rightarrow> 'z gemmini_state_scheme" where
  "loop_ws_config_addrs_AB rs1 rs2 = upd_loop_ws (\<lambda>r. r\<lparr>loop_ws_A := rs1, loop_ws_B := rs2\<rparr>)"

definition loop_ws_config_addrs_DC :: "u64 \<Rightarrow> u64 \<Rightarrow> 'z gemmini_state_scheme \<Rightarrow> 'z gemmini_state_scheme" where
  "loop_ws_config_addrs_DC rs1 rs2 = upd_loop_ws (\<lambda>r. r\<lparr>loop_ws_D := rs1, loop_ws_C := rs2\<rparr>)"

definition loop_ws_config_strides_AB :: "u64 \<Rightarrow> u64 \<Rightarrow> 'z gemmini_state_scheme \<Rightarrow> 'z gemmini_state_scheme" where
  "loop_ws_config_strides_AB rs1 rs2 = upd_loop_ws (\<lambda>r. r\<lparr>loop_ws_A_stride := rs1, loop_ws_B_stride := rs2\<rparr>)"

definition loop_ws_config_strides_DC :: "u64 \<Rightarrow> u64 \<Rightarrow> 'z gemmini_state_scheme \<Rightarrow> 'z gemmini_state_scheme" where
  "loop_ws_config_strides_DC rs1 rs2 = upd_loop_ws (\<lambda>r. r\<lparr>loop_ws_D_stride := rs1, loop_ws_C_stride := rs2\<rparr>)"

section \<open>Registers of the convolution loop\<close>

definition upd_loop_conv :: "(loop_conv_ws_regs \<Rightarrow> loop_conv_ws_regs) \<Rightarrow> 'z gemmini_state_scheme \<Rightarrow> 'z gemmini_state_scheme" where
  "upd_loop_conv f s = s\<lparr>loop_conv_st := f (loop_conv_st s)\<rparr>"

definition loop_conv_ws_config_1 :: "u64 \<Rightarrow> u64 \<Rightarrow> 'z gemmini_state_scheme \<Rightarrow> 'z gemmini_state_scheme" where
  "loop_conv_ws_config_1 rs1 rs2 = upd_loop_conv (\<lambda>r. r\<lparr>
     lc_batch_size := ucast (rs1 AND 0xFFFF),
     lc_in_row_dim := ucast (fld 16 0xFFFF rs1),
     lc_in_channels := ucast (fld 32 0xFFFF rs1),
     lc_out_channels := ucast (fld 48 0xFFFF rs1),
     lc_out_row_dim := ucast (rs2 AND 0xFFFF),
     lc_pool_out_row_dim := ucast (fld 16 0xFFFF rs2),
     lc_out_col_dim := ucast (fld 32 0xFFFF rs2),
     lc_stride := ucast (fld 48 0xFF rs2),
     lc_padding := ucast (fld 56 0xFF rs2)\<rparr>)"

definition loop_conv_ws_config_2 :: "u64 \<Rightarrow> u64 \<Rightarrow> 'z gemmini_state_scheme \<Rightarrow> 'z gemmini_state_scheme" where
  "loop_conv_ws_config_2 rs1 rs2 = upd_loop_conv (\<lambda>r. r\<lparr>
     lc_kernel_dim := ucast (fld 48 0xFFFF rs1),
     lc_pool_out_col_dim := ucast (fld 32 0xFFFF rs1),
     lc_pool_size := ucast (fld 16 0xFFFF rs1),
     lc_pool_stride := ucast (fld 8 0xFF rs1),
     lc_pool_padding := ucast (rs1 AND 0xFF),
     lc_batches := ucast (fld 48 0xFFFF rs2),
     lc_porows := ucast (fld 32 0xFFFF rs2),
     lc_pocols := ucast (fld 16 0xFFFF rs2),
     lc_pochs := ucast (rs2 AND 0xFFFF)\<rparr>)"

definition loop_conv_ws_config_3 :: "u64 \<Rightarrow> u64 \<Rightarrow> 'z gemmini_state_scheme \<Rightarrow> 'z gemmini_state_scheme" where
  "loop_conv_ws_config_3 rs1 rs2 = upd_loop_conv (\<lambda>r. r\<lparr>
     lc_krows := ucast (fld 48 0xFFFF rs1),
     lc_kcols := ucast (fld 32 0xFFFF rs1),
     lc_kchs := ucast (fld 16 0xFFFF rs1),
     lc_lpad := ucast (rs1 AND 0xFFFF),
     lc_rpad := ucast (fld 48 0xFFFF rs2),
     lc_upad := ucast (fld 32 0xFFFF rs2),
     lc_dpad := ucast (fld 24 0xFF rs2),
     lc_plpad := ucast (fld 16 0xFF rs2),
     lc_in_col_dim := ucast (rs2 AND 0xFFFF)\<rparr>)"

definition loop_conv_ws_config_4 :: "u64 \<Rightarrow> u64 \<Rightarrow> 'z gemmini_state_scheme \<Rightarrow> 'z gemmini_state_scheme" where
  "loop_conv_ws_config_4 rs1 rs2 = upd_loop_conv (\<lambda>r. r\<lparr>
     lc_orows := ucast (fld 48 0xFFFF rs1),
     lc_prad := ucast (fld 32 0xFFFF rs1),
     lc_pupad := ucast (fld 21 0xFF rs1),
     lc_pdpad := ucast (fld 10 0xFF rs1),
     lc_kernel_dilation := ucast (rs1 AND 0xFF),
     lc_in_stride := ucast (fld 48 0xFFFF rs2),
     lc_weight_stride := ucast (fld 32 0xFFFF rs2),
     lc_out_stride := ucast (fld 16 0xFFFF rs2),
     lc_ocols := ucast (rs2 AND 0xFFFF)\<rparr>)"

definition loop_conv_ws_config_5 :: "u64 \<Rightarrow> u64 \<Rightarrow> 'z gemmini_state_scheme \<Rightarrow> 'z gemmini_state_scheme" where
  "loop_conv_ws_config_5 rs1 rs2 = upd_loop_conv (\<lambda>r. r\<lparr>lc_weights := rs1, lc_output := rs2\<rparr>)"

definition loop_conv_ws_config_6 :: "u64 \<Rightarrow> u64 \<Rightarrow> 'z gemmini_state_scheme \<Rightarrow> 'z gemmini_state_scheme" where
  "loop_conv_ws_config_6 rs1 rs2 = upd_loop_conv (\<lambda>r. r\<lparr>lc_bias := rs1, lc_input := rs2\<rparr>)"

section \<open>Frames\<close>

lemma config_wf: "keeps wf_kept (config rs1 rs2)"
proof -
  note wf = keeps_wf_def same_counters_def wf_state_def wf_arrays_def wf_memories_def wf_norm_def
  have "keeps wf_kept (config_ex rs1 rs2)"
    unfolding config_ex_def Let_def
    by (rule wf.keeps_bind_value keeps_update)+ (simp add: wf)
  moreover have "keeps wf_kept (config_mvin rs1 rs2)"
    unfolding config_mvin_def Let_def
    by (rule keepsI, elim bindE_InrE) (auto simp: wf arr_set_Inr_iff)
  moreover have "keeps wf_kept (config_mvout rs1 rs2)"
    unfolding config_mvout_def Let_def
    by (rule wf.keeps_bind_value keeps_update)+ (simp add: wf)
  moreover have "keeps wf_kept (config_norm rs1 rs2)"
    unfolding config_norm_def Let_def
    by (intro wf.keeps_if wf.keeps_bind_value keeps_update) (simp_all add: wf)
  ultimately show ?thesis unfolding config_def by (intro wf.keeps_if wf.keeps_Inr)
qed

lemma upd_loop_wf: "wf_kept s (upd_loop_ws f s)" "wf_kept s (upd_loop_conv g s)"
  by (simp_all add: keeps_wf_def same_counters_def upd_loop_ws_def upd_loop_conv_def wf_state_def wf_arrays_def wf_memories_def)

end
