(* ===== verification/Gemmini_Counter.thy ===== *)
theory Gemmini_Counter
  imports Gemmini_Config
begin

text \<open>
  The performance counters: the eight counters with their snapshot, reset, configuration and
  read-out in one instruction (\<open>counter_operation\<close>), and the dummy increments of the
  simulator. The values \<open>rand()\<close> returns are an argument.
\<close>

record counter_op_param =
  counter_reset :: bool
  snapshot_reset :: bool
  take_snapshot :: bool
  change_config :: bool
  counter_index :: nat
  counter_addr :: u16
  external_counter :: bool

definition decode_counter_op :: "u64 \<Rightarrow> counter_op_param" where
  "decode_counter_op arg = \<lparr>
     counter_reset = flag 0 arg,
     snapshot_reset = flag 1 arg,
     take_snapshot = flag 2 arg,
     change_config = flag 3 arg,
     counter_index = unat (fld 4 7 arg),
     counter_addr = ucast (fld 12 0x3F arg),
     external_counter = flag 31 arg\<rparr>"

text \<open>The value counter \<open>i\<close> shows: an external event count or its own.\<close>

definition counter_live :: "counter_file \<Rightarrow> nat \<Rightarrow> u32 res" where
  "counter_live c i =
     bindE (arr (counter_external_flag c) i) (\<lambda>ext.
     if ext then bindE (arr (counter_config c) i) (\<lambda>cfg. arr (counter_external c) (unat cfg))
     else arr (counter_val c) i)"

definition counter_take_snapshot :: "counter_file \<Rightarrow> counter_file res" where
  "counter_take_snapshot c =
     forE NUM_COUNTERS (\<lambda>i c.
       bindE (counter_live c i) (\<lambda>v.
       bindE (arr_set (counter_snapshot_val c) i v) (\<lambda>snap.
       Inr (c\<lparr>counter_snapshot_val := snap\<rparr>)))) (c\<lparr>snapshot_enable := True\<rparr>)"

definition counter_change_config :: "counter_op_param \<Rightarrow> counter_file \<Rightarrow> counter_file res" where
  "counter_change_config d c =
     bindE (arr_set (counter_config c) (counter_index d) (counter_addr d)) (\<lambda>cfg.
     bindE (arr_set (counter_val c) (counter_index d) 0) (\<lambda>val.
     bindE (arr_set (counter_external_flag c) (counter_index d) (external_counter d)) (\<lambda>ext.
     Inr (c\<lparr>counter_config := cfg, counter_val := val, counter_external_flag := ext\<rparr>))))"

definition counter_operation ::
  "u64 \<Rightarrow> 'z gemmini_state_scheme \<Rightarrow> (u64 \<times> 'z gemmini_state_scheme) res" where
  "counter_operation rs1 s =
     (let d = decode_counter_op rs1;
          s = (if counter_reset d
               then s\<lparr>counter_st := (counter_st s)\<lparr>counter_val := replicate NUM_COUNTERS 0\<rparr>,
                      op_in_progress := False\<rparr>
               else s);
          c = counter_st s;
          c = (if snapshot_reset d then c\<lparr>snapshot_enable := False\<rparr> else c) in
      bindE (if take_snapshot d then counter_take_snapshot c else Inr c) (\<lambda>c.
      bindE (if change_config d then counter_change_config d c else Inr c) (\<lambda>c.
      bindE (if snapshot_enable c then arr (counter_snapshot_val c) (counter_index d)
             else counter_live c (counter_index d)) (\<lambda>v.
      Inr (ucast v, s\<lparr>counter_st := c\<rparr>)))))"

text \<open>\<open>counter_increment\<close> bumps the first counter configured for the event.\<close>

primrec first_index :: "('a \<Rightarrow> bool) \<Rightarrow> 'a list \<Rightarrow> nat option" where
  "first_index P [] = None"
| "first_index P (x # xs) = (if P x then Some 0 else map_option Suc (first_index P xs))"

definition counter_increment :: "u32 \<Rightarrow> counter_file \<Rightarrow> counter_file res" where
  "counter_increment counter_id c =
     (case first_index (\<lambda>cfg. ucast cfg = counter_id) (take NUM_COUNTERS (counter_config c)) of
        None \<Rightarrow> Inr c
      | Some i \<Rightarrow> bindE (arr (counter_val c) i) (\<lambda>v.
                  bindE (arr_set (counter_val c) i (v + 1)) (\<lambda>vs. Inr (c\<lparr>counter_val := vs\<rparr>))))"

definition counter_increment_random :: "(nat \<Rightarrow> u32) \<Rightarrow> counter_file \<Rightarrow> counter_file res" where
  "counter_increment_random rnd c =
     bindE (forE NUM_COUNTERS (\<lambda>i c.
       bindE (arr (counter_val c) i) (\<lambda>v.
       bindE (arr_set (counter_val c) i (v + (rnd i AND 0x1FF))) (\<lambda>vs.
       Inr (c\<lparr>counter_val := vs\<rparr>)))) c) (\<lambda>c.
     forE NUM_EXTERNAL_COUNTERS (\<lambda>i c.
       bindE (arr_set (counter_external c) i (rnd (NUM_COUNTERS + i) AND 0xF)) (\<lambda>es.
       Inr (c\<lparr>counter_external := es\<rparr>))) c)"

section \<open>Frames\<close>

lemma counter_take_snapshot_wf: "keeps (\<lambda>c c'. wf_counters c \<longrightarrow> wf_counters c') counter_take_snapshot"
proof -
  have "whenOk (counter_take_snapshot c) wf_counters" if "wf_counters c" for c
    unfolding counter_take_snapshot_def
    by (rule forE_invariant) (use that in \<open>auto simp: whenOk_iff res_iffs wf_counters_def\<close>)
  then show ?thesis by (auto simp: keeps_def whenOk_iff)
qed

lemma counter_operation_wf:
  assumes "counter_operation rs1 s = Inr (v, s')" "wf_state s"
  shows "wf_state s'"
proof -
  define d where "d = decode_counter_op rs1"
  define t where "t = (if counter_reset d
    then s\<lparr>counter_st := (counter_st s)\<lparr>counter_val := replicate NUM_COUNTERS 0\<rparr>, op_in_progress := False\<rparr> else s)"
  define c where "c = (if snapshot_reset d then (counter_st t)\<lparr>snapshot_enable := False\<rparr> else counter_st t)"
  obtain c1 c2 where c1: "(if take_snapshot d then counter_take_snapshot c else Inr c) = Inr c1"
    and c2: "(if change_config d then counter_change_config d c1 else Inr c1) = Inr c2"
    and s': "s' = t\<lparr>counter_st := c2\<rparr>"
    using assms(1) unfolding counter_operation_def Let_def t_def [symmetric] d_def [symmetric] c_def [symmetric]
    by (elim bindE_InrE) simp
  have "wf_state s \<Longrightarrow> wf_state t" "wf_counters (counter_st s) \<Longrightarrow> wf_counters c"
    by (simp_all add: t_def c_def wf_state_def wf_arrays_def wf_memories_def wf_counters_def)
  moreover have "wf_counters c \<Longrightarrow> wf_counters c1"
    using c1 keepsD [OF counter_take_snapshot_wf] by (auto split: if_splits)
  moreover have "wf_counters c1 \<Longrightarrow> wf_counters c2"
    using c2 by (auto simp: counter_change_config_def res_iffs wf_counters_def split: if_splits)
  ultimately show ?thesis using assms(2) by (simp add: s' wf_state_updates wf_state_dims)
qed

lemma counter_increment_random_wf:
  assumes "counter_increment_random rnd c = Inr c'" "wf_counters c"
  shows "wf_counters c'"
proof -
  have "whenOk (forE NUM_COUNTERS (\<lambda>i c. bindE (arr (counter_val c) i) (\<lambda>v.
       bindE (arr_set (counter_val c) i (v + (rnd i AND 0x1FF))) (\<lambda>vs.
       Inr (c\<lparr>counter_val := vs\<rparr>)))) c) wf_counters"
    by (rule forE_invariant) (use assms(2) in \<open>auto simp: whenOk_iff res_iffs wf_counters_def\<close>)
  moreover have "wf_counters d \<Longrightarrow> whenOk (forE NUM_EXTERNAL_COUNTERS (\<lambda>i c.
       bindE (arr_set (counter_external c) i (rnd (NUM_COUNTERS + i) AND 0xF)) (\<lambda>es.
       Inr (c\<lparr>counter_external := es\<rparr>))) d) wf_counters" for d
    by (rule forE_invariant) (auto simp: whenOk_iff res_iffs wf_counters_def)
  ultimately show ?thesis
    using assms(1) by (auto simp: counter_increment_random_def bindE_Inr_iff whenOk_iff)
qed

lemma counter_increment_random_ok:
  assumes "wf_counters c"
  shows "\<exists>c'. counter_increment_random rnd c = Inr c' \<and> wf_counters c' \<and> counter_snapshot_val c' = counter_snapshot_val c \<and>
    snapshot_enable c' = snapshot_enable c \<and> counter_config c' = counter_config c"
proof -
  let ?P = "\<lambda>_ d. wf_counters d \<and> counter_snapshot_val d = counter_snapshot_val c \<and> snapshot_enable d = snapshot_enable c \<and>
    counter_config d = counter_config c"
  have 1: "succeeds (forE NUM_COUNTERS (\<lambda>i c. bindE (arr (counter_val c) i) (\<lambda>v.
       bindE (arr_set (counter_val c) i (v + (rnd i AND 0x1FF))) (\<lambda>vs.
       Inr (c\<lparr>counter_val := vs\<rparr>)))) c) (?P NUM_COUNTERS)"
    by (rule forE_succeeds [where P = ?P]) (use assms in \<open>auto simp: arr_def arr_set_def wf_counters_def\<close>)
  have 2: "succeeds (forE NUM_EXTERNAL_COUNTERS (\<lambda>i c.
       bindE (arr_set (counter_external c) i (rnd (NUM_COUNTERS + i) AND 0xF)) (\<lambda>es.
       Inr (c\<lparr>counter_external := es\<rparr>))) d) (?P NUM_EXTERNAL_COUNTERS)" if "?P 0 d" for d
    by (rule forE_succeeds [where P = ?P]) (use that in \<open>auto simp: arr_set_def wf_counters_def\<close>)
  from 1 2 show ?thesis by (auto simp: counter_increment_random_def succeeds_iff bindE_Inr_iff)
qed

section \<open>Snapshots\<close>

lemma counter_take_snapshot_spec:
  assumes "wf_counters c" "counter_take_snapshot c = Inr c'"
  shows "\<exists>sv. c' = c\<lparr>snapshot_enable := True, counter_snapshot_val := sv\<rparr> \<and> length sv = NUM_COUNTERS \<and>
    (\<forall>i < NUM_COUNTERS. counter_live c i = Inr (sv ! i))"
proof -
  let ?P = "\<lambda>k d. \<exists>sv. d = c\<lparr>snapshot_enable := True, counter_snapshot_val := sv\<rparr> \<and> length sv = NUM_COUNTERS \<and>
    (\<forall>i < k. counter_live c i = Inr (sv ! i))"
  have live: "counter_live (c\<lparr>snapshot_enable := True, counter_snapshot_val := sv\<rparr>) i = counter_live c i" for sv i
    by (simp add: counter_live_def cong: if_cong)
  have "whenOk (counter_take_snapshot c) (?P NUM_COUNTERS)"
    unfolding counter_take_snapshot_def
  proof (rule forE_indexed [where P = ?P])
    show "?P 0 (c\<lparr>snapshot_enable := True\<rparr>)"
      using assms(1) by (intro exI [of _ "counter_snapshot_val c"]) (simp add: wf_counters_def)
  next
    fix i d assume "i < NUM_COUNTERS" "?P i d"
    then show "whenOk (bindE (counter_live d i) (\<lambda>v. bindE (arr_set (counter_snapshot_val d) i v)
      (\<lambda>snap. Inr (d\<lparr>counter_snapshot_val := snap\<rparr>)))) (?P (Suc i))"
      by (auto simp: whenOk_iff res_iffs live nth_list_update less_Suc_eq)
  qed
  then show ?thesis using assms(2) by simp
qed

lemma counter_op_index: "i < 8 \<Longrightarrow> decode_counter_op (push_bit 4 (of_nat i)) = \<lparr>counter_reset = False, snapshot_reset = False,
    take_snapshot = False, change_config = False, counter_index = i, counter_addr = 0, external_counter = False\<rparr>"
proof -
  assume "i < 8"
  then have "i \<in> {0, 1, 2, 3, 4, 5, 6, 7}" by auto
  then show ?thesis by (auto simp: decode_counter_op_def flag_def fld_def)
qed

lemma snapshot_reads:
  assumes "wf_counters (counter_st s)" "snapshot_enable (counter_st s)" "i < 8"
  shows "counter_operation (push_bit 4 (of_nat i)) s = Inr (ucast (counter_snapshot_val (counter_st s) ! i), s)"
  using assms by (simp add: counter_operation_def counter_op_index arr_def wf_counters_def count_defs)

end
