(* ===== verification/Gemmini_Loop_WS.thy ===== *)
theory Gemmini_Loop_WS
  imports Gemmini_Counter
begin

text \<open>
  The matrix-multiplication loop \<open>loop_ws\<close>: one instruction that runs the moves, preloads and
  computes of a tiled product \<open>C = A * B + D\<close>, or of a residual addition. The registers it
  reads are not changed by the operations it calls, so they are read once at the start.
\<close>

section \<open>Integer conversions\<close>

definition to_i32 :: "int \<Rightarrow> int" where "to_i32 x = sint (word_of_int x :: 32 word)"

text \<open>\<open>DIM - (i == n-1 ? pad : 0)\<close>\<close>

definition tile_len :: "nat \<Rightarrow> nat \<Rightarrow> u16 \<Rightarrow> u64" where
  "tile_len i n pad = of_nat DIM - (if Suc i = n then ucast pad else 0)"

section \<open>Operands\<close>

record loop_ws_ctl =
  ws_ex_accumulate :: bool
  ws_full_C :: bool
  ws_low_D :: bool
  ws_act :: u8
  ws_a_transpose :: bool
  ws_b_transpose :: bool
  ws_a_spad_id :: u8
  ws_b_spad_id :: u8
  ws_is_resadd :: bool

definition loop_ws_decode :: "u64 \<Rightarrow> u64 \<Rightarrow> loop_ws_ctl" where
  "loop_ws_decode rs1 rs2 = \<lparr>
     ws_ex_accumulate = flag 0 rs1,
     ws_full_C = flag 1 rs1,
     ws_low_D = flag 2 rs1,
     ws_act = ucast (fld 8 7 rs1),
     ws_a_transpose = flag 0 rs2,
     ws_b_transpose = flag 1 rs2,
     ws_a_spad_id = ucast (fld 18 3 rs1),
     ws_b_spad_id = ucast (fld 16 3 rs1),
     ws_is_resadd = flag 2 rs2\<rparr>"

definition loop_ws_fits :: "loop_ws_regs \<Rightarrow> bool" where
  "loop_ws_fits r =
     (let I = uint (loop_ws_I r); J = uint (loop_ws_J r); K = uint (loop_ws_K r);
          total_spad_rows = to_i32 ((I * K + K * J) * int DIM);
          total_acc_rows = to_i32 ((I * J) * int DIM) in
      \<not> (int (BANK_NUM * BANK_ROWS div 2) < total_spad_rows \<or> int (ACC_ROWS div 2) < total_acc_rows))"

definition loop_ws_A_start :: "loop_ws_ctl \<Rightarrow> u32" where
  "loop_ws_A_start c =
     (if ws_is_resadd c then push_bit (ADDR_LEN - 1) 1
      else if ws_a_spad_id c = 2 then of_nat (BANK_NUM * BANK_ROWS div 2) else 0)"

definition loop_ws_B_start :: "loop_ws_ctl \<Rightarrow> loop_ws_regs \<Rightarrow> u32" where
  "loop_ws_B_start c r =
     (let KJ = of_nat (unat (loop_ws_K r) * unat (loop_ws_J r) * DIM) in
      if ws_is_resadd c then push_bit (ADDR_LEN - 2) 3
      else if ws_b_spad_id c = 2 then of_nat (BANK_NUM * BANK_ROWS) - KJ
      else of_nat (BANK_NUM * BANK_ROWS div 2) - KJ)"

definition loop_ws_D_start :: u32 where
  "loop_ws_D_start = push_bit (ADDR_LEN - 1) 1"

definition loop_ws_C_start :: "loop_ws_ctl \<Rightarrow> u32" where
  "loop_ws_C_start c = push_bit (ADDR_LEN - 2) 3 OR push_bit (ADDR_LEN - 3) (of_bool (ws_full_C c))"

definition sizeof_C :: "loop_ws_ctl \<Rightarrow> u64" where
  "sizeof_C c = (if ws_full_C c then 4 else 1)"

section \<open>Steps\<close>

definition loop_ws_resadd_block :: "'m mmu \<Rightarrow> loop_ws_ctl \<Rightarrow> loop_ws_regs \<Rightarrow> nat \<Rightarrow> nat \<Rightarrow> 'm sim \<Rightarrow> 'm sim res" where
  "loop_ws_resadd_block M c r i j s =
     (let I = unat (loop_ws_I r); J = unat (loop_ws_J r);
          off = of_nat ((i * J + j) * DIM);
          A_sp_addr = loop_ws_A_start c + off;
          B_sp_addr = loop_ws_B_start c r + off;
          C_sp_addr = loop_ws_C_start c + off;
          cols = tile_len j J (loop_ws_pad_J r);
          rows = tile_len i I (loop_ws_pad_I r) in
      bindE (mvin M (loop_ws_A r + (of_nat i * loop_ws_A_stride r + of_nat j) * of_nat DIM)
        (block_operand rows cols A_sp_addr) 0 s) (\<lambda>s.
      bindE (mvin M (loop_ws_B r + (of_nat i * loop_ws_B_stride r + of_nat j) * of_nat DIM)
        (block_operand rows cols B_sp_addr) 1 s) (\<lambda>s.
      if loop_ws_C r \<noteq> 0 then
        mvout M (loop_ws_C r + (of_nat i * loop_ws_C_stride r + of_nat j) * of_nat DIM * sizeof_C c)
          (block_operand rows cols C_sp_addr) s
      else Inr s)))"

definition loop_ws_resadd :: "'m mmu \<Rightarrow> loop_ws_ctl \<Rightarrow> 'm sim \<Rightarrow> 'm sim res" where
  "loop_ws_resadd M c s =
     (let r = loop_ws_st s in
      forE (unat (loop_ws_I r)) (\<lambda>i. forE (unat (loop_ws_J r)) (loop_ws_resadd_block M c r i)) s)"

definition loop_ws_load_D :: "'m mmu \<Rightarrow> loop_ws_ctl \<Rightarrow> loop_ws_regs \<Rightarrow> 'm sim \<Rightarrow> 'm sim res" where
  "loop_ws_load_D M c r s =
     (let I = unat (loop_ws_I r); J = unat (loop_ws_J r) in
      if loop_ws_D r \<noteq> 0 then
        forE I (\<lambda>i s. forE J (\<lambda>j s.
          let sizeof_D = (if ws_low_D c then 1 else 4);
              dram_addr = loop_ws_D r + (of_nat i * loop_ws_D_stride r + of_nat j) * of_nat DIM * sizeof_D;
              sp_addr = loop_ws_D_start + of_nat ((i * J + j) * DIM);
              cols = tile_len j J (loop_ws_pad_J r);
              rows = tile_len i I (loop_ws_pad_I r) in
          mvin M dram_addr (block_operand rows cols sp_addr) 2 s) s) s
      else Inr s)"

definition loop_ws_A_addr :: "loop_ws_ctl \<Rightarrow> loop_ws_regs \<Rightarrow> nat \<Rightarrow> nat \<Rightarrow> u32" where
  "loop_ws_A_addr c r i k =
     (let I = unat (loop_ws_I r); K = unat (loop_ws_K r) in
      if ws_a_transpose c then loop_ws_A_start c + of_nat ((k * I + i) * DIM)
      else loop_ws_A_start c + of_nat ((i * K + k) * DIM))"

definition loop_ws_B_addr :: "loop_ws_ctl \<Rightarrow> loop_ws_regs \<Rightarrow> nat \<Rightarrow> nat \<Rightarrow> u32" where
  "loop_ws_B_addr c r k j =
     (let J = unat (loop_ws_J r); K = unat (loop_ws_K r) in
      if ws_b_transpose c then loop_ws_B_start c r + of_nat ((j * K + k) * DIM)
      else loop_ws_B_start c r + of_nat ((k * J + j) * DIM))"

definition loop_ws_mvin_A :: "'m mmu \<Rightarrow> loop_ws_ctl \<Rightarrow> loop_ws_regs \<Rightarrow> nat \<Rightarrow> nat \<Rightarrow> nat \<Rightarrow> 'm sim \<Rightarrow> 'm sim res" where
  "loop_ws_mvin_A M c r k j i s =
     (let I = unat (loop_ws_I r); K = unat (loop_ws_K r) in
      if j = 0 \<and> loop_ws_A r \<noteq> 0 then
        let dram_addr = (if ws_a_transpose c
              then loop_ws_A r + (of_nat k * loop_ws_A_stride r + of_nat i) * of_nat DIM
              else loop_ws_A r + (of_nat i * loop_ws_A_stride r + of_nat k) * of_nat DIM);
            cols = (if ws_a_transpose c then tile_len i I (loop_ws_pad_I r) else tile_len k K (loop_ws_pad_K r));
            rows = (if ws_a_transpose c then tile_len k K (loop_ws_pad_K r) else tile_len i I (loop_ws_pad_I r)) in
        mvin M dram_addr (block_operand rows cols (loop_ws_A_addr c r i k)) 0 s
      else Inr s)"

definition loop_ws_mvin_B :: "'m mmu \<Rightarrow> loop_ws_ctl \<Rightarrow> loop_ws_regs \<Rightarrow> nat \<Rightarrow> nat \<Rightarrow> nat \<Rightarrow> 'm sim \<Rightarrow> 'm sim res" where
  "loop_ws_mvin_B M c r k j i s =
     (let J = unat (loop_ws_J r); K = unat (loop_ws_K r) in
      if i = 0 \<and> loop_ws_B r \<noteq> 0 then
        let dram_addr = (if ws_b_transpose c
              then loop_ws_B r + (of_nat j * loop_ws_B_stride r + of_nat k) * of_nat DIM
              else loop_ws_B r + (of_nat k * loop_ws_B_stride r + of_nat j) * of_nat DIM);
            cols = (if ws_b_transpose c then tile_len k K (loop_ws_pad_K r) else tile_len j J (loop_ws_pad_J r));
            rows = (if ws_b_transpose c then tile_len j J (loop_ws_pad_J r) else tile_len k K (loop_ws_pad_K r)) in
        mvin M dram_addr (block_operand rows cols (loop_ws_B_addr c r k j)) 1 s
      else Inr s)"

definition loop_ws_exec :: "loop_ws_ctl \<Rightarrow> loop_ws_regs \<Rightarrow> nat \<Rightarrow> nat \<Rightarrow> nat \<Rightarrow> 'm sim \<Rightarrow> 'm sim res" where
  "loop_ws_exec c r k j i s =
     (let I = unat (loop_ws_I r); J = unat (loop_ws_J r); K = unat (loop_ws_K r);
          GARBAGE_ADDR = - 1;
          pre_sp_addr = (if i = 0 then loop_ws_B_addr c r k j else GARBAGE_ADDR);
          C_sp_addr = loop_ws_C_start c + of_nat ((i * J + j) * DIM);
          out_sp_addr = (if \<not> ws_ex_accumulate c \<and> k = 0 then C_sp_addr AND NOT (push_bit (ADDR_LEN - 2) 1)
                         else C_sp_addr);
          A_cols = tile_len k K (loop_ws_pad_K r);
          A_rows = tile_len i I (loop_ws_pad_I r);
          B_cols = tile_len j J (loop_ws_pad_J r);
          B_rows = tile_len k K (loop_ws_pad_K r);
          C_cols = tile_len j J (loop_ws_pad_J r);
          C_rows = tile_len i I (loop_ws_pad_I r) in
      compute (block_operand A_rows A_cols (loop_ws_A_addr c r i k))
        (block_operand (of_nat DIM) (of_nat DIM) GARBAGE_ADDR) (i = 0)
        (preload (block_operand B_rows B_cols pre_sp_addr) (block_operand C_rows C_cols out_sp_addr) s))"

definition loop_ws_mvout_norm :: "'m mmu \<Rightarrow> loop_ws_ctl \<Rightarrow> loop_ws_regs \<Rightarrow> nat \<Rightarrow> 'm sim \<Rightarrow> 'm sim res" where
  "loop_ws_mvout_norm M c r i s =
     (let I = unat (loop_ws_I r); J = unat (loop_ws_J r);
          norm_cmds = (if ws_act c = 2 then [(1, 2), (3, 4), (0, 0)] else [(5, 5), (6, 7), (0, 0)]);
          rows = unat (tile_len i I (loop_ws_pad_I r)) in
      forE ((rows + NORM_STAT_IDS - 1) div NORM_STAT_IDS) (\<lambda>b s.
        let row = b * NORM_STAT_IDS;
            stat_ids = (if NORM_STAT_IDS < rows - row then NORM_STAT_IDS else rows - row) in
        foldE (\<lambda>(cmd_acc, cmd_fin) s.
          forE stat_ids (\<lambda>stat_id s.
            bindE (config (push_bit 17 1 OR push_bit 8 (of_nat stat_id) OR 3) 0 s) (\<lambda>s.
            let rr = row + stat_id in
            forE J (\<lambda>jj s.
              let base = loop_ws_C_start c + of_nat ((i * J + jj) * DIM + rr);
                  norm_C_sp_addr = base OR push_bit 26 (if jj + 1 = J then cmd_fin else cmd_acc);
                  C_dram_addr = loop_ws_C r + (of_nat i * loop_ws_C_stride r + of_nat jj) * of_nat DIM * sizeof_C c
                    + of_nat rr * loop_ws_C_stride r * sizeof_C c;
                  cols = tile_len jj J (loop_ws_pad_J r) in
              mvout M C_dram_addr (block_operand 1 cols norm_C_sp_addr) s) s)) s) norm_cmds s) s)"

definition loop_ws_mvout :: "'m mmu \<Rightarrow> loop_ws_ctl \<Rightarrow> loop_ws_regs \<Rightarrow> nat \<Rightarrow> nat \<Rightarrow> nat \<Rightarrow> 'm sim \<Rightarrow> 'm sim res" where
  "loop_ws_mvout M c r k j i s =
     (let I = unat (loop_ws_I r); J = unat (loop_ws_J r); K = unat (loop_ws_K r) in
      if loop_ws_C r \<noteq> 0 \<and> Suc k = K then
        if ws_act c \<noteq> 2 \<and> ws_act c \<noteq> 4 then
          mvout M (loop_ws_C r + (of_nat i * loop_ws_C_stride r + of_nat j) * of_nat DIM * sizeof_C c)
            (block_operand (tile_len i I (loop_ws_pad_I r)) (tile_len j J (loop_ws_pad_J r))
              (loop_ws_C_start c + of_nat ((i * J + j) * DIM))) s
        else if Suc j = J then loop_ws_mvout_norm M c r i s
        else Inr s
      else Inr s)"

definition loop_ws_body :: "'m mmu \<Rightarrow> loop_ws_ctl \<Rightarrow> loop_ws_regs \<Rightarrow> nat \<Rightarrow> nat \<Rightarrow> nat \<Rightarrow> 'm sim \<Rightarrow> 'm sim res" where
  "loop_ws_body M c r k j i s =
     bindE (loop_ws_mvin_A M c r k j i s) (\<lambda>s.
     bindE (loop_ws_mvin_B M c r k j i s) (\<lambda>s.
     bindE (loop_ws_exec c r k j i s) (\<lambda>s.
     loop_ws_mvout M c r k j i s)))"

definition loop_ws :: "'m mmu \<Rightarrow> u64 \<Rightarrow> u64 \<Rightarrow> 'm sim \<Rightarrow> 'm sim res" where
  "loop_ws M rs1 rs2 s =
     (let c = loop_ws_decode rs1 rs2; r = loop_ws_st s in
      if \<not> loop_ws_fits r then Inl ExitFailure
      else if ws_is_resadd c then loop_ws_resadd M c s
      else
        bindE (loop_ws_load_D M c r s) (\<lambda>s.
        forE (unat (loop_ws_K r)) (\<lambda>k s.
          forE (unat (loop_ws_J r)) (\<lambda>j s.
            forE (unat (loop_ws_I r)) (\<lambda>i s.
              loop_ws_body M c r k j i s) s) s) s))"

section \<open>Frame\<close>

lemmas step_wf = keeps_wf_weaken(1) [OF mvin_local] keeps_wf_weaken(2) [OF mvout_store]
  keeps_wf_weaken(1) [OF compute_local] config_wf

lemma preload_compute_wf: "keeps wf_kept (\<lambda>s. compute a bd p (preload x y s))"
  by (rule wf.keeps_after [OF preload_wf]) (rule step_wf)

lemma loop_ws_resadd_wf: "keeps wf_kept (loop_ws_resadd M c)"
  unfolding loop_ws_resadd_def loop_ws_resadd_block_def Let_def
  by (rule wf.keeps_forE_dep step_wf wf.keeps_intros)+

lemma loop_ws_mvout_norm_wf: "keeps wf_kept (loop_ws_mvout_norm M c r i)"
  unfolding loop_ws_mvout_norm_def Let_def split_def
  by (rule step_wf wf.keeps_intros)+

lemma loop_ws_body_wf: "keeps wf_kept (loop_ws_body M c r k j i)"
  unfolding loop_ws_body_def loop_ws_mvin_A_def loop_ws_mvin_B_def loop_ws_exec_def loop_ws_mvout_def Let_def
  by (rule preload_compute_wf loop_ws_mvout_norm_wf step_wf wf.keeps_intros)+

lemma loop_ws_wf: "keeps wf_kept (loop_ws M rs1 rs2)"
proof -
  have "keeps wf_kept (loop_ws_load_D M c r)" for c r
    unfolding loop_ws_load_D_def Let_def by (rule step_wf wf.keeps_intros)+
  then have "keeps wf_kept (\<lambda>s. bindE (loop_ws_load_D M c r s) (\<lambda>s. forE (unat (loop_ws_K r)) (\<lambda>k s.
      forE (unat (loop_ws_J r)) (\<lambda>j s. forE (unat (loop_ws_I r)) (\<lambda>i s.
        loop_ws_body M c r k j i s) s) s) s))" for c r
    by (rule wf.keeps_bind) (rule wf.keeps_forE loop_ws_body_wf)+
  then show ?thesis
    using keepsD [OF loop_ws_resadd_wf] by (auto simp: keeps_def loop_ws_def Let_def split: if_splits)
qed

end
