(* ===== verification/Gemmini_Loop_Conv.thy ===== *)
theory Gemmini_Loop_Conv
  imports Gemmini_Loop_WS
begin

text \<open>
  The convolution loop \<open>loop_conv_ws\<close>. Its locals are C integers of several widths; they are
  modelled as \<open>int\<close>, with the conversion to the declared type (\<open>to_i16\<close>, \<open>to_u16\<close>,
  \<open>to_i32\<close>) written out where the source converts. Its loops count in 16-bit variables that
  may wrap around, so that some never end: \<open>whileE\<close> runs a loop with fuel. The counter of
  each loop alone decides about the next counter and about the end, so a loop that has not
  ended after \<open>2 ^ 16\<close> rounds never ends; \<open>LOOP_FUEL\<close> is that number.
\<close>

section \<open>Conversions and loops\<close>

definition to_i16 :: "int \<Rightarrow> int" where "to_i16 x = sint (word_of_int x :: 16 word)"
definition to_u16 :: "int \<Rightarrow> int" where "to_u16 x = uint (word_of_int x :: 16 word)"
definition to_u8 :: "int \<Rightarrow> int" where "to_u8 x = uint (word_of_int x :: 8 word)"

definition i64 :: "int \<Rightarrow> u64" where "i64 x = word_of_int x"
definition i32u :: "int \<Rightarrow> u32" where "i32u x = word_of_int x"

definition LOOP_FUEL :: nat where "LOOP_FUEL = 2 ^ 16"

definition loop_u16 :: "int \<Rightarrow> int \<Rightarrow> (int \<Rightarrow> 's \<Rightarrow> 's res) \<Rightarrow> 's \<Rightarrow> 's res" where
  "loop_u16 bound inc body s = whileE LOOP_FUEL (\<lambda>x. x < bound) (\<lambda>x. to_u16 (x + inc)) body 0 s"

definition loop_i16 :: "int \<Rightarrow> int \<Rightarrow> int \<Rightarrow> (int \<Rightarrow> 's \<Rightarrow> 's res) \<Rightarrow> 's \<Rightarrow> 's res" where
  "loop_i16 from bound inc body s = whileE LOOP_FUEL (\<lambda>x. x < bound) (\<lambda>x. to_i16 (x + inc)) body from s"

definition loop_int :: "int \<Rightarrow> int \<Rightarrow> (int \<Rightarrow> 's \<Rightarrow> 's res) \<Rightarrow> 's \<Rightarrow> 's res" where
  "loop_int bound inc body s = whileE LOOP_FUEL (\<lambda>x. x < bound) (\<lambda>x. to_i32 (x + inc)) body 0 s"

section \<open>Operands and dimensions\<close>

record loop_conv_ctl =
  cv_no_bias :: bool
  cv_wrot180 :: bool
  cv_trans_output_1203 :: bool
  cv_trans_weight_1203 :: bool
  cv_trans_weight_0132 :: bool
  cv_trans_input_3120 :: bool
  cv_dw :: bool
  cv_max_pixels_per_row :: int
  cv_no_pool :: bool
  cv_downsample :: nat
  cv_input_dilated :: nat
  cv_activation :: bool
  cv_a_spad_id :: u8
  cv_b_spad_id :: u8

definition loop_conv_decode :: "u64 \<Rightarrow> u64 \<Rightarrow> loop_conv_ctl" where
  "loop_conv_decode rs1 rs2 = \<lparr>
     cv_no_bias = flag 0 rs1,
     cv_wrot180 = flag 1 rs1,
     cv_trans_output_1203 = flag 2 rs1,
     cv_trans_weight_1203 = flag 3 rs1,
     cv_trans_weight_0132 = flag 4 rs1,
     cv_trans_input_3120 = flag 5 rs1,
     cv_dw = flag 6 rs1,
     cv_max_pixels_per_row = (let p = uint (fld 8 0xFF rs1) in if p = 0 then 1 else p),
     cv_no_pool = flag 0 rs2,
     cv_downsample = of_bool (flag 1 rs2),
     cv_input_dilated = of_bool (flag 2 rs2),
     cv_activation = (fld 3 3 rs2 \<noteq> 0),
     cv_a_spad_id = ucast (fld 18 3 rs1),
     cv_b_spad_id = ucast (fld 16 3 rs1)\<rparr>"

record conv_dims =
  cd_irows_unpadded :: int
  cd_icols_unpadded :: int
  cd_irows :: int
  cd_icols :: int
  cd_ichs :: int
  cd_B_rows :: int

text \<open>The macros \<open>UNDILATED\<close>, \<open>DS\<close> and \<open>US\<close>; \<open>>>\<close> of a negative \<open>int\<close> is arithmetic.\<close>

definition UNDILATED :: "loop_conv_ctl \<Rightarrow> int \<Rightarrow> int" where
  "UNDILATED c x = drop_bit (cv_input_dilated c) (to_i32 (x + int (cv_input_dilated c)))"

definition DS :: "loop_conv_ctl \<Rightarrow> int \<Rightarrow> int" where "DS c x = drop_bit (cv_downsample c) x"
definition US :: "loop_conv_ctl \<Rightarrow> int \<Rightarrow> int" where "US c x = push_bit (cv_downsample c) x"

definition conv_dims_of :: "loop_conv_ctl \<Rightarrow> loop_conv_ws_regs \<Rightarrow> conv_dims" where
  "conv_dims_of c r =
     (let krows = uint (lc_krows r); kcols = uint (lc_kcols r); kchs = uint (lc_kchs r);
          ochs = uint (lc_pochs r);
          dilated_krows = to_i16 (krows + (uint (lc_kernel_dilation r) - 1) * (krows - 1));
          dilated_kcols = to_i16 (kcols + (uint (lc_kernel_dilation r) - 1) * (kcols - 1));
          irows_wo = to_i16 (uint (lc_orows r) * uint (lc_stride r) + dilated_krows - 1);
          icols_wo = to_i16 (uint (lc_ocols r) * uint (lc_stride r) + dilated_kcols - 1);
          irows_unp_wo = to_i16 (irows_wo - uint (lc_upad r) - uint (lc_dpad r));
          icols_unp_wo = to_i16 (icols_wo - uint (lc_lpad r) - uint (lc_rpad r));
          input_dilated = (cv_input_dilated c \<noteq> 0);
          irows_unpadded = to_i16 (if input_dilated then trunc_div (irows_unp_wo + 1) 2 else irows_unp_wo);
          icols_unpadded = to_i16 (if input_dilated then trunc_div (icols_unp_wo + 1) 2 else icols_unp_wo);
          irows = to_i16 (if input_dilated
            then irows_unpadded + UNDILATED c (uint (lc_upad r)) + UNDILATED c (uint (lc_dpad r)) else irows_wo);
          icols = to_i16 (if input_dilated
            then icols_unpadded + UNDILATED c (uint (lc_lpad r)) + UNDILATED c (uint (lc_rpad r)) else icols_wo);
          out_channels_per_bank = ochs div int DIM + of_bool (ochs mod int DIM \<noteq> 0);
          in_channels_per_bank = kchs div int DIM + of_bool (kchs mod int DIM \<noteq> 0);
          B_rows = to_i32 (if cv_trans_weight_0132 c then in_channels_per_bank * kcols * krows * ochs
            else out_channels_per_bank * kcols * krows * kchs) in
      \<lparr>cd_irows_unpadded = irows_unpadded, cd_icols_unpadded = icols_unpadded,
       cd_irows = irows, cd_icols = icols, cd_ichs = to_i16 kchs, cd_B_rows = B_rows\<rparr>)"

definition conv_A_start :: "loop_conv_ctl \<Rightarrow> u32" where
  "conv_A_start c = (if cv_a_spad_id c = 2 then of_nat (BANK_NUM * BANK_ROWS div 2) else 0)"

definition conv_B_start :: "loop_conv_ctl \<Rightarrow> conv_dims \<Rightarrow> u32" where
  "conv_B_start c d =
     (if cv_b_spad_id c = 2 then of_nat (BANK_NUM * BANK_ROWS) - i32u (cd_B_rows d)
      else of_nat (BANK_NUM * BANK_ROWS div 2) - i32u (cd_B_rows d))"

definition conv_D_start :: "loop_conv_ws_regs \<Rightarrow> u32" where
  "conv_D_start r = push_bit (ADDR_LEN - 1) 1 + lc_D_sp_addr_row r"

definition conv_C_start :: "loop_conv_ws_regs \<Rightarrow> u32" where
  "conv_C_start r = push_bit (ADDR_LEN - 2) 3 + lc_C_sp_addr_row r"

text \<open>The two static variables advance by half an accumulator on every call.\<close>

definition conv_advance :: "loop_conv_ws_regs \<Rightarrow> loop_conv_ws_regs" where
  "conv_advance r = r\<lparr>
     lc_D_sp_addr_row := (if lc_bias r \<noteq> 0
       then (lc_D_sp_addr_row r + of_nat (ACC_ROWS div 2)) mod of_nat ACC_ROWS else lc_D_sp_addr_row r),
     lc_C_sp_addr_row := (if lc_output r \<noteq> 0
       then (lc_C_sp_addr_row r + of_nat (ACC_ROWS div 2)) mod of_nat ACC_ROWS else lc_C_sp_addr_row r)\<rparr>"

text \<open>\<open>(och / DIM) * batches * orows * ocols + b * orows * ocols + orow * ocols + ocol\<close>\<close>

definition conv_acc_row :: "loop_conv_ws_regs \<Rightarrow> int \<Rightarrow> int \<Rightarrow> int \<Rightarrow> int \<Rightarrow> int" where
  "conv_acc_row r och b orow ocol =
     (let batches = uint (lc_batches r); orows = uint (lc_orows r); ocols = uint (lc_ocols r) in
      (och div int DIM) * batches * orows * ocols + b * orows * ocols + orow * ocols + ocol)"

definition clip :: "int \<Rightarrow> int \<Rightarrow> int" where
  "clip x m = (if m < x then m else x)"

section \<open>Bias, input and weights\<close>

definition conv_mvin_bias :: "'m mmu \<Rightarrow> loop_conv_ctl \<Rightarrow> loop_conv_ws_regs \<Rightarrow> 'm sim \<Rightarrow> 'm sim res" where
  "conv_mvin_bias M c r s =
     (let batches = uint (lc_batches r); orows = uint (lc_orows r); ocols = uint (lc_ocols r);
          ochs = uint (lc_pochs r) in
      if lc_bias r \<noteq> 0 then
        let max_ochs_per_mvin = (if ochs < int (MAX_BLOCK_LEN_ACC * DIM) then ochs else int (MAX_BLOCK_LEN_ACC * DIM)) in
        bindE (config (push_bit 32 (ucast (scale_t_to_scale_t_bits MVIN_SCALE_IDENTITY)) OR
          push_bit 16 (i64 (to_i32 (batches * orows * ocols))) OR push_bit 8 1 OR push_bit 3 2 OR 1) 0 s) (\<lambda>s.
        loop_int batches 1 (\<lambda>b s.
          loop_int orows 1 (\<lambda>orow s.
            loop_int ocols (int DIM) (\<lambda>ocol s.
              let I = clip (ocols - ocol) (int DIM) in
              loop_int ochs max_ochs_per_mvin (\<lambda>och s.
                let J = clip (ochs - och) max_ochs_per_mvin;
                    D_sp_addr = conv_D_start r + i32u (conv_acc_row r och b orow ocol) in
                mvin M (if cv_no_bias c then 0 else lc_bias r + i64 och * 4)
                  (push_bit 48 (i64 I) OR push_bit 32 (i64 J) OR ucast D_sp_addr) 2 s) s) s) s) s)
      else Inr s)"

text \<open>The width \<open>I\<close> of the next block of input pixels.\<close>

definition conv_input_I :: "loop_conv_ctl \<Rightarrow> loop_conv_ws_regs \<Rightarrow> conv_dims \<Rightarrow> int \<Rightarrow> int" where
  "conv_input_I c r d icol =
     (let rpad = UNDILATED c (uint (lc_rpad r)) in
      to_i16 (if icol < 0 then clip (- icol) (int DIM)
        else if cd_icols_unpadded d \<le> icol then clip (cd_icols_unpadded d + rpad - icol) (int DIM)
        else clip (cd_icols_unpadded d - icol) (US c (int DIM))))"

definition conv_mvin_input_block ::
  "'m mmu \<Rightarrow> loop_conv_ctl \<Rightarrow> loop_conv_ws_regs \<Rightarrow> conv_dims \<Rightarrow> int \<Rightarrow> int \<Rightarrow> int \<Rightarrow> int \<Rightarrow> int \<Rightarrow> int \<Rightarrow> 'm sim \<Rightarrow> 'm sim res" where
  "conv_mvin_input_block M c r d max_chs_per_mvin spad_stride b irow icol ich s =
     (let trans = cv_trans_input_3120 c;
          in_row_dim = uint (lc_in_row_dim r); in_col_dim = uint (lc_in_col_dim r);
          in_stride = uint (lc_in_stride r); batch_size = uint (lc_batch_size r);
          irow_padded = to_i16 (irow + UNDILATED c (uint (lc_upad r)));
          icol_padded = to_i16 (icol + UNDILATED c (uint (lc_lpad r)));
          I = conv_input_I c r d icol;
          K = to_i16 (if trans then clip (uint (lc_batches r) - b) max_chs_per_mvin
                      else clip (cd_ichs d - ich) max_chs_per_mvin);
          irows = DS c (cd_irows d); icols = DS c (cd_icols d);
          A_sp_addr = (if trans
            then conv_A_start c + i32u (trunc_div b (int DIM) * spad_stride + ich * irows * icols
              + DS c irow_padded * icols + DS c icol_padded)
            else conv_A_start c + i32u (trunc_div ich (int DIM) * spad_stride + b * irows * icols
              + DS c irow_padded * icols + DS c icol_padded));
          is_zeros = (irow < 0 \<or> cd_irows_unpadded d \<le> irow \<or> icol < 0 \<or> cd_icols_unpadded d \<le> icol);
          src = (if is_zeros then 0
            else if trans then lc_input r +
              i64 (to_i32 ((ich * in_row_dim * in_col_dim + irow * in_col_dim + icol) * batch_size + b))
            else lc_input r +
              i64 (to_i32 ((b * in_row_dim * in_col_dim + irow * in_col_dim + icol) * in_stride + ich))) in
      mvin M src (push_bit 48 (i64 (DS c I)) OR push_bit 32 (i64 K) OR ucast A_sp_addr) 0 s)"

definition conv_mvin_input :: "'m mmu \<Rightarrow> loop_conv_ctl \<Rightarrow> loop_conv_ws_regs \<Rightarrow> conv_dims \<Rightarrow> 'm sim \<Rightarrow> 'm sim res" where
  "conv_mvin_input M c r d s =
     (if lc_input r \<noteq> 0 then
        let trans = cv_trans_input_3120 c;
            batches = uint (lc_batches r);
            ichs = cd_ichs d;
            lim = int (MAX_BLOCK_LEN * DIM);
            max_chs_per_mvin = (if trans then to_i16 (if batches < lim then batches else lim)
              else to_i16 (if ichs < lim then ichs else lim));
            dram_stride = (if trans then ucast (lc_batch_size r) else ucast (lc_in_stride r)) :: u32;
            spad_stride = to_i32 (if trans then ichs * DS c (cd_irows d) * DS c (cd_icols d)
              else batches * DS c (cd_irows d) * DS c (cd_icols d));
            b_it = (if trans then max_chs_per_mvin else 1);
            ich_it = (if trans then 1 else max_chs_per_mvin);
            rpad = UNDILATED c (uint (lc_rpad r)) in
        bindE (config (push_bit 32 (ucast (scale_t_to_scale_t_bits MVIN_SCALE_IDENTITY)) OR
          push_bit 16 (i64 spad_stride) OR push_bit 8 (i64 (cv_max_pixels_per_row c)) OR push_bit 3 0 OR 1)
          (ucast (push_bit (cv_downsample c) dram_stride)) s) (\<lambda>s.
        loop_i16 0 batches b_it (\<lambda>b s.
          loop_i16 (to_i16 (- UNDILATED c (uint (lc_upad r))))
            (cd_irows_unpadded d + UNDILATED c (uint (lc_dpad r))) (US c 1) (\<lambda>irow s.
            whileE LOOP_FUEL (\<lambda>icol. icol < cd_icols_unpadded d + rpad)
              (\<lambda>icol. to_i16 (icol + conv_input_I c r d icol)) (\<lambda>icol s.
              loop_i16 0 ichs ich_it (\<lambda>ich s.
                conv_mvin_input_block M c r d max_chs_per_mvin spad_stride b irow icol ich s) s)
              (to_i16 (- UNDILATED c (uint (lc_lpad r)))) s) s) s)
      else Inr s)"

definition conv_weight_src :: "loop_conv_ctl \<Rightarrow> loop_conv_ws_regs \<Rightarrow> int \<Rightarrow> int \<Rightarrow> int \<Rightarrow> int \<Rightarrow> u64" where
  "conv_weight_src c r och krow kcol kch =
     (let kernel_dim = uint (lc_kernel_dim r); in_channels = uint (lc_in_channels r);
          out_channels = uint (lc_out_channels r); weight_stride = uint (lc_weight_stride r);
          weights = lc_weights r in
      if cv_dw c then weights + i64 (to_i32 (krow * kernel_dim)) + i64 kcol
      else if cv_trans_weight_1203 c then weights +
        i64 (to_i32 ((kch * kernel_dim * kernel_dim + krow * kernel_dim + kcol) * out_channels + och))
      else if cv_trans_weight_0132 c then weights +
        i64 (to_i32 ((krow * kernel_dim * out_channels + kcol * out_channels + och) * in_channels + kch))
      else weights +
        i64 (to_i32 ((krow * kernel_dim * in_channels + kcol * in_channels + kch) * weight_stride + och)))"

definition conv_mvin_weights :: "'m mmu \<Rightarrow> loop_conv_ctl \<Rightarrow> loop_conv_ws_regs \<Rightarrow> conv_dims \<Rightarrow> 'm sim \<Rightarrow> 'm sim res" where
  "conv_mvin_weights M c r d s =
     (if lc_weights r \<noteq> 0 then
        let krows = uint (lc_krows r); kcols = uint (lc_kcols r); kchs = uint (lc_kchs r);
            ochs = uint (lc_pochs r); kernel_dim = uint (lc_kernel_dim r);
            t0132 = cv_trans_weight_0132 c;
            lim = int (MAX_BLOCK_LEN * DIM);
            max_chs_per_mvin = (if t0132 then (if kchs < lim then kchs else lim)
              else (if ochs < lim then ochs else lim));
            dram_stride = (if cv_dw c then 1
              else if cv_trans_weight_1203 c then i64 (to_i32 (kernel_dim * kernel_dim * uint (lc_out_channels r)))
              else if t0132 then ucast (lc_in_channels r)
              else ucast (lc_weight_stride r));
            spad_block_stride = i64 (to_i32 (if t0132 then krows * kcols * ochs else krows * kcols * kchs));
            och_it = (if t0132 then int DIM else max_chs_per_mvin);
            kch_it = (if t0132 then max_chs_per_mvin else int DIM) in
        bindE (config (push_bit 32 (ucast (scale_t_to_scale_t_bits MVIN_SCALE_IDENTITY)) OR
          push_bit 16 spad_block_stride OR push_bit 8 1 OR push_bit 3 1 OR 1) dram_stride s) (\<lambda>s.
        loop_u16 ochs och_it (\<lambda>och s.
          loop_u16 krows 1 (\<lambda>krow s.
            loop_u16 kcols 1 (\<lambda>kcol s.
              loop_u16 kchs kch_it (\<lambda>kch s.
                let K = to_u16 (if t0132 then clip (ochs - och) (int DIM) else clip (kchs - kch) (int DIM));
                    J = to_u16 (if t0132 then clip (kchs - kch) max_chs_per_mvin
                      else clip (ochs - och) max_chs_per_mvin);
                    B_sp_addr = (if t0132
                      then conv_B_start c d + i32u ((kch div int DIM) * krows * kcols * ochs
                        + krow * kcols * ochs + kcol * ochs + och)
                      else conv_B_start c d + i32u ((och div int DIM) * krows * kcols * kchs
                        + krow * kcols * kchs + kcol * kchs + kch)) in
                mvin M (conv_weight_src c r och krow kcol kch)
                  (push_bit 48 (i64 K) OR push_bit 32 (i64 J) OR ucast B_sp_addr) 1 s) s) s) s) s)
      else Inr s)"

section \<open>Compute\<close>

definition conv_compute_block ::
  "loop_conv_ctl \<Rightarrow> loop_conv_ws_regs \<Rightarrow> conv_dims \<Rightarrow> int \<Rightarrow> int \<Rightarrow> int \<Rightarrow> int \<Rightarrow> int \<Rightarrow> int \<Rightarrow> int \<Rightarrow>
   bool \<Rightarrow> 'm sim \<Rightarrow> 'm sim res" where
  "conv_compute_block c r d och krow kcol kch b orow ocol new_weights s =
     (let krows = uint (lc_krows r); kcols = uint (lc_kcols r); kchs = uint (lc_kchs r);
          ochs = uint (lc_pochs r); batches = uint (lc_batches r); ocols = uint (lc_ocols r);
          stride = uint (lc_stride r); dilation = uint (lc_kernel_dilation r);
          trans = cv_trans_input_3120 c;
          wide = push_bit (cv_input_dilated c) (int DIM);
          irow = to_u16 (UNDILATED c (orow * stride + krow * dilation));
          icol = to_u16 (UNDILATED c (ocol * stride + kcol * dilation));
          C_sp_addr = conv_C_start r + i32u (conv_acc_row r och b orow ocol);
          pixels = to_u8 (clip (kcols - kcol) (cv_max_pixels_per_row c));
          I = to_u16 (if trans then clip (batches - b) (int DIM)
                      else UNDILATED c (clip (ocols - ocol) wide));
          J = to_u16 (clip (ochs - och) (int DIM));
          K = to_u16 (pixels * clip (kchs - kch) (int DIM));
          irows = DS c (cd_irows d); icols = DS c (cd_icols d);
          A_sp_addr = (if trans
            then conv_A_start c + i32u ((b div int DIM) * kchs * irows * icols + kch * irows * icols
              + DS c irow * icols + DS c icol)
            else conv_A_start c + i32u ((kch div int DIM) * batches * irows * icols + b * irows * icols
              + DS c irow * icols + DS c icol));
          krow_rot = (if cv_wrot180 c then krows - krow - 1 else krow);
          kcol_rot = (if cv_wrot180 c then kcols - kcol - 1 else kcol);
          B_sp_addr = (if cv_trans_weight_0132 c
            then conv_B_start c d + i32u ((kch div int DIM) * krows * kcols * ochs
              + krow_rot * kcols * ochs + kcol_rot * ochs + och)
            else conv_B_start c d + i32u ((och div int DIM) * krows * kcols * kchs
              + krow_rot * kcols * kchs + kcol_rot * kchs + kch));
          GARBAGE_ADDR = - 1 :: u32;
          pre_sp_addr = (if new_weights then B_sp_addr else GARBAGE_ADDR) in
      compute (push_bit 48 (i64 I) OR push_bit 32 (i64 K) OR ucast A_sp_addr)
        (push_bit 48 (i64 I) OR push_bit 32 (i64 J) OR ucast GARBAGE_ADDR) new_weights
        (preload (push_bit 48 (i64 K) OR push_bit 32 (i64 J) OR ucast pre_sp_addr)
          (push_bit 48 (i64 I) OR push_bit 32 (i64 J) OR ucast C_sp_addr) s))"

definition conv_compute :: "loop_conv_ctl \<Rightarrow> loop_conv_ws_regs \<Rightarrow> conv_dims \<Rightarrow> 'm sim \<Rightarrow> 'm sim res" where
  "conv_compute c r d s =
     (let trans = cv_trans_input_3120 c;
          dilated = (cv_input_dilated c \<noteq> 0);
          dilation = uint (lc_kernel_dilation r);
          orows = uint (lc_orows r); ocols = uint (lc_ocols r);
          b_it = (if trans then int DIM else 1);
          ocol_it = (if trans then 1 else push_bit (cv_input_dilated c) (int DIM)) in
      bindE (if trans then
          let a_str = to_u16 (cd_irows d * cd_icols d); c_str = to_u16 (orows * ocols) in
          config (push_bit 16 (i64 a_str) OR push_bit 7 1 OR 0) (push_bit 48 (i64 c_str)) s
        else Inr s) (\<lambda>s.
      loop_u16 (uint (lc_pochs r)) (int DIM) (\<lambda>och s.
        loop_u16 (uint (lc_krows r)) 1 (\<lambda>krow s.
          loop_u16 (uint (lc_kcols r)) (cv_max_pixels_per_row c) (\<lambda>kcol s.
            loop_u16 (uint (lc_kchs r)) (int DIM) (\<lambda>kch s.
              let odd_col = (\<lambda>ocol. dilated \<and> odd (kcol * dilation + ocol - uint (lc_lpad r))) in
              bindE (loop_u16 (uint (lc_batches r)) b_it (\<lambda>b ws.
                loop_u16 orows 1 (\<lambda>orow ws.
                  if dilated \<and> odd (krow * dilation + orow - uint (lc_upad r)) then Inr ws
                  else
                    whileE LOOP_FUEL (\<lambda>ocol. ocol < ocols)
                      (\<lambda>ocol. if odd_col ocol then to_u16 (ocol + 1) else to_u16 (ocol + ocol_it))
                      (\<lambda>ocol (new_weights, s).
                        if odd_col ocol then Inr (new_weights, s)
                        else bindE (conv_compute_block c r d och krow kcol kch b orow ocol new_weights s)
                          (\<lambda>s. Inr (False, s))) 0 ws) ws) (True, s)) (\<lambda>(_, s).
              Inr s)) s) s) s) s))"

section \<open>Results\<close>

definition conv_mvout_rows :: "'m mmu \<Rightarrow> loop_conv_ctl \<Rightarrow> loop_conv_ws_regs \<Rightarrow> 'm sim \<Rightarrow> 'm sim res" where
  "conv_mvout_rows M c r s =
     (let ocols = uint (lc_ocols r); ochs = uint (lc_pochs r);
          out_row_dim = uint (lc_out_row_dim r); out_col_dim = uint (lc_out_col_dim r);
          batch_size = uint (lc_batch_size r) in
      loop_u16 (uint (lc_batches r)) 1 (\<lambda>b s.
        loop_u16 (uint (lc_orows r)) 1 (\<lambda>orow s.
          loop_u16 ocols (int DIM) (\<lambda>ocol s.
            let I = to_u16 (clip (ocols - ocol) (int DIM)) in
            loop_u16 ochs (int DIM) (\<lambda>och s.
              let J = to_u16 (clip (ochs - och) (int DIM));
                  C_sp_addr = conv_C_start r + i32u (conv_acc_row r och b orow ocol);
                  out = (if cv_trans_output_1203 c
                    then lc_output r + i64 (to_i32 ((orow * out_col_dim * batch_size + ocol * batch_size + b)
                      * uint (lc_out_channels r) + och))
                    else lc_output r + i64 (to_i32 ((b * out_row_dim * out_col_dim + orow * out_col_dim + ocol)
                      * uint (lc_out_stride r) + och))) in
              mvout M out (push_bit 48 (i64 I) OR push_bit 32 (i64 J) OR ucast C_sp_addr) s) s) s) s) s)"

definition conv_mvout_pool :: "'m mmu \<Rightarrow> loop_conv_ctl \<Rightarrow> loop_conv_ws_regs \<Rightarrow> f32 \<Rightarrow> 'm sim \<Rightarrow> 'm sim res" where
  "conv_mvout_pool M c r scale s =
     (let pochs = uint (lc_pochs r);
          act = push_bit 2 (of_bool (cv_activation c));
          rs2 = push_bit 32 (ucast (acc_scale_t_to_acc_scale_t_bits scale)) OR ucast (lc_out_stride r) in
      bindE (config (push_bit 56 (ucast (lc_ocols r)) OR push_bit 48 (ucast (lc_orows r)) OR
        push_bit 40 (ucast (lc_pocols r)) OR push_bit 32 (ucast (lc_porows r)) OR
        push_bit 24 (ucast (lc_pool_out_col_dim r)) OR push_bit 10 (ucast (lc_plpad r)) OR
        push_bit 8 (ucast (lc_pupad r)) OR push_bit 6 (ucast (lc_pool_size r)) OR
        push_bit 4 (ucast (lc_pool_stride r)) OR act OR 2) rs2 s) (\<lambda>s.
      bindE (loop_int (uint (lc_batches r)) 1 (\<lambda>b s.
        loop_int pochs (int DIM) (\<lambda>poch s.
          let channels = (if pochs \<le> poch + int DIM then pochs - poch else int DIM);
              C_sp_addr = conv_C_start r + i32u (conv_acc_row r poch b 0 0);
              out = lc_output r + i64 (to_i32 ((b * uint (lc_pool_out_row_dim r) * uint (lc_pool_out_col_dim r))
                * uint (lc_out_stride r) + poch)) in
          mvout M out (push_bit 32 (i64 channels) OR ucast C_sp_addr) s) s) s) (\<lambda>s.
      config (act OR 2) rs2 s)))"

definition conv_mvout :: "'m mmu \<Rightarrow> loop_conv_ctl \<Rightarrow> loop_conv_ws_regs \<Rightarrow> 'm sim \<Rightarrow> 'm sim res" where
  "conv_mvout M c r s =
     (if lc_output r \<noteq> 0 \<and> cv_no_pool c then conv_mvout_rows M c r s
      else if lc_output r \<noteq> 0 \<and> \<not> cv_no_pool c then conv_mvout_pool M c r (acc_shift s) s
      else Inr s)"

definition loop_conv_ws :: "'m mmu \<Rightarrow> u64 \<Rightarrow> u64 \<Rightarrow> 'm sim \<Rightarrow> 'm sim res" where
  "loop_conv_ws M rs1 rs2 s =
     (let c = loop_conv_decode rs1 rs2; r = loop_conv_st s; d = conv_dims_of c r in
      bindE (guardE AssertFail (cv_input_dilated c = 0 \<or> lc_stride r = 1)) (\<lambda>_.
      let s = s\<lparr>loop_conv_st := conv_advance r\<rparr> in
      bindE (conv_mvin_bias M c r s) (\<lambda>s.
      bindE (conv_mvin_input M c r d s) (\<lambda>s.
      bindE (conv_mvin_weights M c r d s) (\<lambda>s.
      bindE (conv_compute c r d s) (\<lambda>s.
      conv_mvout M c r s))))))"

section \<open>Frame\<close>

lemma loops_wf:
  "(\<And>x. keeps wf_kept (body x)) \<Longrightarrow> keeps wf_kept (\<lambda>s. loop_u16 n i body s)"
  "(\<And>x. keeps wf_kept (body x)) \<Longrightarrow> keeps wf_kept (\<lambda>s. loop_i16 f n i body s)"
  "(\<And>x. keeps wf_kept (body x)) \<Longrightarrow> keeps wf_kept (\<lambda>s. loop_int n i body s)"
  unfolding loop_u16_def loop_i16_def loop_int_def by (rule wf.keeps_whileE; assumption)+

lemma conv_mvin_bias_wf: "keeps wf_kept (conv_mvin_bias M c r)"
  unfolding conv_mvin_bias_def Let_def by (rule step_wf loops_wf wf.keeps_intros)+

lemma conv_mvin_input_wf: "keeps wf_kept (conv_mvin_input M c r d)"
  unfolding conv_mvin_input_def conv_mvin_input_block_def Let_def
  by (rule step_wf loops_wf wf.keeps_intros)+

lemma conv_mvin_weights_wf: "keeps wf_kept (conv_mvin_weights M c r d)"
  unfolding conv_mvin_weights_def Let_def by (rule step_wf loops_wf wf.keeps_intros)+

interpretation wfp: frame "\<lambda>p q. wf_kept (snd p) (snd q)"
  by unfold_locales (auto intro: wf.frame_refl wf.frame_trans)

lemma loop_u16_wfp:
  "(\<And>x. keeps (\<lambda>p q. wf_kept (snd p) (snd q)) (body x)) \<Longrightarrow> keeps (\<lambda>p q. wf_kept (snd p) (snd q)) (loop_u16 n i body)"
  unfolding loop_u16_def by (rule wfp.keeps_whileE)

lemma conv_compute_block_wf: "keeps wf_kept (conv_compute_block c r d och krow kcol kch b orow ocol new_weights)"
  unfolding conv_compute_block_def Let_def by (rule preload_compute_wf)

lemma conv_compute_step_wf:
  "keeps (\<lambda>p q. wf_kept (snd p) (snd q)) (\<lambda>(new_weights, s).
     if b then Inr (new_weights, s) else bindE (conv_compute_block c r d och krow kcol kch bt orow ocol new_weights s) (\<lambda>s. Inr (False, s)))"
  by (rule keepsI)
    (auto simp: bindE_Inr_iff wf.frame_refl dest: keepsD [OF conv_compute_block_wf] split: if_splits)

lemma conv_compute_wf: "keeps wf_kept (conv_compute c r d)"
proof -
  have run: "wf_kept s s'" if "loop_u16 n i body (w, s) = Inr (x, s')" 
     "\<And>x. keeps (\<lambda>p q. wf_kept (snd p) (snd q)) (body x)"
    for n i body w x and s s' :: "'a sim"
    using keepsD [OF loop_u16_wfp [OF that(2)] that(1)] by simp
  show ?thesis
    unfolding conv_compute_def Let_def
    apply (rule wf.keeps_bind)
    subgoal by (rule step_wf wf.keeps_intros)+
    apply (rule loops_wf)+
    apply (rule wf.keeps_bind_pair)
    apply (erule run)
    apply (rule loop_u16_wfp)
    apply (rule wfp.keeps_if)
    apply (rule wfp.keeps_Inr)
    apply (rule wfp.keeps_whileE)
    apply (rule conv_compute_step_wf)
    apply (rule wf.keeps_Inr)
    done
qed

lemma conv_mvout_wf: "keeps wf_kept (conv_mvout M c r)"
proof -
  have "keeps wf_kept (conv_mvout_rows M c r)"
    unfolding conv_mvout_rows_def Let_def by (rule step_wf loops_wf wf.keeps_intros)+
  moreover have "keeps wf_kept (conv_mvout_pool M c r scale)" for scale
    unfolding conv_mvout_pool_def Let_def by (rule step_wf loops_wf wf.keeps_intros)+
  ultimately show ?thesis
    unfolding conv_mvout_def by (auto simp: keeps_def wf.frame_refl)
qed

lemma loop_conv_ws_wf: "keeps wf_kept (loop_conv_ws M rs1 rs2)"
proof (rule keepsI)
  fix s s' :: "'a sim"
  let ?r = "loop_conv_st s" and ?c = "loop_conv_decode rs1 rs2"
  let ?d = "conv_dims_of ?c ?r"
  assume "loop_conv_ws M rs1 rs2 s = Inr s'"
  then have "bindE (conv_mvin_bias M ?c ?r (s\<lparr>loop_conv_st := conv_advance ?r\<rparr>)) (\<lambda>s.
      bindE (conv_mvin_input M ?c ?r ?d s) (\<lambda>s.
      bindE (conv_mvin_weights M ?c ?r ?d s) (\<lambda>s.
      bindE (conv_compute ?c ?r ?d s) (\<lambda>s.
      conv_mvout M ?c ?r s)))) = Inr s'" by (auto simp: loop_conv_ws_def Let_def bindE_Inr_iff)
  then have "wf_kept (s\<lparr>loop_conv_st := conv_advance ?r\<rparr>) s'"
    by (rule keepsD [rotated])
      (intro wf.keeps_bind conv_mvin_bias_wf conv_mvin_input_wf conv_mvin_weights_wf conv_compute_wf conv_mvout_wf)
  then show "wf_kept s s'"
    using wf.frame_trans upd_loop_wf(2) [of s "\<lambda>_. conv_advance ?r"] by (simp add: upd_loop_conv_def)
qed

end
