(* ===== verification/Gemmini_Dispatch.thy ===== *)
theory Gemmini_Dispatch
  imports Gemmini_Loop_Conv
begin

text \<open>
  The instruction dispatcher \<open>custom3\<close> and the entry \<open>gemmini_custom\<close> Spike calls for it.
  Spike's instruction word and register file are not part of the repository: the fields of
  the instruction and the register file are arguments.
\<close>

section \<open>Function codes\<close>

definition config_funct :: nat where "config_funct = 0"
definition mvin_funct :: nat where "mvin_funct = 2"
definition mvin2_funct :: nat where "mvin2_funct = 1"
definition mvin3_funct :: nat where "mvin3_funct = 14"
definition mvout_funct :: nat where "mvout_funct = 3"
definition compute_preloaded_funct :: nat where "compute_preloaded_funct = 4"
definition compute_accumulated_funct :: nat where "compute_accumulated_funct = 5"
definition preload_funct :: nat where "preload_funct = 6"
definition flush_funct :: nat where "flush_funct = 7"
definition loop_ws_funct :: nat where "loop_ws_funct = 8"
definition loop_ws_config_bounds_funct :: nat where "loop_ws_config_bounds_funct = 9"
definition loop_ws_config_addrs_AB_funct :: nat where "loop_ws_config_addrs_AB_funct = 10"
definition loop_ws_config_addrs_DC_funct :: nat where "loop_ws_config_addrs_DC_funct = 11"
definition loop_ws_config_strides_AB_funct :: nat where "loop_ws_config_strides_AB_funct = 12"
definition loop_ws_config_strides_DC_funct :: nat where "loop_ws_config_strides_DC_funct = 13"
definition loop_conv_ws_funct :: nat where "loop_conv_ws_funct = 15"
definition loop_conv_ws_config_1_funct :: nat where "loop_conv_ws_config_1_funct = 16"
definition loop_conv_ws_config_2_funct :: nat where "loop_conv_ws_config_2_funct = 17"
definition loop_conv_ws_config_3_funct :: nat where "loop_conv_ws_config_3_funct = 18"
definition loop_conv_ws_config_4_funct :: nat where "loop_conv_ws_config_4_funct = 19"
definition loop_conv_ws_config_5_funct :: nat where "loop_conv_ws_config_5_funct = 20"
definition loop_conv_ws_config_6_funct :: nat where "loop_conv_ws_config_6_funct = 21"
definition counter_op_funct :: nat where "counter_op_funct = 126"
definition fence_funct :: nat where "fence_funct = 127"

lemmas funct_defs = config_funct_def mvin_funct_def mvin2_funct_def mvin3_funct_def mvout_funct_def
  compute_preloaded_funct_def compute_accumulated_funct_def preload_funct_def flush_funct_def
  loop_ws_funct_def loop_ws_config_bounds_funct_def loop_ws_config_addrs_AB_funct_def
  loop_ws_config_addrs_DC_funct_def loop_ws_config_strides_AB_funct_def
  loop_ws_config_strides_DC_funct_def loop_conv_ws_funct_def loop_conv_ws_config_1_funct_def
  loop_conv_ws_config_2_funct_def loop_conv_ws_config_3_funct_def loop_conv_ws_config_4_funct_def
  loop_conv_ws_config_5_funct_def loop_conv_ws_config_6_funct_def counter_op_funct_def fence_funct_def

section \<open>The dispatcher\<close>

text \<open>The chain of conditions of \<open>custom3\<close>, apart from the counter instruction.\<close>

definition exec_funct :: "'m mmu \<Rightarrow> nat \<Rightarrow> u64 \<Rightarrow> u64 \<Rightarrow> 'm sim \<Rightarrow> 'm sim res" where
  "exec_funct M funct xs1 xs2 s =
     (if funct = mvin_funct then mvin M xs1 xs2 0 s
      else if funct = mvin2_funct then mvin M xs1 xs2 1 s
      else if funct = mvin3_funct then mvin M xs1 xs2 2 s
      else if funct = mvout_funct then mvout M xs1 xs2 s
      else if funct = preload_funct then Inr (preload xs1 xs2 s)
      else if funct = config_funct then config xs1 xs2 s
      else if funct = compute_preloaded_funct then compute xs1 xs2 True s
      else if funct = compute_accumulated_funct then compute xs1 xs2 False s
      else if funct = loop_ws_config_bounds_funct then Inr (loop_ws_config_bounds xs1 xs2 s)
      else if funct = loop_ws_config_addrs_AB_funct then Inr (loop_ws_config_addrs_AB xs1 xs2 s)
      else if funct = loop_ws_config_addrs_DC_funct then Inr (loop_ws_config_addrs_DC xs1 xs2 s)
      else if funct = loop_ws_config_strides_AB_funct then Inr (loop_ws_config_strides_AB xs1 xs2 s)
      else if funct = loop_ws_config_strides_DC_funct then Inr (loop_ws_config_strides_DC xs1 xs2 s)
      else if funct = loop_ws_funct then loop_ws M xs1 xs2 s
      else if funct = loop_conv_ws_config_1_funct then Inr (loop_conv_ws_config_1 xs1 xs2 s)
      else if funct = loop_conv_ws_config_2_funct then Inr (loop_conv_ws_config_2 xs1 xs2 s)
      else if funct = loop_conv_ws_config_3_funct then Inr (loop_conv_ws_config_3 xs1 xs2 s)
      else if funct = loop_conv_ws_config_4_funct then Inr (loop_conv_ws_config_4 xs1 xs2 s)
      else if funct = loop_conv_ws_config_5_funct then Inr (loop_conv_ws_config_5 xs1 xs2 s)
      else if funct = loop_conv_ws_config_6_funct then Inr (loop_conv_ws_config_6 xs1 xs2 s)
      else if funct = loop_conv_ws_funct then loop_conv_ws M xs1 xs2 s
      else if funct = flush_funct then Inr s
      else if funct = fence_funct then Inr s
      else Inl IllegalInstruction)"

definition custom3 :: "'m mmu \<Rightarrow> (nat \<Rightarrow> u32) \<Rightarrow> nat \<Rightarrow> u64 \<Rightarrow> u64 \<Rightarrow> 'm sim \<Rightarrow> (u64 \<times> 'm sim) res" where
  "custom3 M rnd funct xs1 xs2 s =
     (let s = (if \<not> resetted s then state_reset s else s) in
      bindE (if op_in_progress s
             then bindE (counter_increment_random rnd (counter_st s)) (\<lambda>c. Inr (s\<lparr>counter_st := c\<rparr>))
             else Inr s) (\<lambda>s.
      if funct = counter_op_funct then counter_operation xs1 s
      else
        bindE (exec_funct M funct xs1 xs2 s) (\<lambda>s.
        Inr (0, s\<lparr>op_in_progress := (funct \<noteq> flush_funct)\<rparr>))))"

record rocc_insn =
  ri_funct :: nat
  ri_rs1 :: nat
  ri_rs2 :: nat
  ri_rd :: nat
  ri_xs1 :: bool
  ri_xs2 :: bool
  ri_xd :: bool

text \<open>Spike's register file.\<close>

record 'x regfile =
  xpr_read :: "'x \<Rightarrow> nat \<Rightarrow> u64"
  xpr_write :: "'x \<Rightarrow> nat \<Rightarrow> u64 \<Rightarrow> 'x"

definition gemmini_custom ::
  "'m mmu \<Rightarrow> 'x regfile \<Rightarrow> (nat \<Rightarrow> u32) \<Rightarrow> rocc_insn \<Rightarrow> u64 \<Rightarrow> 'x \<Rightarrow> 'm sim \<Rightarrow> (u64 \<times> 'x \<times> 'm sim) res" where
  "gemmini_custom M R rnd insn pc XPR s =
     (let xs1 = (if ri_xs1 insn then xpr_read R XPR (ri_rs1 insn) else - 1);
          xs2 = (if ri_xs2 insn then xpr_read R XPR (ri_rs2 insn) else - 1) in
      bindE (custom3 M rnd (ri_funct insn) xs1 xs2 s) (\<lambda>(xd, s).
      let XPR = (if ri_xd insn then xpr_write R XPR (ri_rd insn) xd else XPR) in
      Inr (pc + 4, XPR, s)))"

section \<open>Well-formed states stay well-formed\<close>

lemma exec_funct_wf: "keeps wf_kept (exec_funct M funct xs1 xs2)"
proof -
  have set: "keeps wf_kept (\<lambda>s. Inr (upd_loop_ws f s))" "keeps wf_kept (\<lambda>s. Inr (upd_loop_conv g s))"
    "keeps wf_kept (\<lambda>s. Inr (preload a b s))" for f g a b
    by (intro keeps_update upd_loop_wf preload_wf)+
  show ?thesis
    unfolding exec_funct_def loop_ws_config_bounds_def loop_ws_config_addrs_AB_def loop_ws_config_addrs_DC_def
      loop_ws_config_strides_AB_def loop_ws_config_strides_DC_def loop_conv_ws_config_1_def
      loop_conv_ws_config_2_def loop_conv_ws_config_3_def loop_conv_ws_config_4_def
      loop_conv_ws_config_5_def loop_conv_ws_config_6_def
    by (intro wf.keeps_if wf.keeps_Inl wf.keeps_Inr set step_wf loop_ws_wf loop_conv_ws_wf)
qed

lemma custom3_wf:
  assumes "custom3 M rnd funct xs1 xs2 s = Inr (v, s')"
    and "wf_arrays s" "resetted s \<Longrightarrow> wf_memories s"
  shows "wf_state s'"
proof -
  define t where "t = (if \<not> resetted s then state_reset s else s)"
  have t: "wf_state t" using assms(2,3) wf_state_reset by (auto simp: t_def wf_state_def)
  obtain u where u: "(if op_in_progress t
      then bindE (counter_increment_random rnd (counter_st t)) (\<lambda>c. Inr (t\<lparr>counter_st := c\<rparr>)) else Inr t) = Inr u"
    and e: "(if funct = counter_op_funct then counter_operation xs1 u
      else bindE (exec_funct M funct xs1 xs2 u) (\<lambda>s. Inr (0, s\<lparr>op_in_progress := (funct \<noteq> flush_funct)\<rparr>))) = Inr (v, s')"
    using assms(1) unfolding custom3_def Let_def t_def [symmetric] by (elim bindE_InrE) blast
  have wu: "wf_state u"
    using u t counter_increment_random_wf
    by (auto simp: bindE_Inr_iff wf_state_updates wf_state_dims split: if_splits)
  show ?thesis
  proof (cases "funct = counter_op_funct")
    case True
    then show ?thesis using e counter_operation_wf wu by auto
  next
    case False
    then obtain w where w: "exec_funct M funct xs1 xs2 u = Inr w"
      and s': "s' = w\<lparr>op_in_progress := (funct \<noteq> flush_funct)\<rparr>"
      using e by (auto simp: bindE_Inr_iff)
    have "wf_state w" using keepsD [OF exec_funct_wf w] wu by (simp add: keeps_wf_def)
    then show ?thesis by (simp add: s' wf_state_def wf_arrays_def wf_memories_def)
  qed
qed

section \<open>The accelerator as a machine\<close>

text \<open>
  An instruction as the processor issues it, with the values \<open>rand()\<close> returns during it. The
  accelerator starts with arrays of the declared lengths and memories of any size, and resets
  itself on the first instruction.
\<close>

record gemmini_insn =
  gi_rnd :: "nat \<Rightarrow> u32"
  gi_funct :: nat
  gi_xs1 :: u64
  gi_xs2 :: u64

definition exec_insn :: "'m mmu \<Rightarrow> gemmini_insn \<Rightarrow> 'm sim \<Rightarrow> (u64 \<times> 'm sim) res" where
  "exec_insn M i s = custom3 M (gi_rnd i) (gi_funct i) (gi_xs1 i) (gi_xs2 i) s"

definition started :: "'m sim \<Rightarrow> bool" where
  "started s \<longleftrightarrow> wf_arrays s \<and> (resetted s \<longrightarrow> wf_memories s)"

interpretation gem: machine "exec_insn M" started for M :: "'m mmu"
  by unfold_locales (auto simp: exec_insn_def started_def wf_state_def dest!: custom3_wf)

primrec run_program :: "'m mmu \<Rightarrow> gemmini_insn list \<Rightarrow> 'm sim \<Rightarrow> 'm sim res" where
  "run_program M [] s = Inr s"
| "run_program M (i # is) s = bindE (exec_insn M i s) (\<lambda>(_, t). run_program M is t)"

lemma run_program_run: "run_program M is s = gem.run M is s"
  by (induction "is" arbitrary: s) simp_all

text \<open>
  An instruction on a started accelerator: after the reset, if it is the first, and the dummy
  increments of the counters, the operation runs on a well-formed state.
\<close>

lemma custom3_step:
  assumes "started s"
  obtains c where "wf_state ((if resetted s then s else state_reset s)\<lparr>counter_st := c\<rparr>)"
    "snapshot_enable c = snapshot_enable (counter_st (if resetted s then s else state_reset s))"
    "counter_snapshot_val c = counter_snapshot_val (counter_st s)"
    "\<And>M f x y. custom3 M rnd f x y s =
       (let u = (if resetted s then s else state_reset s)\<lparr>counter_st := c\<rparr> in
        if f = counter_op_funct then counter_operation x u
        else bindE (exec_funct M f x y u) (\<lambda>s. Inr (0, s\<lparr>op_in_progress := (f \<noteq> flush_funct)\<rparr>)))"
proof -
  define t where "t = (if resetted s then s else state_reset s)"
  have t: "wf_state t" using assms wf_state_reset [of s] by (auto simp: t_def started_def wf_state_def)
  then have c: "wf_counters (counter_st t)" by (simp add: wf_state_def wf_arrays_def)
  obtain c' where c': "counter_increment_random rnd (counter_st t) = Inr c'" "wf_counters c'"
    "counter_snapshot_val c' = counter_snapshot_val (counter_st t)" "snapshot_enable c' = snapshot_enable (counter_st t)"
    using counter_increment_random_ok [OF c] by blast
  define d where "d = (if op_in_progress t then c' else counter_st t)"
  have "wf_counters d" using c c' by (simp add: d_def)
  then have w: "wf_state (t\<lparr>counter_st := d\<rparr>)" using t by (simp add: wf_state_def wf_arrays_def wf_memories_def)
  have sn: "counter_snapshot_val (counter_st t) = counter_snapshot_val (counter_st s)"
    by (simp add: t_def state_reset_def)
  have "custom3 M rnd f x y s = (let u = t\<lparr>counter_st := d\<rparr> in
        if f = counter_op_funct then counter_operation x u
        else bindE (exec_funct M f x y u) (\<lambda>s. Inr (0, s\<lparr>op_in_progress := (f \<noteq> flush_funct)\<rparr>)))" for M f x y
  proof -
    have "(if \<not> resetted s then state_reset s else s) = t" by (simp add: t_def)
    then show ?thesis using c'(1) by (simp add: custom3_def d_def Let_def)
  qed
  with w show ?thesis using that [of d] sn c' by (auto simp: t_def d_def)
qed

section \<open>Snapshots in programs\<close>

text \<open>An instruction that neither takes a new snapshot of the counters nor gives the old one up.\<close>

definition keeps_snapshot :: "gemmini_insn \<Rightarrow> bool" where
  "keeps_snapshot i \<longleftrightarrow> (gi_funct i = counter_op_funct \<longrightarrow>
     \<not> snapshot_reset (decode_counter_op (gi_xs1 i)) \<and> \<not> take_snapshot (decode_counter_op (gi_xs1 i)))"

definition shows_snapshot :: "u32 list \<Rightarrow> 'm sim \<Rightarrow> bool" where
  "shows_snapshot sv s \<longleftrightarrow> wf_state s \<and> resetted s \<and> snapshot_enable (counter_st s) \<and> counter_snapshot_val (counter_st s) = sv"

lemma counter_operation_snapshot:
  assumes "\<not> snapshot_reset (decode_counter_op x)" "\<not> take_snapshot (decode_counter_op x)" "counter_operation x s = Inr (v, t)" "shows_snapshot sv s"
  shows "shows_snapshot sv t"
proof -
  have "wf_state t" using assms(3,4) counter_operation_wf by (auto simp: shows_snapshot_def)
  then show ?thesis
    using assms by (auto simp: counter_operation_def counter_change_config_def shows_snapshot_def Let_def bindE_Inr_iff split: if_splits)
qed

lemma custom3_resetted:
  assumes "started s" "resetted s"
  shows "\<exists>c. wf_state (s\<lparr>counter_st := c\<rparr>) \<and> snapshot_enable c = snapshot_enable (counter_st s) \<and>
    counter_snapshot_val c = counter_snapshot_val (counter_st s) \<and>
    (\<forall>M f x y. custom3 M rnd f x y s = (if f = counter_op_funct then counter_operation x (s\<lparr>counter_st := c\<rparr>)
        else bindE (exec_funct M f x y (s\<lparr>counter_st := c\<rparr>)) (\<lambda>s. Inr (0, s\<lparr>op_in_progress := (f \<noteq> flush_funct)\<rparr>))))"
  by (rule custom3_step [OF assms(1), of rnd]) (unfold Let_def if_P [OF assms(2)], blast)

lemma exec_insn_snapshot:
  assumes s: "shows_snapshot sv s" and k: "keeps_snapshot i" and e: "exec_insn M i s = Inr (v, t)"
  shows "shows_snapshot sv t"
proof -
  have "started s" "resetted s" using s by (simp_all add: shows_snapshot_def started_def wf_state_def)
  from custom3_resetted [OF this, of "gi_rnd i"] obtain c where c: "wf_state (s\<lparr>counter_st := c\<rparr>)" "snapshot_enable c = snapshot_enable (counter_st s)"
    "counter_snapshot_val c = counter_snapshot_val (counter_st s)"
    "\<And>M f x y. custom3 M (gi_rnd i) f x y s = (if f = counter_op_funct then counter_operation x (s\<lparr>counter_st := c\<rparr>)
        else bindE (exec_funct M f x y (s\<lparr>counter_st := c\<rparr>)) (\<lambda>s. Inr (0, s\<lparr>op_in_progress := (f \<noteq> flush_funct)\<rparr>)))" by blast
  have u: "shows_snapshot sv (s\<lparr>counter_st := c\<rparr>)" using s c by (simp add: shows_snapshot_def)
  show ?thesis
  proof (cases "gi_funct i = counter_op_funct")
    case True
    then have "counter_operation (gi_xs1 i) (s\<lparr>counter_st := c\<rparr>) = Inr (v, t)" using e c(4) by (simp add: exec_insn_def)
    then show ?thesis by (rule counter_operation_snapshot [rotated 2]) (use k u True in \<open>simp_all add: keeps_snapshot_def\<close>)
  next
    case False
    then obtain w where w: "exec_funct M (gi_funct i) (gi_xs1 i) (gi_xs2 i) (s\<lparr>counter_st := c\<rparr>) = Inr w"
      "t = w\<lparr>op_in_progress := (gi_funct i \<noteq> flush_funct)\<rparr>" using e c(4) by (auto simp: exec_insn_def bindE_Inr_iff)
    have "wf_state w" "same_counters (s\<lparr>counter_st := c\<rparr>) w" using keepsD [OF exec_funct_wf w(1)] c(1) by (simp_all add: keeps_wf_def)
    then show ?thesis using u by (simp add: w(2) shows_snapshot_def same_counters_def wf_state_def wf_arrays_def wf_memories_def)
  qed
qed

lemma run_program_snapshot:
  "shows_snapshot sv s \<Longrightarrow> list_all keeps_snapshot is \<Longrightarrow> run_program M is s = Inr t \<Longrightarrow> shows_snapshot sv t"
proof (induction "is" arbitrary: s)
  case (Cons i "is")
  then show ?case by (auto simp: bindE_Inr_iff dest: exec_insn_snapshot)
qed simp

lemma snapshot_taken:
  assumes "started s" "custom3 M rnd counter_op_funct 4 y s = Inr (v, t)"
  obtains sv where "shows_snapshot sv t" "\<And>i. i < 8 \<Longrightarrow> counter_live (counter_st t) i = Inr (sv ! i)"
proof -
  obtain c where c: "wf_state ((if resetted s then s else state_reset s)\<lparr>counter_st := c\<rparr>)"
    "custom3 M rnd counter_op_funct 4 y s = counter_operation 4 ((if resetted s then s else state_reset s)\<lparr>counter_st := c\<rparr>)"
    by (rule custom3_step [OF assms(1), of rnd]) (simp add: Let_def)
  define u where "u = (if resetted s then s else state_reset s)\<lparr>counter_st := c\<rparr>"
  have u: "wf_counters (counter_st u)" "resetted u" "counter_operation 4 u = Inr (v, t)"
    using c assms(2) by (auto simp: u_def wf_state_def wf_arrays_def state_reset_def)
  have d: "decode_counter_op 4 = \<lparr>counter_reset = False, snapshot_reset = False, take_snapshot = True, change_config = False,
    counter_index = 0, counter_addr = 0, external_counter = False\<rparr>"
    by (simp add: decode_counter_op_def flag_def fld_def)
  obtain c1 where c1: "counter_take_snapshot (counter_st u) = Inr c1" "t = u\<lparr>counter_st := c1\<rparr>"
    using u(3) by (auto simp: counter_operation_def d bindE_Inr_iff Let_def)
  obtain sv where sv: "c1 = (counter_st u)\<lparr>snapshot_enable := True, counter_snapshot_val := sv\<rparr>"
    "\<forall>i < NUM_COUNTERS. counter_live (counter_st u) i = Inr (sv ! i)"
    using counter_take_snapshot_spec [OF u(1) c1(1)] by blast
  have "wf_state t" using counter_operation_wf [OF u(3)] c(1) by (simp add: u_def)
  then have "shows_snapshot sv t" using u(2) by (simp add: shows_snapshot_def c1(2) sv(1))
  moreover have "counter_live (counter_st t) i = Inr (sv ! i)" if "i < 8" for i
    using sv(2) that by (simp add: c1(2) sv(1) counter_live_def count_defs cong: if_cong)
  ultimately show ?thesis using that by blast
qed

lemma snapshot_read:
  assumes "shows_snapshot sv s" "i < 8"
  shows "\<exists>t. custom3 M rnd counter_op_funct (push_bit 4 (of_nat i)) y s = Inr (ucast (sv ! i), t)"
proof -
  have "started s" "resetted s" using assms(1) by (simp_all add: shows_snapshot_def started_def wf_state_def)
  from custom3_resetted [OF this, of rnd] obtain c where c: "wf_state (s\<lparr>counter_st := c\<rparr>)" "snapshot_enable c = snapshot_enable (counter_st s)"
    "counter_snapshot_val c = counter_snapshot_val (counter_st s)"
    "\<And>x. custom3 M rnd counter_op_funct x y s = counter_operation x (s\<lparr>counter_st := c\<rparr>)" by (metis (no_types, lifting))
  have "wf_counters c" using c(1) by (simp add: wf_state_def wf_arrays_def)
  then show ?thesis using c assms snapshot_reads [of "s\<lparr>counter_st := c\<rparr>" i] by (simp add: shows_snapshot_def)
qed

text \<open>An instruction that gives the snapshot up, and the reading of a counter after it.\<close>

lemma snapshot_given_up:
  assumes "started s" "resetted s" "custom3 M rnd counter_op_funct 2 y s = Inr (v, t)"
  shows "started t \<and> resetted t \<and> \<not> snapshot_enable (counter_st t)"
proof -
  from custom3_resetted [OF assms(1,2), of rnd] obtain c where c: "wf_state (s\<lparr>counter_st := c\<rparr>)"
    "\<And>x. custom3 M rnd counter_op_funct x y s = counter_operation x (s\<lparr>counter_st := c\<rparr>)" by (metis (no_types, lifting))
  have d: "decode_counter_op 2 = \<lparr>counter_reset = False, snapshot_reset = True, take_snapshot = False, change_config = False,
    counter_index = 0, counter_addr = 0, external_counter = False\<rparr>"
    by (simp add: decode_counter_op_def flag_def fld_def)
  have e: "counter_operation 2 (s\<lparr>counter_st := c\<rparr>) = Inr (v, t)" using c(2) assms(3) by simp
  have "wf_state t" using counter_operation_wf [OF e] c(1) .
  moreover have "t = s\<lparr>counter_st := c\<lparr>snapshot_enable := False\<rparr>\<rparr>" using e by (auto simp: counter_operation_def d bindE_Inr_iff Let_def)
  ultimately show ?thesis using assms(2) by (auto simp: started_def wf_state_def)
qed

lemma live_read:
  assumes "started s" "resetted s" "\<not> snapshot_enable (counter_st s)" "i < 8" "custom3 M rnd counter_op_funct (push_bit 4 (of_nat i)) y s = Inr (v, t)"
  shows "\<exists>x. counter_live (counter_st t) i = Inr x \<and> v = ucast x"
proof -
  from custom3_resetted [OF assms(1,2), of rnd] obtain c where c: "snapshot_enable c = snapshot_enable (counter_st s)"
    "\<And>x. custom3 M rnd counter_op_funct x y s = counter_operation x (s\<lparr>counter_st := c\<rparr>)" by (metis (no_types, lifting))
  have "counter_operation (push_bit 4 (of_nat i)) (s\<lparr>counter_st := c\<rparr>) = Inr (v, t)" using c(2) assms(5) by simp
  then show ?thesis using c(1) assms(3,4) by (auto simp: counter_operation_def counter_op_index bindE_Inr_iff)
qed

end
