(* ===== verification/Gemmini_Example.thy ===== *)
theory Gemmini_Example
  imports Gemmini_Dispatch
begin

text \<open>
  A concrete accelerator, as it is after the reset and a plain configuration: weight-stationary,
  identity scales, rows of 16 bytes, no pooling. The witnesses of the development run on it, with
  a memory whose byte at address \<open>a\<close> is \<open>a\<close>.
\<close>

definition blank :: "'m \<Rightarrow> 'm sim" where
  "blank m = \<lparr>
     output_sp_addr = 0, preload_sp_addr = 0, preload_cols = 0, preload_rows = 0, output_cols = 0, output_rows = 0,
     mode = WS, sys_act = NONE, acc_act = NONE, sys_shift = 0, igelu_qb = 0, igelu_qc = 0, qln2 = 0, qln2_inv = 0,
     load_strides = [16, 16, 64], store_stride = 16, load_block_strides = [16, 16, 16],
     load_shrunks = [False, False, False],
     load_scales = [MVIN_SCALE_IDENTITY, MVIN_SCALE_IDENTITY, MVIN_SCALE_IDENTITY], pixels_per_rows = [1, 1, 1],
     acc_shift = ACC_SCALE_IDENTITY, sys_acc_shift = ACC_SCALE_IDENTITY, c_stride = 1, a_stride = 1,
     pool_stride = 0, pool_size = 0, pool_out_dim = 0, pool_porows = 0, pool_pocols = 0, pool_orows = 0,
     pool_ocols = 0, pool_lpad = 0, pool_upad = 0, a_transpose = False, b_transpose = False,
     loop_ws_st = \<lparr>loop_ws_I = 1, loop_ws_J = 1, loop_ws_K = 1, loop_ws_pad_I = 0, loop_ws_pad_J = 0,
       loop_ws_pad_K = 0, loop_ws_A = 0, loop_ws_B = 0, loop_ws_D = 0, loop_ws_C = 0, loop_ws_A_stride = 0,
       loop_ws_B_stride = 0, loop_ws_D_stride = 0, loop_ws_C_stride = 0\<rparr>,
     loop_conv_st = \<lparr>lc_batch_size = 0, lc_in_row_dim = 0, lc_in_col_dim = 0, lc_in_channels = 0,
       lc_out_channels = 0, lc_in_stride = 0, lc_weight_stride = 0, lc_out_stride = 0, lc_out_row_dim = 0,
       lc_pool_out_row_dim = 0, lc_out_col_dim = 0, lc_pool_out_col_dim = 0, lc_stride = 0, lc_padding = 0,
       lc_kernel_dim = 0, lc_pool_size = 0, lc_pool_stride = 0, lc_pool_padding = 0, lc_batches = 0, lc_porows = 0,
       lc_pocols = 0, lc_pochs = 0, lc_krows = 0, lc_kcols = 0, lc_kchs = 0, lc_lpad = 0, lc_rpad = 0, lc_upad = 0,
       lc_dpad = 0, lc_plpad = 0, lc_prad = 0, lc_pupad = 0, lc_pdpad = 0, lc_orows = 0, lc_ocols = 0,
       lc_kernel_dilation = 0, lc_input = 0, lc_weights = 0, lc_output = 0, lc_bias = 0, lc_D_sp_addr_row = 0,
       lc_C_sp_addr_row = 0\<rparr>,
     norm_st = \<lparr>norm_stat_id = 0, norm_sum = [0, 0, 0, 0], norm_running_max = [0, 0, 0, 0], norm_max = [0, 0, 0, 0],
       norm_count = [0, 0, 0, 0], norm_mean = [0, 0, 0, 0], norm_inv_stddev = [0, 0, 0, 0],
       norm_inv_sum_exp = [0, 0, 0, 0], norm_reset = [False, False, False, False]\<rparr>,
     counter_st = \<lparr>counter_val = [0, 0, 0, 0, 0, 0, 0, 0], counter_snapshot_val = [0, 0, 0, 0, 0, 0, 0, 0],
       counter_config = [0, 0, 0, 0, 0, 0, 0, 0], counter_external = [0, 0, 0, 0, 0, 0],
       counter_external_flag = [False, False, False, False, False, False, False, False], snapshot_enable = False\<rparr>,
     op_in_progress = False, enable = False, resetted = False, spad = [], pe_state = [], accumulator = [],
     cisc_st = \<lparr>cisc_a_addr = 0, cisc_b_addr = 0, cisc_c_addr = 0, cisc_d_addr = 0, cisc_m = 0, cisc_n = 0,
       cisc_k = 0, cisc_repeating_bias = False\<rparr>,
     mem = m\<rparr>"

definition ready :: "'m \<Rightarrow> 'm sim" where
  "ready m = state_reset (blank m)"

definition ramp :: "u64 \<Rightarrow> u8" where
  "ramp a = ucast a"

lemma blank_wf_arrays: "wf_arrays (blank m)"
  by (simp add: wf_arrays_def wf_norm_def wf_counters_def blank_def count_defs)

lemma ready_wf: "wf_state (ready m)"
  unfolding ready_def by (rule wf_state_reset) (rule blank_wf_arrays)

lemma blank_started: "started (blank m)"
  using blank_wf_arrays [of m] by (simp add: started_def blank_def)

lemma ready_started: "started (ready m)"
  using ready_wf [of m] by (simp add: started_def wf_state_def)

lemma ready_fields [simp]:
  "mode (ready m) = WS" "a_transpose (ready m) = False" "b_transpose (ready m) = False" "a_stride (ready m) = 1"
  "c_stride (ready m) = 1" "load_strides (ready m) = [16, 16, 64]" "load_block_strides (ready m) = [16, 16, 16]"
  "load_shrunks (ready m) = [False, False, False]"
  "load_scales (ready m) = [MVIN_SCALE_IDENTITY, MVIN_SCALE_IDENTITY, MVIN_SCALE_IDENTITY]"
  "pixels_per_rows (ready m) = [1, 1, 1]" "store_stride (ready m) = 16" "pool_stride (ready m) = 0"
  "acc_shift (ready m) = ACC_SCALE_IDENTITY" "acc_act (ready m) = NONE" "sys_act (ready m) = NONE"
  "sys_shift (ready m) = 0" "norm_stat_id (norm_st (ready m)) = 0" "mem (ready m) = m"
  "resetted (ready m) = True" "op_in_progress (ready m) = False"
  by (simp_all add: ready_def state_reset_def blank_def)

lemma ready_memories:
  "r < 16384 \<Longrightarrow> c < 16 \<Longrightarrow> spad (ready m) ! r ! c = 0"
  "r < 1024 \<Longrightarrow> c < 16 \<Longrightarrow> accumulator (ready m) ! r ! c = 0"
  "i < 16 \<Longrightarrow> j < 16 \<Longrightarrow> pe_state (ready m) ! i ! j = 0"
  by (simp_all add: ready_def state_reset_def count_defs size_defs sp_matrices_def accum_rows_def)

end
