(* ===== verification/Gemmini_Move_Correct.thy ===== *)
theory Gemmini_Move_Correct
  imports Gemmini_Move
begin

text \<open>
  What the moves do: the fields of a packed operand are found again, \<open>mvin\<close> puts every element
  of a block into its cell and touches no other cell, \<open>mvout\<close> stores every element at its
  address and touches no other address, and a block moved in and out again is a copy.
\<close>

section \<open>Fields of packed operands\<close>

lemma mask_consts:
  "(1 :: u64) = mask 1" "(7 :: u64) = mask 3" "(0xFFFF :: u64) = mask 16" "(0x1FFFFFFF :: u64) = mask 29"
  "(0x3FFFFFF :: u64) = mask 26" "(0xFFFFFFFF :: u64) = mask 32"
  by (simp_all add: mask_eq_exp_minus_1)

lemma bit_fld: "bit (fld sh (mask w) x) n \<longleftrightarrow> n < w \<and> bit x (sh + n)"
  by (auto simp: fld_def bit_and_iff bit_mask_iff bit_drop_bit_eq dest: bit_imp_le_length)

lemma flag_bit: "flag sh x \<longleftrightarrow> bit x sh"
proof -
  have "fld sh 1 x \<noteq> 0 \<longleftrightarrow> bit (fld sh (mask 1) x) 0"
    by (simp add: fld_def bit_0 one_and_eq odd_iff_mod_2_eq_one and_one_eq)
  then show ?thesis by (simp only: flag_def bit_fld) simp
qed

lemma bit_block_operand:
  "bit (block_operand rows cols a) n \<longleftrightarrow>
     (48 \<le> n \<and> n < 64 \<and> bit rows (n - 48)) \<or> (32 \<le> n \<and> n < 64 \<and> bit cols (n - 32)) \<or> (n < 32 \<and> bit a n)"
  by (auto simp: block_operand_def bit_or_iff bit_push_bit_iff bit_ucast_iff dest: bit_imp_le_length)

lemma word_less_bit: "(x :: 'a::len word) < 2 ^ k \<Longrightarrow> bit x n \<Longrightarrow> n < k"
proof (cases "k < LENGTH('a)")
  case True
  assume "x < 2 ^ k" "bit x n"
  then have "uint x < 2 ^ k" using uint_2p [of k, where 'a = 'a] by (metis le_less_trans word_less_def word_zero_le)
  then have "take_bit k (uint x) = uint x" by (simp add: take_bit_int_eq_self)
  moreover have "bit (uint x) n" using \<open>bit x n\<close> bit_imp_le_length by (simp add: bit_uint_iff)
  ultimately show ?thesis by (metis bit_take_bit_iff)
qed (auto dest: bit_imp_le_length)

lemma block_operand_fields:
  assumes "rows < 0x10000" "cols < 0x10000"
  shows "fld ADDR_LEN 0xFFFF (block_operand rows cols a) = cols"
    and "fld (ADDR_LEN + 16) 0xFFFF (block_operand rows cols a) = rows"
    and "n < 32 \<Longrightarrow> flag n (block_operand rows cols a) = bit a n"
    and "block_operand rows cols a AND 0x1FFFFFFF = ucast (a AND 0x1FFFFFFF)"
    and "block_operand rows cols a AND 0x3FFFFFF = ucast (a AND 0x3FFFFFF)"
    and "block_operand rows cols a AND 0xFFFFFFFF = ucast a"
    and "fld 26 7 (block_operand rows cols a) = ucast (drop_bit 26 a AND 7)"
proof -
  have r: "n < 16" if "bit rows n" for n using word_less_bit [of rows 16 n] assms(1) that by simp
  have c: "n < 16" if "bit cols n" for n using word_less_bit [of cols 16 n] assms(2) that by simp
  have m: "(0x1FFFFFFF :: u32) = mask 29" "(0x3FFFFFF :: u32) = mask 26" "(7 :: u32) = mask 3"
    by (simp_all add: mask_eq_exp_minus_1)
  note bits = bit_fld bit_block_operand bit_and_iff bit_mask_iff bit_ucast_iff bit_drop_bit_eq
  show "fld ADDR_LEN 0xFFFF (block_operand rows cols a) = cols"
    unfolding mask_consts ADDR_LEN_def by (rule bit_word_eqI) (use r c in \<open>fastforce simp: bits\<close>)
  show "fld (ADDR_LEN + 16) 0xFFFF (block_operand rows cols a) = rows"
    unfolding mask_consts ADDR_LEN_def by (rule bit_word_eqI) (use r c in \<open>force simp: bits\<close>)
  show "n < 32 \<Longrightarrow> flag n (block_operand rows cols a) = bit a n"
    by (simp add: flag_bit bit_block_operand)
  show "block_operand rows cols a AND 0x1FFFFFFF = ucast (a AND 0x1FFFFFFF)"
    unfolding mask_consts m by (rule bit_word_eqI) (auto simp: bits simp del: mask_numeral)
  show "block_operand rows cols a AND 0x3FFFFFF = ucast (a AND 0x3FFFFFF)"
    unfolding mask_consts m by (rule bit_word_eqI) (auto simp: bits simp del: mask_numeral)
  show "block_operand rows cols a AND 0xFFFFFFFF = ucast a"
    unfolding mask_consts m by (rule bit_word_eqI) (auto simp: bits simp del: mask_numeral dest: bit_imp_le_length)
  show "fld 26 7 (block_operand rows cols a) = ucast (drop_bit 26 a AND 7)"
    unfolding mask_consts m by (rule bit_word_eqI) (auto simp: bits simp del: mask_numeral)
qed

section \<open>What mvin does\<close>

text \<open>The row and column of the local memory an element of a block goes to.\<close>

definition mvin_cell :: "nat \<Rightarrow> nat \<Rightarrow> nat \<times> nat \<Rightarrow> nat \<times> nat" where
  "mvin_cell base bstride rc = (base + fst rc + (snd rc div 16) * bstride, snd rc mod 16)"

lemma mvin_cell_inj:
  assumes "cols \<le> 16 \<or> rows \<le> bstride"
  shows "inj_on (mvin_cell base bstride) ({..<rows} \<times> {..<cols})"
proof (rule inj_onI)
  fix p q assume p: "p \<in> {..<rows} \<times> {..<cols}" and q: "q \<in> {..<rows} \<times> {..<cols}"
    and eq: "mvin_cell base bstride p = mvin_cell base bstride q"
  obtain r c where P: "p = (r, c)" by (cases p)
  obtain r' c' where Q: "q = (r', c')" by (cases q)
  have m: "c mod 16 = c' mod 16" and e: "r + (c div 16) * bstride = r' + (c' div 16) * bstride"
    using eq by (simp_all add: P Q mvin_cell_def)
  have d: "c div 16 = c' div 16"
  proof (cases "cols \<le> 16")
    case True
    then show ?thesis using p q by (simp add: P Q)
  next
    case False
    then have "r < bstride" "r' < bstride" using assms p q by (auto simp: P Q)
    then have "(r + (c div 16) * bstride) div bstride = c div 16"
      "(r' + (c' div 16) * bstride) div bstride = c' div 16" by simp_all
    with e show ?thesis by simp
  qed
  then have "c = c'" using m by (metis div_mult_mod_eq)
  with e show "p = q" by (simp add: P Q)
qed

lemma block_pairs_distinct:
  assumes "inj_on key ({..<rows} \<times> {..<cols})"
  shows "distinct (map key (pairs [0..<rows] (\<lambda>_. [0..<cols])))"
proof -
  have "set (pairs [0..<rows] (\<lambda>_. [0..<cols])) = {..<rows} \<times> {..<cols}"
    by (auto simp: set_pairs)
  then show ?thesis using assms by (simp add: distinct_map distinct_pairs)
qed

lemma unat_ucast_u32 [simp]: "unat (ucast (x :: u32) :: u64) = unat x"
proof -
  have "unat x < 2 ^ 64" using unsigned_less [of x, where 'a = nat] by simp
  then show ?thesis by (simp add: unsigned_ucast_eq take_bit_nat_eq_self)
qed

lemma mvin_flat:
  fixes s :: "'m sim"
  assumes wf: "wf_state s" "state_id < 3" and ppr: "pixels_per_rows s ! state_id = 1"
    and shape: "rows < 0x10000" "cols < 0x10000"
  shows "mvin M dram_addr (block_operand (of_nat rows) (of_nat cols) a) state_id s =
    foldE (\<lambda>(row, col) t.
      mvin_elem M (bit a 31) (bit a 30) (dram_addr = 0) (load_shrunks s ! state_id) (load_scales s ! state_id)
        (dram_addr + of_nat row * (load_strides s ! state_id)) col
        (fst (mvin_cell (unat (a AND 0x1FFFFFFF)) (unat (load_block_strides s ! state_id)) (row, col)))
        (snd (mvin_cell (unat (a AND 0x1FFFFFFF)) (unat (load_block_strides s ! state_id)) (row, col))) t)
      (pairs [0..<rows] (\<lambda>_. [0..<cols])) s"
proof -
  have r: "of_nat rows < (0x10000 :: u64)" "of_nat cols < (0x10000 :: u64)"
    using shape by (simp_all add: word_less_nat_alt unat_of_nat take_bit_nat_eq_self)
  have u: "unat (of_nat rows :: u64) = rows" "unat (of_nat cols :: u64) = cols"
    using shape by (simp_all add: unat_of_nat take_bit_nat_eq_self)
  have ar: "arr (load_strides s) state_id = Inr (load_strides s ! state_id)"
    "arr (load_block_strides s) state_id = Inr (load_block_strides s ! state_id)"
    "arr (load_shrunks s) state_id = Inr (load_shrunks s ! state_id)"
    "arr (load_scales s) state_id = Inr (load_scales s ! state_id)"
    "arr (pixels_per_rows s) state_id = Inr 1"
    using wf ppr by (simp_all add: arr_def wf_state_def wf_arrays_def LOAD_STATES_def)
  have one: "min (unat (1 :: u8)) (Suc n) = Suc 0" for n by simp
  show ?thesis
    unfolding mvin_def Let_def ar bindE.simps block_operand_fields [OF r] u unat_ucast_u32 one
    by (simp add: block_operand_fields [OF r] forE_def mvin_cell_def DIM_def foldE_nested)
qed


lemma mvin_spad_block:
  fixes s :: "'m sim"
  assumes wf: "wf_state s" "state_id < 3" and ppr: "pixels_per_rows s ! state_id = 1"
    and shape: "rows < 0x10000" "cols < 0x10000" "\<not> bit a 31"
    and inj: "cols \<le> 16 \<or> rows \<le> unat (load_block_strides s ! state_id)"
  defines "cell \<equiv> mvin_cell (unat (a AND 0x1FFFFFFF)) (unat (load_block_strides s ! state_id))"
  assumes fit: "\<And>row col. row < rows \<Longrightarrow> col < cols \<Longrightarrow> fst (cell (row, col)) < 16384"
    and val: "\<And>row col. row < rows \<Longrightarrow> col < cols \<Longrightarrow>
      mvin_spad_value M (mem s) (dram_addr = 0) (load_scales s ! state_id)
        (dram_addr + of_nat row * (load_strides s ! state_id) + of_nat col) = Inr (V row col)"
  shows "succeeds (mvin M dram_addr (block_operand (of_nat rows) (of_nat cols) a) state_id s)
    (\<lambda>t. wf_state t \<and> (\<exists>m. t = s\<lparr>spad := m\<rparr>) \<and>
      (\<forall>row < rows. \<forall>col < cols. mat_at (spad t) (fst (cell (row, col))) (snd (cell (row, col))) = Inr (V row col)) \<and>
      (\<forall>k. k \<notin> cell ` ({..<rows} \<times> {..<cols}) \<longrightarrow> mat_at (spad t) (fst k) (snd k) = mat_at (spad s) (fst k) (snd k)))"
proof -
  let ?xs = "pairs [0..<rows] (\<lambda>_. [0..<cols])"
  have set: "set ?xs = {..<rows} \<times> {..<cols}" by (auto simp: set_pairs)
  let ?J = "\<lambda>t. wf_state t \<and> (\<exists>m. t = s\<lparr>spad := m\<rparr>)"
  have valid: "in_mat (spad s) (cell x)" if "x \<in> set ?xs" for x
    using that fit unfolding set
    by (cases x) (auto simp: wf_state_in_mat [OF wf(1)] cell_def mvin_cell_def)
  have J0: "?J s" using wf(1) by (auto intro: exI [of _ "spad s"])
  have J: "?J u" if "?J t" "set_spad t k v = Inr u" for t k v u
    using that set_wf(1) set_frame(1) by blast
  have "succeeds (mvin M dram_addr (block_operand (of_nat rows) (of_nat cols) a) state_id s)
    (\<lambda>t. ?J t \<and> (\<forall>k. in_mat (spad t) k = in_mat (spad s) k) \<and>
      (\<forall>x \<in> set ?xs. \<forall>v. mat_at (spad s) (fst (cell x)) (snd (cell x)) = Inr v \<longrightarrow>
        mat_at (spad t) (fst (cell x)) (snd (cell x)) = Inr (V (fst x) (snd x))) \<and>
      (\<forall>k. k \<notin> cell ` set ?xs \<longrightarrow> mat_at (spad t) (fst k) (snd k) = mat_at (spad s) (fst k) (snd k)))"
    unfolding mvin_flat [OF wf ppr shape(1,2)]
  proof (rule sp.sweep [where J = ?J and key = cell])
    show "distinct (map cell ?xs)"
      unfolding cell_def by (rule block_pairs_distinct) (rule mvin_cell_inj [OF inj])
  next
    fix x t v assume "x \<in> set ?xs" "?J t"
    moreover obtain row col where x: "x = (row, col)" by (cases x)
    ultimately have "row < rows" "col < cols" "mem t = mem s" by (auto simp: set)
    then show "(case x of (row, col) \<Rightarrow> \<lambda>t.
        mvin_elem M (bit a 31) (bit a 30) (dram_addr = 0) (load_shrunks s ! state_id) (load_scales s ! state_id)
        (dram_addr + of_nat row * (load_strides s ! state_id)) col
        (fst (mvin_cell (unat (a AND 0x1FFFFFFF)) (unat (load_block_strides s ! state_id)) (row, col)))
        (snd (mvin_cell (unat (a AND 0x1FFFFFFF)) (unat (load_block_strides s ! state_id)) (row, col))) t) t =
      set_spad t (cell x) (V (fst x) (snd x))"
      using shape(3) val by (simp add: x mvin_elem_def set_spad_def cell_def)
  next
    show "\<And>x. x \<in> set ?xs \<Longrightarrow> in_mat (spad s) (cell x)" by (rule valid)
    show "?J s" by (rule J0)
    show "\<And>t k v u. ?J t \<Longrightarrow> set_spad t k v = Inr u \<Longrightarrow> ?J u" by (rule J)
  qed
  then show ?thesis
    by (rule succeeds_mono) (use valid in \<open>auto simp: set mat_at_ok\<close>)
qed


lemma mvin_acc_block:
  fixes s :: "'m sim"
  assumes wf: "wf_state s" "state_id < 3" and ppr: "pixels_per_rows s ! state_id = 1"
    and shape: "rows < 0x10000" "cols < 0x10000" "bit a 31"
    and inj: "cols \<le> 16 \<or> rows \<le> unat (load_block_strides s ! state_id)"
  defines "cell \<equiv> mvin_cell (unat (a AND 0x1FFFFFFF)) (unat (load_block_strides s ! state_id))"
  assumes fit: "\<And>row col. row < rows \<Longrightarrow> col < cols \<Longrightarrow> fst (cell (row, col)) < 1024"
    and val: "\<And>row col. row < rows \<Longrightarrow> col < cols \<Longrightarrow>
      mvin_acc_value M (mem s) (dram_addr = 0) (load_shrunks s ! state_id) (load_scales s ! state_id)
        (dram_addr + of_nat row * (load_strides s ! state_id)
          + of_nat col * (if load_shrunks s ! state_id then 1 else 4)) = Inr (V row col)"
  shows "succeeds (mvin M dram_addr (block_operand (of_nat rows) (of_nat cols) a) state_id s)
    (\<lambda>t. wf_state t \<and> (\<exists>m. t = s\<lparr>accumulator := m\<rparr>) \<and>
      (\<forall>row < rows. \<forall>col < cols. let r = fst (cell (row, col)); c = snd (cell (row, col)) in
        mat_at (accumulator t) r c = Inr ((if bit a 30 then accumulator s ! r ! c else 0) + V row col)) \<and>
      (\<forall>k. k \<notin> cell ` ({..<rows} \<times> {..<cols}) \<longrightarrow>
        mat_at (accumulator t) (fst k) (snd k) = mat_at (accumulator s) (fst k) (snd k)))"
proof -
  let ?xs = "pairs [0..<rows] (\<lambda>_. [0..<cols])"
  have set: "set ?xs = {..<rows} \<times> {..<cols}" by (auto simp: set_pairs)
  let ?J = "\<lambda>t. wf_state t \<and> (\<exists>m. t = s\<lparr>accumulator := m\<rparr>)"
  have valid: "in_mat (accumulator s) (cell x)" if "x \<in> set ?xs" for x
    using that fit unfolding set
    by (cases x) (auto simp: wf_state_in_mat [OF wf(1)] cell_def mvin_cell_def)
  have J: "?J u" if "?J t" "set_accumulator t k v = Inr u" for t k v u
    using that set_wf(2) set_frame(2) by blast
  have "succeeds (mvin M dram_addr (block_operand (of_nat rows) (of_nat cols) a) state_id s)
    (\<lambda>t. ?J t \<and> (\<forall>k. in_mat (accumulator t) k = in_mat (accumulator s) k) \<and>
      (\<forall>x \<in> set ?xs. \<forall>v. mat_at (accumulator s) (fst (cell x)) (snd (cell x)) = Inr v \<longrightarrow>
        mat_at (accumulator t) (fst (cell x)) (snd (cell x)) = Inr ((if bit a 30 then v else 0) + V (fst x) (snd x))) \<and>
      (\<forall>k. k \<notin> cell ` set ?xs \<longrightarrow> mat_at (accumulator t) (fst k) (snd k) = mat_at (accumulator s) (fst k) (snd k)))"
    unfolding mvin_flat [OF wf ppr shape(1,2)]
  proof (rule ac.sweep [where J = ?J and key = cell])
    show "distinct (map cell ?xs)"
      unfolding cell_def by (rule block_pairs_distinct) (rule mvin_cell_inj [OF inj])
    show "\<And>x. x \<in> set ?xs \<Longrightarrow> in_mat (accumulator s) (cell x)" by (rule valid)
    show "?J s" using wf(1) by (auto intro: exI [of _ "accumulator s"])
    show "\<And>t k v u. ?J t \<Longrightarrow> set_accumulator t k v = Inr u \<Longrightarrow> ?J u" by (rule J)
  next
    fix x t v assume "x \<in> set ?xs" "?J t" "mat_at (accumulator t) (fst (cell x)) (snd (cell x)) = Inr v"
    moreover obtain row col where x: "x = (row, col)" by (cases x)
    ultimately have "row < rows" "col < cols" "mem t = mem s"
      "mat_at (accumulator t) (fst (cell x)) (snd (cell x)) = Inr v" by (auto simp: set)
    then show "(case x of (row, col) \<Rightarrow> \<lambda>t.
        mvin_elem M (bit a 31) (bit a 30) (dram_addr = 0) (load_shrunks s ! state_id) (load_scales s ! state_id)
        (dram_addr + of_nat row * (load_strides s ! state_id)) col
        (fst (mvin_cell (unat (a AND 0x1FFFFFFF)) (unat (load_block_strides s ! state_id)) (row, col)))
        (snd (mvin_cell (unat (a AND 0x1FFFFFFF)) (unat (load_block_strides s ! state_id)) (row, col))) t) t =
      set_accumulator t (cell x) ((if bit a 30 then v else 0) + V (fst x) (snd x))"
      using shape(3) val by (auto simp: x mvin_elem_def set_accumulator_def cell_def)
  qed
  then show ?thesis
    by (rule succeeds_mono) (use valid in \<open>auto simp: set mat_at_ok\<close>)
qed

section \<open>What mvout does\<close>

definition set_mem :: "'m mmu \<Rightarrow> 'm sim \<Rightarrow> u64 \<Rightarrow> u8 \<Rightarrow> 'm sim res" where
  "set_mem M s a v = bindE (store_byte M (mem s) a v) (\<lambda>m. Inr (s\<lparr>mem := m\<rparr>))"

lemma sim_cell_store:
  assumes "mmu_ok M"
  shows "cell_store (\<lambda>s. load_byte M (mem s)) (set_mem M) (\<lambda>s. writable M (mem s))"
proof -
  note m = mmu_cell_store [OF assms]
  show ?thesis
  proof unfold_locales
    fix s :: "'a sim" and a v
    assume "writable M (mem s) a"
    then show "\<exists>t. set_mem M s a v = Inr t" "\<exists>v. load_byte M (mem s) a = Inr v"
      using cell_store.put_total [OF m] cell_store.get_valid [OF m] by (auto simp: set_mem_def bindE_Inr_iff)
  next
    fix s t :: "'a sim" and a v b
    assume "set_mem M s a v = Inr t"
    then obtain m' where "store_byte M (mem s) a v = Inr m'" "t = s\<lparr>mem := m'\<rparr>"
      by (auto simp: set_mem_def bindE_Inr_iff)
    then show "load_byte M (mem t) b = (if b = a then Inr v else load_byte M (mem s) b)"
      "writable M (mem t) b = writable M (mem s) b"
      using cell_store.get_put [OF m] cell_store.valid_put [OF m] by auto
  qed
qed

lemma byte_of_elem [simp]: "byte_of (v :: elem_t) 0 = v"
  by (rule bit_word_eqI) (auto simp: byte_of_bit)

lemma write_elem: "write_to_dram M a (v :: elem_t) m = store_byte M m a v"
proof -
  have "bytes_of TYPE(8) = Suc 0" by (simp add: bytes_of_def)
  then have "write_to_dram M a v m = store_byte M m a (byte_of v 0)"
    by (simp add: write_to_dram_def forE_def byte_of_def)
  then show ?thesis by simp
qed

text \<open>The part of the statistics that the way out of the accumulator depends on.\<close>

definition same_stats :: "norm_stats \<Rightarrow> norm_stats \<Rightarrow> bool" where
  "same_stats n n' \<longleftrightarrow> norm_stat_id n' = norm_stat_id n \<and> norm_mean n' = norm_mean n \<and>
     norm_inv_stddev n' = norm_inv_stddev n \<and> norm_max n' = norm_max n \<and>
     norm_inv_sum_exp n' = norm_inv_sum_exp n \<and> wf_norm n'"

lemma same_stats_refl: "wf_norm n \<Longrightarrow> same_stats n n"
  by (simp add: same_stats_def)

lemma get_slot_ok: "wf_norm n \<Longrightarrow> i < 4 \<Longrightarrow> \<exists>c. get_slot n i = Inr c \<and>
   sl_mean c = norm_mean n ! i \<and> sl_inv_stddev c = norm_inv_stddev n ! i \<and> sl_max c = norm_max n ! i \<and>
   sl_inv_sum_exp c = norm_inv_sum_exp n ! i"
  by (simp add: get_slot_def arr_def wf_norm_def count_defs)

lemma apply_norm_reset:
  assumes "wf_norm (norm_st s)" "unat (norm_stat_id (norm_st s)) < 4"
  shows "\<exists>n. apply_norm x len RESET s = Inr (True, s\<lparr>norm_st := n\<rparr>) \<and> same_stats (norm_st s) n"
proof -
  obtain c where c: "get_slot (norm_st s) (unat (norm_stat_id (norm_st s))) = Inr c"
    "sl_mean c = norm_mean (norm_st s) ! unat (norm_stat_id (norm_st s))"
    "sl_inv_stddev c = norm_inv_stddev (norm_st s) ! unat (norm_stat_id (norm_st s))"
    "sl_max c = norm_max (norm_st s) ! unat (norm_stat_id (norm_st s))"
    "sl_inv_sum_exp c = norm_inv_sum_exp (norm_st s) ! unat (norm_stat_id (norm_st s))"
    using get_slot_ok [OF assms] by auto
  let ?d = "norm_start RESET c"
  have keep: "sl_mean ?d = sl_mean c" "sl_inv_stddev ?d = sl_inv_stddev c" "sl_max ?d = sl_max c"
    "sl_inv_sum_exp ?d = sl_inv_sum_exp c" by (simp_all add: norm_start_def Let_def)
  have "apply_norm x len RESET s = Inr (True, s\<lparr>norm_st := put_slot (norm_st s) (unat (norm_stat_id (norm_st s))) ?d\<rparr>)"
    by (simp add: apply_norm_def c(1) norm_accumulate_def norm_finish_def)
  moreover have "same_stats (norm_st s) (put_slot (norm_st s) (unat (norm_stat_id (norm_st s))) ?d)"
    using assms(1) keep by (simp add: same_stats_def c put_slot_def wf_norm_def)
  ultimately show ?thesis by blast
qed

definition stored :: "'m sim \<Rightarrow> 'm sim \<Rightarrow> bool" where
  "stored s t \<longleftrightarrow> (\<exists>n m. t = s\<lparr>norm_st := n, mem := m\<rparr> \<and> same_stats (norm_st s) n)"

lemma stored_refl: "wf_norm (norm_st s) \<Longrightarrow> stored s s"
  unfolding stored_def by (rule exI [of _ "norm_st s"], rule exI [of _ "mem s"]) (simp add: same_stats_refl)

lemma stored_mem: "stored s t \<Longrightarrow> set_mem M t a v = Inr u \<Longrightarrow> stored s u"
  unfolding stored_def set_mem_def bindE_Inr_iff by (elim exE conjE) (simp, blast)

lemma stored_norm:
  assumes "stored s t" "same_stats (norm_st s) n"
  shows "stored s (t\<lparr>norm_st := n\<rparr>)"
proof -
  obtain n' m where "t = s\<lparr>norm_st := n', mem := m\<rparr>" using assms(1) by (auto simp: stored_def)
  then have "t\<lparr>norm_st := n\<rparr> = s\<lparr>norm_st := n, mem := m\<rparr>" by simp
  then show ?thesis unfolding stored_def using assms(2) by blast
qed

lemma stored_fields:
  assumes "stored s t"
  shows "accumulator t = accumulator s" "spad t = spad s" "store_stride t = store_stride s"
    "acc_act t = acc_act s" "acc_shift t = acc_shift s" "same_stats (norm_st s) (norm_st t)"
    "wf_state s \<Longrightarrow> wf_state t"
    "apply_pre_activation_acc t v = apply_pre_activation_acc s v"
  using assms
  by (auto simp: stored_def same_stats_def wf_state_updates apply_pre_activation_acc_def)

lemma mvout_norm_reset:
  assumes "wf_state s" "unat (norm_stat_id (norm_st s)) < 4" "stored s t"
    and rows: "\<And>b. b * 16 < cols \<Longrightarrow> base + b * 16 + i < 1024"
  shows "succeeds (mvout_norm base cols RESET i t) (\<lambda>(w, u). w \<and> stored s u \<and> mem u = mem t)"
  unfolding mvout_norm_def
proof (rule forE_succeeds)
  show "case (True, t) of (w, u) \<Rightarrow> w \<and> stored s u \<and> mem u = mem t" using assms(3) by simp
next
  fix b and p :: "bool \<times> 'a sim"
  assume b: "b < (cols + DIM - 1) div DIM" and p: "case p of (w, u) \<Rightarrow> w \<and> stored s u \<and> mem u = mem t"
  obtain w u where P: "p = (w, u)" by (cases p)
  have u: "stored s u" "mem u = mem t" using p P by auto
  note uf = stored_fields [OF u(1)]
  have "b * 16 < cols" using b by (simp add: DIM_def)
  then have "in_mat (accumulator s) (base + b * 16 + i, 0)"
    using rows assms(1) by (simp add: wf_state_in_mat)
  then have row: "vec_at (accumulator s) (base + b * 16 + i) = Inr (accumulator s ! (base + b * 16 + i))"
    "vec_at (accumulator s ! (base + b * 16 + i)) 0 = Inr (accumulator s ! (base + b * 16 + i) ! 0)"
    by (simp_all add: in_mat_def vec_at_def)
  obtain n' where n': "apply_norm (accumulator s ! (base + b * 16 + i))
      (if 16 < cols - b * 16 then 16 else cols - b * 16) RESET u = Inr (True, u\<lparr>norm_st := n'\<rparr>)"
    "same_stats (norm_st u) n'"
    using apply_norm_reset [of u] uf(6) assms(2) by (fastforce simp: same_stats_def)
  have "stored s (u\<lparr>norm_st := n'\<rparr>)" using n'(2) uf(6) by (intro stored_norm [OF u(1)]) (simp add: same_stats_def)
  then show "succeeds ((\<lambda>(_, s). let j = b * DIM; spad_row = base + b * DIM + i;
        len = if DIM < cols - j then DIM else cols - j; is_last = cols \<le> j + DIM;
        n_cmd = if is_last then RESET else non_terminating_norm_cmd RESET
      in bindE (vec_at (accumulator s) spad_row) (\<lambda>row. bindE (vec_at row 0) (\<lambda>_. apply_norm row len n_cmd s))) p)
    (\<lambda>(w, u). w \<and> stored s u \<and> mem u = mem t)"
    using u n'(1) row uf(1) by (auto simp: P DIM_def Let_def split: if_splits)
qed

text \<open>Addresses of the elements of a block in memory.\<close>

definition dram_cell :: "u64 \<Rightarrow> u64 \<Rightarrow> nat \<times> nat \<Rightarrow> u64" where
  "dram_cell base stride rc = base + of_nat (fst rc) * stride + of_nat (snd rc)"

lemma dram_cell_inj:
  assumes "cols \<le> unat stride \<or> rows \<le> 1" "rows * unat stride + cols \<le> 2 ^ 64"
  shows "inj_on (dram_cell base stride) ({..<rows} \<times> {..<cols})"
proof (rule inj_onI)
  fix p q assume p: "p \<in> {..<rows} \<times> {..<cols}" and q: "q \<in> {..<rows} \<times> {..<cols}"
    and eq: "dram_cell base stride p = dram_cell base stride q"
  obtain r c where P: "p = (r, c)" by (cases p)
  obtain r' c' where Q: "q = (r', c')" by (cases q)
  have lt: "x * unat stride + y < 2 ^ 64" if "x < rows" "y < cols" for x y
  proof -
    have "x * unat stride \<le> rows * unat stride" using that by simp
    then show ?thesis using that assms(2) by linarith
  qed
  have "of_nat (r * unat stride + c) = (of_nat (r' * unat stride + c') :: u64)"
    using eq by (simp add: P Q dram_cell_def)
  then have e: "r * unat stride + c = r' * unat stride + c'"
    using p q lt by (subst (asm) of_nat_u64_inj) (auto simp: P Q)
  show "p = q"
  proof (cases "rows \<le> 1")
    case True
    then have "r = 0" "r' = 0" using p q by (auto simp: P Q)
    then show ?thesis using e by (simp add: P Q)
  next
    case False
    then have "c < unat stride" "c' < unat stride" using assms(1) p q by (auto simp: P Q)
    then have "(r * unat stride + c) div unat stride = r" "(r' * unat stride + c') div unat stride = r'" by auto
    with e have "r = r'" by simp
    with e show ?thesis by (simp add: P Q)
  qed
qed


text \<open>The rows of a block without normalisation, given what each element step does.\<close>

lemma mvout_rows_block:
  fixes s :: "'m sim" and dram_addr :: u64
  assumes M: "mmu_ok M" and wf: "wf_state s" "unat (norm_stat_id (norm_st s)) < 4"
    and shape: "rows < 0x10000" "cols < 0x10000" "drop_bit 26 a AND 7 = 0"
  defines "base \<equiv> unat (a AND 0x3FFFFFF)" and "addr \<equiv> dram_cell dram_addr (store_stride s)"
  assumes acc: "\<And>i b. i < rows \<Longrightarrow> b * 16 < cols \<Longrightarrow> base + b * 16 + i < 1024"
    and inj: "inj_on addr ({..<rows} \<times> {..<cols})"
    and w: "\<And>i j. i < rows \<Longrightarrow> j < cols \<Longrightarrow> writable M (mem s) (addr (i, j))"
    and elem: "\<And>i j t. i < rows \<Longrightarrow> j < cols \<Longrightarrow> stored s t \<Longrightarrow>
      mvout_elem M (bit a 31) (bit a 29) base (dram_addr + of_nat i * store_stride s) i j t =
      set_mem M t (addr (i, j)) (W i j)"
  shows "succeeds (mvout_rows M dram_addr (block_operand (of_nat rows) (of_nat cols) a) s)
    (\<lambda>t. stored s t \<and> writable M (mem t) = writable M (mem s) \<and>
      (\<forall>i < rows. \<forall>j < cols. mmu_load M (mem t) (addr (i, j)) = Some (W i j)) \<and>
      (\<forall>p. p \<notin> addr ` ({..<rows} \<times> {..<cols}) \<longrightarrow> mmu_load M (mem t) p = mmu_load M (mem s) p))"
proof -
  have r: "of_nat rows < (0x10000 :: u64)" "of_nat cols < (0x10000 :: u64)"
    "unat (of_nat rows :: u64) = rows" "unat (of_nat cols :: u64) = cols"
    using shape by (simp_all add: word_less_nat_alt unat_of_nat take_bit_nat_eq_self)
  have cmd: "norm_cmd_of (ucast (drop_bit 26 a AND 7)) = RESET" by (simp add: shape(3) norm_cmd_of_def)
  note ops = block_operand_fields [OF r(1,2)]
  let ?P = "\<lambda>k t. stored s t \<and> writable M (mem t) = writable M (mem s) \<and>
      (\<forall>i < k. \<forall>j < cols. mmu_load M (mem t) (addr (i, j)) = Some (W i j)) \<and>
      (\<forall>p. p \<notin> addr ` ({..<k} \<times> {..<cols}) \<longrightarrow> mmu_load M (mem t) p = mmu_load M (mem s) p)"
  have body: "succeeds (bindE (mvout_norm base cols RESET i t) (\<lambda>(should_write, u).
        if \<not> should_write then Inr u
        else forE cols (\<lambda>j u. mvout_elem M (bit a 31) (bit a 29) base (dram_addr + of_nat i * store_stride t) i j u) u))
      (?P (Suc i))" if i: "i < rows" and t: "?P i t" for i t
  proof -
    obtain u where u: "mvout_norm base cols RESET i t = Inr (True, u)" "stored s u" "mem u = mem t"
      using mvout_norm_reset [OF wf, of t cols base i] t acc [OF i] by (auto simp: succeeds_iff)
    have stride: "store_stride t = store_stride s" using t stored_fields(3) by blast
    have "succeeds (foldE (\<lambda>j u. mvout_elem M (bit a 31) (bit a 29) base (dram_addr + of_nat i * store_stride s) i j u) [0..<cols] u)
      (\<lambda>v. stored s v \<and> (\<forall>k. writable M (mem v) k = writable M (mem u) k) \<and>
        (\<forall>j \<in> set [0..<cols]. \<forall>x. load_byte M (mem u) (addr (i, j)) = Inr x \<longrightarrow>
          load_byte M (mem v) (addr (i, j)) = Inr (W i j)) \<and>
        (\<forall>k. k \<notin> (\<lambda>j. addr (i, j)) ` set [0..<cols] \<longrightarrow> load_byte M (mem v) k = load_byte M (mem u) k))"
    proof (rule cell_store.sweep [OF sim_cell_store [OF M], where J = "stored s" and key = "\<lambda>j. addr (i, j)"])
      show "distinct (map (\<lambda>j. addr (i, j)) [0..<cols])"
        using inj i by (auto simp: distinct_map inj_on_def)
      show "\<And>j. j \<in> set [0..<cols] \<Longrightarrow> writable M (mem u) (addr (i, j))" using w i u(3) t by auto
      show "stored s u" by (rule u)
      show "\<And>t k v u. stored s t \<Longrightarrow> set_mem M t k v = Inr u \<Longrightarrow> stored s u" by (rule stored_mem)
      show "\<And>j t v. j \<in> set [0..<cols] \<Longrightarrow> stored s t \<Longrightarrow> load_byte M (mem t) (addr (i, j)) = Inr v \<Longrightarrow>
        mvout_elem M (bit a 31) (bit a 29) base (dram_addr + of_nat i * store_stride s) i j t =
        set_mem M t (addr (i, j)) (W i j)" using elem i by simp
    qed
    then obtain v where v: "forE cols (\<lambda>j u. mvout_elem M (bit a 31) (bit a 29) base (dram_addr + of_nat i * store_stride s) i j u) u = Inr v"
      "stored s v" "writable M (mem v) = writable M (mem s)"
      "\<And>j. j < cols \<Longrightarrow> mmu_load M (mem v) (addr (i, j)) = Some (W i j)"
      "\<And>k. k \<notin> (\<lambda>j. addr (i, j)) ` {..<cols} \<Longrightarrow> mmu_load M (mem v) k = mmu_load M (mem t) k"
      using cell_store.get_valid [OF sim_cell_store [OF M], of u] w [OF i] u(3) t
      by (auto simp: succeeds_iff forE_def load_byte_eq_iff load_byte_Inr_iff fun_eq_iff lessThan_atLeast0)
    have "mmu_load M (mem v) (addr (k, j)) = Some (W k j)" if "k < Suc i" "j < cols" for k j
    proof (cases "k = i")
      case False
      then have "addr (k, j) \<notin> (\<lambda>j. addr (i, j)) ` {..<cols}"
        using inj i that by (auto simp: inj_on_def)
      then show ?thesis using v(5) t that False by simp
    qed (use v(4) that in simp)
    moreover have "mmu_load M (mem v) p = mmu_load M (mem s) p"
      if "p \<notin> addr ` ({..<Suc i} \<times> {..<cols})" for p
      using that v(5) t by (force simp: image_iff)
    ultimately show ?thesis using u v(1-3) stride by simp
  qed
  show ?thesis
    unfolding mvout_rows_def Let_def ops cmd r unat_ucast_u32 base_def [symmetric]
      ops(3) [of 31, simplified] ops(3) [of 29, simplified]
    by (rule forE_succeeds) (use body stored_refl wf_state_dims(4) [OF wf(1)] in auto)
qed

text \<open>What leaves the accumulator for an accumulator value.\<close>

definition acc_out :: "'z gemmini_state_scheme \<Rightarrow> acc_t \<Rightarrow> elem_t res" where
  "acc_out s v = bindE (apply_pre_activation_acc s v) (\<lambda>p.
     bindE (acc_scale p (acc_shift s)) (\<lambda>e. Inr (apply_activation_acc s e)))"

lemma acc_out_stored: "stored s t \<Longrightarrow> acc_out t v = acc_out s v"
  by (simp add: acc_out_def stored_fields apply_activation_acc_def)

lemma acc_out_plain:
  assumes "acc_act s = NONE \<or> acc_act s = RELU" "acc_shift s = ACC_SCALE_IDENTITY"
  shows "acc_out s v = Inr (apply_activation (saturate_elem (sint v)) (acc_act s))"
  using assms by (auto simp: acc_out_def apply_pre_activation_acc_def acc_scale_one apply_activation_acc_def)

definition mvout_cell :: "nat \<Rightarrow> nat \<times> nat \<Rightarrow> nat \<times> nat" where
  "mvout_cell base rc = (base + (snd rc div 16) * 16 + fst rc, snd rc mod 16)"

lemma mvout_block:
  fixes s :: "'m sim" and dram_addr :: u64
  assumes M: "mmu_ok M" and wf: "wf_state s" "unat (norm_stat_id (norm_st s)) < 4" "pool_stride s = 0"
    and shape: "rows < 0x10000" "cols < 0x10000" "drop_bit 26 a AND 7 = 0"
  defines "cell \<equiv> mvout_cell (unat (a AND 0x3FFFFFF))" and "addr \<equiv> dram_cell dram_addr (store_stride s)"
  assumes acc: "\<And>i j. i < rows \<Longrightarrow> j < cols \<Longrightarrow> fst (cell (i, j)) < 1024"
    and inj: "inj_on addr ({..<rows} \<times> {..<cols})"
    and w: "\<And>i j. i < rows \<Longrightarrow> j < cols \<Longrightarrow> writable M (mem s) (addr (i, j))"
    and val: "\<And>i j. i < rows \<Longrightarrow> j < cols \<Longrightarrow>
      (if bit a 31 then \<not> bit a 29 \<and> bindE (mat_at (accumulator s) (fst (cell (i, j))) (snd (cell (i, j)))) (acc_out s) = Inr (W i j)
       else mat_at (spad s) (fst (cell (i, j))) (snd (cell (i, j))) = Inr (W i j))"
  shows "succeeds (mvout M dram_addr (block_operand (of_nat rows) (of_nat cols) a) s)
    (\<lambda>t. stored s t \<and> writable M (mem t) = writable M (mem s) \<and>
      (\<forall>i < rows. \<forall>j < cols. mmu_load M (mem t) (addr (i, j)) = Some (W i j)) \<and>
      (\<forall>p. p \<notin> addr ` ({..<rows} \<times> {..<cols}) \<longrightarrow> mmu_load M (mem t) p = mmu_load M (mem s) p))"
proof -
  let ?base = "unat (a AND 0x3FFFFFF)"
  have elem: "mvout_elem M (bit a 31) (bit a 29) ?base (dram_addr + of_nat i * store_stride s) i j t =
      set_mem M t (addr (i, j)) (W i j)" if ij: "i < rows" "j < cols" and t: "stored s t" for i j t
  proof (cases "bit a 31")
    case True
    then obtain v p e where v: "\<not> bit a 29" "mat_at (accumulator s) (fst (cell (i, j))) (snd (cell (i, j))) = Inr v"
      "apply_pre_activation_acc s v = Inr p" "acc_scale p (acc_shift s) = Inr e" "W i j = apply_activation_acc s e"
      using val [OF ij] by (auto simp: bindE_Inr_iff acc_out_def)
    have "apply_activation_acc t e = apply_activation_acc s e"
      by (simp add: apply_activation_acc_def stored_fields [OF t])
    then show ?thesis
      using v True
      by (simp add: mvout_elem_def mvout_acc_elem_def stored_fields [OF t] cell_def mvout_cell_def
          DIM_def addr_def dram_cell_def set_mem_def write_elem)
  next
    case False
    then show ?thesis
      using val [OF ij]
      by (simp add: mvout_elem_def stored_fields [OF t] cell_def mvout_cell_def DIM_def
          addr_def dram_cell_def set_mem_def write_elem)
  qed
  have rows: "?base + b * 16 + i < 1024" if "i < rows" "b * 16 < cols" for i b
    using acc [OF that] by (simp add: cell_def mvout_cell_def)
  show ?thesis
    using mvout_rows_block [OF M wf(1,2) shape rows, of dram_addr W] inj w elem wf(3)
    by (simp add: mvout_def addr_def)
qed

lemma read_elem: "read_from_dram M m a = (load_byte M m a :: elem_t res)"
proof -
  have "bytes_of TYPE(8) = Suc 0" by (simp add: bytes_of_def)
  moreover have "ucast (v :: u8) = v" for v by simp
  ultimately show ?thesis
    by (cases "load_byte M m a") (simp_all add: read_from_dram_def forE_def)
qed

lemma local_row_fields:
  assumes "base < 0x4000000"
  defines "a \<equiv> of_nat base :: u32"
  shows "\<not> bit a 31" "\<not> bit a 30" "\<not> bit a 29" "drop_bit 26 a AND 7 = 0"
    "unat (a AND 0x1FFFFFFF) = base" "unat (a AND 0x3FFFFFF) = base"
proof -
  have u: "unat a = base" using assms by (simp add: unat_of_nat take_bit_nat_eq_self)
  then have "a < 2 ^ 26" using assms by (simp add: word_less_nat_alt)
  then have b: "bit a n \<Longrightarrow> n < 26" for n by (rule word_less_bit)
  show "\<not> bit a 31" "\<not> bit a 30" "\<not> bit a 29" using b by fastforce+
  have "drop_bit 26 a = 0" by (rule bit_word_eqI) (use b in \<open>auto simp: bit_drop_bit_eq\<close>)
  then show "drop_bit 26 a AND 7 = 0" by simp
  have m: "a AND mask k = a" if "26 \<le> k" for k
    by (rule bit_word_eqI) (use b that in \<open>fastforce simp: bit_and_iff bit_mask_iff\<close>)
  have "(0x1FFFFFFF :: u32) = mask 29" "(0x3FFFFFF :: u32) = mask 26" by (simp_all add: mask_eq_exp_minus_1)
  then show "unat (a AND 0x1FFFFFFF) = base" "unat (a AND 0x3FFFFFF) = base"
    using m [of 29] m [of 26] u by (simp_all only:)
qed

lemma move_round_trip:
  fixes s :: "'m sim" and src dst :: u64
  assumes M: "mmu_ok M" and wf: "wf_state s" "unat (norm_stat_id (norm_st s)) < 4" "pool_stride s = 0"
    and load: "state_id < 3" "pixels_per_rows s ! state_id = 1" "load_scales s ! state_id = MVIN_SCALE_IDENTITY"
    and shape: "rows < 0x10000" "cols < 0x10000" "src \<noteq> 0"
      "cols \<le> 16 \<or> rows \<le> 16 \<and> load_block_strides s ! state_id = 16"
    and row: "base + (cols div 16) * 16 + rows \<le> 1024"
    and src: "\<And>i j. i < rows \<Longrightarrow> j < cols \<Longrightarrow>
      mmu_load M (mem s) (dram_cell src (load_strides s ! state_id) (i, j)) = Some (B i j)"
    and dst: "cols \<le> unat (store_stride s) \<or> rows \<le> 1" "rows * unat (store_stride s) + cols \<le> 2 ^ 64"
      "\<And>i j. i < rows \<Longrightarrow> j < cols \<Longrightarrow> writable M (mem s) (dram_cell dst (store_stride s) (i, j))"
  shows "succeeds (bindE (mvin M src (block_operand (of_nat rows) (of_nat cols) (of_nat base)) state_id s)
      (mvout M dst (block_operand (of_nat rows) (of_nat cols) (of_nat base))))
    (\<lambda>t. \<forall>i < rows. \<forall>j < cols. mmu_load M (mem t) (dram_cell dst (store_stride s) (i, j)) = Some (B i j))"
proof -
  let ?bs = "unat (load_block_strides s ! state_id)"
  have "base < 0x4000000" using row by simp
  note f = local_row_fields [OF this]
  have cell: "mvin_cell base ?bs (i, j) = mvout_cell base (i, j)" if "j < cols" for i j
    using shape(4) that by (auto simp: mvin_cell_def mvout_cell_def)
  have fit: "fst (mvout_cell base (i, j)) < 1024" if "i < rows" "j < cols" for i j
  proof -
    have "j div 16 * 16 \<le> cols div 16 * 16" using that by (simp add: div_le_mono)
    then show ?thesis using row that by (simp add: mvout_cell_def)
  qed
  have val: "mvin_spad_value M (mem s) (src = 0) (load_scales s ! state_id)
      (src + of_nat i * (load_strides s ! state_id) + of_nat j) = Inr (B i j)" if "i < rows" "j < cols" for i j
    using src [OF that] shape(3)
    by (simp add: mvin_spad_value_def read_elem load_byte_def dram_cell_def load(3) mvin_scale_one)
  have inj: "cols \<le> 16 \<or> rows \<le> ?bs" using shape(4) by auto
  have fit': "fst (mvin_cell (unat ((of_nat base :: u32) AND 0x1FFFFFFF)) ?bs (i, j)) < 16384" if "i < rows" "j < cols" for i j
    using fit [OF that] cell [OF that(2), of i] by (simp add: f)
  from mvin_spad_block [OF wf(1) load(1,2) shape(1,2) f(1) inj fit' val]
  obtain t m where t: "mvin M src (block_operand (of_nat rows) (of_nat cols) (of_nat base)) state_id s = Inr t"
    "wf_state t" "t = s\<lparr>spad := m\<rparr>"
    "\<And>i j. i < rows \<Longrightarrow> j < cols \<Longrightarrow>
      mat_at (spad t) (fst (mvout_cell base (i, j))) (snd (mvout_cell base (i, j))) = Inr (B i j)"
    using cell by (auto simp: succeeds_iff f)
  have "succeeds (mvout M dst (block_operand (of_nat rows) (of_nat cols) (of_nat base)) t)
    (\<lambda>u. stored t u \<and> writable M (mem u) = writable M (mem t) \<and>
      (\<forall>i < rows. \<forall>j < cols. mmu_load M (mem u) (dram_cell dst (store_stride t) (i, j)) = Some (B i j)) \<and>
      (\<forall>p. p \<notin> dram_cell dst (store_stride t) ` ({..<rows} \<times> {..<cols}) \<longrightarrow> mmu_load M (mem u) p = mmu_load M (mem t) p))"
    by (rule mvout_block [OF M t(2) _ _ shape(1,2) f(4)])
      (use t(3,4) wf fit dst dram_cell_inj [OF dst(1,2)] f in auto)
  then show ?thesis using t(1,3) by (auto elim!: succeeds_mono)
qed

end
