(* ===== verification/Gemmini_Compute_Correct.thy ===== *)
theory Gemmini_Compute_Correct
  imports Gemmini_Compute Gemmini_Move_Correct
begin

text \<open>
  What \<open>compute\<close> does: each stage (preload, bias, multiply-accumulate, write-back) is a sweep over
  the cells of a matrix, and together they add a product of two tiles to the accumulator
  (weight-stationary) or to the processing elements, which are then shifted, saturated and
  activated into the scratchpad (output-stationary). All sums are in 32-bit arithmetic.
\<close>

section \<open>The stages of compute\<close>

text \<open>A pair of a result matrix and a state, by the cells of the matrix or by the processing
  elements of the state.\<close>

definition put_fst :: "'a list list \<times> 's \<Rightarrow> nat \<times> nat \<Rightarrow> 'a \<Rightarrow> ('a list list \<times> 's) res" where
  "put_fst p k v = bindE (mat_set (fst p) (fst k) (snd k) v) (\<lambda>m. Inr (m, snd p))"

definition put_snd :: "'r \<times> 'z gemmini_state_scheme \<Rightarrow> nat \<times> nat \<Rightarrow> acc_t \<Rightarrow> ('r \<times> 'z gemmini_state_scheme) res" where
  "put_snd p k v = bindE (set_pe (snd p) k v) (\<lambda>s. Inr (fst p, s))"

interpretation rf: cell_store "\<lambda>p k. mat_at (fst p) (fst k) (snd k)" put_fst "\<lambda>p. in_mat (fst p)"
  by unfold_locales (auto simp: put_fst_def bindE_Inr_iff mat_set_get mat_at_ok mat_set_ok split: if_splits)

interpretation rs: cell_store "\<lambda>p k. mat_at (pe_state (snd p)) (fst k) (snd k)" put_snd "\<lambda>p. in_mat (pe_state (snd p))"
proof unfold_locales
  fix p q :: "'a \<times> 'b gemmini_state_scheme" and k k' v
  assume "put_snd p k v = Inr q"
  then have "set_pe (snd p) k v = Inr (snd q)" by (auto simp: put_snd_def bindE_Inr_iff)
  then show "mat_at (pe_state (snd q)) (fst k') (snd k') = (if k' = k then Inr v else mat_at (pe_state (snd p)) (fst k') (snd k'))"
    "in_mat (pe_state (snd q)) k' = in_mat (pe_state (snd p)) k'"
    using pe.get_put pe.valid_put by blast+
qed (use pe.put_total pe.get_valid in \<open>auto simp: put_snd_def bindE_Inr_iff\<close>)

text \<open>The multiply-accumulate loop of one output element.\<close>

abbreviation operand_a :: "u64 \<Rightarrow> nat \<Rightarrow> nat \<Rightarrow> 'z gemmini_state_scheme \<Rightarrow> elem_t res" where
  "operand_a x i k \<equiv> compute_a (ucast (x AND 0xFFFFFFFF)) (ucast (fld (ADDR_LEN + 16) 0xFFFF x))
     (ucast (fld ADDR_LEN 0xFFFF x)) i k"

abbreviation operand_b :: "u64 \<Rightarrow> nat \<Rightarrow> nat \<Rightarrow> 'z gemmini_state_scheme \<Rightarrow> elem_t res" where
  "operand_b x k j \<equiv> compute_b (ucast (x AND 0xFFFFFFFF)) (ucast (fld (ADDR_LEN + 16) 0xFFFF x))
     (ucast (fld ADDR_LEN 0xFFFF x)) k j"

lemma mac_step_WS:
  assumes "mode s = WS" "operand_a x i k s = Inr a" "in_mat (pe_state s) (k, j)" "in_mat R (i, j)"
  shows "mac_step x y i j k (R, s) = put_fst (R, s) (i, j) (R ! i ! j + scast a * pe_state s ! k ! j)"
  using assms by (simp add: mac_step_def put_fst_def mat_at_ok)

lemma mac_step_OS:
  assumes "mode s = OS" "operand_a x i k s = Inr a" "operand_b y k j s = Inr b" "in_mat (pe_state s) (i, j)"
  shows "mac_step x y i j k (R, s) = put_snd (R, s) (i, j) (pe_state s ! i ! j + scast a * scast b)"
  using assms by (simp add: mac_step_def put_snd_def set_pe_def mat_at_ok bindE_assoc)

lemma mac_inner_WS:
  assumes s: "mode s = WS" "wf_state s" and R: "in_mat R (i, j)" "j < 16"
    and A: "\<And>k. k < 16 \<Longrightarrow> operand_a x i k s = Inr (A k)"
  shows "n \<le> 16 \<Longrightarrow> forE n (mac_step x y i j) (R, s) =
    put_fst (R, s) (i, j) (R ! i ! j + (\<Sum>k<n. scast (A k) * pe_state s ! k ! j))"
proof (induction n)
  case 0
  show ?case using R(1) by (simp add: put_fst_def mat_set_ok in_mat_def)
next
  case (Suc n)
  have pe: "in_mat (pe_state s) (n, j)" using s(2) Suc.prems R(2) by (simp add: wf_state_in_mat)
  show ?case
    using Suc R(1) mac_step_WS [OF s(1) A pe] by (simp add: forE_Suc put_fst_def mat_set_ok in_mat_def add.assoc)
qed

lemma operand_pe_irrelevant:
  "compute_a p q r i k (s\<lparr>pe_state := m\<rparr>) = compute_a p q r i k s"
  "compute_b p q r i k (s\<lparr>pe_state := m\<rparr>) = compute_b p q r i k s"
  by (simp_all add: compute_a_def compute_b_def)

lemma mac_inner_OS:
  assumes s: "mode s = OS" and R: "in_mat (pe_state s) (i, j)"
    and A: "\<And>k. k < 16 \<Longrightarrow> operand_a x i k s = Inr (A k)"
    and B: "\<And>k. k < 16 \<Longrightarrow> operand_b y k j s = Inr (B k)"
  shows "n \<le> 16 \<Longrightarrow> forE n (mac_step x y i j) (R, s) =
    put_snd (R, s) (i, j) (pe_state s ! i ! j + (\<Sum>k<n. scast (A k) * scast (B k)))"
proof (induction n)
  case 0
  show ?case using R(1) by (simp add: put_snd_def set_pe_def mat_set_ok in_mat_def)
next
  case (Suc n)
  let ?t = "s\<lparr>pe_state := (pe_state s)[i := (pe_state s ! i)[j := pe_state s ! i ! j + (\<Sum>k<n. scast (A k) * scast (B k))]]\<rparr>"
  have "mac_step x y i j n (R, ?t) = put_snd (R, ?t) (i, j) (pe_state ?t ! i ! j + scast (A n) * scast (B n))"
    by (rule mac_step_OS) (use s A B Suc.prems R in \<open>simp_all add: operand_pe_irrelevant\<close>)
  then show ?case
    using Suc R(1) by (simp add: forE_Suc put_snd_def set_pe_def mat_set_ok in_mat_def add.assoc)
qed

lemma compute_mac_WS:
  assumes s: "mode s = WS" "wf_state s" and R: "mat_dims 16 16 R"
    and A: "\<And>i k. i < 16 \<Longrightarrow> k < 16 \<Longrightarrow> operand_a x i k s = Inr (A i k)"
  shows "succeeds (compute_mac x y R s) (\<lambda>(R', s'). s' = s \<and> mat_dims 16 16 R' \<and>
    (\<forall>i < 16. \<forall>j < 16. R' ! i ! j = R ! i ! j + (\<Sum>k<16. scast (A i k) * pe_state s ! k ! j)))"
proof -
  let ?J = "\<lambda>p. snd p = s \<and> mat_dims 16 16 (fst p)"
  let ?upd = "\<lambda>i j v. v + (\<Sum>k<16. scast (A i k) * pe_state s ! k ! j)"
  have "succeeds (forE 16 (\<lambda>i. forE 16 (\<lambda>j. forE 16 (mac_step x y i j))) (R, s)) (\<lambda>t. ?J t \<and>
    (\<forall>k. in_mat (fst t) k = in_mat (fst (R, s)) k) \<and>
    (\<forall>i < 16. \<forall>j < 16. \<forall>v. mat_at (fst (R, s)) (fst (i, j)) (snd (i, j)) = Inr v \<longrightarrow>
      mat_at (fst t) (fst (i, j)) (snd (i, j)) = Inr (?upd i j v)) \<and>
    (\<forall>k. k \<notin> (\<lambda>x. x) ` ({..<16} \<times> {..<16}) \<longrightarrow> mat_at (fst t) (fst k) (snd k) = mat_at (fst (R, s)) (fst k) (snd k)))"
  proof (rule rf.sweep_grid [where J = ?J and key = "\<lambda>x. x"])
    show "?J (R, s)" using R by simp
    show "\<And>t k v u. ?J t \<Longrightarrow> put_fst t k v = Inr u \<Longrightarrow> ?J u"
      by (auto simp: put_fst_def bindE_Inr_iff mat_set_dims)
    show "forE 16 (mac_step x y i j) t = put_fst t (i, j) (?upd i j v)"
      if "i < 16" "j < 16" "?J t" "mat_at (fst t) (fst (i, j)) (snd (i, j)) = Inr v" for i j t v
      using mac_inner_WS [OF s, of "fst t" i j x "A i" 16 y] that A [OF that(1)]
      by (cases t) (auto simp: mat_at_Inr_iff)
  qed (use R in \<open>auto simp: in_mat_dims inj_on_def\<close>)
  then show ?thesis
    using R by (auto simp: compute_mac_def DIM_def in_mat_dims mat_at_Inr_iff elim!: succeeds_mono)
qed

lemma compute_mac_OS:
  assumes s: "mode s = OS" "wf_state s"
    and A: "\<And>i k. i < 16 \<Longrightarrow> k < 16 \<Longrightarrow> operand_a x i k s = Inr (A i k)"
    and B: "\<And>k j. k < 16 \<Longrightarrow> j < 16 \<Longrightarrow> operand_b y k j s = Inr (B k j)"
  shows "succeeds (compute_mac x y R s) (\<lambda>(R', t). R' = R \<and> wf_state t \<and> (\<exists>m. t = s\<lparr>pe_state := m\<rparr>) \<and>
    (\<forall>i < 16. \<forall>j < 16. pe_state t ! i ! j = pe_state s ! i ! j + (\<Sum>k<16. scast (A i k) * scast (B k j))))"
proof -
  let ?J = "\<lambda>p. fst p = R \<and> wf_state (snd p) \<and> (\<exists>m. snd p = s\<lparr>pe_state := m\<rparr>)"
  let ?upd = "\<lambda>i j v. v + (\<Sum>k<16. scast (A i k) * scast (B k j))"
  have "succeeds (forE 16 (\<lambda>i. forE 16 (\<lambda>j. forE 16 (mac_step x y i j))) (R, s)) (\<lambda>t. ?J t \<and>
    (\<forall>k. in_mat (pe_state (snd t)) k = in_mat (pe_state (snd (R, s))) k) \<and>
    (\<forall>i < 16. \<forall>j < 16. \<forall>v. mat_at (pe_state (snd (R, s))) (fst (i, j)) (snd (i, j)) = Inr v \<longrightarrow>
      mat_at (pe_state (snd t)) (fst (i, j)) (snd (i, j)) = Inr (?upd i j v)) \<and>
    (\<forall>k. k \<notin> (\<lambda>x. x) ` ({..<16} \<times> {..<16}) \<longrightarrow>
      mat_at (pe_state (snd t)) (fst k) (snd k) = mat_at (pe_state (snd (R, s))) (fst k) (snd k)))"
  proof (rule rs.sweep_grid [where J = ?J and key = "\<lambda>x. x"])
    show "?J (R, s)" using s(2) by (auto intro: exI [of _ "pe_state s"])
    show "?J u" if "?J t" "put_snd t k v = Inr u" for t k v u
    proof -
      have "set_pe (snd t) k v = Inr (snd u)" "fst u = fst t" using that(2) by (auto simp: put_snd_def bindE_Inr_iff)
      then show ?thesis using that(1) set_wf(3) set_frame(3) by metis
    qed
    show "forE 16 (mac_step x y i j) p = put_snd p (i, j) (?upd i j v)"
      if ij: "i < 16" "j < 16" and p: "?J p" and v: "mat_at (pe_state (snd p)) (fst (i, j)) (snd (i, j)) = Inr v" for i j p v
    proof -
      obtain m where m: "p = (R, s\<lparr>pe_state := m\<rparr>)" using p by (cases p) auto
      have "forE 16 (mac_step x y i j) (R, s\<lparr>pe_state := m\<rparr>) = put_snd (R, s\<lparr>pe_state := m\<rparr>) (i, j)
        (pe_state (s\<lparr>pe_state := m\<rparr>) ! i ! j + (\<Sum>k<16. scast (A i k) * scast (B k j)))"
        by (rule mac_inner_OS) (use s v ij A B m in \<open>auto simp: operand_pe_irrelevant mat_at_Inr_iff\<close>)
      then show ?thesis using v m by (simp add: mat_at_Inr_iff)
    qed
  qed (use s(2) in \<open>auto simp: wf_state_in_mat inj_on_def\<close>)
  then show ?thesis
    using s(2) by (auto simp: compute_mac_def DIM_def wf_state_in_mat mat_at_Inr_iff elim!: succeeds_mono)
qed

text \<open>What is preloaded into a processing element, and the bias of an output element.\<close>

definition preload_value :: "'z gemmini_state_scheme \<Rightarrow> nat \<Rightarrow> nat \<Rightarrow> acc_t res" where
  "preload_value s i j =
     (let tr = (mode s = WS \<and> b_transpose s) in
      if i < unat (preload_rows s) \<and> j < unat (preload_cols s) then
        (if NOT (preload_sp_addr s) = 0 then Inr 0
         else bindE (mat_at (spad s) (unat (preload_sp_addr s) + (if tr then j else i)) (if tr then i else j))
           (\<lambda>v. Inr (scast v)))
      else Inr 0)"

definition preload_guard :: "'z gemmini_state_scheme \<Rightarrow> bool" where
  "preload_guard s \<longleftrightarrow> (NOT (preload_sp_addr s) \<noteq> 0 \<longrightarrow> drop_bit 30 (preload_sp_addr s) AND 3 = 0)"

lemma compute_preload_spec:
  assumes s: "wf_state s" "preload_guard s"
    and V: "\<And>i j. i < 16 \<Longrightarrow> j < 16 \<Longrightarrow> preload_value s i j = Inr (V i j)"
  shows "succeeds (compute_preload s) (\<lambda>t. wf_state t \<and> (\<exists>m. t = s\<lparr>pe_state := m\<rparr>) \<and>
    (\<forall>i < 16. \<forall>j < 16. pe_state t ! i ! j = V i j))"
proof -
  let ?J = "\<lambda>t. wf_state t \<and> (\<exists>m. t = s\<lparr>pe_state := m\<rparr>)"
  have "succeeds (forE 16 (\<lambda>i. forE 16 (preload_pe i)) s) (\<lambda>t. ?J t \<and> (\<forall>k. in_mat (pe_state t) k = in_mat (pe_state s) k) \<and>
    (\<forall>i < 16. \<forall>j < 16. \<forall>v. mat_at (pe_state s) (fst (i, j)) (snd (i, j)) = Inr v \<longrightarrow>
      mat_at (pe_state t) (fst (i, j)) (snd (i, j)) = Inr (V i j)) \<and>
    (\<forall>k. k \<notin> (\<lambda>x. x) ` ({..<16} \<times> {..<16}) \<longrightarrow> mat_at (pe_state t) (fst k) (snd k) = mat_at (pe_state s) (fst k) (snd k)))"
  proof (rule pe.sweep_grid [where J = ?J and key = "\<lambda>x. x"])
    show "?J s" using s(1) by (auto intro: exI [of _ "pe_state s"])
    show "\<And>t k v u. ?J t \<Longrightarrow> set_pe t k v = Inr u \<Longrightarrow> ?J u" using set_wf(3) set_frame(3) by blast
    show "preload_pe i j t = set_pe t (i, j) (V i j)" if "i < 16" "j < 16" "?J t" for i j t v
      using that V [OF that(1,2)] s(2)
      by (auto simp: preload_pe_def set_pe_def preload_value_def preload_guard_def Let_def)
  qed (use s(1) in \<open>auto simp: wf_state_in_mat inj_on_def\<close>)
  then show ?thesis
    using s(1) by (auto simp: compute_preload_def DIM_def wf_state_in_mat mat_at_Inr_iff elim!: succeeds_mono)
qed

definition bias_value :: "u32 \<Rightarrow> u16 \<Rightarrow> u16 \<Rightarrow> 'z gemmini_state_scheme \<Rightarrow> nat \<Rightarrow> nat \<Rightarrow> acc_t res" where
  "bias_value bd rows cols s i j =
     (if i < unat rows \<and> j < unat cols then
        (if NOT bd = 0 then Inr 0 else bindE (mat_at (spad s) (unat bd + i) j) (\<lambda>v. Inr (scast v)))
      else Inr 0)"

lemma compute_results_spec:
  assumes D: "\<And>i j. i < 16 \<Longrightarrow> j < 16 \<Longrightarrow> bias_value bd rows cols s i j = Inr (D i j)"
  shows "succeeds (compute_results bd rows cols s) (\<lambda>R. mat_dims 16 16 R \<and> (\<forall>i < 16. \<forall>j < 16. R ! i ! j = D i j))"
proof -
  let ?Z = "matrix_zeroes 16 16 :: acc_t list list"
  have Z: "mat_dims 16 16 ?Z" by (simp add: mat_dims_def matrix_zeroes_def)
  have "succeeds (forE 16 (\<lambda>i. forE 16 (\<lambda>j R. bindE (bias_value bd rows cols s i j) (\<lambda>v. mat_set R i j v))) ?Z)
    (\<lambda>R. mat_dims 16 16 R \<and> (\<forall>k. in_mat R k = in_mat ?Z k) \<and>
    (\<forall>i < 16. \<forall>j < 16. \<forall>v. mat_at ?Z (fst (i, j)) (snd (i, j)) = Inr v \<longrightarrow>
      mat_at R (fst (i, j)) (snd (i, j)) = Inr (D i j)) \<and>
    (\<forall>k. k \<notin> (\<lambda>x. x) ` ({..<16} \<times> {..<16}) \<longrightarrow> mat_at R (fst k) (snd k) = mat_at ?Z (fst k) (snd k)))"
    by (rule mat.sweep_grid [where J = "mat_dims 16 16" and key = "\<lambda>x. x"])
      (use Z D in \<open>auto simp: in_mat_dims inj_on_def mat_set_dims\<close>)
  then show ?thesis
    using Z by (auto simp: compute_results_def DIM_def bias_value_def [symmetric] in_mat_dims mat_at_Inr_iff elim!: succeeds_mono)
qed

lemma sys_shift_total: "unat sh < 32 \<Longrightarrow> \<exists>e. sys_shift_op v sh = Inr e"
  by (simp add: sys_shift_op_def)

definition pe_shift :: "'z gemmini_state_scheme \<Rightarrow> u32" where
  "pe_shift s = (if mode s = OS then ucast (sys_shift s) else 0)"

definition pe_result :: "acc_t list list \<Rightarrow> 'z gemmini_state_scheme \<Rightarrow> nat \<Rightarrow> nat \<Rightarrow> acc_t" where
  "pe_result R s i j = (if mode s = OS then pe_state s ! i ! j else R ! i ! j)"

text \<open>The row of the accumulator or scratchpad that row \<open>i\<close> of the result goes to.\<close>

definition out_row :: "'z gemmini_state_scheme \<Rightarrow> nat \<Rightarrow> nat" where
  "out_row s i = unat (output_sp_addr s AND 0x1FFFFFFF) + unat (c_stride s) * i"

definition out_touched :: "'z gemmini_state_scheme \<Rightarrow> nat \<Rightarrow> nat \<Rightarrow> bool" where
  "out_touched s r c \<longleftrightarrow> (\<exists>i < unat (output_rows s). r = out_row s i) \<and> c < unat (output_cols s)"

lemma compute_write_acc:
  assumes s: "wf_state s" "mat_dims 16 16 R" "unat (pe_shift s) < 32"
    and out: "NOT (output_sp_addr s) \<noteq> 0" "bit (output_sp_addr s) 31"
    and size: "unat (output_rows s) \<le> 16" "unat (output_cols s) \<le> 16" "0 < unat (c_stride s) \<or> unat (output_rows s) \<le> 1"
    and fit: "\<And>i. i < unat (output_rows s) \<Longrightarrow> out_row s i < 1024"
  shows "succeeds (compute_write R s) (\<lambda>t. wf_state t \<and> (\<exists>m. t = s\<lparr>accumulator := m\<rparr>) \<and>
    (\<forall>i < unat (output_rows s). \<forall>j < unat (output_cols s). accumulator t ! out_row s i ! j =
      (if bit (output_sp_addr s) 30 then accumulator s ! out_row s i ! j else 0) + pe_result R s i j) \<and>
    (\<forall>r c. \<not> out_touched s r c \<longrightarrow> mat_at (accumulator t) r c = mat_at (accumulator s) r c))"
proof -
  define cell where "cell = (\<lambda>x :: nat \<times> nat. (out_row s (fst x), snd x))"
  let ?J = "\<lambda>t. wf_state t \<and> (\<exists>m. t = s\<lparr>accumulator := m\<rparr>)"
  let ?rows = "unat (output_rows s)" and ?cols = "unat (output_cols s)"
  let ?upd = "\<lambda>i j v. (if bit (output_sp_addr s) 30 then v else 0) + pe_result R s i j"
  have flags: "drop_bit 31 (output_sp_addr s) AND 1 \<noteq> 0"
    "drop_bit 30 (output_sp_addr s) AND 1 \<noteq> 0 \<longleftrightarrow> bit (output_sp_addr s) 30"
    using out(2) by (simp_all add: and_one_eq odd_iff_mod_2_eq_one [symmetric] bit_iff_odd_drop_bit flip: even_iff_mod_2_eq_zero)
  have fit': "fst (cell (i, j)) < 1024" if "i < ?rows" for i j
    using fit [OF that] by (simp add: cell_def)
  have "succeeds (forE ?rows (\<lambda>i. forE ?cols (write_result R i)) s) (\<lambda>t. ?J t \<and>
    (\<forall>k. in_mat (accumulator t) k = in_mat (accumulator s) k) \<and>
    (\<forall>i < ?rows. \<forall>j < ?cols. \<forall>v. mat_at (accumulator s) (fst (cell (i, j))) (snd (cell (i, j))) = Inr v \<longrightarrow>
      mat_at (accumulator t) (fst (cell (i, j))) (snd (cell (i, j))) = Inr (?upd i j v)) \<and>
    (\<forall>k. k \<notin> cell ` ({..<?rows} \<times> {..<?cols}) \<longrightarrow>
      mat_at (accumulator t) (fst k) (snd k) = mat_at (accumulator s) (fst k) (snd k)))"
  proof (rule ac.sweep_grid [where J = ?J and key = cell])
    show "inj_on cell ({..<?rows} \<times> {..<?cols})"
      using size(3) by (auto simp: inj_on_def cell_def out_row_def)
    show "\<And>i j. i < ?rows \<Longrightarrow> j < ?cols \<Longrightarrow> in_mat (accumulator s) (cell (i, j))"
      using fit' size(2) by (simp add: cell_def wf_state_in_mat [OF s(1)])
    show "?J s" using s(1) by (auto intro: exI [of _ "accumulator s"])
    show "\<And>t k v u. ?J t \<Longrightarrow> set_accumulator t k v = Inr u \<Longrightarrow> ?J u" using set_wf(2) set_frame(2) by blast
    show "write_result R i j t = set_accumulator t (cell (i, j)) (?upd i j v)"
      if ij: "i < ?rows" "j < ?cols" and t: "?J t" and v: "mat_at (accumulator t) (fst (cell (i, j))) (snd (cell (i, j))) = Inr v" for i j t v
    proof -
      obtain m where m: "t = s\<lparr>accumulator := m\<rparr>" using t by blast
      have val: "(if mode s = OS then mat_at (pe_state s) i j else mat_at R i j) = Inr (pe_result R s i j)"
        using ij size(1,2) s(1,2) by (simp add: pe_result_def mat_at_ok wf_state_in_mat in_mat_dims)
      obtain e where e: "sys_shift_op (pe_result R s i j) (pe_shift s) = Inr e" using sys_shift_total s(3) by blast
      show ?thesis
        using v flags val e
        by (cases "mode s") (simp_all add: m write_result_def Let_def set_accumulator_def cell_def out_row_def pe_shift_def)
    qed
  qed
  moreover have "compute_write R s = forE ?rows (\<lambda>i. forE ?cols (write_result R i)) s"
    using out(1) by (simp add: compute_write_def)
  ultimately obtain t where t: "compute_write R s = Inr t" "?J t"
    "\<forall>i < ?rows. \<forall>j < ?cols. \<forall>v. mat_at (accumulator s) (out_row s i) j = Inr v \<longrightarrow>
      mat_at (accumulator t) (out_row s i) j = Inr (?upd i j v)"
    "\<forall>k. k \<notin> cell ` ({..<?rows} \<times> {..<?cols}) \<longrightarrow>
      mat_at (accumulator t) (fst k) (snd k) = mat_at (accumulator s) (fst k) (snd k)"
    unfolding succeeds_iff cell_def fst_conv snd_conv by auto
  have "accumulator t ! out_row s i ! j = ?upd i j (accumulator s ! out_row s i ! j)"
    if ij: "i < ?rows" "j < ?cols" for i j
  proof -
    have "in_mat (accumulator s) (out_row s i, j)" using fit [OF ij(1)] ij size(2) by (simp add: wf_state_in_mat [OF s(1)])
    then have "mat_at (accumulator s) (out_row s i) j = Inr (accumulator s ! out_row s i ! j)" by (rule mat_at_ok)
    with t(3) ij have "mat_at (accumulator t) (out_row s i) j = Inr (?upd i j (accumulator s ! out_row s i ! j))" by blast
    then show ?thesis unfolding mat_at_Inr_iff by simp
  qed
  moreover have "mat_at (accumulator t) r c = mat_at (accumulator s) r c" if "\<not> out_touched s r c" for r c
  proof -
    have "(r, c) \<notin> cell ` ({..<?rows} \<times> {..<?cols})" using that by (auto simp: out_touched_def cell_def)
    then show ?thesis using t(4) by fastforce
  qed
  ultimately show ?thesis using t(1,2) by simp
qed

text \<open>One run of the array in weight-stationary mode, with the result going to the accumulator.\<close>

lemma compute_WS:
  fixes s :: "'z gemmini_state_scheme"
  assumes s: "wf_state s" "mode s = WS"
    and W: "\<And>k j. k < 16 \<Longrightarrow> j < 16 \<Longrightarrow>
      (if pre then preload_guard s \<and> preload_value s k j = Inr (W k j) else pe_state s ! k ! j = W k j)"
    and D: "\<And>i j. i < 16 \<Longrightarrow> j < 16 \<Longrightarrow> bias_value (ucast (y AND 0xFFFFFFFF))
      (ucast (fld (ADDR_LEN + 16) 0xFFFF y)) (ucast (fld ADDR_LEN 0xFFFF y)) s i j = Inr (D i j)"
    and A: "\<And>i k. i < 16 \<Longrightarrow> k < 16 \<Longrightarrow> operand_a x i k s = Inr (A i k)"
    and out: "NOT (output_sp_addr s) \<noteq> 0" "bit (output_sp_addr s) 31"
    and size: "unat (output_rows s) \<le> 16" "unat (output_cols s) \<le> 16" "0 < unat (c_stride s) \<or> unat (output_rows s) \<le> 1"
    and fit: "\<And>i. i < unat (output_rows s) \<Longrightarrow> out_row s i < 1024"
  shows "succeeds (compute x y pre s) (\<lambda>t. wf_state t \<and> (\<exists>p m. t = s\<lparr>pe_state := p, accumulator := m\<rparr>) \<and>
    (\<forall>k < 16. \<forall>j < 16. pe_state t ! k ! j = W k j) \<and>
    (\<forall>i < unat (output_rows s). \<forall>j < unat (output_cols s). accumulator t ! out_row s i ! j =
      (if bit (output_sp_addr s) 30 then accumulator s ! out_row s i ! j else 0) +
      (D i j + (\<Sum>k<16. scast (A i k) * W k j))) \<and>
    (\<forall>r c. \<not> out_touched s r c \<longrightarrow> mat_at (accumulator t) r c = mat_at (accumulator s) r c))"
proof -
  have "succeeds (if pre then compute_preload s else Inr s) (\<lambda>t. wf_state t \<and> (\<exists>m. t = s\<lparr>pe_state := m\<rparr>) \<and>
    (\<forall>i < 16. \<forall>j < 16. pe_state t ! i ! j = W i j))"
  proof (cases pre)
    case True
    have "preload_guard s" using W [of 0 0] True by simp
    then show ?thesis using compute_preload_spec [OF s(1), of W] W True by simp
  next
    case False
    then show ?thesis using W s(1) by (auto intro: exI [of _ "pe_state s"])
  qed
  then obtain t p where t: "(if pre then compute_preload s else Inr s) = Inr t" "wf_state t" "t = s\<lparr>pe_state := p\<rparr>"
    "\<And>k j. k < 16 \<Longrightarrow> j < 16 \<Longrightarrow> pe_state t ! k ! j = W k j" by (auto simp: succeeds_iff)
  have D': "bias_value b r c t i j = bias_value b r c s i j" for b r c i j by (simp add: t(3) bias_value_def)
  obtain R where R: "compute_results (ucast (y AND 0xFFFFFFFF)) (ucast (fld (ADDR_LEN + 16) 0xFFFF y))
      (ucast (fld ADDR_LEN 0xFFFF y)) t = Inr R" "mat_dims 16 16 R" "\<And>i j. i < 16 \<Longrightarrow> j < 16 \<Longrightarrow> R ! i ! j = D i j"
  proof -
    have "succeeds (compute_results (ucast (y AND 0xFFFFFFFF)) (ucast (fld (ADDR_LEN + 16) 0xFFFF y))
      (ucast (fld ADDR_LEN 0xFFFF y)) t) (\<lambda>R. mat_dims 16 16 R \<and> (\<forall>i < 16. \<forall>j < 16. R ! i ! j = D i j))"
      by (rule compute_results_spec) (simp only: D' D)
    then show ?thesis using that unfolding succeeds_iff by blast
  qed
  have A': "operand_a x i k t = Inr (A i k)" if "i < 16" "k < 16" for i k
    using A [OF that] by (simp add: t(3) operand_pe_irrelevant)
  have mt: "mode t = WS" using s(2) t(3) by simp
  obtain R' where R': "compute_mac x y R t = Inr (R', t)" "mat_dims 16 16 R'"
    "\<And>i j. i < 16 \<Longrightarrow> j < 16 \<Longrightarrow> R' ! i ! j = D i j + (\<Sum>k<16. scast (A i k) * W k j)"
  proof -
    from compute_mac_WS [OF mt t(2) R(2) A', where y = y]
    obtain R' where "compute_mac x y R t = Inr (R', t)" "mat_dims 16 16 R'"
      "\<forall>i < 16. \<forall>j < 16. R' ! i ! j = R ! i ! j + (\<Sum>k<16. scast (A i k) * pe_state t ! k ! j)"
      unfolding succeeds_iff by blast
    then show ?thesis using that R(3) t(4) by simp
  qed
  have tf: "output_sp_addr t = output_sp_addr s" "output_rows t = output_rows s" "output_cols t = output_cols s"
    "c_stride t = c_stride s" "accumulator t = accumulator s" "out_row t = out_row s" "out_touched t = out_touched s"
    by (simp_all add: t(3) out_row_def out_touched_def fun_eq_iff)
  have "unat (pe_shift t) < 32" using mt by (simp add: pe_shift_def)
  from compute_write_acc [OF t(2) R'(2) this, unfolded tf, OF out size fit]
  obtain u m where u: "compute_write R' t = Inr u" "wf_state u" "u = t\<lparr>accumulator := m\<rparr>"
    "\<And>i j. i < unat (output_rows s) \<Longrightarrow> j < unat (output_cols s) \<Longrightarrow> accumulator u ! out_row s i ! j =
      (if bit (output_sp_addr s) 30 then accumulator s ! out_row s i ! j else 0) + pe_result R' t i j"
    "\<And>r c. \<not> out_touched s r c \<Longrightarrow> mat_at (accumulator u) r c = mat_at (accumulator s) r c"
    unfolding succeeds_iff by blast
  have pr: "pe_result R' t i j = R' ! i ! j" for i j using mt by (simp add: pe_result_def)
  have "compute x y pre s = Inr u" by (simp add: compute_def t(1) R(1) R'(1) u(1))
  moreover have "\<exists>p m. u = s\<lparr>pe_state := p, accumulator := m\<rparr>" using u(3) t(3) by auto
  moreover have "pe_state u ! k ! j = W k j" if "k < 16" "j < 16" for k j using t(4) [OF that] u(3) by simp
  ultimately show ?thesis using u(2,4,5) R'(3) size(1,2) by (simp add: pr)
qed

lemma compute_write_spad:
  assumes s: "wf_state s" "mat_dims 16 16 R" "unat (pe_shift s) < 32"
    and out: "NOT (output_sp_addr s) \<noteq> 0" "\<not> bit (output_sp_addr s) 31"
    and size: "unat (output_rows s) \<le> 16" "unat (output_cols s) \<le> 16" "0 < unat (c_stride s) \<or> unat (output_rows s) \<le> 1"
    and fit: "\<And>i. i < unat (output_rows s) \<Longrightarrow> out_row s i < 16384"
  shows "succeeds (compute_write R s) (\<lambda>t. wf_state t \<and> (\<exists>m. t = s\<lparr>spad := m\<rparr>) \<and>
    (\<forall>i < unat (output_rows s). \<forall>j < unat (output_cols s). spad t ! out_row s i ! j =
      apply_activation_sys s (word_of_int (clamp8 (rhe (of_int (sint (pe_result R s i j)) / 2 ^ unat (pe_shift s)))))) \<and>
    (\<forall>r c. \<not> out_touched s r c \<longrightarrow> mat_at (spad t) r c = mat_at (spad s) r c))"
proof -
  define cell where "cell = (\<lambda>x :: nat \<times> nat. (out_row s (fst x), snd x))"
  let ?J = "\<lambda>t. wf_state t \<and> (\<exists>m. t = s\<lparr>spad := m\<rparr>)"
  let ?rows = "unat (output_rows s)" and ?cols = "unat (output_cols s)"
  let ?val = "\<lambda>i j. apply_activation_sys s
    (word_of_int (clamp8 (rhe (of_int (sint (pe_result R s i j)) / 2 ^ unat (pe_shift s)))))"
  have flag: "\<not> drop_bit 31 (output_sp_addr s) AND 1 \<noteq> 0"
    using out(2) by (simp add: and_one_eq odd_iff_mod_2_eq_one [symmetric] bit_iff_odd_drop_bit flip: even_iff_mod_2_eq_zero)
  have "succeeds (forE ?rows (\<lambda>i. forE ?cols (write_result R i)) s) (\<lambda>t. ?J t \<and>
    (\<forall>k. in_mat (spad t) k = in_mat (spad s) k) \<and>
    (\<forall>i < ?rows. \<forall>j < ?cols. \<forall>v. mat_at (spad s) (fst (cell (i, j))) (snd (cell (i, j))) = Inr v \<longrightarrow>
      mat_at (spad t) (fst (cell (i, j))) (snd (cell (i, j))) = Inr (?val i j)) \<and>
    (\<forall>k. k \<notin> cell ` ({..<?rows} \<times> {..<?cols}) \<longrightarrow> mat_at (spad t) (fst k) (snd k) = mat_at (spad s) (fst k) (snd k)))"
  proof (rule sp.sweep_grid [where J = ?J and key = cell])
    show "inj_on cell ({..<?rows} \<times> {..<?cols})"
      using size(3) by (auto simp: inj_on_def cell_def out_row_def)
    show "\<And>i j. i < ?rows \<Longrightarrow> j < ?cols \<Longrightarrow> in_mat (spad s) (cell (i, j))"
      using fit size(2) by (simp add: cell_def wf_state_in_mat [OF s(1)])
    show "?J s" using s(1) by (auto intro: exI [of _ "spad s"])
    show "\<And>t k v u. ?J t \<Longrightarrow> set_spad t k v = Inr u \<Longrightarrow> ?J u" using set_wf(1) set_frame(1) by blast
    show "write_result R i j t = set_spad t (cell (i, j)) (?val i j)"
      if ij: "i < ?rows" "j < ?cols" and t: "?J t" for i j t v
    proof -
      obtain m where m: "t = s\<lparr>spad := m\<rparr>" using t by blast
      have val: "(if mode s = OS then mat_at (pe_state s) i j else mat_at R i j) = Inr (pe_result R s i j)"
        using ij size(1,2) s(1,2) by (simp add: pe_result_def mat_at_ok wf_state_in_mat in_mat_dims)
      show ?thesis
        using flag val sys_shift_op_rhe [OF s(3), of "pe_result R s i j"]
        by (cases "mode s")
          (simp_all add: m write_result_def Let_def set_spad_def cell_def out_row_def pe_shift_def apply_activation_sys_def)
    qed
  qed
  moreover have "compute_write R s = forE ?rows (\<lambda>i. forE ?cols (write_result R i)) s"
    using out(1) by (simp add: compute_write_def)
  ultimately obtain t where t: "compute_write R s = Inr t" "?J t"
    "\<forall>i < ?rows. \<forall>j < ?cols. \<forall>v. mat_at (spad s) (out_row s i) j = Inr v \<longrightarrow>
      mat_at (spad t) (out_row s i) j = Inr (?val i j)"
    "\<forall>k. k \<notin> cell ` ({..<?rows} \<times> {..<?cols}) \<longrightarrow> mat_at (spad t) (fst k) (snd k) = mat_at (spad s) (fst k) (snd k)"
    unfolding succeeds_iff cell_def fst_conv snd_conv by auto
  have "spad t ! out_row s i ! j = ?val i j" if ij: "i < ?rows" "j < ?cols" for i j
  proof -
    have "in_mat (spad s) (out_row s i, j)" using fit [OF ij(1)] ij size(2) by (simp add: wf_state_in_mat [OF s(1)])
    then have "mat_at (spad s) (out_row s i) j = Inr (spad s ! out_row s i ! j)" by (rule mat_at_ok)
    with t(3) ij have "mat_at (spad t) (out_row s i) j = Inr (?val i j)" by blast
    then show ?thesis unfolding mat_at_Inr_iff by simp
  qed
  moreover have "mat_at (spad t) r c = mat_at (spad s) r c" if "\<not> out_touched s r c" for r c
  proof -
    have "(r, c) \<notin> cell ` ({..<?rows} \<times> {..<?cols})" using that by (auto simp: out_touched_def cell_def)
    then show ?thesis using t(4) by fastforce
  qed
  ultimately show ?thesis using t(1,2) by simp
qed

text \<open>One run in output-stationary mode without preload, with the result going to the scratchpad.\<close>

lemma compute_OS:
  fixes s :: "'z gemmini_state_scheme"
  assumes s: "wf_state s" "mode s = OS" "unat (ucast (sys_shift s) :: u32) < 32"
    and D: "\<And>i j. i < 16 \<Longrightarrow> j < 16 \<Longrightarrow> bias_value (ucast (y AND 0xFFFFFFFF))
      (ucast (fld (ADDR_LEN + 16) 0xFFFF y)) (ucast (fld ADDR_LEN 0xFFFF y)) s i j = Inr (D i j)"
    and A: "\<And>i k. i < 16 \<Longrightarrow> k < 16 \<Longrightarrow> operand_a x i k s = Inr (A i k)"
    and B: "\<And>k j. k < 16 \<Longrightarrow> j < 16 \<Longrightarrow> operand_b y k j s = Inr (B k j)"
    and out: "NOT (output_sp_addr s) \<noteq> 0" "\<not> bit (output_sp_addr s) 31"
    and size: "unat (output_rows s) \<le> 16" "unat (output_cols s) \<le> 16" "0 < unat (c_stride s) \<or> unat (output_rows s) \<le> 1"
    and fit: "\<And>i. i < unat (output_rows s) \<Longrightarrow> out_row s i < 16384"
  defines "P \<equiv> \<lambda>i j. pe_state s ! i ! j + (\<Sum>k<16. scast (A i k) * scast (B k j))"
  shows "succeeds (compute x y False s) (\<lambda>t. wf_state t \<and> (\<exists>p m. t = s\<lparr>pe_state := p, spad := m\<rparr>) \<and>
    (\<forall>i < 16. \<forall>j < 16. pe_state t ! i ! j = P i j) \<and>
    (\<forall>i < unat (output_rows s). \<forall>j < unat (output_cols s). spad t ! out_row s i ! j =
      apply_activation_sys s (word_of_int (clamp8 (rhe (of_int (sint (P i j)) / 2 ^ unat (ucast (sys_shift s) :: u32)))))) \<and>
    (\<forall>r c. \<not> out_touched s r c \<longrightarrow> mat_at (spad t) r c = mat_at (spad s) r c))"
proof -
  obtain R where R: "compute_results (ucast (y AND 0xFFFFFFFF)) (ucast (fld (ADDR_LEN + 16) 0xFFFF y))
      (ucast (fld ADDR_LEN 0xFFFF y)) s = Inr R" "mat_dims 16 16 R"
    using compute_results_spec [OF D] unfolding succeeds_iff by blast
  from compute_mac_OS [OF s(2,1) A B, where R = R]
  obtain t p where t: "compute_mac x y R s = Inr (R, t)" "wf_state t" "t = s\<lparr>pe_state := p\<rparr>"
    "\<forall>i < 16. \<forall>j < 16. pe_state t ! i ! j = P i j"
    unfolding succeeds_iff P_def by blast
  have tf: "output_sp_addr t = output_sp_addr s" "output_rows t = output_rows s" "output_cols t = output_cols s"
    "c_stride t = c_stride s" "spad t = spad s" "out_row t = out_row s" "out_touched t = out_touched s"
    "apply_activation_sys t = apply_activation_sys s" "pe_shift t = ucast (sys_shift s)"
    using s(2) by (simp_all add: t(3) out_row_def out_touched_def fun_eq_iff apply_activation_sys_def pe_shift_def)
  have "unat (pe_shift t) < 32" using s(3) by (simp add: tf)
  from compute_write_spad [OF t(2) R(2) this, unfolded tf, OF out size fit]
  obtain u m where u: "compute_write R t = Inr u" "wf_state u" "u = t\<lparr>spad := m\<rparr>"
    "\<forall>i < unat (output_rows s). \<forall>j < unat (output_cols s). spad u ! out_row s i ! j = apply_activation_sys s
      (word_of_int (clamp8 (rhe (of_int (sint (pe_result R t i j)) / 2 ^ unat (ucast (sys_shift s) :: u32)))))"
    "\<forall>r c. \<not> out_touched s r c \<longrightarrow> mat_at (spad u) r c = mat_at (spad s) r c"
    unfolding succeeds_iff by blast
  have pr: "pe_result R t i j = P i j" if "i < 16" "j < 16" for i j
    using s(2) t(3,4) that by (simp add: pe_result_def)
  have "compute x y False s = Inr u" by (simp add: compute_def R(1) t(1) u(1))
  moreover have "\<exists>p m. u = s\<lparr>pe_state := p, spad := m\<rparr>" using u(3) t(3) by auto
  moreover have "pe_state u = pe_state t" using u(3) by simp
  ultimately show ?thesis using u(2,4,5) t(4) size(1,2) pr by simp
qed

section \<open>A tile of a matrix product\<close>

lemma operand_parts:
  assumes "r < 0x10000" "c < 0x10000"
  shows "ucast (block_operand (of_nat r) (of_nat c) a AND 0xFFFFFFFF) = a"
    "unat (ucast (fld ADDR_LEN 0xFFFF (block_operand (of_nat r) (of_nat c) a)) :: u16) = c"
    "unat (ucast (fld (ADDR_LEN + 16) 0xFFFF (block_operand (of_nat r) (of_nat c) a)) :: u16) = r"
proof -
  have l: "of_nat r < (0x10000 :: u64)" "of_nat c < (0x10000 :: u64)"
    using assms by (simp_all add: word_less_nat_alt unat_of_nat take_bit_nat_eq_self)
  note f = block_operand_fields [OF l]
  show "ucast (block_operand (of_nat r) (of_nat c) a AND 0xFFFFFFFF) = a"
    unfolding f by (rule bit_word_eqI) (simp add: bit_ucast_iff)
  have u: "unat (ucast (of_nat n :: u64) :: u16) = n" if "n < 0x10000" for n
    using that by (simp add: unsigned_ucast_eq unat_of_nat take_bit_nat_eq_self)
  show "unat (ucast (fld ADDR_LEN 0xFFFF (block_operand (of_nat r) (of_nat c) a)) :: u16) = c"
    "unat (ucast (fld (ADDR_LEN + 16) 0xFFFF (block_operand (of_nat r) (of_nat c) a)) :: u16) = r"
    unfolding f using u assms by blast+
qed

text \<open>An accumulator address: flag 31, the accumulate flag 30, and a row.\<close>

definition acc_addr :: "bool \<Rightarrow> nat \<Rightarrow> u32" where
  "acc_addr accumulate row = push_bit 31 1 OR push_bit 30 (of_bool accumulate) OR of_nat row"

lemma acc_addr_fields:
  assumes "row < 0x4000000"
  shows "bit (acc_addr b row) 31" "bit (acc_addr b row) 30 = b" "\<not> bit (acc_addr b row) 29"
    "drop_bit 26 (acc_addr b row) AND 7 = 0"
    "unat (acc_addr b row AND 0x1FFFFFFF) = row" "unat (acc_addr b row AND 0x3FFFFFF) = row"
    "NOT (acc_addr b row) \<noteq> 0"
proof -
  let ?w = "of_nat row :: u32"
  have u: "unat ?w = row" using assms by (simp add: unat_of_nat take_bit_nat_eq_self)
  then have "?w < 2 ^ 26" using assms by (simp add: word_less_nat_alt)
  then have w: "bit ?w n \<Longrightarrow> n < 26" for n by (rule word_less_bit)
  have bits: "bit (acc_addr b row) n \<longleftrightarrow> n = 31 \<or> (n = 30 \<and> b) \<or> bit ?w n" for n
  proof -
    have one: "bit (push_bit k 1 :: u32) n \<longleftrightarrow> n = k \<and> k < 32" for k
      by (auto simp: push_bit_of_1 bit_exp_iff)
    have "bit (push_bit 30 (of_bool b) :: u32) n \<longleftrightarrow> n = 30 \<and> b"
      using one [of 30] by (cases b) auto
    then show ?thesis using one [of 31] by (auto simp: acc_addr_def bit_or_iff)
  qed
  show "bit (acc_addr b row) 31" "bit (acc_addr b row) 30 = b" "\<not> bit (acc_addr b row) 29"
    using local_row_fields(1-3) [OF assms] by (simp_all add: bits)
  have m: "(7 :: u32) = mask 3" "(0x1FFFFFFF :: u32) = mask 29" "(0x3FFFFFF :: u32) = mask 26"
    by (simp_all add: mask_eq_exp_minus_1)
  show "drop_bit 26 (acc_addr b row) AND 7 = 0"
    unfolding m by (rule bit_word_eqI) (use w in \<open>fastforce simp: bit_and_iff bit_mask_iff bit_drop_bit_eq bits\<close>)
  have "acc_addr b row AND mask 29 = ?w" "acc_addr b row AND mask 26 = ?w"
    by (rule bit_word_eqI, use w in \<open>fastforce simp: bit_and_iff bit_mask_iff bits\<close>)+
  then show "unat (acc_addr b row AND 0x1FFFFFFF) = row" "unat (acc_addr b row AND 0x3FFFFFF) = row"
    unfolding m using u by simp_all
  have "bit (NOT (acc_addr b row)) 29" using local_row_fields(3) [OF assms] by (simp add: bit_not_iff bits)
  then show "NOT (acc_addr b row) \<noteq> 0" by auto
qed

lemma sum_cut:
  fixes f :: "nat \<Rightarrow> 'a::comm_monoid_add"
  assumes "n \<le> m" "\<And>k. n \<le> k \<Longrightarrow> k < m \<Longrightarrow> f k = 0"
  shows "(\<Sum>k<m. f k) = (\<Sum>k<n. f k)"
  using assms by (intro sum.mono_neutral_right) auto

lemma local_addr_not_garbage:
  assumes "a < 0x4000000"
  shows "NOT (of_nat a :: u32) \<noteq> 0" "unat (of_nat a :: u32) = a" "drop_bit 30 (of_nat a :: u32) AND 3 = 0"
proof -
  note f = local_row_fields [OF assms]
  have "bit (NOT (of_nat a :: u32)) 31" using f(1) by (simp add: bit_not_iff)
  then show "NOT (of_nat a :: u32) \<noteq> 0" by auto
  show "unat (of_nat a :: u32) = a" using assms by (simp add: unat_of_nat take_bit_nat_eq_self)
  have "(3 :: u32) = mask 2" by (simp add: mask_eq_exp_minus_1)
  moreover have "\<not> bit (of_nat a :: u32) (30 + n)" for n
    using f(1,2) bit_imp_le_length [of "of_nat a :: u32" "30 + n"] by (cases "n = 0"; cases "n = 1") fastforce+
  ultimately show "drop_bit 30 (of_nat a :: u32) AND 3 = 0"
    by (simp only:) (rule bit_word_eqI, simp add: bit_and_iff bit_drop_bit_eq)
qed

lemma compute_tile:
  fixes s :: "'z gemmini_state_scheme" and accumulate :: bool
  assumes s: "wf_state s" "mode s = WS" "\<not> a_transpose s" "\<not> b_transpose s" "a_stride s = 1" "c_stride s = 1"
    and size: "I \<le> 16" "J \<le> 16" "K \<le> 16"
    and fit: "pa + I \<le> 16384" "pb + K \<le> 16384" "base + I \<le> 1024"
  defines "u \<equiv> preload (block_operand (of_nat K) (of_nat J) (of_nat pb)) (block_operand (of_nat I) (of_nat J) (acc_addr accumulate base)) s"
  shows "succeeds (compute (block_operand (of_nat I) (of_nat K) (of_nat pa)) (block_operand (of_nat 16) (of_nat 16) (- 1)) True u)
    (\<lambda>t. wf_state t \<and> (\<exists>p m. t = u\<lparr>pe_state := p, accumulator := m\<rparr>) \<and>
      (\<forall>i < I. \<forall>j < J. accumulator t ! (base + i) ! j = (if accumulate then accumulator s ! (base + i) ! j else 0) +
        (\<Sum>k<K. scast (spad s ! (pa + i) ! k) * scast (spad s ! (pb + k) ! j))) \<and>
      (\<forall>r c. \<not> (base \<le> r \<and> r < base + I \<and> c < J) \<longrightarrow> mat_at (accumulator t) r c = mat_at (accumulator s) r c))"
proof -
  have small: "pa < 0x4000000" "pb < 0x4000000" "base < 0x4000000" using fit by simp_all
  note P = operand_parts
  have uf: "preload_sp_addr u = of_nat pb" "output_sp_addr u = acc_addr accumulate base" "unat (preload_cols u) = J"
    "unat (preload_rows u) = K" "unat (output_cols u) = J" "unat (output_rows u) = I"
    using size by (simp_all add: u_def preload_def P del: of_nat_numeral)
  have us: "spad u = spad s" "accumulator u = accumulator s" "mode u = WS" "\<not> a_transpose u" "\<not> b_transpose u"
    "a_stride u = 1" "c_stride u = 1" "wf_state u"
    using s preload_wf [of s] by (simp_all add: u_def preload_def keeps_wf_def)
  define A where "A = (\<lambda>i k. if i < I \<and> k < K then spad s ! (pa + i) ! k else 0)"
  define W where "W = (\<lambda>k j. if k < K \<and> j < J then scast (spad s ! (pb + k) ! j) else (0 :: acc_t))"
  have sp: "mat_at (spad s) r c = Inr (spad s ! r ! c)" if "r < 16384" "c < 16" for r c
    using that s(1) by (simp add: mat_at_ok wf_state_in_mat)
  note g = local_addr_not_garbage
  have pre: "preload_guard u \<and> preload_value u k j = Inr (W k j)" if "k < 16" "j < 16" for k j
    using that fit(2) sp us g [OF small(2)]
    by (simp add: preload_guard_def preload_value_def uf W_def)
  have bias: "bias_value (ucast (block_operand (of_nat 16) (of_nat 16) (- 1) AND 0xFFFFFFFF)) rr cc u i j = Inr 0" for rr cc i j
    by (simp add: bias_value_def P del: of_nat_numeral)
  have opa: "operand_a (block_operand (of_nat I) (of_nat K) (of_nat pa)) i k u = Inr (A i k)" if "i < 16" "k < 16" for i k
    using that size fit(1) sp us g [OF small(1)] by (simp add: compute_a_def P A_def)
  have row: "out_row u i = base + i" for i
    by (simp add: out_row_def uf us acc_addr_fields [OF small(3)])
  have touched: "out_touched u r c \<longleftrightarrow> base \<le> r \<and> r < base + I \<and> c < J" for r c
    by (auto simp: out_touched_def uf row) (metis add.commute add_diff_inverse_nat add_less_cancel_left not_le)
  have sum: "(\<Sum>k<16. scast (A i k) * W k j) = (\<Sum>k<K. scast (spad s ! (pa + i) ! k) * scast (spad s ! (pb + k) ! j))"
    if "i < I" "j < J" for i j
    using that sum_cut [OF size(3), of "\<lambda>k. scast (A i k) * W k j"] by (simp add: A_def W_def)
  have "succeeds (compute (block_operand (of_nat I) (of_nat K) (of_nat pa)) (block_operand (of_nat 16) (of_nat 16) (- 1)) True u)
   (\<lambda>t. wf_state t \<and> (\<exists>p m. t = u\<lparr>pe_state := p, accumulator := m\<rparr>) \<and>
    (\<forall>k < 16. \<forall>j < 16. pe_state t ! k ! j = W k j) \<and>
    (\<forall>i < unat (output_rows u). \<forall>j < unat (output_cols u). accumulator t ! out_row u i ! j =
      (if bit (output_sp_addr u) 30 then accumulator u ! out_row u i ! j else 0) +
      (0 + (\<Sum>k<16. scast (A i k) * W k j))) \<and>
    (\<forall>r c. \<not> out_touched u r c \<longrightarrow> mat_at (accumulator t) r c = mat_at (accumulator u) r c))"
    by (rule compute_WS [where D = "\<lambda>_ _. 0"])
      (use us pre bias opa size fit(3) uf row in \<open>simp_all add: acc_addr_fields [OF small(3)]\<close>)
  then show ?thesis
    by (rule succeeds_mono) (auto simp: uf us(2) row touched sum acc_addr_fields [OF small(3)])
qed

end
