(* ===== verification/Gemmini_Norm_Correct.thy ===== *)
theory Gemmini_Norm_Correct
  imports Gemmini_Move_Correct
begin

text \<open>
  What the normalisation unit computes: the square root is the integer square root, and a row
  moved out with a \<open>MEAN\<close> command leaves the truncated mean of its elements in the slot.
\<close>

section \<open>The square root\<close>

lemma isqrt_bits_spec:
  "r * r \<le> n \<Longrightarrow> n < (r + 2 ^ b) * (r + 2 ^ b) \<Longrightarrow>
   isqrt_bits b n r * isqrt_bits b n r \<le> n \<and> n < Suc (isqrt_bits b n r) * Suc (isqrt_bits b n r)"
proof (induction b arbitrary: r)
  case (Suc b)
  let ?r = "if (r + 2 ^ b) * (r + 2 ^ b) \<le> n then r + 2 ^ b else r"
  have "?r * ?r \<le> n" "n < (?r + 2 ^ b) * (?r + 2 ^ b)" using Suc.prems by (auto simp: algebra_simps)
  from Suc.IH [OF this] show ?case by simp
qed simp

lemma isqrt_spec:
  assumes "n < 2 ^ 32"
  shows "isqrt n * isqrt n \<le> n" "n < Suc (isqrt n) * Suc (isqrt n)"
  unfolding isqrt_def using isqrt_bits_spec [of 0 n 16] assms by simp_all

section \<open>Slots\<close>

lemma get_put_slot:
  assumes "wf_norm n" "i < 4"
  shows "get_slot (put_slot n i c) i = Inr c" "j \<noteq> i \<Longrightarrow> get_slot (put_slot n i c) j = get_slot n j"
  using assms by (simp_all add: get_slot_def put_slot_def arr_def wf_norm_def count_defs)

lemma put_slot_twice [simp]: "put_slot (put_slot n i c) i d = put_slot n i d"
  by (simp add: put_slot_def)

section \<open>Sums over a row\<close>

lemma norm_accumulate_sum:
  assumes "cmd = NSUM \<or> cmd = MEAN" "len \<le> length x"
  shows "norm_accumulate s x len cmd c =
    Inr (c\<lparr>sl_sum := sl_sum c + sum_list (take len x), sl_count := sl_count c + of_nat len\<rparr>)"
proof -
  have "succeeds (forE len (\<lambda>i c. bindE (arr x i) (\<lambda>xi. Inr (c\<lparr>sl_sum := sl_sum c + xi\<rparr>))) c)
    (\<lambda>d. d = c\<lparr>sl_sum := sl_sum c + sum_list (take len x)\<rparr>)"
    by (rule forE_succeeds) (use assms(2) in \<open>auto simp: arr_def take_Suc_conv_app_nth add.assoc\<close>)
  then show ?thesis using assms(1) by (auto simp: norm_accumulate_def succeeds_iff)
qed


text \<open>Element \<open>j\<close> of row \<open>i\<close> of a matrix stored by blocks of 16 columns from row \<open>base\<close> on.\<close>

definition row_elem :: "'z gemmini_state_scheme \<Rightarrow> nat \<Rightarrow> nat \<Rightarrow> nat \<Rightarrow> acc_t" where
  "row_elem s base i j = accumulator s ! (base + j div 16 * 16 + i) ! (j mod 16)"

lemma sum_list_block:
  assumes "length row = 16" "len \<le> 16" "row = accumulator s ! (base + b * 16 + i)"
  shows "(\<Sum>j<b * 16. row_elem s base i j) + sum_list (take len row) = (\<Sum>j<b * 16 + len. row_elem s base i j)"
  using assms(2)
proof (induction len)
  case (Suc len)
  have "row_elem s base i (b * 16 + len) = row ! len"
    using Suc.prems assms(3) by (simp add: row_elem_def)
  moreover have "take (Suc len) row = take len row @ [row ! len]"
    using Suc.prems assms(1) by (simp add: take_Suc_conv_app_nth)
  ultimately show ?case using Suc by (simp add: add.assoc [symmetric])
qed simp

lemma sint_of_small: "n < 2 ^ 31 \<Longrightarrow> sint (of_nat n :: acc_t) = int n"
  by (simp add: signed_of_nat signed_take_bit_int_eq_self)

lemma acc_div_small:
  assumes "0 < n" "n < 2 ^ 31"
  shows "acc_div v (of_nat n) = Inr (word_of_int (trunc_div (sint v) (int n)))"
proof -
  have "trunc_div (sint v) (int n) \<noteq> 2 ^ 31"
  proof (cases "sint v < 0")
    case True
    then show ?thesis using assms(1) by (simp add: trunc_div_def) (smt (verit) pos_imp_zdiv_nonneg_iff of_nat_0_less_iff)
  next
    case False
    have "sint v div int n \<le> sint v" using False assms(1) zdiv_mono2 [of "sint v" 1 "int n"] by simp
    then show ?thesis using False sint32_range(2) [of v] by (simp add: trunc_div_def)
  qed
  then show ?thesis using assms by (simp add: acc_div_def Let_def sint_of_small)
qed


section \<open>The mean of a row\<close>

text \<open>The slot while the sum of a row is gathered, after \<open>k\<close> of its elements.\<close>

definition row_slot :: "'z gemmini_state_scheme \<Rightarrow> nat \<Rightarrow> nat \<Rightarrow> slot \<Rightarrow> nat \<Rightarrow> slot" where
  "row_slot s base i c k = c\<lparr>sl_sum := \<Sum>j<k. row_elem s base i j, sl_count := of_nat k, sl_running_max := ACC_MIN, sl_reset := False\<rparr>"

lemma norm_start_slot:
  assumes "sl_reset c"
  shows "norm_start cmd c = (row_slot s base i c 0)\<lparr>sl_reset := cmd = RESET \<or> cmd = MEAN \<or> cmd = INV_STDDEV\<rparr>"
  using assms by (simp add: norm_start_def row_slot_def)

lemma norm_start_row_slot:
  "norm_start cmd (row_slot s base i c k) = (row_slot s base i c k)\<lparr>sl_reset := cmd = RESET \<or> cmd = MEAN \<or> cmd = INV_STDDEV\<rparr>"
  by (simp add: norm_start_def row_slot_def)

lemma norm_accumulate_row:
  assumes "cmd = NSUM \<or> cmd = MEAN" "length row = 16" "len \<le> 16" "row = accumulator s ! (base + b * 16 + i)"
  shows "norm_accumulate t row len cmd ((row_slot s base i c (b * 16))\<lparr>sl_reset := r\<rparr>) =
    Inr ((row_slot s base i c (b * 16 + len))\<lparr>sl_reset := r\<rparr>)"
  using norm_accumulate_sum [OF assms(1), of len row t "(row_slot s base i c (b * 16))\<lparr>sl_reset := r\<rparr>"] assms(2,3)
    sum_list_block [OF assms(2,3,4)]
  by (simp add: row_slot_def)

text \<open>One block of the row: \<open>c\<close> is the slot before the row, the state before the block is \<open>t\<close>.\<close>

lemma apply_norm_block:
  fixes s :: "'z gemmini_state_scheme"
  defines "si \<equiv> unat (norm_stat_id (norm_st s))"
  assumes s: "wf_norm (norm_st s)" "si < 4" "get_slot (norm_st s) si = Inr c" "sl_reset c"
    and row: "length row = 16" "len \<le> 16" "row = accumulator s ! (base + b * 16 + i)" "cmd = NSUM \<or> cmd = MEAN"
    and t: "t = (if b = 0 then s else s\<lparr>norm_st := put_slot (norm_st s) si (row_slot s base i c (b * 16))\<rparr>)"
    and fin: "norm_finish cmd ((row_slot s base i c (b * 16 + len))\<lparr>sl_reset := cmd = MEAN\<rparr>) = Inr d"
  shows "apply_norm row len cmd t = Inr (False, s\<lparr>norm_st := put_slot (norm_st s) si d\<rparr>)"
proof -
  have sid: "unat (norm_stat_id (norm_st t)) = si" by (simp add: t si_def put_slot_def)
  have "\<exists>c'. get_slot (norm_st t) si = Inr c' \<and>
    norm_start cmd c' = (row_slot s base i c (b * 16))\<lparr>sl_reset := cmd = MEAN\<rparr>"
  proof (cases "b = 0")
    case True
    then show ?thesis using s row(4) norm_start_slot [OF s(4), of cmd s base i] by (auto simp: t)
  next
    case False
    then show ?thesis using get_put_slot(1) [OF s(1,2)] row(4) by (auto simp: t norm_start_row_slot)
  qed
  then obtain c' where c': "get_slot (norm_st t) si = Inr c'"
    "norm_start cmd c' = (row_slot s base i c (b * 16))\<lparr>sl_reset := cmd = MEAN\<rparr>" by blast
  have "norm_accumulate t row len cmd ((row_slot s base i c (b * 16))\<lparr>sl_reset := cmd = MEAN\<rparr>) =
      Inr ((row_slot s base i c (b * 16 + len))\<lparr>sl_reset := cmd = MEAN\<rparr>)"
    by (rule norm_accumulate_row [OF row(4,1,2,3)])
  then have "apply_norm row len cmd t = Inr (cmd = RESET, t\<lparr>norm_st := put_slot (norm_st t) si d\<rparr>)"
    by (simp add: apply_norm_def Let_def sid c' fin)
  moreover have "t\<lparr>norm_st := put_slot (norm_st t) si d\<rparr> = s\<lparr>norm_st := put_slot (norm_st s) si d\<rparr>" by (simp add: t)
  ultimately show ?thesis using row(4) by auto
qed


lemma mvout_norm_mean:
  fixes s :: "'m sim"
  defines "si \<equiv> unat (norm_stat_id (norm_st s))"
  assumes s: "wf_state s" "si < 4" "get_slot (norm_st s) si = Inr c" "sl_reset c"
    and cols: "0 < cols" "cols < 2 ^ 31" and fit: "\<And>j. j < cols \<Longrightarrow> base + j div 16 * 16 + i < 1024"
  shows "\<exists>d. mvout_norm base cols MEAN i s = Inr (False, s\<lparr>norm_st := put_slot (norm_st s) si d\<rparr>) \<and>
    sl_mean d = word_of_int (trunc_div (sint (\<Sum>j<cols. row_elem s base i j)) (int cols)) \<and> sl_reset d"
proof -
  define n where "n = (cols + 16 - 1) div 16"
  have n: "0 < n" "(n - 1) * 16 < cols" "cols \<le> n * 16" using cols(1) by (auto simp: n_def)
  define d where "d = (row_slot s base i c cols)\<lparr>sl_reset := True,
    sl_mean := word_of_int (trunc_div (sint (\<Sum>j<cols. row_elem s base i j)) (int cols))\<rparr>"
  have fin: "norm_finish MEAN ((row_slot s base i c cols)\<lparr>sl_reset := True\<rparr>) = Inr d"
    using acc_div_small [OF cols] by (simp add: norm_finish_def d_def row_slot_def)
  define st where "st = (\<lambda>b. if b = 0 then s
    else s\<lparr>norm_st := put_slot (norm_st s) si (if b < n then row_slot s base i c (b * 16) else d)\<rparr>)"
  have wfn: "wf_norm (norm_st s)" using s(1) by (simp add: wf_state_def wf_arrays_def)
  have "succeeds (mvout_norm base cols MEAN i s) (\<lambda>(w, t). t = st n \<and> (0 < n \<longrightarrow> \<not> w))"
    unfolding mvout_norm_def DIM_def n_def [symmetric]
  proof (rule forE_succeeds [where P = "\<lambda>b (w, t). t = st b \<and> (0 < b \<longrightarrow> \<not> w)"])
    fix b and p :: "bool \<times> 'm sim"
    assume b: "b < n" and p: "case p of (w, t) \<Rightarrow> t = st b \<and> (0 < b \<longrightarrow> \<not> w)"
    then have bc: "b * 16 < cols" using n(2) by linarith
    let ?row = "accumulator s ! (base + b * 16 + i)"
    have r: "base + b * 16 + i < 1024" using fit [OF bc] by simp
    then have row: "length ?row = 16" "vec_at (accumulator (st b)) (base + b * 16 + i) = Inr ?row"
      using s(1) by (auto simp: vec_at_def st_def wf_state_def wf_memories_def mat_dims_nth accum_rows_def size_defs)
    let ?len = "if 16 < cols - b * 16 then 16 else cols - b * 16"
    let ?cmd = "if cols \<le> b * 16 + 16 then MEAN else NSUM"
    have last: "cols \<le> b * 16 + 16 \<longleftrightarrow> Suc b = n" using n b by auto
    have "apply_norm ?row ?len ?cmd (st b) = Inr (False, s\<lparr>norm_st := put_slot (norm_st s) si
        (if Suc b < n then row_slot s base i c (Suc b * 16) else d)\<rparr>)"
      unfolding si_def
    proof (rule apply_norm_block [OF wfn _ _ s(4) row(1)])
      show "norm_finish ?cmd ((row_slot s base i c (b * 16 + ?len))\<lparr>sl_reset := ?cmd = MEAN\<rparr>) =
        Inr (if Suc b < n then row_slot s base i c (Suc b * 16) else d)"
        using fin last bc b by (auto simp: norm_finish_def row_slot_def add.commute)
    qed (use s b in \<open>auto simp: si_def st_def\<close>)
    then have step: "apply_norm ?row ?len ?cmd (st b) = Inr (False, st (Suc b))" by (simp add: st_def)
    show "succeeds ((\<lambda>(_, s). let j = b * 16; spad_row = base + b * 16 + i;
          len = if 16 < cols - j then 16 else cols - j; is_last = cols \<le> j + 16;
          n_cmd = if is_last then MEAN else non_terminating_norm_cmd MEAN
        in bindE (vec_at (accumulator s) spad_row) (\<lambda>row. bindE (vec_at row 0) (\<lambda>_. apply_norm row len n_cmd s))) p)
      (\<lambda>(w, t). t = st (Suc b) \<and> (0 < Suc b \<longrightarrow> \<not> w))"
      using p row step by (cases p) (simp add: vec_at_def [of ?row] Let_def cong: if_cong split del: if_split)
  qed (simp add: st_def)
  then have "mvout_norm base cols MEAN i s = Inr (False, s\<lparr>norm_st := put_slot (norm_st s) si d\<rparr>)"
    using n(1) by (auto simp: succeeds_iff st_def)
  then show ?thesis by (auto simp: d_def)
qed

text \<open>
  A whole \<open>mvout\<close> with the command \<open>MEAN\<close>: no row is written to memory, each leaves its mean in the slot and
  the slot ready for the next, so that the mean of the last row stays.
\<close>

lemma mvout_mean:
  fixes s :: "'m sim"
  defines "si \<equiv> unat (norm_stat_id (norm_st s))"
  assumes s: "wf_state s" "pool_stride s = 0" "si < 4" "get_slot (norm_st s) si = Inr c" "sl_reset c"
    and op: "norm_cmd_of (fld 26 7 sp_addr) = MEAN" "base = unat (sp_addr AND 0x3FFFFFF)"
      "cols = unat (fld ADDR_LEN 0xFFFF sp_addr)" "rows = unat (fld (ADDR_LEN + 16) 0xFFFF sp_addr)"
    and dims: "0 < cols" "0 < rows" and fit: "\<And>i j. i < rows \<Longrightarrow> j < cols \<Longrightarrow> base + j div 16 * 16 + i < 1024"
  shows "\<exists>d. mvout M dram_addr sp_addr s = Inr (s\<lparr>norm_st := put_slot (norm_st s) si d\<rparr>) \<and>
    sl_mean d = word_of_int (trunc_div (sint (\<Sum>j<cols. row_elem s base (rows - 1) j)) (int cols))"
proof -
  have "fld ADDR_LEN 0xFFFF sp_addr \<le> 0xFFFF" by (simp add: fld_def word_and_le1)
  then have cols: "cols < 2 ^ 31" by (simp add: op(3) word_le_nat_alt)
  have wfn: "wf_norm (norm_st s)" using s(1) by (simp add: wf_state_def wf_arrays_def)
  let ?P = "\<lambda>k t. k = 0 \<and> t = s \<or> (\<exists>d. t = s\<lparr>norm_st := put_slot (norm_st s) si d\<rparr> \<and> sl_reset d \<and>
    sl_mean d = word_of_int (trunc_div (sint (\<Sum>j<cols. row_elem s base (k - 1) j)) (int cols)))"
  have "succeeds (mvout M dram_addr sp_addr s) (?P rows)"
    unfolding mvout_def s(2) mvout_rows_def Let_def if_True simp_thms op(1) op(2-4) [symmetric]
  proof (rule forE_succeeds [where P = ?P])
    fix i and t :: "'m sim" assume i: "i < rows" and t: "?P i t"
    then obtain e where e: "get_slot (norm_st t) si = Inr e" "sl_reset e"
      using s get_put_slot(1) [OF wfn s(3)] by auto
    have same: "unat (norm_stat_id (norm_st t)) = si" "wf_state t" "row_elem t base i = row_elem s base i"
      using t s(1) by (auto simp: si_def put_slot_def row_elem_def fun_eq_iff wf_state_def wf_arrays_def wf_norm_def wf_memories_def)
    obtain d where d: "mvout_norm base cols MEAN i t = Inr (False, t\<lparr>norm_st := put_slot (norm_st t) si d\<rparr>)" "sl_reset d"
      "sl_mean d = word_of_int (trunc_div (sint (\<Sum>j<cols. row_elem s base i j)) (int cols))"
      using mvout_norm_mean [of t e cols base i, unfolded same, OF same(2) s(3) e dims(1) cols] fit [OF i] by auto
    have "t\<lparr>norm_st := put_slot (norm_st t) si d\<rparr> = s\<lparr>norm_st := put_slot (norm_st s) si d\<rparr>" using t by auto
    then show "succeeds (bindE (mvout_norm base cols MEAN i t) (\<lambda>(should_write, s). if \<not> should_write then Inr s
        else forE cols (\<lambda>j. mvout_elem M (flag 31 sp_addr) (flag 29 sp_addr) base (dram_addr + of_nat i * store_stride t) i j) s)) (?P (Suc i))"
      using d by auto
  qed simp
  then show ?thesis using dims(2) by (auto simp: succeeds_iff)
qed

end
