(* ===== verification/Gemmini_Loop_Correct.thy ===== *)
theory Gemmini_Loop_Correct
  imports Gemmini_Loop_Conv
begin

text \<open>
  The hardware loops: how much fuel the 16-bit loops of \<open>loop_conv_ws\<close> need, which of them end,
  and where \<open>loop_ws\<close> puts its tiles.
\<close>

section \<open>Loops over 16-bit counters\<close>

lemma to_u16_mod: "to_u16 x = x mod 65536"
  by (simp add: to_u16_def uint_word_of_int)

lemma to_u16_id: "0 \<le> x \<Longrightarrow> x < 2 ^ 16 \<Longrightarrow> to_u16 x = x"
  by (simp add: to_u16_def uint_word_of_int)

lemma to_u16_range: "0 \<le> to_u16 x" "to_u16 x < 2 ^ 16"
  unfolding to_u16_def using uint_lt2p [of "word_of_int x :: 16 word"] by simp_all

text \<open>The fuel is enough: a loop that returns with any amount of fuel returns the same in the model.\<close>

lemma loop_u16_fuel:
  assumes "whileE n (\<lambda>x. x < bound) (\<lambda>x. to_u16 (x + inc)) body 0 s = Inr t"
  shows "loop_u16 bound inc body s = Inr t"
  unfolding loop_u16_def LOOP_FUEL_def
  by (rule whileE_fuel [where S = "{0 ..< 2 ^ 16}", OF _ _ _ _ assms]) (use to_u16_range in auto)

lemma loop_u16_iter:
  assumes "0 < inc" "int k * inc < 2 ^ 16"
  shows "((\<lambda>x. to_u16 (x + inc)) ^^ k) 0 = int k * inc"
  using assms(2)
proof (induction k)
  case (Suc k)
  then have "int k * inc < 2 ^ 16" using assms(1) by (simp add: algebra_simps)
  then show ?case
    using Suc assms(1) by (simp add: to_u16_id algebra_simps)
qed simp

text \<open>A loop whose counter cannot wrap around visits the multiples of its step below the bound.\<close>

lemma loop_u16_visits:
  assumes "0 < inc" "0 \<le> bound" "bound + inc \<le> 2 ^ 16"
  shows "loop_u16 bound inc body s = foldE body (map (\<lambda>i. int i * inc) [0..<nat ((bound + inc - 1) div inc)]) s"
proof -
  let ?nxt = "\<lambda>x. to_u16 (x + inc)"
  define K where "K = nat ((bound + inc - 1) div inc)"
  have k: "int K = (bound + inc - 1) div inc" using assms by (simp add: K_def pos_imp_zdiv_nonneg_iff)
  have up: "int K * inc \<le> bound + inc - 1"
    unfolding k using assms(1) by (metis mult.commute minus_mod_eq_mult_div diff_le_eq le_add_same_cancel1 pos_mod_sign)
  have low: "bound \<le> int K * inc"
  proof -
    have "(bound + inc - 1) mod inc < inc" using assms(1) by simp
    moreover have "bound + inc - 1 = int K * inc + (bound + inc - 1) mod inc" unfolding k by simp
    ultimately show ?thesis by linarith
  qed
  have it: "(?nxt ^^ i) 0 = int i * inc" if "i \<le> K" for i
  proof (rule loop_u16_iter [OF assms(1)])
    have "int i * inc \<le> int K * inc" using that assms(1) by (intro mult_right_mono) simp_all
    then show "int i * inc < 2 ^ 16" using up assms(3) by linarith
  qed
  have lt: "int i * inc < bound" if "i < K" for i
  proof -
    have "int (Suc i) * inc \<le> int K * inc" using that assms(1) by (intro mult_right_mono) simp_all
    then show ?thesis using up by (simp add: algebra_simps)
  qed
  have "K \<le> LOOP_FUEL"
  proof -
    have "int K * 1 \<le> int K * inc" using assms(1) by (intro mult_left_mono) simp_all
    then show ?thesis using up assms(3) by (simp add: LOOP_FUEL_def)
  qed
  then have "loop_u16 bound inc body s = foldE body (map (\<lambda>i. (?nxt ^^ i) 0) [0..<K]) s"
    unfolding loop_u16_def by (intro whileE_foldE) (use it lt low in auto)
  also have "map (\<lambda>i. (?nxt ^^ i) 0) [0..<K] = map (\<lambda>i. int i * inc) [0..<K]"
    by (rule map_cong) (use it in auto)
  finally show ?thesis by (simp only: K_def)
qed

text \<open>
  A loop with step 16 over more than 65520 channels never ends: its counter goes from 65520
  back to 0.
\<close>

lemma multiple_of_16_below: "y mod 16 = 0 \<Longrightarrow> y < 65536 \<Longrightarrow> y \<le> (65520 :: int)"
  by presburger

lemma loop_u16_diverges:
  assumes "65520 < bound"
  shows "whileE n (\<lambda>x. x < bound) (\<lambda>x. to_u16 (x + 16)) body 0 s \<noteq> Inr t"
proof (rule whileE_diverges)
  fix k
  have "((\<lambda>x. to_u16 (x + 16)) ^^ k) 0 mod 16 = 0 \<and> ((\<lambda>x. to_u16 (x + 16)) ^^ k) 0 \<le> 65520"
  proof (induction k)
    case (Suc k)
    let ?x = "((\<lambda>x. to_u16 (x + 16)) ^^ k) 0"
    have "(?x + 16) mod 65536 mod 16 = 0"
      using Suc by (simp add: mod_mod_cancel)
    moreover have "to_u16 (?x + 16) = (?x + 16) mod 65536" by (rule to_u16_mod)
    moreover have "(?x + 16) mod 65536 < 65536" by simp
    ultimately show ?case using multiple_of_16_below [of "(?x + 16) mod 65536"] by simp
  qed simp
  then show "((\<lambda>x. to_u16 (x + 16)) ^^ k) 0 < bound" using assms by simp
qed

lemma loop_u16_stuck: "65520 < bound \<Longrightarrow> loop_u16 bound (int DIM) body s \<noteq> Inr t"
  unfolding loop_u16_def DIM_def using loop_u16_diverges by simp

section \<open>The tiles of loop_ws\<close>

lemma to_i32_id: "- (2 ^ 31) \<le> x \<Longrightarrow> x < 2 ^ 31 \<Longrightarrow> to_i32 x = x"
  by (simp add: to_i32_def signed_of_int signed_take_bit_int_eq_self)

text \<open>The bounds \<open>loop_ws\<close> means to check, without the wrap-around of \<open>int\<close>.\<close>

definition loop_ws_room :: "nat \<Rightarrow> nat \<Rightarrow> nat \<Rightarrow> bool" where
  "loop_ws_room I J K \<longleftrightarrow> (I * K + K * J) * 16 \<le> 8192 \<and> I * J * 16 \<le> 512"

lemma loop_ws_fits_room:
  fixes r :: loop_ws_regs
  defines "I \<equiv> unat (loop_ws_I r)" and "J \<equiv> unat (loop_ws_J r)" and "K \<equiv> unat (loop_ws_K r)"
  assumes "(I * K + K * J) * 16 < 2 ^ 31" "I * J * 16 < 2 ^ 31"
  shows "loop_ws_fits r \<longleftrightarrow> loop_ws_room I J K"
proof -
  have u: "uint (loop_ws_I r) = int I" "uint (loop_ws_J r) = int J" "uint (loop_ws_K r) = int K"
    by (simp_all add: I_def J_def K_def)
  have i32: "to_i32 (int n) = int n" if "n < 2 ^ 31" for n using that by (intro to_i32_id) simp_all
  define S T where "S = (I * K + K * J) * 16" and "T = I * J * 16"
  have "(int I * int K + int K * int J) * 16 = int S" "int I * int J * 16 = int T" by (simp_all add: S_def T_def)
  moreover have "to_i32 (int S) = int S" "to_i32 (int T) = int T"
    by (rule i32, use assms(4,5) in \<open>simp only: S_def T_def\<close>)+
  ultimately have "loop_ws_fits r \<longleftrightarrow> \<not> (8192 < int S \<or> 512 < int T)"
    by (simp add: loop_ws_fits_def Let_def u size_defs)
  then show ?thesis unfolding loop_ws_room_def S_def [symmetric] T_def [symmetric] by auto
qed

lemma tile_index:
  assumes "i < I" "k < (K :: nat)"
  shows "i * K + k + 1 \<le> I * K"
proof -
  have "Suc i * K \<le> I * K" using assms(1) by (intro mult_le_mono) simp_all
  then show ?thesis using assms(2) by simp
qed

lemma unat_add_small: "unat x + n < 2 ^ 32 \<Longrightarrow> unat (x + of_nat n :: u32) = unat x + n"
  by (simp add: unat_word_ariths unat_of_nat take_bit_nat_eq_self)

lemma loop_ws_A_row:
  assumes "\<not> ws_is_resadd c" "loop_ws_room (unat (loop_ws_I r)) J (unat (loop_ws_K r))"
    and "i < unat (loop_ws_I r)" "k < unat (loop_ws_K r)"
  shows "unat (loop_ws_A_addr c r i k) = (if ws_a_spad_id c = 2 then 8192 else 0) +
    (if ws_a_transpose c then k * unat (loop_ws_I r) + i else i * unat (loop_ws_K r) + k) * 16"
proof -
  let ?n = "if ws_a_transpose c then k * unat (loop_ws_I r) + i else i * unat (loop_ws_K r) + k"
  have "?n + 1 \<le> unat (loop_ws_I r) * unat (loop_ws_K r)"
    using tile_index [OF assms(3,4)] tile_index [OF assms(4,3)] by (auto simp: mult.commute)
  then have "?n * 16 < 8192" using assms(2) by (simp add: loop_ws_room_def)
  moreover have "loop_ws_A_addr c r i k = (if ws_a_spad_id c = 2 then 8192 else 0) + of_nat (?n * 16)"
    using assms(1) by (simp add: loop_ws_A_addr_def loop_ws_A_start_def Let_def size_defs)
  moreover have "unat ((if ws_a_spad_id c = 2 then 8192 else 0) :: u32) = (if ws_a_spad_id c = 2 then 8192 else 0)" by simp
  ultimately show ?thesis
    using unat_add_small [of "if ws_a_spad_id c = 2 then 8192 else 0" "?n * 16"] by simp
qed

lemma loop_ws_B_row:
  fixes r :: loop_ws_regs
  defines "K \<equiv> unat (loop_ws_K r)" and "J \<equiv> unat (loop_ws_J r)"
  assumes "\<not> ws_is_resadd c" "loop_ws_room I J K" and "k < K" "j < J"
  shows "unat (loop_ws_B_addr c r k j) = (if ws_b_spad_id c = 2 then 16384 else 8192) - K * J * 16 +
    (if ws_b_transpose c then j * K + k else k * J + j) * 16"
proof -
  let ?n = "if ws_b_transpose c then j * K + k else k * J + j"
  have n: "?n + 1 \<le> K * J" using tile_index [OF assms(5,6)] tile_index [OF assms(6,5)] by (auto simp: mult.commute)
  have KJ: "K * J * 16 \<le> 8192" using assms(4) unfolding loop_ws_room_def add_mult_distrib by linarith
  let ?e = "if ws_b_spad_id c = 2 then 16384 else (8192 :: nat)"
  have "loop_ws_B_addr c r k j = of_nat (?e - K * J * 16) + of_nat (?n * 16)"
    using assms(3) KJ
    by (simp add: loop_ws_B_addr_def loop_ws_B_start_def Let_def size_defs K_def J_def of_nat_diff)
  moreover have "unat (of_nat (?e - K * J * 16) :: u32) = ?e - K * J * 16"
    by (auto simp: unat_of_nat take_bit_nat_eq_self)
  moreover have "?e - K * J * 16 + ?n * 16 < 2 ^ 32" using n KJ by auto
  ultimately show ?thesis
    using unat_add_small [of "of_nat (?e - K * J * 16)" "?n * 16"] by (simp only:)
qed


text \<open>
  Within the bounds the tiles of A and B lie in the scratchpad, those of A do not meet those
  of B, and the tiles of one operand do not meet each other.
\<close>

lemma tiles_apart: "(m :: nat) \<noteq> n \<Longrightarrow> m * 16 + 16 \<le> n * 16 \<or> n * 16 + 16 \<le> m * 16"
  by arith

lemma loop_ws_tiles:
  fixes r :: loop_ws_regs
  defines "I \<equiv> unat (loop_ws_I r)" and "J \<equiv> unat (loop_ws_J r)" and "K \<equiv> unat (loop_ws_K r)"
  assumes c: "\<not> ws_is_resadd c" and room: "loop_ws_room I J K"
    and "i < I" "k < K" "k' < K" "j < J"
  shows "unat (loop_ws_A_addr c r i k) + 16 \<le> 16384" "unat (loop_ws_B_addr c r k' j) + 16 \<le> 16384"
    "unat (loop_ws_A_addr c r i k) + 16 \<le> unat (loop_ws_B_addr c r k' j) \<or>
     unat (loop_ws_B_addr c r k' j) + 16 \<le> unat (loop_ws_A_addr c r i k)"
proof -
  define a where "a = (if ws_a_transpose c then k * I + i else i * K + k)"
  define b where "b = (if ws_b_transpose c then j * K + k' else k' * J + j)"
  have A: "unat (loop_ws_A_addr c r i k) = (if ws_a_spad_id c = 2 then 8192 else 0) + a * 16"
    using loop_ws_A_row [of c r J i k] c room assms(6,7) by (simp add: a_def I_def K_def)
  have B: "unat (loop_ws_B_addr c r k' j) = (if ws_b_spad_id c = 2 then 16384 else 8192) - K * J * 16 + b * 16"
    using loop_ws_B_row [of c I r k' j] c room assms(8,9) by (simp add: b_def J_def K_def)
  have a: "a + 1 \<le> I * K"
    using tile_index [OF assms(6,7)] tile_index [OF assms(7,6)] by (auto simp: a_def mult.commute)
  have b: "b + 1 \<le> K * J"
    using tile_index [OF assms(8,9)] tile_index [OF assms(9,8)] by (auto simp: b_def mult.commute)
  have s: "I * K * 16 + K * J * 16 \<le> 8192" using room unfolding loop_ws_room_def by (simp add: add_mult_distrib)
  show "unat (loop_ws_A_addr c r i k) + 16 \<le> 16384" using A a s by auto
  show "unat (loop_ws_B_addr c r k' j) + 16 \<le> 16384" using B b s by auto
  show "unat (loop_ws_A_addr c r i k) + 16 \<le> unat (loop_ws_B_addr c r k' j) \<or>
     unat (loop_ws_B_addr c r k' j) + 16 \<le> unat (loop_ws_A_addr c r i k)" using A B a b s by auto
qed

end
