(* ===== verification/Sim_Properties.thy ===== *)
theory Sim_Properties
  imports Gemmini_Example Gemmini_Compute_Correct Gemmini_Norm_Correct Gemmini_Loop_Correct
begin

text \<open>
  The properties of the simulator, component by component, each followed by an application to a
  concrete state where it has hypotheses.
\<close>

section \<open>The machine\<close>

text \<open>The codes the dispatcher knows.\<close>

definition known_functs :: "nat list" where
  "known_functs = [mvin_funct, mvin2_funct, mvin3_funct, mvout_funct, preload_funct, config_funct,
     compute_preloaded_funct, compute_accumulated_funct, loop_ws_config_bounds_funct, loop_ws_config_addrs_AB_funct,
     loop_ws_config_addrs_DC_funct, loop_ws_config_strides_AB_funct, loop_ws_config_strides_DC_funct, loop_ws_funct,
     loop_conv_ws_config_1_funct, loop_conv_ws_config_2_funct, loop_conv_ws_config_3_funct, loop_conv_ws_config_4_funct,
     loop_conv_ws_config_5_funct, loop_conv_ws_config_6_funct, loop_conv_ws_funct, counter_op_funct, flush_funct, fence_funct]"

text \<open>
  An instruction with a function code the dispatcher does not know is illegal, whatever its
  operands, and whatever the state of a started accelerator.
\<close>

theorem custom3_illegal:
  assumes "started s" "funct \<notin> set known_functs"
  shows "custom3 M rnd funct xs1 xs2 s = Inl IllegalInstruction"
proof -
  obtain c where c: "\<And>M f x y. custom3 M rnd f x y s = (let u = (if resetted s then s else state_reset s)\<lparr>counter_st := c\<rparr> in
        if f = counter_op_funct then counter_operation x u
        else bindE (exec_funct M f x y u) (\<lambda>s. Inr (0, s\<lparr>op_in_progress := (f \<noteq> flush_funct)\<rparr>)))"
    by (rule custom3_step [OF assms(1), of rnd]) blast
  have "exec_funct M funct xs1 xs2 u = Inl IllegalInstruction" for u
    using assms(2) by (simp add: exec_funct_def known_functs_def)
  then show ?thesis using assms(2) by (simp add: c known_functs_def Let_def)
qed

theorem custom3_illegal_witness: "custom3 ram (\<lambda>_. 0) 22 0 0 (blank ramp) = Inl IllegalInstruction"
  by (rule custom3_illegal [OF blank_started]) (simp add: known_functs_def funct_defs)

section \<open>Moves\<close>

lemma ramp_spad_value:
  "mvin_spad_value ram ramp False MVIN_SCALE_IDENTITY a = Inr (ramp a)"
  by (simp add: mvin_spad_value_def read_elem load_byte_def mvin_scale_one) (simp add: ram_def)

text \<open>
  C9. A \<open>mvin\<close> to the scratchpad puts every element of the block, scaled, into the cell the block
  layout gives it, changes no other cell and nothing else of the state, and does not fail, as long
  as the rows exist, blocks of 16 columns do not overlap and the bytes can be read.
\<close>

theorem mvin_fills_scratchpad:
  fixes s :: "'m sim"
  assumes "wf_state s" "state_id < 3" "pixels_per_rows s ! state_id = 1"
    and "rows < 0x10000" "cols < 0x10000" "\<not> bit a 31"
    and "cols \<le> 16 \<or> rows \<le> unat (load_block_strides s ! state_id)"
  defines "cell \<equiv> mvin_cell (unat (a AND 0x1FFFFFFF)) (unat (load_block_strides s ! state_id))"
  assumes "\<And>row col. row < rows \<Longrightarrow> col < cols \<Longrightarrow> fst (cell (row, col)) < 16384"
    and "\<And>row col. row < rows \<Longrightarrow> col < cols \<Longrightarrow>
      mvin_spad_value M (mem s) (dram_addr = 0) (load_scales s ! state_id)
        (dram_addr + of_nat row * (load_strides s ! state_id) + of_nat col) = Inr (V row col)"
  shows "\<exists>t. mvin M dram_addr (block_operand (of_nat rows) (of_nat cols) a) state_id s = Inr t \<and>
    (\<exists>m. t = s\<lparr>spad := m\<rparr>) \<and>
    (\<forall>row < rows. \<forall>col < cols. mat_at (spad t) (fst (cell (row, col))) (snd (cell (row, col))) = Inr (V row col)) \<and>
    (\<forall>k. k \<notin> cell ` ({..<rows} \<times> {..<cols}) \<longrightarrow> mat_at (spad t) (fst k) (snd k) = mat_at (spad s) (fst k) (snd k))"
  using mvin_spad_block [OF assms(1-7) assms(9,10) [unfolded cell_def]] unfolding cell_def succeeds_iff by blast

theorem mvin_fills_scratchpad_witness:
  "\<exists>t. mvin ram 0x100 (block_operand 2 16 0x20) 0 (ready ramp) = Inr t \<and> mat_at (spad t) 33 5 = Inr 0x15"
proof -
  have "\<exists>t. mvin ram 0x100 (block_operand (of_nat 2) (of_nat 16) 0x20) 0 (ready ramp) = Inr t \<and>
    (\<exists>m. t = (ready ramp)\<lparr>spad := m\<rparr>) \<and>
    (\<forall>row < 2. \<forall>col < 16. mat_at (spad t) (fst (mvin_cell (unat (0x20 AND 0x1FFFFFFF :: u32)) (unat (load_block_strides (ready ramp) ! 0)) (row, col)))
       (snd (mvin_cell (unat (0x20 AND 0x1FFFFFFF :: u32)) (unat (load_block_strides (ready ramp) ! 0)) (row, col))) =
      Inr (ramp (0x100 + of_nat row * 16 + of_nat col))) \<and>
    (\<forall>k. k \<notin> mvin_cell (unat (0x20 AND 0x1FFFFFFF :: u32)) (unat (load_block_strides (ready ramp) ! 0)) ` ({..<2} \<times> {..<16}) \<longrightarrow>
      mat_at (spad t) (fst k) (snd k) = mat_at (spad (ready ramp)) (fst k) (snd k))"
    by (rule mvin_fills_scratchpad) (simp_all add: ready_wf mvin_cell_def ramp_spad_value)
  then obtain t where t: "mvin ram 0x100 (block_operand (of_nat 2) (of_nat 16) 0x20) 0 (ready ramp) = Inr t"
    "\<forall>row < 2. \<forall>col < 16. mat_at (spad t) (32 + row + col div 16 * 16) (col mod 16) = Inr (ramp (0x100 + of_nat row * 16 + of_nat col))"
    by (auto simp: mvin_cell_def)
  have "mat_at (spad t) 33 5 = Inr (ramp 0x115)" using t(2) [rule_format, of 1 5] by simp
  then show ?thesis using t(1) by (auto simp: ramp_def)
qed

text \<open>
  C17. A \<open>mvin\<close> to the accumulator does the same with 32-bit cells, and adds to the old cells when
  the accumulate bit of the address is set.
\<close>

theorem mvin_fills_accumulator:
  fixes s :: "'m sim"
  assumes "wf_state s" "state_id < 3" "pixels_per_rows s ! state_id = 1"
    and "rows < 0x10000" "cols < 0x10000" "bit a 31"
    and "cols \<le> 16 \<or> rows \<le> unat (load_block_strides s ! state_id)"
  defines "cell \<equiv> mvin_cell (unat (a AND 0x1FFFFFFF)) (unat (load_block_strides s ! state_id))"
  assumes "\<And>row col. row < rows \<Longrightarrow> col < cols \<Longrightarrow> fst (cell (row, col)) < 1024"
    and "\<And>row col. row < rows \<Longrightarrow> col < cols \<Longrightarrow>
      mvin_acc_value M (mem s) (dram_addr = 0) (load_shrunks s ! state_id) (load_scales s ! state_id)
        (dram_addr + of_nat row * (load_strides s ! state_id)
          + of_nat col * (if load_shrunks s ! state_id then 1 else 4)) = Inr (V row col)"
  shows "\<exists>t. mvin M dram_addr (block_operand (of_nat rows) (of_nat cols) a) state_id s = Inr t \<and>
    (\<exists>m. t = s\<lparr>accumulator := m\<rparr>) \<and>
    (\<forall>row < rows. \<forall>col < cols. let r = fst (cell (row, col)); c = snd (cell (row, col)) in
      mat_at (accumulator t) r c = Inr ((if bit a 30 then accumulator s ! r ! c else 0) + V row col)) \<and>
    (\<forall>k. k \<notin> cell ` ({..<rows} \<times> {..<cols}) \<longrightarrow>
      mat_at (accumulator t) (fst k) (snd k) = mat_at (accumulator s) (fst k) (snd k))"
  using mvin_acc_block [OF assms(1-7) assms(9,10) [unfolded cell_def]] unfolding cell_def succeeds_iff by blast

text \<open>With a null pointer the cells are cleared, or kept when the accumulate bit is set.\<close>

theorem mvin_fills_accumulator_witness:
  "\<exists>t. mvin ram 0 (block_operand 2 16 0xC0000004) 2 (ready ramp) = Inr t \<and> mat_at (accumulator t) 5 7 = Inr 0"
proof -
  let ?cell = "mvin_cell (unat (0xC0000004 AND 0x1FFFFFFF :: u32)) (unat (load_block_strides (ready ramp) ! 2))"
  have "\<exists>t. mvin ram 0 (block_operand (of_nat 2) (of_nat 16) 0xC0000004) 2 (ready ramp) = Inr t \<and>
    (\<exists>m. t = (ready ramp)\<lparr>accumulator := m\<rparr>) \<and>
    (\<forall>row < 2. \<forall>col < 16. let r = fst (?cell (row, col)); c = snd (?cell (row, col)) in
      mat_at (accumulator t) r c = Inr ((if bit (0xC0000004 :: u32) 30 then accumulator (ready ramp) ! r ! c else 0) + 0)) \<and>
    (\<forall>k. k \<notin> ?cell ` ({..<2} \<times> {..<16}) \<longrightarrow>
      mat_at (accumulator t) (fst k) (snd k) = mat_at (accumulator (ready ramp)) (fst k) (snd k))"
    by (rule mvin_fills_accumulator) (simp_all add: ready_wf mvin_cell_def mvin_acc_value_def bit_numeral_rec)
  then obtain t where t: "mvin ram 0 (block_operand (of_nat 2) (of_nat 16) 0xC0000004) 2 (ready ramp) = Inr t"
    "mat_at (accumulator t) (fst (?cell (1, 7))) (snd (?cell (1, 7))) =
      Inr ((if bit (0xC0000004 :: u32) 30 then accumulator (ready ramp) ! fst (?cell (1, 7)) ! snd (?cell (1, 7)) else 0) + 0)"
    unfolding Let_def by fastforce
  have "?cell (1, 7) = (5, 7)" by (simp add: mvin_cell_def)
  then have "mat_at (accumulator t) 5 7 = Inr 0" using t(2) ready_memories(2) [of 5 7] by simp
  then show ?thesis using t(1) by auto
qed

text \<open>
  C10. A \<open>mvout\<close> without pooling and with a plain row command stores every element of the block at
  its address, after normalisation, scaling and activation when it comes from the accumulator, and
  changes no other byte of memory and nothing of the local memories.
\<close>

theorem mvout_stores_block:
  fixes s :: "'m sim" and dram_addr :: u64
  assumes "mmu_ok M" "wf_state s" "unat (norm_stat_id (norm_st s)) < 4" "pool_stride s = 0"
    and "rows < 0x10000" "cols < 0x10000" "drop_bit 26 a AND 7 = 0"
  defines "cell \<equiv> mvout_cell (unat (a AND 0x3FFFFFF))" and "addr \<equiv> dram_cell dram_addr (store_stride s)"
  assumes "\<And>i j. i < rows \<Longrightarrow> j < cols \<Longrightarrow> fst (cell (i, j)) < 1024"
    and "inj_on addr ({..<rows} \<times> {..<cols})"
    and "\<And>i j. i < rows \<Longrightarrow> j < cols \<Longrightarrow> writable M (mem s) (addr (i, j))"
    and "\<And>i j. i < rows \<Longrightarrow> j < cols \<Longrightarrow>
      (if bit a 31 then \<not> bit a 29 \<and> bindE (mat_at (accumulator s) (fst (cell (i, j))) (snd (cell (i, j)))) (acc_out s) = Inr (W i j)
       else mat_at (spad s) (fst (cell (i, j))) (snd (cell (i, j))) = Inr (W i j))"
  shows "\<exists>t. mvout M dram_addr (block_operand (of_nat rows) (of_nat cols) a) s = Inr t \<and>
    spad t = spad s \<and> accumulator t = accumulator s \<and>
    (\<forall>i < rows. \<forall>j < cols. mmu_load M (mem t) (addr (i, j)) = Some (W i j)) \<and>
    (\<forall>p. p \<notin> addr ` ({..<rows} \<times> {..<cols}) \<longrightarrow> mmu_load M (mem t) p = mmu_load M (mem s) p)"
  using mvout_block [OF assms(1-7) assms(10-13) [unfolded cell_def addr_def]] stored_fields
  unfolding cell_def addr_def succeeds_iff by blast

lemma ready_cell_16: "inj_on (dram_cell a 16) ({..<2} \<times> {..<16})"
  by (rule dram_cell_inj) simp_all

theorem mvout_stores_block_witness:
  "\<exists>t. mvout ram 0x1000 (block_operand 2 16 0x80000000) (ready ramp) = Inr t \<and> mem t 0x1013 = 0"
proof -
  let ?cell = "mvout_cell (unat (0x80000000 AND 0x3FFFFFF :: u32))" and ?addr = "dram_cell 0x1000 (store_stride (ready ramp))"
  have out: "acc_out (ready ramp) 0 = Inr 0" using acc_out_plain [of "ready ramp" 0] by (simp add: apply_activation_acc_def apply_activation_def saturate_elem_def elem_t_max_def elem_t_min_def)
  have "\<exists>t. mvout ram 0x1000 (block_operand (of_nat 2) (of_nat 16) 0x80000000) (ready ramp) = Inr t \<and>
    spad t = spad (ready ramp) \<and> accumulator t = accumulator (ready ramp) \<and>
    (\<forall>i < 2. \<forall>j < 16. mmu_load ram (mem t) (?addr (i, j)) = Some 0) \<and>
    (\<forall>p. p \<notin> ?addr ` ({..<2} \<times> {..<16}) \<longrightarrow> mmu_load ram (mem t) p = mmu_load ram (mem (ready ramp)) p)"
  proof (rule mvout_stores_block)
    fix i j :: nat assume ij: "i < 2" "j < 16"
    have "mat_at (accumulator (ready ramp)) i j = Inr 0"
      using ij ready_memories(2) [of i j ramp] wf_state_in_mat [OF ready_wf [of ramp]] by (simp add: mat_at_ok)
    then show "if bit (0x80000000 :: u32) 31 then \<not> bit (0x80000000 :: u32) 29 \<and>
        bindE (mat_at (accumulator (ready ramp)) (fst (?cell (i, j))) (snd (?cell (i, j)))) (acc_out (ready ramp)) = Inr 0
      else mat_at (spad (ready ramp)) (fst (?cell (i, j))) (snd (?cell (i, j))) = Inr 0"
      using out ij by (simp add: mvout_cell_def bit_numeral_rec)
  qed (simp_all add: ready_wf ram_ok mvout_cell_def ready_cell_16 drop_bit_eq_div)
  then obtain t where t: "mvout ram 0x1000 (block_operand (of_nat 2) (of_nat 16) 0x80000000) (ready ramp) = Inr t"
    "mmu_load ram (mem t) (?addr (1, 3)) = Some 0" by fastforce
  then show ?thesis by (auto simp: dram_cell_def ram_def)
qed

text \<open>
  C18. A block moved in through the scratchpad and out again is copied byte by byte.
\<close>

theorem move_in_out_copies:
  fixes s :: "'m sim" and src dst :: u64
  assumes "mmu_ok M" "wf_state s" "unat (norm_stat_id (norm_st s)) < 4" "pool_stride s = 0"
    and "state_id < 3" "pixels_per_rows s ! state_id = 1" "load_scales s ! state_id = MVIN_SCALE_IDENTITY"
    and "rows < 0x10000" "cols < 0x10000" "src \<noteq> 0"
      "cols \<le> 16 \<or> rows \<le> 16 \<and> load_block_strides s ! state_id = 16"
    and "base + (cols div 16) * 16 + rows \<le> 1024"
    and "\<And>i j. i < rows \<Longrightarrow> j < cols \<Longrightarrow>
      mmu_load M (mem s) (dram_cell src (load_strides s ! state_id) (i, j)) = Some (B i j)"
    and "cols \<le> unat (store_stride s) \<or> rows \<le> 1" "rows * unat (store_stride s) + cols \<le> 2 ^ 64"
      "\<And>i j. i < rows \<Longrightarrow> j < cols \<Longrightarrow> writable M (mem s) (dram_cell dst (store_stride s) (i, j))"
  shows "\<exists>u t. mvin M src (block_operand (of_nat rows) (of_nat cols) (of_nat base)) state_id s = Inr u \<and>
    mvout M dst (block_operand (of_nat rows) (of_nat cols) (of_nat base)) u = Inr t \<and>
    (\<forall>i < rows. \<forall>j < cols. mmu_load M (mem t) (dram_cell dst (store_stride s) (i, j)) = Some (B i j))"
  using move_round_trip [OF assms] unfolding succeeds_iff bindE_Inr_iff by blast

theorem move_in_out_copies_witness:
  "\<exists>u t. mvin ram 0x100 (block_operand 2 16 0) 0 (ready ramp) = Inr u \<and>
     mvout ram 0x1000 (block_operand 2 16 0) u = Inr t \<and> mem t 0x1013 = 0x13"
proof -
  have "\<exists>u t. mvin ram 0x100 (block_operand (of_nat 2) (of_nat 16) (of_nat 0)) 0 (ready ramp) = Inr u \<and>
    mvout ram 0x1000 (block_operand (of_nat 2) (of_nat 16) (of_nat 0)) u = Inr t \<and>
    (\<forall>i < 2. \<forall>j < 16. mmu_load ram (mem t) (dram_cell 0x1000 (store_stride (ready ramp)) (i, j)) =
      Some (ramp (dram_cell 0x100 16 (i, j))))"
    by (rule move_in_out_copies) (simp_all add: ready_wf ram_ok, simp_all add: ram_def)
  then obtain u t where "mvin ram 0x100 (block_operand 2 16 0) 0 (ready ramp) = Inr u"
    "mvout ram 0x1000 (block_operand 2 16 0) u = Inr t"
    "mmu_load ram (mem t) (dram_cell 0x1000 (store_stride (ready ramp)) (1, 3)) = Some (ramp (dram_cell 0x100 16 (1, 3)))"
    by fastforce
  then show ?thesis by (auto simp: dram_cell_def ram_def ramp_def)
qed

text \<open>
  C19. A word stored in memory byte by byte is read back unchanged, and the rest of memory is as
  before.
\<close>

theorem dram_word_round_trip:
  fixes data :: "'a::len word"
  assumes "mmu_ok M" "LENGTH('a) = 8 * n" "n \<le> 8"
    and "\<And>i. i < n \<Longrightarrow> writable M m (addr + of_nat i)"
  shows "\<exists>m'. write_to_dram M addr data m = Inr m' \<and> read_from_dram M m' addr = Inr data \<and>
    (\<forall>a. (\<forall>i < n. a \<noteq> addr + of_nat i) \<longrightarrow> mmu_load M m' a = mmu_load M m a)"
  using write_read_word [OF assms] unfolding succeeds_iff by blast

theorem dram_word_round_trip_witness:
  "\<exists>m'. write_to_dram ram 0x40 (0xDEADBEEF :: 32 word) ramp = Inr m' \<and> read_from_dram ram m' 0x40 = Inr (0xDEADBEEF :: 32 word) \<and>
     m' 0x44 = 0x44"
proof -
  obtain m' where "write_to_dram ram 0x40 (0xDEADBEEF :: 32 word) ramp = Inr m'"
    "read_from_dram ram m' 0x40 = Inr (0xDEADBEEF :: 32 word)"
    "\<forall>a. (\<forall>i < 4. a \<noteq> 0x40 + of_nat i) \<longrightarrow> mmu_load ram m' a = mmu_load ram ramp a"
    using dram_word_round_trip [OF ram_ok, where n = 4 and addr = "0x40" and data = "0xDEADBEEF :: 32 word" and m = ramp] by auto
  moreover have "(0x44 :: u64) \<noteq> 0x40 + of_nat i" if "i < 4" for i :: nat
  proof -
    have "i = 0 \<or> i = 1 \<or> i = 2 \<or> i = 3" using that by auto
    then show ?thesis by auto
  qed
  ultimately show ?thesis by (auto simp: ram_def ramp_def)
qed

section \<open>Matrix multiplication\<close>

text \<open>
  C8. In the weight-stationary dataflow a preload and a compute of an I x K tile of A and a K x J
  tile of B put the product of the tiles into the I x J tile of the accumulator, or add it there
  when the accumulate bit is set, in the arithmetic of 32-bit words; every other cell of the
  accumulator is kept and nothing else but the registers of the preload and the weights in the
  processing elements changes.
\<close>

theorem compute_multiplies_tile:
  fixes s :: "'z gemmini_state_scheme" and accumulate :: bool
  assumes "wf_state s" "mode s = WS" "\<not> a_transpose s" "\<not> b_transpose s" "a_stride s = 1" "c_stride s = 1"
    and "I \<le> 16" "J \<le> 16" "K \<le> 16"
    and "pa + I \<le> 16384" "pb + K \<le> 16384" "base + I \<le> 1024"
  defines "u \<equiv> preload (block_operand (of_nat K) (of_nat J) (of_nat pb)) (block_operand (of_nat I) (of_nat J) (acc_addr accumulate base)) s"
  shows "\<exists>t. compute (block_operand (of_nat I) (of_nat K) (of_nat pa)) (block_operand (of_nat 16) (of_nat 16) (- 1)) True u = Inr t \<and>
    (\<exists>p m. t = u\<lparr>pe_state := p, accumulator := m\<rparr>) \<and>
    (\<forall>i < I. \<forall>j < J. accumulator t ! (base + i) ! j = (if accumulate then accumulator s ! (base + i) ! j else 0) +
      (\<Sum>k<K. scast (spad s ! (pa + i) ! k) * scast (spad s ! (pb + k) ! j))) \<and>
    (\<forall>r c. \<not> (base \<le> r \<and> r < base + I \<and> c < J) \<longrightarrow> mat_at (accumulator t) r c = mat_at (accumulator s) r c)"
  using compute_tile [OF assms(1-12), where accumulate = accumulate] unfolding u_def succeeds_iff by blast

definition ones :: "(u64 \<Rightarrow> u8) sim" where
  "ones = (ready ramp)\<lparr>spad := replicate 16384 (replicate 16 1)\<rparr>"

lemma ones_wf: "wf_state ones"
  using ready_wf [of ramp]
  by (simp add: ones_def wf_state_def wf_arrays_def wf_memories_def mat_dims_def sp_matrices_def size_defs)

lemma ones_fields:
  "mode ones = WS" "\<not> a_transpose ones" "\<not> b_transpose ones" "a_stride ones = 1" "c_stride ones = 1"
  "spad ones = replicate 16384 (replicate 16 1)"
  by (simp_all add: ones_def)

theorem compute_multiplies_tile_witness:
  "\<exists>t. compute (block_operand 2 3 0) (block_operand 16 16 (- 1)) True
     (preload (block_operand 3 2 16) (block_operand 2 2 (acc_addr False 4)) ones) = Inr t \<and> accumulator t ! 5 ! 1 = 3"
proof -
  have s: "(\<Sum>k<3. scast (spad ones ! (0 + 1) ! k) * scast (spad ones ! (16 + k) ! 1)) = (3 :: acc_t)"
    by (simp add: ones_fields numeral_3_eq_3)
  obtain t where t: "compute (block_operand (of_nat 2) (of_nat 3) (of_nat 0)) (block_operand (of_nat 16) (of_nat 16) (- 1)) True
     (preload (block_operand (of_nat 3) (of_nat 2) (of_nat 16)) (block_operand (of_nat 2) (of_nat 2) (acc_addr False 4)) ones) = Inr t"
    "\<forall>i < 2. \<forall>j < 2. accumulator t ! (4 + i) ! j = (if False then accumulator ones ! (4 + i) ! j else 0) +
      (\<Sum>k<3. scast (spad ones ! (0 + i) ! k) * scast (spad ones ! (16 + k) ! j))"
    using compute_multiplies_tile [of ones 2 2 3 0 16 4 False] ones_wf ones_fields by auto
  have "accumulator t ! 5 ! 1 = 3" using t(2) [rule_format, of 1 1] s by simp
  then show ?thesis using t(1) by auto
qed

text \<open>
  C16. In the output-stationary dataflow a compute adds the product of the two operand blocks to
  the processing elements and writes their rounded, saturated and activated values to the
  scratchpad block of the last preload.
\<close>

theorem compute_output_stationary:
  fixes s :: "'z gemmini_state_scheme"
  assumes "wf_state s" "mode s = OS" "unat (ucast (sys_shift s) :: u32) < 32"
    and "\<And>i j. i < 16 \<Longrightarrow> j < 16 \<Longrightarrow> bias_value (ucast (y AND 0xFFFFFFFF))
      (ucast (fld (ADDR_LEN + 16) 0xFFFF y)) (ucast (fld ADDR_LEN 0xFFFF y)) s i j = Inr (D i j)"
    and "\<And>i k. i < 16 \<Longrightarrow> k < 16 \<Longrightarrow> operand_a x i k s = Inr (A i k)"
    and "\<And>k j. k < 16 \<Longrightarrow> j < 16 \<Longrightarrow> operand_b y k j s = Inr (B k j)"
    and "NOT (output_sp_addr s) \<noteq> 0" "\<not> bit (output_sp_addr s) 31"
    and "unat (output_rows s) \<le> 16" "unat (output_cols s) \<le> 16" "0 < unat (c_stride s) \<or> unat (output_rows s) \<le> 1"
    and "\<And>i. i < unat (output_rows s) \<Longrightarrow> out_row s i < 16384"
  defines "P \<equiv> \<lambda>i j. pe_state s ! i ! j + (\<Sum>k<16. scast (A i k) * scast (B k j))"
  shows "\<exists>t. compute x y False s = Inr t \<and> (\<exists>p m. t = s\<lparr>pe_state := p, spad := m\<rparr>) \<and>
    (\<forall>i < 16. \<forall>j < 16. pe_state t ! i ! j = P i j) \<and>
    (\<forall>i < unat (output_rows s). \<forall>j < unat (output_cols s). spad t ! out_row s i ! j =
      apply_activation_sys s (word_of_int (clamp8 (rhe (of_int (sint (P i j)) / 2 ^ unat (ucast (sys_shift s) :: u32)))))) \<and>
    (\<forall>r c. \<not> out_touched s r c \<longrightarrow> mat_at (spad t) r c = mat_at (spad s) r c)"
  using compute_OS [OF assms(1-12)] unfolding P_def succeeds_iff by blast

definition ones_os :: "(u64 \<Rightarrow> u8) sim" where
  "ones_os = ones\<lparr>mode := OS, output_sp_addr := 0x100, output_rows := 2, output_cols := 2\<rparr>"

lemma ones_os_fields:
  "wf_state ones_os" "mode ones_os = OS" "sys_shift ones_os = 0" "output_sp_addr ones_os = 0x100" "output_rows ones_os = 2"
  "output_cols ones_os = 2" "c_stride ones_os = 1" "a_stride ones_os = 1" "\<not> a_transpose ones_os" "\<not> b_transpose ones_os"
  "spad ones_os = replicate 16384 (replicate 16 1)" "pe_state ones_os = pe_state (ready ramp)" "sys_act ones_os = NONE"
  using ones_wf by (simp_all add: ones_os_def ones_def wf_state_def wf_arrays_def wf_memories_def)

theorem compute_output_stationary_witness:
  "\<exists>t. compute (block_operand 16 16 0) (block_operand 16 16 16) False ones_os = Inr t \<and>
     pe_state t ! 3 ! 4 = 16 \<and> spad t ! 257 ! 1 = 16"
proof -
  have P: "r < 16384 \<Longrightarrow> j < 16 \<Longrightarrow> mat_at (replicate 16384 (replicate 16 1)) r j = Inr (1 :: elem_t)" for r j
    by (simp add: mat_at_def vec_at_def)
  let ?x = "block_operand (of_nat 16) (of_nat 16) (of_nat 0)" and ?y = "block_operand (of_nat 16) (of_nat 16) (of_nat 16)"
  note parts = operand_parts
  have sum: "pe_state ones_os ! i ! j + (\<Sum>k<(16 :: nat). scast (1 :: elem_t) * scast (1 :: elem_t)) = (16 :: acc_t)" if "i < 16" "j < 16" for i j
    using that ready_memories(3) [of i j] by (simp add: ones_os_fields)
  have "\<exists>t. compute ?x ?y False ones_os = Inr t \<and> (\<exists>p m. t = ones_os\<lparr>pe_state := p, spad := m\<rparr>) \<and>
    (\<forall>i < 16. \<forall>j < 16. pe_state t ! i ! j = pe_state ones_os ! i ! j + (\<Sum>k<(16 :: nat). scast (1 :: elem_t) * scast (1 :: elem_t))) \<and>
    (\<forall>i < unat (output_rows ones_os). \<forall>j < unat (output_cols ones_os). spad t ! out_row ones_os i ! j =
      apply_activation_sys ones_os (word_of_int (clamp8 (rhe (of_int (sint (pe_state ones_os ! i ! j +
        (\<Sum>k<(16 :: nat). scast (1 :: elem_t) * scast (1 :: elem_t)))) / 2 ^ unat (ucast (sys_shift ones_os) :: u32)))))) \<and>
    (\<forall>r c. \<not> out_touched ones_os r c \<longrightarrow> mat_at (spad t) r c = mat_at (spad ones_os) r c)"
    by (rule compute_output_stationary [where D = "\<lambda>_ _. 1"])
      (simp_all add: ones_os_fields bias_value_def compute_a_def compute_b_def parts out_row_def bit_numeral_rec
        del: of_nat_numeral, simp_all add: P)
  then obtain t where t: "compute ?x ?y False ones_os = Inr t" "pe_state t ! 3 ! 4 = 16"
    "spad t ! out_row ones_os 1 ! 1 = apply_activation_sys ones_os (word_of_int (clamp8 (rhe (of_int (sint (16 :: acc_t)) / 2 ^ 0))))"
    using sum by (auto simp: ones_os_fields)
  have "rhe 16 = 16" using rhe_of_int [of 16] by simp
  then have "spad t ! 257 ! 1 = 16"
    using t(3) by (simp add: ones_os_fields out_row_def apply_activation_sys_def apply_activation_def clamp8_def)
  then show ?thesis using t(1,2) by (auto simp del: of_nat_0)
qed

section \<open>Scaling and rounding\<close>

lemma decode_examples:
  "f32_decode 0x3F7FFFFF = FFin False 16777215 (- 24)" "f32_decode 0 = FFin False 0 (- 149)"
  "f32_decode 0x3F800000 = FFin False 8388608 (- 23)" "f32_decode 0x40000000 = FFin False 8388608 (- 22)"
  "f32_decode 0x80000000 = FFin True 0 (- 149)" "f32_decode 0x3F000000 = FFin False 8388608 (- 24)"
  "f32_decode 0x3FC00000 = FFin False 12582912 (- 23)"
  by (simp_all add: f32_decode_def bit_numeral_rec)

text \<open>
  C20. The rounding shift of the systolic array is division by a power of two, rounded to the
  nearest integer with ties to even, and saturated to eight bits.
\<close>

theorem sys_shift_rounds_to_even:
  assumes "unat shift < 32"
  shows "sys_shift_op v shift = Inr (word_of_int (clamp8 (rhe (of_int (sint v) / 2 ^ unat shift))))"
  by (rule sys_shift_op_rhe [OF assms])

theorem sys_shift_rounds_to_even_witness:
  "sys_shift_op 5 1 = Inr (word_of_int (clamp8 (rhe (5 / 2)))) \<and> rhe (5 / 2) = 2"
proof -
  have "sys_shift_op 5 1 = Inr (word_of_int (clamp8 (rhe (of_int (sint (5 :: acc_t)) / 2 ^ unat (1 :: u32)))))"
    by (rule sys_shift_rounds_to_even) simp
  moreover have "\<lfloor>5 / 2 :: rat\<rfloor> = 2" by (simp add: floor_eq_iff)
  ultimately show ?thesis by (simp add: rhe_def)
qed

text \<open>
  C21. Scaling an accumulator value by \<open>2 ^ -n\<close> on the way out and shifting it by \<open>n\<close> in the
  systolic array are the same function, for values for which the addition inside
  \<open>ROUND_NEAR_EVEN\<close> is exact.
\<close>

theorem scale_is_shift:
  assumes "n < 24" "\<bar>sint v\<bar> + 2 ^ n < 2 ^ 24"
  shows "acc_scale v (pow2_scale n) = sys_shift_op v (of_nat n)"
  by (rule acc_scale_pow2 [OF assms])

theorem scale_is_shift_witness: "acc_scale 1000 (pow2_scale 3) = sys_shift_op 1000 3"
  using scale_is_shift [of 3 1000] by simp

text \<open>
  C22. A product with any finite scale that is a multiple of a power of two, with fewer than 24
  significant bits, is rounded to even and saturated.
\<close>

theorem acc_scale_rounds_to_even:
  assumes "\<bar>sint v\<bar> < 2 ^ 24" "f32_finite scale"
    and "of_int (sint v) * f32_rat scale = of_int k * 2 powi z"
    and "-149 \<le> z" "z \<le> 0" "\<bar>k\<bar> + 2 ^ nat (- z) < 2 ^ 24"
  shows "acc_scale v scale = Inr (saturate_elem (rhe (of_int (sint v) * f32_rat scale)))"
  by (rule acc_scale_dyadic [OF assms])

theorem acc_scale_rounds_to_even_witness:
  "acc_scale 7 0x3FC00000 = Inr (saturate_elem (rhe (21 / 2)))"
proof -
  note d = decode_examples(7)
  then have r: "f32_rat 0x3FC00000 = 3 / 2" by (simp add: f32_rat_def power_int_def field_simps)
  have "acc_scale 7 0x3FC00000 = Inr (saturate_elem (rhe (of_int (sint (7 :: acc_t)) * f32_rat 0x3FC00000)))"
    by (rule acc_scale_rounds_to_even [where k = 21 and z = "- 1"]) (simp_all add: d f32_finite_def r power_int_def)
  then show ?thesis by (simp add: r)
qed

text \<open>
  The identity scales change nothing: elements come in as they are, and accumulator values go
  out saturated to eight bits.
\<close>

theorem identity_scales:
  "mvin_scale v MVIN_SCALE_IDENTITY = Inr v \<and> acc_scale w ACC_SCALE_IDENTITY = Inr (saturate_elem (sint w))"
  by (simp add: mvin_scale_one acc_scale_one)

lemma round_near_even_below_one: "ROUND_NEAR_EVEN 0x3F7FFFFF = Inr 0x40000000"
proof -
  have i: "f32_of_int 0 = 0" "f32_of_int 1 = 0x3F800000" "f32_of_int 2 = 0x40000000" by code_simp+
  have a: "fval_add (FFin False 16777215 (- 24)) (FFin False 8388608 (- 23)) = 0x40000000"
    "fval_add (FFin False 16777215 (- 24)) (FFin True 0 (- 149)) = 0x3F7FFFFF" by code_simp+
  show ?thesis
    by (simp add: ROUND_NEAR_EVEN_def f32_to_sint_def f32_lt_def f32_add_def f32_sub_def f32_neg_def fin_at_def
        decode_examples i a del: fval_add.simps)
qed

text \<open>
  \<open>ROUND_NEAR_EVEN\<close> does not round to the nearest integer in general: for the largest float
  below one the addition of one is rounded up to two.
\<close>

theorem round_near_even_not_nearest:
  "\<exists>x y. ROUND_NEAR_EVEN x = Inr y \<and> f32_rat y = 2 \<and> \<bar>f32_rat x - 1\<bar> < 1 / 2 ^ 20"
proof -
  have "f32_rat 0x40000000 = 2" "f32_rat 0x3F7FFFFF = 16777215 / 16777216"
    by (simp_all add: f32_rat_def decode_examples power_int_def field_simps)
  then show ?thesis using round_near_even_below_one by (intro exI [of _ "0x3F7FFFFF"] exI [of _ "0x40000000"]) simp
qed

section \<open>Normalisation\<close>

text \<open>
  C23. Moving rows out of the accelerator (\<open>mvout\<close> without pooling) with the command MEAN writes nothing to memory: all it
  changes is the statistics slot, where it leaves the truncated mean of the last row, over all its blocks.
\<close>

theorem row_mean:
  fixes s :: "'m sim"
  defines "si \<equiv> unat (norm_stat_id (norm_st s))"
  assumes "wf_state s" "pool_stride s = 0" "si < 4" "get_slot (norm_st s) si = Inr c" "sl_reset c"
    and "norm_cmd_of (fld 26 7 sp_addr) = MEAN" "base = unat (sp_addr AND 0x3FFFFFF)"
      "cols = unat (fld ADDR_LEN 0xFFFF sp_addr)" "rows = unat (fld (ADDR_LEN + 16) 0xFFFF sp_addr)"
    and "0 < cols" "0 < rows" "\<And>i j. i < rows \<Longrightarrow> j < cols \<Longrightarrow> base + j div 16 * 16 + i < 1024"
  shows "\<exists>d. mvout M dram_addr sp_addr s = Inr (s\<lparr>norm_st := put_slot (norm_st s) si d\<rparr>) \<and>
    sl_mean d = word_of_int (trunc_div (sint (\<Sum>j<cols. row_elem s base (rows - 1) j)) (int cols))"
  unfolding si_def by (rule mvout_mean [OF assms(2) assms(3-12) [unfolded si_def] assms(13)])

definition threes :: "(u64 \<Rightarrow> u8) sim" where
  "threes = (ready ramp)\<lparr>accumulator := replicate 1024 (replicate 16 3)\<rparr>"

theorem row_mean_witness:
  "\<exists>d t. mvout ram 0x1000 0x0003002088000000 threes = Inr t \<and> mem t = mem threes \<and> get_slot (norm_st t) 0 = Inr d \<and> sl_mean d = 3"
proof -
  have wf: "wf_state threes"
    using ready_wf [of ramp]
    by (simp add: threes_def wf_state_def wf_arrays_def wf_memories_def mat_dims_def accum_rows_def size_defs)
  have n: "norm_st threes = norm_st (ready ramp)" "unat (norm_stat_id (norm_st threes)) = 0" "pool_stride threes = 0" by (simp_all add: threes_def)
  obtain c where c: "get_slot (norm_st threes) 0 = Inr c" "sl_reset c"
    by (simp add: n ready_def state_reset_def blank_def get_slot_def arr_def count_defs)
  have op: "norm_cmd_of (fld 26 7 0x0003002088000000) = MEAN" "0 = unat ((0x0003002088000000 :: u64) AND 0x3FFFFFF)"
    "32 = unat (fld ADDR_LEN 0xFFFF 0x0003002088000000)" "3 = unat (fld (ADDR_LEN + 16) 0xFFFF 0x0003002088000000)"
    by (simp_all add: norm_cmd_of_def fld_def ADDR_LEN_def numeral_2_eq_2 [symmetric])
  have row: "row_elem threes 0 2 j = 3" if "j < 32" for j
    using that by (simp add: row_elem_def threes_def)
  have fit: "0 + j div 16 * 16 + i < (1024 :: nat)" if "i < 3" "j < 32" for i j using that by auto
  obtain d where d: "mvout ram 0x1000 0x0003002088000000 threes = Inr (threes\<lparr>norm_st := put_slot (norm_st threes) 0 d\<rparr>)"
    "sl_mean d = word_of_int (trunc_div (sint (\<Sum>j<32. row_elem threes 0 2 j)) (int 32))"
    using row_mean [OF wf n(3) _ _ _ op _ _ fit, of c ram "0x1000"] c n(2) by auto
  have "(\<Sum>j<32. row_elem threes 0 2 j) = (\<Sum>j<(32 :: nat). 3)" by (rule sum.cong) (use row in auto)
  then have "sl_mean d = 3" using d(2) by (simp add: trunc_div_def)
  moreover have "get_slot (put_slot (norm_st threes) 0 d) 0 = Inr d"
    using wf get_put_slot(1) [of "norm_st threes" 0 d] by (simp add: wf_state_def wf_arrays_def)
  ultimately show ?thesis using d(1) by auto
qed

text \<open>
  The square root of the variance is the integer square root, for every variance that is not
  negative.
\<close>

theorem sqrt_acc_floor:
  assumes "0 \<le> sint v"
  shows "\<exists>r. sqrt_acc v = Inr r \<and> 0 \<le> sint r \<and> sint r * sint r \<le> sint v \<and> sint v < (sint r + 1) * (sint r + 1)"
proof -
  let ?n = "nat (sint v)"
  have n: "?n < 2 ^ 31" "?n < 2 ^ 32" using sint32_range(2) [of v] by auto
  note sq = isqrt_spec [OF n(2)]
  have r: "isqrt ?n < 2 ^ 31"
  proof (rule ccontr)
    assume "\<not> isqrt ?n < 2 ^ 31"
    then have "2 ^ 31 * 2 ^ 31 \<le> isqrt ?n * isqrt ?n" by (intro mult_le_mono) simp_all
    then show False using sq(1) n(1) by simp
  qed
  then have s: "sint (of_nat (isqrt ?n) :: acc_t) = int (isqrt ?n)" by (rule sint_of_small)
  have "int (isqrt ?n) * int (isqrt ?n) \<le> sint v" "sint v < (int (isqrt ?n) + 1) * (int (isqrt ?n) + 1)"
  proof -
    have "int (isqrt ?n * isqrt ?n) \<le> int ?n" "int ?n < int (Suc (isqrt ?n) * Suc (isqrt ?n))" using sq by linarith+
    then show "int (isqrt ?n) * int (isqrt ?n) \<le> sint v" "sint v < (int (isqrt ?n) + 1) * (int (isqrt ?n) + 1)"
      using assms by (simp_all add: algebra_simps)
  qed
  then show ?thesis using assms s by (simp add: sqrt_acc_def)
qed

theorem sqrt_acc_floor_witness:
  "\<exists>r. sqrt_acc 99 = Inr r \<and> 0 \<le> sint r \<and> sint r * sint r \<le> 99 \<and> 99 < (sint r + 1) * (sint r + 1)"
  using sqrt_acc_floor [of 99] by simp

section \<open>Counters\<close>

text \<open>
  C24. A snapshot holds until it is given up: after the instruction that takes a snapshot, any program whose counter instructions
  take no other snapshot and do not reset this one leaves every counter reading as it was at that moment, whatever the
  program does and however often the counters are incremented or reset. Once the snapshot is reset, a counter reads as
  its current value again.
\<close>

theorem snapshot_is_stable:
  assumes "started s" "custom3 M rnd counter_op_funct 4 y s = Inr (v, t)" "list_all keeps_snapshot is" "run_program M is t = Inr u" "i < 8"
  shows "\<exists>x. counter_live (counter_st t) i = Inr x \<and>
    (\<forall>rnd y. \<exists>u'. custom3 M rnd counter_op_funct (push_bit 4 (of_nat i)) y u = Inr (ucast x, u')) \<and>
    (\<forall>rnd rnd' y y' w w' u' u''. custom3 M rnd counter_op_funct 2 y u = Inr (w, u') \<longrightarrow>
      custom3 M rnd' counter_op_funct (push_bit 4 (of_nat i)) y' u' = Inr (w', u'') \<longrightarrow> (\<exists>x'. counter_live (counter_st u'') i = Inr x' \<and> w' = ucast x'))"
proof -
  obtain sv where sv: "shows_snapshot sv t" "counter_live (counter_st t) i = Inr (sv ! i)"
    using snapshot_taken [OF assms(1,2)] assms(5) by metis
  have u: "shows_snapshot sv u" by (rule run_program_snapshot [OF sv(1) assms(3,4)])
  then have st: "started u" "resetted u" by (simp_all add: shows_snapshot_def started_def wf_state_def)
  have "\<exists>x'. counter_live (counter_st u'') i = Inr x' \<and> w' = ucast x'"
    if "custom3 M rnd counter_op_funct 2 y u = Inr (w, u')" "custom3 M rnd' counter_op_funct (push_bit 4 (of_nat i)) y' u' = Inr (w', u'')" for rnd rnd' y y' w w' u' u''
    using snapshot_given_up [OF st that(1)] live_read [OF _ _ _ assms(5) that(2)] by blast
  then show ?thesis using sv(2) snapshot_read [OF u assms(5)] by (intro exI [of _ "sv ! i"]) blast
qed

text \<open>In the example, a counter is at 7 when the snapshot is taken; then the counters are incremented and reset.\<close>

definition counter_program :: "gemmini_insn list" where
  "counter_program = [\<lparr>gi_rnd = \<lambda>_. 7, gi_funct = fence_funct, gi_xs1 = 0, gi_xs2 = 0\<rparr>,
     \<lparr>gi_rnd = \<lambda>_. 9, gi_funct = counter_op_funct, gi_xs1 = 1, gi_xs2 = 0\<rparr>]"

lemma counter_program_runs:
  fixes s :: "'m sim"
  assumes "shows_snapshot sv s" "list_all (\<lambda>i. gi_funct i = fence_funct \<or> gi_funct i = counter_op_funct \<and> gi_xs1 i = 1) is"
  shows "\<exists>t. run_program M is s = Inr t"
  using assms
proof (induction "is" arbitrary: s)
  case (Cons i "is")
  have one: "decode_counter_op 1 = \<lparr>counter_reset = True, snapshot_reset = False, take_snapshot = False, change_config = False,
    counter_index = 0, counter_addr = 0, external_counter = False\<rparr>" by (simp add: decode_counter_op_def flag_def fld_def)
  have f: "fence_funct \<noteq> counter_op_funct" "counter_op_funct \<noteq> fence_funct" "exec_funct M fence_funct x y t = Inr t" for x y and t :: "'m sim"
    by (simp_all add: exec_funct_def funct_defs)
  have st: "started s" "resetted s" using Cons.prems(1) by (simp_all add: shows_snapshot_def started_def wf_state_def)
  from custom3_resetted [OF st, of "gi_rnd i"] obtain c where c: "wf_state (s\<lparr>counter_st := c\<rparr>)" "snapshot_enable c = snapshot_enable (counter_st s)"
    "\<And>M f x y. custom3 M (gi_rnd i) f x y s = (if f = counter_op_funct then counter_operation x (s\<lparr>counter_st := c\<rparr>)
        else bindE (exec_funct M f x y (s\<lparr>counter_st := c\<rparr>)) (\<lambda>s. Inr (0, s\<lparr>op_in_progress := (f \<noteq> flush_funct)\<rparr>)))" by blast
  have "\<exists>v t. exec_insn M i s = Inr (v, t)"
    using Cons.prems c by (auto simp: exec_insn_def f one counter_operation_def shows_snapshot_def arr_def wf_state_def wf_arrays_def wf_counters_def count_defs)
  moreover have "keeps_snapshot i" using Cons.prems(2) by (auto simp: keeps_snapshot_def one funct_defs)
  ultimately show ?case using Cons exec_insn_snapshot [OF Cons.prems(1)] by fastforce
qed simp

definition counting :: "(u64 \<Rightarrow> u8) sim" where
  "counting = (ready ramp)\<lparr>op_in_progress := True\<rparr>"

lemma counting_snapshot:
  "\<exists>v t. custom3 ram (\<lambda>_. 7) counter_op_funct 4 0 counting = Inr (v, t) \<and> counter_live (counter_st t) 5 = Inr 7"
  by (simp add: counting_def custom3_def counter_operation_def decode_counter_op_def flag_def fld_def counter_take_snapshot_def counter_live_def
    counter_increment_random_def ready_def state_reset_def blank_def count_defs forE_def upt_rec arr_def arr_set_def Let_def)

theorem snapshot_is_stable_witness:
  "\<exists>v t u. custom3 ram (\<lambda>_. 7) counter_op_funct 4 0 counting = Inr (v, t) \<and> run_program ram counter_program t = Inr u \<and>
     (\<exists>u'. custom3 ram (\<lambda>_. 3) counter_op_funct (push_bit 4 (of_nat 5)) 0 u = Inr (7, u'))"
proof -
  have st: "started counting" using ready_wf [of ramp] by (simp add: counting_def started_def wf_state_def wf_arrays_def wf_memories_def)
  obtain v t where t: "custom3 ram (\<lambda>_. 7) counter_op_funct 4 0 counting = Inr (v, t)" "counter_live (counter_st t) 5 = Inr 7"
    using counting_snapshot by blast
  obtain sv where "shows_snapshot sv t" using snapshot_taken [OF st t(1)] by metis
  then obtain u where u: "run_program ram counter_program t = Inr u"
    using counter_program_runs [of sv t counter_program ram] by (auto simp: counter_program_def)
  have "list_all keeps_snapshot counter_program"
    by (simp add: counter_program_def keeps_snapshot_def funct_defs decode_counter_op_def flag_def fld_def)
  then show ?thesis using snapshot_is_stable [OF st t(1) _ u, of 5] t u by fastforce
qed

section \<open>The hardware loops\<close>

text \<open>
  A 16-bit loop whose counter cannot wrap around runs its body exactly on the multiples of its
  step below the bound, in order.
\<close>

theorem loop_visits_multiples:
  assumes "0 < inc" "0 \<le> bound" "bound + inc \<le> 2 ^ 16"
  shows "loop_u16 bound inc body s = foldE body (map (\<lambda>i. int i * inc) [0..<nat ((bound + inc - 1) div inc)]) s"
  by (rule loop_u16_visits [OF assms])

theorem loop_visits_multiples_witness:
  "loop_u16 40 16 (\<lambda>x s. Inr (s @ [x])) [] = Inr [0, 16, 32]"
  using loop_visits_multiples [of 16 40 "\<lambda>x s. Inr (s @ [x])" "[]"] by (simp add: upt_rec)




text \<open>
  The check of \<open>loop_ws\<close> on the size of its tiles is made in 32-bit arithmetic and can be
  passed by tiles that do not fit: the products wrap around.
\<close>

theorem loop_ws_check_overflows:
  "\<exists>r. loop_ws_fits r \<and> \<not> loop_ws_room (unat (loop_ws_I r)) (unat (loop_ws_J r)) (unat (loop_ws_K r))"
proof -
  let ?r = "(loop_ws_st (ready ramp))\<lparr>loop_ws_I := 0x4000, loop_ws_J := 0x4000, loop_ws_K := 0x2000\<rparr>"
  have "loop_ws_fits ?r" by (simp add: loop_ws_fits_def Let_def to_i32_def size_defs)
  moreover have "\<not> loop_ws_room (unat (loop_ws_I ?r)) (unat (loop_ws_J ?r)) (unat (loop_ws_K ?r))"
    by (simp add: loop_ws_room_def)
  ultimately show ?thesis by blast
qed

section \<open>Errors\<close>

lemma forE_first_fails: "0 < n \<Longrightarrow> f 0 s = Inl e \<Longrightarrow> forE n f s = Inl e"
  by (cases n) (simp_all add: forE_def upt_conv_Cons del: upt_Suc)

text \<open>
  C26. A \<open>mvout\<close> from the scratchpad reads the accumulator row of the same number first, and so
  fails for every scratchpad row from 1024 on, although the row exists.
\<close>

theorem mvout_high_scratchpad_fails:
  fixes s :: "'m sim"
  assumes "wf_state s" "pool_stride s = 0" "0 < rows" "rows < 0x10000" "0 < cols" "cols < 0x10000"
    and "\<not> bit a 31" "1024 \<le> unat (a AND 0x3FFFFFF)"
  shows "mvout M dram_addr (block_operand (of_nat rows) (of_nat cols) a) s = Inl OutOfRange"
proof -
  have r: "of_nat rows < (0x10000 :: u64)" "of_nat cols < (0x10000 :: u64)"
    "unat (of_nat rows :: u64) = rows" "unat (of_nat cols :: u64) = cols"
    using assms(4,6) by (simp_all add: word_less_nat_alt unat_of_nat take_bit_nat_eq_self)
  note ops = block_operand_fields [OF r(1,2)]
  have row: "vec_at (accumulator s) (unat (a AND 0x3FFFFFF)) = Inl OutOfRange"
    using assms(1,8) by (simp add: vec_at_def wf_state_def wf_memories_def mat_dims_def accum_rows_def size_defs)
  have "mvout_norm (unat (a AND 0x3FFFFFF)) cols cmd 0 s = Inl OutOfRange" for cmd
    unfolding mvout_norm_def by (rule forE_first_fails) (use assms(5) row in \<open>simp_all add: DIM_def\<close>)
  then have "mvout_rows M dram_addr (block_operand (of_nat rows) (of_nat cols) a) s = Inl OutOfRange"
    unfolding mvout_rows_def Let_def
    by (intro forE_first_fails) (use assms(3) in \<open>simp_all add: ops r\<close>)
  then show ?thesis using assms(2) by (simp add: mvout_def)
qed

theorem mvout_high_scratchpad_fails_witness:
  "mvout ram 0x1000 (block_operand 1 1 0x400) (ready ramp) = Inl OutOfRange \<and> mat_at (spad (ready ramp)) 0x400 0 = Inr 0"
proof -
  have "mat_at (spad (ready ramp)) 0x400 0 = Inr 0"
    using ready_memories(1) [of "0x400" 0 ramp] wf_state_in_mat [OF ready_wf [of ramp]] by (simp add: mat_at_ok)
  then show ?thesis using mvout_high_scratchpad_fails [of "ready ramp" 1 1 "0x400" ram "0x1000"] by (simp add: ready_wf bit_numeral_rec)
qed

text \<open>
  Configuring the load unit number 3, which the two bits of the operand allow, writes past the
  three-element arrays of the load configuration.
\<close>

theorem config_load_unit_3_undefined:
  assumes "wf_arrays s" "rs1 AND 3 = 1" "fld 3 3 rs1 = 3"
  shows "config rs1 rs2 s = Inl Undefined"
  using assms by (simp add: config_def config_mvin_def arr_set_def wf_arrays_def count_defs)

theorem config_load_unit_3_undefined_witness: "config 0x19 0 (ready ramp) = Inl Undefined"
proof -
  have "wf_arrays (ready ramp)" using ready_wf [of ramp] by (simp add: wf_state_def)
  then show ?thesis by (rule config_load_unit_3_undefined) (simp_all add: fld_def)
qed

end
