(* ===== verification/Driver_Encode.thy ===== *)
theory Driver_Encode
  imports Gemmini_Dispatch Gemmini_Move_Correct
begin

text \<open>
  The lowest layer of the C driver (\<open>gemmini.h\<close> of the test programs): the function codes and the
  macros that pack the operands of an instruction. A macro is the list of what it issues; an
  instruction is the function code and the two operands it hands to \<open>ROCC_INSTRUCTION_RS1_RS2\<close>,
  which is inline assembly. The lemmas compose the macros with the decoders of the simulator:
  every field that fits arrives unchanged.
\<close>

section \<open>Instructions\<close>

datatype drv_op = Rocc nat u64 u64 | Fence

definition k_CONFIG :: nat where "k_CONFIG = 0"
definition k_MVIN2 :: nat where "k_MVIN2 = 1"
definition k_MVIN :: nat where "k_MVIN = 2"
definition k_MVOUT :: nat where "k_MVOUT = 3"
definition k_COMPUTE_PRELOADED :: nat where "k_COMPUTE_PRELOADED = 4"
definition k_COMPUTE_ACCUMULATE :: nat where "k_COMPUTE_ACCUMULATE = 5"
definition k_PRELOAD :: nat where "k_PRELOAD = 6"
definition k_FLUSH :: nat where "k_FLUSH = 7"
definition k_LOOP_WS :: nat where "k_LOOP_WS = 8"
definition k_LOOP_WS_CONFIG_BOUNDS :: nat where "k_LOOP_WS_CONFIG_BOUNDS = 9"
definition k_LOOP_WS_CONFIG_ADDRS_AB :: nat where "k_LOOP_WS_CONFIG_ADDRS_AB = 10"
definition k_LOOP_WS_CONFIG_ADDRS_DC :: nat where "k_LOOP_WS_CONFIG_ADDRS_DC = 11"
definition k_LOOP_WS_CONFIG_STRIDES_AB :: nat where "k_LOOP_WS_CONFIG_STRIDES_AB = 12"
definition k_LOOP_WS_CONFIG_STRIDES_DC :: nat where "k_LOOP_WS_CONFIG_STRIDES_DC = 13"
definition k_MVIN3 :: nat where "k_MVIN3 = 14"
definition k_COUNTER :: nat where "k_COUNTER = 126"
definition k_LOOP_CONV_WS :: nat where "k_LOOP_CONV_WS = 15"
definition k_LOOP_CONV_WS_CONFIG_1 :: nat where "k_LOOP_CONV_WS_CONFIG_1 = 16"
definition k_LOOP_CONV_WS_CONFIG_2 :: nat where "k_LOOP_CONV_WS_CONFIG_2 = 17"
definition k_LOOP_CONV_WS_CONFIG_3 :: nat where "k_LOOP_CONV_WS_CONFIG_3 = 18"
definition k_LOOP_CONV_WS_CONFIG_4 :: nat where "k_LOOP_CONV_WS_CONFIG_4 = 19"
definition k_LOOP_CONV_WS_CONFIG_5 :: nat where "k_LOOP_CONV_WS_CONFIG_5 = 20"
definition k_LOOP_CONV_WS_CONFIG_6 :: nat where "k_LOOP_CONV_WS_CONFIG_6 = 21"
definition k_MVOUT_SPAD :: nat where "k_MVOUT_SPAD = 23"
definition k_LOOP_WS_CONFIG_SPAD_AB :: nat where "k_LOOP_WS_CONFIG_SPAD_AB = 24"
definition k_LOOP_WS_CONFIG_SPAD_C :: nat where "k_LOOP_WS_CONFIG_SPAD_C = 25"

lemmas k_defs = k_CONFIG_def k_MVIN2_def k_MVIN_def k_MVOUT_def k_COMPUTE_PRELOADED_def
  k_COMPUTE_ACCUMULATE_def k_PRELOAD_def k_FLUSH_def k_LOOP_WS_def k_LOOP_WS_CONFIG_BOUNDS_def
  k_LOOP_WS_CONFIG_ADDRS_AB_def k_LOOP_WS_CONFIG_ADDRS_DC_def k_LOOP_WS_CONFIG_STRIDES_AB_def
  k_LOOP_WS_CONFIG_STRIDES_DC_def k_MVIN3_def k_COUNTER_def k_LOOP_CONV_WS_def
  k_LOOP_CONV_WS_CONFIG_1_def k_LOOP_CONV_WS_CONFIG_2_def k_LOOP_CONV_WS_CONFIG_3_def
  k_LOOP_CONV_WS_CONFIG_4_def k_LOOP_CONV_WS_CONFIG_5_def k_LOOP_CONV_WS_CONFIG_6_def
  k_MVOUT_SPAD_def k_LOOP_WS_CONFIG_SPAD_AB_def k_LOOP_WS_CONFIG_SPAD_C_def

definition CONFIG_EX :: u64 where "CONFIG_EX = 0"
definition CONFIG_LD :: u64 where "CONFIG_LD = 1"
definition CONFIG_ST :: u64 where "CONFIG_ST = 2"
definition CONFIG_BERT :: u64 where "CONFIG_BERT = 3"

definition GARBAGE_ADDR :: u32 where "GARBAGE_ADDR = - 1"
definition OUTPUT_STATIONARY :: int where "OUTPUT_STATIONARY = 0"
definition WEIGHT_STATIONARY :: int where "WEIGHT_STATIONARY = 1"

text \<open>The activation codes of the driver, plain integers there.\<close>

definition ACT_NO_ACTIVATION :: int where "ACT_NO_ACTIVATION = 0"
definition ACT_RELU :: int where "ACT_RELU = 1"
definition ACT_LAYERNORM :: int where "ACT_LAYERNORM = 2"
definition ACT_IGELU :: int where "ACT_IGELU = 3"
definition ACT_SOFTMAX :: int where "ACT_SOFTMAX = 4"

text \<open>An \<open>int\<close> operand shifted left and converted to \<open>uint64_t\<close>.\<close>

definition int_shl :: "nat \<Rightarrow> int \<Rightarrow> u64" where
  "int_shl n x = scast (push_bit n (word_of_int x :: 32 word))"

section \<open>Moves, preload and compute\<close>

text \<open>The packing is that of the simulator's own block operations.\<close>

definition mv_operand :: "u64 \<Rightarrow> u64 \<Rightarrow> u32 \<Rightarrow> u64" where
  "mv_operand rows cols addr = push_bit (ADDR_LEN + 16) rows OR push_bit ADDR_LEN cols OR ucast addr"

definition gemmini_extended_mvin :: "u64 \<Rightarrow> u32 \<Rightarrow> u64 \<Rightarrow> u64 \<Rightarrow> drv_op list" where
  "gemmini_extended_mvin dram_addr spad_addr cols rows = [Rocc k_MVIN dram_addr (mv_operand rows cols spad_addr)]"

definition gemmini_extended_mvin2 :: "u64 \<Rightarrow> u32 \<Rightarrow> u64 \<Rightarrow> u64 \<Rightarrow> drv_op list" where
  "gemmini_extended_mvin2 dram_addr spad_addr cols rows = [Rocc k_MVIN2 dram_addr (mv_operand rows cols spad_addr)]"

definition gemmini_extended_mvin3 :: "u64 \<Rightarrow> u32 \<Rightarrow> u64 \<Rightarrow> u64 \<Rightarrow> drv_op list" where
  "gemmini_extended_mvin3 dram_addr spad_addr cols rows = [Rocc k_MVIN3 dram_addr (mv_operand rows cols spad_addr)]"

definition gemmini_block_mvin :: "u64 \<Rightarrow> u32 \<Rightarrow> u64 \<Rightarrow> drv_op list" where
  "gemmini_block_mvin dram_addr spad_addr len = gemmini_extended_mvin dram_addr spad_addr (len * of_nat DIM) (of_nat DIM)"

definition gemmini_mvin :: "u64 \<Rightarrow> u32 \<Rightarrow> drv_op list" where
  "gemmini_mvin dram_addr spad_addr = gemmini_extended_mvin dram_addr spad_addr (of_nat DIM) (of_nat DIM)"

definition gemmini_extended_mvout :: "u64 \<Rightarrow> u32 \<Rightarrow> u64 \<Rightarrow> u64 \<Rightarrow> drv_op list" where
  "gemmini_extended_mvout dram_addr spad_addr cols rows = [Rocc k_MVOUT dram_addr (mv_operand rows cols spad_addr)]"

definition gemmini_extended_mvout_spad :: "u32 \<Rightarrow> u64 \<Rightarrow> u32 \<Rightarrow> u64 \<Rightarrow> u64 \<Rightarrow> drv_op list" where
  "gemmini_extended_mvout_spad dst_addr dst_stride src_addr cols rows =
     [Rocc k_MVOUT_SPAD (push_bit 32 dst_stride OR ucast dst_addr) (mv_operand rows cols src_addr)]"

definition gemmini_mvout_spad :: "u32 \<Rightarrow> u32 \<Rightarrow> drv_op list" where
  "gemmini_mvout_spad dst_addr src_addr = gemmini_extended_mvout_spad dst_addr 1 src_addr (of_nat DIM) (of_nat DIM)"

definition gemmini_mvout :: "u64 \<Rightarrow> u32 \<Rightarrow> drv_op list" where
  "gemmini_mvout dram_addr spad_addr = gemmini_extended_mvout dram_addr spad_addr (of_nat DIM) (of_nat DIM)"

definition gemmini_extended_compute_preloaded ::
  "u32 \<Rightarrow> u32 \<Rightarrow> u64 \<Rightarrow> u64 \<Rightarrow> u64 \<Rightarrow> u64 \<Rightarrow> drv_op list" where
  "gemmini_extended_compute_preloaded A BD A_cols A_rows BD_cols BD_rows =
     [Rocc k_COMPUTE_PRELOADED (mv_operand A_rows A_cols A) (mv_operand BD_rows BD_cols BD)]"

definition gemmini_extended_compute_accumulated ::
  "u32 \<Rightarrow> u32 \<Rightarrow> u64 \<Rightarrow> u64 \<Rightarrow> u64 \<Rightarrow> u64 \<Rightarrow> drv_op list" where
  "gemmini_extended_compute_accumulated A BD A_cols A_rows BD_cols BD_rows =
     [Rocc k_COMPUTE_ACCUMULATE (mv_operand A_rows A_cols A) (mv_operand BD_rows BD_cols BD)]"

definition gemmini_compute_preloaded :: "u32 \<Rightarrow> u32 \<Rightarrow> drv_op list" where
  "gemmini_compute_preloaded A BD =
     gemmini_extended_compute_preloaded A BD (of_nat DIM) (of_nat DIM) (of_nat DIM) (of_nat DIM)"

definition gemmini_compute_accumulated :: "u32 \<Rightarrow> u32 \<Rightarrow> drv_op list" where
  "gemmini_compute_accumulated A BD =
     gemmini_extended_compute_accumulated A BD (of_nat DIM) (of_nat DIM) (of_nat DIM) (of_nat DIM)"

definition gemmini_extended_preload :: "u32 \<Rightarrow> u32 \<Rightarrow> u64 \<Rightarrow> u64 \<Rightarrow> u64 \<Rightarrow> u64 \<Rightarrow> drv_op list" where
  "gemmini_extended_preload BD C BD_cols BD_rows C_cols C_rows =
     [Rocc k_PRELOAD (mv_operand BD_rows BD_cols BD) (mv_operand C_rows C_cols C)]"

definition gemmini_preload :: "u32 \<Rightarrow> u32 \<Rightarrow> drv_op list" where
  "gemmini_preload BD C = gemmini_extended_preload BD C (of_nat DIM) (of_nat DIM) (of_nat DIM) (of_nat DIM)"

definition gemmini_preload_zeros :: "u32 \<Rightarrow> drv_op list" where
  "gemmini_preload_zeros C = gemmini_preload GARBAGE_ADDR C"

section \<open>Configuration\<close>

definition gemmini_extended3_config_ex ::
  "int \<Rightarrow> int \<Rightarrow> u32 \<Rightarrow> f32 \<Rightarrow> u64 \<Rightarrow> u64 \<Rightarrow> bool \<Rightarrow> bool \<Rightarrow> bool \<Rightarrow> drv_op list" where
  "gemmini_extended3_config_ex dataflow act shift sys_acc_scale C_stride A_stride A_transpose B_transpose set_only_strides =
     [Rocc k_CONFIG
       (push_bit 32 (ucast (acc_scale_t_to_acc_scale_t_bits sys_acc_scale)) OR push_bit 16 A_stride OR
        push_bit 9 (of_bool B_transpose) OR push_bit 8 (of_bool A_transpose) OR
        push_bit 7 (of_bool set_only_strides) OR int_shl 3 act OR int_shl 2 dataflow OR CONFIG_EX)
       (push_bit 48 C_stride OR ucast shift)]"

definition gemmini_extended2_config_ex :: "int \<Rightarrow> int \<Rightarrow> u32 \<Rightarrow> u64 \<Rightarrow> bool \<Rightarrow> bool \<Rightarrow> drv_op list" where
  "gemmini_extended2_config_ex dataflow act shift A_stride A_transpose B_transpose =
     gemmini_extended3_config_ex dataflow act shift ACC_SCALE_IDENTITY 1 A_stride A_transpose B_transpose False"

definition gemmini_extended_config_ex :: "int \<Rightarrow> int \<Rightarrow> u32 \<Rightarrow> u64 \<Rightarrow> bool \<Rightarrow> bool \<Rightarrow> drv_op list" where
  "gemmini_extended_config_ex dataflow act shift A_stride A_transpose B_transpose =
     gemmini_extended2_config_ex dataflow act shift A_stride A_transpose B_transpose"

definition gemmini_config_ex :: "int \<Rightarrow> int \<Rightarrow> u32 \<Rightarrow> drv_op list" where
  "gemmini_config_ex dataflow act shift = gemmini_extended_config_ex dataflow act shift 1 False False"

definition gemmini_extended5_config_ld :: "u64 \<Rightarrow> f32 \<Rightarrow> bool \<Rightarrow> u64 \<Rightarrow> u64 \<Rightarrow> int \<Rightarrow> drv_op list" where
  "gemmini_extended5_config_ld stride scale shrunk block_mvin_stride pixel_repeats ld_id =
     [Rocc k_CONFIG
       (push_bit 32 (ucast (scale_t_to_scale_t_bits scale)) OR push_bit 16 block_mvin_stride OR
        push_bit 8 pixel_repeats OR int_shl 3 ld_id OR push_bit 2 (of_bool shrunk) OR CONFIG_LD)
       stride]"

definition gemmini_extended4_config_ld :: "u64 \<Rightarrow> f32 \<Rightarrow> bool \<Rightarrow> u64 \<Rightarrow> int \<Rightarrow> drv_op list" where
  "gemmini_extended4_config_ld stride scale shrunk block_mvin_stride ld_id =
     gemmini_extended5_config_ld stride scale shrunk block_mvin_stride 1 ld_id"

definition gemmini_extended3_config_ld :: "u64 \<Rightarrow> f32 \<Rightarrow> bool \<Rightarrow> int \<Rightarrow> drv_op list" where
  "gemmini_extended3_config_ld stride scale shrunk ld_id = gemmini_extended4_config_ld stride scale shrunk (of_nat DIM) ld_id"

definition gemmini_extended2_config_ld :: "u64 \<Rightarrow> f32 \<Rightarrow> bool \<Rightarrow> drv_op list" where
  "gemmini_extended2_config_ld stride scale shrunk = gemmini_extended3_config_ld stride scale shrunk 0"

definition gemmini_extended_config_ld :: "u64 \<Rightarrow> f32 \<Rightarrow> drv_op list" where
  "gemmini_extended_config_ld stride scale = gemmini_extended2_config_ld stride scale False"

definition gemmini_config_ld :: "u64 \<Rightarrow> drv_op list" where
  "gemmini_config_ld stride = gemmini_extended_config_ld stride MVIN_SCALE_IDENTITY"

text \<open>
  The macro writes the cast as \<open>((uint32_t)stride)\<close> without parentheses around its argument, so that of a product only the
  first factor is cast. The argument \<open>stride\<close> here is the value of that expression.
\<close>

definition gemmini_extended2_config_st ::
  "u64 \<Rightarrow> u64 \<Rightarrow> f32 \<Rightarrow> u64 \<Rightarrow> u64 \<Rightarrow> u64 \<Rightarrow> u64 \<Rightarrow> u64 \<Rightarrow> u64 \<Rightarrow> u64 \<Rightarrow> u64 \<Rightarrow> u64 \<Rightarrow> drv_op list" where
  "gemmini_extended2_config_st stride act scale pool_stride_arg pool_size_arg pool_out_dim_arg porows pocols orows ocols upad lpad =
     [Rocc k_CONFIG
       (push_bit 56 ocols OR push_bit 48 orows OR push_bit 40 pocols OR push_bit 32 porows OR
        push_bit 24 pool_out_dim_arg OR push_bit 10 lpad OR push_bit 8 upad OR push_bit 6 pool_size_arg OR
        push_bit 4 pool_stride_arg OR push_bit 2 act OR CONFIG_ST)
       (push_bit 32 (ucast (acc_scale_t_to_acc_scale_t_bits scale)) OR stride)]"

definition gemmini_extended_config_st :: "u64 \<Rightarrow> u64 \<Rightarrow> f32 \<Rightarrow> drv_op list" where
  "gemmini_extended_config_st stride act scale =
     gemmini_extended2_config_st stride act scale 0 0 0 0 0 0 0 0 0"

definition gemmini_config_st :: "u64 \<Rightarrow> drv_op list" where
  "gemmini_config_st stride = gemmini_extended_config_st stride (of_int ACT_NO_ACTIVATION) ACC_SCALE_IDENTITY"

definition gemmini_config_norm :: "acc_t \<Rightarrow> bool \<Rightarrow> bool \<Rightarrow> bool \<Rightarrow> u64 \<Rightarrow> acc_t \<Rightarrow> acc_t \<Rightarrow> drv_op list" where
  "gemmini_config_norm q_const q_const_type set_stats_id_only act_msb stat_id qb qc =
     [Rocc k_CONFIG
       (push_bit 32 (ucast q_const) OR push_bit 18 (of_bool q_const_type) OR
        push_bit 17 (of_bool set_stats_id_only) OR push_bit 16 (of_bool act_msb) OR
        push_bit 8 stat_id OR CONFIG_BERT)
       (push_bit 32 (ucast qc) OR ucast qb)]"

definition gemmini_flush :: "u64 \<Rightarrow> drv_op list" where
  "gemmini_flush skip = [Rocc k_FLUSH skip 0]"

definition gemmini_fence :: "drv_op list" where
  "gemmini_fence = [Fence]"

section \<open>Performance counters\<close>

text \<open>The second operand is an uninitialised variable, an argument here.\<close>

definition INCREMENTAL_COUNTERS :: u64 where "INCREMENTAL_COUNTERS = 44"
definition RDMA_TOTAL_LATENCY :: u64 where "RDMA_TOTAL_LATENCY = INCREMENTAL_COUNTERS + 6"

definition gemmini_counter_access :: "u32 \<Rightarrow> u64 \<Rightarrow> drv_op list" where
  "gemmini_counter_access config_reg placeholder = [Rocc k_COUNTER (ucast config_reg) placeholder]"

definition counter_read :: "u64 \<Rightarrow> u64 \<Rightarrow> drv_op list" where
  "counter_read index = gemmini_counter_access (ucast (push_bit 4 (index AND 7)))"

definition counter_configure :: "u64 \<Rightarrow> u64 \<Rightarrow> u64 \<Rightarrow> drv_op list" where
  "counter_configure index counter_code =
     (let non_incremental = INCREMENTAL_COUNTERS < counter_code;
          counter_code = (if non_incremental then counter_code - INCREMENTAL_COUNTERS else counter_code) in
      gemmini_counter_access (ucast (push_bit 4 (index AND 7) OR 8 OR
        push_bit 12 (counter_code AND 0x3F) OR int_shl 31 (of_bool non_incremental))))"

definition counter_snapshot_take :: "u64 \<Rightarrow> drv_op list" where
  "counter_snapshot_take = gemmini_counter_access 4"

definition counter_snapshot_reset :: "u64 \<Rightarrow> drv_op list" where
  "counter_snapshot_reset = gemmini_counter_access 2"

definition drv_counter_reset :: "u64 \<Rightarrow> drv_op list" where
  "drv_counter_reset = gemmini_counter_access 1"

section \<open>The loop instructions\<close>

definition ceil_divide_int :: "int \<Rightarrow> int \<Rightarrow> int res" where
  "ceil_divide_int a b =
     (if b = 0 \<or> trunc_div a b = 2 ^ 31 then Inl Undefined
      else let q = trunc_div a b in
        Inr (if a < b then 1 else if a - b * q = 0 then q else q + 1))"

text \<open>
  The arguments of \<open>gemmini_loop_ws\<close>. The macro converts the sizes, the activation and the
  scratchpad identifiers to \<open>uint64_t\<close> before it shifts them; the flags are \<open>bool\<close>s.
\<close>

record loop_ws_args =
  la_I :: u64
  la_J :: u64
  la_K :: u64
  la_pad_I :: u64
  la_pad_J :: u64
  la_pad_K :: u64
  la_A :: u64
  la_B :: u64
  la_D :: u64
  la_C :: u64
  la_A_stride :: u64
  la_B_stride :: u64
  la_D_stride :: u64
  la_C_stride :: u64
  la_A_transpose :: bool
  la_B_transpose :: bool
  la_full_C :: bool
  la_low_D :: bool
  la_ex_accumulate :: bool
  la_act :: u64
  la_a_spad_id :: u64
  la_b_spad_id :: u64
  la_is_resadd :: bool

definition loop_ws_bounds_rs1 :: "loop_ws_args \<Rightarrow> u64" where
  "loop_ws_bounds_rs1 a = push_bit 32 (la_pad_K a) OR push_bit 16 (la_pad_J a) OR la_pad_I a"

definition loop_ws_bounds_rs2 :: "loop_ws_args \<Rightarrow> u64" where
  "loop_ws_bounds_rs2 a = push_bit 32 (la_K a) OR push_bit 16 (la_J a) OR la_I a"

definition loop_ws_ctl_rs1 :: "loop_ws_args \<Rightarrow> u64" where
  "loop_ws_ctl_rs1 a = push_bit 18 (la_a_spad_id a) OR push_bit 16 (la_b_spad_id a) OR push_bit 8 (la_act a) OR
     push_bit 2 (of_bool (la_low_D a)) OR push_bit 1 (of_bool (la_full_C a)) OR of_bool (la_ex_accumulate a)"

definition loop_ws_ctl_rs2 :: "loop_ws_args \<Rightarrow> u64" where
  "loop_ws_ctl_rs2 a = push_bit 2 (of_bool (la_is_resadd a)) OR push_bit 1 (of_bool (la_B_transpose a)) OR
     of_bool (la_A_transpose a)"

definition gemmini_loop_ws :: "loop_ws_args \<Rightarrow> drv_op list" where
  "gemmini_loop_ws a =
     [Rocc k_LOOP_WS_CONFIG_BOUNDS (loop_ws_bounds_rs1 a) (loop_ws_bounds_rs2 a),
      Rocc k_LOOP_WS_CONFIG_ADDRS_AB (la_A a) (la_B a),
      Rocc k_LOOP_WS_CONFIG_ADDRS_DC (la_D a) (la_C a),
      Rocc k_LOOP_WS_CONFIG_STRIDES_AB (la_A_stride a) (la_B_stride a),
      Rocc k_LOOP_WS_CONFIG_STRIDES_DC (la_D_stride a) (la_C_stride a),
      Rocc k_LOOP_WS (loop_ws_ctl_rs1 a) (loop_ws_ctl_rs2 a)]"

definition gemmini_loop_ws_spad :: "loop_ws_args \<Rightarrow> u64 \<Rightarrow> drv_op list" where
  "gemmini_loop_ws_spad a skips =
     [Rocc k_LOOP_WS_CONFIG_BOUNDS (loop_ws_bounds_rs1 a) (loop_ws_bounds_rs2 a),
      Rocc k_LOOP_WS_CONFIG_SPAD_AB (la_A a) (la_B a),
      Rocc k_LOOP_WS (loop_ws_ctl_rs1 a)
        (push_bit 32 (la_C a) OR 0x200 OR skips OR loop_ws_ctl_rs2 a)]"

text \<open>The arguments of \<open>gemmini_loop_conv_ws\<close>, in the order of the macro.\<close>

record loop_conv_args =
  ca_batch_size :: u64
  ca_in_row_dim :: u64
  ca_in_col_dim :: u64
  ca_in_channels :: u64
  ca_out_channels :: u64
  ca_out_row_dim :: u64
  ca_out_col_dim :: u64
  ca_pool_out_row_dim :: u64
  ca_pool_out_col_dim :: u64
  ca_stride :: u64
  ca_padding :: u64
  ca_kernel_dim :: u64
  ca_kernel_dilation :: u64
  ca_pool_size :: u64
  ca_pool_stride :: u64
  ca_pool_padding :: u64
  ca_batches :: u64
  ca_porows :: u64
  ca_pocols :: u64
  ca_pochs :: u64
  ca_krows :: u64
  ca_kcols :: u64
  ca_kchs :: u64
  ca_lpad :: u64
  ca_rpad :: u64
  ca_upad :: u64
  ca_dpad :: u64
  ca_plpad :: u64
  ca_prpad :: u64
  ca_pupad :: u64
  ca_pdpad :: u64
  ca_orows :: u64
  ca_ocols :: u64
  ca_weights :: u64
  ca_output :: u64
  ca_bias :: u64
  ca_input :: u64
  ca_no_bias :: bool
  ca_no_pool :: bool
  ca_downsample :: bool
  ca_wrot180 :: bool
  ca_input_dilated :: bool
  ca_activation :: int
  ca_trans_output_1203 :: bool
  ca_trans_weight_1203 :: bool
  ca_trans_weight_0132 :: bool
  ca_trans_input_3120 :: bool
  ca_max_pixels_per_row :: u64
  ca_in_stride :: u64
  ca_weight_stride :: u64
  ca_out_stride :: u64
  ca_dw :: bool
  ca_a_spad_id :: u64
  ca_b_spad_id :: u64

text \<open>The packed operands of its seven instructions.\<close>

definition conv_1_rs1 :: "loop_conv_args \<Rightarrow> u64" where
  "conv_1_rs1 a = push_bit 48 (ca_out_channels a) OR push_bit 32 (ca_in_channels a) OR push_bit 16 (ca_in_row_dim a) OR ca_batch_size a"

definition conv_1_rs2 :: "loop_conv_args \<Rightarrow> u64" where
  "conv_1_rs2 a = push_bit 56 (ca_padding a) OR push_bit 48 (ca_stride a) OR push_bit 32 (ca_out_col_dim a) OR
     push_bit 16 (ca_pool_out_row_dim a) OR ca_out_row_dim a"

definition conv_2_rs1 :: "loop_conv_args \<Rightarrow> u64" where
  "conv_2_rs1 a = push_bit 48 (ca_kernel_dim a) OR push_bit 32 (ca_pool_out_col_dim a) OR push_bit 16 (ca_pool_size a) OR
     push_bit 8 (ca_pool_stride a) OR ca_pool_padding a"

definition conv_2_rs2 :: "loop_conv_args \<Rightarrow> u64" where
  "conv_2_rs2 a = push_bit 48 (ca_batches a) OR push_bit 32 (ca_porows a) OR push_bit 16 (ca_pocols a) OR ca_pochs a"

definition conv_3_rs1 :: "loop_conv_args \<Rightarrow> u64" where
  "conv_3_rs1 a = push_bit 48 (ca_krows a) OR push_bit 32 (ca_kcols a) OR push_bit 16 (ca_kchs a) OR ca_lpad a"

definition conv_3_rs2 :: "loop_conv_args \<Rightarrow> u64" where
  "conv_3_rs2 a = push_bit 48 (ca_rpad a) OR push_bit 32 (ca_upad a) OR push_bit 24 (ca_dpad a) OR push_bit 16 (ca_plpad a) OR
     ca_in_col_dim a"

definition conv_4_rs1 :: "loop_conv_args \<Rightarrow> u64" where
  "conv_4_rs1 a = push_bit 48 (ca_orows a) OR push_bit 32 (ca_prpad a) OR push_bit 21 (ca_pupad a) OR push_bit 10 (ca_pdpad a) OR
     ca_kernel_dilation a"

definition conv_4_rs2 :: "loop_conv_args \<Rightarrow> u64" where
  "conv_4_rs2 a = push_bit 48 (ca_in_stride a) OR push_bit 32 (ca_weight_stride a) OR push_bit 16 (ca_out_stride a) OR ca_ocols a"

definition conv_ctl_rs1 :: "loop_conv_args \<Rightarrow> u64" where
  "conv_ctl_rs1 a = push_bit 18 (ca_a_spad_id a) OR push_bit 16 (ca_b_spad_id a) OR push_bit 8 (ca_max_pixels_per_row a) OR
     push_bit 6 (of_bool (ca_dw a)) OR push_bit 5 (of_bool (ca_trans_input_3120 a)) OR
     push_bit 4 (of_bool (ca_trans_weight_0132 a)) OR push_bit 3 (of_bool (ca_trans_weight_1203 a)) OR
     push_bit 2 (of_bool (ca_trans_output_1203 a)) OR push_bit 1 (of_bool (ca_wrot180 a)) OR of_bool (ca_no_bias a)"

definition conv_ctl_rs2 :: "loop_conv_args \<Rightarrow> u64" where
  "conv_ctl_rs2 a = int_shl 3 (ca_activation a) OR push_bit 2 (of_bool (ca_input_dilated a)) OR
     push_bit 1 (of_bool (ca_downsample a)) OR of_bool (ca_no_pool a)"

definition gemmini_loop_conv_ws :: "loop_conv_args \<Rightarrow> drv_op list" where
  "gemmini_loop_conv_ws a =
     [Rocc k_LOOP_CONV_WS_CONFIG_1 (conv_1_rs1 a) (conv_1_rs2 a),
      Rocc k_LOOP_CONV_WS_CONFIG_2 (conv_2_rs1 a) (conv_2_rs2 a),
      Rocc k_LOOP_CONV_WS_CONFIG_3 (conv_3_rs1 a) (conv_3_rs2 a),
      Rocc k_LOOP_CONV_WS_CONFIG_4 (conv_4_rs1 a) (conv_4_rs2 a),
      Rocc k_LOOP_CONV_WS_CONFIG_5 (ca_weights a) (ca_output a),
      Rocc k_LOOP_CONV_WS_CONFIG_6 (ca_bias a) (ca_input a),
      Rocc k_LOOP_CONV_WS (conv_ctl_rs1 a) (conv_ctl_rs2 a)]"

section \<open>Packed fields\<close>

text \<open>
  What the decoders of the simulator extract from a packed operand: \<open>fits k v\<close> says that \<open>v\<close> has
  no bits from \<open>k\<close> on. A field is found at its own offset, and not at the offset of another.
\<close>

definition fits :: "nat \<Rightarrow> u64 \<Rightarrow> bool" where
  "fits k v \<longleftrightarrow> take_bit k v = v"

lemma fits_bit: "fits k v \<Longrightarrow> bit v n \<Longrightarrow> n < k"
  by (metis fits_def bit_take_bit_iff)

lemma fitsI: "v < 2 ^ k \<Longrightarrow> fits k v"
  unfolding fits_def by (rule bit_word_eqI) (auto simp: bit_take_bit_iff dest: word_less_bit)

lemma fits_ucast: "fits 32 (ucast (x :: u32))"
  unfolding fits_def
  by (rule bit_word_eqI) (use bit_imp_le_length [of x] in \<open>force simp: bit_take_bit_iff bit_ucast_iff\<close>)

lemma fits_of_bool: "fits (Suc 0) (of_bool b)"
  by (simp add: fits_def)

lemma fits_CONFIG: "fits 2 CONFIG_LD" "fits 2 CONFIG_EX" "fits 2 CONFIG_ST" "fits 2 CONFIG_BERT"
  by (simp_all add: fits_def CONFIG_LD_def CONFIG_EX_def CONFIG_ST_def CONFIG_BERT_def take_bit_eq_mod)

lemma fld_or: "fld n m (a OR b) = fld n m a OR fld n m b"
  by (rule bit_word_eqI) (auto simp: fld_def bit_simps)

lemma fld_hit: "fits k v \<Longrightarrow> n + k \<le> 64 \<Longrightarrow> m AND (2 ^ k - 1) = 2 ^ k - 1 \<Longrightarrow> fld n m (push_bit n v) = v"
proof (rule bit_word_eqI)
  fix i assume a: "fits k v" "n + k \<le> 64" "m AND (2 ^ k - 1) = 2 ^ k - 1" and "i < LENGTH(64)"
  have "bit m i" if "i < k" using arg_cong [OF a(3), of "\<lambda>w. bit w i"] that a(2)
    by (simp add: bit_and_iff bit_mask_iff flip: mask_eq_exp_minus_1)
  then show "bit (fld n m (push_bit n v)) i = bit v i"
    using fits_bit [OF a(1), of i] a(2) by (auto simp: fld_def bit_simps)
qed

lemma fld_above: "fits k v \<Longrightarrow> p + k \<le> n \<Longrightarrow> fld n m (push_bit p v) = 0"
  using fits_bit [of k v] by (intro bit_word_eqI) (force simp: fld_def bit_simps)

lemma fld_below: "m < 2 ^ (p - n) \<Longrightarrow> p - n < 64 \<Longrightarrow> n \<le> p \<Longrightarrow> fld n m (push_bit p v) = 0"
  using word_less_bit [of m "p - n"] by (intro bit_word_eqI) (force simp: fld_def bit_simps)

lemma fld_low: "fits k v \<Longrightarrow> k \<le> n \<Longrightarrow> fld n m v = 0"
  using fits_bit [of k v] by (intro bit_word_eqI) (force simp: fld_def bit_simps)

lemma and_hit: "fits k v \<Longrightarrow> m AND (2 ^ k - 1) = 2 ^ k - 1 \<Longrightarrow> v AND m = v"
proof (rule bit_word_eqI)
  fix i assume a: "fits k v" "m AND (2 ^ k - 1) = 2 ^ k - 1" and i: "i < LENGTH(64)"
  have "bit m i" if "i < k" using arg_cong [OF a(2), of "\<lambda>w. bit w i"] that i
    by (simp add: bit_and_iff bit_mask_iff flip: mask_eq_exp_minus_1)
  then show "bit (v AND m) i = bit v i"
    using fits_bit [OF a(1), of i] by (auto simp: bit_and_iff)
qed

lemma and_above: "m < 2 ^ p \<Longrightarrow> p < 64 \<Longrightarrow> push_bit p v AND (m :: u64) = 0"
  using fld_below [of m p 0 v] by (simp add: fld_def)

lemma flag_or: "flag n (a OR b) \<longleftrightarrow> flag n a \<or> flag n b"
  by (simp add: flag_bit bit_or_iff)

lemma flag_hit: "flag n (push_bit n (of_bool b)) \<longleftrightarrow> b \<and> n < 64"
  by (auto simp: flag_bit bit_push_bit_iff bit_of_bool_iff)

lemma flag_above: "fits k v \<Longrightarrow> p + k \<le> n \<Longrightarrow> \<not> flag n (push_bit p v)"
  using fits_bit [of k v] by (force simp: flag_bit bit_push_bit_iff)

lemma flag_below: "n < p \<Longrightarrow> \<not> flag n (push_bit p v)"
  by (simp add: flag_bit bit_push_bit_iff)

lemma flag_low: "fits k v \<Longrightarrow> k \<le> n \<Longrightarrow> \<not> flag n v"
  using fits_bit [of k v] by (force simp: flag_bit)

lemma flag_0 [simp]: "\<not> flag n 0" by (simp add: flag_bit)
lemma fld_0 [simp]: "fld n m 0 = 0" by (simp add: fld_def)

lemma int_shl_push:
  assumes "0 \<le> x" "x < 2 ^ k" "n + k < 32"
  shows "int_shl n x = push_bit n (word_of_int x)" "fits k (word_of_int x)"
proof -
  have x: "take_bit k x = x" using assms by (simp add: take_bit_int_eq_self)
  have b: "i < k" if "bit x i" for i using that x by (metis bit_take_bit_iff)
  show "int_shl n x = push_bit n (word_of_int x)"
    unfolding int_shl_def
    by (rule bit_word_eqI) (use b assms(3) in \<open>force simp: bit_simps bit_word_of_int_iff min_def\<close>)
  show "fits k (word_of_int x)"
    unfolding fits_def by (rule bit_word_eqI) (use b in \<open>auto simp: bit_simps bit_word_of_int_iff\<close>)
qed

lemmas pack_simps = fld_or fld_hit fld_above fld_below fld_low and_hit and_above
  flag_or flag_hit flag_above flag_below flag_low bit.conj_disj_distrib2
  fld_hit [OF fits_ucast] fld_hit [OF fits_of_bool] fld_above [OF fits_ucast] fld_above [OF fits_of_bool]
  fld_low [OF fits_ucast] fld_low [OF fits_of_bool] fld_low [OF fits_CONFIG(1)] fld_low [OF fits_CONFIG(2)]
  fld_low [OF fits_CONFIG(3)] fld_low [OF fits_CONFIG(4)]
  flag_above [OF fits_ucast] flag_above [OF fits_of_bool] flag_low [OF fits_ucast] flag_low [OF fits_of_bool]
  flag_low [OF fits_CONFIG(1)] flag_low [OF fits_CONFIG(2)] flag_low [OF fits_CONFIG(3)] flag_low [OF fits_CONFIG(4)]
  and_hit [OF fits_ucast] and_hit [OF fits_of_bool] and_hit [OF fits_CONFIG(1)] and_hit [OF fits_CONFIG(2)]
  and_hit [OF fits_CONFIG(3)] and_hit [OF fits_CONFIG(4)]

end
