(* ===== verification/Driver_Issue.thy ===== *)
theory Driver_Issue
  imports Driver_Encode
begin

text \<open>
  The driver's macros run on the simulator: every operation a macro issues is dispatched by its
  function code, and a fence does nothing. The lemmas say what the configuration macros leave in
  the state of the accelerator and which loop the loop macros start.
\<close>

section \<open>Issuing operations\<close>

fun issue :: "'m mmu \<Rightarrow> drv_op \<Rightarrow> 'm sim \<Rightarrow> 'm sim res" where
  "issue M (Rocc k rs1 rs2) s = exec_funct M k rs1 rs2 s"
| "issue M Fence s = Inr s"

definition run_ops :: "'m mmu \<Rightarrow> drv_op list \<Rightarrow> 'm sim \<Rightarrow> 'm sim res" where
  "run_ops M = foldE (issue M)"

lemma run_ops_simps [simp]:
  "run_ops M [] s = Inr s" "run_ops M (x # ops) s = bindE (issue M x s) (run_ops M ops)"
  by (simp_all add: run_ops_def)

lemma run_ops_Nil_fun [simp]: "run_ops M [] = Inr"
  by (simp add: fun_eq_iff)

lemma run_ops_append: "run_ops M (xs @ ys) s = bindE (run_ops M xs s) (run_ops M ys)"
  by (simp add: run_ops_def foldE_append)

lemma run_ops_concat: "run_ops M (concat (map f xs)) s = foldE (\<lambda>x. run_ops M (f x)) xs s"
proof (induction xs arbitrary: s)
  case (Cons x xs)
  have "run_ops M (concat (map f xs)) = foldE (\<lambda>x. run_ops M (f x)) xs" using Cons by blast
  then show ?case by (simp add: run_ops_append)
qed simp

lemma run_ops_wf: "keeps wf_kept (run_ops M ops)"
proof -
  have "keeps wf_kept (issue M x)" for x
  proof (cases x)
    case (Rocc k a b)
    then have "issue M x = exec_funct M k a b" by (simp add: fun_eq_iff)
    then show ?thesis by (simp add: exec_funct_wf)
  next
    case Fence
    then have "issue M x = Inr" by (simp add: fun_eq_iff)
    then show ?thesis by (simp add: wf.keeps_Inr)
  qed
  then show ?thesis unfolding run_ops_def by (rule wf.keeps_foldE)
qed

section \<open>Configuration\<close>

text \<open>
  A load configuration: unit, stride, scale, shrinking, block stride and repetition arrive as
  given, provided they fit their fields.
\<close>

lemma config_code: "exec_funct M k_CONFIG rs1 rs2 s = config rs1 rs2 s"
  by (simp add: exec_funct_def k_defs funct_defs)

lemmas pack = pack_simps CONFIG_EX_def CONFIG_LD_def CONFIG_ST_def CONFIG_BERT_def

lemma config_select:
  "config rs1 rs2 s = (if rs1 AND 3 = CONFIG_EX then config_ex rs1 rs2 s else if rs1 AND 3 = CONFIG_LD then config_mvin rs1 rs2 s
     else if rs1 AND 3 = CONFIG_ST then config_mvout rs1 rs2 s else if rs1 AND 3 = CONFIG_BERT then config_norm rs1 rs2 s else Inr s)"
  by (simp add: config_def CONFIG_EX_def CONFIG_LD_def CONFIG_ST_def CONFIG_BERT_def)

lemma CONFIG_distinct [simp]: "CONFIG_LD \<noteq> CONFIG_EX" "CONFIG_ST \<noteq> CONFIG_EX" "CONFIG_ST \<noteq> CONFIG_LD"
  "CONFIG_BERT \<noteq> CONFIG_EX" "CONFIG_BERT \<noteq> CONFIG_LD" "CONFIG_BERT \<noteq> CONFIG_ST"
  by (simp_all add: CONFIG_EX_def CONFIG_LD_def CONFIG_ST_def CONFIG_BERT_def)

lemma drop_or: "drop_bit 32 (push_bit 32 (ucast (x :: u32)) OR w) = (ucast x :: u64) OR drop_bit 32 w"
  by (rule bit_word_eqI) (auto simp: bit_simps dest: bit_imp_le_length)

lemma fits_or: "fits k a \<Longrightarrow> fits k b \<Longrightarrow> fits k (a OR b)"
  by (simp add: fits_def take_bit_or)

lemma fits_push: "fits k v \<Longrightarrow> n + k \<le> m \<Longrightarrow> fits m (push_bit n v)"
  using fits_bit [of k v] unfolding fits_def by (intro bit_word_eqI) (force simp: bit_simps)

lemma fits_mono: "fits k v \<Longrightarrow> k \<le> m \<Longrightarrow> fits m v"
  using fits_push [of k v 0 m] by simp

lemma drop_fits: "fits 32 w \<Longrightarrow> drop_bit 32 w = 0"
  using fits_bit [of 32 w] by (intro bit_word_eqI) (force simp: bit_simps)

lemma narrow_back: "fits k v \<Longrightarrow> k \<le> LENGTH('a) \<Longrightarrow> ucast (ucast v :: 'a::len word) = v"
  using fits_bit [of k v] by (intro bit_word_eqI) (force simp: bit_simps)

lemma narrow_32: "(ucast (ucast (x :: u32) :: u64) :: u32) = x"
  by (rule bit_word_eqI) (auto simp: bit_simps)

lemma uint_ucast_u32: "uint (ucast (x :: u32) :: u64) = uint x"
  by (metis unat_ucast_u32 uint_nat)

lemma config_ld_arrives:
  fixes s :: "'m sim"
  assumes "wf_arrays s" "0 \<le> ld_id" "ld_id < 3" "fits 16 block_mvin_stride" "fits 8 pixel_repeats"
  shows "run_ops M (gemmini_extended5_config_ld stride scale shrunk block_mvin_stride pixel_repeats ld_id) s =
    Inr (s\<lparr>load_strides := (load_strides s)[nat ld_id := stride],
      load_block_strides := (load_block_strides s)[nat ld_id := ucast block_mvin_stride],
      load_scales := (load_scales s)[nat ld_id := scale],
      load_shrunks := (load_shrunks s)[nat ld_id := shrunk],
      pixels_per_rows := (pixels_per_rows s)[nat ld_id := if pixel_repeats = 0 then 1 else ucast pixel_repeats]\<rparr>)"
proof -
  let ?w = "push_bit 16 block_mvin_stride OR push_bit 8 pixel_repeats OR int_shl 3 ld_id OR
    push_bit 2 (of_bool shrunk) OR CONFIG_LD"
  define r :: u64 where "r = push_bit 32 (ucast (scale_t_to_scale_t_bits scale)) OR ?w"
  have id: "int_shl 3 ld_id = push_bit 3 (word_of_int ld_id)" "fits 2 (word_of_int ld_id)"
    using int_shl_push [of ld_id 2 3] assms by simp_all
  have f: "fld 16 0xFFFF r = block_mvin_stride" "fld 8 0xFF r = pixel_repeats" "fld 3 3 r = word_of_int ld_id"
    "flag 2 r = shrunk" "r AND 3 = CONFIG_LD"
    using assms(4,5) id by (simp_all add: r_def pack_simps split del: split_of_bool)
  have fw: "fits 32 ?w"
    unfolding id(1)
    by (intro fits_or fits_push [OF assms(4)] fits_push [OF assms(5)] fits_push [OF id(2)]
      fits_push [OF fits_of_bool] fits_mono [OF fits_CONFIG(1)]) simp_all
  have sc: "(ucast (drop_bit 32 r) :: u32) = scale_t_to_scale_t_bits scale"
    unfolding r_def drop_or drop_fits [OF fw] by (simp add: narrow_32)
  have i: "unat (word_of_int ld_id :: u64) = nat ld_id"
    using assms by (simp add: unat_eq_nat_uint uint_word_of_int)
  have ppr: "(ucast pixel_repeats :: u8) = 0 \<longleftrightarrow> pixel_repeats = 0"
  proof -
    have "(ucast (ucast pixel_repeats :: u8) :: u64) = pixel_repeats" by (rule narrow_back [OF assms(5)]) simp
    then show ?thesis by (metis unsigned_0)
  qed
  have l: "nat ld_id < length (load_strides s)" "nat ld_id < length (load_block_strides s)"
    "nat ld_id < length (load_scales s)" "nat ld_id < length (load_shrunks s)" "nat ld_id < length (pixels_per_rows s)"
    using assms by (auto simp: wf_arrays_def LOAD_STATES_def)
  show ?thesis
    unfolding gemmini_extended5_config_ld_def r_def [symmetric]
    by (simp add: config_code config_select f config_mvin_def sc i ppr arr_set_def l Let_def
      scale_t_to_scale_t_bits_def scale_t_bits_to_scale_t_def)
qed

text \<open>
  An execute configuration. The scale of the systolic array arrives as the number its bits
  denote as an unsigned integer, not as the float with these bits.
\<close>

lemma config_ex_arrives:
  fixes s :: "'m sim"
  assumes "0 \<le> dataflow" "dataflow \<le> 1" "0 \<le> act" "act \<le> 3" "fits 16 C_stride" "fits 16 A_stride" "unat shift < 32"
    and "act_of_bits (acc_act s) (word_of_int act) = Inr a"
    and "\<not> (dataflow = 0 \<and> \<not> A_transpose \<and> B_transpose)" "\<not> (dataflow = 1 \<and> A_transpose \<and> B_transpose)"
  shows "run_ops M (gemmini_extended3_config_ex dataflow act shift sys_acc_scale C_stride A_stride A_transpose B_transpose False) s =
    Inr (s\<lparr>mode := (if dataflow = 0 then OS else WS), sys_act := a, sys_shift := ucast shift,
      sys_acc_shift := f32_of_int (uint (acc_scale_t_to_acc_scale_t_bits sys_acc_scale)),
      a_transpose := A_transpose, b_transpose := B_transpose,
      c_stride := ucast C_stride, a_stride := ucast A_stride\<rparr>)"
proof -
  define r :: u64 where "r = push_bit 32 (ucast (acc_scale_t_to_acc_scale_t_bits sys_acc_scale)) OR push_bit 16 A_stride OR
    push_bit 9 (of_bool B_transpose) OR push_bit 8 (of_bool A_transpose) OR
    push_bit 7 (of_bool False) OR int_shl 3 act OR int_shl 2 dataflow OR CONFIG_EX"
  define q :: u64 where "q = push_bit 48 C_stride OR ucast shift"
  have df: "int_shl 2 dataflow = push_bit 2 (word_of_int dataflow)" "fits 1 (word_of_int dataflow)"
    using int_shl_push [of dataflow 1 2] assms by simp_all
  have ac: "int_shl 3 act = push_bit 3 (word_of_int act)" "fits 2 (word_of_int act)"
    using int_shl_push [of act 2 3] assms by simp_all
  have f: "fld 2 1 r = word_of_int dataflow" "fld 3 3 r = word_of_int act" "fld 32 0xFFFFFFFF r = ucast (acc_scale_t_to_acc_scale_t_bits sys_acc_scale)"
    "fld 16 0xFFFF r = A_stride" "flag 8 r = A_transpose" "flag 9 r = B_transpose" "\<not> flag 7 r" "r AND 3 = CONFIG_EX"
    using assms(5,6) df ac by (simp_all add: r_def pack_simps split del: split_of_bool)
  have q: "q AND 0xFFFFFFFF = ucast shift" "fld 48 0xFFFF q = C_stride"
    using assms(5) by (simp_all add: q_def pack_simps)
  have d0: "(word_of_int dataflow :: u64) = 0 \<longleftrightarrow> dataflow = 0"
  proof -
    have "dataflow = 0 \<or> dataflow = 1" using assms by linarith
    then show ?thesis by auto
  qed
  define md where "md = (if dataflow = 0 then OS else WS)"
  have md: "(if (word_of_int dataflow :: u64) = 0 then OS else WS) = md" by (simp add: d0 md_def)
  have guard: "\<not> (md = OS \<and> \<not> A_transpose \<and> B_transpose) \<and> \<not> (md = WS \<and> A_transpose \<and> B_transpose)"
    using assms(1,2,9,10) by (auto simp: md_def split: if_splits)
  show ?thesis
    unfolding gemmini_extended3_config_ex_def r_def [symmetric] q_def [symmetric] md_def [symmetric]
      run_ops_simps issue.simps config_code config_select f q config_ex_def md Let_def assms(8) bindE.simps
    using assms(7) guard f(7) by (simp add: uint_ucast_u32)
qed

lemma config_st_arrives:
  fixes s :: "'m sim"
  assumes "fits 2 act" "act_of_bits (acc_act s) act = Inr a" "fits 2 p_stride" "fits 2 p_size" "fits 8 p_out_dim"
    "fits 8 porows" "fits 8 pocols" "fits 8 orows" "fits 8 ocols" "fits 2 upad" "fits 2 lpad"
  shows "run_ops M (gemmini_extended2_config_st (ucast (stride :: u32)) act scale p_stride p_size p_out_dim porows pocols orows ocols upad lpad) s =
    Inr (s\<lparr>store_stride := ucast stride, acc_act := a, acc_shift := scale, pool_stride := ucast p_stride,
      pool_size := ucast p_size, pool_upad := ucast upad, pool_lpad := ucast lpad, pool_out_dim := ucast p_out_dim,
      pool_porows := ucast porows, pool_pocols := ucast pocols, pool_orows := ucast orows, pool_ocols := ucast ocols\<rparr>)"
proof -
  define r :: u64 where "r = push_bit 56 ocols OR push_bit 48 orows OR push_bit 40 pocols OR push_bit 32 porows OR
    push_bit 24 p_out_dim OR push_bit 10 lpad OR push_bit 8 upad OR push_bit 6 p_size OR
    push_bit 4 p_stride OR push_bit 2 act OR CONFIG_ST"
  define q :: u64 where "q = push_bit 32 (ucast (acc_scale_t_to_acc_scale_t_bits scale)) OR ucast stride"
  note fi = assms(1,3-)
  have f: "r AND 3 = CONFIG_ST" "fld 2 3 r = act" "fld 4 3 r = p_stride" "fld 6 3 r = p_size"
    "fld 8 3 r = upad" "fld 10 3 r = lpad" 
    using fi by (simp_all add: r_def pack_simps)
  have g: "fld 24 0xFF r = p_out_dim" "fld 32 0xFF r = porows"
    "fld 40 0xFF r = pocols" "fld 48 0xFF r = orows" "fld 56 0xFF r = ocols"
    using fi by (simp_all add: r_def pack_simps)
  have q: "q AND 0xFFFFFFFF = ucast stride" "fld 32 0xFFFFFFFF q = ucast (acc_scale_t_to_acc_scale_t_bits scale)"
    by (simp_all add: q_def pack_simps)
  show ?thesis
    unfolding gemmini_extended2_config_st_def r_def [symmetric] q_def [symmetric]
    using assms(2) by (simp add: config_code config_select f g q config_mvout_def narrow_32
      acc_scale_t_to_acc_scale_t_bits_def acc_scale_t_bits_to_acc_scale_t_def)
qed

lemma config_norm_arrives:
  fixes s :: "'m sim"
  assumes "fits 8 stat_id" "or_act_msb act_msb (acc_act s) = Inr a"
  shows "run_ops M (gemmini_config_norm q_const q_const_type False act_msb stat_id qb qc) s =
    Inr (let t = s\<lparr>norm_st := (norm_st s)\<lparr>norm_stat_id := ucast stat_id\<rparr>, igelu_qb := qb, igelu_qc := qc, acc_act := a\<rparr> in
      if q_const_type then t\<lparr>qln2_inv := q_const\<rparr> else t\<lparr>qln2 := q_const\<rparr>)"
proof -
  define r :: u64 where "r = push_bit 32 (ucast q_const) OR push_bit 18 (of_bool q_const_type) OR
    push_bit 17 (of_bool False) OR push_bit 16 (of_bool act_msb) OR push_bit 8 stat_id OR CONFIG_BERT"
  define q :: u64 where "q = push_bit 32 (ucast qc) OR ucast qb"
  have f: "r AND 3 = CONFIG_BERT" "fld 8 0xFF r = stat_id" "\<not> flag 17 r" "flag 16 r = act_msb" "flag 18 r = q_const_type"
    "fld 32 0xFFFFFFFF r = ucast q_const"
    using assms(1) by (simp_all add: r_def pack_simps split del: split_of_bool)
  have q: "q AND 0xFFFFFFFF = ucast qb" "fld 32 0xFFFFFFFF q = ucast qc"
    by (simp_all add: q_def pack_simps)
  show ?thesis
    unfolding gemmini_config_norm_def r_def [symmetric] q_def [symmetric]
    using assms(2) by (simp add: config_code config_select f q config_norm_def narrow_32 Let_def)
qed

section \<open>The loops\<close>

text \<open>The registers and the control bits that reach the matrix-multiplication loop.\<close>

definition loop_ws_regs_of :: "loop_ws_args \<Rightarrow> loop_ws_regs \<Rightarrow> loop_ws_regs" where
  "loop_ws_regs_of a r = r\<lparr>loop_ws_I := ucast (la_I a), loop_ws_J := ucast (la_J a), loop_ws_K := ucast (la_K a),
     loop_ws_pad_I := ucast (la_pad_I a), loop_ws_pad_J := ucast (la_pad_J a), loop_ws_pad_K := ucast (la_pad_K a),
     loop_ws_A := la_A a, loop_ws_B := la_B a, loop_ws_D := la_D a, loop_ws_C := la_C a,
     loop_ws_A_stride := la_A_stride a, loop_ws_B_stride := la_B_stride a,
     loop_ws_D_stride := la_D_stride a, loop_ws_C_stride := la_C_stride a\<rparr>"

definition loop_ws_ctl_of :: "loop_ws_args \<Rightarrow> loop_ws_ctl" where
  "loop_ws_ctl_of a = \<lparr>ws_ex_accumulate = la_ex_accumulate a, ws_full_C = la_full_C a, ws_low_D = la_low_D a,
     ws_act = ucast (la_act a), ws_a_transpose = la_A_transpose a, ws_b_transpose = la_B_transpose a,
     ws_a_spad_id = ucast (la_a_spad_id a), ws_b_spad_id = ucast (la_b_spad_id a), ws_is_resadd = la_is_resadd a\<rparr>"

definition loop_ws_args_fit :: "loop_ws_args \<Rightarrow> bool" where
  "loop_ws_args_fit a \<longleftrightarrow> fits 16 (la_I a) \<and> fits 16 (la_J a) \<and> fits 16 (la_K a) \<and>
     fits 16 (la_pad_I a) \<and> fits 16 (la_pad_J a) \<and> fits 16 (la_pad_K a) \<and>
     fits 3 (la_act a) \<and> fits 2 (la_a_spad_id a) \<and> fits 2 (la_b_spad_id a)"

lemma loop_ws_arrives:
  fixes s :: "'m sim"
  assumes "loop_ws_args_fit a"
  shows "run_ops M (gemmini_loop_ws a) s =
      loop_ws M (loop_ws_ctl_rs1 a) (loop_ws_ctl_rs2 a) (s\<lparr>loop_ws_st := loop_ws_regs_of a (loop_ws_st s)\<rparr>)"
    and "loop_ws_decode (loop_ws_ctl_rs1 a) (loop_ws_ctl_rs2 a) = loop_ws_ctl_of a"
proof -
  have fi: "fits 16 (la_I a)" "fits 16 (la_J a)" "fits 16 (la_K a)" "fits 16 (la_pad_I a)" "fits 16 (la_pad_J a)"
    "fits 16 (la_pad_K a)" "fits 3 (la_act a)" "fits 2 (la_a_spad_id a)" "fits 2 (la_b_spad_id a)"
    using assms by (simp_all add: loop_ws_args_fit_def)
  have b1: "loop_ws_bounds_rs1 a AND 0xFFFF = la_pad_I a" "fld 16 0xFFFF (loop_ws_bounds_rs1 a) = la_pad_J a"
    "fld 32 0xFFFF (loop_ws_bounds_rs1 a) = la_pad_K a"
    using fi by (simp_all add: loop_ws_bounds_rs1_def pack_simps)
  have b2: "loop_ws_bounds_rs2 a AND 0xFFFF = la_I a" "fld 16 0xFFFF (loop_ws_bounds_rs2 a) = la_J a"
    "fld 32 0xFFFF (loop_ws_bounds_rs2 a) = la_K a"
    using fi by (simp_all add: loop_ws_bounds_rs2_def pack_simps)
  show "run_ops M (gemmini_loop_ws a) s =
      loop_ws M (loop_ws_ctl_rs1 a) (loop_ws_ctl_rs2 a) (s\<lparr>loop_ws_st := loop_ws_regs_of a (loop_ws_st s)\<rparr>)"
    by (simp add: gemmini_loop_ws_def exec_funct_def k_defs funct_defs loop_ws_config_bounds_def b1 b2
      loop_ws_config_addrs_AB_def loop_ws_config_addrs_DC_def loop_ws_config_strides_AB_def
      loop_ws_config_strides_DC_def upd_loop_ws_def loop_ws_regs_of_def)
  have c1: "fld 8 7 (loop_ws_ctl_rs1 a) = la_act a" "fld 18 3 (loop_ws_ctl_rs1 a) = la_a_spad_id a"
    "fld 16 3 (loop_ws_ctl_rs1 a) = la_b_spad_id a"
    using fi by (simp_all add: loop_ws_ctl_rs1_def pack_simps del: push_bit_Suc split del: split_of_bool)
  have c2: "flag 0 (loop_ws_ctl_rs1 a) = la_ex_accumulate a" "flag 1 (loop_ws_ctl_rs1 a) = la_full_C a"
    "flag 2 (loop_ws_ctl_rs1 a) = la_low_D a"
    using fi flag_hit [of 0 "la_ex_accumulate a"] by (simp_all add: loop_ws_ctl_rs1_def pack_simps del: push_bit_Suc split del: split_of_bool)
  have c3: "flag 0 (loop_ws_ctl_rs2 a) = la_A_transpose a" "flag 1 (loop_ws_ctl_rs2 a) = la_B_transpose a"
    "flag 2 (loop_ws_ctl_rs2 a) = la_is_resadd a"
    using flag_hit [of 0 "la_A_transpose a"] by (simp_all add: loop_ws_ctl_rs2_def pack_simps del: push_bit_Suc split del: split_of_bool)
  show "loop_ws_decode (loop_ws_ctl_rs1 a) (loop_ws_ctl_rs2 a) = loop_ws_ctl_of a"
    by (simp only: loop_ws_decode_def c1 c2 c3 loop_ws_ctl_of_def)
qed

text \<open>The same for the convolution loop; the register \<open>lc_prad\<close> holds the right pooling padding.\<close>

definition loop_conv_regs_of :: "loop_conv_args \<Rightarrow> loop_conv_ws_regs \<Rightarrow> loop_conv_ws_regs" where
  "loop_conv_regs_of a r = r\<lparr>
     lc_batch_size := ucast (ca_batch_size a), lc_in_row_dim := ucast (ca_in_row_dim a),
     lc_in_channels := ucast (ca_in_channels a), lc_out_channels := ucast (ca_out_channels a),
     lc_out_row_dim := ucast (ca_out_row_dim a),
     lc_pool_out_row_dim := ucast (ca_pool_out_row_dim a),
     lc_out_col_dim := ucast (ca_out_col_dim a), lc_stride := ucast (ca_stride a),
     lc_padding := ucast (ca_padding a), lc_kernel_dim := ucast (ca_kernel_dim a),
     lc_pool_out_col_dim := ucast (ca_pool_out_col_dim a),
     lc_pool_size := ucast (ca_pool_size a), lc_pool_stride := ucast (ca_pool_stride a),
     lc_pool_padding := ucast (ca_pool_padding a), lc_batches := ucast (ca_batches a),
     lc_porows := ucast (ca_porows a), lc_pocols := ucast (ca_pocols a),
     lc_pochs := ucast (ca_pochs a), lc_krows := ucast (ca_krows a),
     lc_kcols := ucast (ca_kcols a), lc_kchs := ucast (ca_kchs a), lc_lpad := ucast (ca_lpad a),
     lc_rpad := ucast (ca_rpad a), lc_upad := ucast (ca_upad a), lc_dpad := ucast (ca_dpad a),
     lc_plpad := ucast (ca_plpad a), lc_in_col_dim := ucast (ca_in_col_dim a),
     lc_orows := ucast (ca_orows a), lc_prad := ucast (ca_prpad a),
     lc_pupad := ucast (ca_pupad a), lc_pdpad := ucast (ca_pdpad a),
     lc_kernel_dilation := ucast (ca_kernel_dilation a), lc_in_stride := ucast (ca_in_stride a),
     lc_weight_stride := ucast (ca_weight_stride a), lc_out_stride := ucast (ca_out_stride a),
     lc_ocols := ucast (ca_ocols a), lc_weights := ca_weights a, lc_output := ca_output a,
     lc_bias := ca_bias a, lc_input := ca_input a\<rparr>"

definition loop_conv_ctl_of :: "loop_conv_args \<Rightarrow> loop_conv_ctl" where
  "loop_conv_ctl_of a = \<lparr>cv_no_bias = ca_no_bias a, cv_wrot180 = ca_wrot180 a,
     cv_trans_output_1203 = ca_trans_output_1203 a, cv_trans_weight_1203 = ca_trans_weight_1203 a,
     cv_trans_weight_0132 = ca_trans_weight_0132 a, cv_trans_input_3120 = ca_trans_input_3120 a, cv_dw = ca_dw a,
     cv_max_pixels_per_row = (if ca_max_pixels_per_row a = 0 then 1 else uint (ca_max_pixels_per_row a)),
     cv_no_pool = ca_no_pool a, cv_downsample = of_bool (ca_downsample a), cv_input_dilated = of_bool (ca_input_dilated a),
     cv_activation = (ca_activation a \<noteq> 0), cv_a_spad_id = ucast (ca_a_spad_id a), cv_b_spad_id = ucast (ca_b_spad_id a)\<rparr>"

definition loop_conv_args_fit :: "loop_conv_args \<Rightarrow> bool" where
  "loop_conv_args_fit a \<longleftrightarrow>
     fits 16 (ca_batch_size a) \<and> fits 16 (ca_in_row_dim a) \<and>
     fits 16 (ca_in_col_dim a) \<and> fits 16 (ca_in_channels a) \<and>
     fits 16 (ca_out_channels a) \<and> fits 16 (ca_out_row_dim a) \<and>
     fits 16 (ca_out_col_dim a) \<and> fits 16 (ca_pool_out_row_dim a) \<and>
     fits 16 (ca_pool_out_col_dim a) \<and> fits 16 (ca_kernel_dim a) \<and>
     fits 16 (ca_pool_size a) \<and> fits 16 (ca_batches a) \<and> fits 16 (ca_porows a) \<and>
     fits 16 (ca_pocols a) \<and> fits 16 (ca_pochs a) \<and> fits 16 (ca_krows a) \<and>
     fits 16 (ca_kcols a) \<and> fits 16 (ca_kchs a) \<and> fits 16 (ca_lpad a) \<and>
     fits 16 (ca_rpad a) \<and> fits 16 (ca_upad a) \<and> fits 16 (ca_prpad a) \<and>
     fits 16 (ca_orows a) \<and> fits 16 (ca_ocols a) \<and> fits 16 (ca_in_stride a) \<and>
     fits 16 (ca_weight_stride a) \<and> fits 16 (ca_out_stride a) \<and> fits 8 (ca_stride a) \<and>
     fits 8 (ca_padding a) \<and> fits 8 (ca_pool_stride a) \<and> fits 8 (ca_pool_padding a) \<and>
     fits 8 (ca_dpad a) \<and> fits 8 (ca_plpad a) \<and> fits 8 (ca_pupad a) \<and>
     fits 8 (ca_pdpad a) \<and> fits 8 (ca_kernel_dilation a) \<and>
     fits 8 (ca_max_pixels_per_row a) \<and> fits 2 (ca_a_spad_id a) \<and>
     fits 2 (ca_b_spad_id a) \<and> 0 \<le> ca_activation a \<and> ca_activation a < 4"

lemma conv_1_rs1_fields:
  assumes "loop_conv_args_fit a"
  shows "conv_1_rs1 a AND 0xFFFF = ca_batch_size a" "fld 16 0xFFFF (conv_1_rs1 a) = ca_in_row_dim a" "fld 32 0xFFFF (conv_1_rs1 a) = ca_in_channels a" "fld 48 0xFFFF (conv_1_rs1 a) = ca_out_channels a"
proof -
  have "fits 16 (ca_batch_size a)" "fits 16 (ca_in_row_dim a)" "fits 16 (ca_in_channels a)" "fits 16 (ca_out_channels a)"
    using assms by (simp_all add: loop_conv_args_fit_def)
  then show "conv_1_rs1 a AND 0xFFFF = ca_batch_size a" "fld 16 0xFFFF (conv_1_rs1 a) = ca_in_row_dim a" "fld 32 0xFFFF (conv_1_rs1 a) = ca_in_channels a" "fld 48 0xFFFF (conv_1_rs1 a) = ca_out_channels a"
    by (simp_all add: conv_1_rs1_def pack_simps)
qed

lemma conv_1_rs2_fields:
  assumes "loop_conv_args_fit a"
  shows "conv_1_rs2 a AND 0xFFFF = ca_out_row_dim a" "fld 16 0xFFFF (conv_1_rs2 a) = ca_pool_out_row_dim a" "fld 32 0xFFFF (conv_1_rs2 a) = ca_out_col_dim a" "fld 48 0xFF (conv_1_rs2 a) = ca_stride a" "fld 56 0xFF (conv_1_rs2 a) = ca_padding a"
proof -
  have "fits 16 (ca_out_row_dim a)" "fits 16 (ca_pool_out_row_dim a)" "fits 16 (ca_out_col_dim a)" "fits 8 (ca_stride a)" "fits 8 (ca_padding a)"
    using assms by (simp_all add: loop_conv_args_fit_def)
  then show "conv_1_rs2 a AND 0xFFFF = ca_out_row_dim a" "fld 16 0xFFFF (conv_1_rs2 a) = ca_pool_out_row_dim a" "fld 32 0xFFFF (conv_1_rs2 a) = ca_out_col_dim a" "fld 48 0xFF (conv_1_rs2 a) = ca_stride a" "fld 56 0xFF (conv_1_rs2 a) = ca_padding a"
    by (simp_all add: conv_1_rs2_def pack_simps)
qed

lemma conv_2_rs1_fields:
  assumes "loop_conv_args_fit a"
  shows "fld 48 0xFFFF (conv_2_rs1 a) = ca_kernel_dim a" "fld 32 0xFFFF (conv_2_rs1 a) = ca_pool_out_col_dim a" "fld 16 0xFFFF (conv_2_rs1 a) = ca_pool_size a" "fld 8 0xFF (conv_2_rs1 a) = ca_pool_stride a" "conv_2_rs1 a AND 0xFF = ca_pool_padding a"
proof -
  have "fits 16 (ca_kernel_dim a)" "fits 16 (ca_pool_out_col_dim a)" "fits 16 (ca_pool_size a)" "fits 8 (ca_pool_stride a)" "fits 8 (ca_pool_padding a)"
    using assms by (simp_all add: loop_conv_args_fit_def)
  then show "fld 48 0xFFFF (conv_2_rs1 a) = ca_kernel_dim a" "fld 32 0xFFFF (conv_2_rs1 a) = ca_pool_out_col_dim a" "fld 16 0xFFFF (conv_2_rs1 a) = ca_pool_size a" "fld 8 0xFF (conv_2_rs1 a) = ca_pool_stride a" "conv_2_rs1 a AND 0xFF = ca_pool_padding a"
    by (simp_all add: conv_2_rs1_def pack_simps)
qed

lemma conv_2_rs2_fields:
  assumes "loop_conv_args_fit a"
  shows "fld 48 0xFFFF (conv_2_rs2 a) = ca_batches a" "fld 32 0xFFFF (conv_2_rs2 a) = ca_porows a" "fld 16 0xFFFF (conv_2_rs2 a) = ca_pocols a" "conv_2_rs2 a AND 0xFFFF = ca_pochs a"
proof -
  have "fits 16 (ca_batches a)" "fits 16 (ca_porows a)" "fits 16 (ca_pocols a)" "fits 16 (ca_pochs a)"
    using assms by (simp_all add: loop_conv_args_fit_def)
  then show "fld 48 0xFFFF (conv_2_rs2 a) = ca_batches a" "fld 32 0xFFFF (conv_2_rs2 a) = ca_porows a" "fld 16 0xFFFF (conv_2_rs2 a) = ca_pocols a" "conv_2_rs2 a AND 0xFFFF = ca_pochs a"
    by (simp_all add: conv_2_rs2_def pack_simps)
qed

lemma conv_3_rs1_fields:
  assumes "loop_conv_args_fit a"
  shows "fld 48 0xFFFF (conv_3_rs1 a) = ca_krows a" "fld 32 0xFFFF (conv_3_rs1 a) = ca_kcols a" "fld 16 0xFFFF (conv_3_rs1 a) = ca_kchs a" "conv_3_rs1 a AND 0xFFFF = ca_lpad a"
proof -
  have "fits 16 (ca_krows a)" "fits 16 (ca_kcols a)" "fits 16 (ca_kchs a)" "fits 16 (ca_lpad a)"
    using assms by (simp_all add: loop_conv_args_fit_def)
  then show "fld 48 0xFFFF (conv_3_rs1 a) = ca_krows a" "fld 32 0xFFFF (conv_3_rs1 a) = ca_kcols a" "fld 16 0xFFFF (conv_3_rs1 a) = ca_kchs a" "conv_3_rs1 a AND 0xFFFF = ca_lpad a"
    by (simp_all add: conv_3_rs1_def pack_simps)
qed

lemma conv_3_rs2_fields:
  assumes "loop_conv_args_fit a"
  shows "fld 48 0xFFFF (conv_3_rs2 a) = ca_rpad a" "fld 32 0xFFFF (conv_3_rs2 a) = ca_upad a" "fld 24 0xFF (conv_3_rs2 a) = ca_dpad a" "fld 16 0xFF (conv_3_rs2 a) = ca_plpad a" "conv_3_rs2 a AND 0xFFFF = ca_in_col_dim a"
proof -
  have "fits 16 (ca_rpad a)" "fits 16 (ca_upad a)" "fits 8 (ca_dpad a)" "fits 8 (ca_plpad a)" "fits 16 (ca_in_col_dim a)"
    using assms by (simp_all add: loop_conv_args_fit_def)
  then show "fld 48 0xFFFF (conv_3_rs2 a) = ca_rpad a" "fld 32 0xFFFF (conv_3_rs2 a) = ca_upad a" "fld 24 0xFF (conv_3_rs2 a) = ca_dpad a" "fld 16 0xFF (conv_3_rs2 a) = ca_plpad a" "conv_3_rs2 a AND 0xFFFF = ca_in_col_dim a"
    by (simp_all add: conv_3_rs2_def pack_simps)
qed

lemma conv_4_rs1_fields:
  assumes "loop_conv_args_fit a"
  shows "fld 48 0xFFFF (conv_4_rs1 a) = ca_orows a" "fld 32 0xFFFF (conv_4_rs1 a) = ca_prpad a" "fld 21 0xFF (conv_4_rs1 a) = ca_pupad a" "fld 10 0xFF (conv_4_rs1 a) = ca_pdpad a" "conv_4_rs1 a AND 0xFF = ca_kernel_dilation a"
proof -
  have "fits 16 (ca_orows a)" "fits 16 (ca_prpad a)" "fits 8 (ca_pupad a)" "fits 8 (ca_pdpad a)" "fits 8 (ca_kernel_dilation a)"
    using assms by (simp_all add: loop_conv_args_fit_def)
  then show "fld 48 0xFFFF (conv_4_rs1 a) = ca_orows a" "fld 32 0xFFFF (conv_4_rs1 a) = ca_prpad a" "fld 21 0xFF (conv_4_rs1 a) = ca_pupad a" "fld 10 0xFF (conv_4_rs1 a) = ca_pdpad a" "conv_4_rs1 a AND 0xFF = ca_kernel_dilation a"
    by (simp_all add: conv_4_rs1_def pack_simps)
qed

lemma conv_4_rs2_fields:
  assumes "loop_conv_args_fit a"
  shows "fld 48 0xFFFF (conv_4_rs2 a) = ca_in_stride a" "fld 32 0xFFFF (conv_4_rs2 a) = ca_weight_stride a" "fld 16 0xFFFF (conv_4_rs2 a) = ca_out_stride a" "conv_4_rs2 a AND 0xFFFF = ca_ocols a"
proof -
  have "fits 16 (ca_in_stride a)" "fits 16 (ca_weight_stride a)" "fits 16 (ca_out_stride a)" "fits 16 (ca_ocols a)"
    using assms by (simp_all add: loop_conv_args_fit_def)
  then show "fld 48 0xFFFF (conv_4_rs2 a) = ca_in_stride a" "fld 32 0xFFFF (conv_4_rs2 a) = ca_weight_stride a" "fld 16 0xFFFF (conv_4_rs2 a) = ca_out_stride a" "conv_4_rs2 a AND 0xFFFF = ca_ocols a"
    by (simp_all add: conv_4_rs2_def pack_simps)
qed

lemma conv_ctl_fields:
  assumes "loop_conv_args_fit a"
  shows "loop_conv_decode (conv_ctl_rs1 a) (conv_ctl_rs2 a) = loop_conv_ctl_of a"
proof -
  have fi: "fits 2 (ca_a_spad_id a)" "fits 2 (ca_b_spad_id a)" "fits 8 (ca_max_pixels_per_row a)"
    and ac: "0 \<le> ca_activation a" "ca_activation a < 4"
    using assms by (simp_all add: loop_conv_args_fit_def)
  have sh: "int_shl 3 (ca_activation a) = push_bit 3 (word_of_int (ca_activation a))" "fits 2 (word_of_int (ca_activation a))"
    using int_shl_push [of "ca_activation a" 2 3] ac by simp_all
  have a0: "(word_of_int (ca_activation a) :: u64) = 0 \<longleftrightarrow> ca_activation a = 0"
    using ac zdvd_imp_le [of "2 ^ 64" "ca_activation a"] by (auto simp: word_of_int_eq_0_iff)
  have c1: "fld 8 0xFF (conv_ctl_rs1 a) = ca_max_pixels_per_row a" "fld 18 3 (conv_ctl_rs1 a) = ca_a_spad_id a"
    "fld 16 3 (conv_ctl_rs1 a) = ca_b_spad_id a"
    using fi by (simp_all add: conv_ctl_rs1_def pack_simps del: push_bit_Suc split del: split_of_bool)
  have c2: "flag 0 (conv_ctl_rs1 a) = ca_no_bias a" "flag 1 (conv_ctl_rs1 a) = ca_wrot180 a"
    "flag 2 (conv_ctl_rs1 a) = ca_trans_output_1203 a" "flag 3 (conv_ctl_rs1 a) = ca_trans_weight_1203 a"
    using fi flag_hit [of 0 "ca_no_bias a"] by (simp_all add: conv_ctl_rs1_def pack_simps del: push_bit_Suc split del: split_of_bool)
  have c3: "flag 4 (conv_ctl_rs1 a) = ca_trans_weight_0132 a" "flag 5 (conv_ctl_rs1 a) = ca_trans_input_3120 a"
    "flag 6 (conv_ctl_rs1 a) = ca_dw a"
    using fi by (simp_all add: conv_ctl_rs1_def pack_simps del: push_bit_Suc split del: split_of_bool)
  have c4: "flag 0 (conv_ctl_rs2 a) = ca_no_pool a" "flag 1 (conv_ctl_rs2 a) = ca_downsample a"
    "flag 2 (conv_ctl_rs2 a) = ca_input_dilated a" "fld 3 3 (conv_ctl_rs2 a) = word_of_int (ca_activation a)"
    using sh flag_hit [of 0 "ca_no_pool a"] by (simp_all add: conv_ctl_rs2_def pack_simps del: push_bit_Suc split del: split_of_bool)
  show ?thesis
    unfolding loop_conv_decode_def c1 c2 c3 c4 loop_conv_ctl_of_def a0 Let_def by (simp add: uint_0_iff)
qed

lemma loop_conv_arrives:
  fixes s :: "'m sim"
  assumes "loop_conv_args_fit a"
  shows "run_ops M (gemmini_loop_conv_ws a) s =
    loop_conv_ws M (conv_ctl_rs1 a) (conv_ctl_rs2 a) (s\<lparr>loop_conv_st := loop_conv_regs_of a (loop_conv_st s)\<rparr>)"
  by (simp add: gemmini_loop_conv_ws_def exec_funct_def k_defs funct_defs upd_loop_conv_def loop_conv_regs_of_def
    loop_conv_ws_config_1_def loop_conv_ws_config_2_def loop_conv_ws_config_3_def loop_conv_ws_config_4_def
    loop_conv_ws_config_5_def loop_conv_ws_config_6_def conv_1_rs1_fields [OF assms] conv_1_rs2_fields [OF assms]
    conv_2_rs1_fields [OF assms] conv_2_rs2_fields [OF assms] conv_3_rs1_fields [OF assms] conv_3_rs2_fields [OF assms]
    conv_4_rs1_fields [OF assms] conv_4_rs2_fields [OF assms])

section \<open>Instructions the simulator does not have\<close>

lemma spad_instructions_illegal:
  "run_ops M (gemmini_mvout_spad dst src) s = Inl IllegalInstruction"
  "run_ops M (gemmini_loop_ws_spad a skips) s = Inl IllegalInstruction"
  by (simp_all add: gemmini_mvout_spad_def gemmini_extended_mvout_spad_def gemmini_loop_ws_spad_def
    exec_funct_def k_defs funct_defs)

end
