(* ===== verification/Driver_Double.thy ===== *)
theory Driver_Double
  imports Gemmini_Params
begin

text \<open>
  The C type \<open>double\<close> as far as the driver uses it: decimal constants, products and quotients of
  doubles and promoted floats, and the conversions to \<open>float\<close> and to \<open>int32_t\<close>. A double is given
  by its value; every operation rounds to the 53 bits of IEEE binary64, to nearest-even.
\<close>

type_synonym f64 = fval

definition f64_ulp :: "int \<Rightarrow> int \<Rightarrow> int" where
  "f64_ulp p q = max (ilog2 p q - 52) (-1074)"

definition f64_round :: "bool \<Rightarrow> int \<Rightarrow> int \<Rightarrow> f64" where
  "f64_round s p q = (if p = 0 then FFin s 0 (-1074)
     else let u = f64_ulp p q; k = rne_div (p * 2 ^ nat (- u)) (q * 2 ^ nat u) in
       if 971 < u \<or> (u = 971 \<and> k = 2 ^ 53) then FInf s else FFin s k u)"

text \<open>The decimal constant \<open>n / 10 ^ k\<close>.\<close>

definition f64_dec :: "int \<Rightarrow> nat \<Rightarrow> f64" where
  "f64_dec n k = f64_round (n < 0) \<bar>n\<bar> (10 ^ k)"

definition f64_of_f32 :: "f32 \<Rightarrow> f64" where
  "f64_of_f32 = f32_decode"

fun f32_of_f64 :: "f64 \<Rightarrow> f32" where
  "f32_of_f64 (FFin s m e) = f32_round_scaled s m e"
| "f32_of_f64 (FInf s) = f32_inf s"
| "f32_of_f64 FNaN = f32_nan"

fun f64_mul :: "f64 \<Rightarrow> f64 \<Rightarrow> f64" where
  "f64_mul (FFin s m e) (FFin t n f) = f64_round (s \<noteq> t) (m * n * 2 ^ nat (e + f)) (2 ^ nat (- (e + f)))"
| "f64_mul (FInf s) (FInf t) = FInf (s \<noteq> t)"
| "f64_mul (FInf s) (FFin t n f) = (if n = 0 then FNaN else FInf (s \<noteq> t))"
| "f64_mul (FFin s m e) (FInf t) = (if m = 0 then FNaN else FInf (s \<noteq> t))"
| "f64_mul _ _ = FNaN"

fun f64_div :: "f64 \<Rightarrow> f64 \<Rightarrow> f64" where
  "f64_div (FFin s m e) (FFin t n f) =
     (if n = 0 then (if m = 0 then FNaN else FInf (s \<noteq> t))
      else f64_round (s \<noteq> t) (m * 2 ^ nat (e - f)) (n * 2 ^ nat (f - e)))"
| "f64_div (FInf s) (FFin t n f) = FInf (s \<noteq> t)"
| "f64_div (FFin s m e) (FInf t) = FFin (s \<noteq> t) 0 (-1074)"
| "f64_div _ _ = FNaN"

text \<open>Conversion to \<open>acc_t\<close>: truncation, undefined when the result does not fit.\<close>

definition acc_of_fval :: "fval \<Rightarrow> acc_t res" where
  "acc_of_fval x = bindE (fval_trunc x) (\<lambda>n.
     if - (2 ^ 31) \<le> n \<and> n < 2 ^ 31 then Inr (word_of_int n) else Inl Undefined)"

definition acc_of_f32 :: "f32 \<Rightarrow> acc_t res" where
  "acc_of_f32 x = acc_of_fval (f32_decode x)"

end
