(* ===== verification/Driver_Matmul.thy ===== *)
theory Driver_Matmul
  imports Driver_Issue Driver_Double
begin

text \<open>
  The tiled matrix multiplication of the driver: the two inner functions, which handle a tile
  that fits the scratchpad (\<open>sp_tiled_matmul_os\<close> issues every move and compute itself,
  \<open>sp_tiled_matmul_ws\<close> starts the hardware loop), and \<open>tiled_matmul_outer\<close>, which cuts the
  matrices into tiles. \<open>size_t\<close> values and addresses are 64-bit words. The functions yield the
  operations they issue, in order; the loop counters run over the tile sizes, which the checks
  of \<open>tiled_matmul\<close> keep below 65536, and cannot wrap around.
\<close>

section \<open>One tile\<close>

record tile_args =
  ta_A :: u64
  ta_B :: u64
  ta_D :: u64
  ta_C :: u64
  ta_A_scale :: f32
  ta_B_scale :: f32
  ta_D_scale :: acc_t
  ta_I :: u64
  ta_J :: u64
  ta_K :: u64
  ta_pad_I :: u64
  ta_pad_J :: u64
  ta_pad_K :: u64
  ta_A_row_stride :: u64
  ta_B_row_stride :: u64
  ta_D_row_stride :: u64
  ta_C_row_stride :: u64
  ta_a_transpose :: bool
  ta_b_transpose :: bool
  ta_full_C :: bool
  ta_low_D :: bool
  ta_no_bias :: bool
  ta_repeating_bias :: bool
  ta_act :: int
  ta_a_spad_id :: u64
  ta_b_spad_id :: u64

text \<open>\<open>DIM - (i == n-1 ? pad : 0)\<close>, and the width of a move of several blocks from column \<open>j\<close> on.\<close>

definition drv_len :: "nat \<Rightarrow> nat \<Rightarrow> u64 \<Rightarrow> u64" where
  "drv_len i n pad = of_nat DIM - (if Suc i = n then pad else 0)"

definition blocks_at :: "nat \<Rightarrow> nat \<Rightarrow> nat \<Rightarrow> nat" where
  "blocks_at j step n = (if j + step \<le> n then step else n - j)"

definition blocks_len :: "nat \<Rightarrow> nat \<Rightarrow> nat \<Rightarrow> u64 \<Rightarrow> u64" where
  "blocks_len j step n pad =
     of_nat (blocks_at j step n * DIM) - (if n \<le> j + blocks_at j step n then pad else 0)"

text \<open>The values of the counter of \<open>for (j = 0; j < n; j += step)\<close>.\<close>

definition steps :: "nat \<Rightarrow> nat \<Rightarrow> nat list" where
  "steps n step = map (\<lambda>i. i * step) [0..<(n + step - 1) div step]"

text \<open>A scale of the bias is an \<open>int32_t\<close>, converted to \<open>float\<close> by the call.\<close>

definition bias_scale :: "acc_t \<Rightarrow> f32" where
  "bias_scale x = f32_of_int (sint x)"

definition os_A_sp_addr :: "tile_args \<Rightarrow> nat \<Rightarrow> nat \<Rightarrow> u32" where
  "os_A_sp_addr a i k = of_nat ((i * unat (ta_K a) + k) * DIM)"

definition os_B_sp_addr :: "tile_args \<Rightarrow> nat \<Rightarrow> nat \<Rightarrow> u32" where
  "os_B_sp_addr a k j = of_nat (BANK_NUM * BANK_ROWS) - of_nat (unat (ta_K a) * unat (ta_J a) * DIM) +
     of_nat ((k * unat (ta_J a) + j) * DIM)"

definition os_D_sp_addr :: "tile_args \<Rightarrow> nat \<Rightarrow> nat \<Rightarrow> u32" where
  "os_D_sp_addr a i j = push_bit (ADDR_LEN - 1) 1 + of_nat ((i * unat (ta_J a) + j) * DIM)"

definition os_C_sp_addr :: "tile_args \<Rightarrow> nat \<Rightarrow> nat \<Rightarrow> u32" where
  "os_C_sp_addr a i j = (push_bit (ADDR_LEN - 2) 3 OR push_bit (ADDR_LEN - 3) (of_bool (ta_full_C a))) +
     of_nat ((i * unat (ta_J a) + j) * DIM)"

definition os_mvin_D :: "tile_args \<Rightarrow> drv_op list" where
  "os_mvin_D a =
     (let I = unat (ta_I a); J = unat (ta_J a); D_blocks = (if J \<le> MAX_BLOCK_LEN_ACC then J else MAX_BLOCK_LEN_ACC) in
      if ta_D a \<noteq> 0 \<and> \<not> ta_no_bias a then
        gemmini_extended_config_ld (if ta_repeating_bias a then 0 else ta_D_row_stride a * 4) (bias_scale (ta_D_scale a)) @
        concat (map (\<lambda>i. concat (map (\<lambda>j.
          let bias_row = (if ta_repeating_bias a then 0 else of_nat i);
              D_dram_addr = ta_D a + (bias_row * ta_D_row_stride a + of_nat j) * of_nat DIM * 4 in
          gemmini_extended_mvin D_dram_addr (os_D_sp_addr a i j)
            (blocks_len j D_blocks J (ta_pad_J a)) (drv_len i I (ta_pad_I a))) (steps J D_blocks))) [0..<I])
      else [])"

definition os_mvin_B :: "tile_args \<Rightarrow> drv_op list" where
  "os_mvin_B a =
     (let J = unat (ta_J a); K = unat (ta_K a); B_blocks = (if J \<le> MAX_BLOCK_LEN then J else MAX_BLOCK_LEN) in
      gemmini_extended_config_ld (ta_B_row_stride a * 1) (ta_B_scale a) @
      concat (map (\<lambda>j. concat (map (\<lambda>k.
        gemmini_extended_mvin (ta_B a + (of_nat k * ta_B_row_stride a + of_nat j) * of_nat DIM) (os_B_sp_addr a k j)
          (blocks_len j B_blocks J (ta_pad_J a)) (drv_len k K (ta_pad_K a))) [0..<K])) (steps J B_blocks)))"

definition os_mvin_A :: "tile_args \<Rightarrow> drv_op list" where
  "os_mvin_A a =
     (let I = unat (ta_I a); K = unat (ta_K a); A_blocks = (if K \<le> MAX_BLOCK_LEN then K else MAX_BLOCK_LEN) in
      gemmini_extended_config_ld (ta_A_row_stride a * 1) (ta_A_scale a) @
      concat (map (\<lambda>i. concat (map (\<lambda>k.
        gemmini_extended_mvin (ta_A a + (of_nat i * ta_A_row_stride a + of_nat k) * of_nat DIM) (os_A_sp_addr a i k)
          (blocks_len k A_blocks K (ta_pad_K a)) (drv_len i I (ta_pad_I a))) (steps K A_blocks))) [0..<I]))"

definition os_compute :: "tile_args \<Rightarrow> nat \<Rightarrow> nat \<Rightarrow> nat \<Rightarrow> drv_op list" where
  "os_compute a i j k =
     (let I = unat (ta_I a); J = unat (ta_J a); K = unat (ta_K a);
          out_sp_addr = (if Suc k = K then os_C_sp_addr a i j else GARBAGE_ADDR);
          no_bias_new_matrix = (ta_no_bias a \<and> ta_D a \<noteq> 0 \<and> Suc k = K);
          out_sp_addr = (if no_bias_new_matrix then out_sp_addr AND NOT (push_bit (ADDR_LEN - 2) 1) else out_sp_addr);
          A_cols = drv_len k K (ta_pad_K a); A_rows = drv_len i I (ta_pad_I a);
          B_cols = drv_len j J (ta_pad_J a); B_rows = drv_len k K (ta_pad_K a);
          C_cols = drv_len j J (ta_pad_J a); C_rows = drv_len i I (ta_pad_I a) in
      gemmini_extended_preload GARBAGE_ADDR out_sp_addr (of_nat DIM) (of_nat DIM) C_cols C_rows @
      (if k = 0 then gemmini_extended_compute_preloaded (os_A_sp_addr a i k) (os_B_sp_addr a k j) A_cols A_rows B_cols B_rows
       else gemmini_extended_compute_accumulated (os_A_sp_addr a i k) (os_B_sp_addr a k j) A_cols A_rows B_cols B_rows))"

definition os_mvout :: "tile_args \<Rightarrow> drv_op list" where
  "os_mvout a =
     (let I = unat (ta_I a); J = unat (ta_J a); sizeof_C = (if ta_full_C a then 4 else 1) in
      if ta_C a \<noteq> 0 then
        concat (map (\<lambda>i. concat (map (\<lambda>j.
          gemmini_extended_mvout (ta_C a + (of_nat i * ta_C_row_stride a + of_nat j) * of_nat DIM * sizeof_C)
            (os_C_sp_addr a i j) (drv_len j J (ta_pad_J a)) (drv_len i I (ta_pad_I a))) [0..<J])) [0..<I])
      else [])"

definition sp_tiled_matmul_os :: "tile_args \<Rightarrow> drv_op list" where
  "sp_tiled_matmul_os a =
     os_mvin_D a @ os_mvin_B a @ os_mvin_A a @
     concat (map (\<lambda>i. concat (map (\<lambda>j. concat (map (os_compute a i j)
       [0..<unat (ta_K a)])) [0..<unat (ta_J a)])) [0..<unat (ta_I a)]) @
     os_mvout a"

definition ws_loop_args :: "tile_args \<Rightarrow> loop_ws_args" where
  "ws_loop_args a = \<lparr>
     la_I = ta_I a, la_J = ta_J a, la_K = ta_K a,
     la_pad_I = ta_pad_I a, la_pad_J = ta_pad_J a, la_pad_K = ta_pad_K a,
     la_A = ta_A a, la_B = ta_B a, la_D = (if ta_no_bias a then 0 else ta_D a), la_C = ta_C a,
     la_A_stride = ta_A_row_stride a, la_B_stride = ta_B_row_stride a,
     la_D_stride = (if ta_repeating_bias a then 0 else ta_D_row_stride a), la_C_stride = ta_C_row_stride a,
     la_A_transpose = ta_a_transpose a, la_B_transpose = ta_b_transpose a,
     la_full_C = ta_full_C a, la_low_D = ta_low_D a,
     la_ex_accumulate = (\<not> ta_no_bias a \<or> ta_D a = 0),
     la_act = word_of_int (ta_act a), la_a_spad_id = ta_a_spad_id a, la_b_spad_id = ta_b_spad_id a,
     la_is_resadd = False\<rparr>"

definition sp_tiled_matmul_ws :: "tile_args \<Rightarrow> drv_op list" where
  "sp_tiled_matmul_ws a = gemmini_loop_ws (ws_loop_args a)"

section \<open>All tiles\<close>

record matmul_args =
  mm_dim_I :: u64
  mm_dim_J :: u64
  mm_dim_K :: u64
  mm_A :: u64
  mm_B :: u64
  mm_D :: u64
  mm_C :: u64
  mm_stride_A :: u64
  mm_stride_B :: u64
  mm_stride_D :: u64
  mm_stride_C :: u64
  mm_A_scale :: f32
  mm_B_scale :: f32
  mm_D_scale :: acc_t
  mm_act :: int
  mm_scale :: f32
  mm_bert_scale :: f32
  mm_repeating_bias :: bool
  mm_a_transpose :: bool
  mm_b_transpose :: bool
  mm_full_C :: bool
  mm_low_D :: bool

record tiling =
  tile_I :: u64
  tile_J :: u64
  tile_K :: u64

definition pad_dim :: "u64 \<Rightarrow> u64" where
  "pad_dim d = (d div of_nat DIM + of_bool (d mod of_nat DIM \<noteq> 0)) * of_nat DIM"

definition tile_count :: "u64 \<Rightarrow> u64 \<Rightarrow> u64" where
  "tile_count d t = pad_dim d div (t * of_nat DIM) + of_bool (pad_dim d mod (t * of_nat DIM) \<noteq> 0)"

definition last_tile :: "u64 \<Rightarrow> u64 \<Rightarrow> u64" where
  "last_tile d t = (if pad_dim d mod (t * of_nat DIM) = 0 then t else (pad_dim d div of_nat DIM) mod t)"

definition dim_padding :: "u64 \<Rightarrow> u64" where
  "dim_padding d = pad_dim d - d"

text \<open>
  The constants of the integer approximations of GELU and softmax. \<open>sqrt_2\<close>, \<open>S_erf\<close>, \<open>a\<close>, \<open>b\<close> and
  \<open>c\<close> are floats; expressions with a decimal constant are evaluated in double.
\<close>

definition sqrt_2 :: f32 where "sqrt_2 = f32_of_f64 (f64_dec 141421356237 11)"

definition outer_igelu :: "f32 \<Rightarrow> drv_op list res" where
  "outer_igelu S =
     (let S_erf = f32_of_f64 (f64_mul (f64_dec (- 2888) 4) (f64_of_f32 (f32_div (f32_mul S S) (f32_of_int 2)))) in
      bindE (acc_of_fval (f64_div (f64_dec (- 1769) 3) (f64_of_f32 (f32_div S sqrt_2)))) (\<lambda>qb.
      bindE (acc_of_fval (f64_div (f64_dec 1 0) (f64_of_f32 S_erf))) (\<lambda>qc.
      Inr (gemmini_config_norm 0 False False False 0 qb qc))))"

definition outer_softmax :: "f32 \<Rightarrow> drv_op list res" where
  "outer_softmax bert_scale =
     (let a = f32_of_f64 (f64_dec 3585 4); b = f32_of_f64 (f64_dec 1353 3); c = f32_of_f64 (f64_dec 344 3) in
      bindE (acc_of_fval (f64_div (f64_dec 693147 6) (f64_of_f32 bert_scale))) (\<lambda>qln2.
      bindE (acc_div 65536 qln2) (\<lambda>qln2_inv.
      bindE (acc_of_f32 (f32_div b bert_scale)) (\<lambda>qb.
      bindE (acc_of_f32 (f32_div c (f32_mul (f32_mul a bert_scale) bert_scale))) (\<lambda>qc.
      Inr (gemmini_config_norm qln2 False False True 0 qb qc @
           gemmini_config_norm qln2_inv True False True 0 qb qc))))))"

text \<open>The addresses, sizes and operands of tile \<open>(i0, j0, k0)\<close>.\<close>

definition outer_tile :: "matmul_args \<Rightarrow> tiling \<Rightarrow> int \<Rightarrow> nat \<Rightarrow> nat \<Rightarrow> nat \<Rightarrow> tile_args" where
  "outer_tile m t dataflow i0 j0 k0 =
     (let I0 = tile_count (mm_dim_I m) (tile_I t); J0 = tile_count (mm_dim_J m) (tile_J t);
          K0 = tile_count (mm_dim_K m) (tile_K t);
          no_bias = (mm_D m = 0);
          D = (if no_bias then 1 else mm_D m);
          sizeof_D = (if mm_low_D m then 1 else 4); sizeof_C = (if mm_full_C m then 4 else 1);
          b_reuse = (J0 * K0 \<le> 2 \<and> dataflow = WEIGHT_STATIONARY);
          a_reuse = (I0 * K0 \<le> 2 \<and> dataflow = WEIGHT_STATIONARY);
          i = of_nat i0; j = of_nat j0; k = of_nat k0; dim = of_nat DIM;
          bias_row = (if mm_repeating_bias m then 0 else i * tile_I t * dim);
          pre = (if k0 \<noteq> 0 then 0 else D + (bias_row * mm_stride_D m + j * tile_J t * dim) * sizeof_D);
          out = (if k = K0 - 1 then mm_C m + (i * tile_I t * dim * mm_stride_C m + j * tile_J t * dim) * sizeof_C else 0);
          a = (if mm_a_transpose m then mm_A m + k * tile_K t * dim * mm_stride_A m + i * tile_I t * dim
               else mm_A m + i * tile_I t * dim * mm_stride_A m + k * tile_K t * dim);
          b = (if mm_b_transpose m then mm_B m + j * tile_J t * dim * mm_stride_B m + k * tile_K t * dim
               else mm_B m + k * tile_K t * dim * mm_stride_B m + j * tile_J t * dim) in
      \<lparr>ta_A = (if a_reuse \<and> 1 \<le> j0 then 0 else a), ta_B = (if b_reuse \<and> 1 \<le> i0 then 0 else b),
       ta_D = pre, ta_C = out,
       ta_A_scale = mm_A_scale m, ta_B_scale = mm_B_scale m, ta_D_scale = mm_D_scale m,
       ta_I = (if i < I0 - 1 then tile_I t else last_tile (mm_dim_I m) (tile_I t)),
       ta_J = (if j < J0 - 1 then tile_J t else last_tile (mm_dim_J m) (tile_J t)),
       ta_K = (if k < K0 - 1 then tile_K t else last_tile (mm_dim_K m) (tile_K t)),
       ta_pad_I = (if i = I0 - 1 then dim_padding (mm_dim_I m) else 0),
       ta_pad_J = (if j = J0 - 1 then dim_padding (mm_dim_J m) else 0),
       ta_pad_K = (if k = K0 - 1 then dim_padding (mm_dim_K m) else 0),
       ta_A_row_stride = mm_stride_A m, ta_B_row_stride = mm_stride_B m,
       ta_D_row_stride = mm_stride_D m, ta_C_row_stride = mm_stride_C m,
       ta_a_transpose = mm_a_transpose m, ta_b_transpose = mm_b_transpose m,
       ta_full_C = mm_full_C m, ta_low_D = mm_low_D m,
       ta_no_bias = no_bias, ta_repeating_bias = mm_repeating_bias m, ta_act = mm_act m,
       ta_a_spad_id = (if a_reuse then (if i0 + k0 = 0 then 1 else 2) else 0),
       ta_b_spad_id = (if b_reuse then (if j0 + k0 = 0 then 1 else 2) else 0)\<rparr>)"

definition outer_config :: "matmul_args \<Rightarrow> int \<Rightarrow> drv_op list" where
  "outer_config m dataflow =
     (let sizeof_D = (if mm_low_D m then 1 else 4); sizeof_C = (if mm_full_C m then 4 else 1);
          act = word_of_int (mm_act m) AND (3 :: u32) in
      gemmini_extended_config_ex dataflow (uint act) 0 1 (mm_a_transpose m) (mm_b_transpose m) @
      gemmini_extended_config_st (ucast (ucast (mm_stride_C m) :: u32) * sizeof_C) (ucast act) (mm_scale m) @
      gemmini_extended3_config_ld (mm_stride_A m * 1) (mm_A_scale m) False 0 @
      gemmini_extended3_config_ld (mm_stride_B m * 1) (mm_B_scale m) False 1 @
      gemmini_extended3_config_ld (if mm_repeating_bias m then 0 else mm_stride_D m * sizeof_D)
        (bias_scale (mm_D_scale m)) (mm_low_D m) 2)"

definition tiled_matmul_outer :: "matmul_args \<Rightarrow> tiling \<Rightarrow> int \<Rightarrow> drv_op list res" where
  "tiled_matmul_outer m t dataflow =
     (if tile_I t * of_nat DIM = 0 \<or> tile_J t * of_nat DIM = 0 \<or> tile_K t * of_nat DIM = 0 then Inl Undefined
      else
        bindE (if mm_act m = ACT_IGELU then outer_igelu (mm_bert_scale m) else Inr []) (\<lambda>igelu.
        bindE (if mm_act m = ACT_SOFTMAX then outer_softmax (mm_bert_scale m) else Inr []) (\<lambda>softmax.
        let inner = (if dataflow = OUTPUT_STATIONARY then sp_tiled_matmul_os else sp_tiled_matmul_ws);
            I0 = unat (tile_count (mm_dim_I m) (tile_I t)); J0 = unat (tile_count (mm_dim_J m) (tile_J t));
            K0 = unat (tile_count (mm_dim_K m) (tile_K t)) in
        Inr (outer_config m dataflow @ igelu @ softmax @
          concat (map (\<lambda>i0. concat (map (\<lambda>j0. concat (map (\<lambda>k0.
            inner (outer_tile m t dataflow i0 j0 k0)) [0..<K0])) [0..<J0])) [0..<I0]) @
          gemmini_fence))))"

end
