(* ===== verification/Driver_Cpu.thy ===== *)
theory Driver_Cpu
  imports Driver_Matmul
begin

text \<open>
  The reference computations of the driver on the processor: \<open>int_sqrt\<close>, \<open>scale_and_sat\<close> and
  \<open>matmul_cpu\<close> with its unrolled and its general path. The processor reads and writes the same
  memory as the accelerator, element by element. \<open>HAS_NORMALIZATIONS\<close> is not defined by the
  parameter header: for LAYERNORM and SOFTMAX the sums only reach a buffer that nothing reads.
\<close>

section \<open>Integer square root\<close>

text \<open>The loop \<open>for (x = n; x > 0; x /= 2) bits++\<close> counts the binary digits, which is \<open>ibits\<close>.\<close>

partial_function (option) int_sqrt_loop :: "int \<Rightarrow> int \<Rightarrow> int res option" where
  "int_sqrt_loop n x_prev =
     (if x_prev = 0 then Some (Inl Undefined)
      else
        let x_next = trunc_div (x_prev + trunc_div n x_prev) 2 in
        if x_prev \<le> x_next then Some (Inr x_prev)
        else int_sqrt_loop n x_next)"

declare int_sqrt_loop.simps [code]

definition int_sqrt :: "int \<Rightarrow> int res option" where
  "int_sqrt n =
     (if n = 0 then Some (Inr 0)
      else int_sqrt_loop n (2 ^ ((ibits n + 1) div 2)))"

section \<open>Scaling and saturation\<close>

definition cpu_igelu :: "acc_t \<Rightarrow> f32 \<Rightarrow> acc_t res" where
  "cpu_igelu x S =
     (let r = f32_div S sqrt_2;
          d = f64_mul (f64_mul (f64_dec (- 2888) 4) (f64_of_f32 r)) (f64_of_f32 r);
          S_erf = f32_of_f64 d in
      bindE (acc_of_f32 (f32_div (f32_of_int 1) S_erf)) (\<lambda>q1.
      bindE (acc_of_fval (f64_div (f64_dec (- 1769) 3) (f64_of_f32 r))) (\<lambda>qb.
      bindE (acc_of_fval (f64_div (f64_dec 1 0) d)) (\<lambda>qc.
      let q = x;
          q_sign = (if sint q < 0 then - 1 else 1);
          q_clipped = (if sint (- qb) < sint (abs32 q) then - qb else abs32 q);
          q_poly = (q_clipped + qb) * (q_clipped + qb) + qc;
          q_erf = q_sign * q_poly in
      Inr (q * (q_erf + q1))))))"

definition scale_and_sat :: "acc_t \<Rightarrow> int \<Rightarrow> f32 \<Rightarrow> f32 \<Rightarrow> elem_t res" where
  "scale_and_sat x act scale bert_scale =
     bindE (if act = ACT_IGELU then cpu_igelu x bert_scale else Inr x) (\<lambda>x.
     bindE (ACC_SCALE (sint x) scale) (\<lambda>x.
     let x = (if elem_t_max < x then elem_t_max else if x < elem_t_min then elem_t_min else x);
         x = (if act = ACT_RELU then (if x < 0 then 0 else x) else x) in
     Inr (word_of_int x)))"

section \<open>matmul_cpu\<close>

text \<open>\<open>GEMMINI_SCALE\<close> of an element; the bias is not scaled (\<open>HAS_MVIN_ACC_SCALE\<close> is not defined).\<close>

definition cpu_elem :: "'m mmu \<Rightarrow> 'm \<Rightarrow> u64 \<Rightarrow> f32 \<Rightarrow> int res" where
  "cpu_elem M m addr scale = bindE (read_from_dram M m addr) (\<lambda>v :: elem_t. MVIN_SCALE (sint v) scale)"

definition cpu_mac :: "'m mmu \<Rightarrow> 'm \<Rightarrow> u64 \<Rightarrow> f32 \<Rightarrow> u64 \<Rightarrow> f32 \<Rightarrow> acc_t \<Rightarrow> acc_t res" where
  "cpu_mac M m a a_scale b b_scale acc =
     bindE (cpu_elem M m a a_scale) (\<lambda>x.
     bindE (cpu_elem M m b b_scale) (\<lambda>y.
     Inr (acc + word_of_int (x * y))))"

definition cpu_bias :: "'m mmu \<Rightarrow> matmul_args \<Rightarrow> 'm \<Rightarrow> nat \<Rightarrow> nat \<Rightarrow> acc_t res" where
  "cpu_bias M a m i j =
     (if mm_D a = 0 then Inr 0
      else let bias_row = (if mm_repeating_bias a then 0 else of_nat i) in
        read_from_dram M m (mm_D a + (bias_row * mm_stride_D a + of_nat j) * 4))"

text \<open>
  The unrolled path. \<open>result\<close> lists the sixteen accumulators of a block row by row, which is the
  order of the statements of the source.
\<close>

definition block_cells :: "(nat \<times> nat) list" where
  "block_cells = pairs [0..<4] (\<lambda>_. [0..<4])"

definition cpu_block_init :: "'m mmu \<Rightarrow> matmul_args \<Rightarrow> nat \<Rightarrow> nat \<Rightarrow> 'm \<Rightarrow> acc_t list res" where
  "cpu_block_init M a i j m = mapE (\<lambda>(ii, jj). cpu_bias M a m (i + ii) (j + jj)) block_cells"

definition cpu_block_mac :: "'m mmu \<Rightarrow> matmul_args \<Rightarrow> nat \<Rightarrow> nat \<Rightarrow> 'm \<Rightarrow> nat \<Rightarrow> acc_t list \<Rightarrow> acc_t list res" where
  "cpu_block_mac M a i j m k result =
     mapE (\<lambda>((ii, jj), r).
       cpu_mac M m (mm_A a + of_nat (i + ii) * mm_stride_A a + of_nat k) (mm_A_scale a)
         (mm_B a + of_nat k * mm_stride_B a + of_nat (j + jj)) (mm_B_scale a) r)
       (zip block_cells result)"

definition cpu_block_store :: "'m mmu \<Rightarrow> matmul_args \<Rightarrow> nat \<Rightarrow> nat \<Rightarrow> acc_t list \<Rightarrow> 'm \<Rightarrow> 'm res" where
  "cpu_block_store M a i j result m =
     foldE (\<lambda>((ii, jj), r) m.
       bindE (scale_and_sat r (mm_act a) (mm_scale a) (mm_bert_scale a)) (\<lambda>e.
       write_to_dram M (mm_C a + of_nat (i + ii) * mm_stride_C a + of_nat (j + jj)) e m))
       (zip block_cells result) m"

definition matmul_cpu_unrolled :: "'m mmu \<Rightarrow> matmul_args \<Rightarrow> 'm \<Rightarrow> 'm res" where
  "matmul_cpu_unrolled M a m =
     forE (unat (mm_dim_I a) div 4) (\<lambda>bi m.
       forE (unat (mm_dim_J a) div 4) (\<lambda>bj m.
         bindE (cpu_block_init M a (4 * bi) (4 * bj) m) (\<lambda>result.
         bindE (forE (unat (mm_dim_K a)) (cpu_block_mac M a (4 * bi) (4 * bj) m) result) (\<lambda>result.
         cpu_block_store M a (4 * bi) (4 * bj) result m))) m) m"

definition matmul_cpu_general :: "'m mmu \<Rightarrow> matmul_args \<Rightarrow> 'm \<Rightarrow> 'm res" where
  "matmul_cpu_general M a m =
     (let A_dim_strides = (if mm_a_transpose a then (1, mm_stride_A a) else (mm_stride_A a, 1));
          B_dim_strides = (if mm_b_transpose a then (mm_stride_B a, 1) else (1, mm_stride_B a));
          c_buffer_sz = 1024 :: u64;
          norm = (mm_act a = ACT_LAYERNORM \<or> mm_act a = ACT_SOFTMAX) in
      if norm \<and> c_buffer_sz < mm_dim_J a then Inl ExitFailure
      else forE (unat (mm_dim_I a)) (\<lambda>i m.
        forE (unat (mm_dim_J a)) (\<lambda>j m.
          bindE (cpu_bias M a m i j) (\<lambda>sum.
          bindE (forE (unat (mm_dim_K a)) (\<lambda>k sum.
            cpu_mac M m (mm_A a + of_nat i * fst A_dim_strides + of_nat k * snd A_dim_strides) (mm_A_scale a)
              (mm_B a + of_nat j * fst B_dim_strides + of_nat k * snd B_dim_strides) (mm_B_scale a) sum) sum) (\<lambda>sum.
          if norm then Inr m
          else bindE (scale_and_sat sum (mm_act a) (mm_scale a) (mm_bert_scale a)) (\<lambda>e.
            write_to_dram M (mm_C a + of_nat i * mm_stride_C a + of_nat j) e m)))) m) m)"

definition matmul_cpu :: "'m mmu \<Rightarrow> matmul_args \<Rightarrow> 'm \<Rightarrow> 'm res" where
  "matmul_cpu M a m =
     (if mm_act a \<noteq> ACT_LAYERNORM \<and> mm_act a \<noteq> ACT_SOFTMAX \<and> \<not> mm_a_transpose a \<and> \<not> mm_b_transpose a \<and>
         mm_dim_I a mod 4 = 0 \<and> mm_dim_J a mod 4 = 0
      then matmul_cpu_unrolled M a m
      else matmul_cpu_general M a m)"

end
