(* ===== verification/Driver_Tiling.thy ===== *)
theory Driver_Tiling
  imports Driver_Cpu
begin

text \<open>
  The top of the driver's matrix multiplication: \<open>tiled_matmul\<close> with the checks on its tiling
  factors and \<open>tiled_matmul_auto\<close>, which chooses them. Both run on the simulator: the operations
  they issue are executed, and the processor's part works on the memory of the simulator.
\<close>

section \<open>Checked tiling factors\<close>

datatype tiled_matmul_type_t = TM_OS | TM_WS | TM_CPU

definition total_spad_size :: "tiled_matmul_type_t \<Rightarrow> u64" where
  "total_spad_size ty = (if ty = TM_WS then of_nat (BANK_NUM * BANK_ROWS div 2) else of_nat (BANK_NUM * BANK_ROWS))"

definition total_acc_size :: "tiled_matmul_type_t \<Rightarrow> u64" where
  "total_acc_size ty = (if ty = TM_WS then of_nat (ACC_ROWS div 2) else of_nat ACC_ROWS)"

text \<open>The checks that end the program; the other ones only print a message.\<close>

definition tiled_matmul_check :: "matmul_args \<Rightarrow> tiling \<Rightarrow> tiled_matmul_type_t \<Rightarrow> unit res" where
  "tiled_matmul_check m t ty =
     (if tile_I t = 0 then Inl ExitFailure
      else if tile_J t = 0 then Inl ExitFailure
      else if tile_K t = 0 then Inl ExitFailure
      else if pad_dim (mm_dim_I m) < tile_I t * of_nat DIM then Inl ExitFailure
      else if pad_dim (mm_dim_J m) < tile_J t * of_nat DIM then Inl ExitFailure
      else if pad_dim (mm_dim_K m) < tile_K t * of_nat DIM then Inl ExitFailure
      else if total_spad_size ty < tile_I t * tile_K t * of_nat DIM + tile_K t * tile_J t * of_nat DIM then Inl ExitFailure
      else if total_acc_size ty < tile_I t * tile_J t * of_nat DIM then Inl ExitFailure
      else if 65535 < tile_I t \<or> 65535 < tile_J t \<or> 65535 < tile_K t then Inl ExitFailure
      else if (ty = TM_OS \<and> (mm_a_transpose m \<or> mm_b_transpose m)) \<or> (ty = TM_WS \<and> mm_a_transpose m \<and> mm_b_transpose m)
        then Inl ExitFailure
      else Inr ())"

fun dataflow_of :: "tiled_matmul_type_t \<Rightarrow> int" where
  "dataflow_of TM_OS = 0" | "dataflow_of TM_WS = 1" | "dataflow_of TM_CPU = 2"

definition tiled_matmul :: "'m mmu \<Rightarrow> matmul_args \<Rightarrow> tiling \<Rightarrow> tiled_matmul_type_t \<Rightarrow> 'm sim \<Rightarrow> 'm sim res" where
  "tiled_matmul M m t ty s =
     bindE (tiled_matmul_check m t ty) (\<lambda>_.
     if ty = TM_OS \<or> ty = TM_WS then bindE (tiled_matmul_outer m t (dataflow_of ty)) (\<lambda>ops. run_ops M ops s)
     else bindE (matmul_cpu M m (mem s)) (\<lambda>mm. Inr (s\<lparr>mem := mm\<rparr>)))"

section \<open>Chosen tiling factors\<close>

definition tiled_matmul_total_spad_rows :: "u64 \<Rightarrow> u64 \<Rightarrow> u64 \<Rightarrow> u64" where
  "tiled_matmul_total_spad_rows I J K = (I * K + K * J) * of_nat DIM"

definition tiled_matmul_total_acc_rows :: "u64 \<Rightarrow> u64 \<Rightarrow> u64" where
  "tiled_matmul_total_acc_rows I J = (I * J) * of_nat DIM"

text \<open>\<open>(size_t) sqrt\<close> of a small constant is the integer square root.\<close>

definition max_tile_i_j :: "tiled_matmul_type_t \<Rightarrow> u64" where
  "max_tile_i_j ty = of_nat (isqrt ((if ty = TM_WS then ACC_ROWS div 2 else ACC_ROWS) div DIM))"

definition max_tile_k :: "tiled_matmul_type_t \<Rightarrow> u64" where
  "max_tile_k ty = of_nat ((if ty = TM_WS then BANK_NUM * BANK_ROWS div 2 div 2 else BANK_NUM * BANK_ROWS div 2) div DIM)
     div max_tile_i_j ty"

definition initial_tiling :: "matmul_args \<Rightarrow> tiled_matmul_type_t \<Rightarrow> tiling" where
  "initial_tiling m ty =
     (let bI = pad_dim (mm_dim_I m) div of_nat DIM; bJ = pad_dim (mm_dim_J m) div of_nat DIM;
          bK = pad_dim (mm_dim_K m) div of_nat DIM in
      if mm_act m = ACT_LAYERNORM \<or> mm_act m = ACT_SOFTMAX then \<lparr>tile_I = 1, tile_J = bJ, tile_K = 1\<rparr>
      else \<lparr>tile_I = (if bI < max_tile_i_j ty then bI else max_tile_i_j ty),
            tile_J = (if bJ < max_tile_i_j ty then bJ else max_tile_i_j ty),
            tile_K = (if bK < max_tile_k ty then bK else max_tile_k ty)\<rparr>)"

definition grow_J :: "matmul_args \<Rightarrow> tiled_matmul_type_t \<Rightarrow> tiling \<Rightarrow> bool" where
  "grow_J m ty t \<longleftrightarrow> tiled_matmul_total_spad_rows (tile_I t) (tile_J t + 1) (tile_K t) \<le> total_spad_size ty \<and>
     tiled_matmul_total_acc_rows (tile_I t) (tile_J t + 1) \<le> total_acc_size ty \<and>
     (tile_J t + 1) * of_nat DIM \<le> pad_dim (mm_dim_J m)"

definition grow_I :: "matmul_args \<Rightarrow> tiled_matmul_type_t \<Rightarrow> tiling \<Rightarrow> bool" where
  "grow_I m ty t \<longleftrightarrow> tiled_matmul_total_spad_rows (tile_I t + 1) (tile_J t) (tile_K t) \<le> total_spad_size ty \<and>
     tiled_matmul_total_acc_rows (tile_I t + 1) (tile_J t) \<le> total_acc_size ty \<and>
     (tile_I t + 1) * of_nat DIM \<le> pad_dim (mm_dim_I m)"

definition grow_K :: "matmul_args \<Rightarrow> tiled_matmul_type_t \<Rightarrow> tiling \<Rightarrow> bool" where
  "grow_K m ty t \<longleftrightarrow> tiled_matmul_total_spad_rows (tile_I t) (tile_J t) (tile_K t + 1) \<le> total_spad_size ty \<and>
     (tile_K t + 1) * of_nat DIM \<le> pad_dim (mm_dim_K m)"

text \<open>One round of the loop that fills the scratchpad.\<close>

definition grow_step :: "matmul_args \<Rightarrow> tiled_matmul_type_t \<Rightarrow> tiling \<Rightarrow> bool \<times> tiling" where
  "grow_step m ty t =
     (let incJ = grow_J m ty t; t = (if incJ then t\<lparr>tile_J := tile_J t + 1\<rparr> else t);
          incI = grow_I m ty t; t = (if incI then t\<lparr>tile_I := tile_I t + 1\<rparr> else t);
          incK = grow_K m ty t; t = (if incK then t\<lparr>tile_K := tile_K t + 1\<rparr> else t) in
      (incJ \<or> incI \<or> incK, t))"

partial_function (option) grow_tiles :: "matmul_args \<Rightarrow> tiled_matmul_type_t \<Rightarrow> tiling \<Rightarrow> tiling option" where
  "grow_tiles m ty t =
     (let (increased, t') = grow_step m ty t in
      if \<not> increased then Some t' else grow_tiles m ty t')"

declare grow_tiles.simps [code]

definition auto_tiling :: "matmul_args \<Rightarrow> tiled_matmul_type_t \<Rightarrow> tiling option" where
  "auto_tiling m ty = grow_tiles m ty (initial_tiling m ty)"

definition tiled_matmul_auto :: "'m mmu \<Rightarrow> matmul_args \<Rightarrow> tiled_matmul_type_t \<Rightarrow> 'm sim \<Rightarrow> 'm sim res option" where
  "tiled_matmul_auto M m ty s = map_option (\<lambda>t. tiled_matmul M m t ty s) (auto_tiling m ty)"

end
