(* ===== verification/Driver_Tiling_Correct.thy ===== *)
theory Driver_Tiling_Correct
  imports Driver_Tiling Gemmini_Loop_Correct
begin

text \<open>
  What the choice of tiling factors guarantees: for matrices of any realistic size the search
  ends, the factors pass every check of \<open>tiled_matmul\<close>, and no factor can grow any further.
\<close>

section \<open>Sizes\<close>

definition blocks_of :: "u64 \<Rightarrow> nat" where
  "blocks_of d = (unat d + 15) div 16"

lemma blocks_of_le: "unat d < 2 ^ 31 \<Longrightarrow> blocks_of d \<le> 2 ^ 27"
  by (simp add: blocks_of_def)

lemma unat_of_small: "n < 2 ^ 64 \<Longrightarrow> unat (of_nat n :: u64) = n"
  by (simp add: unat_of_nat take_bit_nat_eq_self)

lemma le_of_small: "a < 2 ^ 64 \<Longrightarrow> b < 2 ^ 64 \<Longrightarrow> (of_nat a :: u64) \<le> of_nat b \<longleftrightarrow> a \<le> b"
  by (simp add: word_le_nat_alt unat_of_nat take_bit_nat_eq_self)

lemma ceil16: "(n :: nat) div 16 + of_bool (n mod 16 \<noteq> 0) = (n + 15) div 16"
proof -
  define q r where "q = n div 16" and "r = n mod 16"
  have n: "n = 16 * q + r" "r < 16" by (simp_all add: q_def r_def)
  show ?thesis unfolding q_def [symmetric] r_def [symmetric] by (cases "r = 0") (use n in auto)
qed

lemma pad_dim_blocks:
  assumes "unat d < 2 ^ 31"
  shows "pad_dim d = of_nat (blocks_of d * 16)"
proof -
  have lt: "unat d div 16 < 2 ^ 64" using assms by simp
  have q: "d div 16 = of_nat (unat d div 16)"
    by (simp add: word_unat_eq_iff unat_div unat_of_small [OF lt])
  have "d mod 16 = 0 \<longleftrightarrow> unat d mod 16 = 0" by (simp add: word_unat_eq_iff unat_mod)
  then have r: "of_bool (d mod 16 \<noteq> 0) = (of_nat (of_bool (unat d mod 16 \<noteq> 0)) :: u64)" by simp
  have "unat d div 16 + of_bool (unat d mod 16 \<noteq> 0) = blocks_of d"
    unfolding blocks_of_def by (rule ceil16)
  moreover have "pad_dim d = (of_nat (unat d div 16) + of_nat (of_bool (unat d mod 16 \<noteq> 0))) * of_nat 16"
    unfolding pad_dim_def DIM_def of_nat_numeral q r ..
  ultimately show ?thesis by (metis of_nat_add of_nat_mult)
qed

text \<open>The room of a tiling, as numbers.\<close>

definition spad_room :: "tiled_matmul_type_t \<Rightarrow> nat" where
  "spad_room ty = (if ty = TM_WS then 8192 else 16384)"

definition acc_room :: "tiled_matmul_type_t \<Rightarrow> nat" where
  "acc_room ty = (if ty = TM_WS then 512 else 1024)"

lemma room_words:
  "total_spad_size ty = of_nat (spad_room ty)" "total_acc_size ty = of_nat (acc_room ty)"
  by (simp_all add: total_spad_size_def total_acc_size_def spad_room_def acc_room_def size_defs)

definition fits_room :: "tiled_matmul_type_t \<Rightarrow> nat \<Rightarrow> nat \<Rightarrow> nat \<Rightarrow> bool" where
  "fits_room ty I J K \<longleftrightarrow> (I * K + K * J) * 16 \<le> spad_room ty \<and> I * J * 16 \<le> acc_room ty"

lemma small_products:
  assumes "I \<le> 2 ^ 28" "J \<le> 2 ^ 28" "K \<le> (2 ^ 28 :: nat)"
  shows "(I * K + K * J) * 16 < 2 ^ 64" "I * J * 16 < 2 ^ 64"
proof -
  have "I * K \<le> 2 ^ 28 * 2 ^ 28" "K * J \<le> 2 ^ 28 * 2 ^ 28" "I * J \<le> 2 ^ 28 * 2 ^ 28"
    using assms by (intro mult_le_mono; simp)+
  then show "(I * K + K * J) * 16 < 2 ^ 64" "I * J * 16 < 2 ^ 64" by simp_all
qed

lemma rooms_small: "spad_room ty < 2 ^ 64" "acc_room ty < 2 ^ 64"
  by (simp_all add: spad_room_def acc_room_def)

lemma total_rows_room:
  assumes "I \<le> 2 ^ 28" "J \<le> 2 ^ 28" "K \<le> 2 ^ 28"
  shows "tiled_matmul_total_spad_rows (of_nat I) (of_nat J) (of_nat K) \<le> total_spad_size ty \<longleftrightarrow>
      (I * K + K * J) * 16 \<le> spad_room ty"
    and "tiled_matmul_total_acc_rows (of_nat I) (of_nat J) \<le> total_acc_size ty \<longleftrightarrow> I * J * 16 \<le> acc_room ty"
proof -
  have "tiled_matmul_total_spad_rows (of_nat I) (of_nat J) (of_nat K) = of_nat ((I * K + K * J) * 16)"
    "tiled_matmul_total_acc_rows (of_nat I) (of_nat J) = of_nat (I * J * 16)"
    by (simp_all add: tiled_matmul_total_spad_rows_def tiled_matmul_total_acc_rows_def DIM_def)
  then show "tiled_matmul_total_spad_rows (of_nat I) (of_nat J) (of_nat K) \<le> total_spad_size ty \<longleftrightarrow>
      (I * K + K * J) * 16 \<le> spad_room ty"
    "tiled_matmul_total_acc_rows (of_nat I) (of_nat J) \<le> total_acc_size ty \<longleftrightarrow> I * J * 16 \<le> acc_room ty"
    unfolding room_words using le_of_small small_products [OF assms] rooms_small by metis+
qed

text \<open>A tiling within the bounds of the matrices, and the conditions of the search on it.\<close>

definition dims_ok :: "matmul_args \<Rightarrow> bool" where
  "dims_ok m \<longleftrightarrow> unat (mm_dim_I m) < 2 ^ 31 \<and> unat (mm_dim_J m) < 2 ^ 31 \<and> unat (mm_dim_K m) < 2 ^ 31"

definition tiling_of :: "nat \<Rightarrow> nat \<Rightarrow> nat \<Rightarrow> tiling" where
  "tiling_of I J K = \<lparr>tile_I = of_nat I, tile_J = of_nat J, tile_K = of_nat K\<rparr>"

lemma tiling_of_unat: "t = tiling_of (unat (tile_I t)) (unat (tile_J t)) (unat (tile_K t))"
  by (simp add: tiling_of_def)

lemma grow_conditions:
  assumes "dims_ok m" "I \<le> blocks_of (mm_dim_I m)" "J \<le> blocks_of (mm_dim_J m)" "K \<le> blocks_of (mm_dim_K m)"
  shows "grow_J m ty (tiling_of I J K) \<longleftrightarrow> fits_room ty I (Suc J) K \<and> Suc J \<le> blocks_of (mm_dim_J m)"
    and "grow_I m ty (tiling_of I J K) \<longleftrightarrow> fits_room ty (Suc I) J K \<and> Suc I \<le> blocks_of (mm_dim_I m)"
    and "grow_K m ty (tiling_of I J K) \<longleftrightarrow> (I * Suc K + Suc K * J) * 16 \<le> spad_room ty \<and> Suc K \<le> blocks_of (mm_dim_K m)"
proof -
  note d = assms(1) [unfolded dims_ok_def]
  have b: "blocks_of (mm_dim_I m) \<le> 2 ^ 27" "blocks_of (mm_dim_J m) \<le> 2 ^ 27" "blocks_of (mm_dim_K m) \<le> 2 ^ 27"
    using d blocks_of_le by blast+
  have s: "I \<le> 2 ^ 28" "J \<le> 2 ^ 28" "K \<le> 2 ^ 28" "Suc I \<le> 2 ^ 28" "Suc J \<le> 2 ^ 28" "Suc K \<le> 2 ^ 28"
    using assms b by simp_all
  have suc: "of_nat n + 1 = (of_nat (Suc n) :: u64)" for n by simp
  have le: "(of_nat x :: u64) * of_nat DIM \<le> pad_dim d \<longleftrightarrow> x \<le> blocks_of d" if "x \<le> 2 ^ 28" "unat d < 2 ^ 31" for x d
  proof -
    have "(of_nat x :: u64) * of_nat DIM = of_nat (x * 16)" by (simp add: DIM_def)
    moreover have "x * 16 < 2 ^ 64" "blocks_of d * 16 < 2 ^ 64" using that blocks_of_le [of d] by simp_all
    ultimately show ?thesis using le_of_small pad_dim_blocks [OF that(2)] by (metis mult_le_cancel2 zero_less_numeral)
  qed
  show "grow_J m ty (tiling_of I J K) \<longleftrightarrow> fits_room ty I (Suc J) K \<and> Suc J \<le> blocks_of (mm_dim_J m)"
    using total_rows_room [OF s(1,5,3)] le [OF s(5)] d
    by (simp only: grow_J_def tiling_of_def tiling.select_convs suc fits_room_def simp_thms conj_assoc)
  show "grow_I m ty (tiling_of I J K) \<longleftrightarrow> fits_room ty (Suc I) J K \<and> Suc I \<le> blocks_of (mm_dim_I m)"
    using total_rows_room [OF s(4,2,3)] le [OF s(4)] d
    by (simp only: grow_I_def tiling_of_def tiling.select_convs suc fits_room_def simp_thms conj_assoc)
  show "grow_K m ty (tiling_of I J K) \<longleftrightarrow> (I * Suc K + Suc K * J) * 16 \<le> spad_room ty \<and> Suc K \<le> blocks_of (mm_dim_K m)"
    using total_rows_room(1) [OF s(1,2,6)] le [OF s(6)] d
    by (simp only: grow_K_def tiling_of_def tiling.select_convs suc simp_thms)
qed

section \<open>The search\<close>

definition tile_bounds :: "matmul_args \<Rightarrow> nat \<Rightarrow> nat \<Rightarrow> nat \<Rightarrow> bool" where
  "tile_bounds m I J K \<longleftrightarrow> I \<le> blocks_of (mm_dim_I m) \<and> J \<le> blocks_of (mm_dim_J m) \<and> K \<le> blocks_of (mm_dim_K m)"

text \<open>No factor can grow on its own without leaving the matrix or the memories.\<close>

definition tile_maximal :: "matmul_args \<Rightarrow> tiled_matmul_type_t \<Rightarrow> nat \<Rightarrow> nat \<Rightarrow> nat \<Rightarrow> bool" where
  "tile_maximal m ty I J K \<longleftrightarrow>
     \<not> (tile_bounds m (Suc I) J K \<and> fits_room ty (Suc I) J K) \<and>
     \<not> (tile_bounds m I (Suc J) K \<and> fits_room ty I (Suc J) K) \<and>
     \<not> (tile_bounds m I J (Suc K) \<and> fits_room ty I J (Suc K))"

lemma grow_step_room:
  assumes "dims_ok m" "tile_bounds m I J K" "fits_room ty I J K"
  obtains I' J' K' where "I \<le> I'" "J \<le> J'" "K \<le> K'" "tile_bounds m I' J' K'" "fits_room ty I' J' K'"
    "grow_step m ty (tiling_of I J K) = (I < I' \<or> J < J' \<or> K < K', tiling_of I' J' K')"
    "(I', J', K') = (I, J, K) \<Longrightarrow> tile_maximal m ty I J K"
proof -
  note b = assms(2) [unfolded tile_bounds_def]
  define J' where "J' = (if grow_J m ty (tiling_of I J K) then Suc J else J)"
  have J: "J' \<le> blocks_of (mm_dim_J m)" "fits_room ty I J' K" "J \<le> J'"
    "J' = J \<Longrightarrow> \<not> (fits_room ty I (Suc J) K \<and> Suc J \<le> blocks_of (mm_dim_J m))"
    using grow_conditions(1) [OF assms(1), of I J K] b assms(3) by (auto simp: J'_def split: if_splits)
  define I' where "I' = (if grow_I m ty (tiling_of I J' K) then Suc I else I)"
  have I: "I' \<le> blocks_of (mm_dim_I m)" "fits_room ty I' J' K" "I \<le> I'"
    "I' = I \<Longrightarrow> \<not> (fits_room ty (Suc I) J' K \<and> Suc I \<le> blocks_of (mm_dim_I m))"
    using grow_conditions(2) [OF assms(1), of I J' K] b J by (auto simp: I'_def split: if_splits)
  define K' where "K' = (if grow_K m ty (tiling_of I' J' K) then Suc K else K)"
  have K: "K' \<le> blocks_of (mm_dim_K m)" "fits_room ty I' J' K'" "K \<le> K'"
    "K' = K \<Longrightarrow> \<not> (fits_room ty I' J' (Suc K) \<and> Suc K \<le> blocks_of (mm_dim_K m))"
    using grow_conditions(3) [OF assms(1), of I' J' K] b I J by (auto simp: K'_def fits_room_def split: if_splits)
  have upd: "(tiling_of x y z)\<lparr>tile_J := tile_J (tiling_of x y z) + 1\<rparr> = tiling_of x (Suc y) z"
    "(tiling_of x y z)\<lparr>tile_I := tile_I (tiling_of x y z) + 1\<rparr> = tiling_of (Suc x) y z"
    "(tiling_of x y z)\<lparr>tile_K := tile_K (tiling_of x y z) + 1\<rparr> = tiling_of x y (Suc z)" for x y z
    by (simp_all add: tiling_of_def)
  have s1: "(if grow_J m ty (tiling_of I J K) then (tiling_of I J K)\<lparr>tile_J := tile_J (tiling_of I J K) + 1\<rparr>
      else tiling_of I J K) = tiling_of I J' K" by (simp add: J'_def upd)
  have s2: "(if grow_I m ty (tiling_of I J' K) then (tiling_of I J' K)\<lparr>tile_I := tile_I (tiling_of I J' K) + 1\<rparr>
      else tiling_of I J' K) = tiling_of I' J' K" by (simp add: I'_def upd)
  have s3: "(if grow_K m ty (tiling_of I' J' K) then (tiling_of I' J' K)\<lparr>tile_K := tile_K (tiling_of I' J' K) + 1\<rparr>
      else tiling_of I' J' K) = tiling_of I' J' K'" by (simp add: K'_def upd)
  have flags: "grow_J m ty (tiling_of I J K) \<longleftrightarrow> J < J'" "grow_I m ty (tiling_of I J' K) \<longleftrightarrow> I < I'"
    "grow_K m ty (tiling_of I' J' K) \<longleftrightarrow> K < K'" by (simp_all add: J'_def I'_def K'_def)
  have "grow_step m ty (tiling_of I J K) = (I < I' \<or> J < J' \<or> K < K', tiling_of I' J' K')"
    unfolding grow_step_def Let_def s1 s2 s3 unfolding flags by auto
  moreover have "(I', J', K') = (I, J, K) \<Longrightarrow> tile_maximal m ty I J K"
    using I(4) J(4) K(4) by (auto simp: tile_maximal_def tile_bounds_def)
  ultimately show ?thesis using that I J K b by (auto simp: tile_bounds_def)
qed

lemma grow_tiles_ends:
  assumes "dims_ok m" "tile_bounds m I J K" "fits_room ty I J K"
  shows "\<exists>I' J' K'. grow_tiles m ty (tiling_of I J K) = Some (tiling_of I' J' K') \<and> I \<le> I' \<and> J \<le> J' \<and> K \<le> K' \<and>
    tile_bounds m I' J' K' \<and> fits_room ty I' J' K' \<and> tile_maximal m ty I' J' K'"
  using assms(2,3)
proof (induction "blocks_of (mm_dim_I m) - I + (blocks_of (mm_dim_J m) - J) + (blocks_of (mm_dim_K m) - K)"
    arbitrary: I J K rule: less_induct)
  case less
  obtain I' J' K' where st: "I \<le> I'" "J \<le> J'" "K \<le> K'" "tile_bounds m I' J' K'" "fits_room ty I' J' K'"
    "grow_step m ty (tiling_of I J K) = (I < I' \<or> J < J' \<or> K < K', tiling_of I' J' K')"
    "(I', J', K') = (I, J, K) \<Longrightarrow> tile_maximal m ty I J K"
    using grow_step_room [OF assms(1) less.prems] by blast
  show ?case
  proof (cases "(I', J', K') = (I, J, K)")
    case True
    then have "grow_tiles m ty (tiling_of I J K) = Some (tiling_of I J K)"
      using st(6) by (subst grow_tiles.simps) simp
    then show ?thesis using True st by blast
  next
    case False
    then have inc: "I < I' \<or> J < J' \<or> K < K'" using st(1-3) by auto
    then have g: "grow_tiles m ty (tiling_of I J K) = grow_tiles m ty (tiling_of I' J' K')"
      using st(6) by (subst grow_tiles.simps) simp
    have "blocks_of (mm_dim_I m) - I' + (blocks_of (mm_dim_J m) - J') + (blocks_of (mm_dim_K m) - K')
      < blocks_of (mm_dim_I m) - I + (blocks_of (mm_dim_J m) - J) + (blocks_of (mm_dim_K m) - K)"
      using inc st(1-4) by (auto simp: tile_bounds_def)
    from less.hyps [OF this st(4,5)] show ?thesis unfolding g using st(1-3) le_trans by blast
  qed
qed

lemma isqrt_bits_numeral: "isqrt_bits (numeral k) n r = isqrt_bits (pred_numeral k) n
   (if (r + 2 ^ pred_numeral k) * (r + 2 ^ pred_numeral k) \<le> n then r + 2 ^ pred_numeral k else r)"
  by (subst numeral_eq_Suc) simp

lemma initial_tiling_ok:
  assumes "dims_ok m" "mm_act m \<noteq> ACT_LAYERNORM" "mm_act m \<noteq> ACT_SOFTMAX"
  obtains I J K where "initial_tiling m ty = tiling_of I J K" "tile_bounds m I J K" "fits_room ty I J K"
    "0 < mm_dim_I m \<Longrightarrow> 0 < I" "0 < mm_dim_J m \<Longrightarrow> 0 < J" "0 < mm_dim_K m \<Longrightarrow> 0 < K"
proof -
  define X where "X = (if ty = TM_WS then 5 else 8 :: nat)"
  define Y where "Y = (if ty = TM_WS then 51 else 64 :: nat)"
  have q: "isqrt 32 = 5" "isqrt 64 = 8" by (simp_all add: isqrt_def isqrt_bits_numeral)
  have mx: "max_tile_i_j ty = of_nat X" "max_tile_k ty = of_nat Y"
    by (simp_all add: max_tile_i_j_def max_tile_k_def size_defs X_def Y_def q)
  have div: "pad_dim d div of_nat DIM = of_nat (blocks_of d)" if "unat d < 2 ^ 31" for d
  proof -
    have "blocks_of d * 16 < 2 ^ 64" using blocks_of_le [OF that] by simp
    then show ?thesis unfolding pad_dim_blocks [OF that] DIM_def of_nat_numeral
      by (simp add: word_unat_eq_iff unat_div unat_of_small del: of_nat_mult)
  qed
  have pick: "(if (of_nat b :: u64) < of_nat x then of_nat b else of_nat x) = (of_nat (min b x) :: u64)"
    if "b \<le> 2 ^ 27" "x \<le> 64" for b x :: nat
    using that by (simp add: word_less_nat_alt unat_of_small min_def)
  have XY: "X \<le> 64" "Y \<le> 64" "0 < X" "0 < Y" by (simp_all add: X_def Y_def)
  have d: "unat (mm_dim_I m) < 2 ^ 31" "unat (mm_dim_J m) < 2 ^ 31" "unat (mm_dim_K m) < 2 ^ 31"
    using assms(1) by (simp_all add: dims_ok_def)
  note le = blocks_of_le [OF d(1)] blocks_of_le [OF d(2)] blocks_of_le [OF d(3)]
  let ?I = "min (blocks_of (mm_dim_I m)) X" and ?J = "min (blocks_of (mm_dim_J m)) X" and ?K = "min (blocks_of (mm_dim_K m)) Y"
  have "initial_tiling m ty = tiling_of ?I ?J ?K"
    using assms(2,3) unfolding initial_tiling_def Let_def mx tiling_of_def div [OF d(1)] div [OF d(2)] div [OF d(3)]
      pick [OF le(1) XY(1)] pick [OF le(2) XY(1)] pick [OF le(3) XY(2)] by simp
  moreover have "tile_bounds m ?I ?J ?K" by (simp add: tile_bounds_def)
  moreover have "fits_room ty ?I ?J ?K"
  proof -
    have "?I * ?K \<le> X * Y" "?K * ?J \<le> Y * X" "?I * ?J \<le> X * X" by (intro mult_le_mono; simp)+
    then have "(?I * ?K + ?K * ?J) * 16 \<le> (X * Y + Y * X) * 16" "?I * ?J * 16 \<le> X * X * 16" by (intro mult_le_mono add_mono; simp)+
    then show ?thesis unfolding fits_room_def using X_def Y_def by (auto simp: spad_room_def acc_room_def)
  qed
  moreover have "0 < blocks_of d" if "0 < d" for d
    using that by (auto simp: blocks_of_def word_less_nat_alt)
  ultimately show ?thesis using that [of ?I ?J ?K] XY by simp
qed

text \<open>Factors that fit are small.\<close>

lemma fits_room_small:
  assumes "fits_room ty I J K" "0 < I" "0 < J" "0 < K"
  shows "I \<le> 1024" "J \<le> 1024" "K \<le> 1024"
proof -
  have r: "I * K + K * J \<le> 1024" using assms(1) by (auto simp: fits_room_def spad_room_def split: if_splits)
  have "I \<le> I * K" "J \<le> K * J" "K \<le> I * K" using assms by simp_all
  with r show "I \<le> 1024" "J \<le> 1024" "K \<le> 1024" by linarith+
qed

lemma auto_tiling_ok:
  assumes "dims_ok m" "mm_act m \<noteq> ACT_LAYERNORM" "mm_act m \<noteq> ACT_SOFTMAX"
    and "0 < mm_dim_I m" "0 < mm_dim_J m" "0 < mm_dim_K m"
  obtains I J K where "auto_tiling m ty = Some (tiling_of I J K)" "0 < I" "0 < J" "0 < K" "tile_bounds m I J K"
    "fits_room ty I J K" "tile_maximal m ty I J K"
proof -
  obtain I J K where i: "initial_tiling m ty = tiling_of I J K" "tile_bounds m I J K" "fits_room ty I J K"
    "0 < I" "0 < J" "0 < K"
    using initial_tiling_ok [OF assms(1-3), of ty] assms(4-6) by metis
  from grow_tiles_ends [OF assms(1) i(2,3)] i(1,4-6) that show ?thesis
    unfolding auto_tiling_def by (metis order_less_le_trans)
qed

lemma checks_pass:
  assumes "dims_ok m" "tile_bounds m I J K" "fits_room ty I J K" "0 < I" "0 < J" "0 < K"
    and "ty = TM_OS \<Longrightarrow> \<not> mm_a_transpose m \<and> \<not> mm_b_transpose m"
      "ty = TM_WS \<Longrightarrow> \<not> (mm_a_transpose m \<and> mm_b_transpose m)"
  shows "tiled_matmul_check m (tiling_of I J K) ty = Inr ()"
proof -
  note b = fits_room_small [OF assms(3-6)]
  have d: "unat (mm_dim_I m) < 2 ^ 31" "unat (mm_dim_J m) < 2 ^ 31" "unat (mm_dim_K m) < 2 ^ 31"
    using assms(1) by (simp_all add: dims_ok_def)
  have nz: "(of_nat n :: u64) \<noteq> 0" if "0 < n" "n \<le> 1024" for n
  proof
    assume "(of_nat n :: u64) = 0"
    then have "unat (of_nat n :: u64) = 0" by simp
    then show False using unat_of_small [of n] that by simp
  qed
  have le: "\<not> pad_dim d < of_nat x * of_nat DIM" if "unat d < 2 ^ 31" "x \<le> blocks_of d" for x d
  proof -
    have "x * 16 < 2 ^ 64" "blocks_of d * 16 < 2 ^ 64" using that blocks_of_le [of d] by simp_all
    then have "(of_nat (x * 16) :: u64) \<le> of_nat (blocks_of d * 16)" using le_of_small that(2) by (simp del: of_nat_mult)
    then show ?thesis unfolding pad_dim_blocks [OF that(1)] by (simp add: DIM_def not_less)
  qed
  have s: "I \<le> 2 ^ 28" "J \<le> 2 ^ 28" "K \<le> 2 ^ 28" using b by simp_all
  have room: "\<not> total_spad_size ty < of_nat I * of_nat K * of_nat DIM + of_nat K * of_nat J * of_nat DIM"
    "\<not> total_acc_size ty < of_nat I * of_nat J * of_nat DIM"
    using total_rows_room [OF s] assms(3)
    by (simp_all add: not_less fits_room_def tiled_matmul_total_spad_rows_def tiled_matmul_total_acc_rows_def distrib_right)
  have big: "\<not> 65535 < (of_nat n :: u64)" if "n \<le> 1024" for n
    using that by (simp add: word_less_nat_alt unat_of_small)
  show ?thesis
    using assms(2,7,8) nz [OF assms(4) b(1)] nz [OF assms(5) b(2)] nz [OF assms(6) b(3)] le [OF d(1)] le [OF d(2)] le [OF d(3)]
      room big [OF b(1)] big [OF b(2)] big [OF b(3)]
    unfolding tiled_matmul_check_def tiling_of_def tile_bounds_def tiling.select_convs by auto
qed

section \<open>The tiles cover the matrices\<close>

definition tiles_of :: "nat \<Rightarrow> nat \<Rightarrow> nat" where
  "tiles_of b t = (b + t - 1) div t"

lemma div_ceil: "0 < t \<Longrightarrow> b div t + of_bool (b mod t \<noteq> 0) = tiles_of b (t :: nat)"
proof -
  assume t: "0 < t"
  define q r where "q = b div t" and "r = b mod t"
  have n: "b = t * q + r" "r < t" using t by (simp_all add: q_def r_def)
  have "b + t - 1 = q * t + (r + t - 1)" using n t by (simp add: mult.commute)
  then have "tiles_of b t = q + (r + t - 1) div t" unfolding tiles_of_def using t by (simp only: div_mult_self3) 
  moreover have "(r + t - 1) div t = of_bool (r \<noteq> 0)"
    using n(2) by (cases "r = 0") (auto simp: div_eq_0_iff intro!: div_nat_eqI)
  ultimately show ?thesis by (simp add: q_def r_def)
qed

definition tile_size :: "nat \<Rightarrow> nat \<Rightarrow> nat \<Rightarrow> nat" where
  "tile_size b t i = (if Suc i < tiles_of b t then t else if b mod t = 0 then t else b mod t)"

lemma tiles_of_pos: "0 < b \<Longrightarrow> 0 < t \<Longrightarrow> 0 < tiles_of b t"
  unfolding tiles_of_def by (simp add: div_greater_zero_iff)

lemma last_tile_end:
  assumes "0 < b" "0 < t"
  shows "(tiles_of b t - 1) * t + (if b mod t = 0 then t else b mod t) = b"
proof -
  have b: "b = b div t * t + b mod t" by simp
  have c: "tiles_of b t = b div t + of_bool (b mod t \<noteq> 0)" using div_ceil [OF assms(2), of b] by simp
  have "0 < b div t" if "b mod t = 0" using that assms by (metis b add_0_right gr0I mult_0)
  moreover have "t \<le> b" if "t dvd b" using that assms dvd_imp_le by blast
  ultimately show ?thesis using b c by (cases "b mod t = 0") (auto simp: diff_mult_distrib)
qed

text \<open>Tile \<open>i\<close> holds the elements from \<open>i * t * 16\<close> up to the next tile or the end of the matrix.\<close>

lemma tile_segment:
  assumes "0 < n" "b = (n + 15) div 16" "0 < t" "i < tiles_of b t"
  defines "padding \<equiv> if Suc i = tiles_of b t then b * 16 - n else 0"
  shows "i * t * 16 + (tile_size b t i * 16 - padding) = min (Suc i * t * 16) n"
    and "0 < tile_size b t i" "tile_size b t i \<le> t" "padding < 16" "i * t * 16 < n"
proof -
  have b: "0 < b" "n \<le> b * 16" "b * 16 < n + 16" using assms(1,2) by auto
  have sz: "0 < tile_size b t i" "tile_size b t i \<le> t" using assms(3) by (auto simp: tile_size_def)
  have e: "(tiles_of b t - 1) * t + (if b mod t = 0 then t else b mod t) = b" by (rule last_tile_end [OF b(1) assms(3)])
  have pd: "padding < 16" using b by (auto simp: padding_def)
  have "i * t * 16 + (tile_size b t i * 16 - padding) = min (Suc i * t * 16) n \<and> i * t * 16 < n"
  proof (cases "Suc i = tiles_of b t")
    case True
    define l where "l = (if b mod t = 0 then t else b mod t)"
    have i: "tiles_of b t - 1 = i" using True by simp
    have l: "i * t + l = b" "0 < l" "l \<le> t" using e [unfolded i] assms(3) by (auto simp: l_def)
    have "tile_size b t i = l" using True by (simp add: tile_size_def l_def)
    moreover have "i * t * 16 + l * 16 = b * 16" using l(1) by (metis add_mult_distrib)
    moreover have "n \<le> Suc i * t * 16"
    proof -
      have "b \<le> Suc i * t" using l(1,3) by simp
      then show ?thesis using b(2) by (meson le_trans mult_le_mono1)
    qed
    ultimately show ?thesis using True b l(2) by (simp add: padding_def min_absorb2)
  next
    case False
    then have lt: "Suc i < tiles_of b t" using assms(4) by simp
    then have "Suc i * t \<le> (tiles_of b t - 1) * t" by (intro mult_le_mono) auto
    moreover have "0 < (if b mod t = 0 then t else b mod t)" using assms(3) by auto
    ultimately have "Suc i * t < b" using e by linarith
    then have "Suc i * t * 16 + 16 \<le> b * 16" by simp
    then have "Suc i * t * 16 < n" using b by linarith
    then show ?thesis using False lt by (simp add: tile_size_def padding_def)
  qed
  then show "i * t * 16 + (tile_size b t i * 16 - padding) = min (Suc i * t * 16) n" "i * t * 16 < n" by blast+
  show "0 < tile_size b t i" "tile_size b t i \<le> t" "padding < 16" using sz pd by blast+
qed

text \<open>The sizes \<open>tiled_matmul_outer\<close> computes in 64-bit arithmetic are these.\<close>

lemma div_of_small:
  "a < 2 ^ 64 \<Longrightarrow> b < 2 ^ 64 \<Longrightarrow> (of_nat a :: u64) div of_nat b = of_nat (a div b)"
  "a < 2 ^ 64 \<Longrightarrow> b < 2 ^ 64 \<Longrightarrow> (of_nat a :: u64) mod of_nat b = of_nat (a mod b)"
proof -
  assume ab: "a < 2 ^ 64" "b < 2 ^ 64"
  have "a div b < 2 ^ 64" "a mod b < 2 ^ 64" using ab by (meson div_le_dividend mod_less_eq_dividend le_less_trans)+
  then show "(of_nat a :: u64) div of_nat b = of_nat (a div b)" "(of_nat a :: u64) mod of_nat b = of_nat (a mod b)"
    using ab by (simp_all add: word_unat_eq_iff unat_div unat_mod unat_of_small)
qed

lemma outer_sizes:
  assumes "unat d < 2 ^ 31" "0 < t" "t \<le> 2 ^ 27"
  shows "tile_count d (of_nat t) = of_nat (tiles_of (blocks_of d) t)"
    and "last_tile d (of_nat t) = of_nat (if blocks_of d mod t = 0 then t else blocks_of d mod t)"
    and "dim_padding d = of_nat (blocks_of d * 16 - unat d)"
proof -
  define b where "b = blocks_of d"
  have b: "b \<le> 2 ^ 27" using blocks_of_le [OF assms(1)] by (simp add: b_def)
  have pd: "pad_dim d = of_nat (b * 16)" using pad_dim_blocks [OF assms(1)] by (simp add: b_def)
  have t: "of_nat t * of_nat DIM = (of_nat (t * 16) :: u64)" by (simp add: DIM_def)
  have lt: "b * 16 < 2 ^ 64" "t * 16 < 2 ^ 64" "b < 2 ^ 64" "t < 2 ^ 64" using b assms(3) by simp_all
  have q: "pad_dim d div (of_nat t * of_nat DIM) = of_nat (b div t)" "pad_dim d mod (of_nat t * of_nat DIM) = of_nat (b mod t * 16)"
    unfolding pd t div_of_small [OF lt(1,2)] by simp_all
  have z: "(of_nat (b mod t * 16) :: u64) = 0 \<longleftrightarrow> b mod t = 0"
  proof -
    have "b mod t < t" using assms(2) by simp
    then have "b mod t * 16 < 2 ^ 64" using assms(3) by simp
    then show ?thesis using unat_of_small [of "b mod t * 16"] by (metis mult_eq_0_iff of_nat_0 unat_0 zero_neq_numeral)
  qed
  have "tile_count d (of_nat t) = of_nat (b div t) + of_bool (b mod t \<noteq> 0)" unfolding tile_count_def q z ..
  also have "\<dots> = of_nat (tiles_of b t)" using div_ceil [OF assms(2), of b] by (metis of_nat_add of_nat_of_bool)
  finally show "tile_count d (of_nat t) = of_nat (tiles_of (blocks_of d) t)" by (simp add: b_def)
  have d16: "pad_dim d div of_nat DIM = of_nat b"
    using div_of_small(1) [OF lt(1), of 16] by (simp add: pd DIM_def del: of_nat_mult)
  show "last_tile d (of_nat t) = of_nat (if blocks_of d mod t = 0 then t else blocks_of d mod t)"
    unfolding last_tile_def q z d16 b_def [symmetric] using div_of_small(2) [OF lt(3,4)] by simp
  have "unat d \<le> b * 16" by (auto simp: b_def blocks_of_def)
  then show "dim_padding d = of_nat (blocks_of d * 16 - unat d)"
    unfolding dim_padding_def pd b_def [symmetric] by (simp add: of_nat_diff)
qed

lemma word_last:
  assumes "0 < n" "n < 2 ^ 64" "i < n"
  shows "(of_nat i :: u64) < of_nat n - 1 \<longleftrightarrow> Suc i < n" "(of_nat i :: u64) = of_nat n - 1 \<longleftrightarrow> Suc i = n"
proof -
  have m: "(of_nat n :: u64) - 1 = of_nat (n - 1)" using assms(1) by (simp add: of_nat_diff)
  have u: "unat (of_nat (n - 1) :: u64) = n - 1" "unat (of_nat i :: u64) = i"
    by (rule unat_of_small, use assms in simp)+
  show "(of_nat i :: u64) < of_nat n - 1 \<longleftrightarrow> Suc i < n" "(of_nat i :: u64) = of_nat n - 1 \<longleftrightarrow> Suc i = n"
    unfolding m word_less_nat_alt word_unat_eq_iff u using assms(1,3) by auto
qed

lemma tiles_of_le: "0 < t \<Longrightarrow> tiles_of b t \<le> b"
proof -
  assume t: "0 < t"
  have "b \<le> b * t" using t by simp
  then have "b + t - 1 < Suc b * t" unfolding mult_Suc using t by linarith
  then have "tiles_of b t < Suc b" unfolding tiles_of_def using t by (simp add: div_less_iff_less_mult)
  then show ?thesis by simp
qed

text \<open>The sizes and the padding of one dimension of a tile.\<close>

lemma tile_dimension:
  assumes "unat d < 2 ^ 31" "0 < d" "0 < t" "t \<le> 2 ^ 27" "i < tiles_of (blocks_of d) t"
  shows "(if of_nat i < tile_count d (of_nat t) - 1 then of_nat t else last_tile d (of_nat t)) =
      (of_nat (tile_size (blocks_of d) t i) :: u64)"
    and "(if of_nat i = tile_count d (of_nat t) - 1 then dim_padding d else 0) =
      (of_nat (if Suc i = tiles_of (blocks_of d) t then blocks_of d * 16 - unat d else 0) :: u64)"
proof -
  note z = outer_sizes [OF assms(1,3,4)]
  have b: "0 < blocks_of d" using assms(2) by (auto simp: blocks_of_def word_less_nat_alt)
  have n: "tiles_of (blocks_of d) t < 2 ^ 64"
    using tiles_of_le [OF assms(3), of "blocks_of d"] blocks_of_le [OF assms(1)] by simp
  note w = word_last [OF tiles_of_pos [OF b assms(3)] n assms(5)]
  show "(if of_nat i < tile_count d (of_nat t) - 1 then of_nat t else last_tile d (of_nat t)) =
      (of_nat (tile_size (blocks_of d) t i) :: u64)"
    "(if of_nat i = tile_count d (of_nat t) - 1 then dim_padding d else 0) =
      (of_nat (if Suc i = tiles_of (blocks_of d) t then blocks_of d * 16 - unat d else 0) :: u64)"
    unfolding z w tile_size_def by simp_all
qed

definition dim_pad_at :: "u64 \<Rightarrow> nat \<Rightarrow> nat \<Rightarrow> nat" where
  "dim_pad_at d t i = (if Suc i = tiles_of (blocks_of d) t then blocks_of d * 16 - unat d else 0)"

lemma outer_tile_sizes:
  fixes m :: matmul_args and I J K :: nat and dataflow :: int
  assumes "dims_ok m" "0 < mm_dim_I m" "0 < mm_dim_J m" "0 < mm_dim_K m" "fits_room ty I J K" "0 < I" "0 < J" "0 < K"
    and "i < tiles_of (blocks_of (mm_dim_I m)) I" "j < tiles_of (blocks_of (mm_dim_J m)) J"
      "k < tiles_of (blocks_of (mm_dim_K m)) K"
  defines "a \<equiv> outer_tile m (tiling_of I J K) dataflow i j k"
  shows "ta_I a = of_nat (tile_size (blocks_of (mm_dim_I m)) I i)" "ta_J a = of_nat (tile_size (blocks_of (mm_dim_J m)) J j)"
    "ta_K a = of_nat (tile_size (blocks_of (mm_dim_K m)) K k)" "ta_pad_I a = of_nat (dim_pad_at (mm_dim_I m) I i)"
    "ta_pad_J a = of_nat (dim_pad_at (mm_dim_J m) J j)" "ta_pad_K a = of_nat (dim_pad_at (mm_dim_K m) K k)"
proof -
  note b = fits_room_small [OF assms(5-8)]
  have le: "I \<le> 2 ^ 27" "J \<le> 2 ^ 27" "K \<le> 2 ^ 27" using b by simp_all
  have d: "unat (mm_dim_I m) < 2 ^ 31" "unat (mm_dim_J m) < 2 ^ 31" "unat (mm_dim_K m) < 2 ^ 31"
    using assms(1) by (simp_all add: dims_ok_def)
  note t = tile_dimension [OF d(1) assms(2,6) le(1) assms(9)] tile_dimension [OF d(2) assms(3,7) le(2) assms(10)]
    tile_dimension [OF d(3) assms(4,8) le(3) assms(11)]
  show "ta_I a = of_nat (tile_size (blocks_of (mm_dim_I m)) I i)" "ta_J a = of_nat (tile_size (blocks_of (mm_dim_J m)) J j)"
    "ta_K a = of_nat (tile_size (blocks_of (mm_dim_K m)) K k)" "ta_pad_I a = of_nat (dim_pad_at (mm_dim_I m) I i)"
    "ta_pad_J a = of_nat (dim_pad_at (mm_dim_J m) J j)" "ta_pad_K a = of_nat (dim_pad_at (mm_dim_K m) K k)"
    unfolding a_def outer_tile_def Let_def tile_args.select_convs tiling_of_def tiling.select_convs t dim_pad_at_def by (rule refl)+
qed

lemma fits_of_nat: "n < 2 ^ k \<Longrightarrow> k < 64 \<Longrightarrow> fits k (of_nat n)"
proof (rule fitsI)
  assume "n < 2 ^ k" "k < 64"
  moreover have "(2 :: nat) ^ k < 2 ^ 64" by (rule power_strict_increasing) (use \<open>k < 64\<close> in simp_all)
  ultimately show "of_nat n < (2 ^ k :: u64)"
    using unat_of_small [of n] unat_of_small [of "2 ^ k"] by (simp add: word_less_nat_alt)
qed

section \<open>The hardware loops of a chosen tiling\<close>

lemma tile_size_pos_le: "0 < t \<Longrightarrow> 0 < tile_size b t i \<and> tile_size b t i \<le> t"
  by (auto simp: tile_size_def)

lemma room_mono:
  assumes "fits_room TM_WS I J K" "x \<le> I" "y \<le> J" "z \<le> K"
  shows "loop_ws_room x y z"
proof -
  have "x * z \<le> I * K" "z * y \<le> K * J" "x * y \<le> I * J" using assms(2-4) by (intro mult_le_mono; simp)+
  then show ?thesis using assms(1) by (auto simp: fits_room_def loop_ws_room_def spad_room_def acc_room_def)
qed

lemma dim_pad_small: "unat d < 2 ^ 31 \<Longrightarrow> dim_pad_at d t i < 16"
  by (auto simp: dim_pad_at_def blocks_of_def)

text \<open>
  A tile of a chosen tiling: its loop passes the size check of the simulator, and every argument
  fits the field of the instruction it travels in.
\<close>

lemma chosen_loop_ok:
  fixes m :: matmul_args and I J K :: nat
  assumes "dims_ok m" "0 < mm_dim_I m" "0 < mm_dim_J m" "0 < mm_dim_K m" "fits_room TM_WS I J K" "0 < I" "0 < J" "0 < K"
    and "i < tiles_of (blocks_of (mm_dim_I m)) I" "j < tiles_of (blocks_of (mm_dim_J m)) J"
      "k < tiles_of (blocks_of (mm_dim_K m)) K"
    and "0 \<le> mm_act m" "mm_act m < 8"
  defines "a \<equiv> ws_loop_args (outer_tile m (tiling_of I J K) 1 i j k)"
  shows "loop_ws_args_fit a" "loop_ws_fits (loop_ws_regs_of a r)"
proof -
  let ?x = "tile_size (blocks_of (mm_dim_I m)) I i" and ?y = "tile_size (blocks_of (mm_dim_J m)) J j"
    and ?z = "tile_size (blocks_of (mm_dim_K m)) K k"
  note sz = outer_tile_sizes [OF assms(1-11), of 1]
  note b = fits_room_small [OF assms(5-8)]
  have le: "?x \<le> I" "?y \<le> J" "?z \<le> K" using tile_size_pos_le assms(6-8) by blast+
  have d: "unat (mm_dim_I m) < 2 ^ 31" "unat (mm_dim_J m) < 2 ^ 31" "unat (mm_dim_K m) < 2 ^ 31"
    using assms(1) by (simp_all add: dims_ok_def)
  have f: "fits 16 (of_nat n)" if "n \<le> 1024" for n by (rule fits_of_nat) (use that in simp_all)
  have ids: "fits 2 (la_a_spad_id a)" "fits 2 (la_b_spad_id a)"
    unfolding a_def ws_loop_args_def outer_tile_def Let_def loop_ws_args.select_convs tile_args.select_convs
    by (rule fitsI, simp add: word_less_nat_alt)+
  have act: "fits 3 (la_act a)"
  proof -
    have "la_act a = word_of_int (mm_act m)"
      by (simp add: a_def ws_loop_args_def outer_tile_def Let_def)
    moreover have "fits 3 (word_of_int (mm_act m))" using int_shl_push(2) [of "mm_act m" 3 0] assms(12,13) by simp
    ultimately show ?thesis by simp
  qed
  show "loop_ws_args_fit a"
    using ids act f le b dim_pad_small [OF d(1), of I i] dim_pad_small [OF d(2), of J j] dim_pad_small [OF d(3), of K k]
    unfolding loop_ws_args_fit_def a_def ws_loop_args_def loop_ws_args.select_convs sz by auto
  have u: "unat (ucast (of_nat n :: u64) :: u16) = n" if "n \<le> 1024" for n
    using that by (simp add: unsigned_ucast_eq unat_of_small take_bit_nat_eq_self)
  have reg: "unat (loop_ws_I (loop_ws_regs_of a r)) = ?x" "unat (loop_ws_J (loop_ws_regs_of a r)) = ?y"
    "unat (loop_ws_K (loop_ws_regs_of a r)) = ?z"
    using le b u by (simp_all add: loop_ws_regs_of_def a_def ws_loop_args_def sz)
  have room: "loop_ws_room ?x ?y ?z" by (rule room_mono [OF assms(5) le])
  show "loop_ws_fits (loop_ws_regs_of a r)"
    using loop_ws_fits_room [of "loop_ws_regs_of a r"] room by (simp add: reg loop_ws_room_def)
qed

lemma unat_tile_count:
  assumes "unat d < 2 ^ 31" "0 < t" "t \<le> 1024"
  shows "unat (tile_count d (of_nat t)) = tiles_of (blocks_of d) t"
proof -
  have "tiles_of (blocks_of d) t < 2 ^ 64" using tiles_of_le [OF assms(2), of "blocks_of d"] blocks_of_le [OF assms(1)] by simp
  then show ?thesis using outer_sizes(1) [OF assms(1,2)] assms(3) by (simp add: unat_of_small)
qed

end
