(* ===== verification/Driver_Resadd.thy ===== *)
theory Driver_Resadd
  imports Driver_Tiling
begin

text \<open>
  The element-wise functions of the driver: the residual addition and the global average, each
  on the processor, tiled for the accelerator, and with automatic choice of the tile sizes.
  Counters run over sizes of matrices in memory and cannot wrap around; a loop whose step is zero
  never ends, which is the error \<open>OutOfFuel\<close>.
\<close>

section \<open>Residual addition\<close>

record resadd_args =
  ra_I :: u64
  ra_J :: u64
  ra_stride :: u64
  ra_A_scale :: f32
  ra_B_scale :: f32
  ra_C_scale :: f32
  ra_A :: u64
  ra_B :: u64
  ra_C :: u64
  ra_relu :: bool

definition resadd_cpu_elem :: "resadd_args \<Rightarrow> elem_t \<Rightarrow> elem_t \<Rightarrow> elem_t res" where
  "resadd_cpu_elem a x y =
     (let minimum = (if ra_relu a then 0 else elem_t_min) in
      bindE (MVIN_SCALE (sint x) (ra_A_scale a)) (\<lambda>p.
      bindE (MVIN_SCALE (sint y) (ra_B_scale a)) (\<lambda>q.
      bindE (ACC_SCALE (p + q) (ra_C_scale a)) (\<lambda>result.
      Inr (word_of_int (if elem_t_max < result then elem_t_max else if result < minimum then minimum else result))))))"

definition resadd_cpu :: "'m mmu \<Rightarrow> resadd_args \<Rightarrow> 'm \<Rightarrow> 'm res" where
  "resadd_cpu M a m =
     forE (unat (ra_I a)) (\<lambda>i m.
       forE (unat (ra_J a)) (\<lambda>j m.
         let offset = of_nat i * ra_stride a + of_nat j in
         bindE (read_from_dram M m (ra_A a + offset)) (\<lambda>x.
         bindE (read_from_dram M m (ra_B a + offset)) (\<lambda>y.
         bindE (resadd_cpu_elem a x y) (\<lambda>r.
         write_to_dram M (ra_C a + offset) r m)))) m) m"

text \<open>A \<open>size_t\<close> stored in an \<open>int\<close> and converted to \<open>uint64_t\<close> again.\<close>

definition via_int :: "u64 \<Rightarrow> u64" where
  "via_int x = scast (ucast x :: 32 word)"

definition resadd_pad :: "u64 \<Rightarrow> u64" where
  "resadd_pad n = via_int (if n mod of_nat DIM = 0 then 0 else of_nat DIM - n mod of_nat DIM)"

definition resadd_blocks :: "u64 \<Rightarrow> u64" where
  "resadd_blocks n = via_int (if n mod of_nat DIM = 0 then n div of_nat DIM else n div of_nat DIM + 1)"

definition resadd_loop_args :: "resadd_args \<Rightarrow> u64 \<Rightarrow> u64 \<Rightarrow> u64 \<Rightarrow> u64 \<Rightarrow> u64 \<Rightarrow> loop_ws_args" where
  "resadd_loop_args a I J A B C = \<lparr>
     la_I = resadd_blocks I, la_J = resadd_blocks J, la_K = 0,
     la_pad_I = resadd_pad I, la_pad_J = resadd_pad J, la_pad_K = 0,
     la_A = A, la_B = B, la_D = 0, la_C = C,
     la_A_stride = ra_stride a, la_B_stride = ra_stride a, la_D_stride = 0, la_C_stride = ra_stride a,
     la_A_transpose = False, la_B_transpose = False, la_full_C = False, la_low_D = False,
     la_ex_accumulate = False, la_act = of_bool (ra_relu a), la_a_spad_id = 0, la_b_spad_id = 0,
     la_is_resadd = True\<rparr>"

definition sp_tiled_resadd :: "resadd_args \<Rightarrow> u64 \<Rightarrow> u64 \<Rightarrow> u64 \<Rightarrow> u64 \<Rightarrow> u64 \<Rightarrow> drv_op list" where
  "sp_tiled_resadd a I J A B C = gemmini_loop_ws (resadd_loop_args a I J A B C)"

definition resadd_config :: "resadd_args \<Rightarrow> drv_op list" where
  "resadd_config a =
     gemmini_extended_config_st (ucast (ucast (ra_stride a) :: u32) * 1) (of_int (if ra_relu a then ACT_RELU else ACT_NO_ACTIVATION)) (ra_C_scale a) @
     gemmini_config_ex 1 0 0 @
     gemmini_extended4_config_ld (ra_stride a * 1) (ra_A_scale a) True (of_nat DIM) 0 @
     gemmini_extended4_config_ld (ra_stride a * 1) (ra_B_scale a) True (of_nat DIM) 1"

definition tiled_resadd :: "resadd_args \<Rightarrow> u64 \<Rightarrow> u64 \<Rightarrow> drv_op list res" where
  "tiled_resadd a t_I t_J =
     (let I = unat (ra_I a); J = unat (ra_J a); tI = unat t_I; tJ = unat t_J in
      if (tI = 0 \<and> 0 < I) \<or> (tJ = 0 \<and> 0 < J \<and> 0 < I) then Inl OutOfFuel
      else Inr (resadd_config a @
        concat (map (\<lambda>i. concat (map (\<lambda>j.
          let I_tile = (if i + tI \<le> I then t_I else ra_I a - of_nat i);
              J_tile = (if j + tJ \<le> J then t_J else ra_J a - of_nat j);
              offset = of_nat i * ra_stride a + of_nat j in
          sp_tiled_resadd a I_tile J_tile (ra_A a + offset) (ra_B a + offset) (ra_C a + offset))
          (steps J tJ))) (steps I tI)) @
        gemmini_fence))"

definition resadd_acc_rows :: "u64 \<Rightarrow> u64 \<Rightarrow> u64" where
  "resadd_acc_rows I J =
     (I div of_nat DIM + of_bool (I mod of_nat DIM \<noteq> 0)) * of_nat DIM * (J div of_nat DIM + of_bool (J mod of_nat DIM \<noteq> 0))"

text \<open>The loop that shrinks the tile until it fits half of the accumulator.\<close>

function resadd_shrink :: "u64 \<Rightarrow> u64 \<Rightarrow> u64 \<times> u64" where
  "resadd_shrink t_I t_J =
     (if of_nat (ACC_ROWS div 2) < resadd_acc_rows t_I t_J then
        if t_J \<le> t_I \<or> t_J \<le> of_nat DIM then resadd_shrink (t_I div 2) t_J
        else resadd_shrink t_I (t_J - of_nat DIM)
      else (t_I, t_J))"
  by pat_completeness auto
termination
proof (relation "measure (\<lambda>(x, y). unat x + unat y)")
  fix x y :: u64
  assume r: "of_nat (ACC_ROWS div 2) < resadd_acc_rows x y"
  have "x \<noteq> 0" using r by (auto simp: resadd_acc_rows_def)
  then have "0 < unat x" by (simp add: unat_gt_0)
  then show "((x div 2, y), (x, y)) \<in> measure (\<lambda>(x, y). unat x + unat y)" by (simp add: unat_div)
next
  fix x y :: u64
  assume "\<not> (y \<le> x \<or> y \<le> of_nat DIM)"
  then have y: "16 \<le> y" by (simp add: DIM_def not_le order.strict_implies_order)
  then have "unat (y - 16) = unat y - 16" "16 \<le> unat y" by (simp_all add: unat_sub word_le_nat_alt)
  then show "((x, y - of_nat DIM), (x, y)) \<in> measure (\<lambda>(x, y). unat x + unat y)" by (simp add: DIM_def)
qed simp

declare resadd_shrink.simps [simp del]

definition tiled_resadd_stride_auto :: "'m mmu \<Rightarrow> resadd_args \<Rightarrow> tiled_matmul_type_t \<Rightarrow> 'm sim \<Rightarrow> 'm sim res" where
  "tiled_resadd_stride_auto M a ty s =
     (if ty = TM_CPU then bindE (resadd_cpu M a (mem s)) (\<lambda>m. Inr (s\<lparr>mem := m\<rparr>))
      else let (t_I, t_J) = resadd_shrink (ra_I a) (ra_J a) in
        if ty = TM_WS then bindE (tiled_resadd a t_I t_J) (\<lambda>ops. run_ops M ops s)
        else Inl ExitFailure)"

definition tiled_resadd_auto :: "'m mmu \<Rightarrow> resadd_args \<Rightarrow> tiled_matmul_type_t \<Rightarrow> 'm sim \<Rightarrow> 'm sim res" where
  "tiled_resadd_auto M a ty s = tiled_resadd_stride_auto M (a\<lparr>ra_stride := ra_J a\<rparr>) ty s"

section \<open>Global average\<close>

definition global_average_cpu :: "'m mmu \<Rightarrow> u64 \<Rightarrow> u64 \<Rightarrow> int \<Rightarrow> int \<Rightarrow> int \<Rightarrow> 'm \<Rightarrow> 'm res" where
  "global_average_cpu M input output batches channels img_dim m =
     (let count = to_i32 (img_dim * img_dim) in
      forE (nat batches) (\<lambda>batch m.
        forE (nat channels) (\<lambda>channel m.
          bindE (forE (nat img_dim) (\<lambda>row sum. forE (nat img_dim) (\<lambda>col sum.
            let pixel = of_int (to_i32 (int batch * img_dim * img_dim + int row * img_dim + int col)) :: u64 in
            bindE (read_from_dram M m (input + (pixel * of_int channels + of_nat channel))) (\<lambda>x :: elem_t.
            Inr (sum + scast x :: acc_t))) sum) 0) (\<lambda>sum.
          bindE (acc_div (sum + word_of_int (trunc_div count 2)) (word_of_int count)) (\<lambda>q.
          write_to_dram M (output + of_int (to_i32 (int batch * channels + int channel))) (ucast q :: elem_t) m))) m) m)"

definition ga_blocks :: "int \<Rightarrow> nat" where
  "ga_blocks channel_tile_size =
     (let blocks = nat (channel_tile_size div int DIM + of_bool (channel_tile_size mod int DIM \<noteq> 0)) in
      if MAX_BLOCK_LEN < blocks then MAX_BLOCK_LEN else blocks)"

definition sp_tiled_global_average :: "u64 \<Rightarrow> u64 \<Rightarrow> int \<Rightarrow> int \<Rightarrow> int \<Rightarrow> drv_op list" where
  "sp_tiled_global_average input output channels img_dim channel_tile_size =
     (let C_acc_addr_start = push_bit 31 1 :: u32;
          size = nat channel_tile_size; width = ga_blocks channel_tile_size * DIM in
      concat (map (\<lambda>channel. concat (map (\<lambda>row. concat (map (\<lambda>col.
        let in_addr = input + of_int (to_i32 ((int row * img_dim + int col) * channels + int channel));
            acc_addr_start = C_acc_addr_start OR push_bit 30 (of_bool (row \<noteq> 0 \<or> col \<noteq> 0));
            acc_addr = acc_addr_start + of_nat (channel div DIM);
            cols = (if channel + width \<le> size then of_nat width else of_nat (size - channel)) in
        gemmini_extended_mvin in_addr acc_addr cols 1) [0..<nat img_dim])) [0..<nat img_dim])) (steps size width)) @
      concat (map (\<lambda>channel.
        gemmini_extended_mvout (output + of_nat channel) (C_acc_addr_start + of_nat (channel div DIM))
          (if channel + DIM \<le> size then of_nat DIM else of_nat (size - channel)) 1) (steps size DIM)))"

definition global_average_scale :: "int \<Rightarrow> f32" where
  "global_average_scale img_dim =
     (let n = to_i32 (img_dim * img_dim) in f32_of_f64 (f64_div (f64_dec 1 0) (f64_round (n < 0) \<bar>n\<bar> 1)))"

definition tiled_global_average :: "u64 \<Rightarrow> u64 \<Rightarrow> int \<Rightarrow> int \<Rightarrow> int \<Rightarrow> int \<Rightarrow> drv_op list res" where
  "tiled_global_average input output batches channels img_dim channel_tile_size =
     (if channel_tile_size \<le> 0 \<and> 0 < channels \<and> 0 < batches then Inl OutOfFuel
      else Inr (
        gemmini_extended4_config_ld (of_nat DIM * 1) MVIN_SCALE_IDENTITY True 1 0 @
        gemmini_config_ex 0 ACT_NO_ACTIVATION 0 @
        gemmini_extended_config_st 0 (of_int ACT_NO_ACTIVATION) (global_average_scale img_dim) @
        concat (map (\<lambda>batch. concat (map (\<lambda>channel.
          let tile_size = (if int channel + channel_tile_size \<le> channels then channel_tile_size else channels - int channel) in
          sp_tiled_global_average
            (input + of_int (to_i32 (int batch * img_dim * img_dim * channels + int channel)))
            (output + of_int (to_i32 (int batch * channels + int channel)))
            channels img_dim tile_size) (steps (nat channels) (nat channel_tile_size)))) [0..<nat batches])))"

definition ga_acc_rows :: "int \<Rightarrow> int" where
  "ga_acc_rows n = trunc_div n (int DIM) + of_bool (n mod int DIM \<noteq> 0)"

text \<open>The loop \<open>while (acc_rows > ACC_ROWS) channel_tile_size--\<close>.\<close>

function ga_shrink :: "int \<Rightarrow> int" where
  "ga_shrink n = (if int ACC_ROWS < ga_acc_rows n then ga_shrink (n - 1) else n)"
  by pat_completeness auto
termination
proof (relation "measure nat")
  fix n :: int
  assume r: "int ACC_ROWS < ga_acc_rows n"
  have "0 < n"
  proof (rule ccontr)
    assume "\<not> 0 < n"
    then have "trunc_div n (int DIM) \<le> 0" by (simp add: trunc_div_def DIM_def pos_imp_zdiv_nonneg_iff)
    then show False using r by (simp add: ga_acc_rows_def ACC_ROWS_def of_bool_def split: if_splits)
  qed
  then show "(n - 1, n) \<in> measure nat" by simp
qed simp

declare ga_shrink.simps [simp del]

definition tiled_global_average_auto ::
  "'m mmu \<Rightarrow> u64 \<Rightarrow> u64 \<Rightarrow> int \<Rightarrow> int \<Rightarrow> int \<Rightarrow> tiled_matmul_type_t \<Rightarrow> 'm sim \<Rightarrow> 'm sim res" where
  "tiled_global_average_auto M input output batches channels img_dim ty s =
     (if ty = TM_CPU then
        bindE (global_average_cpu M input output batches channels img_dim (mem s)) (\<lambda>m. Inr (s\<lparr>mem := m\<rparr>))
      else bindE (tiled_global_average input output batches channels img_dim (ga_shrink channels)) (\<lambda>ops. run_ops M ops s))"

end
