(* ===== verification/Gemmini_Blocks.thy ===== *)
theory Gemmini_Blocks
  imports Gemmini_Compute_Correct Gemmini_Loop_Correct
begin

text \<open>
  A matrix in memory cut into the 16 by 16 blocks on which the hardware loops work: which rows
  and columns a block has, what a sequence of stores leaves in memory (\<open>wrote\<close>), and the part of
  the state the steps of a loop do not change (\<open>cfg_kept\<close>).
\<close>

section \<open>Blocks of a matrix\<close>

definition block_len :: "nat \<Rightarrow> nat \<Rightarrow> nat \<Rightarrow> nat" where
  "block_len n pad i = 16 - (if Suc i = n then pad else 0)"

definition block_set :: "nat \<Rightarrow> nat \<Rightarrow> nat \<Rightarrow> nat set" where
  "block_set n pad i = {16 * i ..< 16 * i + block_len n pad i}"

definition blocks_upto :: "nat \<Rightarrow> nat \<Rightarrow> nat \<Rightarrow> nat set" where
  "blocks_upto n pad k = (\<Union>i<k. block_set n pad i)"

lemma block_len_le [simp]: "block_len n pad i \<le> 16"
  by (simp add: block_len_def)

lemma tile_len_block: "unat pad \<le> 16 \<Longrightarrow> tile_len i n pad = of_nat (block_len n (unat pad) i)"
proof -
  assume "unat pad \<le> 16"
  moreover have "(ucast pad :: u64) = of_nat (unat pad)" by simp
  ultimately show ?thesis
    unfolding tile_len_def block_len_def by (simp add: DIM_def of_nat_diff split del: if_split split: if_split)
qed

lemma blocks_upto_0 [simp]: "blocks_upto n pad 0 = {}"
  by (simp add: blocks_upto_def)

lemma blocks_upto_Suc: "blocks_upto n pad (Suc k) = blocks_upto n pad k \<union> block_set n pad k"
  by (auto simp: blocks_upto_def lessThan_Suc)

lemma blocks_below: "k < n \<Longrightarrow> blocks_upto n pad k = {..< 16 * k}"
proof (induction k)
  case (Suc k)
  then have "blocks_upto n pad (Suc k) = {..< 16 * k} \<union> {16 * k ..< 16 * k + 16}"
    by (simp add: blocks_upto_Suc block_set_def block_len_def)
  then show ?case by (simp add: ivl_disj_un_one)
qed simp

lemma blocks_all: "pad \<le> 16 \<Longrightarrow> blocks_upto n pad n = {..< 16 * n - pad}"
proof (cases n)
  case (Suc k)
  assume p: "pad \<le> 16"
  have "blocks_upto n pad n = {..< 16 * k} \<union> {16 * k ..< 16 * k + (16 - pad)}"
    using Suc by (simp add: blocks_upto_Suc blocks_below block_set_def block_len_def)
  also have "\<dots> = {..< 16 * k + (16 - pad)}" by (simp add: ivl_disj_un_one)
  also have "16 * k + (16 - pad) = 16 * n - pad" using p Suc by simp
  finally show ?thesis .
qed simp

lemma block_end: "i < n \<Longrightarrow> pad \<le> 16 \<Longrightarrow> 16 * i + block_len n pad i \<le> 16 * n - pad"
  by (auto simp: block_len_def)

lemma block_in: "i < n \<Longrightarrow> pad \<le> 16 \<Longrightarrow> block_set n pad i \<subseteq> {..< 16 * n - pad}"
  unfolding blocks_all [symmetric] by (auto simp: blocks_upto_def)

lemma block_row: "i < n \<Longrightarrow> pad \<le> 16 \<Longrightarrow> r < block_len n pad i \<Longrightarrow> 16 * i + r < 16 * n - pad"
  using block_in [of i n pad] by (auto simp: block_set_def subset_iff)

section \<open>Parts of a matrix in memory\<close>

text \<open>The address of an element of a part is its address in the whole matrix.\<close>

lemma dram_cell_part:
  "dram_cell (base + (of_nat i * stride + of_nat j)) stride (r, c) = dram_cell base stride (i + r, j + c)"
  by (simp add: dram_cell_def algebra_simps)

lemma part_image: "(\<lambda>p. ((i :: nat) + fst p, j + snd p)) ` ({..<n} \<times> {..<k}) = {i ..< i + n} \<times> {j ..< j + (k :: nat)}"
proof -
  have b: "{i ..< i + n} = (+) i ` {..<n}" for i n :: nat by (simp add: lessThan_atLeast0 add.commute)
  show ?thesis unfolding b by force
qed

lemma dram_part_image:
  "dram_cell (base + (of_nat i * stride + of_nat j)) stride ` ({..<n} \<times> {..<k}) = dram_cell base stride ` ({i ..< i + n} \<times> {j ..< j + k})"
  unfolding part_image [symmetric] image_image
  by (rule image_cong) (use dram_cell_part in \<open>auto simp: split_paired_all\<close>)

text \<open>The 16 by 16 blocks are such parts.\<close>

lemma block_offset: "(of_nat i * stride + of_nat j) * of_nat DIM = (of_nat (16 * i) * stride + of_nat (16 * j) :: u64)"
  by (simp add: DIM_def algebra_simps)

section \<open>What is written to memory\<close>

definition wrote :: "'m mmu \<Rightarrow> 'm \<Rightarrow> 'm \<Rightarrow> 'k set \<Rightarrow> ('k \<Rightarrow> u64) \<Rightarrow> ('k \<Rightarrow> u8) \<Rightarrow> bool" where
  "wrote M m m' S addr W \<longleftrightarrow> writable M m' = writable M m \<and>
     (\<forall>p \<in> S. mmu_load M m' (addr p) = Some (W p)) \<and>
     (\<forall>a. a \<notin> addr ` S \<longrightarrow> mmu_load M m' a = mmu_load M m a)"

lemma wrote_refl [simp]: "wrote M m m {} addr W"
  by (simp add: wrote_def)

lemma wrote_Un:
  assumes "wrote M m m' S addr W" "wrote M m' m'' T addr W" and inj: "inj_on addr U" "S \<subseteq> U" "T \<subseteq> U"
  shows "wrote M m m'' (S \<union> T) addr W"
proof -
  have "mmu_load M m'' (addr p) = Some (W p)" if "p \<in> S" for p
  proof (cases "addr p \<in> addr ` T")
    case True
    then have "p \<in> T" using inj that by (auto dest!: inj_onD)
    then show ?thesis using assms(2) by (simp add: wrote_def)
  qed (use assms(1,2) that in \<open>auto simp: wrote_def\<close>)
  moreover have "mmu_load M m'' a = mmu_load M m a" if "a \<notin> addr ` (S \<union> T)" for a
    using assms(1,2) that unfolding wrote_def by (metis UnI1 UnI2 image_Un)
  moreover have "writable M m'' = writable M m" "\<And>p. p \<in> T \<Longrightarrow> mmu_load M m'' (addr p) = Some (W p)"
    using assms(1,2) by (simp_all add: wrote_def)
  ultimately show ?thesis unfolding wrote_def by blast
qed

lemma write_cell:
  assumes "mmu_ok M" "writable M m (addr p)"
  shows "succeeds (write_to_dram M (addr p) (W p) m) (\<lambda>m'. wrote M m m' {p} addr W)"
proof -
  obtain m' where m': "mmu_store M m (addr p) (W p) = Some m'" using assms unfolding mmu_ok_def by blast
  then have "wrote M m m' {p} addr W" using assms(1) unfolding mmu_ok_def wrote_def by (auto simp: fun_eq_iff)
  then show ?thesis using m' by (simp add: write_elem store_byte_def)
qed

text \<open>Elements stored one after the other, each where memory was writable at the start.\<close>

lemma write_next_cell:
  assumes "mmu_ok M" "inj_on addr U" "S \<subseteq> U" "p \<in> U" "writable M m (addr p)" "wrote M m m' S addr W"
  shows "succeeds (write_to_dram M (addr p) (W p) m') (\<lambda>m''. wrote M m m'' (S \<union> {p}) addr W)"
proof -
  have "writable M m' (addr p)" using assms(5,6) by (simp add: wrote_def)
  then have "succeeds (write_to_dram M (addr p) (W p) m') (\<lambda>m''. wrote M m' m'' {p} addr W)" by (rule write_cell [OF assms(1)])
  then show ?thesis by (rule succeeds_mono) (use wrote_Un [OF assms(6) _ assms(2,3)] assms(4) in blast)
qed

lemma wrote_eqI: "wrote M m m' S addr W \<Longrightarrow> addr ` S = addr' ` S' \<Longrightarrow> (\<And>p. p \<in> S' \<Longrightarrow> \<exists>q \<in> S. addr q = addr' p \<and> W q = W' p) \<Longrightarrow>
    wrote M m m' S' addr' W'"
  unfolding wrote_def by metis

lemma wrote_outside: "wrote M m m' S addr W \<Longrightarrow> a \<notin> addr ` S \<Longrightarrow> mmu_load M m' a = mmu_load M m a"
  by (simp add: wrote_def)

lemma wrote_same_load:
  assumes "wrote M m m' S addr W" "wrote M m n' S addr W"
  shows "mmu_load M m' = mmu_load M n'"
proof
  fix a show "mmu_load M m' a = mmu_load M n' a"
    using assms unfolding wrote_def by (cases "a \<in> addr ` S") auto
qed

text \<open>A part written with its own addresses is written in the matrix.\<close>

lemma wrote_part:
  assumes "wrote M m m' ({..<n} \<times> {..<k}) (dram_cell (base + (of_nat i * stride + of_nat j)) stride) (\<lambda>(r, c). W (i + r, j + c))"
  shows "wrote M m m' ({i ..< i + n} \<times> {j ..< j + k}) (dram_cell base stride) W"
proof (rule wrote_eqI [OF assms dram_part_image])
  fix p assume "p \<in> {i ..< i + n} \<times> {j ..< j + k}"
  then have "(fst p - i, snd p - j) \<in> {..<n} \<times> {..<k}" "(i + (fst p - i), j + (snd p - j)) = p" by auto
  then show "\<exists>q \<in> {..<n} \<times> {..<k}. dram_cell (base + (of_nat i * stride + of_nat j)) stride q = dram_cell base stride p \<and>
      (case q of (r, c) \<Rightarrow> W (i + r, j + c)) = W p"
    by (intro bexI [of _ "(fst p - i, snd p - j)"]) (simp_all add: dram_cell_part)
qed

section \<open>Operands and results in memory\<close>

text \<open>An operand of the loop in memory: it does not wrap around the address space and is not at zero.\<close>

definition operand_at :: "'m mmu \<Rightarrow> 'm \<Rightarrow> u64 \<Rightarrow> u64 \<Rightarrow> nat \<Rightarrow> nat \<Rightarrow> (nat \<Rightarrow> nat \<Rightarrow> u8) \<Rightarrow> bool" where
  "operand_at M m base stride rows cols X \<longleftrightarrow> base \<noteq> 0 \<and>
     (\<forall>i < rows. \<forall>j < cols. unat base + i * unat stride + j < 2 ^ 64 \<and>
        mmu_load M m (dram_cell base stride (i, j)) = Some (X i j))"

lemma operand_at_part:
  assumes "operand_at M m base stride rows cols X" "i + n \<le> rows" "j + k \<le> cols" "0 < n" "0 < k"
  shows "operand_at M m (base + (of_nat i * stride + of_nat j)) stride n k (\<lambda>r c. X (i + r) (j + c))"
proof -
  have bound: "unat base + x * unat stride + y < 2 ^ 64" if "x < rows" "y < cols" for x y
    using assms(1) that by (simp add: operand_at_def)
  have e: "base + (of_nat i * stride + of_nat j) = base + of_nat (i * unat stride + j)" by simp
  have u: "unat (base + (of_nat i * stride + of_nat j)) = unat base + (i * unat stride + j)"
    unfolding e using bound [of i j] assms(2-) by (subst unat_word_ariths, subst unat_of_nat) (simp add: take_bit_nat_eq_self add.assoc)
  then have "base + (of_nat i * stride + of_nat j) \<noteq> 0"
    using assms(1) by (metis add_is_0 operand_at_def unat_0 unat_eq_zero)
  moreover have "unat base + (i * unat stride + j) + r * unat stride + c < 2 ^ 64" if "r < n" "c < k" for r c
    using bound [of "i + r" "j + c"] that assms(2,3) by (simp add: algebra_simps)
  ultimately show ?thesis
    using assms(1-3) unfolding operand_at_def u by (simp add: dram_cell_part)
qed

text \<open>A result matrix: every element can be written and has an address of its own.\<close>

definition target_at :: "'m mmu \<Rightarrow> 'm \<Rightarrow> u64 \<Rightarrow> u64 \<Rightarrow> nat \<Rightarrow> nat \<Rightarrow> bool" where
  "target_at M m base stride rows cols \<longleftrightarrow> inj_on (dram_cell base stride) ({..<rows} \<times> {..<cols}) \<and>
     (\<forall>i < rows. \<forall>j < cols. writable M m (dram_cell base stride (i, j)))"

definition cells_apart :: "u64 \<Rightarrow> u64 \<Rightarrow> u64 \<Rightarrow> u64 \<Rightarrow> nat \<Rightarrow> nat \<Rightarrow> nat \<Rightarrow> nat \<Rightarrow> bool" where
  "cells_apart base stride base' stride' rows cols rows' cols' \<longleftrightarrow>
     dram_cell base stride ` ({..<rows} \<times> {..<cols}) \<inter> dram_cell base' stride' ` ({..<rows'} \<times> {..<cols'}) = {}"

lemma target_at_part:
  assumes "target_at M m base stride rows cols" "i + n \<le> rows" "j + k \<le> cols"
  shows "target_at M m (base + (of_nat i * stride + of_nat j)) stride n k"
proof -
  have inj: "inj_on (dram_cell base stride) ({..<rows} \<times> {..<cols})" using assms(1) by (simp add: target_at_def)
  have "inj_on (dram_cell (base + (of_nat i * stride + of_nat j)) stride) ({..<n} \<times> {..<k})"
  proof (rule inj_onI)
    fix p q assume pq: "p \<in> {..<n} \<times> {..<k}" "q \<in> {..<n} \<times> {..<k}"
      and "dram_cell (base + (of_nat i * stride + of_nat j)) stride p = dram_cell (base + (of_nat i * stride + of_nat j)) stride q"
    then have "dram_cell base stride (i + fst p, j + snd p) = dram_cell base stride (i + fst q, j + snd q)"
      by (metis dram_cell_part prod.collapse)
    then have "(i + fst p, j + snd p) = (i + fst q, j + snd q)"
      by (rule inj_onD [OF inj]) (use pq assms(2,3) in auto)
    then show "p = q" by (simp add: prod_eq_iff)
  qed
  then show ?thesis using assms by (simp add: target_at_def dram_cell_part)
qed

lemma cells_apart_part:
  assumes "cells_apart base stride base' stride' rows cols rows' cols'" "i + n \<le> rows" "j + k \<le> cols" "i' + n' \<le> rows'" "j' + k' \<le> cols'"
  shows "cells_apart (base + (of_nat i * stride + of_nat j)) stride (base' + (of_nat i' * stride' + of_nat j')) stride' n k n' k'"
proof -
  have "{i ..< i + n} \<times> {j ..< j + k} \<subseteq> {..<rows} \<times> {..<cols}" "{i' ..< i' + n'} \<times> {j' ..< j' + k'} \<subseteq> {..<rows'} \<times> {..<cols'}"
    using assms(2-) by auto
  then show ?thesis using assms(1) unfolding cells_apart_def dram_part_image by blast
qed

lemma target_at_wrote: "target_at M m base stride rows cols \<Longrightarrow> wrote M m m' S addr W \<Longrightarrow> target_at M m' base stride rows cols"
  by (simp add: target_at_def wrote_def)

lemma operand_at_wrote:
  assumes "operand_at M m base stride rows cols X" "wrote M m m' S (dram_cell base' stride') W" "S \<subseteq> {..<rows'} \<times> {..<cols'}"
    "cells_apart base' stride' base stride rows' cols' rows cols"
  shows "operand_at M m' base stride rows cols X"
proof -
  have "mmu_load M m' (dram_cell base stride (i, j)) = mmu_load M m (dram_cell base stride (i, j))" if "i < rows" "j < cols" for i j
    by (rule wrote_outside [OF assms(2)]) (use assms(3,4) that in \<open>unfold cells_apart_def, blast\<close>)
  then show ?thesis using assms(1) by (simp add: operand_at_def)
qed

section \<open>What the steps of a loop keep\<close>

definition cfg_of :: "'m sim \<Rightarrow> _" where
  "cfg_of s = (load_strides s, load_block_strides s, load_shrunks s, load_scales s, pixels_per_rows s,
     (store_stride s, pool_stride s, norm_stat_id (norm_st s), acc_act s, acc_out s),
     (mode s, a_transpose s, b_transpose s, a_stride s, c_stride s))"

definition cfg_kept :: "'m sim \<Rightarrow> 'm sim \<Rightarrow> bool" where
  "cfg_kept s t \<longleftrightarrow> wf_state t \<and> cfg_of t = cfg_of s"

lemma cfg_kept_refl: "wf_state s \<Longrightarrow> cfg_kept s s"
  by (simp add: cfg_kept_def)

lemma cfg_kept_trans: "cfg_kept s t \<Longrightarrow> cfg_kept t u \<Longrightarrow> cfg_kept s u"
  by (simp add: cfg_kept_def)

lemma cfg_keptD:
  assumes "cfg_kept s t"
  shows "wf_state t" "load_strides t = load_strides s" "load_block_strides t = load_block_strides s"
    "load_shrunks t = load_shrunks s" "load_scales t = load_scales s" "pixels_per_rows t = pixels_per_rows s"
    "store_stride t = store_stride s" "pool_stride t = pool_stride s"
    "norm_stat_id (norm_st t) = norm_stat_id (norm_st s)" "acc_act t = acc_act s" "acc_out t = acc_out s"
    "mode t = mode s" "a_transpose t = a_transpose s" "b_transpose t = b_transpose s"
    "a_stride t = a_stride s" "c_stride t = c_stride s"
  using assms by (simp_all add: cfg_kept_def cfg_of_def)

lemma acc_out_cong:
  assumes "acc_act t = acc_act s" "acc_shift t = acc_shift s" "norm_st t = norm_st s"
    "igelu_qb t = igelu_qb s" "igelu_qc t = igelu_qc s" "qln2 t = qln2 s" "qln2_inv t = qln2_inv s"
  shows "acc_out t = acc_out s"
  by (rule ext) (simp add: acc_out_def apply_pre_activation_acc_def apply_activation_acc_def assms)

lemma cfg_kept_updates:
  fixes s :: "'m sim"
  shows "wf_state (s\<lparr>spad := x\<rparr>) \<Longrightarrow> cfg_kept s (s\<lparr>spad := x\<rparr>)"
    "wf_state (s\<lparr>accumulator := y\<rparr>) \<Longrightarrow> cfg_kept s (s\<lparr>accumulator := y\<rparr>)"
    "wf_state ((preload a b s)\<lparr>pe_state := z, accumulator := y\<rparr>) \<Longrightarrow> cfg_kept s ((preload a b s)\<lparr>pe_state := z, accumulator := y\<rparr>)"
  unfolding cfg_kept_def cfg_of_def preload_def Let_def by (simp_all, (rule acc_out_cong, simp_all)+)

lemma cfg_kept_stored: "wf_state s \<Longrightarrow> stored s t \<Longrightarrow> cfg_kept s t"
proof -
  assume w: "wf_state s" and t: "stored s t"
  have "acc_out t = acc_out s" by (rule ext) (rule acc_out_stored [OF t])
  moreover obtain n m where "t = s\<lparr>norm_st := n, mem := m\<rparr>" "same_stats (norm_st s) n"
    using t by (auto simp: stored_def)
  ultimately show ?thesis
    using stored_fields(7) [OF t w] by (simp add: cfg_kept_def cfg_of_def same_stats_def)
qed

text \<open>The addresses of the accumulator from which the loops count.\<close>

lemma acc_start_addr:
  assumes "n < 0x4000000"
  shows "push_bit 31 1 + of_nat n = acc_addr False n" "push_bit 30 3 + of_nat n = acc_addr True n"
proof -
  have b: "bit (of_nat n :: u32) k \<Longrightarrow> k < 26" for k
    using assms by (intro word_less_bit [of "of_nat n :: u32" 26 k]) (simp_all add: word_less_nat_alt unat_of_nat take_bit_nat_eq_self)
  have z: "(push_bit k x :: u32) AND of_nat n = 0" if "26 \<le> k" for k x
    by (rule bit_word_eqI) (use b that in \<open>fastforce simp: bit_and_iff bit_push_bit_iff\<close>)
  have plus: "(push_bit k x :: u32) + of_nat n = push_bit k x OR of_nat n" if "26 \<le> k" for k x
    using word_plus_and_or [of "push_bit k x" "of_nat n :: u32"] z [OF that, of x] by simp
  have "(0xC0000000 :: u32) OR w = 0x80000000 OR (0x40000000 OR w)" for w
    by (simp add: or.assoc [symmetric])
  then show "push_bit 31 1 + of_nat n = acc_addr False n" "push_bit 30 3 + of_nat n = acc_addr True n"
    using plus [of 31 1] plus [of 30 3] by (simp_all add: acc_addr_def)
qed

section \<open>Moves of one block\<close>

lemma wf_state_at:
  assumes "wf_state s"
  shows "r < 16384 \<Longrightarrow> c < 16 \<Longrightarrow> mat_at (spad s) r c = Inr (spad s ! r ! c)"
    and "r < 1024 \<Longrightarrow> c < 16 \<Longrightarrow> mat_at (accumulator s) r c = Inr (accumulator s ! r ! c)"
  using assms by (simp_all add: mat_at_ok wf_state_in_mat)

lemma mvin_cell_narrow: "j < cols \<Longrightarrow> cols \<le> 16 \<Longrightarrow> mvin_cell base b (i, j) = (base + i, j)"
  by (simp add: mvin_cell_def)

lemma mvin_cell_narrow_image:
  assumes "cols \<le> 16"
  shows "(r, c) \<in> mvin_cell base b ` ({..<rows} \<times> {..<cols}) \<longleftrightarrow> base \<le> r \<and> r < base + rows \<and> c < cols"
proof -
  have "mvin_cell base b ` ({..<rows} \<times> {..<cols}) = (\<lambda>p. (base + fst p, snd p)) ` ({..<rows} \<times> {..<cols})"
    by (rule image_cong) (use assms in \<open>auto simp: mvin_cell_def\<close>)
  moreover have "(r, c) \<in> (\<lambda>p. (base + fst p, snd p)) ` ({..<rows} \<times> {..<cols})" if "base \<le> r" "r < base + rows" "c < cols"
    by (rule image_eqI [of _ _ "(r - base, c)"]) (use that in auto)
  ultimately show ?thesis by auto
qed

text \<open>A block of at most 16 columns moved into the accumulator, from bytes in memory.\<close>

lemma mvin_acc_tile:
  fixes s :: "'m sim" and addr :: u64
  assumes s: "wf_state s" "state_id < 3" "pixels_per_rows s ! state_id = 1" "load_shrunks s ! state_id"
    and shape: "rows \<le> 16" "cols \<le> 16" "base + rows \<le> 1024" "addr \<noteq> 0"
    and A: "\<And>i j. i < rows \<Longrightarrow> j < cols \<Longrightarrow> mmu_load M (mem s) (dram_cell addr (load_strides s ! state_id) (i, j)) = Some (X i j) \<and>
      mvin_scale (X i j) (load_scales s ! state_id) = Inr (P i j)"
  shows "succeeds (mvin M addr (block_operand (of_nat rows) (of_nat cols) (acc_addr accumulate base)) state_id s)
    (\<lambda>t. cfg_kept s t \<and> (\<exists>m. t = s\<lparr>accumulator := m\<rparr>) \<and>
      (\<forall>i < rows. \<forall>j < cols. accumulator t ! (base + i) ! j = (if accumulate then accumulator s ! (base + i) ! j else 0) + scast (P i j)) \<and>
      (\<forall>r < 1024. \<forall>c < 16. \<not> (base \<le> r \<and> r < base + rows \<and> c < cols) \<longrightarrow> accumulator t ! r ! c = accumulator s ! r ! c))"
proof -
  have small: "rows < 0x10000" "cols < 0x10000" "base < 0x4000000" using shape by simp_all
  note f = acc_addr_fields [OF small(3)]
  let ?b = "unat (load_block_strides s ! state_id)"
  have val: "mvin_acc_value M (mem s) (addr = 0) (load_shrunks s ! state_id) (load_scales s ! state_id)
      (addr + of_nat i * (load_strides s ! state_id) + of_nat j * (if load_shrunks s ! state_id then 1 else 4)) = Inr (scast (P i j))"
    if "i < rows" "j < cols" for i j
    using A [OF that] shape(4) s(4) by (simp add: mvin_acc_value_def read_elem load_byte_def dram_cell_def)
  have inj: "cols \<le> 16 \<or> rows \<le> ?b" using shape(2) by simp
  have fit: "fst (mvin_cell (unat (acc_addr accumulate base AND 0x1FFFFFFF)) ?b (i, j)) < 1024" if "i < rows" "j < cols" for i j
    using that shape by (simp add: f mvin_cell_narrow)
  from mvin_acc_block [OF s(1-3) small(1,2) f(1) inj fit val]
  obtain t m where t: "mvin M addr (block_operand (of_nat rows) (of_nat cols) (acc_addr accumulate base)) state_id s = Inr t"
      "wf_state t" "t = s\<lparr>accumulator := m\<rparr>"
    and new: "\<And>i j. i < rows \<Longrightarrow> j < cols \<Longrightarrow> (let r = fst (mvin_cell base ?b (i, j)); c = snd (mvin_cell base ?b (i, j)) in
        mat_at (accumulator t) r c = Inr ((if accumulate then accumulator s ! r ! c else 0) + scast (P i j)))"
    and old: "\<And>k. k \<notin> mvin_cell base ?b ` ({..<rows} \<times> {..<cols}) \<Longrightarrow>
        mat_at (accumulator t) (fst k) (snd k) = mat_at (accumulator s) (fst k) (snd k)"
    unfolding succeeds_iff f by blast
  have "cfg_kept s t" using t(2) unfolding t(3) by (rule cfg_kept_updates(2))
  moreover have "accumulator t ! (base + i) ! j = (if accumulate then accumulator s ! (base + i) ! j else 0) + scast (P i j)"
    if "i < rows" "j < cols" for i j
    using new [OF that] that shape(2) by (simp add: mvin_cell_narrow Let_def mat_at_Inr_iff)
  moreover have "accumulator t ! r ! c = accumulator s ! r ! c" if "r < 1024" "c < 16" "\<not> (base \<le> r \<and> r < base + rows \<and> c < cols)" for r c
    using old [of "(r, c)"] that mvin_cell_narrow_image [OF shape(2)] wf_state_at(2) [OF s(1)] wf_state_at(2) [OF t(2)] by simp
  ultimately show ?thesis using t(1,3) by auto
qed

text \<open>The same into the scratchpad.\<close>

lemma mvin_spad_tile:
  fixes s :: "'m sim" and addr :: u64
  assumes s: "wf_state s" "state_id < 3" "pixels_per_rows s ! state_id = 1"
    and shape: "rows \<le> 16" "cols \<le> 16" "base + rows \<le> 16384" "addr \<noteq> 0"
    and A: "\<And>i j. i < rows \<Longrightarrow> j < cols \<Longrightarrow> mmu_load M (mem s) (dram_cell addr (load_strides s ! state_id) (i, j)) = Some (X i j) \<and>
      mvin_scale (X i j) (load_scales s ! state_id) = Inr (P i j)"
  shows "succeeds (mvin M addr (block_operand (of_nat rows) (of_nat cols) (of_nat base)) state_id s)
    (\<lambda>t. cfg_kept s t \<and> (\<exists>m. t = s\<lparr>spad := m\<rparr>) \<and>
      (\<forall>i < rows. \<forall>j < cols. spad t ! (base + i) ! j = P i j) \<and>
      (\<forall>r < 16384. \<forall>c < 16. \<not> (base \<le> r \<and> r < base + rows \<and> c < cols) \<longrightarrow> spad t ! r ! c = spad s ! r ! c))"
proof -
  have small: "rows < 0x10000" "cols < 0x10000" "base < 0x4000000" using shape by simp_all
  note f = local_row_fields [OF small(3)]
  let ?b = "unat (load_block_strides s ! state_id)"
  have val: "mvin_spad_value M (mem s) (addr = 0) (load_scales s ! state_id)
      (addr + of_nat i * (load_strides s ! state_id) + of_nat j) = Inr (P i j)" if "i < rows" "j < cols" for i j
    using A [OF that] shape(4) by (simp add: mvin_spad_value_def read_elem load_byte_def dram_cell_def)
  have inj: "cols \<le> 16 \<or> rows \<le> ?b" using shape(2) by simp
  have fit: "fst (mvin_cell (unat ((of_nat base :: u32) AND 0x1FFFFFFF)) ?b (i, j)) < 16384" if "i < rows" "j < cols" for i j
    using that shape by (simp add: f mvin_cell_narrow)
  from mvin_spad_block [OF s(1-3) small(1,2) f(1) inj fit val]
  obtain t m where t: "mvin M addr (block_operand (of_nat rows) (of_nat cols) (of_nat base)) state_id s = Inr t"
      "wf_state t" "t = s\<lparr>spad := m\<rparr>"
    and new: "\<And>i j. i < rows \<Longrightarrow> j < cols \<Longrightarrow> mat_at (spad t) (fst (mvin_cell base ?b (i, j))) (snd (mvin_cell base ?b (i, j))) = Inr (P i j)"
    and old: "\<And>k. k \<notin> mvin_cell base ?b ` ({..<rows} \<times> {..<cols}) \<Longrightarrow> mat_at (spad t) (fst k) (snd k) = mat_at (spad s) (fst k) (snd k)"
    unfolding succeeds_iff f by blast
  have "cfg_kept s t" using t(2) unfolding t(3) by (rule cfg_kept_updates(1))
  moreover have "spad t ! (base + i) ! j = P i j" if "i < rows" "j < cols" for i j
    using new [OF that] that shape(2) by (simp add: mvin_cell_narrow mat_at_Inr_iff)
  moreover have "spad t ! r ! c = spad s ! r ! c" if "r < 16384" "c < 16" "\<not> (base \<le> r \<and> r < base + rows \<and> c < cols)" for r c
    using old [of "(r, c)"] that mvin_cell_narrow_image [OF shape(2)] wf_state_at(1) [OF s(1)] wf_state_at(1) [OF t(2)] by simp
  ultimately show ?thesis using t(1,3) by auto
qed

text \<open>A block of at most 16 columns moved out of the accumulator.\<close>

lemma mvout_acc_tile:
  fixes s :: "'m sim" and addr :: u64
  assumes M: "mmu_ok M" and s: "wf_state s" "unat (norm_stat_id (norm_st s)) < 4" "pool_stride s = 0"
    and shape: "rows \<le> 16" "cols \<le> 16" "base + rows \<le> 1024"
    and C: "\<And>i j. i < rows \<Longrightarrow> j < cols \<Longrightarrow> writable M (mem s) (dram_cell addr (store_stride s) (i, j)) \<and>
      acc_out s (accumulator s ! (base + i) ! j) = Inr (W i j)"
    and inj: "inj_on (dram_cell addr (store_stride s)) ({..<rows} \<times> {..<cols})"
  shows "succeeds (mvout M addr (block_operand (of_nat rows) (of_nat cols) (acc_addr b base)) s)
    (\<lambda>t. cfg_kept s t \<and> stored s t \<and> wrote M (mem s) (mem t) ({..<rows} \<times> {..<cols}) (dram_cell addr (store_stride s)) (\<lambda>(i, j). W i j))"
proof -
  have small: "rows < 0x10000" "cols < 0x10000" "base < 0x4000000" using shape by simp_all
  note f = acc_addr_fields [OF small(3)]
  have cell: "mvout_cell base (i, j) = (base + i, j)" if "j < cols" for i j
    using that shape(2) by (simp add: mvout_cell_def)
  have "succeeds (mvout M addr (block_operand (of_nat rows) (of_nat cols) (acc_addr b base)) s)
    (\<lambda>t. stored s t \<and> writable M (mem t) = writable M (mem s) \<and>
      (\<forall>i < rows. \<forall>j < cols. mmu_load M (mem t) (dram_cell addr (store_stride s) (i, j)) = Some (W i j)) \<and>
      (\<forall>p. p \<notin> dram_cell addr (store_stride s) ` ({..<rows} \<times> {..<cols}) \<longrightarrow> mmu_load M (mem t) p = mmu_load M (mem s) p))"
    by (rule mvout_block [OF M s small(1,2) f(4)])
      (use C shape inj cell wf_state_at(2) [OF s(1)] in \<open>simp_all add: f\<close>)
  then show ?thesis
    by (rule succeeds_mono) (use cfg_kept_stored [OF s(1)] in \<open>auto simp: wrote_def\<close>)
qed

section \<open>Matrices in plain memory\<close>

lemma dram_cell_unat:
  assumes "unat base + i * unat stride + j < 2 ^ 64"
  shows "unat (dram_cell base stride (i, j)) = unat base + i * unat stride + j"
proof -
  have "dram_cell base stride (i, j) = of_nat (unat base + i * unat stride + j)" by (simp add: dram_cell_def)
  moreover have "unat (of_nat n :: u64) = n" if "n < 2 ^ 64" for n using that by (simp add: unat_of_nat take_bit_nat_eq_self)
  ultimately show ?thesis using assms by presburger
qed

lemma cell_below: "i < rows \<Longrightarrow> j < cols \<Longrightarrow> unat base + i * unat stride + j < unat base + rows * unat stride + (cols :: nat)"
proof -
  assume "i < rows" "j < cols"
  then have "i * unat stride \<le> rows * unat stride" by simp
  then show ?thesis using \<open>j < cols\<close> by linarith
qed

text \<open>In plain memory an operand that ends below the address limit is present, and two matrices one of which
  ends before the other begins do not overlap.\<close>

lemma operand_at_ram:
  assumes "base \<noteq> 0" "unat base + rows * unat stride + cols \<le> 2 ^ 64"
  shows "operand_at ram m base stride rows cols (\<lambda>i j. m (dram_cell base stride (i, j)))"
  unfolding operand_at_def using assms cell_below [of _ rows _ cols base stride] by (fastforce simp: ram_def)

lemma target_at_ram:
  assumes "cols \<le> unat stride" "rows * unat stride + cols \<le> 2 ^ 64"
  shows "target_at ram m base stride rows cols"
  unfolding target_at_def using dram_cell_inj [of cols stride rows base] assms by simp

lemma cells_apart_below:
  assumes "unat base + rows * unat stride + cols \<le> 2 ^ 64" "unat base' + rows' * unat stride' + cols' \<le> unat base"
  shows "cells_apart base stride base' stride' rows cols rows' cols'"
proof -
  have "dram_cell base stride (i, j) \<noteq> dram_cell base' stride' (i', j')" if "i < rows" "j < cols" "i' < rows'" "j' < cols'" for i j i' j'
  proof -
    have "unat base \<le> unat (dram_cell base stride (i, j))"
      using dram_cell_unat [of base i stride j] cell_below [OF that(1,2), of base stride] assms(1) by simp
    moreover have "unat (dram_cell base' stride' (i', j')) < unat base"
      using dram_cell_unat [of base' i' stride' j'] cell_below [OF that(3,4), of base' stride'] assms(2) unsigned_less [of base, where 'a = nat] by simp
    ultimately show ?thesis by auto
  qed
  then show ?thesis unfolding cells_apart_def by auto
qed

end
