(* ===== verification/Gemmini_Resadd_Correct.thy ===== *)
theory Gemmini_Resadd_Correct
  imports Gemmini_Blocks
begin

text \<open>
  The residual addition of \<open>loop_ws\<close>: two matrices are read block by block, scaled, added in the
  accumulator, scaled again and written.
\<close>

section \<open>One block\<close>

lemma resadd_block:
  fixes s :: "'m sim" and pa pb pc :: u64
  assumes M: "mmu_ok M" and s: "wf_state s" "unat (norm_stat_id (norm_st s)) < 4" "pool_stride s = 0"
    and ld: "pixels_per_rows s ! 0 = 1" "pixels_per_rows s ! 1 = 1" "load_shrunks s ! 0" "load_shrunks s ! 1"
    and shape: "rows \<le> 16" "cols \<le> 16" "base + rows \<le> 1024" "pa \<noteq> 0" "pb \<noteq> 0"
    and A: "\<And>i j. i < rows \<Longrightarrow> j < cols \<Longrightarrow> mmu_load M (mem s) (dram_cell pa (load_strides s ! 0) (i, j)) = Some (X i j) \<and>
      mvin_scale (X i j) (load_scales s ! 0) = Inr (P i j)"
    and B: "\<And>i j. i < rows \<Longrightarrow> j < cols \<Longrightarrow> mmu_load M (mem s) (dram_cell pb (load_strides s ! 1) (i, j)) = Some (Y i j) \<and>
      mvin_scale (Y i j) (load_scales s ! 1) = Inr (Q i j)"
    and C: "\<And>i j. i < rows \<Longrightarrow> j < cols \<Longrightarrow> writable M (mem s) (dram_cell pc (store_stride s) (i, j)) \<and>
      acc_out s (scast (P i j) + scast (Q i j)) = Inr (W i j)"
    and inj: "inj_on (dram_cell pc (store_stride s)) ({..<rows} \<times> {..<cols})"
  shows "succeeds (bindE (mvin M pa (block_operand (of_nat rows) (of_nat cols) (acc_addr False base)) 0 s) (\<lambda>s.
      bindE (mvin M pb (block_operand (of_nat rows) (of_nat cols) (acc_addr True base)) 1 s)
      (mvout M pc (block_operand (of_nat rows) (of_nat cols) (acc_addr True base)))))
    (\<lambda>t. cfg_kept s t \<and> wrote M (mem s) (mem t) ({..<rows} \<times> {..<cols}) (dram_cell pc (store_stride s)) (\<lambda>(i, j). W i j))"
proof -
  obtain t1 where t1: "mvin M pa (block_operand (of_nat rows) (of_nat cols) (acc_addr False base)) 0 s = Inr t1" "cfg_kept s t1"
      "\<exists>m. t1 = s\<lparr>accumulator := m\<rparr>" "\<forall>i < rows. \<forall>j < cols. accumulator t1 ! (base + i) ! j = 0 + scast (P i j)"
    using mvin_acc_tile [OF s(1) _ ld(1,3) shape(1-4), of M X P False] A unfolding succeeds_iff if_False by auto
  note k1 = cfg_keptD [OF t1(2)]
  have m1: "mem t1 = mem s" using t1(3) by auto
  have p1: "pixels_per_rows t1 ! 1 = 1" "load_shrunks t1 ! 1" using ld(2,4) k1 by simp_all
  obtain t2 where t2: "mvin M pb (block_operand (of_nat rows) (of_nat cols) (acc_addr True base)) 1 t1 = Inr t2" "cfg_kept t1 t2"
      "\<exists>m. t2 = t1\<lparr>accumulator := m\<rparr>"
      "\<forall>i < rows. \<forall>j < cols. accumulator t2 ! (base + i) ! j = accumulator t1 ! (base + i) ! j + scast (Q i j)"
    using mvin_acc_tile [OF k1(1) _ p1 shape(1-3,5), of M Y Q True] B unfolding k1 m1 succeeds_iff if_True by auto
  note k2 = cfg_keptD [OF t2(2)]
  have m2: "mem t2 = mem s" using t2(3) m1 by auto
  have sum: "accumulator t2 ! (base + i) ! j = scast (P i j) + scast (Q i j)" if "i < rows" "j < cols" for i j
    using t1(4) t2(4) that by simp
  have "succeeds (mvout M pc (block_operand (of_nat rows) (of_nat cols) (acc_addr True base)) t2)
    (\<lambda>t. cfg_kept t2 t \<and> stored t2 t \<and> wrote M (mem t2) (mem t) ({..<rows} \<times> {..<cols}) (dram_cell pc (store_stride t2)) (\<lambda>(i, j). W i j))"
    by (rule mvout_acc_tile [OF M]) (use k1 k2 m2 s shape C inj sum in auto)
  then show ?thesis
    using t1(1) t2(1) cfg_kept_trans [OF cfg_kept_trans [OF t1(2) t2(2)]] m2 k1 k2 by (auto elim!: succeeds_mono)
qed

section \<open>The whole matrix\<close>

text \<open>What the addition makes of two elements.\<close>

definition resadd_out :: "'m sim \<Rightarrow> elem_t \<Rightarrow> elem_t \<Rightarrow> elem_t res" where
  "resadd_out s x y = bindE (mvin_scale x (load_scales s ! 0)) (\<lambda>p. bindE (mvin_scale y (load_scales s ! 1)) (\<lambda>q.
     acc_out s (scast p + scast q)))"

lemma resadd_out_parts:
  "resadd_out s x y = Inr w \<Longrightarrow> mvin_scale x (load_scales s ! 0) = Inr (projr (mvin_scale x (load_scales s ! 0))) \<and>
     mvin_scale y (load_scales s ! 1) = Inr (projr (mvin_scale y (load_scales s ! 1))) \<and>
     acc_out s (scast (projr (mvin_scale x (load_scales s ! 0))) + scast (projr (mvin_scale y (load_scales s ! 1)))) = Inr w"
  by (auto simp: resadd_out_def bindE_Inr_iff)

text \<open>
  What the loop relies on: the configuration the driver makes, operands that are present in
  memory, a result matrix that can be written, whose elements have addresses of their own and
  that does not overlap the operands, and elements whose scaling is defined.
\<close>

definition resadd_setup :: "'m mmu \<Rightarrow> loop_ws_ctl \<Rightarrow> 'm sim \<Rightarrow> nat \<Rightarrow> nat \<Rightarrow> (nat \<Rightarrow> nat \<Rightarrow> u8) \<Rightarrow> (nat \<Rightarrow> nat \<Rightarrow> u8) \<Rightarrow> (nat \<times> nat \<Rightarrow> u8) \<Rightarrow> bool" where
  "resadd_setup M c s rows cols X Y W \<longleftrightarrow>
     (let r = loop_ws_st s; pI = unat (loop_ws_pad_I r); pJ = unat (loop_ws_pad_J r) in
      mmu_ok M \<and> wf_state s \<and> unat (norm_stat_id (norm_st s)) < 4 \<and> pool_stride s = 0 \<and>
      (\<forall>id < 2. pixels_per_rows s ! id = 1 \<and> load_shrunks s ! id) \<and>
      ws_is_resadd c \<and> \<not> ws_full_C c \<and> pI < 16 \<and> pJ < 16 \<and>
      rows = 16 * unat (loop_ws_I r) - pI \<and> cols = 16 * unat (loop_ws_J r) - pJ \<and>
      unat (loop_ws_I r) * unat (loop_ws_J r) * 16 \<le> 1024 \<and>
      load_strides s ! 0 = loop_ws_A_stride r \<and> load_strides s ! 1 = loop_ws_B_stride r \<and> store_stride s = loop_ws_C_stride r \<and>
      operand_at M (mem s) (loop_ws_A r) (loop_ws_A_stride r) rows cols X \<and>
      operand_at M (mem s) (loop_ws_B r) (loop_ws_B_stride r) rows cols Y \<and>
      loop_ws_C r \<noteq> 0 \<and> target_at M (mem s) (loop_ws_C r) (loop_ws_C_stride r) rows cols \<and>
      cells_apart (loop_ws_C r) (loop_ws_C_stride r) (loop_ws_A r) (loop_ws_A_stride r) rows cols rows cols \<and>
      cells_apart (loop_ws_C r) (loop_ws_C_stride r) (loop_ws_B r) (loop_ws_B_stride r) rows cols rows cols \<and>
      (\<forall>i < rows. \<forall>j < cols. resadd_out s (X i j) (Y i j) = Inr (W (i, j))))"

lemma resadd_block_step:
  fixes s :: "'m sim"
  defines "r \<equiv> loop_ws_st s"
  defines "I \<equiv> unat (loop_ws_I r)" and "J \<equiv> unat (loop_ws_J r)" and "pI \<equiv> unat (loop_ws_pad_I r)" and "pJ \<equiv> unat (loop_ws_pad_J r)"
  defines "addr \<equiv> dram_cell (loop_ws_C r) (loop_ws_C_stride r)"
  assumes su: "resadd_setup M c s rows cols X Y W"
    and ij: "i < I" "j < J" and S: "S \<subseteq> {..<rows} \<times> {..<cols}" and t: "cfg_kept s t" "wrote M (mem s) (mem t) S addr W"
  shows "succeeds (loop_ws_resadd_block M c r i j t) (\<lambda>u. cfg_kept s u \<and>
    wrote M (mem s) (mem u) (S \<union> block_set I pI i \<times> block_set J pJ j) addr W)"
proof -
  note k = cfg_keptD [OF t(1)]
  note st = su [unfolded resadd_setup_def Let_def, folded r_def, folded I_def J_def pI_def pJ_def]
  have le: "pI \<le> 16" "pJ \<le> 16" and dims: "rows = 16 * I - pI" "cols = 16 * J - pJ" using st by simp_all
  let ?m = "block_len I pI i" and ?n = "block_len J pJ j" and ?b = "(i * J + j) * 16"
  have b: "?b + 16 \<le> 1024" using tile_index [OF ij] st by simp
  then have small: "?b < 0x4000000" by simp
  have sub: "16 * i + ?m \<le> rows" "16 * j + ?n \<le> cols" "0 < ?m" "0 < ?n"
    using block_end ij le st by (auto simp: dims block_len_def)
  let ?at = "\<lambda>base stride. base + (of_nat (16 * i) * stride + of_nat (16 * j))"
  have ops: "operand_at M (mem t) (?at (loop_ws_A r) (loop_ws_A_stride r)) (loop_ws_A_stride r) ?m ?n (\<lambda>a b. X (16 * i + a) (16 * j + b))"
      "operand_at M (mem t) (?at (loop_ws_B r) (loop_ws_B_stride r)) (loop_ws_B_stride r) ?m ?n (\<lambda>a b. Y (16 * i + a) (16 * j + b))"
    by (rule operand_at_part [OF operand_at_wrote [OF _ t(2) [unfolded addr_def] S] sub], use st in blast, use st in blast)+
  have tgt: "target_at M (mem t) (?at (loop_ws_C r) (loop_ws_C_stride r)) (loop_ws_C_stride r) ?m ?n"
    by (rule target_at_part [OF target_at_wrote [OF _ t(2)] sub(1,2)]) (use st in blast)
  have v: "resadd_out t (X (16 * i + a) (16 * j + b)) (Y (16 * i + a) (16 * j + b)) = Inr (W (16 * i + a, 16 * j + b))"
    if "a < ?m" "b < ?n" for a b
    using st that sub(1,2) by (simp add: resadd_out_def k)
  have start: "loop_ws_A_start c + of_nat ((i * J + j) * DIM) = acc_addr False ?b"
      "loop_ws_B_start c r + of_nat ((i * J + j) * DIM) = acc_addr True ?b" "loop_ws_C_start c + of_nat ((i * J + j) * DIM) = acc_addr True ?b"
    using st acc_start_addr [OF small] by (simp_all add: loop_ws_A_start_def loop_ws_B_start_def loop_ws_C_start_def ADDR_LEN_def DIM_def del: of_nat_mult)
  have body: "loop_ws_resadd_block M c r i j t =
      bindE (mvin M (?at (loop_ws_A r) (loop_ws_A_stride r)) (block_operand (of_nat ?m) (of_nat ?n) (acc_addr False ?b)) 0 t) (\<lambda>s.
      bindE (mvin M (?at (loop_ws_B r) (loop_ws_B_stride r)) (block_operand (of_nat ?m) (of_nat ?n) (acc_addr True ?b)) 1 s)
      (mvout M (?at (loop_ws_C r) (loop_ws_C_stride r)) (block_operand (of_nat ?m) (of_nat ?n) (acc_addr True ?b))))"
    unfolding loop_ws_resadd_block_def Let_def I_def [symmetric] J_def [symmetric] start block_offset [symmetric]
      tile_len_block [OF le(1) [unfolded pI_def]] tile_len_block [OF le(2) [unfolded pJ_def]] pI_def [symmetric] pJ_def [symmetric]
    using st by (simp add: sizeof_C_def)
  have "succeeds (loop_ws_resadd_block M c r i j t) (\<lambda>u. cfg_kept t u \<and> wrote M (mem t) (mem u) ({..<?m} \<times> {..<?n})
      (dram_cell (?at (loop_ws_C r) (loop_ws_C_stride r)) (store_stride t)) (\<lambda>(a, b). W (16 * i + a, 16 * j + b)))"
    unfolding body
    by (rule resadd_block [where P = "\<lambda>a b. projr (mvin_scale (X (16 * i + a) (16 * j + b)) (load_scales t ! 0))"
      and Q = "\<lambda>a b. projr (mvin_scale (Y (16 * i + a) (16 * j + b)) (load_scales t ! 1))"])
      (use k st b ops tgt v resadd_out_parts [OF v] in \<open>auto simp: operand_at_def target_at_def block_len_def\<close>)
  then obtain u where u: "loop_ws_resadd_block M c r i j t = Inr u" "cfg_kept t u"
      "wrote M (mem t) (mem u) ({..<?m} \<times> {..<?n})
      (dram_cell (?at (loop_ws_C r) (loop_ws_C_stride r)) (loop_ws_C_stride r)) (\<lambda>(a, b). W (16 * i + a, 16 * j + b))"
    using st unfolding succeeds_iff k by auto
  have "wrote M (mem s) (mem u) (S \<union> block_set I pI i \<times> block_set J pJ j) addr W"
    unfolding block_set_def using st S sub
    by (intro wrote_Un [OF t(2) wrote_part [OF u(3), folded addr_def], of "{..<rows} \<times> {..<cols}"]) (auto simp: target_at_def addr_def)
  then show ?thesis using u(1) cfg_kept_trans [OF t(1) u(2)] by simp
qed

lemma loop_ws_resadd_adds:
  fixes s :: "'m sim"
  assumes su: "resadd_setup M c s rows cols X Y W"
  shows "succeeds (loop_ws_resadd M c s) (\<lambda>t. cfg_kept s t \<and>
    wrote M (mem s) (mem t) ({..<rows} \<times> {..<cols}) (dram_cell (loop_ws_C (loop_ws_st s)) (loop_ws_C_stride (loop_ws_st s))) W)"
proof -
  define r where "r = loop_ws_st s"
  define I J pI pJ where "I = unat (loop_ws_I r)" "J = unat (loop_ws_J r)" "pI = unat (loop_ws_pad_I r)" "pJ = unat (loop_ws_pad_J r)"
  let ?U = "{..<rows} \<times> {..<cols}" and ?xs = "pairs [0..<I] (\<lambda>_. [0..<J])"
  let ?P = "\<lambda>S t. S \<subseteq> ?U \<and> cfg_kept s t \<and> wrote M (mem s) (mem t) S (dram_cell (loop_ws_C r) (loop_ws_C_stride r)) W"
  let ?T = "\<lambda>x. block_set I pI (fst x) \<times> block_set J pJ (snd x)"
  have wf: "wf_state s" and le: "pI \<le> 16" "pJ \<le> 16" and dims: "rows = 16 * I - pI" "cols = 16 * J - pJ"
    using su by (simp_all add: resadd_setup_def Let_def I_J_pI_pJ_def r_def)
  have "succeeds (foldE (\<lambda>(i, j). loop_ws_resadd_block M c r i j) ?xs s) (?P ({} \<union> (\<Union>x \<in> set ?xs. ?T x)))"
  proof (rule foldE_gather)
    fix x S t assume "x \<in> set ?xs" and t: "?P S t"
    then have ij: "fst x < I" "snd x < J" by (auto simp: set_pairs)
    have "?T x \<subseteq> ?U" unfolding dims by (intro Sigma_mono block_in ij le)
    then show "succeeds ((\<lambda>(i, j). loop_ws_resadd_block M c r i j) x t) (?P (S \<union> ?T x))"
      using resadd_block_step [OF su, folded r_def, folded I_J_pI_pJ_def, OF ij, of S t] t
      unfolding succeeds_iff split_def by blast
  qed (use cfg_kept_refl [OF wf] in simp)
  moreover have "(\<Union>x \<in> set ?xs. ?T x) = ?U"
    unfolding dims blocks_all [OF le(1), symmetric] blocks_all [OF le(2), symmetric] blocks_upto_def set_pairs by force
  ultimately show ?thesis
    unfolding succeeds_iff by (auto simp: loop_ws_resadd_def Let_def r_def I_J_pI_pJ_def forE_nested)
qed

end
