(* ===== verification/Driver_Resadd_Correct.thy ===== *)
theory Driver_Resadd_Correct
  imports Driver_Tiling_Correct Driver_Resadd Gemmini_Resadd_Correct
begin

text \<open>
  The residual addition of the driver: the tiles it chooses fit the accumulator, and the
  accelerator leaves the same bytes in memory as the function on the processor.
\<close>

section \<open>The choice of the tiles\<close>

lemma resadd_acc_rows_nat:
  assumes "unat I < 2 ^ 30" "unat J < 2 ^ 30"
  shows "resadd_acc_rows I J = of_nat (blocks_of I * 16 * blocks_of J)" "blocks_of I * 16 * blocks_of J < 2 ^ 64"
proof -
  have c: "x div of_nat DIM + of_bool (x mod of_nat DIM \<noteq> 0) = (of_nat (blocks_of x) :: u64)" if "unat x < 2 ^ 30" for x :: u64
  proof -
    have x: "x = of_nat (unat x)" by simp
    have "x div of_nat DIM = of_nat (unat x div 16)" "x mod of_nat DIM = of_nat (unat x mod 16)"
      using div_of_small [of "unat x" 16] that by (simp_all add: DIM_def)
    moreover have "(of_nat (unat x mod 16) :: u64) = 0 \<longleftrightarrow> unat x mod 16 = 0"
      using unat_of_small [of "unat x mod 16"] unat_eq_zero [of "of_nat (unat x mod 16) :: u64"]
      by (simp add: less_trans [OF mod_less_divisor [of 16 "unat x"]])
    ultimately have "x div of_nat DIM + of_bool (x mod of_nat DIM \<noteq> 0) = of_nat (unat x div 16 + of_bool (unat x mod 16 \<noteq> 0))" by simp
    then show ?thesis unfolding ceil16 blocks_of_def .
  qed
  have b: "blocks_of x \<le> 2 ^ 26" if "unat x < 2 ^ 30" for x using that by (simp add: blocks_of_def)
  show "resadd_acc_rows I J = of_nat (blocks_of I * 16 * blocks_of J)"
    unfolding resadd_acc_rows_def c [OF assms(1)] c [OF assms(2)] by (simp add: DIM_def)
  have "blocks_of I * 16 * blocks_of J \<le> 2 ^ 26 * 16 * 2 ^ 26" by (intro mult_le_mono b assms order_refl)
  then show "blocks_of I * 16 * blocks_of J < 2 ^ 64" by simp
qed

definition resadd_tile_ok :: "u64 \<Rightarrow> u64 \<Rightarrow> u64 \<times> u64 \<Rightarrow> bool" where
  "resadd_tile_ok I J t \<longleftrightarrow> 0 < unat (fst t) \<and> unat (fst t) \<le> unat I \<and> 0 < unat (snd t) \<and> unat (snd t) \<le> unat J \<and>
     blocks_of (fst t) * blocks_of (snd t) * 16 \<le> 512"

lemma resadd_shrink_ok:
  assumes "0 < unat I" "unat I < 2 ^ 30" "0 < unat J" "unat J < 2 ^ 30"
  shows "resadd_tile_ok I J (resadd_shrink I J)"
  using assms
proof (induction I J rule: resadd_shrink.induct)
  case (1 I J)
  note rows = resadd_acc_rows_nat [OF 1(4,6)]
  have big: "of_nat (ACC_ROWS div 2) < resadd_acc_rows I J \<longleftrightarrow> 512 < blocks_of I * 16 * blocks_of J"
    unfolding rows(1) using rows(2) by (simp add: word_less_nat_alt unat_of_small ACC_ROWS_def del: of_nat_mult)
  show ?case
  proof (cases "512 < blocks_of I * 16 * blocks_of J")
    case False
    then have "resadd_shrink I J = (I, J)" by (subst resadd_shrink.simps) (simp add: big)
    then show ?thesis using 1(3-6) False by (simp add: resadd_tile_ok_def mult.commute mult.left_commute)
  next
    case True
    show ?thesis
    proof (cases "J \<le> I \<or> J \<le> of_nat DIM")
      case c: True
      have e: "resadd_shrink I J = resadd_shrink (I div 2) J" using True c by (subst resadd_shrink.simps) (simp add: big)
      have "1 < unat I"
      proof (rule ccontr)
        assume "\<not> 1 < unat I"
        then have "unat I = 1" using 1(3) by simp
        moreover have "unat J \<le> 16" using c \<open>unat I = 1\<close> by (auto simp: word_le_nat_alt DIM_def)
        ultimately show False using True by (simp add: blocks_of_def)
      qed
      then have "0 < unat (I div 2)" "unat (I div 2) \<le> unat I" by (simp_all add: unat_div)
      then show ?thesis using 1(1) [unfolded big, OF True c] 1(4-6) unfolding e resadd_tile_ok_def by force
    next
      case c: False
      have e: "resadd_shrink I J = resadd_shrink I (J - of_nat DIM)" using True c by (subst resadd_shrink.simps) (simp add: big)
      have "16 < unat J" using c by (simp add: word_le_nat_alt DIM_def)
      then have "unat (J - of_nat DIM) = unat J - 16" by (simp add: DIM_def unat_sub word_le_nat_alt)
      then show ?thesis using 1(2) [unfolded big, OF True c] 1(3-6) \<open>16 < unat J\<close> unfolding e resadd_tile_ok_def by force
    qed
  qed
qed

section \<open>The configuration\<close>

definition resadd_configured :: "resadd_args \<Rightarrow> 'm sim \<Rightarrow> bool" where
  "resadd_configured a s \<longleftrightarrow> wf_state s \<and> unat (norm_stat_id (norm_st s)) < 4 \<and> pool_stride s = 0 \<and> store_stride s = ra_stride a \<and>
     (\<forall>id < 2. load_strides s ! id = ra_stride a \<and> load_shrunks s ! id \<and> pixels_per_rows s ! id = 1) \<and>
     load_scales s ! 0 = ra_A_scale a \<and> load_scales s ! 1 = ra_B_scale a \<and>
     acc_out s = (\<lambda>v. bindE (acc_scale v (ra_C_scale a)) (\<lambda>e. Inr (apply_activation e (if ra_relu a then RELU else NONE))))"

lemma resadd_config_arrives:
  fixes s :: "'m sim"
  assumes s: "wf_state s" "unat (norm_stat_id (norm_st s)) < 4" "acc_act s \<noteq> SOFTMAX" and stride: "fits 32 (ra_stride a)"
  shows "\<exists>t. run_ops M (resadd_config a) s = Inr t \<and> mem t = mem s \<and> resadd_configured a t"
proof -
  let ?act = "of_int (if ra_relu a then ACT_RELU else ACT_NO_ACTIVATION) :: u64"
  have act: "fits 2 ?act" "act_of_bits (acc_act s) ?act = Inr (if ra_relu a then RELU else NONE)"
    using s(3) by (cases "acc_act s"; auto simp: act_of_bits_def ACT_RELU_def ACT_NO_ACTIVATION_def intro!: fitsI)+
  have z: "fits n 0" "fits 16 1" "fits 16 16" "fits 8 1" for n by (simp_all add: fitsI fits_def)
  have str: "(ucast (ucast (ra_stride a) :: u32) :: u64) = ra_stride a" by (rule narrow_back [OF stride]) simp
  have len: "length (load_strides s) = 3" "length (load_block_strides s) = 3" "length (load_shrunks s) = 3"
    "length (load_scales s) = 3" "length (pixels_per_rows s) = 3" "wf_norm (norm_st s)" "wf_counters (counter_st s)"
    using s(1) by (simp_all add: wf_state_def wf_arrays_def LOAD_STATES_def)
  note st = config_st_arrives [OF act z(1) z(1) z(1) z(1) z(1) z(1) z(1) z(1) z(1), of M "ucast (ra_stride a)" "ra_C_scale a"]
  obtain s1 where s1: "run_ops M (gemmini_extended_config_st (ucast (ucast (ra_stride a) :: u32)) ?act (ra_C_scale a)) s = Inr s1"
    "s1 = s\<lparr>store_stride := ra_stride a, acc_act := (if ra_relu a then RELU else NONE), acc_shift := ra_C_scale a, pool_stride := 0,
      pool_size := 0, pool_upad := 0, pool_lpad := 0, pool_out_dim := 0, pool_porows := 0, pool_pocols := 0, pool_orows := 0, pool_ocols := 0\<rparr>"
    using st [unfolded str] by (simp add: gemmini_extended_config_st_def str)
  have a1: "act_of_bits (acc_act s1) (word_of_int 0) = Inr NONE" by (simp add: s1(2) act_of_bits_def)
  define s2 where "s2 = s1\<lparr>mode := WS, sys_act := NONE, sys_shift := 0,
      sys_acc_shift := f32_of_int (uint (acc_scale_t_to_acc_scale_t_bits ACC_SCALE_IDENTITY)),
      a_transpose := False, b_transpose := False, c_stride := 1, a_stride := 1\<rparr>"
  have s2: "run_ops M (gemmini_config_ex 1 0 0) s1 = Inr s2"
    using config_ex_arrives [OF _ _ _ _ _ _ _ a1, of 1 1 1 0 False False M ACC_SCALE_IDENTITY] z
    by (simp add: s2_def gemmini_config_ex_def gemmini_extended_config_ex_def gemmini_extended2_config_ex_def)
  have w2: "wf_arrays s2" using len by (simp add: s2_def s1(2) wf_arrays_def LOAD_STATES_def)
  define s3 where "s3 = s2\<lparr>load_strides := (load_strides s2)[0 := ra_stride a], load_block_strides := (load_block_strides s2)[0 := 16],
      load_scales := (load_scales s2)[0 := ra_A_scale a], load_shrunks := (load_shrunks s2)[0 := True], pixels_per_rows := (pixels_per_rows s2)[0 := 1]\<rparr>"
  define s4 where "s4 = s3\<lparr>load_strides := (load_strides s3)[1 := ra_stride a], load_block_strides := (load_block_strides s3)[1 := 16],
      load_scales := (load_scales s3)[1 := ra_B_scale a], load_shrunks := (load_shrunks s3)[1 := True], pixels_per_rows := (pixels_per_rows s3)[1 := 1]\<rparr>"
  have w3: "wf_arrays s3" using w2 by (simp add: s3_def wf_arrays_def)
  have s3: "run_ops M (gemmini_extended4_config_ld (ra_stride a) (ra_A_scale a) True (of_nat DIM) 0) s2 = Inr s3"
    using config_ld_arrives [OF w2, of 0 16 1 M "ra_stride a" "ra_A_scale a" True] z by (simp add: gemmini_extended4_config_ld_def s3_def DIM_def)
  have s4: "run_ops M (gemmini_extended4_config_ld (ra_stride a) (ra_B_scale a) True (of_nat DIM) 1) s3 = Inr s4"
    using config_ld_arrives [OF w3, of 1 16 1 M "ra_stride a" "ra_B_scale a" True] z by (simp add: gemmini_extended4_config_ld_def s4_def DIM_def)
  have run: "run_ops M (resadd_config a) s = Inr s4"
    unfolding resadd_config_def run_ops_append mult_1_right s1(1) s2 s3 s4 bindE.simps ..
  have m: "mem s4 = mem s" "wf_memories s4 = wf_memories s" by (simp_all add: s4_def s3_def s2_def s1(2) wf_memories_def)
  have out: "acc_out s4 = (\<lambda>v. bindE (acc_scale v (ra_C_scale a)) (\<lambda>e. Inr (apply_activation e (if ra_relu a then RELU else NONE))))"
    by (simp add: acc_out_def fun_eq_iff apply_pre_activation_acc_def apply_activation_acc_def s4_def s3_def s2_def s1(2))
  have "wf_arrays s4" using w3 by (simp add: s4_def wf_arrays_def)
  then have "resadd_configured a s4"
    unfolding resadd_configured_def out using s m len
    by (simp add: wf_state_def s4_def s3_def s2_def s1(2) less_Suc_eq numeral_2_eq_2)
  then show ?thesis using run m(1) by blast
qed

section \<open>One tile\<close>

lemma via_int_id:
  assumes "x < 2 ^ 31"
  shows "via_int x = x"
  unfolding via_int_def
proof (rule bit_word_eqI)
  fix k assume "k < LENGTH(64)"
  then show "bit (scast (ucast x :: 32 word) :: u64) k = bit x k"
    using word_less_bit [OF assms, of k] word_less_bit [OF assms, of 31] by (cases "k < 31") (auto simp: bit_simps min_def)
qed

lemma via_int_small: "n < 2 ^ 31 \<Longrightarrow> via_int (of_nat n) = of_nat n"
  by (rule via_int_id) (simp add: word_less_nat_alt unat_of_small)

lemma resadd_sizes:
  assumes "n < 2 ^ 30"
  shows "resadd_blocks (of_nat n) = of_nat ((n + 15) div 16)" "resadd_pad (of_nat n) = of_nat (16 * ((n + 15) div 16) - n)"
proof -
  define q r where "q = n div 16" and "r = n mod 16"
  have n: "n = 16 * q + r" "r < 16" by (simp_all add: q_def r_def)
  have w: "of_nat n mod of_nat DIM = (of_nat r :: u64)" "of_nat n div of_nat DIM = (of_nat q :: u64)"
    using div_of_small [of n 16] assms by (simp_all add: DIM_def q_def r_def)
  have z: "(of_nat r :: u64) = 0 \<longleftrightarrow> r = 0" using unat_of_small [of r] unat_eq_zero [of "of_nat r :: u64"] n by simp
  have c: "(n + 15) div 16 = (if r = 0 then q else q + 1)" using n by auto
  have q: "q < 2 ^ 26" using n assms by simp
  show "resadd_blocks (of_nat n) = of_nat ((n + 15) div 16)"
    using via_int_small [of q] via_int_small [of "q + 1"] q by (simp add: resadd_blocks_def w z c add.commute)
  have "(of_nat DIM - of_nat r :: u64) = of_nat (16 - r)" using n by (simp add: DIM_def of_nat_diff)
  then show "resadd_pad (of_nat n) = of_nat (16 * ((n + 15) div 16) - n)"
    using via_int_small [of "16 - r"] via_int_small [of 0] n unfolding resadd_pad_def w z c by (cases "r = 0") simp_all
qed

lemma resadd_configured_kept: "resadd_configured a s \<Longrightarrow> cfg_kept s t \<Longrightarrow> resadd_configured a t"
  using cfg_keptD [of s t] by (simp add: resadd_configured_def)

text \<open>The element of the result, as the configured accelerator computes it.\<close>

definition resadd_elem :: "resadd_args \<Rightarrow> elem_t \<Rightarrow> elem_t \<Rightarrow> elem_t res" where
  "resadd_elem a x y = bindE (mvin_scale x (ra_A_scale a)) (\<lambda>p. bindE (mvin_scale y (ra_B_scale a)) (\<lambda>q.
     bindE (acc_scale (scast p + scast q) (ra_C_scale a)) (\<lambda>e. Inr (apply_activation e (if ra_relu a then RELU else NONE)))))"

text \<open>Operands, result and element values of an addition in memory.\<close>

definition resadd_memory :: "'m mmu \<Rightarrow> resadd_args \<Rightarrow> 'm \<Rightarrow> nat \<Rightarrow> nat \<Rightarrow> (nat \<Rightarrow> nat \<Rightarrow> u8) \<Rightarrow> (nat \<Rightarrow> nat \<Rightarrow> u8) \<Rightarrow> (nat \<times> nat \<Rightarrow> u8) \<Rightarrow> bool" where
  "resadd_memory M a m rows cols X Y W \<longleftrightarrow> mmu_ok M \<and> fits 32 (ra_stride a) \<and>
     operand_at M m (ra_A a) (ra_stride a) rows cols X \<and> operand_at M m (ra_B a) (ra_stride a) rows cols Y \<and>
     target_at M m (ra_C a) (ra_stride a) rows cols \<and>
     (\<forall>i < rows. \<forall>j < cols. ra_C a + (of_nat i * ra_stride a + of_nat j) \<noteq> 0) \<and>
     cells_apart (ra_C a) (ra_stride a) (ra_A a) (ra_stride a) rows cols rows cols \<and>
     cells_apart (ra_C a) (ra_stride a) (ra_B a) (ra_stride a) rows cols rows cols \<and>
     (\<forall>i < rows. \<forall>j < cols. resadd_elem a (X i j) (Y i j) = Inr (W (i, j)))"

lemma sp_tiled_resadd_adds:
  fixes s :: "'m sim" and a :: resadd_args
  assumes mem: "resadd_memory M a (mem s) rows cols X Y W" and cfg: "resadd_configured a s"
    and small: "0 < rows" "rows < 2 ^ 30" "0 < cols" "cols < 2 ^ 30" and fit: "((rows + 15) div 16) * ((cols + 15) div 16) * 16 \<le> 512"
  shows "succeeds (run_ops M (sp_tiled_resadd a (of_nat rows) (of_nat cols) (ra_A a) (ra_B a) (ra_C a)) s)
    (\<lambda>t. resadd_configured a t \<and> wrote M (mem s) (mem t) ({..<rows} \<times> {..<cols}) (dram_cell (ra_C a) (ra_stride a)) W)"
proof -
  let ?la = "resadd_loop_args a (of_nat rows) (of_nat cols) (ra_A a) (ra_B a) (ra_C a)"
  let ?I = "(rows + 15) div 16" and ?J = "(cols + 15) div 16"
  have "1 \<le> ?I" "1 \<le> ?J" using small by presburger+
  then have "?I \<le> ?I * ?J" "?J \<le> ?I * ?J" by simp_all
  then have "?I \<le> 512" "?J \<le> 512" using fit by (metis le_trans nat_mult_le_cancel_disj mult.commute mult_le_mono1 nat_mult_1 one_le_numeral)+
  then have IJ: "?I < 2 ^ 16" "?J < 2 ^ 16" by simp_all
  have pad: "16 * ?I - rows < 16" "16 * ?J - cols < 16" by presburger+
  have dims: "rows = 16 * ?I - (16 * ?I - rows)" "cols = 16 * ?J - (16 * ?J - cols)" by presburger+
  have f: "loop_ws_args_fit ?la"
    unfolding loop_ws_args_fit_def resadd_loop_args_def loop_ws_args.simps resadd_sizes [OF small(2)] resadd_sizes [OF small(4)]
    by (intro conjI fits_of_nat IJ fits_mono [OF fits_of_bool]) (use pad in \<open>simp_all add: fits_def\<close>)
  define u where "u = s\<lparr>loop_ws_st := loop_ws_regs_of ?la (loop_ws_st s)\<rparr>"
  have u16: "unat (ucast (of_nat n :: u64) :: u16) = n" if "n < 2 ^ 16" for n
  proof -
    have "unat (of_nat n :: u64) = n" using that by (intro unat_of_small) simp
    then show ?thesis using that by (simp add: unsigned_ucast_eq take_bit_nat_eq_self)
  qed
  have regs: "unat (loop_ws_I (loop_ws_st u)) = ?I" "unat (loop_ws_J (loop_ws_st u)) = ?J" "unat (loop_ws_K (loop_ws_st u)) = 0"
    "unat (loop_ws_pad_I (loop_ws_st u)) = 16 * ?I - rows" "unat (loop_ws_pad_J (loop_ws_st u)) = 16 * ?J - cols"
    "loop_ws_A (loop_ws_st u) = ra_A a" "loop_ws_B (loop_ws_st u) = ra_B a" "loop_ws_C (loop_ws_st u) = ra_C a"
    "loop_ws_A_stride (loop_ws_st u) = ra_stride a" "loop_ws_B_stride (loop_ws_st u) = ra_stride a" "loop_ws_C_stride (loop_ws_st u) = ra_stride a"
    unfolding u_def loop_ws_regs_of_def resadd_loop_args_def resadd_sizes [OF small(2)] resadd_sizes [OF small(4)]
    using IJ u16 [of "16 * ?I - rows"] u16 [of "16 * ?J - cols"] pad u16 by (simp_all del: of_nat_diff)
  have c: "ws_is_resadd (loop_ws_ctl_of ?la)" "\<not> ws_full_C (loop_ws_ctl_of ?la)" by (simp_all add: loop_ws_ctl_of_def resadd_loop_args_def)
  have uc: "resadd_configured a u" "mem u = mem s"
    using cfg acc_out_cong [of u s] by (simp_all add: u_def resadd_configured_def wf_state_def wf_arrays_def wf_memories_def)
  have "loop_ws_fits (loop_ws_st u)"
    using fit loop_ws_fits_room [of "loop_ws_st u"] by (simp add: regs loop_ws_room_def)
  then have run: "run_ops M (sp_tiled_resadd a (of_nat rows) (of_nat cols) (ra_A a) (ra_B a) (ra_C a)) s = loop_ws_resadd M (loop_ws_ctl_of ?la) u"
    unfolding sp_tiled_resadd_def loop_ws_arrives(1) [OF f] u_def [symmetric] by (simp add: loop_ws_def loop_ws_arrives(2) [OF f] c)
  have zero: "ra_C a \<noteq> 0" using mem small unfolding resadd_memory_def by (metis add.right_neutral mult_zero_left of_nat_0)
  have "resadd_setup M (loop_ws_ctl_of ?la) u rows cols X Y W"
    unfolding resadd_setup_def Let_def regs
    using mem uc c pad dims fit zero by (simp add: resadd_memory_def resadd_configured_def resadd_out_def resadd_elem_def)
  from loop_ws_resadd_adds [OF this] show ?thesis
    unfolding run regs uc(2) by (rule succeeds_mono) (use resadd_configured_kept [OF uc(1)] in blast)
qed

section \<open>All tiles\<close>

lemma set_steps: "0 < k \<Longrightarrow> set (steps n k) = {x. x < n \<and> k dvd x}"
proof -
  assume k: "0 < k"
  have "x * k < n \<longleftrightarrow> x < (n + k - 1) div k" for x
  proof -
    have "x < (n + k - 1) div k \<longleftrightarrow> Suc x * k \<le> n + k - 1" using less_eq_div_iff_mult_less_eq [OF k, of "Suc x" "n + k - 1"] by (simp only: Suc_le_eq)
    then show ?thesis using k by auto
  qed
  then have "set (steps n k) = (\<lambda>i. i * k) ` {i. i * k < n}" by (auto simp: steps_def)
  then show ?thesis unfolding dvd_def by (auto simp: mult.commute [of k])
qed

lemma steps_cover:
  assumes "0 < k"
  shows "(\<Union>x \<in> set (steps n k). {x ..< x + min k (n - x)}) = {..<n}"
proof -
  have "\<exists>x \<in> set (steps n k). y \<in> {x ..< x + min k (n - x)}" if "y < n" for y
  proof (rule bexI [of _ "y - y mod k"])
    have "y mod k < k" "y mod k \<le> y" using assms by simp_all
    then show "y \<in> {y - y mod k ..< y - y mod k + min k (n - (y - y mod k))}" using that unfolding min_def by (simp, linarith)
    show "y - y mod k \<in> set (steps n k)" using that assms by (simp add: set_steps less_imp_diff_less dvd_minus_mod)
  qed
  moreover have "x + min k (n - x) \<le> n" if "x \<in> set (steps n k)" for x using that assms by (auto simp: set_steps min_def)
  ultimately show ?thesis by fastforce
qed

text \<open>The addition of a part of the matrices.\<close>

definition resadd_part :: "resadd_args \<Rightarrow> nat \<Rightarrow> nat \<Rightarrow> resadd_args" where
  "resadd_part a i j = (let off = of_nat i * ra_stride a + of_nat j in a\<lparr>ra_A := ra_A a + off, ra_B := ra_B a + off, ra_C := ra_C a + off\<rparr>)"

lemma resadd_part_fields:
  "ra_A (resadd_part a i j) = ra_A a + (of_nat i * ra_stride a + of_nat j)" "ra_B (resadd_part a i j) = ra_B a + (of_nat i * ra_stride a + of_nat j)"
  "ra_C (resadd_part a i j) = ra_C a + (of_nat i * ra_stride a + of_nat j)" "ra_stride (resadd_part a i j) = ra_stride a"
  by (simp_all add: resadd_part_def Let_def)

lemma resadd_memory_part:
  assumes "resadd_memory M a m rows cols X Y W" "i + n \<le> rows" "j + k \<le> cols" "0 < n" "0 < k"
  shows "resadd_memory M (resadd_part a i j) m n k (\<lambda>r c. X (i + r) (j + c)) (\<lambda>r c. Y (i + r) (j + c)) (\<lambda>(r, c). W (i + r, j + c))"
proof -
  note mem = assms(1) [unfolded resadd_memory_def]
  have "ra_C a + (of_nat i * ra_stride a + of_nat j) + (of_nat r * ra_stride a + of_nat c) \<noteq> 0" if "r < n" "c < k" for r c
  proof -
    have "i + r < rows" "j + c < cols" using that assms(2,3) by simp_all
    then have "ra_C a + (of_nat (i + r) * ra_stride a + of_nat (j + c)) \<noteq> 0" using mem by blast
    then show ?thesis by (simp add: algebra_simps)
  qed
  moreover have "resadd_elem (resadd_part a i j) = resadd_elem a" by (simp add: resadd_elem_def fun_eq_iff resadd_part_def Let_def)
  moreover have "operand_at M m (ra_A (resadd_part a i j)) (ra_stride a) n k (\<lambda>r c. X (i + r) (j + c))"
      "operand_at M m (ra_B (resadd_part a i j)) (ra_stride a) n k (\<lambda>r c. Y (i + r) (j + c))"
    unfolding resadd_part_fields by (rule operand_at_part [OF _ assms(2-5)], use mem in blast)+
  moreover have "target_at M m (ra_C (resadd_part a i j)) (ra_stride a) n k"
    unfolding resadd_part_fields by (rule target_at_part [OF _ assms(2,3)]) (use mem in blast)
  moreover have "cells_apart (ra_C (resadd_part a i j)) (ra_stride a) (ra_A (resadd_part a i j)) (ra_stride a) n k n k"
      "cells_apart (ra_C (resadd_part a i j)) (ra_stride a) (ra_B (resadd_part a i j)) (ra_stride a) n k n k"
    unfolding resadd_part_fields by (rule cells_apart_part [OF _ assms(2,3) assms(2,3)], use mem in blast)+
  moreover have "\<forall>r < n. \<forall>c < k. resadd_elem a (X (i + r) (j + c)) (Y (i + r) (j + c)) = Inr (W (i + r, j + c))"
    using mem assms(2,3) by simp
  ultimately show ?thesis unfolding resadd_memory_def using mem by (simp add: resadd_part_fields)
qed

lemma resadd_part_configured: "resadd_configured (resadd_part a i j) s = resadd_configured a s"
  by (simp add: resadd_configured_def resadd_part_def Let_def)

lemma sp_tiled_resadd_part:
  "sp_tiled_resadd a I J (ra_A (resadd_part a i j)) (ra_B (resadd_part a i j)) (ra_C (resadd_part a i j)) =
   sp_tiled_resadd (resadd_part a i j) I J (ra_A (resadd_part a i j)) (ra_B (resadd_part a i j)) (ra_C (resadd_part a i j))"
  by (simp add: sp_tiled_resadd_def resadd_loop_args_def resadd_part_def Let_def)

lemma resadd_memory_wrote:
  assumes "resadd_memory M a m rows cols X Y W" "wrote M m m' S (dram_cell (ra_C a) (ra_stride a)) W'" "S \<subseteq> {..<rows} \<times> {..<cols}"
  shows "resadd_memory M a m' rows cols X Y W"
  using assms(1) operand_at_wrote [OF _ assms(2,3)] target_at_wrote [OF _ assms(2)] unfolding resadd_memory_def by blast

text \<open>The operations of the tile at row \<open>i\<close> and column \<open>j\<close>.\<close>

definition resadd_tile_ops :: "resadd_args \<Rightarrow> nat \<Rightarrow> nat \<Rightarrow> nat \<times> nat \<Rightarrow> drv_op list" where
  "resadd_tile_ops a n m x = (let b = resadd_part a (fst x) (snd x) in sp_tiled_resadd b (of_nat n) (of_nat m) (ra_A b) (ra_B b) (ra_C b))"

lemma tiled_resadd_ops:
  assumes "0 < unat t_I" "0 < unat t_J"
  shows "tiled_resadd a t_I t_J = Inr (resadd_config a @ concat (map (\<lambda>i. concat (map (\<lambda>j.
    resadd_tile_ops a (min (unat t_I) (unat (ra_I a) - i)) (min (unat t_J) (unat (ra_J a) - j)) (i, j)) (steps (unat (ra_J a)) (unat t_J))))
      (steps (unat (ra_I a)) (unat t_I))) @ gemmini_fence)"
proof -
  have tile: "(if i + unat t \<le> unat d then t else d - of_nat i) = of_nat (min (unat t) (unat d - i))"
    if "i \<in> set (steps (unat d) (unat t))" "0 < unat t" for i and t d :: u64
    using that by (auto simp: set_steps min_def of_nat_diff)
  show ?thesis
    unfolding tiled_resadd_def Let_def
    using assms by (auto simp: resadd_tile_ops_def Let_def resadd_part_fields sp_tiled_resadd_part [unfolded resadd_part_fields] tile
      intro!: arg_cong [of _ _ concat] map_cong)
qed

lemma resadd_tile_step:
  fixes s t :: "'m sim" and a :: resadd_args and rows cols tI tJ :: nat and x :: "nat \<times> nat"
  defines "n \<equiv> \<lambda>x. min tI (rows - fst x)" and "k \<equiv> \<lambda>x. min tJ (cols - snd x)"
  defines "T \<equiv> \<lambda>x. {fst x ..< fst x + n x} \<times> {snd x ..< snd x + k x}" and "addr \<equiv> dram_cell (ra_C a) (ra_stride a)"
  assumes mem: "resadd_memory M a (mem s) rows cols X Y W" and dims: "rows < 2 ^ 30" "cols < 2 ^ 30"
    and tile: "0 < tI" "0 < tJ" "((tI + 15) div 16) * ((tJ + 15) div 16) * 16 \<le> 512" and x: "fst x < rows" "snd x < cols"
    and t: "S \<subseteq> {..<rows} \<times> {..<cols}" "resadd_configured a t" "wrote M (mem s) (mem t) S addr W"
  shows "succeeds (run_ops M (resadd_tile_ops a (n x) (k x) x) t)
    (\<lambda>u. S \<union> T x \<subseteq> {..<rows} \<times> {..<cols} \<and> resadd_configured a u \<and> wrote M (mem s) (mem u) (S \<union> T x) addr W)"
proof -
  have sub: "fst x + n x \<le> rows" "snd x + k x \<le> cols" "0 < n x" "0 < k x" using x tile(1,2) by (auto simp: n_def k_def min_def)
  have "((n x + 15) div 16) * ((k x + 15) div 16) * 16 \<le> ((tI + 15) div 16) * ((tJ + 15) div 16) * 16"
    by (intro mult_le_mono div_le_mono order_refl) (simp_all add: n_def k_def)
  then have fit: "((n x + 15) div 16) * ((k x + 15) div 16) * 16 \<le> 512" using tile(3) by (rule order_trans)
  have small: "n x < 2 ^ 30" "k x < 2 ^ 30" using sub dims by simp_all
  note part = resadd_memory_part [OF resadd_memory_wrote [OF mem t(3) [unfolded addr_def] t(1)] sub]
  obtain u where u: "run_ops M (resadd_tile_ops a (n x) (k x) x) t = Inr u" "resadd_configured a u"
    "wrote M (mem t) (mem u) ({..<n x} \<times> {..<k x}) (dram_cell (ra_C a + (of_nat (fst x) * ra_stride a + of_nat (snd x))) (ra_stride a))
      (\<lambda>(r, c). W (fst x + r, snd x + c))"
    using sp_tiled_resadd_adds [OF part _ sub(3) small(1) sub(4) small(2) fit, unfolded resadd_part_configured, OF t(2)]
    unfolding succeeds_iff resadd_tile_ops_def Let_def resadd_part_fields by blast
  have T: "T x \<subseteq> {..<rows} \<times> {..<cols}" using sub by (auto simp: T_def)
  have "inj_on addr ({..<rows} \<times> {..<cols})" using mem by (simp add: resadd_memory_def target_at_def addr_def)
  moreover have "wrote M (mem t) (mem u) (T x) addr W" unfolding T_def addr_def by (rule wrote_part [OF u(3)])
  ultimately have "wrote M (mem s) (mem u) (S \<union> T x) addr W" using wrote_Un [OF t(3)] t(1) T by blast
  then show ?thesis using u(1,2) T t(1) by simp
qed

lemma run_ops_tiles:
  "run_ops M (concat (map (\<lambda>i. concat (map (f i) (js i))) is)) s = foldE (\<lambda>(i, j). run_ops M (f i j)) (pairs is js) s"
proof -
  have "run_ops M (concat (map (f i) (js i))) = foldE (\<lambda>j. run_ops M (f i j)) (js i)" for i
    by (rule ext) (rule run_ops_concat)
  then show ?thesis by (simp add: run_ops_concat foldE_nested)
qed

lemma tiled_resadd_adds:
  fixes s :: "'m sim"
  assumes mem: "resadd_memory M a (mem s) (unat (ra_I a)) (unat (ra_J a)) X Y W"
    and s: "wf_state s" "unat (norm_stat_id (norm_st s)) < 4" "acc_act s \<noteq> SOFTMAX"
    and dims: "unat (ra_I a) < 2 ^ 30" "unat (ra_J a) < 2 ^ 30" and tile: "resadd_tile_ok (ra_I a) (ra_J a) (t_I, t_J)"
  shows "succeeds (bindE (tiled_resadd a t_I t_J) (\<lambda>ops. run_ops M ops s))
    (\<lambda>t. wrote M (mem s) (mem t) ({..<unat (ra_I a)} \<times> {..<unat (ra_J a)}) (dram_cell (ra_C a) (ra_stride a)) W)"
proof -
  define I J tI tJ where "I = unat (ra_I a)" "J = unat (ra_J a)" "tI = unat t_I" "tJ = unat t_J"
  note d = I_J_tI_tJ_def
  have pos: "0 < tI" "0 < tJ" and fit: "((tI + 15) div 16) * ((tJ + 15) div 16) * 16 \<le> 512"
    using tile by (simp_all add: resadd_tile_ok_def d blocks_of_def)
  obtain s0 where s0: "run_ops M (resadd_config a) s = Inr s0" "mem s0 = mem s" "resadd_configured a s0"
    using resadd_config_arrives [OF s, of a M] mem unfolding resadd_memory_def by blast
  let ?U = "{..<I} \<times> {..<J}" and ?xs = "pairs (steps I tI) (\<lambda>_. steps J tJ)"
  let ?P = "\<lambda>S t. S \<subseteq> ?U \<and> resadd_configured a t \<and> wrote M (mem s) (mem t) S (dram_cell (ra_C a) (ra_stride a)) W"
  let ?n = "\<lambda>x. min tI (I - fst x)" and ?m = "\<lambda>x. min tJ (J - snd x)"
  let ?T = "\<lambda>x. {fst x ..< fst x + ?n x} \<times> {snd x ..< snd x + ?m x}"
  let ?f = "\<lambda>x. run_ops M (resadd_tile_ops a (?n x) (?m x) x)"
  have "succeeds (foldE ?f ?xs s0) (?P ({} \<union> (\<Union>x \<in> set ?xs. ?T x)))"
  proof (rule foldE_gather)
    fix x S t assume x: "x \<in> set ?xs" and t: "?P S t"
    then have "fst x < I" "snd x < J" using pos by (auto simp: set_pairs set_steps)
    then show "succeeds (?f x t) (?P (S \<union> ?T x))"
      using resadd_tile_step [OF mem [folded d] dims [folded d] pos fit] t by blast
  qed (use s0 in simp)
  moreover have "(\<Union>x \<in> set ?xs. ?T x) = ?U"
    unfolding steps_cover [OF pos(1), of I, symmetric] steps_cover [OF pos(2), of J, symmetric] set_pairs by force
  moreover have "bindE (tiled_resadd a t_I t_J) (\<lambda>ops. run_ops M ops s) = bindE (foldE ?f ?xs s0) (run_ops M gemmini_fence)"
    using pos unfolding d
    by (simp add: tiled_resadd_ops run_ops_append s0(1) run_ops_tiles split_def)
  ultimately show ?thesis by (auto simp: d succeeds_iff gemmini_fence_def)
qed

section \<open>The processor\<close>

lemma clamp_elem: "(if elem_t_max < r then elem_t_max else if r < m then m else r) = max m (clamp8 r)" if "elem_t_min \<le> m" "m \<le> elem_t_max" for r m :: int
  using that by (auto simp: clamp8_def elem_t_max_def elem_t_min_def max_def)

text \<open>The function on the processor computes the same element as the accelerator.\<close>

lemma mvin_scale_value:
  assumes "mvin_scale x c = Inr p"
  shows "MVIN_SCALE (sint x) c = Inr (sint p)"
proof -
  obtain r where r: "MVIN_SCALE (sint x) c = Inr r" "p = saturate_elem r" using assms by (auto simp: mvin_scale_def bindE_Inr_iff)
  have "- 128 \<le> r \<and> r \<le> 127"
    using r(1) by (auto simp: MVIN_SCALE_def f32_to_sint_def bindE_Inr_iff split: if_splits)
  then show ?thesis using r by (simp add: clamp8_id)
qed

lemma sint_scast_add: "sint (scast (p :: elem_t) + scast (q :: elem_t) :: acc_t) = sint p + sint q"
proof -
  have small: "sint (word_of_int n :: acc_t) = n" if "- 256 \<le> n" "n < 256" for n
    using that by (simp add: signed_of_int signed_take_bit_int_eq_self)
  have e: "(scast p + scast q :: acc_t) = word_of_int (sint p + sint q)" by simp
  show ?thesis unfolding e by (rule small) (use sint8_range [of p] sint8_range [of q] in linarith)+
qed

lemma resadd_cpu_elem_eq:
  assumes "resadd_elem a x y = Inr w"
  shows "resadd_cpu_elem a x y = Inr w"
proof -
  obtain p q r where p: "mvin_scale x (ra_A_scale a) = Inr p" "mvin_scale y (ra_B_scale a) = Inr q"
    and r: "ACC_SCALE (sint p + sint q) (ra_C_scale a) = Inr r" "w = apply_activation (saturate_elem r) (if ra_relu a then RELU else NONE)"
    using assms by (auto simp: resadd_elem_def bindE_Inr_iff acc_scale_def sint_scast_add)
  have "word_of_int (max (if ra_relu a then 0 else elem_t_min) (clamp8 r)) = w"
    using clamp8_bounds [of r] unfolding r(2) by (auto simp: apply_activation_def saturate_elem_clamp max_def elem_t_min_def
      signed_of_int signed_take_bit_int_eq_self)
  then show ?thesis
    using r(1) clamp_elem [of "if ra_relu a then 0 else elem_t_min" r]
    by (simp add: resadd_cpu_elem_def mvin_scale_value [OF p(1)] mvin_scale_value [OF p(2)] elem_t_min_def elem_t_max_def)
qed

lemma resadd_cpu_adds:
  assumes mem: "resadd_memory M a m (unat (ra_I a)) (unat (ra_J a)) X Y W"
  shows "succeeds (resadd_cpu M a m)
    (\<lambda>m'. wrote M m m' ({..<unat (ra_I a)} \<times> {..<unat (ra_J a)}) (dram_cell (ra_C a) (ra_stride a)) W)"
proof -
  define I J where "I = unat (ra_I a)" "J = unat (ra_J a)"
  let ?addr = "dram_cell (ra_C a) (ra_stride a)" and ?xs = "pairs [0..<I] (\<lambda>_. [0..<J])"
  let ?P = "\<lambda>S m'. S \<subseteq> {..<I} \<times> {..<J} \<and> wrote M m m' S ?addr W"
  define f where "f = (\<lambda>i j m. let offset = of_nat i * ra_stride a + of_nat j in
         bindE (read_from_dram M m (ra_A a + offset)) (\<lambda>x.
         bindE (read_from_dram M m (ra_B a + offset)) (\<lambda>y.
         bindE (resadd_cpu_elem a x y) (\<lambda>r. write_to_dram M (ra_C a + offset) r m))))"
  note mem = mem [folded I_J_def]
  have cell: "dram_cell b st (i, j) = b + (of_nat i * st + of_nat j)" for b st i j by (simp add: dram_cell_def add.assoc)
  have step: "succeeds (f i j m') (?P (S \<union> {(i, j)}))" if ij: "i < I" "j < J" and S: "?P S m'" for i j S m'
  proof -
    have mem': "resadd_memory M a m' I J X Y W" using resadd_memory_wrote [OF mem] S by blast
    then have ld: "mmu_load M m' (ra_A a + (of_nat i * ra_stride a + of_nat j)) = Some (X i j)"
      "mmu_load M m' (ra_B a + (of_nat i * ra_stride a + of_nat j)) = Some (Y i j)" "resadd_cpu_elem a (X i j) (Y i j) = Inr (W (i, j))"
      and M: "mmu_ok M"
      using ij resadd_cpu_elem_eq by (auto simp: resadd_memory_def operand_at_def target_at_def cell)
    have f: "f i j m' = write_to_dram M (?addr (i, j)) (W (i, j)) m'"
      by (simp add: f_def Let_def read_elem load_byte_def ld(1-3) cell)
    have "inj_on ?addr ({..<I} \<times> {..<J})" "writable M m (?addr (i, j))" using mem ij by (auto simp: resadd_memory_def target_at_def)
    then show ?thesis using write_next_cell [OF M _ _ _ _ conjunct2 [OF S], of "{..<I} \<times> {..<J}" "(i, j)"] S ij by (auto simp: f elim!: succeeds_mono)
  qed
  have "succeeds (foldE (\<lambda>(i, j). f i j) ?xs m) (?P ({} \<union> (\<Union>x \<in> set ?xs. {x})))"
    by (rule foldE_gather) (use step in \<open>auto simp: set_pairs\<close>)
  moreover have "(\<Union>x \<in> set ?xs. {x}) = {..<I} \<times> {..<J}" by (auto simp: set_pairs)
  moreover have "resadd_cpu M a m = foldE (\<lambda>(i, j). f i j) ?xs m"
    unfolding resadd_cpu_def f_def I_J_def by (rule forE_nested)
  ultimately show ?thesis by (simp add: I_J_def succeeds_iff)
qed

end
