(* ===== verification/Driver_Properties.thy ===== *)
theory Driver_Properties
  imports Gemmini_Example Driver_Tiling_Correct Driver_Resadd_Correct
begin

text \<open>
  The properties of the driver, and of the driver and the simulator together, each with a witness
  on concrete arguments.
\<close>

section \<open>What the driver sends, the accelerator receives\<close>

text \<open>
  C27. A load configuration packed by the driver sets stride, scale, shrinking, block stride and
  repetition of the load unit it names, and nothing else.
\<close>

theorem driver_config_ld:
  fixes s :: "'m sim"
  assumes "wf_arrays s" "0 \<le> ld_id" "ld_id < 3" "fits 16 block_mvin_stride" "fits 8 pixel_repeats"
  shows "run_ops M (gemmini_extended5_config_ld stride scale shrunk block_mvin_stride pixel_repeats ld_id) s =
    Inr (s\<lparr>load_strides := (load_strides s)[nat ld_id := stride],
      load_block_strides := (load_block_strides s)[nat ld_id := ucast block_mvin_stride],
      load_scales := (load_scales s)[nat ld_id := scale],
      load_shrunks := (load_shrunks s)[nat ld_id := shrunk],
      pixels_per_rows := (pixels_per_rows s)[nat ld_id := if pixel_repeats = 0 then 1 else ucast pixel_repeats]\<rparr>)"
  by (rule config_ld_arrives [OF assms])

theorem driver_config_ld_witness:
  "\<exists>t. run_ops ram (gemmini_extended5_config_ld 100 MVIN_SCALE_IDENTITY True 16 1 2) (ready ramp) = Inr t \<and>
    load_strides t ! 2 = 100 \<and> load_shrunks t ! 2 \<and> load_strides t ! 1 = 16"
proof -
  have wf: "wf_arrays (ready ramp)" using ready_wf [of ramp] by (simp add: wf_state_def)
  have f: "fits 16 16" "fits 8 1" by (simp_all add: fitsI)
  show ?thesis
    by (rule exI, rule conjI, rule driver_config_ld [OF wf _ _ f]) simp_all
qed

text \<open>
  C28. A store configuration packed by the driver sets stride, activation, scale and the twelve
  bit fields of pooling.
\<close>

theorem driver_config_st:
  fixes s :: "'m sim"
  assumes "fits 2 act" "act_of_bits (acc_act s) act = Inr a" "fits 2 p_stride" "fits 2 p_size" "fits 8 p_out_dim"
    "fits 8 porows" "fits 8 pocols" "fits 8 orows" "fits 8 ocols" "fits 2 upad" "fits 2 lpad"
  shows "run_ops M (gemmini_extended2_config_st (ucast (stride :: u32)) act scale p_stride p_size p_out_dim porows pocols orows ocols upad lpad) s =
    Inr (s\<lparr>store_stride := ucast stride, acc_act := a, acc_shift := scale, pool_stride := ucast p_stride,
      pool_size := ucast p_size, pool_upad := ucast upad, pool_lpad := ucast lpad, pool_out_dim := ucast p_out_dim,
      pool_porows := ucast porows, pool_pocols := ucast pocols, pool_orows := ucast orows, pool_ocols := ucast ocols\<rparr>)"
  by (rule config_st_arrives [OF assms])

theorem driver_config_st_witness:
  "\<exists>t. run_ops ram (gemmini_extended2_config_st 64 1 ACC_SCALE_IDENTITY 2 3 20 7 6 5 4 1 0) (ready ramp) = Inr t \<and>
    store_stride t = 64 \<and> acc_act t = RELU \<and> pool_size t = 3 \<and> pool_ocols t = 4"
proof -
  have a: "act_of_bits (acc_act (ready ramp)) 1 = Inr RELU" by (simp add: act_of_bits_def)
  show ?thesis
    using driver_config_st [OF _ a, of 2 3 20 7 6 5 4 1 0 ram 64 ACC_SCALE_IDENTITY] by (simp add: fitsI)
qed

text \<open>
  C29. The macro \<open>gemmini_loop_ws\<close> starts the loop of the simulator on the registers and the
  control bits it was given.
\<close>

theorem driver_loop_ws:
  fixes s :: "'m sim"
  assumes "loop_ws_args_fit a"
  shows "run_ops M (gemmini_loop_ws a) s =
      loop_ws M (loop_ws_ctl_rs1 a) (loop_ws_ctl_rs2 a) (s\<lparr>loop_ws_st := loop_ws_regs_of a (loop_ws_st s)\<rparr>) \<and>
    loop_ws_decode (loop_ws_ctl_rs1 a) (loop_ws_ctl_rs2 a) = loop_ws_ctl_of a"
  using loop_ws_arrives [OF assms] by blast

definition example_loop :: loop_ws_args where
  "example_loop = \<lparr>la_I = 2, la_J = 3, la_K = 4, la_pad_I = 1, la_pad_J = 2, la_pad_K = 3, la_A = 0x1000, la_B = 0x2000,
     la_D = 0, la_C = 0x3000, la_A_stride = 64, la_B_stride = 48, la_D_stride = 0, la_C_stride = 48,
     la_A_transpose = False, la_B_transpose = True, la_full_C = False, la_low_D = False, la_ex_accumulate = True,
     la_act = 1, la_a_spad_id = 1, la_b_spad_id = 2, la_is_resadd = False\<rparr>"

theorem driver_loop_ws_witness:
  "ws_b_spad_id (loop_ws_decode (loop_ws_ctl_rs1 example_loop) (loop_ws_ctl_rs2 example_loop)) = 2"
proof -
  have "loop_ws_args_fit example_loop" by (simp add: loop_ws_args_fit_def example_loop_def fitsI)
  then have "loop_ws_decode (loop_ws_ctl_rs1 example_loop) (loop_ws_ctl_rs2 example_loop) = loop_ws_ctl_of example_loop"
    using driver_loop_ws [of example_loop ram "ready ramp"] by blast
  then show ?thesis by (simp only:) (simp add: loop_ws_ctl_of_def example_loop_def)
qed

text \<open>
  C30. The macro \<open>gemmini_loop_conv_ws\<close> starts the convolution loop of the simulator on the
  registers it was given; of the activation only whether there is one arrives.
\<close>

theorem driver_loop_conv_ws:
  fixes s :: "'m sim"
  assumes "loop_conv_args_fit a"
  shows "run_ops M (gemmini_loop_conv_ws a) s =
      loop_conv_ws M (conv_ctl_rs1 a) (conv_ctl_rs2 a) (s\<lparr>loop_conv_st := loop_conv_regs_of a (loop_conv_st s)\<rparr>) \<and>
    loop_conv_decode (conv_ctl_rs1 a) (conv_ctl_rs2 a) = loop_conv_ctl_of a"
  using loop_conv_arrives [OF assms] conv_ctl_fields [OF assms] by blast

definition example_conv :: loop_conv_args where
  "example_conv = \<lparr>ca_batch_size = 1, ca_in_row_dim = 14, ca_in_col_dim = 14, ca_in_channels = 16, ca_out_channels = 32,
     ca_out_row_dim = 12, ca_out_col_dim = 12, ca_pool_out_row_dim = 12, ca_pool_out_col_dim = 12, ca_stride = 1,
     ca_padding = 0, ca_kernel_dim = 3, ca_kernel_dilation = 1, ca_pool_size = 1, ca_pool_stride = 1, ca_pool_padding = 0,
     ca_batches = 1, ca_porows = 4, ca_pocols = 4, ca_pochs = 16, ca_krows = 3, ca_kcols = 3, ca_kchs = 16,
     ca_lpad = 0, ca_rpad = 0, ca_upad = 0, ca_dpad = 0, ca_plpad = 0, ca_prpad = 0, ca_pupad = 0, ca_pdpad = 0,
     ca_orows = 4, ca_ocols = 4, ca_weights = 0x1000, ca_output = 0x2000, ca_bias = 0x3000, ca_input = 0x4000,
     ca_no_bias = False, ca_no_pool = True, ca_downsample = False, ca_wrot180 = False, ca_input_dilated = False,
     ca_activation = 3, ca_trans_output_1203 = False, ca_trans_weight_1203 = False, ca_trans_weight_0132 = False,
     ca_trans_input_3120 = False, ca_max_pixels_per_row = 1, ca_in_stride = 16, ca_weight_stride = 32,
     ca_out_stride = 32, ca_dw = False, ca_a_spad_id = 0, ca_b_spad_id = 0\<rparr>"

theorem driver_loop_conv_ws_witness:
  "cv_activation (loop_conv_decode (conv_ctl_rs1 example_conv) (conv_ctl_rs2 example_conv)) \<and>
   cv_no_pool (loop_conv_decode (conv_ctl_rs1 example_conv) (conv_ctl_rs2 example_conv))"
proof -
  have "loop_conv_args_fit example_conv" by (simp add: loop_conv_args_fit_def example_conv_def fitsI)
  then have "loop_conv_decode (conv_ctl_rs1 example_conv) (conv_ctl_rs2 example_conv) = loop_conv_ctl_of example_conv"
    using driver_loop_conv_ws [of example_conv ram "ready ramp"] by blast
  then show ?thesis by (simp only:) (simp add: loop_conv_ctl_of_def example_conv_def)
qed

text \<open>
  The macros that keep data in the scratchpad issue function codes the simulator does not
  know: every program that uses them ends in an illegal instruction.
\<close>

theorem spad_macros_illegal:
  "run_ops M (gemmini_mvout_spad dst src) s = Inl IllegalInstruction \<and>
   run_ops M (gemmini_loop_ws_spad a skips) s = Inl IllegalInstruction"
  by (simp add: spad_instructions_illegal)

section \<open>Tiling\<close>

text \<open>
  C12. The search for tiling factors ends, and the factors it finds are positive, lie within the
  matrices, fit scratchpad and accumulator, and are such that no factor can grow on its own.
\<close>

theorem auto_tiling_ends:
  assumes "dims_ok m" "mm_act m \<noteq> ACT_LAYERNORM" "mm_act m \<noteq> ACT_SOFTMAX"
    and "0 < mm_dim_I m" "0 < mm_dim_J m" "0 < mm_dim_K m"
  shows "\<exists>I J K. auto_tiling m ty = Some (tiling_of I J K) \<and> 0 < I \<and> 0 < J \<and> 0 < K \<and> tile_bounds m I J K \<and>
    fits_room ty I J K \<and> tile_maximal m ty I J K"
  using auto_tiling_ok [OF assms, of ty] by metis

definition example_matmul :: matmul_args where
  "example_matmul = \<lparr>mm_dim_I = 100, mm_dim_J = 30, mm_dim_K = 2000, mm_A = 0x10000, mm_B = 0x80000, mm_D = 0, mm_C = 0x100000,
     mm_stride_A = 2000, mm_stride_B = 30, mm_stride_D = 30, mm_stride_C = 30, mm_A_scale = MVIN_SCALE_IDENTITY,
     mm_B_scale = MVIN_SCALE_IDENTITY, mm_D_scale = 1, mm_act = ACT_RELU, mm_scale = ACC_SCALE_IDENTITY, mm_bert_scale = 0,
     mm_repeating_bias = False, mm_a_transpose = False, mm_b_transpose = False, mm_full_C = False, mm_low_D = False\<rparr>"

lemma example_matmul_ok:
  "dims_ok example_matmul" "mm_act example_matmul \<noteq> ACT_LAYERNORM" "mm_act example_matmul \<noteq> ACT_SOFTMAX"
  "0 < mm_dim_I example_matmul" "0 < mm_dim_J example_matmul" "0 < mm_dim_K example_matmul"
  by (simp_all add: dims_ok_def example_matmul_def ACT_RELU_def ACT_LAYERNORM_def ACT_SOFTMAX_def)

theorem auto_tiling_ends_witness: "\<exists>t. auto_tiling example_matmul TM_WS = Some t"
  using auto_tiling_ends [OF example_matmul_ok, of TM_WS] by blast

text \<open>
  \<open>tiled_matmul_auto\<close> never fails a check of \<open>tiled_matmul\<close>: it runs the operations of
  \<open>tiled_matmul_outer\<close> on the tiling it has chosen.
\<close>

theorem tiled_matmul_auto_accepted:
  fixes s :: "'m sim"
  assumes "dims_ok m" "mm_act m \<noteq> ACT_LAYERNORM" "mm_act m \<noteq> ACT_SOFTMAX"
    and "0 < mm_dim_I m" "0 < mm_dim_J m" "0 < mm_dim_K m" "ty \<noteq> TM_CPU"
    and "ty = TM_OS \<Longrightarrow> \<not> mm_a_transpose m \<and> \<not> mm_b_transpose m" "\<not> (mm_a_transpose m \<and> mm_b_transpose m)"
  shows "\<exists>t. auto_tiling m ty = Some t \<and>
    tiled_matmul_auto M m ty s = Some (bindE (tiled_matmul_outer m t (dataflow_of ty)) (\<lambda>ops. run_ops M ops s))"
proof -
  obtain I J K where t: "auto_tiling m ty = Some (tiling_of I J K)" "0 < I" "0 < J" "0 < K" "tile_bounds m I J K"
    "fits_room ty I J K"
    using auto_tiling_ok [OF assms(1-6), of ty] by metis
  have "tiled_matmul_check m (tiling_of I J K) ty = Inr ()"
    by (rule checks_pass [OF assms(1) t(5,6,2-4)]) (use assms(8,9) in auto)
  then show ?thesis using t(1) assms(7) by (cases ty) (auto simp: tiled_matmul_auto_def tiled_matmul_def)
qed

theorem tiled_matmul_auto_accepted_witness: "tiled_matmul_auto ram example_matmul TM_WS (ready ramp) \<noteq> None"
proof -
  have "\<not> mm_a_transpose example_matmul" by (simp add: example_matmul_def)
  then show ?thesis
    using tiled_matmul_auto_accepted [OF example_matmul_ok, of TM_WS ram "ready ramp"] by auto
qed

text \<open>
  C11. In each dimension the tiles are consecutive and cover the matrix: tile \<open>i\<close> starts where tile
  \<open>i - 1\<close> ends, and without its padding it reaches to the start of the next tile or to the end.
\<close>

theorem tiles_cover:
  fixes m :: matmul_args and I J K :: nat and dataflow :: int
  assumes "dims_ok m" "0 < mm_dim_I m" "0 < mm_dim_J m" "0 < mm_dim_K m" "fits_room ty I J K" "0 < I" "0 < J" "0 < K"
    and "i < unat (tile_count (mm_dim_I m) (of_nat I))" "j < unat (tile_count (mm_dim_J m) (of_nat J))"
      "k < unat (tile_count (mm_dim_K m) (of_nat K))"
  defines "a \<equiv> outer_tile m (tiling_of I J K) dataflow i j k"
  shows "i * I * 16 + (unat (ta_I a) * 16 - unat (ta_pad_I a)) = min (Suc i * I * 16) (unat (mm_dim_I m)) \<and>
    j * J * 16 + (unat (ta_J a) * 16 - unat (ta_pad_J a)) = min (Suc j * J * 16) (unat (mm_dim_J m)) \<and>
    k * K * 16 + (unat (ta_K a) * 16 - unat (ta_pad_K a)) = min (Suc k * K * 16) (unat (mm_dim_K m))"
proof -
  note b = fits_room_small [OF assms(5-8)]
  have d: "unat (mm_dim_I m) < 2 ^ 31" "unat (mm_dim_J m) < 2 ^ 31" "unat (mm_dim_K m) < 2 ^ 31"
    using assms(1) by (simp_all add: dims_ok_def)
  note cnt = unat_tile_count
  have dim: "n * t * 16 + (unat (of_nat (tile_size (blocks_of x) t n) :: u64) * 16 - unat (of_nat (dim_pad_at x t n) :: u64))
      = min (Suc n * t * 16) (unat x)"
    if "unat x < 2 ^ 31" "0 < x" "0 < t" "t \<le> 1024" "n < tiles_of (blocks_of x) t" for x n t
  proof -
    have x: "0 < unat x" using that(2) by (simp add: word_less_nat_alt)
    note seg = tile_segment [OF x blocks_of_def that(3,5)]
    have "tile_size (blocks_of x) t n < 2 ^ 64" "dim_pad_at x t n < 2 ^ 64"
      using seg(3) that(4) dim_pad_small [OF that(1), of t n] by simp_all
    then show ?thesis using seg(1) by (simp only: unat_of_small dim_pad_at_def)
  qed
  have lt: "i < tiles_of (blocks_of (mm_dim_I m)) I" "j < tiles_of (blocks_of (mm_dim_J m)) J"
    "k < tiles_of (blocks_of (mm_dim_K m)) K"
    using assms(9-11) cnt [OF d(1) assms(6) b(1)] cnt [OF d(2) assms(7) b(2)] cnt [OF d(3) assms(8) b(3)] by simp_all
  note sz = outer_tile_sizes [OF assms(1-8) lt, of dataflow, folded a_def]
  show ?thesis
    unfolding sz using dim [OF d(1) assms(2,6) b(1) lt(1)] dim [OF d(2) assms(3,7) b(2) lt(2)] dim [OF d(3) assms(4,8) b(3) lt(3)]
    by blast
qed

theorem tiles_cover_witness:
  "2 * 3 * 16 + (unat (ta_I (outer_tile example_matmul (tiling_of 3 2 10) 1 2 0 12)) * 16 -
     unat (ta_pad_I (outer_tile example_matmul (tiling_of 3 2 10) 1 2 0 12))) = min (Suc 2 * 3 * 16) 100"
proof -
  have f: "fits_room TM_WS 3 2 10" by (simp add: fits_room_def spad_room_def acc_room_def)
  have c: "unat (tile_count (mm_dim_I example_matmul) (of_nat 3)) = 3" "unat (tile_count (mm_dim_J example_matmul) (of_nat 2)) = 1"
    "unat (tile_count (mm_dim_K example_matmul) (of_nat 10)) = 13"
    by (simp_all add: tile_count_def pad_dim_def DIM_def example_matmul_def)
  have "unat (mm_dim_I example_matmul) = 100" by (simp add: example_matmul_def)
  then show ?thesis
    using tiles_cover [OF example_matmul_ok(1,4-6) f, of 2 0 12 1] c by simp
qed

text \<open>
  Every hardware loop that a chosen tiling starts passes the size check of the simulator, with
  all its arguments intact.
\<close>

theorem chosen_loops_run:
  fixes s :: "'m sim" and m :: matmul_args and I J K :: nat
  assumes "dims_ok m" "0 < mm_dim_I m" "0 < mm_dim_J m" "0 < mm_dim_K m" "fits_room TM_WS I J K" "0 < I" "0 < J" "0 < K"
    and "i < tiles_of (blocks_of (mm_dim_I m)) I" "j < tiles_of (blocks_of (mm_dim_J m)) J"
      "k < tiles_of (blocks_of (mm_dim_K m)) K"
    and "0 \<le> mm_act m" "mm_act m < 8"
  defines "a \<equiv> ws_loop_args (outer_tile m (tiling_of I J K) 1 i j k)"
  shows "run_ops M (sp_tiled_matmul_ws (outer_tile m (tiling_of I J K) 1 i j k)) s =
      loop_ws M (loop_ws_ctl_rs1 a) (loop_ws_ctl_rs2 a) (s\<lparr>loop_ws_st := loop_ws_regs_of a (loop_ws_st s)\<rparr>) \<and>
    loop_ws_fits (loop_ws_regs_of a (loop_ws_st s))"
  using loop_ws_arrives(1) [OF chosen_loop_ok(1) [OF assms(1-13)], folded a_def, of M s]
    chosen_loop_ok(2) [OF assms(1-13), folded a_def]
  by (simp add: sp_tiled_matmul_ws_def a_def)

theorem chosen_loops_run_witness:
  "loop_ws_fits (loop_ws_regs_of (ws_loop_args (outer_tile example_matmul (tiling_of 3 2 10) 1 2 0 12)) (loop_ws_st (ready ramp)))"
proof -
  have f: "fits_room TM_WS 3 2 10" by (simp add: fits_room_def spad_room_def acc_room_def)
  have c: "2 < tiles_of (blocks_of (mm_dim_I example_matmul)) 3" "0 < tiles_of (blocks_of (mm_dim_J example_matmul)) 2"
    "12 < tiles_of (blocks_of (mm_dim_K example_matmul)) 10" "0 \<le> mm_act example_matmul" "mm_act example_matmul < 8"
    by (simp_all add: tiles_of_def blocks_of_def example_matmul_def ACT_RELU_def)
  show ?thesis
    using chosen_loops_run [OF example_matmul_ok(1,4-6) f _ _ _ c, of ram "ready ramp"] by simp
qed

section \<open>Residual addition\<close>

text \<open>
  C5. The residual addition on the accelerator, tiled by the driver and run by the simulator,
  leaves in memory exactly the bytes that the function on the processor leaves, and both are the
  scaled sums of the elements.
\<close>

theorem resadd_agrees:
  fixes s :: "'m sim"
  assumes mem: "resadd_memory M a (mem s) (unat (ra_I a)) (unat (ra_J a)) X Y W"
    and s: "wf_state s" "unat (norm_stat_id (norm_st s)) < 4" "acc_act s \<noteq> SOFTMAX"
    and dims: "0 < unat (ra_I a)" "unat (ra_I a) < 2 ^ 30" "0 < unat (ra_J a)" "unat (ra_J a) < 2 ^ 30"
  shows "\<exists>t u. tiled_resadd_stride_auto M a TM_WS s = Inr t \<and> tiled_resadd_stride_auto M a TM_CPU s = Inr u \<and>
    mmu_load M (mem t) = mmu_load M (mem u) \<and>
    wrote M (mem s) (mem t) ({..<unat (ra_I a)} \<times> {..<unat (ra_J a)}) (dram_cell (ra_C a) (ra_stride a)) W"
proof -
  obtain t_I t_J where sh: "resadd_shrink (ra_I a) (ra_J a) = (t_I, t_J)" by (cases "resadd_shrink (ra_I a) (ra_J a)")
  then have "resadd_tile_ok (ra_I a) (ra_J a) (t_I, t_J)" using resadd_shrink_ok [OF dims] by simp
  from tiled_resadd_adds [OF mem s dims(2,4) this]
  obtain t where t: "tiled_resadd_stride_auto M a TM_WS s = Inr t"
    "wrote M (mem s) (mem t) ({..<unat (ra_I a)} \<times> {..<unat (ra_J a)}) (dram_cell (ra_C a) (ra_stride a)) W"
    unfolding succeeds_iff by (auto simp: tiled_resadd_stride_auto_def sh)
  from resadd_cpu_adds [OF mem]
  obtain m where m: "resadd_cpu M a (mem s) = Inr m"
    "wrote M (mem s) m ({..<unat (ra_I a)} \<times> {..<unat (ra_J a)}) (dram_cell (ra_C a) (ra_stride a)) W"
    unfolding succeeds_iff by blast
  have "tiled_resadd_stride_auto M a TM_CPU s = Inr (s\<lparr>mem := m\<rparr>)" by (simp add: tiled_resadd_stride_auto_def m(1))
  moreover have "mmu_load M (mem t) = mmu_load M (mem (s\<lparr>mem := m\<rparr>))" using wrote_same_load [OF t(2) m(2)] by simp
  ultimately show ?thesis using t by blast
qed

definition example_resadd :: resadd_args where
  "example_resadd = \<lparr>ra_I = 20, ra_J = 18, ra_stride = 32, ra_A_scale = MVIN_SCALE_IDENTITY, ra_B_scale = MVIN_SCALE_IDENTITY,
     ra_C_scale = ACC_SCALE_IDENTITY, ra_A = 0x1000, ra_B = 0x2000, ra_C = 0x3000, ra_relu = False\<rparr>"

lemma example_resadd_ok:
  "resadd_memory ram example_resadd ramp 20 18 (\<lambda>i j. ramp (dram_cell 0x1000 32 (i, j))) (\<lambda>i j. ramp (dram_cell 0x2000 32 (i, j)))
    (\<lambda>(i, j). saturate_elem (sint (ramp (dram_cell 0x1000 32 (i, j))) + sint (ramp (dram_cell 0x2000 32 (i, j)))))"
proof -
  have nz: "(0x3000 :: u64) + (of_nat i * 32 + of_nat j) \<noteq> 0" if "i < 20" "j < 18" for i j
    using dram_cell_unat [of "0x3000" i 32 j] that by (auto simp: dram_cell_def add.assoc)
  show ?thesis
    unfolding resadd_memory_def
    using operand_at_ram [where base = "0x1000" and rows = 20 and stride = 32 and cols = 18 and m = ramp] operand_at_ram [where base = "0x2000" and rows = 20 and stride = 32 and cols = 18 and m = ramp] target_at_ram [where cols = 18 and stride = 32 and rows = 20 and m = ramp and base = "0x3000"]
      cells_apart_below [where base = "0x3000" and rows = 20 and stride = 32 and cols = 18 and base' = "0x1000" and rows' = 20 and stride' = 32 and cols' = 18] cells_apart_below [where base = "0x3000" and rows = 20 and stride = 32 and cols = 18 and base' = "0x2000" and rows' = 20 and stride' = 32 and cols' = 18] nz
    by (simp add: example_resadd_def ram_ok fitsI resadd_elem_def mvin_scale_one acc_scale_one sint_scast_add apply_activation_def)
qed

theorem resadd_agrees_witness:
  "\<exists>t u. tiled_resadd_stride_auto ram example_resadd TM_WS (ready ramp) = Inr t \<and>
    tiled_resadd_stride_auto ram example_resadd TM_CPU (ready ramp) = Inr u \<and> mem t 0x3021 = 0x42 \<and> mem u 0x3021 = 0x42"
proof -
  let ?W = "\<lambda>(i, j). saturate_elem (sint (ramp (dram_cell 0x1000 32 (i, j))) + sint (ramp (dram_cell 0x2000 32 (i, j))))"
  have d: "unat (ra_I example_resadd) = 20" "unat (ra_J example_resadd) = 18" by (simp_all add: example_resadd_def)
  obtain t u where tu: "tiled_resadd_stride_auto ram example_resadd TM_WS (ready ramp) = Inr t"
      "tiled_resadd_stride_auto ram example_resadd TM_CPU (ready ramp) = Inr u" "mmu_load ram (mem t) = mmu_load ram (mem u)"
      "wrote ram ramp (mem t) ({..<20} \<times> {..<18}) (dram_cell 0x3000 32) ?W"
    using resadd_agrees [of ram example_resadd "ready ramp", unfolded d ready_fields, OF example_resadd_ok ready_wf]
    by (auto simp: example_resadd_def)
  have "mmu_load ram (mem t) (dram_cell 0x3000 32 (1, 1)) = Some (?W (1, 1))" using tu(4) by (simp add: wrote_def)
  moreover have "?W (1, 1) = 0x42" by (simp add: dram_cell_def ramp_def saturate_elem_def elem_t_max_def elem_t_min_def)
  ultimately have "mem t 0x3021 = 0x42" by (simp add: dram_cell_def ram_def)
  moreover have "mem t = mem u" using tu(3) by (simp add: ram_def fun_eq_iff)
  ultimately show ?thesis using tu(1,2) by metis
qed

text \<open>
  The tiles the driver chooses for a residual addition are not empty, not larger than the
  matrix, and fit half of the accumulator.
\<close>

theorem resadd_tiles_fit:
  assumes "0 < unat I" "unat I < 2 ^ 30" "0 < unat J" "unat J < 2 ^ 30"
  shows "case resadd_shrink I J of (t_I, t_J) \<Rightarrow> 0 < unat t_I \<and> unat t_I \<le> unat I \<and> 0 < unat t_J \<and> unat t_J \<le> unat J \<and>
    (unat t_I + 15) div 16 * 16 * ((unat t_J + 15) div 16) \<le> ACC_ROWS div 2"
  using resadd_shrink_ok [OF assms]
  by (simp add: resadd_tile_ok_def split_def blocks_of_def ACC_ROWS_def mult.assoc mult.commute mult.left_commute)

theorem resadd_tiles_fit_witness:
  "case resadd_shrink 100 300 of (t_I, t_J) \<Rightarrow> (unat t_I + 15) div 16 * 16 * ((unat t_J + 15) div 16) \<le> ACC_ROWS div 2"
  using resadd_tiles_fit [of 100 300] by (simp add: split_def)

end
