(* ===== verification/Gemmini_Product_Correct.thy ===== *)
theory Gemmini_Product_Correct
  imports Gemmini_Blocks
begin

text \<open>
  The matrix product of \<open>loop_ws\<close>. The loop moves the tiles of A and B in, keeps the weights of a
  tile of B in the array for a whole column of tiles of A, accumulates the products and moves the
  result out with the last step of the inner dimension.
\<close>

section \<open>One step of the array\<close>

lemma sum_lessThan_add_block: "(\<Sum>x<(n :: nat) + q. f x) = (\<Sum>x<n. f x) + (\<Sum>x<q. f (n + x) :: 'a::comm_monoid_add)"
  by (induction q) (simp_all add: add.assoc)

lemma acc_addr_clear:
  assumes "n < 0x4000000"
  shows "acc_addr True n AND NOT (push_bit 30 1) = acc_addr False n"
proof -
  have b: "(x OR y OR w) AND NOT y = x OR w" if "x AND y = 0" "w AND y = 0" for x y w :: u32
    using that by (simp add: bit_eq_iff bit_simps) blast
  have "\<not> bit (of_nat n :: u32) 30" using local_row_fields(2) [OF assms] .
  moreover have "bit (push_bit 30 1 :: u32) k \<longleftrightarrow> k = 30" for k by (simp only: bit_push_bit_iff bit_1_iff) auto
  ultimately have "(of_nat n :: u32) AND push_bit 30 1 = 0" by (intro bit_word_eqI) (auto simp only: bit_and_iff bit_0_eq bot_apply bot_bool_def)
  then show ?thesis unfolding acc_addr_def using b [of "push_bit 31 1" "push_bit 30 1" "of_nat n"] by simp
qed

text \<open>
  A preload and a compute on one block, with new weights from the scratchpad or with the weights
  that are in the array. The rows of A are \<open>st\<close> rows of the scratchpad apart.
\<close>

lemma compute_block_strided:
  fixes s :: "'m sim" and pre accumulate :: bool
  assumes s: "wf_state s" "mode s = WS" "\<not> a_transpose s" "\<not> b_transpose s" "unat (a_stride s) = st" "c_stride s = 1"
    and size: "m \<le> 16" "n \<le> 16" "q \<le> 16"
    and pa: "pa < 0x4000000" "\<And>i. i < m \<Longrightarrow> pa + st * i < 16384" and bd: "bm < 0x10000" "bn < 0x10000"
    and fit: "pre \<Longrightarrow> pb + q \<le> 16384" "base + m \<le> 1024"
  defines "u \<equiv> preload (block_operand (of_nat q) (of_nat n) (if pre then of_nat pb else - 1)) (block_operand (of_nat m) (of_nat n) (acc_addr accumulate base)) s"
  shows "succeeds (compute (block_operand (of_nat m) (of_nat q) (of_nat pa)) (block_operand (of_nat bm) (of_nat bn) (- 1)) pre u)
    (\<lambda>t. cfg_kept s t \<and> spad t = spad s \<and> mem t = mem s \<and>
      (\<forall>k < q. \<forall>j < n. pe_state t ! k ! j = (if pre then scast (spad s ! (pb + k) ! j) else pe_state s ! k ! j)) \<and>
      (\<forall>i < m. \<forall>j < n. accumulator t ! (base + i) ! j = (if accumulate then accumulator s ! (base + i) ! j else 0) +
        (\<Sum>k<q. scast (spad s ! (pa + st * i) ! k) * pe_state t ! k ! j)) \<and>
      (\<forall>r < 1024. \<forall>c < 16. \<not> (base \<le> r \<and> r < base + m \<and> c < n) \<longrightarrow> accumulator t ! r ! c = accumulator s ! r ! c))"
proof -
  have small: "pa < 0x4000000" "base < 0x4000000" using pa fit by simp_all
  note P = operand_parts
  have uf: "preload_sp_addr u = (if pre then of_nat pb else - 1)" "output_sp_addr u = acc_addr accumulate base" "unat (preload_cols u) = n"
    "unat (preload_rows u) = q" "unat (output_cols u) = n" "unat (output_rows u) = m"
    using size by (simp_all add: u_def preload_def P del: of_nat_numeral)
  have us: "spad u = spad s" "accumulator u = accumulator s" "mode u = WS" "\<not> a_transpose u" "\<not> b_transpose u" "pe_state u = pe_state s"
    "unat (a_stride u) = st" "c_stride u = 1" "wf_state u" "mem u = mem s"
    using s preload_wf [of s] by (simp_all add: u_def preload_def keeps_wf_def)
  define A where "A = (\<lambda>i k. if i < m \<and> k < q then spad s ! (pa + st * i) ! k else 0)"
  define W where "W = (\<lambda>k j. if \<not> pre then pe_state s ! k ! j else if k < q \<and> j < n then scast (spad s ! (pb + k) ! j) else (0 :: acc_t))"
  note sp = wf_state_at(1) [OF s(1)]
  note g = local_addr_not_garbage
  have pre: "if pre then preload_guard u \<and> preload_value u k j = Inr (W k j) else pe_state u ! k ! j = W k j" if "k < 16" "j < 16" for k j
  proof (cases pre)
    case True
    then have "pb < 0x4000000" "pb + q \<le> 16384" using fit(1) by simp_all
    then show ?thesis using that True sp us g [of pb] size by (simp add: preload_guard_def preload_value_def uf W_def)
  qed (simp add: us W_def)
  have bias: "bias_value (ucast (block_operand (of_nat bm) (of_nat bn) (- 1) AND 0xFFFFFFFF)) rr cc u i j = Inr 0" for rr cc i j
    using bd by (simp add: bias_value_def P del: of_nat_numeral)
  have opa: "operand_a (block_operand (of_nat m) (of_nat q) (of_nat pa)) i k u = Inr (A i k)" if "i < 16" "k < 16" for i k
    using that size pa(2) sp us g [OF small(1)] by (simp add: compute_a_def P A_def)
  have row: "out_row u i = base + i" for i by (simp add: out_row_def uf us acc_addr_fields [OF small(2)])
  have touched: "out_touched u r c \<longleftrightarrow> base \<le> r \<and> r < base + m \<and> c < n" for r c
    by (auto simp: out_touched_def uf row) (metis add.commute add_diff_inverse_nat add_less_cancel_left not_le)
  have "succeeds (compute (block_operand (of_nat m) (of_nat q) (of_nat pa)) (block_operand (of_nat bm) (of_nat bn) (- 1)) pre u)
   (\<lambda>t. wf_state t \<and> (\<exists>p m. t = u\<lparr>pe_state := p, accumulator := m\<rparr>) \<and>
    (\<forall>k < 16. \<forall>j < 16. pe_state t ! k ! j = W k j) \<and>
    (\<forall>i < unat (output_rows u). \<forall>j < unat (output_cols u). accumulator t ! out_row u i ! j =
      (if bit (output_sp_addr u) 30 then accumulator u ! out_row u i ! j else 0) +
      (0 + (\<Sum>k<16. scast (A i k) * W k j))) \<and>
    (\<forall>r c. \<not> out_touched u r c \<longrightarrow> mat_at (accumulator t) r c = mat_at (accumulator u) r c))"
    by (rule compute_WS [where D = "\<lambda>_ _. 0", OF us(9,3) pre])
      (use us bias opa size fit(2) uf row in \<open>simp_all add: acc_addr_fields [OF small(2)]\<close>)
  then obtain t where t: "compute (block_operand (of_nat m) (of_nat q) (of_nat pa)) (block_operand (of_nat bm) (of_nat bn) (- 1)) pre u = Inr t"
      "wf_state t" "\<exists>p m. t = u\<lparr>pe_state := p, accumulator := m\<rparr>" "\<forall>k < 16. \<forall>j < 16. pe_state t ! k ! j = W k j"
    and acc: "\<forall>i < m. \<forall>j < n. accumulator t ! (base + i) ! j = (if accumulate then accumulator s ! (base + i) ! j else 0) +
      (0 + (\<Sum>k<16. scast (A i k) * W k j))"
    and rest: "\<forall>r c. \<not> (base \<le> r \<and> r < base + m \<and> c < n) \<longrightarrow> mat_at (accumulator t) r c = mat_at (accumulator s) r c"
    unfolding succeeds_iff uf row us touched acc_addr_fields(2) [OF small(2)] by blast
  have kept: "cfg_kept s t" "spad t = spad s" "mem t = mem s"
    using t(2,3) us by (auto simp: u_def intro!: cfg_kept_updates(3))
  have sum: "(\<Sum>k<16. scast (A i k) * W k j) = (\<Sum>k<q. scast (spad s ! (pa + st * i) ! k) * pe_state t ! k ! j)" if "i < m" "j < n" for i j
  proof -
    have "(\<Sum>k<16. scast (A i k) * W k j) = (\<Sum>k<q. scast (A i k) * W k j)" by (rule sum_cut [OF size(3)]) (simp add: A_def)
    also have "\<dots> = (\<Sum>k<q. scast (spad s ! (pa + st * i) ! k) * pe_state t ! k ! j)"
      by (rule sum.cong) (use that size t(4) in \<open>auto simp: A_def\<close>)
    finally show ?thesis .
  qed
  have pe: "pe_state t ! k ! j = (if pre then scast (spad s ! (pb + k) ! j) else pe_state s ! k ! j)" if "k < q" "j < n" for k j
    using t(4) that size by (simp add: W_def)
  have other: "accumulator t ! r ! c = accumulator s ! r ! c" if "r < 1024" "c < 16" "\<not> (base \<le> r \<and> r < base + m \<and> c < n)" for r c
    using rest that wf_state_at(2) [OF s(1) that(1,2)] wf_state_at(2) [OF t(2) that(1,2)] by simp
  show ?thesis using t(1) kept acc sum pe other by simp
qed

text \<open>The same for consecutive rows of A.\<close>

lemma compute_block:
  fixes s :: "'m sim" and pre accumulate :: bool
  assumes s: "wf_state s" "mode s = WS" "\<not> a_transpose s" "\<not> b_transpose s" "a_stride s = 1" "c_stride s = 1"
    and size: "m \<le> 16" "n \<le> 16" "q \<le> 16"
    and fit: "pa + m \<le> 16384" "pre \<Longrightarrow> pb + q \<le> 16384" "base + m \<le> 1024"
  defines "u \<equiv> preload (block_operand (of_nat q) (of_nat n) (if pre then of_nat pb else - 1)) (block_operand (of_nat m) (of_nat n) (acc_addr accumulate base)) s"
  shows "succeeds (compute (block_operand (of_nat m) (of_nat q) (of_nat pa)) (block_operand (of_nat 16) (of_nat 16) (- 1)) pre u)
    (\<lambda>t. cfg_kept s t \<and> spad t = spad s \<and> mem t = mem s \<and>
      (\<forall>k < q. \<forall>j < n. pe_state t ! k ! j = (if pre then scast (spad s ! (pb + k) ! j) else pe_state s ! k ! j)) \<and>
      (\<forall>i < m. \<forall>j < n. accumulator t ! (base + i) ! j = (if accumulate then accumulator s ! (base + i) ! j else 0) +
        (\<Sum>k<q. scast (spad s ! (pa + i) ! k) * pe_state t ! k ! j)) \<and>
      (\<forall>r < 1024. \<forall>c < 16. \<not> (base \<le> r \<and> r < base + m \<and> c < n) \<longrightarrow> accumulator t ! r ! c = accumulator s ! r ! c))"
  using compute_block_strided [OF s(1-4), of 1 m n q pa 16 16 pre pb base accumulate] s(5,6) size fit by (simp add: u_def)

section \<open>What the loop relies on and keeps\<close>

text \<open>A matrix in memory whose elements, scaled on the way in, are \<open>P\<close>.\<close>

definition scaled_at :: "'m mmu \<Rightarrow> 'm \<Rightarrow> u64 \<Rightarrow> u64 \<Rightarrow> nat \<Rightarrow> nat \<Rightarrow> f32 \<Rightarrow> (nat \<Rightarrow> nat \<Rightarrow> elem_t) \<Rightarrow> bool" where
  "scaled_at M m base stride rows cols scale P \<longleftrightarrow> (\<exists>X. operand_at M m base stride rows cols X \<and>
     (\<forall>i < rows. \<forall>j < cols. mvin_scale (X i j) scale = Inr (P i j)))"

lemma scaled_at_part:
  assumes "scaled_at M m base stride rows cols scale P" "i + n \<le> rows" "j + k \<le> cols" "0 < n" "0 < k"
  shows "scaled_at M m (base + (of_nat i * stride + of_nat j)) stride n k scale (\<lambda>r c. P (i + r) (j + c))"
proof -
  obtain X where X: "operand_at M m base stride rows cols X" "\<forall>i < rows. \<forall>j < cols. mvin_scale (X i j) scale = Inr (P i j)"
    using assms(1) by (auto simp: scaled_at_def)
  have "operand_at M m (base + (of_nat i * stride + of_nat j)) stride n k (\<lambda>r c. X (i + r) (j + c))" by (rule operand_at_part [OF X(1) assms(2-)])
  moreover have "\<forall>r < n. \<forall>c < k. mvin_scale (X (i + r) (j + c)) scale = Inr (P (i + r) (j + c))" using X(2) assms(2,3) by simp
  ultimately show ?thesis unfolding scaled_at_def by blast
qed

lemma scaled_at_wrote:
  assumes "scaled_at M m base stride rows cols scale P" "wrote M m m' S (dram_cell base' stride') W" "S \<subseteq> {..<rows'} \<times> {..<cols'}"
    "cells_apart base' stride' base stride rows' cols' rows cols"
  shows "scaled_at M m' base stride rows cols scale P"
  using assms(1) operand_at_wrote [OF _ assms(2-4)] unfolding scaled_at_def by blast

definition ws_rows :: "loop_ws_regs \<Rightarrow> nat" where "ws_rows r = 16 * unat (loop_ws_I r) - unat (loop_ws_pad_I r)"
definition ws_cols :: "loop_ws_regs \<Rightarrow> nat" where "ws_cols r = 16 * unat (loop_ws_J r) - unat (loop_ws_pad_J r)"
definition ws_inner :: "loop_ws_regs \<Rightarrow> nat" where "ws_inner r = 16 * unat (loop_ws_K r) - unat (loop_ws_pad_K r)"

abbreviation len_I :: "loop_ws_regs \<Rightarrow> nat \<Rightarrow> nat" where "len_I r \<equiv> block_len (unat (loop_ws_I r)) (unat (loop_ws_pad_I r))"
abbreviation len_J :: "loop_ws_regs \<Rightarrow> nat \<Rightarrow> nat" where "len_J r \<equiv> block_len (unat (loop_ws_J r)) (unat (loop_ws_pad_J r))"
abbreviation len_K :: "loop_ws_regs \<Rightarrow> nat \<Rightarrow> nat" where "len_K r \<equiv> block_len (unat (loop_ws_K r)) (unat (loop_ws_pad_K r))"

text \<open>An element of \<open>D + A * B\<close> after the first \<open>n\<close> terms of the inner product; \<open>acc_t\<close> wraps around.\<close>

definition ws_sum :: "(nat \<Rightarrow> nat \<Rightarrow> elem_t) \<Rightarrow> (nat \<Rightarrow> nat \<Rightarrow> elem_t) \<Rightarrow> (nat \<Rightarrow> nat \<Rightarrow> acc_t) \<Rightarrow> nat \<Rightarrow> nat \<Rightarrow> nat \<Rightarrow> acc_t" where
  "ws_sum P Q D i j n = D i j + (\<Sum>k<n. scast (P i k) * scast (Q k j))"

text \<open>The configuration of the array and of the moves, and the size of the job.\<close>

definition ws_config :: "loop_ws_ctl \<Rightarrow> 'm sim \<Rightarrow> bool" where
  "ws_config c s \<longleftrightarrow> (let r = loop_ws_st s in
     wf_state s \<and> unat (norm_stat_id (norm_st s)) < 4 \<and> pool_stride s = 0 \<and>
     mode s = WS \<and> \<not> a_transpose s \<and> \<not> b_transpose s \<and> a_stride s = 1 \<and> c_stride s = 1 \<and>
     pixels_per_rows s ! 0 = 1 \<and> pixels_per_rows s ! 1 = 1 \<and>
     \<not> ws_is_resadd c \<and> \<not> ws_full_C c \<and> \<not> ws_a_transpose c \<and> \<not> ws_b_transpose c \<and> ws_act c \<noteq> 2 \<and> ws_act c \<noteq> 4 \<and>
     unat (loop_ws_pad_I r) < 16 \<and> unat (loop_ws_pad_J r) < 16 \<and> unat (loop_ws_pad_K r) < 16 \<and>
     loop_ws_room (unat (loop_ws_I r)) (unat (loop_ws_J r)) (unat (loop_ws_K r)) \<and>
     load_strides s ! 0 = loop_ws_A_stride r \<and> load_strides s ! 1 = loop_ws_B_stride r \<and> store_stride s = loop_ws_C_stride r)"

text \<open>
  The matrices in memory. A null pointer means that the operand is in the scratchpad already, or
  that the result stays in the accumulator.
\<close>

definition ws_out_rows :: "loop_ws_regs \<Rightarrow> nat" where "ws_out_rows r = (if loop_ws_C r = 0 then 0 else ws_rows r)"

definition ws_memory :: "'m mmu \<Rightarrow> 'm sim \<Rightarrow> (nat \<Rightarrow> nat \<Rightarrow> elem_t) \<Rightarrow> (nat \<Rightarrow> nat \<Rightarrow> elem_t) \<Rightarrow> bool" where
  "ws_memory M s P Q \<longleftrightarrow> (let r = loop_ws_st s in mmu_ok M \<and>
     (loop_ws_A r \<noteq> 0 \<longrightarrow>
        scaled_at M (mem s) (loop_ws_A r) (loop_ws_A_stride r) (ws_rows r) (ws_inner r) (load_scales s ! 0) P \<and>
        cells_apart (loop_ws_C r) (loop_ws_C_stride r) (loop_ws_A r) (loop_ws_A_stride r) (ws_out_rows r) (ws_cols r) (ws_rows r) (ws_inner r)) \<and>
     (loop_ws_B r \<noteq> 0 \<longrightarrow>
        scaled_at M (mem s) (loop_ws_B r) (loop_ws_B_stride r) (ws_inner r) (ws_cols r) (load_scales s ! 1) Q \<and>
        cells_apart (loop_ws_C r) (loop_ws_C_stride r) (loop_ws_B r) (loop_ws_B_stride r) (ws_out_rows r) (ws_cols r) (ws_inner r) (ws_cols r)) \<and>
     target_at M (mem s) (loop_ws_C r) (loop_ws_C_stride r) (ws_out_rows r) (ws_cols r))"

text \<open>The accumulator block of a tile holds the sum of the first \<open>n\<close> terms.\<close>

definition acc_tile :: "loop_ws_regs \<Rightarrow> (nat \<Rightarrow> nat \<Rightarrow> nat \<Rightarrow> acc_t) \<Rightarrow> nat \<Rightarrow> nat \<Rightarrow> nat \<Rightarrow> 'm sim \<Rightarrow> bool" where
  "acc_tile r V n i j t \<longleftrightarrow> (\<forall>a < len_I r i. \<forall>b < len_J r j.
     accumulator t ! ((i * unat (loop_ws_J r) + j) * 16 + a) ! b = V (16 * i + a) (16 * j + b) (min (16 * n) (ws_inner r)))"

definition A_tile :: "loop_ws_ctl \<Rightarrow> loop_ws_regs \<Rightarrow> (nat \<Rightarrow> nat \<Rightarrow> elem_t) \<Rightarrow> nat \<Rightarrow> nat \<Rightarrow> 'm sim \<Rightarrow> bool" where
  "A_tile c r P k i t \<longleftrightarrow> (\<forall>a < len_I r i. \<forall>b < len_K r k. spad t ! (unat (loop_ws_A_addr c r i k) + a) ! b = P (16 * i + a) (16 * k + b))"

definition B_tile :: "loop_ws_ctl \<Rightarrow> loop_ws_regs \<Rightarrow> (nat \<Rightarrow> nat \<Rightarrow> elem_t) \<Rightarrow> nat \<Rightarrow> nat \<Rightarrow> 'm sim \<Rightarrow> bool" where
  "B_tile c r Q k j t \<longleftrightarrow> (\<forall>a < len_K r k. \<forall>b < len_J r j. spad t ! (unat (loop_ws_B_addr c r k j) + a) ! b = Q (16 * k + a) (16 * j + b))"

definition W_tile :: "loop_ws_regs \<Rightarrow> (nat \<Rightarrow> nat \<Rightarrow> elem_t) \<Rightarrow> nat \<Rightarrow> nat \<Rightarrow> 'm sim \<Rightarrow> bool" where
  "W_tile r Q k j t \<longleftrightarrow> (\<forall>a < len_K r k. \<forall>b < len_J r j. pe_state t ! a ! b = scast (Q (16 * k + a) (16 * j + b)))"

text \<open>The rows of the scratchpad that the job uses.\<close>

definition ws_area :: "loop_ws_ctl \<Rightarrow> loop_ws_regs \<Rightarrow> nat set" where
  "ws_area c r = (let a = (if ws_a_spad_id c = 2 then 8192 else 0); b = (if ws_b_spad_id c = 2 then 16384 else 8192);
     I = unat (loop_ws_I r); J = unat (loop_ws_J r); K = unat (loop_ws_K r) in {a ..< a + I * K * 16} \<union> {b - K * J * 16 ..< b})"

text \<open>
  The state between two steps: the tiles of A in \<open>LA\<close> and of B in \<open>LB\<close> are in the scratchpad, the
  tile of B named by \<open>b\<close> is in the array, \<open>cnt i j\<close> steps of the inner dimension are accumulated in
  the block of the tile \<open>(i, j)\<close>, and the elements \<open>S\<close> of the result are written.
\<close>

definition ws_at :: "'m mmu \<Rightarrow> loop_ws_ctl \<Rightarrow> 'm sim \<Rightarrow> (nat \<Rightarrow> nat \<Rightarrow> elem_t) \<Rightarrow> (nat \<Rightarrow> nat \<Rightarrow> elem_t) \<Rightarrow> (nat \<Rightarrow> nat \<Rightarrow> acc_t) \<Rightarrow>
    (nat \<times> nat \<Rightarrow> u8) \<Rightarrow> (nat \<times> nat) set \<Rightarrow> (nat \<times> nat) set \<Rightarrow> (nat \<times> nat) option \<Rightarrow> (nat \<Rightarrow> nat \<Rightarrow> nat) \<Rightarrow> (nat \<times> nat) set \<Rightarrow> 'm sim \<Rightarrow> bool" where
  "ws_at M c s P Q D W LA LB b cnt S t \<longleftrightarrow> (let r = loop_ws_st s in
     cfg_kept s t \<and> S \<subseteq> {..<ws_out_rows r} \<times> {..<ws_cols r} \<and>
     wrote M (mem s) (mem t) S (dram_cell (loop_ws_C r) (loop_ws_C_stride r)) W \<and>
     (\<forall>x < 16384. \<forall>y < 16. x \<notin> ws_area c r \<longrightarrow> spad t ! x ! y = spad s ! x ! y) \<and>
     (\<forall>i < unat (loop_ws_I r). \<forall>k < unat (loop_ws_K r). (i, k) \<in> LA \<longrightarrow> A_tile c r P k i t) \<and>
     (\<forall>k < unat (loop_ws_K r). \<forall>j < unat (loop_ws_J r). (k, j) \<in> LB \<longrightarrow> B_tile c r Q k j t) \<and>
     (\<forall>k j. b = Some (k, j) \<longrightarrow> W_tile r Q k j t) \<and>
     (\<forall>i < unat (loop_ws_I r). \<forall>j < unat (loop_ws_J r).
        cnt i j = 0 \<and> \<not> ws_ex_accumulate c \<or> acc_tile r (ws_sum P Q D) (cnt i j) i j t))"

section \<open>The steps\<close>

lemma ws_tile_rows:
  fixes s :: "'m sim"
  defines "r \<equiv> loop_ws_st s"
  assumes cfg: "ws_config c s"
  shows "i < unat (loop_ws_I r) \<Longrightarrow> k < unat (loop_ws_K r) \<Longrightarrow> unat (loop_ws_A_addr c r i k) = (if ws_a_spad_id c = 2 then 8192 else 0) + (i * unat (loop_ws_K r) + k) * 16"
    and "k < unat (loop_ws_K r) \<Longrightarrow> j < unat (loop_ws_J r) \<Longrightarrow> unat (loop_ws_B_addr c r k j) =
      (if ws_b_spad_id c = 2 then 16384 else 8192) - unat (loop_ws_K r) * unat (loop_ws_J r) * 16 + (k * unat (loop_ws_J r) + j) * 16"
proof -
  note cf = cfg [unfolded ws_config_def Let_def, folded r_def]
  show "i < unat (loop_ws_I r) \<Longrightarrow> k < unat (loop_ws_K r) \<Longrightarrow> unat (loop_ws_A_addr c r i k) = (if ws_a_spad_id c = 2 then 8192 else 0) + (i * unat (loop_ws_K r) + k) * 16"
    using loop_ws_A_row [of c r "unat (loop_ws_J r)" i k] cf by simp
  show "k < unat (loop_ws_K r) \<Longrightarrow> j < unat (loop_ws_J r) \<Longrightarrow> unat (loop_ws_B_addr c r k j) =
      (if ws_b_spad_id c = 2 then 16384 else 8192) - unat (loop_ws_K r) * unat (loop_ws_J r) * 16 + (k * unat (loop_ws_J r) + j) * 16"
    using loop_ws_B_row [of c "unat (loop_ws_I r)" r k j] cf by simp
qed

lemma ws_tile_in_area:
  fixes s :: "'m sim"
  defines "r \<equiv> loop_ws_st s"
  assumes cfg: "ws_config c s" and x: "x < 16"
  shows "i < unat (loop_ws_I r) \<Longrightarrow> k < unat (loop_ws_K r) \<Longrightarrow> unat (loop_ws_A_addr c r i k) + x \<in> ws_area c r"
    and "k < unat (loop_ws_K r) \<Longrightarrow> j < unat (loop_ws_J r) \<Longrightarrow> unat (loop_ws_B_addr c r k j) + x \<in> ws_area c r"
proof -
  let ?I = "unat (loop_ws_I r)" and ?J = "unat (loop_ws_J r)" and ?K = "unat (loop_ws_K r)"
  note row = ws_tile_rows [OF cfg, folded r_def]
  show "unat (loop_ws_A_addr c r i k) + x \<in> ws_area c r" if ik: "i < ?I" "k < ?K"
  proof -
    have "(i * ?K + k + 1) * 16 \<le> ?I * ?K * 16" by (rule mult_le_mono1 [OF tile_index [OF ik]])
    then show ?thesis unfolding row(1) [OF ik] ws_area_def Let_def using x by auto
  qed
  show "unat (loop_ws_B_addr c r k j) + x \<in> ws_area c r" if kj: "k < ?K" "j < ?J"
  proof -
    have "(k * ?J + j + 1) * 16 \<le> ?K * ?J * 16" by (rule mult_le_mono1 [OF tile_index [OF kj]])
    moreover have "?K * ?J * 16 \<le> 8192"
      using cfg unfolding ws_config_def Let_def r_def loop_ws_room_def add_mult_distrib by linarith
    ultimately show ?thesis unfolding row(2) [OF kj] ws_area_def Let_def using x by auto
  qed
qed

lemma index_apart:
  fixes i k i' k' n :: nat
  assumes "k < n" "k' < n" "(i, k) \<noteq> (i', k')"
  shows "i * n + k \<noteq> i' * n + k'"
proof
  assume "i * n + k = i' * n + k'"
  then have "(i * n + k) div n = (i' * n + k') div n" "(i * n + k) mod n = (i' * n + k') mod n" by simp_all
  then show False using assms by simp
qed

lemma ws_tiles_apart:
  fixes s :: "'m sim"
  defines "r \<equiv> loop_ws_st s"
  assumes cfg: "ws_config c s"
  shows "i < unat (loop_ws_I r) \<Longrightarrow> k < unat (loop_ws_K r) \<Longrightarrow> i' < unat (loop_ws_I r) \<Longrightarrow> k' < unat (loop_ws_K r) \<Longrightarrow> (i', k') \<noteq> (i, k) \<Longrightarrow>
      unat (loop_ws_A_addr c r i k) + 16 \<le> unat (loop_ws_A_addr c r i' k') \<or> unat (loop_ws_A_addr c r i' k') + 16 \<le> unat (loop_ws_A_addr c r i k)"
    and "k < unat (loop_ws_K r) \<Longrightarrow> j < unat (loop_ws_J r) \<Longrightarrow> k' < unat (loop_ws_K r) \<Longrightarrow> j' < unat (loop_ws_J r) \<Longrightarrow> (k', j') \<noteq> (k, j) \<Longrightarrow>
      unat (loop_ws_B_addr c r k j) + 16 \<le> unat (loop_ws_B_addr c r k' j') \<or> unat (loop_ws_B_addr c r k' j') + 16 \<le> unat (loop_ws_B_addr c r k j)"
proof -
  let ?J = "unat (loop_ws_J r)" and ?K = "unat (loop_ws_K r)"
  note row = ws_tile_rows [OF cfg, folded r_def]
  show "unat (loop_ws_A_addr c r i k) + 16 \<le> unat (loop_ws_A_addr c r i' k') \<or> unat (loop_ws_A_addr c r i' k') + 16 \<le> unat (loop_ws_A_addr c r i k)"
    if "i < unat (loop_ws_I r)" "k < ?K" "i' < unat (loop_ws_I r)" "k' < ?K" "(i', k') \<noteq> (i, k)"
    using tiles_apart [OF index_apart [OF that(4,2,5)]] unfolding row(1) [OF that(1,2)] row(1) [OF that(3,4)] by linarith
  show "unat (loop_ws_B_addr c r k j) + 16 \<le> unat (loop_ws_B_addr c r k' j') \<or> unat (loop_ws_B_addr c r k' j') + 16 \<le> unat (loop_ws_B_addr c r k j)"
    if "k < ?K" "j < ?J" "k' < ?K" "j' < ?J" "(k', j') \<noteq> (k, j)"
    using tiles_apart [OF index_apart [OF that(4,2,5)]] unfolding row(2) [OF that(1,2)] row(2) [OF that(3,4)] by linarith
qed

lemma ws_A_fits:
  fixes s :: "'m sim"
  defines "r \<equiv> loop_ws_st s"
  assumes cfg: "ws_config c s" and ik: "i < unat (loop_ws_I r)" "k < unat (loop_ws_K r)"
  shows "unat (loop_ws_A_addr c r i k) + 16 \<le> 16384"
proof -
  have "(i * unat (loop_ws_K r) + k + 1) * 16 \<le> unat (loop_ws_I r) * unat (loop_ws_K r) * 16" by (rule mult_le_mono1 [OF tile_index [OF ik]])
  moreover have "unat (loop_ws_I r) * unat (loop_ws_K r) * 16 \<le> 8192"
    using cfg unfolding ws_config_def Let_def r_def loop_ws_room_def add_mult_distrib by linarith
  ultimately show ?thesis unfolding ws_tile_rows(1) [OF cfg, folded r_def, OF ik] by auto
qed

lemma ws_B_fits:
  fixes s :: "'m sim"
  defines "r \<equiv> loop_ws_st s"
  assumes cfg: "ws_config c s" and kj: "k < unat (loop_ws_K r)" "j < unat (loop_ws_J r)"
  shows "unat (loop_ws_B_addr c r k j) + 16 \<le> 16384"
proof -
  have "(k * unat (loop_ws_J r) + j + 1) * 16 \<le> unat (loop_ws_K r) * unat (loop_ws_J r) * 16" by (rule mult_le_mono1 [OF tile_index [OF kj]])
  moreover have "unat (loop_ws_K r) * unat (loop_ws_J r) * 16 \<le> 8192"
    using cfg unfolding ws_config_def Let_def r_def loop_ws_room_def add_mult_distrib by linarith
  ultimately show ?thesis unfolding ws_tile_rows(2) [OF cfg, folded r_def, OF kj] by auto
qed

lemma ws_lens:
  fixes s :: "'m sim"
  defines "r \<equiv> loop_ws_st s"
  assumes "ws_config c s"
  shows "i < unat (loop_ws_I r) \<Longrightarrow> tile_len i (unat (loop_ws_I r)) (loop_ws_pad_I r) = of_nat (len_I r i) \<and> 16 * i + len_I r i \<le> ws_rows r \<and> 0 < len_I r i"
    and "j < unat (loop_ws_J r) \<Longrightarrow> tile_len j (unat (loop_ws_J r)) (loop_ws_pad_J r) = of_nat (len_J r j) \<and> 16 * j + len_J r j \<le> ws_cols r \<and> 0 < len_J r j"
    and "k < unat (loop_ws_K r) \<Longrightarrow> tile_len k (unat (loop_ws_K r)) (loop_ws_pad_K r) = of_nat (len_K r k) \<and> 16 * k + len_K r k \<le> ws_inner r \<and> 0 < len_K r k"
  using assms tile_len_block block_end
  by (auto simp: ws_config_def Let_def ws_rows_def ws_cols_def ws_inner_def block_len_def)

text \<open>A move of a tile into the scratchpad keeps what is in other rows.\<close>

lemma spad_rows_kept:
  assumes "\<And>x y. x < 16384 \<Longrightarrow> y < 16 \<Longrightarrow> x < lo \<or> lo + 16 \<le> x \<Longrightarrow> spad u ! x ! y = spad t ! x ! y"
    and "p + 16 \<le> 16384" "lo + 16 \<le> p \<or> p + 16 \<le> lo" "a < block_len n pad i" "y < block_len n' pad' i'"
  shows "spad u ! (p + a) ! y = spad t ! (p + a) ! y"
  by (rule assms(1)) (use assms(2-5) block_len_le [of n pad i] block_len_le [of n' pad' i'] in linarith)+

lemma A_tile_kept:
  assumes "A_tile c r P k i t" "\<And>x y. x < 16384 \<Longrightarrow> y < 16 \<Longrightarrow> x < lo \<or> lo + 16 \<le> x \<Longrightarrow> spad u ! x ! y = spad t ! x ! y"
    and "unat (loop_ws_A_addr c r i k) + 16 \<le> 16384"
    "lo + 16 \<le> unat (loop_ws_A_addr c r i k) \<or> unat (loop_ws_A_addr c r i k) + 16 \<le> lo"
  shows "A_tile c r P k i u"
  using assms(1) unfolding A_tile_def by (simp add: spad_rows_kept [OF assms(2-4)])

lemma B_tile_kept:
  assumes "B_tile c r Q k j t" "\<And>x y. x < 16384 \<Longrightarrow> y < 16 \<Longrightarrow> x < lo \<or> lo + 16 \<le> x \<Longrightarrow> spad u ! x ! y = spad t ! x ! y"
    and "unat (loop_ws_B_addr c r k j) + 16 \<le> 16384"
    "lo + 16 \<le> unat (loop_ws_B_addr c r k j) \<or> unat (loop_ws_B_addr c r k j) + 16 \<le> lo"
  shows "B_tile c r Q k j u"
  using assms(1) unfolding B_tile_def by (simp add: spad_rows_kept [OF assms(2-4)])

lemma ws_at_spad:
  fixes s t u :: "'m sim"
  defines "r \<equiv> loop_ws_st s"
  assumes "ws_at M c s P Q D W LA LB b cnt S t" "cfg_kept t u" "\<exists>m. u = t\<lparr>spad := m\<rparr>"
    and "\<And>x y. x < 16384 \<Longrightarrow> y < 16 \<Longrightarrow> x < lo \<or> lo + 16 \<le> x \<Longrightarrow> spad u ! x ! y = spad t ! x ! y" "\<And>x. x < 16 \<Longrightarrow> lo + x \<in> ws_area c r"
    and "\<And>i k. i < unat (loop_ws_I r) \<Longrightarrow> k < unat (loop_ws_K r) \<Longrightarrow> (i, k) \<in> LA' \<Longrightarrow> A_tile c r P k i u"
    and "\<And>k j. k < unat (loop_ws_K r) \<Longrightarrow> j < unat (loop_ws_J r) \<Longrightarrow> (k, j) \<in> LB' \<Longrightarrow> B_tile c r Q k j u"
  shows "ws_at M c s P Q D W LA' LB' b cnt S u"
proof -
  have "mem u = mem t" "pe_state u = pe_state t" "accumulator u = accumulator t" using assms(4) by auto
  moreover have "spad u ! x ! y = spad t ! x ! y" if "x < 16384" "y < 16" "x \<notin> ws_area c r" for x y
  proof (rule assms(5) [OF that(1,2)], rule ccontr)
    assume "\<not> (x < lo \<or> lo + 16 \<le> x)"
    then have "x - lo < 16" "lo + (x - lo) = x" by linarith+
    then show False using assms(6) [of "x - lo"] that(3) by simp
  qed
  ultimately show ?thesis using assms(2,3,7,8) cfg_kept_trans [of s t u] by (simp add: ws_at_def Let_def W_tile_def acc_tile_def r_def)
qed

text \<open>A block of at most 16 rows moved into the scratchpad; other rows are kept.\<close>

lemma mvin_scaled:
  fixes t :: "'m sim"
  assumes t: "wf_state t" "ld < 3" "pixels_per_rows t ! ld = 1" and P: "scaled_at M (mem t) addr (load_strides t ! ld) m q (load_scales t ! ld) P"
    and size: "m \<le> 16" "q \<le> 16" "base + 16 \<le> 16384"
  shows "succeeds (mvin M addr (block_operand (of_nat m) (of_nat q) (of_nat base)) ld t)
    (\<lambda>u. cfg_kept t u \<and> (\<exists>m. u = t\<lparr>spad := m\<rparr>) \<and> (\<forall>x < m. \<forall>y < q. spad u ! (base + x) ! y = P x y) \<and>
      (\<forall>x < 16384. \<forall>y < 16. x < base \<or> base + 16 \<le> x \<longrightarrow> spad u ! x ! y = spad t ! x ! y))"
proof -
  obtain X where X: "operand_at M (mem t) addr (load_strides t ! ld) m q X" "\<forall>x < m. \<forall>y < q. mvin_scale (X x y) (load_scales t ! ld) = Inr (P x y)"
    using P unfolding scaled_at_def by blast
  have "succeeds (mvin M addr (block_operand (of_nat m) (of_nat q) (of_nat base)) ld t)
    (\<lambda>u. cfg_kept t u \<and> (\<exists>m. u = t\<lparr>spad := m\<rparr>) \<and> (\<forall>x < m. \<forall>y < q. spad u ! (base + x) ! y = P x y) \<and>
      (\<forall>x < 16384. \<forall>y < 16. \<not> (base \<le> x \<and> x < base + m \<and> y < q) \<longrightarrow> spad u ! x ! y = spad t ! x ! y))"
    by (rule mvin_spad_tile [OF t, where X = X]) (use X size in \<open>auto simp: operand_at_def\<close>)
  moreover have out: "\<not> (base \<le> x \<and> x < base + m \<and> y < q)" if "x < base \<or> base + 16 \<le> x" for x y
    using that size(1) by linarith
  ultimately show ?thesis by (elim succeeds_mono) (use out in blast)
qed

lemma ws_mvin_A:
  fixes s t :: "'m sim"
  defines "r \<equiv> loop_ws_st s"
  assumes cfg: "ws_config c s" and mem: "ws_memory M s P Q" and at: "ws_at M c s P Q D W LA LB b cnt S t"
    and i: "i < unat (loop_ws_I r)" and k: "k < unat (loop_ws_K r)" and j: "j = 0 \<and> loop_ws_A r \<noteq> 0 \<or> (i, k) \<in> LA"
  shows "succeeds (loop_ws_mvin_A M c r k j i t) (ws_at M c s P Q D W (insert (i, k) LA) LB b cnt S)"
proof (cases "j = 0 \<and> loop_ws_A r \<noteq> 0")
  case False
  then show ?thesis using j at by (auto simp: loop_ws_mvin_A_def insert_absorb)
next
  case True
  note cf = cfg [unfolded ws_config_def Let_def, folded r_def] and me = mem [unfolded ws_memory_def Let_def, folded r_def]
    and a = at [unfolded ws_at_def Let_def, folded r_def]
  note kt = cfg_keptD [OF conjunct1 [OF a]]
  let ?pa = "unat (loop_ws_A_addr c r i k)" and ?m = "len_I r i" and ?q = "len_K r k"
  let ?at = "loop_ws_A r + (of_nat (16 * i) * loop_ws_A_stride r + of_nat (16 * k))"
  note li = ws_lens(1) [OF cfg, folded r_def, OF i] and lk = ws_lens(3) [OF cfg, folded r_def, OF k]
  have nr: "\<not> ws_is_resadd c" and room: "loop_ws_room (unat (loop_ws_I r)) (unat (loop_ws_J r)) (unat (loop_ws_K r))" using cf by simp_all
  have pa: "unat (loop_ws_A_addr c r i k) + 16 \<le> 16384" if "i < unat (loop_ws_I r)" "k < unat (loop_ws_K r)" for i k
    using ws_A_fits [OF cfg, folded r_def, OF that] .
  have "scaled_at M (mem t) ?at (loop_ws_A_stride r) ?m ?q (load_scales s ! 0) (\<lambda>x y. P (16 * i + x) (16 * k + y))"
    by (rule scaled_at_part [OF scaled_at_wrote]) (use True me a li lk in blast)+
  then have P: "scaled_at M (mem t) ?at (load_strides t ! 0) ?m ?q (load_scales t ! 0) (\<lambda>x y. P (16 * i + x) (16 * k + y))"
    using cf by (simp add: kt)
  have run: "loop_ws_mvin_A M c r k j i t = mvin M ?at (block_operand (of_nat ?m) (of_nat ?q) (of_nat ?pa)) 0 t"
    using True cf li lk by (simp add: loop_ws_mvin_A_def Let_def block_offset)
  have unit: "(0 :: nat) < 3" "pixels_per_rows t ! 0 = 1" using cf by (simp_all add: kt)
  from mvin_scaled [OF kt(1) unit P block_len_le block_len_le pa [OF i k]]
  obtain u where u: "loop_ws_mvin_A M c r k j i t = Inr u" "cfg_kept t u" "\<exists>m. u = t\<lparr>spad := m\<rparr>"
      "\<forall>x < ?m. \<forall>y < ?q. spad u ! (?pa + x) ! y = P (16 * i + x) (16 * k + y)"
    and same: "\<And>x y. x < 16384 \<Longrightarrow> y < 16 \<Longrightarrow> x < ?pa \<or> ?pa + 16 \<le> x \<Longrightarrow> spad u ! x ! y = spad t ! x ! y"
    unfolding run succeeds_iff by blast
  have "A_tile c r P k' i' u" if "i' < unat (loop_ws_I r)" "k' < unat (loop_ws_K r)" "(i', k') \<in> insert (i, k) LA" for i' k'
  proof (cases "(i', k') = (i, k)")
    case False
    show ?thesis by (rule A_tile_kept [OF _ same pa [OF that(1,2)] ws_tiles_apart(1) [OF cfg, folded r_def, OF i k that(1,2) False]]) (use a that False in blast)
  qed (use u(4) in \<open>simp add: A_tile_def\<close>)
  moreover have "B_tile c r Q k' j' u" if "k' < unat (loop_ws_K r)" "j' < unat (loop_ws_J r)" "(k', j') \<in> LB" for k' j'
    by (rule B_tile_kept [OF _ same loop_ws_tiles(2) [OF nr room i k that(1,2)] loop_ws_tiles(3) [OF nr room i k that(1,2)]]) (use a that in blast)
  moreover have "\<And>x. x < 16 \<Longrightarrow> ?pa + x \<in> ws_area c r" using ws_tile_in_area(1) [OF cfg, folded r_def, OF _ i k] .
  ultimately have "ws_at M c s P Q D W (insert (i, k) LA) LB b cnt S u" using ws_at_spad [OF at u(2,3) same, folded r_def] by blast
  then show ?thesis using u(1) by simp
qed

lemma ws_mvin_B:
  fixes s t :: "'m sim"
  defines "r \<equiv> loop_ws_st s"
  assumes cfg: "ws_config c s" and mem: "ws_memory M s P Q" and at: "ws_at M c s P Q D W LA LB b cnt S t"
    and j: "j < unat (loop_ws_J r)" and k: "k < unat (loop_ws_K r)" and i: "i = 0 \<and> loop_ws_B r \<noteq> 0 \<or> (k, j) \<in> LB"
  shows "succeeds (loop_ws_mvin_B M c r k j i t) (ws_at M c s P Q D W LA (insert (k, j) LB) b cnt S)"
proof (cases "i = 0 \<and> loop_ws_B r \<noteq> 0")
  case False
  then show ?thesis using i at by (auto simp: loop_ws_mvin_B_def insert_absorb)
next
  case True
  note cf = cfg [unfolded ws_config_def Let_def, folded r_def] and me = mem [unfolded ws_memory_def Let_def, folded r_def]
    and a = at [unfolded ws_at_def Let_def, folded r_def]
  note kt = cfg_keptD [OF conjunct1 [OF a]]
  let ?pb = "unat (loop_ws_B_addr c r k j)" and ?q = "len_K r k" and ?n = "len_J r j"
  let ?at = "loop_ws_B r + (of_nat (16 * k) * loop_ws_B_stride r + of_nat (16 * j))"
  note lj = ws_lens(2) [OF cfg, folded r_def, OF j] and lk = ws_lens(3) [OF cfg, folded r_def, OF k]
  have nr: "\<not> ws_is_resadd c" and room: "loop_ws_room (unat (loop_ws_I r)) (unat (loop_ws_J r)) (unat (loop_ws_K r))" using cf by simp_all
  have pb: "unat (loop_ws_B_addr c r k j) + 16 \<le> 16384" if "k < unat (loop_ws_K r)" "j < unat (loop_ws_J r)" for k j
    using ws_B_fits [OF cfg, folded r_def, OF that] .
  have "scaled_at M (mem t) ?at (loop_ws_B_stride r) ?q ?n (load_scales s ! 1) (\<lambda>x y. Q (16 * k + x) (16 * j + y))"
    by (rule scaled_at_part [OF scaled_at_wrote]) (use True me a lj lk in blast)+
  then have Q: "scaled_at M (mem t) ?at (load_strides t ! 1) ?q ?n (load_scales t ! 1) (\<lambda>x y. Q (16 * k + x) (16 * j + y))"
    using cf by (simp add: kt)
  have run: "loop_ws_mvin_B M c r k j i t = mvin M ?at (block_operand (of_nat ?q) (of_nat ?n) (of_nat ?pb)) 1 t"
    using True cf lj lk by (simp add: loop_ws_mvin_B_def Let_def block_offset)
  have unit: "(1 :: nat) < 3" "pixels_per_rows t ! 1 = 1" using cf by (simp_all add: kt)
  from mvin_scaled [OF kt(1) unit Q block_len_le block_len_le pb [OF k j]]
  obtain u where u: "loop_ws_mvin_B M c r k j i t = Inr u" "cfg_kept t u" "\<exists>m. u = t\<lparr>spad := m\<rparr>"
      "\<forall>x < ?q. \<forall>y < ?n. spad u ! (?pb + x) ! y = Q (16 * k + x) (16 * j + y)"
    and same: "\<And>x y. x < 16384 \<Longrightarrow> y < 16 \<Longrightarrow> x < ?pb \<or> ?pb + 16 \<le> x \<Longrightarrow> spad u ! x ! y = spad t ! x ! y"
    unfolding run succeeds_iff by blast
  have "A_tile c r P k' i' u" if "i' < unat (loop_ws_I r)" "k' < unat (loop_ws_K r)" "(i', k') \<in> LA" for i' k'
    by (rule A_tile_kept [OF _ same loop_ws_tiles(1) [OF nr room that(1,2) k j]])
      (use a that loop_ws_tiles(3) [OF nr room that(1,2) k j] in blast)+
  moreover have "B_tile c r Q k' j' u" if "k' < unat (loop_ws_K r)" "j' < unat (loop_ws_J r)" "(k', j') \<in> insert (k, j) LB" for k' j'
  proof (cases "(k', j') = (k, j)")
    case False
    show ?thesis by (rule B_tile_kept [OF _ same pb [OF that(1,2)] ws_tiles_apart(2) [OF cfg, folded r_def, OF k j that(1,2) False]]) (use a that False in blast)
  qed (use u(4) in \<open>simp add: B_tile_def\<close>)
  moreover have "\<And>x. x < 16 \<Longrightarrow> ?pb + x \<in> ws_area c r" using ws_tile_in_area(2) [OF cfg, folded r_def, OF _ k j] .
  ultimately have "ws_at M c s P Q D W LA (insert (k, j) LB) b cnt S u" using ws_at_spad [OF at u(2,3) same, folded r_def] by blast
  then show ?thesis using u(1) by simp
qed

lemma ws_sum_step:
  "ws_sum P Q D i j (n + q) = ws_sum P Q D i j n + (\<Sum>x<q. scast (P i (n + x)) * scast (Q (n + x) j))"
  by (simp add: ws_sum_def sum_lessThan_add_block)

lemma ws_steps:
  fixes s :: "'m sim"
  defines "r \<equiv> loop_ws_st s"
  assumes "ws_config c s" "k < unat (loop_ws_K r)"
  shows "min (16 * k) (ws_inner r) = 16 * k" "min (16 * Suc k) (ws_inner r) = 16 * k + len_K r k"
  using assms by (auto simp: ws_config_def Let_def ws_inner_def block_len_def min_def)

lemma ws_blocks:
  fixes s :: "'m sim"
  defines "r \<equiv> loop_ws_st s"
  assumes cfg: "ws_config c s" and ij: "i < unat (loop_ws_I r)" "j < unat (loop_ws_J r)"
  shows "(i * unat (loop_ws_J r) + j) * 16 + 16 \<le> 512"
    and "i' < unat (loop_ws_I r) \<Longrightarrow> j' < unat (loop_ws_J r) \<Longrightarrow> (i', j') \<noteq> (i, j) \<Longrightarrow>
      (i * unat (loop_ws_J r) + j) * 16 + 16 \<le> (i' * unat (loop_ws_J r) + j') * 16 \<or>
      (i' * unat (loop_ws_J r) + j') * 16 + 16 \<le> (i * unat (loop_ws_J r) + j) * 16"
proof -
  let ?J = "unat (loop_ws_J r)"
  have "unat (loop_ws_I r) * ?J * 16 \<le> 512" using cfg by (simp add: ws_config_def Let_def loop_ws_room_def r_def)
  moreover have "(i * ?J + j + 1) * 16 \<le> unat (loop_ws_I r) * ?J * 16" by (rule mult_le_mono1 [OF tile_index [OF ij]])
  ultimately show "(i * ?J + j) * 16 + 16 \<le> 512" by simp
  assume i': "i' < unat (loop_ws_I r)" "j' < ?J" "(i', j') \<noteq> (i, j)"
  have "i' * ?J + j' \<noteq> i * ?J + j" by (rule index_apart [OF i'(2) ij(2) i'(3)])
  then show "(i * ?J + j) * 16 + 16 \<le> (i' * ?J + j') * 16 \<or> (i' * ?J + j') * 16 + 16 \<le> (i * ?J + j) * 16"
    using tiles_apart [of "i * ?J + j" "i' * ?J + j'"] by metis
qed

lemma ws_exec:
  fixes s t :: "'m sim"
  defines "r \<equiv> loop_ws_st s"
  assumes cfg: "ws_config c s" and at: "ws_at M c s P Q D W LA LB b cnt S t"
    and ij: "i < unat (loop_ws_I r)" "j < unat (loop_ws_J r)" and k: "k < unat (loop_ws_K r)"
    and i: "(i, k) \<in> LA" "(k, j) \<in> LB" "i = 0 \<or> b = Some (k, j)"
    and cnt: "cnt i j = k" and D: "ws_ex_accumulate c \<or> (\<forall>i j. D i j = 0)"
  shows "succeeds (loop_ws_exec c r k j i t) (ws_at M c s P Q D W LA LB (Some (k, j)) (\<lambda>i' j'. if i' = i \<and> j' = j then Suc k else cnt i' j') S)"
proof -
  note cf = cfg [unfolded ws_config_def Let_def, folded r_def] and a = at [unfolded ws_at_def Let_def, folded r_def]
  note kt = cfg_keptD [OF conjunct1 [OF a]]
  let ?pa = "unat (loop_ws_A_addr c r i k)" and ?pb = "unat (loop_ws_B_addr c r k j)" and ?base = "(i * unat (loop_ws_J r) + j) * 16"
  let ?m = "len_I r i" and ?n = "len_J r j" and ?q = "len_K r k" and ?acc = "ws_ex_accumulate c \<or> k \<noteq> 0"
  note li = ws_lens(1) [OF cfg, folded r_def, OF ij(1)] and lj = ws_lens(2) [OF cfg, folded r_def, OF ij(2)] and lk = ws_lens(3) [OF cfg, folded r_def, OF k]
  note blk = ws_blocks [OF cfg, folded r_def, OF ij] and st = ws_steps [OF cfg, folded r_def, OF k]
  have nr: "\<not> ws_is_resadd c" and room: "loop_ws_room (unat (loop_ws_I r)) (unat (loop_ws_J r)) (unat (loop_ws_K r))" using cf by simp_all
  note rows = loop_ws_tiles(1,2) [OF nr room ij(1) k k ij(2)]
  have small: "?base < 0x4000000" using blk(1) by simp
  have start: "loop_ws_C_start c + of_nat ((i * unat (loop_ws_J r) + j) * DIM) = acc_addr True ?base"
    using cf acc_start_addr(2) [OF small] by (simp add: loop_ws_C_start_def ADDR_LEN_def DIM_def del: of_nat_mult)
  have start': "acc_addr True ?base AND NOT (push_bit (ADDR_LEN - 2) 1) = acc_addr False ?base"
    using acc_addr_clear [OF small] by (simp add: ADDR_LEN_def)
  have run: "loop_ws_exec c r k j i t = compute (block_operand (of_nat ?m) (of_nat ?q) (of_nat ?pa)) (block_operand (of_nat 16) (of_nat 16) (- 1)) (i = 0)
      (preload (block_operand (of_nat ?q) (of_nat ?n) (if i = 0 then of_nat ?pb else - 1)) (block_operand (of_nat ?m) (of_nat ?n) (acc_addr ?acc ?base)) t)"
    unfolding loop_ws_exec_def Let_def start start' using li lj lk by (simp add: DIM_def)
  have "wf_state t" "mode t = WS" "\<not> a_transpose t" "\<not> b_transpose t" "a_stride t = 1" "c_stride t = 1" using cf by (simp_all add: kt)
  moreover have "?pa + ?m \<le> 16384" "?pb + ?q \<le> 16384" "?base + ?m \<le> 1024"
    using rows blk(1) block_len_le [of "unat (loop_ws_I r)" "unat (loop_ws_pad_I r)" i] block_len_le [of "unat (loop_ws_K r)" "unat (loop_ws_pad_K r)" k]
    by linarith+
  ultimately obtain u where u: "loop_ws_exec c r k j i t = Inr u" "cfg_kept t u" "spad u = spad t" "mem u = mem t"
    and pe: "\<forall>x < ?q. \<forall>y < ?n. pe_state u ! x ! y = (if i = 0 then scast (spad t ! (?pb + x) ! y) else pe_state t ! x ! y)"
    and acc: "\<forall>x < ?m. \<forall>y < ?n. accumulator u ! (?base + x) ! y = (if ?acc then accumulator t ! (?base + x) ! y else 0) +
        (\<Sum>z<?q. scast (spad t ! (?pa + x) ! z) * pe_state u ! z ! y)"
    and rest: "\<forall>x < 1024. \<forall>y < 16. \<not> (?base \<le> x \<and> x < ?base + ?m \<and> y < ?n) \<longrightarrow> accumulator u ! x ! y = accumulator t ! x ! y"
    using compute_block [of t ?m ?n ?q ?pa "i = 0" ?pb ?base ?acc] unfolding run succeeds_iff by auto
  have "B_tile c r Q k j t" "A_tile c r P k i t" "i \<noteq> 0 \<Longrightarrow> W_tile r Q k j t" using a i k ij by blast+
  then have W: "W_tile r Q k j u" and A: "A_tile c r P k i t" using pe by (auto simp: W_tile_def B_tile_def)
  have new: "acc_tile r (ws_sum P Q D) (Suc k) i j u"
    unfolding acc_tile_def st(2)
  proof (intro allI impI)
    fix x y assume xy: "x < ?m" "y < ?n"
    let ?i = "16 * i + x" and ?j = "16 * j + y"
    have "(\<Sum>z<?q. scast (spad t ! (?pa + x) ! z) * pe_state u ! z ! y) = (\<Sum>z<?q. scast (P ?i (16 * k + z)) * scast (Q (16 * k + z) ?j))"
      by (rule sum.cong) (use A W xy in \<open>auto simp: A_tile_def W_tile_def\<close>)
    moreover have "(if ?acc then accumulator t ! (?base + x) ! y else 0) = ws_sum P Q D ?i ?j (16 * k)"
    proof (cases ?acc)
      case True
      then have "acc_tile r (ws_sum P Q D) k i j t" using a ij cnt by metis
      then show ?thesis using True xy by (simp add: acc_tile_def st(1))
    qed (use D in \<open>simp add: ws_sum_def\<close>)
    ultimately show "accumulator u ! (?base + x) ! y = ws_sum P Q D ?i ?j (16 * k + ?q)"
      using acc xy by (simp add: ws_sum_step)
  qed
  have old: "acc_tile r V n i' j' u" if ij': "i' < unat (loop_ws_I r)" "j' < unat (loop_ws_J r)" "(i', j') \<noteq> (i, j)" and o: "acc_tile r V n i' j' t" for V n i' j'
    unfolding acc_tile_def
  proof (intro allI impI)
    let ?b = "(i' * unat (loop_ws_J r) + j') * 16"
    fix x y assume xy: "x < len_I r i'" "y < len_J r j'"
    have xy': "x < 16" "y < 16" using less_le_trans [OF xy(1) block_len_le] less_le_trans [OF xy(2) block_len_le] .
    have "?b + 16 \<le> 512" by (rule ws_blocks(1) [OF cfg, folded r_def, OF ij'(1,2)])
    moreover have "\<not> (?base \<le> ?b + x \<and> ?b + x < ?base + ?m \<and> y < ?n)"
      using blk(2) [OF ij'] xy'(1) block_len_le [of "unat (loop_ws_I r)" "unat (loop_ws_pad_I r)" i] by linarith
    ultimately have "accumulator u ! (?b + x) ! y = accumulator t ! (?b + x) ! y" using rest xy' by simp
    then show "accumulator u ! (?b + x) ! y = V (16 * i' + x) (16 * j' + y) (min (16 * n) (ws_inner r))"
      using o xy by (simp add: acc_tile_def)
  qed
  let ?cnt = "\<lambda>i' j'. if i' = i \<and> j' = j then Suc k else cnt i' j'"
  have tiles: "?cnt i' j' = 0 \<and> \<not> ws_ex_accumulate c \<or> acc_tile r (ws_sum P Q D) (?cnt i' j') i' j' u"
    if "i' < unat (loop_ws_I r)" "j' < unat (loop_ws_J r)" for i' j'
  proof (cases "(i', j') = (i, j)")
    case False
    have "cnt i' j' = 0 \<and> \<not> ws_ex_accumulate c \<or> acc_tile r (ws_sum P Q D) (cnt i' j') i' j' t" using a that by blast
    then show ?thesis using old [OF that False] False by auto
  qed (use new in auto)
  have "ws_at M c s P Q D W LA LB (Some (k, j)) ?cnt S u"
    unfolding ws_at_def Let_def r_def [symmetric]
    using a u(2-4) cfg_kept_trans [of s t u] W tiles by (simp add: A_tile_def B_tile_def)
  then show ?thesis using u(1) by simp
qed

text \<open>What leaves the accumulator for the finished sums.\<close>

definition ws_result :: "'m sim \<Rightarrow> (nat \<Rightarrow> nat \<Rightarrow> elem_t) \<Rightarrow> (nat \<Rightarrow> nat \<Rightarrow> elem_t) \<Rightarrow> (nat \<Rightarrow> nat \<Rightarrow> acc_t) \<Rightarrow> (nat \<times> nat \<Rightarrow> u8) \<Rightarrow> bool" where
  "ws_result s P Q D W \<longleftrightarrow> (let r = loop_ws_st s in \<forall>i < ws_out_rows r. \<forall>j < ws_cols r. acc_out s (ws_sum P Q D i j (ws_inner r)) = Inr (W (i, j)))"

lemma ws_mvout:
  fixes s t :: "'m sim"
  defines "r \<equiv> loop_ws_st s"
  defines "T \<equiv> \<lambda>k i j. if loop_ws_C r \<noteq> 0 \<and> Suc k = unat (loop_ws_K r) then {16 * i ..< 16 * i + len_I r i} \<times> {16 * j ..< 16 * j + len_J r j} else {}"
  assumes cfg: "ws_config c s" and mem: "ws_memory M s P Q" and res: "ws_result s P Q D W" and at: "ws_at M c s P Q D W LA LB b cnt S t"
    and ij: "i < unat (loop_ws_I r)" "j < unat (loop_ws_J r)" and cnt: "cnt i j = Suc k"
  shows "succeeds (loop_ws_mvout M c r k j i t) (ws_at M c s P Q D W LA LB b cnt (S \<union> T k i j))"
proof (cases "loop_ws_C r \<noteq> 0 \<and> Suc k = unat (loop_ws_K r)")
  case False
  then show ?thesis using at by (auto simp: loop_ws_mvout_def Let_def T_def)
next
  case True
  note cf = cfg [unfolded ws_config_def Let_def, folded r_def] and me = mem [unfolded ws_memory_def Let_def, folded r_def]
    and a = at [unfolded ws_at_def Let_def, folded r_def]
  note kt = cfg_keptD [OF conjunct1 [OF a]]
  let ?m = "len_I r i" and ?n = "len_J r j" and ?base = "(i * unat (loop_ws_J r) + j) * 16"
  let ?at = "loop_ws_C r + (of_nat (16 * i) * loop_ws_C_stride r + of_nat (16 * j))"
  note li = ws_lens(1) [OF cfg, folded r_def, OF ij(1)] and lj = ws_lens(2) [OF cfg, folded r_def, OF ij(2)]
  note blk = ws_blocks(1) [OF cfg, folded r_def, OF ij]
  have out_rows: "ws_out_rows r = ws_rows r" using True by (simp add: ws_out_rows_def)
  note me = me [unfolded out_rows] and a = a [unfolded out_rows]
  have fit: "?base + ?m \<le> 1024" using blk block_len_le [of "unat (loop_ws_I r)" "unat (loop_ws_pad_I r)" i] by linarith
  then have small: "?base < 0x4000000" by simp
  have start: "loop_ws_C_start c + of_nat ((i * unat (loop_ws_J r) + j) * DIM) = acc_addr True ?base"
    using cf acc_start_addr(2) [OF small] by (simp add: loop_ws_C_start_def ADDR_LEN_def DIM_def del: of_nat_mult)
  have run: "loop_ws_mvout M c r k j i t = mvout M ?at (block_operand (of_nat ?m) (of_nat ?n) (acc_addr True ?base)) t"
    unfolding loop_ws_mvout_def Let_def start using True cf me li lj by (simp add: sizeof_C_def block_offset)
  have tgt: "target_at M (mem t) ?at (loop_ws_C_stride r) ?m ?n"
    by (rule target_at_part [OF target_at_wrote]) (use me a li lj in blast)+
  have "ws_inner r \<le> 16 * Suc k" using True by (simp add: ws_inner_def)
  moreover have "acc_tile r (ws_sum P Q D) (Suc k) i j t" using a ij cnt by (metis nat.distinct(1))
  ultimately have sum: "accumulator t ! (?base + x) ! y = ws_sum P Q D (16 * i + x) (16 * j + y) (ws_inner r)" if "x < ?m" "y < ?n" for x y
    using that by (simp add: acc_tile_def min_def)
  have "acc_out s (ws_sum P Q D (16 * i + x) (16 * j + y) (ws_inner r)) = Inr (W (16 * i + x, 16 * j + y))" if "x < ?m" "y < ?n" for x y
    using res that li lj out_rows by (simp add: ws_result_def Let_def r_def)
  then have out: "acc_out t (accumulator t ! (?base + x) ! y) = Inr (W (16 * i + x, 16 * j + y))" if "x < ?m" "y < ?n" for x y
    using sum that by (simp add: kt)
  have "succeeds (mvout M ?at (block_operand (of_nat ?m) (of_nat ?n) (acc_addr True ?base)) t)
    (\<lambda>u. cfg_kept t u \<and> stored t u \<and> wrote M (mem t) (mem u) ({..<?m} \<times> {..<?n}) (dram_cell ?at (store_stride t)) (\<lambda>(x, y). W (16 * i + x, 16 * j + y)))"
    by (rule mvout_acc_tile [OF _ _ _ _ block_len_le block_len_le fit]) (use me cf kt tgt out in \<open>simp_all add: target_at_def\<close>)
  then obtain u where u: "loop_ws_mvout M c r k j i t = Inr u" "cfg_kept t u" "stored t u"
    "wrote M (mem t) (mem u) ({..<?m} \<times> {..<?n}) (dram_cell ?at (loop_ws_C_stride r)) (\<lambda>(x, y). W (16 * i + x, 16 * j + y))"
    using cf unfolding run succeeds_iff kt by auto
  have T: "T k i j = {16 * i ..< 16 * i + ?m} \<times> {16 * j ..< 16 * j + ?n}" "T k i j \<subseteq> {..<ws_rows r} \<times> {..<ws_cols r}"
    using True li lj by (auto simp: T_def)
  have "wrote M (mem s) (mem u) (S \<union> T k i j) (dram_cell (loop_ws_C r) (loop_ws_C_stride r)) W"
    by (rule wrote_Un [OF _ wrote_part [OF u(4), folded T(1)]]) (use a me T(2) in \<open>auto simp: target_at_def\<close>)
  moreover have "spad u = spad t" "pe_state u = pe_state t" "accumulator u = accumulator t" using u(3) by (auto simp: stored_def)
  ultimately have "ws_at M c s P Q D W LA LB b cnt (S \<union> T k i j) u"
    using a u(2) cfg_kept_trans [of s t u] T(2) unfolding ws_at_def Let_def r_def [symmetric] out_rows A_tile_def B_tile_def W_tile_def acc_tile_def by simp
  then show ?thesis using u(1) by simp
qed

section \<open>The loops\<close>

text \<open>How many steps a tile has behind it when the loops are at \<open>(k, j, i)\<close>, and what is written by then.\<close>

definition ws_cnt :: "nat \<Rightarrow> nat \<Rightarrow> nat \<Rightarrow> nat \<Rightarrow> nat \<Rightarrow> nat" where
  "ws_cnt k j i i' j' = (if j' < j \<or> j' = j \<and> i' < i then Suc k else k)"

definition ws_done :: "loop_ws_regs \<Rightarrow> nat \<Rightarrow> nat \<Rightarrow> nat \<Rightarrow> (nat \<times> nat) set" where
  "ws_done r k j i = (if loop_ws_C r = 0 \<or> Suc k < unat (loop_ws_K r) then {}
     else if Suc k = unat (loop_ws_K r) then
       {..<ws_rows r} \<times> blocks_upto (unat (loop_ws_J r)) (unat (loop_ws_pad_J r)) j \<union>
       blocks_upto (unat (loop_ws_I r)) (unat (loop_ws_pad_I r)) i \<times> block_set (unat (loop_ws_J r)) (unat (loop_ws_pad_J r)) j
     else {..<ws_rows r} \<times> {..<ws_cols r})"

definition ws_A_in :: "loop_ws_regs \<Rightarrow> nat \<Rightarrow> nat \<Rightarrow> nat \<Rightarrow> (nat \<times> nat) set" where
  "ws_A_in r k j i = {(i', k'). loop_ws_A r = 0 \<or> k' < k \<or> k' = k \<and> (j \<noteq> 0 \<or> i' < i)}"

definition ws_B_in :: "loop_ws_regs \<Rightarrow> nat \<Rightarrow> nat \<Rightarrow> nat \<Rightarrow> (nat \<times> nat) set" where
  "ws_B_in r k j i = {(k', j'). loop_ws_B r = 0 \<or> k' < k \<or> k' = k \<and> (j' < j \<or> j' = j \<and> i \<noteq> 0)}"

definition ws_inv where
  "ws_inv M c s P Q D W k j i t \<longleftrightarrow> ws_at M c s P Q D W (ws_A_in (loop_ws_st s) k j i) (ws_B_in (loop_ws_st s) k j i)
     (if i = 0 then None else Some (k, j)) (ws_cnt k j i) (ws_done (loop_ws_st s) k j i) t"

lemma ws_body:
  fixes s t :: "'m sim"
  defines "r \<equiv> loop_ws_st s"
  assumes cfg: "ws_config c s" and mem: "ws_memory M s P Q" and res: "ws_result s P Q D W" and D: "ws_ex_accumulate c \<or> (\<forall>i j. D i j = 0)"
    and ij: "i < unat (loop_ws_I r)" "j < unat (loop_ws_J r)" and k: "k < unat (loop_ws_K r)"
    and at: "ws_inv M c s P Q D W k j i t"
  shows "succeeds (loop_ws_body M c r k j i t) (ws_inv M c s P Q D W k j (Suc i))"
proof -
  let ?A = "ws_A_in r k j i" and ?B = "ws_B_in r k j i" and ?b = "if i = 0 then None else Some (k, j)" and ?S = "ws_done r k j i"
  let ?A' = "insert (i, k) ?A" and ?B' = "insert (k, j) ?B" and ?cnt = "\<lambda>i' j'. if i' = i \<and> j' = j then Suc k else ws_cnt k j i i' j'"
  let ?T = "if loop_ws_C r \<noteq> 0 \<and> Suc k = unat (loop_ws_K r) then {16 * i ..< 16 * i + len_I r i} \<times> {16 * j ..< 16 * j + len_J r j} else {}"
  have ja: "j = 0 \<and> loop_ws_A r \<noteq> 0 \<or> (i, k) \<in> ?A" and ib: "i = 0 \<and> loop_ws_B r \<noteq> 0 \<or> (k, j) \<in> ?B"
    by (auto simp: ws_A_in_def ws_B_in_def)
  obtain t1 where t1: "loop_ws_mvin_A M c r k j i t = Inr t1" "ws_at M c s P Q D W ?A' ?B ?b (ws_cnt k j i) ?S t1"
    using ws_mvin_A [OF cfg mem at [unfolded ws_inv_def], folded r_def, OF ij(1) k ja] unfolding succeeds_iff by blast
  obtain t2 where t2: "loop_ws_mvin_B M c r k j i t1 = Inr t2" "ws_at M c s P Q D W ?A' ?B' ?b (ws_cnt k j i) ?S t2"
    using ws_mvin_B [OF cfg mem t1(2), folded r_def, OF ij(2) k ib] unfolding succeeds_iff by blast
  have "i = 0 \<or> ?b = Some (k, j)" "ws_cnt k j i i j = k" by (simp_all add: ws_cnt_def)
  then obtain t3 where t3: "loop_ws_exec c r k j i t2 = Inr t3" "ws_at M c s P Q D W ?A' ?B' (Some (k, j)) ?cnt ?S t3"
    using ws_exec [OF cfg t2(2), folded r_def, OF ij k _ _ _ _ D] unfolding succeeds_iff by blast
  obtain t4 where t4: "loop_ws_mvout M c r k j i t3 = Inr t4" "ws_at M c s P Q D W ?A' ?B' (Some (k, j)) ?cnt (?S \<union> ?T) t4"
    using ws_mvout [OF cfg mem res t3(2), folded r_def, OF ij] unfolding succeeds_iff by auto
  have "?A' = ws_A_in r k j (Suc i)" "?B' = ws_B_in r k j (Suc i)" using ja ib by (auto simp: ws_A_in_def ws_B_in_def)
  moreover have "?cnt = ws_cnt k j (Suc i)" by (auto simp: fun_eq_iff ws_cnt_def)
  moreover have "?S \<union> ?T = ws_done r k j (Suc i)" using k by (auto simp: ws_done_def blocks_upto_Suc block_set_def)
  ultimately have "ws_inv M c s P Q D W k j (Suc i) t4" using t4(2) by (simp add: ws_inv_def r_def)
  then show ?thesis using t1(1) t2(1) t3(1) t4(1) by (simp add: loop_ws_body_def)
qed

text \<open>What the invariant says when a loop ends is what it says when the next one starts.\<close>

lemma ws_at_weaken:
  assumes "ws_at M c s P Q D W LA LB b cnt S t"
    and "\<And>i k. i < unat (loop_ws_I (loop_ws_st s)) \<Longrightarrow> (i, k) \<in> LA' \<Longrightarrow> (i, k) \<in> LA"
    and "\<And>k j. j < unat (loop_ws_J (loop_ws_st s)) \<Longrightarrow> (k, j) \<in> LB' \<Longrightarrow> (k, j) \<in> LB"
    and "\<And>i j. i < unat (loop_ws_I (loop_ws_st s)) \<Longrightarrow> j < unat (loop_ws_J (loop_ws_st s)) \<Longrightarrow> cnt' i j = cnt i j" "S' = S"
  shows "ws_at M c s P Q D W LA' LB' None cnt' S' t"
  using assms unfolding ws_at_def Let_def by simp

lemma ws_next_column:
  fixes s :: "'m sim"
  assumes "ws_config c s" "0 < unat (loop_ws_I (loop_ws_st s))" "ws_inv M c s P Q D W k j (unat (loop_ws_I (loop_ws_st s))) t"
  shows "ws_inv M c s P Q D W k (Suc j) 0 t"
proof -
  let ?r = "loop_ws_st s"
  have "unat (loop_ws_pad_I ?r) \<le> 16" using assms(1) by (simp add: ws_config_def Let_def)
  then have "blocks_upto (unat (loop_ws_I ?r)) (unat (loop_ws_pad_I ?r)) (unat (loop_ws_I ?r)) = {..<ws_rows ?r}"
    unfolding ws_rows_def by (rule blocks_all)
  then have S: "ws_done ?r k (Suc j) 0 = ws_done ?r k j (unat (loop_ws_I ?r))" by (auto simp: ws_done_def blocks_upto_Suc)
  show ?thesis unfolding ws_inv_def if_True simp_thms
    by (rule ws_at_weaken [OF assms(3) [unfolded ws_inv_def]]) (use assms(2) S in \<open>auto simp: ws_cnt_def ws_A_in_def ws_B_in_def\<close>)
qed

lemma ws_next_step:
  fixes s :: "'m sim"
  assumes "ws_config c s" "0 < unat (loop_ws_J (loop_ws_st s))" "k < unat (loop_ws_K (loop_ws_st s))"
    and "ws_inv M c s P Q D W k (unat (loop_ws_J (loop_ws_st s))) 0 t"
  shows "ws_inv M c s P Q D W (Suc k) 0 0 t"
proof -
  let ?r = "loop_ws_st s"
  have "unat (loop_ws_pad_J ?r) \<le> 16" using assms(1) by (simp add: ws_config_def Let_def)
  then have "blocks_upto (unat (loop_ws_J ?r)) (unat (loop_ws_pad_J ?r)) (unat (loop_ws_J ?r)) = {..<ws_cols ?r}"
    unfolding ws_cols_def by (rule blocks_all)
  then have S: "ws_done ?r (Suc k) 0 0 = ws_done ?r k (unat (loop_ws_J ?r)) 0"
    using assms(3) by (auto simp: ws_done_def blocks_upto_def)
  show ?thesis unfolding ws_inv_def if_True simp_thms
    by (rule ws_at_weaken [OF assms(4) [unfolded ws_inv_def]]) (use assms(2) S in \<open>auto simp: ws_cnt_def ws_A_in_def ws_B_in_def less_Suc_eq\<close>)
qed

lemma ws_loops:
  fixes s t :: "'m sim"
  assumes cfg: "ws_config c s" and mem: "ws_memory M s P Q" and res: "ws_result s P Q D W" and D: "ws_ex_accumulate c \<or> (\<forall>i j. D i j = 0)"
    and pos: "0 < unat (loop_ws_I (loop_ws_st s))" "0 < unat (loop_ws_J (loop_ws_st s))" and init: "ws_inv M c s P Q D W 0 0 0 t"
  shows "succeeds (forE (unat (loop_ws_K (loop_ws_st s))) (\<lambda>k. forE (unat (loop_ws_J (loop_ws_st s))) (\<lambda>j. forE (unat (loop_ws_I (loop_ws_st s))) (loop_ws_body M c (loop_ws_st s) k j))) t)
    (ws_inv M c s P Q D W (unat (loop_ws_K (loop_ws_st s))) 0 0)"
proof -
  let ?r = "loop_ws_st s" and ?inv = "ws_inv M c s P Q D W"
  have column: "succeeds (forE (unat (loop_ws_I ?r)) (loop_ws_body M c ?r k j) t) (?inv k (Suc j) 0)"
    if "k < unat (loop_ws_K ?r)" "j < unat (loop_ws_J ?r)" "?inv k j 0 t" for k j t
    by (rule succeeds_mono [OF forE_succeeds [where P = "?inv k j"]])
      (use that ws_body [OF cfg mem res D] ws_next_column [OF cfg pos(1)] in blast)+
  have step: "succeeds (forE (unat (loop_ws_J ?r)) (\<lambda>j. forE (unat (loop_ws_I ?r)) (loop_ws_body M c ?r k j)) t) (?inv (Suc k) 0 0)"
    if "k < unat (loop_ws_K ?r)" "?inv k 0 0 t" for k t
    by (rule succeeds_mono [OF forE_succeeds [where P = "\<lambda>j. ?inv k j 0"]])
      (use that column ws_next_step [OF cfg pos(2)] in blast)+
  show ?thesis by (rule forE_succeeds [where P = "\<lambda>k. ?inv k 0 0"]) (use init step in blast)+
qed

end
