(* ===== verification/Gemmini_WS_Correct.thy ===== *)
theory Gemmini_WS_Correct
  imports Gemmini_Product_Correct
begin

text \<open>
  \<open>loop_ws\<close> as a whole: the bias is moved into the accumulator, the loops multiply and write the
  result.
\<close>

section \<open>The bias\<close>

text \<open>A bias in memory, of bytes that are scaled or of 32-bit words: element size \<open>sz\<close>, row stride in bytes.\<close>

definition bias_at :: "'m mmu \<Rightarrow> 'm \<Rightarrow> u64 \<Rightarrow> u64 \<Rightarrow> bool \<Rightarrow> f32 \<Rightarrow> nat \<Rightarrow> nat \<Rightarrow> (nat \<Rightarrow> nat \<Rightarrow> acc_t) \<Rightarrow> bool" where
  "bias_at M m base stride low scale rows cols D \<longleftrightarrow> (\<forall>i < rows. \<forall>j < cols.
     let a = base + of_nat i * stride + of_nat j * (if low then 1 else 4) in
     a \<noteq> 0 \<and> mvin_acc_value M m False low scale a = Inr (D i j))"

lemma bias_at_nonzero:
  assumes "bias_at M m base stride low scale rows cols D" "0 < rows" "0 < cols"
  shows "base \<noteq> 0"
proof -
  have "base + of_nat 0 * stride + of_nat 0 * (if low then 1 else 4) \<noteq> 0" using assms unfolding bias_at_def Let_def by blast
  then show ?thesis by simp
qed

lemma mvin_bias_tile:
  fixes s :: "'m sim" and addr :: u64
  assumes s: "wf_state s" "pixels_per_rows s ! 2 = 1" "load_shrunks s ! 2 = low"
    and shape: "m \<le> 16" "n \<le> 16" "base + m \<le> 1024" "0 < m" "0 < n"
    and D: "bias_at M (mem s) addr (load_strides s ! 2) low (load_scales s ! 2) m n V"
  shows "succeeds (mvin M addr (block_operand (of_nat m) (of_nat n) (acc_addr False base)) 2 s)
    (\<lambda>t. wf_state t \<and> (\<exists>a. t = s\<lparr>accumulator := a\<rparr>) \<and> (\<forall>i < m. \<forall>j < n. accumulator t ! (base + i) ! j = V i j) \<and>
      (\<forall>r < 1024. \<forall>c < 16. \<not> (base \<le> r \<and> r < base + m) \<longrightarrow> accumulator t ! r ! c = accumulator s ! r ! c))"
proof -
  have small: "m < 0x10000" "n < 0x10000" "base < 0x4000000" using shape by simp_all
  note f = acc_addr_fields [OF small(3)]
  let ?b = "unat (load_block_strides s ! 2)"
  have "addr \<noteq> 0" by (rule bias_at_nonzero [OF D shape(4,5)])
  then have val: "mvin_acc_value M (mem s) (addr = 0) (load_shrunks s ! 2) (load_scales s ! 2)
      (addr + of_nat i * (load_strides s ! 2) + of_nat j * (if load_shrunks s ! 2 then 1 else 4)) = Inr (V i j)" if "i < m" "j < n" for i j
    using D that s(3) by (simp add: bias_at_def Let_def)
  have inj: "n \<le> 16 \<or> m \<le> ?b" and two: "(2 :: nat) < 3" using shape(2) by simp_all
  have fit: "fst (mvin_cell (unat (acc_addr False base AND 0x1FFFFFFF)) ?b (i, j)) < 1024" if "i < m" "j < n" for i j
    using that shape by (simp add: f mvin_cell_narrow)
  from mvin_acc_block [OF s(1) two s(2) small(1,2) f(1) inj fit val]
  obtain t a where t: "mvin M addr (block_operand (of_nat m) (of_nat n) (acc_addr False base)) 2 s = Inr t"
      "wf_state t" "t = s\<lparr>accumulator := a\<rparr>"
    and new: "\<And>i j. i < m \<Longrightarrow> j < n \<Longrightarrow> (let r = fst (mvin_cell base ?b (i, j)); c = snd (mvin_cell base ?b (i, j)) in
        mat_at (accumulator t) r c = Inr ((if False then accumulator s ! r ! c else 0) + V i j))"
    and old: "\<And>k. k \<notin> mvin_cell base ?b ` ({..<m} \<times> {..<n}) \<Longrightarrow>
        mat_at (accumulator t) (fst k) (snd k) = mat_at (accumulator s) (fst k) (snd k)"
    unfolding succeeds_iff f by blast
  have "accumulator t ! (base + i) ! j = V i j" if "i < m" "j < n" for i j
    using new [OF that] that shape(2) by (simp add: mvin_cell_narrow Let_def mat_at_Inr_iff)
  moreover have "accumulator t ! r ! c = accumulator s ! r ! c" if "r < 1024" "c < 16" "\<not> (base \<le> r \<and> r < base + m)" for r c
    using old [of "(r, c)"] that mvin_cell_narrow_image [OF shape(2)] wf_state_at(2) [OF s(1)] wf_state_at(2) [OF t(2)] by auto
  ultimately show ?thesis using t by auto
qed

text \<open>The bias is moved into the accumulator block of every tile.\<close>

definition bias_memory :: "'m mmu \<Rightarrow> loop_ws_ctl \<Rightarrow> 'm sim \<Rightarrow> (nat \<Rightarrow> nat \<Rightarrow> acc_t) \<Rightarrow> bool" where
  "bias_memory M c s D \<longleftrightarrow> (let r = loop_ws_st s; sz = (if ws_low_D c then 1 else 4) in
     loop_ws_D r \<noteq> 0 \<and> ws_ex_accumulate c \<and> pixels_per_rows s ! 2 = 1 \<and> load_shrunks s ! 2 = ws_low_D c \<and> load_strides s ! 2 = loop_ws_D_stride r * sz \<and>
     bias_at M (mem s) (loop_ws_D r) (loop_ws_D_stride r * sz) (ws_low_D c) (load_scales s ! 2) (ws_rows r) (ws_cols r) D)"

lemma bias_at_part:
  assumes "bias_at M m base stride low scale rows cols D" "i + n \<le> rows" "j + k \<le> cols"
  shows "bias_at M m (base + of_nat i * stride + of_nat j * (if low then 1 else 4)) stride low scale n k (\<lambda>x y. D (i + x) (j + y))"
proof -
  have e: "base + of_nat i * stride + of_nat j * (if low then 1 else 4) + of_nat x * stride + of_nat y * (if low then 1 else 4) =
      base + of_nat (i + x) * stride + of_nat (j + y) * (if low then 1 else 4)" for x y
    by (simp add: algebra_simps)
  have "i + x < rows" "j + y < cols" if "x < n" "y < k" for x y using that assms(2,3) by linarith+
  then show ?thesis using assms(1) unfolding bias_at_def Let_def e by blast
qed

lemma acc_tile_kept:
  assumes "acc_tile r V n i j t" "\<And>x y. x < 1024 \<Longrightarrow> y < 16 \<Longrightarrow> \<not> (lo \<le> x \<and> x < lo + m) \<Longrightarrow> accumulator u ! x ! y = accumulator t ! x ! y"
    and "(i * unat (loop_ws_J r) + j) * 16 + 16 \<le> 512" "m \<le> 16"
    "lo + 16 \<le> (i * unat (loop_ws_J r) + j) * 16 \<or> (i * unat (loop_ws_J r) + j) * 16 + 16 \<le> lo"
  shows "acc_tile r V n i j u"
proof -
  let ?p = "(i * unat (loop_ws_J r) + j) * 16"
  have "accumulator u ! (?p + a) ! y = accumulator t ! (?p + a) ! y" if "a < 16" "y < 16" for a y
    by (rule assms(2)) (use that assms(3-5) in linarith)+
  then show ?thesis
    using assms(1) less_le_trans [OF _ block_len_le] unfolding acc_tile_def by metis
qed

text \<open>One tile of the bias.\<close>

lemma ws_bias_tile:
  fixes s t :: "'m sim"
  defines "r \<equiv> loop_ws_st s" and "sz \<equiv> \<lambda>c. if ws_low_D c then 1 else 4"
  assumes cfg: "ws_config c s" and bias: "bias_memory M c s D" and t: "wf_state t" "\<exists>a. t = s\<lparr>accumulator := a\<rparr>"
    and ij: "i < unat (loop_ws_I r)" "j < unat (loop_ws_J r)"
  shows "succeeds (mvin M (loop_ws_D r + (of_nat i * loop_ws_D_stride r + of_nat j) * of_nat DIM * sz c)
      (block_operand (tile_len i (unat (loop_ws_I r)) (loop_ws_pad_I r)) (tile_len j (unat (loop_ws_J r)) (loop_ws_pad_J r))
        (loop_ws_D_start + of_nat ((i * unat (loop_ws_J r) + j) * DIM))) 2 t)
    (\<lambda>u. wf_state u \<and> (\<exists>a. u = s\<lparr>accumulator := a\<rparr>) \<and> acc_tile r (ws_sum P Q D) 0 i j u \<and>
      (\<forall>i' j'. i' < unat (loop_ws_I r) \<longrightarrow> j' < unat (loop_ws_J r) \<longrightarrow> acc_tile r (ws_sum P Q D) 0 i' j' t \<longrightarrow> acc_tile r (ws_sum P Q D) 0 i' j' u))"
proof -
  let ?m = "len_I r i" and ?n = "len_J r j" and ?p = "(i * unat (loop_ws_J r) + j) * 16"
  note li = ws_lens(1) [OF cfg, folded r_def, OF ij(1)] and lj = ws_lens(2) [OF cfg, folded r_def, OF ij(2)]
  note bl = ws_blocks [OF cfg, folded r_def, OF ij] and b = bias [unfolded bias_memory_def Let_def, folded r_def]
  have ts: "mem t = mem s" "load_strides t = load_strides s" "load_scales t = load_scales s" "pixels_per_rows t = pixels_per_rows s"
    "load_shrunks t = load_shrunks s" using t(2) by auto
  let ?at = "loop_ws_D r + of_nat (16 * i) * (loop_ws_D_stride r * sz c) + of_nat (16 * j) * sz c"
  have at: "loop_ws_D r + (of_nat i * loop_ws_D_stride r + of_nat j) * of_nat DIM * sz c = ?at"
    by (simp add: algebra_simps DIM_def)
  have sp: "loop_ws_D_start + of_nat ?p = acc_addr False ?p"
    using acc_start_addr(1) [of ?p] bl(1) by (simp add: loop_ws_D_start_def size_defs ADDR_LEN_def)
  have "bias_at M (mem t) ?at (load_strides t ! 2) (ws_low_D c) (load_scales t ! 2) ?m ?n (\<lambda>x y. D (16 * i + x) (16 * j + y))"
    unfolding ts sz_def using bias_at_part [of M "mem s" "loop_ws_D r" "loop_ws_D_stride r * (if ws_low_D c then 1 else 4)" "ws_low_D c" "load_scales s ! 2"
      "ws_rows r" "ws_cols r" D "16 * i" ?m "16 * j" ?n] b li lj by simp
  moreover have "?p + ?m \<le> 1024" using bl(1) block_len_le [of "unat (loop_ws_I r)" "unat (loop_ws_pad_I r)" i] by linarith
  ultimately have "succeeds (mvin M ?at (block_operand (of_nat ?m) (of_nat ?n) (acc_addr False ?p)) 2 t)
    (\<lambda>u. wf_state u \<and> (\<exists>a. u = t\<lparr>accumulator := a\<rparr>) \<and> (\<forall>x < ?m. \<forall>y < ?n. accumulator u ! (?p + x) ! y = D (16 * i + x) (16 * j + y)) \<and>
      (\<forall>x < 1024. \<forall>y < 16. \<not> (?p \<le> x \<and> x < ?p + ?m) \<longrightarrow> accumulator u ! x ! y = accumulator t ! x ! y))"
    by (intro mvin_bias_tile) (use t b li lj in \<open>simp_all add: ts block_len_le\<close>)
  then obtain u where u: "mvin M ?at (block_operand (of_nat ?m) (of_nat ?n) (acc_addr False ?p)) 2 t = Inr u" "wf_state u" "\<exists>a. u = t\<lparr>accumulator := a\<rparr>"
      "\<forall>x < ?m. \<forall>y < ?n. accumulator u ! (?p + x) ! y = D (16 * i + x) (16 * j + y)"
    and same: "\<And>x y. x < 1024 \<Longrightarrow> y < 16 \<Longrightarrow> \<not> (?p \<le> x \<and> x < ?p + ?m) \<Longrightarrow> accumulator u ! x ! y = accumulator t ! x ! y"
    unfolding succeeds_iff by blast
  have here: "acc_tile r (ws_sum P Q D) 0 i j u" using u(4) by (simp add: acc_tile_def ws_sum_def)
  have there: "acc_tile r (ws_sum P Q D) 0 i' j' u" if "i' < unat (loop_ws_I r)" "j' < unat (loop_ws_J r)" "acc_tile r (ws_sum P Q D) 0 i' j' t" for i' j'
  proof (cases "(i', j') = (i, j)")
    case False
    then show ?thesis
      using acc_tile_kept [OF that(3) same ws_blocks(1) [OF cfg, folded r_def, OF that(1,2)] block_len_le bl(2) [OF that(1,2)]] by blast
  qed (use here in simp)
  have "\<exists>a. u = s\<lparr>accumulator := a\<rparr>" using u(3) t(2) by auto
  then show ?thesis using u(1,2) here there unfolding at [unfolded DIM_def] DIM_def sp conjunct1 [OF li] conjunct1 [OF lj] by simp
qed

lemma ws_load_bias:
  fixes s :: "'m sim"
  defines "r \<equiv> loop_ws_st s"
  assumes cfg: "ws_config c s" and bias: "bias_memory M c s D"
  shows "succeeds (loop_ws_load_D M c r s) (\<lambda>t. wf_state t \<and> (\<exists>a. t = s\<lparr>accumulator := a\<rparr>) \<and>
    (\<forall>i < unat (loop_ws_I r). \<forall>j < unat (loop_ws_J r). acc_tile r (ws_sum P Q D) 0 i j t))"
proof -
  let ?I = "unat (loop_ws_I r)" and ?J = "unat (loop_ws_J r)"
  define Inv where "Inv = (\<lambda>i j (t :: 'm sim). wf_state t \<and> (\<exists>a. t = s\<lparr>accumulator := a\<rparr>) \<and>
    (\<forall>i' < ?I. \<forall>j' < ?J. i' < i \<or> i' = i \<and> j' < j \<longrightarrow> acc_tile r (ws_sum P Q D) 0 i' j' t))"
  define F where "F = (\<lambda>i j. mvin M (loop_ws_D r + (of_nat i * loop_ws_D_stride r + of_nat j) * of_nat DIM * (if ws_low_D c then 1 else 4))
      (block_operand (tile_len i ?I (loop_ws_pad_I r)) (tile_len j ?J (loop_ws_pad_J r)) (loop_ws_D_start + of_nat ((i * ?J + j) * DIM))) 2)"
  have tile: "succeeds (F i j t) (Inv i (Suc j))" if "i < ?I" "j < ?J" "Inv i j t" for i j t
  proof -
    have t: "wf_state t" "\<exists>a. t = s\<lparr>accumulator := a\<rparr>" using that(3) by (auto simp: Inv_def)
    show ?thesis unfolding F_def
      by (rule succeeds_mono [OF ws_bias_tile [OF cfg bias t, folded r_def, OF that(1,2), where P = P and Q = Q]])
        (use that(3) in \<open>auto simp: Inv_def less_Suc_eq\<close>)
  qed
  have row: "succeeds (forE ?J (F i) t) (Inv (Suc i) 0)" if "i < ?I" "Inv i 0 t" for i t
    by (rule succeeds_mono [OF forE_succeeds [where P = "Inv i"]]) (use that tile in \<open>auto simp: Inv_def less_Suc_eq\<close>)
  have "Inv 0 0 s" using cfg by (auto simp: Inv_def ws_config_def Let_def intro: exI [of _ "accumulator s"])
  then have "succeeds (forE ?I (\<lambda>i. forE ?J (F i)) s) (Inv ?I 0)" by (rule forE_succeeds) (use row in blast)
  moreover have "loop_ws_load_D M c r s = forE ?I (\<lambda>i. forE ?J (F i)) s"
    using bias unfolding loop_ws_load_D_def F_def bias_memory_def Let_def r_def by simp
  ultimately show ?thesis by (auto simp: Inv_def elim!: succeeds_mono)
qed

section \<open>The whole instruction\<close>

text \<open>
  What the job finds: a bias in memory, or the blocks of the accumulator when the job accumulates,
  or nothing; and the tiles of an operand without an address, left in the scratchpad by an earlier job.
\<close>

definition ws_start :: "'m mmu \<Rightarrow> loop_ws_ctl \<Rightarrow> 'm sim \<Rightarrow> (nat \<Rightarrow> nat \<Rightarrow> elem_t) \<Rightarrow> (nat \<Rightarrow> nat \<Rightarrow> elem_t) \<Rightarrow> (nat \<Rightarrow> nat \<Rightarrow> acc_t) \<Rightarrow> bool" where
  "ws_start M c s P Q D \<longleftrightarrow> (let r = loop_ws_st s in
     (if loop_ws_D r \<noteq> 0 then bias_memory M c s D
      else if ws_ex_accumulate c then \<forall>i < unat (loop_ws_I r). \<forall>j < unat (loop_ws_J r). acc_tile r (\<lambda>i j _. D i j) 0 i j s
      else \<forall>i j. D i j = 0) \<and>
     (loop_ws_A r = 0 \<longrightarrow> (\<forall>i < unat (loop_ws_I r). \<forall>k < unat (loop_ws_K r). A_tile c r P k i s)) \<and>
     (loop_ws_B r = 0 \<longrightarrow> (\<forall>k < unat (loop_ws_K r). \<forall>j < unat (loop_ws_J r). B_tile c r Q k j s)))"

text \<open>What it leaves.\<close>

definition ws_end :: "'m mmu \<Rightarrow> loop_ws_ctl \<Rightarrow> (nat \<Rightarrow> nat \<Rightarrow> elem_t) \<Rightarrow> (nat \<Rightarrow> nat \<Rightarrow> elem_t) \<Rightarrow> (nat \<Rightarrow> nat \<Rightarrow> acc_t) \<Rightarrow> (nat \<times> nat \<Rightarrow> u8) \<Rightarrow> 'm sim \<Rightarrow> 'm sim \<Rightarrow> bool" where
  "ws_end M c P Q D W s t \<longleftrightarrow> (let r = loop_ws_st s in cfg_kept s t \<and>
     wrote M (mem s) (mem t) ({..<ws_out_rows r} \<times> {..<ws_cols r}) (dram_cell (loop_ws_C r) (loop_ws_C_stride r)) W \<and>
     (\<forall>x < 16384. \<forall>y < 16. x \<notin> ws_area c r \<longrightarrow> spad t ! x ! y = spad s ! x ! y) \<and>
     (\<forall>i < unat (loop_ws_I r). \<forall>k < unat (loop_ws_K r). A_tile c r P k i t) \<and>
     (\<forall>k < unat (loop_ws_K r). \<forall>j < unat (loop_ws_J r). B_tile c r Q k j t) \<and>
     (\<forall>i < unat (loop_ws_I r). \<forall>j < unat (loop_ws_J r). acc_tile r (ws_sum P Q D) (unat (loop_ws_K r)) i j t))"

lemma ws_config_fits:
  assumes "ws_config c s"
  shows "loop_ws_fits (loop_ws_st s)"
  using assms loop_ws_fits_room [of "loop_ws_st s"] by (simp add: ws_config_def Let_def loop_ws_room_def)

lemma ws_load_start:
  fixes s :: "'m sim"
  defines "r \<equiv> loop_ws_st s"
  assumes cfg: "ws_config c s" and D: "ws_start M c s P Q D"
  shows "succeeds (loop_ws_load_D M c r s) (\<lambda>t. wf_state t \<and> (\<exists>a. t = s\<lparr>accumulator := a\<rparr>) \<and> (ws_ex_accumulate c \<or> (\<forall>i j. D i j = 0)) \<and>
    (ws_ex_accumulate c \<longrightarrow> (\<forall>i < unat (loop_ws_I r). \<forall>j < unat (loop_ws_J r). acc_tile r (ws_sum P Q D) 0 i j t)))"
proof (cases "loop_ws_D r = 0")
  case True
  moreover have "wf_state s" using cfg by (simp add: ws_config_def Let_def)
  moreover have "\<exists>a. s = s\<lparr>accumulator := a\<rparr>" by (rule exI [of _ "accumulator s"]) simp
  ultimately show ?thesis
    using D by (auto simp: loop_ws_load_D_def Let_def ws_start_def r_def acc_tile_def ws_sum_def split: if_splits)
next
  case False
  then have "bias_memory M c s D" using D by (simp add: ws_start_def Let_def r_def)
  moreover from this have "ws_ex_accumulate c" by (simp add: bias_memory_def Let_def)
  ultimately show ?thesis using ws_load_bias [OF cfg, folded r_def] by (auto elim!: succeeds_mono)
qed

lemma loop_ws_product:
  fixes s :: "'m sim"
  assumes cfg: "ws_config (loop_ws_decode rs1 rs2) s" and mem: "ws_memory M s P Q" and D: "ws_start M (loop_ws_decode rs1 rs2) s P Q D"
    and res: "ws_result s P Q D W" and pos: "0 < unat (loop_ws_I (loop_ws_st s))" "0 < unat (loop_ws_J (loop_ws_st s))" "0 < unat (loop_ws_K (loop_ws_st s))"
  shows "succeeds (loop_ws M rs1 rs2 s) (ws_end M (loop_ws_decode rs1 rs2) P Q D W s)"
proof -
  let ?c = "loop_ws_decode rs1 rs2" and ?r = "loop_ws_st s"
  obtain t where t: "loop_ws_load_D M ?c ?r s = Inr t" "wf_state t" "\<exists>a. t = s\<lparr>accumulator := a\<rparr>" "ws_ex_accumulate ?c \<or> (\<forall>i j. D i j = 0)"
    and acc: "ws_ex_accumulate ?c \<Longrightarrow> i < unat (loop_ws_I ?r) \<Longrightarrow> j < unat (loop_ws_J ?r) \<Longrightarrow> acc_tile ?r (ws_sum P Q D) 0 i j t" for i j
    using ws_load_start [OF cfg D] unfolding succeeds_iff by blast
  have r: "mem t = mem s" "spad t = spad s" using t(3) by auto
  have "cfg_kept s t" using t(2,3) cfg_kept_updates(2) by blast
  moreover have "loop_ws_A ?r = 0 \<Longrightarrow> i < unat (loop_ws_I ?r) \<Longrightarrow> k < unat (loop_ws_K ?r) \<Longrightarrow> A_tile ?c ?r P k i t"
    "loop_ws_B ?r = 0 \<Longrightarrow> j < unat (loop_ws_J ?r) \<Longrightarrow> k < unat (loop_ws_K ?r) \<Longrightarrow> B_tile ?c ?r Q k j t" for i j k
    using D by (simp_all add: ws_start_def Let_def A_tile_def B_tile_def r)
  ultimately have "ws_inv M ?c s P Q D W 0 0 0 t"
    using acc pos(3) by (auto simp: ws_inv_def ws_at_def Let_def r ws_cnt_def ws_done_def ws_A_in_def ws_B_in_def)
  then have "succeeds (forE (unat (loop_ws_K ?r)) (\<lambda>k. forE (unat (loop_ws_J ?r)) (\<lambda>j. forE (unat (loop_ws_I ?r)) (loop_ws_body M ?c ?r k j))) t)
    (ws_inv M ?c s P Q D W (unat (loop_ws_K ?r)) 0 0)"
    by (rule ws_loops [OF cfg mem res t(4) pos(1,2)])
  moreover have "ws_end M ?c P Q D W s u" if "ws_inv M ?c s P Q D W (unat (loop_ws_K ?r)) 0 0 u" for u
    using that pos(3) by (simp add: ws_inv_def ws_at_def Let_def ws_end_def ws_cnt_def ws_A_in_def ws_B_in_def ws_done_def ws_out_rows_def split: if_splits)
  moreover have "\<not> ws_is_resadd ?c" using cfg by (simp add: ws_config_def Let_def)
  ultimately show ?thesis
    using ws_config_fits [OF cfg] t(1) by (auto simp: loop_ws_def Let_def elim!: succeeds_mono)
qed

end
