(* ===== verification/Driver_Matmul_Correct.thy ===== *)
theory Driver_Matmul_Correct
  imports Driver_Resadd_Correct Gemmini_WS_Correct
begin

text \<open>
  The tiled matrix multiplication of the driver on the accelerator, weight-stationary: the
  configuration arrives, each tile is one product of the hardware loop, the partial products of a
  tile meet in the accumulator, and operands that stay in the scratchpad are reused.
\<close>

section \<open>The configuration\<close>

definition mm_relu :: "matmul_args \<Rightarrow> Activation" where
  "mm_relu m = (if mm_act m = ACT_RELU then RELU else NONE)"

definition mm_out :: "matmul_args \<Rightarrow> acc_t \<Rightarrow> elem_t res" where
  "mm_out m v = bindE (acc_scale v (mm_scale m)) (\<lambda>e. Inr (apply_activation e (mm_relu m)))"

definition bias_stride :: "matmul_args \<Rightarrow> u64" where
  "bias_stride m = (if mm_repeating_bias m then 0 else mm_stride_D m * 4)"

text \<open>A plain product: bytes in, scaled and possibly rectified bytes out, 32-bit bias, no transposition.\<close>

definition mm_plain :: "matmul_args \<Rightarrow> bool" where
  "mm_plain m \<longleftrightarrow> (mm_act m = ACT_NO_ACTIVATION \<or> mm_act m = ACT_RELU) \<and> \<not> mm_a_transpose m \<and> \<not> mm_b_transpose m \<and>
     \<not> mm_full_C m \<and> \<not> mm_low_D m \<and> fits 32 (mm_stride_C m)"

definition mm_configured :: "matmul_args \<Rightarrow> 'm sim \<Rightarrow> bool" where
  "mm_configured m s \<longleftrightarrow> wf_state s \<and> unat (norm_stat_id (norm_st s)) < 4 \<and> pool_stride s = 0 \<and>
     mode s = WS \<and> \<not> a_transpose s \<and> \<not> b_transpose s \<and> a_stride s = 1 \<and> c_stride s = 1 \<and>
     (\<forall>id < 3. pixels_per_rows s ! id = 1) \<and> load_strides s ! 0 = mm_stride_A m \<and> load_strides s ! 1 = mm_stride_B m \<and>
     load_strides s ! 2 = bias_stride m \<and> load_scales s ! 0 = mm_A_scale m \<and> load_scales s ! 1 = mm_B_scale m \<and>
     \<not> load_shrunks s ! 2 \<and> store_stride s = mm_stride_C m \<and> acc_out s = mm_out m \<and> acc_act s \<noteq> SOFTMAX"

lemma mm_configured_kept: "mm_configured m s \<Longrightarrow> cfg_kept s t \<Longrightarrow> mm_configured m t"
  using cfg_keptD [of s t] by (simp add: mm_configured_def)

lemma config_ld3_arrives:
  fixes s :: "'m sim" and stride :: u64 and scale :: f32 and shrunk :: bool
  assumes "wf_arrays s" "0 \<le> ld_id" "ld_id < 3"
  defines "t \<equiv> s\<lparr>load_strides := (load_strides s)[nat ld_id := stride], load_block_strides := (load_block_strides s)[nat ld_id := 16],
      load_scales := (load_scales s)[nat ld_id := scale], load_shrunks := (load_shrunks s)[nat ld_id := shrunk],
      pixels_per_rows := (pixels_per_rows s)[nat ld_id := 1]\<rparr>"
  shows "run_ops M (gemmini_extended3_config_ld stride scale shrunk ld_id) s = Inr t" "wf_arrays t"
proof -
  have z: "fits 16 16" "fits 8 1" by (simp_all add: fitsI fits_def)
  show "run_ops M (gemmini_extended3_config_ld stride scale shrunk ld_id) s = Inr t"
    using config_ld_arrives [OF assms(1-3), of 16 1 M stride scale shrunk] z
    by (simp add: gemmini_extended3_config_ld_def gemmini_extended4_config_ld_def t_def DIM_def)
  show "wf_arrays t" using assms(1) by (simp add: t_def wf_arrays_def)
qed

lemma outer_config_arrives:
  fixes s :: "'m sim"
  assumes s: "wf_state s" "unat (norm_stat_id (norm_st s)) < 4" "acc_act s \<noteq> SOFTMAX" and m: "mm_plain m"
  shows "\<exists>t. run_ops M (outer_config m 1) s = Inr t \<and> mem t = mem s \<and> mm_configured m t"
proof -
  let ?act = "word_of_int (mm_act m) AND (3 :: u32)"
  have ma: "mm_act m = 0 \<or> mm_act m = 1" using m by (auto simp: mm_plain_def ACT_NO_ACTIVATION_def ACT_RELU_def)
  have act: "fits 2 (ucast ?act)" "act_of_bits (acc_act s) (ucast ?act) = Inr (mm_relu m)" "act_of_bits (acc_act s) (word_of_int (uint ?act)) = Inr (mm_relu m)"
    "0 \<le> uint ?act" "uint ?act \<le> 3"
    using s(3) ma by (cases "acc_act s"; auto simp: act_of_bits_def mm_relu_def ACT_RELU_def intro!: fitsI)+
  have z: "fits n 0" "fits 16 1" for n by (simp_all add: fitsI fits_def)
  have str: "(ucast (ucast (mm_stride_C m) :: u32) :: u64) = mm_stride_C m" by (rule narrow_back [of 32]) (use m in \<open>simp_all add: mm_plain_def\<close>)
  define s1 where "s1 = s\<lparr>mode := WS, sys_act := mm_relu m, sys_shift := 0,
      sys_acc_shift := f32_of_int (uint (acc_scale_t_to_acc_scale_t_bits ACC_SCALE_IDENTITY)),
      a_transpose := False, b_transpose := False, c_stride := 1, a_stride := 1\<rparr>"
  have s1: "run_ops M (gemmini_extended_config_ex 1 (uint ?act) 0 1 False False) s = Inr s1"
    using config_ex_arrives [OF _ _ act(4,5) _ _ _ act(3), of 1 1 1 0 False False M ACC_SCALE_IDENTITY] z
    by (simp add: s1_def gemmini_extended_config_ex_def gemmini_extended2_config_ex_def)
  define s2 where "s2 = s1\<lparr>store_stride := mm_stride_C m, acc_act := mm_relu m, acc_shift := mm_scale m, pool_stride := 0,
      pool_size := 0, pool_upad := 0, pool_lpad := 0, pool_out_dim := 0, pool_porows := 0, pool_pocols := 0, pool_orows := 0, pool_ocols := 0\<rparr>"
  have a1: "act_of_bits (acc_act s1) (ucast ?act) = Inr (mm_relu m)" using act(2) by (simp add: s1_def)
  have s2: "run_ops M (gemmini_extended_config_st (ucast (ucast (mm_stride_C m) :: u32)) (ucast ?act) (mm_scale m)) s1 = Inr s2"
    using config_st_arrives [OF act(1) a1 z(1) z(1) z(1) z(1) z(1) z(1) z(1) z(1) z(1), of M "ucast (mm_stride_C m)" "mm_scale m"] str
    by (simp add: gemmini_extended_config_st_def s2_def)
  have w2: "wf_arrays s2" using s(1) by (simp add: s2_def s1_def wf_state_def wf_arrays_def)
  have len: "length (load_strides s) = 3" "length (load_shrunks s) = 3" "length (load_scales s) = 3" "length (pixels_per_rows s) = 3"
    using s(1) by (simp_all add: wf_state_def wf_arrays_def LOAD_STATES_def)
  define ld where "ld = (\<lambda>n stride scale (s :: 'm sim). s\<lparr>load_strides := (load_strides s)[n := stride], load_block_strides := (load_block_strides s)[n := 16],
      load_scales := (load_scales s)[n := scale], load_shrunks := (load_shrunks s)[n := False], pixels_per_rows := (pixels_per_rows s)[n := 1]\<rparr>)"
  have ld: "run_ops M (gemmini_extended3_config_ld stride scale False id) u = Inr (ld (nat id) stride scale u)" "wf_arrays (ld (nat id) stride scale u)"
    if "wf_arrays u" "0 \<le> id" "id < 3" for u id stride scale
    using config_ld3_arrives [OF that, where stride = stride and scale = scale and shrunk = False] unfolding ld_def by blast+
  define t where "t = ld 2 (bias_stride m) (bias_scale (mm_D_scale m)) (ld 1 (mm_stride_B m) (mm_B_scale m) (ld 0 (mm_stride_A m) (mm_A_scale m) s2))"
  note w3 = ld(2) [OF w2, of 0 "mm_stride_A m" "mm_A_scale m", simplified] and w4 = ld(2) [OF ld(2) [OF w2], of 0 1 "mm_stride_B m" "mm_B_scale m" "mm_stride_A m" "mm_A_scale m", simplified]
  have t: "run_ops M (outer_config m 1) s = Inr t"
    using m s1 s2 ld(1) [OF w2, of 0 "mm_stride_A m" "mm_A_scale m"] ld(1) [OF w3, of 1 "mm_stride_B m" "mm_B_scale m"]
      ld(1) [OF w4, of 2 "bias_stride m" "bias_scale (mm_D_scale m)"]
    by (simp add: mm_plain_def outer_config_def Let_def run_ops_append t_def bias_stride_def)
  have "wf_arrays t" using ld(2) [OF w4, of 2] by (simp add: t_def)
  then have wf: "wf_state t" using s(1) by (simp add: wf_state_def t_def ld_def s2_def s1_def wf_memories_def)
  have act_t: "acc_act t = mm_relu m" "acc_shift t = mm_scale m" "mem t = mem s" by (simp_all add: t_def ld_def s2_def s1_def)
  have "acc_out t = mm_out m"
    using act_t by (auto simp: acc_out_def fun_eq_iff apply_pre_activation_acc_def apply_activation_acc_def mm_out_def mm_relu_def)
  then have "mm_configured m t"
    unfolding mm_configured_def using wf s len by (simp add: mm_relu_def t_def ld_def s2_def s1_def less_Suc_eq numeral_3_eq_3 numeral_2_eq_2)
  then show ?thesis using t act_t(3) by blast
qed

section \<open>The registers of a tile\<close>

text \<open>A tiling the driver can have chosen, and the place of a tile in one dimension of a matrix.\<close>

definition mm_chosen :: "matmul_args \<Rightarrow> nat \<Rightarrow> nat \<Rightarrow> nat \<Rightarrow> bool" where
  "mm_chosen m I J K \<longleftrightarrow> mm_plain m \<and> dims_ok m \<and> 0 < mm_dim_I m \<and> 0 < mm_dim_J m \<and> 0 < mm_dim_K m \<and> fits_room TM_WS I J K \<and> 0 < I \<and> 0 < J \<and> 0 < K"

abbreviation count_I :: "matmul_args \<Rightarrow> nat \<Rightarrow> nat" where "count_I m I \<equiv> tiles_of (blocks_of (mm_dim_I m)) I"
abbreviation count_J :: "matmul_args \<Rightarrow> nat \<Rightarrow> nat" where "count_J m J \<equiv> tiles_of (blocks_of (mm_dim_J m)) J"
abbreviation count_K :: "matmul_args \<Rightarrow> nat \<Rightarrow> nat" where "count_K m K \<equiv> tiles_of (blocks_of (mm_dim_K m)) K"

definition tile_from :: "nat \<Rightarrow> nat \<Rightarrow> nat" where "tile_from t i = i * t * 16"

definition tile_width :: "u64 \<Rightarrow> nat \<Rightarrow> nat \<Rightarrow> nat" where
  "tile_width d t i = 16 * tile_size (blocks_of d) t i - dim_pad_at d t i"

lemma tile_place:
  assumes "0 < d" "0 < t" "i < tiles_of (blocks_of d) t"
  shows "tile_from t i + tile_width d t i = min (tile_from t (Suc i)) (unat d)" "0 < tile_width d t i" "tile_from t i < unat d"
    "dim_pad_at d t i < 16"
proof -
  have d: "0 < unat d" using assms(1) by (simp add: word_less_nat_alt)
  note seg = tile_segment [OF d blocks_of_def assms(2,3), folded dim_pad_at_def]
  show "tile_from t i + tile_width d t i = min (tile_from t (Suc i)) (unat d)" using seg(1) by (simp add: tile_from_def tile_width_def mult.commute)
  show "0 < tile_width d t i" using seg(2,4) by (simp add: tile_width_def)
  show "tile_from t i < unat d" "dim_pad_at d t i < 16" using seg(4,5) by (simp_all add: tile_from_def)
qed

lemma tile_within: "0 < d \<Longrightarrow> 0 < t \<Longrightarrow> i < tiles_of (blocks_of d) t \<Longrightarrow> tile_from t i + tile_width d t i \<le> unat d"
  by (simp add: tile_place)

text \<open>Whether a tile of an operand stays in the scratchpad for the next tiles, and in which half.\<close>

definition reuse_A :: "matmul_args \<Rightarrow> nat \<Rightarrow> nat \<Rightarrow> bool" where "reuse_A m I K \<longleftrightarrow> count_I m I * count_K m K \<le> 2"
definition reuse_B :: "matmul_args \<Rightarrow> nat \<Rightarrow> nat \<Rightarrow> bool" where "reuse_B m J K \<longleftrightarrow> count_J m J * count_K m K \<le> 2"

lemma counts_word:
  assumes "unat d < 2 ^ 31" "unat e < 2 ^ 31" "0 < t" "t \<le> 1024" "0 < u" "u \<le> 1024"
  shows "tile_count d (of_nat t) * tile_count e (of_nat u) \<le> 2 \<longleftrightarrow> tiles_of (blocks_of d) t * tiles_of (blocks_of e) u \<le> 2"
proof -
  have le: "tiles_of (blocks_of d) t \<le> 2 ^ 27" "tiles_of (blocks_of e) u \<le> 2 ^ 27"
    using tiles_of_le [OF assms(3), of "blocks_of d"] tiles_of_le [OF assms(5), of "blocks_of e"] blocks_of_le [OF assms(1)] blocks_of_le [OF assms(2)] by simp_all
  have "tiles_of (blocks_of d) t * tiles_of (blocks_of e) u \<le> 2 ^ 27 * 2 ^ 27" by (rule mult_le_mono [OF le])
  then have "tiles_of (blocks_of d) t * tiles_of (blocks_of e) u < 2 ^ 64" by simp
  then show ?thesis
    using outer_sizes(1) [OF assms(1,3)] outer_sizes(1) [OF assms(2,5)] assms(4,6)
    by (simp add: word_le_nat_alt unat_of_small del: of_nat_mult flip: of_nat_mult)
qed

lemma reuse_word:
  assumes "mm_chosen m I J K"
  shows "tile_count (mm_dim_I m) (of_nat I) * tile_count (mm_dim_K m) (of_nat K) \<le> 2 \<longleftrightarrow> reuse_A m I K"
    "tile_count (mm_dim_J m) (of_nat J) * tile_count (mm_dim_K m) (of_nat K) \<le> 2 \<longleftrightarrow> reuse_B m J K"
proof -
  have d: "unat (mm_dim_I m) < 2 ^ 31" "unat (mm_dim_J m) < 2 ^ 31" "unat (mm_dim_K m) < 2 ^ 31" and pos: "0 < I" "0 < J" "0 < K" and f: "fits_room TM_WS I J K"
    using assms by (simp_all add: mm_chosen_def dims_ok_def)
  note b = fits_room_small [OF f pos]
  show "tile_count (mm_dim_I m) (of_nat I) * tile_count (mm_dim_K m) (of_nat K) \<le> 2 \<longleftrightarrow> reuse_A m I K"
    "tile_count (mm_dim_J m) (of_nat J) * tile_count (mm_dim_K m) (of_nat K) \<le> 2 \<longleftrightarrow> reuse_B m J K"
    unfolding reuse_A_def reuse_B_def using counts_word [OF d(1,3) pos(1) b(1) pos(3) b(3)] counts_word [OF d(2,3) pos(2) b(2) pos(3) b(3)] by blast+
qed

lemma tile_regs:
  fixes m :: matmul_args and I J K i j k :: nat and r0 :: loop_ws_regs
  assumes m: "mm_chosen m I J K" and ijk: "i < count_I m I" "j < count_J m J" "k < count_K m K"
  defines "a \<equiv> ws_loop_args (outer_tile m (tiling_of I J K) 1 i j k)"
  defines "r \<equiv> loop_ws_regs_of a r0"
  shows "unat (loop_ws_I r) = tile_size (blocks_of (mm_dim_I m)) I i" "unat (loop_ws_J r) = tile_size (blocks_of (mm_dim_J m)) J j"
    "unat (loop_ws_K r) = tile_size (blocks_of (mm_dim_K m)) K k"
    "unat (loop_ws_pad_I r) = dim_pad_at (mm_dim_I m) I i" "unat (loop_ws_pad_J r) = dim_pad_at (mm_dim_J m) J j" "unat (loop_ws_pad_K r) = dim_pad_at (mm_dim_K m) K k"
    and "loop_ws_A r = (if reuse_A m I K \<and> 1 \<le> j then 0 else mm_A m + (of_nat (tile_from I i) * mm_stride_A m + of_nat (tile_from K k)))"
    "loop_ws_B r = (if reuse_B m J K \<and> 1 \<le> i then 0 else mm_B m + (of_nat (tile_from K k) * mm_stride_B m + of_nat (tile_from J j)))"
    "loop_ws_C r = (if Suc k = count_K m K then mm_C m + (of_nat (tile_from I i) * mm_stride_C m + of_nat (tile_from J j)) else 0)"
    "loop_ws_D r = (if mm_D m = 0 \<or> k \<noteq> 0 then 0 else mm_D m + of_nat (tile_from I i) * bias_stride m + of_nat (tile_from J j) * 4)"
    "loop_ws_A_stride r = mm_stride_A m" "loop_ws_B_stride r = mm_stride_B m" "loop_ws_C_stride r = mm_stride_C m"
    "loop_ws_D_stride r * 4 = bias_stride m"
proof -
  note ch = m [unfolded mm_chosen_def mm_plain_def]
  have pos: "0 < I" "0 < J" "0 < K" and ok: "dims_ok m" "0 < mm_dim_I m" "0 < mm_dim_J m" "0 < mm_dim_K m" "fits_room TM_WS I J K" using ch by simp_all
  note sz = outer_tile_sizes [OF ok pos ijk, of 1] and b = fits_room_small [OF ok(5) pos]
  have d: "unat (mm_dim_I m) < 2 ^ 31" "unat (mm_dim_J m) < 2 ^ 31" "unat (mm_dim_K m) < 2 ^ 31" using ok(1) by (simp_all add: dims_ok_def)
  have u: "unat (ucast (of_nat n :: u64) :: u16) = n" if "n \<le> 1024" for n
    using that by (simp add: unsigned_ucast_eq unat_of_small take_bit_nat_eq_self)
  have le: "tile_size (blocks_of (mm_dim_I m)) I i \<le> 1024" "tile_size (blocks_of (mm_dim_J m)) J j \<le> 1024" "tile_size (blocks_of (mm_dim_K m)) K k \<le> 1024"
    using tile_size_pos_le [OF pos(1)] tile_size_pos_le [OF pos(2)] tile_size_pos_le [OF pos(3)] b by (meson le_trans)+
  have pd: "dim_pad_at (mm_dim_I m) I i \<le> 1024" "dim_pad_at (mm_dim_J m) J j \<le> 1024" "dim_pad_at (mm_dim_K m) K k \<le> 1024"
    using dim_pad_small [OF d(1), of I i] dim_pad_small [OF d(2), of J j] dim_pad_small [OF d(3), of K k] by simp_all
  show "unat (loop_ws_I r) = tile_size (blocks_of (mm_dim_I m)) I i" "unat (loop_ws_J r) = tile_size (blocks_of (mm_dim_J m)) J j"
    "unat (loop_ws_K r) = tile_size (blocks_of (mm_dim_K m)) K k"
    "unat (loop_ws_pad_I r) = dim_pad_at (mm_dim_I m) I i" "unat (loop_ws_pad_J r) = dim_pad_at (mm_dim_J m) J j" "unat (loop_ws_pad_K r) = dim_pad_at (mm_dim_K m) K k"
    using u le pd by (simp_all add: r_def loop_ws_regs_of_def a_def ws_loop_args_def sz)
  note ru = reuse_word [OF m]
  have n: "count_K m K < 2 ^ 64" using tiles_of_le [OF pos(3), of "blocks_of (mm_dim_K m)"] blocks_of_le [OF d(3)] by simp
  have "K \<le> 2 ^ 27" using b(3) by simp
  then have lastk: "(of_nat k :: u64) = tile_count (mm_dim_K m) (of_nat K) - 1 \<longleftrightarrow> Suc k = count_K m K"
    using word_last(2) [OF _ n ijk(3)] ijk(3) outer_sizes(1) [OF d(3) pos(3)] by simp
  note defs = r_def loop_ws_regs_of_def a_def ws_loop_args_def outer_tile_def Let_def tiling_of_def ru lastk tile_from_def DIM_def WEIGHT_STATIONARY_def
  show "loop_ws_A r = (if reuse_A m I K \<and> 1 \<le> j then 0 else mm_A m + (of_nat (tile_from I i) * mm_stride_A m + of_nat (tile_from K k)))"
    "loop_ws_B r = (if reuse_B m J K \<and> 1 \<le> i then 0 else mm_B m + (of_nat (tile_from K k) * mm_stride_B m + of_nat (tile_from J j)))"
    "loop_ws_C r = (if Suc k = count_K m K then mm_C m + (of_nat (tile_from I i) * mm_stride_C m + of_nat (tile_from J j)) else 0)"
    "loop_ws_D r = (if mm_D m = 0 \<or> k \<noteq> 0 then 0 else mm_D m + of_nat (tile_from I i) * bias_stride m + of_nat (tile_from J j) * 4)"
    "loop_ws_A_stride r = mm_stride_A m" "loop_ws_B_stride r = mm_stride_B m" "loop_ws_C_stride r = mm_stride_C m"
    "loop_ws_D_stride r * 4 = bias_stride m"
    using ch by (simp_all add: defs bias_stride_def)
qed

lemma tile_ctl:
  fixes m :: matmul_args and I J K i j k :: nat
  assumes m: "mm_chosen m I J K"
  shows "loop_ws_ctl_of (ws_loop_args (outer_tile m (tiling_of I J K) 1 i j k)) =
    \<lparr>ws_ex_accumulate = (mm_D m \<noteq> 0 \<or> k \<noteq> 0), ws_full_C = False, ws_low_D = False, ws_act = word_of_int (mm_act m),
      ws_a_transpose = False, ws_b_transpose = False, ws_a_spad_id = (if reuse_A m I K then if i + k = 0 then 1 else 2 else 0),
      ws_b_spad_id = (if reuse_B m J K then if j + k = 0 then 1 else 2 else 0), ws_is_resadd = False\<rparr>"
proof -
  note ch = m [unfolded mm_chosen_def mm_plain_def]
  note ru = reuse_word [OF m]
  have odd: "1 + x * 4 \<noteq> (0 :: u64)" for x
  proof
    assume "1 + x * 4 = 0"
    then have "bit (1 + push_bit 2 x) 0 = bit (0 :: u64) 0" by (simp add: push_bit_eq_mult mult.commute)
    then show False by (simp add: bit_0 push_bit_eq_mult)
  qed
  have low: "mm_low_D m = False" using ch by simp
  have ex: "(\<not> mm_D m = 0 \<or> (if k \<noteq> 0 then 0 else (if mm_D m = 0 then 1 else mm_D m) + x * 4) = 0) \<longleftrightarrow> mm_D m \<noteq> 0 \<or> k \<noteq> 0" for x
    using odd [of x] by (cases "mm_D m = 0"; cases "k = 0") simp_all
  have act: "mm_act m = 0 \<or> mm_act m = 1" using ch by (auto simp: ACT_NO_ACTIVATION_def ACT_RELU_def)
  have "(ucast (word_of_int (mm_act m) :: u64) :: u8) = word_of_int (mm_act m)" using act by auto
  then show ?thesis
    unfolding loop_ws_ctl_of_def ws_loop_args_def outer_tile_def Let_def loop_ws_args.select_convs tile_args.select_convs low if_False ex
      tiling_of_def tiling.select_convs ru
    using ch by (simp add: WEIGHT_STATIONARY_def)
qed

section \<open>Operands, bias and result\<close>

text \<open>No byte of the bias is a byte of the result.\<close>

definition bias_apart :: "matmul_args \<Rightarrow> bool" where
  "bias_apart m \<longleftrightarrow> (\<forall>i < unat (mm_dim_I m). \<forall>j < unat (mm_dim_J m). \<forall>b < 4.
     mm_D m + of_nat i * bias_stride m + of_nat j * 4 + of_nat b \<notin> dram_cell (mm_C m) (mm_stride_C m) ` ({..<unat (mm_dim_I m)} \<times> {..<unat (mm_dim_J m)}))"

definition mm_memory :: "'m mmu \<Rightarrow> matmul_args \<Rightarrow> 'm \<Rightarrow> (nat \<Rightarrow> nat \<Rightarrow> elem_t) \<Rightarrow> (nat \<Rightarrow> nat \<Rightarrow> elem_t) \<Rightarrow> (nat \<Rightarrow> nat \<Rightarrow> acc_t) \<Rightarrow> (nat \<times> nat \<Rightarrow> u8) \<Rightarrow> bool" where
  "mm_memory M m mm P Q D W \<longleftrightarrow> (let I = unat (mm_dim_I m); J = unat (mm_dim_J m); K = unat (mm_dim_K m) in mmu_ok M \<and>
     scaled_at M mm (mm_A m) (mm_stride_A m) I K (mm_A_scale m) P \<and> scaled_at M mm (mm_B m) (mm_stride_B m) K J (mm_B_scale m) Q \<and>
     target_at M mm (mm_C m) (mm_stride_C m) I J \<and> (\<forall>i < I. \<forall>j < J. dram_cell (mm_C m) (mm_stride_C m) (i, j) \<noteq> 0) \<and>
     cells_apart (mm_C m) (mm_stride_C m) (mm_A m) (mm_stride_A m) I J I K \<and> cells_apart (mm_C m) (mm_stride_C m) (mm_B m) (mm_stride_B m) I J K J \<and>
     (if mm_D m = 0 then D = (\<lambda>_ _. 0) else (\<forall>scale. bias_at M mm (mm_D m) (bias_stride m) False scale I J D) \<and> bias_apart m) \<and>
     (\<forall>i < I. \<forall>j < J. mm_out m (ws_sum P Q D i j K) = Inr (W (i, j))))"

lemma bias_at_wrote:
  assumes "bias_at M mm (mm_D m) (bias_stride m) False scale (unat (mm_dim_I m)) (unat (mm_dim_J m)) D" "bias_apart m"
    and "wrote M mm mm' S (dram_cell (mm_C m) (mm_stride_C m)) W" "S \<subseteq> {..<unat (mm_dim_I m)} \<times> {..<unat (mm_dim_J m)}"
  shows "bias_at M mm' (mm_D m) (bias_stride m) False scale (unat (mm_dim_I m)) (unat (mm_dim_J m)) D"
proof -
  have "read_from_dram M mm' (mm_D m + of_nat i * bias_stride m + of_nat j * 4) = (read_from_dram M mm (mm_D m + of_nat i * bias_stride m + of_nat j * 4) :: acc_t res)"
    if "i < unat (mm_dim_I m)" "j < unat (mm_dim_J m)" for i j
  proof (rule read_from_dram_cong)
    fix b assume "b < bytes_of TYPE(32)"
    then have "mm_D m + of_nat i * bias_stride m + of_nat j * 4 + of_nat b \<notin> dram_cell (mm_C m) (mm_stride_C m) ` S"
      using assms(2,4) that unfolding bias_apart_def bytes_of_def by (auto simp: subset_iff image_iff)
    then show "mmu_load M mm' (mm_D m + of_nat i * bias_stride m + of_nat j * 4 + of_nat b) = mmu_load M mm (mm_D m + of_nat i * bias_stride m + of_nat j * 4 + of_nat b)"
      by (rule wrote_outside [OF assms(3)])
  qed
  then show ?thesis using assms(1) by (simp add: bias_at_def mvin_acc_value_def)
qed

lemma mm_memory_wrote:
  assumes "mm_memory M m mm P Q D W" "wrote M mm mm' S (dram_cell (mm_C m) (mm_stride_C m)) W'" "S \<subseteq> {..<unat (mm_dim_I m)} \<times> {..<unat (mm_dim_J m)}"
  shows "mm_memory M m mm' P Q D W"
  using assms(1) scaled_at_wrote [OF _ assms(2,3)] target_at_wrote [OF _ assms(2)] bias_at_wrote [OF _ _ assms(2,3)]
  unfolding mm_memory_def Let_def by (auto split: if_splits)

text \<open>The last tile ends with the matrix.\<close>

lemma last_tile_from:
  assumes "0 < t" "Suc i = tiles_of (blocks_of d) t"
  shows "unat d \<le> tile_from t (Suc i)"
proof -
  have "blocks_of d \<le> tiles_of (blocks_of d) t * t"
  proof -
    have "blocks_of d = blocks_of d div t * t + blocks_of d mod t" by simp
    moreover have "blocks_of d mod t \<le> of_bool (blocks_of d mod t \<noteq> 0) * t" using assms(1) by (auto simp: less_imp_le)
    ultimately show ?thesis unfolding div_ceil [OF assms(1), symmetric] add_mult_distrib by linarith
  qed
  then have "blocks_of d * 16 \<le> tile_from t (Suc i)" unfolding tile_from_def assms(2) by (rule mult_le_mono1)
  moreover have "unat d \<le> blocks_of d * 16" by (simp add: blocks_of_def)
  ultimately show ?thesis by (rule le_trans [rotated])
qed

lemma ws_sum_part:
  "ws_sum (\<lambda>x y. P (i + x) (k + y)) (\<lambda>x y. Q (k + x) (j + y)) (\<lambda>x y. ws_sum P Q D (i + x) (j + y) k) x y n = ws_sum P Q D (i + x) (j + y) (k + n)"
  by (simp add: ws_sum_def sum_lessThan_add_block add.assoc)

section \<open>One tile\<close>

text \<open>A tile of A or of B in the scratchpad, from row \<open>h\<close> on, and the sums of a tile of C in the accumulator.\<close>

definition A_at :: "matmul_args \<Rightarrow> nat \<Rightarrow> nat \<Rightarrow> (nat \<Rightarrow> nat \<Rightarrow> elem_t) \<Rightarrow> nat \<Rightarrow> nat \<Rightarrow> nat \<Rightarrow> 'm sim \<Rightarrow> bool" where
  "A_at m I K P h i k t \<longleftrightarrow> (let X = tile_size (blocks_of (mm_dim_I m)) I i; Z = tile_size (blocks_of (mm_dim_K m)) K k in
     \<forall>a < X. \<forall>b < Z. \<forall>x < block_len X (dim_pad_at (mm_dim_I m) I i) a. \<forall>y < block_len Z (dim_pad_at (mm_dim_K m) K k) b.
       spad t ! (h + (a * Z + b) * 16 + x) ! y = P (tile_from I i + (16 * a + x)) (tile_from K k + (16 * b + y)))"

definition B_at :: "matmul_args \<Rightarrow> nat \<Rightarrow> nat \<Rightarrow> (nat \<Rightarrow> nat \<Rightarrow> elem_t) \<Rightarrow> nat \<Rightarrow> nat \<Rightarrow> nat \<Rightarrow> 'm sim \<Rightarrow> bool" where
  "B_at m J K Q h j k t \<longleftrightarrow> (let Y = tile_size (blocks_of (mm_dim_J m)) J j; Z = tile_size (blocks_of (mm_dim_K m)) K k in
     \<forall>b < Z. \<forall>c < Y. \<forall>x < block_len Z (dim_pad_at (mm_dim_K m) K k) b. \<forall>y < block_len Y (dim_pad_at (mm_dim_J m) J j) c.
       spad t ! (h - Z * Y * 16 + (b * Y + c) * 16 + x) ! y = Q (tile_from K k + (16 * b + x)) (tile_from J j + (16 * c + y)))"

definition sums_at :: "matmul_args \<Rightarrow> nat \<Rightarrow> nat \<Rightarrow> (nat \<Rightarrow> nat \<Rightarrow> acc_t) \<Rightarrow> nat \<Rightarrow> nat \<Rightarrow> 'm sim \<Rightarrow> bool" where
  "sums_at m I J V i j t \<longleftrightarrow> (let X = tile_size (blocks_of (mm_dim_I m)) I i; Y = tile_size (blocks_of (mm_dim_J m)) J j in
     \<forall>a < X. \<forall>b < Y. \<forall>x < block_len X (dim_pad_at (mm_dim_I m) I i) a. \<forall>y < block_len Y (dim_pad_at (mm_dim_J m) J j) b.
       accumulator t ! ((a * Y + b) * 16 + x) ! y = V (tile_from I i + (16 * a + x)) (tile_from J j + (16 * b + y)))"

definition half_A :: "matmul_args \<Rightarrow> nat \<Rightarrow> nat \<Rightarrow> nat \<Rightarrow> nat \<Rightarrow> nat" where "half_A m I K i k = (if reuse_A m I K \<and> i + k \<noteq> 0 then 8192 else 0)"
definition half_B :: "matmul_args \<Rightarrow> nat \<Rightarrow> nat \<Rightarrow> nat \<Rightarrow> nat \<Rightarrow> nat" where "half_B m J K j k = (if reuse_B m J K \<and> j + k \<noteq> 0 then 16384 else 8192)"

lemma cfg_of_loop_ws [simp]: "cfg_of (t\<lparr>loop_ws_st := r\<rparr>) = cfg_of (t :: 'm sim)"
  using acc_out_cong [of "t\<lparr>loop_ws_st := r\<rparr>" t] by (simp add: cfg_of_def)

text \<open>The state in which the hardware loop of a tile starts.\<close>

definition job_args :: "matmul_args \<Rightarrow> nat \<Rightarrow> nat \<Rightarrow> nat \<Rightarrow> nat \<Rightarrow> nat \<Rightarrow> nat \<Rightarrow> loop_ws_args" where
  "job_args m I J K i j k = ws_loop_args (outer_tile m (tiling_of I J K) 1 i j k)"

definition job_state :: "matmul_args \<Rightarrow> nat \<Rightarrow> nat \<Rightarrow> nat \<Rightarrow> nat \<Rightarrow> nat \<Rightarrow> nat \<Rightarrow> 'm sim \<Rightarrow> 'm sim" where
  "job_state m I J K i j k t = t\<lparr>loop_ws_st := loop_ws_regs_of (job_args m I J K i j k) (loop_ws_st t)\<rparr>"

lemma job_state_fields [simp]:
  "mem (job_state m I J K i j k t) = mem t" "spad (job_state m I J K i j k t) = spad t" "accumulator (job_state m I J K i j k t) = accumulator t"
  "wf_state (job_state m I J K i j k t) = wf_state t" "cfg_of (job_state m I J K i j k t) = cfg_of t"
  "loop_ws_st (job_state m I J K i j k t) = loop_ws_regs_of (job_args m I J K i j k) (loop_ws_st t)"
  by (simp_all add: job_state_def wf_state_def wf_arrays_def wf_memories_def)

lemma job_configured: "mm_configured m t \<Longrightarrow> mm_configured m (job_state m I J K i j k t)"
  by (rule mm_configured_kept) (simp_all add: cfg_kept_def mm_configured_def)

lemma job_config:
  assumes "mm_chosen m I J K" "i < count_I m I" "j < count_J m J" "k < count_K m K" "mm_configured m t"
  shows "ws_config (loop_ws_ctl_of (job_args m I J K i j k)) (job_state m I J K i j k t)"
proof -
  note regs = tile_regs [OF assms(1-4), of "loop_ws_st t", folded job_args_def] and ctl = tile_ctl [OF assms(1), of i j k, folded job_args_def]
  have d: "unat (mm_dim_I m) < 2 ^ 31" "unat (mm_dim_J m) < 2 ^ 31" "unat (mm_dim_K m) < 2 ^ 31" using assms(1) by (simp_all add: mm_chosen_def dims_ok_def)
  have "loop_ws_room (tile_size (blocks_of (mm_dim_I m)) I i) (tile_size (blocks_of (mm_dim_J m)) J j) (tile_size (blocks_of (mm_dim_K m)) K k)"
    by (rule room_mono) (use assms(1) tile_size_pos_le in \<open>auto simp: mm_chosen_def\<close>)
  moreover have "(word_of_int (mm_act m) :: u8) \<noteq> 2" "(word_of_int (mm_act m) :: u8) \<noteq> 4"
    using assms(1) by (auto simp: mm_chosen_def mm_plain_def ACT_NO_ACTIVATION_def ACT_RELU_def)
  ultimately show ?thesis
    using job_configured [OF assms(5), of I J K i j k] dim_pad_small [OF d(1)] dim_pad_small [OF d(2)] dim_pad_small [OF d(3)]
    unfolding ws_config_def Let_def job_state_fields regs ctl mm_configured_def by simp
qed

lemma job_sizes:
  assumes "mm_chosen m I J K" "i < count_I m I" "j < count_J m J" "k < count_K m K"
  shows "ws_rows (loop_ws_regs_of (job_args m I J K i j k) r0) = tile_width (mm_dim_I m) I i" "ws_cols (loop_ws_regs_of (job_args m I J K i j k) r0) = tile_width (mm_dim_J m) J j"
    "ws_inner (loop_ws_regs_of (job_args m I J K i j k) r0) = tile_width (mm_dim_K m) K k"
  using tile_regs [OF assms, of r0, folded job_args_def] by (simp_all add: ws_rows_def ws_cols_def ws_inner_def tile_width_def)

lemma job_places:
  assumes "mm_chosen m I J K" "i < count_I m I" "j < count_J m J" "k < count_K m K"
  shows "tile_from I i + tile_width (mm_dim_I m) I i \<le> unat (mm_dim_I m)" "tile_from J j + tile_width (mm_dim_J m) J j \<le> unat (mm_dim_J m)"
    "tile_from K k + tile_width (mm_dim_K m) K k \<le> unat (mm_dim_K m)"
    "0 < tile_width (mm_dim_I m) I i" "0 < tile_width (mm_dim_J m) J j" "0 < tile_width (mm_dim_K m) K k"
  using assms tile_within tile_place(2) by (auto simp: mm_chosen_def)

abbreviation part :: "nat \<Rightarrow> nat \<Rightarrow> (nat \<Rightarrow> nat \<Rightarrow> 'a) \<Rightarrow> nat \<Rightarrow> nat \<Rightarrow> 'a" where "part i j P \<equiv> \<lambda>x y. P (i + x) (j + y)"

lemma job_memory:
  fixes t :: "'m sim"
  assumes ch: "mm_chosen m I J K" and ijk: "i < count_I m I" "j < count_J m J" "k < count_K m K" and cfg: "mm_configured m t"
    and mem: "mm_memory M m (mem t) P Q D W"
  shows "ws_memory M (job_state m I J K i j k t) (part (tile_from I i) (tile_from K k) P) (part (tile_from K k) (tile_from J j) Q)"
proof -
  note regs = tile_regs [OF ch ijk, of "loop_ws_st t", folded job_args_def] and sizes = job_sizes [OF ch ijk, of "loop_ws_st t"] and pl = job_places [OF ch ijk]
  note mm = mem [unfolded mm_memory_def Let_def]
  let ?r = "loop_ws_regs_of (job_args m I J K i j k) (loop_ws_st t)" and ?s = "job_state m I J K i j k t"
  have sc: "load_scales ?s ! 0 = mm_A_scale m" "load_scales ?s ! 1 = mm_B_scale m" using job_configured [OF cfg, of I J K i j k] by (simp_all add: mm_configured_def)
  have A: "loop_ws_A ?r \<noteq> 0 \<longrightarrow> scaled_at M (mem t) (loop_ws_A ?r) (mm_stride_A m) (tile_width (mm_dim_I m) I i) (tile_width (mm_dim_K m) K k) (mm_A_scale m) (part (tile_from I i) (tile_from K k) P)"
    and B: "loop_ws_B ?r \<noteq> 0 \<longrightarrow> scaled_at M (mem t) (loop_ws_B ?r) (mm_stride_B m) (tile_width (mm_dim_K m) K k) (tile_width (mm_dim_J m) J j) (mm_B_scale m) (part (tile_from K k) (tile_from J j) Q)"
    unfolding regs(7,8) using scaled_at_part [of M "mem t" "mm_A m" "mm_stride_A m" _ _ _ P] scaled_at_part [of M "mem t" "mm_B m" "mm_stride_B m" _ _ _ Q] mm pl by auto
  show ?thesis
  proof (cases "loop_ws_C ?r = 0")
    case True
    then have "ws_out_rows ?r = 0" by (simp add: ws_out_rows_def)
    then show ?thesis using A B mm unfolding ws_memory_def Let_def job_state_fields sizes regs(11-13) sc by (simp add: target_at_def cells_apart_def)
  next
    case False
    then have o: "ws_out_rows ?r = tile_width (mm_dim_I m) I i" and C: "loop_ws_C ?r = mm_C m + (of_nat (tile_from I i) * mm_stride_C m + of_nat (tile_from J j))"
      using sizes(1) regs(9) by (auto simp: ws_out_rows_def)
    have "target_at M (mem t) (loop_ws_C ?r) (mm_stride_C m) (tile_width (mm_dim_I m) I i) (tile_width (mm_dim_J m) J j)"
      unfolding C by (rule target_at_part [OF _ pl(1,2)]) (use mm in blast)
    moreover have "cells_apart (loop_ws_C ?r) (mm_stride_C m) (mm_A m + (of_nat (tile_from I i) * mm_stride_A m + of_nat (tile_from K k))) (mm_stride_A m)
        (tile_width (mm_dim_I m) I i) (tile_width (mm_dim_J m) J j) (tile_width (mm_dim_I m) I i) (tile_width (mm_dim_K m) K k)"
      unfolding C by (rule cells_apart_part [OF _ pl(1,2,1,3)]) (use mm in blast)
    moreover have "cells_apart (loop_ws_C ?r) (mm_stride_C m) (mm_B m + (of_nat (tile_from K k) * mm_stride_B m + of_nat (tile_from J j))) (mm_stride_B m)
        (tile_width (mm_dim_I m) I i) (tile_width (mm_dim_J m) J j) (tile_width (mm_dim_K m) K k) (tile_width (mm_dim_J m) J j)"
      unfolding C by (rule cells_apart_part [OF _ pl(1,2,3,2)]) (use mm in blast)
    ultimately show ?thesis using A B mm unfolding ws_memory_def Let_def job_state_fields sizes regs(11-13) sc o
      by (auto simp: regs(7,8) split: if_splits)
  qed
qed

lemma job_tiles:
  fixes t u :: "'m sim"
  assumes ch: "mm_chosen m I J K" and ijk: "i < count_I m I" "j < count_J m J" "k < count_K m K" and cfg: "mm_configured m t"
  defines "c \<equiv> loop_ws_ctl_of (job_args m I J K i j k)" and "r \<equiv> loop_ws_regs_of (job_args m I J K i j k) (loop_ws_st t)"
  shows "(\<forall>a < unat (loop_ws_I r). \<forall>b < unat (loop_ws_K r). A_tile c r (part (tile_from I i) (tile_from K k) P) b a u) \<longleftrightarrow> A_at m I K P (half_A m I K i k) i k u"
    and "(\<forall>b < unat (loop_ws_K r). \<forall>d < unat (loop_ws_J r). B_tile c r (part (tile_from K k) (tile_from J j) Q) b d u) \<longleftrightarrow> B_at m J K Q (half_B m J K j k) j k u"
    and "(\<forall>a < unat (loop_ws_I r). \<forall>b < unat (loop_ws_J r). acc_tile r V n a b u) \<longleftrightarrow>
      sums_at m I J (\<lambda>x y. V (x - tile_from I i) (y - tile_from J j) (min (16 * n) (tile_width (mm_dim_K m) K k))) i j u"
proof -
  note regs = tile_regs [OF ch ijk, of "loop_ws_st t", folded job_args_def, folded r_def] and ctl = tile_ctl [OF ch, of i j k, folded job_args_def, folded c_def]
  note rows = ws_tile_rows [OF job_config [OF ch ijk cfg], unfolded job_state_fields, folded c_def r_def]
  have ha: "(if ws_a_spad_id c = 2 then 8192 else 0) = half_A m I K i k" "(if ws_b_spad_id c = 2 then 16384 else 8192) = half_B m J K j k"
    by (simp_all add: ctl half_A_def half_B_def)
  show "(\<forall>a < unat (loop_ws_I r). \<forall>b < unat (loop_ws_K r). A_tile c r (part (tile_from I i) (tile_from K k) P) b a u) \<longleftrightarrow> A_at m I K P (half_A m I K i k) i k u"
    unfolding A_tile_def A_at_def Let_def using rows(1) unfolding ha regs by auto
  show "(\<forall>b < unat (loop_ws_K r). \<forall>d < unat (loop_ws_J r). B_tile c r (part (tile_from K k) (tile_from J j) Q) b d u) \<longleftrightarrow> B_at m J K Q (half_B m J K j k) j k u"
    unfolding B_tile_def B_at_def Let_def using rows(2) unfolding ha regs by auto
  have "ws_inner r = tile_width (mm_dim_K m) K k" using job_sizes(3) [OF ch ijk] by (simp add: r_def)
  then show "(\<forall>a < unat (loop_ws_I r). \<forall>b < unat (loop_ws_J r). acc_tile r V n a b u) \<longleftrightarrow>
      sums_at m I J (\<lambda>x y. V (x - tile_from I i) (y - tile_from J j) (min (16 * n) (tile_width (mm_dim_K m) K k))) i j u"
    unfolding acc_tile_def sums_at_def Let_def by (simp add: regs)
qed

lemma job_start:
  fixes t :: "'m sim"
  assumes ch: "mm_chosen m I J K" and ijk: "i < count_I m I" "j < count_J m J" "k < count_K m K" and cfg: "mm_configured m t"
    and mem: "mm_memory M m (mem t) P Q D W" and A: "reuse_A m I K \<and> 1 \<le> j \<Longrightarrow> A_at m I K P (half_A m I K i k) i k t"
    and B: "reuse_B m J K \<and> 1 \<le> i \<Longrightarrow> B_at m J K Q (half_B m J K j k) j k t"
    and acc: "k \<noteq> 0 \<Longrightarrow> sums_at m I J (\<lambda>x y. ws_sum P Q D x y (tile_from K k)) i j t"
  shows "ws_start M (loop_ws_ctl_of (job_args m I J K i j k)) (job_state m I J K i j k t) (part (tile_from I i) (tile_from K k) P)
    (part (tile_from K k) (tile_from J j) Q) (\<lambda>x y. ws_sum P Q D (tile_from I i + x) (tile_from J j + y) (tile_from K k))"
proof -
  let ?c = "loop_ws_ctl_of (job_args m I J K i j k)" and ?r = "loop_ws_regs_of (job_args m I J K i j k) (loop_ws_st t)" and ?s = "job_state m I J K i j k t"
  let ?D = "\<lambda>x y. ws_sum P Q D (tile_from I i + x) (tile_from J j + y) (tile_from K k)"
  note regs = tile_regs [OF ch ijk, of "loop_ws_st t", folded job_args_def] and ctl = tile_ctl [OF ch, of i j k, folded job_args_def]
  note tiles = job_tiles [OF ch ijk cfg, where u = ?s] and pl = job_places [OF ch ijk] and mm = mem [unfolded mm_memory_def Let_def]
  have first: "tile_from K 0 = 0" by (simp add: tile_from_def)
  have "loop_ws_A ?r \<noteq> 0" if "\<not> (reuse_A m I K \<and> 1 \<le> j)"
  proof -
    have "scaled_at M (mem t) (mm_A m + (of_nat (tile_from I i) * mm_stride_A m + of_nat (tile_from K k))) (mm_stride_A m) (tile_width (mm_dim_I m) I i) (tile_width (mm_dim_K m) K k) (mm_A_scale m) (part (tile_from I i) (tile_from K k) P)"
      by (rule scaled_at_part [OF _ pl(1,3,4,6)]) (use mm in blast)
    then show ?thesis using that unfolding regs(7) scaled_at_def operand_at_def by auto
  qed
  then have resA: "loop_ws_A ?r = 0 \<Longrightarrow> A_at m I K P (half_A m I K i k) i k ?s" using A by (auto simp: A_at_def)
  have "loop_ws_B ?r \<noteq> 0" if "\<not> (reuse_B m J K \<and> 1 \<le> i)"
  proof -
    have "scaled_at M (mem t) (mm_B m + (of_nat (tile_from K k) * mm_stride_B m + of_nat (tile_from J j))) (mm_stride_B m) (tile_width (mm_dim_K m) K k) (tile_width (mm_dim_J m) J j) (mm_B_scale m) (part (tile_from K k) (tile_from J j) Q)"
      by (rule scaled_at_part [OF _ pl(3,2,6,5)]) (use mm in blast)
    then show ?thesis using that unfolding regs(8) scaled_at_def operand_at_def by auto
  qed
  then have resB: "loop_ws_B ?r = 0 \<Longrightarrow> B_at m J K Q (half_B m J K j k) j k ?s" using B by (auto simp: B_at_def)
  have "if loop_ws_D ?r \<noteq> 0 then bias_memory M ?c ?s ?D
      else if ws_ex_accumulate ?c then \<forall>a < unat (loop_ws_I ?r). \<forall>b < unat (loop_ws_J ?r). acc_tile ?r (\<lambda>i j _. ?D i j) 0 a b ?s
      else \<forall>x y. ?D x y = 0"
  proof (cases "k = 0")
    case False
    moreover have "sums_at m I J (\<lambda>x y. ?D (x - tile_from I i) (y - tile_from J j)) i j ?s" using acc [OF False] by (simp add: sums_at_def Let_def)
    ultimately show ?thesis using tiles(3) [of "\<lambda>i j _. ?D i j" 0] by (simp add: regs(10) ctl)
  next
    case k: True
    show ?thesis
    proof (cases "mm_D m = 0")
      case True
      then have "loop_ws_D ?r = 0" "\<not> ws_ex_accumulate ?c" "D = (\<lambda>_ _. 0)" using k mm unfolding regs(10) ctl by simp_all
      then show ?thesis using k by (simp add: ws_sum_def first)
    next
      case False
      have b: "bias_at M (mem t) (mm_D m + of_nat (tile_from I i) * bias_stride m + of_nat (tile_from J j) * 4) (bias_stride m) False scale
          (tile_width (mm_dim_I m) I i) (tile_width (mm_dim_J m) J j) (part (tile_from I i) (tile_from J j) D)" for scale
        using bias_at_part [OF _ pl(1,2), of M "mem t" "mm_D m" "bias_stride m" False scale D] mm False by simp
      have nz: "loop_ws_D ?r \<noteq> 0" unfolding regs(10) using bias_at_nonzero [OF b pl(4,5)] False k by simp
      have "pixels_per_rows ?s ! 2 = 1" "\<not> load_shrunks ?s ! 2" "load_strides ?s ! 2 = bias_stride m"
        using job_configured [OF cfg, of I J K i j k] by (simp_all add: mm_configured_def)
      moreover have "?D = part (tile_from I i) (tile_from J j) D" using k by (simp add: ws_sum_def first fun_eq_iff)
      ultimately have "bias_memory M ?c ?s ?D"
        using nz b False k regs(14) unfolding bias_memory_def Let_def job_state_fields job_sizes [OF ch ijk] ctl regs(10) by simp
      then show ?thesis using nz by simp
    qed
  qed
  then show ?thesis
    unfolding ws_start_def Let_def job_state_fields using resA resB tiles(1,2) by blast
qed

lemma job_result:
  fixes t :: "'m sim"
  assumes ch: "mm_chosen m I J K" and ijk: "i < count_I m I" "j < count_J m J" "k < count_K m K" and cfg: "mm_configured m t"
    and mem: "mm_memory M m (mem t) P Q D W"
  shows "ws_result (job_state m I J K i j k t) (part (tile_from I i) (tile_from K k) P)
    (part (tile_from K k) (tile_from J j) Q) (\<lambda>x y. ws_sum P Q D (tile_from I i + x) (tile_from J j + y) (tile_from K k))
    (\<lambda>(x, y). W (tile_from I i + x, tile_from J j + y))"
proof -
  note regs = tile_regs [OF ch ijk, of "loop_ws_st t", folded job_args_def] and pl = job_places [OF ch ijk] and sizes = job_sizes [OF ch ijk, of "loop_ws_st t"]
  have out: "acc_out (job_state m I J K i j k t) = mm_out m" using job_configured [OF cfg, of I J K i j k] by (simp add: mm_configured_def)
  have "tile_from K k + tile_width (mm_dim_K m) K k = unat (mm_dim_K m)" if "Suc k = count_K m K"
    using tile_place(1) [of "mm_dim_K m" K k] last_tile_from [of K k "mm_dim_K m"] ch ijk(3) that by (simp add: mm_chosen_def)
  then show ?thesis
    using mem pl(1,2) unfolding ws_result_def Let_def job_state_fields out ws_sum_part sizes ws_out_rows_def regs(9)
    by (auto simp: mm_memory_def Let_def)
qed

text \<open>What the job of a tile changes.\<close>

definition job_cells :: "matmul_args \<Rightarrow> nat \<Rightarrow> nat \<Rightarrow> nat \<Rightarrow> nat \<Rightarrow> nat \<Rightarrow> nat \<Rightarrow> (nat \<times> nat) set" where
  "job_cells m I J K i j k = (if Suc k = count_K m K then
     {tile_from I i ..< tile_from I i + tile_width (mm_dim_I m) I i} \<times> {tile_from J j ..< tile_from J j + tile_width (mm_dim_J m) J j} else {})"

definition job_area :: "matmul_args \<Rightarrow> nat \<Rightarrow> nat \<Rightarrow> nat \<Rightarrow> nat \<Rightarrow> nat \<Rightarrow> nat \<Rightarrow> nat set" where
  "job_area m I J K i j k = (let X = tile_size (blocks_of (mm_dim_I m)) I i; Y = tile_size (blocks_of (mm_dim_J m)) J j; Z = tile_size (blocks_of (mm_dim_K m)) K k in
     {half_A m I K i k ..< half_A m I K i k + X * Z * 16} \<union> {half_B m J K j k - Z * Y * 16 ..< half_B m J K j k})"

definition job_done :: "'m mmu \<Rightarrow> matmul_args \<Rightarrow> nat \<Rightarrow> nat \<Rightarrow> nat \<Rightarrow> (nat \<Rightarrow> nat \<Rightarrow> elem_t) \<Rightarrow> (nat \<Rightarrow> nat \<Rightarrow> elem_t) \<Rightarrow> (nat \<Rightarrow> nat \<Rightarrow> acc_t) \<Rightarrow> (nat \<times> nat \<Rightarrow> u8) \<Rightarrow>
    nat \<Rightarrow> nat \<Rightarrow> nat \<Rightarrow> 'm sim \<Rightarrow> 'm sim \<Rightarrow> bool" where
  "job_done M m I J K P Q D W i j k t u \<longleftrightarrow> cfg_kept t u \<and>
     wrote M (mem t) (mem u) (job_cells m I J K i j k) (dram_cell (mm_C m) (mm_stride_C m)) W \<and>
     (\<forall>x < 16384. \<forall>y < 16. x \<notin> job_area m I J K i j k \<longrightarrow> spad u ! x ! y = spad t ! x ! y) \<and>
     A_at m I K P (half_A m I K i k) i k u \<and> B_at m J K Q (half_B m J K j k) j k u \<and>
     sums_at m I J (\<lambda>x y. ws_sum P Q D x y (min (tile_from K (Suc k)) (unat (mm_dim_K m)))) i j u"

lemma sums_at_cong:
  assumes "sums_at m I J V i j u" "\<And>x y. V (tile_from I i + x) (tile_from J j + y) = V' (tile_from I i + x) (tile_from J j + y)"
  shows "sums_at m I J V' i j u"
  using assms by (simp add: sums_at_def Let_def)

lemma job_runs:
  fixes t :: "'m sim"
  assumes ch: "mm_chosen m I J K" and ijk: "i < count_I m I" "j < count_J m J" "k < count_K m K" and cfg: "mm_configured m t"
    and mem: "mm_memory M m (mem t) P Q D W" and A: "reuse_A m I K \<and> 1 \<le> j \<Longrightarrow> A_at m I K P (half_A m I K i k) i k t"
    and B: "reuse_B m J K \<and> 1 \<le> i \<Longrightarrow> B_at m J K Q (half_B m J K j k) j k t"
    and acc: "k \<noteq> 0 \<Longrightarrow> sums_at m I J (\<lambda>x y. ws_sum P Q D x y (tile_from K k)) i j t"
  shows "succeeds (run_ops M (sp_tiled_matmul_ws (outer_tile m (tiling_of I J K) 1 i j k)) t) (job_done M m I J K P Q D W i j k t)"
proof -
  let ?a = "job_args m I J K i j k" and ?s = "job_state m I J K i j k t"
  let ?c = "loop_ws_ctl_of ?a" and ?r = "loop_ws_regs_of ?a (loop_ws_st t)"
  let ?P = "part (tile_from I i) (tile_from K k) P" and ?Q = "part (tile_from K k) (tile_from J j) Q"
    and ?D = "\<lambda>x y. ws_sum P Q D (tile_from I i + x) (tile_from J j + y) (tile_from K k)" and ?W = "\<lambda>(x, y). W (tile_from I i + x, tile_from J j + y)"
  note ch' = ch [unfolded mm_chosen_def mm_plain_def]
  have fit: "loop_ws_args_fit ?a" unfolding job_args_def
    by (rule chosen_loop_ok(1)) (use ch' ijk in \<open>auto simp: ACT_NO_ACTIVATION_def ACT_RELU_def\<close>)
  have run: "run_ops M (sp_tiled_matmul_ws (outer_tile m (tiling_of I J K) 1 i j k)) t = loop_ws M (loop_ws_ctl_rs1 ?a) (loop_ws_ctl_rs2 ?a) ?s"
    using loop_ws_arrives(1) [OF fit] by (simp add: sp_tiled_matmul_ws_def job_args_def job_state_def)
  note regs = tile_regs [OF ch ijk, of "loop_ws_st t", folded job_args_def] and ctl = tile_ctl [OF ch, of i j k, folded job_args_def]
    and sizes = job_sizes [OF ch ijk, of "loop_ws_st t"]
  have size: "0 < tile_size (blocks_of (mm_dim_I m)) I i" "0 < tile_size (blocks_of (mm_dim_J m)) J j" "0 < tile_size (blocks_of (mm_dim_K m)) K k"
    using tile_size_pos_le ch' by blast+
  have "succeeds (loop_ws M (loop_ws_ctl_rs1 ?a) (loop_ws_ctl_rs2 ?a) ?s) (ws_end M ?c ?P ?Q ?D ?W ?s)"
    using loop_ws_product [of "loop_ws_ctl_rs1 ?a" "loop_ws_ctl_rs2 ?a" ?s M ?P ?Q ?D ?W, unfolded loop_ws_arrives(2) [OF fit]]
      job_config [OF ch ijk cfg] job_memory [OF ch ijk cfg mem] job_start [OF ch ijk cfg mem A B acc] job_result [OF ch ijk cfg mem] size
    unfolding job_state_fields regs(1-3) by blast
  then obtain u where u: "loop_ws M (loop_ws_ctl_rs1 ?a) (loop_ws_ctl_rs2 ?a) ?s = Inr u" "ws_end M ?c ?P ?Q ?D ?W ?s u"
    unfolding succeeds_iff by blast
  note e = u(2) [unfolded ws_end_def Let_def job_state_fields]
  have kept: "cfg_kept t u" using e by (simp add: cfg_kept_def)
  have wrote: "wrote M (mem t) (mem u) (job_cells m I J K i j k) (dram_cell (mm_C m) (mm_stride_C m)) W"
  proof (cases "Suc k = count_K m K")
    case True
    then have C: "loop_ws_C ?r = mm_C m + (of_nat (tile_from I i) * mm_stride_C m + of_nat (tile_from J j))" unfolding regs(9) by simp
    have "dram_cell (mm_C m) (mm_stride_C m) (tile_from I i, tile_from J j) \<noteq> 0"
      using mem tile_place(3) [of "mm_dim_I m" I i] tile_place(3) [of "mm_dim_J m" J j] ch' ijk by (simp add: mm_memory_def Let_def)
    then have "ws_out_rows ?r = tile_width (mm_dim_I m) I i" using sizes(1) C by (simp add: ws_out_rows_def dram_cell_def add.assoc)
    then show ?thesis using e True wrote_part [of M "mem t" "mem u"] unfolding job_cells_def by (simp add: C regs(13) sizes)
  next
    case False
    then have "ws_out_rows ?r = 0" unfolding ws_out_rows_def regs(9) by simp
    then show ?thesis using e False by (simp add: job_cells_def wrote_def)
  qed
  have area: "ws_area ?c ?r = job_area m I J K i j k"
    unfolding ws_area_def job_area_def Let_def regs(1-3) by (simp add: ctl half_A_def half_B_def)
  have "tile_width (mm_dim_K m) K k \<le> 16 * tile_size (blocks_of (mm_dim_K m)) K k" by (simp add: tile_width_def)
  then have n: "min (16 * unat (loop_ws_K ?r)) (tile_width (mm_dim_K m) K k) = tile_width (mm_dim_K m) K k" unfolding regs(3) by simp
  have "sums_at m I J (\<lambda>x y. ws_sum ?P ?Q ?D (x - tile_from I i) (y - tile_from J j) (tile_width (mm_dim_K m) K k)) i j u"
    using e job_tiles(3) [OF ch ijk cfg, of "ws_sum ?P ?Q ?D" "unat (loop_ws_K ?r)" u] unfolding n by blast
  moreover have "tile_from K k + tile_width (mm_dim_K m) K k = min (tile_from K (Suc k)) (unat (mm_dim_K m))" using tile_place(1) ch' ijk(3) by blast
  ultimately have "sums_at m I J (\<lambda>x y. ws_sum P Q D x y (min (tile_from K (Suc k)) (unat (mm_dim_K m)))) i j u"
    by (elim sums_at_cong) (simp add: ws_sum_part)
  then show ?thesis
    using e kept wrote job_tiles(1,2) [OF ch ijk cfg, where u = u] u(1) unfolding run job_done_def area by auto
qed

section \<open>What stays in the scratchpad\<close>

text \<open>The tiles of A lie at the start and those of B at the end of a half; tiles of one operand that are kept lie in different halves.\<close>

lemma halves_apart:
  assumes "mm_chosen m I J K" "X \<le> I" "Y \<le> J" "Z \<le> K" "Z' \<le> K"
    and "x \<in> {half_A m I K i k ..< half_A m I K i k + X * Z * 16}"
  shows "x \<notin> {half_B m J K j k' - Z' * Y * 16 ..< half_B m J K j k'}"
proof -
  have "X * Z * 16 \<le> I * K * 16" "Z' * Y * 16 \<le> K * J * 16" using assms(2-5) by (intro mult_le_mono; simp)+
  moreover have "I * K * 16 + K * J * 16 \<le> 8192" using assms(1) by (simp add: mm_chosen_def fits_room_def spad_room_def add_mult_distrib)
  ultimately show ?thesis using assms(6) by (auto simp: half_A_def half_B_def split: if_splits)
qed

lemma two_tiles: "a * b \<le> (2 :: nat) \<Longrightarrow> i < a \<Longrightarrow> k < b \<Longrightarrow> i' < a \<Longrightarrow> k' < b \<Longrightarrow> (i, k) \<noteq> (i', k') \<Longrightarrow> i + k = 0 \<longleftrightarrow> i' + k' \<noteq> 0"
proof -
  assume h: "a * b \<le> 2" "i < a" "k < b" "i' < a" "k' < b" "(i, k) \<noteq> (i', k')"
  have "1 \<le> a" "1 \<le> b" using h by auto
  then have "a \<le> a * b" "b \<le> a * b" by simp_all
  then have "a \<le> 2" "b \<le> 2" using h(1) by linarith+
  then have "(a, b) \<in> {(1, 1), (1, 2), (2, 1)}" using h(1) \<open>1 \<le> a\<close> \<open>1 \<le> b\<close> by (auto simp: le_Suc_eq numeral_2_eq_2)
  then show ?thesis using h by auto
qed

lemma tile_rows:
  assumes "a < X" "b < Z" "x < block_len n pad c"
  shows "(a * Z + b) * 16 + x < X * Z * (16 :: nat)"
proof -
  have "(a * Z + b + 1) * 16 \<le> X * Z * 16" by (rule mult_le_mono1 [OF tile_index [OF assms(1,2)]])
  moreover have "x < 16" by (rule less_le_trans [OF assms(3) block_len_le])
  ultimately show ?thesis by simp
qed

lemma A_at_kept:
  fixes t u :: "'m sim"
  assumes ch: "mm_chosen m I J K" and "A_at m I K P (half_A m I K i k') i k' t"
    and same: "\<And>x y. x < 16384 \<Longrightarrow> y < 16 \<Longrightarrow> x \<notin> job_area m I J K i j k \<Longrightarrow> spad u ! x ! y = spad t ! x ! y"
    and k: "reuse_A m I K" "i < count_I m I" "k < count_K m K" "k' < count_K m K" "k' \<noteq> k"
  shows "A_at m I K P (half_A m I K i k') i k' u"
proof -
  let ?X = "tile_size (blocks_of (mm_dim_I m)) I i" and ?Y = "tile_size (blocks_of (mm_dim_J m)) J j" and ?Z = "tile_size (blocks_of (mm_dim_K m)) K"
  have le: "?X \<le> I" "?Y \<le> J" "\<And>k. ?Z k \<le> K" using ch tile_size_pos_le by (auto simp: mm_chosen_def)
  have "X * Z * 16 \<le> 8192" if "X \<le> I" "Z \<le> K" for X Z
  proof -
    have "X * Z * 16 \<le> I * K * 16" using that by (intro mult_le_mono; simp)
    moreover have "I * K * 16 \<le> 8192" using ch by (simp add: mm_chosen_def fits_room_def spad_room_def add_mult_distrib)
    ultimately show ?thesis by simp
  qed
  then have sz: "?X * ?Z k' * 16 \<le> 8192" "?X * ?Z k * 16 \<le> 8192" using le by blast+
  have two: "i + k = 0 \<longleftrightarrow> i + k' \<noteq> 0" using two_tiles [of "count_I m I" "count_K m K" i k i k'] k by (simp add: reuse_A_def)
  have "spad u ! (half_A m I K i k' + (a * ?Z k' + b) * 16 + x) ! y = spad t ! (half_A m I K i k' + (a * ?Z k' + b) * 16 + x) ! y"
    if "a < ?X" "b < ?Z k'" "x < block_len n pad c" "y < block_len n' pad' c'" for a b x y n pad c n' pad' c'
  proof (rule same)
    note r = tile_rows [OF that(1,2,3)]
    have in_A: "half_A m I K i k' + (a * ?Z k' + b) * 16 + x \<in> {half_A m I K i k' ..< half_A m I K i k' + ?X * ?Z k' * 16}" using r by simp
    show "half_A m I K i k' + (a * ?Z k' + b) * 16 + x < 16384" using in_A sz(1) by (auto simp: half_A_def split: if_splits)
    show "y < 16" by (rule less_le_trans [OF that(4) block_len_le])
    show "half_A m I K i k' + (a * ?Z k' + b) * 16 + x \<notin> job_area m I J K i j k"
      using halves_apart [OF ch le(1,2,3) le(3) in_A, of j k k] in_A sz two k(1) unfolding job_area_def Let_def by (auto simp: half_A_def split: if_splits)
  qed
  then show ?thesis using assms(2) unfolding A_at_def Let_def by simp
qed

lemma B_at_kept:
  fixes t u :: "'m sim"
  assumes ch: "mm_chosen m I J K" and "B_at m J K Q (half_B m J K j' k') j' k' t"
    and same: "\<And>x y. x < 16384 \<Longrightarrow> y < 16 \<Longrightarrow> x \<notin> job_area m I J K i j k \<Longrightarrow> spad u ! x ! y = spad t ! x ! y"
    and k: "reuse_B m J K" "j < count_J m J" "k < count_K m K" "j' < count_J m J" "k' < count_K m K" "(j', k') \<noteq> (j, k)"
  shows "B_at m J K Q (half_B m J K j' k') j' k' u"
proof -
  let ?X = "tile_size (blocks_of (mm_dim_I m)) I i" and ?Y = "tile_size (blocks_of (mm_dim_J m)) J" and ?Z = "tile_size (blocks_of (mm_dim_K m)) K"
  have le: "?X \<le> I" "\<And>j. ?Y j \<le> J" "\<And>k. ?Z k \<le> K" using ch tile_size_pos_le by (auto simp: mm_chosen_def)
  have "Z * Y * 16 \<le> 8192" if "Y \<le> J" "Z \<le> K" for Y Z
  proof -
    have "Z * Y * 16 \<le> K * J * 16" using that by (intro mult_le_mono; simp)
    moreover have "I * K * 16 + K * J * 16 \<le> 8192" using ch by (simp add: mm_chosen_def fits_room_def spad_room_def add_mult_distrib)
    ultimately show ?thesis by linarith
  qed
  then have sz: "?Z k' * ?Y j' * 16 \<le> 8192" "?Z k * ?Y j * 16 \<le> 8192" using le by blast+
  have two: "j + k = 0 \<longleftrightarrow> j' + k' \<noteq> 0" using two_tiles [OF k(1) [unfolded reuse_B_def] k(2-5)] k(6) by auto
  let ?p = "\<lambda>b c x. half_B m J K j' k' - ?Z k' * ?Y j' * 16 + (b * ?Y j' + c) * 16 + x"
  have "spad u ! ?p b c x ! y = spad t ! ?p b c x ! y"
    if "b < ?Z k'" "c < ?Y j'" "x < block_len n pad d" "y < block_len n' pad' d'" for b c x y n pad d n' pad' d'
  proof (rule same)
    note r = tile_rows [OF that(1,2,3)]
    have in_B: "?p b c x \<in> {half_B m J K j' k' - ?Z k' * ?Y j' * 16 ..< half_B m J K j' k'}" 
    proof -
      have "h - S + q \<in> {h - S ..< h}" if "q < S" "S \<le> h" for h S q :: nat using that by auto
      moreover have "?Z k' * ?Y j' * 16 \<le> half_B m J K j' k'" using sz(1) by (simp add: half_B_def)
      ultimately show ?thesis using r by (metis add.assoc)
    qed
    show "?p b c x < 16384" using in_B by (auto simp: half_B_def split: if_splits)
    show "y < 16" by (rule less_le_trans [OF that(4) block_len_le])
    have "?p b c x \<notin> {half_A m I K i k ..< half_A m I K i k + ?X * ?Z k * 16}"
      using halves_apart [OF ch le(1) le(2) [of j'] le(3) [of k] le(3) [of k']] in_B by blast
    moreover have "?p b c x \<notin> {half_B m J K j k - ?Z k * ?Y j * 16 ..< half_B m J K j k}"
    proof -
      have "p \<notin> {h - S ..< h}" if "p \<in> {h' - S' ..< h'}" "h \<noteq> h'" "h \<in> {8192, 16384}" "h' \<in> {8192, 16384}" "S \<le> 8192" "S' \<le> 8192" for p h h' S S' :: nat
        using that by auto
      moreover have "half_B m J K j k \<noteq> half_B m J K j' k'" "half_B m J K j k \<in> {8192, 16384}" "half_B m J K j' k' \<in> {8192, 16384}"
        using two k(1) by (simp_all add: half_B_def)
      ultimately show ?thesis using in_B sz by blast
    qed
    ultimately show "?p b c x \<notin> job_area m I J K i j k" unfolding job_area_def Let_def by blast
  qed
  then show ?thesis using assms(2) unfolding B_at_def Let_def by simp
qed

section \<open>All tiles\<close>

text \<open>The elements of C that are written before tile \<open>(i, j)\<close>.\<close>

definition cells_done :: "matmul_args \<Rightarrow> nat \<Rightarrow> nat \<Rightarrow> nat \<Rightarrow> nat \<Rightarrow> (nat \<times> nat) set" where
  "cells_done m I J i j = {..<min (tile_from I i) (unat (mm_dim_I m))} \<times> {..<unat (mm_dim_J m)} \<union>
     {tile_from I i ..< min (tile_from I (Suc i)) (unat (mm_dim_I m))} \<times> {..<min (tile_from J j) (unat (mm_dim_J m))}"

text \<open>The invariant of the three loops.\<close>

definition mm_inv :: "'m mmu \<Rightarrow> matmul_args \<Rightarrow> nat \<Rightarrow> nat \<Rightarrow> nat \<Rightarrow> (nat \<Rightarrow> nat \<Rightarrow> elem_t) \<Rightarrow> (nat \<Rightarrow> nat \<Rightarrow> elem_t) \<Rightarrow> (nat \<Rightarrow> nat \<Rightarrow> acc_t) \<Rightarrow> (nat \<times> nat \<Rightarrow> u8) \<Rightarrow>
    'm sim \<Rightarrow> nat \<Rightarrow> nat \<Rightarrow> nat \<Rightarrow> 'm sim \<Rightarrow> bool" where
  "mm_inv M m I J K P Q D W s i j k t \<longleftrightarrow> mm_configured m t \<and>
     wrote M (mem s) (mem t) (cells_done m I J i (if k = count_K m K then Suc j else j)) (dram_cell (mm_C m) (mm_stride_C m)) W \<and>
     (k \<noteq> 0 \<longrightarrow> sums_at m I J (\<lambda>x y. ws_sum P Q D x y (min (tile_from K k) (unat (mm_dim_K m)))) i j t) \<and>
     (reuse_A m I K \<longrightarrow> (\<forall>k' < count_K m K. 0 < j \<or> k' < k \<longrightarrow> A_at m I K P (half_A m I K i k') i k' t)) \<and>
     (reuse_B m J K \<longrightarrow> (\<forall>j' < count_J m J. \<forall>k' < count_K m K. 0 < i \<or> j' < j \<or> j' = j \<and> k' < k \<longrightarrow> B_at m J K Q (half_B m J K j' k') j' k' t))"

lemma cells_done_within: "cells_done m I J i j \<subseteq> {..<unat (mm_dim_I m)} \<times> {..<unat (mm_dim_J m)}"
  by (auto simp: cells_done_def)

lemma cells_done_step:
  assumes "mm_chosen m I J K" "i < count_I m I" "j < count_J m J"
  shows "cells_done m I J i (Suc j) = cells_done m I J i j \<union>
    {tile_from I i ..< tile_from I i + tile_width (mm_dim_I m) I i} \<times> {tile_from J j ..< tile_from J j + tile_width (mm_dim_J m) J j}"
proof -
  have pl: "tile_from I i + tile_width (mm_dim_I m) I i = min (tile_from I (Suc i)) (unat (mm_dim_I m))" "tile_from J j + tile_width (mm_dim_J m) J j = min (tile_from J (Suc j)) (unat (mm_dim_J m))"
    "tile_from J j < unat (mm_dim_J m)" "tile_from J j \<le> tile_from J (Suc j)"
    using assms tile_place by (auto simp: mm_chosen_def tile_from_def)
  then have "{..<min (tile_from J (Suc j)) (unat (mm_dim_J m))} = {..<min (tile_from J j) (unat (mm_dim_J m))} \<union> {tile_from J j ..< tile_from J j + tile_width (mm_dim_J m) J j}"
    by auto
  then show ?thesis unfolding cells_done_def pl(1) by auto
qed

lemma mm_step:
  fixes s t :: "'m sim"
  assumes ch: "mm_chosen m I J K" and ijk: "i < count_I m I" "j < count_J m J" "k < count_K m K"
    and mem: "mm_memory M m (mem s) P Q D W" and inv: "mm_inv M m I J K P Q D W s i j k t"
  shows "succeeds (run_ops M (sp_tiled_matmul_ws (outer_tile m (tiling_of I J K) 1 i j k)) t) (mm_inv M m I J K P Q D W s i j (Suc k))"
proof -
  let ?C = "dram_cell (mm_C m) (mm_stride_C m)" and ?U = "{..<unat (mm_dim_I m)} \<times> {..<unat (mm_dim_J m)}"
  have nk: "k \<noteq> count_K m K" using ijk(3) by simp
  note v = inv [unfolded mm_inv_def if_not_P [OF nk]]
  have mt: "mm_memory M m (mem t) P Q D W" using mm_memory_wrote [OF mem _ cells_done_within] v by blast
  have "tile_from K k < unat (mm_dim_K m)" using tile_place(3) ch ijk(3) by (simp add: mm_chosen_def)
  then have acc: "k \<noteq> 0 \<Longrightarrow> sums_at m I J (\<lambda>x y. ws_sum P Q D x y (tile_from K k)) i j t" using v by (simp add: min_def)
  have A: "reuse_A m I K \<and> 1 \<le> j \<Longrightarrow> A_at m I K P (half_A m I K i k) i k t" and B: "reuse_B m J K \<and> 1 \<le> i \<Longrightarrow> B_at m J K Q (half_B m J K j k) j k t"
    using v ijk by auto
  have cfg: "mm_configured m t" using v by blast
  obtain u where u: "run_ops M (sp_tiled_matmul_ws (outer_tile m (tiling_of I J K) 1 i j k)) t = Inr u" "job_done M m I J K P Q D W i j k t u"
    using job_runs [OF ch ijk cfg mt A B acc] unfolding succeeds_iff by blast
  note d = u(2) [unfolded job_done_def]
  have same: "x < 16384 \<Longrightarrow> y < 16 \<Longrightarrow> x \<notin> job_area m I J K i j k \<Longrightarrow> spad u ! x ! y = spad t ! x ! y" for x y using d by blast
  have "cells_done m I J i (if Suc k = count_K m K then Suc j else j) = cells_done m I J i j \<union> job_cells m I J K i j k"
    by (simp add: job_cells_def cells_done_step [OF ch ijk(1,2)])
  moreover have "job_cells m I J K i j k \<subseteq> ?U" using job_places(1,2) [OF ch ijk] by (auto simp: job_cells_def)
  moreover have "inj_on ?C ?U" using mem by (simp add: mm_memory_def Let_def target_at_def)
  ultimately have W: "wrote M (mem s) (mem u) (cells_done m I J i (if Suc k = count_K m K then Suc j else j)) ?C W"
    using wrote_Un [of M "mem s" "mem t" "cells_done m I J i j" ?C W "mem u" "job_cells m I J K i j k" ?U] v d cells_done_within by metis
  have A': "A_at m I K P (half_A m I K i k') i k' u" if "reuse_A m I K" "k' < count_K m K" "0 < j \<or> k' < Suc k" for k'
  proof (cases "k' = k")
    case False
    then have "A_at m I K P (half_A m I K i k') i k' t" using v that by (auto simp: less_Suc_eq)
    then show ?thesis by (rule A_at_kept [OF ch _ same that(1) ijk(1,3) that(2) False])
  qed (use d in simp)
  have B': "B_at m J K Q (half_B m J K j' k') j' k' u" if "reuse_B m J K" "j' < count_J m J" "k' < count_K m K" "0 < i \<or> j' < j \<or> j' = j \<and> k' < Suc k" for j' k'
  proof (cases "(j', k') = (j, k)")
    case False
    then have "B_at m J K Q (half_B m J K j' k') j' k' t" using v that by (auto simp: less_Suc_eq)
    then show ?thesis by (rule B_at_kept [OF ch _ same that(1) ijk(2,3) that(2,3) False])
  qed (use d in simp)
  show ?thesis using u(1) W A' B' d mm_configured_kept [OF cfg] by (simp add: mm_inv_def)
qed

lemma mm_next_tile:
  assumes "mm_chosen m I J K" "mm_inv M m I J K P Q D W s i j (count_K m K) t"
  shows "mm_inv M m I J K P Q D W s i (Suc j) 0 t"
proof -
  have "0 < count_K m K" using assms(1) by (auto simp: mm_chosen_def blocks_of_def word_less_nat_alt intro!: tiles_of_pos)
  then show ?thesis using assms(2) by (auto simp: mm_inv_def less_Suc_eq)
qed

lemma mm_next_row:
  assumes "mm_chosen m I J K" "mm_inv M m I J K P Q D W s i (count_J m J) 0 t"
  shows "mm_inv M m I J K P Q D W s (Suc i) 0 0 t"
proof -
  have pos: "0 < count_J m J" "0 < count_K m K" using assms(1) by (auto simp: mm_chosen_def blocks_of_def word_less_nat_alt intro!: tiles_of_pos)
  obtain n where n: "count_J m J = Suc n" using pos(1) by (cases "count_J m J") auto
  have "unat (mm_dim_J m) \<le> tile_from J (count_J m J)" using last_tile_from [of J n "mm_dim_J m"] n assms(1) by (simp add: mm_chosen_def)
  then have "cells_done m I J i (count_J m J) = cells_done m I J (Suc i) 0" by (auto simp: cells_done_def tile_from_def)
  then show ?thesis using assms(2) pos by (auto simp: mm_inv_def)
qed

lemma tiled_matmul_outer_multiplies:
  fixes s :: "'m sim"
  assumes ch: "mm_chosen m I J K" and mem: "mm_memory M m (mem s) P Q D W"
    and s: "wf_state s" "unat (norm_stat_id (norm_st s)) < 4" "acc_act s \<noteq> SOFTMAX"
  shows "succeeds (bindE (tiled_matmul_outer m (tiling_of I J K) 1) (\<lambda>ops. run_ops M ops s))
    (\<lambda>t. mm_configured m t \<and> wrote M (mem s) (mem t) ({..<unat (mm_dim_I m)} \<times> {..<unat (mm_dim_J m)}) (dram_cell (mm_C m) (mm_stride_C m)) W)"
proof -
  note ch' = ch [unfolded mm_chosen_def mm_plain_def]
  let ?inv = "mm_inv M m I J K P Q D W s" and ?op = "\<lambda>i j k. sp_tiled_matmul_ws (outer_tile m (tiling_of I J K) 1 i j k)"
  have pos: "0 < I" "0 < J" "0 < K" and room: "fits_room TM_WS I J K" and d: "unat (mm_dim_I m) < 2 ^ 31" "unat (mm_dim_J m) < 2 ^ 31" "unat (mm_dim_K m) < 2 ^ 31"
    using ch' by (simp_all add: dims_ok_def)
  note b = fits_room_small [OF room pos]
  have cnt: "unat (tile_count (mm_dim_I m) (of_nat I)) = count_I m I" "unat (tile_count (mm_dim_J m) (of_nat J)) = count_J m J"
    "unat (tile_count (mm_dim_K m) (of_nat K)) = count_K m K"
    using unat_tile_count [OF d(1) pos(1) b(1)] unat_tile_count [OF d(2) pos(2) b(2)] unat_tile_count [OF d(3) pos(3) b(3)] .
  have nz: "of_nat t * of_nat DIM \<noteq> (0 :: u64)" if "0 < t" "t \<le> 1024" for t
  proof -
    have "unat (of_nat (t * 16) :: u64) = t * 16" by (rule unat_of_small) (use that in simp)
    then show ?thesis using that(1) by (metis DIM_def mult_eq_0_iff of_nat_mult unat_0 not_gr_zero zero_neq_numeral)
  qed
  have ops: "tiled_matmul_outer m (tiling_of I J K) 1 = Inr (outer_config m 1 @ concat (map (\<lambda>i. concat (map (\<lambda>j. concat (map (?op i j) [0..<count_K m K]))
      [0..<count_J m J])) [0..<count_I m I]) @ gemmini_fence)"
    using nz [OF pos(1) b(1)] nz [OF pos(2) b(2)] nz [OF pos(3) b(3)] ch' cnt
    by (auto simp: tiled_matmul_outer_def tiling_of_def Let_def OUTPUT_STATIONARY_def ACT_NO_ACTIVATION_def ACT_RELU_def ACT_IGELU_def ACT_SOFTMAX_def)
  obtain s0 where s0: "run_ops M (outer_config m 1) s = Inr s0" "mem s0 = mem s" "mm_configured m s0"
    using outer_config_arrives [OF s, of m M] ch by (auto simp: mm_chosen_def)
  have bI: "0 < count_I m I" "0 < count_K m K" using ch by (auto simp: mm_chosen_def blocks_of_def word_less_nat_alt intro!: tiles_of_pos)
  have "cells_done m I J 0 0 = {}" by (auto simp: cells_done_def tile_from_def)
  then have "?inv 0 0 0 s0" using s0 bI(2) by (simp add: mm_inv_def)
  have tile: "succeeds (forE (count_K m K) (\<lambda>k. run_ops M (?op i j k)) t) (?inv i (Suc j) 0)" if "i < count_I m I" "j < count_J m J" "?inv i j 0 t" for i j t
    by (rule succeeds_mono [OF forE_succeeds [where P = "?inv i j"]]) (use that mm_step [OF ch _ _ _ mem] mm_next_tile [OF ch] in blast)+
  have row: "succeeds (forE (count_J m J) (\<lambda>j. forE (count_K m K) (\<lambda>k. run_ops M (?op i j k))) t) (?inv (Suc i) 0 0)" if "i < count_I m I" "?inv i 0 0 t" for i t
    by (rule succeeds_mono [OF forE_succeeds [where P = "\<lambda>j. ?inv i j 0"]]) (use that tile mm_next_row [OF ch] in blast)+
  have "succeeds (forE (count_I m I) (\<lambda>i. forE (count_J m J) (\<lambda>j. forE (count_K m K) (\<lambda>k. run_ops M (?op i j k)))) s0) (?inv (count_I m I) 0 0)"
    by (rule forE_succeeds [where P = "\<lambda>i. ?inv i 0 0"]) (use row \<open>?inv 0 0 0 s0\<close> in blast)+
  moreover have "mm_configured m t \<and> wrote M (mem s) (mem t) ({..<unat (mm_dim_I m)} \<times> {..<unat (mm_dim_J m)}) (dram_cell (mm_C m) (mm_stride_C m)) W" if "?inv (count_I m I) 0 0 t" for t
  proof -
    obtain n where n: "count_I m I = Suc n" using bI(1) by (cases "count_I m I") auto
    have "unat (mm_dim_I m) \<le> tile_from I (count_I m I)" using last_tile_from [of I n "mm_dim_I m"] n pos(1) by simp
    then have "cells_done m I J (count_I m I) 0 = {..<unat (mm_dim_I m)} \<times> {..<unat (mm_dim_J m)}" by (auto simp: cells_done_def tile_from_def)
    then show ?thesis using that bI(2) by (simp add: mm_inv_def)
  qed
  moreover have "run_ops M (concat (map (\<lambda>i. concat (map (\<lambda>j. concat (map (?op i j) [0..<count_K m K])) [0..<count_J m J])) [0..<count_I m I])) s0 =
      forE (count_I m I) (\<lambda>i. forE (count_J m J) (\<lambda>j. forE (count_K m K) (\<lambda>k. run_ops M (?op i j k)))) s0"
    by (simp add: run_ops_concat forE_def cong: foldE_cong)
  ultimately show ?thesis by (auto simp: ops run_ops_append s0(1) gemmini_fence_def succeeds_iff)
qed

end
