(* ===== verification/Driver_Cpu_Correct.thy ===== *)
theory Driver_Cpu_Correct
  imports Driver_Matmul_Correct
begin

text \<open>
  The matrix multiplication on the processor: both paths of \<open>matmul_cpu\<close> write the same bytes as the
  accelerator.
\<close>

section \<open>One element\<close>

lemma cpu_elem_scaled:
  assumes "scaled_at M m base stride rows cols scale P" "i < rows" "j < cols"
  shows "cpu_elem M m (base + of_nat i * stride + of_nat j) scale = Inr (sint (P i j))"
proof -
  obtain X where X: "operand_at M m base stride rows cols X" "mvin_scale (X i j) scale = Inr (P i j)"
    using assms unfolding scaled_at_def by blast
  then have "mmu_load M m (base + of_nat i * stride + of_nat j) = Some (X i j)" using assms(2,3) by (simp add: operand_at_def dram_cell_def)
  then show ?thesis using mvin_scale_value [OF X(2)] by (simp add: cpu_elem_def read_elem load_byte_def)
qed

lemma scale_and_sat_plain:
  assumes "mm_plain a"
  shows "scale_and_sat v (mm_act a) (mm_scale a) bert_scale = mm_out a v"
proof (cases "ACC_SCALE (sint v) (mm_scale a)")
  case (Inl e)
  then show ?thesis
    using assms by (auto simp: scale_and_sat_def mm_plain_def mm_out_def acc_scale_def ACT_NO_ACTIVATION_def ACT_RELU_def ACT_IGELU_def)
next
  case (Inr r)
  have act: "mm_act a = 0 \<or> mm_act a = 1" using assms by (auto simp: mm_plain_def ACT_NO_ACTIVATION_def ACT_RELU_def)
  have c: "(if elem_t_max < r then elem_t_max else if r < elem_t_min then elem_t_min else r) = clamp8 r"
    by (simp add: clamp8_def elem_t_max_def elem_t_min_def)
  show ?thesis
    unfolding scale_and_sat_def Let_def using act Inr clamp8_bounds [of r]
    by (auto simp: c mm_out_def acc_scale_def ACT_IGELU_def ACT_RELU_def mm_relu_def apply_activation_def saturate_elem_clamp signed_of_int signed_take_bit_int_eq_self)
qed

text \<open>The sums, the bias and the address of an element, in the form both paths use.\<close>

lemma cpu_facts:
  assumes mem: "mm_memory M a m P Q D W" and a: "mm_plain a" and ij: "i < unat (mm_dim_I a)" "j < unat (mm_dim_J a)"
  shows "cpu_bias M a m i j = Inr (ws_sum P Q D i j 0)"
    and "k < unat (mm_dim_K a) \<Longrightarrow> cpu_mac M m (mm_A a + of_nat i * mm_stride_A a + of_nat k) (mm_A_scale a)
      (mm_B a + of_nat k * mm_stride_B a + of_nat j) (mm_B_scale a) (ws_sum P Q D i j k) = Inr (ws_sum P Q D i j (Suc k))"
    and "scale_and_sat (ws_sum P Q D i j (unat (mm_dim_K a))) (mm_act a) (mm_scale a) (mm_bert_scale a) = Inr (W (i, j))"
proof -
  note mm = mem [unfolded mm_memory_def Let_def]
  show "cpu_bias M a m i j = Inr (ws_sum P Q D i j 0)"
  proof (cases "mm_D a = 0")
    case False
    then have "bias_at M m (mm_D a) (bias_stride a) False 0 (unat (mm_dim_I a)) (unat (mm_dim_J a)) D" using mm by simp
    then have "read_from_dram M m (mm_D a + of_nat i * bias_stride a + of_nat j * 4) = Inr (D i j)"
      using ij by (simp add: bias_at_def Let_def mvin_acc_value_def)
    moreover have "mm_D a + ((if mm_repeating_bias a then 0 else of_nat i) * mm_stride_D a + of_nat j) * 4 = mm_D a + of_nat i * bias_stride a + of_nat j * 4"
      by (simp add: bias_stride_def algebra_simps)
    ultimately show ?thesis using False by (simp add: cpu_bias_def ws_sum_def add.assoc)
  qed (use mm in \<open>simp add: cpu_bias_def ws_sum_def\<close>)
  show "cpu_mac M m (mm_A a + of_nat i * mm_stride_A a + of_nat k) (mm_A_scale a)
      (mm_B a + of_nat k * mm_stride_B a + of_nat j) (mm_B_scale a) (ws_sum P Q D i j k) = Inr (ws_sum P Q D i j (Suc k))" if "k < unat (mm_dim_K a)"
  proof -
    have "cpu_elem M m (mm_A a + of_nat i * mm_stride_A a + of_nat k) (mm_A_scale a) = Inr (sint (P i k))"
      by (rule cpu_elem_scaled [where rows = "unat (mm_dim_I a)" and cols = "unat (mm_dim_K a)"]) (use mm ij that in simp_all)
    moreover have "cpu_elem M m (mm_B a + of_nat k * mm_stride_B a + of_nat j) (mm_B_scale a) = Inr (sint (Q k j))"
      by (rule cpu_elem_scaled [where rows = "unat (mm_dim_K a)" and cols = "unat (mm_dim_J a)"]) (use mm ij that in simp_all)
    ultimately show ?thesis by (simp add: cpu_mac_def ws_sum_def)
  qed
  show "scale_and_sat (ws_sum P Q D i j (unat (mm_dim_K a))) (mm_act a) (mm_scale a) (mm_bert_scale a) = Inr (W (i, j))"
    using scale_and_sat_plain [OF a] mm ij by simp
qed

lemma forE_value:
  assumes "\<And>k. k < n \<Longrightarrow> f k (v k) = Inr (v (Suc k))"
  shows "forE n f (v 0) = Inr (v n)"
proof -
  have "succeeds (forE n f (v 0)) (\<lambda>x. x = v n)" by (rule forE_succeeds) (use assms in auto)
  then show ?thesis by (auto simp: succeeds_iff)
qed

lemma mapE_value: "(\<And>x. x \<in> set xs \<Longrightarrow> f x = Inr (g x)) \<Longrightarrow> mapE f xs = Inr (map g xs)"
  by (induction xs) simp_all

section \<open>The two paths\<close>

text \<open>The element \<open>(i, j)\<close> is written where the earlier ones are.\<close>

lemma cpu_store_cell:
  assumes mem: "mm_memory M a m P Q D W" and ij: "i < unat (mm_dim_I a)" "j < unat (mm_dim_J a)"
    and S: "S \<subseteq> {..<unat (mm_dim_I a)} \<times> {..<unat (mm_dim_J a)}" "wrote M m m' S (dram_cell (mm_C a) (mm_stride_C a)) W"
  shows "succeeds (write_to_dram M (mm_C a + of_nat i * mm_stride_C a + of_nat j) (W (i, j)) m')
    (\<lambda>m''. S \<union> {(i, j)} \<subseteq> {..<unat (mm_dim_I a)} \<times> {..<unat (mm_dim_J a)} \<and> wrote M m m'' (S \<union> {(i, j)}) (dram_cell (mm_C a) (mm_stride_C a)) W)"
proof -
  let ?U = "{..<unat (mm_dim_I a)} \<times> {..<unat (mm_dim_J a)}" and ?C = "dram_cell (mm_C a) (mm_stride_C a)"
  have t: "mmu_ok M" "inj_on ?C ?U" "writable M m (?C (i, j))" "(i, j) \<in> ?U" using mem ij by (auto simp: mm_memory_def Let_def target_at_def)
  show ?thesis using write_next_cell [OF t(1,2) S(1) t(4,3) S(2)] ij S(1) by (auto simp: dram_cell_def elim!: succeeds_mono)
qed

lemma matmul_cpu_general_multiplies:
  assumes mem: "mm_memory M a m P Q D W" and a: "mm_plain a"
  shows "succeeds (matmul_cpu_general M a m) (\<lambda>m'. wrote M m m' ({..<unat (mm_dim_I a)} \<times> {..<unat (mm_dim_J a)}) (dram_cell (mm_C a) (mm_stride_C a)) W)"
proof -
  define I J K where "I = unat (mm_dim_I a)" "J = unat (mm_dim_J a)" "K = unat (mm_dim_K a)"
  note d = I_J_K_def
  let ?C = "dram_cell (mm_C a) (mm_stride_C a)" and ?xs = "pairs [0..<I] (\<lambda>_. [0..<J])"
  let ?P = "\<lambda>S m'. S \<subseteq> {..<I} \<times> {..<J} \<and> wrote M m m' S ?C W"
  define f where "f = (\<lambda>i j m. bindE (cpu_bias M a m i j) (\<lambda>sum.
      bindE (forE K (\<lambda>k. cpu_mac M m (mm_A a + of_nat i * mm_stride_A a + of_nat k) (mm_A_scale a) (mm_B a + of_nat k * mm_stride_B a + of_nat j) (mm_B_scale a)) sum) (\<lambda>sum.
      bindE (scale_and_sat sum (mm_act a) (mm_scale a) (mm_bert_scale a)) (\<lambda>e. write_to_dram M (mm_C a + of_nat i * mm_stride_C a + of_nat j) e m))))"
  have step: "succeeds (f i j m') (?P (S \<union> {(i, j)}))" if ij: "i < I" "j < J" and S: "?P S m'" for i j S m'
  proof -
    have mem': "mm_memory M a m' P Q D W" using mm_memory_wrote [OF mem] S by (auto simp: d)
    note facts = cpu_facts [OF mem' a ij [unfolded d]]
    have "f i j m' = write_to_dram M (mm_C a + of_nat i * mm_stride_C a + of_nat j) (W (i, j)) m'"
      using forE_value [of K "\<lambda>k. cpu_mac M m' (mm_A a + of_nat i * mm_stride_A a + of_nat k) (mm_A_scale a) (mm_B a + of_nat k * mm_stride_B a + of_nat j) (mm_B_scale a)" "ws_sum P Q D i j"] facts
      by (simp add: f_def d)
    then show ?thesis using cpu_store_cell [OF mem ij [unfolded d], of S m'] S by (simp add: d)
  qed
  have "succeeds (foldE (\<lambda>(i, j). f i j) ?xs m) (?P ({} \<union> (\<Union>x \<in> set ?xs. {x})))"
    by (rule foldE_gather) (use step in \<open>auto simp: set_pairs\<close>)
  moreover have "(\<Union>x \<in> set ?xs. {x}) = {..<I} \<times> {..<J}" by (auto simp: set_pairs)
  moreover have "matmul_cpu_general M a m = foldE (\<lambda>(i, j). f i j) ?xs m"
  proof -
    have "matmul_cpu_general M a m = forE I (\<lambda>i. forE J (f i)) m"
      using a by (auto simp: matmul_cpu_general_def f_def d mm_plain_def ACT_NO_ACTIVATION_def ACT_RELU_def ACT_LAYERNORM_def ACT_SOFTMAX_def Let_def add.assoc add.commute add.left_commute)
    then show ?thesis by (simp add: forE_nested)
  qed
  ultimately show ?thesis by (simp add: d succeeds_iff)
qed

lemma set_block_cells: "set block_cells = {..<4} \<times> {..<4}"
  by (auto simp: block_cells_def set_pairs)

lemma cpu_block:
  assumes mem: "mm_memory M a m P Q D W" and a: "mm_plain a" and ij: "i + 4 \<le> unat (mm_dim_I a)" "j + 4 \<le> unat (mm_dim_J a)"
    and S: "S \<subseteq> {..<unat (mm_dim_I a)} \<times> {..<unat (mm_dim_J a)}" "wrote M m m' S (dram_cell (mm_C a) (mm_stride_C a)) W"
  shows "succeeds (bindE (cpu_block_init M a i j m') (\<lambda>result. bindE (forE (unat (mm_dim_K a)) (cpu_block_mac M a i j m') result) (\<lambda>result.
      cpu_block_store M a i j result m')))
    (\<lambda>m''. S \<union> {i ..< i + 4} \<times> {j ..< j + 4} \<subseteq> {..<unat (mm_dim_I a)} \<times> {..<unat (mm_dim_J a)} \<and>
      wrote M m m'' (S \<union> {i ..< i + 4} \<times> {j ..< j + 4}) (dram_cell (mm_C a) (mm_stride_C a)) W)"
proof -
  let ?P = "\<lambda>S m''. S \<subseteq> {..<unat (mm_dim_I a)} \<times> {..<unat (mm_dim_J a)} \<and> wrote M m m'' S (dram_cell (mm_C a) (mm_stride_C a)) W"
  let ?v = "\<lambda>n. map (\<lambda>(ii, jj). ws_sum P Q D (i + ii) (j + jj) n) block_cells"
  have mem': "mm_memory M a m' P Q D W" using mm_memory_wrote [OF mem] S by blast
  have in_block: "i + ii < unat (mm_dim_I a)" "j + jj < unat (mm_dim_J a)" if "(ii, jj) \<in> set block_cells" for ii jj
    using that ij by (auto simp: set_block_cells)
  have init: "cpu_block_init M a i j m' = Inr (?v 0)"
    unfolding cpu_block_init_def by (rule mapE_value) (use cpu_facts(1) [OF mem' a in_block] in auto)
  have mac: "cpu_block_mac M a i j m' k (?v k) = Inr (?v (Suc k))" if "k < unat (mm_dim_K a)" for k
  proof -
    have "zip block_cells (?v k) = map (\<lambda>x. (x, ws_sum P Q D (i + fst x) (j + snd x) k)) block_cells"
      by (simp add: zip_map2 zip_same_conv_map split_def)
    then have "cpu_block_mac M a i j m' k (?v k) = mapE (\<lambda>((ii, jj), r). cpu_mac M m' (mm_A a + of_nat (i + ii) * mm_stride_A a + of_nat k) (mm_A_scale a)
         (mm_B a + of_nat k * mm_stride_B a + of_nat (j + jj)) (mm_B_scale a) r) (map (\<lambda>x. (x, ws_sum P Q D (i + fst x) (j + snd x) k)) block_cells)"
      unfolding cpu_block_mac_def by (rule arg_cong)
    also have "\<dots> = Inr (map (\<lambda>((ii, jj), r). ws_sum P Q D (i + ii) (j + jj) (Suc k)) (map (\<lambda>x. (x, ws_sum P Q D (i + fst x) (j + snd x) k)) block_cells))"
      by (rule mapE_value) (use cpu_facts(2) [OF mem' a in_block that] in auto)
    finally show ?thesis by (simp add: split_def comp_def)
  qed
  have loop: "forE (unat (mm_dim_K a)) (cpu_block_mac M a i j m') (?v 0) = Inr (?v (unat (mm_dim_K a)))"
    by (rule forE_value) (rule mac)
  let ?xs = "map (\<lambda>x. (x, ws_sum P Q D (i + fst x) (j + snd x) (unat (mm_dim_K a)))) block_cells"
  have zip: "zip block_cells (?v (unat (mm_dim_K a))) = ?xs" by (simp add: zip_map2 zip_same_conv_map split_def)
  have "succeeds (cpu_block_store M a i j (?v (unat (mm_dim_K a))) m') (?P (S \<union> (\<Union>x \<in> set ?xs. {(i + fst (fst x), j + snd (fst x))})))"
    unfolding cpu_block_store_def zip
  proof (rule foldE_gather)
    fix x T n assume x: "x \<in> set ?xs" and T: "?P T n"
    then obtain ii jj where e: "x = ((ii, jj), ws_sum P Q D (i + ii) (j + jj) (unat (mm_dim_K a)))" "(ii, jj) \<in> set block_cells" by auto
    show "succeeds ((\<lambda>((ii, jj), r) m. bindE (scale_and_sat r (mm_act a) (mm_scale a) (mm_bert_scale a)) (\<lambda>e.
        write_to_dram M (mm_C a + of_nat (i + ii) * mm_stride_C a + of_nat (j + jj)) e m)) x n) (?P (T \<union> {(i + fst (fst x), j + snd (fst x))}))"
      using cpu_store_cell [OF mem in_block [OF e(2)], of T n] T cpu_facts(3) [OF mem a in_block [OF e(2)]] unfolding e(1) by simp
  qed (use S in blast)
  moreover have "(\<Union>x \<in> set ?xs. {(i + fst (fst x), j + snd (fst x))}) = {i ..< i + 4} \<times> {j ..< j + 4}"
    using part_image [of i j 4 4] by (auto simp: set_block_cells image_iff)
  ultimately show ?thesis by (simp add: init loop)
qed

lemma quads_cover: "(\<Union>b < n div 4. {4 * b ..< 4 * b + 4}) = {..<n}" if "n mod 4 = 0" for n :: nat
proof -
  have "\<exists>b < n div 4. 4 * b \<le> x \<and> x < 4 * b + 4" if "x < n" for x
    by (rule exI [of _ "x div 4"]) (use that \<open>n mod 4 = 0\<close> in \<open>auto simp: div_less_iff_less_mult\<close>)
  moreover have "x < n" if "b < n div 4" "x < 4 * b + 4" for b x using that by linarith
  ultimately show ?thesis by force
qed

lemma matmul_cpu_unrolled_multiplies:
  assumes mem: "mm_memory M a m P Q D W" and a: "mm_plain a" and four: "unat (mm_dim_I a) mod 4 = 0" "unat (mm_dim_J a) mod 4 = 0"
  shows "succeeds (matmul_cpu_unrolled M a m) (\<lambda>m'. wrote M m m' ({..<unat (mm_dim_I a)} \<times> {..<unat (mm_dim_J a)}) (dram_cell (mm_C a) (mm_stride_C a)) W)"
proof -
  define I J where "I = unat (mm_dim_I a)" "J = unat (mm_dim_J a)"
  note d = I_J_def
  let ?P = "\<lambda>S m'. S \<subseteq> {..<I} \<times> {..<J} \<and> wrote M m m' S (dram_cell (mm_C a) (mm_stride_C a)) W"
  let ?xs = "pairs [0..<I div 4] (\<lambda>_. [0..<J div 4])" and ?T = "\<lambda>x. {4 * fst x ..< 4 * fst x + 4} \<times> {4 * snd x ..< 4 * snd x + 4}"
  define f where "f = (\<lambda>bi bj m. bindE (cpu_block_init M a (4 * bi) (4 * bj) m) (\<lambda>result.
      bindE (forE (unat (mm_dim_K a)) (cpu_block_mac M a (4 * bi) (4 * bj) m) result) (\<lambda>result. cpu_block_store M a (4 * bi) (4 * bj) result m)))"
  have "succeeds (foldE (\<lambda>(i, j). f i j) ?xs m) (?P ({} \<union> (\<Union>x \<in> set ?xs. ?T x)))"
  proof (rule foldE_gather)
    fix x S t assume x: "x \<in> set ?xs" and t: "?P S t"
    then have "4 * fst x + 4 \<le> I" "4 * snd x + 4 \<le> J" by (auto simp: set_pairs)
    then show "succeeds ((case x of (i, j) \<Rightarrow> f i j) t) (?P (S \<union> ?T x))"
      using cpu_block [OF mem a, of "4 * fst x" "4 * snd x" S t] t unfolding f_def split_def d by blast
  qed simp
  moreover have "(\<Union>x \<in> set ?xs. ?T x) = {..<I} \<times> {..<J}"
  proof -
    have "set ?xs = {..<I div 4} \<times> {..<J div 4}" by (auto simp: set_pairs)
    moreover have "(\<Union>x \<in> A \<times> B. F (fst x) \<times> F (snd x)) = (\<Union>a \<in> A. F a) \<times> (\<Union>b \<in> B. F b)" for A B :: "nat set" and F :: "nat \<Rightarrow> nat set" by auto
    from this [of "\<lambda>b. {4 * b ..< 4 * b + 4}" "{..<I div 4}" "{..<J div 4}"] have "(\<Union>x \<in> {..<I div 4} \<times> {..<J div 4}. ?T x) = {..<I} \<times> {..<J}"
      unfolding d quads_cover [OF four(1)] quads_cover [OF four(2)] .
    ultimately show ?thesis by simp
  qed
  moreover have "matmul_cpu_unrolled M a m = foldE (\<lambda>(i, j). f i j) ?xs m"
    unfolding matmul_cpu_unrolled_def f_def d by (rule forE_nested)
  ultimately show ?thesis by (simp add: d succeeds_iff)
qed

lemma matmul_cpu_multiplies:
  assumes mem: "mm_memory M a m P Q D W" and a: "mm_plain a"
  shows "succeeds (matmul_cpu M a m) (\<lambda>m'. wrote M m m' ({..<unat (mm_dim_I a)} \<times> {..<unat (mm_dim_J a)}) (dram_cell (mm_C a) (mm_stride_C a)) W)"
proof -
  have "unat x mod 4 = 0" if "x mod 4 = 0" for x :: u64 using that unat_mod [of x 4] by simp
  then show ?thesis
    using matmul_cpu_general_multiplies [OF assms] matmul_cpu_unrolled_multiplies [OF assms] by (simp add: matmul_cpu_def)
qed

section \<open>With the chosen tiles\<close>

lemma auto_tiling_accepted:
  assumes "mm_plain m" "dims_ok m" "0 < mm_dim_I m" "0 < mm_dim_J m" "0 < mm_dim_K m"
  obtains I J K where "auto_tiling m ty = Some (tiling_of I J K)" "tiled_matmul_check m (tiling_of I J K) ty = Inr ()"
    "0 < I" "0 < J" "0 < K" "fits_room ty I J K"
proof -
  have act: "mm_act m \<noteq> ACT_LAYERNORM" "mm_act m \<noteq> ACT_SOFTMAX" and tr: "\<not> mm_a_transpose m" "\<not> mm_b_transpose m"
    using assms(1) by (auto simp: mm_plain_def ACT_NO_ACTIVATION_def ACT_RELU_def ACT_LAYERNORM_def ACT_SOFTMAX_def)
  obtain I J K where t: "auto_tiling m ty = Some (tiling_of I J K)" "0 < I" "0 < J" "0 < K" "tile_bounds m I J K" "fits_room ty I J K"
    using auto_tiling_ok [OF assms(2) act assms(3-5), of ty] by metis
  have "tiled_matmul_check m (tiling_of I J K) ty = Inr ()" by (rule checks_pass [OF assms(2) t(5,6,2-4)]) (use tr in auto)
  then show ?thesis using t that by blast
qed

text \<open>The product on the accelerator, which leaves its configuration behind, and on the processor.\<close>

lemma matmul_auto_multiplies:
  fixes s :: "'m sim"
  assumes mem: "mm_memory M m (mem s) P Q D W" and m: "mm_plain m" "dims_ok m" "0 < mm_dim_I m" "0 < mm_dim_J m" "0 < mm_dim_K m"
  shows "wf_state s \<Longrightarrow> unat (norm_stat_id (norm_st s)) < 4 \<Longrightarrow> acc_act s \<noteq> SOFTMAX \<Longrightarrow>
      \<exists>t. tiled_matmul_auto M m TM_WS s = Some (Inr t) \<and> mm_configured m t \<and>
        wrote M (mem s) (mem t) ({..<unat (mm_dim_I m)} \<times> {..<unat (mm_dim_J m)}) (dram_cell (mm_C m) (mm_stride_C m)) W"
    and "\<exists>mm. tiled_matmul_auto M m TM_CPU s = Some (Inr (s\<lparr>mem := mm\<rparr>)) \<and>
        wrote M (mem s) mm ({..<unat (mm_dim_I m)} \<times> {..<unat (mm_dim_J m)}) (dram_cell (mm_C m) (mm_stride_C m)) W"
proof -
  assume s: "wf_state s" "unat (norm_stat_id (norm_st s)) < 4" "acc_act s \<noteq> SOFTMAX"
  obtain I J K where "auto_tiling m TM_WS = Some (tiling_of I J K)" "tiled_matmul_check m (tiling_of I J K) TM_WS = Inr ()" "mm_chosen m I J K"
    by (rule auto_tiling_accepted [OF m, of TM_WS]) (use m in \<open>simp add: mm_chosen_def\<close>)
  then show "\<exists>t. tiled_matmul_auto M m TM_WS s = Some (Inr t) \<and> mm_configured m t \<and>
        wrote M (mem s) (mem t) ({..<unat (mm_dim_I m)} \<times> {..<unat (mm_dim_J m)}) (dram_cell (mm_C m) (mm_stride_C m)) W"
    using tiled_matmul_outer_multiplies [OF _ mem s] by (fastforce simp: succeeds_iff tiled_matmul_auto_def tiled_matmul_def)
next
  obtain I J K where "auto_tiling m TM_CPU = Some (tiling_of I J K)" "tiled_matmul_check m (tiling_of I J K) TM_CPU = Inr ()"
    using auto_tiling_accepted [OF m] by metis
  then show "\<exists>mm. tiled_matmul_auto M m TM_CPU s = Some (Inr (s\<lparr>mem := mm\<rparr>)) \<and>
        wrote M (mem s) mm ({..<unat (mm_dim_I m)} \<times> {..<unat (mm_dim_J m)}) (dram_cell (mm_C m) (mm_stride_C m)) W"
    using matmul_cpu_multiplies [OF mem m(1)] by (fastforce simp: succeeds_iff tiled_matmul_auto_def tiled_matmul_def)
qed

end
