(* ===== verification/Driver_Example.thy ===== *)
theory Driver_Example
  imports Gemmini_Example Driver_Cpu_Correct
begin

text \<open>
  The memory of the examples that run whole jobs: the bytes below \<open>0x4000\<close> are one, and from there on
  every 32-bit word is five.
\<close>

definition ones_and_fives :: "u64 \<Rightarrow> u8" where
  "ones_and_fives a = (if a < 0x4000 then 1 else if a mod 4 = 0 then 5 else 0)"

lemma ones_at:
  assumes "base \<noteq> 0" "unat base + rows * unat stride + cols \<le> 0x4000"
  shows "scaled_at ram ones_and_fives base stride rows cols MVIN_SCALE_IDENTITY (\<lambda>_ _. 1)"
proof -
  have "ones_and_fives (dram_cell base stride (i, j)) = 1" if "i < rows" "j < cols" for i j
  proof -
    have "unat (dram_cell base stride (i, j)) < 0x4000"
      using dram_cell_unat [of base i stride j] cell_below [OF that, of base stride] assms(2) by simp
    then show ?thesis by (simp add: ones_and_fives_def word_less_nat_alt)
  qed
  then show ?thesis unfolding scaled_at_def
    using operand_at_ram [of base rows stride cols ones_and_fives] assms by (force simp: mvin_scale_one)
qed

lemma fives_at:
  fixes a :: u64
  assumes "unat a = 4 * n" "0x1000 \<le> n" "n < 2 ^ 61"
  shows "read_from_dram ram ones_and_fives a = (Inr 5 :: acc_t res)"
proof -
  have "mmu_load ram ones_and_fives (a + of_nat b) = Some (if b = 0 then 5 else 0)" if "b < 4" for b
  proof -
    have "unat (of_nat (4 * n + b) :: u64) = 4 * n + b" by (rule unat_of_small) (use assms that in simp)
    moreover have "a + of_nat b = of_nat (4 * n + b)" by (metis assms(1) of_nat_add of_nat_unat ucast_id)
    ultimately have u: "unat (a + of_nat b) = 4 * n + b" by simp
    moreover have "(a + of_nat b) mod 4 = 0 \<longleftrightarrow> (4 * n + b) mod 4 = 0"
      using unat_mod [of "a + of_nat b" 4] unat_eq_zero [of "(a + of_nat b) mod 4"] u by simp
    moreover have "(4 * n + b) mod 4 = 0 \<longleftrightarrow> b = 0" using that by presburger
    ultimately show ?thesis using assms(2) by (simp add: ram_def ones_and_fives_def word_less_nat_alt)
  qed
  then have "read_from_dram ram ones_and_fives a = (Inr (word_of_bytes (\<lambda>b. if b = 0 then 5 else 0) 4) :: acc_t res)"
    using read_from_dram_bytes [where 'a = 32 and f = "\<lambda>b. if b = 0 then 5 else 0" and M = ram and m = ones_and_fives and addr = a]
    by (simp add: bytes_of_def)
  moreover have "[0..<4] = [0, 1, 2, 3 :: nat]" by (simp add: upt_rec)
  ultimately show ?thesis by (simp add: word_of_bytes_def)
qed

lemma fives_bias:
  assumes "n < 2 ^ 20" "rows < 2 ^ 20" "cols < 2 ^ 20"
  shows "bias_at ram ones_and_fives 0x4000 (of_nat (4 * n)) False scale rows cols (\<lambda>_ _. 5)"
    and "i < rows \<Longrightarrow> j < cols \<Longrightarrow> b < 4 \<Longrightarrow> 0x4000 \<le> unat ((0x4000 :: u64) + of_nat i * of_nat (4 * n) + of_nat j * 4 + of_nat b)"
proof -
  have u: "unat ((0x4000 :: u64) + of_nat i * of_nat (4 * n) + of_nat j * 4 + of_nat b) = 4 * (0x1000 + i * n + j) + b" if "i < rows" "j < cols" "b < 4" for i j b
  proof -
    have "i * n \<le> 2 ^ 20 * 2 ^ 20" using that assms by (intro mult_le_mono) simp_all
    then have "unat (of_nat (4 * (0x1000 + i * n + j) + b) :: u64) = 4 * (0x1000 + i * n + j) + b" using that assms by (intro unat_of_small) simp
    then show ?thesis by (simp add: algebra_simps)
  qed
  have v: "unat ((0x4000 :: u64) + of_nat i * of_nat (4 * n) + of_nat j * 4) = 4 * (0x1000 + i * n + j)" "0x1000 + i * n + j < 2 ^ 61" if "i < rows" "j < cols" for i j
  proof -
    show "unat ((0x4000 :: u64) + of_nat i * of_nat (4 * n) + of_nat j * 4) = 4 * (0x1000 + i * n + j)" using u [OF that, of 0] by simp
    have "i * n \<le> 2 ^ 20 * 2 ^ 20" using that assms by (intro mult_le_mono) simp_all
    then show "0x1000 + i * n + j < 2 ^ 61" using that assms by simp
  qed
  then have "(0x4000 :: u64) + of_nat i * of_nat (4 * n) + of_nat j * 4 \<noteq> 0" if "i < rows" "j < cols" for i j
    using v(1) [OF that] by (metis add_is_0 mult_is_0 unat_0 zero_neq_numeral)
  then show "bias_at ram ones_and_fives 0x4000 (of_nat (4 * n)) False scale rows cols (\<lambda>_ _. 5)"
    using fives_at [OF v(1) _ v(2)] by (simp add: bias_at_def mvin_acc_value_def Let_def del: of_nat_mult)
  show "0x4000 \<le> unat ((0x4000 :: u64) + of_nat i * of_nat (4 * n) + of_nat j * 4 + of_nat b)" if "i < rows" "j < cols" "b < 4"
    using u [OF that] by simp
qed


end
