(* ===== verification/Gemmini_Blind.thy ===== *)
theory Gemmini_Blind
  imports Gemmini_Dispatch
begin

text \<open>
  No operation but the one on the counters looks at the counters or at the flag \<open>op_in_progress\<close>: an operation does the
  same whatever they are, and leaves them alone. So the increments that \<open>custom3\<close> makes before every instruction
  change nothing of what the instruction computes.
\<close>

section \<open>Operations that commute with a change of the state\<close>

definition same :: "('s \<Rightarrow> 's) \<Rightarrow> ('s \<Rightarrow> 'a) \<Rightarrow> bool" where
  "same U v \<longleftrightarrow> (\<forall>s. v (U s) = v s)"

definition blind :: "('s \<Rightarrow> 's) \<Rightarrow> ('s \<Rightarrow> 's res) \<Rightarrow> bool" where
  "blind U f \<longleftrightarrow> (\<forall>s. f (U s) = map_sum id U (f s))"

lemma blindD: "blind U f \<Longrightarrow> f (U s) = map_sum id U (f s)"
  by (simp add: blind_def)

lemma blind_Inr: "blind U Inr"
  by (simp add: blind_def)

lemma blind_Inl: "same U e \<Longrightarrow> blind U (\<lambda>s. Inl (e s))"
  by (simp add: blind_def same_def)

lemma blind_update: "(\<And>s. g (U s) = U (g s)) \<Longrightarrow> blind U (\<lambda>s. Inr (g s))"
  by (simp add: blind_def)

lemma blind_if: "same U c \<Longrightarrow> blind U f \<Longrightarrow> blind U g \<Longrightarrow> blind U (\<lambda>s. if c s then f s else g s)"
  by (simp add: blind_def same_def)

lemma blind_bind: "blind U f \<Longrightarrow> same U g \<Longrightarrow> (\<And>t. blind U (g t)) \<Longrightarrow> blind U (\<lambda>s. bindE (f s) (g s))"
  unfolding blind_def same_def
proof (intro allI)
  fix s assume "\<forall>s. f (U s) = map_sum id U (f s)" "\<forall>s. g (U s) = g s" "\<And>t. \<forall>s. g t (U s) = map_sum id U (g t s)"
  then show "bindE (f (U s)) (g (U s)) = map_sum id U (bindE (f s) (g s))" by (cases "f s") simp_all
qed

lemma blind_bind_value: "same U v \<Longrightarrow> (\<And>x. blind U (g x)) \<Longrightarrow> blind U (\<lambda>s. bindE (v s) (\<lambda>x. g x s))"
  unfolding blind_def same_def
proof (intro allI)
  fix s assume "\<forall>s. v (U s) = v s" "\<And>x. \<forall>s. g x (U s) = map_sum id U (g x s)"
  then show "bindE (v (U s)) (\<lambda>x. g x (U s)) = map_sum id U (bindE (v s) (\<lambda>x. g x s))" by (cases "v s") simp_all
qed

text \<open>An operation that also returns a value.\<close>

definition blind_pair :: "('s \<Rightarrow> 's) \<Rightarrow> ('s \<Rightarrow> ('x \<times> 's) res) \<Rightarrow> bool" where
  "blind_pair U f \<longleftrightarrow> (\<forall>s. f (U s) = map_sum id (map_prod id U) (f s))"

lemma blind_bind_pair:
  assumes "blind_pair U f" "same U g" "\<And>t x. blind U (g t x)"
  shows "blind U (\<lambda>s. bindE (f s) (\<lambda>(x, t). g s x t))"
  unfolding blind_def
proof
  fix s
  show "bindE (f (U s)) (\<lambda>(x, t). g (U s) x t) = map_sum id U (bindE (f s) (\<lambda>(x, t). g s x t))"
    using assms by (cases "f s") (auto simp: blind_pair_def same_def blind_def)
qed

lemma blind_pair_Inr: "same U x \<Longrightarrow> (\<And>s. h (U s) = U (h s)) \<Longrightarrow> blind_pair U (\<lambda>s. Inr (x s, h s))"
  by (simp add: blind_pair_def same_def)

lemma blind_pair_if: "same U c \<Longrightarrow> blind_pair U f \<Longrightarrow> blind_pair U g \<Longrightarrow> blind_pair U (\<lambda>s. if c s then f s else g s)"
  by (simp add: blind_pair_def same_def)

lemma blind_pair_bind: "blind U f \<Longrightarrow> (\<And>t. blind_pair U (g t)) \<Longrightarrow> same U g \<Longrightarrow> blind_pair U (\<lambda>s. bindE (f s) (g s))"
  unfolding blind_def blind_pair_def same_def
proof (intro allI)
  fix s assume "\<forall>s. f (U s) = map_sum id U (f s)" "\<And>t. \<forall>s. g t (U s) = map_sum id (map_prod id U) (g t s)" "\<forall>s. g (U s) = g s"
  then show "bindE (f (U s)) (g (U s)) = map_sum id (map_prod id U) (bindE (f s) (g s))" by (cases "f s") simp_all
qed

lemma blind_pair_bind_value: "same U v \<Longrightarrow> (\<And>x. blind_pair U (g x)) \<Longrightarrow> blind_pair U (\<lambda>s. bindE (v s) (\<lambda>x. g x s))"
  unfolding blind_pair_def same_def
proof (intro allI)
  fix s assume "\<forall>s. v (U s) = v s" "\<And>x. \<forall>s. g x (U s) = map_sum id (map_prod id U) (g x s)"
  then show "bindE (v (U s)) (\<lambda>x. g x (U s)) = map_sum id (map_prod id U) (bindE (v s) (\<lambda>x. g x s))" by (cases "v s") simp_all
qed

lemma blind_case: "(\<And>x. blind_pair U (g x)) \<Longrightarrow> blind (map_prod id U) (\<lambda>(x, s). g x s)"
  by (auto simp: blind_def blind_pair_def)

lemma blind_pair_start: "blind (map_prod id U) f \<Longrightarrow> blind_pair U (\<lambda>s. f (x, s))"
  by (simp add: blind_pair_def blind_def)

lemmas pair_rules = blind_pair_Inr blind_pair_if blind_pair_bind blind_pair_bind_value

lemma blind_foldE: "(\<And>i. blind U (f i)) \<Longrightarrow> blind U (foldE f is)"
proof (induction "is")
  case Nil
  then show ?case by (simp add: blind_def)
next
  case (Cons i "is")
  have "blind U (\<lambda>s. bindE (f i s) (foldE f is))"
    by (rule blind_bind) (use Cons in \<open>simp_all add: same_def\<close>)
  then show ?case by (simp add: blind_def)
qed

lemma blind_forE: "same U n \<Longrightarrow> same U f \<Longrightarrow> (\<And>t i. blind U (f t i)) \<Longrightarrow> blind U (\<lambda>s. forE (n s) (f s) s)"
  using blind_foldE [of U "f t" for t] unfolding forE_def by (auto simp: blind_def same_def)

lemma blind_whileE: "(\<And>x. blind U (body x)) \<Longrightarrow> blind U (whileE n cond nxt body x)"
proof (induction n arbitrary: x)
  case (Suc n)
  have "blind U (\<lambda>s. bindE (body x s) (whileE n cond nxt body (nxt x)))"
    by (rule blind_bind) (use Suc in \<open>simp_all add: same_def\<close>)
  then show ?case by (simp add: blind_def)
qed (simp add: blind_def)

lemma blind_after: "(\<And>s. h (U s) = U (h s)) \<Longrightarrow> blind U f \<Longrightarrow> blind U (\<lambda>s. f (h s))"
  by (simp add: blind_def)

lemma blind_loops:
  assumes "\<And>x. blind U (body x)"
  shows "blind U (loop_u16 bound inc body)" "blind U (loop_i16 from bound inc body)" "blind U (loop_int bound inc body)"
  using blind_whileE [OF assms] by (simp_all add: blind_def loop_u16_def loop_i16_def loop_int_def)

lemmas blind_rules = blind_Inr blind_Inl blind_if blind_bind_pair blind_bind blind_bind_value blind_forE blind_foldE blind_whileE blind_loops

section \<open>The operations of the accelerator\<close>

definition masked :: "counter_file \<Rightarrow> bool \<Rightarrow> 'z gemmini_state_scheme \<Rightarrow> 'z gemmini_state_scheme" where
  "masked c b s = s\<lparr>counter_st := c, op_in_progress := b\<rparr>"

lemma mvin_elem_blind: "blind (masked c b) (mvin_elem M ac accu z sh sc a col r k)"
  unfolding mvin_elem_def Let_def by (rule blind_rules blind_update | (simp add: same_def masked_def; fail))+

lemma mvin_blind: "blind (masked c b) (mvin M dram_addr sp_addr state_id)"
  unfolding mvin_def Let_def by (rule mvin_elem_blind blind_rules | (simp add: same_def masked_def; fail))+

lemma apply_norm_blind: "blind_pair (masked c b) (apply_norm x len cmd)"
proof -
  have acc: "same (masked c b) (\<lambda>s. norm_accumulate s x len cmd (norm_start cmd k))" for k
    by (simp add: same_def norm_accumulate_def masked_def cong: if_cong)
  show ?thesis
    unfolding apply_norm_def Let_def by (rule acc pair_rules | (simp add: same_def masked_def; fail))+
qed

lemma mvout_norm_blind: "blind_pair (masked c b) (mvout_norm base cols cmd i)"
  unfolding mvout_norm_def Let_def
  by (rule blind_pair_start, rule blind_forE, simp add: same_def, simp add: same_def, rule blind_case)
    (rule apply_norm_blind pair_rules | (simp add: same_def masked_def; fail))+

lemma pre_activation_same: "same (masked c b) (\<lambda>s. apply_pre_activation_acc s v)" "same (masked c b) (\<lambda>s. apply_activation_acc s x)"
    "same (masked c b) (\<lambda>s. apply_activation_sys s x)"
  by (simp_all add: same_def masked_def apply_pre_activation_acc_def apply_activation_acc_def apply_activation_sys_def cong: if_cong)

lemma mvout_elem_blind: "blind (masked c b) (mvout_elem M ac full base a i j)"
  unfolding mvout_elem_def mvout_acc_elem_def Let_def
  by (rule pre_activation_same blind_rules blind_update | (simp add: same_def masked_def apply_activation_acc_def; fail))+

lemma mvout_pool_elem_blind: "blind (masked c b) (mvout_pool_elem M a base ac porow pocol poch)"
proof -
  have v: "same (masked c b) (pool_value base ac porow pocol poch)"
    by (simp add: same_def pool_value_def pool_elem_def masked_def apply_activation_acc_def Let_def cong: if_cong)
  show ?thesis
    unfolding mvout_pool_elem_def Let_def by (rule v blind_rules blind_update | (simp add: same_def masked_def; fail))+
qed

lemma mvout_blind: "blind (masked c b) (mvout M dram_addr sp_addr)"
proof -
  have "blind (masked c b) (mvout_rows M dram_addr sp_addr)"
    unfolding mvout_rows_def Let_def
    by (rule mvout_norm_blind mvout_elem_blind blind_rules | (simp add: same_def masked_def cong: if_cong; fail))+
  moreover have "blind (masked c b) (mvout_pool M dram_addr sp_addr)"
    unfolding mvout_pool_def Let_def by (rule mvout_pool_elem_blind blind_forE | (simp add: same_def masked_def; fail))+
  ultimately show ?thesis
    unfolding mvout_def by (intro blind_if) (simp_all add: same_def masked_def)
qed

lemma preload_masked: "preload x y (masked c b s) = masked c b (preload x y s)"
  by (simp add: preload_def masked_def)

lemma compute_blind: "blind (masked c b) (compute a bd pre)"
proof -
  have pe: "blind (masked c b) (preload_pe i j)" for i j
    unfolding preload_pe_def Let_def by (rule blind_rules blind_update | (simp add: same_def masked_def; fail))+
  have pre: "blind (masked c b) compute_preload"
    unfolding compute_preload_def by (rule pe blind_forE | (simp add: same_def; fail))+
  have ab: "same (masked c b) (compute_a x r k i j)" "same (masked c b) (compute_b x r k i j)" for x r k i j
    by (simp_all add: same_def masked_def compute_a_def compute_b_def Let_def cong: if_cong)
  have mac: "blind (map_prod id (masked c b)) (mac_step a bd i j k)" for i j k
    unfolding mac_step_def Let_def
    by (rule blind_case) (rule ab pair_rules | (simp add: same_def masked_def; fail))+
  have macs: "blind_pair (masked c b) (compute_mac a bd results)" for results
    unfolding compute_mac_def by (rule blind_pair_start) (rule mac blind_forE | (simp add: same_def; fail))+
  have wr: "blind (masked c b) (write_result results i j)" for results i j
    unfolding write_result_def Let_def by (rule blind_rules blind_update | (simp add: same_def masked_def apply_activation_sys_def; fail))+
  have wrs: "blind (masked c b) (compute_write results)" for results
    unfolding compute_write_def Let_def by (rule wr blind_rules | (simp add: same_def masked_def; fail))+
  have res: "same (masked c b) (compute_results x r k)" for x r k
    by (simp add: same_def compute_results_def masked_def cong: if_cong)
  show ?thesis
    unfolding compute_def by (rule pre macs wrs res blind_rules | (simp add: same_def; fail))+
qed

lemma config_blind: "blind (masked c b) (config rs1 rs2)"
proof -
  have "blind (masked c b) (config_ex rs1 rs2)"
    unfolding config_ex_def Let_def by (rule blind_bind_value blind_update | (simp add: same_def masked_def; fail))+
  moreover have "blind (masked c b) (config_mvin rs1 rs2)"
    unfolding config_mvin_def Let_def by (rule blind_bind_value blind_update | (simp add: same_def masked_def; fail))+
  moreover have "blind (masked c b) (config_mvout rs1 rs2)"
    unfolding config_mvout_def by (rule blind_bind_value blind_update | (simp add: same_def masked_def; fail))+
  moreover have "blind (masked c b) (config_norm rs1 rs2)"
    unfolding config_norm_def Let_def by (rule blind_if blind_bind_value blind_update | (simp add: same_def masked_def; fail))+
  ultimately show ?thesis
    unfolding config_def by (intro blind_if blind_Inr) (simp_all add: same_def)
qed

section \<open>The loops\<close>

lemmas step_blind = mvin_blind mvout_blind compute_blind config_blind

lemma preload_compute_blind: "blind (masked c b) (\<lambda>s. compute a bd p (preload x y s))"
  by (rule blind_after [where h = "preload x y", OF preload_masked compute_blind])

lemma loop_regs_masked: "loop_ws_st (masked c b s) = loop_ws_st s" "loop_conv_st (masked c b s) = loop_conv_st s"
  by (simp_all add: masked_def)

lemma loop_ws_blind: "blind (masked c b) (loop_ws M rs1 rs2)"
proof -
  note solve = same_def masked_def
  have blk: "blind (masked c b) (loop_ws_resadd_block M k r i j)" for k r i j
    unfolding loop_ws_resadd_block_def Let_def by (rule step_blind blind_rules | (simp add: solve; fail))+
  have res: "blind (masked c b) (loop_ws_resadd M k)" for k
    unfolding loop_ws_resadd_def Let_def by (rule blk blind_forE | (simp add: solve; fail))+
  have D: "blind (masked c b) (loop_ws_load_D M k r)" for k r
    unfolding loop_ws_load_D_def Let_def by (rule step_blind blind_rules | (simp add: solve; fail))+
  have N: "blind (masked c b) (loop_ws_mvout_norm M k r i)" for k r i
    unfolding loop_ws_mvout_norm_def Let_def case_prod_beta by (rule step_blind blind_rules | (simp add: solve; fail))+
  have body: "blind (masked c b) (loop_ws_body M k r h j i)" for k r h j i
    unfolding loop_ws_body_def loop_ws_mvin_A_def loop_ws_mvin_B_def loop_ws_exec_def loop_ws_mvout_def Let_def
    by (rule preload_compute_blind N step_blind blind_rules | (simp add: solve; fail))+
  have D': "blind (masked c b) (\<lambda>s. loop_ws_load_D M k (loop_ws_st s) s)" for k
    using D by (simp add: blind_def loop_regs_masked)
  show ?thesis
    unfolding loop_ws_def Let_def
    by (rule res D' body blind_rules | (simp add: solve; fail))+
qed

lemma conv_compute_blind: "blind (masked c b) (conv_compute k r d)"
proof -
  have blk: "blind (masked c b) (conv_compute_block k r d och krow kcol kch bb orow ocol new)" for och krow kcol kch bb orow ocol new
    unfolding conv_compute_block_def Let_def by (rule preload_compute_blind)
  have run: "blind (map_prod id (masked c b)) (\<lambda>(new, s). if P then Inr (new, s) else bindE (conv_compute_block k r d och krow kcol kch bb orow ocol new s) (\<lambda>s. Inr (False, s)))"
    for P och krow kcol kch bb orow ocol
    by (rule blind_case) (rule blk pair_rules | (simp add: same_def; fail))+
  have loops: "blind_pair (masked c b) (\<lambda>s. loop_u16 bound inc body (True, s))" if "\<And>x. blind (map_prod id (masked c b)) (body x)"
    for bound inc and body :: "int \<Rightarrow> bool \<times> 'a sim \<Rightarrow> (bool \<times> 'a sim) res"
    using blind_pair_start [OF blind_loops(1) [OF that]] .
  show ?thesis
    unfolding conv_compute_def Let_def
    by (rule run loops step_blind blind_rules | (simp add: same_def; fail))+
qed

lemma loop_conv_ws_blind: "blind (masked c b) (loop_conv_ws M rs1 rs2)"
  unfolding blind_def
proof
  fix s :: "'a sim"
  let ?k = "loop_conv_decode rs1 rs2" and ?r = "loop_conv_st s"
  let ?d = "conv_dims_of ?k ?r"
  have bias: "blind (masked c b) (conv_mvin_bias M ?k ?r)"
    unfolding conv_mvin_bias_def Let_def by (rule step_blind blind_rules | (simp add: same_def; fail))+
  have inp: "blind (masked c b) (conv_mvin_input M ?k ?r ?d)"
    unfolding conv_mvin_input_def conv_mvin_input_block_def Let_def by (rule step_blind blind_rules | (simp add: same_def; fail))+
  have wts: "blind (masked c b) (conv_mvin_weights M ?k ?r ?d)"
    unfolding conv_mvin_weights_def Let_def by (rule step_blind blind_rules | (simp add: same_def; fail))+
  have rows: "blind (masked c b) (conv_mvout_rows M ?k ?r)"
    unfolding conv_mvout_rows_def Let_def by (rule step_blind blind_rules | (simp add: same_def; fail))+
  have pool: "blind (masked c b) (conv_mvout_pool M ?k ?r scale)" for scale
    unfolding conv_mvout_pool_def Let_def by (rule step_blind blind_rules | (simp add: same_def; fail))+
  have out: "blind (masked c b) (conv_mvout M ?k ?r)"
    using rows pool unfolding blind_def conv_mvout_def by (auto simp: masked_def)
  let ?f = "\<lambda>s. bindE (conv_mvin_bias M ?k ?r s) (\<lambda>s. bindE (conv_mvin_input M ?k ?r ?d s) (\<lambda>s.
      bindE (conv_mvin_weights M ?k ?r ?d s) (\<lambda>s. bindE (conv_compute ?k ?r ?d s) (\<lambda>s. conv_mvout M ?k ?r s))))"
  have f: "blind (masked c b) ?f" by (rule bias inp wts conv_compute_blind out blind_bind | (simp add: same_def; fail))+
  have "(masked c b s)\<lparr>loop_conv_st := conv_advance ?r\<rparr> = masked c b (s\<lparr>loop_conv_st := conv_advance ?r\<rparr>)" by (simp add: masked_def)
  then show "loop_conv_ws M rs1 rs2 (masked c b s) = map_sum id (masked c b) (loop_conv_ws M rs1 rs2 s)"
    using blindD [OF f, of "s\<lparr>loop_conv_st := conv_advance ?r\<rparr>"]
    by (cases "cv_input_dilated ?k = 0 \<or> lc_stride ?r = 1") (simp_all add: loop_conv_ws_def Let_def loop_regs_masked guardE_def)
qed

lemma exec_funct_blind: "blind (masked c b) (exec_funct M funct xs1 xs2)"
proof -
  have set: "blind (masked c b) (\<lambda>s. Inr (upd_loop_ws f s))" "blind (masked c b) (\<lambda>s. Inr (upd_loop_conv g s))"
    "blind (masked c b) (\<lambda>s. Inr (preload x y s))" for f g x y
    by (intro blind_update; simp add: upd_loop_ws_def upd_loop_conv_def preload_def masked_def)+
  show ?thesis
    unfolding exec_funct_def loop_ws_config_bounds_def loop_ws_config_addrs_AB_def loop_ws_config_addrs_DC_def
      loop_ws_config_strides_AB_def loop_ws_config_strides_DC_def loop_conv_ws_config_1_def
      loop_conv_ws_config_2_def loop_conv_ws_config_3_def loop_conv_ws_config_4_def
      loop_conv_ws_config_5_def loop_conv_ws_config_6_def
    by (rule set step_blind loop_ws_blind loop_conv_ws_blind blind_Inr blind_Inl blind_if | (simp add: same_def; fail))+
qed

end
