(* ===== verification/Driver_Program.thy ===== *)
theory Driver_Program
  imports Driver_Issue Gemmini_Blind
begin

text \<open>
  The operations of the driver as instructions of a program: each goes through the dispatcher \<open>custom3\<close>, which resets
  the accelerator on its first instruction and increments the counters before the others. Apart from the counters, the program does
  what \<open>run_ops\<close> does on an accelerator that has been reset.
\<close>

section \<open>The instructions of a list of operations\<close>

text \<open>\<open>rnd n\<close> are the values \<open>rand()\<close> returns during instruction \<open>n\<close>. A fence is an instruction of the processor.\<close>

fun program_of :: "(nat \<Rightarrow> nat \<Rightarrow> u32) \<Rightarrow> drv_op list \<Rightarrow> gemmini_insn list" where
  "program_of rnd [] = []"
| "program_of rnd (Rocc k rs1 rs2 # ops) =
     \<lparr>gi_rnd = rnd 0, gi_funct = k, gi_xs1 = rs1, gi_xs2 = rs2\<rparr> # program_of (\<lambda>n. rnd (Suc n)) ops"
| "program_of rnd (Fence # ops) = program_of rnd ops"

fun counter_free :: "drv_op \<Rightarrow> bool" where
  "counter_free (Rocc k rs1 rs2) \<longleftrightarrow> k \<noteq> counter_op_funct"
| "counter_free Fence \<longleftrightarrow> True"

lemma masked_masked [simp]: "masked c b (masked d e s) = masked c b s" "masked (counter_st s) (op_in_progress s) s = s"
  by (simp_all add: masked_def)

lemma map_masked [simp]: "map_sum id (masked c b) (map_sum id (masked d e) r) = map_sum id (masked c b) r"
  by (cases r) simp_all

lemma run_ops_blind: "blind (masked c b) (run_ops M ops)"
proof -
  have "blind (masked c b) (issue M x)" for x
    using exec_funct_blind by (cases x) (simp_all add: blind_def)
  then show ?thesis unfolding run_ops_def by (rule blind_foldE)
qed

text \<open>The effect of an operation does not depend on the counters, and it keeps them.\<close>

lemma run_ops_masked: "map_sum id (masked (counter_st s) (op_in_progress s)) (run_ops M ops s) = run_ops M ops s"
  using blindD [OF run_ops_blind, of M ops "counter_st s" "op_in_progress s" s] by simp

section \<open>Through the dispatcher\<close>

lemma wf_state_masked: "wf_state s \<Longrightarrow> wf_counters c \<Longrightarrow> wf_state (masked c b s)"
  by (simp add: masked_def wf_state_def wf_arrays_def wf_memories_def)

text \<open>One instruction, after the reset.\<close>

lemma custom3_masked:
  assumes "wf_state s" "resetted s" "k \<noteq> counter_op_funct"
  shows "\<exists>d x. wf_counters d \<and> custom3 M rnd k rs1 rs2 s = bindE (exec_funct M k rs1 rs2 s) (\<lambda>t. Inr (0, masked d x t))"
proof -
  have st: "started s" using assms(1) by (simp add: started_def wf_state_def)
  obtain d where d: "wf_state (s\<lparr>counter_st := d\<rparr>)"
    "custom3 M rnd k rs1 rs2 s = bindE (exec_funct M k rs1 rs2 (s\<lparr>counter_st := d\<rparr>)) (\<lambda>s. Inr (0, s\<lparr>op_in_progress := (k \<noteq> flush_funct)\<rparr>))"
    using custom3_resetted [OF st assms(2), of rnd] assms(3) by (metis (no_types, lifting))
  have m: "s\<lparr>counter_st := d\<rparr> = masked d (op_in_progress s) s" by (simp add: masked_def)
  have "custom3 M rnd k rs1 rs2 s = bindE (exec_funct M k rs1 rs2 s) (\<lambda>t. Inr (0, masked d (k \<noteq> flush_funct) t))"
    unfolding d(2) m blindD [OF exec_funct_blind] by (cases "exec_funct M k rs1 rs2 s") (simp_all add: masked_def)
  moreover have "wf_counters d" using d(1) by (simp add: wf_state_def wf_arrays_def)
  ultimately show ?thesis by blast
qed

lemma program_after_reset:
  fixes s :: "'m sim"
  assumes "wf_state s" "resetted s" "list_all counter_free ops"
  shows "map_sum id (masked c b) (run_program M (program_of rnd ops) s) = map_sum id (masked c b) (run_ops M ops s)"
  using assms
proof (induction ops arbitrary: s rnd)
  case (Cons x ops)
  show ?case
  proof (cases x)
    case (Rocc k rs1 rs2)
    obtain d z where d: "wf_counters d" "custom3 M (rnd 0) k rs1 rs2 s = bindE (exec_funct M k rs1 rs2 s) (\<lambda>t. Inr (0, masked d z t))"
      using custom3_masked [OF Cons.prems(1,2), of k M "rnd 0" rs1 rs2] Cons.prems(3) Rocc by auto
    show ?thesis
    proof (cases "exec_funct M k rs1 rs2 s")
      case (Inl e)
      then show ?thesis by (simp add: Rocc exec_insn_def d(2))
    next
      case (Inr t)
      have "wf_state t" "resetted t" using keepsD [OF exec_funct_wf Inr] Cons.prems(1,2) by (simp_all add: keeps_wf_def same_counters_def)
      then have t: "wf_state (masked d z t)" "resetted (masked d z t)" using d(1) by (simp_all add: wf_state_masked) (simp add: masked_def)
      have "map_sum id (masked c b) (run_program M (program_of (\<lambda>n. rnd (Suc n)) ops) (masked d z t)) = map_sum id (masked c b) (run_ops M ops (masked d z t))"
        using Cons.prems(3) by (intro Cons.IH t) simp
      also have "\<dots> = map_sum id (masked c b) (run_ops M ops t)" by (simp add: blindD [OF run_ops_blind])
      finally show ?thesis by (simp add: Rocc exec_insn_def d(2) Inr id_def)
    qed
  next
    case Fence
    then show ?thesis using Cons by simp
  qed
qed simp

text \<open>An accelerator that has not been reset yet resets itself first.\<close>

lemma custom3_resets: "\<not> resetted s \<Longrightarrow> custom3 M rnd k rs1 rs2 s = custom3 M rnd k rs1 rs2 (state_reset s)"
  by (simp add: custom3_def state_reset_def)

lemma program_resets:
  assumes "\<not> resetted s" "p \<noteq> []"
  shows "run_program M p s = run_program M p (state_reset s)"
  using assms by (cases p) (simp_all add: exec_insn_def custom3_resets)

end
