(* ===== verification/System_Properties.thy ===== *)
theory System_Properties
  imports Driver_Example Driver_Program
begin

text \<open>
  The properties of whole jobs: what the loops of the accelerator compute, and that the driver and
  the simulator together compute what the processor computes.
\<close>

section \<open>The matrix product\<close>

text \<open>
  C4. \<open>loop_ws\<close> multiplies: with the array and the moves configured for a plain product, operands in
  memory (or left in the scratchpad by an earlier job) and a bias in memory, in the accumulator or
  none, the instruction succeeds, writes \<open>D + A * B\<close>, scaled and activated, to exactly the
  elements of C, and leaves the unscaled sums in the accumulator. Without an address of C it
  writes nothing.
\<close>

theorem loop_ws_multiplies:
  fixes s :: "'m sim"
  assumes "ws_config (loop_ws_decode rs1 rs2) s" "ws_memory M s P Q" "ws_start M (loop_ws_decode rs1 rs2) s P Q D" "ws_result s P Q D W"
    and "0 < unat (loop_ws_I (loop_ws_st s))" "0 < unat (loop_ws_J (loop_ws_st s))" "0 < unat (loop_ws_K (loop_ws_st s))"
  shows "\<exists>t. loop_ws M rs1 rs2 s = Inr t \<and>
    wrote M (mem s) (mem t) ({..<ws_out_rows (loop_ws_st s)} \<times> {..<ws_cols (loop_ws_st s)})
      (dram_cell (loop_ws_C (loop_ws_st s)) (loop_ws_C_stride (loop_ws_st s))) W \<and>
    (\<forall>i < unat (loop_ws_I (loop_ws_st s)). \<forall>j < unat (loop_ws_J (loop_ws_st s)).
      acc_tile (loop_ws_st s) (ws_sum P Q D) (unat (loop_ws_K (loop_ws_st s))) i j t)"
  using loop_ws_product [OF assms] unfolding succeeds_iff ws_end_def Let_def by blast

definition example_job :: "(u64 \<Rightarrow> u8) sim" where
  "example_job = (ready ones_and_fives)\<lparr>load_strides := [32, 16, 64], loop_ws_st := \<lparr>loop_ws_I = 2, loop_ws_J = 1, loop_ws_K = 2,
     loop_ws_pad_I = 12, loop_ws_pad_J = 6, loop_ws_pad_K = 10, loop_ws_A = 0x1000, loop_ws_B = 0x2000, loop_ws_D = 0x4000,
     loop_ws_C = 0x3000, loop_ws_A_stride = 32, loop_ws_B_stride = 16, loop_ws_D_stride = 16, loop_ws_C_stride = 16\<rparr>\<rparr>"

lemma example_job_sizes: "ws_rows (loop_ws_st example_job) = 20" "ws_cols (loop_ws_st example_job) = 10" "ws_inner (loop_ws_st example_job) = 22"
  "ws_out_rows (loop_ws_st example_job) = 20"
  by (simp_all add: example_job_def ws_rows_def ws_cols_def ws_inner_def ws_out_rows_def)

lemma example_job_config: "ws_config (loop_ws_decode 1 0) example_job"
proof -
  have "wf_state example_job" using ready_wf [of ones_and_fives]
    by (simp add: example_job_def wf_state_def wf_arrays_def wf_memories_def)
  then show ?thesis
    by (simp add: ws_config_def Let_def) (simp add: example_job_def loop_ws_room_def loop_ws_decode_def flag_def fld_def)
qed

lemma example_job_memory: "ws_memory ram example_job (\<lambda>_ _. 1) (\<lambda>_ _. 1)"
  unfolding ws_memory_def Let_def example_job_sizes
  using ones_at [of "0x1000" 20 32 22] ones_at [of "0x2000" 22 16 10] target_at_ram [of 10 16 20 ones_and_fives "0x3000"]
    cells_apart_below [of "0x3000" 20 16 10 "0x1000" 20 32 22] cells_apart_below [of "0x3000" 20 16 10 "0x2000" 22 16 10]
  by (simp add: example_job_def ram_ok)

lemma example_job_start: "ws_start ram (loop_ws_decode 1 0) example_job (\<lambda>_ _. 1) (\<lambda>_ _. 1) (\<lambda>_ _. 5)"
  using fives_bias(1) [of 16 20 10 MVIN_SCALE_IDENTITY]
  unfolding ws_start_def bias_memory_def Let_def example_job_sizes
  by (simp add: example_job_def loop_ws_decode_def flag_def fld_def)

lemma example_job_result: "ws_result example_job (\<lambda>_ _. 1) (\<lambda>_ _. 1) (\<lambda>_ _. 5) (\<lambda>_. 27)"
proof -
  have "acc_out example_job 27 = Inr 27"
    using acc_out_plain [of example_job 27] by (simp add: example_job_def apply_activation_def saturate_elem_def elem_t_max_def elem_t_min_def)
  then show ?thesis by (simp add: ws_result_def example_job_sizes ws_sum_def)
qed

theorem loop_ws_multiplies_witness:
  "\<exists>t. loop_ws ram 1 0 example_job = Inr t \<and> mem t 0x3000 = 27 \<and> mem t 0x3139 = 27 \<and> mem t 0x313A = 1"
proof -
  have r: "loop_ws_C (loop_ws_st example_job) = 0x3000" "loop_ws_C_stride (loop_ws_st example_job) = 16" "mem example_job = ones_and_fives"
    by (simp_all add: example_job_def)
  obtain t where t: "loop_ws ram 1 0 example_job = Inr t" "wrote ram ones_and_fives (mem t) ({..<20} \<times> {..<10}) (dram_cell 0x3000 16) (\<lambda>_. 27)"
    using loop_ws_multiplies [OF example_job_config example_job_memory example_job_start example_job_result]
    unfolding example_job_sizes r by (auto simp: example_job_def)
  have "0x313A \<noteq> dram_cell 0x3000 16 (i, j)" if "i < 20" "j < 10" for i j
  proof -
    have "0x3000 + i * 16 + j \<noteq> 0x313A" using that by presburger
    then show ?thesis using dram_cell_unat [of "0x3000" i 16 j] that by auto
  qed
  then have "mmu_load ram (mem t) 0x313A = mmu_load ram ones_and_fives 0x313A"
    by (intro wrote_outside [OF t(2)]) auto
  moreover have "mmu_load ram (mem t) (dram_cell 0x3000 16 (0, 0)) = Some 27" "mmu_load ram (mem t) (dram_cell 0x3000 16 (19, 9)) = Some 27"
    using t(2) by (simp_all add: wrote_def)
  ultimately show ?thesis using t(1) by (simp add: ram_def dram_cell_def ones_and_fives_def)
qed

section \<open>The driver and the accelerator\<close>

text \<open>
  C1. The matrix multiplication on the accelerator, tiled by the driver and run by the simulator,
  and the one on the processor leave exactly the same bytes in memory, which are the scaled and
  activated elements of \<open>D + A * B\<close>: for every size the driver accepts, with or without a bias, whatever
  tiling it chooses and whether or not tiles stay in the scratchpad.
\<close>

theorem matmul_agrees:
  fixes s :: "'m sim"
  assumes mem: "mm_memory M m (mem s) P Q D W" and m: "mm_plain m" "dims_ok m" "0 < mm_dim_I m" "0 < mm_dim_J m" "0 < mm_dim_K m"
    and s: "wf_state s" "unat (norm_stat_id (norm_st s)) < 4" "acc_act s \<noteq> SOFTMAX"
  shows "\<exists>t u. tiled_matmul_auto M m TM_WS s = Some (Inr t) \<and> tiled_matmul_auto M m TM_CPU s = Some (Inr u) \<and>
    mmu_load M (mem t) = mmu_load M (mem u) \<and>
    wrote M (mem s) (mem t) ({..<unat (mm_dim_I m)} \<times> {..<unat (mm_dim_J m)}) (dram_cell (mm_C m) (mm_stride_C m)) W"
proof -
  obtain t where t: "tiled_matmul_auto M m TM_WS s = Some (Inr t)"
      "wrote M (mem s) (mem t) ({..<unat (mm_dim_I m)} \<times> {..<unat (mm_dim_J m)}) (dram_cell (mm_C m) (mm_stride_C m)) W"
    using matmul_auto_multiplies(1) [OF mem m s] by blast
  obtain mm where u: "tiled_matmul_auto M m TM_CPU s = Some (Inr (s\<lparr>mem := mm\<rparr>))"
      "wrote M (mem s) mm ({..<unat (mm_dim_I m)} \<times> {..<unat (mm_dim_J m)}) (dram_cell (mm_C m) (mm_stride_C m)) W"
    using matmul_auto_multiplies(2) [OF mem m] by blast
  have "mmu_load M (mem t) = mmu_load M (mem (s\<lparr>mem := mm\<rparr>))" using wrote_same_load [OF t(2) u(2)] by simp
  then show ?thesis using t u by blast
qed

definition example_product :: matmul_args where
  "example_product = \<lparr>mm_dim_I = 20, mm_dim_J = 18, mm_dim_K = 40, mm_A = 0x1000, mm_B = 0x2000, mm_D = 0x4000, mm_C = 0x3000,
     mm_stride_A = 64, mm_stride_B = 32, mm_stride_D = 18, mm_stride_C = 32, mm_A_scale = MVIN_SCALE_IDENTITY,
     mm_B_scale = MVIN_SCALE_IDENTITY, mm_D_scale = 1, mm_act = ACT_RELU, mm_scale = ACC_SCALE_IDENTITY, mm_bert_scale = 0,
     mm_repeating_bias = False, mm_a_transpose = False, mm_b_transpose = False, mm_full_C = False, mm_low_D = False\<rparr>"

lemma example_product_memory: "mm_memory ram example_product ones_and_fives (\<lambda>_ _. 1) (\<lambda>_ _. 1) (\<lambda>_ _. 5) (\<lambda>_. 45)"
proof -
  have c: "unat (dram_cell 0x3000 32 (i, j)) = 0x3000 + i * 32 + j" if "i < 20" "j < 18" for i j
    using dram_cell_unat [of "0x3000" i 32 j] that by simp
  have nz: "dram_cell 0x3000 32 (i, j) \<noteq> 0" if "i < 20" "j < 18" for i j using c [OF that] by (metis add_is_0 unat_0 zero_neq_numeral)
  have ap: "bias_apart example_product"
    unfolding bias_apart_def
  proof (intro allI impI notI)
    fix i j b assume "i < unat (mm_dim_I example_product)" "j < unat (mm_dim_J example_product)" "b < (4 :: nat)"
      and "mm_D example_product + of_nat i * bias_stride example_product + of_nat j * 4 + of_nat b \<in>
        dram_cell (mm_C example_product) (mm_stride_C example_product) ` ({..<unat (mm_dim_I example_product)} \<times> {..<unat (mm_dim_J example_product)})"
    then have "0x4000 + of_nat i * of_nat (4 * 18) + of_nat j * 4 + of_nat b \<in> dram_cell 0x3000 32 ` ({..<20} \<times> {..<18})" "i < 20" "j < 18" "b < 4"
      by (simp_all add: example_product_def bias_stride_def)
    then show False using fives_bias(2) [of 18 20 18 i j b] c by fastforce
  qed
  have out: "mm_out example_product 45 = Inr 45"
    by (simp add: mm_out_def mm_relu_def example_product_def acc_scale_one apply_activation_def saturate_elem_def elem_t_max_def elem_t_min_def)
  show ?thesis
    unfolding mm_memory_def Let_def
    using ones_at [of "0x1000" 20 64 40] ones_at [of "0x2000" 40 32 18] target_at_ram [of 18 32 20 ones_and_fives "0x3000"]
      cells_apart_below [of "0x3000" 20 32 18 "0x1000" 20 64 40] cells_apart_below [of "0x3000" 20 32 18 "0x2000" 40 32 18] ap nz fives_bias(1) [of 18 20 18] out
    by (simp add: example_product_def ram_ok bias_stride_def ws_sum_def)
qed

theorem matmul_agrees_witness:
  "\<exists>t u. tiled_matmul_auto ram example_product TM_WS (ready ones_and_fives) = Some (Inr t) \<and>
    tiled_matmul_auto ram example_product TM_CPU (ready ones_and_fives) = Some (Inr u) \<and> mem t = mem u \<and> mem t 0x3000 = 45 \<and> mem t 0x3271 = 45"
proof -
  have p: "mm_plain example_product" "dims_ok example_product" "0 < mm_dim_I example_product" "0 < mm_dim_J example_product" "0 < mm_dim_K example_product"
    by (simp_all add: mm_plain_def dims_ok_def example_product_def fitsI)
  have d: "unat (mm_dim_I example_product) = 20" "unat (mm_dim_J example_product) = 18" "mm_C example_product = 0x3000" "mm_stride_C example_product = 32"
    by (simp_all add: example_product_def)
  obtain t u where tu: "tiled_matmul_auto ram example_product TM_WS (ready ones_and_fives) = Some (Inr t)"
      "tiled_matmul_auto ram example_product TM_CPU (ready ones_and_fives) = Some (Inr u)" "mmu_load ram (mem t) = mmu_load ram (mem u)"
      "wrote ram ones_and_fives (mem t) ({..<20} \<times> {..<18}) (dram_cell 0x3000 32) (\<lambda>_. 45)"
    using matmul_agrees [of ram example_product "ready ones_and_fives", unfolded ready_fields d, OF example_product_memory p ready_wf] by auto
  have "mmu_load ram (mem t) (dram_cell 0x3000 32 (0, 0)) = Some 45" "mmu_load ram (mem t) (dram_cell 0x3000 32 (19, 17)) = Some 45"
    using tu(4) by (simp_all add: wrote_def)
  moreover have "mem t = mem u" using tu(3) by (simp add: ram_def fun_eq_iff)
  ultimately show ?thesis using tu(1,2) by (auto simp: ram_def dram_cell_def)
qed

section \<open>Driver and dispatcher\<close>

text \<open>
  C7. The operations that a driver function issues, sent through the dispatcher \<open>custom3\<close> one instruction after the other, have
  exactly the effect of running them on an accelerator that has been reset: the reset on first use and the increments of the
  counters before every instruction change nothing but the counters and the flag \<open>op_in_progress\<close>, and errors are the same.
\<close>

theorem ops_run_as_program:
  fixes s :: "'m sim"
  defines "s\<^sub>0 \<equiv> (if resetted s then s else state_reset s)"
  assumes "started s" "list_all counter_free ops" "resetted s \<or> program_of rnd ops \<noteq> []"
  shows "map_sum id (\<lambda>t. t\<lparr>counter_st := counter_st s\<^sub>0, op_in_progress := op_in_progress s\<^sub>0\<rparr>) (run_program M (program_of rnd ops) s) = run_ops M ops s\<^sub>0"
proof -
  have wf: "wf_state s\<^sub>0" "resetted s\<^sub>0"
    using assms(2) wf_state_reset by (auto simp: s\<^sub>0_def started_def wf_state_def state_reset_def)
  have "run_program M (program_of rnd ops) s = run_program M (program_of rnd ops) s\<^sub>0"
    using assms(4) program_resets by (auto simp: s\<^sub>0_def)
  then have "map_sum id (masked (counter_st s\<^sub>0) (op_in_progress s\<^sub>0)) (run_program M (program_of rnd ops) s) = run_ops M ops s\<^sub>0"
    using program_after_reset [OF wf assms(3)] run_ops_masked [of s\<^sub>0 M ops] by simp
  then show ?thesis by (simp add: masked_def [abs_def])
qed

theorem ops_run_as_program_witness:
  "\<exists>t. run_program ram (program_of (\<lambda>_ _. 5) (gemmini_extended2_config_st 64 1 ACC_SCALE_IDENTITY 2 3 20 7 6 5 4 1 0 @ [Fence])) (blank ramp) = Inr t \<and>
    store_stride t = 64 \<and> acc_act t = RELU \<and> pool_ocols t = 4"
proof -
  let ?ops = "gemmini_extended2_config_st 64 1 ACC_SCALE_IDENTITY 2 3 20 7 6 5 4 1 0 @ [Fence]"
  have r: "\<not> resetted (blank ramp)" "state_reset (blank ramp) = ready ramp" by (simp_all add: blank_def ready_def)
  have a: "act_of_bits (acc_act (ready ramp)) 1 = Inr RELU" by (simp add: act_of_bits_def)
  obtain u where u: "run_ops ram ?ops (ready ramp) = Inr u" "store_stride u = 64" "acc_act u = RELU" "pool_ocols u = 4"
    using config_st_arrives [OF _ a, of 2 3 20 7 6 5 4 1 0 ram 64 ACC_SCALE_IDENTITY] by (simp add: fitsI run_ops_append)
  have cf: "list_all counter_free ?ops" "program_of (\<lambda>_ _. 5) ?ops \<noteq> []"
    by (simp_all add: gemmini_extended2_config_st_def k_CONFIG_def funct_defs)
  have "map_sum id (\<lambda>t. t\<lparr>counter_st := counter_st (ready ramp), op_in_progress := op_in_progress (ready ramp)\<rparr>)
      (run_program ram (program_of (\<lambda>_ _. 5) ?ops) (blank ramp)) = Inr u"
    using ops_run_as_program [OF blank_started [of ramp] cf(1), of "\<lambda>_ _. 5" ram] cf(2) u(1) r by simp
  then obtain t where t: "run_program ram (program_of (\<lambda>_ _. 5) ?ops) (blank ramp) = Inr t"
    "u = t\<lparr>counter_st := counter_st (ready ramp), op_in_progress := op_in_progress (ready ramp)\<rparr>"
    by (cases "run_program ram (program_of (\<lambda>_ _. 5) ?ops) (blank ramp)") auto
  then show ?thesis using u by auto
qed

end
