(* ===== verification/Driver_Conv_Cpu.thy ===== *)
theory Driver_Conv_Cpu
  imports Driver_Resadd
begin

text \<open>
  The convolutions of the driver on the processor, with and without max-pooling, for all channels
  and for one channel at a time (depthwise). Sizes are \<open>int\<close>s: an offset into a tensor is computed
  in 32 bits (\<open>to_i32\<close>) before it is added to a pointer. The processor reads and writes the same
  memory as the accelerator.
\<close>

section \<open>Arguments\<close>

record conv_args =
  co_batch_size :: int
  co_in_row_dim :: int
  co_in_col_dim :: int
  co_in_channels :: int
  co_out_channels :: int
  co_out_row_dim :: int
  co_out_col_dim :: int
  co_stride :: int
  co_input_dilation :: int
  co_kernel_dilation :: int
  co_padding :: int
  co_kernel_dim :: int
  co_in_stride :: int
  co_weight_stride :: int
  co_out_stride :: int
  co_wrot180 :: bool
  co_trans_output_1203 :: bool
  co_trans_input_3120 :: bool
  co_trans_weight_1203 :: bool
  co_trans_weight_0132 :: bool
  co_input :: u64
  co_weights :: u64
  co_bias :: u64
  co_output :: u64
  co_act :: int
  co_scale :: f32
  co_pool_size :: int
  co_pool_stride :: int
  co_pool_padding :: int

text \<open>\<open>p + offset\<close> for a pointer to elements and an \<open>int\<close> offset.\<close>

definition off :: "int \<Rightarrow> u64" where
  "off x = of_int (to_i32 x)"

section \<open>One output pixel\<close>

definition conv_in_addr :: "conv_args \<Rightarrow> int \<Rightarrow> int \<Rightarrow> int \<Rightarrow> int \<Rightarrow> u64" where
  "conv_in_addr a b irow icol kch =
     (if co_trans_input_3120 a then
        co_input a + off ((kch * co_in_row_dim a * co_in_col_dim a + irow * co_in_col_dim a + icol) * co_batch_size a) + off b
      else co_input a + off ((b * co_in_row_dim a * co_in_col_dim a + irow * co_in_col_dim a + icol) * co_in_stride a) + off kch)"

definition conv_ipixel :: "'m mmu \<Rightarrow> conv_args \<Rightarrow> 'm \<Rightarrow> int \<Rightarrow> int \<Rightarrow> int \<Rightarrow> int \<Rightarrow> elem_t res" where
  "conv_ipixel M a m b irow icol kch =
     (if irow < 0 \<or> co_in_row_dim a \<le> irow \<or> icol < 0 \<or> co_in_col_dim a \<le> icol then Inr 0
      else read_from_dram M m (conv_in_addr a b irow icol kch))"

definition conv_weight :: "'m mmu \<Rightarrow> conv_args \<Rightarrow> 'm \<Rightarrow> int \<Rightarrow> int \<Rightarrow> int \<Rightarrow> int \<Rightarrow> elem_t res" where
  "conv_weight M a m krow kcol kch och =
     (let kd = co_kernel_dim a; krow' = (if co_wrot180 a then kd - krow - 1 else krow);
          kcol' = (if co_wrot180 a then kd - kcol - 1 else kcol) in
      bindE (read_from_dram M m (co_weights a +
        off ((krow' * kd * co_in_channels a + kcol' * co_in_channels a + kch) * co_weight_stride a) + off och)) (\<lambda>weight.
      if co_trans_weight_1203 a then
        read_from_dram M m (co_weights a + off ((kch * kd * kd + krow' * kd + kcol') * co_out_channels a) + off och)
      else if co_trans_weight_0132 a then
        read_from_dram M m (co_weights a +
          off ((krow' * kd * co_out_channels a + kcol' * co_out_channels a + och) * co_in_channels a) + off kch)
      else Inr weight))"

text \<open>The position in the dilated input that a position of the output and of the kernel meet.\<close>

definition conv_at :: "conv_args \<Rightarrow> int \<Rightarrow> int \<Rightarrow> int" where
  "conv_at a x k = to_i32 (x * co_stride a + k * co_kernel_dilation a - co_padding a)"

definition conv_tap :: "'m mmu \<Rightarrow> conv_args \<Rightarrow> 'm \<Rightarrow> int \<Rightarrow> int \<Rightarrow> int \<Rightarrow> int \<Rightarrow> int \<Rightarrow> int \<Rightarrow> acc_t \<Rightarrow> acc_t res" where
  "conv_tap M a m b irow icol krow kcol och opixel =
     forE (nat (co_in_channels a)) (\<lambda>kch opixel.
       bindE (conv_ipixel M a m b irow icol (int kch)) (\<lambda>ipixel.
       bindE (conv_weight M a m krow kcol (int kch) och) (\<lambda>weight.
       Inr (opixel + word_of_int (sint weight * sint ipixel))))) opixel"

text \<open>\<open>acc_t opixel = no_bias ? 0 : bias[och]\<close> and the loops over the kernel; \<open>continue\<close> skips a hole of a dilated input.\<close>

definition conv_bias :: "'m mmu \<Rightarrow> u64 \<Rightarrow> 'm \<Rightarrow> int \<Rightarrow> acc_t res" where
  "conv_bias M bias m och = (if bias = 0 then Inr 0 else read_from_dram M m (bias + off och * 4))"

definition conv_pixel :: "'m mmu \<Rightarrow> conv_args \<Rightarrow> 'm \<Rightarrow> int \<Rightarrow> int \<Rightarrow> int \<Rightarrow> int \<Rightarrow> acc_t res" where
  "conv_pixel M a m b orow ocol och =
     bindE (conv_bias M (co_bias a) m och) (\<lambda>opixel.
     forE (nat (co_kernel_dim a)) (\<lambda>krow opixel.
       if co_input_dilation a = 0 then Inl Undefined
       else if conv_at a orow (int krow) mod co_input_dilation a \<noteq> 0 then Inr opixel
       else let irow = trunc_div (conv_at a orow (int krow)) (co_input_dilation a) in
         forE (nat (co_kernel_dim a)) (\<lambda>kcol opixel.
           if conv_at a ocol (int kcol) mod co_input_dilation a \<noteq> 0 then Inr opixel
           else let icol = trunc_div (conv_at a ocol (int kcol)) (co_input_dilation a) in
             conv_tap M a m b irow icol (int krow) (int kcol) och opixel) opixel) opixel)"

text \<open>Where a pixel of an output of \<open>rows\<close> times \<open>cols\<close> pixels goes.\<close>

definition conv_out_addr :: "conv_args \<Rightarrow> int \<Rightarrow> int \<Rightarrow> int \<Rightarrow> int \<Rightarrow> int \<Rightarrow> int \<Rightarrow> u64" where
  "conv_out_addr a rows cols b orow ocol och =
     (if co_trans_output_1203 a then
        co_output a + off ((orow * cols * co_batch_size a + ocol * co_batch_size a + b) * co_out_channels a) + off och
      else co_output a + off ((b * rows * cols + orow * cols + ocol) * co_out_stride a) + off och)"

section \<open>Without pooling\<close>

definition conv_cpu_without_pool :: "'m mmu \<Rightarrow> conv_args \<Rightarrow> 'm \<Rightarrow> 'm res" where
  "conv_cpu_without_pool M a m =
     forE (nat (co_batch_size a)) (\<lambda>b m.
       forE (nat (co_out_row_dim a)) (\<lambda>orow m.
         forE (nat (co_out_col_dim a)) (\<lambda>ocol m.
           forE (nat (co_out_channels a)) (\<lambda>och m.
             bindE (conv_pixel M a m (int b) (int orow) (int ocol) (int och)) (\<lambda>opixel.
             bindE (scale_and_sat opixel (co_act a) (co_scale a) 0) (\<lambda>e.
             write_to_dram M (conv_out_addr a (co_out_row_dim a) (co_out_col_dim a) (int b) (int orow) (int ocol) (int och)) e m)))
             m) m) m) m"

section \<open>With pooling\<close>

definition pool_out_dim :: "int \<Rightarrow> int \<Rightarrow> int \<Rightarrow> int \<Rightarrow> int" where
  "pool_out_dim psize pstride ppad d =
     to_i32 (trunc_div (to_i32 (d + 2 * ppad - psize)) pstride + 1)"

text \<open>
  One step of the loops over the pooling window: the running maximum, whether it is initialised, and
  the memory, to which the last step of the window writes. \<open>pixel\<close> is the scaled pixel of the
  convolution, \<open>out\<close> the address of the result.
\<close>

definition pool_step ::
  "'m mmu \<Rightarrow> int \<Rightarrow> int \<Rightarrow> int \<Rightarrow> int \<Rightarrow> int \<Rightarrow> ('m \<Rightarrow> int \<Rightarrow> int \<Rightarrow> elem_t res) \<Rightarrow> u64 \<Rightarrow> int \<Rightarrow> int \<Rightarrow> nat \<Rightarrow> nat \<Rightarrow>
     elem_t \<times> bool \<times> 'm \<Rightarrow> (elem_t \<times> bool \<times> 'm) res" where
  "pool_step M rows cols psize pstride ppad pixel out porow pocol pwrow pwcol = (\<lambda>(running_max, initialized, m).
     let orow = to_i32 (porow * pstride + int pwrow - ppad);
         ocol = to_i32 (pocol * pstride + int pwcol - ppad) in
     bindE (if orow < 0 \<or> rows \<le> orow \<or> ocol < 0 \<or> cols \<le> ocol
         then Inr (if \<not> initialized \<or> sint running_max < 0 then (0, True) else (running_max, initialized))
         else bindE (pixel m orow ocol) (\<lambda>opixel.
           Inr (if \<not> initialized \<or> sint running_max < sint opixel then (opixel, True) else (running_max, initialized))))
       (\<lambda>(running_max, initialized).
     if int pwrow = psize - 1 \<and> int pwcol = psize - 1
     then bindE (write_to_dram M out running_max m) (\<lambda>m. Inr (running_max, initialized, m))
     else Inr (running_max, initialized, m)))"

definition pool_window ::
  "'m mmu \<Rightarrow> int \<Rightarrow> int \<Rightarrow> int \<Rightarrow> int \<Rightarrow> int \<Rightarrow> ('m \<Rightarrow> int \<Rightarrow> int \<Rightarrow> elem_t res) \<Rightarrow> u64 \<Rightarrow> int \<Rightarrow> int \<Rightarrow> 'm \<Rightarrow> 'm res" where
  "pool_window M rows cols psize pstride ppad pixel out porow pocol m =
     bindE (forE (nat psize) (\<lambda>pwrow. forE (nat psize)
       (pool_step M rows cols psize pstride ppad pixel out porow pocol pwrow)) (0, False, m))
     (\<lambda>(_, _, m). Inr m)"

definition conv_cpu :: "'m mmu \<Rightarrow> conv_args \<Rightarrow> 'm \<Rightarrow> 'm res" where
  "conv_cpu M a m =
     (if co_pool_stride a = 0 then conv_cpu_without_pool M a m
      else let dim = pool_out_dim (co_pool_size a) (co_pool_stride a) (co_pool_padding a);
               pool_out_row_dim = dim (co_out_row_dim a); pool_out_col_dim = dim (co_out_col_dim a) in
        forE (nat (co_batch_size a)) (\<lambda>b m.
          forE (nat pool_out_row_dim) (\<lambda>porow m.
            forE (nat pool_out_col_dim) (\<lambda>pocol m.
              forE (nat (co_out_channels a)) (\<lambda>poch.
                pool_window M (co_out_row_dim a) (co_out_col_dim a) (co_pool_size a) (co_pool_stride a) (co_pool_padding a)
                  (\<lambda>m orow ocol. bindE (conv_pixel M a m (int b) orow ocol (int poch)) (\<lambda>opixel.
                     scale_and_sat opixel (co_act a) (co_scale a) 0))
                  (conv_out_addr a pool_out_row_dim pool_out_col_dim (int b) (int porow) (int pocol) (int poch))
                  (int porow) (int pocol)) m) m) m) m)"

section \<open>Depthwise\<close>

record conv_dw_args =
  dw_batch_size :: int
  dw_in_row_dim :: int
  dw_in_col_dim :: int
  dw_channels :: int
  dw_out_row_dim :: int
  dw_out_col_dim :: int
  dw_stride :: int
  dw_padding :: int
  dw_kernel_dim :: int
  dw_input :: u64
  dw_weights :: u64
  dw_bias :: u64
  dw_output :: u64
  dw_act :: int
  dw_scale :: f32
  dw_pool_size :: int
  dw_pool_stride :: int
  dw_pool_padding :: int

definition dw_ipixel :: "'m mmu \<Rightarrow> conv_dw_args \<Rightarrow> 'm \<Rightarrow> int \<Rightarrow> int \<Rightarrow> int \<Rightarrow> int \<Rightarrow> elem_t res" where
  "dw_ipixel M a m b irow icol ch =
     (if irow < 0 \<or> dw_in_row_dim a \<le> irow \<or> icol < 0 \<or> dw_in_col_dim a \<le> icol then Inr 0
      else read_from_dram M m (dw_input a +
        off ((b * dw_in_row_dim a * dw_in_col_dim a + irow * dw_in_col_dim a + icol) * dw_channels a) + off ch))"

definition dw_pixel :: "'m mmu \<Rightarrow> conv_dw_args \<Rightarrow> 'm \<Rightarrow> int \<Rightarrow> int \<Rightarrow> int \<Rightarrow> int \<Rightarrow> acc_t res" where
  "dw_pixel M a m b orow ocol ch =
     bindE (conv_bias M (dw_bias a) m ch) (\<lambda>opixel.
     forE (nat (dw_kernel_dim a)) (\<lambda>krow opixel.
       forE (nat (dw_kernel_dim a)) (\<lambda>kcol opixel.
         bindE (dw_ipixel M a m b (to_i32 (orow * dw_stride a + int krow - dw_padding a))
           (to_i32 (ocol * dw_stride a + int kcol - dw_padding a)) ch) (\<lambda>ipixel.
         bindE (read_from_dram M m (dw_weights a + off ((ch * dw_kernel_dim a + int krow) * dw_kernel_dim a) + off (int kcol)))
           (\<lambda>weight :: elem_t.
         Inr (opixel + word_of_int (sint weight * sint ipixel))))) opixel) opixel)"

definition dw_out_addr :: "conv_dw_args \<Rightarrow> int \<Rightarrow> int \<Rightarrow> int \<Rightarrow> int \<Rightarrow> int \<Rightarrow> int \<Rightarrow> u64" where
  "dw_out_addr a rows cols b orow ocol ch = dw_output a + off ((b * rows * cols + orow * cols + ocol) * dw_channels a) + off ch"

definition conv_dw_cpu_without_pool :: "'m mmu \<Rightarrow> conv_dw_args \<Rightarrow> 'm \<Rightarrow> 'm res" where
  "conv_dw_cpu_without_pool M a m =
     forE (nat (dw_batch_size a)) (\<lambda>b m.
       forE (nat (dw_out_row_dim a)) (\<lambda>orow m.
         forE (nat (dw_out_col_dim a)) (\<lambda>ocol m.
           forE (nat (dw_channels a)) (\<lambda>ch m.
             bindE (dw_pixel M a m (int b) (int orow) (int ocol) (int ch)) (\<lambda>opixel.
             bindE (scale_and_sat opixel (dw_act a) (dw_scale a) 0) (\<lambda>e.
             write_to_dram M (dw_out_addr a (dw_out_row_dim a) (dw_out_col_dim a) (int b) (int orow) (int ocol) (int ch)) e m)))
             m) m) m) m"

definition conv_dw_cpu :: "'m mmu \<Rightarrow> conv_dw_args \<Rightarrow> 'm \<Rightarrow> 'm res" where
  "conv_dw_cpu M a m =
     (if dw_pool_stride a = 0 then conv_dw_cpu_without_pool M a m
      else let dim = pool_out_dim (dw_pool_size a) (dw_pool_stride a) (dw_pool_padding a);
               pool_out_row_dim = dim (dw_out_row_dim a); pool_out_col_dim = dim (dw_out_col_dim a) in
        forE (nat (dw_batch_size a)) (\<lambda>b m.
          forE (nat pool_out_row_dim) (\<lambda>porow m.
            forE (nat pool_out_col_dim) (\<lambda>pocol m.
              forE (nat (dw_channels a)) (\<lambda>ch.
                pool_window M (dw_out_row_dim a) (dw_out_col_dim a) (dw_pool_size a) (dw_pool_stride a) (dw_pool_padding a)
                  (\<lambda>m orow ocol. bindE (dw_pixel M a m (int b) orow ocol (int ch)) (\<lambda>opixel.
                     scale_and_sat opixel (dw_act a) (dw_scale a) 0))
                  (dw_out_addr a pool_out_row_dim pool_out_col_dim (int b) (int porow) (int pocol) (int ch))
                  (int porow) (int pocol)) m) m) m) m)"

section \<open>A pooling window of one pixel\<close>

text \<open>Pooling over single pixels leaves the size and every pixel as it is.\<close>

lemma pool_out_dim_one: "- (2 ^ 31) < d \<Longrightarrow> d < 2 ^ 31 \<Longrightarrow> pool_out_dim 1 1 0 d = d"
  by (simp add: pool_out_dim_def trunc_div_def to_i32_def signed_of_int signed_take_bit_int_eq_self)

lemma pool_window_one:
  assumes "0 \<le> porow" "porow < rows" "0 \<le> pocol" "pocol < cols" "rows < 2 ^ 31" "cols < 2 ^ 31"
  shows "pool_window M rows cols 1 1 0 pixel out porow pocol m = bindE (pixel m porow pocol) (\<lambda>e. write_to_dram M out e m)"
proof -
  have "to_i32 porow = porow" "to_i32 pocol = pocol"
    using assms by (simp_all add: to_i32_def signed_of_int signed_take_bit_int_eq_self)
  then show ?thesis
    using assms by (cases "pixel m porow pocol") (simp_all add: pool_window_def pool_step_def forE_def bindE_assoc)
qed

text \<open>Hence the driver's shortcut: a window of one pixel is computed as no pooling at all.\<close>

lemma conv_cpu_pool_one:
  assumes "co_pool_size a = 1" "co_pool_stride a = 1" "co_pool_padding a = 0"
    and "- (2 ^ 31) < co_out_row_dim a" "co_out_row_dim a < 2 ^ 31" "- (2 ^ 31) < co_out_col_dim a" "co_out_col_dim a < 2 ^ 31"
  shows "conv_cpu M a m = conv_cpu_without_pool M a m"
  unfolding conv_cpu_def conv_cpu_without_pool_def
  using assms by (simp add: pool_out_dim_one Let_def, intro forE_cong) (simp add: pool_window_one bindE_assoc)

lemma conv_dw_cpu_pool_one:
  assumes "dw_pool_size a = 1" "dw_pool_stride a = 1" "dw_pool_padding a = 0"
    and "- (2 ^ 31) < dw_out_row_dim a" "dw_out_row_dim a < 2 ^ 31" "- (2 ^ 31) < dw_out_col_dim a" "dw_out_col_dim a < 2 ^ 31"
  shows "conv_dw_cpu M a m = conv_dw_cpu_without_pool M a m"
  unfolding conv_dw_cpu_def conv_dw_cpu_without_pool_def
  using assms by (simp add: pool_out_dim_one Let_def, intro forE_cong) (simp add: pool_window_one bindE_assoc)

end
