(* ===== verification/Driver_Conv.thy ===== *)
theory Driver_Conv
  imports Driver_Conv_Cpu
begin

text \<open>
  The tiled convolutions of the driver: \<open>sp_tiled_conv\<close> starts the hardware loop for a tile that fits
  the scratchpad, \<open>tiled_conv\<close> and \<open>tiled_conv_dw\<close> check a tiling and cut the tensors into tiles, and the
  \<open>auto\<close> functions choose the tiling. Sizes are \<open>int\<close>s: products and sums are reduced to 32 bits
  (\<open>to_i32\<close>). The counters of the loops over tiles start at zero and step by a tile size; a step
  that is not positive never ends the loop, which is the error \<open>OutOfFuel\<close>. The searches for a
  tiling may run forever: \<open>None\<close>.
\<close>

section \<open>One tile\<close>

text \<open>The sizes of a tile: \<open>batches, porows, pocols, pochs, krows, kcols, kchs\<close>.\<close>

record conv_tile =
  ct_batches :: int
  ct_porows :: int
  ct_pocols :: int
  ct_pochs :: int
  ct_krows :: int
  ct_kcols :: int
  ct_kchs :: int

record conv_pads =
  pd_l :: int
  pd_r :: int
  pd_u :: int
  pd_d :: int
  pd_pl :: int
  pd_pr :: int
  pd_pu :: int
  pd_pd :: int

record conv_ptrs =
  pt_input :: u64
  pt_weights :: u64
  pt_output :: u64
  pt_bias :: u64

record conv_flags =
  cf_no_bias :: bool
  cf_no_pool :: bool
  cf_downsample :: bool
  cf_input_dilated :: bool
  cf_dw :: bool

text \<open>\<open>n / DIM + (n % DIM != 0)\<close>, the blocks that \<open>n\<close> channels take.\<close>

definition per_bank :: "int \<Rightarrow> int" where
  "per_bank n = trunc_div n (int DIM) + of_bool (n mod int DIM \<noteq> 0)"

definition max_pixels_per_row :: "conv_args \<Rightarrow> conv_flags \<Rightarrow> int \<Rightarrow> int \<Rightarrow> int res" where
  "max_pixels_per_row a f kcols ichs =
     (let transposed = (co_trans_output_1203 a \<or> co_trans_input_3120 a \<or> co_trans_weight_1203 a \<or> co_trans_weight_0132 a) in
      bindE (if transposed \<or> co_wrot180 a \<or> cf_downsample f \<or> cf_input_dilated f \<or> 1 < co_kernel_dilation a \<or> int DIM < ichs then Inr 1
        else if ichs = 0 then Inl Undefined else Inr (trunc_div (int DIM) ichs)) (\<lambda>n.
      Inr (if kcols < n then kcols else n)))"

text \<open>
  The addresses that \<open>sp_tiled_conv\<close> computes for the scratchpad are not used: the hardware loop
  chooses its own.
\<close>

definition sp_tiled_conv ::
  "conv_args \<Rightarrow> int \<Rightarrow> int \<Rightarrow> conv_tile \<Rightarrow> conv_pads \<Rightarrow> conv_ptrs \<Rightarrow> conv_flags \<Rightarrow> u64 \<Rightarrow> u64 \<Rightarrow> drv_op list res" where
  "sp_tiled_conv a pool_out_row_dim pool_out_col_dim t p q f a_spad_id b_spad_id =
     (let kchs = (if cf_dw f then 1 else ct_kchs t); pochs = (if cf_dw f then 1 else ct_pochs t);
          orows = to_i32 (ct_porows t * co_pool_stride a + co_pool_size a - 1 - pd_pu p - pd_pd p);
          ocols = to_i32 (ct_pocols t * co_pool_stride a + co_pool_size a - 1 - pd_pl p - pd_pr p) in
      bindE (max_pixels_per_row a f (ct_kcols t) kchs) (\<lambda>pixels.
      Inr (gemmini_loop_conv_ws \<lparr>
        ca_batch_size = of_int (co_batch_size a), ca_in_row_dim = of_int (co_in_row_dim a),
        ca_in_col_dim = of_int (co_in_col_dim a), ca_in_channels = of_int (co_in_channels a),
        ca_out_channels = of_int (co_out_channels a), ca_out_row_dim = of_int (co_out_row_dim a),
        ca_out_col_dim = of_int (co_out_col_dim a), ca_pool_out_row_dim = of_int pool_out_row_dim,
        ca_pool_out_col_dim = of_int pool_out_col_dim, ca_stride = of_int (co_stride a), ca_padding = of_int (co_padding a),
        ca_kernel_dim = of_int (co_kernel_dim a), ca_kernel_dilation = of_int (co_kernel_dilation a),
        ca_pool_size = of_int (co_pool_size a), ca_pool_stride = of_int (co_pool_stride a),
        ca_pool_padding = of_int (co_pool_padding a), ca_batches = of_int (ct_batches t), ca_porows = of_int (ct_porows t),
        ca_pocols = of_int (ct_pocols t), ca_pochs = of_int pochs, ca_krows = of_int (ct_krows t),
        ca_kcols = of_int (ct_kcols t), ca_kchs = of_int kchs, ca_lpad = of_int (pd_l p), ca_rpad = of_int (pd_r p),
        ca_upad = of_int (pd_u p), ca_dpad = of_int (pd_d p), ca_plpad = of_int (pd_pl p), ca_prpad = of_int (pd_pr p),
        ca_pupad = of_int (pd_pu p), ca_pdpad = of_int (pd_pd p), ca_orows = of_int orows, ca_ocols = of_int ocols,
        ca_weights = pt_weights q, ca_output = pt_output q, ca_bias = pt_bias q, ca_input = pt_input q,
        ca_no_bias = cf_no_bias f, ca_no_pool = cf_no_pool f, ca_downsample = cf_downsample f, ca_wrot180 = co_wrot180 a,
        ca_input_dilated = cf_input_dilated f, ca_activation = co_act a,
        ca_trans_output_1203 = co_trans_output_1203 a, ca_trans_weight_1203 = co_trans_weight_1203 a,
        ca_trans_weight_0132 = co_trans_weight_0132 a, ca_trans_input_3120 = co_trans_input_3120 a,
        ca_max_pixels_per_row = of_int pixels, ca_in_stride = of_int (co_in_stride a),
        ca_weight_stride = of_int (co_weight_stride a), ca_out_stride = of_int (co_out_stride a), ca_dw = cf_dw f,
        ca_a_spad_id = a_spad_id, ca_b_spad_id = b_spad_id\<rparr>)))"

section \<open>The rows a tile takes\<close>

definition tiled_conv_total_spad_rows_dw ::
  "bool \<Rightarrow> bool \<Rightarrow> int \<Rightarrow> conv_tile \<Rightarrow> int \<Rightarrow> int \<Rightarrow> int" where
  "tiled_conv_total_spad_rows_dw acc weight stride t psize pstride =
     (let orows = to_i32 (ct_porows t * pstride + psize - 1); ocols = to_i32 (ct_pocols t * pstride + psize - 1);
          irows = to_i32 (orows * stride + ct_krows t - 1); icols = to_i32 (ocols * stride + ct_kcols t - 1);
          A_rows = to_i32 (per_bank (ct_kchs t) * ct_batches t * irows * icols);
          B_rows = to_i32 (per_bank (ct_pochs t) * ct_kcols t * ct_krows t * ct_kchs t);
          C_rows = to_i32 (per_bank (ct_pochs t) * ct_batches t * orows * ocols) in
      if acc then C_rows else if weight then B_rows else A_rows)"

text \<open>The callers check that the dilation of the input, by which the sizes are divided, is not zero.\<close>

definition tiled_conv_total_spad_rows ::
  "bool \<Rightarrow> int \<Rightarrow> int \<Rightarrow> int \<Rightarrow> bool \<Rightarrow> bool \<Rightarrow> bool \<Rightarrow> conv_tile \<Rightarrow> int \<Rightarrow> int \<Rightarrow> int" where
  "tiled_conv_total_spad_rows acc stride input_dilation kernel_dilation downsample trans_weight_0132 trans_input_3120 t psize pstride =
     (let orows = to_i32 (ct_porows t * pstride + psize - 1); ocols = to_i32 (ct_pocols t * pstride + psize - 1);
          krows_dilated = to_i32 (ct_krows t + (kernel_dilation - 1) * (ct_krows t - 1));
          kcols_dilated = to_i32 (ct_kcols t + (kernel_dilation - 1) * (ct_kcols t - 1));
          irows = to_i32 (orows * stride + krows_dilated - 1); icols = to_i32 (ocols * stride + kcols_dilated - 1);
          irows = trunc_div irows input_dilation + of_bool (irows mod input_dilation \<noteq> 0);
          icols = trunc_div icols input_dilation + of_bool (icols mod input_dilation \<noteq> 0);
          ds = of_bool downsample :: nat;
          A_rows = to_i32 (if trans_input_3120 then per_bank (ct_batches t) * ct_kchs t * drop_bit ds irows * drop_bit ds icols
            else per_bank (ct_kchs t) * ct_batches t * drop_bit ds irows * drop_bit ds icols);
          B_rows = to_i32 (if trans_weight_0132 then per_bank (ct_kchs t) * ct_kcols t * ct_krows t * ct_pochs t
            else per_bank (ct_pochs t) * ct_kcols t * ct_krows t * ct_kchs t);
          C_rows = to_i32 (per_bank (ct_pochs t) * ct_batches t * orows * ocols) in
      if acc then C_rows else to_i32 (A_rows + B_rows))"

text \<open>The rows of a tile of a convolution, and of a depthwise one, against half of each memory.\<close>

definition conv_rows :: "conv_args \<Rightarrow> bool \<Rightarrow> bool \<Rightarrow> conv_tile \<Rightarrow> int" where
  "conv_rows a ds acc t = tiled_conv_total_spad_rows acc (co_stride a) (co_input_dilation a) (co_kernel_dilation a) ds
     (co_trans_weight_0132 a) (co_trans_input_3120 a) t (co_pool_size a) (co_pool_stride a)"

definition dw_rows :: "conv_dw_args \<Rightarrow> bool \<Rightarrow> conv_tile \<Rightarrow> int" where
  "dw_rows a acc t = tiled_conv_total_spad_rows acc (dw_stride a) 1 1 False False False t (dw_pool_size a) (dw_pool_stride a)"

definition conv_fits :: "(bool \<Rightarrow> conv_tile \<Rightarrow> int) \<Rightarrow> conv_tile \<Rightarrow> bool" where
  "conv_fits rows t \<longleftrightarrow> rows False t \<le> int (BANK_NUM * BANK_ROWS div 2) \<and> rows True t \<le> int (ACC_ROWS div 2)"

text \<open>\<open>if (no_pool) { pool_size = 1; pool_stride = 1; pool_padding = 0; }\<close>\<close>

definition conv_unpooled :: "conv_args \<Rightarrow> conv_args" where
  "conv_unpooled a = (if co_pool_stride a = 0 then a\<lparr>co_pool_size := 1, co_pool_stride := 1, co_pool_padding := 0\<rparr> else a)"

definition dw_unpooled :: "conv_dw_args \<Rightarrow> conv_dw_args" where
  "dw_unpooled a = (if dw_pool_stride a = 0 then a\<lparr>dw_pool_size := 1, dw_pool_stride := 1, dw_pool_padding := 0\<rparr> else a)"

section \<open>All tiles\<close>

text \<open>The values of \<open>for (x = 0; x < n; x += step)\<close> for a positive step.\<close>

definition counts :: "int \<Rightarrow> int \<Rightarrow> int list" where
  "counts n step = map int (steps (nat n) (nat step))"

text \<open>Whether nested loops, each a bound and a step, all end: a loop inside one that does no round does not matter.\<close>

fun loops_end :: "(int \<times> int) list \<Rightarrow> bool" where
  "loops_end [] \<longleftrightarrow> True"
| "loops_end ((n, step) # ls) \<longleftrightarrow> n \<le> 0 \<or> (0 < step \<and> loops_end ls)"

text \<open>The counters of the loops over tiles, and the C remainder.\<close>

record conv_pos =
  po_b :: int
  po_porow :: int
  po_pocol :: int
  po_poch :: int
  po_krow :: int
  po_kcol :: int
  po_kch :: int

definition c_rem :: "int \<Rightarrow> int \<Rightarrow> int" where
  "c_rem x y = x - y * trunc_div x y"

definition conv_downsample :: "conv_args \<Rightarrow> bool \<Rightarrow> bool" where
  "conv_downsample a no_pool \<longleftrightarrow> co_stride a = 2 \<and> co_kernel_dim a = 1 \<and> co_in_row_dim a mod 2 = 0 \<and> co_in_col_dim a mod 2 = 0 \<and>
     co_padding a = 0 \<and> no_pool \<and> co_input_dilation a = 1 \<and> \<not> co_trans_input_3120 a"

definition conv_pool_rows :: "conv_args \<Rightarrow> int" where
  "conv_pool_rows a = pool_out_dim (co_pool_size a) (co_pool_stride a) (co_pool_padding a) (co_out_row_dim a)"

definition conv_pool_cols :: "conv_args \<Rightarrow> int" where
  "conv_pool_cols a = pool_out_dim (co_pool_size a) (co_pool_stride a) (co_pool_padding a) (co_out_col_dim a)"

definition conv_positions :: "conv_args \<Rightarrow> conv_tile \<Rightarrow> conv_pos list" where
  "conv_positions a t =
     [\<lparr>po_b = b, po_porow = porow, po_pocol = pocol, po_poch = poch, po_krow = krow, po_kcol = kcol, po_kch = kch\<rparr>.
       b \<leftarrow> counts (co_batch_size a) (ct_batches t),
       porow \<leftarrow> counts (conv_pool_rows a) (ct_porows t),
       pocol \<leftarrow> counts (conv_pool_cols a) (ct_pocols t),
       poch \<leftarrow> counts (co_out_channels a) (ct_pochs t),
       krow \<leftarrow> counts (co_kernel_dim a) (ct_krows t),
       kcol \<leftarrow> counts (co_kernel_dim a) (ct_kcols t),
       kch \<leftarrow> counts (co_in_channels a) (ct_kchs t)]"

definition conv_loops :: "conv_args \<Rightarrow> conv_tile \<Rightarrow> (int \<times> int) list" where
  "conv_loops a t =
     [(co_batch_size a, ct_batches t), (conv_pool_rows a, ct_porows t), (conv_pool_cols a, ct_pocols t),
      (co_out_channels a, ct_pochs t), (co_kernel_dim a, ct_krows t), (co_kernel_dim a, ct_kcols t), (co_in_channels a, ct_kchs t)]"

text \<open>\<open>n - x > step ? step : n - x\<close>\<close>

definition tile_part :: "int \<Rightarrow> int \<Rightarrow> int \<Rightarrow> int" where
  "tile_part n x step = (if step < n - x then step else n - x)"

definition conv_tile_at :: "conv_args \<Rightarrow> conv_tile \<Rightarrow> conv_pos \<Rightarrow> conv_tile" where
  "conv_tile_at a t p = \<lparr>
     ct_batches = tile_part (co_batch_size a) (po_b p) (ct_batches t),
     ct_porows = tile_part (conv_pool_rows a) (po_porow p) (ct_porows t),
     ct_pocols = tile_part (conv_pool_cols a) (po_pocol p) (ct_pocols t),
     ct_pochs = tile_part (co_out_channels a) (po_poch p) (ct_pochs t),
     ct_krows = tile_part (co_kernel_dim a) (po_krow p) (ct_krows t),
     ct_kcols = tile_part (co_kernel_dim a) (po_kcol p) (ct_kcols t),
     ct_kchs = tile_part (co_in_channels a) (po_kch p) (ct_kchs t)\<rparr>"

text \<open>
  The paddings of one direction: \<open>x\<close> is the pooled position, \<open>n\<close> and \<open>k\<close> the sizes of the tile, \<open>y\<close> the
  position in the kernel. The result lists the padding before and after the input and the padding
  before and after the pooling window, and the position in the input.
\<close>

definition conv_pad ::
  "conv_args \<Rightarrow> int \<Rightarrow> int \<Rightarrow> int \<Rightarrow> int \<Rightarrow> int \<Rightarrow> int \<Rightarrow> int \<times> int \<times> int \<times> int \<times> int" where
  "conv_pad a out_dim in_dim x n y k =
     (let orow = to_i32 (x * co_pool_stride a - co_pool_padding a);
          orow_floored = (if orow < 0 then 0 else orow);
          irow = to_i32 (orow_floored * co_stride a + y * co_kernel_dilation a - co_padding a);
          dilated_in_dim = to_i32 (in_dim + (co_input_dilation a - 1) * (in_dim - 1));
          orows = to_i32 (n * co_pool_stride a + co_pool_size a - 1);
          pupad = (if orow < 0 then - orow else 0);
          pdpad = (if out_dim < orow + orows then orow + orows - out_dim else 0);
          dilated_krows = to_i32 (k + (co_kernel_dilation a - 1) * (k - 1));
          irows = to_i32 ((orows - pupad - pdpad) * co_stride a + dilated_krows - 1);
          upad = (if irow < 0 then - irow else 0);
          dpad = (if dilated_in_dim < irow + irows then irow + irows - dilated_in_dim else 0);
          dilated = co_input_dilation a = 2;
          upad = upad + of_bool (dilated \<and> upad = 0 \<and> irow mod 2 \<noteq> 0);
          dpad = dpad + of_bool (dilated \<and> dpad = 0 \<and> c_rem (irow + irows) 2 \<noteq> 1) in
      (upad, dpad, pupad, pdpad, irow))"

text \<open>Whether tiles of the input and of the weights stay in the scratchpad; the products are of type \<open>size_t\<close>.\<close>

definition conv_reuse :: "conv_args \<Rightarrow> conv_tile \<Rightarrow> (bool \<times> bool) res" where
  "conv_reuse a t =
     bindE (ceil_divide_int (co_in_channels a) (ct_kchs t)) (\<lambda>kch.
     bindE (ceil_divide_int (co_out_channels a) (ct_pochs t)) (\<lambda>poch.
     bindE (ceil_divide_int (co_batch_size a) (ct_batches t)) (\<lambda>b.
     bindE (ceil_divide_int (conv_pool_rows a) (ct_porows t)) (\<lambda>porow.
     bindE (ceil_divide_int (conv_pool_cols a) (ct_pocols t)) (\<lambda>pocol.
     bindE (ceil_divide_int (co_kernel_dim a) (ct_krows t)) (\<lambda>krow.
     bindE (ceil_divide_int (co_kernel_dim a) (ct_kcols t)) (\<lambda>kcol.
     Inr ((of_int kch * of_int krow * of_int kcol * of_int b * of_int porow * of_int pocol :: u64) \<le> 2,
          (of_int kch * of_int poch * of_int krow * of_int kcol :: u64) \<le> 2))))))))"

definition conv_job :: "conv_args \<Rightarrow> conv_tile \<Rightarrow> conv_flags \<Rightarrow> bool \<Rightarrow> bool \<Rightarrow> conv_pos \<Rightarrow> drv_op list res" where
  "conv_job a t f a_reuse b_reuse p =
     (let rows = conv_pool_rows a; cols = conv_pool_cols a; t' = conv_tile_at a t p; kd = co_kernel_dim a;
          b = po_b p; porow = po_porow p; pocol = po_pocol p; poch = po_poch p; krow = po_krow p; kcol = po_kcol p; kch = po_kch p;
          a_spad_id = (if a_reuse then if kch + krow + kcol + b + porow + pocol = 0 then 1 else 2 else 0);
          b_spad_id = (if b_reuse then if kch + poch + krow + kcol = 0 then 1 else 2 else 0);
          out = (if krow + ct_krows t < kd \<or> kcol + ct_kcols t < kd \<or> kch + ct_kchs t < co_in_channels a then 0
            else conv_out_addr a rows cols b porow pocol poch);
          bias = (if co_bias a = 0 then 1 else co_bias a);
          bias' = (if 0 < krow \<or> 0 < kcol \<or> 0 < kch then 0 else bias + off poch * 4);
          (upad, dpad, pupad, pdpad, irow) = conv_pad a (co_out_row_dim a) (co_in_row_dim a) porow (ct_porows t') krow (ct_krows t');
          (lpad, rpad, plpad, prpad, icol) = conv_pad a (co_out_col_dim a) (co_in_col_dim a) pocol (ct_pocols t') kcol (ct_kcols t');
          krow' = (if co_wrot180 a then kd - krow - ct_krows t' else krow);
          kcol' = (if co_wrot180 a then kd - kcol - ct_kcols t' else kcol);
          weights = (if co_trans_weight_1203 a then
              co_weights a + off ((kch * kd * kd + krow' * kd + kcol') * co_out_channels a) + off poch
            else if co_trans_weight_0132 a then
              co_weights a + off ((krow' * kd * co_out_channels a + kcol' * co_out_channels a + poch) * co_in_channels a) + off kch
            else co_weights a + off ((krow' * kd * co_in_channels a + kcol' * co_in_channels a + kch) * co_weight_stride a) + off poch);
          d = of_bool (cf_input_dilated f) :: nat;
          inp = conv_in_addr a b (drop_bit d (irow + upad)) (drop_bit d (icol + lpad)) kch in
      sp_tiled_conv a rows cols t' \<lparr>pd_l = lpad, pd_r = rpad, pd_u = upad, pd_d = dpad, pd_pl = plpad, pd_pr = prpad, pd_pu = pupad, pd_pd = pdpad\<rparr>
        \<lparr>pt_input = (if a_reuse \<and> 0 < poch then 0 else inp),
         pt_weights = (if b_reuse \<and> 0 < pocol + porow + b then 0 else weights), pt_output = out, pt_bias = bias'\<rparr>
        f a_spad_id b_spad_id)"

definition conv_check :: "conv_args \<Rightarrow> conv_tile \<Rightarrow> conv_flags \<Rightarrow> unit res" where
  "conv_check a t f =
     (if co_input_dilation a = 0 then Inl Undefined
      else if int (BANK_NUM * BANK_ROWS div 2) < conv_rows a (cf_downsample f) False t then Inl ExitFailure
      else if int (ACC_ROWS div 2) < conv_rows a (cf_downsample f) True t then Inl ExitFailure
      else if co_kernel_dim a \<le> co_padding a then Inl ExitFailure
      else if 2 < co_input_dilation a then Inl ExitFailure
      else if 1 < co_input_dilation a \<and> 1 < co_stride a then Inl ExitFailure
      else if co_trans_output_1203 a \<and> \<not> cf_no_pool f then Inl ExitFailure
      else if co_trans_input_3120 a \<and> co_trans_weight_0132 a then Inl ExitFailure
      else Inr ())"

definition conv_config :: "conv_args \<Rightarrow> conv_flags \<Rightarrow> drv_op list" where
  "conv_config a f =
     gemmini_extended_config_st (ucast (ucast ((if co_trans_output_1203 a then off (co_batch_size a * co_out_channels a) else off (co_out_stride a)) * 1) :: u32))
       (of_int (co_act a)) (co_scale a) @
     gemmini_extended3_config_ex 1 0 0 0 (of_int (co_input_dilation a))
       (of_int (drop_bit (of_bool (cf_downsample f) :: nat) (co_stride a))) (co_trans_input_3120 a) (co_trans_weight_0132 a) False"

text \<open>The operations of the weight-stationary path, for arguments whose pooling is not off.\<close>

definition conv_ops :: "conv_args \<Rightarrow> conv_tile \<Rightarrow> conv_flags \<Rightarrow> drv_op list res" where
  "conv_ops a t f =
     bindE (conv_check a t f) (\<lambda>_.
     bindE (conv_reuse a t) (\<lambda>(a_reuse, b_reuse).
     if \<not> loops_end (conv_loops a t) then Inl OutOfFuel
     else bindE (mapE (conv_job a t f a_reuse b_reuse) (conv_positions a t)) (\<lambda>jobs. Inr (conv_config a f @ concat jobs))))"

definition conv_flags_of :: "conv_args \<Rightarrow> conv_flags" where
  "conv_flags_of a = \<lparr>cf_no_bias = (co_bias a = 0), cf_no_pool = (co_pool_stride a = 0),
     cf_downsample = conv_downsample a (co_pool_stride a = 0), cf_input_dilated = (co_input_dilation a = 2), cf_dw = False\<rparr>"

definition tiled_conv :: "'m mmu \<Rightarrow> conv_args \<Rightarrow> conv_tile \<Rightarrow> tiled_matmul_type_t \<Rightarrow> 'm sim \<Rightarrow> 'm sim res" where
  "tiled_conv M a t ty s =
     (if co_trans_weight_1203 a \<and> co_trans_weight_0132 a then Inl ExitFailure
      else if ty = TM_CPU then
        let one = (co_pool_size a = 1 \<and> co_pool_stride a = 1 \<and> co_pool_padding a = 0) in
        bindE (conv_cpu M (if one then a\<lparr>co_pool_stride := 0\<rparr> else a) (mem s)) (\<lambda>m. Inr (s\<lparr>mem := m\<rparr>))
      else if ty = TM_OS then Inl ExitFailure
      else bindE (conv_ops (conv_unpooled a) t (conv_flags_of a)) (\<lambda>ops. run_ops M ops s))"

section \<open>Depthwise\<close>

definition dw_pool_rows :: "conv_dw_args \<Rightarrow> int" where
  "dw_pool_rows a = pool_out_dim (dw_pool_size a) (dw_pool_stride a) (dw_pool_padding a) (dw_out_row_dim a)"

definition dw_pool_cols :: "conv_dw_args \<Rightarrow> int" where
  "dw_pool_cols a = pool_out_dim (dw_pool_size a) (dw_pool_stride a) (dw_pool_padding a) (dw_out_col_dim a)"

text \<open>The counter of the channels is kept in \<open>po_poch\<close>; there is no loop over the channels of the input.\<close>

definition dw_positions :: "conv_dw_args \<Rightarrow> conv_tile \<Rightarrow> conv_pos list" where
  "dw_positions a t =
     [\<lparr>po_b = b, po_porow = porow, po_pocol = pocol, po_poch = ch, po_krow = krow, po_kcol = kcol, po_kch = 0\<rparr>.
       b \<leftarrow> counts (dw_batch_size a) (ct_batches t),
       porow \<leftarrow> counts (dw_pool_rows a) (ct_porows t),
       pocol \<leftarrow> counts (dw_pool_cols a) (ct_pocols t),
       ch \<leftarrow> counts (dw_channels a) 1,
       krow \<leftarrow> counts (dw_kernel_dim a) (ct_krows t),
       kcol \<leftarrow> counts (dw_kernel_dim a) (ct_kcols t)]"

definition dw_loops :: "conv_dw_args \<Rightarrow> conv_tile \<Rightarrow> (int \<times> int) list" where
  "dw_loops a t =
     [(dw_batch_size a, ct_batches t), (dw_pool_rows a, ct_porows t), (dw_pool_cols a, ct_pocols t),
      (dw_channels a, 1), (dw_kernel_dim a, ct_krows t), (dw_kernel_dim a, ct_kcols t)]"

definition dw_tile_at :: "conv_dw_args \<Rightarrow> conv_tile \<Rightarrow> conv_pos \<Rightarrow> conv_tile" where
  "dw_tile_at a t p = \<lparr>
     ct_batches = tile_part (dw_batch_size a) (po_b p) (ct_batches t),
     ct_porows = tile_part (dw_pool_rows a) (po_porow p) (ct_porows t),
     ct_pocols = tile_part (dw_pool_cols a) (po_pocol p) (ct_pocols t),
     ct_pochs = 1,
     ct_krows = tile_part (dw_kernel_dim a) (po_krow p) (ct_krows t),
     ct_kcols = tile_part (dw_kernel_dim a) (po_kcol p) (ct_kcols t),
     ct_kchs = 1\<rparr>"

definition dw_pad :: "conv_dw_args \<Rightarrow> int \<Rightarrow> int \<Rightarrow> int \<Rightarrow> int \<Rightarrow> int \<Rightarrow> int \<Rightarrow> int \<times> int \<times> int \<times> int \<times> int" where
  "dw_pad a out_dim in_dim x n y k =
     (let orow = to_i32 (x * dw_pool_stride a - dw_pool_padding a);
          orow_floored = (if orow < 0 then 0 else orow);
          irow = to_i32 (orow_floored * dw_stride a + y - dw_padding a);
          orows = to_i32 (n * dw_pool_stride a + dw_pool_size a - 1);
          pupad = (if orow < 0 then - orow else 0);
          pdpad = (if out_dim < orow + orows then orow + orows - out_dim else 0);
          irows = to_i32 ((orows - pupad - pdpad) * dw_stride a + k - 1);
          upad = (if irow < 0 then - irow else 0);
          dpad = (if in_dim < irow + irows then irow + irows - in_dim else 0) in
      (upad, dpad, pupad, pdpad, irow))"

text \<open>The arguments that a depthwise convolution passes to \<open>sp_tiled_conv\<close>.\<close>

definition dw_as_conv :: "conv_dw_args \<Rightarrow> conv_args" where
  "dw_as_conv a = \<lparr>
     co_batch_size = dw_batch_size a, co_in_row_dim = dw_in_row_dim a, co_in_col_dim = dw_in_col_dim a,
     co_in_channels = dw_channels a, co_out_channels = dw_channels a,
     co_out_row_dim = dw_out_row_dim a, co_out_col_dim = dw_out_col_dim a,
     co_stride = dw_stride a, co_input_dilation = 1, co_kernel_dilation = 1, co_padding = dw_padding a, co_kernel_dim = dw_kernel_dim a,
     co_in_stride = dw_channels a, co_weight_stride = 1, co_out_stride = dw_channels a,
     co_wrot180 = False, co_trans_output_1203 = False, co_trans_input_3120 = False,
     co_trans_weight_1203 = False, co_trans_weight_0132 = False,
     co_input = dw_input a, co_weights = dw_weights a, co_bias = dw_bias a, co_output = dw_output a,
     co_act = dw_act a, co_scale = dw_scale a,
     co_pool_size = dw_pool_size a, co_pool_stride = dw_pool_stride a, co_pool_padding = dw_pool_padding a\<rparr>"

definition dw_job :: "conv_dw_args \<Rightarrow> conv_tile \<Rightarrow> conv_flags \<Rightarrow> conv_pos \<Rightarrow> drv_op list res" where
  "dw_job a t f p =
     (let rows = dw_pool_rows a; cols = dw_pool_cols a; t' = dw_tile_at a t p; kd = dw_kernel_dim a;
          b = po_b p; porow = po_porow p; pocol = po_pocol p; ch = po_poch p; krow = po_krow p; kcol = po_kcol p;
          out = (if krow + ct_krows t < kd \<or> kcol + ct_kcols t < kd then 0 else dw_out_addr a rows cols b porow pocol ch);
          bias = (if dw_bias a = 0 then 1 else dw_bias a);
          bias' = (if 0 < krow \<or> 0 < kcol then 0 else bias + off ch * 4);
          (upad, dpad, pupad, pdpad, irow) = dw_pad a (dw_out_row_dim a) (dw_in_row_dim a) porow (ct_porows t') krow (ct_krows t');
          (lpad, rpad, plpad, prpad, icol) = dw_pad a (dw_out_col_dim a) (dw_in_col_dim a) pocol (ct_pocols t') kcol (ct_kcols t');
          weights = dw_weights a + off ((ch * kd + krow) * kd) + off kcol;
          inp = dw_input a + off ((b * dw_in_row_dim a * dw_in_col_dim a + (irow + upad) * dw_in_col_dim a + (icol + lpad)) * dw_channels a) + off ch in
      sp_tiled_conv (dw_as_conv a) rows cols t'
        \<lparr>pd_l = lpad, pd_r = rpad, pd_u = upad, pd_d = dpad, pd_pl = plpad, pd_pr = prpad, pd_pu = pupad, pd_pd = pdpad\<rparr>
        \<lparr>pt_input = inp, pt_weights = weights, pt_output = out, pt_bias = bias'\<rparr> f 0 0)"

definition dw_check :: "conv_dw_args \<Rightarrow> conv_tile \<Rightarrow> unit res" where
  "dw_check a t =
     (let t = t\<lparr>ct_pochs := 1, ct_kchs := 1\<rparr> in
      if int (BANK_NUM * BANK_ROWS div 2) < dw_rows a False t then Inl ExitFailure
      else if int (ACC_ROWS div 2) < dw_rows a True t then Inl ExitFailure
      else if dw_kernel_dim a \<le> dw_padding a then Inl ExitFailure
      else Inr ())"

definition dw_ops :: "conv_dw_args \<Rightarrow> conv_tile \<Rightarrow> conv_flags \<Rightarrow> drv_op list res" where
  "dw_ops a t f =
     bindE (dw_check a t) (\<lambda>_.
     if \<not> loops_end (dw_loops a t) then Inl OutOfFuel
     else bindE (mapE (dw_job a t f) (dw_positions a t)) (\<lambda>jobs.
       Inr (gemmini_extended_config_st (ucast (ucast (off (dw_channels a) * 1) :: u32)) (of_int (dw_act a)) (dw_scale a) @
         gemmini_extended3_config_ex 1 0 0 0 1 (of_int (dw_stride a)) False False False @ concat jobs)))"

text \<open>Of the tile, \<open>tiled_conv_dw\<close> takes the batches, the pooled rows and columns and the rows and columns of the kernel.\<close>

definition tiled_conv_dw :: "'m mmu \<Rightarrow> conv_dw_args \<Rightarrow> conv_tile \<Rightarrow> tiled_matmul_type_t \<Rightarrow> 'm sim \<Rightarrow> 'm sim res" where
  "tiled_conv_dw M a t ty s =
     (if ty = TM_CPU then
        let one = (dw_pool_size a = 1 \<and> dw_pool_stride a = 1 \<and> dw_pool_padding a = 0) in
        bindE (conv_dw_cpu M (if one then a\<lparr>dw_pool_stride := 0\<rparr> else a) (mem s)) (\<lambda>m. Inr (s\<lparr>mem := m\<rparr>))
      else if ty = TM_OS then Inl ExitFailure
      else bindE (dw_ops (dw_unpooled a) t \<lparr>cf_no_bias = (dw_bias a = 0), cf_no_pool = (dw_pool_stride a = 0),
          cf_downsample = False, cf_input_dilated = False, cf_dw = True\<rparr>) (\<lambda>ops. run_ops M ops s))"

section \<open>Chosen tiles\<close>

text \<open>
  The search works on the array \<open>args\<close> of the seven sizes. \<open>max_arg\<close> finds the value and the index of
  the largest one, the columns of the output apart while they fill no more than the array and
  there are rows to reduce; with no index found the source writes to \<open>args[-1]\<close>, which is undefined.
\<close>

definition tile_of :: "int list \<Rightarrow> conv_tile" where
  "tile_of xs = \<lparr>ct_batches = xs ! 0, ct_porows = xs ! 1, ct_pocols = xs ! 2, ct_pochs = xs ! 3,
     ct_krows = xs ! 4, ct_kcols = xs ! 5, ct_kchs = xs ! 6\<rparr>"

definition max_arg :: "int list \<Rightarrow> int \<times> int" where
  "max_arg xs = foldl (\<lambda>(max_val, max_idx) i.
     if \<not> (i = 2 \<and> xs ! i \<le> int DIM \<and> 1 < xs ! 1) \<and> max_val < xs ! i then (xs ! i, int i) else (max_val, max_idx))
     (- 1, - 1) [0..<7]"

definition smaller_arg :: "bool \<Rightarrow> int \<Rightarrow> int" where
  "smaller_arg channels v =
     (if channels then
        let v' = (if v mod int DIM \<noteq> 0 then trunc_div v (int DIM) * int DIM else v - int DIM) in if v' = 0 then 1 else v'
      else v - 1)"

definition shrink_args :: "nat list \<Rightarrow> int list \<Rightarrow> int list res" where
  "shrink_args channel_idxs xs =
     (let (_, max_idx) = max_arg xs; i = nat max_idx in
      if max_idx < 0 then Inl Undefined else Inr (xs[i := smaller_arg (i \<in> set channel_idxs) (xs ! i)]))"

partial_function (option) conv_shrink :: "(bool \<Rightarrow> conv_tile \<Rightarrow> int) \<Rightarrow> nat list \<Rightarrow> int list \<Rightarrow> int list res option" where
  "conv_shrink rows channel_idxs xs =
     (if conv_fits rows (tile_of xs) then Some (Inr xs)
      else case shrink_args channel_idxs xs of Inl e \<Rightarrow> Some (Inl e) | Inr ys \<Rightarrow> conv_shrink rows channel_idxs ys)"

text \<open>\<open>args_candidate[i]++\<close>, kept when it is not above the maximum and fits.\<close>

definition grow_arg :: "(bool \<Rightarrow> conv_tile \<Rightarrow> int) \<Rightarrow> int list \<Rightarrow> int list \<Rightarrow> nat \<Rightarrow> bool \<times> int list" where
  "grow_arg rows max_args xs i =
     (let candidate = xs[i := to_i32 (xs ! i + 1)] in
      if max_args ! i < candidate ! i then (False, xs)
      else if conv_fits rows (tile_of candidate) then (True, candidate) else (False, xs))"

partial_function (option) conv_grow_cols :: "(bool \<Rightarrow> conv_tile \<Rightarrow> int) \<Rightarrow> int list \<Rightarrow> int list \<Rightarrow> int list option" where
  "conv_grow_cols rows max_args xs =
     (let (increased, ys) = grow_arg rows max_args xs 2 in
      if \<not> increased then Some ys else conv_grow_cols rows max_args ys)"

definition conv_grow_round :: "(bool \<Rightarrow> conv_tile \<Rightarrow> int) \<Rightarrow> int list \<Rightarrow> int list \<Rightarrow> bool \<times> int list" where
  "conv_grow_round rows max_args xs =
     foldl (\<lambda>(nothing_increased, xs) i. let (increased, ys) = grow_arg rows max_args xs i in
       (nothing_increased \<and> \<not> increased, ys)) (True, xs) [0..<7]"

partial_function (option) conv_grow :: "(bool \<Rightarrow> conv_tile \<Rightarrow> int) \<Rightarrow> int list \<Rightarrow> int list \<Rightarrow> int list option" where
  "conv_grow rows max_args xs =
     (let (nothing_increased, ys) = conv_grow_round rows max_args xs in
      if nothing_increased then Some ys else conv_grow rows max_args ys)"

declare conv_shrink.simps [code] conv_grow_cols.simps [code] conv_grow.simps [code]

definition conv_choose :: "(bool \<Rightarrow> conv_tile \<Rightarrow> int) \<Rightarrow> nat list \<Rightarrow> int list \<Rightarrow> conv_tile res option" where
  "conv_choose rows channel_idxs max_args =
     (case conv_shrink rows channel_idxs max_args of
        None \<Rightarrow> None
      | Some (Inl e) \<Rightarrow> Some (Inl e)
      | Some (Inr xs) \<Rightarrow> (case conv_grow_cols rows max_args xs of
          None \<Rightarrow> None
        | Some ys \<Rightarrow> map_option (\<lambda>zs. Inr (tile_of zs)) (conv_grow rows max_args ys)))"

definition conv_max_args :: "conv_args \<Rightarrow> int list" where
  "conv_max_args a =
     [co_batch_size a, conv_pool_rows a, conv_pool_cols a, co_out_channels a, co_kernel_dim a, co_kernel_dim a, co_in_channels a]"

text \<open>Unlike \<open>tiled_conv\<close>, the search decides about downsampling without regard to dilation and transposition.\<close>

definition auto_downsample :: "conv_args \<Rightarrow> bool" where
  "auto_downsample a \<longleftrightarrow> co_stride a = 2 \<and> co_kernel_dim a = 1 \<and> co_padding a = 0 \<and> co_pool_stride a = 0 \<and>
     co_in_row_dim a mod 2 = 0 \<and> co_in_col_dim a mod 2 = 0"

definition conv_tiling :: "conv_args \<Rightarrow> conv_tile res option" where
  "conv_tiling a =
     (let a' = conv_unpooled a in
      if co_input_dilation a = 0 then Some (Inl Undefined)
      else conv_choose (conv_rows a' (auto_downsample a)) [3, 6] (conv_max_args a'))"

definition tiled_conv_stride_auto :: "'m mmu \<Rightarrow> conv_args \<Rightarrow> tiled_matmul_type_t \<Rightarrow> 'm sim \<Rightarrow> 'm sim res option" where
  "tiled_conv_stride_auto M a ty s =
     map_option (\<lambda>r. bindE r (\<lambda>t. tiled_conv M (if co_pool_stride a = 0 then (conv_unpooled a)\<lparr>co_pool_stride := 0\<rparr> else a) t ty s))
       (conv_tiling a)"

definition tiled_conv_auto :: "'m mmu \<Rightarrow> conv_args \<Rightarrow> tiled_matmul_type_t \<Rightarrow> 'm sim \<Rightarrow> 'm sim res option" where
  "tiled_conv_auto M a ty s =
     tiled_conv_stride_auto M
       (a\<lparr>co_in_stride := co_in_channels a, co_out_stride := co_out_channels a, co_weight_stride := co_out_channels a\<rparr>) ty s"

definition dw_tiling :: "conv_dw_args \<Rightarrow> conv_tile res option" where
  "dw_tiling a =
     (let a' = dw_unpooled a in
      conv_choose (dw_rows a') [3]
        [dw_batch_size a', dw_pool_rows a', dw_pool_cols a', 1, dw_kernel_dim a', dw_kernel_dim a', 1])"

definition tiled_conv_dw_auto :: "'m mmu \<Rightarrow> conv_dw_args \<Rightarrow> tiled_matmul_type_t \<Rightarrow> 'm sim \<Rightarrow> 'm sim res option" where
  "tiled_conv_dw_auto M a ty s =
     map_option (\<lambda>r. bindE r (\<lambda>t. tiled_conv_dw M (if dw_pool_stride a = 0 then (dw_unpooled a)\<lparr>dw_pool_stride := 0\<rparr> else a) t ty s))
       (dw_tiling a)"

section \<open>Downsampling by matrix multiplications\<close>

definition downsample_args :: "conv_args \<Rightarrow> int \<Rightarrow> int \<Rightarrow> matmul_args" where
  "downsample_args a b irow =
     (let in_dim = co_in_row_dim a; out_dim = co_out_row_dim a; orow = trunc_div irow 2 in \<lparr>
      mm_dim_I = of_int (trunc_div (co_in_col_dim a) 2), mm_dim_J = of_int (co_out_channels a), mm_dim_K = of_int (co_in_channels a),
      mm_A = co_input a + off ((b * in_dim + irow) * in_dim * co_in_stride a), mm_B = co_weights a, mm_D = co_bias a,
      mm_C = co_output a + off ((b * out_dim + orow) * out_dim * co_out_stride a),
      mm_stride_A = off (co_in_stride a * 2), mm_stride_B = of_int (co_weight_stride a),
      mm_stride_D = of_int (co_out_stride a), mm_stride_C = of_int (co_out_stride a),
      mm_A_scale = MVIN_SCALE_IDENTITY, mm_B_scale = MVIN_SCALE_IDENTITY, mm_D_scale = 1, mm_act = co_act a, mm_scale = co_scale a,
      mm_bert_scale = 0, mm_repeating_bias = True, mm_a_transpose = False, mm_b_transpose = False, mm_full_C = False, mm_low_D = False\<rparr>)"

text \<open>A loop whose body may not return.\<close>

primrec foldO :: "('i \<Rightarrow> 's \<Rightarrow> 's res option) \<Rightarrow> 'i list \<Rightarrow> 's \<Rightarrow> 's res option" where
  "foldO f [] s = Some (Inr s)"
| "foldO f (x # xs) s = (case f x s of None \<Rightarrow> None | Some (Inl e) \<Rightarrow> Some (Inl e) | Some (Inr t) \<Rightarrow> foldO f xs t)"

definition tiled_conv_downsample :: "'m mmu \<Rightarrow> conv_args \<Rightarrow> tiled_matmul_type_t \<Rightarrow> 'm sim \<Rightarrow> 'm sim res option" where
  "tiled_conv_downsample M a ty s =
     (if co_in_row_dim a \<noteq> co_in_col_dim a \<or> co_out_row_dim a \<noteq> co_out_col_dim a then Some (Inl ExitFailure)
      else foldO (\<lambda>b. foldO (\<lambda>irow. tiled_matmul_auto M (downsample_args a b irow) ty) (counts (co_in_row_dim a) 2))
        (counts (co_batch_size a) 1) s)"

end
