(* ===== verification/Driver_Conv_Correct.thy ===== *)
theory Driver_Conv_Correct
  imports Driver_Conv Gemmini_Loop_Correct
begin

text \<open>
  The search for the tile of a convolution: it ends, and it finds a tile that fits the memories and
  that no single size can be increased in.
\<close>

section \<open>The largest argument\<close>

definition arg_free :: "int list \<Rightarrow> nat \<Rightarrow> bool" where
  "arg_free xs i \<longleftrightarrow> \<not> (i = 2 \<and> xs ! i \<le> int DIM \<and> 1 < xs ! 1)"

lemma max_arg_fold:
  "case foldl (\<lambda>(max_val, max_idx) i. if arg_free xs i \<and> max_val < xs ! i then (xs ! i, int i) else (max_val, max_idx)) (- 1, - 1) [0..<n] of
     (v, k) \<Rightarrow> (\<forall>i < n. arg_free xs i \<longrightarrow> xs ! i \<le> v) \<and> ((v = - 1 \<and> k = - 1) \<or> (\<exists>i < n. k = int i \<and> v = xs ! i \<and> arg_free xs i))"
proof (induction n)
  case (Suc n)
  then show ?case by (auto simp: less_Suc_eq split: prod.splits if_splits)
qed simp

lemma max_arg_found:
  assumes "max_arg xs = (v, k)" "j < 7" "arg_free xs j" "0 \<le> xs ! j"
  shows "\<exists>i < 7. k = int i \<and> v = xs ! i \<and> arg_free xs i \<and> xs ! j \<le> xs ! i"
  using max_arg_fold [where xs = xs and n = 7] assms unfolding max_arg_def arg_free_def [symmetric] by fastforce

text \<open>While a size is above one, the largest is, and it is reduced, but not below one.\<close>

definition args_ok :: "int list \<Rightarrow> int list \<Rightarrow> bool" where
  "args_ok max_args xs \<longleftrightarrow> length xs = 7 \<and> (\<forall>i < 7. 1 \<le> xs ! i \<and> xs ! i \<le> max_args ! i)"

lemma smaller_arg_bounds:
  assumes "2 \<le> v"
  shows "1 \<le> smaller_arg c v" "smaller_arg c v < v"
proof -
  have "trunc_div v 16 = v div 16" using assms by (simp add: trunc_div_def)
  moreover have "v mod 16 = 0 \<Longrightarrow> 16 \<le> v" using assms by presburger
  moreover have "v mod 16 \<noteq> 0 \<Longrightarrow> v div 16 * 16 < v \<and> 0 \<le> v div 16 * 16" using assms by presburger
  ultimately show "1 \<le> smaller_arg c v" "smaller_arg c v < v"
    using assms by (auto simp: smaller_arg_def DIM_def Let_def)
qed

lemma shrink_args_step:
  assumes "args_ok max_args xs" "xs \<noteq> replicate 7 1"
  shows "\<exists>i v. shrink_args ch xs = Inr (xs[i := v]) \<and> i < 7 \<and> 1 \<le> v \<and> v < xs ! i"
proof -
  obtain v k where m: "max_arg xs = (v, k)" by fastforce
  obtain j where j: "j < 7" "2 \<le> xs ! j"
  proof (rule ccontr)
    assume n: "\<not> thesis"
    have "xs ! i = 1" if "i < 7" for i
    proof -
      have "\<not> 2 \<le> xs ! i" using n that \<open>\<And>j. j < 7 \<Longrightarrow> 2 \<le> xs ! j \<Longrightarrow> thesis\<close> by blast
      moreover have "1 \<le> xs ! i" using assms(1) that by (simp add: args_ok_def)
      ultimately show ?thesis by simp
    qed
    then have "xs = replicate 7 1" using assms(1) by (intro nth_equalityI) (simp_all add: args_ok_def)
    then show False using assms(2) by simp
  qed
  obtain j' where "j' < 7" "2 \<le> xs ! j'" "arg_free xs j'"
  proof (cases "arg_free xs j")
    case False
    then have "2 \<le> xs ! 1" "arg_free xs 1" by (auto simp: arg_free_def)
    then show ?thesis using that [of 1] by simp
  qed (use j that in blast)
  then obtain i where i: "i < 7" "k = int i" "2 \<le> xs ! i" using max_arg_found [OF m, of j'] by fastforce
  then show ?thesis using smaller_arg_bounds [OF i(3)] m by (auto simp: shrink_args_def intro: exI [of _ i])
qed

lemma args_ok_update: "args_ok max_args xs \<Longrightarrow> 1 \<le> v \<Longrightarrow> v \<le> max_args ! i \<Longrightarrow> args_ok max_args (xs[i := v])"
  by (cases "i < 7") (auto simp: args_ok_def nth_list_update)

section \<open>Shrinking\<close>

lemma sum_list_update_int: "i < length xs \<Longrightarrow> sum_list (xs[i := v]) = sum_list xs + v - xs ! i" for v :: int
  by (induction xs arbitrary: i) (auto split: nat.split)

lemma args_ok_sum: "args_ok max_args xs \<Longrightarrow> 0 \<le> sum_list xs"
  by (rule sum_list_nonneg) (force simp: args_ok_def in_set_conv_nth)

lemma conv_shrink_ends:
  assumes "args_ok max_args xs" "conv_fits rows (tile_of (replicate 7 1))"
  shows "\<exists>ys. conv_shrink rows ch xs = Some (Inr ys) \<and> args_ok max_args ys \<and> conv_fits rows (tile_of ys)"
  using assms(1)
proof (induction "nat (sum_list xs)" arbitrary: xs rule: less_induct)
  case less
  show ?case
  proof (cases "conv_fits rows (tile_of xs)")
    case True
    then show ?thesis using less.prems by (simp add: conv_shrink.simps)
  next
    case False
    then have "xs \<noteq> replicate 7 1" using assms(2) by auto
    then obtain i v where i: "shrink_args ch xs = Inr (xs[i := v])" "i < 7" "1 \<le> v" "v < xs ! i"
      using shrink_args_step [OF less.prems] by blast
    then have ok: "args_ok max_args (xs[i := v])"
      using less.prems by (intro args_ok_update) (force simp: args_ok_def)+
    have "sum_list (xs[i := v]) < sum_list xs" using i less.prems by (simp add: args_ok_def sum_list_update_int)
    then have "nat (sum_list (xs[i := v])) < nat (sum_list xs)" using args_ok_sum [OF ok] by linarith
    then show ?thesis using less.hyps [OF _ ok] False i(1) by (simp add: conv_shrink.simps [of _ _ xs])
  qed
qed

section \<open>Growing\<close>

definition max_ok :: "int list \<Rightarrow> bool" where
  "max_ok max_args \<longleftrightarrow> length max_args = 7 \<and> (\<forall>i < 7. 1 \<le> max_args ! i \<and> max_args ! i < 2 ^ 31 - 1)"

lemma max_ok_set: "max_ok xs \<longleftrightarrow> length xs = 7 \<and> (\<forall>x \<in> set xs. 1 \<le> x \<and> x < 2 ^ 31 - 1)"
  by (auto simp: max_ok_def all_set_conv_all_nth)

text \<open>A tile is kept when it fits, and its sum is the measure of the growth.\<close>

definition tile_ok :: "(bool \<Rightarrow> conv_tile \<Rightarrow> int) \<Rightarrow> int list \<Rightarrow> int list \<Rightarrow> bool" where
  "tile_ok rows max_args xs \<longleftrightarrow> args_ok max_args xs \<and> conv_fits rows (tile_of xs)"

definition stuck :: "(bool \<Rightarrow> conv_tile \<Rightarrow> int) \<Rightarrow> int list \<Rightarrow> int list \<Rightarrow> nat \<Rightarrow> bool" where
  "stuck rows max_args xs i \<longleftrightarrow> max_args ! i \<le> xs ! i \<or> \<not> conv_fits rows (tile_of (xs[i := xs ! i + 1]))"

lemma grow_arg_cases [consumes 3, case_names grown kept]:
  assumes "max_ok max_args" "tile_ok rows max_args xs" "i < 7"
  obtains (grown) "grow_arg rows max_args xs i = (True, xs[i := xs ! i + 1])" "tile_ok rows max_args (xs[i := xs ! i + 1])"
  | (kept) "grow_arg rows max_args xs i = (False, xs)" "stuck rows max_args xs i"
proof -
  have l: "length xs = 7" "1 \<le> xs ! i" "xs ! i \<le> max_args ! i" "max_args ! i < 2 ^ 31 - 1"
    using assms by (auto simp: tile_ok_def args_ok_def max_ok_def)
  then have "to_i32 (xs ! i + 1) = xs ! i + 1" by (intro to_i32_id) simp_all
  then have "grow_arg rows max_args xs i = (if max_args ! i \<le> xs ! i then (False, xs)
      else if conv_fits rows (tile_of (xs[i := xs ! i + 1])) then (True, xs[i := xs ! i + 1]) else (False, xs))"
    using l assms(3) by (simp add: grow_arg_def add1_zle_eq not_less)
  moreover have "args_ok max_args (xs[i := xs ! i + 1])" if "\<not> max_args ! i \<le> xs ! i"
    using that assms(2) l by (intro args_ok_update) (auto simp: tile_ok_def)
  ultimately show ?thesis using that by (auto simp: tile_ok_def stuck_def split: if_splits)
qed

text \<open>How far a tile is from the largest one.\<close>

definition tile_room :: "int list \<Rightarrow> int list \<Rightarrow> nat" where
  "tile_room max_args xs = nat (sum_list max_args - sum_list xs)"

lemma tile_room_bound:
  assumes "length max_args = 7" "args_ok max_args xs"
  shows "sum_list xs \<le> sum_list max_args"
  using assms by (intro sum_list_mono2) (simp_all add: args_ok_def)

lemma grow_room:
  assumes "max_ok max_args" "tile_ok rows max_args (xs[i := xs ! i + 1])" "i < 7" "length xs = 7"
  shows "tile_room max_args (xs[i := xs ! i + 1]) < tile_room max_args xs"
proof -
  have "sum_list (xs[i := xs ! i + 1]) \<le> sum_list max_args" using assms by (intro tile_room_bound) (simp_all add: max_ok_def tile_ok_def)
  moreover have "sum_list (xs[i := xs ! i + 1]) = sum_list xs + 1" using assms by (simp add: sum_list_update_int)
  ultimately show ?thesis by (simp add: tile_room_def)
qed

lemma conv_grow_cols_ends:
  assumes "max_ok max_args" "tile_ok rows max_args xs"
  shows "\<exists>ys. conv_grow_cols rows max_args xs = Some ys \<and> tile_ok rows max_args ys"
  using assms(2)
proof (induction "tile_room max_args xs" arbitrary: xs rule: less_induct)
  case less
  have l: "length xs = 7" using less.prems by (simp add: tile_ok_def args_ok_def)
  have two: "2 < (7 :: nat)" by simp
  show ?case using assms(1) less.prems two
  proof (cases rule: grow_arg_cases)
    case grown
    then show ?thesis using less.hyps [OF grow_room [OF assms(1) grown(2) two l] grown(2)] by (simp add: conv_grow_cols.simps [of _ _ xs])
  next
    case kept
    then show ?thesis using less.prems by (simp add: conv_grow_cols.simps [of _ _ xs])
  qed
qed

text \<open>A round either grows the tile or finds every size stuck.\<close>

lemma conv_grow_round_fold:
  assumes "max_ok max_args" "tile_ok rows max_args xs" "n \<le> 7"
  shows "case foldl (\<lambda>(nothing_increased, xs) i. let (increased, ys) = grow_arg rows max_args xs i in (nothing_increased \<and> \<not> increased, ys)) (True, xs) [0..<n] of
    (nothing, ys) \<Rightarrow> tile_ok rows max_args ys \<and>
      (if nothing then ys = xs \<and> (\<forall>i < n. stuck rows max_args xs i) else tile_room max_args ys < tile_room max_args xs)"
  using assms(3)
proof (induction n)
  case 0
  then show ?case using assms(2) by simp
next
  case (Suc n)
  let ?f = "\<lambda>(nothing_increased, xs) i. let (increased, ys) = grow_arg rows max_args xs i in (nothing_increased \<and> \<not> increased, ys)"
  obtain b ys where e: "foldl ?f (True, xs) [0..<n] = (b, ys)" by fastforce
  have ys: "tile_ok rows max_args ys" "if b then ys = xs \<and> (\<forall>i < n. stuck rows max_args xs i) else tile_room max_args ys < tile_room max_args xs"
    using Suc e by simp_all
  have l: "length ys = 7" "n < 7" using ys(1) Suc.prems by (auto simp: tile_ok_def args_ok_def)
  have step: "foldl ?f (True, xs) [0..<Suc n] = ?f (b, ys) n" using e by simp
  show ?case using assms(1) ys(1) l(2)
  proof (cases rule: grow_arg_cases)
    case grown
    then show ?thesis
      unfolding step using grow_room [OF assms(1) grown(2) l(2,1)] ys(2) by (auto split: if_splits)
  next
    case kept
    then show ?thesis unfolding step using ys by (auto simp: less_Suc_eq split: if_splits)
  qed
qed

lemma conv_grow_ends:
  assumes "max_ok max_args" "tile_ok rows max_args xs"
  shows "\<exists>ys. conv_grow rows max_args xs = Some ys \<and> tile_ok rows max_args ys \<and> (\<forall>i < 7. stuck rows max_args ys i)"
  using assms(2)
proof (induction "tile_room max_args xs" arbitrary: xs rule: less_induct)
  case less
  obtain b ys where e: "conv_grow_round rows max_args xs = (b, ys)" by fastforce
  then have r: "tile_ok rows max_args ys"
    "if b then ys = xs \<and> (\<forall>i < 7. stuck rows max_args xs i) else tile_room max_args ys < tile_room max_args xs"
    using conv_grow_round_fold [OF assms(1) less.prems, of 7] by (simp_all add: conv_grow_round_def)
  show ?case
    using less.hyps [OF _ r(1)] r e by (cases b) (simp_all add: conv_grow.simps [of _ _ xs])
qed

section \<open>The chosen tile\<close>

lemma conv_choose_ends:
  assumes "max_ok max_args" "conv_fits rows (tile_of (replicate 7 1))"
  shows "\<exists>xs. conv_choose rows ch max_args = Some (Inr (tile_of xs)) \<and> tile_ok rows max_args xs \<and> (\<forall>i < 7. stuck rows max_args xs i)"
proof -
  have "args_ok max_args max_args" using assms(1) by (simp add: args_ok_def max_ok_def)
  then obtain xs where xs: "conv_shrink rows ch max_args = Some (Inr xs)" "tile_ok rows max_args xs"
    using conv_shrink_ends [OF _ assms(2)] unfolding tile_ok_def by blast
  obtain ys where ys: "conv_grow_cols rows max_args xs = Some ys" "tile_ok rows max_args ys"
    using conv_grow_cols_ends [OF assms(1) xs(2)] by blast
  show ?thesis using conv_grow_ends [OF assms(1) ys(2)] by (auto simp: conv_choose_def xs(1) ys(1))
qed

section \<open>The chosen tile is accepted\<close>

lemma conv_unpooled_fields [simp]:
  "co_batch_size (conv_unpooled a) = co_batch_size a" "co_input_dilation (conv_unpooled a) = co_input_dilation a"
  "co_kernel_dim (conv_unpooled a) = co_kernel_dim a" "co_padding (conv_unpooled a) = co_padding a" "co_stride (conv_unpooled a) = co_stride a"
  "co_trans_output_1203 (conv_unpooled a) = co_trans_output_1203 a" "co_trans_input_3120 (conv_unpooled a) = co_trans_input_3120 a"
  "co_trans_weight_0132 (conv_unpooled a) = co_trans_weight_0132 a"
  by (simp_all add: conv_unpooled_def)

lemma unpooled_again:
  "conv_unpooled (if co_pool_stride a = 0 then (conv_unpooled a)\<lparr>co_pool_stride := 0\<rparr> else a) = conv_unpooled a"
  "conv_flags_of (if co_pool_stride a = 0 then (conv_unpooled a)\<lparr>co_pool_stride := 0\<rparr> else a) = conv_flags_of a"
  by (simp_all add: conv_unpooled_def conv_flags_of_def conv_downsample_def)

lemma tiled_conv_ws:
  "\<not> (co_trans_weight_1203 a \<and> co_trans_weight_0132 a) \<Longrightarrow>
    tiled_conv M a t TM_WS s = bindE (conv_ops (conv_unpooled a) t (conv_flags_of a)) (\<lambda>ops. run_ops M ops s)"
  by (auto simp: tiled_conv_def)

lemma ceil_divide_int_pos: "0 \<le> x \<Longrightarrow> x < 2 ^ 31 \<Longrightarrow> 1 \<le> y \<Longrightarrow> \<exists>q. ceil_divide_int x y = Inr q"
proof -
  assume a: "0 \<le> x" "x < 2 ^ 31" "1 \<le> y"
  then have "trunc_div x y = x div y" by (simp add: trunc_div_def)
  moreover have "x div y \<le> x" using a by (cases "y = 1") (auto intro: order.strict_implies_order int_div_less_self simp: le_less)
  ultimately show ?thesis using a by (simp add: ceil_divide_int_def Let_def)
qed

lemma counts_below: "x \<in> set (counts n step) \<Longrightarrow> 0 < step \<Longrightarrow> 0 \<le> x \<and> x < n"
proof -
  assume x: "x \<in> set (counts n step)" and s: "0 < step"
  obtain i where i: "x = int (i * nat step)" "i < (nat n + nat step - 1) div nat step" using x unfolding counts_def steps_def set_map image_image by (metis (no_types, lifting) atLeastLessThan_iff imageE set_upt)
  have "Suc i * nat step \<le> (nat n + nat step - 1) div nat step * nat step" using i(2) by (intro mult_le_mono1) simp
  also have "\<dots> \<le> nat n + nat step - 1" by (rule div_times_less_eq_dividend)
  finally have "i * nat step < nat n" using s by simp
  then show ?thesis using i(1) by linarith
qed

lemma max_pixels_found: "ichs \<noteq> 0 \<Longrightarrow> \<exists>n. max_pixels_per_row a f k ichs = Inr n"
  by (auto simp: max_pixels_per_row_def Let_def bindE_Inr_iff)

lemma sp_tiled_conv_seven:
  assumes "ct_kchs t \<noteq> 0" "\<not> cf_dw f"
  shows "\<exists>ops. sp_tiled_conv a rows cols t p q f i j = Inr ops \<and> length ops = 7"
proof -
  obtain n where n: "max_pixels_per_row a f (ct_kcols t) (ct_kchs t) = Inr n" using max_pixels_found [OF assms(1)] by blast
  have "length (gemmini_loop_conv_ws x) = 7" for x by (simp add: gemmini_loop_conv_ws_def)
  then show ?thesis unfolding sp_tiled_conv_def Let_def using n assms(2) by simp
qed

lemma conv_job_seven:
  assumes "p \<in> set (conv_positions a t)" "1 \<le> ct_kchs t" "\<not> cf_dw f"
  shows "\<exists>ops. conv_job a t f ra rb p = Inr ops \<and> length ops = 7"
proof -
  have "0 \<le> po_kch p \<and> po_kch p < co_in_channels a" using assms(1,2) counts_below [of "po_kch p" "co_in_channels a" "ct_kchs t"]
    by (auto simp: conv_positions_def)
  then have "ct_kchs (conv_tile_at a t p) \<noteq> 0" using assms(2) by (auto simp: conv_tile_at_def tile_part_def)
  then show ?thesis unfolding conv_job_def Let_def split_def by (rule sp_tiled_conv_seven [OF _ assms(3)])
qed

lemma mapE_all:
  assumes "\<And>x. x \<in> set xs \<Longrightarrow> \<exists>ops. f x = Inr ops \<and> length ops = k"
  shows "\<exists>ys. mapE f xs = Inr ys \<and> length (concat ys) = k * length xs"
  using assms
proof (induction xs)
  case (Cons x xs)
  obtain y where "f x = Inr y" "length y = k" using Cons.prems [of x] by auto
  moreover obtain ys where "mapE f xs = Inr ys" "length (concat ys) = k * length xs" using Cons by auto
  ultimately show ?case by simp
qed simp

text \<open>What \<open>tiled_conv\<close> requires of a convolution besides its size.\<close>

definition conv_supported :: "conv_args \<Rightarrow> bool" where
  "conv_supported a \<longleftrightarrow> co_padding a < co_kernel_dim a \<and> co_input_dilation a \<in> {1, 2} \<and> (co_input_dilation a = 2 \<longrightarrow> co_stride a \<le> 1) \<and>
     (co_trans_output_1203 a \<longrightarrow> co_pool_stride a = 0) \<and> \<not> (co_trans_input_3120 a \<and> co_trans_weight_0132 a) \<and>
     \<not> (co_trans_weight_1203 a \<and> co_trans_weight_0132 a)"

lemma conv_ops_issued:
  assumes max: "max_ok (conv_max_args (conv_unpooled a))" and sup: "conv_supported a"
    and t: "tile_ok (conv_rows (conv_unpooled a) (cf_downsample (conv_flags_of a))) (conv_max_args (conv_unpooled a)) xs"
  shows "\<exists>ops. conv_ops (conv_unpooled a) (tile_of xs) (conv_flags_of a) = Inr ops \<and>
    length ops = 2 + 7 * length (conv_positions (conv_unpooled a) (tile_of xs))"
proof -
  let ?a = "conv_unpooled a" and ?t = "tile_of xs" and ?f = "conv_flags_of a"
  have xs: "1 \<le> xs ! i" "1 \<le> conv_max_args ?a ! i" "conv_max_args ?a ! i < 2 ^ 31" if "i < 7" for i
    using t max that by (auto simp: tile_ok_def args_ok_def max_ok_def)
  have "conv_check ?a ?t ?f = Inr ()"
    using sup t by (auto simp: conv_check_def conv_supported_def tile_ok_def conv_fits_def conv_flags_of_def)
  moreover obtain ra rb where "conv_reuse ?a ?t = Inr (ra, rb)"
  proof -
    have "\<exists>q. ceil_divide_int (conv_max_args ?a ! i) (xs ! i) = Inr q" if "i < 7" for i
      using xs [OF that] by (intro ceil_divide_int_pos) simp_all
    from this [of 0] this [of 1] this [of 2] this [of 3] this [of 4] this [of 5] this [of 6]
    show ?thesis using that by (auto simp: conv_reuse_def conv_max_args_def tile_of_def)
  qed
  moreover have "loops_end (conv_loops ?a ?t)"
    using xs(1) [of 0] xs(1) [of 1] xs(1) [of 2] xs(1) [of 3] xs(1) [of 4] xs(1) [of 5] xs(1) [of 6] by (simp add: conv_loops_def tile_of_def)
  moreover obtain ys where "mapE (conv_job ?a ?t ?f ra rb) (conv_positions ?a ?t) = Inr ys" "length (concat ys) = 7 * length (conv_positions ?a ?t)"
    using mapE_all [where f = "conv_job ?a ?t ?f ra rb" and xs = "conv_positions ?a ?t" and k = 7] conv_job_seven [of _ ?a ?t ?f ra rb] xs(1) [of 6]
    by (auto simp: tile_of_def conv_flags_of_def)
  moreover have "length (conv_config ?a ?f) = 2"
    by (simp add: conv_config_def gemmini_extended_config_st_def gemmini_extended2_config_st_def gemmini_extended3_config_ex_def)
  ultimately show ?thesis by (simp add: conv_ops_def)
qed

end
