(* ===== verification/Driver_Downsample_Correct.thy ===== *)
theory Driver_Downsample_Correct
  imports Driver_Conv_Correct Driver_Cpu_Correct
begin

text \<open>
  The downsampling convolution (a kernel of one pixel and a stride of two), which the driver computes
  by one matrix multiplication per row of the output: it writes what \<open>conv_cpu\<close> writes.
\<close>

section \<open>The job\<close>

text \<open>
  The shape: \<open>B\<close> images of \<open>n\<close> by \<open>n\<close> output pixels, \<open>K\<close> channels in and \<open>J\<close> channels out; \<open>S\<close>, \<open>T\<close> and \<open>V\<close>
  are the strides of input, output and weights. No offset overflows an \<open>int\<close>.
\<close>

definition ds_dims :: "conv_args \<Rightarrow> nat \<Rightarrow> nat \<Rightarrow> nat \<Rightarrow> nat \<Rightarrow> nat \<Rightarrow> nat \<Rightarrow> nat \<Rightarrow> bool" where
  "ds_dims a B n K J S T V \<longleftrightarrow>
     co_batch_size a = int B \<and> co_out_row_dim a = int n \<and> co_out_col_dim a = int n \<and>
     co_in_row_dim a = int (2 * n) \<and> co_in_col_dim a = int (2 * n) \<and> co_in_channels a = int K \<and> co_out_channels a = int J \<and>
     co_in_stride a = int S \<and> co_out_stride a = int T \<and> co_weight_stride a = int V \<and>
     co_stride a = 2 \<and> co_input_dilation a = 1 \<and> co_padding a = 0 \<and> co_kernel_dim a = 1 \<and> co_pool_stride a = 0 \<and>
     \<not> co_trans_output_1203 a \<and> \<not> co_trans_input_3120 a \<and> \<not> co_trans_weight_1203 a \<and> \<not> co_trans_weight_0132 a \<and>
     (co_act a = ACT_NO_ACTIVATION \<or> co_act a = ACT_RELU) \<and>
     0 < B \<and> 0 < n \<and> 0 < K \<and> 0 < J \<and> 0 < S \<and> 0 < T \<and>
     B * (2 * n) * (2 * n) * S < 2 ^ 31 \<and> B * n * n * T < 2 ^ 31 \<and> K * V < 2 ^ 31 \<and> K < 2 ^ 31 \<and> J < 2 ^ 31 \<and> V < 2 ^ 31"

text \<open>The pixel of the input that a pixel of the output is computed from, both counted over all images.\<close>

definition ds_src :: "nat \<Rightarrow> nat \<Rightarrow> nat" where
  "ds_src n p = (p div n div n * (2 * n) + 2 * (p div n mod n)) * (2 * n) + 2 * (p mod n)"

lemma ds_src_at: "r < n \<Longrightarrow> c < n \<Longrightarrow> ds_src n ((b * n + r) * n + c) = (b * (2 * n) + 2 * r) * (2 * n) + 2 * c"
  by (simp add: ds_src_def)

definition ds_memory ::
  "'m mmu \<Rightarrow> conv_args \<Rightarrow> nat \<Rightarrow> nat \<Rightarrow> nat \<Rightarrow> nat \<Rightarrow> nat \<Rightarrow> nat \<Rightarrow> nat \<Rightarrow> 'm \<Rightarrow> (nat \<Rightarrow> nat \<Rightarrow> elem_t) \<Rightarrow> (nat \<Rightarrow> nat \<Rightarrow> elem_t) \<Rightarrow>
     (nat \<Rightarrow> acc_t) \<Rightarrow> (nat \<times> nat \<Rightarrow> u8) \<Rightarrow> bool" where
  "ds_memory M a B n K J S T V m X Q D W \<longleftrightarrow> (let out = dram_cell (co_output a) (of_nat T) in mmu_ok M \<and>
     operand_at M m (co_input a) (of_nat S) (B * (2 * n) * (2 * n)) K X \<and> operand_at M m (co_weights a) (of_nat V) K J Q \<and>
     target_at M m (co_output a) (of_nat T) (B * n * n) J \<and> (\<forall>p < B * n * n. \<forall>j < J. out (p, j) \<noteq> 0) \<and>
     cells_apart (co_output a) (of_nat T) (co_input a) (of_nat S) (B * n * n) J (B * (2 * n) * (2 * n)) K \<and>
     cells_apart (co_output a) (of_nat T) (co_weights a) (of_nat V) (B * n * n) J K J \<and>
     (if co_bias a = 0 then D = (\<lambda>_. 0)
      else \<forall>j < J. co_bias a + of_nat j * 4 \<noteq> 0 \<and> read_from_dram M m (co_bias a + of_nat j * 4) = Inr (D j) \<and>
        (\<forall>b < 4. co_bias a + of_nat j * 4 + of_nat b \<notin> out ` ({..<B * n * n} \<times> {..<J}))) \<and>
     (\<forall>p < B * n * n. \<forall>j < J.
       scale_and_sat (D j + (\<Sum>k<K. scast (X (ds_src n p) k) * scast (Q k j))) (co_act a) (co_scale a) 0 = Inr (W (p, j))))"

lemma ds_memory_wrote:
  assumes "ds_memory M a B n K J S T V m X Q D W" "wrote M m m' C (dram_cell (co_output a) (of_nat T)) W'" "C \<subseteq> {..<B * n * n} \<times> {..<J}"
  shows "ds_memory M a B n K J S T V m' X Q D W"
proof -
  note mm = assms(1) [unfolded ds_memory_def Let_def]
  have "read_from_dram M m' (co_bias a + of_nat j * 4) = (read_from_dram M m (co_bias a + of_nat j * 4) :: acc_t res)"
    if "j < J" "co_bias a \<noteq> 0" for j
  proof (rule read_from_dram_cong)
    fix b assume "b < bytes_of TYPE(32)"
    then have "co_bias a + of_nat j * 4 + of_nat b \<notin> dram_cell (co_output a) (of_nat T) ` C"
      using mm that assms(3) by (auto simp: bytes_of_def subset_iff image_iff)
    then show "mmu_load M m' (co_bias a + of_nat j * 4 + of_nat b) = mmu_load M m (co_bias a + of_nat j * 4 + of_nat b)"
      by (rule wrote_outside [OF assms(2)])
  qed
  then show ?thesis
    using mm operand_at_wrote [OF _ assms(2,3)] target_at_wrote [OF _ assms(2)] unfolding ds_memory_def Let_def by auto
qed

section \<open>One row as a matrix product\<close>

lemma off_nat: "n < 2 ^ 31 \<Longrightarrow> off (int n) = of_nat n"
  by (simp add: off_def to_i32_id)

lemma operand_at_double:
  assumes "operand_at M m base (of_nat S) (2 * n) K X" "2 * S < 2 ^ 64"
  shows "operand_at M m base (of_nat (S * 2)) n K (\<lambda>i. X (2 * i))"
proof -
  have u: "unat (of_nat (S * 2) :: u64) = S * 2" "unat (of_nat S :: u64) = S" using assms(2) by (intro unat_of_small; simp)+
  have c: "dram_cell base (of_nat (S * 2)) (i, k) = dram_cell base (of_nat S) (2 * i, k)" for i k
    by (simp add: dram_cell_def algebra_simps)
  have "unat base + i * (S * 2) + k < 2 ^ 64 \<and> mmu_load M m (dram_cell base (of_nat S) (2 * i, k)) = Some (X (2 * i) k)"
    if "i < n" "k < K" for i k
  proof -
    have "unat base + 2 * i * S + k < 2 ^ 64 \<and> mmu_load M m (dram_cell base (of_nat S) (2 * i, k)) = Some (X (2 * i) k)"
      using assms(1) that unfolding operand_at_def u by simp
    then show ?thesis by (simp add: mult.commute mult.left_commute)
  qed
  then show ?thesis using assms(1) unfolding operand_at_def u c by blast
qed

lemma cells_apart_double:
  assumes "cells_apart base' stride' base (of_nat S) rows' cols' (2 * n) K"
  shows "cells_apart base' stride' base (of_nat (S * 2)) rows' cols' n K"
proof -
  have "dram_cell base (of_nat (S * 2)) ` ({..<n} \<times> {..<K}) \<subseteq> dram_cell base (of_nat S) ` ({..<2 * n} \<times> {..<K})"
  proof (rule image_subsetI)
    fix p assume "p \<in> {..<n} \<times> {..<K}"
    then have "(2 * fst p, snd p) \<in> {..<2 * n} \<times> {..<K}" "dram_cell base (of_nat (S * 2)) p = dram_cell base (of_nat S) (2 * fst p, snd p)"
      by (auto simp: dram_cell_def algebra_simps)
    then show "dram_cell base (of_nat (S * 2)) p \<in> dram_cell base (of_nat S) ` ({..<2 * n} \<times> {..<K})" by (metis image_eqI)
  qed
  then show ?thesis using assms unfolding cells_apart_def by blast
qed

text \<open>Row \<open>r\<close> of image \<open>b\<close> starts at these pixels.\<close>

lemma ds_row_bounds:
  fixes b B r n :: nat
  assumes "b < B" "r < n"
  shows "(b * n + r) * n + n \<le> B * n * n" "(b * (2 * n) + 2 * r) * (2 * n) + 2 * n \<le> B * (2 * n) * (2 * n)"
proof -
  have 1: "b * n + r + 1 \<le> B * n" using assms mult_le_mono1 [of "Suc b" B n] by simp
  then have "(b * n + r + 1) * n \<le> B * n * n" by (intro mult_le_mono1)
  then show "(b * n + r) * n + n \<le> B * n * n" by (simp add: algebra_simps)
  have "(b * (2 * n) + 2 * r + 1) * (2 * n) \<le> B * (2 * n) * (2 * n)" using 1 by (intro mult_le_mono1) simp
  then show "(b * (2 * n) + 2 * r) * (2 * n) + 2 * n \<le> B * (2 * n) * (2 * n)" by (simp add: algebra_simps)
qed

lemma ds_small:
  assumes "ds_dims a B n K J S T V"
  shows "S * 2 < 2 ^ 31" "2 * n < 2 ^ 31" "T < 2 ^ 31"
proof -
  have d: "1 \<le> B" "1 \<le> n" "1 \<le> S" "1 \<le> T" "B * (2 * n) * (2 * n) * S < 2 ^ 31" "B * n * n * T < 2 ^ 31"
    using assms by (simp_all add: ds_dims_def Suc_le_eq)
  have h: "1 * 2 * 1 * S \<le> B * (2 * n) * (2 * n) * S" "1 * (2 * n) * 1 * 1 \<le> B * (2 * n) * (2 * n) * S" "1 * 1 * 1 * T \<le> B * n * n * T"
    using d(1-4) by (intro mult_le_mono; simp)+
  show "S * 2 < 2 ^ 31" "2 * n < 2 ^ 31" "T < 2 ^ 31"
    using le_less_trans [OF h(1) d(5)] le_less_trans [OF h(2) d(5)] le_less_trans [OF h(3) d(6)] by simp_all
qed

lemma ds_row_args:
  assumes d: "ds_dims a B n K J S T V" and br: "b < B" "r < n"
  shows "downsample_args a (int b) (2 * int r) = \<lparr>
      mm_dim_I = of_nat n, mm_dim_J = of_nat J, mm_dim_K = of_nat K,
      mm_A = co_input a + (of_nat ((b * (2 * n) + 2 * r) * (2 * n)) * of_nat S + of_nat 0), mm_B = co_weights a, mm_D = co_bias a,
      mm_C = co_output a + (of_nat ((b * n + r) * n) * of_nat T + of_nat 0),
      mm_stride_A = of_nat (S * 2), mm_stride_B = of_nat V, mm_stride_D = of_nat T, mm_stride_C = of_nat T,
      mm_A_scale = MVIN_SCALE_IDENTITY, mm_B_scale = MVIN_SCALE_IDENTITY, mm_D_scale = 1, mm_act = co_act a, mm_scale = co_scale a,
      mm_bert_scale = 0, mm_repeating_bias = True, mm_a_transpose = False, mm_b_transpose = False, mm_full_C = False, mm_low_D = False\<rparr>"
proof -
  note d' = d [unfolded ds_dims_def]
  have le1: "(b * (2 * n) + 2 * r) * (2 * n) * S \<le> B * (2 * n) * (2 * n) * S"
    using mult_le_mono1 [OF add_leD1 [OF ds_row_bounds(2) [OF br]]] .
  have le2: "(b * n + r) * n * T \<le> B * n * n * T"
    using mult_le_mono1 [OF add_leD1 [OF ds_row_bounds(1) [OF br]]] .
  note s = ds_small(1) [OF d]
  have o: "off ((int b * int (2 * n) + 2 * int r) * int (2 * n) * int S) = of_nat ((b * (2 * n) + 2 * r) * (2 * n)) * of_nat S"
    "off ((int b * int n + int r) * int n * int T) = of_nat ((b * n + r) * n) * of_nat T" "off (int S * 2) = of_nat (S * 2)"
    using off_nat [OF le_less_trans [OF le1]] off_nat [OF le_less_trans [OF le2]] off_nat [OF s] d' by simp_all
  have t: "trunc_div (2 * int x) 2 = int x" "trunc_div (int (2 * x)) 2 = int x" for x by (simp_all add: trunc_div_def)
  show ?thesis using d' o by (simp add: downsample_args_def Let_def t del: of_nat_mult)
qed

lemma ds_row_plain:
  assumes "ds_dims a B n K J S T V" "b < B" "r < n"
  shows "mm_plain (downsample_args a (int b) (2 * int r))" "dims_ok (downsample_args a (int b) (2 * int r))"
    "unat (mm_dim_I (downsample_args a (int b) (2 * int r))) = n" "unat (mm_dim_J (downsample_args a (int b) (2 * int r))) = J"
    "unat (mm_dim_K (downsample_args a (int b) (2 * int r))) = K"
proof -
  note d = assms(1) [unfolded ds_dims_def] and small = ds_small [OF assms(1)]
  have u: "unat (of_nat n :: u64) = n" "unat (of_nat J :: u64) = J" "unat (of_nat K :: u64) = K" "unat (of_nat T :: u64) = T"
    using d small by (simp_all add: unat_of_small)
  then have "fits 32 (of_nat T :: u64)" using small(3) by (intro fitsI) (simp add: word_less_nat_alt)
  then show "mm_plain (downsample_args a (int b) (2 * int r))" "dims_ok (downsample_args a (int b) (2 * int r))"
    "unat (mm_dim_I (downsample_args a (int b) (2 * int r))) = n" "unat (mm_dim_J (downsample_args a (int b) (2 * int r))) = J"
    "unat (mm_dim_K (downsample_args a (int b) (2 * int r))) = K"
    unfolding ds_row_args [OF assms] using d small u by (simp_all add: mm_plain_def dims_ok_def)
qed

lemma ds_row_memory:
  assumes d: "ds_dims a B n K J S T V" and mem: "ds_memory M a B n K J S T V m X Q D W" and br: "b < B" "r < n"
  shows "mm_memory M (downsample_args a (int b) (2 * int r)) m (\<lambda>i. X (ds_src n ((b * n + r) * n + i))) Q (\<lambda>i. D) (\<lambda>(i, j). W ((b * n + r) * n + i, j))"
proof -
  define p0 q0 where "p0 = (b * n + r) * n" "q0 = (b * (2 * n) + 2 * r) * (2 * n)"
  note pq = p0_q0_def
  let ?m = "downsample_args a (int b) (2 * int r)"
  note mm = mem [unfolded ds_memory_def Let_def] and plain = ds_row_plain [OF d br] and bounds = ds_row_bounds [OF br, folded pq]
    and args = ds_row_args [OF d br, folded pq] and small = ds_small [OF d]
  have pos: "0 < n" "0 < K" "0 < J" using d by (simp_all add: ds_dims_def)
  have m: "mmu_ok M" "operand_at M m (co_input a) (of_nat S) (B * (2 * n) * (2 * n)) K X" "operand_at M m (co_weights a) (of_nat V) K J Q"
    "target_at M m (co_output a) (of_nat T) (B * n * n) J" "\<forall>p < B * n * n. \<forall>j < J. dram_cell (co_output a) (of_nat T) (p, j) \<noteq> 0"
    "cells_apart (co_output a) (of_nat T) (co_input a) (of_nat S) (B * n * n) J (B * (2 * n) * (2 * n)) K"
    "cells_apart (co_output a) (of_nat T) (co_weights a) (of_nat V) (B * n * n) J K J" using mm by blast+
  have src: "ds_src n (p0 + i) = q0 + 2 * i" if "i < n" for i using ds_src_at [OF br(2) that] by (simp add: pq)
  have "operand_at M m (co_input a + (of_nat q0 * of_nat S + of_nat 0)) (of_nat S) (2 * n) K (\<lambda>r c. X (q0 + r) (0 + c))"
    by (rule operand_at_part [OF m(2) bounds(2)]) (use pos in simp_all)
  then have "operand_at M m (mm_A ?m) (mm_stride_A ?m) n K (\<lambda>i c. X (q0 + 2 * i) (0 + c))"
    unfolding args using operand_at_double [of M m _ S n K "\<lambda>r c. X (q0 + r) (0 + c)"] small(1) by simp
  then have A: "scaled_at M m (mm_A ?m) (mm_stride_A ?m) n K (mm_A_scale ?m) (\<lambda>i. X (ds_src n (p0 + i)))"
    unfolding scaled_at_def using src by (auto intro!: exI [of _ "\<lambda>i. X (q0 + 2 * i)"] simp: args mvin_scale_one)
  have B: "scaled_at M m (mm_B ?m) (mm_stride_B ?m) K J (mm_B_scale ?m) Q"
    unfolding scaled_at_def args using m(3) by (auto simp: mvin_scale_one)
  have C: "target_at M m (mm_C ?m) (mm_stride_C ?m) n J"
    unfolding args by (simp only: matmul_args.simps) (rule target_at_part [OF m(4) bounds(1)], simp)
  have cell: "dram_cell (mm_C ?m) (mm_stride_C ?m) (i, j) = dram_cell (co_output a) (of_nat T) (p0 + i, j)" for i j
    using dram_cell_part [of "co_output a" p0 "of_nat T" 0 i j] by (simp add: args)
  have "cells_apart (co_output a + (of_nat p0 * of_nat T + of_nat 0)) (of_nat T) (co_input a + (of_nat q0 * of_nat S + of_nat 0)) (of_nat S) n J (2 * n) K"
    by (rule cells_apart_part [OF m(6) bounds(1) _ bounds(2)]) simp_all
  then have CA: "cells_apart (mm_C ?m) (mm_stride_C ?m) (mm_A ?m) (mm_stride_A ?m) n J n K"
    unfolding args by (simp only: matmul_args.simps) (rule cells_apart_double)
  have "cells_apart (co_output a + (of_nat p0 * of_nat T + of_nat 0)) (of_nat T) (co_weights a + (of_nat 0 * of_nat V + of_nat 0)) (of_nat V) n J K J"
    by (rule cells_apart_part [OF m(7) bounds(1)]) simp_all
  then have CB: "cells_apart (mm_C ?m) (mm_stride_C ?m) (mm_B ?m) (mm_stride_B ?m) n J K J" by (simp add: args)
  have sub: "dram_cell (mm_C ?m) (mm_stride_C ?m) ` ({..<n} \<times> {..<J}) \<subseteq> dram_cell (co_output a) (of_nat T) ` ({..<B * n * n} \<times> {..<J})"
    using bounds(1) cell by (force simp: image_subset_iff)
  have bias: "if mm_D ?m = 0 then (\<lambda>i. D) = (\<lambda>_ _. 0) else (\<forall>scale. bias_at M m (mm_D ?m) (bias_stride ?m) False scale n J (\<lambda>i. D)) \<and> bias_apart ?m"
  proof (cases "co_bias a = 0")
    case True
    then show ?thesis using mm by (simp add: args)
  next
    case False
    then have "bias_at M m (mm_D ?m) (bias_stride ?m) False scale n J (\<lambda>i. D)" for scale
      using mm by (simp add: args bias_stride_def bias_at_def mvin_acc_value_def)
    moreover have "bias_apart ?m"
    proof -
      have "\<forall>j < J. \<forall>b < 4. co_bias a + of_nat j * 4 + of_nat b \<notin> dram_cell (co_output a) (of_nat T) ` ({..<B * n * n} \<times> {..<J})"
        using mm False by simp
      moreover have e: "mm_D ?m + of_nat i * bias_stride ?m + of_nat j * 4 + of_nat b = co_bias a + of_nat j * 4 + of_nat b" for i j b
        by (simp add: args bias_stride_def)
      ultimately show ?thesis unfolding bias_apart_def plain(3,4) e using sub by blast
    qed
    ultimately show ?thesis using False by (simp add: args)
  qed
  have out: "mm_out ?m (ws_sum (\<lambda>i. X (ds_src n (p0 + i))) Q (\<lambda>i. D) i j K) = Inr (W (p0 + i, j))" if "i < n" "j < J" for i j
  proof -
    have "p0 + i < B * n * n" using bounds(1) that by simp
    then show ?thesis
      using mm that scale_and_sat_plain [OF plain(1), of "ws_sum (\<lambda>i. X (ds_src n (p0 + i))) Q (\<lambda>i. D) i j K" 0] by (simp add: args ws_sum_def)
  qed
  have nz: "dram_cell (mm_C ?m) (mm_stride_C ?m) (i, j) \<noteq> 0" if "i < n" "j < J" for i j
    unfolding cell using m(5) bounds(1) that by simp
  show ?thesis unfolding mm_memory_def plain(3-5) Let_def pq(1) [symmetric]
    using m(1) A B C CA CB bias out nz by simp
qed

text \<open>What a row writes continues what the rows before it wrote.\<close>

lemma ds_row_wrote:
  assumes d: "ds_dims a B n K J S T V" and mem: "ds_memory M a B n K J S T V m0 X Q D W" and br: "b < B" "r < n"
    and m: "wrote M m0 m ({..<(b * n + r) * n} \<times> {..<J}) (dram_cell (co_output a) (of_nat T)) W"
    and m': "wrote M m m' ({..<n} \<times> {..<J}) (dram_cell (mm_C (downsample_args a (int b) (2 * int r))) (mm_stride_C (downsample_args a (int b) (2 * int r))))
      (\<lambda>(i, j). W ((b * n + r) * n + i, j))"
  shows "wrote M m0 m' ({..<(b * n + Suc r) * n} \<times> {..<J}) (dram_cell (co_output a) (of_nat T)) W"
proof -
  let ?p = "(b * n + r) * n"
  have inj: "inj_on (dram_cell (co_output a) (of_nat T)) ({..<B * n * n} \<times> {..<J})" using mem by (simp add: ds_memory_def Let_def target_at_def)
  have "wrote M m m' ({?p ..< ?p + n} \<times> {0 ..< 0 + J}) (dram_cell (co_output a) (of_nat T)) W"
    by (rule wrote_part) (use m' in \<open>simp add: ds_row_args [OF d br]\<close>)
  then have "wrote M m0 m' ({..<?p} \<times> {..<J} \<union> {?p ..< ?p + n} \<times> {0 ..< 0 + J}) (dram_cell (co_output a) (of_nat T)) W"
    by (rule wrote_Un [OF m _ inj]) (use ds_row_bounds(1) [OF br] in auto)
  moreover have "{..<?p} \<times> {..<J} \<union> {?p ..< ?p + n} \<times> {0 ..< 0 + J} = {..<(b * n + Suc r) * n} \<times> {..<J}" by (auto simp: algebra_simps)
  ultimately show ?thesis by simp
qed

section \<open>All rows\<close>

lemma foldO_append: "foldO f (xs @ ys) s = (case foldO f xs s of Some (Inr t) \<Rightarrow> foldO f ys t | r \<Rightarrow> r)"
  by (induction xs arbitrary: s) (auto split: option.split sum.split)

lemma foldO_upt:
  assumes "P 0 s" "\<And>i t. i < n \<Longrightarrow> P i t \<Longrightarrow> \<exists>u. f (g i) t = Some (Inr u) \<and> P (Suc i) u"
  shows "\<exists>u. foldO f (map g [0..<n]) s = Some (Inr u) \<and> P n u"
  using assms
proof (induction n)
  case (Suc n)
  then obtain t where t: "foldO f (map g [0..<n]) s = Some (Inr t)" "P n t" by auto
  then show ?case using Suc.prems(2) [of n t] by (auto simp: foldO_append)
qed simp

lemma counts_up: "counts (int n) 1 = map int [0..<n]" "counts (2 * int n) 2 = map (\<lambda>r. 2 * int r) [0..<n]"
proof -
  have "nat (2 * int n) = 2 * n" by simp
  then show "counts (int n) 1 = map int [0..<n]" "counts (2 * int n) 2 = map (\<lambda>r. 2 * int r) [0..<n]"
    by (simp_all add: counts_def steps_def)
qed

text \<open>The loop over the rows, for a type whose products are computed in states with \<open>R\<close>.\<close>

lemma ds_rows:
  fixes s :: "'m sim"
  assumes d: "ds_dims a B n K J S T V" and mem: "ds_memory M a B n K J S T V (mem s) X Q D W" and R: "R s"
    and mm: "\<And>m t P Q D W. mm_memory M m (mem t) P Q D W \<Longrightarrow> mm_plain m \<Longrightarrow> dims_ok m \<Longrightarrow>
      0 < mm_dim_I m \<Longrightarrow> 0 < mm_dim_J m \<Longrightarrow> 0 < mm_dim_K m \<Longrightarrow> R t \<Longrightarrow>
      \<exists>u. tiled_matmul_auto M m ty t = Some (Inr u) \<and> R u \<and>
        wrote M (mem t) (mem u) ({..<unat (mm_dim_I m)} \<times> {..<unat (mm_dim_J m)}) (dram_cell (mm_C m) (mm_stride_C m)) W"
  shows "\<exists>t. tiled_conv_downsample M a ty s = Some (Inr t) \<and> R t \<and>
    wrote M (mem s) (mem t) ({..<B * n * n} \<times> {..<J}) (dram_cell (co_output a) (of_nat T)) W"
proof -
  let ?out = "dram_cell (co_output a) (of_nat T)" and ?f = "\<lambda>b irow. tiled_matmul_auto M (downsample_args a b irow) ty"
  let ?P = "\<lambda>p t. R t \<and> wrote M (mem s) (mem t) ({..<p * n} \<times> {..<J}) ?out W"
  have pos: "0 < n" "0 < J" "0 < K" using d by (simp_all add: ds_dims_def)
  have row: "\<exists>u. ?f (int b) (2 * int r) t = Some (Inr u) \<and> ?P (b * n + Suc r) u" if br: "b < B" "r < n" and t: "?P (b * n + r) t" for b r t
  proof -
    have "{..<(b * n + r) * n} \<times> {..<J} \<subseteq> {..<B * n * n} \<times> {..<J}" using ds_row_bounds(1) [OF br] by auto
    then have "ds_memory M a B n K J S T V (mem t) X Q D W" using ds_memory_wrote [OF mem] t by blast
    note job = ds_row_memory [OF d this br] and plain = ds_row_plain [OF d br]
    have "0 < mm_dim_I (downsample_args a (int b) (2 * int r))" "0 < mm_dim_J (downsample_args a (int b) (2 * int r))" "0 < mm_dim_K (downsample_args a (int b) (2 * int r))"
      using plain(3-5) pos by (simp_all add: word_less_nat_alt)
    then obtain u where u: "?f (int b) (2 * int r) t = Some (Inr u)" "R u" "wrote M (mem t) (mem u) ({..<n} \<times> {..<J})
        (dram_cell (mm_C (downsample_args a (int b) (2 * int r))) (mm_stride_C (downsample_args a (int b) (2 * int r)))) (\<lambda>(i, j). W ((b * n + r) * n + i, j))"
      using mm [OF job plain(1,2)] t unfolding plain(3,4) by blast
    then show ?thesis using ds_row_wrote [OF d mem br _ u(3)] t by blast
  qed
  have image: "\<exists>u. foldO (?f (int b)) (counts (2 * int n) 2) t = Some (Inr u) \<and> ?P (Suc b * n) u" if "b < B" "?P (b * n) t" for b t
    unfolding counts_up using foldO_upt [where P = "\<lambda>r. ?P (b * n + r)" and f = "?f (int b)" and g = "\<lambda>r. 2 * int r" and n = n and s = t] row that
    by (simp add: add.commute)
  have "\<exists>u. foldO (\<lambda>b. foldO (?f b) (counts (2 * int n) 2)) (counts (int B) 1) s = Some (Inr u) \<and> ?P (B * n) u"
    unfolding counts_up(1) by (rule foldO_upt [where P = "\<lambda>b. ?P (b * n)"]) (use R image in auto)
  then show ?thesis using d by (simp add: tiled_conv_downsample_def ds_dims_def)
qed

section \<open>On the processor\<close>

lemma ds_pixel_reads:
  assumes d: "ds_dims a B n K J S T V" and mem: "ds_memory M a B n K J S T V m X Q D W"
    and p: "b < B" "r < n" "c < n" "k < K" "j < J"
  shows "conv_ipixel M a m (int b) (2 * int r) (2 * int c) (int k) = Inr (X (ds_src n ((b * n + r) * n + c)) k)"
    and "conv_weight M a m 0 0 (int k) (int j) = Inr (Q k j)"
    and "conv_bias M (co_bias a) m (int j) = Inr (D j)"
proof -
  note d' = d [unfolded ds_dims_def] and mm = mem [unfolded ds_memory_def Let_def]
  let ?q = "(b * (2 * n) + 2 * r) * (2 * n) + 2 * c"
  have q: "?q < B * (2 * n) * (2 * n)" using ds_row_bounds(2) [OF p(1,2)] p(3) by linarith
  then have "?q * S \<le> B * (2 * n) * (2 * n) * S" by (intro mult_le_mono1) simp
  then have o: "off (int (?q * S)) = of_nat (?q * S)" "off (int k) = of_nat k" "off (int j) = of_nat j"
    using d' p(4,5) by (intro off_nat; linarith)+
  have "(int b * int (2 * n) * int (2 * n) + 2 * int r * int (2 * n) + 2 * int c) * int S = int (?q * S)" by (simp add: algebra_simps)
  then have "conv_in_addr a (int b) (2 * int r) (2 * int c) (int k) = dram_cell (co_input a) (of_nat S) (?q, k)"
    using d' o by (simp add: conv_in_addr_def dram_cell_def)
  moreover have "mmu_load M m (dram_cell (co_input a) (of_nat S) (?q, k)) = Some (X ?q k)" using mm q p(4) by (simp add: operand_at_def)
  ultimately show "conv_ipixel M a m (int b) (2 * int r) (2 * int c) (int k) = Inr (X (ds_src n ((b * n + r) * n + c)) k)"
    using d' p by (simp add: conv_ipixel_def read_elem load_byte_def ds_src_at)
  have "k * V \<le> K * V" using p(4) by (intro mult_le_mono1) simp
  then have "off (int (k * V)) = of_nat (k * V)" using d' by (intro off_nat) linarith
  moreover have "mmu_load M m (dram_cell (co_weights a) (of_nat V) (k, j)) = Some (Q k j)" using mm p(4,5) by (simp add: operand_at_def)
  ultimately show "conv_weight M a m 0 0 (int k) (int j) = Inr (Q k j)"
    using d' o by (simp add: conv_weight_def read_elem load_byte_def dram_cell_def)
  show "conv_bias M (co_bias a) m (int j) = Inr (D j)" using mm p(5) o(3) by (auto simp: conv_bias_def)
qed

lemma ds_pixel:
  assumes d: "ds_dims a B n K J S T V" and mem: "ds_memory M a B n K J S T V m X Q D W"
    and p: "b < B" "r < n" "c < n" "j < J"
  shows "conv_pixel M a m (int b) (int r) (int c) (int j) = Inr (D j + (\<Sum>k<K. scast (X (ds_src n ((b * n + r) * n + c)) k) * scast (Q k j)))"
proof -
  note reads = ds_pixel_reads [OF d mem p(1-3) _ p(4)] and small = ds_small [OF d]
  let ?v = "\<lambda>k. D j + (\<Sum>k'<k. scast (X (ds_src n ((b * n + r) * n + c)) k') * scast (Q k' j)) :: acc_t"
  have at: "conv_at a (int x) 0 = 2 * int x" if "x < n" for x
    using d that small(2) to_i32_id [of "2 * int x"] by (simp add: conv_at_def ds_dims_def mult.commute)
  have t: "trunc_div (2 * int x) 1 = 2 * int x" for x by (simp add: trunc_div_def)
  have "forE K (\<lambda>kch opixel. bindE (conv_ipixel M a m (int b) (2 * int r) (2 * int c) (int kch)) (\<lambda>ipixel.
      bindE (conv_weight M a m 0 0 (int kch) (int j)) (\<lambda>weight. Inr (opixel + word_of_int (sint weight * sint ipixel))))) (?v 0) = Inr (?v K)"
    by (rule forE_value) (use reads in \<open>simp add: mult.commute\<close>)
  then have "conv_tap M a m (int b) (2 * int r) (2 * int c) 0 0 (int j) (D j) = Inr (?v K)"
    using d by (simp add: conv_tap_def ds_dims_def)
  moreover have "0 < K" using d by (simp add: ds_dims_def)
  then have "conv_bias M (co_bias a) m (int j) = Inr (D j)" using ds_pixel_reads(3) [OF d mem p(1-3) _ p(4)] by blast
  ultimately show ?thesis
    using d at [OF p(2)] at [OF p(3)]
    by (simp add: conv_pixel_def ds_dims_def forE_def t)
qed

text \<open>The pixels are written one after the other.\<close>

definition cells_upto :: "nat \<Rightarrow> nat \<Rightarrow> nat \<Rightarrow> (nat \<times> nat) set" where
  "cells_upto J p j = {..<p} \<times> {..<J} \<union> {p} \<times> {..<j}"

lemma cells_upto_next: "cells_upto J p J = cells_upto J (Suc p) 0" "cells_upto J p (Suc j) = cells_upto J p j \<union> {(p, j)}"
  by (auto simp: cells_upto_def less_Suc_eq)

lemma ds_cpu_step:
  assumes d: "ds_dims a B n K J S T V" and mem: "ds_memory M a B n K J S T V m X Q D W"
    and p: "b < B" "r < n" "c < n" "j < J"
    and m': "wrote M m m' (cells_upto J ((b * n + r) * n + c) j) (dram_cell (co_output a) (of_nat T)) W"
  shows "succeeds (bindE (conv_pixel M a m' (int b) (int r) (int c) (int j)) (\<lambda>opixel. bindE (scale_and_sat opixel (co_act a) (co_scale a) 0) (\<lambda>e.
      write_to_dram M (conv_out_addr a (int n) (int n) (int b) (int r) (int c) (int j)) e m')))
    (\<lambda>m''. wrote M m m'' (cells_upto J ((b * n + r) * n + c) (Suc j)) (dram_cell (co_output a) (of_nat T)) W)"
proof -
  let ?out = "dram_cell (co_output a) (of_nat T)" and ?U = "{..<B * n * n} \<times> {..<J}" and ?p = "(b * n + r) * n + c"
  have lt: "?p < B * n * n" using ds_row_bounds(1) [OF p(1,2)] p(3) by linarith
  then have sub: "cells_upto J ?p j \<subseteq> ?U" using p(4) by (auto simp: cells_upto_def)
  note mem' = ds_memory_wrote [OF mem m' sub]
  note mm = mem' [unfolded ds_memory_def Let_def]
  have "?p * T \<le> B * n * n * T" using lt by (intro mult_le_mono1) simp
  then have "off (int (?p * T)) = of_nat (?p * T)" "off (int j) = of_nat j"
    using d p(4) unfolding ds_dims_def by (intro off_nat; linarith)+
  moreover have "(int b * int n * int n + int r * int n + int c) * int T = int (?p * T)" by (simp add: algebra_simps)
  ultimately have addr: "conv_out_addr a (int n) (int n) (int b) (int r) (int c) (int j) = ?out (?p, j)"
    using d by (simp add: conv_out_addr_def dram_cell_def ds_dims_def)
  have "mmu_ok M" "inj_on ?out ?U" "writable M m (?out (?p, j))" "(?p, j) \<in> ?U"
    using mem lt p(4) by (auto simp: ds_memory_def Let_def target_at_def)
  then have "succeeds (write_to_dram M (?out (?p, j)) (W (?p, j)) m') (\<lambda>m''. wrote M m m'' (cells_upto J ?p (Suc j)) ?out W)"
    unfolding cells_upto_next(2) using write_next_cell [OF _ _ sub _ _ m'] by blast
  then show ?thesis using ds_pixel [OF d mem' p] mm lt p(4) by (simp add: addr)
qed

lemma ds_conv_cpu:
  assumes d: "ds_dims a B n K J S T V" and mem: "ds_memory M a B n K J S T V m X Q D W"
  shows "succeeds (conv_cpu M a m) (\<lambda>m'. wrote M m m' ({..<B * n * n} \<times> {..<J}) (dram_cell (co_output a) (of_nat T)) W)"
proof -
  let ?out = "dram_cell (co_output a) (of_nat T)"
  let ?P = "\<lambda>p j m'. wrote M m m' (cells_upto J p j) ?out W"
  define f where "f = (\<lambda>b r c j m. bindE (conv_pixel M a m (int b) (int r) (int c) (int j)) (\<lambda>opixel. bindE (scale_and_sat opixel (co_act a) (co_scale a) 0) (\<lambda>e.
      write_to_dram M (conv_out_addr a (int n) (int n) (int b) (int r) (int c) (int j)) e m)))"
  have step: "succeeds (f b r c j m') (?P ((b * n + r) * n + c) (Suc j))"
    if "b < B" "r < n" "c < n" "j < J" "?P ((b * n + r) * n + c) j m'" for b r c j m'
    unfolding f_def by (rule ds_cpu_step [OF d mem that])
  have pixel: "succeeds (forE J (f b r c) m') (?P ((b * n + r) * n + Suc c) 0)" if "b < B" "r < n" "c < n" "?P ((b * n + r) * n + c) 0 m'" for b r c m'
  proof -
    have "succeeds (forE J (f b r c) m') (?P ((b * n + r) * n + c) J)"
      by (rule forE_succeeds [where P = "?P ((b * n + r) * n + c)"]) (use that step in blast)+
    then show ?thesis by (simp add: cells_upto_next(1))
  qed
  have row: "succeeds (forE n (\<lambda>c. forE J (f b r c)) m') (?P ((b * n + Suc r) * n) 0)" if "b < B" "r < n" "?P ((b * n + r) * n) 0 m'" for b r m'
  proof -
    have "succeeds (forE n (\<lambda>c. forE J (f b r c)) m') (?P ((b * n + r) * n + n) 0)"
      by (rule forE_succeeds [where P = "\<lambda>c. ?P ((b * n + r) * n + c) 0"]) (use that pixel in simp_all)
    then show ?thesis by (simp add: add.commute)
  qed
  have image: "succeeds (forE n (\<lambda>r. forE n (\<lambda>c. forE J (f b r c))) m') (?P (Suc b * n * n) 0)" if "b < B" "?P (b * n * n) 0 m'" for b m'
  proof -
    have "succeeds (forE n (\<lambda>r. forE n (\<lambda>c. forE J (f b r c))) m') (?P ((b * n + n) * n) 0)"
      by (rule forE_succeeds [where P = "\<lambda>r. ?P ((b * n + r) * n) 0"]) (use that row in simp_all)
    then show ?thesis by (simp add: add.commute)
  qed
  have "succeeds (forE B (\<lambda>b. forE n (\<lambda>r. forE n (\<lambda>c. forE J (f b r c)))) m) (?P (B * n * n) 0)"
    by (rule forE_succeeds [where P = "\<lambda>b. ?P (b * n * n) 0"]) (use image in \<open>auto simp: cells_upto_def\<close>)
  moreover have "conv_cpu M a m = forE B (\<lambda>b. forE n (\<lambda>r. forE n (\<lambda>c. forE J (f b r c)))) m"
    using d by (simp add: conv_cpu_def conv_cpu_without_pool_def ds_dims_def f_def)
  ultimately show ?thesis by (simp add: cells_upto_def)
qed

end
