(* ===== verification/Conv_Properties.thy ===== *)
theory Conv_Properties
  imports Driver_Example Driver_Downsample_Correct
begin

text \<open>
  The properties of the convolutions: the choice of a tile and the instructions issued for it, pooling on
  the processor, and the downsampling convolution on the accelerator and on the processor.
\<close>

section \<open>The choice of a tile\<close>

text \<open>
  C13. The search for the tile of a convolution ends, whatever the sizes, as soon as a tile of one in
  every dimension fits: it returns a tile within the sizes of the convolution that fits half of the scratchpad and
  half of the accumulator, and in which no single size can be increased.
\<close>

theorem conv_tiling_ends:
  assumes "max_ok (conv_max_args (conv_unpooled a))" "co_input_dilation a \<noteq> 0"
    and "conv_fits (conv_rows (conv_unpooled a) (auto_downsample a)) (tile_of [1, 1, 1, 1, 1, 1, 1])"
  shows "\<exists>xs. conv_tiling a = Some (Inr (tile_of xs)) \<and> args_ok (conv_max_args (conv_unpooled a)) xs \<and>
    conv_fits (conv_rows (conv_unpooled a) (auto_downsample a)) (tile_of xs) \<and>
    (\<forall>i < 7. xs ! i < conv_max_args (conv_unpooled a) ! i \<longrightarrow>
      \<not> conv_fits (conv_rows (conv_unpooled a) (auto_downsample a)) (tile_of (xs[i := xs ! i + 1])))"
proof -
  have "replicate 7 1 = [1, 1, 1, 1, 1, 1, 1 :: int]" by (simp add: numeral_eq_Suc)
  then obtain xs where "conv_tiling a = Some (Inr (tile_of xs))" "tile_ok (conv_rows (conv_unpooled a) (auto_downsample a)) (conv_max_args (conv_unpooled a)) xs"
      "\<forall>i < 7. stuck (conv_rows (conv_unpooled a) (auto_downsample a)) (conv_max_args (conv_unpooled a)) xs i"
    using conv_choose_ends [OF assms(1), of "conv_rows (conv_unpooled a) (auto_downsample a)" "[3, 6]"] assms(2,3) by (auto simp: conv_tiling_def Let_def)
  then show ?thesis by (intro exI [of _ xs]) (auto simp: tile_ok_def stuck_def)
qed

text \<open>A convolution of the kind of a residual network: a kernel of 3 by 3 on 28 by 28 pixels, 128 channels in and out.\<close>

definition conv_example :: conv_args where
  "conv_example = \<lparr>co_batch_size = 1, co_in_row_dim = 28, co_in_col_dim = 28, co_in_channels = 128, co_out_channels = 128,
     co_out_row_dim = 28, co_out_col_dim = 28, co_stride = 1, co_input_dilation = 1, co_kernel_dilation = 1, co_padding = 1, co_kernel_dim = 3,
     co_in_stride = 128, co_weight_stride = 128, co_out_stride = 128, co_wrot180 = False, co_trans_output_1203 = False,
     co_trans_input_3120 = False, co_trans_weight_1203 = False, co_trans_weight_0132 = False, co_input = 0x10000, co_weights = 0x40000,
     co_bias = 0x80000, co_output = 0x90000, co_act = ACT_RELU, co_scale = ACC_SCALE_IDENTITY,
     co_pool_size = 0, co_pool_stride = 0, co_pool_padding = 0\<rparr>"

lemmas conv_sizes = conv_rows_def tiled_conv_total_spad_rows_def Let_def tile_of_def to_i32_def trunc_div_def per_bank_def DIM_def
  conv_fits_def BANK_NUM_def BANK_ROWS_def ACC_ROWS_def

lemma conv_example_unpooled: "conv_unpooled conv_example = conv_example\<lparr>co_pool_size := 1, co_pool_stride := 1, co_pool_padding := 0\<rparr>"
  by (simp add: conv_unpooled_def conv_example_def)

lemma conv_example_args: "conv_max_args (conv_unpooled conv_example) = [1, 28, 28, 128, 3, 3, 128]"
  unfolding conv_example_unpooled
  by (simp add: conv_max_args_def conv_pool_rows_def conv_pool_cols_def pool_out_dim_def trunc_div_def to_i32_def) (simp add: conv_example_def)

lemma conv_example_ok: "max_ok (conv_max_args (conv_unpooled conv_example))" "\<not> auto_downsample conv_example"
  "conv_fits (conv_rows (conv_unpooled conv_example) False) (tile_of [1, 1, 1, 1, 1, 1, 1])"
proof -
  show "max_ok (conv_max_args (conv_unpooled conv_example))" by (simp add: conv_example_args max_ok_set)
  show "\<not> auto_downsample conv_example" by (simp add: auto_downsample_def conv_example_def)
  show "conv_fits (conv_rows (conv_unpooled conv_example) False) (tile_of [1, 1, 1, 1, 1, 1, 1])"
    unfolding conv_example_unpooled by (simp add: conv_sizes) (simp add: conv_example_def)
qed

theorem conv_tiling_ends_witness:
  "\<exists>xs. conv_tiling conv_example = Some (Inr (tile_of xs)) \<and> length xs = 7 \<and> conv_fits (conv_rows (conv_unpooled conv_example) False) (tile_of xs)"
  using conv_tiling_ends [of conv_example] conv_example_ok by (auto simp: conv_example_def args_ok_def)

text \<open>
  C14. A convolution that \<open>tiled_conv\<close> supports is issued with the tile that \<open>tiled_conv_stride_auto\<close> chooses: no check
  on the tile fails, no loop over tiles runs forever, and the accelerator gets two configurations and the
  seven instructions of one hardware loop for every tile. The search must agree with \<open>tiled_conv\<close> about downsampling.
\<close>

theorem conv_auto_issues:
  fixes s :: "'m sim"
  assumes "max_ok (conv_max_args (conv_unpooled a))" "conv_supported a"
    and "conv_fits (conv_rows (conv_unpooled a) (auto_downsample a)) (tile_of [1, 1, 1, 1, 1, 1, 1])"
    and "auto_downsample a \<longrightarrow> co_input_dilation a = 1 \<and> \<not> co_trans_input_3120 a"
  shows "\<exists>t ops. conv_tiling a = Some (Inr t) \<and> conv_ops (conv_unpooled a) t (conv_flags_of a) = Inr ops \<and>
    length ops = 2 + 7 * length (conv_positions (conv_unpooled a) t) \<and>
    tiled_conv_stride_auto M a TM_WS s = Some (run_ops M ops s)"
proof -
  have ds: "cf_downsample (conv_flags_of a) = auto_downsample a"
    using assms(4) by (auto simp: conv_flags_of_def conv_downsample_def auto_downsample_def)
  have "replicate 7 1 = [1, 1, 1, 1, 1, 1, 1 :: int]" by (simp add: numeral_eq_Suc)
  then obtain xs where xs: "conv_tiling a = Some (Inr (tile_of xs))"
      "tile_ok (conv_rows (conv_unpooled a) (cf_downsample (conv_flags_of a))) (conv_max_args (conv_unpooled a)) xs"
    using conv_choose_ends [OF assms(1), of "conv_rows (conv_unpooled a) (auto_downsample a)" "[3, 6]"] assms(2,3) ds
    by (auto simp: conv_tiling_def conv_supported_def Let_def)
  obtain ops where ops: "conv_ops (conv_unpooled a) (tile_of xs) (conv_flags_of a) = Inr ops"
      "length ops = 2 + 7 * length (conv_positions (conv_unpooled a) (tile_of xs))"
    using conv_ops_issued [OF assms(1,2) xs(2)] by blast
  let ?a = "if co_pool_stride a = 0 then (conv_unpooled a)\<lparr>co_pool_stride := 0\<rparr> else a"
  have "\<not> (co_trans_weight_1203 ?a \<and> co_trans_weight_0132 ?a)" using assms(2) by (auto simp: conv_supported_def conv_unpooled_def)
  then have "tiled_conv M ?a (tile_of xs) TM_WS s = run_ops M ops s"
    using tiled_conv_ws [of ?a M "tile_of xs" s] unfolding unpooled_again ops(1) by simp
  then show ?thesis using xs(1) ops by (auto simp: tiled_conv_stride_auto_def)
qed

theorem conv_auto_issues_witness:
  "\<exists>t ops. conv_tiling conv_example = Some (Inr t) \<and> length ops = 2 + 7 * length (conv_positions (conv_unpooled conv_example) t) \<and>
    tiled_conv_stride_auto ram conv_example TM_WS (ready ones_and_fives) = Some (run_ops ram ops (ready ones_and_fives))"
proof -
  have "conv_supported conv_example" by (simp add: conv_supported_def conv_example_def)
  then show ?thesis using conv_auto_issues [of conv_example ram "ready ones_and_fives"] conv_example_ok by auto
qed

text \<open>
  C31. The search decides about downsampling without looking at the layout of the input, \<open>tiled_conv\<close> does: a
  convolution with a transposed input that fits as a whole when it is downsampled, and does not when it is not, ends the
  program, although smaller tiles would fit.
\<close>

theorem conv_transposed_rejected:
  fixes s :: "'m sim"
  assumes "max_ok (conv_max_args (conv_unpooled a))" "co_input_dilation a \<noteq> 0" "auto_downsample a" "co_trans_input_3120 a"
    and "conv_fits (conv_rows (conv_unpooled a) True) (tile_of (conv_max_args (conv_unpooled a)))"
    and "int (BANK_NUM * BANK_ROWS div 2) < conv_rows (conv_unpooled a) False False (tile_of (conv_max_args (conv_unpooled a)))"
  shows "tiled_conv_stride_auto M a TM_WS s = Some (Inl ExitFailure)"
proof -
  let ?m = "conv_max_args (conv_unpooled a)" and ?rows = "conv_rows (conv_unpooled a) True"
  have ok: "tile_ok ?rows ?m ?m" using assms(1,5) by (simp add: tile_ok_def args_ok_def max_ok_def)
  have g: "grow_arg ?rows ?m ?m i = (False, ?m)" if "i < 7" for i
    using assms(1) ok that
  proof (cases rule: grow_arg_cases)
    case grown
    have "length ?m = 7" using assms(1) by (simp add: max_ok_def)
    then show ?thesis using grown(2) that by (auto simp: tile_ok_def args_ok_def dest!: spec [of _ i])
  qed simp
  have "foldl (\<lambda>(nothing_increased, xs) i. let (increased, ys) = grow_arg ?rows ?m xs i in (nothing_increased \<and> \<not> increased, ys)) (True, ?m) [0..<n] = (True, ?m)"
    if "n \<le> 7" for n using that by (induction n) (simp_all add: g)
  then have "conv_grow_round ?rows ?m ?m = (True, ?m)" by (simp add: conv_grow_round_def)
  then have "conv_tiling a = Some (Inr (tile_of ?m))"
    using assms(2,3,5) g [of 2] by (simp add: conv_tiling_def Let_def conv_choose_def conv_shrink.simps conv_grow_cols.simps conv_grow.simps)
  moreover have "conv_ops (conv_unpooled a) (tile_of ?m) (conv_flags_of a) = Inl ExitFailure"
    using assms(2,4,6) by (simp add: conv_ops_def conv_check_def conv_flags_of_def conv_downsample_def)
  ultimately show ?thesis by (simp add: tiled_conv_stride_auto_def tiled_conv_def unpooled_again)
qed

definition conv_transposed :: conv_args where
  "conv_transposed = conv_example\<lparr>co_in_row_dim := 32, co_in_col_dim := 32, co_in_channels := 16, co_out_channels := 16, co_out_row_dim := 16,
     co_out_col_dim := 16, co_stride := 2, co_padding := 0, co_kernel_dim := 1, co_trans_input_3120 := True\<rparr>"

theorem conv_transposed_rejected_witness:
  "tiled_conv_stride_auto ram conv_transposed TM_WS (ready ones_and_fives) = Some (Inl ExitFailure)"
proof -
  have u: "conv_unpooled conv_transposed = conv_transposed\<lparr>co_pool_size := 1, co_pool_stride := 1, co_pool_padding := 0\<rparr>"
    by (simp add: conv_unpooled_def conv_transposed_def conv_example_def)
  have m: "conv_max_args (conv_unpooled conv_transposed) = [1, 16, 16, 16, 1, 1, 16]" unfolding u
    by (simp add: conv_max_args_def conv_pool_rows_def conv_pool_cols_def pool_out_dim_def trunc_div_def to_i32_def) (simp add: conv_transposed_def conv_example_def)
  have "conv_rows (conv_unpooled conv_transposed) ds False (tile_of [1, 16, 16, 16, 1, 1, 16]) = (if ds then 4112 else 16400)" for ds
    unfolding u by (simp add: conv_sizes) (simp add: conv_transposed_def conv_example_def)
  moreover have "conv_rows (conv_unpooled conv_transposed) True True (tile_of [1, 16, 16, 16, 1, 1, 16]) = 256"
    unfolding u by (simp add: conv_sizes)
  ultimately show ?thesis
    using conv_transposed_rejected [of conv_transposed ram "ready ones_and_fives"] unfolding m
    by (simp add: conv_fits_def BANK_NUM_def BANK_ROWS_def ACC_ROWS_def max_ok_set)
      (simp add: conv_transposed_def conv_example_def auto_downsample_def)
qed

section \<open>Pooling on the processor\<close>

text \<open>
  C15. On the processor \<open>tiled_conv\<close> computes a pooling window of one pixel, stepped by one and without padding, as a
  convolution without pooling. The shortcut does not change the result: in every case the memory is the one that
  \<open>conv_cpu\<close> leaves with the arguments as given, errors included.
\<close>

lemma conv_pixel_pool_stride [simp]: "conv_pixel M (a\<lparr>co_pool_stride := x\<rparr>) = conv_pixel M a"
  by (simp add: fun_eq_iff conv_pixel_def conv_tap_def conv_ipixel_def conv_in_addr_def conv_weight_def conv_at_def Let_def cong: if_cong)

lemma conv_out_pool_stride [simp]: "conv_out_addr (a\<lparr>co_pool_stride := x\<rparr>) = conv_out_addr a"
  by (simp add: fun_eq_iff conv_out_addr_def)

theorem conv_pool_shortcut:
  fixes s :: "'m sim"
  assumes "\<not> (co_trans_weight_1203 a \<and> co_trans_weight_0132 a)"
    and "- (2 ^ 31) < co_out_row_dim a" "co_out_row_dim a < 2 ^ 31" "- (2 ^ 31) < co_out_col_dim a" "co_out_col_dim a < 2 ^ 31"
  shows "tiled_conv M a t TM_CPU s = bindE (conv_cpu M a (mem s)) (\<lambda>m. Inr (s\<lparr>mem := m\<rparr>))"
proof -
  have "conv_cpu_without_pool M (a\<lparr>co_pool_stride := 0\<rparr>) m = conv_cpu_without_pool M a m" for m by (simp add: conv_cpu_without_pool_def)
  then have "conv_cpu M (a\<lparr>co_pool_stride := 0\<rparr>) m = conv_cpu M a m" if "co_pool_size a = 1" "co_pool_stride a = 1" "co_pool_padding a = 0" for m
    using conv_cpu_pool_one [OF that assms(2-5), of M m] by (simp add: conv_cpu_def [of M "a\<lparr>co_pool_stride := 0\<rparr>"])
  then show ?thesis using assms(1) by (auto simp: tiled_conv_def Let_def)
qed

theorem conv_pool_shortcut_witness:
  "tiled_conv ram (conv_example\<lparr>co_pool_size := 1, co_pool_stride := 1\<rparr>) (tile_of [1, 1, 1, 1, 1, 1, 1]) TM_CPU (ready ones_and_fives) =
    bindE (conv_cpu ram (conv_example\<lparr>co_pool_size := 1, co_pool_stride := 1\<rparr>) ones_and_fives) (\<lambda>m. Inr ((ready ones_and_fives)\<lparr>mem := m\<rparr>))"
proof -
  have m: "mem (ready ones_and_fives) = ones_and_fives" by simp
  show ?thesis
    using conv_pool_shortcut [of "conv_example\<lparr>co_pool_size := 1, co_pool_stride := 1\<rparr>" ram "tile_of [1, 1, 1, 1, 1, 1, 1]" "ready ones_and_fives"]
    unfolding m by (simp add: conv_example_def)
qed

section \<open>Downsampling\<close>

text \<open>
  C3. The downsampling convolution (kernel of one pixel, stride of two, no padding), which the driver cuts into one
  matrix multiplication per row of the output: on the accelerator and on the processor it leaves exactly the bytes in memory
  that the convolution \<open>conv_cpu\<close> leaves, which are the scaled and activated sums over the channels.
\<close>

theorem downsample_agrees:
  fixes s :: "'m sim"
  assumes d: "ds_dims a B n K J S T V" and mem: "ds_memory M a B n K J S T V (mem s) X Q D W"
    and s: "wf_state s" "unat (norm_stat_id (norm_st s)) < 4" "acc_act s \<noteq> SOFTMAX"
  shows "\<exists>t u v. tiled_conv_downsample M a TM_WS s = Some (Inr t) \<and> tiled_conv_downsample M a TM_CPU s = Some (Inr u) \<and>
    conv_cpu M a (mem s) = Inr v \<and> mmu_load M (mem t) = mmu_load M v \<and> mmu_load M (mem u) = mmu_load M v \<and>
    wrote M (mem s) v ({..<B * n * n} \<times> {..<J}) (dram_cell (co_output a) (of_nat T)) W"
proof -
  let ?R = "\<lambda>t. wf_state t \<and> unat (norm_stat_id (norm_st t)) < 4 \<and> acc_act t \<noteq> SOFTMAX"
  have ws: "\<exists>u. tiled_matmul_auto M m TM_WS t = Some (Inr u) \<and> ?R u \<and>
      wrote M (mem t) (mem u) ({..<unat (mm_dim_I m)} \<times> {..<unat (mm_dim_J m)}) (dram_cell (mm_C m) (mm_stride_C m)) W"
    if "mm_memory M m (mem t) P Q D W" "mm_plain m" "dims_ok m" "0 < mm_dim_I m" "0 < mm_dim_J m" "0 < mm_dim_K m" "?R t" for m t P Q D W
    using matmul_auto_multiplies(1) [OF that(1-6)] that(7) by (fastforce simp: mm_configured_def)
  have "\<exists>t. tiled_conv_downsample M a TM_WS s = Some (Inr t) \<and> ?R t \<and>
      wrote M (mem s) (mem t) ({..<B * n * n} \<times> {..<J}) (dram_cell (co_output a) (of_nat T)) W"
    by (rule ds_rows [OF d mem, where R = ?R]) (use s in blast, rule ws)
  then obtain t where t: "tiled_conv_downsample M a TM_WS s = Some (Inr t)"
      "wrote M (mem s) (mem t) ({..<B * n * n} \<times> {..<J}) (dram_cell (co_output a) (of_nat T)) W" by blast
  have "\<exists>t. tiled_conv_downsample M a TM_CPU s = Some (Inr t) \<and> True \<and>
      wrote M (mem s) (mem t) ({..<B * n * n} \<times> {..<J}) (dram_cell (co_output a) (of_nat T)) W"
    by (rule ds_rows [OF d mem, where R = "\<lambda>_. True"]) (use matmul_auto_multiplies(2) in fastforce)+
  then obtain u where u: "tiled_conv_downsample M a TM_CPU s = Some (Inr u)"
      "wrote M (mem s) (mem u) ({..<B * n * n} \<times> {..<J}) (dram_cell (co_output a) (of_nat T)) W" by blast
  obtain v where v: "conv_cpu M a (mem s) = Inr v" "wrote M (mem s) v ({..<B * n * n} \<times> {..<J}) (dram_cell (co_output a) (of_nat T)) W"
    using ds_conv_cpu [OF d mem] by (auto simp: succeeds_iff)
  show ?thesis using t(1) u(1) v wrote_same_load [OF t(2) v(2)] wrote_same_load [OF u(2) v(2)] by blast
qed

text \<open>Two images of 6 by 6 pixels with 5 channels of ones, weights of one and a bias of five: every output byte becomes ten.\<close>

definition downsample_example :: conv_args where
  "downsample_example = conv_example\<lparr>co_batch_size := 2, co_in_row_dim := 6, co_in_col_dim := 6, co_in_channels := 5, co_out_channels := 4,
     co_out_row_dim := 3, co_out_col_dim := 3, co_stride := 2, co_padding := 0, co_kernel_dim := 1, co_in_stride := 8, co_weight_stride := 4,
     co_out_stride := 4, co_input := 0x1000, co_weights := 0x2000, co_bias := 0x4000, co_output := 0x3000\<rparr>"

lemma downsample_example_dims: "ds_dims downsample_example 2 3 5 4 8 4 4"
  by (simp add: ds_dims_def downsample_example_def conv_example_def)

lemma ones_operand:
  assumes "base \<noteq> 0" "unat base + rows * unat stride + cols \<le> 0x4000"
  shows "operand_at ram ones_and_fives base stride rows cols (\<lambda>_ _. 1)"
  using ones_at [OF assms] by (auto simp: scaled_at_def mvin_scale_one operand_at_def)

lemma downsample_example_memory:
  "ds_memory ram downsample_example 2 3 5 4 8 4 4 ones_and_fives (\<lambda>_ _. 1) (\<lambda>_ _. 1) (\<lambda>_. 5) (\<lambda>_. 10)"
proof -
  have c: "unat (dram_cell 0x3000 4 (p, j)) = 0x3000 + p * 4 + j" if "p < 18" "j < 4" for p j
    using dram_cell_unat [of "0x3000" p 4 j] that by simp
  have nz: "dram_cell 0x3000 4 (p, j) \<noteq> 0" if "p < 18" "j < 4" for p j using c [OF that] by (metis add_is_0 unat_0 zero_neq_numeral)
  have ap: "(0x4000 :: u64) + of_nat j * 4 + of_nat b \<notin> dram_cell 0x3000 4 ` ({..<18} \<times> {..<4})" if "j < 4" "b < 4" for j b
    using fives_bias(2) [of 0 1 4 0 j b] c that by fastforce
  have b: "(0x4000 :: u64) + of_nat j * 4 \<noteq> 0 \<and> read_from_dram ram ones_and_fives (0x4000 + of_nat j * 4) = (Inr 5 :: acc_t res)" if "j < 4" for j
    using fives_bias(1) [of 0 1 4 0] that by (simp add: bias_at_def mvin_acc_value_def Let_def)
  have out: "scale_and_sat 10 ACT_RELU ACC_SCALE_IDENTITY 0 = Inr 10"
  proof -
    have a: "mm_act (downsample_args downsample_example (int 0) (2 * int 0)) = ACT_RELU" "mm_scale (downsample_args downsample_example (int 0) (2 * int 0)) = ACC_SCALE_IDENTITY"
      by (simp_all add: downsample_args_def Let_def downsample_example_def conv_example_def)
    have "mm_plain (downsample_args downsample_example (int 0) (2 * int 0))" by (rule ds_row_plain(1) [OF downsample_example_dims]) simp_all
    from scale_and_sat_plain [OF this, of 10 0] show ?thesis
      unfolding a by (simp add: mm_out_def mm_relu_def a [simplified] acc_scale_one apply_activation_def saturate_elem_def elem_t_max_def elem_t_min_def)
  qed
  show ?thesis
    unfolding ds_memory_def Let_def
    using ones_operand [of "0x1000" 72 8 5] ones_operand [of "0x2000" 5 4 4] target_at_ram [of 4 4 18 ones_and_fives "0x3000"]
      cells_apart_below [of "0x3000" 18 4 4 "0x1000" 72 8 5] cells_apart_below [of "0x3000" 18 4 4 "0x2000" 5 4 4] nz ap b out
    by (simp add: downsample_example_def conv_example_def ram_ok)
qed

theorem downsample_agrees_witness:
  "\<exists>t v. tiled_conv_downsample ram downsample_example TM_WS (ready ones_and_fives) = Some (Inr t) \<and>
    conv_cpu ram downsample_example ones_and_fives = Inr v \<and> mem t = v \<and> v 0x3000 = 10 \<and> v 0x3047 = 10"
proof -
  have r: "mem (ready ones_and_fives) = ones_and_fives" "wf_state (ready ones_and_fives)" "unat (norm_stat_id (norm_st (ready ones_and_fives))) < 4"
    "acc_act (ready ones_and_fives) \<noteq> SOFTMAX" by (simp_all add: ready_wf)
  obtain t v where t: "tiled_conv_downsample ram downsample_example TM_WS (ready ones_and_fives) = Some (Inr t)" "conv_cpu ram downsample_example ones_and_fives = Inr v"
      "mmu_load ram (mem t) = mmu_load ram v" "wrote ram ones_and_fives v ({..<18} \<times> {..<4}) (dram_cell 0x3000 4) (\<lambda>_. 10)"
    using downsample_agrees [OF downsample_example_dims, of ram "ready ones_and_fives" "\<lambda>_ _. 1" "\<lambda>_ _. 1" "\<lambda>_. 5" "\<lambda>_. 10"] downsample_example_memory r
    by (auto simp: downsample_example_def)
  have "mmu_load ram v (dram_cell 0x3000 4 (0, 0)) = Some 10" "mmu_load ram v (dram_cell 0x3000 4 (17, 3)) = Some 10" using t(4) by (simp_all add: wrote_def)
  moreover have "mem t = v" using t(3) by (simp add: ram_def fun_eq_iff)
  ultimately show ?thesis using t(1,2) by (simp add: ram_def dram_cell_def)
qed

end
