(* ===== verification/Test_Utils.thy ===== *)
theory Test_Utils
  imports Driver_Conv_Cpu
begin

text \<open>
  The utilities of the test programs (\<open>gemmini_testutils.h\<close>): reference products of one tile in the
  three precisions and for all transpositions, element-wise operations on a tile, comparison, and the
  generator of test data. A tile is an array of \<open>DIM\<close> by \<open>DIM\<close> elements in memory.
\<close>

type_synonym full_t = "64 word"

section \<open>Tiles\<close>

text \<open>\<open>&p[i][j]\<close> for a tile of elements of the given width.\<close>

definition cell :: "nat \<Rightarrow> u64 \<Rightarrow> nat \<Rightarrow> nat \<Rightarrow> u64" where
  "cell n p i j = p + of_nat ((i * DIM + j) * n)"

definition each_cell :: "(nat \<Rightarrow> nat \<Rightarrow> 'm \<Rightarrow> 'm res) \<Rightarrow> 'm \<Rightarrow> 'm res" where
  "each_cell f m = forE DIM (\<lambda>r. forE DIM (f r)) m"

section \<open>Products\<close>

type_synonym 'm tile_op = "'m mmu \<Rightarrow> u64 \<Rightarrow> u64 \<Rightarrow> u64 \<Rightarrow> u64 \<Rightarrow> 'm \<Rightarrow> 'm res"

text \<open>
  \<open>C[r][c] = D[r][c]\<close> and \<open>C[r][c] += x * y\<close> over the inner dimension, for a bias and a result of any
  width; \<open>x\<close> and \<open>y\<close> are where the factors stand.
\<close>

definition tile_product ::
  "'d::len itself \<Rightarrow> 'c::len itself \<Rightarrow> 'm mmu \<Rightarrow> (nat \<Rightarrow> nat \<Rightarrow> u64) \<Rightarrow> (nat \<Rightarrow> nat \<Rightarrow> u64) \<Rightarrow> u64 \<Rightarrow> u64 \<Rightarrow> 'm \<Rightarrow> 'm res" where
  "tile_product _ _ M x y D C = each_cell (\<lambda>r c m.
     let dst = cell (bytes_of TYPE('c)) C r c in
     bindE (read_from_dram M m (cell (bytes_of TYPE('d)) D r c)) (\<lambda>d :: 'd word.
     bindE (write_to_dram M dst (scast d :: 'c word) m)
     (forE DIM (\<lambda>k m.
       bindE (load_byte M m (x r k)) (\<lambda>a.
       bindE (load_byte M m (y k c)) (\<lambda>b.
       bindE (read_from_dram M m dst) (\<lambda>v :: 'c word.
       write_to_dram M dst (v + word_of_int (sint a * sint b)) m)))))))"

definition matmul :: "'m tile_op" where
  "matmul M A B D C = tile_product TYPE(8) TYPE(64) M (cell 1 A) (cell 1 B) D C"

definition matmul_short :: "'m tile_op" where
  "matmul_short M A B D C = tile_product TYPE(8) TYPE(8) M (cell 1 A) (cell 1 B) D C"

definition matmul_full :: "'m tile_op" where
  "matmul_full M A B D C = tile_product TYPE(64) TYPE(64) M (cell 1 A) (cell 1 B) D C"

definition matmul_A_transposed :: "'m tile_op" where
  "matmul_A_transposed M A B D C = tile_product TYPE(8) TYPE(64) M (\<lambda>r k. cell 1 A k r) (cell 1 B) D C"

definition matmul_short_A_transposed :: "'m tile_op" where
  "matmul_short_A_transposed M A B D C = tile_product TYPE(8) TYPE(8) M (\<lambda>r k. cell 1 A k r) (cell 1 B) D C"

definition matmul_full_A_transposed :: "'m tile_op" where
  "matmul_full_A_transposed M A B D C = tile_product TYPE(64) TYPE(64) M (\<lambda>r k. cell 1 A k r) (cell 1 B) D C"

definition matmul_B_transposed :: "'m tile_op" where
  "matmul_B_transposed M A B D C = tile_product TYPE(8) TYPE(64) M (cell 1 A) (\<lambda>k c. cell 1 B c k) D C"

definition matmul_short_B_transposed :: "'m tile_op" where
  "matmul_short_B_transposed M A B D C = tile_product TYPE(8) TYPE(8) M (cell 1 A) (\<lambda>k c. cell 1 B c k) D C"

definition matmul_full_B_transposed :: "'m tile_op" where
  "matmul_full_B_transposed M A B D C = tile_product TYPE(64) TYPE(64) M (cell 1 A) (\<lambda>k c. cell 1 B c k) D C"

definition matmul_AB_transposed :: "'m tile_op" where
  "matmul_AB_transposed M A B D C = tile_product TYPE(8) TYPE(64) M (\<lambda>r k. cell 1 A k r) (\<lambda>k c. cell 1 B c k) D C"

definition matmul_short_AB_transposed :: "'m tile_op" where
  "matmul_short_AB_transposed M A B D C = tile_product TYPE(8) TYPE(8) M (\<lambda>r k. cell 1 A k r) (\<lambda>k c. cell 1 B c k) D C"

definition matmul_full_AB_transposed :: "'m tile_op" where
  "matmul_full_AB_transposed M A B D C = tile_product TYPE(64) TYPE(64) M (\<lambda>r k. cell 1 A k r) (\<lambda>k c. cell 1 B c k) D C"

section \<open>Element-wise operations\<close>

definition matadd :: "'m mmu \<Rightarrow> u64 \<Rightarrow> u64 \<Rightarrow> u64 \<Rightarrow> 'm \<Rightarrow> 'm res" where
  "matadd M out m1 m2 = each_cell (\<lambda>r c m.
     bindE (read_from_dram M m (cell 8 m1 r c)) (\<lambda>x :: full_t.
     bindE (read_from_dram M m (cell 8 m2 r c)) (\<lambda>y.
     write_to_dram M (cell 8 out r c) (x + y) m)))"

text \<open>The saturating cast of a \<open>full_t\<close>.\<close>

definition saturate_full :: "int \<Rightarrow> elem_t" where
  "saturate_full x = word_of_int (if elem_t_max < x then elem_t_max else if x < elem_t_min then elem_t_min else x)"

text \<open>The macro shifts a 32-bit 1 by one place less, so that 32 is already too far to the right.\<close>

definition matshift :: "'m mmu \<Rightarrow> u64 \<Rightarrow> u64 \<Rightarrow> int \<Rightarrow> 'm \<Rightarrow> 'm res" where
  "matshift M full out shift = each_cell (\<lambda>r c m.
     bindE (read_from_dram M m (cell 8 full r c)) (\<lambda>x :: full_t.
     if shift \<le> - 64 \<or> 32 \<le> shift then Inl Undefined
     else let shifted = (if 0 < shift then ROUNDING_RIGHT_SHIFT (sint x) (nat shift) else sint (push_bit (nat (- shift)) x)) in
       store_byte M m (cell 1 out r c) (saturate_full shifted)))"

definition matscale :: "'m mmu \<Rightarrow> u64 \<Rightarrow> u64 \<Rightarrow> f32 \<Rightarrow> 'm \<Rightarrow> 'm res" where
  "matscale M full out scale = each_cell (\<lambda>r c m.
     bindE (read_from_dram M m (cell 8 full r c)) (\<lambda>x :: full_t.
     bindE (ACC_SCALE (sint x) scale) (\<lambda>scaled.
     store_byte M m (cell 1 out r c) (saturate_full scaled))))"

definition matrelu :: "'m mmu \<Rightarrow> u64 \<Rightarrow> u64 \<Rightarrow> 'm \<Rightarrow> 'm res" where
  "matrelu M inp out = each_cell (\<lambda>r c m.
     bindE (load_byte M m (cell 1 inp r c)) (\<lambda>x. store_byte M m (cell 1 out r c) (if 0 < sint x then x else 0)))"

definition transpose_tile :: "'m mmu \<Rightarrow> u64 \<Rightarrow> u64 \<Rightarrow> 'm \<Rightarrow> 'm res" where
  "transpose_tile M inp out = each_cell (\<lambda>r c m.
     bindE (load_byte M m (cell 1 inp r c)) (\<lambda>x. store_byte M m (cell 1 out c r) x))"

section \<open>Test data and comparison\<close>

text \<open>The static variable of \<open>rand\<close> is its state.\<close>

definition rand :: "u32 \<Rightarrow> int \<times> u32" where
  "rand x = (let x = x * 1664525 + 1013904223 in (uint (drop_bit 24 x), x))"

text \<open>A search for two cells that differ: it ends at the first (\<open>return 0\<close>).\<close>

definition cells_equal :: "'m mmu \<Rightarrow> (nat \<Rightarrow> nat \<Rightarrow> u64) \<Rightarrow> (nat \<Rightarrow> nat \<Rightarrow> u64) \<Rightarrow> nat \<Rightarrow> nat \<Rightarrow> 'm \<Rightarrow> bool res" where
  "cells_equal M x y rows cols m =
     forE rows (\<lambda>i. forE cols (\<lambda>j equal.
       if \<not> equal then Inr False
       else bindE (load_byte M m (x i j)) (\<lambda>a. bindE (load_byte M m (y i j)) (\<lambda>b. Inr (a = b))))) True"

definition is_equal :: "'m mmu \<Rightarrow> u64 \<Rightarrow> u64 \<Rightarrow> 'm \<Rightarrow> bool res" where
  "is_equal M x y = cells_equal M (cell 1 x) (cell 1 y) DIM DIM"

definition is_equal_transposed :: "'m mmu \<Rightarrow> u64 \<Rightarrow> u64 \<Rightarrow> 'm \<Rightarrow> bool res" where
  "is_equal_transposed M x y = cells_equal M (cell 1 x) (\<lambda>i j. cell 1 y j i) DIM DIM"

text \<open>\<open>MAT_IS_EQUAL\<close>: the \<open>break\<close> ends the row and not the search.\<close>

definition MAT_IS_EQUAL :: "'m mmu \<Rightarrow> (nat \<Rightarrow> nat \<Rightarrow> u64) \<Rightarrow> (nat \<Rightarrow> nat \<Rightarrow> u64) \<Rightarrow> nat \<Rightarrow> nat \<Rightarrow> 'm \<Rightarrow> bool res" where
  "MAT_IS_EQUAL M x y dim_i dim_j m =
     forE dim_i (\<lambda>i result.
       bindE (forE dim_j (\<lambda>j equal.
         if \<not> equal then Inr False
         else bindE (load_byte M m (x i j)) (\<lambda>a. bindE (load_byte M m (y i j)) (\<lambda>b. Inr (a = b)))) True) (\<lambda>row.
       Inr (result \<and> row))) True"

end
