(* ===== verification/Nn_Layers.thy ===== *)
theory Nn_Layers
  imports Driver_Conv Test_Utils
begin

text \<open>
  The library of network layers (\<open>gemmini_nn.h\<close>): matrix multiplications that check themselves against
  the processor, depthwise convolution, the unrolling of a convolution into a matrix (\<open>im2col\<close>), residual additions
  and pooling, each for a tensor and for the matrix that a product leaves behind (\<open>col2im\<close>). An array with
  dimensions of type \<open>size_t\<close> is indexed in 64-bit words.
\<close>

section \<open>Parameters of a layer\<close>

record ConvParams =
  cp_batch_size :: int
  cp_in_row_dim :: int
  cp_in_col_dim :: int
  cp_out_row_dim :: int
  cp_out_col_dim :: int
  cp_kernel_size :: int
  cp_in_channels :: int
  cp_out_channels :: int
  cp_in_stride :: int
  cp_weight_stride :: int
  cp_out_stride :: int
  cp_stride :: int
  cp_padding :: int
  cp_bias :: bool
  cp_depthwise :: bool
  cp_n_patches :: int
  cp_patch_size :: int
  cp_output_scale :: f32
  cp_res_scale :: f32
  cp_pool_size :: int
  cp_pool_stride :: int
  cp_pool_padding :: int
  cp_out_dim_pooled :: int
  cp_I :: int
  cp_J :: int
  cp_K :: int

record FcParams =
  fc_batch_size :: int
  fc_in_features :: int
  fc_out_features :: int
  fc_output_scale :: f32
  fc_bias :: bool
  fc_I :: int
  fc_J :: int
  fc_K :: int

section \<open>Matrix multiplications\<close>

text \<open>Sequencing of computations that may not return.\<close>

fun bindO :: "'a res option \<Rightarrow> ('a \<Rightarrow> 'b res option) \<Rightarrow> 'b res option" where
  "bindO None f = None"
| "bindO (Some (Inl e)) f = Some (Inl e)"
| "bindO (Some (Inr x)) f = f x"

definition nn_args :: "u64 \<Rightarrow> u64 \<Rightarrow> u64 \<Rightarrow> u64 \<Rightarrow> u64 \<Rightarrow> u64 \<Rightarrow> u64 \<Rightarrow> int \<Rightarrow> f32 \<Rightarrow> bool \<Rightarrow> matmul_args" where
  "nn_args dim_I dim_J dim_K A B D C act scale repeating_bias = \<lparr>
     mm_dim_I = dim_I, mm_dim_J = dim_J, mm_dim_K = dim_K, mm_A = A, mm_B = B, mm_D = D, mm_C = C,
     mm_stride_A = dim_K, mm_stride_B = dim_J, mm_stride_D = dim_J, mm_stride_C = dim_J,
     mm_A_scale = MVIN_SCALE_IDENTITY, mm_B_scale = MVIN_SCALE_IDENTITY, mm_D_scale = 1, mm_act = act, mm_scale = scale,
     mm_bert_scale = 0, mm_repeating_bias = repeating_bias, mm_a_transpose = False, mm_b_transpose = False,
     mm_full_C = False, mm_low_D = False\<rparr>"

text \<open>
  The check that both functions make at the end. \<open>gold\<close> is where the compiler puts the local array of
  that name.
\<close>

definition nn_check :: "'m mmu \<Rightarrow> matmul_args \<Rightarrow> u64 \<Rightarrow> 'm sim \<Rightarrow> 'm sim res option" where
  "nn_check M a gold s =
     bindO (tiled_matmul_auto M (a\<lparr>mm_C := gold\<rparr>) TM_CPU s) (\<lambda>s. Some (
     bindE (MAT_IS_EQUAL M (\<lambda>i j. mm_C a + of_nat i * mm_dim_J a + of_nat j) (\<lambda>i j. gold + of_nat i * mm_dim_J a + of_nat j)
       (unat (mm_dim_I a)) (unat (mm_dim_J a)) (mem s)) (\<lambda>equal.
     if equal then Inr s else Inl ExitFailure)))"

definition tiled_matmul_nn ::
  "'m mmu \<Rightarrow> u64 \<Rightarrow> u64 \<Rightarrow> u64 \<Rightarrow> u64 \<Rightarrow> u64 \<Rightarrow> u64 \<Rightarrow> u64 \<Rightarrow> int \<Rightarrow> f32 \<Rightarrow> bool \<Rightarrow> tiling \<Rightarrow> tiled_matmul_type_t \<Rightarrow> bool \<Rightarrow> u64 \<Rightarrow>
     'm sim \<Rightarrow> 'm sim res option" where
  "tiled_matmul_nn M dim_I dim_J dim_K A B D C act scale repeating_bias t ty check gold s =
     (let a = nn_args dim_I dim_J dim_K A B D C act scale repeating_bias in
      bindO (Some (tiled_matmul M a t ty s)) (\<lambda>s. if check then nn_check M a gold s else Some (Inr s)))"

definition tiled_matmul_nn_auto ::
  "'m mmu \<Rightarrow> u64 \<Rightarrow> u64 \<Rightarrow> u64 \<Rightarrow> u64 \<Rightarrow> u64 \<Rightarrow> u64 \<Rightarrow> u64 \<Rightarrow> int \<Rightarrow> f32 \<Rightarrow> bool \<Rightarrow> tiled_matmul_type_t \<Rightarrow> bool \<Rightarrow> u64 \<Rightarrow>
     'm sim \<Rightarrow> 'm sim res option" where
  "tiled_matmul_nn_auto M dim_I dim_J dim_K A B D C act scale repeating_bias ty check gold s =
     (let a = nn_args dim_I dim_J dim_K A B D C act scale repeating_bias in
      bindO (tiled_matmul_auto M a ty s) (\<lambda>s. if check then nn_check M a gold s else Some (Inr s)))"

definition tiled_matmul_nn_stride_auto ::
  "'m mmu \<Rightarrow> u64 \<Rightarrow> u64 \<Rightarrow> u64 \<Rightarrow> u64 \<Rightarrow> u64 \<Rightarrow> u64 \<Rightarrow> u64 \<Rightarrow> u64 \<Rightarrow> u64 \<Rightarrow> u64 \<Rightarrow> int \<Rightarrow> f32 \<Rightarrow> bool \<Rightarrow> tiled_matmul_type_t \<Rightarrow>
     'm sim \<Rightarrow> 'm sim res option" where
  "tiled_matmul_nn_stride_auto M dim_I dim_J dim_K A_stride B_stride C_stride A B D C act scale repeating_bias ty s =
     tiled_matmul_auto M ((nn_args dim_I dim_J dim_K A B D C act scale repeating_bias)\<lparr>
       mm_stride_A := A_stride, mm_stride_B := B_stride, mm_stride_D := C_stride, mm_stride_C := C_stride\<rparr>) ty s"

section \<open>Depthwise convolution\<close>

text \<open>\<open>&p[i0][i1][i2][i3]\<close> of an array whose last three dimensions are given.\<close>

definition at4 :: "u64 \<Rightarrow> u64 \<Rightarrow> u64 \<Rightarrow> u64 \<Rightarrow> u64 \<Rightarrow> u64 \<Rightarrow> u64 \<Rightarrow> u64 \<Rightarrow> u64" where
  "at4 p d1 d2 d3 i0 i1 i2 i3 = p + (((i0 * d1 + i1) * d2 + i2) * d3 + i3)"

text \<open>
  The sum of one pixel. The bounds are those of \<open>params\<close>, the dimensions of the arrays those of the
  arguments.
\<close>

definition conv_dw_sum ::
  "'m mmu \<Rightarrow> 'm \<Rightarrow> u64 \<Rightarrow> u64 \<Rightarrow> u64 \<Rightarrow> u64 \<Rightarrow> u64 \<Rightarrow> u64 \<Rightarrow> u64 \<Rightarrow> ConvParams \<Rightarrow> nat \<Rightarrow> nat \<Rightarrow> nat \<Rightarrow> nat \<Rightarrow> acc_t res" where
  "conv_dw_sum M m channels in_row_dim in_col_dim kernel_size input weight bias p batch channel out_row out_col =
     bindE (if cp_bias p then read_from_dram M m (bias + of_nat channel * 4) else Inr 0) (\<lambda>result.
     forE (nat (cp_kernel_size p)) (\<lambda>kernel_row. forE (nat (cp_kernel_size p)) (\<lambda>kernel_col result.
       let in_row = to_i32 (int out_row * cp_stride p - cp_padding p + int kernel_row);
           in_col = to_i32 (int out_col * cp_stride p - cp_padding p + int kernel_col) in
       if 0 \<le> in_row \<and> in_row < cp_in_row_dim p \<and> 0 \<le> in_col \<and> in_col < cp_in_col_dim p
       then bindE (load_byte M m (at4 input in_row_dim in_col_dim channels (of_nat batch) (of_int in_row) (of_int in_col) (of_nat channel))) (\<lambda>x.
         bindE (load_byte M m (weight + ((of_nat channel * kernel_size + of_nat kernel_row) * kernel_size + of_nat kernel_col))) (\<lambda>w.
         Inr (result + word_of_int (sint x * sint w))))
       else Inr result)) result)"

text \<open>Rectified, scaled and saturated.\<close>

definition conv_dw_value :: "ConvParams \<Rightarrow> acc_t \<Rightarrow> elem_t res" where
  "conv_dw_value p result =
     bindE (ACC_SCALE (if sint result < 0 then 0 else sint result) (cp_output_scale p)) (\<lambda>scaled.
     Inr (word_of_int (if elem_t_max < scaled then elem_t_max else if scaled < elem_t_min then elem_t_min else scaled)))"

definition conv_dw ::
  "'m mmu \<Rightarrow> u64 \<Rightarrow> u64 \<Rightarrow> u64 \<Rightarrow> u64 \<Rightarrow> u64 \<Rightarrow> u64 \<Rightarrow> u64 \<Rightarrow> u64 \<Rightarrow> u64 \<Rightarrow> u64 \<Rightarrow> u64 \<Rightarrow> u64 \<Rightarrow> ConvParams \<Rightarrow> 'm \<Rightarrow> 'm res" where
  "conv_dw M J batch_size channels in_row_dim in_col_dim out_row_dim out_col_dim kernel_size input weight bias output p m =
     forE (unat batch_size) (\<lambda>batch. forE (unat channels) (\<lambda>channel. forE (unat out_row_dim) (\<lambda>out_row. forE (unat out_col_dim) (\<lambda>out_col m.
       bindE (conv_dw_sum M m channels in_row_dim in_col_dim kernel_size input weight bias p batch channel out_row out_col) (\<lambda>result.
       bindE (conv_dw_value p result) (\<lambda>scaled.
       let r = off (int batch * cp_out_row_dim p * cp_out_col_dim p + int out_row * cp_out_col_dim p + int out_col) in
       store_byte M m (output + (r * J + of_nat channel)) scaled)))))) m"

text \<open>The same for an input that is a matrix with a row for every pixel.\<close>

definition conv_dw_col2im_sum ::
  "'m mmu \<Rightarrow> 'm \<Rightarrow> u64 \<Rightarrow> u64 \<Rightarrow> u64 \<Rightarrow> u64 \<Rightarrow> u64 \<Rightarrow> ConvParams \<Rightarrow> nat \<Rightarrow> nat \<Rightarrow> nat \<Rightarrow> nat \<Rightarrow> acc_t res" where
  "conv_dw_col2im_sum M m prev_J kernel_size input weight bias p batch channel out_row out_col =
     bindE (if cp_bias p then read_from_dram M m (bias + of_nat channel * 4) else Inr 0) (\<lambda>result.
     forE (nat (cp_kernel_size p)) (\<lambda>kernel_row. forE (nat (cp_kernel_size p)) (\<lambda>kernel_col result.
       let in_row = to_i32 (int out_row * cp_stride p - cp_padding p + int kernel_row);
           in_col = to_i32 (int out_col * cp_stride p - cp_padding p + int kernel_col) in
       if 0 \<le> in_row \<and> in_row < cp_in_row_dim p \<and> 0 \<le> in_col \<and> in_col < cp_in_col_dim p
       then let r = off (int batch * cp_in_row_dim p * cp_in_col_dim p + in_row * cp_in_col_dim p + in_col) in
         bindE (load_byte M m (input + (r * prev_J + of_nat channel))) (\<lambda>x.
         bindE (load_byte M m (weight + ((of_nat channel * kernel_size + of_nat kernel_row) * kernel_size + of_nat kernel_col))) (\<lambda>w.
         Inr (result + word_of_int (sint x * sint w))))
       else Inr result)) result)"

definition conv_dw_with_col2im ::
  "'m mmu \<Rightarrow> u64 \<Rightarrow> u64 \<Rightarrow> u64 \<Rightarrow> u64 \<Rightarrow> u64 \<Rightarrow> u64 \<Rightarrow> u64 \<Rightarrow> u64 \<Rightarrow> u64 \<Rightarrow> u64 \<Rightarrow> u64 \<Rightarrow> ConvParams \<Rightarrow> 'm \<Rightarrow> 'm res" where
  "conv_dw_with_col2im M prev_J J batch_size channels out_row_dim out_col_dim kernel_size input weight bias output p m =
     forE (unat batch_size) (\<lambda>batch. forE (unat channels) (\<lambda>channel. forE (unat out_row_dim) (\<lambda>out_row. forE (unat out_col_dim) (\<lambda>out_col m.
       bindE (conv_dw_col2im_sum M m prev_J kernel_size input weight bias p batch channel out_row out_col) (\<lambda>result.
       bindE (conv_dw_value p result) (\<lambda>scaled.
       let r = off (int batch * cp_out_row_dim p * cp_out_col_dim p + int out_row * cp_out_col_dim p + int out_col) in
       store_byte M m (output + (r * J + of_nat channel)) scaled)))))) m"

section \<open>im2col\<close>

text \<open>
  The values of \<open>for (i = lo; i < hi; i += step)\<close>. A step of zero never ends; a negative one runs into
  the overflow of \<open>int\<close>, which is undefined.
\<close>

definition int_steps :: "int \<Rightarrow> int \<Rightarrow> int \<Rightarrow> int list res" where
  "int_steps lo hi step =
     (if hi \<le> lo then Inr []
      else if step = 0 then Inl OutOfFuel
      else if step < 0 then Inl Undefined
      else Inr (map (\<lambda>k. lo + int k * step) [0..<nat ((hi - lo + step - 1) div step)]))"

text \<open>
  One patch becomes a row of the matrix. Elements of the padding are not written: the assignments of zero are commented
  out in the source.
\<close>

definition im2col_patch ::
  "'m mmu \<Rightarrow> u64 \<Rightarrow> u64 \<Rightarrow> u64 \<Rightarrow> u64 \<Rightarrow> u64 \<Rightarrow> u64 \<Rightarrow> ConvParams \<Rightarrow> nat \<Rightarrow> int \<Rightarrow> int \<Rightarrow> int \<Rightarrow> 'm \<Rightarrow> 'm res" where
  "im2col_patch M channels im_row_dim im_col_dim K input output p n_batch im_row im_col patch_row m =
     bindE (forE (nat (cp_kernel_size p)) (\<lambda>filter_row. forE (nat (cp_kernel_size p)) (\<lambda>filter_col. forE (nat (cp_in_channels p)) (\<lambda>im_channel (patch_col, m).
       let pixel_row = to_i32 (im_row + int filter_row); pixel_col = to_i32 (im_col + int filter_col) in
       bindE (if pixel_row < 0 \<or> cp_in_row_dim p \<le> pixel_row \<or> pixel_col < 0 \<or> cp_in_col_dim p \<le> pixel_col then Inr m
         else bindE (load_byte M m (at4 input im_row_dim im_col_dim channels (of_nat n_batch) (of_int pixel_row) (of_int pixel_col) (of_nat im_channel))) (\<lambda>x.
           store_byte M m (output + (off patch_row * K + off patch_col)) x))
       (\<lambda>m. Inr (patch_col + 1, m))))) (0, m)) (\<lambda>(_, m). Inr m)"

definition im2col :: "'m mmu \<Rightarrow> u64 \<Rightarrow> u64 \<Rightarrow> u64 \<Rightarrow> u64 \<Rightarrow> u64 \<Rightarrow> u64 \<Rightarrow> ConvParams \<Rightarrow> 'm \<Rightarrow> 'm res" where
  "im2col M channels im_row_dim im_col_dim K input output p m =
     bindE (forE (nat (cp_batch_size p)) (\<lambda>n_batch (patch_row, m).
       bindE (int_steps (- cp_padding p) (to_i32 (cp_in_row_dim p - cp_kernel_size p + cp_padding p + 1)) (cp_stride p)) (\<lambda>im_rows.
       foldE (\<lambda>im_row (patch_row, m).
         bindE (int_steps (- cp_padding p) (to_i32 (cp_in_col_dim p - cp_kernel_size p + cp_padding p + 1)) (cp_stride p)) (\<lambda>im_cols.
         foldE (\<lambda>im_col (patch_row, m).
           bindE (im2col_patch M channels im_row_dim im_col_dim K input output p n_batch im_row im_col patch_row m)
           (\<lambda>m. Inr (patch_row + 1, m))) im_cols (patch_row, m))) im_rows (patch_row, m))) (0, m))
     (\<lambda>(_, m). Inr m)"

definition im2col_col2im_patch ::
  "'m mmu \<Rightarrow> u64 \<Rightarrow> u64 \<Rightarrow> u64 \<Rightarrow> u64 \<Rightarrow> ConvParams \<Rightarrow> nat \<Rightarrow> int \<Rightarrow> int \<Rightarrow> int \<Rightarrow> 'm \<Rightarrow> 'm res" where
  "im2col_col2im_patch M prev_J next_K input output p n_batch im_row im_col out_row m =
     bindE (forE (nat (cp_kernel_size p)) (\<lambda>filter_row. forE (nat (cp_kernel_size p)) (\<lambda>filter_col. forE (nat (cp_in_channels p)) (\<lambda>im_channel (out_col, m).
       let pixel_row = to_i32 (im_row + int filter_row); pixel_col = to_i32 (im_col + int filter_col) in
       bindE (if pixel_row < 0 \<or> cp_in_row_dim p \<le> pixel_row \<or> pixel_col < 0 \<or> cp_in_col_dim p \<le> pixel_col then Inr m
         else let in_row = to_i32 (int n_batch * cp_in_row_dim p * cp_in_col_dim p + pixel_row * cp_in_col_dim p + pixel_col); in_col = int im_channel in
           bindE (load_byte M m (input + (off in_row * prev_J + off in_col))) (\<lambda>x.
           store_byte M m (output + (off out_row * next_K + off out_col)) x))
       (\<lambda>m. Inr (out_col + 1, m))))) (0, m)) (\<lambda>(_, m). Inr m)"

definition im2col_with_col2im :: "'m mmu \<Rightarrow> u64 \<Rightarrow> u64 \<Rightarrow> u64 \<Rightarrow> u64 \<Rightarrow> ConvParams \<Rightarrow> 'm \<Rightarrow> 'm res" where
  "im2col_with_col2im M prev_J next_K input output p m =
     bindE (forE (nat (cp_batch_size p)) (\<lambda>n_batch (out_row, m).
       bindE (int_steps (- cp_padding p) (to_i32 (cp_in_row_dim p - cp_kernel_size p + cp_padding p + 1)) (cp_stride p)) (\<lambda>im_rows.
       foldE (\<lambda>im_row (out_row, m).
         bindE (int_steps (- cp_padding p) (to_i32 (cp_in_col_dim p - cp_kernel_size p + cp_padding p + 1)) (cp_stride p)) (\<lambda>im_cols.
         foldE (\<lambda>im_col (out_row, m).
           bindE (im2col_col2im_patch M prev_J next_K input output p n_batch im_row im_col out_row m)
           (\<lambda>m. Inr (out_row + 1, m))) im_cols (out_row, m))) im_rows (out_row, m))) (0, m))
     (\<lambda>(_, m). Inr m)"

section \<open>Additions\<close>

definition add_elem :: "int \<Rightarrow> f32 \<Rightarrow> elem_t \<Rightarrow> elem_t \<Rightarrow> elem_t res" where
  "add_elem minimum shift a b =
     bindE (MVIN_SCALE (sint a) shift) (\<lambda>x.
     let result = x + sint b in
     Inr (word_of_int (if elem_t_max < result then elem_t_max else if result < minimum then minimum else result)))"

definition vecadd :: "'m mmu \<Rightarrow> u64 \<Rightarrow> u64 \<Rightarrow> u64 \<Rightarrow> u64 \<Rightarrow> f32 \<Rightarrow> 'm \<Rightarrow> 'm res" where
  "vecadd M len A B C A_shift m =
     forE (unat len) (\<lambda>i m.
       bindE (load_byte M m (A + of_nat i)) (\<lambda>a.
       bindE (load_byte M m (B + of_nat i)) (\<lambda>b.
       bindE (add_elem elem_t_min A_shift a b) (\<lambda>r. store_byte M m (C + of_nat i) r)))) m"

text \<open>A bound of type \<open>int\<close> on a counter of type \<open>size_t\<close>.\<close>

definition size_of_int :: "int \<Rightarrow> nat" where
  "size_of_int n = unat (of_int n :: u64)"

definition resadd1 :: "'m mmu \<Rightarrow> u64 \<Rightarrow> u64 \<Rightarrow> u64 \<Rightarrow> u64 \<Rightarrow> u64 \<Rightarrow> bool \<Rightarrow> ConvParams \<Rightarrow> 'm \<Rightarrow> 'm res" where
  "resadd1 M channels im_dim A B C relu p m =
     (let minimum = (if relu then 0 else elem_t_min); d = size_of_int (cp_out_dim_pooled p) in
      forE (size_of_int (cp_batch_size p)) (\<lambda>batch. forE d (\<lambda>row. forE d (\<lambda>col. forE (size_of_int (cp_out_channels p)) (\<lambda>channel m.
        bindE (load_byte M m (at4 A im_dim im_dim channels (of_nat batch) (of_nat row) (of_nat col) (of_nat channel))) (\<lambda>a.
        bindE (load_byte M m (at4 B im_dim im_dim channels (of_nat batch) (of_nat row) (of_nat col) (of_nat channel))) (\<lambda>b.
        bindE (add_elem minimum (cp_res_scale p) a b) (\<lambda>r.
        store_byte M m (at4 C im_dim im_dim channels (of_nat batch) (of_nat row) (of_nat col) (of_nat channel)) r))))))) m)"

text \<open>The row of a pixel, \<open>batch * out_dim_pooled * out_dim_pooled + row * out_dim_pooled + col\<close>.\<close>

definition pooled_row :: "ConvParams \<Rightarrow> nat \<Rightarrow> nat \<Rightarrow> nat \<Rightarrow> u64" where
  "pooled_row p batch row col =
     (let d = of_int (cp_out_dim_pooled p) in of_nat batch * d * d + of_nat row * d + of_nat col)"

definition resadd2 :: "'m mmu \<Rightarrow> u64 \<Rightarrow> u64 \<Rightarrow> u64 \<Rightarrow> u64 \<Rightarrow> u64 \<Rightarrow> u64 \<Rightarrow> bool \<Rightarrow> ConvParams \<Rightarrow> 'm \<Rightarrow> 'm res" where
  "resadd2 M J channels im_dim A B C relu p m =
     (let minimum = (if relu then 0 else elem_t_min); d = size_of_int (cp_out_dim_pooled p) in
      forE (size_of_int (cp_batch_size p)) (\<lambda>batch. forE d (\<lambda>row. forE d (\<lambda>col. forE (size_of_int (cp_out_channels p)) (\<lambda>channel m.
        bindE (load_byte M m (A + (pooled_row p batch row col * J + of_nat channel))) (\<lambda>a.
        bindE (load_byte M m (at4 B im_dim im_dim channels (of_nat batch) (of_nat row) (of_nat col) (of_nat channel))) (\<lambda>b.
        bindE (add_elem minimum (cp_res_scale p) a b) (\<lambda>r.
        store_byte M m (at4 C im_dim im_dim channels (of_nat batch) (of_nat row) (of_nat col) (of_nat channel)) r))))))) m)"

definition resadd3 :: "'m mmu \<Rightarrow> u64 \<Rightarrow> u64 \<Rightarrow> u64 \<Rightarrow> u64 \<Rightarrow> bool \<Rightarrow> ConvParams \<Rightarrow> 'm \<Rightarrow> 'm res" where
  "resadd3 M J A B C relu p m =
     (let minimum = (if relu then 0 else elem_t_min); d = size_of_int (cp_out_dim_pooled p) in
      forE (size_of_int (cp_batch_size p)) (\<lambda>batch. forE d (\<lambda>row. forE d (\<lambda>col. forE (size_of_int (cp_out_channels p)) (\<lambda>channel m.
        let r = pooled_row p batch row col in
        bindE (load_byte M m (A + (r * J + of_nat channel))) (\<lambda>a.
        bindE (load_byte M m (B + (r * J + of_nat channel))) (\<lambda>b.
        bindE (add_elem minimum (cp_res_scale p) a b) (\<lambda>v.
        store_byte M m (C + (r * J + of_nat channel)) v))))))) m)"

section \<open>Pooling\<close>

text \<open>
  The window of one output pixel. The arithmetic is that of \<open>size_t\<close> before the conversion to \<open>int\<close>. A
  position outside the input counts as zero.
\<close>

definition nn_pool_window ::
  "'m mmu \<Rightarrow> 'm \<Rightarrow> u64 \<Rightarrow> u64 \<Rightarrow> u64 \<Rightarrow> u64 \<Rightarrow> ConvParams \<Rightarrow> nat \<Rightarrow> nat \<Rightarrow> nat \<Rightarrow> nat \<Rightarrow> elem_t res" where
  "nn_pool_window M m channels in_row_dim in_col_dim input p batch channel out_row out_col =
     (let kernel_size = size_of_int (cp_pool_size p) in
      forE kernel_size (\<lambda>kernel_row. forE kernel_size (\<lambda>kernel_col result.
        let in_row = to_i32 (int out_row * cp_pool_stride p - cp_pool_padding p + int kernel_row);
            in_col = to_i32 (int out_col * cp_pool_stride p - cp_pool_padding p + int kernel_col) in
        if 0 \<le> in_row \<and> of_int in_row < in_row_dim \<and> 0 \<le> in_col \<and> of_int in_col < in_col_dim
        then bindE (load_byte M m (at4 input in_row_dim in_col_dim channels (of_nat batch) (of_int in_row) (of_int in_col) (of_nat channel))) (\<lambda>x.
          Inr (if sint result < sint x then x else result))
        else Inr (if sint result < 0 then 0 else result))) (word_of_int elem_t_min))"

definition pool :: "'m mmu \<Rightarrow> u64 \<Rightarrow> u64 \<Rightarrow> u64 \<Rightarrow> u64 \<Rightarrow> u64 \<Rightarrow> u64 \<Rightarrow> u64 \<Rightarrow> u64 \<Rightarrow> ConvParams \<Rightarrow> 'm \<Rightarrow> 'm res" where
  "pool M batch_size channels in_row_dim in_col_dim out_row_dim out_col_dim input output p m =
     forE (unat batch_size) (\<lambda>batch. forE (unat channels) (\<lambda>channel. forE (unat out_row_dim) (\<lambda>out_row. forE (unat out_col_dim) (\<lambda>out_col m.
       bindE (nn_pool_window M m channels in_row_dim in_col_dim input p batch channel out_row out_col) (\<lambda>result.
       store_byte M m (at4 output out_row_dim out_col_dim channels (of_nat batch) (of_nat out_row) (of_nat out_col) (of_nat channel)) result))))) m"

definition pool_col2im_window :: "'m mmu \<Rightarrow> 'm \<Rightarrow> u64 \<Rightarrow> u64 \<Rightarrow> ConvParams \<Rightarrow> nat \<Rightarrow> nat \<Rightarrow> nat \<Rightarrow> nat \<Rightarrow> elem_t res" where
  "pool_col2im_window M m J input p batch channel out_row out_col =
     (let kernel_size = size_of_int (cp_pool_size p); in_row_dim = of_int (cp_out_row_dim p); in_col_dim = of_int (cp_out_col_dim p) in
      forE kernel_size (\<lambda>kernel_row. forE kernel_size (\<lambda>kernel_col result.
        let in_row = to_i32 (int out_row * cp_pool_stride p - cp_pool_padding p + int kernel_row);
            in_col = to_i32 (int out_col * cp_pool_stride p - cp_pool_padding p + int kernel_col) in
        if 0 \<le> in_row \<and> of_int in_row < in_row_dim \<and> 0 \<le> in_col \<and> of_int in_col < in_col_dim
        then bindE (load_byte M m (input + ((of_nat batch * in_row_dim * in_col_dim + of_int in_row * in_col_dim + of_int in_col) * J + of_nat channel))) (\<lambda>x.
          Inr (if sint result < sint x then x else result))
        else Inr (if sint result < 0 then 0 else result))) (word_of_int elem_t_min))"

definition pool_with_col2im :: "'m mmu \<Rightarrow> u64 \<Rightarrow> u64 \<Rightarrow> u64 \<Rightarrow> u64 \<Rightarrow> u64 \<Rightarrow> u64 \<Rightarrow> u64 \<Rightarrow> ConvParams \<Rightarrow> 'm \<Rightarrow> 'm res" where
  "pool_with_col2im M J batch_size channels out_row_dim out_col_dim input output p m =
     forE (unat batch_size) (\<lambda>batch. forE (unat channels) (\<lambda>channel. forE (unat out_row_dim) (\<lambda>out_row. forE (unat out_col_dim) (\<lambda>out_col m.
       bindE (pool_col2im_window M m J input p batch channel out_row out_col) (\<lambda>result.
       store_byte M m (at4 output out_row_dim out_col_dim channels (of_nat batch) (of_nat out_row) (of_nat out_col) (of_nat channel)) result))))) m"

end
