(* ===== verification/Yolo_Ops.thy ===== *)
theory Yolo_Ops
  imports Driver_Conv_Cpu
begin

text \<open>
  The operators of the detection network that the processor computes
  (\<open>shen_yolov11n_ops.h\<close>): exponential and rounding without the C library, the SiLU table,
  concatenation and splitting of channels, max-pooling, upsampling, residual addition, and the
  float operators of the attention block. Tensors are arrays in the memory that the processor shares with
  the accelerator; indices are \<open>int\<close>s (\<open>off\<close>). Floats are computed one operation at a
  time, rounded to nearest-even: the compiler is taken not to contract them.
\<close>

section \<open>Floats and bytes\<close>

text \<open>The constant \<open>n / 10 ^ k\<close>, the comparison \<open>a >= b\<close>, which is false for NaN, and the types of arrays.\<close>

definition f32_dec :: "int \<Rightarrow> nat \<Rightarrow> f32" where
  "f32_dec n k = f32_round (n < 0) \<bar>n\<bar> (10 ^ k)"

definition f32_ge :: "f32 \<Rightarrow> f32 \<Rightarrow> bool" where
  "f32_ge a b \<longleftrightarrow> f32_decode a \<noteq> FNaN \<and> f32_decode b \<noteq> FNaN \<and> \<not> f32_lt a b"

definition read_f32 :: "'m mmu \<Rightarrow> 'm \<Rightarrow> u64 \<Rightarrow> u64 \<Rightarrow> f32 res" where
  "read_f32 M m p i = read_from_dram M m (p + i * 4)"

definition write_f32 :: "'m mmu \<Rightarrow> u64 \<Rightarrow> u64 \<Rightarrow> f32 \<Rightarrow> 'm \<Rightarrow> 'm res" where
  "write_f32 M p i x m = write_to_dram M (p + i * 4) x m"

text \<open>\<open>memcpy\<close> and \<open>memset\<close> of the C library; copying between regions that overlap is undefined.\<close>

definition memcpy :: "'m mmu \<Rightarrow> u64 \<Rightarrow> u64 \<Rightarrow> u64 \<Rightarrow> 'm \<Rightarrow> 'm res" where
  "memcpy M dst src n m =
     (if n \<noteq> 0 \<and> (dst - src < n \<or> src - dst < n) then Inl Undefined
      else forE (unat n) (\<lambda>i m. bindE (load_byte M m (src + of_nat i)) (\<lambda>b. store_byte M m (dst + of_nat i) b)) m)"

definition memset :: "'m mmu \<Rightarrow> u64 \<Rightarrow> u8 \<Rightarrow> u64 \<Rightarrow> 'm \<Rightarrow> 'm res" where
  "memset M dst v n m = forE (unat n) (\<lambda>i m. store_byte M m (dst + of_nat i) v) m"

text \<open>\<open>(elem_t)(y < -128 ? -128 : (y > 127 ? 127 : y))\<close>\<close>

definition clip_elem :: "int \<Rightarrow> elem_t" where
  "clip_elem y = word_of_int (if y < -128 then -128 else if 127 < y then 127 else y)"

section \<open>Portable mathematics\<close>

definition round_int :: "f32 \<Rightarrow> int res" where
  "round_int x = f32_to_sint 32 (f32_add x (if f32_ge x 0 then f32_dec 5 1 else f32_dec (- 5) 1))"

definition shen_roundf :: "f32 \<Rightarrow> f32 res" where
  "shen_roundf x = bindE (round_int x) (\<lambda>n. Inr (f32_of_int n))"

definition shen_expf :: "f32 \<Rightarrow> f32 res" where
  "shen_expf x =
     (if f32_lt (f32_of_int 88) x then Inr 0x7F7FFFFF
      else if f32_lt x (f32_of_int (- 88)) then Inr 0
      else let t = f32_mul x (f32_dec 14426950408 10) in
        bindE (round_int t) (\<lambda>n.
        let r = f32_sub x (f32_mul (f32_of_int n) (f32_dec 6931471805599453 16));
            one = f32_of_int 1;
            p = f32_add one (f32_mul r (f32_add one (f32_mul r (f32_add (f32_dec 5 1) (f32_mul r (f32_add (f32_div one (f32_of_int 6))
                  (f32_mul r (f32_add (f32_div one (f32_of_int 24)) (f32_mul r (f32_div one (f32_of_int 120)))))))))));
            u = word_of_int ((n + 127) * 2 ^ 23) in
        if n + 127 < 0 then Inl Undefined else Inr (f32_mul p u)))"

section \<open>SiLU by table\<close>

definition silu_entry :: "f32 \<Rightarrow> f32 \<Rightarrow> elem_t \<Rightarrow> elem_t res" where
  "silu_entry input_scale output_scale x_int8 =
     (let x_fp = f32_mul (f32_of_int (sint x_int8)) input_scale in
      bindE (shen_expf (f32_neg x_fp)) (\<lambda>e.
      let silu = f32_div x_fp (f32_add (f32_of_int 1) e) in
      bindE (shen_roundf (f32_div silu output_scale)) (\<lambda>r.
      bindE (f32_to_sint 32 r) (\<lambda>y. Inr (clip_elem y)))))"

definition shen_build_silu_lut :: "'m mmu \<Rightarrow> u64 \<Rightarrow> f32 \<Rightarrow> f32 \<Rightarrow> 'm \<Rightarrow> 'm res" where
  "shen_build_silu_lut M lut input_scale output_scale m =
     forE 256 (\<lambda>i m. bindE (silu_entry input_scale output_scale (of_nat i)) (\<lambda>y. store_byte M m (lut + of_nat i) y)) m"

definition shen_silu_int8_lut :: "'m mmu \<Rightarrow> u64 \<Rightarrow> int \<Rightarrow> u64 \<Rightarrow> 'm \<Rightarrow> 'm res" where
  "shen_silu_int8_lut M p len lut m =
     forE (nat len) (\<lambda>i m.
       bindE (load_byte M m (p + of_nat i)) (\<lambda>x.
       bindE (load_byte M m (lut + ucast x)) (\<lambda>y.
       store_byte M m (p + of_nat i) y))) m"

section \<open>Concatenation and splitting of channels\<close>

definition shen_concat_channels_nhwc ::
  "'m mmu \<Rightarrow> u64 \<Rightarrow> int \<Rightarrow> u64 \<Rightarrow> int \<Rightarrow> u64 \<Rightarrow> int \<Rightarrow> u64 \<Rightarrow> int \<Rightarrow> u64 \<Rightarrow> int \<Rightarrow> 'm \<Rightarrow> 'm res" where
  "shen_concat_channels_nhwc M output spatial_size a a_ch b b_ch c c_ch d d_ch m =
     (let total_ch = a_ch + b_ch + (if c \<noteq> 0 then c_ch else 0) + (if d \<noteq> 0 then d_ch else 0) in
      forE (nat spatial_size) (\<lambda>s m.
        let row = output + off (int s * total_ch);
            part = (\<lambda>p ch pos. memcpy M (row + off pos) (p + off (int s * ch)) (of_int ch)) in
        bindE (part a a_ch 0 m) (\<lambda>m.
        bindE (part b b_ch a_ch m) (\<lambda>m.
        bindE (if c \<noteq> 0 then part c c_ch (a_ch + b_ch) m else Inr m) (\<lambda>m.
        if d \<noteq> 0 then part d d_ch (a_ch + b_ch + (if c \<noteq> 0 then c_ch else 0)) m else Inr m)))) m)"

definition shen_split_channels_nhwc ::
  "'m mmu \<Rightarrow> u64 \<Rightarrow> int \<Rightarrow> u64 \<Rightarrow> int \<Rightarrow> int \<Rightarrow> u64 \<Rightarrow> int \<Rightarrow> int \<Rightarrow> int \<Rightarrow> 'm \<Rightarrow> 'm res" where
  "shen_split_channels_nhwc M input spatial_size out_a a_start a_count out_b b_start b_count total_channels m =
     forE (nat spatial_size) (\<lambda>s m.
       bindE (memcpy M (out_a + off (int s * a_count)) (input + off (int s * total_channels) + off a_start) (of_int a_count) m)
       (memcpy M (out_b + off (int s * b_count)) (input + off (int s * total_channels) + off b_start) (of_int b_count))) m"

section \<open>Max-pooling\<close>

definition maxpool_window ::
  "'m mmu \<Rightarrow> 'm \<Rightarrow> u64 \<Rightarrow> int \<Rightarrow> int \<Rightarrow> int \<Rightarrow> int \<Rightarrow> int \<Rightarrow> int \<Rightarrow> int \<Rightarrow> elem_t res" where
  "maxpool_window M m input channels height width kernel_size h0 w0 c =
     forE (nat kernel_size) (\<lambda>kh. forE (nat kernel_size) (\<lambda>kw max_val.
       let ih = to_i32 (h0 + int kh); iw = to_i32 (w0 + int kw) in
       if 0 \<le> ih \<and> ih < height \<and> 0 \<le> iw \<and> iw < width
       then bindE (load_byte M m (input + off ((ih * width + iw) * channels + c))) (\<lambda>val.
         Inr (if sint max_val < sint val then val else max_val))
       else Inr max_val)) (- 128)"

definition shen_maxpool_nhwc ::
  "'m mmu \<Rightarrow> u64 \<Rightarrow> u64 \<Rightarrow> int \<Rightarrow> int \<Rightarrow> int \<Rightarrow> int \<Rightarrow> int \<Rightarrow> int \<Rightarrow> 'm \<Rightarrow> 'm res" where
  "shen_maxpool_nhwc M input output channels height width kernel_size stride padding m =
     (if stride = 0 then Inl Undefined
      else let out_h = trunc_div (height + 2 * padding - kernel_size) stride + 1;
               out_w = trunc_div (width + 2 * padding - kernel_size) stride + 1 in
        forE (nat out_h) (\<lambda>oh. forE (nat out_w) (\<lambda>ow. forE (nat channels) (\<lambda>c m.
          bindE (maxpool_window M m input channels height width kernel_size
            (int oh * stride - padding) (int ow * stride - padding) (int c)) (\<lambda>max_val.
          store_byte M m (output + off ((int oh * out_w + int ow) * channels + int c)) max_val)))) m)"

section \<open>Upsampling\<close>

definition shen_upsample_nearest_2x_nhwc :: "'m mmu \<Rightarrow> u64 \<Rightarrow> u64 \<Rightarrow> int \<Rightarrow> int \<Rightarrow> int \<Rightarrow> 'm \<Rightarrow> 'm res" where
  "shen_upsample_nearest_2x_nhwc M input output channels height width m =
     (let out_w = width * 2; ch_bytes = channels * 1 in
      forE (nat height) (\<lambda>h. forE (nat width) (\<lambda>w m.
        let src = input + off ((int h * width + int w) * channels);
            copy = (\<lambda>y x. memcpy M (output + off ((y * out_w + x) * channels)) src (of_int ch_bytes)) in
        bindE (copy (2 * int h) (2 * int w) m) (\<lambda>m.
        bindE (copy (2 * int h) (2 * int w + 1) m) (\<lambda>m.
        bindE (copy (2 * int h + 1) (2 * int w) m) (copy (2 * int h + 1) (2 * int w + 1)))))) m)"

section \<open>Residual addition\<close>

definition shen_resadd_same_scale :: "'m mmu \<Rightarrow> u64 \<Rightarrow> u64 \<Rightarrow> u64 \<Rightarrow> int \<Rightarrow> 'm \<Rightarrow> 'm res" where
  "shen_resadd_same_scale M a b c len m =
     forE (nat len) (\<lambda>i m.
       bindE (load_byte M m (a + of_nat i)) (\<lambda>x.
       bindE (load_byte M m (b + of_nat i)) (\<lambda>y.
       store_byte M m (c + of_nat i) (clip_elem (sint x + sint y))))) m"

definition shen_resadd_rescale :: "'m mmu \<Rightarrow> u64 \<Rightarrow> u64 \<Rightarrow> u64 \<Rightarrow> int \<Rightarrow> f32 \<Rightarrow> 'm \<Rightarrow> 'm res" where
  "shen_resadd_rescale M a b c len a_ratio m =
     forE (nat len) (\<lambda>i m.
       bindE (load_byte M m (a + of_nat i)) (\<lambda>x.
       bindE (shen_roundf (f32_mul (f32_of_int (sint x)) a_ratio)) (\<lambda>r.
       bindE (f32_to_sint 32 r) (\<lambda>a_scaled.
       bindE (load_byte M m (b + of_nat i)) (\<lambda>y.
       store_byte M m (c + of_nat i) (clip_elem (to_i32 (a_scaled + sint y)))))))) m"

section \<open>Float operators\<close>

definition softmax_max :: "'m mmu \<Rightarrow> 'm \<Rightarrow> u64 \<Rightarrow> int \<Rightarrow> f32 res" where
  "softmax_max M m p len =
     bindE (read_f32 M m p 0) (\<lambda>max_val.
     foldE (\<lambda>i max_val. bindE (read_f32 M m p (of_nat i)) (\<lambda>x. Inr (if f32_lt max_val x then x else max_val)))
       [1..<nat len] max_val)"

definition shen_softmax_fp32 :: "'m mmu \<Rightarrow> u64 \<Rightarrow> int \<Rightarrow> 'm \<Rightarrow> 'm res" where
  "shen_softmax_fp32 M p len m =
     bindE (softmax_max M m p len) (\<lambda>max_val.
     bindE (forE (nat len) (\<lambda>i (sum, m).
       bindE (read_f32 M m p (of_nat i)) (\<lambda>x.
       bindE (shen_expf (f32_sub x max_val)) (\<lambda>e.
       bindE (write_f32 M p (of_nat i) e m) (\<lambda>m. Inr (f32_add sum e, m))))) (0, m)) (\<lambda>(sum, m).
     forE (nat len) (\<lambda>i m.
       bindE (read_f32 M m p (of_nat i)) (\<lambda>x. write_f32 M p (of_nat i) (f32_div x sum) m)) m))"

definition shen_dequant_int8_to_fp32 :: "'m mmu \<Rightarrow> u64 \<Rightarrow> u64 \<Rightarrow> int \<Rightarrow> f32 \<Rightarrow> 'm \<Rightarrow> 'm res" where
  "shen_dequant_int8_to_fp32 M input output len scale m =
     forE (nat len) (\<lambda>i m.
       bindE (load_byte M m (input + of_nat i)) (\<lambda>x.
       write_f32 M output (of_nat i) (f32_mul (f32_of_int (sint x)) scale) m)) m"

definition quant_elem :: "f32 \<Rightarrow> f32 \<Rightarrow> elem_t res" where
  "quant_elem scale x =
     bindE (shen_roundf (f32_div x scale)) (\<lambda>r. bindE (f32_to_sint 32 r) (\<lambda>v. Inr (clip_elem v)))"

definition shen_quant_fp32_to_int8 :: "'m mmu \<Rightarrow> u64 \<Rightarrow> u64 \<Rightarrow> int \<Rightarrow> f32 \<Rightarrow> 'm \<Rightarrow> 'm res" where
  "shen_quant_fp32_to_int8 M input output len scale m =
     forE (nat len) (\<lambda>i m.
       bindE (read_f32 M m input (of_nat i)) (\<lambda>x.
       bindE (quant_elem scale x) (\<lambda>v. store_byte M m (output + of_nat i) v))) m"

definition matmul_dot :: "'m mmu \<Rightarrow> 'm \<Rightarrow> nat \<Rightarrow> u64 \<Rightarrow> (nat \<Rightarrow> u64) \<Rightarrow> u64 \<Rightarrow> (nat \<Rightarrow> u64) \<Rightarrow> f32 res" where
  "matmul_dot M m K A ia B ib =
     forE K (\<lambda>k sum. bindE (read_f32 M m A (ia k)) (\<lambda>x. bindE (read_f32 M m B (ib k)) (\<lambda>y.
       Inr (f32_add sum (f32_mul x y))))) 0"

definition shen_matmul_fp32 :: "'m mmu \<Rightarrow> u64 \<Rightarrow> u64 \<Rightarrow> u64 \<Rightarrow> int \<Rightarrow> int \<Rightarrow> int \<Rightarrow> 'm \<Rightarrow> 'm res" where
  "shen_matmul_fp32 M A B C dim_M dim_K dim_N m =
     forE (nat dim_M) (\<lambda>i. forE (nat dim_N) (\<lambda>n m.
       bindE (matmul_dot M m (nat dim_K) A (\<lambda>k. off (int i * dim_K + int k)) B (\<lambda>k. off (int k * dim_N + int n))) (\<lambda>sum.
       write_f32 M C (off (int i * dim_N + int n)) sum m))) m"

definition shen_matmul_ABt_fp32 :: "'m mmu \<Rightarrow> u64 \<Rightarrow> u64 \<Rightarrow> u64 \<Rightarrow> int \<Rightarrow> int \<Rightarrow> int \<Rightarrow> 'm \<Rightarrow> 'm res" where
  "shen_matmul_ABt_fp32 M A B C dim_M dim_K dim_N m =
     forE (nat dim_M) (\<lambda>i. forE (nat dim_N) (\<lambda>n m.
       bindE (matmul_dot M m (nat dim_K) A (\<lambda>k. off (int i * dim_K + int k)) B (\<lambda>k. off (int n * dim_K + int k))) (\<lambda>sum.
       write_f32 M C (off (int i * dim_N + int n)) sum m))) m"

definition shen_sigmoid_fp32 :: "'m mmu \<Rightarrow> u64 \<Rightarrow> int \<Rightarrow> 'm \<Rightarrow> 'm res" where
  "shen_sigmoid_fp32 M p len m =
     forE (nat len) (\<lambda>i m.
       bindE (read_f32 M m p (of_nat i)) (\<lambda>x.
       bindE (shen_expf (f32_neg x)) (\<lambda>e.
       write_f32 M p (of_nat i) (f32_div (f32_of_int 1) (f32_add (f32_of_int 1) e)) m))) m"

end
