(* ===== verification/Tensors.thy ===== *)
theory Tensors
  imports Yolo_Ops Gemmini_Blocks
begin

text \<open>
  Tensors of bytes in memory, as the operators of the network see them: a sequence of pixels, each a run of
  channels. A loop over their elements is described by the set of cells it has written so far
  (\<open>wrote\<close>); the lemmas here say what stores and copies add to that set.
\<close>

section \<open>Loops that fill cells\<close>

lemma forE_gather:
  assumes "P {} s" and "\<And>i S t. i < n \<Longrightarrow> P S t \<Longrightarrow> succeeds (f i t) (P (S \<union> T i))"
  shows "succeeds (forE n f s) (P (\<Union>i < n. T i))"
proof -
  have "succeeds (foldE f [0..<n] s) (P ({} \<union> (\<Union>i \<in> set [0..<n]. T i)))"
    by (rule foldE_gather [of P]) (use assms in auto)
  then show ?thesis by (simp add: forE_def atLeast0LessThan)
qed

lemma forE_gather_from:
  assumes "P S s" and "\<And>i S t. i < n \<Longrightarrow> P S t \<Longrightarrow> succeeds (f i t) (P (S \<union> T i))"
  shows "succeeds (forE n f s) (P (S \<union> (\<Union>i < n. T i)))"
proof -
  have "succeeds (foldE f [0..<n] s) (P (S \<union> (\<Union>i \<in> set [0..<n]. T i)))"
    by (rule foldE_gather [of P]) (use assms in auto)
  then show ?thesis by (simp add: forE_def atLeast0LessThan)
qed

text \<open>
  The region a loop fills: the cells \<open>U\<close> with their addresses and final values. \<open>filling\<close> is the invariant
  of such a loop.
\<close>

definition filling :: "'m mmu \<Rightarrow> 'm \<Rightarrow> 'k set \<Rightarrow> ('k \<Rightarrow> u64) \<Rightarrow> ('k \<Rightarrow> u8) \<Rightarrow> 'k set \<Rightarrow> 'm \<Rightarrow> bool" where
  "filling M m U addr W S t \<longleftrightarrow> S \<subseteq> U \<and> wrote M m t S addr W"

definition region :: "'m mmu \<Rightarrow> 'm \<Rightarrow> 'k set \<Rightarrow> ('k \<Rightarrow> u64) \<Rightarrow> bool" where
  "region M m U addr \<longleftrightarrow> mmu_ok M \<and> inj_on addr U \<and> (\<forall>k \<in> U. writable M m (addr k))"

lemma filling_start [simp]: "filling M m U addr W {} m"
  by (simp add: filling_def)

lemma filling_done: "succeeds r (filling M m U addr W S) \<Longrightarrow> S = T \<Longrightarrow> succeeds r (\<lambda>t. wrote M m t T addr W)"
  by (cases r) (simp_all add: filling_def)

lemma store_byte_write: "store_byte M m a v = write_to_dram M a (v :: u8) m"
  by (simp add: write_elem)

lemma filling_store:
  assumes "region M m U addr" "k \<in> U" "filling M m U addr W S t"
  shows "succeeds (store_byte M t (addr k) (W k)) (filling M m U addr W (S \<union> {k}))"
proof -
  have "succeeds (write_to_dram M (addr k) (W k) t) (\<lambda>t'. wrote M m t' (S \<union> {k}) addr W)"
    by (rule write_next_cell [of M addr U]) (use assms in \<open>auto simp: region_def filling_def\<close>)
  then show ?thesis unfolding store_byte_write by (rule succeeds_mono) (use assms(2,3) in \<open>auto simp: filling_def\<close>)
qed

text \<open>A byte outside the region, and a byte of the region that has not been written, are still as they were.\<close>

lemma filling_outside: "filling M m U addr W S t \<Longrightarrow> a \<notin> addr ` U \<Longrightarrow> mmu_load M t a = mmu_load M m a"
  unfolding filling_def by (meson image_mono subsetD wrote_outside)

lemma load_outside: "filling M m U addr W S t \<Longrightarrow> a \<notin> addr ` U \<Longrightarrow> mmu_load M m a = Some v \<Longrightarrow> load_byte M t a = Inr v"
  using filling_outside by (metis load_byte_Inr_iff)

lemma filling_memcpy:
  assumes r: "region M m U addr" and fill: "filling M m U addr W S t"
    and key: "\<And>i. i < unat n \<Longrightarrow> key i \<in> U \<and> addr (key i) = dst + of_nat i"
    and src: "\<And>i. i < unat n \<Longrightarrow> src + of_nat i \<notin> addr ` U \<and> mmu_load M m (src + of_nat i) = Some (W (key i))"
  shows "succeeds (memcpy M dst src n t) (filling M m U addr W (S \<union> key ` {..<unat n}))"
proof -
  have ne: "dst + of_nat i \<noteq> src + of_nat j" if "i < unat n" "j < unat n" for i j using key src that by (metis imageI)
  have ov: "\<not> (n \<noteq> 0 \<and> (dst - src < n \<or> src - dst < n))"
  proof (rule notI, elim conjE disjE)
    assume n: "n \<noteq> 0"
    have "0 < unat n" using n by (simp add: unat_gt_0)
    then show False if "dst - src < n" using ne [of 0 "unat (dst - src)"] that by (simp add: word_less_nat_alt)
    show False if "src - dst < n" using ne [of "unat (src - dst)" 0] that \<open>0 < unat n\<close> by (simp add: word_less_nat_alt)
  qed
  have "succeeds (forE (unat n) (\<lambda>i m. bindE (load_byte M m (src + of_nat i)) (\<lambda>b. store_byte M m (dst + of_nat i) b)) t)
      (filling M m U addr W (S \<union> (\<Union>i < unat n. {key i})))"
  proof (rule forE_gather_from [of "filling M m U addr W", OF fill])
    fix i S t assume i: "i < unat n" and f: "filling M m U addr W S t"
    have "load_byte M t (src + of_nat i) = Inr (W (key i))" using load_outside [OF f] src [OF i] by blast
    then show "succeeds (bindE (load_byte M t (src + of_nat i)) (\<lambda>b. store_byte M t (dst + of_nat i) b)) (filling M m U addr W (S \<union> {key i}))"
      using filling_store [OF r _ f, of "key i"] key [OF i] by simp
  qed
  then show ?thesis using ov by (simp add: memcpy_def UNION_singleton_eq_range)
qed

section \<open>Tensors\<close>

definition pixel :: "u64 \<Rightarrow> nat \<Rightarrow> nat \<times> nat \<Rightarrow> u64" where
  "pixel p ch k = p + of_nat (fst k * ch + snd k)"

abbreviation elems :: "nat \<Rightarrow> nat \<Rightarrow> (nat \<times> nat) set" where "elems n ch \<equiv> {..<n} \<times> {..<ch}"

definition tensor :: "'m mmu \<Rightarrow> 'm \<Rightarrow> u64 \<Rightarrow> nat \<Rightarrow> nat \<Rightarrow> (nat \<Rightarrow> nat \<Rightarrow> u8) \<Rightarrow> bool" where
  "tensor M m p n ch X \<longleftrightarrow> (\<forall>s < n. \<forall>c < ch. mmu_load M m (pixel p ch (s, c)) = Some (X s c))"

text \<open>Room for a result, of a size that an \<open>int\<close> counts; and two arrays that share no byte.\<close>

definition room :: "'m mmu \<Rightarrow> 'm \<Rightarrow> u64 \<Rightarrow> nat \<Rightarrow> nat \<Rightarrow> bool" where
  "room M m p n ch \<longleftrightarrow> mmu_ok M \<and> n * ch < 2 ^ 31 \<and> (\<forall>k \<in> elems n ch. writable M m (pixel p ch k))"

definition apart :: "u64 \<Rightarrow> nat \<Rightarrow> u64 \<Rightarrow> nat \<Rightarrow> bool" where
  "apart p n q k \<longleftrightarrow> (\<forall>i < n. \<forall>j < k. p + of_nat i \<noteq> q + of_nat j)"

lemma apart_sym: "apart p n q k \<Longrightarrow> apart q k p n"
  unfolding apart_def by metis

lemma index_bound: "s < n \<Longrightarrow> c < ch \<Longrightarrow> s * ch + c < n * (ch :: nat)"
proof -
  assume "s < n" "c < ch"
  then have "s * ch + c < Suc s * ch" "Suc s * ch \<le> n * ch" by (simp, intro mult_right_mono) simp_all
  then show ?thesis by linarith
qed

lemma index_inj:
  assumes "s * ch + c = s' * ch + (c' :: nat)" "c < ch" "c' < ch"
  shows "s = s' \<and> c = c'"
proof -
  have "(s * ch + c) div ch = s" "(s * ch + c) mod ch = c" "(s' * ch + c') div ch = s'" "(s' * ch + c') mod ch = c'" using assms(2,3) by simp_all
  then show ?thesis using assms(1) by metis
qed

lemma pixel_inj: "n * ch \<le> 2 ^ 64 \<Longrightarrow> inj_on (pixel p ch) (elems n ch)"
proof (rule inj_onI)
  fix k l assume n: "n * ch \<le> 2 ^ 64" and k: "k \<in> elems n ch" and l: "l \<in> elems n ch" and eq: "pixel p ch k = pixel p ch l"
  have "fst k * ch + snd k < n * ch" "fst l * ch + snd l < n * ch" using k l by (auto intro: index_bound)
  then have "fst k * ch + snd k < 2 ^ 64" "fst l * ch + snd l < 2 ^ 64" using n by linarith+
  then have "fst k * ch + snd k = fst l * ch + snd l" using eq of_nat_u64_inj unfolding pixel_def by (metis add_left_cancel)
  then show "k = l" using index_inj k l by (metis mem_Times_iff lessThan_iff prod.expand)
qed

lemma room_region: "room M m p n ch \<Longrightarrow> region M m (elems n ch) (pixel p ch)"
  unfolding room_def region_def by (intro conjI pixel_inj) auto

lemma pixel_apart:
  assumes "apart p (n * ch) q (n' * ch')" "s < n" "c < ch"
  shows "pixel p ch (s, c) \<notin> pixel q ch' ` elems n' ch'"
proof
  assume "pixel p ch (s, c) \<in> pixel q ch' ` elems n' ch'"
  then obtain s' c' where e: "s' < n'" "c' < ch'" "pixel p ch (s, c) = pixel q ch' (s', c')" by auto
  then show False using assms index_bound [of s n c ch] index_bound [of s' n' c' ch'] unfolding apart_def pixel_def
    by (metis fst_conv snd_conv)
qed

lemma tensorI: "(\<And>s c. s < n \<Longrightarrow> c < ch \<Longrightarrow> mmu_load M m (pixel p ch (s, c)) = Some (X s c)) \<Longrightarrow> tensor M m p n ch X"
  by (simp add: tensor_def)

lemma tensor_load: "tensor M m p n ch X \<Longrightarrow> s < n \<Longrightarrow> c < ch \<Longrightarrow> load_byte M m (p + of_nat (s * ch + c)) = Inr (X s c)"
  by (metis fst_conv load_byte_Inr_iff pixel_def snd_conv tensor_def)

lemma tensor_cong: "(\<And>s c. s < n \<Longrightarrow> c < ch \<Longrightarrow> X s c = Y s c) \<Longrightarrow> tensor M m p n ch X \<longleftrightarrow> tensor M m p n ch Y"
  by (simp add: tensor_def)

lemma tensor_wrote: "wrote M m t (elems n ch) (pixel p ch) W \<Longrightarrow> tensor M t p n ch (\<lambda>s c. W (s, c))"
  by (simp add: tensor_def wrote_def)

lemma tensor_kept:
  assumes "wrote M m t S (pixel q ch') W" "S \<subseteq> elems n' ch'" "apart p (n * ch) q (n' * ch')" "tensor M m p n ch X"
  shows "tensor M t p n ch X"
proof (rule tensorI)
  fix s c assume "s < n" "c < ch"
  then have "pixel p ch (s, c) \<notin> pixel q ch' ` S" using pixel_apart [OF assms(3)] assms(2) by blast
  then show "mmu_load M t (pixel p ch (s, c)) = Some (X s c)"
    using wrote_outside [OF assms(1)] assms(4) \<open>s < n\<close> \<open>c < ch\<close> by (simp add: tensor_def)
qed

lemma room_wrote: "room M m p n ch \<Longrightarrow> wrote M m t S addr W \<Longrightarrow> room M t p n ch"
  by (simp add: room_def wrote_def)

text \<open>An index that an \<open>int\<close> holds is that index.\<close>

lemma to_i32_small: "- (2 ^ 31) \<le> x \<Longrightarrow> x < 2 ^ 31 \<Longrightarrow> to_i32 x = x"
  by (simp add: to_i32_def signed_of_int signed_take_bit_int_eq_self)

lemma off_index: "x = int n \<Longrightarrow> n < 2 ^ 31 \<Longrightarrow> off x = of_nat n"
  by (simp add: off_def to_i32_small)

lemma index_cover: "(\<Union>y < h. \<Union>x < w. {y * w + x}) = {..<h * (w :: nat)}"
proof (intro equalityI subsetI)
  fix s assume "s \<in> {..<h * w}"
  then have s: "s < h * w" by simp
  then have "0 < w" by (cases w) auto
  then have "s div w < h" "s mod w < w" using s by (simp_all add: less_mult_imp_div_less)
  moreover have "s \<in> {s div w * w + s mod w}" by simp
  ultimately show "s \<in> (\<Union>y < h. \<Union>x < w. {y * w + x})" by blast
qed (auto intro: index_bound)

text \<open>The loops over the rows, columns and channels of an image.\<close>

lemma fill_pixels:
  assumes r: "region M m (elems (h * w) ch) addr"
    and step: "\<And>y x c S t. y < h \<Longrightarrow> x < w \<Longrightarrow> c < ch \<Longrightarrow> filling M m (elems (h * w) ch) addr W S t \<Longrightarrow>
      f y x c t = store_byte M t (addr (y * w + x, c)) (W (y * w + x, c))"
  shows "succeeds (forE h (\<lambda>y. forE w (\<lambda>x. forE ch (f y x))) m) (\<lambda>t. wrote M m t (elems (h * w) ch) addr W)"
proof -
  let ?F = "filling M m (elems (h * w) ch) addr W"
  have "succeeds (forE h (\<lambda>y. forE w (\<lambda>x. forE ch (f y x))) m) (?F (\<Union>y < h. \<Union>x < w. \<Union>c < ch. {(y * w + x, c)}))"
  proof (rule forE_gather, simp, rule forE_gather_from, assumption, rule forE_gather_from, assumption)
    fix y x c S t assume "y < h" "x < w" "c < ch" and F: "?F S t"
    then show "succeeds (f y x c t) (?F (S \<union> {(y * w + x, c)}))"
      using filling_store [OF r _ F, of "(y * w + x, c)"] step [OF _ _ _ F] index_bound [of y h x w] by simp
  qed
  moreover have "(\<Union>y < h. \<Union>x < w. \<Union>c < ch. {(y * w + x, c)}) = (\<Union>y < h. \<Union>x < w. {y * w + x}) \<times> {..<ch}" by auto
  then have "(\<Union>y < h. \<Union>x < w. \<Union>c < ch. {(y * w + x, c)}) = elems (h * w) ch" by (simp only: index_cover)
  ultimately show ?thesis by (rule filling_done)
qed

section \<open>Arrays\<close>

text \<open>The same without channels: a tensor is an array of all its elements.\<close>

abbreviation elem_at :: "u64 \<Rightarrow> nat \<Rightarrow> u64" where "elem_at p i \<equiv> p + of_nat i"

definition array :: "'m mmu \<Rightarrow> 'm \<Rightarrow> u64 \<Rightarrow> nat \<Rightarrow> (nat \<Rightarrow> u8) \<Rightarrow> bool" where
  "array M m p n X \<longleftrightarrow> (\<forall>i < n. mmu_load M m (elem_at p i) = Some (X i))"

definition array_room :: "'m mmu \<Rightarrow> 'm \<Rightarrow> u64 \<Rightarrow> nat \<Rightarrow> bool" where
  "array_room M m p n \<longleftrightarrow> mmu_ok M \<and> n < 2 ^ 31 \<and> (\<forall>i < n. writable M m (elem_at p i))"

lemma elem_at_inj: "n \<le> 2 ^ 64 \<Longrightarrow> inj_on (elem_at p) {..<n}"
  by (rule inj_onI) (simp add: of_nat_u64_inj)

lemma array_region: "array_room M m p n \<Longrightarrow> region M m {..<n} (elem_at p)"
  unfolding array_room_def region_def by (intro conjI elem_at_inj) auto

lemma tensor_array: "tensor M m p n ch X \<longleftrightarrow> array M m p (n * ch) (\<lambda>i. X (i div ch) (i mod ch))"
proof
  assume l: "tensor M m p n ch X"
  show "array M m p (n * ch) (\<lambda>i. X (i div ch) (i mod ch))"
    unfolding array_def
  proof (intro allI impI)
    fix i assume i: "i < n * ch"
    then have "0 < ch" by (cases ch) auto
    then have "i div ch < n" "i mod ch < ch" using i by (simp_all add: less_mult_imp_div_less)
    then show "mmu_load M m (elem_at p i) = Some (X (i div ch) (i mod ch))"
      using l unfolding tensor_def pixel_def by (metis div_mult_mod_eq fst_conv snd_conv)
  qed
next
  assume r: "array M m p (n * ch) (\<lambda>i. X (i div ch) (i mod ch))"
  show "tensor M m p n ch X"
  proof (rule tensorI)
    fix s c assume "s < n" "c < ch"
    then have "(s * ch + c) div ch = s" "(s * ch + c) mod ch = c" "s * ch + c < n * ch" by (simp_all add: index_bound)
    then show "mmu_load M m (pixel p ch (s, c)) = Some (X s c)" using r unfolding array_def pixel_def by (metis fst_conv snd_conv)
  qed
qed

lemma pixel_image: "pixel p ch ` elems n ch = elem_at p ` {..<n * ch}"
proof -
  have "(\<lambda>k. fst k * ch + snd k) ` elems n ch = (\<Union>s < n. \<Union>c < ch. {s * ch + c})" by (force simp: image_iff)
  then have "(\<lambda>k. fst k * ch + snd k) ` elems n ch = {..<n * ch}" by (simp only: index_cover)
  then show ?thesis unfolding pixel_def by (metis image_image)
qed

lemma room_array: "room M m p n ch \<Longrightarrow> array_room M m p (n * ch)"
  unfolding room_def array_room_def
proof (intro conjI allI impI)
  fix i assume r: "mmu_ok M \<and> n * ch < 2 ^ 31 \<and> (\<forall>k \<in> elems n ch. writable M m (pixel p ch k))" and i: "i < n * ch"
  then have "elem_at p i \<in> pixel p ch ` elems n ch" unfolding pixel_image by blast
  then show "writable M m (elem_at p i)" using r by auto
qed auto

lemma wrote_pixels:
  assumes "wrote M m t {..<n * ch} (elem_at p) W"
  shows "wrote M m t (elems n ch) (pixel p ch) (\<lambda>(s, c). W (s * ch + c))"
proof (rule wrote_eqI [OF assms pixel_image [symmetric]])
  fix k assume "k \<in> elems n ch"
  then show "\<exists>i \<in> {..<n * ch}. elem_at p i = pixel p ch k \<and> W i = (case k of (s, c) \<Rightarrow> W (s * ch + c))"
    by (intro bexI [of _ "fst k * ch + snd k"]) (auto simp: pixel_def split: prod.splits intro: index_bound)
qed

text \<open>A loop over an array in order: what is at or above the index is still as it was.\<close>

lemma fill_in_order:
  assumes r: "region M m {..<n} addr"
    and step: "\<And>i t. i < n \<Longrightarrow> wrote M m t {..<i} addr W \<Longrightarrow> f i t = store_byte M t (addr i) (W i)"
  shows "succeeds (forE n f m) (\<lambda>t. wrote M m t {..<n} addr W)"
proof (rule forE_succeeds)
  fix i t assume i: "i < n" and w: "wrote M m t {..<i} addr W"
  have "filling M m {..<n} addr W {..<i} t" using i w by (auto simp: filling_def)
  then have "succeeds (store_byte M t (addr i) (W i)) (filling M m {..<n} addr W ({..<i} \<union> {i}))" using filling_store [OF r] i by simp
  then show "succeeds (f i t) (\<lambda>t. wrote M m t {..<Suc i} addr W)"
    unfolding step [OF i w] by (rule filling_done) auto
qed simp

text \<open>A source that is the target itself or shares no byte with it.\<close>

definition aligned :: "u64 \<Rightarrow> u64 \<Rightarrow> nat \<Rightarrow> bool" where
  "aligned p q n \<longleftrightarrow> p = q \<or> apart p n q n"

lemma load_aligned:
  assumes "aligned p q n" "i < n" "n \<le> 2 ^ 64" "wrote M m t {..<i} (elem_at q) W" "array M m p n X"
  shows "load_byte M t (elem_at p i) = Inr (X i)"
proof -
  have "elem_at p i \<notin> elem_at q ` {..<i}"
    using assms(1-3) by (auto simp: aligned_def apart_def of_nat_u64_inj)
  then have "mmu_load M t (elem_at p i) = mmu_load M m (elem_at p i)" by (rule wrote_outside [OF assms(4)])
  then show ?thesis using assms(2,5) by (simp add: load_byte_Inr_iff array_def)
qed

lemma array_kept: "wrote M m t {..<k} (elem_at q) W \<Longrightarrow> apart p n q k \<Longrightarrow> array M m p n X \<Longrightarrow> array M t p n X"
  unfolding array_def apart_def using wrote_outside by fastforce

lemma array_wrote: "wrote M m t {..<n} (elem_at p) W \<Longrightarrow> array M t p n W"
  by (simp add: array_def wrote_def)

section \<open>What a computation leaves alone\<close>

abbreviation extent :: "u64 \<Rightarrow> nat \<Rightarrow> u64 set" where "extent p n \<equiv> elem_at p ` {..<n}"

definition kept :: "'m mmu \<Rightarrow> 'm \<Rightarrow> 'm \<Rightarrow> u64 set \<Rightarrow> bool" where
  "kept M m t A \<longleftrightarrow> writable M t = writable M m \<and> (\<forall>a. a \<notin> A \<longrightarrow> mmu_load M t a = mmu_load M m a)"

lemma kept_trans: "kept M m t A \<Longrightarrow> kept M t u B \<Longrightarrow> A \<subseteq> C \<Longrightarrow> B \<subseteq> C \<Longrightarrow> kept M m u C"
  unfolding kept_def by (metis subsetD)

lemma wrote_keeps: "wrote M m t S addr W \<Longrightarrow> addr ` S \<subseteq> A \<Longrightarrow> kept M m t A"
  unfolding wrote_def kept_def by (metis subsetD)

lemma tensor_keeps: "kept M m t A \<Longrightarrow> tensor M m p n ch X \<Longrightarrow> extent p (n * ch) \<inter> A = {} \<Longrightarrow> tensor M t p n ch X"
  unfolding kept_def tensor_def pixel_image [symmetric] by (metis (no_types, lifting) IntI emptyE imageI lessThan_iff mem_Sigma_iff)

lemma array_keeps: "kept M m t A \<Longrightarrow> array M m p n X \<Longrightarrow> extent p n \<inter> A = {} \<Longrightarrow> array M t p n X"
  unfolding kept_def array_def by (metis (no_types, lifting) IntI emptyE imageI lessThan_iff)

lemma room_keeps: "kept M m t A \<Longrightarrow> room M m p n ch \<Longrightarrow> room M t p n ch"
  by (simp add: kept_def room_def)

lemma array_room_keeps: "kept M m t A \<Longrightarrow> array_room M m p n \<Longrightarrow> array_room M t p n"
  by (simp add: kept_def array_room_def)

lemma apart_extent: "apart p n q k \<longleftrightarrow> extent p n \<inter> extent q k = {}"
  unfolding apart_def by blast

text \<open>Regions in ascending order share no byte.\<close>

lemma apart_below:
  assumes "unat p + n \<le> unat q" "unat q + k \<le> 2 ^ 64"
  shows "apart p n q k"
  unfolding apart_def
proof (intro allI impI notI)
  fix i j assume ij: "i < n" "j < k" and eq: "elem_at p i = elem_at q j"
  have "unat (elem_at p i) = unat p + i" if "unat p + i < 2 ^ 64" for p :: u64 and i
  proof -
    have "unat (of_nat n :: u64) = n" if "n < 2 ^ 64" for n using that by (simp add: unat_of_nat take_bit_nat_eq_self)
    from this [OF that] have "unat (of_nat (unat p + i) :: u64) = unat p + i" .
    then show ?thesis by (simp only: of_nat_add of_nat_unat ucast_id)
  qed
  then have "unat (elem_at p i) = unat p + i" "unat (elem_at q j) = unat q + j" using ij assms by simp_all
  then show False using ij eq assms by simp
qed

section \<open>Arrays of floats\<close>

definition floats :: "'m mmu \<Rightarrow> 'm \<Rightarrow> u64 \<Rightarrow> nat \<Rightarrow> (nat \<Rightarrow> f32) \<Rightarrow> bool" where
  "floats M m p n F \<longleftrightarrow> (\<forall>i < n. read_f32 M m p (of_nat i) = Inr (F i))"

definition float_bytes :: "(nat \<Rightarrow> f32) \<Rightarrow> nat \<Rightarrow> u8" where
  "float_bytes F k = byte_of (F (k div 4)) (k mod 4)"

lemma float_addr: "p + of_nat i * 4 + of_nat b = elem_at p (4 * i + b)"
  by (simp add: algebra_simps)

lemma bytes_of_32: "bytes_of TYPE(32) = 4"
  by (simp add: bytes_of_def)

lemma floats_of_bytes:
  assumes "array M m p (4 * n) (float_bytes F)"
  shows "floats M m p n F"
  unfolding floats_def
proof (intro allI impI)
  fix i assume i: "i < n"
  have "mmu_load M m (p + of_nat i * 4 + of_nat b) = Some (byte_of (F i) b)" if "b < 4" for b
  proof -
    have "4 * i + b < 4 * n" "(4 * i + b) div 4 = i" "(4 * i + b) mod 4 = b" using i that by simp_all
    then show ?thesis using assms unfolding float_addr array_def float_bytes_def by metis
  qed
  then have "read_from_dram M m (p + of_nat i * 4) = Inr (word_of_bytes (byte_of (F i)) (bytes_of TYPE(32)) :: f32)"
    by (intro read_from_dram_bytes) (simp only: bytes_of_32)
  moreover have "word_of_bytes (byte_of (F i)) (bytes_of TYPE(32)) = F i" unfolding bytes_of_32 by (rule word_of_bytes_byte_of) simp
  ultimately show "read_f32 M m p (of_nat i) = Inr (F i)" by (simp only: read_f32_def)
qed

lemma fill_floats:
  assumes r: "array_room M m p (4 * n)"
    and step: "\<And>i t. i < n \<Longrightarrow> wrote M m t {..<4 * i} (elem_at p) (float_bytes F) \<Longrightarrow> f i t = write_f32 M p (of_nat i) (F i) t"
  shows "succeeds (forE n f m) (\<lambda>t. wrote M m t {..<4 * n} (elem_at p) (float_bytes F))"
proof (rule forE_succeeds)
  fix i t assume i: "i < n" and w: "wrote M m t {..<4 * i} (elem_at p) (float_bytes F)"
  have ok: "mmu_ok M" using r by (simp add: array_room_def)
  have "writable M t (elem_at p (4 * i + b))" if "b < 4" for b
  proof -
    have "4 * i + b < 4 * n" using i that by simp
    then have "writable M m (elem_at p (4 * i + b))" using r unfolding array_room_def by blast
    then show ?thesis using w unfolding wrote_def by (simp only:)
  qed
  then have wr: "writable M t (p + of_nat i * 4 + of_nat b)" if "b < bytes_of TYPE(32)" for b
    unfolding float_addr using that by (simp only: bytes_of_32)
  have "bytes_of TYPE(32) \<le> (2 :: nat) ^ 64" by (simp add: bytes_of_32)
  note spec = write_to_dram_spec [OF ok wr this, of "F i"]
  have inj: "inj_on (elem_at p) {..<4 * n}" using r by (intro elem_at_inj) (simp add: array_room_def)
  show "succeeds (f i t) (\<lambda>t. wrote M m t {..<4 * Suc i} (elem_at p) (float_bytes F))"
    unfolding step [OF i w] write_f32_def
  proof (rule succeeds_mono [OF spec])
    fix t' assume t': "writable M t' = writable M t \<and>
      (\<forall>b < bytes_of TYPE(32). mmu_load M t' (p + of_nat i * 4 + of_nat b) = Some (byte_of (F i) b)) \<and>
      (\<forall>a. (\<forall>b < bytes_of TYPE(32). a \<noteq> p + of_nat i * 4 + of_nat b) \<longrightarrow> mmu_load M t' a = mmu_load M t a)"
    have "wrote M t t' {4 * i..<4 * i + 4} (elem_at p) (float_bytes F)"
      unfolding wrote_def
    proof (intro conjI ballI allI impI)
      show "writable M t' = writable M t" using t' by blast
      show "mmu_load M t' (elem_at p k) = Some (float_bytes F k)" if k: "k \<in> {4 * i..<4 * i + 4}" for k
      proof -
        define b where "b = k - 4 * i"
        have b: "k = 4 * i + b" "b < 4" using k by (auto simp: b_def)
        then have "k div 4 = i" "k mod 4 = b" by simp_all
        moreover have "mmu_load M t' (p + of_nat i * 4 + of_nat b) = Some (byte_of (F i) b)" using t' b(2) bytes_of_32 by (simp only:)
        ultimately show ?thesis by (simp only: float_addr b(1) float_bytes_def)
      qed
      show "mmu_load M t' a = mmu_load M t a" if a: "a \<notin> elem_at p ` {4 * i..<4 * i + 4}" for a
      proof -
        have "4 * i + b \<in> {4 * i..<4 * i + 4}" if "b < 4" for b using that by simp
        then have "a \<noteq> elem_at p (4 * i + b)" if "b < 4" for b using a that by blast
        then have "\<forall>b < bytes_of TYPE(32). a \<noteq> p + of_nat i * 4 + of_nat b" unfolding float_addr bytes_of_32 by (intro allI impI)
        then show ?thesis using t' by blast
      qed
    qed
    then have "wrote M m t' ({..<4 * i} \<union> {4 * i..<4 * i + 4}) (elem_at p) (float_bytes F)"
      by (rule wrote_Un [OF w _ inj]) (use i in auto)
    moreover have "{..<4 * i} \<union> {4 * i..<4 * i + 4} = {..<4 * Suc i}" by auto
    ultimately show "wrote M m t' {..<4 * Suc i} (elem_at p) (float_bytes F)" by (simp only:)
  qed
qed simp

end
