(* ===== verification/Yolo_Pool_Correct.thy ===== *)
theory Yolo_Pool_Correct
  imports Tensors
begin

text \<open>
  Max-pooling: the loops compute the maximum over the part of the window inside the image, and pooling
  with stride one can be repeated instead of enlarging the window.
\<close>

section \<open>Max-pooling\<close>

text \<open>
  The reference: the maximum over the part of the window that lies inside the image, and -128 when there is
  none. \<open>y0\<close> and \<open>x0\<close> are the upper left corner of the window.
\<close>

definition window :: "nat \<Rightarrow> int \<Rightarrow> int \<Rightarrow> nat set" where
  "window n k y0 = {i. i < n \<and> y0 \<le> int i \<and> int i < y0 + k}"

definition pooled :: "nat \<Rightarrow> nat \<Rightarrow> (nat \<Rightarrow> nat \<Rightarrow> u8) \<Rightarrow> int \<Rightarrow> int \<Rightarrow> int \<Rightarrow> nat \<Rightarrow> int" where
  "pooled h w X k y0 x0 c = Max (insert (-128) ((\<lambda>(i, j). sint (X (i * w + j) c)) ` (window h k y0 \<times> window w k x0)))"

lemma finite_window [simp]: "finite (window n k y0)"
  by (simp add: window_def)

lemma window_union: "(\<Union>d < k. {i. int i = y0 + int d \<and> i < n}) = window n (int k) y0"
proof (intro equalityI subsetI)
  fix i assume "i \<in> window n (int k) y0"
  then have "int i = y0 + int (nat (int i - y0))" "nat (int i - y0) < k" "i < n" by (auto simp: window_def)
  then show "i \<in> (\<Union>d < k. {i. int i = y0 + int d \<and> i < n})" by blast
qed (auto simp: window_def)

lemma maxpool_window_value:
  assumes inp: "tensor M m inp (h * w) ch X" "h * w * ch < 2 ^ 31" "c < ch"
    and b: "- (2 ^ 30) \<le> y0" "y0 + int k < 2 ^ 31" "- (2 ^ 30) \<le> x0" "x0 + int k < 2 ^ 31"
  shows "maxpool_window M m inp (int ch) (int h) (int w) (int k) y0 x0 (int c) = Inr (word_of_int (pooled h w X (int k) y0 x0 c))"
proof -
  let ?f = "\<lambda>(i, j). sint (X (i * w + j) c)"
  let ?P = "\<lambda>S v. finite S \<and> sint (v :: u8) = Max (insert (-128) (?f ` S))"
  let ?T = "\<lambda>p q. {i. int i = y0 + int p \<and> i < h} \<times> {j. int j = x0 + int q \<and> j < w}"
  have fin: "finite (?T p q)" for p q by (rule finite_cartesian_product) simp_all
  have "succeeds (maxpool_window M m inp (int ch) (int h) (int w) (int k) y0 x0 (int c)) (?P (\<Union>p < k. \<Union>q < k. ?T p q))"
    unfolding maxpool_window_def nat_int
  proof (rule forE_gather, simp, rule forE_gather_from, assumption)
    fix p q S and v :: u8 assume pq: "p < k" "q < k" and P: "?P S v"
    have id: "to_i32 (y0 + int p) = y0 + int p" "to_i32 (x0 + int q) = x0 + int q" by (rule to_i32_small; use b pq in simp)+
    show "succeeds (let ih = to_i32 (y0 + int p); iw = to_i32 (x0 + int q) in
        if 0 \<le> ih \<and> ih < int h \<and> 0 \<le> iw \<and> iw < int w
        then bindE (load_byte M m (inp + off ((ih * int w + iw) * int ch + int c))) (\<lambda>val. Inr (if sint v < sint val then val else v))
        else Inr v) (?P (S \<union> ?T p q))"
    proof (cases "0 \<le> y0 + int p \<and> y0 + int p < int h \<and> 0 \<le> x0 + int q \<and> x0 + int q < int w")
      case True
      define i j where "i = nat (y0 + int p)" and "j = nat (x0 + int q)"
      have ij: "y0 + int p = int i" "x0 + int q = int j" "i < h" "j < w" using True by (auto simp: i_def j_def)
      have s: "i * w + j < h * w" using ij index_bound by blast
      then have "(i * w + j) * ch + c < h * w * ch" using index_bound inp(3) by blast
      then have o: "off ((int i * int w + int j) * int ch + int c) = of_nat ((i * w + j) * ch + c)" using inp(2) by (intro off_index) simp_all
      have ld: "load_byte M m (inp + of_nat ((i * w + j) * ch + c)) = Inr (X (i * w + j) c)"
        by (rule tensor_load [OF inp(1) s inp(3)])
      have T: "?T p q = {(i, j)}" using ij by auto
      define V where "V = sint (X (i * w + j) c)"
      define A where "A = insert (-128) (?f ` S)"
      have "insert (-128) (?f ` (S \<union> ?T p q)) = insert V A" by (auto simp: T V_def A_def)
      moreover have "Max (insert V A) = max V (sint v)" using P by (simp add: A_def)
      moreover have "sint (if sint v < sint (X (i * w + j) c) then X (i * w + j) c else v) = max V (sint v)" by (simp add: V_def max_def)
      ultimately have "sint (if sint v < sint (X (i * w + j) c) then X (i * w + j) c else v) = Max (insert (-128) (?f ` (S \<union> ?T p q)))"
        by (simp only:)
      moreover have "finite (S \<union> ?T p q)" using P fin by (simp only: finite_Un)
      ultimately have "?P (S \<union> ?T p q) (if sint v < sint (X (i * w + j) c) then X (i * w + j) c else v)" by (rule conjI [rotated])
      then show ?thesis using True by (simp only: ij id [unfolded ij(1,2)] Let_def o ld bindE.simps succeeds_simps if_True simp_thms)
    next
      case False
      then have "?T p q = {}" by auto
      then show ?thesis using False P by (simp only: id Let_def if_False succeeds_simps Un_empty_right)
    qed
  qed
  moreover have "(\<Union>p < k. \<Union>q < k. ?T p q) = window h (int k) y0 \<times> window w (int k) x0"
    unfolding window_union [symmetric] by blast
  ultimately obtain v where v: "maxpool_window M m inp (int ch) (int h) (int w) (int k) y0 x0 (int c) = Inr v" "sint v = pooled h w X (int k) y0 x0 c"
    by (auto simp: succeeds_iff pooled_def)
  have "(word_of_int (sint v) :: u8) = v" by simp
  then show ?thesis by (simp only: v)
qed

definition pool_dim :: "nat \<Rightarrow> nat \<Rightarrow> nat \<Rightarrow> nat \<Rightarrow> nat" where
  "pool_dim n k st pad = (n + 2 * pad - k) div st + 1"

lemma trunc_div_nat: "trunc_div (int a) (int b) = int (a div b)"
  by (simp add: trunc_div_def zdiv_int)

lemma pool_dim_int:
  assumes "k \<le> n + 2 * pad"
  shows "trunc_div (int n + 2 * int pad - int k) (int st) + 1 = int (pool_dim n k st pad)"
proof -
  have "int n + 2 * int pad - int k = int (n + 2 * pad - k)" using assms by simp
  then show ?thesis by (simp only: trunc_div_nat pool_dim_def)
qed

text \<open>The last window ends with the padded image.\<close>

lemma pool_dim_window: "y < pool_dim n k st pad \<Longrightarrow> k \<le> n + 2 * pad \<Longrightarrow> y * st + k \<le> n + 2 * pad"
proof -
  assume y: "y < pool_dim n k st pad" and k: "k \<le> n + 2 * pad"
  have "y * st \<le> (n + 2 * pad - k) div st * st" using y by (intro mult_right_mono) (simp_all add: pool_dim_def)
  also have "\<dots> \<le> n + 2 * pad - k" by simp
  finally show ?thesis using k by linarith
qed

lemma maxpool:
  fixes h w ch k st pad :: nat
  defines "oh \<equiv> pool_dim h k st pad" and "ow \<equiv> pool_dim w k st pad"
  assumes inp: "tensor M m inp (h * w) ch X" "h * w * ch < 2 ^ 31" and k: "k \<le> h + 2 * pad" "k \<le> w + 2 * pad" "0 < st"
    and b: "h + 2 * pad < 2 ^ 30" "w + 2 * pad < 2 ^ 30"
    and out: "room M m out (oh * ow) ch" "apart inp (h * w * ch) out (oh * ow * ch)"
  shows "succeeds (shen_maxpool_nhwc M inp out (int ch) (int h) (int w) (int k) (int st) (int pad) m)
    (\<lambda>t. wrote M m t (elems (oh * ow) ch) (pixel out ch)
      (\<lambda>(s, c). word_of_int (pooled h w X (int k) (int (s div ow) * int st - int pad) (int (s mod ow) * int st - int pad) c)))"
proof -
  let ?W = "\<lambda>(s, c). word_of_int (pooled h w X (int k) (int (s div ow) * int st - int pad) (int (s mod ow) * int st - int pad) c) :: u8"
  have lim: "oh * ow * ch < 2 ^ 31" using out by (simp add: room_def)
  have dims: "trunc_div (int h + 2 * int pad - int k) (int st) + 1 = int oh" "trunc_div (int w + 2 * int pad - int k) (int st) + 1 = int ow"
    using k by (simp_all add: pool_dim_int oh_def ow_def)
  have eq: "shen_maxpool_nhwc M inp out (int ch) (int h) (int w) (int k) (int st) (int pad) m = forE oh (\<lambda>y. forE ow (\<lambda>x. forE ch (\<lambda>c m.
      bindE (maxpool_window M m inp (int ch) (int h) (int w) (int k) (int y * int st - int pad) (int x * int st - int pad) (int c)) (\<lambda>max_val.
      store_byte M m (out + off ((int y * int ow + int x) * int ch + int c)) max_val)))) m"
    using k(3) by (simp add: shen_maxpool_nhwc_def dims)
  show ?thesis
    unfolding eq
  proof (rule fill_pixels [OF room_region [OF out(1)]])
    fix y x c S t assume yxc: "y < oh" "x < ow" "c < ch" and f: "filling M m (elems (oh * ow) ch) (pixel out ch) ?W S t"
    have w: "wrote M m t S (pixel out ch) ?W" "S \<subseteq> elems (oh * ow) ch" using f by (simp_all add: filling_def)
    have T: "tensor M t inp (h * w) ch X" by (rule tensor_kept [OF w out(2) inp(1)])
    have win: "y * st + k \<le> h + 2 * pad" "x * st + k \<le> w + 2 * pad" using yxc k by (simp_all add: pool_dim_window oh_def ow_def)
    have bound: "- (2 ^ 30) \<le> int i * int st - int pad" "int i * int st - int pad + int k < 2 ^ 31"
      if "i * st + k \<le> n + 2 * pad" "n + 2 * pad < 2 ^ 30" for i n
    proof -
      define z where "z = int i * int st"
      have z: "0 \<le> z" by (simp add: z_def)
      have "z + int k \<le> int n + 2 * int pad" using that(1) unfolding z_def by (metis of_nat_add of_nat_le_iff of_nat_mult of_nat_numeral)
      moreover have "int n + 2 * int pad < 2 ^ 30" using that(2) by simp
      ultimately show "- (2 ^ 30) \<le> int i * int st - int pad" "int i * int st - int pad + int k < 2 ^ 31"
        unfolding z_def [symmetric] using z by simp_all
    qed
    have v: "maxpool_window M t inp (int ch) (int h) (int w) (int k) (int y * int st - int pad) (int x * int st - int pad) (int c) =
        Inr (word_of_int (pooled h w X (int k) (int y * int st - int pad) (int x * int st - int pad) c))"
      by (rule maxpool_window_value [OF T inp(2) yxc(3) bound [OF win(1) b(1)] bound [OF win(2) b(2)]])
    have "(y * ow + x) * ch + c < oh * ow * ch" by (intro index_bound yxc)
    then have o: "off ((int y * int ow + int x) * int ch + int c) = of_nat ((y * ow + x) * ch + c)" using lim by (intro off_index) simp_all
    have W: "?W (y * ow + x, c) = word_of_int (pooled h w X (int k) (int y * int st - int pad) (int x * int st - int pad) c)" using yxc by simp
    show "bindE (maxpool_window M t inp (int ch) (int h) (int w) (int k) (int y * int st - int pad) (int x * int st - int pad) (int c)) (\<lambda>max_val.
        store_byte M t (out + off ((int y * int ow + int x) * int ch + int c)) max_val) = store_byte M t (pixel out ch (y * ow + x, c)) (?W (y * ow + x, c))"
      by (simp only: v o W bindE.simps pixel_def fst_conv snd_conv)
  qed
qed

section \<open>A cascade of pools\<close>

text \<open>
  Pooling a pooled image with stride one: the windows add up. The position between two others is inside the image when
  they are, so that nothing is lost at the border.
\<close>

lemma window_cascade:
  assumes "y < n"
  shows "(\<Union>i \<in> window n (2 * int r + 1) (int y - int r). window n (2 * int s + 1) (int i - int s)) = window n (2 * int (r + s) + 1) (int y - int (r + s))"
proof (intro equalityI subsetI)
  fix j assume "j \<in> window n (2 * int (r + s) + 1) (int y - int (r + s))"
  then have j: "j < n" "int y - int (r + s) \<le> int j" "int j \<le> int y + int (r + s)" by (auto simp: window_def)
  define i where "i = (if j < y then max j (y - r) else min j (y + r))"
  have "i \<in> window n (2 * int r + 1) (int y - int r)" "j \<in> window n (2 * int s + 1) (int i - int s)"
    using j assms by (auto simp: window_def i_def)
  then show "j \<in> (\<Union>i \<in> window n (2 * int r + 1) (int y - int r). window n (2 * int s + 1) (int i - int s))" by blast
qed (auto simp: window_def)

lemma pooled_range: "-128 \<le> pooled h w X k y0 x0 c" "pooled h w X k y0 x0 c \<le> 127"
proof -
  let ?S = "(\<lambda>(i, j). sint (X (i * w + j) c)) ` (window h k y0 \<times> window w k x0)"
  have "sint v \<le> 127" for v :: u8 using sint_lt [of v] by simp
  then have "\<forall>x \<in> insert (-128) ?S. x \<le> 127" by auto
  then show "pooled h w X k y0 x0 c \<le> 127" unfolding pooled_def by (subst Max_le_iff) auto
  show "-128 \<le> pooled h w X k y0 x0 c" unfolding pooled_def by (rule Max_ge) auto
qed

lemma sint_pooled: "sint (word_of_int (pooled h w X k y0 x0 c) :: u8) = pooled h w X k y0 x0 c"
  using pooled_range [of h w X k y0 x0 c] by (simp add: signed_of_int signed_take_bit_int_eq_self)

lemma Max_of_Max:
  fixes f :: "'a \<Rightarrow> int"
  assumes "finite R" "\<And>q. q \<in> R \<Longrightarrow> finite (In q)"
  shows "Max (insert b ((\<lambda>q. Max (insert b (f ` In q))) ` R)) = Max (insert b (f ` (\<Union>q \<in> R. In q)))"
proof (rule antisym)
  have fin: "finite (insert b (f ` (\<Union>q \<in> R. In q)))" using assms by simp
  have "Max (insert b (f ` In q)) \<le> Max (insert b (f ` (\<Union>q \<in> R. In q)))" if "q \<in> R" for q
    by (rule Max_mono) (use that fin in auto)
  then show "Max (insert b ((\<lambda>q. Max (insert b (f ` In q))) ` R)) \<le> Max (insert b (f ` (\<Union>q \<in> R. In q)))"
    using assms fin by (subst Max_le_iff) auto
next
  have "f x \<le> Max (insert b ((\<lambda>q. Max (insert b (f ` In q))) ` R))" if "q \<in> R" "x \<in> In q" for q x
  proof -
    have "f x \<le> Max (insert b (f ` In q))" using assms that by simp
    also have "\<dots> \<le> Max (insert b ((\<lambda>q. Max (insert b (f ` In q))) ` R))" using assms that by (intro Max_ge) auto
    finally show ?thesis .
  qed
  then show "Max (insert b (f ` (\<Union>q \<in> R. In q))) \<le> Max (insert b ((\<lambda>q. Max (insert b (f ` In q))) ` R))"
    using assms by (subst Max_le_iff) auto
qed

lemma pooled_cascade:
  assumes "y < h" "x < w"
  shows "pooled h w (\<lambda>s c. word_of_int (pooled h w X (2 * int s' + 1) (int (s div w) - int s') (int (s mod w) - int s') c)) (2 * int r + 1) (int y - int r) (int x - int r) c =
    pooled h w X (2 * int (r + s') + 1) (int y - int (r + s')) (int x - int (r + s')) c"
proof -
  let ?R = "window h (2 * int r + 1) (int y - int r) \<times> window w (2 * int r + 1) (int x - int r)"
  let ?In = "\<lambda>(i, j). window h (2 * int s' + 1) (int i - int s') \<times> window w (2 * int s' + 1) (int j - int s')"
  let ?f = "\<lambda>(i, j). sint (X (i * w + j) c)"
  have in_w: "j < w" if "j \<in> window w k x0" for j k x0 using that by (simp add: window_def)
  have "(\<lambda>(i, j). sint (word_of_int (pooled h w X (2 * int s' + 1) (int ((i * w + j) div w) - int s') (int ((i * w + j) mod w) - int s') c) :: u8)) ` ?R =
      (\<lambda>q. Max (insert (-128) (?f ` ?In q))) ` ?R"
  proof (rule image_cong [OF refl], clarify)
    fix i j assume "j \<in> window w (2 * int r + 1) (int x - int r)"
    then have "j < w" by (rule in_w)
    then have ij: "(i * w + j) div w = i" "(i * w + j) mod w = j" by simp_all
    show "sint (word_of_int (pooled h w X (2 * int s' + 1) (int ((i * w + j) div w) - int s') (int ((i * w + j) mod w) - int s') c) :: u8) =
        Max (insert (-128) (?f ` (window h (2 * int s' + 1) (int i - int s') \<times> window w (2 * int s' + 1) (int j - int s'))))"
      unfolding sint_pooled ij by (simp add: pooled_def)
  qed
  moreover have "Max (insert (-128) ((\<lambda>q. Max (insert (-128) (?f ` ?In q))) ` ?R)) = Max (insert (-128) (?f ` (\<Union>q \<in> ?R. ?In q)))"
    by (rule Max_of_Max) auto
  moreover have "(\<Union>q \<in> ?R. ?In q) = (\<Union>i \<in> window h (2 * int r + 1) (int y - int r). window h (2 * int s' + 1) (int i - int s')) \<times>
      (\<Union>j \<in> window w (2 * int r + 1) (int x - int r). window w (2 * int s' + 1) (int j - int s'))" by auto
  ultimately show ?thesis unfolding pooled_def window_cascade [OF assms(1)] window_cascade [OF assms(2)] by (simp only:)
qed

text \<open>The image that pooling with a window of \<open>2 r + 1\<close> and stride one makes.\<close>

definition pool_image :: "nat \<Rightarrow> nat \<Rightarrow> nat \<Rightarrow> (nat \<Rightarrow> nat \<Rightarrow> u8) \<Rightarrow> nat \<Rightarrow> nat \<Rightarrow> u8" where
  "pool_image h w r X s c = word_of_int (pooled h w X (2 * int r + 1) (int (s div w) - int r) (int (s mod w) - int r) c)"

lemma pool_image_cascade: "s < h * w \<Longrightarrow> pool_image h w r (pool_image h w r' X) s c = pool_image h w (r + r') X s c"
proof -
  assume s: "s < h * w"
  then have "0 < w" by (cases w) auto
  then have "s div w < h" "s mod w < w" using s by (simp_all add: less_mult_imp_div_less)
  from pooled_cascade [OF this, of X r' r c] show ?thesis unfolding pool_image_def by (simp only:)
qed

lemma pool_image_cong: "(\<And>s c. s < h * w \<Longrightarrow> X s c = Y s c) \<Longrightarrow> pool_image h w r X s c = pool_image h w r Y s c"
proof -
  assume eq: "\<And>s c. s < h * w \<Longrightarrow> X s c = Y s c"
  have "(\<lambda>(i, j). sint (X (i * w + j) c)) ` (window h k y0 \<times> window w k x0) = (\<lambda>(i, j). sint (Y (i * w + j) c)) ` (window h k y0 \<times> window w k x0)" for k y0 x0
    by (rule image_cong) (auto simp: window_def index_bound eq)
  then show ?thesis unfolding pool_image_def pooled_def by (simp only:)
qed

lemma maxpool_same_size:
  assumes inp: "tensor M m inp (h * w) ch X" and b: "h + 2 * r < 2 ^ 30" "w + 2 * r < 2 ^ 30" "0 < h" "0 < w"
    and out: "room M m out (h * w) ch" "apart inp (h * w * ch) out (h * w * ch)"
  shows "succeeds (shen_maxpool_nhwc M inp out (int ch) (int h) (int w) (int (2 * r + 1)) 1 (int r) m)
    (\<lambda>t. wrote M m t (elems (h * w) ch) (pixel out ch) (\<lambda>(s, c). pool_image h w r X s c))"
proof -
  have d: "pool_dim n (2 * r + 1) 1 r = n" if "0 < n" for n using that by (simp add: pool_dim_def)
  have "h * w * ch < 2 ^ 31" using out(1) by (simp add: room_def)
  note pool = maxpool [where h = h and w = w and k = "2 * r + 1" and st = 1 and pad = r, unfolded d [OF b(3)] d [OF b(4)], OF inp this _ _ _ b(1,2) out]
  have "2 * r + 1 \<le> h + 2 * r" "2 * r + 1 \<le> w + 2 * r" using b by simp_all
  from pool [OF this] show ?thesis unfolding pool_image_def by (simp add: add.commute)
qed

end
