(* ===== verification/Nn_Layers_Correct.thy ===== *)
theory Nn_Layers_Correct
  imports Nn_Layers Yolo_Pool_Correct
begin

text \<open>
  What the layers of \<open>gemmini_nn.h\<close> compute. The functions exist twice, for a tensor and for the matrix of its pixels that
  a product leaves behind (\<open>col2im\<close>); both are shown to compute the same reference.
\<close>

section \<open>Loops and indices\<close>

text \<open>Three nested loops that count their rounds.\<close>

lemma forE3_count:
  fixes a b d :: nat
  assumes start: "P 0 s" and step: "\<And>i j l t. i < a \<Longrightarrow> j < b \<Longrightarrow> l < d \<Longrightarrow> P ((i * b + j) * d + l) t \<Longrightarrow> succeeds (f i j l t) (P (Suc ((i * b + j) * d + l)))"
  shows "succeeds (forE a (\<lambda>i. forE b (\<lambda>j. forE d (f i j))) s) (P (a * b * d))"
proof -
  have 3: "succeeds (forE d (f i j) t) (P (Suc (i * b + j) * d))" if "i < a" "j < b" "P ((i * b + j) * d) t" for i j t
    using forE_succeeds [of "\<lambda>l. P ((i * b + j) * d + l)" t d "f i j"] step that by (simp add: add.commute)
  have 2: "succeeds (forE b (\<lambda>j. forE d (f i j)) t) (P (Suc i * b * d))" if "i < a" "P (i * b * d) t" for i t
    using forE_succeeds [of "\<lambda>j. P ((i * b + j) * d)" t b "\<lambda>j. forE d (f i j)"] 3 that by (simp add: add.commute)
  show ?thesis using forE_succeeds [of "\<lambda>i. P (i * b * d)" s a] 2 start by simp
qed

lemma off_of_int: "0 \<le> x \<Longrightarrow> x < 2 ^ 31 \<Longrightarrow> off x = of_int x"
  by (simp add: off_def to_i32_small)

lemma at4_pixel:
  "at4 p (of_nat h) (of_nat w) (of_nat ch) (of_nat n) (of_nat y) (of_nat x) (of_nat c) = pixel p ch ((n * h + y) * w + x, c)"
  by (simp add: at4_def pixel_def)

lemma region_subset: "region M m U addr \<Longrightarrow> V \<subseteq> U \<Longrightarrow> region M m V addr"
  unfolding region_def by (blast intro: inj_on_subset)

section \<open>im2col\<close>

text \<open>
  The reference: the number of patches in a column and a row of patches, and the element of the image that a cell of the matrix
  holds, none for a cell in the padding. A row of the matrix is a patch, its columns run over filter row, filter column and
  channel.
\<close>

definition patch_rows :: "ConvParams \<Rightarrow> nat" where
  "patch_rows p = nat ((cp_in_row_dim p + 2 * cp_padding p - cp_kernel_size p) div cp_stride p + 1)"

definition patch_cols :: "ConvParams \<Rightarrow> nat" where
  "patch_cols p = nat ((cp_in_col_dim p + 2 * cp_padding p - cp_kernel_size p) div cp_stride p + 1)"

definition patch_size :: "ConvParams \<Rightarrow> nat" where
  "patch_size p = nat (cp_kernel_size p) * nat (cp_kernel_size p) * nat (cp_in_channels p)"

definition patch_elem :: "ConvParams \<Rightarrow> nat \<times> nat \<Rightarrow> (nat \<times> nat) option" where
  "patch_elem p = (\<lambda>(r, q).
     let n = r div patch_cols p div patch_rows p; k = nat (cp_kernel_size p); ch = nat (cp_in_channels p);
         y = int (r div patch_cols p mod patch_rows p) * cp_stride p - cp_padding p + int (q div ch div k);
         x = int (r mod patch_cols p) * cp_stride p - cp_padding p + int (q div ch mod k) in
     if 0 \<le> y \<and> y < cp_in_row_dim p \<and> 0 \<le> x \<and> x < cp_in_col_dim p
     then Some ((n * nat (cp_in_row_dim p) + nat y) * nat (cp_in_col_dim p) + nat x, q mod ch) else None)"

definition patch_params :: "ConvParams \<Rightarrow> bool" where
  "patch_params p \<longleftrightarrow> 0 < cp_stride p \<and> 0 \<le> cp_padding p \<and> 0 \<le> cp_batch_size p \<and> 0 \<le> cp_in_channels p \<and>
     0 \<le> cp_in_row_dim p \<and> 0 \<le> cp_in_col_dim p \<and>
     0 \<le> cp_kernel_size p \<and> cp_kernel_size p \<le> cp_in_row_dim p + 2 * cp_padding p \<and> cp_kernel_size p \<le> cp_in_col_dim p + 2 * cp_padding p \<and>
     cp_in_row_dim p + 2 * cp_padding p < 2 ^ 30 \<and> cp_in_col_dim p + 2 * cp_padding p < 2 ^ 30"

definition patch_value :: "ConvParams \<Rightarrow> (nat \<Rightarrow> nat \<Rightarrow> u8) \<Rightarrow> nat \<times> nat \<Rightarrow> u8" where
  "patch_value p X e = (case patch_elem p e of Some (s, c) \<Rightarrow> X s c | None \<Rightarrow> 0)"

definition patch_cells :: "ConvParams \<Rightarrow> (nat \<times> nat) set" where
  "patch_cells p = {e \<in> elems (nat (cp_batch_size p) * patch_rows p * patch_cols p) (patch_size p). patch_elem p e \<noteq> None}"

text \<open>The cells among the first \<open>j\<close>, row by row.\<close>

definition patch_upto :: "ConvParams \<Rightarrow> nat \<Rightarrow> (nat \<times> nat) set" where
  "patch_upto p j = {(r, q) \<in> patch_cells p. r * patch_size p + q < j}"

lemma patch_upto_Suc:
  assumes "q < patch_size p"
  shows "patch_upto p (Suc (r * patch_size p + q)) = patch_upto p (r * patch_size p + q) \<union> ({(r, q)} \<inter> patch_cells p)"
proof -
  have "r' * patch_size p + q' < Suc (r * patch_size p + q) \<longleftrightarrow> r' * patch_size p + q' < r * patch_size p + q \<or> (r', q') = (r, q)"
    if "q' < patch_size p" for r' q'
    using index_inj [of r' "patch_size p" q' r q] that assms by (auto simp: less_Suc_eq)
  then show ?thesis unfolding patch_upto_def patch_cells_def by fastforce
qed

lemma patch_upto_all: "patch_upto p (nat (cp_batch_size p) * patch_rows p * patch_cols p * patch_size p) = patch_cells p"
  unfolding patch_upto_def patch_cells_def by (auto intro: index_bound)

lemma int_steps_patches:
  assumes "0 < st" "0 \<le> pad" "0 \<le> k" "k \<le> d + 2 * pad" "d + 2 * pad < 2 ^ 30" "0 \<le> d"
  shows "int_steps (- pad) (to_i32 (d - k + pad + 1)) st = Inr (map (\<lambda>i. int i * st - pad) [0..<nat ((d + 2 * pad - k) div st + 1)])"
proof -
  have i32: "to_i32 (d - k + pad + 1) = d - k + pad + 1" by (rule to_i32_small) (use assms in simp_all)
  have "d - k + pad + 1 - - pad + st - 1 = (d + 2 * pad - k) + st" by simp
  moreover have "((d + 2 * pad - k) + st) div st = (d + 2 * pad - k) div st + 1" using assms(1) by (intro div_add_self2) simp
  ultimately have "(d - k + pad + 1 - - pad + st - 1) div st = (d + 2 * pad - k) div st + 1" by (simp only:)
  then show ?thesis unfolding int_steps_def i32 using assms by (simp add: add.commute)
qed

text \<open>The last patch ends with the padded image.\<close>

lemma steps_fit: "int i < d div st + 1 \<Longrightarrow> 0 < st \<Longrightarrow> int i * st \<le> (d :: int)"
proof -
  assume i: "int i < d div st + 1" and st: "0 < st"
  have "int i * st \<le> d div st * st" using i st by (intro mult_right_mono) simp_all
  also have "\<dots> \<le> d" using minus_mod_eq_div_mult [of d st] pos_mod_sign [OF st, of d] by simp
  finally show ?thesis .
qed

lemma patch_fits:
  assumes "patch_params p"
  shows "i < patch_rows p \<Longrightarrow> int i * cp_stride p + cp_kernel_size p \<le> cp_in_row_dim p + 2 * cp_padding p"
    "j < patch_cols p \<Longrightarrow> int j * cp_stride p + cp_kernel_size p \<le> cp_in_col_dim p + 2 * cp_padding p"
proof -
  show "int i * cp_stride p + cp_kernel_size p \<le> cp_in_row_dim p + 2 * cp_padding p" if "i < patch_rows p"
    using steps_fit [of i "cp_in_row_dim p + 2 * cp_padding p - cp_kernel_size p" "cp_stride p"] that assms by (simp add: patch_params_def patch_rows_def zless_nat_eq_int_zless)
  show "int j * cp_stride p + cp_kernel_size p \<le> cp_in_col_dim p + 2 * cp_padding p" if "j < patch_cols p"
    using steps_fit [of j "cp_in_col_dim p + 2 * cp_padding p - cp_kernel_size p" "cp_stride p"] that assms by (simp add: patch_params_def patch_cols_def zless_nat_eq_int_zless)
qed

text \<open>The loops, for any way to find an element of the image; the two functions differ in nothing else.\<close>

definition patch_loop ::
  "'m mmu \<Rightarrow> (nat \<Rightarrow> int \<Rightarrow> int \<Rightarrow> nat \<Rightarrow> u64) \<Rightarrow> u64 \<Rightarrow> u64 \<Rightarrow> ConvParams \<Rightarrow> nat \<Rightarrow> int \<Rightarrow> int \<Rightarrow> int \<Rightarrow> 'm \<Rightarrow> 'm res" where
  "patch_loop M A K out p n y0 x0 r m =
     bindE (forE (nat (cp_kernel_size p)) (\<lambda>fr. forE (nat (cp_kernel_size p)) (\<lambda>fc. forE (nat (cp_in_channels p)) (\<lambda>c (q, m).
       let y = to_i32 (y0 + int fr); x = to_i32 (x0 + int fc) in
       bindE (if y < 0 \<or> cp_in_row_dim p \<le> y \<or> x < 0 \<or> cp_in_col_dim p \<le> x then Inr m
         else bindE (load_byte M m (A n y x c)) (\<lambda>v. store_byte M m (out + (off r * K + off q)) v)) (\<lambda>m. Inr (q + 1, m))))) (0, m)) (\<lambda>(_, m). Inr m)"

lemma im2col_patch_loop:
  "im2col_patch M ch h w K inp out p n y0 x0 r m = patch_loop M (\<lambda>n y x c. at4 inp h w ch (of_nat n) (of_int y) (of_int x) (of_nat c)) K out p n y0 x0 r m"
  unfolding im2col_patch_def patch_loop_def ..

lemma im2col_col2im_patch_loop:
  "im2col_col2im_patch M J K inp out p n y0 x0 r m =
    patch_loop M (\<lambda>n y x c. inp + (off (to_i32 (int n * cp_in_row_dim p * cp_in_col_dim p + y * cp_in_col_dim p + x)) * J + off (int c))) K out p n y0 x0 r m"
  unfolding im2col_col2im_patch_def patch_loop_def Let_def ..

lemma patch_loop_fills:
  fixes p :: ConvParams
  defines "N \<equiv> nat (cp_batch_size p)" and "h \<equiv> nat (cp_in_row_dim p)" and "w \<equiv> nat (cp_in_col_dim p)" and "ch \<equiv> nat (cp_in_channels p)"
    and "k \<equiv> nat (cp_kernel_size p)"
  assumes p: "patch_params p" and inp: "tensor M m inp (N * h * w) ch X"
    and out: "room M m out (N * patch_rows p * patch_cols p) (patch_size p)" "apart inp (N * h * w * ch) out (N * patch_rows p * patch_cols p * patch_size p)"
    and A: "\<And>n y x c. n < N \<Longrightarrow> y < h \<Longrightarrow> x < w \<Longrightarrow> c < ch \<Longrightarrow> A n (int y) (int x) c = pixel inp ch ((n * h + y) * w + x, c)"
    and n: "n < N" and i: "i < patch_rows p" and j: "j < patch_cols p"
    and f: "filling M m (patch_cells p) (pixel out (patch_size p)) (patch_value p X) (patch_upto p (((n * patch_rows p + i) * patch_cols p + j) * patch_size p)) t"
  shows "succeeds (patch_loop M A (of_nat (patch_size p)) out p n (int i * cp_stride p - cp_padding p) (int j * cp_stride p - cp_padding p)
      (int ((n * patch_rows p + i) * patch_cols p + j)) t)
    (filling M m (patch_cells p) (pixel out (patch_size p)) (patch_value p X) (patch_upto p (Suc ((n * patch_rows p + i) * patch_cols p + j) * patch_size p)))"
proof -
  define r where "r = (n * patch_rows p + i) * patch_cols p + j"
  define y0 x0 where "y0 = int i * cp_stride p - cp_padding p" and "x0 = int j * cp_stride p - cp_padding p"
  let ?F = "\<lambda>S. filling M m (patch_cells p) (pixel out (patch_size p)) (patch_value p X) S"
  let ?P = "\<lambda>q (z, t). z = int q \<and> ?F (patch_upto p (r * patch_size p + q)) t"
  have rN: "r < N * patch_rows p * patch_cols p" unfolding r_def by (intro index_bound n i j)
  have rd: "r div patch_cols p = n * patch_rows p + i" "r mod patch_cols p = j" using j by (simp_all add: r_def)
  have rd2: "r div patch_cols p div patch_rows p = n" "r div patch_cols p mod patch_rows p = i" unfolding rd(1) using i by simp_all
  have reg: "region M m (patch_cells p) (pixel out (patch_size p))"
    by (rule region_subset [OF room_region [OF out(1)]]) (auto simp: patch_cells_def N_def)
  have sz: "patch_size p = k * k * ch" by (simp add: patch_size_def k_def ch_def)
  have "succeeds (forE k (\<lambda>fr. forE k (\<lambda>fc. forE ch (\<lambda>c (q, m).
       let y = to_i32 (y0 + int fr); x = to_i32 (x0 + int fc) in
       bindE (if y < 0 \<or> cp_in_row_dim p \<le> y \<or> x < 0 \<or> cp_in_col_dim p \<le> x then Inr m
         else bindE (load_byte M m (A n y x c)) (\<lambda>v. store_byte M m (out + (off (int r) * of_nat (patch_size p) + off q)) v)) (\<lambda>m. Inr (q + 1, m))))) (0, t)) (?P (k * k * ch))"
  proof (rule forE3_count [of ?P])
    show "?P 0 (0, t)" using f by (simp add: r_def)
  next
    fix fr fc c and u :: "int \<times> 'a"
    assume l: "fr < k" "fc < k" "c < ch" and P: "?P ((fr * k + fc) * ch + c) u"
    define q where "q = (fr * k + fc) * ch + c"
    obtain t where u: "u = (int q, t)" and f: "?F (patch_upto p (r * patch_size p + q)) t" using P by (cases u) (auto simp: q_def)
    have q: "q < patch_size p" unfolding sz q_def by (intro index_bound l)
    have "q div ch = fr * k + fc" "q mod ch = c" using l by (simp_all add: q_def)
    then have qd: "q div ch div k = fr" "q div ch mod k = fc" "q mod ch = c" using l by simp_all
    define y x where "y = y0 + int fr" and "x = x0 + int fc"
    have b: "0 < cp_stride p" "0 \<le> cp_padding p" "cp_padding p < 2 ^ 30" "int k = cp_kernel_size p"
      "int i * cp_stride p + cp_kernel_size p \<le> cp_in_row_dim p + 2 * cp_padding p" "int j * cp_stride p + cp_kernel_size p \<le> cp_in_col_dim p + 2 * cp_padding p"
      "cp_in_row_dim p + 2 * cp_padding p < 2 ^ 30" "cp_in_col_dim p + 2 * cp_padding p < 2 ^ 30"
      using p patch_fits [OF p] i j by (auto simp: patch_params_def k_def)
    define zi zj where "zi = int i * cp_stride p" and "zj = int j * cp_stride p"
    have z: "0 \<le> zi" "0 \<le> zj" using b(1) by (simp_all add: zi_def zj_def)
    have i32: "to_i32 (y0 + int fr) = y" "to_i32 (x0 + int fc) = x"
      unfolding y_def x_def y0_def x0_def zi_def [symmetric] zj_def [symmetric]
      using b [folded zi_def zj_def] z l by (intro to_i32_small; simp)+
    have e: "patch_elem p (r, q) = (if 0 \<le> y \<and> y < cp_in_row_dim p \<and> 0 \<le> x \<and> x < cp_in_col_dim p then Some ((n * h + nat y) * w + nat x, c) else None)"
      unfolding patch_elem_def prod.case Let_def rd2 rd(2) ch_def [symmetric] k_def [symmetric] h_def [symmetric] w_def [symmetric] qd
      unfolding y_def x_def y0_def x0_def by simp
    have cell: "(r, q) \<in> patch_cells p \<longleftrightarrow> patch_elem p (r, q) \<noteq> None" using rN q by (simp add: patch_cells_def N_def)
    have nxt: "patch_upto p (Suc (r * patch_size p + q)) = patch_upto p (r * patch_size p + q) \<union> ({(r, q)} \<inter> patch_cells p)"
      by (rule patch_upto_Suc [OF q])
    have "succeeds (if y < 0 \<or> cp_in_row_dim p \<le> y \<or> x < 0 \<or> cp_in_col_dim p \<le> x then Inr t
         else bindE (load_byte M t (A n y x c)) (\<lambda>v. store_byte M t (out + (off (int r) * of_nat (patch_size p) + off (int q))) v))
       (?F (patch_upto p (Suc (r * patch_size p + q))))"
    proof (cases "patch_elem p (r, q)")
      case None
      then have "y < 0 \<or> cp_in_row_dim p \<le> y \<or> x < 0 \<or> cp_in_col_dim p \<le> x" by (auto simp: e split: if_splits)
      moreover have "patch_upto p (Suc (r * patch_size p + q)) = patch_upto p (r * patch_size p + q)" using None by (simp add: nxt cell)
      ultimately show ?thesis using f by (simp only: if_True succeeds_simps)
    next
      case (Some sc)
      define y' x' where "y' = nat y" and "x' = nat x"
      have yx: "y = int y'" "x = int x'" "y' < h" "x' < w" using Some by (auto simp: e y'_def x'_def h_def w_def split: if_splits)
      have s: "(n * h + y') * w + x' < N * h * w" by (intro index_bound n yx)
      have "A n y x c = pixel inp ch ((n * h + y') * w + x', c)" unfolding yx by (rule A [OF n yx(3,4) l(3)])
      moreover have "load_byte M t (pixel inp ch ((n * h + y') * w + x', c)) = Inr (X ((n * h + y') * w + x') c)"
      proof (rule load_outside [OF f])
        show "pixel inp ch ((n * h + y') * w + x', c) \<notin> pixel out (patch_size p) ` patch_cells p"
          using pixel_apart [OF out(2) s l(3)] by (auto simp: patch_cells_def N_def)
        show "mmu_load M m (pixel inp ch ((n * h + y') * w + x', c)) = Some (X ((n * h + y') * w + x') c)"
          using inp s l(3) by (simp add: tensor_def)
      qed
      ultimately have ld: "load_byte M t (A n y x c) = Inr (X ((n * h + y') * w + x') c)" by simp
      have v: "patch_value p X (r, q) = X ((n * h + y') * w + x') c" using Some e yx by (auto simp: patch_value_def split: if_splits)
      have lim: "r * patch_size p + q < 2 ^ 31" using index_bound [OF rN q] out(1) by (simp add: room_def)
      moreover have "r \<le> r * patch_size p" using q by simp
      ultimately have "r < 2 ^ 31" "q < 2 ^ 31" by linarith+
      then have "out + (off (int r) * of_nat (patch_size p) + off (int q)) = pixel out (patch_size p) (r, q)" by (simp add: off_of_int pixel_def)
      moreover have "(r, q) \<in> patch_cells p" using Some cell by simp
      moreover have "\<not> (y < 0 \<or> cp_in_row_dim p \<le> y \<or> x < 0 \<or> cp_in_col_dim p \<le> x)" using Some by (auto simp: e split: if_splits)
      ultimately show ?thesis using filling_store [OF reg _ f, of "(r, q)"] by (simp only: nxt ld v if_False bindE.simps Int_insert_left if_True Int_empty_left)
    qed
    then show "succeeds ((\<lambda>(q, m). let y = to_i32 (y0 + int fr); x = to_i32 (x0 + int fc) in
       bindE (if y < 0 \<or> cp_in_row_dim p \<le> y \<or> x < 0 \<or> cp_in_col_dim p \<le> x then Inr m
         else bindE (load_byte M m (A n y x c)) (\<lambda>v. store_byte M m (out + (off (int r) * of_nat (patch_size p) + off q)) v)) (\<lambda>m. Inr (q + 1, m))) u)
      (?P (Suc ((fr * k + fc) * ch + c)))"
      unfolding q_def [symmetric] u prod.case Let_def i32 succeeds_bindE by (rule succeeds_mono) simp
  qed
  then show ?thesis
    unfolding patch_loop_def r_def [symmetric] y0_def [symmetric] x0_def [symmetric] k_def [symmetric] ch_def [symmetric] succeeds_bindE
    by (rule succeeds_mono) (auto simp: sz add.commute)
qed

text \<open>All patches.\<close>

definition patch_loops :: "(nat \<Rightarrow> int \<Rightarrow> int \<Rightarrow> int \<Rightarrow> 'm \<Rightarrow> 'm res) \<Rightarrow> ConvParams \<Rightarrow> 'm \<Rightarrow> 'm res" where
  "patch_loops f p m =
     bindE (forE (nat (cp_batch_size p)) (\<lambda>n (r, m).
       bindE (int_steps (- cp_padding p) (to_i32 (cp_in_row_dim p - cp_kernel_size p + cp_padding p + 1)) (cp_stride p)) (\<lambda>ys.
       foldE (\<lambda>y (r, m).
         bindE (int_steps (- cp_padding p) (to_i32 (cp_in_col_dim p - cp_kernel_size p + cp_padding p + 1)) (cp_stride p)) (\<lambda>xs.
         foldE (\<lambda>x (r, m). bindE (f n y x r m) (\<lambda>m. Inr (r + 1, m))) xs (r, m))) ys (r, m))) (0, m)) (\<lambda>(_, m). Inr m)"

lemma im2col_loops: "im2col M ch h w K inp out p m = patch_loops (im2col_patch M ch h w K inp out p) p m"
  unfolding im2col_def patch_loops_def ..

lemma im2col_col2im_loops: "im2col_with_col2im M J K inp out p m = patch_loops (im2col_col2im_patch M J K inp out p) p m"
  unfolding im2col_with_col2im_def patch_loops_def ..

lemma patch_loops_count:
  fixes p :: ConvParams
  defines "N \<equiv> nat (cp_batch_size p)"
  assumes p: "patch_params p" and start: "P 0 m"
    and step: "\<And>n i j t. n < N \<Longrightarrow> i < patch_rows p \<Longrightarrow> j < patch_cols p \<Longrightarrow> P ((n * patch_rows p + i) * patch_cols p + j) t \<Longrightarrow>
      succeeds (f n (int i * cp_stride p - cp_padding p) (int j * cp_stride p - cp_padding p) (int ((n * patch_rows p + i) * patch_cols p + j)) t)
        (P (Suc ((n * patch_rows p + i) * patch_cols p + j)))"
  shows "succeeds (patch_loops f p m) (P (N * patch_rows p * patch_cols p))"
proof -
  have "int_steps (- cp_padding p) (to_i32 (cp_in_row_dim p - cp_kernel_size p + cp_padding p + 1)) (cp_stride p) =
      Inr (map (\<lambda>i. int i * cp_stride p - cp_padding p) [0..<patch_rows p])"
    "int_steps (- cp_padding p) (to_i32 (cp_in_col_dim p - cp_kernel_size p + cp_padding p + 1)) (cp_stride p) =
      Inr (map (\<lambda>i. int i * cp_stride p - cp_padding p) [0..<patch_cols p])"
    unfolding patch_rows_def patch_cols_def using p by (intro int_steps_patches; simp add: patch_params_def)+
  then have eq: "patch_loops f p m = bindE (forE N (\<lambda>n. forE (patch_rows p) (\<lambda>i. forE (patch_cols p) (\<lambda>j (r, m).
      bindE (f n (int i * cp_stride p - cp_padding p) (int j * cp_stride p - cp_padding p) r m) (\<lambda>m. Inr (r + 1, m))))) (0, m)) (\<lambda>(_, m). Inr m)"
    unfolding patch_loops_def N_def forE_def by (simp add: foldE_map case_prod_beta)
  have "succeeds (forE N (\<lambda>n. forE (patch_rows p) (\<lambda>i. forE (patch_cols p) (\<lambda>j (r, m).
      bindE (f n (int i * cp_stride p - cp_padding p) (int j * cp_stride p - cp_padding p) r m) (\<lambda>m. Inr (r + 1, m))))) (0, m))
      ((\<lambda>k (r, t). r = int k \<and> P k t) (N * patch_rows p * patch_cols p))"
  proof (rule forE3_count [of "\<lambda>k (r, t). r = int k \<and> P k t"])
    fix n i j and u :: "int \<times> 'a" assume l: "n < N" "i < patch_rows p" "j < patch_cols p"
      and P: "case u of (r, t) \<Rightarrow> r = int ((n * patch_rows p + i) * patch_cols p + j) \<and> P ((n * patch_rows p + i) * patch_cols p + j) t"
    then obtain t where u: "u = (int ((n * patch_rows p + i) * patch_cols p + j), t)" "P ((n * patch_rows p + i) * patch_cols p + j) t" by (cases u) auto
    show "succeeds ((\<lambda>(r, m). bindE (f n (int i * cp_stride p - cp_padding p) (int j * cp_stride p - cp_padding p) r m) (\<lambda>m. Inr (r + 1, m))) u)
      (\<lambda>(r, t). r = int (Suc ((n * patch_rows p + i) * patch_cols p + j)) \<and> P (Suc ((n * patch_rows p + i) * patch_cols p + j)) t)"
      unfolding u(1) prod.case succeeds_bindE by (rule succeeds_mono [OF step [OF l u(2)]]) simp
  qed (use start in simp)
  then show ?thesis unfolding eq succeeds_bindE by (rule succeeds_mono) auto
qed

lemma patch_matrix:
  fixes p :: ConvParams
  defines "N \<equiv> nat (cp_batch_size p)" and "h \<equiv> nat (cp_in_row_dim p)" and "w \<equiv> nat (cp_in_col_dim p)" and "ch \<equiv> nat (cp_in_channels p)"
  assumes p: "patch_params p" and inp: "tensor M m inp (N * h * w) ch X" "N * h * w * ch < 2 ^ 31"
    and out: "room M m out (N * patch_rows p * patch_cols p) (patch_size p)" "apart inp (N * h * w * ch) out (N * patch_rows p * patch_cols p * patch_size p)"
  shows "succeeds (im2col M (of_nat ch) (of_nat h) (of_nat w) (of_nat (patch_size p)) inp out p m) (\<lambda>t. wrote M m t (patch_cells p) (pixel out (patch_size p)) (patch_value p X))"
    "succeeds (im2col_with_col2im M (of_nat ch) (of_nat (patch_size p)) inp out p m) (\<lambda>t. wrote M m t (patch_cells p) (pixel out (patch_size p)) (patch_value p X))"
proof -
  let ?F = "\<lambda>r. filling M m (patch_cells p) (pixel out (patch_size p)) (patch_value p X) (patch_upto p (r * patch_size p))"
  have start: "?F 0 m" by (simp add: patch_upto_def)
  have all: "succeeds (patch_loops f p m) (\<lambda>t. wrote M m t (patch_cells p) (pixel out (patch_size p)) (patch_value p X))"
    if f: "\<And>n y x r t. f n y x r t = patch_loop M A (of_nat (patch_size p)) out p n y x r t"
      and A: "\<And>n y x c. n < N \<Longrightarrow> y < h \<Longrightarrow> x < w \<Longrightarrow> c < ch \<Longrightarrow> A n (int y) (int x) c = pixel inp ch ((n * h + y) * w + x, c)" for f A
  proof -
    have "succeeds (patch_loops f p m) (?F (N * patch_rows p * patch_cols p))"
      unfolding N_def
    proof (rule patch_loops_count [where P = ?F, OF p start])
      fix n i j t assume l: "n < nat (cp_batch_size p)" "i < patch_rows p" "j < patch_cols p" and t: "?F ((n * patch_rows p + i) * patch_cols p + j) t"
      show "succeeds (f n (int i * cp_stride p - cp_padding p) (int j * cp_stride p - cp_padding p) (int ((n * patch_rows p + i) * patch_cols p + j)) t)
          (?F (Suc ((n * patch_rows p + i) * patch_cols p + j)))"
        unfolding f by (rule patch_loop_fills [OF p inp(1) [unfolded N_def h_def w_def ch_def] out [unfolded N_def h_def w_def ch_def] A [unfolded N_def h_def w_def ch_def] l t])
    qed
    then show ?thesis by (rule succeeds_mono) (simp add: filling_def patch_upto_all N_def)
  qed
  show "succeeds (im2col M (of_nat ch) (of_nat h) (of_nat w) (of_nat (patch_size p)) inp out p m) (\<lambda>t. wrote M m t (patch_cells p) (pixel out (patch_size p)) (patch_value p X))"
    unfolding im2col_loops by (rule all [OF im2col_patch_loop]) (simp add: at4_pixel)
  have "inp + (off (to_i32 (int n * cp_in_row_dim p * cp_in_col_dim p + int y * cp_in_col_dim p + int x)) * of_nat ch + off (int c)) = pixel inp ch ((n * h + y) * w + x, c)"
    if l: "n < N" "y < h" "x < w" "c < ch" for n y x c
  proof -
    define s where "s = (n * h + y) * w + x"
    have "s * ch + c < 2 ^ 31" using index_bound [OF index_bound [OF index_bound [OF l(1,2)] l(3)] l(4)] inp(2) by (simp add: s_def)
    moreover have "s \<le> s * ch" using l(4) by simp
    ultimately have b: "s < 2 ^ 31" "c < 2 ^ 31" by linarith+
    have "int n * cp_in_row_dim p * cp_in_col_dim p + int y * cp_in_col_dim p + int x = int s"
      using p by (simp add: s_def h_def w_def patch_params_def algebra_simps)
    moreover have "to_i32 (int s) = int s" "off (int s) = of_nat s" "off (int c) = of_nat c" using b by (simp_all add: to_i32_small off_of_int)
    ultimately show ?thesis by (simp add: pixel_def s_def)
  qed
  then show "succeeds (im2col_with_col2im M (of_nat ch) (of_nat (patch_size p)) inp out p m) (\<lambda>t. wrote M m t (patch_cells p) (pixel out (patch_size p)) (patch_value p X))"
    unfolding im2col_col2im_loops by (rule all [OF im2col_col2im_patch_loop])
qed

section \<open>Pooling\<close>

text \<open>
  The reference: the maximum over a window in which everything outside the image counts as zero. \<open>y0\<close> and \<open>x0\<close> are the upper left
  corner of the window.
\<close>

definition zero_padded :: "nat \<Rightarrow> nat \<Rightarrow> (nat \<Rightarrow> nat \<Rightarrow> u8) \<Rightarrow> nat \<Rightarrow> int \<times> int \<Rightarrow> int" where
  "zero_padded h w X c = (\<lambda>(y, x). if 0 \<le> y \<and> y < int h \<and> 0 \<le> x \<and> x < int w then sint (X (nat y * w + nat x) c) else 0)"

definition pooled_zero :: "nat \<Rightarrow> nat \<Rightarrow> (nat \<Rightarrow> nat \<Rightarrow> u8) \<Rightarrow> int \<Rightarrow> int \<Rightarrow> int \<Rightarrow> nat \<Rightarrow> int" where
  "pooled_zero h w X k y0 x0 c = Max (insert (-128) (zero_padded h w X c ` ({y0..<y0 + k} \<times> {x0..<x0 + k})))"

definition pool_loop :: "'m mmu \<Rightarrow> 'm \<Rightarrow> (int \<Rightarrow> int \<Rightarrow> u64) \<Rightarrow> u64 \<Rightarrow> u64 \<Rightarrow> ConvParams \<Rightarrow> nat \<Rightarrow> nat \<Rightarrow> elem_t res" where
  "pool_loop M m A rows cols p oy ox =
     forE (size_of_int (cp_pool_size p)) (\<lambda>kernel_row. forE (size_of_int (cp_pool_size p)) (\<lambda>kernel_col result.
        let in_row = to_i32 (int oy * cp_pool_stride p - cp_pool_padding p + int kernel_row);
            in_col = to_i32 (int ox * cp_pool_stride p - cp_pool_padding p + int kernel_col) in
        if 0 \<le> in_row \<and> of_int in_row < rows \<and> 0 \<le> in_col \<and> of_int in_col < cols
        then bindE (load_byte M m (A in_row in_col)) (\<lambda>x. Inr (if sint result < sint x then x else result))
        else Inr (if sint result < 0 then 0 else result))) (word_of_int elem_t_min)"

lemma nn_pool_window_loop:
  "nn_pool_window M m ch h w inp p n c y x = pool_loop M m (\<lambda>i j. at4 inp h w ch (of_nat n) (of_int i) (of_int j) (of_nat c)) h w p y x"
  unfolding nn_pool_window_def pool_loop_def Let_def ..

lemma pool_col2im_window_loop:
  "pool_col2im_window M m J inp p n c y x = pool_loop M m
    (\<lambda>i j. inp + ((of_nat n * of_int (cp_out_row_dim p) * of_int (cp_out_col_dim p) + of_int i * of_int (cp_out_col_dim p) + of_int j) * J + of_nat c))
    (of_int (cp_out_row_dim p)) (of_int (cp_out_col_dim p)) p y x"
  unfolding pool_col2im_window_def pool_loop_def Let_def ..

lemma of_int_less_of_nat: "0 \<le> i \<Longrightarrow> i < 2 ^ 31 \<Longrightarrow> h < 2 ^ 31 \<Longrightarrow> (of_int i :: u64) < of_nat h \<longleftrightarrow> i < int h"
proof -
  assume i: "0 \<le> i" "i < 2 ^ 31" and h: "h < 2 ^ 31"
  define j where "j = nat i"
  have "(of_int i :: u64) = of_nat j" "i = int j" "j < 2 ^ 31" using i by (simp_all add: j_def of_nat_nat)
  then show ?thesis using h by (simp add: word_less_nat_alt unat_of_nat take_bit_nat_eq_self)
qed

lemma pool_loop_value:
  assumes A: "\<And>i j. i < h \<Longrightarrow> j < w \<Longrightarrow> load_byte M m (A (int i) (int j)) = Inr (X (i * w + j) c)"
    and k: "0 \<le> cp_pool_size p" and hw: "h < 2 ^ 31" "w < 2 ^ 31"
    and b: "- (2 ^ 30) \<le> y0" "y0 + cp_pool_size p < 2 ^ 31" "- (2 ^ 30) \<le> x0" "x0 + cp_pool_size p < 2 ^ 31"
    and y0: "y0 = int y * cp_pool_stride p - cp_pool_padding p" and x0: "x0 = int x * cp_pool_stride p - cp_pool_padding p"
  shows "pool_loop M m A (of_nat h) (of_nat w) p y x = Inr (word_of_int (pooled_zero h w X (cp_pool_size p) y0 x0 c))"
proof -
  define n where "n = nat (cp_pool_size p)"
  have n: "cp_pool_size p = int n" "n < 2 ^ 32" using k b by (simp_all add: n_def nat_less_iff)
  have sz: "size_of_int (cp_pool_size p) = n" unfolding size_of_int_def n(1) using n(2) by (simp add: unat_of_nat take_bit_nat_eq_self)
  let ?f = "zero_padded h w X c"
  let ?P = "\<lambda>S v. finite S \<and> sint (v :: u8) = Max (insert (-128) (?f ` S))"
  let ?T = "\<lambda>d e. {(y0 + int d, x0 + int e)}"
  have "succeeds (pool_loop M m A (of_nat h) (of_nat w) p y x) (?P (\<Union>d < n. \<Union>e < n. ?T d e))"
    unfolding pool_loop_def sz y0 [symmetric] x0 [symmetric]
  proof (rule forE_gather, simp add: elem_t_min_def, rule forE_gather_from, assumption)
    fix d e S and v :: u8 assume de: "d < n" "e < n" and P: "?P S v"
    have id: "to_i32 (y0 + int d) = y0 + int d" "to_i32 (x0 + int e) = x0 + int e" by (rule to_i32_small; use b n de in simp)+
    let ?in = "0 \<le> y0 + int d \<and> (of_int (y0 + int d) :: u64) < of_nat h \<and> 0 \<le> x0 + int e \<and> (of_int (x0 + int e) :: u64) < of_nat w"
    have inside: "?in \<longleftrightarrow> 0 \<le> y0 + int d \<and> y0 + int d < int h \<and> 0 \<le> x0 + int e \<and> x0 + int e < int w"
      using of_int_less_of_nat [of "y0 + int d" h] of_int_less_of_nat [of "x0 + int e" w] hw b n de by auto
    define V where "V = ?f (y0 + int d, x0 + int e)"
    have "insert (-128) (?f ` (S \<union> ?T d e)) = insert V (insert (-128) (?f ` S))" by (auto simp: V_def)
    moreover have "Max (insert V (insert (-128) (?f ` S))) = max V (sint v)" using P by simp
    ultimately have goal: "?P (S \<union> ?T d e) u \<longleftrightarrow> sint u = max V (sint v)" for u :: u8 using P by simp
    show "succeeds (let in_row = to_i32 (y0 + int d); in_col = to_i32 (x0 + int e) in
        if 0 \<le> in_row \<and> of_int in_row < (of_nat h :: u64) \<and> 0 \<le> in_col \<and> of_int in_col < (of_nat w :: u64)
        then bindE (load_byte M m (A in_row in_col)) (\<lambda>x. Inr (if sint v < sint x then x else v))
        else Inr (if sint v < 0 then 0 else v)) (?P (S \<union> ?T d e))"
    proof (cases ?in)
      case True
      define i j where "i = nat (y0 + int d)" and "j = nat (x0 + int e)"
      have ij: "y0 + int d = int i" "x0 + int e = int j" "i < h" "j < w" using True inside by (auto simp: i_def j_def)
      have "V = sint (X (i * w + j) c)" using ij by (simp add: V_def zero_padded_def)
      then have "sint (if sint v < sint (X (i * w + j) c) then X (i * w + j) c else v) = max V (sint v)" by (simp add: max_def)
      then show ?thesis unfolding Let_def id if_P [OF True] unfolding ij A [OF ij(3,4)] bindE.simps succeeds_simps goal [unfolded ij] .
    next
      case False
      then have "V = 0" using inside by (auto simp: V_def zero_padded_def)
      then have "sint (if sint v < 0 then 0 else v) = max V (sint v)" by (simp add: max_def)
      then show ?thesis unfolding Let_def id if_not_P [OF False] succeeds_simps goal .
    qed
  qed
  moreover have "(\<Union>d < n. \<Union>e < n. ?T d e) = {y0..<y0 + int n} \<times> {x0..<x0 + int n}"
  proof (intro equalityI subsetI)
    fix z assume "z \<in> {y0..<y0 + int n} \<times> {x0..<x0 + int n}"
    then obtain i j where z: "z = (i, j)" "y0 \<le> i" "i < y0 + int n" "x0 \<le> j" "j < x0 + int n" by auto
    then have "z \<in> ?T (nat (i - y0)) (nat (j - x0))" "nat (i - y0) < n" "nat (j - x0) < n" by auto
    then show "z \<in> (\<Union>d < n. \<Union>e < n. ?T d e)" by blast
  qed auto
  ultimately obtain v where v: "pool_loop M m A (of_nat h) (of_nat w) p y x = Inr v" "sint v = pooled_zero h w X (cp_pool_size p) y0 x0 c"
    by (auto simp: succeeds_iff pooled_zero_def n)
  have "(word_of_int (sint v) :: u8) = v" by simp
  then show ?thesis by (simp only: v)
qed

text \<open>The loops over batches, channels, rows and columns fill the whole output.\<close>

lemma fill_batches:
  assumes r: "region M m (elems (N * oh * ow) ch) addr"
    and step: "\<And>b c y x S t. b < N \<Longrightarrow> c < ch \<Longrightarrow> y < oh \<Longrightarrow> x < ow \<Longrightarrow> filling M m (elems (N * oh * ow) ch) addr W S t \<Longrightarrow>
      f b c y x t = store_byte M t (addr ((b * oh + y) * ow + x, c)) (W ((b * oh + y) * ow + x, c))"
  shows "succeeds (forE N (\<lambda>b. forE ch (\<lambda>c. forE oh (\<lambda>y. forE ow (f b c y)))) m) (\<lambda>t. wrote M m t (elems (N * oh * ow) ch) addr W)"
proof -
  let ?F = "filling M m (elems (N * oh * ow) ch) addr W"
  let ?U = "\<Union>b < N. \<Union>c < ch. \<Union>y < oh. \<Union>x < ow. {((b * oh + y) * ow + x, c)}"
  have "succeeds (forE N (\<lambda>b. forE ch (\<lambda>c. forE oh (\<lambda>y. forE ow (f b c y)))) m) (?F ?U)"
  proof (rule forE_gather, simp, rule forE_gather_from, assumption, rule forE_gather_from, assumption, rule forE_gather_from, assumption)
    fix b c y x S t assume l: "b < N" "c < ch" "y < oh" "x < ow" and F: "?F S t"
    have "(b * oh + y) * ow + x < N * oh * ow" by (intro index_bound l)
    then show "succeeds (f b c y x t) (?F (S \<union> {((b * oh + y) * ow + x, c)}))"
      using filling_store [OF r _ F, of "((b * oh + y) * ow + x, c)"] step [OF l F] l by simp
  qed
  moreover have "?U = elems (N * oh * ow) ch"
  proof (intro equalityI subsetI)
    fix z assume "z \<in> ?U"
    then obtain b c y x where "b < N" "c < ch" "y < oh" "x < ow" "z = ((b * oh + y) * ow + x, c)" by blast
    then show "z \<in> elems (N * oh * ow) ch" by (auto intro!: index_bound)
  next
    fix z assume "z \<in> elems (N * oh * ow) ch"
    then obtain s c where z: "z = (s, c)" "s < N * oh * ow" "c < ch" by auto
    then have pos: "0 < ow" "0 < oh" by (auto intro: Nat.gr0I)
    have "s div ow < N * oh" using z(2) pos by (simp add: less_mult_imp_div_less)
    then have "s div ow div oh < N" using pos by (simp add: less_mult_imp_div_less)
    moreover have "s = (s div ow div oh * oh + s div ow mod oh) * ow + s mod ow" by simp
    moreover have "s div ow mod oh < oh" "s mod ow < ow" using pos by simp_all
    ultimately show "z \<in> ?U" using z by blast
  qed
  ultimately show ?thesis by (rule filling_done)
qed

definition pool_params :: "ConvParams \<Rightarrow> nat \<Rightarrow> nat \<Rightarrow> bool" where
  "pool_params p oh ow \<longleftrightarrow> 0 \<le> cp_pool_size p \<and> 0 \<le> cp_pool_stride p \<and> 0 \<le> cp_pool_padding p \<and> cp_pool_padding p < 2 ^ 30 \<and>
     int oh * cp_pool_stride p + cp_pool_size p < 2 ^ 31 \<and> int ow * cp_pool_stride p + cp_pool_size p < 2 ^ 31 \<and>
     0 \<le> cp_out_row_dim p \<and> cp_out_row_dim p < 2 ^ 31 \<and> 0 \<le> cp_out_col_dim p \<and> cp_out_col_dim p < 2 ^ 31"

text \<open>The result: the maximum of each window of each image of the batch.\<close>

definition pool_result :: "ConvParams \<Rightarrow> nat \<Rightarrow> nat \<Rightarrow> (nat \<Rightarrow> nat \<Rightarrow> u8) \<Rightarrow> nat \<times> nat \<Rightarrow> u8" where
  "pool_result p oh ow X = (\<lambda>(s, c).
     let h = nat (cp_out_row_dim p); w = nat (cp_out_col_dim p); n = s div ow div oh; y = s div ow mod oh; x = s mod ow in
     word_of_int (pooled_zero h w (\<lambda>i. X (n * h * w + i)) (cp_pool_size p)
       (int y * cp_pool_stride p - cp_pool_padding p) (int x * cp_pool_stride p - cp_pool_padding p) c))"

lemma pool_window_bound:
  assumes "y < oh" "0 \<le> st" "0 \<le> pad" "pad < 2 ^ 30" "int oh * st + k < 2 ^ 31"
  shows "- (2 ^ 30) \<le> int y * st - pad" "int y * st - pad + k < 2 ^ 31"
proof -
  have "int y * st \<le> int oh * st" using assms by (intro mult_right_mono) simp_all
  moreover have "0 \<le> int y * st" using assms(2) by simp
  ultimately show "- (2 ^ 30) \<le> int y * st - pad" "int y * st - pad + k < 2 ^ 31" using assms(3-5) by linarith+
qed

lemma pool_fills:
  fixes p :: ConvParams and N ch oh ow :: nat
  defines "h \<equiv> nat (cp_out_row_dim p)" and "w \<equiv> nat (cp_out_col_dim p)"
  assumes p: "pool_params p oh ow" and size: "N < 2 ^ 31" "ch < 2 ^ 31" "oh < 2 ^ 31" "ow < 2 ^ 31"
    and inp: "tensor M m inp (N * h * w) ch X"
    and out: "room M m out (N * oh * ow) ch" "apart inp (N * h * w * ch) out (N * oh * ow * ch)"
  shows "succeeds (pool M (of_nat N) (of_nat ch) (of_nat h) (of_nat w) (of_nat oh) (of_nat ow) inp out p m)
      (\<lambda>t. wrote M m t (elems (N * oh * ow) ch) (pixel out ch) (pool_result p oh ow X))"
    "succeeds (pool_with_col2im M (of_nat ch) (of_nat N) (of_nat ch) (of_nat oh) (of_nat ow) inp out p m)
      (\<lambda>t. wrote M m t (elems (N * oh * ow) ch) (pixel out ch) (pool_result p oh ow X))"
proof -
  have un: "unat (of_nat N :: u64) = N" "unat (of_nat ch :: u64) = ch" "unat (of_nat oh :: u64) = oh" "unat (of_nat ow :: u64) = ow"
    using size by (simp_all add: unat_of_nat take_bit_nat_eq_self)
  have hw: "h < 2 ^ 31" "w < 2 ^ 31" "cp_out_row_dim p = int h" "cp_out_col_dim p = int w" using p by (simp_all add: pool_params_def h_def w_def nat_less_iff)
  have win: "y < oh \<Longrightarrow> - (2 ^ 30) \<le> int y * cp_pool_stride p - cp_pool_padding p" "y < oh \<Longrightarrow> int y * cp_pool_stride p - cp_pool_padding p + cp_pool_size p < 2 ^ 31"
    "x < ow \<Longrightarrow> - (2 ^ 30) \<le> int x * cp_pool_stride p - cp_pool_padding p" "x < ow \<Longrightarrow> int x * cp_pool_stride p - cp_pool_padding p + cp_pool_size p < 2 ^ 31" for y x
    using p pool_window_bound [of y oh "cp_pool_stride p" "cp_pool_padding p" "cp_pool_size p"] pool_window_bound [of x ow "cp_pool_stride p" "cp_pool_padding p" "cp_pool_size p"]
    by (simp_all only: pool_params_def)
  have val: "pool_loop M t A (of_nat h) (of_nat w) p y x = Inr (pool_result p oh ow X ((b * oh + y) * ow + x, c))"
    if l: "b < N" "c < ch" "y < oh" "x < ow" and F: "filling M m (elems (N * oh * ow) ch) (pixel out ch) W S t"
      and A: "\<And>i j. i < h \<Longrightarrow> j < w \<Longrightarrow> A (int i) (int j) = pixel inp ch ((b * h + i) * w + j, c)" for b c y x S t A W
  proof -
    have "load_byte M t (A (int i) (int j)) = Inr (X (b * h * w + (i * w + j)) c)" if ij: "i < h" "j < w" for i j
    proof -
      have s: "(b * h + i) * w + j < N * h * w" by (intro index_bound l ij)
      have "load_byte M t (pixel inp ch ((b * h + i) * w + j, c)) = Inr (X ((b * h + i) * w + j) c)"
        by (rule load_outside [OF F pixel_apart [OF out(2) s l(2)]]) (use inp s l(2) in \<open>simp add: tensor_def\<close>)
      then show ?thesis by (simp add: A [OF ij] algebra_simps)
    qed
    then have "pool_loop M t A (of_nat h) (of_nat w) p y x = Inr (word_of_int (pooled_zero h w (\<lambda>i. X (b * h * w + i)) (cp_pool_size p)
        (int y * cp_pool_stride p - cp_pool_padding p) (int x * cp_pool_stride p - cp_pool_padding p) c))"
      by (rule pool_loop_value [where X = "\<lambda>i. X (b * h * w + i)", OF _ _ hw(1,2) win(1,2) [OF l(3)] win(3,4) [OF l(4)]])
        (use p in \<open>simp_all add: pool_params_def\<close>)
    moreover have "((b * oh + y) * ow + x) div ow = b * oh + y" "((b * oh + y) * ow + x) mod ow = x" "(b * oh + y) div oh = b" "(b * oh + y) mod oh = y"
      using l by simp_all
    ultimately show ?thesis unfolding pool_result_def prod.case Let_def h_def [symmetric] w_def [symmetric] by simp
  qed
  show "succeeds (pool M (of_nat N) (of_nat ch) (of_nat h) (of_nat w) (of_nat oh) (of_nat ow) inp out p m)
      (\<lambda>t. wrote M m t (elems (N * oh * ow) ch) (pixel out ch) (pool_result p oh ow X))"
    unfolding pool_def un
  proof (rule fill_batches [OF room_region [OF out(1)]])
    fix b c y x S t assume l: "b < N" "c < ch" "y < oh" "x < ow" and F: "filling M m (elems (N * oh * ow) ch) (pixel out ch) (pool_result p oh ow X) S t"
    show "bindE (nn_pool_window M t (of_nat ch) (of_nat h) (of_nat w) inp p b c y x) (store_byte M t (at4 out (of_nat oh) (of_nat ow) (of_nat ch) (of_nat b) (of_nat y) (of_nat x) (of_nat c))) =
      store_byte M t (pixel out ch ((b * oh + y) * ow + x, c)) (pool_result p oh ow X ((b * oh + y) * ow + x, c))"
      unfolding nn_pool_window_loop at4_pixel by (subst val [OF l F]) (simp_all add: at4_pixel)
  qed
  show "succeeds (pool_with_col2im M (of_nat ch) (of_nat N) (of_nat ch) (of_nat oh) (of_nat ow) inp out p m)
      (\<lambda>t. wrote M m t (elems (N * oh * ow) ch) (pixel out ch) (pool_result p oh ow X))"
    unfolding pool_with_col2im_def un
  proof (rule fill_batches [OF room_region [OF out(1)]])
    fix b c y x S t assume l: "b < N" "c < ch" "y < oh" "x < ow" and F: "filling M m (elems (N * oh * ow) ch) (pixel out ch) (pool_result p oh ow X) S t"
    show "bindE (pool_col2im_window M t (of_nat ch) inp p b c y x) (store_byte M t (at4 out (of_nat oh) (of_nat ow) (of_nat ch) (of_nat b) (of_nat y) (of_nat x) (of_nat c))) =
      store_byte M t (pixel out ch ((b * oh + y) * ow + x, c)) (pool_result p oh ow X ((b * oh + y) * ow + x, c))"
      unfolding pool_col2im_window_loop at4_pixel hw(3,4) of_int_of_nat_eq by (subst val [OF l F]) (simp_all add: pixel_def algebra_simps)
  qed
qed

end
