(* ===== verification/Yolo_Modules.thy ===== *)
theory Yolo_Modules
  imports Yolo_Ops Nn_Layers
begin

text \<open>
  The building blocks of the detection network (\<open>shen_yolov11n_modules.h\<close>): convolutions on the accelerator
  followed by the SiLU table on the processor, and the modules C3k2, SPPF and C2PSA put together from
  them. A module runs on the accelerator and its memory; it may fail to return only where the search for a
  tile does. Parameters and work buffers are addresses, as in the source.
\<close>

section \<open>Layers\<close>

record shen_conv_param =
  weight_p :: u64
  bias_p :: u64
  requant :: f32
  in_scale :: f32
  out_scale :: f32
  in_c :: int
  out_c :: int
  kh_p :: int
  stride_p :: int
  pad_p :: int

text \<open>A computation of the processor, and computations one after the other.\<close>

definition on_mem :: "('m \<Rightarrow> 'm res) \<Rightarrow> 'm sim \<Rightarrow> 'm sim res option" where
  "on_mem f s = Some (bindE (f (mem s)) (\<lambda>m. Inr (s\<lparr>mem := m\<rparr>)))"

definition in_turn :: "('s \<Rightarrow> 's res option) list \<Rightarrow> 's \<Rightarrow> 's res option" where
  "in_turn = foldO (\<lambda>f. f)"

definition silu_layer :: "'m mmu \<Rightarrow> shen_conv_param \<Rightarrow> u64 \<Rightarrow> int \<Rightarrow> f32 \<Rightarrow> u64 \<Rightarrow> 'm sim \<Rightarrow> 'm sim res option" where
  "silu_layer M p out n silu_target lut =
     (if f32_lt 0 silu_target
      then on_mem (\<lambda>m. bindE (shen_build_silu_lut M lut (out_scale p) silu_target m) (shen_silu_int8_lut M out n lut))
      else (\<lambda>s. Some (Inr s)))"

text \<open>The source never asks these products for their check, so that the array \<open>gold\<close> is not touched.\<close>

definition shen_run_conv1x1 :: "'m mmu \<Rightarrow> u64 \<Rightarrow> u64 \<Rightarrow> int \<Rightarrow> shen_conv_param \<Rightarrow> f32 \<Rightarrow> u64 \<Rightarrow> 'm sim \<Rightarrow> 'm sim res option" where
  "shen_run_conv1x1 M inp out spatial p silu_target lut = in_turn [
     tiled_matmul_nn_auto M (of_int spatial) (of_int (out_c p)) (of_int (in_c p)) inp (weight_p p) (bias_p p) out
       ACT_NO_ACTIVATION (requant p) True TM_WS False 0,
     silu_layer M p out (spatial * out_c p) silu_target lut]"

definition conv3x3_args :: "u64 \<Rightarrow> u64 \<Rightarrow> int \<Rightarrow> int \<Rightarrow> int \<Rightarrow> int \<Rightarrow> shen_conv_param \<Rightarrow> conv_args" where
  "conv3x3_args inp out h_in w_in h_out w_out p = \<lparr>
     co_batch_size = 1, co_in_row_dim = h_in, co_in_col_dim = w_in, co_in_channels = in_c p, co_out_channels = out_c p,
     co_out_row_dim = h_out, co_out_col_dim = w_out, co_stride = stride_p p, co_input_dilation = 1, co_kernel_dilation = 1,
     co_padding = pad_p p, co_kernel_dim = kh_p p, co_in_stride = 0, co_weight_stride = 0, co_out_stride = 0,
     co_wrot180 = False, co_trans_output_1203 = False, co_trans_input_3120 = False, co_trans_weight_1203 = False, co_trans_weight_0132 = False,
     co_input = inp, co_weights = weight_p p, co_bias = bias_p p, co_output = out, co_act = ACT_NO_ACTIVATION, co_scale = requant p,
     co_pool_size = 0, co_pool_stride = 0, co_pool_padding = 0\<rparr>"

definition shen_run_conv3x3 ::
  "'m mmu \<Rightarrow> u64 \<Rightarrow> u64 \<Rightarrow> int \<Rightarrow> int \<Rightarrow> int \<Rightarrow> int \<Rightarrow> shen_conv_param \<Rightarrow> f32 \<Rightarrow> u64 \<Rightarrow> 'm sim \<Rightarrow> 'm sim res option" where
  "shen_run_conv3x3 M inp out h_in w_in h_out w_out p silu_target lut = in_turn [
     tiled_conv_auto M (conv3x3_args inp out h_in w_in h_out w_out p) TM_WS,
     silu_layer M p out (h_out * w_out * out_c p) silu_target lut]"

definition shen_run_conv_dw :: "'m mmu \<Rightarrow> u64 \<Rightarrow> u64 \<Rightarrow> int \<Rightarrow> int \<Rightarrow> int \<Rightarrow> shen_conv_param \<Rightarrow> f32 \<Rightarrow> u64 \<Rightarrow> 'm sim \<Rightarrow> 'm sim res option" where
  "shen_run_conv_dw M inp out h w ch p silu_target lut = in_turn [
     tiled_conv_dw_auto M \<lparr>
       dw_batch_size = 1, dw_in_row_dim = h, dw_in_col_dim = w, dw_channels = ch, dw_out_row_dim = h, dw_out_col_dim = w,
       dw_stride = stride_p p, dw_padding = pad_p p, dw_kernel_dim = kh_p p, dw_input = inp, dw_weights = weight_p p,
       dw_bias = bias_p p, dw_output = out, dw_act = ACT_NO_ACTIVATION, dw_scale = requant p,
       dw_pool_size = 0, dw_pool_stride = 0, dw_pool_padding = 0\<rparr> TM_WS,
     silu_layer M p out (h * w * ch) silu_target lut]"

section \<open>C3k2\<close>

definition shen_run_c3k2_simple ::
  "'m mmu \<Rightarrow> u64 \<Rightarrow> u64 \<Rightarrow> int \<Rightarrow> int \<Rightarrow> shen_conv_param list \<Rightarrow> f32 \<Rightarrow> u64 \<Rightarrow> u64 \<Rightarrow> u64 \<Rightarrow> u64 \<Rightarrow> u64 \<Rightarrow> u64 \<Rightarrow> u64 \<Rightarrow> 'm sim \<Rightarrow> 'm sim res option" where
  "shen_run_c3k2_simple M inp out h w p cv2_silu_target ws_cv1 ws_chunk0 ws_chunk1 ws_bn_mid ws_bn_out ws_concat lut =
     (let spatial = h * w; self_c = trunc_div (out_c (p ! 0)) 2; split_scale = in_scale (p ! 1) in
      in_turn [
        shen_run_conv1x1 M inp ws_cv1 spatial (p ! 0) split_scale lut,
        on_mem (shen_split_channels_nhwc M ws_cv1 spatial ws_chunk0 0 self_c ws_chunk1 self_c self_c (out_c (p ! 0))),
        shen_run_conv3x3 M ws_chunk1 ws_bn_mid h w h w (p ! 1) (in_scale (p ! 2)) lut,
        shen_run_conv3x3 M ws_bn_mid ws_bn_out h w h w (p ! 2) split_scale lut,
        on_mem (shen_resadd_same_scale M ws_chunk1 ws_bn_out ws_bn_out (spatial * self_c)),
        on_mem (shen_concat_channels_nhwc M ws_concat spatial ws_chunk0 self_c ws_chunk1 self_c ws_bn_out self_c 0 0),
        shen_run_conv1x1 M ws_concat out spatial (p ! 3) cv2_silu_target lut])"

definition shen_run_c3k2_c3k ::
  "'m mmu \<Rightarrow> u64 \<Rightarrow> u64 \<Rightarrow> int \<Rightarrow> int \<Rightarrow> shen_conv_param list \<Rightarrow> f32 \<Rightarrow> u64 \<Rightarrow> u64 \<Rightarrow> u64 \<Rightarrow> u64 \<Rightarrow> u64 \<Rightarrow> u64 \<Rightarrow> u64 \<Rightarrow> u64 \<Rightarrow> u64 \<Rightarrow> u64 \<Rightarrow> u64 \<Rightarrow>
     'm sim \<Rightarrow> 'm sim res option" where
  "shen_run_c3k2_c3k M inp out h w p cv2_silu_target ws_cv1 ws_chunk0 ws_chunk1 ws_pa ws_pb ws_mid ws_tmp ws_c3k_cat ws_c3k_out ws_concat lut =
     (let spatial = h * w; self_c = trunc_div (out_c (p ! 0)) 2; split_scale = in_scale (p ! 1);
          c3k_concat_scale = in_scale (p ! 7); c3k_c = out_c (p ! 1); bn0_out_scale = in_scale (p ! 5) in
      in_turn [
        shen_run_conv1x1 M inp ws_cv1 spatial (p ! 0) split_scale lut,
        on_mem (shen_split_channels_nhwc M ws_cv1 spatial ws_chunk0 0 self_c ws_chunk1 self_c self_c (out_c (p ! 0))),
        shen_run_conv1x1 M ws_chunk1 ws_pa spatial (p ! 1) (in_scale (p ! 3)) lut,
        shen_run_conv1x1 M ws_chunk1 ws_pb spatial (p ! 2) c3k_concat_scale lut,
        shen_run_conv3x3 M ws_pa ws_mid h w h w (p ! 3) (in_scale (p ! 4)) lut,
        shen_run_conv3x3 M ws_mid ws_tmp h w h w (p ! 4) bn0_out_scale lut,
        on_mem (shen_resadd_rescale M ws_pa ws_tmp ws_pa (spatial * c3k_c) (f32_div (in_scale (p ! 3)) bn0_out_scale)),
        shen_run_conv3x3 M ws_pa ws_mid h w h w (p ! 5) (in_scale (p ! 6)) lut,
        shen_run_conv3x3 M ws_mid ws_tmp h w h w (p ! 6) c3k_concat_scale lut,
        on_mem (shen_resadd_rescale M ws_pa ws_tmp ws_pa (spatial * c3k_c) (f32_div bn0_out_scale c3k_concat_scale)),
        on_mem (shen_concat_channels_nhwc M ws_c3k_cat spatial ws_pa c3k_c ws_pb c3k_c 0 0 0 0),
        shen_run_conv1x1 M ws_c3k_cat ws_c3k_out spatial (p ! 7) split_scale lut,
        on_mem (shen_concat_channels_nhwc M ws_concat spatial ws_chunk0 self_c ws_chunk1 self_c ws_c3k_out self_c 0 0),
        shen_run_conv1x1 M ws_concat out spatial (p ! 8) cv2_silu_target lut])"

section \<open>SPPF\<close>

definition shen_run_sppf ::
  "'m mmu \<Rightarrow> u64 \<Rightarrow> u64 \<Rightarrow> int \<Rightarrow> int \<Rightarrow> shen_conv_param \<Rightarrow> shen_conv_param \<Rightarrow> int \<Rightarrow> f32 \<Rightarrow> u64 \<Rightarrow> u64 \<Rightarrow> u64 \<Rightarrow> u64 \<Rightarrow> u64 \<Rightarrow> u64 \<Rightarrow>
     'm sim \<Rightarrow> 'm sim res option" where
  "shen_run_sppf M inp out h w cv1 cv2 k cv2_silu_target ws_cv1 ws_p1 ws_p2 ws_p3 ws_cat lut =
     (let spatial = h * w; ch = out_c cv1; pad = trunc_div k 2 in
      in_turn [
        shen_run_conv1x1 M inp ws_cv1 spatial cv1 (in_scale cv2) lut,
        on_mem (shen_maxpool_nhwc M ws_cv1 ws_p1 ch h w k 1 pad),
        on_mem (shen_maxpool_nhwc M ws_p1 ws_p2 ch h w k 1 pad),
        on_mem (shen_maxpool_nhwc M ws_p2 ws_p3 ch h w k 1 pad),
        on_mem (shen_concat_channels_nhwc M ws_cat spatial ws_cv1 ch ws_p1 ch ws_p2 ch ws_p3 ch),
        shen_run_conv1x1 M ws_cat out spatial cv2 cv2_silu_target lut])"

section \<open>C2PSA\<close>

text \<open>
  \<open>1 / sqrt(kd)\<close> by ten steps of Newton's iteration. The three values that the source computes for
  \<open>scale\<close> before this one are overwritten.
\<close>

definition psa_scale :: "int \<Rightarrow> f32" where
  "psa_scale kd =
     (let x = f32_of_int kd;
          r = ((\<lambda>r. f32_mul (f32_dec 5 1) (f32_add r (f32_div x r))) ^^ 10) (f32_of_int 1) in
      f32_div (f32_of_int 1) r)"

definition psa_extract_v :: "'m mmu \<Rightarrow> int \<Rightarrow> int \<Rightarrow> int \<Rightarrow> int \<Rightarrow> u64 \<Rightarrow> u64 \<Rightarrow> 'm \<Rightarrow> 'm res" where
  "psa_extract_v M spatial nh kd hdim ws_v_nhwc ws_qkv m =
     (let dim = nh * hdim; qkv_dim = nh * (kd * 2 + hdim) in
      forE (nat spatial) (\<lambda>s. forE (nat nh) (\<lambda>hi m.
        let v_src = int s * qkv_dim + int hi * (kd * 2 + hdim) + kd * 2; v_dst = int s * dim + int hi * hdim in
        memcpy M (ws_v_nhwc + off v_dst) (ws_qkv + off v_src) (of_int hdim * 1) m)) m)"

definition copy_f32 :: "'m mmu \<Rightarrow> u64 \<Rightarrow> int \<Rightarrow> u64 \<Rightarrow> int \<Rightarrow> 'm \<Rightarrow> 'm res" where
  "copy_f32 M dst i src j m = bindE (read_f32 M m src (off j)) (\<lambda>x. write_f32 M dst (off i) x m)"

definition psa_extract_head :: "'m mmu \<Rightarrow> int \<Rightarrow> int \<Rightarrow> int \<Rightarrow> int \<Rightarrow> int \<Rightarrow> u64 \<Rightarrow> u64 \<Rightarrow> u64 \<Rightarrow> u64 \<Rightarrow> 'm \<Rightarrow> 'm res" where
  "psa_extract_head M spatial kd hdim qkv_dim q_off fp_qkv fp_q fp_k fp_v m =
     (let k_off = q_off + kd; v_off = k_off + kd in
      forE (nat spatial) (\<lambda>s m.
        bindE (forE (nat kd) (\<lambda>d m.
          bindE (copy_f32 M fp_q (int s * kd + int d) fp_qkv (int s * qkv_dim + q_off + int d) m)
            (copy_f32 M fp_k (int s * kd + int d) fp_qkv (int s * qkv_dim + k_off + int d))) m)
        (forE (nat hdim) (\<lambda>d. copy_f32 M fp_v (int s * hdim + int d) fp_qkv (int s * qkv_dim + v_off + int d)))) m)"

definition psa_head :: "'m mmu \<Rightarrow> int \<Rightarrow> int \<Rightarrow> int \<Rightarrow> int \<Rightarrow> f32 \<Rightarrow> u64 \<Rightarrow> u64 \<Rightarrow> u64 \<Rightarrow> u64 \<Rightarrow> u64 \<Rightarrow> u64 \<Rightarrow> nat \<Rightarrow> 'm \<Rightarrow> 'm res" where
  "psa_head M spatial kd hdim qkv_dim scale fp_qkv fp_attn fp_attn_out fp_q fp_k fp_v hi m =
     (let attn = fp_attn + off (int hi * spatial * spatial) * 4; ao = fp_attn_out + off (int hi * spatial * hdim) * 4 in
      bindE (psa_extract_head M spatial kd hdim qkv_dim (int hi * (kd * 2 + hdim)) fp_qkv fp_q fp_k fp_v m) (\<lambda>m.
      bindE (shen_matmul_ABt_fp32 M fp_q fp_k attn spatial kd spatial m) (\<lambda>m.
      bindE (forE (nat (spatial * spatial)) (\<lambda>i m.
        bindE (read_f32 M m attn (of_nat i)) (\<lambda>x. write_f32 M attn (of_nat i) (f32_mul x scale) m)) m) (\<lambda>m.
      bindE (forE (nat spatial) (\<lambda>i. shen_softmax_fp32 M (attn + off (int i * spatial) * 4) spatial) m)
        (shen_matmul_fp32 M attn fp_v ao spatial spatial hdim)))))"

definition psa_merge :: "'m mmu \<Rightarrow> int \<Rightarrow> int \<Rightarrow> int \<Rightarrow> u64 \<Rightarrow> u64 \<Rightarrow> u64 \<Rightarrow> 'm \<Rightarrow> 'm res" where
  "psa_merge M spatial nh hdim fp_attn_out fp_a fp_sum m =
     forE (nat spatial) (\<lambda>s. forE (nat nh) (\<lambda>hi. forE (nat hdim) (\<lambda>d m.
       let idx = int s * (nh * hdim) + int hi * hdim + int d in
       bindE (read_f32 M m fp_attn_out (off (int hi * spatial * hdim + int s * hdim + int d))) (\<lambda>x.
       bindE (read_f32 M m fp_a (off idx)) (\<lambda>y.
       write_f32 M fp_sum (off idx) (f32_add x y) m))))) m"

text \<open>A residual: two tensors with scales of their own, added in floats and quantised again.\<close>

definition psa_residual :: "'m mmu \<Rightarrow> int \<Rightarrow> u64 \<Rightarrow> f32 \<Rightarrow> u64 \<Rightarrow> f32 \<Rightarrow> u64 \<Rightarrow> u64 \<Rightarrow> u64 \<Rightarrow> u64 \<Rightarrow> f32 \<Rightarrow> 'm \<Rightarrow> 'm res" where
  "psa_residual M n a a_scale b b_scale fp_a fp_b fp_sum out scale m =
     bindE (shen_dequant_int8_to_fp32 M a fp_a n a_scale m) (\<lambda>m.
     bindE (shen_dequant_int8_to_fp32 M b fp_b n b_scale m) (\<lambda>m.
     bindE (forE (nat n) (\<lambda>i m.
       bindE (read_f32 M m fp_a (of_nat i)) (\<lambda>x.
       bindE (read_f32 M m fp_b (of_nat i)) (\<lambda>y. write_f32 M fp_sum (of_nat i) (f32_add x y) m))) m)
     (shen_quant_fp32_to_int8 M fp_sum out n scale)))"

record psa_buffers =
  ws_cv1 :: u64
  ws_a :: u64
  ws_b :: u64
  ws_qkv :: u64
  ws_v_nhwc :: u64
  ws_pe :: u64
  ws_proj_in :: u64
  ws_proj_out :: u64
  ws_mid :: u64
  ws_ffn_up :: u64
  ws_ffn_out :: u64
  ws_concat :: u64
  fp_qkv :: u64
  fp_attn :: u64
  fp_attn_out :: u64
  fp_a :: u64
  fp_b :: u64
  fp_sum :: u64
  fp_q :: u64
  fp_k :: u64
  fp_v :: u64

definition shen_run_c2psa ::
  "'m mmu \<Rightarrow> u64 \<Rightarrow> u64 \<Rightarrow> int \<Rightarrow> int \<Rightarrow> shen_conv_param list \<Rightarrow> int \<Rightarrow> int \<Rightarrow> int \<Rightarrow> f32 \<Rightarrow> psa_buffers \<Rightarrow> u64 \<Rightarrow> 'm sim \<Rightarrow> 'm sim res option" where
  "shen_run_c2psa M inp out h w p nh kd hdim cv2_silu_target ws lut =
     (let spatial = h * w; dim = nh * hdim; qkv_dim = nh * (kd * 2 + hdim); scale = psa_scale kd; n = spatial * dim;
          cv1_silu_target = in_scale (p ! 1); cv2_in_scale = in_scale (p ! 6) in
      in_turn [
        shen_run_conv1x1 M inp (ws_cv1 ws) spatial (p ! 0) cv1_silu_target lut,
        on_mem (shen_split_channels_nhwc M (ws_cv1 ws) spatial (ws_a ws) 0 dim (ws_b ws) dim dim (out_c (p ! 0))),
        shen_run_conv1x1 M (ws_b ws) (ws_qkv ws) spatial (p ! 1) 0 lut,
        on_mem (psa_extract_v M spatial nh kd hdim (ws_v_nhwc ws) (ws_qkv ws)),
        shen_run_conv_dw M (ws_v_nhwc ws) (ws_pe ws) h w dim (p ! 2) 0 lut,
        on_mem (shen_dequant_int8_to_fp32 M (ws_qkv ws) (fp_qkv ws) (spatial * qkv_dim) (out_scale (p ! 1))),
        on_mem (forE (nat nh) (psa_head M spatial kd hdim qkv_dim scale (fp_qkv ws) (fp_attn ws) (fp_attn_out ws) (fp_q ws) (fp_k ws) (fp_v ws))),
        on_mem (shen_dequant_int8_to_fp32 M (ws_pe ws) (fp_a ws) n (out_scale (p ! 2))),
        on_mem (psa_merge M spatial nh hdim (fp_attn_out ws) (fp_a ws) (fp_sum ws)),
        on_mem (shen_quant_fp32_to_int8 M (fp_sum ws) (ws_proj_in ws) n (in_scale (p ! 3))),
        shen_run_conv1x1 M (ws_proj_in ws) (ws_proj_out ws) spatial (p ! 3) 0 lut,
        on_mem (psa_residual M n (ws_b ws) cv1_silu_target (ws_proj_out ws) (out_scale (p ! 3)) (fp_a ws) (fp_b ws) (fp_sum ws)
          (ws_mid ws) (in_scale (p ! 4))),
        shen_run_conv1x1 M (ws_mid ws) (ws_ffn_up ws) spatial (p ! 4) (in_scale (p ! 5)) lut,
        shen_run_conv1x1 M (ws_ffn_up ws) (ws_ffn_out ws) spatial (p ! 5) 0 lut,
        on_mem (psa_residual M n (ws_mid ws) (in_scale (p ! 4)) (ws_ffn_out ws) (out_scale (p ! 5)) (fp_a ws) (fp_b ws) (fp_sum ws)
          (ws_b ws) cv2_in_scale),
        on_mem (shen_dequant_int8_to_fp32 M (ws_a ws) (fp_a ws) n cv1_silu_target),
        on_mem (shen_quant_fp32_to_int8 M (fp_a ws) (ws_a ws) n cv2_in_scale),
        on_mem (shen_concat_channels_nhwc M (ws_concat ws) spatial (ws_a ws) dim (ws_b ws) dim 0 0 0 0),
        shen_run_conv1x1 M (ws_concat ws) out spatial (p ! 6) cv2_silu_target lut])"

end
