(* ===== verification/Yolo_Ops_Correct.thy ===== *)
theory Yolo_Ops_Correct
  imports Tensors
begin

text \<open>What the operators of the network compute, in terms of the tensors before and after.\<close>

section \<open>Rows of channels\<close>

text \<open>
  One \<open>memcpy\<close> of a run of channels, from channel \<open>a0\<close> of pixel \<open>s\<close> of a tensor to the cells \<open>key i\<close> of the region
  that is being filled.
\<close>

lemma filling_channels:
  assumes r: "region M m U addr" and fill: "filling M m U addr W S t"
    and src: "tensor M m p n ch X" "s < n" "a0 + k \<le> ch" "n * ch < 2 ^ 31" "\<And>c. c < ch \<Longrightarrow> pixel p ch (s, c) \<notin> addr ` U"
    and key: "\<And>i. i < k \<Longrightarrow> key i \<in> U \<and> addr (key i) = dst + of_nat i \<and> W (key i) = X s (a0 + i)"
    and at: "from = p + of_nat (s * ch + a0)" and len: "len = of_nat k"
  shows "succeeds (memcpy M dst from len t) (filling M m U addr W (S \<union> key ` {..<k}))"
proof (cases "k = 0")
  case True
  then show ?thesis using fill by (simp add: memcpy_def len)
next
  case False
  then have "s * ch + a0 < n * ch" using src index_bound [of s n a0 ch] by simp
  then have "n \<noteq> 0" by (cases n) auto
  then have "ch \<le> n * ch" by simp
  then have "k < 2 ^ 31" using src(3,4) by linarith
  then have u: "unat len = k" by (simp add: len unat_of_nat take_bit_nat_eq_self)
  have c: "from + of_nat i = pixel p ch (s, a0 + i)" for i by (simp add: at pixel_def)
  have "succeeds (memcpy M dst from len t) (filling M m U addr W (S \<union> key ` {..<unat len}))"
  proof (rule filling_memcpy [OF r fill])
    show "key i \<in> U \<and> addr (key i) = dst + of_nat i" if "i < unat len" for i using key that u by simp
    show "from + of_nat i \<notin> addr ` U \<and> mmu_load M m (from + of_nat i) = Some (W (key i))" if "i < unat len" for i
      using src that u key by (simp add: c tensor_def)
  qed
  then show ?thesis by (simp add: u)
qed

section \<open>Splitting and concatenation\<close>

text \<open>The cells of two arrays.\<close>

definition two_cells :: "u64 \<Rightarrow> nat \<Rightarrow> u64 \<Rightarrow> nat \<Rightarrow> bool \<times> nat \<times> nat \<Rightarrow> u64" where
  "two_cells p a q b k = (if fst k then pixel p a (snd k) else pixel q b (snd k))"

definition two_elems :: "nat \<Rightarrow> nat \<Rightarrow> nat \<Rightarrow> (bool \<times> nat \<times> nat) set" where
  "two_elems n a b = {True} \<times> elems n a \<union> {False} \<times> elems n b"

lemma two_region:
  assumes "room M m p n a" "room M m q n b" "apart p (n * a) q (n * b)"
  shows "region M m (two_elems n a b) (two_cells p a q b)"
proof -
  have r: "region M m (elems n a) (pixel p a)" "region M m (elems n b) (pixel q b)" using assms by (blast intro: room_region)+
  have d: "pixel p a k \<noteq> pixel q b l" if "k \<in> elems n a" "l \<in> elems n b" for k l
    using pixel_apart [OF assms(3), of "fst k" "snd k"] that by (cases k) auto
  have "inj_on (two_cells p a q b) (two_elems n a b)"
  proof (rule inj_onI)
    fix x y assume xy: "x \<in> two_elems n a b" "y \<in> two_elems n a b" "two_cells p a q b x = two_cells p a q b y"
    obtain k s l t where e: "x = (k, s)" "y = (l, t)" by (cases x, cases y)
    show "x = y"
      using xy r d [of s t] d [of t s] unfolding e two_elems_def two_cells_def region_def
      by (cases k; cases l) (auto dest: inj_onD)
  qed
  then show ?thesis using r by (auto simp: region_def two_elems_def two_cells_def)
qed

lemma split_channels:
  assumes inp: "tensor M m inp n ch X" "n * ch < 2 ^ 31" "a0 + a \<le> ch" "b0 + b \<le> ch"
    and out: "room M m out_a n a" "room M m out_b n b" "apart out_a (n * a) out_b (n * b)"
    and ap: "apart inp (n * ch) out_a (n * a)" "apart inp (n * ch) out_b (n * b)"
  shows "succeeds (shen_split_channels_nhwc M inp (int n) out_a (int a0) (int a) out_b (int b0) (int b) (int ch) m)
    (\<lambda>t. wrote M m t (two_elems n a b) (two_cells out_a a out_b b) (\<lambda>(k, s, c). X s ((if k then a0 else b0) + c)))"
proof -
  let ?W = "\<lambda>(k, s, c). X s ((if k then a0 else b0) + c)" and ?U = "two_elems n a b" and ?A = "two_cells out_a a out_b b"
  note r = two_region [OF out]
  have far: "pixel inp ch (s, c) \<notin> ?A ` ?U" if "s < n" "c < ch" for s c
    using pixel_apart [OF ap(1) that] pixel_apart [OF ap(2) that] by (auto simp: two_elems_def two_cells_def)
  have "n * a < 2 ^ 31" "n * b < 2 ^ 31" using out by (simp_all add: room_def)
  have "succeeds (shen_split_channels_nhwc M inp (int n) out_a (int a0) (int a) out_b (int b0) (int b) (int ch) m)
      (filling M m ?U ?A ?W (\<Union>s < n. {True} \<times> {s} \<times> {..<a} \<union> {False} \<times> {s} \<times> {..<b}))"
    unfolding shen_split_channels_nhwc_def nat_int
  proof (rule forE_gather)
    fix s S t assume s: "s < n" and f: "filling M m ?U ?A ?W S t"
    have idx: "s * k \<le> n * k" for k using s by simp
    have sz: "s * ch < 2 ^ 31" "s * a < 2 ^ 31" "s * b < 2 ^ 31" using idx [of ch] idx [of a] idx [of b] inp(2) \<open>n * a < 2 ^ 31\<close> \<open>n * b < 2 ^ 31\<close> by linarith+
    have "n \<noteq> 0" using s by simp
    then have "ch \<le> n * ch" by simp
    then have z: "a0 < 2 ^ 31" "b0 < 2 ^ 31" using inp by linarith+
    note o = off_index [OF of_nat_mult [symmetric, where 'a = int], OF sz(1)] off_index [OF of_nat_mult [symmetric, where 'a = int], OF sz(2)]
      off_index [OF of_nat_mult [symmetric, where 'a = int], OF sz(3)] off_index [OF refl z(1)] off_index [OF refl z(2)]
    have 1: "succeeds (memcpy M (out_a + off (int s * int a)) (inp + off (int s * int ch) + off (int a0)) (of_int (int a)) t)
        (filling M m ?U ?A ?W (S \<union> (\<lambda>i. (True, s, i)) ` {..<a}))"
      by (rule filling_channels [OF r f inp(1) s inp(3,2) far [OF s]]) (simp_all add: s o two_elems_def two_cells_def pixel_def)
    have 2: "succeeds (memcpy M (out_b + off (int s * int b)) (inp + off (int s * int ch) + off (int b0)) (of_int (int b)) t')
        (filling M m ?U ?A ?W (S \<union> (\<lambda>i. (True, s, i)) ` {..<a} \<union> (\<lambda>i. (False, s, i)) ` {..<b}))"
      if "filling M m ?U ?A ?W (S \<union> (\<lambda>i. (True, s, i)) ` {..<a}) t'" for t'
      by (rule filling_channels [OF r that inp(1) s inp(4,2) far [OF s]]) (simp_all add: s o two_elems_def two_cells_def pixel_def)
    have e: "S \<union> (\<lambda>i. (True, s, i)) ` {..<a} \<union> (\<lambda>i. (False, s, i)) ` {..<b} = S \<union> ({True} \<times> {s} \<times> {..<a} \<union> {False} \<times> {s} \<times> {..<b})" by auto
    show "succeeds (bindE (memcpy M (out_a + off (int s * int a)) (inp + off (int s * int ch) + off (int a0)) (of_int (int a)) t)
        (memcpy M (out_b + off (int s * int b)) (inp + off (int s * int ch) + off (int b0)) (of_int (int b))))
        (filling M m ?U ?A ?W (S \<union> ({True} \<times> {s} \<times> {..<a} \<union> {False} \<times> {s} \<times> {..<b})))"
      unfolding succeeds_bindE e [symmetric] by (rule succeeds_mono [OF 1]) (rule 2)
  qed simp
  moreover have "(\<Union>s < n. {True} \<times> {s} \<times> {..<a} \<union> {False} \<times> {s} \<times> {..<b}) = ?U" by (auto simp: two_elems_def)
  ultimately show ?thesis by (rule filling_done)
qed

text \<open>The tensor that concatenation makes of four, of which the last two may be absent.\<close>

definition concat4 :: "nat \<Rightarrow> (nat \<Rightarrow> nat \<Rightarrow> u8) \<Rightarrow> nat \<Rightarrow> (nat \<Rightarrow> nat \<Rightarrow> u8) \<Rightarrow> nat \<Rightarrow> (nat \<Rightarrow> nat \<Rightarrow> u8) \<Rightarrow> (nat \<Rightarrow> nat \<Rightarrow> u8) \<Rightarrow> nat \<times> nat \<Rightarrow> u8" where
  "concat4 x A y B z C D = (\<lambda>(s, i). if i < x then A s i else if i < x + y then B s (i - x)
     else if i < x + y + z then C s (i - x - y) else D s (i - x - y - z))"

text \<open>One of the parts of a pixel.\<close>

lemma filling_part:
  assumes out: "room M m out n tot" and f: "filling M m (elems n tot) (pixel out tot) W S t" and s: "s < n"
    and inp: "tensor M m p n k X" "apart p (n * k) out (n * tot)" and pos: "pos + k \<le> tot" "\<And>i. i < k \<Longrightarrow> W (s, pos + i) = X s i"
  shows "succeeds (memcpy M (out + off (int s * int tot) + off (int pos)) (p + off (int s * int k)) (of_int (int k)) t)
    (filling M m (elems n tot) (pixel out tot) W (S \<union> {s} \<times> {pos..<pos + k}))"
proof -
  have nt: "n * tot < 2 ^ 31" using out by (simp add: room_def)
  have le: "s * tot \<le> n * tot" "n * k \<le> n * tot" "s * k \<le> n * k" using s pos by (simp_all add: mult_le_mono)
  have "n \<noteq> 0" using s by simp
  then have "tot \<le> n * tot" by simp
  then have sz: "s * tot < 2 ^ 31" "n * k < 2 ^ 31" "s * k < 2 ^ 31" "pos < 2 ^ 31" using nt le pos(1) by linarith+
  note o = off_index [OF of_nat_mult [symmetric, where 'a = int], OF sz(1)] off_index [OF of_nat_mult [symmetric, where 'a = int], OF sz(3)] off_index [OF refl sz(4)]
  have "succeeds (memcpy M (out + off (int s * int tot) + off (int pos)) (p + off (int s * int k)) (of_int (int k)) t)
    (filling M m (elems n tot) (pixel out tot) W (S \<union> (\<lambda>i. (s, pos + i)) ` {..<k}))"
    by (rule filling_channels [OF room_region [OF out] f inp(1) s, of 0 k]) (use sz pos s pixel_apart [OF inp(2)] in \<open>simp_all add: o pixel_def\<close>)
  moreover have "(\<lambda>i. (s, pos + i)) ` {..<k} = {s} \<times> {pos..<pos + k}"
  proof -
    have "(\<lambda>i. pos + i) ` {..<k} = {pos..<pos + k}" by (simp add: atLeast0LessThan [symmetric] image_add_atLeastLessThan add.commute)
    then show ?thesis by (auto simp: image_iff)
  qed
  ultimately show ?thesis by simp
qed

lemma concat_channels:
  fixes x y z w :: nat and c d :: u64
  defines "z' \<equiv> (if c = 0 then 0 else z)" and "w' \<equiv> (if d = 0 then 0 else w)"
  defines "tot \<equiv> (x :: nat) + y + z' + w'"
  assumes out: "room M m out n tot"
    and A: "tensor M m a n x A" "apart a (n * x) out (n * tot)" and B: "tensor M m b n y B" "apart b (n * y) out (n * tot)"
    and C: "c \<noteq> 0 \<Longrightarrow> tensor M m c n z C" "c \<noteq> 0 \<Longrightarrow> apart c (n * z) out (n * tot)"
    and D: "d \<noteq> 0 \<Longrightarrow> tensor M m d n w D" "d \<noteq> 0 \<Longrightarrow> apart d (n * w) out (n * tot)"
  shows "succeeds (shen_concat_channels_nhwc M out (int n) a (int x) b (int y) c (int z) d (int w) m)
    (\<lambda>t. wrote M m t (elems n tot) (pixel out tot) (concat4 x A y B z' C D))"
proof -
  let ?W = "concat4 x A y B z' C D" and ?F = "filling M m (elems n tot) (pixel out tot) (concat4 x A y B z' C D)"
  have tot: "int x + int y + (if c \<noteq> 0 then int z else 0) + (if d \<noteq> 0 then int w else 0) = int tot" by (simp add: tot_def z'_def w'_def)
  let ?part = "\<lambda>s p k pos. memcpy M (out + off (int s * int tot) + off pos) (p + off (int s * k)) (of_int k)"
  have "succeeds (shen_concat_channels_nhwc M out (int n) a (int x) b (int y) c (int z) d (int w) m) (?F (\<Union>s < n. {s} \<times> {..<tot}))"
    unfolding shen_concat_channels_nhwc_def tot Let_def nat_int
  proof (rule forE_gather)
    fix s S t assume s: "s < n" and f: "?F S t"
    have 1: "succeeds (?part s a (int x) 0 t) (?F (S \<union> {s} \<times> {0..<x}))"
      using filling_part [OF out f s A, of 0] by (simp add: tot_def concat4_def)
    have 2: "succeeds (?part s b (int y) (int x) u) (?F (S \<union> {s} \<times> {0..<x + y}))" if "?F (S \<union> {s} \<times> {0..<x}) u" for u
    proof -
      have "S \<union> {s} \<times> {0..<x} \<union> {s} \<times> {x..<x + y} = S \<union> {s} \<times> {0..<x + y}" by (auto simp: not_less)
      then show ?thesis using filling_part [OF out that s B, of x] by (simp add: tot_def concat4_def)
    qed
    have 3: "succeeds (if c \<noteq> 0 then ?part s c (int z) (int x + int y) u else Inr u) (?F (S \<union> {s} \<times> {0..<x + y + z'}))"
      if "?F (S \<union> {s} \<times> {0..<x + y}) u" for u
    proof (cases "c = 0")
      case False
      have "S \<union> {s} \<times> {0..<x + y} \<union> {s} \<times> {x + y..<x + y + z} = S \<union> {s} \<times> {0..<x + y + z}" by (auto simp: not_less)
      then show ?thesis using filling_part [OF out that s C(1) [OF False] C(2) [OF False], of "x + y"] False
        by (simp add: tot_def z'_def concat4_def add.assoc)
    qed (use that in \<open>simp add: z'_def\<close>)
    have 4: "succeeds (if d \<noteq> 0 then ?part s d (int w) (int x + int y + (if c \<noteq> 0 then int z else 0)) u else Inr u) (?F (S \<union> {s} \<times> {0..<tot}))"
      if "?F (S \<union> {s} \<times> {0..<x + y + z'}) u" for u
    proof (cases "d = 0")
      case False
      have "S \<union> {s} \<times> {0..<x + y + z'} \<union> {s} \<times> {x + y + z'..<x + y + z' + w} = S \<union> {s} \<times> {0..<x + y + z' + w}" by (auto simp: not_less)
      moreover have "int x + int y + (if c \<noteq> 0 then int z else 0) = int (x + y + z')" by (simp add: z'_def)
      ultimately show ?thesis using filling_part [OF out that s D(1) [OF False] D(2) [OF False], of "x + y + z'"] False
        by (simp add: tot_def w'_def concat4_def)
    qed (use that in \<open>simp add: tot_def w'_def\<close>)
    have e: "S \<union> {s} \<times> {..<tot} = S \<union> {s} \<times> {0..<tot}" by auto
    show "succeeds (bindE (?part s a (int x) 0 t) (\<lambda>m. bindE (?part s b (int y) (int x) m) (\<lambda>m.
        bindE (if c \<noteq> 0 then ?part s c (int z) (int x + int y) m else Inr m) (\<lambda>m.
        if d \<noteq> 0 then ?part s d (int w) (int x + int y + (if c \<noteq> 0 then int z else 0)) m else Inr m)))) (?F (S \<union> {s} \<times> {..<tot}))"
      unfolding succeeds_bindE e
      by (rule succeeds_mono [OF 1], rule succeeds_mono [OF 2], assumption, rule succeeds_mono [OF 3], assumption, rule 4)
  qed simp
  then show ?thesis by (rule filling_done) auto
qed

lemma two_cells_part:
  assumes "wrote M m t (two_elems n a b) (two_cells p a q b) W"
  shows "tensor M t p n a (\<lambda>s c. W (True, s, c))" "tensor M t q n b (\<lambda>s c. W (False, s, c))"
proof -
  have "mmu_load M t (two_cells p a q b k) = Some (W k)" if "k \<in> two_elems n a b" for k using assms that by (simp add: wrote_def)
  from this [of "(True, _, _)"] this [of "(False, _, _)"]
  show "tensor M t p n a (\<lambda>s c. W (True, s, c))" "tensor M t q n b (\<lambda>s c. W (False, s, c))"
    by (auto intro!: tensorI simp: two_elems_def two_cells_def)
qed

text \<open>A tensor split into its first and its last channels is put together again by concatenation.\<close>

lemma split_then_concat:
  assumes inp: "tensor M m inp n (a + b) X"
    and out: "room M m out_a n a" "room M m out_b n b" "apart out_a (n * a) out_b (n * b)"
    and ap: "apart inp (n * (a + b)) out_a (n * a)" "apart inp (n * (a + b)) out_b (n * b)"
    and res: "room M m out n (a + b)" "apart out_a (n * a) out (n * (a + b))" "apart out_b (n * b) out (n * (a + b))"
  shows "succeeds (shen_split_channels_nhwc M inp (int n) out_a 0 (int a) out_b (int a) (int b) (int (a + b)) m)
    (\<lambda>t. succeeds (shen_concat_channels_nhwc M out (int n) out_a (int a) out_b (int b) 0 0 0 0 t) (\<lambda>u. tensor M u out n (a + b) X))"
proof -
  have "n * (a + b) < 2 ^ 31" using res(1) by (simp add: room_def)
  then have "succeeds (shen_split_channels_nhwc M inp (int n) out_a 0 (int a) out_b (int a) (int b) (int (a + b)) m)
      (\<lambda>t. wrote M m t (two_elems n a b) (two_cells out_a a out_b b) (\<lambda>(k, s, c). X s ((if k then 0 else a) + c)))"
    using split_channels [OF inp _ _ _ out ap, of 0 a] by simp
  then show ?thesis
  proof (rule succeeds_mono)
    fix t assume "wrote M m t (two_elems n a b) (two_cells out_a a out_b b) (\<lambda>(k, s, c). X s ((if k then 0 else a) + c))"
    note w = this and ts = two_cells_part [OF this, simplified]
    have "succeeds (shen_concat_channels_nhwc M out (int n) out_a (int a) out_b (int b) 0 (int 0) 0 (int 0) t)
        (\<lambda>u. wrote M t u (elems n (a + b + (if (0 :: u64) = 0 then 0 else 0) + (if (0 :: u64) = 0 then 0 else 0)))
          (pixel out (a + b + (if (0 :: u64) = 0 then 0 else 0) + (if (0 :: u64) = 0 then 0 else 0)))
          (concat4 a X b (\<lambda>s c. X s (a + c)) (if (0 :: u64) = 0 then 0 else 0) X X))"
      by (rule concat_channels) (use ts res room_wrote [OF res(1) w] in simp_all)
    then have "succeeds (shen_concat_channels_nhwc M out (int n) out_a (int a) out_b (int b) 0 0 0 0 t)
        (\<lambda>u. tensor M u out n (a + b) (\<lambda>s c. concat4 a X b (\<lambda>s c. X s (a + c)) 0 X X (s, c)))"
      by (simp add: succeeds_iff) (blast intro: tensor_wrote)
    then show "succeeds (shen_concat_channels_nhwc M out (int n) out_a (int a) out_b (int b) 0 0 0 0 t) (\<lambda>u. tensor M u out n (a + b) X)"
      by (rule succeeds_mono) (simp add: tensor_def concat4_def)
  qed
qed

section \<open>Element by element\<close>

lemma resadd_same_scale:
  assumes "array_room M m c n" "array M m a n A" "array M m b n B" "aligned a c n" "aligned b c n"
  shows "succeeds (shen_resadd_same_scale M a b c (int n) m)
    (\<lambda>t. wrote M m t {..<n} (elem_at c) (\<lambda>i. clip_elem (sint (A i) + sint (B i))))"
  unfolding shen_resadd_same_scale_def nat_int
proof (rule fill_in_order [OF array_region [OF assms(1)]])
  fix i t assume "i < n" "wrote M m t {..<i} (elem_at c) (\<lambda>i. clip_elem (sint (A i) + sint (B i)))"
  then show "bindE (load_byte M t (elem_at a i)) (\<lambda>x. bindE (load_byte M t (elem_at b i)) (\<lambda>y.
      store_byte M t (elem_at c i) (clip_elem (sint x + sint y)))) = store_byte M t (elem_at c i) (clip_elem (sint (A i) + sint (B i)))"
    using load_aligned [of a c n i M m t _ A] load_aligned [of b c n i M m t _ B] assms by (simp add: array_room_def)
qed

lemma silu_table:
  assumes "array_room M m lut 256" "\<And>x. silu_entry input_scale output_scale x = Inr (L x)"
  shows "succeeds (shen_build_silu_lut M lut input_scale output_scale m) (\<lambda>t. wrote M m t {..<256} (elem_at lut) (\<lambda>i. L (of_nat i)))"
  unfolding shen_build_silu_lut_def
  by (rule fill_in_order [OF array_region [OF assms(1)]]) (simp add: assms(2))

lemma silu_lookup:
  assumes "array_room M m p n" "array M m p n X" "array M m lut 256 (\<lambda>i. L (of_nat i))" "apart lut 256 p n"
  shows "succeeds (shen_silu_int8_lut M p (int n) lut m) (\<lambda>t. wrote M m t {..<n} (elem_at p) (\<lambda>i. L (X i)))"
  unfolding shen_silu_int8_lut_def nat_int
proof (rule fill_in_order [OF array_region [OF assms(1)]])
  fix i t assume i: "i < n" and w: "wrote M m t {..<i} (elem_at p) (\<lambda>i. L (X i))"
  have "unat (X i) < 256" using unsigned_less [of "X i"] by simp
  then have "elem_at lut (unat (X i)) \<noteq> elem_at p j" if "j < i" for j
    using assms(4) i that unfolding apart_def by (meson order.strict_trans)
  then have "elem_at lut (unat (X i)) \<notin> elem_at p ` {..<i}" by blast
  moreover have "mmu_load M m (elem_at lut (unat (X i))) = Some (L (of_nat (unat (X i))))"
    using assms(3) \<open>unat (X i) < 256\<close> unfolding array_def by blast
  ultimately have "load_byte M t (lut + ucast (X i)) = Inr (L (X i))"
    using wrote_outside [OF w] by (simp add: load_byte_Inr_iff)
  moreover have "load_byte M t (elem_at p i) = Inr (X i)"
    using load_aligned [OF _ i _ w assms(2)] assms(1) by (simp add: aligned_def array_room_def)
  ultimately show "bindE (load_byte M t (elem_at p i)) (\<lambda>x. bindE (load_byte M t (lut + ucast x)) (\<lambda>y. store_byte M t (elem_at p i) y)) =
      store_byte M t (elem_at p i) (L (X i))" by simp
qed

section \<open>Upsampling\<close>

lemma upsample:
  assumes inp: "tensor M m inp (h * w) ch X" and out: "room M m out (2 * h * (2 * w)) ch"
    and ap: "apart inp (h * w * ch) out (2 * h * (2 * w) * ch)"
  shows "succeeds (shen_upsample_nearest_2x_nhwc M inp out (int ch) (int h) (int w) m)
    (\<lambda>t. wrote M m t (elems (2 * h * (2 * w)) ch) (pixel out ch) (\<lambda>(s, c). X (s div (2 * w) div 2 * w + s mod (2 * w) div 2) c))"
proof -
  let ?W = "\<lambda>(s, c). X (s div (2 * w) div 2 * w + s mod (2 * w) div 2) c" and ?n = "2 * h * (2 * w)"
  let ?F = "filling M m (elems ?n ch) (pixel out ch) ?W"
  have lim: "?n * ch < 2 ^ 31" using out by (simp add: room_def)
  let ?px = "\<lambda>y x. {y * (2 * w) + x} \<times> {..<ch}"
  have copy: "succeeds (memcpy M (out + off ((Y * (int w * 2) + XX) * int ch)) (inp + off ((int i * int w + int j) * int ch)) (of_int (int ch * 1)) t)
      (?F (S \<union> ?px y x))"
    if "?F S t" "i < h" "j < w" "y = 2 * i + dy" "x = 2 * j + dx" "dy < 2" "dx < 2" "Y = int y" "XX = int x" for S t i j y x dy dx Y XX
  proof -
    have yx: "y < 2 * h" "x < 2 * w" "y div 2 = i" "x div 2 = j" using that by auto
    have s: "y * (2 * w) + x < ?n" "i * w + j < h * w" using index_bound [OF yx(1,2)] index_bound [of i h j w] that by simp_all
    have "(y * (2 * w) + x) * ch \<le> ?n * ch" "(i * w + j) * ch \<le> h * w * ch" "h * w * ch \<le> ?n * ch" using s by (auto intro: mult_le_mono)
    then have b: "(y * (2 * w) + x) * ch < 2 ^ 31" "(i * w + j) * ch < 2 ^ 31" "h * w * ch < 2 ^ 31" using lim by linarith+
    have o: "off ((Y * (int w * 2) + XX) * int ch) = of_nat ((y * (2 * w) + x) * ch)" "off ((int i * int w + int j) * int ch) = of_nat ((i * w + j) * ch)"
      by (rule off_index; use b that in \<open>simp add: algebra_simps\<close>)+
    have W: "?W (y * (2 * w) + x, c) = X (i * w + j) c" for c using yx by simp
    have "succeeds (memcpy M (out + off ((Y * (int w * 2) + XX) * int ch)) (inp + off ((int i * int w + int j) * int ch)) (of_int (int ch * 1)) t)
      (?F (S \<union> (\<lambda>c. (y * (2 * w) + x, c)) ` {..<ch}))"
      by (rule filling_channels [OF room_region [OF out] that(1) inp s(2), of 0 ch])
        (use b s W pixel_apart [OF ap s(2)] in \<open>simp_all add: o pixel_def\<close>)
    moreover have "(\<lambda>c. (y * (2 * w) + x, c)) ` {..<ch} = ?px y x" by auto
    ultimately show ?thesis by simp
  qed
  let ?block = "\<lambda>i j. ?px (2 * i) (2 * j) \<union> ?px (2 * i) (2 * j + 1) \<union> ?px (2 * i + 1) (2 * j) \<union> ?px (2 * i + 1) (2 * j + 1)"
  have "succeeds (shen_upsample_nearest_2x_nhwc M inp out (int ch) (int h) (int w) m) (?F (\<Union>i < h. \<Union>j < w. ?block i j))"
    unfolding shen_upsample_nearest_2x_nhwc_def Let_def nat_int
  proof (rule forE_gather, simp, rule forE_gather_from, assumption)
    fix i j S t assume ij: "i < h" "j < w" and f: "?F S t"
    let ?cp = "\<lambda>Y XX. memcpy M (out + off ((Y * (int w * 2) + XX) * int ch)) (inp + off ((int i * int w + int j) * int ch)) (of_int (int ch * 1))"
    have 1: "succeeds (?cp (2 * int i) (2 * int j) u) (?F (R \<union> ?px (2 * i) (2 * j)))" if "?F R u" for R u
      by (rule copy [OF that ij, where dy = 0 and dx = 0]) simp_all
    have 2: "succeeds (?cp (2 * int i) (2 * int j + 1) u) (?F (R \<union> ?px (2 * i) (2 * j + 1)))" if "?F R u" for R u
      by (rule copy [OF that ij, where dy = 0 and dx = 1]) simp_all
    have 3: "succeeds (?cp (2 * int i + 1) (2 * int j) u) (?F (R \<union> ?px (2 * i + 1) (2 * j)))" if "?F R u" for R u
      by (rule copy [OF that ij, where dy = 1 and dx = 0]) simp_all
    have 4: "succeeds (?cp (2 * int i + 1) (2 * int j + 1) u) (?F (R \<union> ?px (2 * i + 1) (2 * j + 1)))" if "?F R u" for R u
      by (rule copy [OF that ij, where dy = 1 and dx = 1]) simp_all
    show "succeeds (bindE (?cp (2 * int i) (2 * int j) t) (\<lambda>t. bindE (?cp (2 * int i) (2 * int j + 1) t)
        (\<lambda>t. bindE (?cp (2 * int i + 1) (2 * int j) t) (?cp (2 * int i + 1) (2 * int j + 1))))) (?F (S \<union> ?block i j))"
      unfolding succeeds_bindE Un_assoc [symmetric]
      by (rule succeeds_mono [OF 1 [OF f]], erule succeeds_mono [OF 2], erule succeeds_mono [OF 3], erule 4)
  qed
  moreover have "(\<Union>i < h. \<Union>j < w. ?block i j) = elems ?n ch"
  proof (intro equalityI subsetI)
    fix k assume "k \<in> (\<Union>i < h. \<Union>j < w. ?block i j)"
    then obtain i j where ij: "i < h" "j < w" "k \<in> ?block i j" by blast
    then have "2 * i + 1 < 2 * h" "2 * j + 1 < 2 * w" by simp_all
    then show "k \<in> elems ?n ch"
      using ij(3) index_bound [of "2 * i" "2 * h" "2 * j" "2 * w"] index_bound [of "2 * i" "2 * h" "2 * j + 1" "2 * w"]
        index_bound [of "2 * i + 1" "2 * h" "2 * j" "2 * w"] index_bound [of "2 * i + 1" "2 * h" "2 * j + 1" "2 * w"] by auto
  next
    fix k assume k: "k \<in> elems ?n ch"
    obtain s c where sc: "k = (s, c)" by (cases k)
    define y x where "y = s div (2 * w)" and "x = s mod (2 * w)"
    have s: "s < 2 * h * (2 * w)" using k sc by simp
    then have "0 < 2 * w" by (cases w) auto
    then have yx: "y < 2 * h" "x < 2 * w" using s by (simp_all add: y_def x_def less_mult_imp_div_less)
    have yx3: "s = y * (2 * w) + x" unfolding y_def x_def by (rule div_mult_mod_eq [symmetric])
    obtain i j where ij: "y = 2 * i \<or> y = 2 * i + 1" "x = 2 * j \<or> x = 2 * j + 1" by (meson oddE evenE)
    then have "?px y x \<subseteq> ?block i j" by (elim disjE) (simp only:, blast)+
    moreover have "i < h" "j < w" "k \<in> ?px y x" using ij yx k sc yx3 by auto
    ultimately show "k \<in> (\<Union>i < h. \<Union>j < w. ?block i j)" by blast
  qed
  ultimately show ?thesis by (rule filling_done)
qed

end
