(* ===== verification/Yolo_Layers_Correct.thy ===== *)
theory Yolo_Layers_Correct
  imports Yolo_Modules Yolo_Ops_Correct Driver_Cpu_Correct
begin

text \<open>
  Layers on the accelerator: the self-check of the matrix multiplications of \<open>gemmini_nn.h\<close> never fails, and
  the convolution with a kernel of one pixel, followed by the SiLU table, leaves the tensor it should and nothing else.
\<close>

text \<open>The state between two jobs.\<close>

definition idle :: "'m sim \<Rightarrow> bool" where
  "idle s \<longleftrightarrow> wf_state s \<and> unat (norm_stat_id (norm_st s)) < 4 \<and> acc_act s \<noteq> SOFTMAX"

lemma idle_mem [simp]: "idle (s\<lparr>mem := m\<rparr>) = idle s"
  by (simp add: idle_def)

lemma idle_configured: "mm_configured a s \<Longrightarrow> idle s"
  by (simp add: mm_configured_def idle_def)

section \<open>The self-check\<close>

lemma row_is_equal:
  assumes "\<And>j. j < n \<Longrightarrow> load_byte M m (x j) = Inr (X j)" "\<And>j. j < n \<Longrightarrow> load_byte M m (y j) = Inr (Y j)"
  shows "forE n (\<lambda>j equal. if \<not> equal then Inr False
      else bindE (load_byte M m (x j)) (\<lambda>a. bindE (load_byte M m (y j)) (\<lambda>b. Inr (a = b)))) True = Inr (\<forall>j < n. X j = Y j)"
  using assms by (induction n) (auto simp: forE_Suc less_Suc_eq)

lemma mat_is_equal:
  assumes "\<And>i j. i < n \<Longrightarrow> j < k \<Longrightarrow> load_byte M m (x i j) = Inr (X i j)" "\<And>i j. i < n \<Longrightarrow> j < k \<Longrightarrow> load_byte M m (y i j) = Inr (Y i j)"
  shows "MAT_IS_EQUAL M x y n k m = Inr (\<forall>i < n. \<forall>j < k. X i j = Y i j)"
  using assms unfolding MAT_IS_EQUAL_def
proof (induction n)
  case (Suc n)
  have "forE k (\<lambda>j equal. if \<not> equal then Inr False
      else bindE (load_byte M m (x n j)) (\<lambda>a. bindE (load_byte M m (y n j)) (\<lambda>b. Inr (a = b)))) True = Inr (\<forall>j < k. X n j = Y n j)"
    by (rule row_is_equal) (use Suc.prems in simp_all)
  then show ?case using Suc by (auto simp: forE_Suc less_Suc_eq)
qed (simp add: forE_def)

text \<open>The operands of a product survive a product into another matrix.\<close>

lemma mm_memory_other:
  assumes a: "mm_memory M a m P Q D W" and g: "mm_memory M (a\<lparr>mm_C := gold\<rparr>) m P Q D W"
    and w: "wrote M m m' ({..<unat (mm_dim_I a)} \<times> {..<unat (mm_dim_J a)}) (dram_cell (mm_C a) (mm_stride_C a)) W'"
  shows "mm_memory M (a\<lparr>mm_C := gold\<rparr>) m' P Q D W"
proof -
  have "mm_memory M a m' P Q D W" by (rule mm_memory_wrote [OF a w]) simp
  then show ?thesis using g target_at_wrote [OF _ w] unfolding mm_memory_def Let_def
    by (simp add: bias_stride_def mm_out_def mm_relu_def bias_apart_def split: if_splits)
qed

text \<open>When both products are carried out, the comparison succeeds.\<close>

lemma nn_check_passes:
  fixes s :: "'m sim" and a :: matmul_args
  defines "R \<equiv> {..<unat (mm_dim_I a)} \<times> {..<unat (mm_dim_J a)}"
  assumes mem: "mm_memory M (a\<lparr>mm_C := gold\<rparr>) (mem s) P Q D W" and m: "mm_plain a" "dims_ok a" "0 < mm_dim_I a" "0 < mm_dim_J a" "0 < mm_dim_K a"
    and st: "mm_stride_C a = mm_dim_J a"
    and ap: "cells_apart gold (mm_dim_J a) (mm_C a) (mm_dim_J a) (unat (mm_dim_I a)) (unat (mm_dim_J a)) (unat (mm_dim_I a)) (unat (mm_dim_J a))"
    and left: "\<And>k. k \<in> R \<Longrightarrow> mmu_load M (mem s) (dram_cell (mm_C a) (mm_dim_J a) k) = Some (W k)"
  shows "\<exists>t. nn_check M a gold s = Some (Inr t) \<and> wrote M (mem s) (mem t) R (dram_cell gold (mm_dim_J a)) W \<and> t = s\<lparr>mem := mem t\<rparr>"
proof -
  obtain mm where g: "tiled_matmul_auto M (a\<lparr>mm_C := gold\<rparr>) TM_CPU s = Some (Inr (s\<lparr>mem := mm\<rparr>))"
      "wrote M (mem s) mm R (dram_cell gold (mm_dim_J a)) W"
    using matmul_auto_multiplies(2) [OF mem] m st by (auto simp: R_def mm_plain_def dims_ok_def)
  have "dram_cell (mm_C a) (mm_dim_J a) k \<notin> dram_cell gold (mm_dim_J a) ` R" if "k \<in> R" for k
    using ap that unfolding cells_apart_def R_def by blast
  then have "mmu_load M mm (dram_cell (mm_C a) (mm_dim_J a) k) = Some (W k)" if "k \<in> R" for k
    using wrote_outside [OF g(2)] left that by simp
  moreover have "mmu_load M mm (dram_cell gold (mm_dim_J a) k) = Some (W k)" if "k \<in> R" for k
    using g(2) that by (simp add: wrote_def)
  ultimately have "load_byte M mm (mm_C a + of_nat i * mm_dim_J a + of_nat j) = Inr (W (i, j))"
      "load_byte M mm (gold + of_nat i * mm_dim_J a + of_nat j) = Inr (W (i, j))" if "i < unat (mm_dim_I a)" "j < unat (mm_dim_J a)" for i j
    using that by (force simp: load_byte_Inr_iff dram_cell_def R_def)+
  from mat_is_equal [of "unat (mm_dim_I a)" "unat (mm_dim_J a)" M mm _ "\<lambda>i j. W (i, j)", OF this]
  have "MAT_IS_EQUAL M (\<lambda>i j. mm_C a + of_nat i * mm_dim_J a + of_nat j) (\<lambda>i j. gold + of_nat i * mm_dim_J a + of_nat j)
       (unat (mm_dim_I a)) (unat (mm_dim_J a)) mm = Inr True" by simp
  then have "nn_check M a gold s = Some (Inr (s\<lparr>mem := mm\<rparr>))" by (simp add: nn_check_def g(1))
  then show ?thesis using g(2) by force
qed

text \<open>The product with its check, on the accelerator: it returns, and both matrices are the scaled product.\<close>

lemma matmul_nn_auto:
  fixes s :: "'m sim"
  assumes a: "a = nn_args I J K A B D' C act scale rep" and mem: "mm_memory M a (mem s) P Q D W" "mm_memory M (a\<lparr>mm_C := gold\<rparr>) (mem s) P Q D W"
    and m: "mm_plain a" "dims_ok a" "0 < I" "0 < J" "0 < K" and ap: "cells_apart gold J C J (unat I) (unat J) (unat I) (unat J)"
    and s: "idle s"
  shows "\<exists>t. tiled_matmul_nn_auto M I J K A B D' C act scale rep TM_WS True gold s = Some (Inr t) \<and> idle t \<and>
    (\<forall>i < unat I. \<forall>j < unat J. mmu_load M (mem t) (dram_cell C J (i, j)) = Some (W (i, j)) \<and> mmu_load M (mem t) (dram_cell gold J (i, j)) = Some (W (i, j)))"
proof -
  let ?R = "{..<unat I} \<times> {..<unat J}"
  have d: "mm_dim_I a = I" "mm_dim_J a = J" "mm_dim_K a = K" "mm_C a = C" "mm_stride_C a = J" unfolding a nn_args_def by simp_all
  obtain t where t: "tiled_matmul_auto M a TM_WS s = Some (Inr t)" "mm_configured a t" "wrote M (mem s) (mem t) ?R (dram_cell C J) W"
    using matmul_auto_multiplies(1) [OF mem(1) m(1,2)] s m(3-5) unfolding d idle_def by blast
  have left: "mmu_load M (mem t) (dram_cell C J k) = Some (W k)" if "k \<in> ?R" for k using t(3) that unfolding wrote_def by blast
  have "mm_memory M (a\<lparr>mm_C := gold\<rparr>) (mem t) P Q D W" using mm_memory_other [OF mem] t(3) unfolding d by blast
  then obtain u where u: "nn_check M a gold t = Some (Inr u)" "wrote M (mem t) (mem u) ?R (dram_cell gold J) W" "u = t\<lparr>mem := mem u\<rparr>"
    using nn_check_passes [where M = M and a = a and gold = gold and s = t and P = P and Q = Q and D = D and W = W, OF _ m(1,2)] m(3-5) ap left unfolding d by blast
  have "idle u" using idle_configured [OF t(2)] by (subst u(3)) simp
  moreover have "dram_cell C J k \<notin> dram_cell gold J ` ?R" if "k \<in> ?R" for k using ap that unfolding cells_apart_def by blast
  then have "mmu_load M (mem u) (dram_cell C J k) = Some (W k)" if "k \<in> ?R" for k using wrote_outside [OF u(2)] left that by simp
  moreover have "mmu_load M (mem u) (dram_cell gold J k) = Some (W k)" if "k \<in> ?R" for k using u(2) that unfolding wrote_def by blast
  ultimately show ?thesis using t(1) u(1) unfolding tiled_matmul_nn_auto_def Let_def a [symmetric] by simp
qed

section \<open>Computations in turn\<close>

lemma on_mem_succeeds: "succeeds (f (mem s)) P \<Longrightarrow> \<exists>m. on_mem f s = Some (Inr (s\<lparr>mem := m\<rparr>)) \<and> P m"
  by (auto simp: on_mem_def succeeds_iff)

section \<open>The convolution with a kernel of one pixel\<close>

text \<open>An array the accelerator may be given: not at the null address, and not around the end of the memory.\<close>

definition placed :: "u64 \<Rightarrow> nat \<Rightarrow> bool" where
  "placed p n \<longleftrightarrow> p \<noteq> 0 \<and> unat p + n \<le> 2 ^ 64"

lemma dram_pixel: "dram_cell p (of_nat ch) = pixel p ch"
  by (rule ext) (simp add: dram_cell_def pixel_def algebra_simps)

lemma placed_nonzero:
  assumes "placed p n" "i < n"
  shows "elem_at p i \<noteq> 0"
proof -
  have "unat (of_nat (unat p + i) :: u64) = unat p + i" by (rule unat_of_small) (use assms in \<open>simp add: placed_def\<close>)
  then have "unat (elem_at p i) = unat p + i" by (simp only: of_nat_add of_nat_unat ucast_id)
  moreover have "0 < unat p" using assms by (simp add: placed_def unat_gt_0)
  ultimately show ?thesis by (metis add_gr_0 less_irrefl unat_0)
qed

lemma tensor_operand:
  assumes "tensor M m p n ch X" "placed p (n * ch)" "ch < 2 ^ 31"
  shows "scaled_at M m p (of_nat ch) n ch MVIN_SCALE_IDENTITY X"
proof -
  have "unat (of_nat ch :: u64) = ch" by (rule unat_of_small) (use assms(3) in simp)
  then have "operand_at M m p (of_nat ch) n ch X" unfolding operand_at_def dram_pixel
    using assms(1,2) index_bound [of _ n _ ch] by (fastforce simp: tensor_def placed_def)
  then show ?thesis unfolding scaled_at_def by (auto simp: mvin_scale_one)
qed

lemma room_target:
  assumes "room M m p n ch"
  shows "target_at M m p (of_nat ch) n ch"
  using room_region [OF assms] unfolding target_at_def dram_pixel region_def by simp

lemma apart_cells: "apart p (n * ch) q (k * ch') \<Longrightarrow> cells_apart p (of_nat ch) q (of_nat ch') n ch k ch'"
  unfolding cells_apart_def dram_pixel pixel_image apart_extent by blast

text \<open>The parameters of a layer in memory: the weights by input and output channel, and the bias.\<close>

definition params_at :: "'m mmu \<Rightarrow> 'm \<Rightarrow> shen_conv_param \<Rightarrow> nat \<Rightarrow> nat \<Rightarrow> (nat \<Rightarrow> nat \<Rightarrow> elem_t) \<Rightarrow> (nat \<Rightarrow> acc_t) \<Rightarrow> bool" where
  "params_at M m p ic oc Q D \<longleftrightarrow> in_c p = int ic \<and> out_c p = int oc \<and> 0 < ic \<and> 0 < oc \<and> ic < 2 ^ 31 \<and> oc < 2 ^ 31 \<and>
     tensor M m (weight_p p) ic oc Q \<and> placed (weight_p p) (ic * oc) \<and> array M m (bias_p p) (4 * oc) (float_bytes D) \<and> placed (bias_p p) (4 * oc)"

text \<open>Every output is in range of the scaling; the bytes are \<open>W\<close>.\<close>

definition conv1x1_value :: "shen_conv_param \<Rightarrow> nat \<Rightarrow> nat \<Rightarrow> nat \<Rightarrow> (nat \<Rightarrow> nat \<Rightarrow> elem_t) \<Rightarrow> (nat \<Rightarrow> nat \<Rightarrow> elem_t) \<Rightarrow> (nat \<Rightarrow> acc_t) \<Rightarrow> (nat \<Rightarrow> nat \<Rightarrow> elem_t) \<Rightarrow> bool" where
  "conv1x1_value p n ic oc X Q D W \<longleftrightarrow> (\<forall>s < n. \<forall>c < oc. acc_scale (D c + (\<Sum>k < ic. scast (X s k) * scast (Q k c))) (requant p) = Inr (W s c))"

lemma bias_floats:
  assumes "array M m p (4 * oc) (float_bytes D)" "placed p (4 * oc)"
  shows "bias_at M m p 0 False scale n oc (\<lambda>_. D)"
proof -
  have "read_from_dram M m (p + of_nat j * 4) = Inr (D j)" if "j < oc" for j
    using floats_of_bytes [OF assms(1)] that by (simp add: floats_def read_f32_def)
  moreover have "p + of_nat j * 4 \<noteq> 0" if "j < oc" for j using placed_nonzero [OF assms(2), of "4 * j"] that by (simp add: mult.commute)
  ultimately show ?thesis by (simp add: bias_at_def mvin_acc_value_def Let_def)
qed

lemma conv1x1_memory:
  fixes n ic oc :: nat and inp out :: u64 and p :: shen_conv_param
  defines "a \<equiv> nn_args (of_int (int n)) (of_int (int oc)) (of_int (int ic)) inp (weight_p p) (bias_p p) out ACT_NO_ACTIVATION (requant p) True"
  assumes p: "params_at M m p ic oc Q D" and inp: "tensor M m inp n ic X" "placed inp (n * ic)" and n: "0 < n" "n < 2 ^ 31"
    and out: "room M m out n oc" "placed out (n * oc)" "apart inp (n * ic) out (n * oc)" "apart (weight_p p) (ic * oc) out (n * oc)" "apart (bias_p p) (4 * oc) out (n * oc)"
    and W: "conv1x1_value p n ic oc X Q D W"
  shows "mm_memory M a m X Q (\<lambda>_. D) (\<lambda>(s, c). W s c)" "mm_plain a" "dims_ok a" "0 < mm_dim_I a" "0 < mm_dim_J a" "0 < mm_dim_K a"
proof -
  note P = p [unfolded params_at_def]
  have u: "unat (of_nat n :: u64) = n" "unat (of_nat oc :: u64) = oc" "unat (of_nat ic :: u64) = ic" using n P by (simp_all add: unat_of_small)
  have d: "mm_dim_I a = of_nat n" "mm_dim_J a = of_nat oc" "mm_dim_K a = of_nat ic" "mm_A a = inp" "mm_B a = weight_p p" "mm_D a = bias_p p" "mm_C a = out"
    "mm_stride_A a = of_nat ic" "mm_stride_B a = of_nat oc" "mm_stride_C a = of_nat oc" "bias_stride a = 0" "mm_act a = ACT_NO_ACTIVATION" "mm_scale a = requant p"
    "mm_A_scale a = MVIN_SCALE_IDENTITY" "mm_B_scale a = MVIN_SCALE_IDENTITY"
    by (simp_all add: a_def nn_args_def bias_stride_def)
  have "unat (0 :: u64) = 0" by simp
  then show "0 < mm_dim_I a" "0 < mm_dim_J a" "0 < mm_dim_K a" unfolding d word_less_nat_alt u using n P by simp_all
  have "fits 32 (of_nat oc :: u64)" by (rule fitsI) (use P u(2) in \<open>simp add: word_less_nat_alt\<close>)
  then show "mm_plain a" by (simp add: mm_plain_def d) (simp add: a_def nn_args_def)
  show "dims_ok a" using P n u by (simp add: dims_ok_def d)
  have out_fun: "mm_out a = (\<lambda>v. acc_scale v (requant p))"
  proof
    fix v show "mm_out a v = acc_scale v (requant p)"
      by (cases "acc_scale v (requant p)") (simp_all add: mm_out_def mm_relu_def d apply_activation_def ACT_NO_ACTIVATION_def ACT_RELU_def)
  qed
  have nz: "pixel out oc (i, j) \<noteq> 0" if "i < n" "j < oc" for i j
    using placed_nonzero [OF out(2) index_bound [OF that]] by (simp add: pixel_def)
  have "bias_apart a" unfolding bias_apart_def d u dram_pixel pixel_image
  proof (intro allI impI)
    fix i j b :: nat assume "j < oc" "b < 4"
    then have "elem_at (bias_p p) (4 * j + b) \<in> extent (bias_p p) (4 * oc)" by (intro imageI) simp
    then have "elem_at (bias_p p) (4 * j + b) \<notin> extent out (n * oc)" using out(5) unfolding apart_extent by blast
    then show "bias_p p + of_nat i * 0 + of_nat j * 4 + of_nat b \<notin> extent out (n * oc)" unfolding mult_zero_right add_0_right float_addr .
  qed
  moreover have "mmu_ok M" using out(1) by (simp add: room_def)
  ultimately show "mm_memory M a m X Q (\<lambda>_. D) (\<lambda>(s, c). W s c)"
    unfolding mm_memory_def Let_def d u out_fun
    using tensor_operand [OF inp] tensor_operand [of M m "weight_p p" ic oc Q] room_target [OF out(1)] nz bias_floats [of M m "bias_p p" oc D]
      apart_cells [OF out(3) [THEN apart_sym]] apart_cells [OF out(4) [THEN apart_sym]] W P
    by (simp add: dram_pixel placed_def conv1x1_value_def ws_sum_def)
qed

lemma conv1x1_product:
  assumes "params_at M (mem s) p ic oc Q D" "tensor M (mem s) inp n ic X" "placed inp (n * ic)" "0 < n" "n < 2 ^ 31"
    and "room M (mem s) out n oc" "placed out (n * oc)" "apart inp (n * ic) out (n * oc)" "apart (weight_p p) (ic * oc) out (n * oc)" "apart (bias_p p) (4 * oc) out (n * oc)"
    and "conv1x1_value p n ic oc X Q D W" "idle s"
  shows "\<exists>t. tiled_matmul_nn_auto M (of_int (int n)) (of_int (out_c p)) (of_int (in_c p)) inp (weight_p p) (bias_p p) out ACT_NO_ACTIVATION (requant p) True TM_WS False 0 s =
      Some (Inr t) \<and> idle t \<and> wrote M (mem s) (mem t) (elems n oc) (pixel out oc) (\<lambda>(s, c). W s c)"
proof -
  let ?a = "nn_args (of_int (int n)) (of_int (int oc)) (of_int (int ic)) inp (weight_p p) (bias_p p) out ACT_NO_ACTIVATION (requant p) True"
  note P = assms(1) [unfolded params_at_def]
  have u: "unat (of_nat n :: u64) = n" "unat (of_nat oc :: u64) = oc" using assms(5) P by (simp_all add: unat_of_small)
  have d: "mm_dim_I ?a = of_nat n" "mm_dim_J ?a = of_nat oc" "mm_C ?a = out" "mm_stride_C ?a = of_nat oc" by (simp_all add: nn_args_def)
  have c: "out_c p = int oc" "in_c p = int ic" using P by blast+
  obtain t where "tiled_matmul_auto M ?a TM_WS s = Some (Inr t)" "mm_configured ?a t" "wrote M (mem s) (mem t) (elems n oc) (pixel out oc) (\<lambda>(s, c). W s c)"
    using matmul_auto_multiplies(1) [OF conv1x1_memory [OF assms(1-11)]] assms(12) unfolding d u dram_pixel idle_def by blast
  then show ?thesis unfolding tiled_matmul_nn_auto_def Let_def c by (auto simp: idle_configured)
qed

text \<open>The activation after a layer: a table that is built from the scales, or none.\<close>

definition activation :: "f32 \<Rightarrow> (elem_t \<Rightarrow> elem_t) \<Rightarrow> elem_t \<Rightarrow> elem_t" where
  "activation silu_target L = (if f32_lt 0 silu_target then L else (\<lambda>x. x))"

definition table_for :: "shen_conv_param \<Rightarrow> f32 \<Rightarrow> (elem_t \<Rightarrow> elem_t) \<Rightarrow> bool" where
  "table_for p silu_target L \<longleftrightarrow> (f32_lt 0 silu_target \<longrightarrow> (\<forall>x. silu_entry (out_scale p) silu_target x = Inr (L x)))"

lemma silu_layer_applies:
  assumes out: "room M (mem s) out n oc" "tensor M (mem s) out n oc W"
    and lut: "table_for p silu_target L" "array_room M (mem s) lut 256" "apart lut 256 out (n * oc)"
  shows "\<exists>m. silu_layer M p out (int n * int oc) silu_target lut s = Some (Inr (s\<lparr>mem := m\<rparr>)) \<and>
    tensor M m out n oc (\<lambda>s c. activation silu_target L (W s c)) \<and> kept M (mem s) m (extent out (n * oc) \<union> extent lut 256)"
proof (cases "f32_lt 0 silu_target")
  case True
  have N: "int n * int oc = int (n * oc)" by simp
  have W: "array M (mem s) out (n * oc) (\<lambda>i. W (i div oc) (i mod oc))" using out(2) by (simp only: tensor_array)
  have "succeeds (bindE (shen_build_silu_lut M lut (out_scale p) silu_target (mem s)) (shen_silu_int8_lut M out (int (n * oc)) lut))
    (\<lambda>u. tensor M u out n oc (\<lambda>s c. L (W s c)) \<and> kept M (mem s) u (extent out (n * oc) \<union> extent lut 256))"
    unfolding succeeds_bindE
  proof (rule succeeds_mono [OF silu_table [OF lut(2)]])
    show "silu_entry (out_scale p) silu_target x = Inr (L x)" for x using lut(1) True by (simp add: table_for_def)
    fix t assume t: "wrote M (mem s) t {..<256} (elem_at lut) (\<lambda>i. L (of_nat i))"
    have "array M t out (n * oc) (\<lambda>i. W (i div oc) (i mod oc))" by (rule array_kept [OF t apart_sym [OF lut(3)] W])
    from silu_lookup [OF room_array [OF room_wrote [OF out(1) t]] this array_wrote [OF t] lut(3)]
    show "succeeds (shen_silu_int8_lut M out (int (n * oc)) lut t)
      (\<lambda>u. tensor M u out n oc (\<lambda>s c. L (W s c)) \<and> kept M (mem s) u (extent out (n * oc) \<union> extent lut 256))"
    proof (rule succeeds_mono)
      fix u assume u: "wrote M t u {..<n * oc} (elem_at out) (\<lambda>i. L (W (i div oc) (i mod oc)))"
      have "kept M (mem s) u (extent out (n * oc) \<union> extent lut 256)"
        by (rule kept_trans [OF wrote_keeps [OF t subset_refl] wrote_keeps [OF u subset_refl]]) blast+
      then show "tensor M u out n oc (\<lambda>s c. L (W s c)) \<and> kept M (mem s) u (extent out (n * oc) \<union> extent lut 256)"
        using array_wrote [OF u] by (simp only: tensor_array)
    qed
  qed
  then obtain m where "bindE (shen_build_silu_lut M lut (out_scale p) silu_target (mem s)) (shen_silu_int8_lut M out (int (n * oc)) lut) = Inr m"
      "tensor M m out n oc (\<lambda>s c. L (W s c))" "kept M (mem s) m (extent out (n * oc) \<union> extent lut 256)"
    unfolding succeeds_iff by blast
  then show ?thesis using True by (simp only: silu_layer_def activation_def N if_True on_mem_def bindE.simps) blast
next
  case False
  then show ?thesis using out(2) by (intro exI [of _ "mem s"]) (simp add: silu_layer_def activation_def kept_def)
qed

lemma conv1x1:
  assumes p: "params_at M (mem s) p ic oc Q D" and inp: "tensor M (mem s) inp n ic X" "placed inp (n * ic)" and n: "0 < n" "n < 2 ^ 31"
    and out: "room M (mem s) out n oc" "placed out (n * oc)" "apart inp (n * ic) out (n * oc)" "apart (weight_p p) (ic * oc) out (n * oc)" "apart (bias_p p) (4 * oc) out (n * oc)"
    and W: "conv1x1_value p n ic oc X Q D W" and s: "idle s"
    and lut: "table_for p silu_target L" "array_room M (mem s) lut 256" "apart lut 256 out (n * oc)"
  shows "\<exists>t. shen_run_conv1x1 M inp out (int n) p silu_target lut s = Some (Inr t) \<and> idle t \<and>
    tensor M (mem t) out n oc (\<lambda>s c. activation silu_target L (W s c)) \<and> kept M (mem s) (mem t) (extent out (n * oc) \<union> extent lut 256)"
proof -
  have c: "out_c p = int oc" using p by (simp add: params_at_def)
  obtain t where t: "tiled_matmul_nn_auto M (of_int (int n)) (of_int (out_c p)) (of_int (in_c p)) inp (weight_p p) (bias_p p) out ACT_NO_ACTIVATION (requant p) True TM_WS False 0 s = Some (Inr t)"
      "idle t" and w: "wrote M (mem s) (mem t) (elems n oc) (pixel out oc) (\<lambda>(s, c). W s c)"
    using conv1x1_product [OF p inp n out W s] by blast
  have k: "kept M (mem s) (mem t) (extent out (n * oc) \<union> extent lut 256)" by (rule wrote_keeps [OF w]) (simp add: pixel_image)
  have "tensor M (mem t) out n oc W" using tensor_wrote [OF w] by simp
  from silu_layer_applies [OF room_keeps [OF k out(1)] this lut(1) array_room_keeps [OF k lut(2)] lut(3)]
  obtain m where m: "silu_layer M p out (int n * out_c p) silu_target lut t = Some (Inr (t\<lparr>mem := m\<rparr>))"
      "tensor M m out n oc (\<lambda>s c. activation silu_target L (W s c))" "kept M (mem t) m (extent out (n * oc) \<union> extent lut 256)"
    unfolding c by blast
  have "shen_run_conv1x1 M inp out (int n) p silu_target lut s = Some (Inr (t\<lparr>mem := m\<rparr>))"
    unfolding shen_run_conv1x1_def by (simp only: in_turn_def foldO.simps t(1) m(1) option.case sum.case)
  then show ?thesis using t(2) m(2) kept_trans [OF k m(3) subset_refl subset_refl] by simp
qed

end
