(* ===== verification/Yolo_Sppf_Correct.thy ===== *)
theory Yolo_Sppf_Correct
  imports Yolo_Layers_Correct Yolo_Pool_Correct
begin

text \<open>
  A whole module of the network: spatial pyramid pooling (\<open>shen_run_sppf\<close>). The group of channels \<open>g\<close> of the tensor that
  its last layer sees is the first layer's result, pooled with a window of \<open>g\<close> times the radius.
\<close>

section \<open>Steps of a module\<close>

lemma in_turn_append: "in_turn fs s = Some (Inr t) \<Longrightarrow> in_turn (fs @ gs) s = in_turn gs t"
  unfolding in_turn_def by (induction fs arbitrary: s) (auto split: option.splits sum.splits)

lemma pool_image_zero: "s < h * w \<Longrightarrow> pool_image h w 0 X s c = X s c"
proof -
  assume s: "s < h * w"
  then have "0 < w" by (cases w) auto
  then have "window h 1 (int (s div w)) = {s div w}" "window w 1 (int (s mod w)) = {s mod w}"
    using s by (auto simp: window_def less_mult_imp_div_less)
  moreover have "- 128 \<le> sint (X s c)" using sint8_range [of "X s c"] by simp
  ultimately show ?thesis by (simp add: pool_image_def pooled_def max_def)
qed

lemma pool_layer:
  assumes "tensor M (mem s) inp (h * w) ch X" "h + 2 * r < 2 ^ 30" "w + 2 * r < 2 ^ 30" "0 < h" "0 < w"
    and "room M (mem s) out (h * w) ch" "apart inp (h * w * ch) out (h * w * ch)"
  shows "\<exists>t. on_mem (shen_maxpool_nhwc M inp out (int ch) (int h) (int w) (int (2 * r + 1)) 1 (int r)) s = Some (Inr t) \<and> (idle s \<longrightarrow> idle t) \<and>
    tensor M (mem t) out (h * w) ch (pool_image h w r X) \<and> kept M (mem s) (mem t) (extent out (h * w * ch))"
proof -
  obtain m where "on_mem (shen_maxpool_nhwc M inp out (int ch) (int h) (int w) (int (2 * r + 1)) 1 (int r)) s = Some (Inr (s\<lparr>mem := m\<rparr>))"
      and w: "wrote M (mem s) m (elems (h * w) ch) (pixel out ch) (\<lambda>(s, c). pool_image h w r X s c)"
    using on_mem_succeeds [where f = "shen_maxpool_nhwc M inp out (int ch) (int h) (int w) (int (2 * r + 1)) 1 (int r)", OF maxpool_same_size [OF assms]] by blast
  moreover have "tensor M m out (h * w) ch (pool_image h w r X)" using tensor_wrote [OF w] by simp
  moreover have "kept M (mem s) m (extent out (h * w * ch))" by (rule wrote_keeps [OF w]) (simp add: pixel_image)
  ultimately show ?thesis by auto
qed

lemma concat_step:
  assumes out: "room M (mem s) out n (4 * ch)"
    and "tensor M (mem s) a n ch A" "apart a (n * ch) out (n * (4 * ch))" "tensor M (mem s) b n ch B" "apart b (n * ch) out (n * (4 * ch))"
    and "c \<noteq> 0" "tensor M (mem s) c n ch C" "apart c (n * ch) out (n * (4 * ch))" "d \<noteq> 0" "tensor M (mem s) d n ch D" "apart d (n * ch) out (n * (4 * ch))"
  shows "\<exists>t. on_mem (shen_concat_channels_nhwc M out (int n) a (int ch) b (int ch) c (int ch) d (int ch)) s = Some (Inr t) \<and> (idle s \<longrightarrow> idle t) \<and>
    tensor M (mem t) out n (4 * ch) (\<lambda>s i. concat4 ch A ch B ch C D (s, i)) \<and> kept M (mem s) (mem t) (extent out (n * (4 * ch)))"
proof -
  have tot: "ch + ch + (if c = 0 then 0 else ch) + (if d = 0 then 0 else ch) = 4 * ch" using assms by simp
  have "succeeds (shen_concat_channels_nhwc M out (int n) a (int ch) b (int ch) c (int ch) d (int ch) (mem s))
      (\<lambda>t. wrote M (mem s) t (elems n (4 * ch)) (pixel out (4 * ch)) (concat4 ch A ch B (if c = 0 then 0 else ch) C D))"
    by (rule concat_channels [where x = ch and y = ch and z = ch and w = ch and c = c and d = d, unfolded tot]) (use assms in simp_all)
  from on_mem_succeeds [where f = "shen_concat_channels_nhwc M out (int n) a (int ch) b (int ch) c (int ch) d (int ch)", OF this]
  obtain m where "on_mem (shen_concat_channels_nhwc M out (int n) a (int ch) b (int ch) c (int ch) d (int ch)) s = Some (Inr (s\<lparr>mem := m\<rparr>))"
      and w: "wrote M (mem s) m (elems n (4 * ch)) (pixel out (4 * ch)) (concat4 ch A ch B ch C D)" using assms(6) by auto
  moreover have "tensor M m out n (4 * ch) (\<lambda>s i. concat4 ch A ch B ch C D (s, i))" using tensor_wrote [OF w] by simp
  moreover have "kept M (mem s) m (extent out (n * (4 * ch)))" by (rule wrote_keeps [OF w]) (simp add: pixel_image)
  ultimately show ?thesis by auto
qed

lemma params_keeps:
  assumes "params_at M m p ic oc Q D" "kept M m t A" "extent (weight_p p) (ic * oc) \<inter> A = {}" "extent (bias_p p) (4 * oc) \<inter> A = {}"
  shows "params_at M t p ic oc Q D"
  using assms(1) tensor_keeps [OF assms(2) _ assms(3)] array_keeps [OF assms(2) _ assms(4)] by (simp add: params_at_def)

section \<open>The module\<close>

definition pyramid :: "nat \<Rightarrow> nat \<Rightarrow> nat \<Rightarrow> nat \<Rightarrow> (nat \<Rightarrow> nat \<Rightarrow> u8) \<Rightarrow> nat \<Rightarrow> nat \<Rightarrow> u8" where
  "pyramid h w r ch X s i = pool_image h w (i div ch * r) X s (i mod ch)"

lemma pyramid_concat:
  assumes "s < h * w" "i < 4 * ch"
  shows "concat4 ch X ch (pool_image h w r X) ch (pool_image h w (2 * r) X) (pool_image h w (3 * r) X) (s, i) = pyramid h w r ch X s i"
proof -
  have "0 < ch" using assms(2) by (cases ch) auto
  have q: "i div ch = g \<and> i mod ch = i - g * ch" if "g * ch \<le> i" "i < g * ch + ch" for g
  proof -
    define k where "k = i - g * ch"
    have k: "i = g * ch + k" "k < ch" using that by (simp_all add: k_def)
    then have "i div ch = g" "i mod ch = k" unfolding k(1) by simp_all
    then show ?thesis by (simp add: k_def)
  qed
  consider "i < ch" | "ch \<le> i" "i < 2 * ch" | "2 * ch \<le> i" "i < 3 * ch" | "3 * ch \<le> i" by linarith
  then show ?thesis
  proof cases
    case 1
    then show ?thesis using pool_image_zero [OF assms(1)] by (simp add: concat4_def pyramid_def)
  next
    case 2
    then show ?thesis using q [of 1] by (simp add: concat4_def pyramid_def)
  next
    case 3
    then show ?thesis using q [of 2] by (simp add: concat4_def pyramid_def numeral_2_eq_2)
  next
    case 4
    then show ?thesis using q [of 3] assms(2) by (simp add: concat4_def pyramid_def numeral_3_eq_3 add.assoc)
  qed
qed

text \<open>The arrays of the module: no two of those that are still needed share a byte.\<close>

definition laid_out :: "(u64 \<times> nat) list \<Rightarrow> bool" where
  "laid_out = sorted_wrt (\<lambda>(p, n) (q, k). apart p n q k)"

lemma pyramid_stage:
  fixes h w ch r :: nat
  defines "n \<equiv> h * w"
  defines "pl \<equiv> \<lambda>M p q. on_mem (shen_maxpool_nhwc M p q (int ch) (int h) (int w) (int (2 * r + 1)) 1 (int r))"
  assumes hw: "0 < h" "0 < w" "h + 2 * r < 2 ^ 30" "w + 2 * r < 2 ^ 30" and c1: "tensor M (mem s) c1 n ch X"
    and lay: "laid_out [(c1, n * ch), (p1, n * ch), (p2, n * ch), (p3, n * ch), (cat, n * (4 * ch))]"
    and rooms: "room M (mem s) p1 n ch" "room M (mem s) p2 n ch" "room M (mem s) p3 n ch" "room M (mem s) cat n (4 * ch)" and nz: "p2 \<noteq> 0" "p3 \<noteq> 0" and s: "idle s"
  shows "\<exists>t. in_turn [pl M c1 p1, pl M p1 p2, pl M p2 p3, on_mem (shen_concat_channels_nhwc M cat (int n) c1 (int ch) p1 (int ch) p2 (int ch) p3 (int ch))] s = Some (Inr t) \<and>
    idle t \<and> tensor M (mem t) cat n (4 * ch) (pyramid h w r ch X) \<and>
    kept M (mem s) (mem t) (extent p1 (n * ch) \<union> extent p2 (n * ch) \<union> extent p3 (n * ch) \<union> extent cat (n * (4 * ch)))"
proof -
  let ?P = "pool_image h w"
  have dc: "extent c1 (n * ch) \<inter> extent p1 (n * ch) = {}" "extent c1 (n * ch) \<inter> extent p2 (n * ch) = {}" "extent c1 (n * ch) \<inter> extent p3 (n * ch) = {}"
    "extent p1 (n * ch) \<inter> extent p2 (n * ch) = {}" "extent p1 (n * ch) \<inter> extent p3 (n * ch) = {}" "extent p2 (n * ch) \<inter> extent p3 (n * ch) = {}"
    using lay unfolding laid_out_def apart_extent by simp_all
  have ap: "apart c1 (n * ch) cat (n * (4 * ch))" "apart p1 (n * ch) cat (n * (4 * ch))" "apart p2 (n * ch) cat (n * (4 * ch))" "apart p3 (n * ch) cat (n * (4 * ch))"
    using lay unfolding laid_out_def by simp_all
  have step: "\<exists>t. pl M p q u = Some (Inr t) \<and> idle t \<and> tensor M (mem t) q n ch (?P r Y) \<and> kept M (mem u) (mem t) (extent q (n * ch))"
    if "tensor M (mem u) p n ch Y" "room M (mem u) q n ch" "extent p (n * ch) \<inter> extent q (n * ch) = {}" "idle u" for u p q Y
    using pool_layer [of M u p h w ch Y r q] that hw unfolding n_def pl_def apart_extent by blast
  obtain s1 where 1: "pl M c1 p1 s = Some (Inr s1)" "idle s1" "tensor M (mem s1) p1 n ch (?P r X)" and k1: "kept M (mem s) (mem s1) (extent p1 (n * ch))"
    using step [OF c1 rooms(1) dc(1) s] by blast
  note r1 = rooms(2-4) [THEN room_keeps [OF k1]] and t1 = tensor_keeps [OF k1 c1 dc(1)]
  obtain s2 where 2: "pl M p1 p2 s1 = Some (Inr s2)" "idle s2" "tensor M (mem s2) p2 n ch (?P r (?P r X))" and k2: "kept M (mem s1) (mem s2) (extent p2 (n * ch))"
    using step [OF 1(3) r1(1) dc(4) 1(2)] by blast
  have "tensor M (mem s2) p2 n ch (?P (2 * r) X)" using 2(3) by (subst tensor_cong) (simp_all add: n_def pool_image_cascade mult_2)
  note r2 = r1(2-3) [THEN room_keeps [OF k2]] and t2 = tensor_keeps [OF k2 t1 dc(2)] tensor_keeps [OF k2 1(3) dc(4)] this
  obtain s3 where 3: "pl M p2 p3 s2 = Some (Inr s3)" "idle s3" "tensor M (mem s3) p3 n ch (?P r (?P (2 * r) X))" and k3: "kept M (mem s2) (mem s3) (extent p3 (n * ch))"
    using step [OF t2(3) r2(1) dc(6) 2(2)] by blast
  have "tensor M (mem s3) p3 n ch (?P (3 * r) X)" using 3(3) by (subst tensor_cong) (simp_all add: n_def pool_image_cascade)
  note r3 = r2(2) [THEN room_keeps [OF k3]] and t3 = tensor_keeps [OF k3 t2(1) dc(3)] tensor_keeps [OF k3 t2(2) dc(5)] tensor_keeps [OF k3 t2(3) dc(6)] this
  obtain s4 where 4: "on_mem (shen_concat_channels_nhwc M cat (int n) c1 (int ch) p1 (int ch) p2 (int ch) p3 (int ch)) s3 = Some (Inr s4)" "idle s4"
      "tensor M (mem s4) cat n (4 * ch) (\<lambda>s i. concat4 ch X ch (?P r X) ch (?P (2 * r) X) (?P (3 * r) X) (s, i))" and k4: "kept M (mem s3) (mem s4) (extent cat (n * (4 * ch)))"
    using concat_step [OF r3 t3(1) ap(1) t3(2) ap(2) nz(1) t3(3) ap(3) nz(2) t3(4) ap(4)] 3(2) by blast
  have "tensor M (mem s4) cat n (4 * ch) (pyramid h w r ch X)"
    using 4(3) by (subst tensor_cong [where Y = "\<lambda>s i. concat4 ch X ch (?P r X) ch (?P (2 * r) X) (?P (3 * r) X) (s, i)"]) (simp_all only: n_def pyramid_concat)
  moreover have "kept M (mem s) (mem s4) (extent p1 (n * ch) \<union> extent p2 (n * ch) \<union> extent p3 (n * ch) \<union> extent cat (n * (4 * ch)))"
    using k1 k2 k3 k4 unfolding kept_def by simp
  ultimately show ?thesis using 4(2) by (simp only: in_turn_def foldO.simps 1(1) 2(1) 3(1) 4(1) option.case sum.case) blast
qed

lemma sppf:
  fixes h w ic ch oc r :: nat
  defines "n \<equiv> h * w"
  assumes hw: "0 < h" "0 < w" "h + 2 * r < 2 ^ 30" "w + 2 * r < 2 ^ 30"
    and cv1: "params_at M (mem s) cv1 ic ch Q1 D1" and cv2: "params_at M (mem s) cv2 (4 * ch) oc Q2 D2"
    and inp: "tensor M (mem s) inp n ic X" "placed inp (n * ic)" "apart inp (n * ic) c1 (n * ch)"
      "apart (weight_p cv1) (ic * ch) c1 (n * ch)" "apart (bias_p cv1) (4 * ch) c1 (n * ch)"
    and lay: "laid_out [(weight_p cv2, 4 * ch * oc), (bias_p cv2, 4 * oc), (lut, 256), (c1, n * ch), (p1, n * ch), (p2, n * ch), (p3, n * ch), (cat, n * (4 * ch)), (out, n * oc)]"
    and rooms: "array_room M (mem s) lut 256" "room M (mem s) c1 n ch" "room M (mem s) p1 n ch" "room M (mem s) p2 n ch" "room M (mem s) p3 n ch"
      "room M (mem s) cat n (4 * ch)" "room M (mem s) out n oc"
    and places: "placed c1 (n * ch)" "p2 \<noteq> 0" "p3 \<noteq> 0" "placed cat (n * (4 * ch))" "placed out (n * oc)"
    and W1: "conv1x1_value cv1 n ic ch X Q1 D1 W1" and L1: "table_for cv1 (in_scale cv2) L1"
    and W2: "conv1x1_value cv2 n (4 * ch) oc (pyramid h w r ch (\<lambda>s c. activation (in_scale cv2) L1 (W1 s c))) Q2 D2 W2" and L2: "table_for cv2 target L2"
    and s: "idle s"
  shows "\<exists>t. shen_run_sppf M inp out (int h) (int w) cv1 cv2 (int (2 * r + 1)) target c1 p1 p2 p3 cat lut s = Some (Inr t) \<and> idle t \<and>
    tensor M (mem t) out n oc (\<lambda>s c. activation target L2 (W2 s c)) \<and>
    kept M (mem s) (mem t) (extent lut 256 \<union> extent c1 (n * ch) \<union> extent p1 (n * ch) \<union> extent p2 (n * ch) \<union> extent p3 (n * ch) \<union> extent cat (n * (4 * ch)) \<union> extent out (n * oc))"
proof -
  let ?X1 = "\<lambda>s c. activation (in_scale cv2) L1 (W1 s c)"
  let ?A = "extent p1 (n * ch) \<union> extent p2 (n * ch) \<union> extent p3 (n * ch) \<union> extent cat (n * (4 * ch))" and ?C = "extent c1 (n * ch) \<union> extent lut 256"
  have "0 < n" using hw by (simp add: n_def)
  moreover have "n \<le> n * ch" "n * ch < 2 ^ 31" using cv1 rooms(2) by (simp_all add: params_at_def room_def)
  ultimately have n: "0 < n" "n < 2 ^ 31" by linarith+
  have disj: "extent (weight_p cv2) (4 * ch * oc) \<inter> ?C = {}" "extent (bias_p cv2) (4 * oc) \<inter> ?C = {}" "extent (weight_p cv2) (4 * ch * oc) \<inter> ?A = {}" "extent (bias_p cv2) (4 * oc) \<inter> ?A = {}"
    using lay unfolding laid_out_def apart_extent by (simp_all add: Int_Un_distrib)
  have ap: "apart lut 256 c1 (n * ch)" "apart cat (n * (4 * ch)) out (n * oc)" "apart (weight_p cv2) (4 * ch * oc) out (n * oc)" "apart (bias_p cv2) (4 * oc) out (n * oc)" "apart lut 256 out (n * oc)"
    and lay': "laid_out [(c1, n * ch), (p1, n * ch), (p2, n * ch), (p3, n * ch), (cat, n * (4 * ch))]"
    using lay unfolding laid_out_def by simp_all
  obtain s1 where 1: "shen_run_conv1x1 M inp c1 (int n) cv1 (in_scale cv2) lut s = Some (Inr s1)" "idle s1" "tensor M (mem s1) c1 n ch ?X1" and k1: "kept M (mem s) (mem s1) ?C"
    using conv1x1 [OF cv1 inp(1,2) n rooms(2) places(1) inp(3-5) W1 s L1 rooms(1) ap(1)] by blast
  note r1 = rooms(3-7) [THEN room_keeps [OF k1]]
  let ?pool = "\<lambda>p q. on_mem (shen_maxpool_nhwc M p q (int ch) (int h) (int w) (int (2 * r + 1)) 1 (int r))"
  let ?cat = "on_mem (shen_concat_channels_nhwc M cat (int n) c1 (int ch) p1 (int ch) p2 (int ch) p3 (int ch))"
  obtain s2 where 2: "in_turn [?pool c1 p1, ?pool p1 p2, ?pool p2 p3, ?cat] s1 = Some (Inr s2)" "idle s2" "tensor M (mem s2) cat n (4 * ch) (pyramid h w r ch ?X1)" and k2: "kept M (mem s1) (mem s2) ?A"
    using pyramid_stage [OF hw 1(3) [unfolded n_def] lay' [unfolded n_def] r1(1-4) [unfolded n_def] places(2,3) 1(2)] unfolding n_def by blast
  note v2 = params_keeps [OF params_keeps [OF cv2 k1 disj(1,2)] k2 disj(3,4)] and r2 = room_keeps [OF k2 r1(5)] and l2 = array_room_keeps [OF k2 array_room_keeps [OF k1 rooms(1)]]
  obtain s3 where 3: "shen_run_conv1x1 M cat out (int n) cv2 target lut s2 = Some (Inr s3)" "idle s3" "tensor M (mem s3) out n oc (\<lambda>s c. activation target L2 (W2 s c))"
      and k3: "kept M (mem s2) (mem s3) (extent out (n * oc) \<union> extent lut 256)"
    using conv1x1 [OF v2 2(3) places(4) n r2 places(5) ap(2-4) W2 2(2) L2 l2 ap(5)] by blast
  have args: "int h * int w = int n" "out_c cv1 = int ch" "trunc_div (int (2 * r + 1)) 2 = int r"
    using cv1 trunc_div_nat [of "2 * r + 1" 2] by (simp_all add: n_def params_at_def)
  have "shen_run_sppf M inp out (int h) (int w) cv1 cv2 (int (2 * r + 1)) target c1 p1 p2 p3 cat lut s =
      in_turn ([?pool c1 p1, ?pool p1 p2, ?pool p2 p3, ?cat] @ [shen_run_conv1x1 M cat out (int n) cv2 target lut]) s1"
    unfolding shen_run_sppf_def Let_def args by (simp only: in_turn_def foldO.simps append.simps 1(1) option.case sum.case)
  also have "\<dots> = Some (Inr s3)"
    unfolding in_turn_append [OF 2(1)] by (simp only: in_turn_def foldO.simps 3(1) option.case sum.case)
  finally show ?thesis using 3(2,3) k1 k2 k3 unfolding kept_def by auto
qed

end
