(* ===== verification/Float_Error.thy ===== *)
theory Float_Error
  imports Yolo_Ops
begin

text \<open>
  The rounding error of the float operations: a result in the range of the normal numbers differs from the exact
  one by at most one part in \<open>2 ^ 24\<close>. What the operators of the network need of their roundings is
  derived from this.
\<close>

section \<open>One operation\<close>

definition normal :: "rat \<Rightarrow> bool" where
  "normal x \<longleftrightarrow> x = 0 \<or> (2 powi (-126) \<le> \<bar>x\<bar> \<and> \<bar>x\<bar> < 2 powi 127)"

definition rounds_to :: "rat \<Rightarrow> f32 \<Rightarrow> bool" where
  "rounds_to x w \<longleftrightarrow> f32_finite w \<and> \<bar>f32_rat w - x\<bar> \<le> \<bar>x\<bar> / 2 ^ 24"

lemma rounds_to_zero: "rounds_to 0 w \<longleftrightarrow> f32_finite w \<and> f32_rat w = 0"
  by (auto simp: rounds_to_def)

text \<open>Every operation rounds its exact result, a quotient with a sign.\<close>

definition rounded :: "rat \<Rightarrow> f32 \<Rightarrow> bool" where
  "rounded x w \<longleftrightarrow> (\<exists>s p q. 0 \<le> p \<and> 0 < q \<and> x = (if s then - 1 else 1) * (of_int p / of_int q) \<and> w = f32_round s p q)"

lemma f32_decode_inf: "f32_decode (f32_sign s (255 * 2 ^ 23)) = FInf s"
proof -
  have "f32_decode (f32_sign False (255 * 2 ^ 23)) = FInf False" "f32_decode (f32_sign True (255 * 2 ^ 23)) = FInf True" by code_simp+
  then show ?thesis by (cases s) (simp_all only:)
qed

lemma f32_round_cases:
  fixes p q :: int and s :: bool
  defines "x \<equiv> (of_int p / of_int q :: rat)"
  assumes p: "0 < p" "0 < q"
  shows "(f32_finite (f32_round s p q) \<and> (\<exists>y \<ge> 0. f32_rat (f32_round s p q) = (if s then - 1 else 1) * y \<and> \<bar>y - x\<bar> \<le> x / 2 ^ 24 + 2 powi (-150) \<and>
      (2 powi (-126) \<le> x \<longrightarrow> \<bar>y - x\<bar> \<le> x / 2 ^ 24))) \<or> (f32_decode (f32_round s p q) = FInf s \<and> 2 powi 127 \<le> x)"
proof -
  define E where "E = ilog2 p q"
  define u where "u = f32_ulp p q"
  define K where "K = rhe (x / 2 powi u)"
  have x: "0 < x" using p by (simp add: x_def)
  have lo: "2 powi E \<le> x" and hi: "x < 2 powi (E + 1)" using ilog2_bounds [OF p] by (auto simp: x_def E_def)
  have u: "u = max (E - 23) (-149)" by (simp add: u_def f32_ulp_def E_def)
  have K0: "0 \<le> K" unfolding K_def by (rule rhe_mono_int_le) (use x in simp)
  show ?thesis
  proof (cases "(u + 149) * 2 ^ 23 + K < 255 * 2 ^ 23")
    case True
    have v: "f32_finite (f32_round s p q)" "f32_rat (f32_round s p q) = (if s then - 1 else 1) * (of_int K * 2 powi u)"
      using f32_round_value [OF p, of s] True by (auto simp: u_def K_def x_def)
    have "\<bar>of_int K - x / 2 powi u\<bar> \<le> 1 / 2" using rhe_error [of "x / 2 powi u"] by (simp add: K_def abs_minus_commute)
    then have "\<bar>of_int K - x / 2 powi u\<bar> * 2 powi u \<le> 1 / 2 * 2 powi u" by (rule mult_right_mono) simp
    moreover have "\<bar>of_int K - x / 2 powi u\<bar> * 2 powi u = \<bar>(of_int K - x / 2 powi u) * 2 powi u\<bar>" by (simp add: abs_mult)
    moreover have "(of_int K - x / 2 powi u) * 2 powi u = of_int K * 2 powi u - x" by (simp add: left_diff_distrib)
    ultimately have err: "\<bar>of_int K * 2 powi u - x\<bar> \<le> 1 / 2 * 2 powi u" by simp
    have rel: "\<bar>of_int K * 2 powi u - x\<bar> \<le> x / 2 ^ 24" if "-126 \<le> E"
    proof -
      have "u = E - 23" using that by (simp add: u)
      then have "(1 / 2 :: rat) * 2 powi u = 2 powi E / 2 ^ 24" by (simp add: power_int_diff)
      moreover have "2 powi E / 2 ^ 24 \<le> x / 2 ^ 24" using lo by (intro divide_right_mono) auto
      ultimately show ?thesis using err by linarith
    qed
    have "\<bar>of_int K * 2 powi u - x\<bar> \<le> x / 2 ^ 24 + 2 powi (-150)"
    proof (cases "-126 \<le> E")
      case True
      have "0 \<le> (2 :: rat) powi (-150)" by simp
      with rel [OF True] show ?thesis by linarith
    next
      case False
      then have "(1 / 2 :: rat) * 2 powi u = 2 powi (-150)" by (simp add: u max_def power_int_minus)
      then show ?thesis using err x by (simp add: add_increasing)
    qed
    moreover have "-126 \<le> E" if "2 powi (-126) \<le> x"
    proof -
      have "2 powi (-126) < (2 :: rat) powi (E + 1)" using that hi by linarith
      then have "-126 < E + 1" by (rule powi_less_cancel)
      then show ?thesis by simp
    qed
    ultimately show ?thesis using v K0 rel by (auto intro!: exI [of _ "of_int K * 2 powi u"])
  next
    case False
    have "f32_round s p q = f32_sign s (255 * 2 ^ 23)"
    proof -
      have "rne_div (p * 2 ^ nat (- u)) (q * 2 ^ nat u) = K" using p by (simp add: rne_div_rhe K_def x_def powi_nat_split)
      moreover have "min ((u + 149) * 2 ^ 23 + K) (255 * 2 ^ 23) = 255 * 2 ^ 23" using False by (simp only: min_absorb2 not_less)
      ultimately show ?thesis using p by (simp only: f32_round_def Let_def u_def [symmetric]) simp
    qed
    moreover have "127 \<le> E"
    proof (rule ccontr)
      assume "\<not> 127 \<le> E"
      then have "u \<le> 103" by (simp add: u)
      have "x / 2 powi u \<le> 2 powi (E + 1) / 2 powi u" by (rule divide_right_mono) (use hi in auto)
      also have "\<dots> = 2 powi (E + 1 - u)" by (simp add: power_int_diff)
      also have "\<dots> \<le> 2 powi (int 24)" by (rule power_int_increasing) (auto simp: u)
      finally have "K \<le> 2 ^ 24" unfolding K_def by (intro rhe_mono_int_ge) simp
      then show False using False \<open>u \<le> 103\<close> by simp
    qed
    then have "(2 :: rat) powi 127 \<le> 2 powi E" by (intro power_int_increasing) auto
    ultimately have "f32_decode (f32_round s p q) = FInf s" "2 powi 127 \<le> x" using lo by (simp_all only: f32_decode_inf)
    then show ?thesis by blast
  qed
qed

lemma rounded_cases:
  assumes "rounded x w"
  obtains (finite) "f32_finite w" "\<bar>f32_rat w - x\<bar> \<le> \<bar>x\<bar> / 2 ^ 24 + 2 powi (-150)" "0 \<le> x \<Longrightarrow> 0 \<le> f32_rat w"
      "2 powi (-126) \<le> \<bar>x\<bar> \<Longrightarrow> \<bar>f32_rat w - x\<bar> \<le> \<bar>x\<bar> / 2 ^ 24" "x = 0 \<Longrightarrow> f32_rat w = 0"
    | (overflow) "f32_decode w = FInf (x < 0)" "2 powi 127 \<le> \<bar>x\<bar>"
proof -
  obtain s p q where r: "0 \<le> p" "0 < q" "x = (if s then - 1 else 1) * (of_int p / of_int q)" "w = f32_round s p q"
    using assms unfolding rounded_def by blast
  show thesis
  proof (cases "p = 0")
    case True
    then show thesis using finite f32_round_zero [of s q] r by simp
  next
    case False
    define y where "y = (of_int p / of_int q :: rat)"
    have "0 < y" "x = (if s then - 1 else 1) * y" using r False by (simp_all add: y_def)
    then have y: "0 < y" "\<bar>x\<bar> = y" "x < 0 \<longleftrightarrow> s" "x = (if s then - 1 else 1) * y" by auto
    from f32_round_cases [of p q s, folded y_def r(4)] r False consider
      (f) z where "f32_finite w" "0 \<le> z" "f32_rat w = (if s then - 1 else 1) * z" "\<bar>z - y\<bar> \<le> y / 2 ^ 24 + 2 powi (-150)"
        "2 powi (-126) \<le> y \<longrightarrow> \<bar>z - y\<bar> \<le> y / 2 ^ 24"
      | (o) "f32_decode w = FInf s" "2 powi 127 \<le> y" by auto
    then show thesis
    proof cases
      case f
      have "\<bar>f32_rat w - x\<bar> = \<bar>z - y\<bar>" using f(3) y(4) by auto
      moreover have "0 \<le> f32_rat w" if "0 \<le> x" using that f y by auto
      ultimately show thesis using finite f y by simp
    next
      case o
      then show thesis using overflow y by simp
    qed
  qed
qed

lemma rounded_normal: "rounded x w \<Longrightarrow> normal x \<Longrightarrow> rounds_to x w"
  by (erule rounded_cases) (auto simp: normal_def rounds_to_def)

lemma rounded_mul:
  assumes "f32_finite a" "f32_finite b"
  shows "rounded (f32_rat a * f32_rat b) (f32_mul a b)"
proof -
  obtain s m e where A: "f32_decode a = FFin s m e" "0 \<le> m" by (rule f32_decode_finite [OF assms(1)])
  obtain t n f where B: "f32_decode b = FFin t n f" "0 \<le> n" by (rule f32_decode_finite [OF assms(2)])
  let ?p = "m * n * 2 ^ nat (e + f)" and ?q = "2 ^ nat (- (e + f)) :: int"
  have "f32_rat a * f32_rat b = (if s \<noteq> t then - 1 else 1) * (of_int ?p / of_int ?q)"
    by (simp add: f32_rat_def A B f32_round_scaled_quot [of "m * n" "e + f", simplified] powi_nat_split [symmetric] power_int_add)
  moreover have "f32_mul a b = f32_round (s \<noteq> t) ?p ?q" by (simp add: f32_mul_def A B f32_round_scaled_def)
  moreover have "0 \<le> ?p" "0 < ?q" using A B by simp_all
  ultimately show ?thesis unfolding rounded_def by blast
qed

lemma rounded_div:
  assumes "f32_finite a" "f32_finite b" "f32_rat b \<noteq> 0"
  shows "rounded (f32_rat a / f32_rat b) (f32_div a b)"
proof -
  obtain s m e where A: "f32_decode a = FFin s m e" "0 \<le> m" by (rule f32_decode_finite [OF assms(1)])
  obtain t n f where B: "f32_decode b = FFin t n f" "0 \<le> n" by (rule f32_decode_finite [OF assms(2)])
  have n: "0 < n" using assms(3) B by (auto simp: f32_rat_def)
  let ?p = "m * 2 ^ nat (e - f)" and ?q = "n * 2 ^ nat (f - e)"
  have pw: "(2 :: rat) ^ nat (e - f) / 2 ^ nat (f - e) = 2 powi e / 2 powi f"
    using powi_nat_split [of "e - f"] by (simp add: power_int_diff)
  have "(of_int ?p / of_int ?q :: rat) = of_int m / of_int n * (2 ^ nat (e - f) / 2 ^ nat (f - e))" by simp
  then have "f32_rat a / f32_rat b = (if s \<noteq> t then - 1 else 1) * (of_int ?p / of_int ?q)"
    unfolding pw by (simp add: f32_rat_def A B)
  moreover have "f32_div a b = f32_round (s \<noteq> t) ?p ?q" using n by (simp add: f32_div_def A B)
  moreover have "0 \<le> ?p" "0 < ?q" using A n by simp_all
  ultimately show ?thesis unfolding rounded_def by blast
qed

lemma rounded_add:
  assumes "f32_finite a" "f32_finite b"
  shows "rounded (f32_rat a + f32_rat b) (f32_add a b)"
proof -
  obtain s m e where A: "f32_decode a = FFin s m e" by (rule f32_decode_finite [OF assms(1)])
  obtain t n f where B: "f32_decode b = FFin t n f" by (rule f32_decode_finite [OF assms(2)])
  define y where "y = min e f"
  define v where "v = fin_at s m e y + fin_at t n f y"
  define g where "g = (if v = 0 then s \<and> t else v < 0)"
  let ?p = "\<bar>v\<bar> * 2 ^ nat y" and ?q = "2 ^ nat (- y) :: int"
  have v: "of_int v * 2 powi y = f32_rat a + f32_rat b" by (simp add: v_def y_def distrib_right fin_at_rat f32_rat_def A B)
  have "f32_add a b = f32_round g ?p ?q"
    by (simp add: f32_add_def A B y_def [symmetric] v_def [symmetric] f32_round_scaled_def g_def f32_round_def [of _ 0])
  moreover have "f32_rat a + f32_rat b = (if g then - 1 else 1) * (of_int ?p / of_int ?q)"
    unfolding f32_round_scaled_quot v [symmetric] by (simp add: abs_if g_def)
  moreover have "0 \<le> ?p" "0 < ?q" by simp_all
  ultimately show ?thesis unfolding rounded_def by blast
qed

lemma rounded_sub: "f32_finite a \<Longrightarrow> f32_finite b \<Longrightarrow> rounded (f32_rat a - f32_rat b) (f32_sub a b)"
  using rounded_add [of a "f32_neg b"] by (simp add: f32_neg_rat f32_sub_def)

lemma rounded_dec: "rounded (of_int n / 10 ^ k) (f32_dec n k)"
  unfolding rounded_def f32_dec_def by (intro exI [of _ "n < 0"] exI [of _ "\<bar>n\<bar>"] exI [of _ "10 ^ k"]) (simp add: abs_if)

lemma rounded_of_int: "rounded (of_int n) (f32_of_int n)"
  unfolding rounded_def f32_of_int_def by (intro exI [of _ "n < 0"] exI [of _ "\<bar>n\<bar>"] exI [of _ 1]) (simp add: abs_if)

lemmas f32_mul_near = rounded_normal [OF rounded_mul]
lemmas f32_div_near = rounded_normal [OF rounded_div]
lemmas f32_add_near = rounded_normal [OF rounded_add]

section \<open>Rounding to an integer\<close>

lemma f32_dec_half: "f32_finite (f32_dec 5 1)" "f32_rat (f32_dec 5 1) = 1 / 2" "f32_finite (f32_dec (- 5) 1)" "f32_rat (f32_dec (- 5) 1) = - (1 / 2)"
proof -
  have "(of_int 5 / of_int (10 ^ 1) :: rat) = of_int 1 * 2 powi (-1)" by (simp add: power_int_minus)
  from f32_round_exact [OF _ _ _ _ _ this, of False] f32_round_exact [OF _ _ _ _ _ this, of True]
  show "f32_finite (f32_dec 5 1)" "f32_rat (f32_dec 5 1) = 1 / 2" "f32_finite (f32_dec (- 5) 1)" "f32_rat (f32_dec (- 5) 1) = - (1 / 2)"
    by (simp_all add: f32_dec_def power_int_minus)
qed

lemma f32_ge_zero: "f32_finite x \<Longrightarrow> f32_ge x 0 \<longleftrightarrow> 0 \<le> f32_rat x"
proof -
  assume x: "f32_finite x"
  then have "f32_decode x \<noteq> FNaN" "f32_decode 0 \<noteq> FNaN" using f32_zero(1) by (auto simp: f32_finite_def)
  then show ?thesis using f32_lt_rat [OF x f32_zero(1)] f32_zero(2) by (auto simp: f32_ge_def)
qed

lemma powi_small: "2 powi (-126) \<le> (1 / 4 :: rat)" "(2 :: rat) ^ 22 < 2 powi 127"
  by (simp_all add: power_int_minus field_simps)

text \<open>A float within a quarter of an integer is rounded to it.\<close>

lemma round_int_near:
  assumes x: "f32_finite x" "\<bar>f32_rat x - of_int n\<bar> \<le> 1 / 4" and n: "\<bar>n\<bar> \<le> 2 ^ 20"
  shows "round_int x = Inr n"
proof -
  define h where "h = (if f32_ge x 0 then f32_dec 5 1 else f32_dec (- 5) 1)"
  define d where "d = f32_rat x"
  define r where "r = f32_rat (f32_add x h)"
  have h: "f32_finite h" "f32_rat h = (if 0 \<le> d then 1 / 2 else - (1 / 2))" using f32_dec_half by (simp_all add: h_def f32_ge_zero [OF x(1)] d_def)
  have "\<bar>of_int n :: rat\<bar> \<le> 2 ^ 20" using n by (metis of_int_abs of_int_le_iff of_int_numeral of_int_power)
  then have n': "\<bar>of_int n :: rat\<bar> \<le> 1048576" by simp
  have dn: "\<bar>d - of_int n\<bar> \<le> 1 / 4" using x(2) by (simp add: d_def)
  have "d \<le> of_int n + 1 / 4" "of_int n - 1 / 4 \<le> d" "of_int n \<le> (1048576 :: rat)" "- 1048576 \<le> (of_int n :: rat)"
    using dn n' by linarith+
  then have big: "\<bar>d + f32_rat h\<bar> < 2 ^ 21" "1 / 4 \<le> \<bar>d + f32_rat h\<bar>" using h(2) by (cases "0 \<le> d"; simp)+
  then have "normal (d + f32_rat h)" using powi_small by (auto simp: normal_def)
  then have near: "f32_finite (f32_add x h)" "\<bar>r - (d + f32_rat h)\<bar> \<le> \<bar>d + f32_rat h\<bar> / 2 ^ 24"
    using f32_add_near [OF x(1) h(1)] by (simp_all add: d_def r_def rounds_to_def)
  have "\<bar>r - (d + f32_rat h)\<bar> \<le> 1 / 8" using near(2) big(1) by (simp add: field_simps)
  then have r: "\<bar>r - (of_int n + f32_rat h)\<bar> \<le> 3 / 8" using dn by linarith
  have "rat_trunc r = n"
  proof (cases "0 \<le> d")
    case True
    then have "(-1 :: rat) < of_int n" using dn by linarith
    then have "(0 :: rat) \<le> of_int n" by simp
    moreover have "\<bar>r - (of_int n + 1 / 2)\<bar> \<le> 3 / 8" using r h True by simp
    ultimately have "of_int n \<le> r" "r < of_int n + 1" "0 \<le> r" by linarith+
    then have "\<lfloor>r\<rfloor> = n" "0 \<le> r" by (simp_all add: floor_eq_iff)
    then show ?thesis by (simp add: rat_trunc_def)
  next
    case False
    then have "of_int n < (1 :: rat)" using dn by linarith
    then have "of_int n \<le> (0 :: rat)" by simp
    moreover have "\<bar>r - (of_int n - 1 / 2)\<bar> \<le> 3 / 8" using r h False by simp
    ultimately have "of_int n - 1 < r" "r \<le> of_int n" "r < 0" by linarith+
    then have "\<lceil>r\<rceil> = n" "r < 0" by (simp_all add: ceiling_eq_iff)
    then show ?thesis by (simp add: rat_trunc_def)
  qed
  moreover have "- (2 ^ 31) \<le> n" "n < 2 ^ 31" using n by (simp_all add: abs_le_iff)
  ultimately show ?thesis using f32_to_sint_rat [OF near(1), of 32] by (simp add: round_int_def h_def r_def)
qed

lemma sint_f32_of_int: "\<bar>n\<bar> \<le> 2 ^ 20 \<Longrightarrow> f32_to_sint 32 (f32_of_int n) = Inr n"
proof -
  assume n: "\<bar>n\<bar> \<le> 2 ^ 20"
  then have "\<bar>n\<bar> < 2 ^ 24" by simp
  from f32_of_int_exact [OF this] n show ?thesis by (simp add: f32_to_sint_rat abs_le_iff)
qed

section \<open>Quantisation\<close>

lemma normal_product:
  assumes "a = 0 \<or> (1 / 2 ^ 24 \<le> \<bar>a\<bar> \<and> \<bar>a\<bar> \<le> 2 ^ 24)" "2 powi (-100) \<le> \<bar>S\<bar>" "\<bar>S\<bar> \<le> 2 powi 100"
  shows "normal (a * S)"
proof (cases "a = 0")
  case False
  with assms(1) have a: "1 / 2 ^ 24 \<le> \<bar>a\<bar>" "\<bar>a\<bar> \<le> 2 ^ 24" by auto
  have "(1 / 2 ^ 24) * 2 powi (-100) \<le> \<bar>a\<bar> * \<bar>S\<bar>" by (rule mult_mono) (use a assms in auto)
  moreover have "\<bar>a\<bar> * \<bar>S\<bar> \<le> 2 ^ 24 * 2 powi 100" by (rule mult_mono) (use a assms in auto)
  moreover have "2 powi (-126) \<le> (1 / 2 ^ 24) * (2 :: rat) powi (-100)" "2 ^ 24 * 2 powi 100 < (2 :: rat) powi 127"
    by (simp_all add: power_int_minus field_simps)
  ultimately show ?thesis unfolding normal_def abs_mult by linarith
qed (simp add: normal_def)

lemma normal_moderate: "a = 0 \<or> (1 / 2 ^ 24 \<le> \<bar>a\<bar> \<and> \<bar>a\<bar> \<le> 2 ^ 24) \<Longrightarrow> normal a"
  using normal_product [of a 1] by (simp add: power_int_minus)

text \<open>A byte that is dequantised and quantised again with the same scale comes back.\<close>

lemma quant_dequant:
  fixes x :: elem_t
  assumes s: "f32_finite scale" "2 powi (-100) \<le> \<bar>f32_rat scale\<bar>" "\<bar>f32_rat scale\<bar> \<le> 2 powi 100"
  shows "quant_elem scale (f32_mul (f32_of_int (sint x)) scale) = Inr x"
proof -
  define n where "n = sint x"
  define S where "S = f32_rat scale"
  define a where "a = f32_mul (f32_of_int n) scale"
  define d where "d = f32_div a scale"
  have n: "\<bar>n\<bar> \<le> 128" "-128 \<le> n" "n \<le> 127" using sint_ge [of x] sint_lt [of x] by (auto simp: n_def)
  have fn: "f32_finite (f32_of_int n)" "f32_rat (f32_of_int n) = of_int n" using n f32_of_int_exact [of n] by auto
  have S0: "S \<noteq> 0" using s(2) by (auto simp: S_def power_int_minus)
  have an: "\<bar>of_int n :: rat\<bar> \<le> 128" using n by linarith
  have n0: "of_int n = (0 :: rat) \<or> 1 \<le> \<bar>of_int n :: rat\<bar>" by (cases "n = 0") auto
  have "normal (of_int n * S)" by (rule normal_product) (use n0 an s in \<open>auto simp: S_def\<close>)
  then have a: "f32_finite a" "\<bar>f32_rat a - of_int n * S\<bar> \<le> \<bar>of_int n * S\<bar> / 2 ^ 24"
    using f32_mul_near [OF fn(1) s(1)] by (simp_all add: fn a_def S_def rounds_to_def)
  define q where "q = f32_rat a / S"
  have "\<bar>q - of_int n\<bar> = \<bar>f32_rat a - of_int n * S\<bar> / \<bar>S\<bar>" using S0 by (simp add: q_def field_simps flip: abs_divide)
  also have "\<dots> \<le> \<bar>of_int n * S\<bar> / 2 ^ 24 / \<bar>S\<bar>" using a(2) by (rule divide_right_mono) simp
  also have "\<dots> = \<bar>of_int n\<bar> / 2 ^ 24" using S0 by (simp add: abs_mult)
  finally have q: "\<bar>q - of_int n\<bar> \<le> \<bar>of_int n\<bar> / 2 ^ 24" .
  have "q = 0 \<or> (1 / 2 \<le> \<bar>q\<bar> \<and> \<bar>q\<bar> \<le> 129)"
  proof (cases "n = 0")
    case False
    then have "1 \<le> \<bar>of_int n :: rat\<bar>" using n0 by auto
    moreover have "\<bar>of_int n\<bar> / 2 ^ 24 \<le> (1 / 2 :: rat)" using an by simp
    ultimately show ?thesis using q an by linarith
  qed (use q in simp)
  then have qb: "normal q" "\<bar>q\<bar> \<le> 129" by (auto intro: normal_moderate)
  have d: "f32_finite d" "\<bar>f32_rat d - q\<bar> \<le> \<bar>q\<bar> / 2 ^ 24"
    using f32_div_near [OF a(1) s(1)] S0 qb by (simp_all add: d_def S_def q_def rounds_to_def)
  have "\<bar>q\<bar> / 2 ^ 24 \<le> 129 / 2 ^ 24" "\<bar>of_int n\<bar> / 2 ^ 24 \<le> (128 / 2 ^ 24 :: rat)" using qb an by (auto intro: divide_right_mono)
  moreover have "129 / 2 ^ 24 + 128 / 2 ^ 24 \<le> (1 / 4 :: rat)" by simp
  ultimately have "\<bar>f32_rat d - of_int n\<bar> \<le> 1 / 4" using d(2) q by linarith
  then have "round_int d = Inr n" using d(1) n by (intro round_int_near) auto
  moreover have "f32_to_sint 32 (f32_of_int n) = Inr n" using n by (intro sint_f32_of_int) auto
  moreover have "clip_elem n = x" using n by (simp add: clip_elem_def n_def)
  ultimately show ?thesis by (simp add: quant_elem_def shen_roundf_def n_def [symmetric] a_def [symmetric] d_def [symmetric])
qed

end
