(* ===== verification/Yolo_Silu_Correct.thy ===== *)
theory Yolo_Silu_Correct
  imports Float_Error
begin

text \<open>
  The SiLU table can always be built: for scales that are not extreme, every float operation of an entry
  is defined, the shift in \<open>shen_expf\<close> is never by a negative exponent, and the conversions to integers are in range.
\<close>

section \<open>Bounded roundings\<close>

text \<open>A result of at most \<open>B\<close> is rounded with an error of at most one part in \<open>2 ^ 23\<close> of \<open>B\<close>.\<close>

lemma rounded_bounded:
  assumes "rounded x w" "\<bar>x\<bar> \<le> B" "1 / 2 ^ 20 \<le> B" "B \<le> 2 ^ 60"
  shows "f32_finite w" "\<bar>f32_rat w - x\<bar> \<le> B / 2 ^ 23"
proof -
  have "(2 :: rat) ^ 60 < 2 powi 127" by simp
  then have no: "\<not> 2 powi 127 \<le> \<bar>x\<bar>" using assms(2,4) by linarith
  have tiny: "(2 :: rat) powi (-150) \<le> B / 2 ^ 24" using assms(3) by (simp add: power_int_minus field_simps)
  have "\<bar>x\<bar> / 2 ^ 24 \<le> B / 2 ^ 24" by (rule divide_right_mono) (use assms(2) in simp_all)
  moreover have "B / 2 ^ 24 + B / 2 ^ 24 = B / 2 ^ 23" by simp
  ultimately have "\<bar>x\<bar> / 2 ^ 24 + 2 powi (-150) \<le> B / 2 ^ 23" using tiny by linarith
  with assms(1) no show "f32_finite w" "\<bar>f32_rat w - x\<bar> \<le> B / 2 ^ 23"
    by (auto elim!: rounded_cases)
qed

lemma rat_trunc_above: "0 \<le> y \<Longrightarrow> of_int (rat_trunc y) \<le> y \<and> y < of_int (rat_trunc y) + 1 \<and> 0 \<le> (of_int (rat_trunc y) :: rat)"
  unfolding rat_trunc_def by simp linarith

lemma rat_trunc_below: "y < 0 \<Longrightarrow> y \<le> of_int (rat_trunc y) \<and> of_int (rat_trunc y) - 1 < y \<and> of_int (rat_trunc y) \<le> (0 :: rat)"
proof -
  assume y: "y < 0"
  have "y \<le> of_int \<lceil>y\<rceil>" "of_int \<lceil>y\<rceil> < y + 1" by linarith+
  moreover have "\<lceil>y\<rceil> \<le> 0" using y by simp
  ultimately show ?thesis using y by (simp add: rat_trunc_def)
qed

lemma rat_trunc_abs: "\<bar>of_int (rat_trunc y)\<bar> \<le> \<bar>y\<bar>"
  using rat_trunc_above [of y] rat_trunc_below [of y] by (cases "0 \<le> y") auto

lemma to_sint_defined: "f32_finite x \<Longrightarrow> \<bar>f32_rat x\<bar> < 2 ^ 31 \<Longrightarrow> f32_to_sint 32 x = Inr (rat_trunc (f32_rat x))"
proof -
  assume x: "f32_finite x" "\<bar>f32_rat x\<bar> < 2 ^ 31"
  have "\<bar>of_int (rat_trunc (f32_rat x)) :: rat\<bar> < of_int (2 ^ 31)" using rat_trunc_abs [of "f32_rat x"] x(2) by simp
  then have "\<bar>rat_trunc (f32_rat x)\<bar> < 2 ^ 31" by (simp only: of_int_abs [symmetric] of_int_less_iff)
  then show ?thesis using x(1) by (simp add: f32_to_sint_rat Let_def abs_less_iff)
qed

lemma round_int_close:
  assumes "f32_finite x" "\<bar>f32_rat x\<bar> \<le> B" "1 \<le> B" "B \<le> 2 ^ 29"
  obtains n where "round_int x = Inr n" "\<bar>f32_rat x - of_int n\<bar> \<le> 1 / 2 + B / 2 ^ 22" "\<bar>of_int n\<bar> \<le> B + 1 / 2 + B / 2 ^ 22"
proof -
  define h where "h = (if f32_ge x 0 then f32_dec 5 1 else f32_dec (- 5) 1)"
  define S where "S = f32_rat (f32_add x h)"
  have h: "f32_finite h" "f32_rat h = (if 0 \<le> f32_rat x then 1 / 2 else - (1 / 2))" using f32_dec_half by (simp_all add: h_def f32_ge_zero [OF assms(1)])
  have "\<bar>f32_rat x + f32_rat h\<bar> \<le> 2 * B" using assms(2,3) h(2) by (simp add: abs_le_iff split: if_splits)
  moreover have "1 / 2 ^ 20 \<le> 2 * B" "2 * B \<le> 2 ^ 60" using assms(3,4) by simp_all
  ultimately have S: "f32_finite (f32_add x h)" "\<bar>S - (f32_rat x + f32_rat h)\<bar> \<le> 2 * B / 2 ^ 23"
    using rounded_bounded [OF rounded_add [OF assms(1) h(1)]] unfolding S_def by blast+
  then have err: "\<bar>S - (f32_rat x + f32_rat h)\<bar> \<le> B / 2 ^ 22" by simp
  define e where "e = B / 2 ^ 22"
  have small: "e \<le> 2 ^ 7" "0 \<le> e" using assms(3,4) by (simp_all add: e_def)
  have S': "- e \<le> S - (f32_rat x + f32_rat h)" "S - (f32_rat x + f32_rat h) \<le> e" using err by (simp_all only: e_def abs_le_iff) linarith
  have X: "- B \<le> f32_rat x" "f32_rat x \<le> B" using assms(2) by linarith+
  have abs: "\<bar>S\<bar> \<le> B + 1 / 2 + e" using S' X h(2) by (cases "0 \<le> f32_rat x") (simp_all add: abs_le_iff)
  then have "\<bar>S\<bar> < 2 ^ 31" using small assms(4) by simp
  then have "round_int x = Inr (rat_trunc S)" using to_sint_defined [OF S(1)] by (simp add: S_def round_int_def h_def)
  moreover have "\<bar>of_int (rat_trunc S)\<bar> \<le> B + 1 / 2 + e" using rat_trunc_abs [of S] abs by linarith
  moreover have "\<bar>f32_rat x - of_int (rat_trunc S)\<bar> \<le> 1 / 2 + e"
    using S' small h(2) rat_trunc_above [of S] rat_trunc_below [of S] by (cases "0 \<le> f32_rat x"; cases "0 \<le> S") (simp_all add: abs_le_iff)
  ultimately show ?thesis using that unfolding e_def by blast
qed

section \<open>The exponential\<close>

text \<open>The argument is reduced to at most one half.\<close>

lemma exp_argument:
  fixes X N c1 c2 T Y R :: rat
  assumes X: "\<bar>X\<bar> \<le> 88" and c1: "\<bar>c1 - 14426950408 / 10000000000\<bar> \<le> 1 / 1048576" and c2: "\<bar>c2 - 6931471805599453 / 10000000000000000\<bar> \<le> 1 / 1048576"
    and T: "\<bar>T - X * c1\<bar> \<le> 1 / 1024" and N: "\<bar>T - N\<bar> \<le> 1 / 2 + 1 / 1024" and Y: "\<bar>Y - N * c2\<bar> \<le> 1 / 1024"
  shows "\<bar>X - Y\<bar> \<le> 2 / 5"
proof -
  define d where "d = N - X * c1"
  have d: "\<bar>d\<bar> \<le> 1 / 2 + 1 / 512" using T N unfolding d_def by linarith
  have c: "0 \<le> c1" "c1 \<le> 3 / 2" "\<bar>c2\<bar> \<le> 7 / 10" using c1 c2 by linarith+
  have "\<bar>c1 * c2 - 1\<bar> \<le> 1 / 131072"
  proof -
    define a b where "a = c1 - 14426950408 / 10000000000" and "b = c2 - 6931471805599453 / 10000000000000000"
    have "\<bar>a * c2\<bar> \<le> 1 / 1048576 * 1" unfolding abs_mult by (rule mult_mono) (use c1 c in \<open>simp_all add: a_def\<close>)
    moreover have "c1 * c2 - 1 = a * c2 + 14426950408 / 10000000000 * b + (14426950408 / 10000000000 * (6931471805599453 / 10000000000000000) - 1)" by (simp add: a_def b_def algebra_simps)
    moreover have "\<bar>b\<bar> \<le> 1 / 1048576" using c2 by (simp add: b_def)
    ultimately show ?thesis by linarith
  qed
  then have "\<bar>X * (c1 * c2 - 1)\<bar> \<le> 88 * (1 / 131072)" unfolding abs_mult by (intro mult_mono) (use X in simp_all)
  moreover have "\<bar>d * c2\<bar> \<le> (1 / 2 + 1 / 512) * (7 / 10)" unfolding abs_mult by (rule mult_mono) (use d c in simp_all)
  moreover have "X - Y = - (X * (c1 * c2 - 1)) - d * c2 - (Y - N * c2)" by (simp add: d_def algebra_simps)
  moreover have "\<bar>w\<bar> \<le> 2 / 5" if "\<bar>x\<bar> \<le> 88 * (1 / 131072)" "\<bar>y\<bar> \<le> (1 / 2 + 1 / 512) * (7 / 10)" "\<bar>z\<bar> \<le> 1 / 1024" "w = - x - y - z" for w x y z :: rat
  proof -
    have "\<bar>x\<bar> \<le> 1 / 1000" "\<bar>y\<bar> \<le> 36 / 100" "\<bar>z\<bar> \<le> 1 / 1000" using that by simp_all
    then show ?thesis using that(4) by linarith
  qed
  ultimately show ?thesis using Y by blast
qed

text \<open>One step of Horner's scheme.\<close>

lemma horner_step:
  assumes r: "f32_finite r" "\<bar>f32_rat r\<bar> \<le> 1 / 2" and a: "f32_finite a" "\<bar>f32_rat a\<bar> \<le> 1" and q: "f32_finite q" "\<bar>f32_rat q\<bar> \<le> B" "1 / 1024 \<le> B" "B \<le> 2"
  shows "f32_finite (f32_add a (f32_mul r q))" "\<bar>f32_rat (f32_add a (f32_mul r q)) - f32_rat a\<bar> \<le> B / 2 + 1 / 1024"
proof -
  have rq: "\<bar>f32_rat r * f32_rat q\<bar> \<le> 1 / 2 * B" unfolding abs_mult by (rule mult_mono) (use r q in simp_all)
  have "f32_finite (f32_mul r q)" "\<bar>f32_rat (f32_mul r q) - f32_rat r * f32_rat q\<bar> \<le> 1 / 2 * B / 2 ^ 23"
    by (rule rounded_bounded [OF rounded_mul [OF r(1) q(1)] rq]; use q(3,4) in simp)+
  then have m: "f32_finite (f32_mul r q)" "\<bar>f32_rat (f32_mul r q) - f32_rat r * f32_rat q\<bar> \<le> 1 / 1048576" using q(4) by simp_all
  have "\<bar>f32_rat (f32_mul r q)\<bar> \<le> 2" using m(2) rq q(4) by linarith
  then have s: "\<bar>f32_rat a + f32_rat (f32_mul r q)\<bar> \<le> 3" using a(2) by linarith
  have "f32_finite (f32_add a (f32_mul r q))" "\<bar>f32_rat (f32_add a (f32_mul r q)) - (f32_rat a + f32_rat (f32_mul r q))\<bar> \<le> 3 / 8388608"
    using rounded_bounded [OF rounded_add [OF a(1) m(1)] s] by simp_all
  then show "f32_finite (f32_add a (f32_mul r q))" "\<bar>f32_rat (f32_add a (f32_mul r q)) - f32_rat a\<bar> \<le> B / 2 + 1 / 1024"
    using m(2) rq by (blast, linarith)
qed

lemma unit_fraction:
  assumes "1 \<le> k" "k < 2 ^ 20"
  shows "f32_finite (f32_div (f32_of_int 1) (f32_of_int k))" "\<bar>f32_rat (f32_div (f32_of_int 1) (f32_of_int k)) - 1 / of_int k\<bar> \<le> 1 / 8388608"
proof -
  have one: "f32_finite (f32_of_int 1)" "f32_rat (f32_of_int 1) = 1" and k: "f32_finite (f32_of_int k)" "f32_rat (f32_of_int k) = of_int k"
    using f32_of_int_exact [of 1] f32_of_int_exact [of k] assms by simp_all
  have "rounded (1 / of_int k) (f32_div (f32_of_int 1) (f32_of_int k))" using rounded_div [OF one(1) k(1)] one k assms by simp
  from rounded_bounded [OF this, of 1] assms show "f32_finite (f32_div (f32_of_int 1) (f32_of_int k))" "\<bar>f32_rat (f32_div (f32_of_int 1) (f32_of_int k)) - 1 / of_int k\<bar> \<le> 1 / 8388608"
    by simp_all
qed

text \<open>A float that is not negative: a number or the infinity.\<close>

definition nonneg :: "f32 \<Rightarrow> bool" where
  "nonneg w \<longleftrightarrow> f32_finite w \<and> 0 \<le> f32_rat w \<or> f32_decode w = FInf False"

lemma rounded_nonneg: "rounded x w \<Longrightarrow> 0 \<le> x \<Longrightarrow> nonneg w"
  by (erule rounded_cases) (auto simp: nonneg_def)

text \<open>The polynomial is positive, and the power of two is put together from its exponent.\<close>

lemma exp_polynomial:
  fixes r :: f32
  defines "one \<equiv> f32_of_int 1"
  defines "q4 \<equiv> f32_add (f32_div one (f32_of_int 24)) (f32_mul r (f32_div one (f32_of_int 120)))"
  defines "q3 \<equiv> f32_add (f32_div one (f32_of_int 6)) (f32_mul r q4)"
  defines "q2 \<equiv> f32_add (f32_dec 5 1) (f32_mul r q3)"
  defines "q1 \<equiv> f32_add one (f32_mul r q2)"
  assumes r: "f32_finite r" "\<bar>f32_rat r\<bar> \<le> 1 / 2"
  shows "f32_finite (f32_add one (f32_mul r q1))" "0 \<le> f32_rat (f32_add one (f32_mul r q1))"
proof -
  have c6: "f32_finite (f32_div one (f32_of_int 6))" "\<bar>f32_rat (f32_div one (f32_of_int 6)) - 1 / 6\<bar> \<le> 1 / 8388608"
    and c24: "f32_finite (f32_div one (f32_of_int 24))" "\<bar>f32_rat (f32_div one (f32_of_int 24)) - 1 / 24\<bar> \<le> 1 / 8388608"
    and c120: "f32_finite (f32_div one (f32_of_int 120))" "\<bar>f32_rat (f32_div one (f32_of_int 120)) - 1 / 120\<bar> \<le> 1 / 8388608"
    using unit_fraction [of 6] unit_fraction [of 24] unit_fraction [of 120] by (simp_all add: one_def)
  have one: "f32_finite one" "f32_rat one = 1" using f32_of_int_exact [of 1] by (simp_all add: one_def)
  have b120: "\<bar>f32_rat (f32_div one (f32_of_int 120))\<bar> \<le> 1 / 64" using c120(2) by linarith
  have b24: "\<bar>f32_rat (f32_div one (f32_of_int 24))\<bar> \<le> 1 / 16" using c24(2) by linarith
  have b6: "\<bar>f32_rat (f32_div one (f32_of_int 6))\<bar> \<le> 1 / 4" using c6(2) by linarith
  have "f32_finite q4" "\<bar>f32_rat q4 - f32_rat (f32_div one (f32_of_int 24))\<bar> \<le> 1 / 64 / 2 + 1 / 1024"
    unfolding q4_def using horner_step [OF r c24(1) _ c120(1) b120] b24 by simp_all
  then have q4: "f32_finite q4" "\<bar>f32_rat q4\<bar> \<le> 1 / 8" using b24 by (blast, linarith)
  have "f32_finite q3" "\<bar>f32_rat q3 - f32_rat (f32_div one (f32_of_int 6))\<bar> \<le> 1 / 8 / 2 + 1 / 1024"
    unfolding q3_def using horner_step [OF r c6(1) _ q4] b6 by simp_all
  then have q3: "f32_finite q3" "\<bar>f32_rat q3\<bar> \<le> 1 / 3" using b6 by (blast, linarith)
  have "f32_finite q2" "\<bar>f32_rat q2 - 1 / 2\<bar> \<le> 1 / 3 / 2 + 1 / 1024"
    unfolding q2_def using horner_step [OF r f32_dec_half(1) _ q3, unfolded f32_dec_half(2)] by simp_all
  then have q2: "f32_finite q2" "\<bar>f32_rat q2\<bar> \<le> 7 / 10" by (blast, linarith)
  have "f32_finite q1" "\<bar>f32_rat q1 - 1\<bar> \<le> 7 / 10 / 2 + 1 / 1024"
    unfolding q1_def using horner_step [OF r one(1) _ q2] by (simp_all add: one(2))
  then have q1: "f32_finite q1" "\<bar>f32_rat q1\<bar> \<le> 7 / 5" by (blast, linarith)
  have "f32_finite (f32_add one (f32_mul r q1))" "\<bar>f32_rat (f32_add one (f32_mul r q1)) - 1\<bar> \<le> 7 / 5 / 2 + 1 / 1024"
    using horner_step [OF r one(1) _ q1] by (simp_all add: one(2))
  then show "f32_finite (f32_add one (f32_mul r q1))" "0 \<le> f32_rat (f32_add one (f32_mul r q1))" by (blast, linarith)
qed

lemma exp_power:
  assumes "0 \<le> n + 127" "n \<le> 127"
  shows "f32_finite (word_of_int ((n + 127) * 2 ^ 23))" "0 \<le> f32_rat (word_of_int ((n + 127) * 2 ^ 23))"
proof -
  define b where "b = (n + 127) * 2 ^ 23"
  have b: "0 \<le> b" "b < 255 * 2 ^ 23" using assms by (simp_all add: b_def)
  have "f32_decode (word_of_int b) = f32_decode (f32_sign False b)" by (simp add: f32_sign_def)
  then show "f32_finite (word_of_int ((n + 127) * 2 ^ 23))" "0 \<le> f32_rat (word_of_int ((n + 127) * 2 ^ 23))"
    unfolding b_def [symmetric] f32_finite_def f32_rat_def using f32_decode_sign [OF b, of False] b by auto
qed

lemma expf_defined:
  assumes x: "f32_finite x"
  obtains e where "shen_expf x = Inr e" "nonneg e"
proof -
  have i: "f32_finite (f32_of_int 88)" "f32_rat (f32_of_int 88) = 88" "f32_finite (f32_of_int (- 88))" "f32_rat (f32_of_int (- 88)) = - 88"
    using f32_of_int_exact [of 88] f32_of_int_exact [of "- 88"] by simp_all
  consider (big) "f32_lt (f32_of_int 88) x" | (small) "\<not> f32_lt (f32_of_int 88) x" "f32_lt x (f32_of_int (- 88))"
    | (mid) "\<not> f32_lt (f32_of_int 88) x" "\<not> f32_lt x (f32_of_int (- 88))" by blast
  then show thesis
  proof cases
    case big
    have "f32_decode 0x7F7FFFFF = FFin False 16777215 104" by code_simp
    then have "nonneg 0x7F7FFFFF" by (simp add: nonneg_def f32_finite_def f32_rat_def)
    then show thesis using that big by (simp add: shen_expf_def)
  next
    case small
    have "nonneg 0" using f32_zero by (simp add: nonneg_def)
    then show thesis using that small by (simp add: shen_expf_def)
  next
    case mid
    define X where "X = f32_rat x"
    let ?c1 = "f32_dec 14426950408 10" and ?c2 = "f32_dec 6931471805599453 16"
    let ?t = "f32_mul x ?c1"
    have X: "\<bar>X\<bar> \<le> 88" using mid f32_lt_rat [OF i(1) x] f32_lt_rat [OF x i(3)] i by (auto simp: X_def abs_le_iff)
    have "f32_finite ?c1" "\<bar>f32_rat ?c1 - 14426950408 / 10000000000\<bar> \<le> 2 / 2 ^ 23"
      using rounded_bounded [OF rounded_dec, of 14426950408 10 2] by simp_all
    then have c1: "f32_finite ?c1" "\<bar>f32_rat ?c1 - 14426950408 / 10000000000\<bar> \<le> 1 / 1048576" by simp_all
    have "f32_finite ?c2" "\<bar>f32_rat ?c2 - 6931471805599453 / 10000000000000000\<bar> \<le> 2 / 2 ^ 23"
      using rounded_bounded [OF rounded_dec, of 6931471805599453 16 2] by simp_all
    then have c2: "f32_finite ?c2" "\<bar>f32_rat ?c2 - 6931471805599453 / 10000000000000000\<bar> \<le> 1 / 1048576" by simp_all
    have c1b: "\<bar>f32_rat ?c1\<bar> \<le> 144270 / 100000" and c2b: "\<bar>f32_rat ?c2\<bar> \<le> 1" using c1(2) c2(2) by linarith+
    have tb: "\<bar>X * f32_rat ?c1\<bar> \<le> 88 * (144270 / 100000)" unfolding abs_mult by (rule mult_mono) (use X c1b in simp_all)
    have "f32_finite ?t" "\<bar>f32_rat ?t - X * f32_rat ?c1\<bar> \<le> 88 * (144270 / 100000) / 2 ^ 23"
      using rounded_bounded [OF rounded_mul [OF x c1(1)], where B = "88 * (144270 / 100000)"] tb by (simp_all add: X_def)
    then have t: "f32_finite ?t" "\<bar>f32_rat ?t - X * f32_rat ?c1\<bar> \<le> 1 / 32768" by simp_all
    have t127: "\<bar>f32_rat ?t\<bar> \<le> 12697 / 100" using t(2) tb by linarith
    obtain n where n: "round_int ?t = Inr n" "\<bar>f32_rat ?t - of_int n\<bar> \<le> 1 / 2 + 12697 / 100 / 2 ^ 22" "\<bar>of_int n :: rat\<bar> \<le> 12697 / 100 + 1 / 2 + 12697 / 100 / 2 ^ 22"
      by (rule round_int_close [OF t(1) t127]) simp_all
    have "\<bar>of_int n :: rat\<bar> < 128" using n(3) by simp
    then have "\<bar>n\<bar> < 128" by (metis of_int_abs of_int_less_numeral_iff)
    then have n127: "0 \<le> n + 127" "n \<le> 127" by simp_all
    let ?y = "f32_mul (f32_of_int n) ?c2"
    have ni: "f32_finite (f32_of_int n)" "f32_rat (f32_of_int n) = of_int n" using f32_of_int_exact [of n] \<open>\<bar>n\<bar> < 128\<close> by simp_all
    have "\<bar>of_int n * f32_rat ?c2\<bar> \<le> 128 * 1" unfolding abs_mult by (rule mult_mono) (use \<open>\<bar>of_int n :: rat\<bar> < 128\<close> c2b in simp_all)
    then have y: "f32_finite ?y" "\<bar>f32_rat ?y - of_int n * f32_rat ?c2\<bar> \<le> 1 / 1024"
      using rounded_bounded [OF rounded_mul [OF ni(1) c2(1)], where B = 128] by (simp_all add: ni(2))
    have "\<bar>X - f32_rat ?y\<bar> \<le> 2 / 5" by (rule exp_argument [OF X c1(2) c2(2) _ _ y(2), of "f32_rat ?t"]) (use t(2) n(2) in simp_all)
    moreover have "f32_finite (f32_sub x ?y)" "\<bar>f32_rat (f32_sub x ?y) - (X - f32_rat ?y)\<bar> \<le> 1 / 8388608"
      using rounded_bounded [OF rounded_sub [OF x y(1)], where B = 1] calculation by (simp_all add: X_def)
    ultimately have r: "f32_finite (f32_sub x ?y)" "\<bar>f32_rat (f32_sub x ?y)\<bar> \<le> 1 / 2" by (blast, linarith)
    note P = exp_polynomial [OF r] and U = exp_power [OF n127]
    have "shen_expf x = Inr (f32_mul (f32_add (f32_of_int 1) (f32_mul (f32_sub x ?y) (f32_add (f32_of_int 1) (f32_mul (f32_sub x ?y) (f32_add (f32_dec 5 1) (f32_mul (f32_sub x ?y) (f32_add (f32_div (f32_of_int 1) (f32_of_int 6)) (f32_mul (f32_sub x ?y) (f32_add (f32_div (f32_of_int 1) (f32_of_int 24)) (f32_mul (f32_sub x ?y) (f32_div (f32_of_int 1) (f32_of_int 120)))))))))))) (word_of_int ((n + 127) * 2 ^ 23)))"
      using mid n127 n(1) by (simp add: shen_expf_def Let_def)
    then show thesis using that rounded_nonneg [OF rounded_mul [OF P(1) U(1)]] mult_nonneg_nonneg [OF P(2) U(2)] by blast
  qed
qed

section \<open>The table\<close>

lemma one_plus:
  assumes "nonneg e"
  shows "f32_finite (f32_add (f32_of_int 1) e) \<and> 1 / 2 \<le> f32_rat (f32_add (f32_of_int 1) e) \<or> f32_decode (f32_add (f32_of_int 1) e) = FInf False"
proof -
  have one: "f32_finite (f32_of_int 1)" "f32_rat (f32_of_int 1) = 1" using f32_of_int_exact [of 1] by simp_all
  from assms show ?thesis unfolding nonneg_def
  proof (elim disjE conjE)
    assume e: "f32_finite e" "0 \<le> f32_rat e"
    have "rounded (1 + f32_rat e) (f32_add (f32_of_int 1) e)" using rounded_add [OF one(1) e(1)] by (simp add: one(2))
    then show ?thesis
    proof (cases rule: rounded_cases)
      case finite
      define v where "v = 1 + f32_rat e"
      have v: "1 \<le> v" "\<bar>v\<bar> = v" using e(2) by (simp_all add: v_def)
      have "2 powi (-126) \<le> \<bar>1 + f32_rat e\<bar>" using e(2) by (simp add: power_int_minus)
      from finite(4) [OF this] have "\<bar>f32_rat (f32_add (f32_of_int 1) e) - v\<bar> \<le> v / 2 ^ 24" using v by (simp add: v_def)
      moreover have "v / 2 ^ 24 \<le> v / 2" using v by simp
      ultimately have "1 / 2 \<le> f32_rat (f32_add (f32_of_int 1) e)" using v by linarith
      then show ?thesis using finite(1) by blast
    next
      case overflow
      then show ?thesis using e(2) by simp
    qed
  next
    assume "f32_decode e = FInf False"
    moreover obtain s m f where "f32_decode (f32_of_int 1) = FFin s m f" by (rule f32_decode_finite [OF one(1)])
    ultimately have "f32_decode (f32_add (f32_of_int 1) e) = FInf False" by (simp only: f32_add_def fval_add.simps f32_inf_def f32_decode_inf)
    then show ?thesis by blast
  qed
qed

text \<open>The scales for which the table is built.\<close>

definition scale_ok :: "f32 \<Rightarrow> bool" where
  "scale_ok s \<longleftrightarrow> f32_finite s \<and> 1 / 2 ^ 10 \<le> f32_rat s \<and> f32_rat s \<le> 2 ^ 10"

lemma bounded_quotient:
  assumes "f32_finite a" "f32_finite b" "\<bar>f32_rat a\<bar> \<le> A" "c \<le> f32_rat b" "0 < c" "1 / 2 ^ 20 \<le> A / c" "A / c \<le> 2 ^ 60"
  shows "f32_finite (f32_div a b)" "\<bar>f32_rat (f32_div a b)\<bar> \<le> A / c + A / c / 2 ^ 23"
proof -
  have "\<bar>f32_rat a / f32_rat b\<bar> \<le> A / c" unfolding abs_divide by (rule frac_le) (use assms in auto)
  moreover have "f32_rat b \<noteq> 0" using assms(4,5) by simp
  ultimately have "f32_finite (f32_div a b)" "\<bar>f32_rat (f32_div a b) - f32_rat a / f32_rat b\<bar> \<le> A / c / 2 ^ 23"
    using rounded_bounded [OF rounded_div [OF assms(1,2)] _ assms(6,7)] by blast+
  then show "f32_finite (f32_div a b)" "\<bar>f32_rat (f32_div a b)\<bar> \<le> A / c + A / c / 2 ^ 23" using \<open>\<bar>f32_rat a / f32_rat b\<bar> \<le> A / c\<close> by (blast, linarith)
qed

lemma silu_defined:
  fixes x_fp :: f32
  assumes x: "f32_finite x_fp" "\<bar>f32_rat x_fp\<bar> \<le> 131073" and e: "nonneg e"
  defines "silu \<equiv> f32_div x_fp (f32_add (f32_of_int 1) e)"
  shows "f32_finite silu" "\<bar>f32_rat silu\<bar> \<le> 262147"
proof -
  have "f32_finite silu \<and> \<bar>f32_rat silu\<bar> \<le> 262147"
    using one_plus [OF e]
  proof (elim disjE conjE)
    assume "f32_finite (f32_add (f32_of_int 1) e)" "1 / 2 \<le> f32_rat (f32_add (f32_of_int 1) e)"
    from bounded_quotient [OF x(1) this(1) x(2) this(2)] show ?thesis by (simp add: silu_def)
  next
    assume i: "f32_decode (f32_add (f32_of_int 1) e) = FInf False"
    obtain s m f where "f32_decode x_fp = FFin s m f" by (rule f32_decode_finite [OF x(1)])
    then have "silu = f32_sign s 0" using i by (simp add: silu_def f32_div_def)
    then show ?thesis using f32_decode_sign [of 0 s] by (simp add: f32_finite_def f32_rat_def)
  qed
  then show "f32_finite silu" "\<bar>f32_rat silu\<bar> \<le> 262147" by blast+
qed

lemma silu_entry_defined:
  assumes "scale_ok input_scale" "scale_ok output_scale"
  obtains y where "silu_entry input_scale output_scale x = Inr y"
proof -
  let ?x = "f32_mul (f32_of_int (sint x)) input_scale"
  have i: "f32_finite input_scale" "\<bar>f32_rat input_scale\<bar> \<le> 1024" and o: "f32_finite output_scale" "1 / 1024 \<le> f32_rat output_scale"
    using assms by (simp_all add: scale_ok_def)
  have sx: "\<bar>sint x\<bar> \<le> 128" using sint8_range [of x] by auto
  then have "\<bar>sint x\<bar> < 2 ^ 24" "\<bar>of_int (sint x) :: rat\<bar> \<le> 128" by (simp, metis of_int_abs of_int_le_numeral_iff)
  note n = f32_of_int_exact [OF this(1)] this(2)
  have "\<bar>of_int (sint x) * f32_rat input_scale\<bar> \<le> 128 * 1024" unfolding abs_mult by (rule mult_mono) (use n i in simp_all)
  then have b: "\<bar>of_int (sint x) * f32_rat input_scale\<bar> \<le> 131072" by simp
  have "f32_finite ?x" "\<bar>f32_rat ?x - of_int (sint x) * f32_rat input_scale\<bar> \<le> 1"
    using rounded_bounded [OF rounded_mul [OF n(1) i(1)], where B = 131072] b by (simp_all add: n(2))
  then have X: "f32_finite ?x" "\<bar>f32_rat ?x\<bar> \<le> 131073" using b by (blast, linarith)
  obtain e where e: "shen_expf (f32_neg ?x) = Inr e" "nonneg e" by (rule expf_defined [OF f32_neg_rat(1) [OF X(1)]])
  let ?silu = "f32_div ?x (f32_add (f32_of_int 1) e)"
  note S = silu_defined [OF X e(2)]
  have q: "f32_finite (f32_div ?silu output_scale)" "\<bar>f32_rat (f32_div ?silu output_scale)\<bar> \<le> 2 ^ 29"
    using bounded_quotient [OF S(1) o(1) S(2) o(2)] by simp_all
  obtain n where n: "round_int (f32_div ?silu output_scale) = Inr n" "\<bar>of_int n :: rat\<bar> \<le> 2 ^ 29 + 1 / 2 + 2 ^ 29 / 2 ^ 22"
    by (rule round_int_close [OF q]) simp_all
  have "f32_finite (f32_of_int n)" "\<bar>f32_rat (f32_of_int n) - of_int n\<bar> \<le> 2 ^ 30 / 2 ^ 23"
    using rounded_bounded [OF rounded_of_int, of n "2 ^ 30"] n(2) by simp_all
  then have "f32_finite (f32_of_int n)" "\<bar>f32_rat (f32_of_int n)\<bar> < 2 ^ 31" using n(2) by (blast, simp)
  from to_sint_defined [OF this] show thesis using e(1) n(1) by (intro that) (simp add: silu_entry_def shen_roundf_def Let_def)
qed

end
