(* ===== verification/Yolo_Quant_Correct.thy ===== *)
theory Yolo_Quant_Correct
  imports Tensors Float_Error
begin

text \<open>The conversions between bytes and floats, on whole arrays: quantisation undoes dequantisation with the same scale.\<close>

lemma dequant_floats:
  assumes "array M m inp n X" "array_room M m fp (4 * n)" "apart inp n fp (4 * n)"
  shows "succeeds (shen_dequant_int8_to_fp32 M inp fp (int n) scale m)
    (\<lambda>t. wrote M m t {..<4 * n} (elem_at fp) (float_bytes (\<lambda>i. f32_mul (f32_of_int (sint (X i))) scale)))"
  unfolding shen_dequant_int8_to_fp32_def nat_int
proof (rule fill_floats [OF assms(2)])
  fix i t assume i: "i < n" and w: "wrote M m t {..<4 * i} (elem_at fp) (float_bytes (\<lambda>i. f32_mul (f32_of_int (sint (X i))) scale))"
  have "apart inp n fp (4 * i)" using assms(3) i unfolding apart_def by simp
  then have "load_byte M t (elem_at inp i) = Inr (X i)" using array_kept [OF w _ assms(1)] i by (simp add: array_def load_byte_Inr_iff)
  then show "bindE (load_byte M t (elem_at inp i)) (\<lambda>x. write_f32 M fp (of_nat i) (f32_mul (f32_of_int (sint x)) scale) t) =
      write_f32 M fp (of_nat i) (f32_mul (f32_of_int (sint (X i))) scale) t" by simp
qed

lemma quant_bytes:
  assumes fp: "array M m fp (4 * n) (float_bytes F)" and out: "array_room M m out n" "apart fp (4 * n) out n"
    and q: "\<And>i. i < n \<Longrightarrow> quant_elem scale (F i) = Inr (Y i)"
  shows "succeeds (shen_quant_fp32_to_int8 M fp out (int n) scale m) (\<lambda>t. wrote M m t {..<n} (elem_at out) Y)"
  unfolding shen_quant_fp32_to_int8_def nat_int
proof (rule fill_in_order [OF array_region [OF out(1)]])
  fix i t assume i: "i < n" and w: "wrote M m t {..<i} (elem_at out) Y"
  have "apart fp (4 * n) out i" using out(2) i unfolding apart_def by simp
  then have "floats M t fp n F" by (intro floats_of_bytes array_kept [OF w _ fp])
  then show "bindE (read_f32 M t fp (of_nat i)) (\<lambda>x. bindE (quant_elem scale x) (\<lambda>v. store_byte M t (elem_at out i) v)) =
      store_byte M t (elem_at out i) (Y i)" using i by (simp add: floats_def q)
qed

lemma dequant_then_quant:
  assumes inp: "array M m inp n X" and fp: "array_room M m fp (4 * n)" "apart inp n fp (4 * n)"
    and out: "array_room M m out n" "apart fp (4 * n) out n"
    and s: "f32_finite scale" "2 powi (-100) \<le> \<bar>f32_rat scale\<bar>" "\<bar>f32_rat scale\<bar> \<le> 2 powi 100"
  shows "succeeds (shen_dequant_int8_to_fp32 M inp fp (int n) scale m)
    (\<lambda>t. succeeds (shen_quant_fp32_to_int8 M fp out (int n) scale t) (\<lambda>u. array M u out n X))"
proof (rule succeeds_mono [OF dequant_floats [OF inp fp]])
  fix t assume w: "wrote M m t {..<4 * n} (elem_at fp) (float_bytes (\<lambda>i. f32_mul (f32_of_int (sint (X i))) scale))"
  have "array_room M t out n" using out(1) w by (simp add: array_room_def wrote_def)
  then have "succeeds (shen_quant_fp32_to_int8 M fp out (int n) scale t) (\<lambda>u. wrote M t u {..<n} (elem_at out) X)"
    by (rule quant_bytes [OF array_wrote [OF w] _ out(2)]) (rule quant_dequant [OF s])
  then show "succeeds (shen_quant_fp32_to_int8 M fp out (int n) scale t) (\<lambda>u. array M u out n X)"
    by (rule succeeds_mono) (rule array_wrote)
qed

end
