(* ===== verification/Yolo_Preprocess.thy ===== *)
theory Yolo_Preprocess
  imports Yolo_Ops
begin

text \<open>
  Preparing an image for the detection network (\<open>shen_yolov11n_preprocess.h\<close>): the letterbox that fits
  an image of any size into the square input, by the nearest pixel or by bilinear interpolation, and
  the exchange of the colour channels with the quantisation to \<open>int8_t\<close>.
\<close>

section \<open>Constants\<close>

definition INPUT_H :: int where "INPUT_H = 640"
definition INPUT_W :: int where "INPUT_W = 640"
definition INPUT_C :: int where "INPUT_C = 3"
definition LETTERBOX_PAD_VALUE :: u8 where "LETTERBOX_PAD_VALUE = 114"

lemmas input_defs = INPUT_H_def INPUT_W_def INPUT_C_def

text \<open>\<open>fminf\<close> of the C library: a NaN is ignored.\<close>

definition f32_min :: "f32 \<Rightarrow> f32 \<Rightarrow> f32" where
  "f32_min a b = (if f32_decode a = FNaN then b else if f32_decode b = FNaN then a else if f32_lt b a then b else a)"

definition letterbox_scale :: "int \<Rightarrow> int \<Rightarrow> f32" where
  "letterbox_scale orig_w orig_h =
     f32_min (f32_div (f32_of_int INPUT_H) (f32_of_int orig_h)) (f32_div (f32_of_int INPUT_W) (f32_of_int orig_w))"

text \<open>The results that the functions return through pointers.\<close>

definition letterbox_return :: "'m mmu \<Rightarrow> u64 \<Rightarrow> f32 \<Rightarrow> u64 \<Rightarrow> int \<Rightarrow> u64 \<Rightarrow> int \<Rightarrow> 'm \<Rightarrow> 'm res" where
  "letterbox_return M scale_out scale pad_w_out pad_w pad_h_out pad_h m =
     bindE (write_to_dram M scale_out scale m) (\<lambda>m.
     bindE (write_to_dram M pad_w_out (word_of_int pad_w :: 32 word) m)
       (write_to_dram M pad_h_out (word_of_int pad_h :: 32 word)))"

section \<open>The nearest pixel\<close>

text \<open>The source coordinate of a target coordinate, cut off at the last row or column.\<close>

definition nearest_src :: "f32 \<Rightarrow> int \<Rightarrow> int \<Rightarrow> int res" where
  "nearest_src scale orig x =
     bindE (f32_to_sint 32 (f32_div (f32_of_int x) scale)) (\<lambda>s. Inr (if orig \<le> s then orig - 1 else s))"

definition copy_pixel :: "'m mmu \<Rightarrow> u64 \<Rightarrow> u64 \<Rightarrow> int \<Rightarrow> int \<Rightarrow> 'm \<Rightarrow> 'm res" where
  "copy_pixel M src_bgr dst_bgr dst_idx src_idx m =
     forE 3 (\<lambda>c m. bindE (load_byte M m (src_bgr + off (src_idx + int c))) (\<lambda>b.
       store_byte M m (dst_bgr + off (dst_idx + int c)) b)) m"

definition shen_letterbox :: "'m mmu \<Rightarrow> u64 \<Rightarrow> u64 \<Rightarrow> int \<Rightarrow> int \<Rightarrow> u64 \<Rightarrow> u64 \<Rightarrow> u64 \<Rightarrow> 'm \<Rightarrow> 'm res" where
  "shen_letterbox M src_bgr dst_bgr orig_w orig_h scale_out pad_w_out pad_h_out m =
     (let scale = letterbox_scale orig_w orig_h in
      bindE (f32_to_sint 32 (f32_mul (f32_of_int orig_w) scale)) (\<lambda>new_w.
      bindE (f32_to_sint 32 (f32_mul (f32_of_int orig_h) scale)) (\<lambda>new_h.
      let pad_w = trunc_div (INPUT_W - new_w) 2; pad_h = trunc_div (INPUT_H - new_h) 2 in
      bindE (memset M dst_bgr LETTERBOX_PAD_VALUE (of_int (INPUT_H * INPUT_W * INPUT_C)) m) (\<lambda>m.
      bindE (forE (nat new_h) (\<lambda>y m.
        bindE (nearest_src scale orig_h (int y)) (\<lambda>src_y.
        forE (nat new_w) (\<lambda>x m.
          bindE (nearest_src scale orig_w (int x)) (\<lambda>src_x.
          copy_pixel M src_bgr dst_bgr (((pad_h + int y) * INPUT_W + (pad_w + int x)) * INPUT_C)
            ((src_y * orig_w + src_x) * INPUT_C) m)) m)) m)
      (letterbox_return M scale_out scale pad_w_out pad_w pad_h_out pad_h)))))"

section \<open>Bilinear interpolation\<close>

text \<open>
  The two source coordinates around a target coordinate and the weight of the second: \<open>y0\<close>, \<open>y1\<close>
  and \<open>fy\<close> of the source, and the same for columns.
\<close>

definition bilinear_src :: "f32 \<Rightarrow> int \<Rightarrow> int \<Rightarrow> (int \<times> int \<times> f32) res" where
  "bilinear_src ratio orig y =
     (let sy = f32_sub (f32_mul (f32_add (f32_of_int y) (f32_dec 5 1)) ratio) (f32_dec 5 1);
          sy = (if f32_lt sy 0 then 0 else sy) in
      bindE (f32_to_sint 32 sy) (\<lambda>y0.
      let y1 = to_i32 (y0 + 1); fy = f32_sub sy (f32_of_int y0) in
      Inr (if orig \<le> y0 then orig - 1 else y0, if orig \<le> y1 then orig - 1 else y1, fy)))"

definition bilinear_elem :: "f32 \<Rightarrow> f32 \<Rightarrow> u8 \<Rightarrow> u8 \<Rightarrow> u8 \<Rightarrow> u8 \<Rightarrow> u8 res" where
  "bilinear_elem fx fy v00 v10 v01 v11 =
     (let one = f32_of_int 1;
          w00 = f32_mul (f32_sub one fx) (f32_sub one fy); w10 = f32_mul fx (f32_sub one fy);
          w01 = f32_mul (f32_sub one fx) fy; w11 = f32_mul fx fy;
          val = f32_add (f32_add (f32_add (f32_mul w00 (f32_of_int (uint v00))) (f32_mul w10 (f32_of_int (uint v10))))
            (f32_mul w01 (f32_of_int (uint v01)))) (f32_mul w11 (f32_of_int (uint v11))) in
      bindE (f32_to_sint 32 (f32_add val (f32_dec 5 1))) (\<lambda>iv.
      Inr (word_of_int (if iv < 0 then 0 else if 255 < iv then 255 else iv))))"

definition bilinear_pixel :: "'m mmu \<Rightarrow> u64 \<Rightarrow> u64 \<Rightarrow> int \<Rightarrow> int \<times> int \<times> f32 \<Rightarrow> int \<times> int \<times> f32 \<Rightarrow> int \<Rightarrow> 'm \<Rightarrow> 'm res" where
  "bilinear_pixel M src_bgr dst_bgr orig_w = (\<lambda>(y0, y1, fy) (x0, x1, fx) di m.
     let i00 = (y0 * orig_w + x0) * 3; i10 = (y0 * orig_w + x1) * 3;
         i01 = (y1 * orig_w + x0) * 3; i11 = (y1 * orig_w + x1) * 3 in
     forE 3 (\<lambda>c m.
       bindE (load_byte M m (src_bgr + off (i00 + int c))) (\<lambda>v00.
       bindE (load_byte M m (src_bgr + off (i10 + int c))) (\<lambda>v10.
       bindE (load_byte M m (src_bgr + off (i01 + int c))) (\<lambda>v01.
       bindE (load_byte M m (src_bgr + off (i11 + int c))) (\<lambda>v11.
       bindE (bilinear_elem fx fy v00 v10 v01 v11) (\<lambda>b.
       store_byte M m (dst_bgr + off (di + int c)) b)))))) m)"

definition shen_letterbox_bilinear :: "'m mmu \<Rightarrow> u64 \<Rightarrow> u64 \<Rightarrow> int \<Rightarrow> int \<Rightarrow> u64 \<Rightarrow> u64 \<Rightarrow> u64 \<Rightarrow> 'm \<Rightarrow> 'm res" where
  "shen_letterbox_bilinear M src_bgr dst_bgr orig_w orig_h scale_out pad_w_out pad_h_out m =
     (let scale = letterbox_scale orig_w orig_h; half = f32_dec 5 1; two = f32_of_int 2 in
      bindE (f32_to_sint 32 (f32_add (f32_mul (f32_of_int orig_w) scale) half)) (\<lambda>new_w.
      bindE (f32_to_sint 32 (f32_add (f32_mul (f32_of_int orig_h) scale) half)) (\<lambda>new_h.
      let dw = f32_div (f32_of_int (INPUT_W - new_w)) two; dh = f32_div (f32_of_int (INPUT_H - new_h)) two in
      bindE (f32_to_sint 32 (f32_add dh (f32_dec 4 1))) (\<lambda>pad_top.
      bindE (f32_to_sint 32 (f32_add dw (f32_dec 4 1))) (\<lambda>pad_left.
      bindE (memset M dst_bgr LETTERBOX_PAD_VALUE (of_int (INPUT_H * INPUT_W * INPUT_C)) m) (\<lambda>m.
      let x_ratio = f32_div (f32_of_int orig_w) (f32_of_int new_w);
          y_ratio = f32_div (f32_of_int orig_h) (f32_of_int new_h) in
      bindE (forE (nat new_h) (\<lambda>y m.
        bindE (bilinear_src y_ratio orig_h (int y)) (\<lambda>ys.
        forE (nat new_w) (\<lambda>x m.
          bindE (bilinear_src x_ratio orig_w (int x)) (\<lambda>xs.
          bilinear_pixel M src_bgr dst_bgr orig_w ys xs
            (((pad_top + int y) * INPUT_W + (pad_left + int x)) * 3) m)) m)) m)
      (letterbox_return M scale_out scale pad_w_out pad_left pad_h_out pad_top)))))))"

section \<open>Quantisation\<close>

definition quant_pixel :: "u8 \<Rightarrow> elem_t" where
  "quant_pixel v = word_of_int ((uint v * 127 + 127) div 255)"

definition shen_preprocess_to_int8_nhwc :: "'m mmu \<Rightarrow> u64 \<Rightarrow> u64 \<Rightarrow> 'm \<Rightarrow> 'm res" where
  "shen_preprocess_to_int8_nhwc M letterboxed_bgr output m =
     forE (nat INPUT_H) (\<lambda>h. forE (nat INPUT_W) (\<lambda>w m.
       let i = int h * INPUT_W + int w; out = output + off (i * INPUT_C) in
       bindE (load_byte M m (letterboxed_bgr + off (i * 3 + 0))) (\<lambda>b.
       bindE (load_byte M m (letterboxed_bgr + off (i * 3 + 1))) (\<lambda>g.
       bindE (load_byte M m (letterboxed_bgr + off (i * 3 + 2))) (\<lambda>r.
       bindE (store_byte M m out (quant_pixel r)) (\<lambda>m.
       bindE (store_byte M m (out + 1) (quant_pixel g)) (\<lambda>m.
       store_byte M m (out + 2) (quant_pixel b)))))))) m"

end
