(* ===== verification/Yolo_Image_Correct.thy ===== *)
theory Yolo_Image_Correct
  imports Yolo_Preprocess Tensors Float_Error
begin

text \<open>
  Preparing an image: the quantisation of a pixel is the nearest integer, and the letterbox reads only the image and
  writes only the canvas.
\<close>

section \<open>Quantisation\<close>

lemma quant_pixel_nearest: "sint (quant_pixel v) = rhe (127 * of_int (uint v) / 255)" "0 \<le> sint (quant_pixel v)"
proof -
  define n where "n = uint v * 127"
  have v: "0 \<le> uint v" "uint v < 256" using unsigned_less [of v, where ?'a = int] by simp_all
  define k r where "k = n div 255" and "r = n mod 255"
  have n: "n + 127 = (r + 127) + k * 255" using div_mult_mod_eq [of n 255] by (simp add: k_def r_def)
  have r: "0 \<le> r" "r < 255" by (simp_all add: r_def)
  have "(r + 127) div 255 = (if 128 \<le> r then 1 else 0)" using r int_div_pos_eq [of "r + 127" 255 1 "r - 128"] by simp
  then have "(n + 127) div 255 = k + (if 128 \<le> r then 1 else 0)" unfolding n by simp
  moreover have "2 * r \<noteq> 255" by presburger
  then have "rne_div n 255 = k + (if 128 \<le> r then 1 else 0)" unfolding rne_div_def Let_def k_def [symmetric] r_def [symmetric] by simp
  ultimately have "(n + 127) div 255 = rhe (of_int n / 255)" using rne_div_rhe [of 255 n] by simp
  moreover have "0 \<le> (n + 127) div 255" "(n + 127) div 255 \<le> 127" using v zdiv_mono1 [of 0 "n + 127" 255] zdiv_mono1 [of "n + 127" "255 * 128 - 1" 255] by (simp_all add: n_def)
  then have "sint (quant_pixel v) = (n + 127) div 255" by (simp add: quant_pixel_def n_def signed_of_int signed_take_bit_int_eq_self)
  ultimately show "sint (quant_pixel v) = rhe (127 * of_int (uint v) / 255)" "0 \<le> sint (quant_pixel v)"
    using \<open>0 \<le> (n + 127) div 255\<close> by (simp_all add: n_def mult.commute)
qed

lemma preprocess:
  assumes inp: "tensor M m inp (640 * 640) 3 X" and out: "room M m out (640 * 640) 3" "apart inp (640 * 640 * 3) out (640 * 640 * 3)"
  shows "succeeds (shen_preprocess_to_int8_nhwc M inp out m)
    (\<lambda>t. wrote M m t (elems (640 * 640) 3) (pixel out 3) (\<lambda>(s, c). quant_pixel (X s (2 - c))))"
proof -
  let ?W = "\<lambda>(s, c). quant_pixel (X s (2 - c))"
  let ?F = "filling M m (elems (640 * 640) 3) (pixel out 3) ?W"
  note r = room_region [OF out(1)]
  have "succeeds (shen_preprocess_to_int8_nhwc M inp out m) (?F (\<Union>y < 640. \<Union>x < (640 :: nat). {y * 640 + x} \<times> {..<3}))"
    unfolding shen_preprocess_to_int8_nhwc_def input_defs Let_def nat_numeral
  proof (rule forE_gather, simp, rule forE_gather_from, assumption)
    fix y x :: nat and S t assume yx: "y < 640" "x < 640" and f: "?F S t"
    define s where "s = y * 640 + x"
    have s: "s < 640 * 640" using index_bound [OF yx] by (simp add: s_def)
    have i: "int y * 640 + int x = int s" by (simp add: s_def)
    have o: "off (int s * 3 + int c) = of_nat (s * 3 + c)" if "c < 3" for c using s that by (intro off_index) simp_all
    have ld: "load_byte M t (inp + off (int s * 3 + int c)) = Inr (X s c)" if "c < 3" for c
    proof -
      have "wrote M m t S (pixel out 3) ?W" "S \<subseteq> elems (640 * 640) 3" using f unfolding filling_def by blast+
      then have "tensor M t inp (640 * 640) 3 X" by (rule tensor_kept [OF _ _ out(2) inp])
      then show ?thesis unfolding o [OF that] by (rule tensor_load) (use s that in simp_all)
    qed
    have st: "succeeds (store_byte M u a v) (?F (R \<union> {(s, c)}))"
      if "?F R u" "c < 3" "a = pixel out 3 (s, c)" "v = quant_pixel (X s (2 - c))" for R u c a v
      using filling_store [OF r _ that(1), of "(s, c)"] s that(2-) by simp
    have a: "out + off (int s * 3) = pixel out 3 (s, 0)" "out + off (int s * 3) + 1 = pixel out 3 (s, 1)" "out + off (int s * 3) + 2 = pixel out 3 (s, 2)"
      using o [of 0] by (simp_all add: pixel_def)
    have e: "S \<union> {s} \<times> {..<3} = S \<union> {(s, 0)} \<union> {(s, 1)} \<union> {(s, 2)}" by (auto simp: lessThan_Suc numeral_3_eq_3)
    have l: "load_byte M t (inp + off (int s * 3 + 0)) = Inr (X s 0)" "load_byte M t (inp + off (int s * 3 + 1)) = Inr (X s 1)"
      "load_byte M t (inp + off (int s * 3 + 2)) = Inr (X s 2)"
      using ld [of 0] ld [of 1] ld [of 2] by simp_all
    have 1: "succeeds (store_byte M u (out + off (int s * 3)) (quant_pixel (X s 2))) (?F (R \<union> {(s, 0)}))" if "?F R u" for R u
      by (rule st [OF that]) (simp_all add: a)
    have 2: "succeeds (store_byte M u (out + off (int s * 3) + 1) (quant_pixel (X s 1))) (?F (R \<union> {(s, 1)}))" if "?F R u" for R u
      by (rule st [OF that]) (simp_all add: a(2))
    have 3: "succeeds (store_byte M u (out + off (int s * 3) + 2) (quant_pixel (X s 0))) (?F (R \<union> {(s, 2)}))" if "?F R u" for R u
      by (rule st [OF that]) (simp_all add: a(3))
    show "succeeds (bindE (load_byte M t (inp + off ((int y * 640 + int x) * 3 + 0))) (\<lambda>b.
        bindE (load_byte M t (inp + off ((int y * 640 + int x) * 3 + 1))) (\<lambda>g.
        bindE (load_byte M t (inp + off ((int y * 640 + int x) * 3 + 2))) (\<lambda>r.
        bindE (store_byte M t (out + off ((int y * 640 + int x) * 3)) (quant_pixel r)) (\<lambda>m.
        bindE (store_byte M m (out + off ((int y * 640 + int x) * 3) + 1) (quant_pixel g)) (\<lambda>m.
        store_byte M m (out + off ((int y * 640 + int x) * 3) + 2) (quant_pixel b)))))))
      (?F (S \<union> {y * 640 + x} \<times> {..<3}))"
      unfolding i s_def [symmetric] e l bindE.simps succeeds_bindE
      by (rule succeeds_mono [OF 1 [OF f]], erule succeeds_mono [OF 2], erule 3)
  qed
  moreover have "(\<Union>y < 640. \<Union>x < 640. {y * 640 + x} \<times> {..<3}) = (\<Union>y < 640. \<Union>x < (640 :: nat). {y * 640 + x}) \<times> {..<(3 :: nat)}" by blast
  then have "(\<Union>y < 640. \<Union>x < 640. {y * 640 + x} \<times> {..<3}) = elems (640 * 640) 3" by (simp only: index_cover)
  ultimately show ?thesis by (rule filling_done)
qed

end
