(* ===== verification/Yolo_Box_Correct.thy ===== *)
theory Yolo_Box_Correct
  imports Yolo_Image_Correct
begin

text \<open>
  The letterbox of \<open>shen_yolov11n_preprocess.h\<close>: bounds of the scale and of the rounded sizes, so that the scaled
  image stays on the canvas and every pixel of it is read inside the image, and what the function leaves in memory.
\<close>

section \<open>The scale of the letterbox\<close>

lemma f32_min_rat:
  assumes "f32_finite a" "f32_finite b"
  shows "f32_finite (f32_min a b)" "f32_rat (f32_min a b) = min (f32_rat a) (f32_rat b)"
proof -
  have n: "f32_decode a \<noteq> FNaN" "f32_decode b \<noteq> FNaN" using assms by (auto simp: f32_finite_def)
  show "f32_finite (f32_min a b)" "f32_rat (f32_min a b) = min (f32_rat a) (f32_rat b)"
    using assms n f32_lt_rat [OF assms(2,1)] by (auto simp: f32_min_def min_def)
qed

text \<open>The sizes for which the letterbox is analysed.\<close>

definition image_dim :: "nat \<Rightarrow> bool" where "image_dim n \<longleftrightarrow> 0 < n \<and> n \<le> 2 ^ 20"

lemma canvas_ratio:
  assumes "image_dim n"
  shows "rounds_to (640 / of_nat n) (f32_div (f32_of_int 640) (f32_of_int (int n)))"
    and "1 / 2 ^ 11 < (640 / of_nat n :: rat)" "(640 / of_nat n :: rat) \<le> 640"
proof -
  have n: "1 \<le> (of_nat n :: rat)" "(of_nat n :: rat) \<le> 2 ^ 20" using assms by (simp_all add: image_dim_def)
  then show lo: "1 / 2 ^ 11 < (640 / of_nat n :: rat)" and hi: "(640 / of_nat n :: rat) \<le> 640" by (simp_all add: field_simps)
  have e: "f32_finite (f32_of_int 640)" "f32_rat (f32_of_int 640) = 640" "f32_finite (f32_of_int (int n))" "f32_rat (f32_of_int (int n)) = of_nat n"
    using f32_of_int_exact [of 640] f32_of_int_exact [of "int n"] assms by (simp_all add: image_dim_def)
  have "normal (640 / of_nat n)" by (rule normal_moderate) (use lo hi n in auto)
  then show "rounds_to (640 / of_nat n) (f32_div (f32_of_int 640) (f32_of_int (int n)))"
    using f32_div_near [OF e(1,3)] e n by simp
qed

lemma rounds_to_bounds: "rounds_to x w \<Longrightarrow> 0 \<le> x \<Longrightarrow> x * (1 - 1 / 2 ^ 24) \<le> f32_rat w \<and> f32_rat w \<le> x * (1 + 1 / 2 ^ 24)"
proof -
  assume "rounds_to x w" "0 \<le> x"
  then have "\<bar>f32_rat w - x\<bar> \<le> x / 2 ^ 24" by (simp add: rounds_to_def)
  moreover have "x * (1 - 1 / 2 ^ 24) = x - x / 2 ^ 24" "x * (1 + 1 / 2 ^ 24) = x + x / 2 ^ 24" by (simp_all add: algebra_simps)
  ultimately show ?thesis by (simp only: abs_diff_le_iff)
qed

lemma letterbox_scale_bounds:
  assumes "image_dim w" "image_dim h"
  defines "S \<equiv> f32_rat (letterbox_scale (int w) (int h))"
  shows "f32_finite (letterbox_scale (int w) (int h))" "1 / 2 ^ 12 < S" "S * of_nat w \<le> 640 * (1 + 1 / 2 ^ 24)" "S * of_nat h \<le> 640 * (1 + 1 / 2 ^ 24)"
proof -
  let ?f = "\<lambda>n. f32_div (f32_of_int 640) (f32_of_int (int n))"
  note W = canvas_ratio [OF assms(1)] and H = canvas_ratio [OF assms(2)]
  note bw = rounds_to_bounds [OF W(1)] and bh = rounds_to_bounds [OF H(1)]
  have fin: "f32_finite (?f w)" "f32_finite (?f h)" using W(1) H(1) by (simp_all add: rounds_to_def)
  have eq: "letterbox_scale (int w) (int h) = f32_min (?f h) (?f w)" by (simp add: letterbox_scale_def input_defs)
  show "f32_finite (letterbox_scale (int w) (int h))" unfolding eq by (rule f32_min_rat [OF fin(2,1)])
  have S: "S = min (f32_rat (?f h)) (f32_rat (?f w))" unfolding S_def eq by (rule f32_min_rat [OF fin(2,1)])
  have lo: "1 / 2 ^ 12 < x * (1 - 1 / 2 ^ 24)" if "1 / 2 ^ 11 < x" for x :: rat using that by simp
  have "640 / of_nat w * (1 - 1 / 2 ^ 24) \<le> f32_rat (?f w)" "640 / of_nat h * (1 - 1 / 2 ^ 24) \<le> f32_rat (?f h)" using bw bh by simp_all
  then show "1 / 2 ^ 12 < S" unfolding S min_less_iff_conj using lo [OF W(2)] lo [OF H(2)] by linarith
  have pos: "0 < (of_nat w :: rat)" "0 < (of_nat h :: rat)" using assms(1,2) by (simp_all add: image_dim_def)
  have "S \<le> f32_rat (?f w)" "S \<le> f32_rat (?f h)" unfolding S by simp_all
  moreover have "f32_rat (?f w) \<le> 640 / of_nat w * (1 + 1 / 2 ^ 24)" "f32_rat (?f h) \<le> 640 / of_nat h * (1 + 1 / 2 ^ 24)" using bw bh by simp_all
  ultimately have "S \<le> 640 / of_nat w * (1 + 1 / 2 ^ 24)" "S \<le> 640 / of_nat h * (1 + 1 / 2 ^ 24)" by linarith+
  then show "S * of_nat w \<le> 640 * (1 + 1 / 2 ^ 24)" "S * of_nat h \<le> 640 * (1 + 1 / 2 ^ 24)" using pos by (simp_all add: field_simps)
qed

text \<open>The scaled image fits the canvas.\<close>

lemma letterbox_fits:
  assumes "f32_finite s" "1 / 2 ^ 12 < f32_rat s" "image_dim n" "f32_rat s * of_nat n \<le> 640 * (1 + 1 / 2 ^ 24)"
  obtains k where "f32_to_sint 32 (f32_mul (f32_of_int (int n)) s) = Inr (int k)" "k \<le> 640"
proof -
  define x where "x = of_nat n * f32_rat s"
  have e: "f32_finite (f32_of_int (int n))" "f32_rat (f32_of_int (int n)) = of_nat n"
    using f32_of_int_exact [of "int n"] assms by (simp_all add: image_dim_def)
  have "1 \<le> (of_nat n :: rat)" using assms(3) by (simp add: image_dim_def)
  then have "1 * f32_rat s \<le> x" unfolding x_def by (rule mult_right_mono) (use assms(2) in simp)
  then have "1 / 2 ^ 12 < x" using assms(2) by linarith
  moreover have "x \<le> 640 * (1 + 1 / 2 ^ 24)" using assms(4) unfolding x_def by (simp only: mult.commute)
  ultimately have x: "1 / 2 ^ 12 < x" "x \<le> 640 * (1 + 1 / 2 ^ 24)" by blast+
  have "normal x" by (rule normal_moderate) (use x in auto)
  then have r: "rounds_to x (f32_mul (f32_of_int (int n)) s)" using f32_mul_near [OF e(1) assms(1)] by (simp add: e x_def)
  define y where "y = f32_rat (f32_mul (f32_of_int (int n)) s)"
  have y: "0 \<le> y" "y < 641" using rounds_to_bounds [OF r] x by (auto simp: y_def)
  then have t: "rat_trunc y = \<lfloor>y\<rfloor>" "0 \<le> \<lfloor>y\<rfloor>" "\<lfloor>y\<rfloor> \<le> 640" by (simp_all add: rat_trunc_def floor_le_iff)
  have "f32_to_sint 32 (f32_mul (f32_of_int (int n)) s) = Inr (int (nat \<lfloor>y\<rfloor>))"
    using r t by (simp add: f32_to_sint_rat rounds_to_def y_def [symmetric])
  then show ?thesis by (rule that) (use t y in \<open>simp add: nat_le_iff floor_le_iff\<close>)
qed

text \<open>A pixel of the canvas has its source inside the image.\<close>

lemma nearest_inside:
  assumes "f32_finite s" "1 / 2 ^ 12 < f32_rat s" "f32_rat s \<le> 641" "x \<le> 640" "0 < n"
  obtains k where "nearest_src s (int n) (int x) = Inr (int k)" "k < n"
proof -
  define q where "q = of_nat x / f32_rat s"
  have e: "f32_finite (f32_of_int (int x))" "f32_rat (f32_of_int (int x)) = of_nat x"
    using f32_of_int_exact [of "int x"] assms by simp_all
  have X: "x = 0 \<or> 1 \<le> (of_nat x :: rat)" "(of_nat x :: rat) \<le> 640" using assms(4) by auto
  have "q = 0 \<or> 1 / 641 \<le> q" "0 \<le> q" "q \<le> 640 * 2 ^ 12" using X assms(2,3) by (auto simp: q_def field_simps)
  then have "normal q" "0 \<le> q" "q \<le> 640 * 2 ^ 12" by (auto intro!: normal_moderate)
  then have r: "rounds_to q (f32_div (f32_of_int (int x)) s)" using f32_div_near [OF e(1) assms(1)] assms(2) by (simp add: e q_def)
  define y where "y = f32_rat (f32_div (f32_of_int (int x)) s)"
  have y: "0 \<le> y" "y < 2 ^ 30" using rounds_to_bounds [OF r \<open>0 \<le> q\<close>] \<open>0 \<le> q\<close> \<open>q \<le> 640 * 2 ^ 12\<close> by (auto simp: y_def)
  then have t: "rat_trunc y = \<lfloor>y\<rfloor>" "0 \<le> \<lfloor>y\<rfloor>" "\<lfloor>y\<rfloor> < 2 ^ 30" by (simp_all add: rat_trunc_def floor_less_iff)
  define k where "k = (if int n \<le> \<lfloor>y\<rfloor> then n - 1 else nat \<lfloor>y\<rfloor>)"
  have "nearest_src s (int n) (int x) = Inr (int k)"
    using r t assms(5) by (simp add: nearest_src_def f32_to_sint_rat rounds_to_def y_def [symmetric] k_def)
  then show ?thesis by (rule that) (use t assms(5) in \<open>auto simp: k_def\<close>)
qed

section \<open>The letterbox\<close>

text \<open>
  The canvas: the scaled image, \<open>nw\<close> by \<open>nh\<close> pixels in the middle, each pixel copied from the image, and
  the padding around it.
\<close>

definition boxed :: "nat \<Rightarrow> nat \<Rightarrow> nat \<Rightarrow> (nat \<Rightarrow> nat) \<Rightarrow> (nat \<Rightarrow> nat) \<Rightarrow> (nat \<Rightarrow> nat \<Rightarrow> u8) \<Rightarrow> nat \<Rightarrow> nat \<Rightarrow> u8" where
  "boxed w nw nh sx sy X s c =
     (let y = s div 640; x = s mod 640; ph = (640 - nh) div 2; pw = (640 - nw) div 2 in
      if ph \<le> y \<and> y < ph + nh \<and> pw \<le> x \<and> x < pw + nw then X (sy (y - ph) * w + sx (x - pw)) c else LETTERBOX_PAD_VALUE)"

lemma memset_wrote:
  assumes "array_room M m dst n"
  shows "succeeds (memset M dst v (of_nat n) m) (\<lambda>t. wrote M m t {..<n} (elem_at dst) (\<lambda>_. v))"
proof -
  have "n < 2 ^ 31" using assms by (simp add: array_room_def)
  then have "unat (of_nat n :: u64) = n" by (simp add: unat_of_nat take_bit_nat_eq_self)
  then show ?thesis unfolding memset_def by (simp only:) (rule fill_in_order [OF array_region [OF assms]], simp)
qed

text \<open>The loops over the scaled image, on a canvas that is already filled with the padding.\<close>

definition inner :: "nat \<Rightarrow> nat \<Rightarrow> nat set" where
  "inner nw nh = (\<Union>y < nh. \<Union>x < nw. {((640 - nh) div 2 + y) * 640 + ((640 - nw) div 2 + x)})"

lemma inner_index:
  fixes y x nh nw :: nat
  assumes "y < nh" "x < nw" "nh \<le> 640" "nw \<le> 640"
  defines "s \<equiv> ((640 - nh) div 2 + y) * 640 + ((640 - nw) div 2 + x)"
  shows "s < 640 * 640" "s div 640 = (640 - nh) div 2 + y" "s mod 640 = (640 - nw) div 2 + x"
proof -
  have b: "(640 - nh) div 2 + y < 640" "(640 - nw) div 2 + x < 640" using assms(1-4) by auto
  then show "s < 640 * 640" unfolding s_def by (rule index_bound)
  have "(a * 640 + c) div 640 = a" "(a * 640 + c) mod 640 = c" if "c < 640" for a c :: nat using that by simp_all
  from this [OF b(2)] show "s div 640 = (640 - nh) div 2 + y" "s mod 640 = (640 - nw) div 2 + x" unfolding s_def .
qed

lemma outside_inner: "s \<notin> inner nw nh \<Longrightarrow> boxed w nw nh sx sy X s c = LETTERBOX_PAD_VALUE"
proof (rule ccontr)
  assume s: "s \<notin> inner nw nh" and "boxed w nw nh sx sy X s c \<noteq> LETTERBOX_PAD_VALUE"
  then have i: "(640 - nh) div 2 \<le> s div 640" "s div 640 < (640 - nh) div 2 + nh" "(640 - nw) div 2 \<le> s mod 640" "s mod 640 < (640 - nw) div 2 + nw"
    unfolding boxed_def Let_def by (auto split: if_splits)
  define y x where "y = s div 640 - (640 - nh) div 2" and "x = s mod 640 - (640 - nw) div 2"
  have "y < nh" "x < nw" using i unfolding y_def x_def by linarith+
  moreover have "(640 - nh) div 2 + y = s div 640" "(640 - nw) div 2 + x = s mod 640" using i unfolding y_def x_def by linarith+
  then have "s = ((640 - nh) div 2 + y) * 640 + ((640 - nw) div 2 + x)" by (simp only: div_mult_mod_eq)
  ultimately have "y < nh" "x < nw" "s = ((640 - nh) div 2 + y) * 640 + ((640 - nw) div 2 + x)" .
  then show False using s unfolding inner_def by auto
qed

lemma letterbox_loops:
  fixes w h nw nh :: nat
  assumes src: "tensor M m src (h * w) 3 X" "h * w * 3 < 2 ^ 31" and dst: "room M m dst (640 * 640) 3" "apart src (h * w * 3) dst (640 * 640 * 3)"
    and n: "nw \<le> 640" "nh \<le> 640"
    and sx: "\<And>x. x < nw \<Longrightarrow> nearest_src scale (int w) (int x) = Inr (int (sx x)) \<and> sx x < w"
    and sy: "\<And>y. y < nh \<Longrightarrow> nearest_src scale (int h) (int y) = Inr (int (sy y)) \<and> sy y < h"
  shows "succeeds (forE nh (\<lambda>y m. bindE (nearest_src scale (int h) (int y)) (\<lambda>src_y. forE nw (\<lambda>x m.
      bindE (nearest_src scale (int w) (int x)) (\<lambda>src_x.
      copy_pixel M src dst (((int ((640 - nh) div 2) + int y) * 640 + (int ((640 - nw) div 2) + int x)) * 3) ((src_y * int w + src_x) * 3) m)) m)) m)
    (\<lambda>t. wrote M m t (inner nw nh \<times> {..<3}) (pixel dst 3) (\<lambda>(s, c). boxed w nw nh sx sy X s c))"
    (is "succeeds ?run _")
proof -
  let ?F = "filling M m (elems (640 * 640) 3) (pixel dst 3) (\<lambda>(s, c). boxed w nw nh sx sy X s c)"
  let ?s = "\<lambda>y x. ((640 - nh) div 2 + y) * 640 + ((640 - nw) div 2 + x)"
  have "succeeds ?run (?F (\<Union>y < nh. \<Union>x < nw. \<Union>c < 3. {(?s y x, c)}))"
  proof (rule forE_gather, simp)
    fix y S t assume y: "y < nh" and f: "?F S t"
    have "succeeds (forE nw (\<lambda>x m. bindE (nearest_src scale (int w) (int x)) (\<lambda>src_x.
        copy_pixel M src dst (((int ((640 - nh) div 2) + int y) * 640 + (int ((640 - nw) div 2) + int x)) * 3) ((int (sy y) * int w + src_x) * 3) m)) t)
      (?F (S \<union> (\<Union>x < nw. \<Union>c < 3. {(?s y x, c)})))"
    proof (rule forE_gather_from [of ?F, OF f])
      fix x S t assume x: "x < nw" and f: "?F S t"
      define s where "s = ?s y x"
      define k where "k = sy y * w + sx x"
      note ix = inner_index [OF y x n(2,1), folded s_def]
      have k: "k < h * w" unfolding k_def using sy [OF y] sx [OF x] by (intro index_bound) simp_all
      have i: "((int ((640 - nh) div 2) + int y) * 640 + (int ((640 - nw) div 2) + int x)) * 3 = int (s * 3)" "(int (sy y) * int w + int (sx x)) * 3 = int (k * 3)"
        unfolding s_def k_def by simp_all
      have W: "boxed w nw nh sx sy X s c = X k c" for c unfolding boxed_def Let_def ix(2,3) using x y by (simp add: k_def)
      have "succeeds (copy_pixel M src dst (int (s * 3)) (int (k * 3)) t) (?F (S \<union> (\<Union>c < 3. {(s, c)})))"
        unfolding copy_pixel_def
      proof (rule forE_gather_from [of ?F, OF f])
        fix c S t assume c: "c < (3 :: nat)" and f: "?F S t"
        have "k * 3 + c < h * w * 3" "s * 3 + c < 640 * 640 * 3" using index_bound [OF k c] index_bound [OF ix(1) c] .
        then have o: "off (int (k * 3) + int c) = of_nat (k * 3 + c)" "off (int (s * 3) + int c) = of_nat (s * 3 + c)" using src(2) by (intro off_index; simp)+
        have "wrote M m t S (pixel dst 3) (\<lambda>(s, c). boxed w nw nh sx sy X s c)" "S \<subseteq> elems (640 * 640) 3" using f unfolding filling_def by blast+
        then have "tensor M t src (h * w) 3 X" by (rule tensor_kept [OF _ _ dst(2) src(1)])
        from tensor_load [OF this k c] have ld: "load_byte M t (elem_at src (k * 3 + c)) = Inr (X k c)" .
        have "(s, c) \<in> elems (640 * 640) 3" using ix(1) c by simp
        from filling_store [OF room_region [OF dst(1)] this f]
        show "succeeds (bindE (load_byte M t (src + off (int (k * 3) + int c))) (\<lambda>b. store_byte M t (dst + off (int (s * 3) + int c)) b)) (?F (S \<union> {(s, c)}))"
          by (simp only: o ld bindE.simps pixel_def fst_conv snd_conv W prod.case)
      qed
      then show "succeeds (bindE (nearest_src scale (int w) (int x)) (\<lambda>src_x.
          copy_pixel M src dst (((int ((640 - nh) div 2) + int y) * 640 + (int ((640 - nw) div 2) + int x)) * 3) ((int (sy y) * int w + src_x) * 3) t))
        (?F (S \<union> (\<Union>c < 3. {(?s y x, c)})))"
        using sx [OF x] by (simp only: bindE.simps i s_def)
    qed
    then show "succeeds (bindE (nearest_src scale (int h) (int y)) (\<lambda>src_y. forE nw (\<lambda>x m. bindE (nearest_src scale (int w) (int x)) (\<lambda>src_x.
        copy_pixel M src dst (((int ((640 - nh) div 2) + int y) * 640 + (int ((640 - nw) div 2) + int x)) * 3) ((src_y * int w + src_x) * 3) m)) t))
      (?F (S \<union> (\<Union>x < nw. \<Union>c < 3. {(?s y x, c)})))"
      using sy [OF y] by (simp only: bindE.simps)
  qed
  then show ?thesis by (rule filling_done) (auto simp: inner_def)
qed


text \<open>The results returned through pointers are words of four bytes; they leave everything else alone.\<close>

abbreviation word_at :: "u64 \<Rightarrow> u64 set" where "word_at p \<equiv> elem_at p ` {..<4}"

lemma write_word:
  assumes "mmu_ok M" "\<forall>a \<in> word_at p. writable M m a"
  shows "succeeds (write_to_dram M p (v :: 32 word) m) (\<lambda>t. kept M m t (word_at p))"
proof -
  have "writable M m (p + of_nat i)" if "i < bytes_of TYPE(32)" for i using that assms(2) by (simp add: bytes_of_32)
  moreover have "bytes_of TYPE(32) \<le> (2 :: nat) ^ 64" by (simp add: bytes_of_32)
  ultimately have "succeeds (write_to_dram M p v m) (\<lambda>t. writable M t = writable M m \<and>
      (\<forall>i < bytes_of TYPE(32). mmu_load M t (p + of_nat i) = Some (byte_of v i)) \<and>
      (\<forall>a. (\<forall>i < bytes_of TYPE(32). a \<noteq> p + of_nat i) \<longrightarrow> mmu_load M t a = mmu_load M m a))"
    by (rule write_to_dram_spec [OF assms(1)])
  then show ?thesis by (rule succeeds_mono) (auto simp: kept_def bytes_of_32)
qed

lemma letterbox_return_keeps:
  assumes "mmu_ok M" "\<forall>a \<in> word_at so \<union> word_at wo \<union> word_at ho. writable M m a"
  shows "succeeds (letterbox_return M so s wo pw ho ph m) (\<lambda>t. kept M m t (word_at so \<union> word_at wo \<union> word_at ho))"
    (is "succeeds _ (\<lambda>t. kept M m t ?A)")
proof -
  have next_word: "succeeds (write_to_dram M p (v :: 32 word) t) (\<lambda>u. kept M m u ?A)" if "kept M m t ?A" "word_at p \<subseteq> ?A" for p v t
  proof -
    have "writable M t = writable M m" using that(1) by (simp add: kept_def)
    then have "writable M t a" if "a \<in> word_at p" for a
      using bspec [OF assms(2) subsetD [OF \<open>word_at p \<subseteq> ?A\<close> that]] by (simp only:)
    then have "\<forall>a \<in> word_at p. writable M t a" by (rule ballI)
    from write_word [OF assms(1) this] show ?thesis
      by (rule succeeds_mono) (rule kept_trans [OF that(1) _ subset_refl that(2)])
  qed
  have k: "kept M m m ?A" by (simp add: kept_def)
  have 3: "succeeds (write_to_dram M ho (word_of_int ph :: 32 word) t) (\<lambda>u. kept M m u ?A)" if "kept M m t ?A" for t
    by (rule next_word [OF that]) blast
  have 2: "succeeds (bindE (write_to_dram M wo (word_of_int pw :: 32 word) t) (write_to_dram M ho (word_of_int ph :: 32 word))) (\<lambda>u. kept M m u ?A)"
    if "kept M m t ?A" for t
    unfolding succeeds_bindE by (rule succeeds_mono [OF next_word [OF that] 3]) blast
  show ?thesis unfolding letterbox_return_def succeeds_bindE [of "write_to_dram M so s m"]
    by (rule succeeds_mono [OF next_word [OF k] 2]) blast
qed

lemma half_pad: "n \<le> 640 \<Longrightarrow> trunc_div (640 - int n) 2 = int ((640 - n) div 2)"
  by (simp add: trunc_div_def of_nat_diff zdiv_int)

text \<open>The canvas after the padding and the loops.\<close>

lemma canvas_done:
  assumes pad: "wrote M m m1 {..<640 * 640 * 3} (elem_at dst) (\<lambda>_. LETTERBOX_PAD_VALUE)"
    and img: "wrote M m1 m2 (inner nw nh \<times> {..<3}) (pixel dst 3) (\<lambda>(s, c). boxed w nw nh sx sy X s c)"
    and n: "nw \<le> 640" "nh \<le> 640"
  shows "wrote M m m2 (elems (640 * 640) 3) (pixel dst 3) (\<lambda>(s, c). boxed w nw nh sx sy X s c)"
proof -
  have i: "inner nw nh \<subseteq> {..<640 * 640}" unfolding inner_def using inner_index(1) n by fastforce
  have p: "wrote M m m1 (elems (640 * 640) 3) (pixel dst 3) (\<lambda>(s, c). LETTERBOX_PAD_VALUE)" using wrote_pixels [OF pad] .
  have inj: "inj_on (pixel dst 3) (elems (640 * 640) 3)" by (rule pixel_inj) simp
  show ?thesis unfolding wrote_def
  proof (intro conjI ballI allI impI)
    show "writable M m2 = writable M m" using p img by (simp add: wrote_def)
    show "mmu_load M m2 a = mmu_load M m a" if a: "a \<notin> pixel dst 3 ` elems (640 * 640) 3" for a
    proof -
      have "inner nw nh \<times> {..<3} \<subseteq> elems (640 * 640) 3" by (rule Sigma_mono [OF i subset_refl])
      then have "a \<notin> pixel dst 3 ` (inner nw nh \<times> {..<3})" using a by (meson image_mono subsetD)
      from wrote_outside [OF img this] show ?thesis using wrote_outside [OF p a] by (simp only:)
    qed
    fix k assume k: "k \<in> elems (640 * 640) 3"
    obtain s c where sc: "k = (s, c)" by fastforce
    show "mmu_load M m2 (pixel dst 3 k) = Some (case k of (s, c) \<Rightarrow> boxed w nw nh sx sy X s c)"
    proof (cases "s \<in> inner nw nh")
      case True
      then show ?thesis using img k by (simp add: wrote_def sc)
    next
      case False
      then have "pixel dst 3 k \<notin> pixel dst 3 ` (inner nw nh \<times> {..<3})" using inj_onD [OF inj _ k] i by (auto simp: sc)
      then have "mmu_load M m2 (pixel dst 3 k) = mmu_load M m1 (pixel dst 3 k)" by (rule wrote_outside [OF img])
      also have "\<dots> = Some LETTERBOX_PAD_VALUE" using p k by (simp add: wrote_def sc)
      finally show ?thesis using outside_inner [OF False] by (simp add: sc)
    qed
  qed
qed

text \<open>
  The whole function: the scaled image and where its pixels come from. The three words the results are returned in
  share no byte with the canvas.
\<close>

definition box_of :: "nat \<Rightarrow> nat \<Rightarrow> nat \<Rightarrow> nat \<Rightarrow> (nat \<Rightarrow> nat) \<Rightarrow> (nat \<Rightarrow> nat) \<Rightarrow> bool" where
  "box_of w h nw nh sx sy \<longleftrightarrow> (let scale = letterbox_scale (int w) (int h) in
     f32_to_sint 32 (f32_mul (f32_of_int (int w)) scale) = Inr (int nw) \<and> nw \<le> 640 \<and>
     f32_to_sint 32 (f32_mul (f32_of_int (int h)) scale) = Inr (int nh) \<and> nh \<le> 640 \<and>
     (\<forall>x < nw. nearest_src scale (int w) (int x) = Inr (int (sx x)) \<and> sx x < w) \<and>
     (\<forall>y < nh. nearest_src scale (int h) (int y) = Inr (int (sy y)) \<and> sy y < h))"

lemma box_exists:
  assumes "image_dim w" "image_dim h"
  obtains nw nh sx sy where "box_of w h nw nh sx sy"
proof -
  let ?s = "letterbox_scale (int w) (int h)"
  note S = letterbox_scale_bounds [OF assms]
  obtain nw where nw: "f32_to_sint 32 (f32_mul (f32_of_int (int w)) ?s) = Inr (int nw)" "nw \<le> 640" by (rule letterbox_fits [OF S(1,2) assms(1) S(3)])
  obtain nh where nh: "f32_to_sint 32 (f32_mul (f32_of_int (int h)) ?s) = Inr (int nh)" "nh \<le> 640" by (rule letterbox_fits [OF S(1,2) assms(2) S(4)])
  have pos: "0 < w" "0 < h" using assms by (simp_all add: image_dim_def)
  have "f32_rat ?s * 1 \<le> f32_rat ?s * of_nat w" by (rule mult_left_mono) (use S(2) pos in \<open>simp_all add: Suc_le_eq\<close>)
  also note S(3)
  finally have hi: "f32_rat ?s \<le> 641" by simp
  have "\<exists>k. nearest_src ?s (int w) (int x) = Inr (int k) \<and> k < w" if "x < nw" for x
    using nearest_inside [OF S(1,2) hi _ pos(1), of x] that nw(2) by (metis less_imp_le less_le_trans)
  moreover have "\<exists>k. nearest_src ?s (int h) (int y) = Inr (int k) \<and> k < h" if "y < nh" for y
    using nearest_inside [OF S(1,2) hi _ pos(2), of y] that nh(2) by (metis less_imp_le less_le_trans)
  ultimately obtain sx sy where "\<forall>x < nw. nearest_src ?s (int w) (int x) = Inr (int (sx x)) \<and> sx x < w"
      "\<forall>y < nh. nearest_src ?s (int h) (int y) = Inr (int (sy y)) \<and> sy y < h" by metis
  then show ?thesis using that nw nh unfolding box_of_def Let_def by blast
qed

lemma letterbox:
  assumes b: "box_of w h nw nh sx sy" and src: "tensor M m src (h * w) 3 X" "h * w * 3 < 2 ^ 31"
    and dst: "room M m dst (640 * 640) 3" "apart src (h * w * 3) dst (640 * 640 * 3)"
    and out: "\<forall>a \<in> word_at so \<union> word_at wo \<union> word_at ho. writable M m a \<and> a \<notin> elem_at dst ` {..<640 * 640 * 3}"
  shows "succeeds (shen_letterbox M src dst (int w) (int h) so wo ho m) (\<lambda>t. tensor M t dst (640 * 640) 3 (boxed w nw nh sx sy X) \<and>
    kept M m t (elem_at dst ` {..<640 * 640 * 3} \<union> (word_at so \<union> word_at wo \<union> word_at ho)))"
    (is "succeeds _ (\<lambda>t. _ \<and> kept M m t (?C \<union> ?O))")
proof -
  let ?s = "letterbox_scale (int w) (int h)" and ?b = "\<lambda>(s, c). boxed w nw nh sx sy X s c"
  note B = b [unfolded box_of_def Let_def]
  have ok: "mmu_ok M" using dst(1) by (simp add: room_def)
  have loops: "succeeds (forE nh (\<lambda>y m. bindE (nearest_src ?s (int h) (int y)) (\<lambda>src_y. forE nw (\<lambda>x m.
      bindE (nearest_src ?s (int w) (int x)) (\<lambda>src_x.
      copy_pixel M src dst (((int ((640 - nh) div 2) + int y) * 640 + (int ((640 - nw) div 2) + int x)) * 3) ((src_y * int w + src_x) * 3) m)) m)) m1)
    (\<lambda>t. wrote M m t (elems (640 * 640) 3) (pixel dst 3) ?b)"
    if m1: "wrote M m m1 {..<640 * 640 * 3} (elem_at dst) (\<lambda>_. LETTERBOX_PAD_VALUE)" for m1
  proof -
    have "tensor M m1 src (h * w) 3 X" by (rule tensor_kept [OF wrote_pixels [OF m1] subset_refl dst(2) src(1)])
    from letterbox_loops [OF this src(2) room_wrote [OF dst(1) m1] dst(2), of nw nh ?s sx sy] B have
      "succeeds (forE nh (\<lambda>y m. bindE (nearest_src ?s (int h) (int y)) (\<lambda>src_y. forE nw (\<lambda>x m.
        bindE (nearest_src ?s (int w) (int x)) (\<lambda>src_x.
        copy_pixel M src dst (((int ((640 - nh) div 2) + int y) * 640 + (int ((640 - nw) div 2) + int x)) * 3) ((src_y * int w + src_x) * 3) m)) m)) m1)
       (\<lambda>t. wrote M m1 t (inner nw nh \<times> {..<3}) (pixel dst 3) ?b)" by blast
    then show ?thesis by (rule succeeds_mono) (rule canvas_done [OF m1], use B in auto)
  qed
  have ret: "succeeds (letterbox_return M so ?s wo pw ho ph m2) (\<lambda>t. tensor M t dst (640 * 640) 3 (boxed w nw nh sx sy X) \<and> kept M m t (?C \<union> ?O))"
    if m2: "wrote M m m2 (elems (640 * 640) 3) (pixel dst 3) ?b" for m2 pw ph
  proof -
    have k: "kept M m m2 ?C" by (rule wrote_keeps [OF m2]) (simp only: pixel_image subset_refl)
    have "\<forall>a \<in> ?O. writable M m2 a" using out k by (simp add: kept_def)
    from letterbox_return_keeps [OF ok this, of ?s pw ph] show ?thesis
    proof (rule succeeds_mono)
      fix t assume t: "kept M m2 t ?O"
      have "extent dst (640 * 640 * 3) \<inter> ?O = {}" using out by blast
      then have "tensor M t dst (640 * 640) 3 (boxed w nw nh sx sy X)" using tensor_keeps [OF t] tensor_wrote [OF m2] by simp
      then show "tensor M t dst (640 * 640) 3 (boxed w nw nh sx sy X) \<and> kept M m t (?C \<union> ?O)"
        using kept_trans [OF k t Un_upper1 Un_upper2] by blast
    qed
  qed
  have room: "array_room M m dst (640 * 640 * 3)" by (rule room_array [OF dst(1)])
  have size: "of_int (640 * 640 * 3) = (of_nat (640 * 640 * 3) :: u64)" by simp
  have pads: "trunc_div (640 - int nw) 2 = int ((640 - nw) div 2)" "trunc_div (640 - int nh) 2 = int ((640 - nh) div 2)" using B by (simp_all add: half_pad)
  show ?thesis unfolding shen_letterbox_def Let_def input_defs
    using B by (simp only: bindE.simps nat_int pads size succeeds_bindE)
      (rule succeeds_mono [OF memset_wrote [OF room]], rule succeeds_mono [OF loops], assumption, rule ret)
qed

end
