(* ===== verification/Network_Properties.thy ===== *)
theory Network_Properties
  imports Driver_Example Nn_Layers_Correct Yolo_Sppf_Correct Yolo_Silu_Correct Yolo_Quant_Correct Yolo_Box_Correct
begin

text \<open>
  The properties of the network layer: the self-check of the matrix multiplications, a whole module on the
  accelerator, the operators on the processor and the preparation of an image. The examples run on a flat memory.
\<close>

section \<open>Examples\<close>

text \<open>A memory whose bytes below \<open>0x4000\<close> are one and zero from there on.\<close>

definition ones_and_zeros :: "u64 \<Rightarrow> u8" where
  "ones_and_zeros a = (if a < 0x4000 then 1 else 0)"

lemma tensor_ram: "tensor ram m p n ch (\<lambda>s c. m (pixel p ch (s, c)))"
  by (simp add: tensor_def ram_def)

lemma array_ram: "array ram m p n (\<lambda>i. m (elem_at p i))"
  by (simp add: array_def ram_def)

lemma room_ram: "n * ch < 2 ^ 31 \<Longrightarrow> room ram m p n ch"
  by (simp add: room_def ram_ok)

lemma array_room_ram: "n < 2 ^ 31 \<Longrightarrow> array_room ram m p n"
  by (simp add: array_room_def ram_ok)

lemma tensor_ram_at: "tensor ram m p n ch X \<Longrightarrow> s < n \<Longrightarrow> c < ch \<Longrightarrow> m (p + of_nat (s * ch + c)) = X s c"
  by (simp add: tensor_def ram_def pixel_def)

section \<open>Matrix multiplications that check themselves\<close>

text \<open>
  C6. A matrix multiplication that is asked to check itself (\<open>tiled_matmul_nn_auto\<close>) never ends the program: the
  product on the accelerator and the one on the processor are equal element by element, and both are the
  scaled product.
\<close>

theorem nn_check_succeeds:
  fixes s :: "'m sim"
  assumes a: "a = nn_args I J K A B D' C act scale rep" and mem: "mm_memory M a (mem s) P Q D W" "mm_memory M (a\<lparr>mm_C := gold\<rparr>) (mem s) P Q D W"
    and m: "mm_plain a" "dims_ok a" "0 < I" "0 < J" "0 < K" and ap: "cells_apart gold J C J (unat I) (unat J) (unat I) (unat J)" and s: "idle s"
  shows "\<exists>t. tiled_matmul_nn_auto M I J K A B D' C act scale rep TM_WS True gold s = Some (Inr t) \<and>
    (\<forall>i < unat I. \<forall>j < unat J. mmu_load M (mem t) (dram_cell C J (i, j)) = Some (W (i, j)) \<and> mmu_load M (mem t) (dram_cell gold J (i, j)) = Some (W (i, j)))"
  using matmul_nn_auto [OF a mem m ap s] by blast

definition example_nn :: "u64 \<Rightarrow> matmul_args" where
  "example_nn C = nn_args 20 18 40 0x1000 0x2000 0x4000 C ACT_RELU ACC_SCALE_IDENTITY False"

lemma example_nn_memory:
  assumes "C = 0x3000 \<or> C = 0x3400"
  shows "mm_memory ram (example_nn C) ones_and_fives (\<lambda>_ _. 1) (\<lambda>_ _. 1) (\<lambda>_ _. 5) (\<lambda>_. 45)"
proof -
  have C: "unat C = 0x3000 \<or> unat C = 0x3400" using assms by auto
  have c: "unat (dram_cell C 18 (i, j)) = unat C + i * 18 + j" if "i < 20" "j < 18" for i j
    using dram_cell_unat [of C i 18 j] that C by auto
  have nz: "dram_cell C 18 (i, j) \<noteq> 0" if "i < 20" "j < 18" for i j using c [OF that] C by auto
  have ap: "bias_apart (example_nn C)"
    unfolding bias_apart_def
  proof (intro allI impI notI)
    fix i j b assume "i < unat (mm_dim_I (example_nn C))" "j < unat (mm_dim_J (example_nn C))" "b < (4 :: nat)"
      and "mm_D (example_nn C) + of_nat i * bias_stride (example_nn C) + of_nat j * 4 + of_nat b \<in>
        dram_cell (mm_C (example_nn C)) (mm_stride_C (example_nn C)) ` ({..<unat (mm_dim_I (example_nn C))} \<times> {..<unat (mm_dim_J (example_nn C))})"
    then have "0x4000 + of_nat i * of_nat (4 * 18) + of_nat j * 4 + of_nat b \<in> dram_cell C 18 ` ({..<20} \<times> {..<18})" "i < 20" "j < 18" "b < 4"
      by (simp_all add: example_nn_def nn_args_def bias_stride_def)
    then show False using fives_bias(2) [of 18 20 18 i j b] c C by fastforce
  qed
  have out: "mm_out (example_nn C) 45 = Inr 45"
    by (simp add: mm_out_def mm_relu_def example_nn_def nn_args_def acc_scale_one apply_activation_def saturate_elem_def elem_t_max_def elem_t_min_def)
  have cs: "cells_apart C 18 0x1000 40 20 18 20 40" "cells_apart C 18 0x2000 18 20 18 40 18"
    using C by (intro cells_apart_below; auto)+
  show ?thesis
    unfolding mm_memory_def Let_def
    using ones_at [of "0x1000" 20 40 40] ones_at [of "0x2000" 40 18 18] target_at_ram [of 18 18 20 ones_and_fives C] cs ap nz fives_bias(1) [of 18 20 18] out
    by (simp add: example_nn_def nn_args_def ram_ok bias_stride_def ws_sum_def)
qed

theorem nn_check_succeeds_witness:
  "\<exists>t. tiled_matmul_nn_auto ram 20 18 40 0x1000 0x2000 0x4000 0x3000 ACT_RELU ACC_SCALE_IDENTITY False TM_WS True 0x3400 (ready ones_and_fives) = Some (Inr t) \<and>
    mem t 0x3000 = 45 \<and> mem t 0x3400 = 45"
proof -
  have p: "mm_plain (example_nn 0x3000)" "dims_ok (example_nn 0x3000)" "(0 :: u64) < 20" "(0 :: u64) < 18" "(0 :: u64) < 40"
    by (simp_all add: mm_plain_def dims_ok_def example_nn_def nn_args_def fitsI)
  have g: "mm_memory ram ((example_nn 0x3000)\<lparr>mm_C := 0x3400\<rparr>) ones_and_fives (\<lambda>_ _. 1) (\<lambda>_ _. 1) (\<lambda>_ _. 5) (\<lambda>_. 45)"
    using example_nn_memory [of "0x3400"] by (simp add: example_nn_def nn_args_def)
  have ap: "cells_apart 0x3400 18 0x3000 18 (unat (20 :: u64)) (unat (18 :: u64)) (unat (20 :: u64)) (unat (18 :: u64))"
    by (rule cells_apart_below) simp_all
  have idle: "idle (ready ones_and_fives)" by (simp add: idle_def ready_wf)
  obtain t where t: "tiled_matmul_nn_auto ram 20 18 40 0x1000 0x2000 0x4000 0x3000 ACT_RELU ACC_SCALE_IDENTITY False TM_WS True 0x3400 (ready ones_and_fives) = Some (Inr t)"
      "\<forall>i < unat (20 :: u64). \<forall>j < unat (18 :: u64). mmu_load ram (mem t) (dram_cell 0x3000 18 (i, j)) = Some 45 \<and> mmu_load ram (mem t) (dram_cell 0x3400 18 (i, j)) = Some 45"
    using nn_check_succeeds [OF example_nn_def _ _ p ap idle, where W = "\<lambda>_. 45"] example_nn_memory [of "0x3000"] g by (simp only: ready_fields) blast
  then show ?thesis by (force simp: ram_def dram_cell_def)
qed

section \<open>Patch matrices and pooling\<close>

text \<open>
  C39. \<open>im2col\<close>, for a tensor, and \<open>im2col_with_col2im\<close>, for the matrix of its pixels, write the matrix of patches: row \<open>r\<close>
  belongs to the \<open>r\<close>-th placement of the filter, batch by batch, and its column \<open>q\<close> to filter row, filter column and
  channel; the cell holds the element of the image that the filter covers there. Cells in the padding, and all
  other memory, keep their bytes.
\<close>

theorem im2col_builds_patches:
  fixes p :: ConvParams
  defines "n \<equiv> nat (cp_batch_size p)" and "h \<equiv> nat (cp_in_row_dim p)" and "w \<equiv> nat (cp_in_col_dim p)" and "ch \<equiv> nat (cp_in_channels p)"
  assumes "patch_params p" and "tensor M m inp (n * h * w) ch X" "n * h * w * ch < 2 ^ 31"
    and "room M m out (n * patch_rows p * patch_cols p) (patch_size p)" "apart inp (n * h * w * ch) out (n * patch_rows p * patch_cols p * patch_size p)"
  shows "(\<exists>t. im2col M (of_nat ch) (of_nat h) (of_nat w) (of_nat (patch_size p)) inp out p m = Inr t \<and> wrote M m t (patch_cells p) (pixel out (patch_size p)) (patch_value p X)) \<and>
    (\<exists>t. im2col_with_col2im M (of_nat ch) (of_nat (patch_size p)) inp out p m = Inr t \<and> wrote M m t (patch_cells p) (pixel out (patch_size p)) (patch_value p X))"
  using patch_matrix [OF assms(5) assms(6-9) [unfolded n_def h_def w_def ch_def]] unfolding succeeds_iff n_def h_def w_def ch_def by blast

definition example_layer :: ConvParams where
  "example_layer = \<lparr>cp_batch_size = 2, cp_in_row_dim = 5, cp_in_col_dim = 4, cp_out_row_dim = 5, cp_out_col_dim = 4, cp_kernel_size = 3,
     cp_in_channels = 3, cp_out_channels = 3, cp_in_stride = 3, cp_weight_stride = 3, cp_out_stride = 3, cp_stride = 1, cp_padding = 1,
     cp_bias = True, cp_depthwise = True, cp_n_patches = 40, cp_patch_size = 27, cp_output_scale = ACC_SCALE_IDENTITY, cp_res_scale = MVIN_SCALE_IDENTITY,
     cp_pool_size = 2, cp_pool_stride = 1, cp_pool_padding = 1, cp_out_dim_pooled = 4, cp_I = 40, cp_J = 3, cp_K = 27\<rparr>"

lemma example_layer_fields:
  "cp_batch_size example_layer = 2" "cp_in_row_dim example_layer = 5" "cp_in_col_dim example_layer = 4" "cp_kernel_size example_layer = 3"
  "cp_in_channels example_layer = 3" "cp_stride example_layer = 1" "cp_padding example_layer = 1"
  by (simp_all add: example_layer_def)

lemma example_patches: "patch_rows example_layer = 5" "patch_cols example_layer = 4" "patch_size example_layer = 27"
  by (simp_all add: patch_rows_def patch_cols_def patch_size_def example_layer_fields)

theorem im2col_builds_patches_witness:
  "(\<exists>t. im2col ram 3 5 4 27 0x1000 0x3000 example_layer ramp = Inr t \<and> t (0x3000 + (29 * 27 + 7)) = 79 \<and> t 0x3000 = 0) \<and>
    (\<exists>t. im2col_with_col2im ram 3 27 0x1000 0x3000 example_layer ramp = Inr t \<and> t (0x3000 + (29 * 27 + 7)) = 79 \<and> t 0x3000 = 0)"
proof -
  have sz: "nat (cp_batch_size example_layer) = 2" "nat (cp_in_row_dim example_layer) = 5" "nat (cp_in_col_dim example_layer) = 4" "nat (cp_in_channels example_layer) = 3"
    "patch_params example_layer" by (simp_all add: example_layer_fields patch_params_def)
  let ?W = "\<lambda>t. wrote ram ramp t (patch_cells example_layer) (pixel 0x3000 27) (patch_value example_layer (\<lambda>s c. ramp (pixel 0x1000 3 (s, c))))"
  have ap: "apart 0x1000 120 0x3000 1080" by (rule apart_below) simp_all
  have in_image: "(29, 7) \<in> patch_cells example_layer" and outside: "(0, 0) \<notin> patch_cells example_layer"
    unfolding patch_cells_def sz example_patches by (simp_all add: patch_elem_def example_patches example_layer_fields)
  have val: "patch_value example_layer (\<lambda>s c. ramp (pixel 0x1000 3 (s, c))) (29, 7) = 79"
    by (simp add: patch_value_def patch_elem_def example_patches example_layer_fields ramp_def pixel_def)
  have "pixel 0x3000 27 e \<noteq> 0x3000" if "e \<in> patch_cells example_layer" for e
  proof
    obtain r q where e: "e = (r, q)" by (cases e)
    have rq: "r < 40" "q < 27" using that by (simp_all add: e patch_cells_def sz example_patches)
    assume "pixel 0x3000 27 e = 0x3000"
    then have "(of_nat (r * 27 + q) :: u64) = 0" by (simp add: e pixel_def)
    moreover have "unat (of_nat (r * 27 + q) :: u64) = r * 27 + q" using rq by (simp add: unat_of_nat take_bit_nat_eq_self del: of_nat_add of_nat_mult)
    ultimately have "r * 27 + q = 0" by simp
    then show False using that outside by (simp add: e)
  qed
  then have out: "0x3000 \<notin> pixel 0x3000 27 ` patch_cells example_layer" by (metis imageE)
  have cells: "t (0x3000 + (29 * 27 + 7)) = 79 \<and> t 0x3000 = 0" if "?W t" for t
  proof -
    have "mmu_load ram t (pixel 0x3000 27 (29, 7)) = Some 79" "mmu_load ram t 0x3000 = mmu_load ram ramp 0x3000"
      using that in_image val out unfolding wrote_def by metis+
    then show ?thesis by (simp add: ram_def pixel_def ramp_def)
  qed
  have "(\<exists>t. im2col ram 3 5 4 27 0x1000 0x3000 example_layer ramp = Inr t \<and> ?W t) \<and> (\<exists>t. im2col_with_col2im ram 3 27 0x1000 0x3000 example_layer ramp = Inr t \<and> ?W t)"
    using im2col_builds_patches [OF sz(5), of ram ramp "0x1000" _ "0x3000", unfolded sz example_patches, OF tensor_ram _ room_ram] ap by simp
  then show ?thesis using cells by blast
qed

text \<open>
  C40. \<open>pool\<close> and \<open>pool_with_col2im\<close> write the maximum of each window, where the elements outside the image count as zero; a
  window that reaches into the padding thus never gives a negative value. Nothing else changes.
\<close>

theorem pool_takes_zero_padding:
  fixes p :: ConvParams and n ch oh ow :: nat
  defines "h \<equiv> nat (cp_out_row_dim p)" and "w \<equiv> nat (cp_out_col_dim p)"
  assumes "pool_params p oh ow" and "n < 2 ^ 31" "ch < 2 ^ 31" "oh < 2 ^ 31" "ow < 2 ^ 31" and "tensor M m inp (n * h * w) ch X"
    and "room M m out (n * oh * ow) ch" "apart inp (n * h * w * ch) out (n * oh * ow * ch)"
  shows "(\<exists>t. pool M (of_nat n) (of_nat ch) (of_nat h) (of_nat w) (of_nat oh) (of_nat ow) inp out p m = Inr t \<and>
      wrote M m t (elems (n * oh * ow) ch) (pixel out ch) (pool_result p oh ow X)) \<and>
    (\<exists>t. pool_with_col2im M (of_nat ch) (of_nat n) (of_nat ch) (of_nat oh) (of_nat ow) inp out p m = Inr t \<and>
      wrote M m t (elems (n * oh * ow) ch) (pixel out ch) (pool_result p oh ow X))"
  using pool_fills [OF assms(3-7) assms(8-10) [unfolded h_def w_def]] unfolding succeeds_iff h_def w_def by blast

theorem pool_takes_zero_padding_witness:
  "(\<exists>t. pool ram 2 3 5 4 6 5 0x1000 0x3000 example_layer (\<lambda>_. 0xFF) = Inr t \<and> t 0x3000 = 0 \<and> t (0x3000 + 18) = 0xFF) \<and>
    (\<exists>t. pool_with_col2im ram 3 2 3 6 5 0x1000 0x3000 example_layer (\<lambda>_. 0xFF) = Inr t \<and> t 0x3000 = 0 \<and> t (0x3000 + 18) = 0xFF)"
proof -
  have sz: "nat (cp_out_row_dim example_layer) = 5" "nat (cp_out_col_dim example_layer) = 4" "pool_params example_layer 6 5"
    by (simp_all add: example_layer_def pool_params_def)
  let ?R = "pool_result example_layer 6 5 (\<lambda>s c. 0xFF)"
  have iv: "{-1..<1 :: int} = {-1, 0}" "{0..<2 :: int} = {0, 1}" by auto
  have r: "?R (0, 0) = 0" "?R (6, 0) = 0xFF"
    by (simp_all add: pool_result_def example_layer_def pooled_zero_def zero_padded_def iv)
  have ap: "apart 0x1000 120 0x3000 180" by (rule apart_below) simp_all
  have cells: "t 0x3000 = 0 \<and> t (0x3000 + 18) = 0xFF" if "wrote ram (\<lambda>_. 0xFF) t (elems 60 3) (pixel 0x3000 3) ?R" for t
  proof -
    have "mmu_load ram t (pixel 0x3000 3 (0, 0)) = Some 0" "mmu_load ram t (pixel 0x3000 3 (6, 0)) = Some 0xFF" using that r by (simp_all add: wrote_def)
    then show ?thesis by (simp add: ram_def pixel_def)
  qed
  have "(\<exists>t. pool ram 2 3 5 4 6 5 0x1000 0x3000 example_layer (\<lambda>_. 0xFF) = Inr t \<and> wrote ram (\<lambda>_. 0xFF) t (elems 60 3) (pixel 0x3000 3) ?R) \<and>
      (\<exists>t. pool_with_col2im ram 3 2 3 6 5 0x1000 0x3000 example_layer (\<lambda>_. 0xFF) = Inr t \<and> wrote ram (\<lambda>_. 0xFF) t (elems 60 3) (pixel 0x3000 3) ?R)"
    using pool_takes_zero_padding [OF sz(3), of 2 3 ram "\<lambda>_. 0xFF" "0x1000" _ "0x3000", unfolded sz, OF _ _ _ _ tensor_ram room_ram] ap by simp
  then show ?thesis using cells by blast
qed

section \<open>A module on the accelerator\<close>

text \<open>
  C2. Spatial pyramid pooling (\<open>shen_run_sppf\<close>), run on the accelerator and the processor in turn, computes what
  the network prescribes: its output is the second convolution of the pyramid, in which the group of channels \<open>g\<close> is the
  activated first convolution, pooled with a window of \<open>g\<close> times the radius, so that the three
  poolings one after the other are three poolings of growing size. Outside its buffers, the module changes
  no byte.
\<close>

theorem sppf_correct:
  fixes h w ic ch oc r :: nat
  defines "n \<equiv> h * w"
  assumes hw: "0 < h" "0 < w" "h + 2 * r < 2 ^ 30" "w + 2 * r < 2 ^ 30"
    and cv1: "params_at M (mem s) cv1 ic ch Q1 D1" and cv2: "params_at M (mem s) cv2 (4 * ch) oc Q2 D2"
    and inp: "tensor M (mem s) inp n ic X" "placed inp (n * ic)" "apart inp (n * ic) c1 (n * ch)"
      "apart (weight_p cv1) (ic * ch) c1 (n * ch)" "apart (bias_p cv1) (4 * ch) c1 (n * ch)"
    and lay: "laid_out [(weight_p cv2, 4 * ch * oc), (bias_p cv2, 4 * oc), (lut, 256), (c1, n * ch), (p1, n * ch), (p2, n * ch), (p3, n * ch), (cat, n * (4 * ch)), (out, n * oc)]"
    and rooms: "array_room M (mem s) lut 256" "room M (mem s) c1 n ch" "room M (mem s) p1 n ch" "room M (mem s) p2 n ch" "room M (mem s) p3 n ch"
      "room M (mem s) cat n (4 * ch)" "room M (mem s) out n oc"
    and places: "placed c1 (n * ch)" "p2 \<noteq> 0" "p3 \<noteq> 0" "placed cat (n * (4 * ch))" "placed out (n * oc)"
    and W1: "conv1x1_value cv1 n ic ch X Q1 D1 W1" and L1: "table_for cv1 (in_scale cv2) L1"
    and W2: "conv1x1_value cv2 n (4 * ch) oc (pyramid h w r ch (\<lambda>s c. activation (in_scale cv2) L1 (W1 s c))) Q2 D2 W2" and L2: "table_for cv2 target L2"
    and s: "idle s"
  shows "\<exists>t. shen_run_sppf M inp out (int h) (int w) cv1 cv2 (int (2 * r + 1)) target c1 p1 p2 p3 cat lut s = Some (Inr t) \<and> idle t \<and>
    tensor M (mem t) out n oc (\<lambda>s c. activation target L2 (W2 s c)) \<and>
    kept M (mem s) (mem t) (extent lut 256 \<union> extent c1 (n * ch) \<union> extent p1 (n * ch) \<union> extent p2 (n * ch) \<union> extent p3 (n * ch) \<union> extent cat (n * (4 * ch)) \<union> extent out (n * oc))"
  using sppf [of h w r, folded n_def, OF hw cv1 cv2 inp lay rooms places W1 L1 W2 L2 s] .

definition example_cv1 :: shen_conv_param where
  "example_cv1 = \<lparr>weight_p = 0x1100, bias_p = 0x4000, requant = ACC_SCALE_IDENTITY, in_scale = 0x43000000, out_scale = 0x43000000, in_c = 1, out_c = 1,
     kh_p = 1, stride_p = 1, pad_p = 0\<rparr>"

definition example_cv2 :: shen_conv_param where
  "example_cv2 = example_cv1\<lparr>weight_p := 0x1200, bias_p := 0x4100, in_c := 4\<rparr>"

lemma ones_tensor:
  assumes "unat p + n * ch \<le> 0x4000"
  shows "tensor ram ones_and_zeros p n ch (\<lambda>_ _. 1)"
proof (rule tensorI)
  fix s c assume "s < n" "c < ch"
  then have i: "unat p + (s * ch + c) < 0x4000" using index_bound [of s n c ch] assms by linarith
  then have "unat (of_nat (unat p + (s * ch + c)) :: u64) = unat p + (s * ch + c)" by (intro unat_of_small) simp
  then have "unat (elem_at p (s * ch + c)) = unat p + (s * ch + c)" by (simp only: of_nat_add of_nat_unat ucast_id)
  then show "mmu_load ram ones_and_zeros (pixel p ch (s, c)) = Some 1" using i by (simp add: ram_def ones_and_zeros_def pixel_def word_less_nat_alt)
qed

lemma zeros_array:
  assumes "0x4000 \<le> unat p" "unat p + n < 2 ^ 64"
  shows "array ram ones_and_zeros p n (float_bytes (\<lambda>_. 0))"
  unfolding array_def
proof (intro allI impI)
  fix i assume "i < n"
  then have "unat (of_nat (unat p + i) :: u64) = unat p + i" using assms by (intro unat_of_small) simp
  then have "unat (elem_at p i) = unat p + i" by (simp only: of_nat_add of_nat_unat ucast_id)
  then have "ones_and_zeros (elem_at p i) = 0" using assms(1) by (simp add: ones_and_zeros_def word_less_nat_alt)
  then show "mmu_load ram ones_and_zeros (elem_at p i) = Some (float_bytes (\<lambda>_. 0) i)" by (simp add: ram_def float_bytes_def byte_of_def)
qed

lemma example_params:
  "params_at ram ones_and_zeros example_cv1 1 1 (\<lambda>_ _. 1) (\<lambda>_. 0)" "params_at ram ones_and_zeros example_cv2 4 1 (\<lambda>_ _. 1) (\<lambda>_. 0)"
  using ones_tensor [of "0x1100" 1 1] ones_tensor [of "0x1200" 4 1] zeros_array [of "0x4000" 4] zeros_array [of "0x4100" 4]
  by (simp_all add: params_at_def example_cv1_def example_cv2_def placed_def)

lemma pool_image_const: "s < h * w \<Longrightarrow> pool_image h w r (\<lambda>_ _. v) s c = v"
proof -
  assume s: "s < h * w"
  then have "0 < w" by (cases w) auto
  then have "s div w \<in> window h (2 * int r + 1) (int (s div w) - int r)" "s mod w \<in> window w (2 * int r + 1) (int (s mod w) - int r)"
    using s by (simp_all add: window_def less_mult_imp_div_less)
  then have "(\<lambda>(i, j). sint v) ` (window h (2 * int r + 1) (int (s div w) - int r) \<times> window w (2 * int r + 1) (int (s mod w) - int r)) = {sint v}" by auto
  then show ?thesis using sint8_range [of v] by (simp add: pool_image_def pooled_def max_def)
qed

text \<open>The table of the example, whose scale is 128.\<close>

definition example_table :: "elem_t \<Rightarrow> elem_t" where
  "example_table x = projr (silu_entry 0x43000000 0x43000000 x)"

lemma scale_128: "scale_ok 0x43000000"
proof -
  have "f32_finite 0x43000000 \<and> f32_rat 0x43000000 = 128" by code_simp
  then show ?thesis by (simp add: scale_ok_def)
qed

lemma example_table_for: "table_for example_cv1 0x43000000 example_table"
proof -
  have "silu_entry 0x43000000 0x43000000 x = Inr (example_table x)" for x
    using silu_entry_defined [OF scale_128 scale_128, of x] by (metis example_table_def sum.sel(2))
  then show ?thesis by (simp add: table_for_def example_cv1_def)
qed

lemma example_table_one: "example_table 1 = 1"
proof -
  have f: "f32_mul (f32_of_int 1) 0x43000000 = 0x43000000" "f32_neg 0x43000000 = 0xC3000000" "\<not> f32_lt (f32_of_int 88) 0xC3000000" "f32_lt 0xC3000000 (f32_of_int (- 88))"
    "f32_add (f32_of_int 1) 0 = f32_of_int 1" "f32_div 0x43000000 (f32_of_int 1) = 0x43000000" "f32_div 0x43000000 0x43000000 = 0x3F800000"
    "shen_roundf 0x3F800000 = Inr 0x3F800000" "f32_to_sint 32 0x3F800000 = Inr 1" by code_simp+
  then show ?thesis by (simp add: example_table_def silu_entry_def shen_expf_def clip_elem_def)
qed

theorem sppf_correct_witness:
  "\<exists>t. shen_run_sppf ram 0x1000 0x5600 2 2 example_cv1 example_cv2 5 0 0x5100 0x5200 0x5300 0x5400 0x5500 0x5000 (ready ones_and_zeros) = Some (Inr t) \<and>
    mem t 0x5600 = 4 \<and> mem t 0x5603 = 4 \<and> mem t 0x1000 = 1"
proof -
  let ?L = "activation 0x43000000 example_table" and ?W = "\<lambda>_ _. 4"
  have act: "?L 1 = 1"
  proof -
    have "f32_lt 0 0x43000000" by code_simp
    then show ?thesis by (simp add: activation_def example_table_one)
  qed
  have v1: "conv1x1_value example_cv1 4 1 1 (\<lambda>_ _. 1) (\<lambda>_ _. 1) (\<lambda>_. 0) (\<lambda>_ _. 1)"
    by (simp add: conv1x1_value_def example_cv1_def acc_scale_one saturate_elem_def elem_t_max_def elem_t_min_def)
  have "pyramid 2 2 2 1 (\<lambda>_ _. 1) s k = 1" if "s < 4" for s k using pool_image_const [of s 2 2] that by (simp add: pyramid_def)
  then have v2: "conv1x1_value example_cv2 4 4 1 (pyramid 2 2 2 1 (\<lambda>s c. ?L 1)) (\<lambda>_ _. 1) (\<lambda>_. 0) ?W"
    by (simp add: act conv1x1_value_def example_cv2_def example_cv1_def acc_scale_one saturate_elem_def elem_t_max_def elem_t_min_def)
  have lay: "laid_out [(weight_p example_cv2, 4 * 1 * 1), (bias_p example_cv2, 4 * 1), (0x5000, 256), (0x5100, 4 * 1), (0x5200, 4 * 1), (0x5300, 4 * 1), (0x5400, 4 * 1), (0x5500, 4 * (4 * 1)), (0x5600, 4 * 1)]"
    by (simp add: laid_out_def example_cv2_def example_cv1_def apart_below)
  have "f32_lt 0 0 = False" by code_simp
  then have l2: "table_for example_cv2 0 (\<lambda>x. x)" "activation 0 (\<lambda>x. x) = (\<lambda>x. x)" by (simp_all add: table_for_def activation_def)
  have "\<exists>t. shen_run_sppf ram 0x1000 0x5600 (int 2) (int 2) example_cv1 example_cv2 (int (2 * 2 + 1)) 0 0x5100 0x5200 0x5300 0x5400 0x5500 0x5000 (ready ones_and_zeros) = Some (Inr t) \<and>
    idle t \<and> tensor ram (mem t) 0x5600 (2 * 2) 1 (\<lambda>s c. activation 0 (\<lambda>x. x) (?W s c)) \<and>
    kept ram (mem (ready ones_and_zeros)) (mem t) (extent 0x5000 256 \<union> extent 0x5100 (2 * 2 * 1) \<union> extent 0x5200 (2 * 2 * 1) \<union> extent 0x5300 (2 * 2 * 1) \<union> extent 0x5400 (2 * 2 * 1) \<union>
      extent 0x5500 (2 * 2 * (4 * 1)) \<union> extent 0x5600 (2 * 2 * 1))"
    by (rule sppf_correct [where ic = 1 and X = "\<lambda>_ _. 1" and ?Q1.0 = "\<lambda>_ _. 1" and ?D1.0 = "\<lambda>_. 0" and ?W1.0 = "\<lambda>_ _. 1" and ?L1.0 = example_table
        and ?Q2.0 = "\<lambda>_ _. 1" and ?D2.0 = "\<lambda>_. 0"])
      (use example_params ones_tensor [of "0x1000" 4 1] lay v1 v2 l2(1) example_table_for in
        \<open>simp_all add: placed_def array_room_ram room_ram idle_def ready_wf apart_below example_cv2_def example_cv1_def\<close>)
  then obtain t where t: "shen_run_sppf ram 0x1000 0x5600 2 2 example_cv1 example_cv2 5 0 0x5100 0x5200 0x5300 0x5400 0x5500 0x5000 (ready ones_and_zeros) = Some (Inr t)"
      "tensor ram (mem t) 0x5600 4 1 ?W" "kept ram ones_and_zeros (mem t) (extent 0x5000 256 \<union> extent 0x5100 4 \<union> extent 0x5200 4 \<union> extent 0x5300 4 \<union> extent 0x5400 4 \<union> extent 0x5500 16 \<union> extent 0x5600 4)"
    by (auto simp: l2(2))
  have "(0x1000 :: u64) \<notin> extent p n" if "0x1000 < unat p" "unat p + n \<le> 2 ^ 64" for p n
    using apart_below [of "0x1000" 1 p n] that by (force simp: apart_def)
  then have "mem t 0x1000 = ones_and_zeros 0x1000" using t(3) by (simp add: kept_def ram_def)
  moreover have "mem t 0x5600 = 4" "mem t 0x5603 = 4" using tensor_ram_at [OF t(2), of 0 0] tensor_ram_at [OF t(2), of 3 0] by simp_all
  ultimately show ?thesis using t(1) by (auto simp: ones_and_zeros_def)
qed

section \<open>Operators on the processor\<close>

text \<open>
  C32. The SiLU activation by table: for scales that are not extreme the table can be built (no conversion is out of range
  and no exponent negative) and looking a tensor up in it replaces every element by the SiLU that would be computed for
  it.
\<close>

theorem silu_by_table:
  assumes "scale_ok input_scale" "scale_ok output_scale"
    and "array_room M m lut 256" "array_room M m p n" "array M m p n X" "apart lut 256 p n"
  shows "succeeds (bindE (shen_build_silu_lut M lut input_scale output_scale m) (shen_silu_int8_lut M p (int n) lut))
    (\<lambda>t. \<forall>i < n. mmu_load M t (elem_at p i) = Some (projr (silu_entry input_scale output_scale (X i))))"
proof -
  let ?L = "\<lambda>x. projr (silu_entry input_scale output_scale x)"
  have L: "silu_entry input_scale output_scale x = Inr (?L x)" for x
    using silu_entry_defined [OF assms(1,2), of x] by (metis sum.sel(2))
  show ?thesis unfolding succeeds_bindE
  proof (rule succeeds_mono [OF silu_table [where L = ?L, OF assms(3) L]])
    fix t assume t: "wrote M m t {..<256} (elem_at lut) (\<lambda>i. ?L (of_nat i))"
    have "array_room M t p n" "array M t p n X" using assms(4) array_kept [OF t apart_sym [OF assms(6)] assms(5)] t by (simp_all add: array_room_def wrote_def)
    from silu_lookup [OF this array_wrote [OF t] assms(6)]
    show "succeeds (shen_silu_int8_lut M p (int n) lut t) (\<lambda>u. \<forall>i < n. mmu_load M u (elem_at p i) = Some (?L (X i)))"
      by (rule succeeds_mono) (simp add: wrote_def)
  qed
qed

theorem silu_by_table_witness:
  "\<exists>t. bindE (shen_build_silu_lut ram 0x5000 0x43000000 0x43000000 ones_and_zeros) (shen_silu_int8_lut ram 0x1000 8 0x5000) = Inr t \<and> t 0x1003 = 1"
proof -
  have "array ram ones_and_zeros 0x1000 8 (\<lambda>i. 1)" using ones_tensor [of "0x1000" 8 1] by (simp add: tensor_array)
  from silu_by_table [OF scale_128 scale_128 array_room_ram array_room_ram this apart_sym [OF apart_below], of "0x5000"]
  have "succeeds (bindE (shen_build_silu_lut ram 0x5000 0x43000000 0x43000000 ones_and_zeros) (shen_silu_int8_lut ram 0x1000 8 0x5000))
      (\<lambda>t. \<forall>i < 8. t (elem_at 0x1000 i) = example_table 1)" by (simp add: ram_def example_table_def)
  then show ?thesis unfolding succeeds_iff example_table_one by (force dest: spec [of _ 3])
qed

text \<open>
  C33. Maximum pooling (\<open>shen_maxpool_nhwc\<close>): for every window size, stride and padding, each output element is the maximum
  of the elements of its channel that lie in the window and inside the image, and no other byte changes.
\<close>

theorem maxpool_takes_maxima:
  fixes h w ch k st pad :: nat
  assumes "tensor M m inp (h * w) ch X" "h * w * ch < 2 ^ 31" "k \<le> h + 2 * pad" "k \<le> w + 2 * pad" "0 < st" "h + 2 * pad < 2 ^ 30" "w + 2 * pad < 2 ^ 30"
    and "room M m out (pool_dim h k st pad * pool_dim w k st pad) ch" "apart inp (h * w * ch) out (pool_dim h k st pad * pool_dim w k st pad * ch)"
  shows "succeeds (shen_maxpool_nhwc M inp out (int ch) (int h) (int w) (int k) (int st) (int pad) m)
    (\<lambda>t. wrote M m t (elems (pool_dim h k st pad * pool_dim w k st pad) ch) (pixel out ch)
      (\<lambda>(s, c). word_of_int (pooled h w X (int k) (int (s div pool_dim w k st pad) * int st - int pad) (int (s mod pool_dim w k st pad) * int st - int pad) c)))"
  using maxpool [OF assms] .

theorem maxpool_takes_maxima_witness: "\<exists>t. shen_maxpool_nhwc ram 0x1000 0x2000 1 4 4 2 2 0 ramp = Inr t \<and> t 0x2000 = 5"
proof -
  define X where "X = (\<lambda>s c. ramp (pixel 0x1000 1 (s, c)))"
  have d: "pool_dim 4 2 2 0 = 2" by (simp add: pool_dim_def)
  have "window 4 2 0 = {0, 1}" by (auto simp: window_def)
  then have v: "pooled 4 4 X 2 0 0 0 = 5" by (simp add: pooled_def X_def pixel_def ramp_def insert_Times_insert)
  have "succeeds (shen_maxpool_nhwc ram 0x1000 0x2000 (int 1) (int 4) (int 4) (int 2) (int 2) (int 0) ramp)
    (\<lambda>t. wrote ram ramp t (elems (pool_dim 4 2 2 0 * pool_dim 4 2 2 0) 1) (pixel 0x2000 1)
      (\<lambda>(s, c). word_of_int (pooled 4 4 X (int 2) (int (s div pool_dim 4 2 2 0) * int 2 - int 0) (int (s mod pool_dim 4 2 2 0) * int 2 - int 0) c)))"
    by (rule maxpool_takes_maxima) (simp_all add: X_def tensor_ram room_ram d apart_below)
  then obtain t where t: "shen_maxpool_nhwc ram 0x1000 0x2000 1 4 4 2 2 0 ramp = Inr t" "\<forall>k \<in> elems 4 1. mmu_load ram t (pixel 0x2000 1 k) =
      Some ((\<lambda>(s, c). word_of_int (pooled 4 4 X 2 (int (s div 2) * 2) (int (s mod 2) * 2) c)) k)"
    unfolding d wrote_def succeeds_iff by auto
  from bspec [OF t(2), of "(0, 0)"] have "t 0x2000 = 5" by (simp add: ram_def pixel_def v)
  then show ?thesis using t(1) by blast
qed

text \<open>
  C34. Splitting the channels of a tensor in two and concatenating the parts gives the tensor back.
\<close>

theorem split_concat_round_trip:
  assumes "tensor M m inp n (a + b) X"
    and "room M m out_a n a" "room M m out_b n b" "apart out_a (n * a) out_b (n * b)"
    and "apart inp (n * (a + b)) out_a (n * a)" "apart inp (n * (a + b)) out_b (n * b)"
    and "room M m out n (a + b)" "apart out_a (n * a) out (n * (a + b))" "apart out_b (n * b) out (n * (a + b))"
  shows "succeeds (bindE (shen_split_channels_nhwc M inp (int n) out_a 0 (int a) out_b (int a) (int b) (int (a + b)) m)
      (shen_concat_channels_nhwc M out (int n) out_a (int a) out_b (int b) 0 0 0 0)) (\<lambda>t. tensor M t out n (a + b) X)"
  unfolding succeeds_bindE using split_then_concat [OF assms] .

theorem split_concat_round_trip_witness:
  "\<exists>t. bindE (shen_split_channels_nhwc ram 0x1000 4 0x2000 0 3 0x3000 3 5 8 ramp) (shen_concat_channels_nhwc ram 0x4000 4 0x2000 3 0x3000 5 0 0 0 0) = Inr t \<and> t 0x401B = 0x1B"
proof -
  have "succeeds (bindE (shen_split_channels_nhwc ram 0x1000 (int 4) 0x2000 0 (int 3) 0x3000 (int 3) (int 5) (int (3 + 5)) ramp)
      (shen_concat_channels_nhwc ram 0x4000 (int 4) 0x2000 (int 3) 0x3000 (int 5) 0 0 0 0)) (\<lambda>t. tensor ram t 0x4000 4 (3 + 5) (\<lambda>s c. ramp (pixel 0x1000 (3 + 5) (s, c))))"
    by (rule split_concat_round_trip) (simp_all add: tensor_ram room_ram apart_below)
  then obtain t where t: "bindE (shen_split_channels_nhwc ram 0x1000 4 0x2000 0 3 0x3000 3 5 8 ramp) (shen_concat_channels_nhwc ram 0x4000 4 0x2000 3 0x3000 5 0 0 0 0) = Inr t"
      "tensor ram t 0x4000 4 8 (\<lambda>s c. ramp (pixel 0x1000 8 (s, c)))" by (auto simp: succeeds_iff)
  have "t 0x401B = 0x1B" using tensor_ram_at [OF t(2), of 3 3] by (simp add: ramp_def pixel_def)
  then show ?thesis using t(1) by blast
qed

text \<open>
  C35. Upsampling: the four pixels \<open>(2y, 2x)\<close> to \<open>(2y + 1, 2x + 1)\<close> of the result are the pixel \<open>(y, x)\<close> of the input.
\<close>

theorem upsample_doubles:
  assumes "tensor M m inp (h * w) ch X" "room M m out (2 * h * (2 * w)) ch" "apart inp (h * w * ch) out (2 * h * (2 * w) * ch)"
  shows "succeeds (shen_upsample_nearest_2x_nhwc M inp out (int ch) (int h) (int w) m)
    (\<lambda>t. \<forall>y < h. \<forall>x < w. \<forall>dy < 2. \<forall>dx < 2. \<forall>c < ch.
      mmu_load M t (pixel out ch ((2 * y + dy) * (2 * w) + (2 * x + dx), c)) = Some (X (y * w + x) c))"
proof (rule succeeds_mono [OF upsample [OF assms]], intro allI impI)
  fix t y x dy dx c assume t: "wrote M m t (elems (2 * h * (2 * w)) ch) (pixel out ch) (\<lambda>(s, c). X (s div (2 * w) div 2 * w + s mod (2 * w) div 2) c)"
    and b: "y < h" "x < w" "dy < (2 :: nat)" "dx < (2 :: nat)" "c < ch"
  define s where "s = (2 * y + dy) * (2 * w) + (2 * x + dx)"
  have i: "2 * y + dy < 2 * h" "2 * x + dx < 2 * w" using b by linarith+
  have "s < 2 * h * (2 * w)" unfolding s_def by (rule index_bound [OF i])
  moreover have "s div (2 * w) = 2 * y + dy" "s mod (2 * w) = 2 * x + dx" unfolding s_def using i(2) by simp_all
  moreover have "(2 * y + dy) div 2 = y" "(2 * x + dx) div 2 = x" using b by simp_all
  ultimately show "mmu_load M t (pixel out ch ((2 * y + dy) * (2 * w) + (2 * x + dx), c)) = Some (X (y * w + x) c)"
    unfolding s_def [symmetric] using t b by (simp add: wrote_def)
qed

theorem upsample_doubles_witness: "\<exists>t. shen_upsample_nearest_2x_nhwc ram 0x1000 0x2000 2 3 4 ramp = Inr t \<and> t 0x205F = 0x17"
proof -
  have "succeeds (shen_upsample_nearest_2x_nhwc ram 0x1000 0x2000 (int 2) (int 3) (int 4) ramp)
    (\<lambda>t. \<forall>y < 3. \<forall>x < 4. \<forall>dy < 2. \<forall>dx < 2. \<forall>c < 2.
      mmu_load ram t (pixel 0x2000 2 ((2 * y + dy) * (2 * 4) + (2 * x + dx), c)) = Some (ramp (pixel 0x1000 2 (y * 4 + x, c))))"
    by (rule upsample_doubles) (simp_all add: tensor_ram room_ram apart_below)
  then obtain t where t: "shen_upsample_nearest_2x_nhwc ram 0x1000 0x2000 2 3 4 ramp = Inr t" "\<forall>y < 3. \<forall>x < 4. \<forall>dy < 2. \<forall>dx < 2. \<forall>c < 2.
      mmu_load ram t (pixel 0x2000 2 ((2 * y + dy) * (2 * 4) + (2 * x + dx), c)) = Some (ramp (pixel 0x1000 2 (y * 4 + x, c)))" by (auto simp: succeeds_iff)
  have "mmu_load ram t (pixel 0x2000 2 ((2 * 2 + 1) * (2 * 4) + (2 * 3 + 1), 1)) = Some (ramp (pixel 0x1000 2 (2 * 4 + 3, 1)))"
    by (rule t(2) [rule_format]) simp_all
  then have "t 0x205F = 0x17" by (simp add: ram_def ramp_def pixel_def)
  then show ?thesis using t(1) by blast
qed

text \<open>
  C36. Dequantising a tensor to floats and quantising it again with the same scale gives the tensor back, for every scale that
  is neither tiny nor huge: the rounding errors of the multiplication and the division never reach the next integer.
\<close>

theorem quantise_round_trip:
  assumes "array M m inp n X" "array_room M m fp (4 * n)" "apart inp n fp (4 * n)" "array_room M m out n" "apart fp (4 * n) out n"
    and "f32_finite scale" "2 powi (-100) \<le> \<bar>f32_rat scale\<bar>" "\<bar>f32_rat scale\<bar> \<le> 2 powi 100"
  shows "succeeds (bindE (shen_dequant_int8_to_fp32 M inp fp (int n) scale m) (shen_quant_fp32_to_int8 M fp out (int n) scale)) (\<lambda>t. array M t out n X)"
  unfolding succeeds_bindE using dequant_then_quant [OF assms] .

theorem quantise_round_trip_witness:
  "\<exists>t. bindE (shen_dequant_int8_to_fp32 ram 0x1000 0x2000 200 0x43000000 ramp) (shen_quant_fp32_to_int8 ram 0x2000 0x3000 200 0x43000000) = Inr t \<and> t 0x3090 = 0x90"
proof -
  have f: "f32_finite 0x43000000 \<and> f32_rat 0x43000000 = 128" by code_simp
  have "succeeds (bindE (shen_dequant_int8_to_fp32 ram 0x1000 0x2000 (int 200) 0x43000000 ramp) (shen_quant_fp32_to_int8 ram 0x2000 0x3000 (int 200) 0x43000000))
      (\<lambda>t. array ram t 0x3000 200 (\<lambda>i. ramp (elem_at 0x1000 i)))"
    by (rule quantise_round_trip) (simp_all add: array_ram array_room_ram apart_below f power_int_minus)
  then obtain t where t: "bindE (shen_dequant_int8_to_fp32 ram 0x1000 0x2000 200 0x43000000 ramp) (shen_quant_fp32_to_int8 ram 0x2000 0x3000 200 0x43000000) = Inr t"
      "array ram t 0x3000 200 (\<lambda>i. ramp (elem_at 0x1000 i))" by (auto simp: succeeds_iff)
  have "mmu_load ram t (elem_at 0x3000 0x90) = Some (ramp (elem_at 0x1000 0x90))" by (rule t(2) [unfolded array_def, rule_format]) simp
  then have "t 0x3090 = 0x90" by (simp add: ram_def ramp_def)
  then show ?thesis using t(1) by blast
qed

section \<open>Preparing an image\<close>

text \<open>
  C37. The letterbox (\<open>shen_letterbox\<close>), for every image of up to \<open>2 ^ 20\<close> rows and columns: the float computations never
  leave the canvas or the image. The scaled image is at most 640 by 640 pixels and centred, each of its pixels is copied from
  a pixel inside the image, everything else on the canvas is the padding, and no byte changes except the canvas and the
  three results.
\<close>

theorem letterbox_fills_canvas:
  assumes "image_dim w" "image_dim h" and "tensor M m src (h * w) 3 X" "h * w * 3 < 2 ^ 31"
    and "room M m dst (640 * 640) 3" "apart src (h * w * 3) dst (640 * 640 * 3)"
    and "\<forall>a \<in> word_at so \<union> word_at wo \<union> word_at ho. writable M m a \<and> a \<notin> extent dst (640 * 640 * 3)"
  shows "\<exists>nw nh sx sy. box_of w h nw nh sx sy \<and> succeeds (shen_letterbox M src dst (int w) (int h) so wo ho m)
    (\<lambda>t. tensor M t dst (640 * 640) 3 (boxed w nw nh sx sy X) \<and> kept M m t (extent dst (640 * 640 * 3) \<union> (word_at so \<union> word_at wo \<union> word_at ho)))"
proof -
  obtain nw nh sx sy where "box_of w h nw nh sx sy" by (rule box_exists [OF assms(1,2)])
  then show ?thesis using letterbox [OF _ assms(3-7)] by blast
qed

theorem letterbox_fills_canvas_witness: "\<exists>t. shen_letterbox ram 0x1000 0x100000 3 2 0x10 0x20 0x30 ramp = Inr t \<and> (\<forall>a \<ge> 0x300000. t a = ramp a)"
proof -
  have out: "a \<notin> extent 0x100000 (640 * 640 * 3)" if "unat a < 0x100000" for a
    using apart_below [of a 1 "0x100000" "640 * 640 * 3"] that by (force simp: apart_def)
  have word: "unat a < 0x100" if "a \<in> word_at 0x10 \<union> word_at 0x20 \<union> word_at 0x30" for a
  proof -
    from that obtain p i where "p = 0x10 \<or> p = 0x20 \<or> p = 0x30" "i < 4" "a = elem_at p i" by blast
    moreover then have "i = 0 \<or> i = 1 \<or> i = 2 \<or> i = 3" by linarith
    ultimately show ?thesis by (elim disjE) simp_all
  qed
  have words: "\<forall>a \<in> word_at 0x10 \<union> word_at 0x20 \<union> word_at 0x30. writable ram ramp a \<and> a \<notin> extent 0x100000 (640 * 640 * 3)"
  proof
    fix a assume "a \<in> word_at 0x10 \<union> word_at 0x20 \<union> word_at 0x30"
    then have "unat a < 0x100000" using word [of a] by linarith
    then show "writable ram ramp a \<and> a \<notin> extent 0x100000 (640 * 640 * 3)" by (intro conjI ram_writable out)
  qed
  have "\<exists>nw nh sx sy. box_of 3 2 nw nh sx sy \<and> succeeds (shen_letterbox ram 0x1000 0x100000 (int 3) (int 2) 0x10 0x20 0x30 ramp)
    (\<lambda>t. tensor ram t 0x100000 (640 * 640) 3 (boxed 3 nw nh sx sy (\<lambda>s c. ramp (pixel 0x1000 3 (s, c)))) \<and>
      kept ram ramp t (extent 0x100000 (640 * 640 * 3) \<union> (word_at 0x10 \<union> word_at 0x20 \<union> word_at 0x30)))"
    by (rule letterbox_fills_canvas [OF _ _ tensor_ram _ room_ram apart_below words]) (simp_all add: image_dim_def)
  then obtain t where t: "shen_letterbox ram 0x1000 0x100000 3 2 0x10 0x20 0x30 ramp = Inr t"
      "kept ram ramp t (extent 0x100000 (640 * 640 * 3) \<union> (word_at 0x10 \<union> word_at 0x20 \<union> word_at 0x30))" by (auto simp: succeeds_iff)
  have "t a = ramp a" if "0x300000 \<le> a" for a
  proof -
    have a: "0x300000 \<le> unat a" using that by (simp add: word_le_nat_alt)
    have "unat a < 2 ^ 64" using unsigned_less [where 'a = nat and w = a] by simp
    then have "apart 0x100000 (640 * 640 * 3) a 1" using a by (intro apart_below) simp_all
    then have "a \<notin> extent 0x100000 (640 * 640 * 3)" by (force simp: apart_def)
    moreover have "a \<notin> word_at 0x10 \<union> word_at 0x20 \<union> word_at 0x30" using word [of a] a by auto
    ultimately show ?thesis using t(2) unfolding kept_def ram_def by simp
  qed
  then show ?thesis using t(1) by blast
qed

text \<open>
  C38. The quantisation of the input: the colour channels are exchanged and every value between 0 and 255 becomes the integer
  nearest to 127/255 of it, with no ties, although the code computes with integers only.
\<close>

theorem preprocess_quantises:
  assumes "tensor M m inp (640 * 640) 3 X" "room M m out (640 * 640) 3" "apart inp (640 * 640 * 3) out (640 * 640 * 3)"
  shows "succeeds (shen_preprocess_to_int8_nhwc M inp out m) (\<lambda>t. \<forall>s < 640 * 640. \<forall>c < 3.
    \<exists>v. mmu_load M t (pixel out 3 (s, c)) = Some v \<and> sint v = rhe (127 * of_int (uint (X s (2 - c))) / 255))"
  using preprocess [OF assms] by (rule succeeds_mono) (simp add: wrote_def quant_pixel_nearest)

theorem preprocess_quantises_witness: "\<exists>t. shen_preprocess_to_int8_nhwc ram 0x200000 0x400000 ramp = Inr t \<and> sint (t 0x400000) = rhe (127 * 2 / 255)"
proof -
  have "succeeds (shen_preprocess_to_int8_nhwc ram 0x200000 0x400000 ramp) (\<lambda>t. \<forall>s < 640 * 640. \<forall>c < 3.
    \<exists>v. mmu_load ram t (pixel 0x400000 3 (s, c)) = Some v \<and> sint v = rhe (127 * of_int (uint (ramp (pixel 0x200000 3 (s, 2 - c)))) / 255))"
    by (rule preprocess_quantises) (simp_all add: tensor_ram room_ram apart_below)
  then obtain t where t: "shen_preprocess_to_int8_nhwc ram 0x200000 0x400000 ramp = Inr t" "\<forall>s < 640 * 640. \<forall>c < 3.
    \<exists>v. mmu_load ram t (pixel 0x400000 3 (s, c)) = Some v \<and> sint v = rhe (127 * of_int (uint (ramp (pixel 0x200000 3 (s, 2 - c)))) / 255)" by (auto simp: succeeds_iff)
  have "\<exists>v. mmu_load ram t (pixel 0x400000 3 (0, 0)) = Some v \<and> sint v = rhe (127 * of_int (uint (ramp (pixel 0x200000 3 (0, 2 - 0)))) / 255)"
    by (rule t(2) [rule_format]) simp_all
  then show ?thesis using t(1) by (simp add: ram_def ramp_def pixel_def)
qed

text \<open>
  \<open>shen_roundf\<close> adds one half before it truncates, and the addition rounds: the largest float below one half goes to 1,
  where \<open>roundf\<close> gives 0.
\<close>

theorem roundf_below_half: "shen_roundf 0x3EFFFFFF = Inr 0x3F800000 \<and> f32_lt 0x3EFFFFFF (f32_dec 5 1)"
  by code_simp

text \<open>
  The letterbox truncates the scaled size, and the product of a size and its scale may be rounded to a float below 640: an
  image of 634 by 634 pixels fills only 639 columns and rows of the canvas.
\<close>

theorem letterbox_loses_column: "f32_to_sint 32 (f32_mul (f32_of_int 634) (letterbox_scale 634 634)) = Inr 639"
  by code_simp

text \<open>
  \<open>shen_expf\<close> at its lower limit: for \<open>x = -88\<close> the exponent field of \<open>2 ^ n\<close> is zero, and the result is 0 instead of a number near
  \<open>2 ^ (-127)\<close>.
\<close>

theorem expf_underflows: "shen_expf (f32_of_int (- 88)) = Inr 0"
proof -
  have x: "f32_of_int (- 88) = 0xC2B00000" "\<not> f32_lt (f32_of_int 88) 0xC2B00000" "\<not> f32_lt 0xC2B00000 0xC2B00000" by code_simp+
  have n: "f32_mul 0xC2B00000 (f32_dec 14426950408 10) = 3271420433" "round_int 3271420433 = Inr (- 127)" by code_simp+
  have r: "f32_sub 0xC2B00000 (f32_mul (f32_of_int (- 127)) (f32_dec 6931471805599453 16)) = 1022574592" by code_simp
  have p: "f32_mul 1022574592 (f32_div (f32_of_int 1) (f32_of_int 120)) = 964803516"
    "f32_mul 1022574592 (f32_add (f32_div (f32_of_int 1) (f32_of_int 24)) 964803516) = 983769398"
    "f32_mul 1022574592 (f32_add (f32_div (f32_of_int 1) (f32_of_int 6)) 983769398) = 1000562861"
    "f32_mul 1022574592 (f32_add (f32_dec 5 1) 1000562861) = 1014344950"
    "f32_mul 1022574592 (f32_add (f32_of_int 1) 1014344950) = 1022813635"
    "f32_mul (f32_add (f32_of_int 1) 1022813635) 0 = 0" by code_simp+
  show ?thesis unfolding shen_expf_def Let_def x n r p bindE.simps using x by (simp add: n r p)
qed

end
