(* ===== verification/Driver_Norm.thy ===== *)
theory Driver_Norm
  imports Driver_Resadd
begin

text \<open>
  The normalisations of the driver (layer normalisation and softmax of a matrix of sums). Whether the
  build supports them is the macro \<open>HAS_NORMALIZATIONS\<close>, which comes with the number \<open>NORM_STAT_IDS\<close> of
  statistics slots (at least one): both are the argument \<open>stat_slots\<close>, with \<open>None\<close> for the header of this repository, which
  defines neither. Counters run over sizes of matrices in memory and cannot wrap around.
\<close>

section \<open>One tile\<close>

text \<open>The first and the last command of each pass over a row; the last pass stores the elements.\<close>

definition norm_cmds :: "int \<Rightarrow> (u32 \<times> u32) list" where
  "norm_cmds act = (if act = ACT_LAYERNORM then [(1, 2), (3, 4), (0, 0)] else if act = ACT_SOFTMAX then [(5, 5), (6, 7), (0, 0)] else [])"

text \<open>\<open>blocks\<close> is \<open>J/DIM + (J % DIM != 0)\<close>, cut to a maximum where blocks are moved together.\<close>

definition norm_blocks :: "nat \<Rightarrow> nat" where
  "norm_blocks J = J div DIM + of_bool (J mod DIM \<noteq> 0)"

definition norm_mvin :: "nat \<Rightarrow> nat \<Rightarrow> u64 \<Rightarrow> u64 \<Rightarrow> nat \<Rightarrow> drv_op list" where
  "norm_mvin I J inp A_row_stride i =
     (let A_blocks = min (norm_blocks J) MAX_BLOCK_LEN_ACC; rows = (if i + DIM \<le> I then DIM else I - i) in
      concat (map (\<lambda>j.
        let cols = (if j + A_blocks * DIM \<le> J then A_blocks * DIM else J - j) in
        gemmini_extended_mvin (inp + (of_nat i * A_row_stride + of_nat j) * 4)
          (push_bit (ADDR_LEN - 1) 1 + of_nat (i * norm_blocks J + j)) (of_nat cols) (of_nat rows)) (steps J (A_blocks * DIM))))"

definition norm_row :: "nat \<Rightarrow> u64 \<Rightarrow> u64 \<Rightarrow> nat \<Rightarrow> nat \<Rightarrow> u32 \<times> u32 \<Rightarrow> drv_op list" where
  "norm_row J out C_row_stride i r cmd =
     (let C_blocks = min (norm_blocks J) MAX_BLOCK_LEN in
      concat (map (\<lambda>jj.
        let addr = push_bit (ADDR_LEN - 2) 3 + of_nat (i * norm_blocks J + jj + r);
            addr = addr OR push_bit 26 (if J \<le> jj + C_blocks * DIM then snd cmd else fst cmd);
            cols = (if J - jj < C_blocks * DIM then J - jj else C_blocks * DIM) in
        gemmini_extended_mvout (out + (of_nat i * C_row_stride + of_nat jj) + of_nat r * C_row_stride) addr (of_nat cols) 1)
        (steps J (C_blocks * DIM))))"

definition norm_mvout :: "nat \<Rightarrow> nat \<Rightarrow> nat \<Rightarrow> u64 \<Rightarrow> u64 \<Rightarrow> int \<Rightarrow> nat \<Rightarrow> drv_op list" where
  "norm_mvout stat_ids_max I J out C_row_stride act i =
     (let rows = (if I - i < DIM then I - i else DIM) in
      concat (map (\<lambda>row.
        let stat_ids = (if stat_ids_max < rows - row then stat_ids_max else rows - row) in
        concat (map (\<lambda>cmd. concat (map (\<lambda>stat_id.
          gemmini_config_norm 0 False (act = ACT_SOFTMAX) False (of_nat stat_id) 0 0 @
          norm_row J out C_row_stride i (row + stat_id) cmd) [0..<stat_ids])) (norm_cmds act))) (steps rows stat_ids_max)))"

definition sp_tiled_norm :: "nat option \<Rightarrow> u64 \<Rightarrow> u64 \<Rightarrow> u64 \<Rightarrow> u64 \<Rightarrow> u64 \<Rightarrow> u64 \<Rightarrow> int \<Rightarrow> drv_op list res" where
  "sp_tiled_norm stat_slots I J inp out A_row_stride C_row_stride act =
     (case stat_slots of None \<Rightarrow> Inl ExitFailure
      | Some n \<Rightarrow> Inr (concat (map (\<lambda>i.
          norm_mvin (unat I) (unat J) inp A_row_stride i @
          (if act = ACT_LAYERNORM \<or> act = ACT_SOFTMAX then norm_mvout n (unat I) (unat J) out C_row_stride act i else []))
          (steps (unat I) DIM))))"

section \<open>All tiles\<close>

definition norm_config :: "u64 \<Rightarrow> f32 \<Rightarrow> int \<Rightarrow> drv_op list res" where
  "norm_config J C_scale act =
     bindE (if act = ACT_SOFTMAX then outer_softmax (f32_of_f64 (f64_dec 5 2)) else Inr []) (\<lambda>softmax.
     Inr (gemmini_extended_config_st (ucast (ucast J :: u32) * 1) (word_of_int act AND 3) C_scale @
       gemmini_config_ex 1 0 0 @
       gemmini_extended4_config_ld (J * 4) MVIN_SCALE_IDENTITY False (of_nat DIM) 0 @
       gemmini_extended4_config_ld (J * 4) MVIN_SCALE_IDENTITY False (of_nat DIM) 1 @ softmax))"

text \<open>A loop whose step is zero never ends: \<open>OutOfFuel\<close>.\<close>

definition tiled_norm :: "nat option \<Rightarrow> u64 \<Rightarrow> u64 \<Rightarrow> u64 \<Rightarrow> u64 \<Rightarrow> u64 \<Rightarrow> u64 \<Rightarrow> f32 \<Rightarrow> int \<Rightarrow> drv_op list res" where
  "tiled_norm stat_slots I J t_I t_J inp out C_scale act =
     (let nI = unat I; nJ = unat J; tI = unat t_I; tJ = unat t_J in
      bindE (norm_config J C_scale act) (\<lambda>config.
      if (tI = 0 \<and> 0 < nI) \<or> (tJ = 0 \<and> 0 < nJ \<and> 0 < nI) then Inl OutOfFuel
      else bindE (mapE (\<lambda>(i, j).
          sp_tiled_norm stat_slots (if i + tI \<le> nI then t_I else I - of_nat i) (if j + tJ \<le> nJ then t_J else J - of_nat j)
            (inp + (of_nat i * J + of_nat j) * 4) (out + (of_nat i * J + of_nat j)) J J act)
          (pairs (steps nI tI) (\<lambda>_. steps nJ tJ))) (\<lambda>tiles.
        Inr (config @ concat tiles @ gemmini_fence))))"

text \<open>The loop that shrinks the tile; a single row that does not fit ends the program.\<close>

function norm_shrink :: "u64 \<Rightarrow> u64 \<Rightarrow> u64 res" where
  "norm_shrink t_I t_J =
     (if of_nat ACC_ROWS < resadd_acc_rows t_I t_J then
        if 1 < t_I then norm_shrink (t_I - 1) t_J else Inl ExitFailure
      else Inr t_I)"
  by pat_completeness auto
termination
proof (relation "measure (\<lambda>(x, y). unat x)")
  fix x y :: u64
  assume "1 < x"
  then have "unat (x - 1) = unat x - 1" "1 < unat x" by (simp_all add: unat_sub word_less_nat_alt word_le_nat_alt)
  then show "((x - 1, y), (x, y)) \<in> measure (\<lambda>(x, y). unat x)" by simp
qed simp

declare norm_shrink.simps [simp del]

definition tiled_norm_auto :: "'m mmu \<Rightarrow> nat option \<Rightarrow> u64 \<Rightarrow> u64 \<Rightarrow> u64 \<Rightarrow> u64 \<Rightarrow> f32 \<Rightarrow> int \<Rightarrow> tiled_matmul_type_t \<Rightarrow> 'm sim \<Rightarrow> 'm sim res" where
  "tiled_norm_auto M stat_slots I J inp out C_scale act ty s =
     bindE (norm_shrink I J) (\<lambda>t_I.
     if ty = TM_OS then Inl ExitFailure
     else bindE (tiled_norm stat_slots I J t_I J inp out C_scale act) (\<lambda>ops. run_ops M ops s))"

section \<open>The chosen tile\<close>

lemma norm_shrink_ok: "norm_shrink t_I t_J = Inr x \<Longrightarrow> resadd_acc_rows x t_J \<le> of_nat ACC_ROWS \<and> x \<le> t_I \<and> (0 < t_I \<longrightarrow> 0 < x)"
proof (induction t_I t_J rule: norm_shrink.induct)
  case (1 t_I t_J)
  show ?case
  proof (cases "of_nat ACC_ROWS < resadd_acc_rows t_I t_J")
    case True
    then have l: "1 < t_I" and r: "norm_shrink (t_I - 1) t_J = Inr x" using "1.prems" by (simp_all add: norm_shrink.simps [of t_I] split: if_splits)
    have "0 < t_I - 1" "t_I - 1 \<le> t_I" using l by (simp_all add: word_less_nat_alt word_le_nat_alt unat_sub)
    then show ?thesis using "1.IH" [OF True l r] by auto
  qed (use "1.prems" in \<open>auto simp: norm_shrink.simps [of t_I]\<close>)
qed

text \<open>In a build without normalisations nothing is issued for a tile.\<close>

lemma norm_unsupported:
  assumes "0 < I" "0 < J"
  shows "\<exists>e. tiled_norm_auto M None I J inp out C_scale act ty s = Inl e"
proof -
  have nz: "0 < unat I" "0 < unat J" using assms by (simp_all add: unat_gt_0)
  have "\<exists>e. tiled_norm None I J t_I J inp out C_scale act = Inl e" if "0 < t_I" for t_I
  proof -
    have t: "0 < unat t_I" using that by (simp add: unat_gt_0)
    have "pairs (steps (unat I) (unat t_I)) (\<lambda>_. steps (unat J) (unat J)) \<noteq> []"
    proof -
      have "steps n k \<noteq> []" if "0 < n" "0 < k" for n k :: nat using that by (simp add: steps_def Suc_le_eq div_greater_zero_iff)
      then show ?thesis using nz t by (auto simp: pairs_def)
    qed
    then obtain x xs where e: "pairs (steps (unat I) (unat t_I)) (\<lambda>_. steps (unat J) (unat J)) = x # xs" by (cases "pairs (steps (unat I) (unat t_I)) (\<lambda>_. steps (unat J) (unat J))") auto
    then show ?thesis
      using nz t by (cases "norm_config J C_scale act") (simp_all add: tiled_norm_def Let_def e sp_tiled_norm_def split_def)
  qed
  then have "\<exists>e. bindE (tiled_norm None I J t_I J inp out C_scale act) (\<lambda>ops. run_ops M ops s) = Inl e" if "0 < t_I" for t_I
    using that by fastforce
  then show ?thesis using norm_shrink_ok [of I J] assms by (cases "norm_shrink I J") (auto simp: tiled_norm_auto_def)
qed

end
