(* ===== verification/Spec2Isabelle.thy ===== *)
theory Spec2Isabelle
  imports Sim_Properties Driver_Properties System_Properties Conv_Properties Network_Properties Driver_Norm
begin

text \<open>
  Gemmini is a systolic-array matrix accelerator that a RISC-V processor drives by custom
  instructions. Three parts of the repository carry its logic in software, and they are modelled
  here: the functional simulator that Spike loads (\<open>software/libgemmini\<close>: \<open>gemmini.cc\<close>,
  \<open>gemmini.h\<close>, \<open>gemmini_params.h\<close>), the C driver of the test programs
  (\<open>software/gemmini-rocc-tests/include/gemmini.h\<close>, \<open>gemmini_counter.h\<close>), and in the same directory
  the layers of neural networks that are built on the driver (\<open>gemmini_nn.h\<close>, \<open>gemmini_testutils.h\<close>) with
  the detection network YOLOv11n (\<open>shen_yolov11n_ops.h\<close>, \<open>_preprocess.h\<close>, \<open>_modules.h\<close>). A layer calls the driver
  and computes the rest on the processor; the driver packs operands and issues instructions; the
  dispatcher of the simulator decodes and executes them on scratchpad, accumulator and main memory.

  \<^bold>\<open>The simulator.\<close> Its state \<open>gemmini_state_t\<close> is the record \<open>gemmini_state\<close>; \<open>sim\<close> adds the
  memory behind Spike's MMU. Integers are words of their width, floats are IEEE binary32 by their
  bits (\<open>Gemmini_Float\<close>), an operation returns a state or an \<open>error\<close>: \<open>std::out_of_range\<close>, a failed
  assertion, \<open>exit(1)\<close>, a memory trap, an illegal instruction, or behaviour C++ leaves undefined.
  Sums and products of \<open>acc_t\<close> wrap around.

  \<^item> \<open>Gemmini_Prelude\<close>: results, loops with their invariant rules, the locales of cell stores,
    frames and machines. \<open>Gemmini_Params\<close>: \<open>gemmini_params.h\<close> with the rounding macros.
    \<open>Gemmini_State\<close>: the state, its well-formedness, \<open>reset\<close>.
  \<^item> \<open>Gemmini_Dram\<close>: \<open>read_from_dram\<close>, \<open>write_to_dram\<close>; the MMU is a parameter, a pair of partial
    byte operations, of which the properties assume plain memory (\<open>mmu_ok\<close>).
  \<^item> \<open>Gemmini_Scale\<close>, \<open>Gemmini_Norm\<close>: scaling, activation, the normalisation unit.
    \<open>Gemmini_Move\<close>: \<open>mvin\<close>, \<open>mvout\<close>. \<open>Gemmini_Compute\<close>: \<open>preload\<close>, \<open>compute\<close>, \<open>compute_cisc\<close>.
    \<open>Gemmini_Config\<close>: \<open>config\<close> and the loop registers. \<open>Gemmini_Counter\<close>: the counters.
    \<open>Gemmini_Loop_WS\<close>, \<open>Gemmini_Loop_Conv\<close>: the hardware loops. \<open>Gemmini_Dispatch\<close>: \<open>custom3\<close>.
    \<open>Gemmini_Blind\<close>: no other operation looks at the counters or changes them.
  \<^item> \<open>Gemmini_Move_Correct\<close>, \<open>Gemmini_Compute_Correct\<close>, \<open>Gemmini_Norm_Correct\<close>,
    \<open>Gemmini_Loop_Correct\<close>: what these operations compute. \<open>Gemmini_Blocks\<close>: matrices in memory and
    the parts of them that a loop moves. \<open>Gemmini_Resadd_Correct\<close>, \<open>Gemmini_Product_Correct\<close>,
    \<open>Gemmini_WS_Correct\<close>: \<open>loop_ws\<close> adds and multiplies. \<open>Gemmini_Example\<close>: the accelerator the
    witnesses run on.

  The loops of \<open>loop_conv_ws\<close> count in 16-bit integers that may wrap around. They run with fuel
  \<open>2 ^ 16\<close>, as many rounds as there are values of the counter, and \<open>loop_u16_fuel\<close> shows that a
  loop which returns at all returns within it.

  \<^bold>\<open>The driver.\<close> A function of the driver yields the list of operations it issues; functions that also
  compute on the processor work on the memory of the simulator. \<open>size_t\<close> values and addresses are
  64-bit words; \<open>int\<close>s are integers, reduced to 32 bits where the source adds or multiplies.

  \<^item> \<open>Driver_Encode\<close>: the macros, each the list of operations it issues. \<open>Driver_Issue\<close> runs such a list
    on the simulator and shows that every packed field arrives. It runs the operations without the dispatcher;
    \<open>Driver_Program\<close>: through \<open>custom3\<close>, with its reset on first use and its increments of the counters, they
    do the same to everything but the counters. \<open>Driver_Double\<close>: the \<open>double\<close>
    arithmetic of the driver.
  \<^item> \<open>Driver_Matmul\<close>: the functions for one tile and \<open>tiled_matmul_outer\<close>; \<open>Driver_Cpu\<close>: the matrix
    multiplication on the processor; \<open>Driver_Tiling\<close>: the checks of \<open>tiled_matmul\<close> and the choice of
    tiling factors by \<open>tiled_matmul_auto\<close>. \<open>Driver_Tiling_Correct\<close>: the choice ends, fits and covers.
    \<open>Driver_Matmul_Correct\<close>, \<open>Driver_Cpu_Correct\<close>: the tiled product on the accelerator, tiles kept in
    the scratchpad included, and the product on the processor compute the same matrix.
  \<^item> \<open>Driver_Resadd\<close>: residual addition and global average; \<open>Driver_Resadd_Correct\<close>: the tiled addition.
    \<open>Driver_Norm\<close>: the normalisations.
  \<^item> \<open>Driver_Conv_Cpu\<close>: the convolutions on the processor, with and without pooling and depthwise;
    \<open>Driver_Conv\<close>: the tiled ones, the search for a tile and the downsampling convolution.
    \<open>Driver_Conv_Correct\<close>: the search ends with a tile that is accepted. \<open>Driver_Downsample_Correct\<close>: the
    downsampling convolution is a sequence of matrix products. \<open>Driver_Example\<close>: memory for witnesses.

  The searches for tiling factors are loops without a bound: \<open>None\<close> is a search that does not end, and
  that they return is proved (\<open>auto_tiling_ends\<close>, \<open>conv_tiling_ends\<close>).

  \<^bold>\<open>The network.\<close> A function that only computes on the processor maps a memory to a memory or an
  error; a layer that uses the accelerator maps a state of the simulator, with \<open>None\<close> where a
  search of the driver would not end. Tensors, matrices and parameters are addresses, as in the source.

  Float expressions, in the network and in the scaling macros that driver and simulator share, are computed one
  operation at a time and rounded after each. This is an assumption on the compiler: the Makefiles of the test programs pass
  \<open>-O2 -ffast-math\<close>, which also allows a division by a loop invariant to become a product with its reciprocal (the
  quantisation, the coordinates of the letterbox) and the product and the subtraction of \<open>ROUND_NEAR_EVEN\<close> to be fused. The
  theorems on float results hold for code compiled without such rewriting.

  \<^item> \<open>Test_Utils\<close>: \<open>gemmini_testutils.h\<close>. \<open>Nn_Layers\<close>: \<open>gemmini_nn.h\<close>; the address of the local array that the
    self-check of a product fills is an argument. \<open>Yolo_Ops\<close>: the operators. \<open>Yolo_Preprocess\<close>: the
    letterboxes and the quantisation of the input. \<open>Yolo_Modules\<close>: the layers and the modules C3k2, SPPF and C2PSA.
  \<^item> \<open>Tensors\<close>: tensors and arrays in memory, room for them, and what a loop over them writes and keeps.
    \<open>Float_Error\<close>: the rounding error of each float operation, on which the results about floats rest.
  \<^item> \<open>Yolo_Ops_Correct\<close>, \<open>Yolo_Pool_Correct\<close>: the operators on tensors, and that poolings one after the other are
    one pooling with a larger window. \<open>Yolo_Quant_Correct\<close>: quantisation. \<open>Yolo_Silu_Correct\<close>: the exponential and
    the table of the activation are defined for all inputs. \<open>Yolo_Image_Correct\<close>, \<open>Yolo_Box_Correct\<close>: the input image.
  \<^item> \<open>Yolo_Layers_Correct\<close>: a 1x1 convolution on the accelerator followed by its activation.
    \<open>Yolo_Sppf_Correct\<close>: the module SPPF. \<open>Nn_Layers_Correct\<close>: \<open>im2col\<close> and the pooling of the layer library, each
    for tensors and for matrices of pixels, compute the matrix of patches and the maxima of the windows.

  The theorems about layers assume buffers that do not overlap and an accelerator between two
  instruction streams (\<open>idle\<close>); those about floats assume scales between \<open>2 ^ (-100)\<close> and \<open>2 ^ 100\<close>
  or narrower (\<open>scale_ok\<close>), those about images at most \<open>2 ^ 20\<close> rows and columns.

  \<^bold>\<open>The properties.\<close> \<open>System_Properties\<close>: \<open>loop_ws\<close> computes the matrix product, and driver and simulator
  together leave the bytes in memory that the processor leaves; the operations of the driver may go through the dispatcher. \<open>Conv_Properties\<close>: the same for the
  downsampling convolution; the tile of a convolution is found and accepted, except where search
  and check disagree; pooling over one pixel is no pooling. \<open>Sim_Properties\<close>: the moves
  move, the array multiplies in both dataflows, the rounding is round-half-to-even where it is; the mean of a row is
  gathered without writing memory; a snapshot of the counters holds through every program until it is given up; the tiles of
  \<open>loop_ws\<close> do not overlap; and where the code leaves its arrays. \<open>Driver_Properties\<close>: driver and simulator agree on the
  encoding, the tiling of a product is accepted by the driver's and the simulator's checks and
  its tiles cover the matrices, and the residual addition computes what the processor computes.
  \<open>Network_Properties\<close>: a product that checks itself never fails the check; SPPF computes the convolution of a
  pyramid of poolings and keeps the rest of memory; the patch matrix and the pooling of the layer library, the operators, the activation by table, the
  round trips of channels and of quantisation; the letterbox stays inside image and canvas.

  \<^bold>\<open>Open.\<close> Modelled, but without a theorem on the values they compute: the hardware loop \<open>loop_conv_ws\<close> and with it
  the tiled convolution, the 3x3 layers and the modules C3k2 and C2PSA; the transposed and the
  output-stationary tiled products; the bilinear letterbox; the accuracy of the float operators (softmax, sigmoid,
  float products).

  \<^bold>\<open>Not modelled.\<close> Debug output; Spike itself (instruction word, register file and MMU are
  parameters) and the inline assembly that issues an instruction; the configurations of the
  header in which elements are floats; in the matrix multiplication of the processor the code under
  \<open>HAS_NORMALIZATIONS\<close>, which the parameter header does not define, and the commented-out bodies of
  the driver; of the network, the buffers and weights and the macro that collects them, which are data;
  the functions that print; the test programs, which call the modelled functions on test data; and
  the ONNX Runtime fork, a third-party code base with a copy of the driver.
\<close>

end
